(* ===== verification/OrbitPrelude.thy ===== *)
theory OrbitPrelude
  imports Complex_Main
begin

text \<open>
  Shared ground of the development: the JavaScript values the broker's code inspects, the
  result type of a function that may throw, the string and array operations of the standard
  library that the code uses, and the generic lemmas the component theories share.

  Strings are \<^typ>\<open>string\<close>. Where the source measures UTF-8 bytes the model counts them from
  the code units (\<open>utf8_bytes\<close>); code units of the model are below 256, so text outside
  Latin-1 is not represented except where a theory says so. Numbers are rationals plus the
  three special values; an arithmetic result of the code is an exact rational here, which is
  the value of the double whenever the operands are integers in the safe range. Where digits may
  be lost the result is rounded (theory \<open>Doubles\<close>).
\<close>

named_theorems guard_simps \<open>unfolding rules for the small validity tests\<close>
named_theorems step_simps \<open>equations of the state-changing operations\<close>

section \<open>Results\<close>

type_synonym ('e, 'a) result = "'e + 'a"

abbreviation Err :: "'e \<Rightarrow> ('e, 'a) result" where "Err \<equiv> Inl"
abbreviation Ok :: "'a \<Rightarrow> ('e, 'a) result" where "Ok \<equiv> Inr"

definition and_then :: "('e, 'a) result \<Rightarrow> ('a \<Rightarrow> ('e, 'b) result) \<Rightarrow> ('e, 'b) result" where
  "and_then r f = (case r of Inl e \<Rightarrow> Inl e | Inr a \<Rightarrow> f a)"

definition ensure :: "bool \<Rightarrow> 'e \<Rightarrow> ('e, unit) result" where
  "ensure b e = (if b then Ok () else Err e)"

lemma and_then_simps [simp]:
  "and_then (Inl e) f = Inl e" "and_then (Inr a) f = f a"
  by (simp_all add: and_then_def)

lemma and_then_Ok_iff: "and_then r f = Inr b \<longleftrightarrow> (\<exists>a. r = Inr a \<and> f a = Inr b)"
  by (cases r) auto

lemma and_then_Err_iff: "and_then r f = Inl e \<longleftrightarrow> r = Inl e \<or> (\<exists>a. r = Inr a \<and> f a = Inl e)"
  by (cases r) auto

lemma ensure_Ok_iff [simp]: "ensure b e = Inr u \<longleftrightarrow> b"
  by (simp add: ensure_def)

lemma ensure_Err_iff [simp]: "ensure b e = Inl e' \<longleftrightarrow> \<not> b \<and> e = e'"
  by (simp add: ensure_def)

text \<open>The array method \<open>map\<close> with a callback that may throw: the first throw ends it.\<close>

fun map_result :: "('a \<Rightarrow> ('e, 'b) result) \<Rightarrow> 'a list \<Rightarrow> ('e, 'b list) result" where
  "map_result f [] = Ok []"
| "map_result f (x # xs) =
     and_then (f x) (\<lambda>y. and_then (map_result f xs) (\<lambda>ys. Ok (y # ys)))"

lemma map_result_length: "map_result f xs = Inr ys \<Longrightarrow> length ys = length xs"
  by (induction xs arbitrary: ys) (auto simp: and_then_Ok_iff)

lemma map_result_set: "map_result f xs = Inr ys \<Longrightarrow> y \<in> set ys \<Longrightarrow> \<exists>x \<in> set xs. f x = Inr y"
  by (induction xs arbitrary: ys) (auto simp: and_then_Ok_iff)

lemma map_result_all:
  assumes "map_result f xs = Inr ys" and "\<And>x y. f x = Inr y \<Longrightarrow> P y"
  shows "\<forall>y \<in> set ys. P y"
  using map_result_set [OF assms(1)] assms(2) by blast

section \<open>Numbers and values of the language\<close>

datatype jnum = Fin rat | PosInf | NegInf | NaN

text \<open>
  A value as the code sees it. \<open>JRef i\<close> is an object used by its identity only (an authority,
  a conversation or a channel key, made by \<open>Object.freeze({})\<close>): it has no own property.
\<close>

datatype jsval =
    Undef
  | Null
  | JBool bool
  | JNum jnum
  | JStr string
  | JArr "jsval list"
  | JObj "(string \<times> jsval) list"
  | JRef nat
  | JFun nat

type_synonym jsobj = "(string \<times> jsval) list"

definition jint :: "int \<Rightarrow> jsval" where
  "jint n = JNum (Fin (of_int n))"

definition integral :: "rat \<Rightarrow> bool" where
  "integral r \<longleftrightarrow> of_int \<lfloor>r\<rfloor> = r"

lemma integral_of_int [simp]: "integral (of_int n)"
  by (simp add: integral_def)

lemma integral_numeral [simp]: "integral (numeral n)" "integral 0" "integral 1"
  by (simp_all add: integral_def)

lemma integral_floor: "integral r \<Longrightarrow> of_int \<lfloor>r\<rfloor> = r"
  by (simp add: integral_def)

definition max_safe :: int where
  "max_safe = 9007199254740991"

definition is_finite_num :: "jsval \<Rightarrow> bool" where
  "is_finite_num v = (case v of JNum (Fin r) \<Rightarrow> True | _ \<Rightarrow> False)"

definition is_integer :: "jsval \<Rightarrow> bool" where
  "is_integer v = (case v of JNum (Fin r) \<Rightarrow> integral r | _ \<Rightarrow> False)"

definition is_safe_integer :: "jsval \<Rightarrow> bool" where
  "is_safe_integer v =
     (case v of JNum (Fin r) \<Rightarrow> integral r \<and> \<bar>\<lfloor>r\<rfloor>\<bar> \<le> max_safe | _ \<Rightarrow> False)"

text \<open>The integer of a value that passed \<open>Number.isInteger\<close>.\<close>

definition int_of_val :: "jsval \<Rightarrow> int" where
  "int_of_val v = (case v of JNum (Fin r) \<Rightarrow> \<lfloor>r\<rfloor> | _ \<Rightarrow> 0)"

lemma is_safe_integer_jint [simp]: "is_safe_integer (jint n) \<longleftrightarrow> \<bar>n\<bar> \<le> max_safe"
  by (simp add: is_safe_integer_def jint_def)

lemma is_integer_jint [simp]: "is_integer (jint n)"
  by (simp add: is_integer_def jint_def)

lemma int_of_val_jint [simp]: "int_of_val (jint n) = n"
  by (simp add: int_of_val_def jint_def)

lemma is_finite_num_jint [simp]: "is_finite_num (jint n)"
  by (simp add: is_finite_num_def jint_def)

lemma safe_integer_is_jint: "is_safe_integer v \<Longrightarrow> v = jint (int_of_val v)"
  by (auto simp: is_safe_integer_def int_of_val_def jint_def integral_def split: jsval.splits jnum.splits)

lemma integer_is_jint: "is_integer v \<Longrightarrow> v = jint (int_of_val v)"
  by (auto simp: is_integer_def int_of_val_def jint_def integral_def split: jsval.splits jnum.splits)

definition js_round :: "rat \<Rightarrow> int" where
  "js_round r = \<lfloor>r + 1 / 2\<rfloor>"

section \<open>Objects and arrays\<close>

text \<open>\<open>o[k]\<close>: the value of an own property, or \<open>undefined\<close>.\<close>

definition getp :: "jsobj \<Rightarrow> string \<Rightarrow> jsval" where
  "getp fs k = (case map_of fs k of None \<Rightarrow> Undef | Some v \<Rightarrow> v)"

definition has_own :: "jsobj \<Rightarrow> string \<Rightarrow> bool" where
  "has_own fs k \<longleftrightarrow> k \<in> fst ` set fs"

text \<open>\<open>value !== null && typeof value === "object" && !Array.isArray(value)\<close>\<close>

definition is_object :: "jsval \<Rightarrow> bool" where
  "is_object v = (case v of JObj fs \<Rightarrow> True | JRef i \<Rightarrow> True | _ \<Rightarrow> False)"

definition as_object :: "jsval \<Rightarrow> jsobj option" where
  "as_object v = (case v of JObj fs \<Rightarrow> Some fs | JRef i \<Rightarrow> Some [] | _ \<Rightarrow> None)"

lemma is_object_iff: "is_object v \<longleftrightarrow> as_object v \<noteq> None"
  by (auto simp: is_object_def as_object_def split: jsval.splits)

definition is_string :: "jsval \<Rightarrow> bool" where
  "is_string v = (case v of JStr s \<Rightarrow> True | _ \<Rightarrow> False)"

definition is_bool :: "jsval \<Rightarrow> bool" where
  "is_bool v = (case v of JBool b \<Rightarrow> True | _ \<Rightarrow> False)"

definition is_function :: "jsval \<Rightarrow> bool" where
  "is_function v = (case v of JFun i \<Rightarrow> True | _ \<Rightarrow> False)"

definition str_of :: "jsval \<Rightarrow> string" where
  "str_of v = (case v of JStr s \<Rightarrow> s | _ \<Rightarrow> [])"

lemma is_string_simps [simp]: "is_string (JStr s)" "str_of (JStr s) = s" "\<not> is_string Undef"
  by (simp_all add: is_string_def str_of_def)

lemma is_string_str_of: "is_string v \<Longrightarrow> v = JStr (str_of v)"
  by (auto simp: is_string_def str_of_def split: jsval.splits)

text \<open>\<open>!value\<close> of the language.\<close>

definition falsy :: "jsval \<Rightarrow> bool" where
  "falsy v = (case v of Undef \<Rightarrow> True | Null \<Rightarrow> True | JBool b \<Rightarrow> \<not> b
     | JNum n \<Rightarrow> n = Fin 0 \<or> n = NaN | JStr s \<Rightarrow> s = [] | _ \<Rightarrow> False)"

text \<open>\<open>new Set(xs).size !== xs.length\<close> and the order-keeping \<open>[...new Set(xs)]\<close>.\<close>

fun js_dedup :: "'a list \<Rightarrow> 'a list" where
  "js_dedup [] = []"
| "js_dedup (x # xs) = x # filter (\<lambda>y. y \<noteq> x) (js_dedup xs)"

lemma set_js_dedup [simp]: "set (js_dedup xs) = set xs"
  by (induction xs) auto

lemma distinct_js_dedup [simp]: "distinct (js_dedup xs)"
  by (induction xs) auto

lemma length_js_dedup: "length (js_dedup xs) \<le> length xs"
proof (induction xs)
  case (Cons x xs)
  have "length (filter (\<lambda>y. y \<noteq> x) (js_dedup xs)) \<le> length (js_dedup xs)"
    by (rule length_filter_le)
  also have "\<dots> \<le> length xs" by (rule Cons.IH)
  finally show ?case by simp
qed simp

fun find_index :: "('a \<Rightarrow> bool) \<Rightarrow> 'a list \<Rightarrow> nat option" where
  "find_index P [] = None"
| "find_index P (x # xs) = (if P x then Some 0 else map_option Suc (find_index P xs))"

lemma find_index_Some_iff:
  "find_index P xs = Some k \<longleftrightarrow> k < length xs \<and> P (xs ! k) \<and> (\<forall>j < k. \<not> P (xs ! j))"
proof (induction xs arbitrary: k)
  case (Cons x xs)
  then show ?case by (cases k) (auto simp: All_less_Suc2)
qed simp

lemma find_index_None_iff: "find_index P xs = None \<longleftrightarrow> (\<forall>x \<in> set xs. \<not> P x)"
  by (induction xs) auto

lemma find_index_less: "find_index P xs = Some k \<Longrightarrow> k < length xs"
  by (simp add: find_index_Some_iff)

section \<open>Text\<close>

fun show_nat :: "nat \<Rightarrow> string" where
  "show_nat n = (if n < 10 then [char_of (48 + n)] else show_nat (n div 10) @ [char_of (48 + n mod 10)])"

declare show_nat.simps [simp del]

definition show_int :: "int \<Rightarrow> string" where
  "show_int i = (if i < 0 then CHR ''-'' # show_nat (nat (- i)) else show_nat (nat i))"

definition code :: "char \<Rightarrow> nat" where
  "code c = of_char c"

definition between :: "char \<Rightarrow> char \<Rightarrow> char \<Rightarrow> bool" where
  "between lo hi c \<longleftrightarrow> code lo \<le> code c \<and> code c \<le> code hi"

abbreviation is_digit :: "char \<Rightarrow> bool" where "is_digit \<equiv> between CHR ''0'' CHR ''9''"
abbreviation is_lower :: "char \<Rightarrow> bool" where "is_lower \<equiv> between CHR ''a'' CHR ''z''"
abbreviation is_upper :: "char \<Rightarrow> bool" where "is_upper \<equiv> between CHR ''A'' CHR ''Z''"

definition is_lower_hex :: "char \<Rightarrow> bool" where
  "is_lower_hex c \<longleftrightarrow> is_digit c \<or> between CHR ''a'' CHR ''f'' c"

definition is_hex :: "char \<Rightarrow> bool" where
  "is_hex c \<longleftrightarrow> is_lower_hex c \<or> between CHR ''A'' CHR ''F'' c"

definition is_control :: "char \<Rightarrow> bool" where
  "is_control c \<longleftrightarrow> code c < 32 \<or> code c = 127"

definition is_printable_ascii :: "char \<Rightarrow> bool" where
  "is_printable_ascii c \<longleftrightarrow> 32 \<le> code c \<and> code c \<le> 126"

text \<open>A regular expression \<open>/^[class]{lo,hi}$/\<close>.\<close>

definition class_string :: "(char \<Rightarrow> bool) \<Rightarrow> nat \<Rightarrow> nat \<Rightarrow> string \<Rightarrow> bool" where
  "class_string P lo hi s \<longleftrightarrow> lo \<le> length s \<and> length s \<le> hi \<and> list_all P s"

definition starts_with :: "'a list \<Rightarrow> 'a list \<Rightarrow> bool" where
  "starts_with s p \<longleftrightarrow> take (length p) s = p"

lemma starts_with_iff: "starts_with s p \<longleftrightarrow> (\<exists>r. s = p @ r)"
  by (metis append_eq_conv_conj append_take_drop_id starts_with_def)

fun includes_text :: "'a list \<Rightarrow> 'a list \<Rightarrow> bool" where
  "includes_text [] p = (p = [])"
| "includes_text (c # s) p = (starts_with (c # s) p \<or> includes_text s p)"

text \<open>\<open>s.split(c)\<close> for a one-character separator.\<close>

fun split_on :: "'a \<Rightarrow> 'a list \<Rightarrow> 'a list list" where
  "split_on c [] = [[]]"
| "split_on c (x # xs) = (if x = c then [] # split_on c xs
     else (case split_on c xs of [] \<Rightarrow> [[x]] | w # ws \<Rightarrow> (x # w) # ws))"

lemma split_on_nonempty [simp]: "split_on c xs \<noteq> []"
  by (induction xs) (auto split: list.splits)

lemma split_on_no_sep: "c \<notin> set xs \<Longrightarrow> split_on c xs = [xs]"
  by (induction xs) auto

lemma split_on_append_sep: "split_on c (xs @ c # ys) = split_on c xs @ split_on c ys"
  by (induction xs) (auto split: list.splits)

lemma split_on_no_sep_inside: "w \<in> set (split_on c xs) \<Longrightarrow> c \<notin> set w"
  by (induction xs arbitrary: w) (auto split: list.splits if_splits)

fun join_with :: "'a \<Rightarrow> 'a list list \<Rightarrow> 'a list" where
  "join_with c [] = []"
| "join_with c [w] = w"
| "join_with c (w # v # ws) = w @ c # join_with c (v # ws)"

lemma join_with_Cons: "ws \<noteq> [] \<Longrightarrow> join_with c (w # ws) = w @ c # join_with c ws"
  by (cases ws) auto

lemma join_with_first: "join_with c ((x # w) # ws) = x # join_with c (w # ws)"
  by (cases ws) auto

lemma join_split [simp]: "join_with c (split_on c xs) = xs"
proof (induction xs)
  case (Cons x xs)
  then show ?case
    by (cases "split_on c xs") (auto simp: join_with_Cons join_with_first)
qed simp

text \<open>ASCII case mapping of the standard library's \<open>toLowerCase\<close> and \<open>toUpperCase\<close>.\<close>

definition lower_char :: "char \<Rightarrow> char" where
  "lower_char c = (if is_upper c then char_of (code c + 32) else c)"

definition upper_char :: "char \<Rightarrow> char" where
  "upper_char c = (if is_lower c then char_of (code c - 32) else c)"

definition upper_text :: "string \<Rightarrow> string" where
  "upper_text s = map upper_char s"

text \<open>White space of \<open>trim\<close>, in the ASCII range.\<close>

definition is_js_space :: "char \<Rightarrow> bool" where
  "is_js_space c \<longleftrightarrow> code c \<in> {9, 10, 11, 12, 13, 32}"

definition js_trim :: "string \<Rightarrow> string" where
  "js_trim s = rev (dropWhile is_js_space (rev (dropWhile is_js_space s)))"

text \<open>\<open>Buffer.byteLength(s)\<close>: a code unit from 128 takes two bytes.\<close>

definition utf8_bytes :: "string \<Rightarrow> nat" where
  "utf8_bytes s = sum_list (map (\<lambda>c. if code c < 128 then 1 else 2) s)"

lemma utf8_bytes_Nil [simp]: "utf8_bytes [] = 0"
  by (simp add: utf8_bytes_def)

lemma utf8_bytes_ge_length: "length s \<le> utf8_bytes s"
  by (induction s) (auto simp: utf8_bytes_def)

lemma utf8_bytes_append: "utf8_bytes (s @ t) = utf8_bytes s + utf8_bytes t"
  by (simp add: utf8_bytes_def)

text \<open>
  \<open>String(value)\<close>. A non-integral number stands for its decimal text: the code compares such
  text with fixed words only, and none of them contains a slash and a digit.
\<close>

fun num_text :: "jnum \<Rightarrow> string" where
  "num_text (Fin r) = (if integral r then show_int \<lfloor>r\<rfloor>
     else show_int (fst (quotient_of r)) @ ''/'' @ show_int (snd (quotient_of r)))"
| "num_text PosInf = ''Infinity''"
| "num_text NegInf = ''-Infinity''"
| "num_text NaN = ''NaN''"

fun js_string :: "jsval \<Rightarrow> string" where
  "js_string Undef = ''undefined''"
| "js_string Null = ''null''"
| "js_string (JBool b) = (if b then ''true'' else ''false'')"
| "js_string (JNum n) = num_text n"
| "js_string (JStr s) = s"
| "js_string (JArr vs) = join_with CHR '',''
     (map (\<lambda>v. if v = Undef \<or> v = Null then [] else js_string v) vs)"
| "js_string (JObj fs) = ''[object Object]''"
| "js_string (JRef i) = ''[object Object]''"
| "js_string (JFun i) = ''function''"

text \<open>
  \<open>String(value)\<close> of a data object: it throws (\<open>None\<close>) when an own property \<open>toString\<close> hides the
  inherited method, because no property of a data object is a function.
\<close>

fun js_text :: "jsval \<Rightarrow> string option" where
  "js_text (JArr vs) =
     map_option (join_with CHR '','')
       (those (map (\<lambda>v. if v = Undef \<or> v = Null then Some [] else js_text v) vs))"
| "js_text (JObj fs) = (if has_own fs ''toString'' then None else Some ''[object Object]'')"
| "js_text v = Some (js_string v)"

text \<open>Tests on field names and characters that several validators share.\<close>

definition only_keys :: "string list \<Rightarrow> jsobj \<Rightarrow> bool" where
  "only_keys ks fs \<longleftrightarrow> list_all (\<lambda>(k, v). k \<in> set ks) fs"

definition is_word_char :: "char \<Rightarrow> bool" where
  "is_word_char c \<longleftrightarrow> is_digit c \<or> is_lower c \<or> is_upper c \<or> c = CHR ''_''"

definition is_word_dash :: "char \<Rightarrow> bool" where
  "is_word_dash c \<longleftrightarrow> is_word_char c \<or> c = CHR ''-''"

section \<open>Association lists in insertion order\<close>

text \<open>
  A \<open>Map\<close> of the language keeps the order of first insertion. \<open>put\<close> updates in place or
  appends, as \<open>Map.prototype.set\<close> does; \<open>del\<close> is \<open>Map.prototype.delete\<close>.
\<close>

fun put :: "'k \<Rightarrow> 'v \<Rightarrow> ('k \<times> 'v) list \<Rightarrow> ('k \<times> 'v) list" where
  "put k v [] = [(k, v)]"
| "put k v ((k', v') # kvs) = (if k' = k then (k, v) # kvs else (k', v') # put k v kvs)"

definition del :: "'k \<Rightarrow> ('k \<times> 'v) list \<Rightarrow> ('k \<times> 'v) list" where
  "del k kvs = filter (\<lambda>(k', v). k' \<noteq> k) kvs"

definition keys :: "('k \<times> 'v) list \<Rightarrow> 'k set" where
  "keys kvs = fst ` set kvs"

lemma keys_simps [simp]: "keys [] = {}" "keys ((k, v) # kvs) = insert k (keys kvs)"
  "keys (kvs @ kvs') = keys kvs \<union> keys kvs'"
  by (auto simp: keys_def)

lemma map_of_put [simp]: "map_of (put k v kvs) = (map_of kvs)(k \<mapsto> v)"
  by (induction kvs) (auto simp: fun_eq_iff)

lemma map_of_del [simp]: "map_of (del k kvs) = (map_of kvs)(k := None)"
  by (induction kvs) (auto simp: del_def fun_eq_iff)

lemma keys_put [simp]: "keys (put k v kvs) = insert k (keys kvs)"
  by (induction kvs) (auto split: if_splits)

lemma keys_del [simp]: "keys (del k kvs) = keys kvs - {k}"
  by (auto simp: del_def keys_def)

lemma keys_dom: "keys kvs = dom (map_of kvs)"
  by (simp add: keys_def dom_map_of_conv_image_fst)

lemma map_of_None_iff: "map_of kvs k = None \<longleftrightarrow> k \<notin> keys kvs"
  by (auto simp: keys_dom)

lemma map_of_Some_key: "map_of kvs k = Some v \<Longrightarrow> k \<in> keys kvs"
  by (auto simp: keys_dom)

text \<open>A map of the language never holds a key twice.\<close>

definition wf_map :: "('k \<times> 'v) list \<Rightarrow> bool" where
  "wf_map kvs \<longleftrightarrow> distinct (map fst kvs)"

lemma wf_map_simps [simp]:
  "wf_map []" "wf_map ((k, v) # kvs) \<longleftrightarrow> k \<notin> keys kvs \<and> wf_map kvs"
  by (auto simp: wf_map_def keys_def)

lemma wf_map_put [simp]: "wf_map kvs \<Longrightarrow> wf_map (put k v kvs)"
  by (induction kvs) auto

lemma wf_map_filter: "wf_map kvs \<Longrightarrow> wf_map (filter P kvs)"
  by (auto simp: wf_map_def distinct_map intro: inj_on_subset)

lemma wf_map_del [simp]: "wf_map kvs \<Longrightarrow> wf_map (del k kvs)"
  unfolding del_def by (rule wf_map_filter)

lemma put_same: "map_of kvs k = Some v \<Longrightarrow> put k v kvs = kvs"
  by (induction kvs) (auto split: if_splits)

lemma put_put [simp]: "put k v (put k w kvs) = put k v kvs"
  by (induction kvs) auto

lemma del_put [simp]: "del k (put k v kvs) = del k kvs"
  by (induction kvs) (auto simp: del_def)

lemma put_fresh: "k \<notin> keys kvs \<Longrightarrow> put k v kvs = kvs @ [(k, v)]"
  by (induction kvs) auto

lemma length_put: "length (put k v kvs) = (if k \<in> keys kvs then length kvs else Suc (length kvs))"
  by (induction kvs) auto

lemma length_del_le: "length (del k kvs) \<le> length kvs"
  by (simp add: del_def)

lemma del_absent: "k \<notin> keys kvs \<Longrightarrow> del k kvs = kvs"
  by (induction kvs) (auto simp: del_def)

lemma del_Cons [simp]: "del k ((k', v) # kvs) = (if k' = k then del k kvs else (k', v) # del k kvs)"
  "del k [] = []"
  by (simp_all add: del_def)

lemma length_del: "wf_map kvs \<Longrightarrow> k \<in> keys kvs \<Longrightarrow> Suc (length (del k kvs)) = length kvs"
  by (induction kvs) (auto simp: del_absent)

lemma map_of_mem_iff: "wf_map kvs \<Longrightarrow> (k, v) \<in> set kvs \<longleftrightarrow> map_of kvs k = Some v"
  unfolding wf_map_def by (metis map_of_eq_Some_iff)

text \<open>A sum over the values of a map changes by exactly the value that changed.\<close>

definition sum_vals :: "('v \<Rightarrow> nat) \<Rightarrow> ('k \<times> 'v) list \<Rightarrow> nat" where
  "sum_vals f kvs = sum_list (map (f \<circ> snd) kvs)"

lemma sum_vals_simps [simp]:
  "sum_vals f [] = 0" "sum_vals f ((k, v) # kvs) = f v + sum_vals f kvs"
  "sum_vals f (kvs @ kvs') = sum_vals f kvs + sum_vals f kvs'"
  by (simp_all add: sum_vals_def)

lemma sum_vals_put:
  "wf_map kvs \<Longrightarrow> sum_vals f (put k v kvs) + (case map_of kvs k of None \<Rightarrow> 0 | Some w \<Rightarrow> f w)
     = sum_vals f kvs + f v"
proof (induction kvs)
  case (Cons kv kvs)
  then show ?case
    by (cases kv) (auto split: option.splits dest: map_of_Some_key)
qed simp

lemma sum_vals_del:
  "wf_map kvs \<Longrightarrow>
     sum_vals f (del k kvs) + (case map_of kvs k of None \<Rightarrow> 0 | Some w \<Rightarrow> f w) = sum_vals f kvs"
  by (induction kvs) (auto simp: del_absent split: option.splits dest: map_of_Some_key)

lemma sum_vals_member_le: "map_of kvs k = Some v \<Longrightarrow> f v \<le> sum_vals f kvs"
  by (induction kvs) (auto split: if_splits)

lemma sum_vals_put_upd:
  assumes "wf_map kvs" and "map_of kvs k = Some w"
  shows "sum_vals f (put k v kvs) = sum_vals f kvs - f w + f v"
  using sum_vals_put [OF assms(1), of f k v] sum_vals_member_le [OF assms(2), of f] assms(2) by simp

lemma sum_vals_del_upd:
  assumes "wf_map kvs" and "map_of kvs k = Some w"
  shows "sum_vals f (del k kvs) = sum_vals f kvs - f w"
  using sum_vals_del [OF assms(1), of f k] assms(2) by simp

lemma sum_vals_put_new:
  assumes "k \<notin> keys kvs"
  shows "sum_vals f (put k v kvs) = sum_vals f kvs + f v"
  using assms by (simp add: put_fresh)

lemma sum_vals_two:
  "wf_map kvs \<Longrightarrow> map_of kvs k = Some v \<Longrightarrow> sum_vals f kvs = f v + sum_vals f (del k kvs)"
  using sum_vals_del [of kvs f k] by simp

section \<open>Machines with a lasting order\<close>

text \<open>
  The stateful components are machines: an operation and a state give the next state. The contract
  they share: an invariant every operation keeps, an order in which every operation advances the
  state, and facts (a handle is dead, a channel is over) that the order never undoes. Such a fact
  then survives every sequence of operations.
\<close>

fun run :: "('op \<Rightarrow> 's \<Rightarrow> 's) \<Rightarrow> 'op list \<Rightarrow> 's \<Rightarrow> 's" where
  "run step [] s = s"
| "run step (op # ops) s = run step ops (step op s)"

lemma run_append: "run step (ops @ ops') s = run step ops' (run step ops s)"
  by (induction ops arbitrary: s) auto

locale aging_machine =
  fixes step :: "'op \<Rightarrow> 's \<Rightarrow> 's"
    and inv :: "'s \<Rightarrow> bool"
    and ages :: "'s \<Rightarrow> 's \<Rightarrow> bool"
    and over :: "'h \<Rightarrow> 's \<Rightarrow> bool"
  assumes step_inv: "inv s \<Longrightarrow> inv (step op s)"
    and step_ages: "inv s \<Longrightarrow> ages s (step op s)"
    and refl: "ages s s"
    and trans: "ages s t \<Longrightarrow> ages t u \<Longrightarrow> ages s u"
    and lasting: "over h s \<Longrightarrow> inv s \<Longrightarrow> ages s s' \<Longrightarrow> over h s'"
begin

lemma run_inv: "inv s \<Longrightarrow> inv (run step ops s)"
  by (induction ops arbitrary: s) (auto intro: step_inv)

lemma run_ages: "inv s \<Longrightarrow> ages s (run step ops s)"
proof (induction ops arbitrary: s)
  case (Cons op ops)
  then show ?case using trans [OF step_ages Cons.IH [OF step_inv]] by simp
qed (simp add: refl)

lemma run_over: "inv s \<Longrightarrow> over h s \<Longrightarrow> over h (run step ops s)"
  by (rule lasting [OF _ _ run_ages])

end

end
