(* ===== verification/OrbitErrors.thy ===== *)
theory OrbitErrors
  imports OrbitPrelude
begin

text \<open>
  The broker's error values: \<open>src/errors.ts\<close> and \<open>src/error-disposition.ts\<close>. An error carries a
  code, a message and a delivery disposition; \<open>normalizeDisposition\<close> reads a disposition out of
  an arbitrary value and accepts the coherent combinations only, so that missing or malformed
  metadata never claims that a retry is safe.
\<close>

section \<open>Dispositions\<close>

datatype delivery = NotDelivered | Delivered | DeliveryUnknown
datatype retry = RetrySafe | RetryUnsafe
datatype suggestion = CorrectRequest | ObserveBeforeRetry | DoNotRetry

record error_disposition =
  delivery :: delivery
  retry :: retry
  suggestion :: suggestion

definition unknown_disposition :: error_disposition where
  "unknown_disposition =
     \<lparr>delivery = DeliveryUnknown, retry = RetryUnsafe, suggestion = ObserveBeforeRetry\<rparr>"

definition preflight_disposition :: error_disposition where
  "preflight_disposition =
     \<lparr>delivery = NotDelivered, retry = RetrySafe, suggestion = CorrectRequest\<rparr>"

definition refused_disposition :: error_disposition where
  "refused_disposition =
     \<lparr>delivery = NotDelivered, retry = RetryUnsafe, suggestion = DoNotRetry\<rparr>"

definition delivery_of :: "jsval \<Rightarrow> delivery option" where
  "delivery_of v =
     (if v = JStr ''not-delivered'' then Some NotDelivered
      else if v = JStr ''delivered'' then Some Delivered
      else if v = JStr ''unknown'' then Some DeliveryUnknown else None)"

definition unsafe_suggestion_of :: "jsval \<Rightarrow> suggestion option" where
  "unsafe_suggestion_of v =
     (if v = JStr ''observe-before-retry'' then Some ObserveBeforeRetry
      else if v = JStr ''do-not-retry'' then Some DoNotRetry else None)"

definition normalize_disposition :: "jsval \<Rightarrow> error_disposition" where
  "normalize_disposition value =
     (case as_object value of
        None \<Rightarrow> unknown_disposition
      | Some candidate \<Rightarrow>
          (case as_object (getp candidate ''disposition'') of
             None \<Rightarrow> unknown_disposition
           | Some d \<Rightarrow>
               if getp d ''delivery'' = JStr ''not-delivered'' \<and> getp d ''retry'' = JStr ''safe''
                  \<and> getp candidate ''suggestion'' = JStr ''correct-request''
               then \<lparr>delivery = NotDelivered, retry = RetrySafe, suggestion = CorrectRequest\<rparr>
               else
                 (case (delivery_of (getp d ''delivery''),
                        unsafe_suggestion_of (getp candidate ''suggestion'')) of
                    (Some dl, Some sg) \<Rightarrow>
                      if getp d ''retry'' = JStr ''unsafe''
                      then \<lparr>delivery = dl, retry = RetryUnsafe, suggestion = sg\<rparr>
                      else unknown_disposition
                  | _ \<Rightarrow> unknown_disposition)))"

text \<open>The value a disposition is in the source, a nested object of fixed words.\<close>

fun delivery_word :: "delivery \<Rightarrow> string" where
  "delivery_word NotDelivered = ''not-delivered''"
| "delivery_word Delivered = ''delivered''"
| "delivery_word DeliveryUnknown = ''unknown''"

fun retry_word :: "retry \<Rightarrow> string" where
  "retry_word RetrySafe = ''safe''"
| "retry_word RetryUnsafe = ''unsafe''"

fun suggestion_word :: "suggestion \<Rightarrow> string" where
  "suggestion_word CorrectRequest = ''correct-request''"
| "suggestion_word ObserveBeforeRetry = ''observe-before-retry''"
| "suggestion_word DoNotRetry = ''do-not-retry''"

definition disposition_value :: "error_disposition \<Rightarrow> jsval" where
  "disposition_value d = JObj
     [(''disposition'', JObj [(''delivery'', JStr (delivery_word (delivery d))),
                              (''retry'', JStr (retry_word (retry d)))]),
      (''suggestion'', JStr (suggestion_word (suggestion d)))]"

text \<open>A disposition is coherent when a safe retry comes with proof of non-delivery only.\<close>

definition coherent :: "error_disposition \<Rightarrow> bool" where
  "coherent d \<longleftrightarrow>
     (retry d = RetrySafe \<longrightarrow> delivery d = NotDelivered \<and> suggestion d = CorrectRequest)
     \<and> (retry d = RetryUnsafe \<longrightarrow> suggestion d \<noteq> CorrectRequest)"

lemma coherent_constants [simp]:
  "coherent unknown_disposition" "coherent preflight_disposition" "coherent refused_disposition"
  by (simp_all add: coherent_def unknown_disposition_def preflight_disposition_def
      refused_disposition_def)

lemma normalize_coherent: "coherent (normalize_disposition v)"
  by (auto simp: normalize_disposition_def coherent_def unknown_disposition_def
      unsafe_suggestion_of_def split: option.splits)

lemma normalize_value: "coherent d \<Longrightarrow> normalize_disposition (disposition_value d) = d"
  by (cases d; cases "delivery d"; cases "retry d"; cases "suggestion d")
    (simp_all add: normalize_disposition_def disposition_value_def coherent_def as_object_def
      getp_def delivery_of_def unsafe_suggestion_of_def)

section \<open>Errors\<close>

record orbit_error =
  err_code :: string
  err_message :: string
  diagnostic_id :: "string option"
  err_disposition :: error_disposition

text \<open>The constructor: the metadata argument is absent (\<open>None\<close>) or an arbitrary value.\<close>

definition new_orbit_error :: "string \<Rightarrow> string \<Rightarrow> string option \<Rightarrow> jsval option \<Rightarrow> orbit_error" where
  "new_orbit_error c m did metadata =
     \<lparr>err_code = c, err_message = m, diagnostic_id = did,
      err_disposition = normalize_disposition (case metadata of None \<Rightarrow> Undef | Some v \<Rightarrow> v)\<rparr>"

definition plain_error :: "string \<Rightarrow> string \<Rightarrow> orbit_error" where
  "plain_error c m = new_orbit_error c m None None"

abbreviation invalid_request :: "string \<Rightarrow> orbit_error" where
  "invalid_request m \<equiv> plain_error ''INVALID_REQUEST'' m"

lemma plain_error_simps [simp]:
  "err_code (plain_error c m) = c" "err_message (plain_error c m) = m"
  "diagnostic_id (plain_error c m) = None"
  by (simp_all add: plain_error_def new_orbit_error_def)

lemma err_code_orbit_error [simp]: "err_code (new_orbit_error c m i d) = c"
  by (simp add: new_orbit_error_def)

text \<open>Whatever reaches a \<open>catch\<close>: an error of the broker's class, a timeout, or something else.\<close>

datatype thrown = Orbit orbit_error | TimeoutError | OtherError

record client_error =
  pay_code :: string
  pay_message :: string
  pay_diagnostic :: "string option"
  pay_disposition :: error_disposition

definition error_payload :: "thrown option \<Rightarrow> string \<Rightarrow> string \<Rightarrow> client_error" where
  "error_payload e fallback_code fallback_message =
     (case e of
        Some (Orbit x) \<Rightarrow>
          \<lparr>pay_code = err_code x, pay_message = err_message x, pay_diagnostic = diagnostic_id x,
           pay_disposition = normalize_disposition (disposition_value (err_disposition x))\<rparr>
      | _ \<Rightarrow>
          \<lparr>pay_code = fallback_code, pay_message = fallback_message, pay_diagnostic = None,
           pay_disposition = normalize_disposition Undef\<rparr>)"

definition js_record :: "jsval \<Rightarrow> (orbit_error, jsobj) result" where
  "js_record v = (case as_object v of None \<Rightarrow> Err (invalid_request ''Expected an object'')
     | Some fs \<Rightarrow> Ok fs)"

definition text_field :: "jsval \<Rightarrow> string \<Rightarrow> (orbit_error, string) result" where
  "text_field v field =
     (if \<not> is_string v \<or> str_of v = [] \<or> length (str_of v) > 16384
      then Err (invalid_request (''Invalid '' @ field)) else Ok (str_of v))"

lemma text_field_Ok: "text_field v f = Inr s \<longleftrightarrow> v = JStr s \<and> s \<noteq> [] \<and> length s \<le> 16384"
  by (auto simp: text_field_def is_string_def str_of_def split: jsval.splits)

lemma js_record_Ok: "js_record v = Inr fs \<longleftrightarrow> as_object v = Some fs"
  by (auto simp: js_record_def split: option.splits)

section \<open>Properties\<close>

text \<open>
  \<open>normalizeDisposition\<close> never reports a safe retry except for the one coherent tuple, and
  it returns every coherent disposition unchanged, so rebuilding an error from another error's
  metadata (as \<open>errorPayload\<close> and the session code do) neither invents nor loses a retry claim.
\<close>

theorem disposition_roundtrip:
  "coherent (normalize_disposition v)
   \<and> normalize_disposition (disposition_value (normalize_disposition v)) = normalize_disposition v
   \<and> (retry (normalize_disposition v) = RetrySafe
        \<longleftrightarrow> normalize_disposition v = preflight_disposition)
   \<and> pay_disposition (error_payload (Some (Orbit (new_orbit_error c m i (Some v)))) fc fm)
       = normalize_disposition v"
proof -
  have rt: "normalize_disposition (disposition_value (normalize_disposition v)) = normalize_disposition v"
    by (rule normalize_value [OF normalize_coherent])
  moreover have "retry (normalize_disposition v) = RetrySafe
      \<longleftrightarrow> normalize_disposition v = preflight_disposition"
    using normalize_coherent [of v] by (auto simp: coherent_def preflight_disposition_def)
  ultimately show ?thesis
    by (simp add: normalize_coherent error_payload_def new_orbit_error_def)
qed

end
