(* ===== verification/Arbitration.thy ===== *)
theory Arbitration
  imports OrbitErrors
begin

text \<open>
  \<open>src/arbitration.ts\<close>: who waits for an application and in which order (\<open>WaitQueue\<close>), the busy
  answer, the \<open>wait\<close> argument, the workspace pool and the choice of a free workspace, and the
  grace period of a disconnected adapter.

  The queue's \<open>Date.now\<close> is one sample per call, an argument of each operation.
\<close>

section \<open>Answers\<close>

definition duration :: "rat \<Rightarrow> string" where
  "duration seconds =
     (if seconds < 90 then show_int (max 0 (js_round seconds)) @ '' s''
      else if seconds < 5400 then show_int (js_round (seconds / 60)) @ '' min''
      else show_int (js_round (seconds / 3600)) @ '' h'')"

record holder =
  hd_label :: string
  hd_task :: string
  hd_idle :: rat
  hd_alive :: "bool option"
  hd_state :: string

definition busy_message :: "holder option \<Rightarrow> (nat \<times> nat) option \<Rightarrow> string option \<Rightarrow> string" where
  "busy_message h queue detail =
     (let t = (case h of
          Some x \<Rightarrow>
            (let alive_text = (case hd_alive x of
                 Some False \<Rightarrow> ''its adapter is gone, so it is an orphan and is stopped after its grace period''
               | Some True \<Rightarrow> ''its adapter is alive''
               | None \<Rightarrow> ''its adapter is not tracked'')
             in ''Application client is already leased by '' @ hd_label x @ '' (task \"'' @ hd_task x @ ''\", ''
                @ hd_state x @ '', idle '' @ duration (hd_idle x) @ ''); '' @ alive_text)
        | None \<Rightarrow> (case detail of Some d \<Rightarrow> d
             | None \<Rightarrow> ''Application client is already leased or native lease capacity is reached''));
       t' = (case queue of Some (position, waiting) \<Rightarrow>
               t @ ''. You are number '' @ show_nat position @ '' of '' @ show_nat waiting @ '' waiting for it''
             | None \<Rightarrow> t)
     in t' @ ''. Ask the holder to stop its session, pick another application window, or retry with wait to queue for it.'')"

section \<open>The wait queue\<close>

record waiter =
  caller_id :: string
  since :: int
  seen :: int

type_synonym queues = "(string \<times> waiter list) list"

definition queue_of :: "queues \<Rightarrow> string \<Rightarrow> waiter list" where
  "queue_of qs key = (case map_of qs key of None \<Rightarrow> [] | Some q \<Rightarrow> q)"

definition set_queue :: "string \<Rightarrow> waiter list \<Rightarrow> queues \<Rightarrow> queues" where
  "set_queue key q qs = (if q \<noteq> [] then put key q qs else del key qs)"

definition fresh :: "int \<Rightarrow> int \<Rightarrow> string \<Rightarrow> queues \<Rightarrow> waiter list \<times> queues" where
  "fresh stale_ms now key qs =
     (let q = filter (\<lambda>e. now - seen e < stale_ms) (queue_of qs key) in (q, set_queue key q qs))"

definition place_of :: "string \<Rightarrow> waiter list \<Rightarrow> nat option" where
  "place_of cid q = find_index (\<lambda>e. caller_id e = cid) q"

text \<open>\<open>existing.seen = now\<close> mutates the entry of the array that the map holds as well.\<close>

fun refresh_first :: "string \<Rightarrow> int \<Rightarrow> waiter list \<Rightarrow> waiter list" where
  "refresh_first cid now [] = []"
| "refresh_first cid now (e # q) =
     (if caller_id e = cid then e\<lparr>seen := now\<rparr> # q else e # refresh_first cid now q)"

definition enter :: "int \<Rightarrow> int \<Rightarrow> string \<Rightarrow> string \<Rightarrow> queues \<Rightarrow> (nat \<times> nat) \<times> queues" where
  "enter stale_ms now key cid qs =
     (let (q, qs') = fresh stale_ms now key qs;
          q' = (if place_of cid q \<noteq> None then refresh_first cid now q
                else q @ [\<lparr>caller_id = cid, since = now, seen = now\<rparr>]);
          position = (case place_of cid q' of None \<Rightarrow> 0 | Some k \<Rightarrow> k + 1)
      in ((position, length q'), set_queue key q' qs'))"

definition ahead :: "int \<Rightarrow> int \<Rightarrow> string \<Rightarrow> string \<Rightarrow> queues \<Rightarrow> nat \<times> queues" where
  "ahead stale_ms now key cid qs =
     (let (q, qs') = fresh stale_ms now key qs
      in ((case place_of cid q of None \<Rightarrow> length q | Some k \<Rightarrow> k), qs'))"

definition leave :: "int \<Rightarrow> int \<Rightarrow> string \<Rightarrow> string \<Rightarrow> queues \<Rightarrow> queues" where
  "leave stale_ms now key cid qs =
     (let (q, qs') = fresh stale_ms now key qs
      in set_queue key (filter (\<lambda>e. caller_id e \<noteq> cid) q) qs')"

subsection \<open>The queue as an abstract line of callers\<close>

text \<open>
  The contract of a waiting line, over the callers in order: one place each, newcomers at the
  back, and nobody overtakes. The step of the line is: those who stopped asking drop out (any
  set of callers), then one caller joins, asks or leaves.
\<close>

definition line_of :: "queues \<Rightarrow> string \<Rightarrow> string list" where
  "line_of qs key = map caller_id (queue_of qs key)"

definition line_join :: "string \<Rightarrow> string list \<Rightarrow> string list" where
  "line_join c xs = (if c \<in> set xs then xs else xs @ [c])"

definition before :: "'a \<Rightarrow> 'a \<Rightarrow> 'a list \<Rightarrow> bool" where
  "before a b xs \<longleftrightarrow> (\<exists>us vs ws. xs = us @ a # vs @ b # ws)"

lemma before_filter: "before a b xs \<Longrightarrow> P a \<Longrightarrow> P b \<Longrightarrow> before a b (filter P xs)"
  by (auto simp: before_def) (metis (no_types, lifting) filter.simps(2) filter_append)

lemma before_append: "before a b xs \<Longrightarrow> before a b (xs @ ys)"
  by (auto simp: before_def) (metis append.assoc append_Cons)

lemma before_join: "before a b xs \<Longrightarrow> before a b (line_join c xs)"
  by (simp add: line_join_def before_append)

lemma before_snoc: "a \<in> set xs \<Longrightarrow> before a b (xs @ [b])"
  unfolding before_def by (metis append_Cons append_assoc split_list)

lemma before_pair: "before a b [a, b]"
  unfolding before_def by (metis append_Nil)

lemma before_not_front: "before a b xs \<Longrightarrow> distinct xs \<Longrightarrow> xs = x # ys \<Longrightarrow> x \<noteq> b"
  by (auto simp: before_def Cons_eq_append_conv)

definition wf_queues :: "queues \<Rightarrow> bool" where
  "wf_queues qs \<longleftrightarrow> wf_map qs \<and> (\<forall>k. distinct (line_of qs k))"

lemma wf_queues_distinct: "wf_queues qs \<Longrightarrow> distinct (line_of qs k)"
  by (simp add: wf_queues_def)

lemma queue_of_set_queue: "queue_of (set_queue key q qs) k = (if k = key then q else queue_of qs k)"
  by (auto simp: queue_of_def set_queue_def)

lemma line_of_set_queue:
  "line_of (set_queue key q qs) k = (if k = key then map caller_id q else line_of qs k)"
  by (simp add: line_of_def queue_of_set_queue)

lemma wf_map_set_queue [simp]: "wf_map qs \<Longrightarrow> wf_map (set_queue key q qs)"
  by (simp add: set_queue_def)

definition still_fresh :: "int \<Rightarrow> int \<Rightarrow> string \<Rightarrow> queues \<Rightarrow> waiter list" where
  "still_fresh stale_ms now key qs = filter (\<lambda>e. now - seen e < stale_ms) (queue_of qs key)"

lemma fresh_eq: "fresh st now key qs = (still_fresh st now key qs, set_queue key (still_fresh st now key qs) qs)"
  by (simp add: fresh_def still_fresh_def Let_def)

lemma distinct_still_fresh:
  "wf_queues qs \<Longrightarrow> distinct (map caller_id (still_fresh st now key qs))"
  by (auto simp: still_fresh_def wf_queues_def line_of_def distinct_map_filter)

lemma map_refresh_first [simp]: "map caller_id (refresh_first c now q) = map caller_id q"
  by (induction q) auto

lemma place_of_None: "place_of c q = None \<longleftrightarrow> c \<notin> set (map caller_id q)"
  by (auto simp: place_of_def find_index_None_iff)

lemma place_of_Some: "place_of c q = Some k \<Longrightarrow> k < length q \<and> map caller_id q ! k = c"
  by (auto simp: place_of_def find_index_Some_iff)

lemma place_of_take: "place_of c q = Some k \<Longrightarrow> c \<notin> set (take k (map caller_id q))"
  by (auto simp: place_of_def find_index_Some_iff in_set_conv_nth)

lemma enter_line:
  "line_of (snd (enter st now key c qs)) k =
     (if k = key then line_join c (map caller_id (still_fresh st now key qs)) else line_of qs k)"
  by (auto simp: enter_def fresh_eq Let_def line_of_set_queue line_join_def place_of_None)

lemma ahead_line:
  "line_of (snd (ahead st now key c qs)) k =
     (if k = key then map caller_id (still_fresh st now key qs) else line_of qs k)"
  by (simp add: ahead_def fresh_eq line_of_set_queue)

lemma leave_line:
  "line_of (leave st now key c qs) k =
     (if k = key then filter (\<lambda>x. x \<noteq> c) (map caller_id (still_fresh st now key qs)) else line_of qs k)"
  by (simp add: leave_def fresh_eq line_of_set_queue filter_map comp_def)

text \<open>What the operations answer, and that an entry is renewed.\<close>

lemma place_of_takeWhile:
  "place_of c q = (if c \<in> set (map caller_id q) then Some (length (takeWhile (\<lambda>x. x \<noteq> c) (map caller_id q))) else None)"
  by (induction q) (auto simp: place_of_def)

lemma callers_refresh_first [simp]: "caller_id ` set (refresh_first c now q) = caller_id ` set q"
  by (metis map_refresh_first set_map)

lemma enter_answer:
  "fst (enter st now k c qs) =
     (Suc (length (takeWhile (\<lambda>x. x \<noteq> c) (line_of (snd (enter st now k c qs)) k))), length (line_of (snd (enter st now k c qs)) k))"
proof -
  define q where "q = still_fresh st now k qs"
  define q' where "q' = (if place_of c q \<noteq> None then refresh_first c now q else q @ [\<lparr>caller_id = c, since = now, seen = now\<rparr>])"
  have e: "enter st now k c qs = ((case place_of c q' of None \<Rightarrow> 0 | Some n \<Rightarrow> n + 1, length q'), set_queue k q' (set_queue k q qs))"
    by (simp add: enter_def fresh_eq q_def q'_def Let_def)
  have "c \<in> set (map caller_id q')" by (auto simp: q'_def place_of_None)
  then show ?thesis by (simp add: e line_of_set_queue place_of_takeWhile)
qed

lemma ahead_count:
  "fst (ahead st now k c qs) = length (takeWhile (\<lambda>x. x \<noteq> c) (map caller_id (still_fresh st now k qs)))"
proof -
  have "takeWhile (\<lambda>x. x \<noteq> c) xs = xs" if "c \<notin> set xs" for xs using that by (induction xs) auto
  from arg_cong [OF this [of "map caller_id (still_fresh st now k qs)"], of length] show ?thesis
    by (auto simp: ahead_def fresh_eq place_of_takeWhile)
qed

lemma refresh_first_renews: "c \<in> set (map caller_id q) \<Longrightarrow> \<exists>e \<in> set (refresh_first c now q). caller_id e = c \<and> seen e = now"
  by (induction q) auto

lemma enter_renews: "\<exists>e \<in> set (queue_of (snd (enter st now k c qs)) k). caller_id e = c \<and> seen e = now"
  using refresh_first_renews [of c "still_fresh st now k qs" now]
  by (auto simp: enter_def fresh_eq Let_def queue_of_set_queue place_of_None)

lemma other_queues:
  assumes "k' \<noteq> k"
  shows "queue_of (snd (enter st now k c qs)) k' = queue_of qs k'" "queue_of (leave st now k c qs) k' = queue_of qs k'"
    "queue_of (snd (ahead st now k c qs)) k' = queue_of qs k'"
  using assms by (simp_all add: enter_def leave_def ahead_def fresh_eq Let_def queue_of_set_queue)

lemma distinct_line_join: "distinct xs \<Longrightarrow> distinct (line_join c xs)"
  by (simp add: line_join_def)

text \<open>The waiting line as an interface: what the session layer relies on.\<close>

locale waiting_line =
  fixes join :: "'t \<Rightarrow> 'k \<Rightarrow> 'c \<Rightarrow> 's \<Rightarrow> (nat \<times> nat) \<times> 's"
    and ask :: "'t \<Rightarrow> 'k \<Rightarrow> 'c \<Rightarrow> 's \<Rightarrow> nat \<times> 's"
    and quit :: "'t \<Rightarrow> 'k \<Rightarrow> 'c \<Rightarrow> 's \<Rightarrow> 's"
    and line :: "'s \<Rightarrow> 'k \<Rightarrow> 'c list"
    and kept :: "'t \<Rightarrow> 's \<Rightarrow> 'k \<Rightarrow> 'c \<Rightarrow> bool"
    and invar :: "'s \<Rightarrow> bool"
  assumes join_line: "invar s \<Longrightarrow> line (snd (join t k c s)) k =
      (let xs = filter (kept t s k) (line s k) in if c \<in> set xs then xs else xs @ [c])"
    and join_other: "invar s \<Longrightarrow> k' \<noteq> k \<Longrightarrow> line (snd (join t k c s)) k' = line s k'"
    and ask_line: "invar s \<Longrightarrow> line (snd (ask t k c s)) k = filter (kept t s k) (line s k)"
    and quit_line: "invar s \<Longrightarrow> line (quit t k c s) k =
      filter (\<lambda>x. x \<noteq> c) (filter (kept t s k) (line s k))"
    and ask_front: "invar s \<Longrightarrow> fst (ask t k c s) = 0 \<longleftrightarrow>
      (case filter (kept t s k) (line s k) of [] \<Rightarrow> True | x # _ \<Rightarrow> x = c)"
    and invar_join: "invar s \<Longrightarrow> invar (snd (join t k c s))"
    and invar_ask: "invar s \<Longrightarrow> invar (snd (ask t k c s))"
    and invar_quit: "invar s \<Longrightarrow> invar (quit t k c s)"
    and invar_distinct: "invar s \<Longrightarrow> distinct (line s k)"
begin

lemma no_overtaking_join:
  "invar s \<Longrightarrow> before a b (line s k) \<Longrightarrow> kept t s k a \<Longrightarrow> kept t s k b \<Longrightarrow>
     before a b (line (snd (join t k c s)) k)"
  by (simp add: join_line Let_def before_filter before_append)

lemma no_overtaking_quit:
  "invar s \<Longrightarrow> before a b (line s k) \<Longrightarrow> kept t s k a \<Longrightarrow> kept t s k b \<Longrightarrow> a \<noteq> c \<Longrightarrow> b \<noteq> c \<Longrightarrow>
     before a b (line (quit t k c s) k)"
  by (simp add: quit_line before_filter)

lemma newcomer_last:
  "invar s \<Longrightarrow> c \<notin> set (line s k) \<Longrightarrow> a \<in> set (line s k) \<Longrightarrow> kept t s k a \<Longrightarrow>
     before a c (line (snd (join t k c s)) k)"
  by (auto simp: join_line Let_def before_snoc)

lemma front_is_unique:
  assumes "invar s" and "fst (ask t k a s) = 0" and "fst (ask t k b s) = 0"
    and "x \<in> set (line s k)" and "kept t s k x"
  shows "a = b"
proof -
  from assms(4,5) have "filter (kept t s k) (line s k) \<noteq> []"
    by (auto simp: filter_empty_conv)
  then obtain y ys where "filter (kept t s k) (line s k) = y # ys"
    by (cases "filter (kept t s k) (line s k)") auto
  with assms(1-3) show ?thesis by (simp add: ask_front)
qed

end

definition kept_in :: "int \<times> int \<Rightarrow> queues \<Rightarrow> string \<Rightarrow> string \<Rightarrow> bool" where
  "kept_in t qs k c \<longleftrightarrow> c \<in> set (map caller_id (still_fresh (fst t) (snd t) k qs))"

lemma filter_kept:
  assumes "wf_queues qs"
  shows "filter (kept_in t qs k) (line_of qs k) = map caller_id (still_fresh (fst t) (snd t) k qs)"
proof -
  have inj: "inj_on caller_id (set (queue_of qs k))"
    using assms by (simp add: wf_queues_def line_of_def distinct_map)
  have "filter (kept_in t qs k) (map caller_id (queue_of qs k))
      = map caller_id (filter (\<lambda>e. kept_in t qs k (caller_id e)) (queue_of qs k))"
    by (simp add: filter_map comp_def)
  also have "filter (\<lambda>e. kept_in t qs k (caller_id e)) (queue_of qs k)
      = still_fresh (fst t) (snd t) k qs"
    unfolding still_fresh_def
  proof (rule filter_cong [OF refl])
    fix e assume e: "e \<in> set (queue_of qs k)"
    show "kept_in t qs k (caller_id e) = (snd t - seen e < fst t)"
      using e inj by (auto simp: kept_in_def still_fresh_def inj_on_def)
  qed
  finally show ?thesis by (simp add: line_of_def)
qed

lemma wf_enter: "wf_queues qs \<Longrightarrow> wf_queues (snd (enter st now key c qs))"
  using distinct_still_fresh [of qs st now key]
  by (auto simp: wf_queues_def enter_line distinct_line_join)
    (simp add: enter_def fresh_eq Let_def)

lemma wf_ahead: "wf_queues qs \<Longrightarrow> wf_queues (snd (ahead st now key c qs))"
  using distinct_still_fresh [of qs st now key]
  by (auto simp: wf_queues_def ahead_line) (simp add: ahead_def fresh_eq)

lemma wf_leave: "wf_queues qs \<Longrightarrow> wf_queues (leave st now key c qs)"
  using distinct_still_fresh [of qs st now key]
  by (auto simp: wf_queues_def leave_line) (simp add: leave_def fresh_eq)

lemma ahead_zero_iff:
  "fst (ahead st now key c qs) = 0 \<longleftrightarrow>
     (case map caller_id (still_fresh st now key qs) of [] \<Rightarrow> True | x # _ \<Rightarrow> x = c)"
  by (cases "still_fresh st now key qs") (auto simp: ahead_def fresh_eq place_of_def split: option.splits)

interpretation wq: waiting_line
  "\<lambda>t. enter (fst t) (snd t)" "\<lambda>t. ahead (fst t) (snd t)" "\<lambda>t. leave (fst t) (snd t)"
  line_of kept_in wf_queues
proof unfold_locales
  fix s k' k t c
  assume "wf_queues s"
  show "k' \<noteq> k \<Longrightarrow> line_of (snd (enter (fst t) (snd t) k c s)) k' = line_of s k'"
    by (simp add: enter_line)
qed (simp_all add: enter_line ahead_line leave_line filter_kept ahead_zero_iff wf_enter wf_ahead wf_leave
    line_join_def Let_def wf_queues_distinct)

section \<open>Arguments, workspaces and the grace period\<close>

text \<open>\<open>parseWait\<close>: the seconds one call may wait.\<close>

definition parse_wait :: "jsval \<Rightarrow> (orbit_error, int) result" where
  "parse_wait v =
     (if v = Undef \<or> v = JBool False then Ok 0
      else if v = JBool True then Ok 30
      else (case v of
          JNum (Fin r) \<Rightarrow> if r \<ge> 1 then Ok (min 40 \<lfloor>r\<rfloor>)
            else Err (invalid_request ''wait is true or a number of seconds from 1 to 40'')
        | _ \<Rightarrow> Err (invalid_request ''wait is true or a number of seconds from 1 to 40'')))"

text \<open>The regular expression \<open>/^([1-9]|10)-([1-9]|10)$/\<close> and \<open>Number\<close> of its groups.\<close>

definition pool_number :: "string \<Rightarrow> nat option" where
  "pool_number s =
     (if s = ''10'' then Some 10
      else case s of [c] \<Rightarrow> if between CHR ''1'' CHR ''9'' c then Some (code c - 48) else None
        | _ \<Rightarrow> None)"

definition workspace_pool :: "string option \<Rightarrow> nat \<times> nat" where
  "workspace_pool env =
     (case split_on CHR ''-'' (case env of None \<Rightarrow> [] | Some v \<Rightarrow> v) of
        [a, b] \<Rightarrow>
          (case (pool_number a, pool_number b) of
             (Some lo, Some hi) \<Rightarrow> if hi \<ge> lo then (lo, hi) else (1, 10)
           | _ \<Rightarrow> (1, 10))
      | _ \<Rightarrow> (1, 10))"

definition allocate_workspace ::
  "nat \<times> nat \<Rightarrow> nat list \<Rightarrow> nat set \<Rightarrow> nat set \<Rightarrow> (orbit_error, nat) result" where
  "allocate_workspace pool own used shown =
     (case find (\<lambda>w. w \<notin> used \<and> w \<notin> shown \<and> w \<notin> set own) [fst pool ..< Suc (snd pool)] of
        Some w \<Rightarrow> Ok w
      | None \<Rightarrow> Err (plain_error ''LIMIT_REACHED''
          ''No empty, undisplayed workspace is available in the workspace pool''))"

definition clamp_grace :: "jsval \<Rightarrow> rat option" where
  "clamp_grace v = (case v of JNum (Fin r) \<Rightarrow> Some (min 3600 (max 0 r)) | _ \<Rightarrow> None)"

text \<open>
  \<open>graceSeconds\<close>: \<open>number\<close> is the language's string-to-number conversion; \<open>stored\<close> is the parsed
  settings file, \<open>None\<close> when reading or parsing it throws.
\<close>

definition grace_seconds :: "(string \<Rightarrow> jnum) \<Rightarrow> string option \<Rightarrow> jsval option \<Rightarrow> rat" where
  "grace_seconds number env stored =
     (case (case env of None \<Rightarrow> None | Some s \<Rightarrow> clamp_grace (JNum (number s))) of
        Some r \<Rightarrow> r
      | None \<Rightarrow>
          (case stored of
             None \<Rightarrow> 60
           | Some v \<Rightarrow>
               (case as_object v of
                  None \<Rightarrow> 60
                | Some fs \<Rightarrow>
                    (case clamp_grace (getp fs ''orbit.session.graceSeconds'') of
                       Some r \<Rightarrow> r | None \<Rightarrow> 60))))"

lemma clamp_grace_range: "clamp_grace v = Some r \<Longrightarrow> 0 \<le> r \<and> r \<le> 3600"
  by (auto simp: clamp_grace_def split: jsval.splits jnum.splits)

lemma pool_number_range: "pool_number s = Some n \<Longrightarrow> 1 \<le> n \<and> n \<le> 10"
  by (auto simp: pool_number_def between_def code_def split: if_splits list.splits)

lemma find_upt_least:
  "find P [lo ..< hi] = Some w \<longleftrightarrow> lo \<le> w \<and> w < hi \<and> P w \<and> (\<forall>v. lo \<le> v \<and> v < w \<longrightarrow> \<not> P v)"
proof (induction "hi - lo" arbitrary: lo)
  case (Suc n)
  then have "[lo ..< hi] = lo # [Suc lo ..< hi]" by (simp add: upt_rec)
  with Suc.hyps(1) [of "Suc lo"] Suc.hyps(2) show ?case
    by (auto simp: le_Suc_eq) (metis Suc_leI le_neq_implies_less)+
qed auto

lemma allocate_Ok:
  assumes "allocate_workspace pool own used shown = Inr w"
  shows "fst pool \<le> w \<and> w \<le> snd pool \<and> w \<notin> used \<union> shown \<union> set own
     \<and> (\<forall>v. fst pool \<le> v \<and> v < w \<longrightarrow> v \<in> used \<union> shown \<union> set own)"
proof -
  have "find (\<lambda>w. w \<notin> used \<and> w \<notin> shown \<and> w \<notin> set own) [fst pool ..< Suc (snd pool)] = Some w"
    using assms by (simp add: allocate_workspace_def del: upt_Suc split: option.splits)
  then show ?thesis
    unfolding find_upt_least by auto
qed

lemma allocate_Err:
  assumes "allocate_workspace pool own used shown = Inl e"
  shows "err_code e = ''LIMIT_REACHED''
     \<and> (\<forall>v \<in> {fst pool..snd pool}. v \<in> used \<union> shown \<union> set own)"
proof -
  have "find (\<lambda>w. w \<notin> used \<and> w \<notin> shown \<and> w \<notin> set own) [fst pool ..< Suc (snd pool)] = None"
    and "err_code e = ''LIMIT_REACHED''"
    using assms by (auto simp: allocate_workspace_def simp del: upt_Suc split: option.splits)
  then show ?thesis
    unfolding find_None_iff by (auto simp: less_Suc_eq_le)
qed

section \<open>Properties\<close>

text \<open>
  C16. First come, first served: on an application's queue those who stopped asking drop out and everyone
  else keeps its place; a caller that asks again keeps the place it has, a newcomer goes behind everyone
  still waiting, and only the caller that leaves is taken out. The position and the number waiting that
  \<open>enter\<close> answers are those of the resulting line, \<open>ahead\<close> counts those in front, an entry asks afresh from
  now on, and no other application's queue changes. So a caller behind another never overtakes it and is
  never told that nobody is ahead.
\<close>

theorem queue_first_come_first_served:
  fixes c k' :: string
  assumes "wf_queues qs" and "kept_in (st, now) qs k a" and "kept_in (st, now) qs k b"
    and "before a b (line_of qs k)"
  defines "waiting \<equiv> filter (kept_in (st, now) qs k) (line_of qs k)"
    and "joined \<equiv> snd (enter st now k c qs)"
  shows "line_of joined k = (if c \<in> set waiting then waiting else waiting @ [c])
    \<and> line_of (leave st now k c qs) k = filter (\<lambda>x. x \<noteq> c) waiting
    \<and> line_of (snd (ahead st now k c qs)) k = waiting
    \<and> fst (enter st now k c qs) = (Suc (length (takeWhile (\<lambda>x. x \<noteq> c) (line_of joined k))), length (line_of joined k))
    \<and> fst (ahead st now k c qs) = length (takeWhile (\<lambda>x. x \<noteq> c) waiting)
    \<and> (\<exists>e \<in> set (queue_of joined k). caller_id e = c \<and> seen e = now)
    \<and> before a b (line_of joined k)
    \<and> (a = c \<or> b = c \<or> before a b (line_of (leave st now k c qs) k))
    \<and> before a b (line_of (snd (ahead st now k c qs)) k)
    \<and> (c \<in> set waiting \<or> before b c (line_of joined k))
    \<and> fst (ahead st now k b qs) \<noteq> 0
    \<and> (k' = k \<or> queue_of joined k' = queue_of qs k' \<and> queue_of (leave st now k c qs) k' = queue_of qs k'
        \<and> queue_of (snd (ahead st now k c qs)) k' = queue_of qs k')"
proof -
  have w: "waiting = map caller_id (still_fresh st now k qs)"
    using filter_kept [OF assms(1), of "(st, now)" k] by (simp add: waiting_def)
  have ab: "before a b waiting"
    unfolding waiting_def by (rule before_filter [OF assms(4,2,3)])
  then have in_line: "b \<in> set waiting" by (auto simp: before_def)
  have "distinct waiting" unfolding w by (rule distinct_still_fresh [OF assms(1)])
  then have "case waiting of [] \<Rightarrow> False | x # _ \<Rightarrow> x \<noteq> b"
    using before_not_front [OF ab] ab by (cases waiting) (auto simp: before_def)
  then have not_first: "fst (ahead st now k b qs) \<noteq> 0"
    by (auto simp: ahead_zero_iff w split: list.splits)
  have joined: "line_of joined k = line_join c waiting" by (simp add: joined_def enter_line w)
  show ?thesis
    using not_first enter_answer [of st now k c qs] enter_renews [of st now k c qs] before_join [OF ab, of c] ab in_line
      before_filter [OF ab, of "\<lambda>x. x \<noteq> c"] before_snoc [OF in_line, of c]
    by (auto simp: joined leave_line ahead_line ahead_count other_queues line_join_def w [symmetric]
        simp flip: joined_def)
      (simp add: joined_def other_queues)
qed

lemma queue_first_come_first_served_witness:
  "let qs = snd (enter 90000 1 ''app'' ''b'' (snd (enter 90000 0 ''app'' ''a'' []))) in
   before ''a'' ''b'' (line_of (snd (enter 90000 5 ''app'' ''c'' qs)) ''app'')"
proof -
  define qs where "qs = snd (enter 90000 1 ''app'' ''b'' (snd (enter 90000 0 ''app'' ''a'' [])))"
  have "wf_queues []" by (simp add: wf_queues_def line_of_def queue_of_def)
  then have "wf_queues qs" by (simp add: qs_def wf_enter)
  moreover have "queue_of qs ''app'' = [\<lparr>caller_id = ''a'', since = 0, seen = 0\<rparr>, \<lparr>caller_id = ''b'', since = 1, seen = 1\<rparr>]"
    by (simp add: qs_def enter_def fresh_def queue_of_def set_queue_def place_of_def Let_def)
  ultimately have k: "wf_queues qs" "kept_in (90000, 5) qs ''app'' ''a''" "kept_in (90000, 5) qs ''app'' ''b''"
      "before ''a'' ''b'' (line_of qs ''app'')"
    by (simp_all add: kept_in_def still_fresh_def line_of_def before_pair)
  have "before ''a'' ''b'' (line_of (snd (enter 90000 5 ''app'' ''c'' qs)) ''app'')"
    using queue_first_come_first_served [OF k, of "''c''" "''app''"] by (elim conjE)
  then show ?thesis by (simp add: qs_def)
qed

text \<open>
  \<open>allocateWorkspace\<close> over the configured pool returns the lowest workspace of the pool that is
  neither occupied, displayed nor reserved, always one of the first ten, and fails exactly when
  every workspace of the pool is taken.
\<close>

theorem allocate_least_free:
  "case allocate_workspace (workspace_pool env) own used shown of
     Inr w \<Rightarrow> w \<in> {1..10} \<and> w \<in> {fst (workspace_pool env)..snd (workspace_pool env)} - (used \<union> shown \<union> set own)
       \<and> {fst (workspace_pool env)..<w} \<subseteq> used \<union> shown \<union> set own
   | Inl e \<Rightarrow> err_code e = ''LIMIT_REACHED''
       \<and> {fst (workspace_pool env)..snd (workspace_pool env)} \<subseteq> used \<union> shown \<union> set own"
proof -
  have "1 \<le> fst (workspace_pool env) \<and> snd (workspace_pool env) \<le> 10"
    by (auto simp: workspace_pool_def dest: pool_number_range split: list.splits option.splits)
  then show ?thesis
    using allocate_Ok [of "workspace_pool env" own used shown]
      allocate_Err [of "workspace_pool env" own used shown]
    by (cases "allocate_workspace (workspace_pool env) own used shown")
      (simp_all add: subset_iff)
qed

text \<open>
  The time bounds: a \<open>wait\<close> argument is refused or becomes an integer from 0 to 40 seconds, and
  the grace period is between 0 and 3600 seconds whatever the environment and the settings file
  hold.
\<close>

theorem wait_and_grace_bounds:
  "(case parse_wait v of Inr n \<Rightarrow> 0 \<le> n \<and> n \<le> 40 | Inl e \<Rightarrow> err_code e = ''INVALID_REQUEST'')
   \<and> 0 \<le> grace_seconds number env stored \<and> grace_seconds number env stored \<le> 3600"
  by (auto simp: parse_wait_def grace_seconds_def dest: clamp_grace_range
      split: sum.splits jsval.splits jnum.splits option.splits if_splits)

end
