(* ===== verification/Policy.thy ===== *)
theory Policy
  imports OrbitErrors
begin

text \<open>
  \<open>src/policy.ts\<close>: what a session may do, decided in the broker before an action reaches any
  backend: the classes of actions, the immune table, parsing a policy, the decision procedure,
  narrowing, and the journal line of a decision.

  Strings here are UTF-8 byte sequences. The URL parser of the platform is the parameter \<open>U\<close>
  (\<open>None\<close> where \<open>new URL\<close> throws), string-to-number conversion and \<open>isAbsolute\<close> are parameters of
  the parser. Case mapping is that of ASCII, with the one code point outside ASCII whose lower case
  is an ASCII letter (the Kelvin sign).
\<close>

section \<open>Action classes\<close>

text \<open>
  The class of an action is looked up in an object literal, so a name that every object inherits
  (\<open>constructor\<close>, \<open>toString\<close>, ...) finds a function or the prototype instead of a class; that value
  is \<open>Inherited\<close>. It is none of the four classes.
\<close>

datatype action_class =
  ReadClass | NavigateClass | WriteClass | IrreversibleClass | Inherited string

definition action_classes :: "action_class list" where
  "action_classes = [ReadClass, NavigateClass, WriteClass, IrreversibleClass]"

definition class_of_action :: "(string \<times> action_class) list" where
  "class_of_action =
     map (\<lambda>a. (a, ReadClass)) [''read'', ''observe'', ''scroll'', ''resize'', ''select-tab'',
       ''windows'', ''state'', ''desktops'', ''list-windows'', ''inspect'']
     @ map (\<lambda>a. (a, NavigateClass)) [''navigate'', ''open-tab'']
     @ map (\<lambda>a. (a, WriteClass)) [''fill'', ''click'', ''ref-click'', ''invoke-ref'', ''edit-ref'',
       ''value-ref'', ''close-tab'', ''paste'', ''text'', ''key'',
       ''pointer'', ''window'', ''launch'', ''launch-installed'', ''launch-app'', ''desktop'', ''move-window'',
       ''cursor'', ''move'', ''mouse-down'', ''mouse-up'', ''drag'', ''close-application'']
     @ map (\<lambda>a. (a, IrreversibleClass)) [''close-window'', ''download'', ''upload'']"

definition object_prototype_keys :: "string list" where
  "object_prototype_keys =
     [''constructor'', ''toString'', ''toLocaleString'', ''valueOf'', ''hasOwnProperty'',
      ''isPrototypeOf'', ''propertyIsEnumerable'', ''__proto__'', ''__defineGetter__'',
      ''__defineSetter__'', ''__lookupGetter__'', ''__lookupSetter__'']"

definition classify :: "string \<Rightarrow> action_class" where
  "classify action_type =
     (case map_of class_of_action action_type of
        Some c \<Rightarrow> c
      | None \<Rightarrow> if action_type \<in> set object_prototype_keys then Inherited action_type
                else IrreversibleClass)"

fun class_text :: "action_class \<Rightarrow> string" where
  "class_text ReadClass = ''read''"
| "class_text NavigateClass = ''navigate''"
| "class_text WriteClass = ''write''"
| "class_text IrreversibleClass = ''irreversible''"
| "class_text (Inherited k) = ''function '' @ k"

section \<open>Addresses\<close>

record url =
  u_protocol :: string
  u_origin :: string
  u_pathname :: string
  u_keys :: "string list"

type_synonym url_parser = "string \<Rightarrow> url option"

text \<open>Lower case: ASCII letters, and the Kelvin sign (bytes E2 84 AA), whose lower case is k.\<close>

fun lower_text :: "string \<Rightarrow> string" where
  "lower_text (a # b # c # s) =
     (if code a = 226 \<and> code b = 132 \<and> code c = 170 then CHR ''k'' # lower_text s
      else lower_char a # lower_text (b # c # s))"
| "lower_text [a, b] = [lower_char a, lower_char b]"
| "lower_text [a] = [lower_char a]"
| "lower_text [] = []"

text \<open>
  \<open>decodeURIComponent\<close>: an escape is a percent sign and two hexadecimal digits; the bytes of
  consecutive escapes have to be valid UTF-8, anything else throws (\<open>None\<close>).
\<close>

definition hex_digit :: "char \<Rightarrow> nat option" where
  "hex_digit c = (if is_digit c then Some (code c - 48)
     else if between CHR ''a'' CHR ''f'' c then Some (code c - 87)
     else if between CHR ''A'' CHR ''F'' c then Some (code c - 55) else None)"

datatype octet = Raw char | Escaped nat

fun octets :: "string \<Rightarrow> octet list option" where
  "octets [] = Some []"
| "octets (c # s) =
     (if c = CHR ''%'' then
        (case s of
           a # b # s' \<Rightarrow>
             (case (hex_digit a, hex_digit b, octets s') of
                (Some x, Some y, Some os) \<Rightarrow> Some (Escaped (16 * x + y) # os)
              | _ \<Rightarrow> None)
         | _ \<Rightarrow> None)
      else (case octets s of Some os \<Rightarrow> Some (Raw c # os) | None \<Rightarrow> None))"

definition continuation :: "nat \<Rightarrow> bool" where
  "continuation b \<longleftrightarrow> 128 \<le> b \<and> b < 192"

definition valid2 :: "nat \<Rightarrow> nat \<Rightarrow> bool" where
  "valid2 a b \<longleftrightarrow> 194 \<le> a \<and> a < 224 \<and> continuation b"

definition valid3 :: "nat \<Rightarrow> nat \<Rightarrow> nat \<Rightarrow> bool" where
  "valid3 a b c \<longleftrightarrow> 224 \<le> a \<and> a < 240 \<and> continuation b \<and> continuation c
     \<and> (a = 224 \<longrightarrow> 160 \<le> b) \<and> (a = 237 \<longrightarrow> b < 160)"

definition valid4 :: "nat \<Rightarrow> nat \<Rightarrow> nat \<Rightarrow> nat \<Rightarrow> bool" where
  "valid4 a b c d \<longleftrightarrow> 240 \<le> a \<and> a < 245 \<and> continuation b \<and> continuation c \<and> continuation d
     \<and> (a = 240 \<longrightarrow> 144 \<le> b) \<and> (a = 244 \<longrightarrow> b < 144)"

abbreviation byte :: "nat \<Rightarrow> char" where "byte \<equiv> char_of"

fun decode_octets :: "octet list \<Rightarrow> string option" where
  "decode_octets [] = Some []"
| "decode_octets (Raw c # os) = map_option (\<lambda>s. c # s) (decode_octets os)"
| "decode_octets (Escaped a # os) =
     (if a < 128 then map_option (\<lambda>s. byte a # s) (decode_octets os)
      else case os of
        Escaped b # os1 \<Rightarrow>
          if valid2 a b then map_option (\<lambda>s. byte a # byte b # s) (decode_octets os1)
          else (case os1 of
            Escaped c # os2 \<Rightarrow>
              if valid3 a b c then map_option (\<lambda>s. byte a # byte b # byte c # s) (decode_octets os2)
              else (case os2 of
                Escaped d # os3 \<Rightarrow>
                  if valid4 a b c d
                  then map_option (\<lambda>s. byte a # byte b # byte c # byte d # s) (decode_octets os3)
                  else None
              | _ \<Rightarrow> None)
          | _ \<Rightarrow> None)
      | _ \<Rightarrow> None)"

definition decode_uri_component :: "string \<Rightarrow> string option" where
  "decode_uri_component s = (case octets s of None \<Rightarrow> None | Some os \<Rightarrow> decode_octets os)"

definition segments_of_raw :: "string \<Rightarrow> string list" where
  "segments_of_raw raw =
     (if raw = [] then []
      else raw #
        (if CHR ''%'' \<notin> set raw then []
         else (case decode_uri_component raw of
            None \<Rightarrow> []
          | Some decoded \<Rightarrow>
              filter (\<lambda>part. part \<noteq> [] \<and> part \<noteq> raw) (split_on CHR ''/'' (lower_text decoded)))))"

definition segments_of :: "string \<Rightarrow> string list" where
  "segments_of pathname = concat (map segments_of_raw (split_on CHR ''/'' (lower_text pathname)))"

section \<open>The immune table\<close>

record immune_entry =
  imm_id :: string
  imm_reason :: string
  imm_verb :: "string list option"
  imm_segments :: "string list"
  imm_method :: "string list option"
  imm_query :: "string list option"

definition immune_set :: "immune_entry list" where
  "immune_set =
    [\<lparr>imm_id = ''money-movement'', imm_reason = ''Moving money is not an action an unattended agent takes.'',
      imm_verb = None,
      imm_segments = [''transfer'', ''transfers'', ''payment'', ''payments'', ''payout'', ''withdraw'', ''wire''],
      imm_method = Some [''POST'', ''PUT''], imm_query = None\<rparr>,
     \<lparr>imm_id = ''credential-change'', imm_reason = ''Changing a password, an email or a recovery contact takes the account away from its owner.'',
      imm_verb = None,
      imm_segments = [''password'', ''passwords'', ''recovery'', ''2fa'', ''mfa'', ''security-key'', ''changeemail''],
      imm_method = Some [''POST'', ''PUT'', ''PATCH''], imm_query = None\<rparr>,
     \<lparr>imm_id = ''message-send'', imm_reason = ''A message sent on the person'' @ [CHR 0x27] @ ''s behalf cannot be recalled.'',
      imm_verb = None,
      imm_segments = [''sendmessage'', ''sendmail''],
      imm_method = Some [''POST''], imm_query = None\<rparr>,
     \<lparr>imm_id = ''account-deletion'', imm_reason = ''Deleting or closing an account is the one action with no way back.'',
      imm_verb = None,
      imm_segments = [''deleteaccount'', ''closeaccount'', ''terminate''],
      imm_method = Some [''POST'', ''DELETE''], imm_query = None\<rparr>,
     \<lparr>imm_id = ''oauth-grant'', imm_reason = ''Granting an application access to the person'' @ [CHR 0x27] @ ''s account hands it out to a third party.'',
      imm_verb = None,
      imm_segments = [''oauth'', ''authorize'', ''consent''],
      imm_method = None, imm_query = Some [''response_type'', ''client_id'']\<rparr>]"

text \<open>One entry against a request; the table is searched in order.\<close>

definition immune_trips ::
  "string \<Rightarrow> url \<Rightarrow> string option \<Rightarrow> bool \<Rightarrow> immune_entry \<Rightarrow> bool" where
  "immune_trips action_type parsed meth implied entry \<longleftrightarrow>
     (case imm_verb entry of None \<Rightarrow> True | Some vs \<Rightarrow> action_type \<in> set vs)
     \<and> (case (imm_method entry, meth) of
          (Some ms, Some m) \<Rightarrow> implied \<or> upper_text m \<in> set ms
        | _ \<Rightarrow> True)
     \<and> list_ex (\<lambda>seg. seg \<in> set (segments_of (u_pathname parsed))) (imm_segments entry)
     \<and> (case imm_query entry of None \<Rightarrow> True | Some ks \<Rightarrow> list_all (\<lambda>k. k \<in> set (u_keys parsed)) ks)"

definition immune_match ::
  "url_parser \<Rightarrow> string \<Rightarrow> string option \<Rightarrow> string option \<Rightarrow> bool \<Rightarrow> immune_entry option" where
  "immune_match U action_type url meth implied =
     (case url of
        None \<Rightarrow> None
      | Some u \<Rightarrow>
          (case U u of
             None \<Rightarrow> None
           | Some parsed \<Rightarrow> find (immune_trips action_type parsed meth implied) immune_set))"

section \<open>Policies and their parsing\<close>

text \<open>
  A rule as it is stored: a single verb or origin is a one-element list, since every reader wraps it
  so. The decision is the value the caller gave: the parser checks its text and stores the value.
\<close>

record rule =
  rule_id :: string
  rule_backend :: jsval
  rule_verbs :: "string list"
  rule_origins :: "string list option"
  rule_prefix :: "string option"
  rule_method :: "string option"
  rule_decision :: jsval
  rule_reason :: string

datatype mode = Supervised | Autonomous
datatype origins = AnyOrigin | Listed "string list"

record advisor_config =
  adv_command :: "string list"
  adv_timeout :: rat

record policy =
  p_mode :: mode
  p_origins :: origins
  p_allow :: "action_class list"
  p_deny :: "action_class list"
  p_rules :: "rule list option"
  p_advisor :: "advisor_config option"

definition read_only_policy :: policy where
  "read_only_policy = \<lparr>p_mode = Supervised, p_origins = Listed [], p_allow = [ReadClass],
     p_deny = [IrreversibleClass], p_rules = None, p_advisor = None\<rparr>"

definition native_application_policy :: policy where
  "native_application_policy = \<lparr>p_mode = Autonomous, p_origins = AnyOrigin, p_allow = action_classes,
     p_deny = [], p_rules = None, p_advisor = None\<rparr>"

definition policy_text :: "jsval \<Rightarrow> string \<Rightarrow> (orbit_error, string) result" where
  "policy_text v message = (case js_text v of None \<Rightarrow> Err (invalid_request message) | Some s \<Rightarrow> Ok s)"

definition advisor_timeout :: "(string \<Rightarrow> jnum) \<Rightarrow> jsval \<Rightarrow> (orbit_error, jnum) result" where
  "advisor_timeout number v =
     (case v of
        Undef \<Rightarrow> Ok NaN
      | Null \<Rightarrow> Ok (Fin 0)
      | JBool b \<Rightarrow> Ok (Fin (if b then 1 else 0))
      | JNum n \<Rightarrow> Ok n
      | _ \<Rightarrow> (case js_text v of
               None \<Rightarrow> Err (invalid_request ''An advisor timeout must be between 100 and 30000 ms'')
             | Some s \<Rightarrow> Ok (number s)))"

definition normalise_origin :: "url_parser \<Rightarrow> jsval \<Rightarrow> (orbit_error, string) result" where
  "normalise_origin U v =
     (case v of
        JStr value \<Rightarrow>
          if js_trim value = [] then Err (invalid_request ''An origin must be a non-empty string'')
          else if value = ''*'' \<or> includes_text value ''://*''
          then Err (invalid_request ''A wildcard origin is not allowed; name each origin the session may reach'')
          else (case U (if includes_text value ''://'' then value else ''https://'' @ value) of
              None \<Rightarrow> Err (invalid_request ''Policy origin must name a usable http or https origin'')
            | Some u \<Rightarrow>
                if u_protocol u \<noteq> ''https:'' \<and> u_protocol u \<noteq> ''http:''
                then Err (invalid_request ''Origins must be http or https'')
                else Ok (u_origin u))
      | _ \<Rightarrow> Err (invalid_request ''An origin must be a non-empty string''))"

definition parse_action_class :: "string \<Rightarrow> jsval \<Rightarrow> (orbit_error, action_class) result" where
  "parse_action_class label v =
     (case find (\<lambda>c. v = JStr (class_text c)) action_classes of
        Some c \<Rightarrow> Ok c
      | None \<Rightarrow> Err (invalid_request (''Unknown action class in policy '' @ label)))"

definition parse_action_classes :: "string \<Rightarrow> jsval \<Rightarrow> (orbit_error, action_class list) result" where
  "parse_action_classes field v =
     (let label = (if field = ''allow'' then ''allow'' else if field = ''deny'' then ''deny'' else ''action classes'')
      in case v of
           JArr vs \<Rightarrow> map_result (parse_action_class label) vs
         | _ \<Rightarrow> Err (invalid_request (''Policy '' @ label @ '' must be an array of action classes'')))"

definition parse_origins :: "url_parser \<Rightarrow> jsval \<Rightarrow> (orbit_error, string list) result" where
  "parse_origins U v =
     (case v of
        JArr vs \<Rightarrow>
          if length vs > 64 then Err (invalid_request ''Name at most 64 origins'')
          else and_then (map_result (normalise_origin U) vs) (\<lambda>os. Ok (js_dedup os))
      | _ \<Rightarrow> Err (invalid_request ''Origins must be an array''))"

definition parse_mode :: "jsval \<Rightarrow> (orbit_error, mode) result" where
  "parse_mode v =
     (let message = ''Policy mode must be supervised or autonomous''
      in if v = Undef then Ok Supervised
         else and_then (policy_text v message) (\<lambda>s.
           if s = ''supervised'' then Ok Supervised
           else if s = ''autonomous'' then Ok Autonomous else Err (invalid_request message)))"

definition parse_policy_origins :: "url_parser \<Rightarrow> jsval \<Rightarrow> (orbit_error, origins) result" where
  "parse_policy_origins U v =
     (if v = Undef then Ok (Listed [])
      else if v = JStr ''any'' then Ok AnyOrigin
      else case v of
        JArr vs \<Rightarrow>
          if length vs > 64 then Err (invalid_request ''Name at most 64 origins for one session'')
          else and_then (map_result (normalise_origin U) vs) (\<lambda>os. Ok (Listed (js_dedup os)))
      | _ \<Rightarrow> Err (invalid_request ''Policy origins must be an array of origins, or the string \"any\"''))"

definition parse_verbs :: "jsval \<Rightarrow> (orbit_error, string list) result" where
  "parse_verbs v =
     (case v of
        JStr s \<Rightarrow> Ok [s]
      | JArr vs \<Rightarrow> if list_all is_string vs then Ok (map str_of vs)
          else Err (invalid_request ''Policy rule needs a verb, or a list of verbs'')
      | _ \<Rightarrow> Err (invalid_request ''Policy rule needs a verb, or a list of verbs''))"

definition parse_rule_origin :: "url_parser \<Rightarrow> jsval \<Rightarrow> (orbit_error, string list option) result" where
  "parse_rule_origin U v =
     (if v = Undef then Ok None
      else case v of
        JArr vs \<Rightarrow> and_then (map_result (normalise_origin U) vs) (\<lambda>os. Ok (Some os))
      | _ \<Rightarrow> and_then (normalise_origin U v) (\<lambda>os. Ok (Some [os])))"

definition optional_text :: "jsval \<Rightarrow> string \<Rightarrow> (orbit_error, string option) result" where
  "optional_text v message =
     (if v = Undef then Ok None else and_then (policy_text v message) (\<lambda>s. Ok (Some s)))"

definition parse_rule :: "url_parser \<Rightarrow> jsval \<Rightarrow> (orbit_error, rule) result" where
  "parse_rule U entry =
     (let bad_decision = ''Policy rule needs a decision of allow, deny or consult''
      in and_then (js_record entry) (\<lambda>r.
         if js_trim (str_of (getp r ''id'')) = [] then Err (invalid_request ''Every rule needs a stable id'')
         else and_then (policy_text (getp r ''decision'') bad_decision) (\<lambda>d.
         if d \<notin> {''allow'', ''deny'', ''consult''} then Err (invalid_request bad_decision)
         else and_then (parse_verbs (getp r ''verb'')) (\<lambda>verbs.
         and_then (parse_rule_origin U (getp r ''origin'')) (\<lambda>origin.
         and_then (optional_text (getp r ''pathPrefix'') ''Policy rule pathPrefix must be usable as text'') (\<lambda>prefix.
         and_then (optional_text (getp r ''method'') ''Policy rule method must be usable as text'') (\<lambda>meth.
         Ok \<lparr>rule_id = str_of (getp r ''id''), rule_backend = getp r ''backend'',
             rule_verbs = verbs, rule_origins = origin, rule_prefix = prefix, rule_method = meth,
             rule_decision = getp r ''decision'',
             rule_reason = (if js_trim (str_of (getp r ''reason'')) \<noteq> [] then str_of (getp r ''reason'')
               else ''Rule '' @ str_of (getp r ''id'') @ ''.'')\<rparr>)))))))"

definition parse_rules :: "url_parser \<Rightarrow> jsval \<Rightarrow> (orbit_error, rule list option) result" where
  "parse_rules U v =
     (if v = Undef then Ok None
      else case v of
        JArr vs \<Rightarrow>
          if length vs > 256 then Err (invalid_request ''At most 256 rules for one session'')
          else and_then (map_result (parse_rule U) vs) (\<lambda>rs. Ok (Some rs))
      | _ \<Rightarrow> Err (invalid_request ''Policy rules must be an array''))"

definition checked_timeout :: "jnum \<Rightarrow> (orbit_error, rat) result" where
  "checked_timeout t =
     (case t of
        Fin ms \<Rightarrow> if ms < 100 \<or> ms > 30000
          then Err (invalid_request ''An advisor timeout must be between 100 and 30000 ms'') else Ok ms
      | _ \<Rightarrow> Err (invalid_request ''An advisor timeout must be between 100 and 30000 ms''))"

definition parse_advisor ::
  "(string \<Rightarrow> jnum) \<Rightarrow> (string \<Rightarrow> bool) \<Rightarrow> jsval \<Rightarrow> (orbit_error, advisor_config option) result" where
  "parse_advisor number is_absolute v =
     (let bad_command = ''An advisor needs a command, as an array of strings''
      in if v = Undef then Ok None
         else and_then (js_record v) (\<lambda>given.
           case getp given ''command'' of
             JArr (c # cs) \<Rightarrow>
               if \<not> list_all is_string (c # cs) then Err (invalid_request bad_command)
               else if \<not> is_absolute (str_of c) \<or> starts_with (str_of c) [CHR 0x5C, CHR 0x5C]
               then Err (invalid_request ''An advisor command must name an absolute local executable'')
               else and_then (if getp given ''timeoutMs'' = Undef then Ok (Fin 5000)
                              else advisor_timeout number (getp given ''timeoutMs'')) (\<lambda>t.
                 and_then (checked_timeout t) (\<lambda>ms.
                 Ok (Some \<lparr>adv_command = map str_of (c # cs), adv_timeout = ms\<rparr>)))
           | _ \<Rightarrow> Err (invalid_request bad_command)))"

definition parse_policy ::
  "url_parser \<Rightarrow> (string \<Rightarrow> jnum) \<Rightarrow> (string \<Rightarrow> bool) \<Rightarrow> jsval \<Rightarrow> (orbit_error, policy) result" where
  "parse_policy U number is_absolute value =
     and_then (js_record value) (\<lambda>input.
     and_then (parse_mode (getp input ''mode'')) (\<lambda>mode.
     and_then (parse_policy_origins U (getp input ''origins'')) (\<lambda>origins.
     and_then (if getp input ''allow'' = Undef then Ok (p_allow read_only_policy)
               else parse_action_classes ''allow'' (getp input ''allow'')) (\<lambda>allow.
     and_then (if getp input ''deny'' = Undef then Ok (p_deny read_only_policy)
               else parse_action_classes ''deny'' (getp input ''deny'')) (\<lambda>deny.
     if NavigateClass \<in> set allow \<and> origins = Listed []
     then Err (invalid_request ''Allowing navigate requires naming at least one origin the session may reach, or \"any\" for an unbounded policy'')
     else
     and_then (parse_rules U (getp input ''rules'')) (\<lambda>rules.
     and_then (parse_advisor number is_absolute (getp input ''advisor'')) (\<lambda>advisor.
     Ok \<lparr>p_mode = mode, p_origins = origins, p_allow = allow, p_deny = deny, p_rules = rules,
         p_advisor = advisor\<rparr>)))))))"

section \<open>Decisions\<close>

datatype decision =
    Allow
  | Deny (deny_reason: string) (deny_rule: "string option") (deny_immune: "string option")
  | Ask string
  | Consult string string

definition prefix_matches :: "string list \<Rightarrow> string list \<Rightarrow> bool" where
  "prefix_matches wanted actual \<longleftrightarrow>
     length wanted \<le> length actual \<and> list_all (\<lambda>i. actual ! i = wanted ! i) [0 ..< length wanted]"

definition rule_matches ::
  "url_parser \<Rightarrow> rule \<Rightarrow> string \<Rightarrow> string option \<Rightarrow> string option \<Rightarrow> bool" where
  "rule_matches U r action_type url meth \<longleftrightarrow>
     action_type \<in> set (rule_verbs r)
     \<and> (case rule_method r of
          Some m \<Rightarrow> m = [] \<or> (case meth of None \<Rightarrow> False | Some m' \<Rightarrow> upper_text m = upper_text m')
        | None \<Rightarrow> True)
     \<and> ((rule_origins r = None \<and> rule_prefix r = None)
        \<or> (case url of None \<Rightarrow> False
           | Some u \<Rightarrow> (case U u of None \<Rightarrow> False
             | Some parsed \<Rightarrow>
                 (case rule_origins r of None \<Rightarrow> True | Some os \<Rightarrow> u_origin parsed \<in> set os)
                 \<and> (case rule_prefix r of None \<Rightarrow> True
                    | Some pre \<Rightarrow> prefix_matches (segments_of pre) (segments_of (u_pathname parsed))))))"

text \<open>\<open>severity[rule.decision]\<close>: a property lookup, so the key is the text of the value.\<close>

definition severity :: "jsval \<Rightarrow> nat" where
  "severity d = (case js_text d of
      Some s \<Rightarrow> if s = ''deny'' then 2 else if s = ''consult'' then 1 else 0
    | None \<Rightarrow> 0)"

definition worse :: "rule option \<Rightarrow> rule \<Rightarrow> rule option" where
  "worse acc r = (case acc of None \<Rightarrow> Some r
     | Some w \<Rightarrow> if severity (rule_decision r) > severity (rule_decision w) then Some r else Some w)"

definition strictest :: "rule list \<Rightarrow> rule option" where
  "strictest rs = foldl worse None rs"

definition rules_of :: "policy \<Rightarrow> rule list" where
  "rules_of p = (case p_rules p of None \<Rightarrow> [] | Some rs \<Rightarrow> rs)"

definition matched_rules ::
  "url_parser \<Rightarrow> policy \<Rightarrow> string \<Rightarrow> string option \<Rightarrow> string option \<Rightarrow> rule list" where
  "matched_rules U p action_type url meth =
     filter (\<lambda>r. rule_matches U r action_type url meth) (rules_of p)"

text \<open>The allowlist check of a navigating action with a destination: the refusal, if any.\<close>

definition origin_refusal :: "url_parser \<Rightarrow> policy \<Rightarrow> string option \<Rightarrow> string option" where
  "origin_refusal U p url =
     (case (url, p_origins p) of
        (Some u, Listed os) \<Rightarrow>
          (case U u of
             None \<Rightarrow> Some ''That destination is not a usable URL.''
           | Some parsed \<Rightarrow>
               if u_origin parsed \<in> set os then None
               else Some (u_origin parsed @ '' is not in this session'' @ [CHR 0x27]
                 @ ''s origin allowlist, which was fixed when the session was created.''))
      | _ \<Rightarrow> None)"

definition decide ::
  "url_parser \<Rightarrow> policy \<Rightarrow> string \<Rightarrow> string option \<Rightarrow> string option \<Rightarrow> bool \<Rightarrow> decision" where
  "decide U p action_type url meth implied =
     (let cls = classify action_type in
      if cls \<in> set (p_deny p)
      then Deny (''The '' @ class_text cls @ '' class is denied for this session and a deny is not overridable.'') None None
      else case immune_match U action_type url meth implied of
        Some e \<Rightarrow> Deny (imm_reason e) None (Some (imm_id e))
      | None \<Rightarrow>
          (case (if cls = NavigateClass then origin_refusal U p url else None) of
             Some reason \<Rightarrow> Deny reason None None
           | None \<Rightarrow>
               (let s = strictest (matched_rules U p action_type url meth);
                    not_allowed = ''The '' @ class_text cls @ '' class is not allowed for this session.'';
                    after_rules = (\<lambda>consulting.
                      if cls \<notin> set (p_allow p)
                      then (if p_mode p = Autonomous then Deny not_allowed None None else Ask not_allowed)
                      else (case consulting of
                          Some r \<Rightarrow>
                            if p_advisor p = None
                            then Deny (rule_reason r @ '' No advisor is configured to decide it.'') (Some (rule_id r)) None
                            else Consult (rule_reason r) (rule_id r)
                        | None \<Rightarrow> Allow))
                in case s of
                     None \<Rightarrow> after_rules None
                   | Some r \<Rightarrow>
                       if rule_decision r = JStr ''deny''
                       then Deny (rule_reason r) (Some (rule_id r)) None
                       else after_rules (if rule_decision r = JStr ''consult'' then Some r else None))))"

section \<open>Narrowing\<close>

definition narrow :: "policy \<Rightarrow> string list option \<Rightarrow> action_class list option \<Rightarrow> policy" where
  "narrow p limit_origins limit_allow =
     p\<lparr>p_origins := (case limit_origins of
         None \<Rightarrow> p_origins p
       | Some lo \<Rightarrow> (case p_origins p of AnyOrigin \<Rightarrow> Listed lo
           | Listed os \<Rightarrow> Listed (filter (\<lambda>x. x \<in> set lo) os))),
       p_allow := (case limit_allow of
         None \<Rightarrow> p_allow p
       | Some la \<Rightarrow> filter (\<lambda>c. c \<in> set la) (p_allow p))\<rparr>"

section \<open>The journal\<close>

datatype actor = Agent | Person

record journal_line =
  je_at :: "string option"
  je_request :: "string option"
  je_sequence :: int
  je_session :: string
  je_actor :: actor
  je_type :: string
  je_class :: action_class
  je_origin :: "string option"
  je_outcome :: string
  je_reason :: "string option"
  je_rule :: "string option"
  je_immune :: "string option"
  je_decided_by :: "string option"
  je_input_length :: "nat option"
  je_after :: "(origins \<times> action_class list) option"

record journal_input =
  ji_sequence :: int
  ji_session :: string
  ji_actor :: actor
  ji_type :: string
  ji_decision :: decision
  ji_url :: "string option"
  ji_input_length :: "nat option"
  ji_decided_by :: "string option"
  ji_at :: "string option"
  ji_request :: "string option"
  ji_after :: "policy option"

fun outcome_text :: "decision \<Rightarrow> string" where
  "outcome_text Allow = ''allow''"
| "outcome_text (Deny r i j) = ''deny''"
| "outcome_text (Ask r) = ''ask''"
| "outcome_text (Consult r i) = ''consult''"

fun reason_of :: "decision \<Rightarrow> string option" where
  "reason_of Allow = None"
| "reason_of (Deny r i j) = Some r"
| "reason_of (Ask r) = Some r"
| "reason_of (Consult r i) = Some r"

fun rule_of :: "decision \<Rightarrow> string option" where
  "rule_of (Deny r i j) = i"
| "rule_of (Consult r i) = Some i"
| "rule_of _ = None"

fun immune_of :: "decision \<Rightarrow> string option" where
  "immune_of (Deny r i j) = j"
| "immune_of _ = None"

text \<open>A field whose value is the empty string is left out like an absent one.\<close>

definition truthy_text :: "string option \<Rightarrow> string option" where
  "truthy_text v = (if v = Some [] then None else v)"

definition journal_entry :: "url_parser \<Rightarrow> journal_input \<Rightarrow> journal_line" where
  "journal_entry U i =
     \<lparr>je_at = ji_at i, je_request = ji_request i, je_sequence = ji_sequence i,
      je_session = ji_session i, je_actor = ji_actor i, je_type = ji_type i,
      je_class = classify (ji_type i),
      je_origin = truthy_text (case ji_url i of None \<Rightarrow> None
        | Some u \<Rightarrow> map_option u_origin (U u)),
      je_outcome = outcome_text (ji_decision i),
      je_reason = reason_of (ji_decision i),
      je_rule = truthy_text (rule_of (ji_decision i)),
      je_immune = truthy_text (immune_of (ji_decision i)),
      je_decided_by = ji_decided_by i,
      je_input_length = ji_input_length i,
      je_after = map_option (\<lambda>p. (p_origins p, p_allow p)) (ji_after i)\<rparr>"

section \<open>The strictest rule\<close>

lemma foldl_worse_Some: "\<exists>r. foldl worse (Some w) rs = Some r"
  by (induction rs arbitrary: w) (auto simp: worse_def)

lemma foldl_worse_strict:
  "foldl worse acc rs = Some r \<Longrightarrow>
     (r \<in> set rs \<or> acc = Some r)
     \<and> (\<forall>x \<in> set rs. severity (rule_decision x) \<le> severity (rule_decision r))
     \<and> (\<forall>w. acc = Some w \<longrightarrow> severity (rule_decision w) \<le> severity (rule_decision r))"
proof (induction rs arbitrary: acc)
  case (Cons x rs)
  from Cons.prems have "foldl worse (worse acc x) rs = Some r" by simp
  from Cons.IH [OF this] show ?case
    by (cases acc) (auto simp: worse_def split: if_splits)
qed simp

lemma strictest_None [simp]: "strictest rs = None \<longleftrightarrow> rs = []"
  by (cases rs) (use foldl_worse_Some in \<open>auto simp: strictest_def worse_def\<close>)

lemma strictest_Nil [simp]: "strictest [] = None"
  by (simp add: strictest_def)

lemma strictest_mem: "strictest rs = Some r \<Longrightarrow> r \<in> set rs"
  using foldl_worse_strict [of None rs r] by (simp add: strictest_def)

lemma strictest_max:
  "strictest rs = Some r \<Longrightarrow> x \<in> set rs \<Longrightarrow> severity (rule_decision x) \<le> severity (rule_decision r)"
  using foldl_worse_strict [of None rs r] by (simp add: strictest_def)

text \<open>Rules whose decision is a string: the only ones whose stated decision is enforced.\<close>

definition plain_rules :: "policy \<Rightarrow> bool" where
  "plain_rules p \<longleftrightarrow> (\<forall>r \<in> set (rules_of p). is_string (rule_decision r))"

lemma severity_string: "severity (JStr s) = (if s = ''deny'' then 2 else if s = ''consult'' then 1 else 0)"
  by (simp add: severity_def)

lemma severity_plain:
  assumes "is_string d"
  shows "severity d = 2 \<longleftrightarrow> d = JStr ''deny''" "severity d = 1 \<longleftrightarrow> d = JStr ''consult''" "severity d \<le> 2"
  using assms by (auto simp: is_string_def severity_string split: jsval.splits if_splits)

definition denies :: "rule \<Rightarrow> bool" where
  "denies r \<longleftrightarrow> rule_decision r = JStr ''deny''"

definition consults :: "rule \<Rightarrow> bool" where
  "consults r \<longleftrightarrow> rule_decision r = JStr ''consult''"

lemma plain_matched:
  "plain_rules p \<Longrightarrow> r \<in> set (matched_rules U p a url m) \<Longrightarrow> is_string (rule_decision r)"
  by (auto simp: plain_rules_def matched_rules_def)

lemma strictest_denies:
  assumes "\<forall>r \<in> set rs. is_string (rule_decision r)"
  shows "(\<exists>r. strictest rs = Some r \<and> denies r) \<longleftrightarrow> (\<exists>r \<in> set rs. denies r)"
proof
  assume "\<exists>r \<in> set rs. denies r"
  then obtain r where r: "r \<in> set rs" "severity (rule_decision r) = 2"
    by (auto simp: denies_def severity_string)
  then have "strictest rs \<noteq> None" by auto
  then obtain w where w: "strictest rs = Some w" by blast
  with strictest_max [OF w r(1)] r(2) severity_plain(3) assms strictest_mem
  have "severity (rule_decision w) = 2" by (metis le_antisym)
  with w assms severity_plain(1) strictest_mem show "\<exists>r. strictest rs = Some r \<and> denies r"
    unfolding denies_def by metis
qed (auto dest: strictest_mem)

lemma strictest_consults:
  assumes "\<forall>r \<in> set rs. is_string (rule_decision r)" and "\<forall>r \<in> set rs. \<not> denies r"
  shows "(\<exists>r. strictest rs = Some r \<and> consults r) \<longleftrightarrow> (\<exists>r \<in> set rs. consults r)"
proof
  assume "\<exists>r \<in> set rs. consults r"
  then obtain r where r: "r \<in> set rs" "severity (rule_decision r) = 1"
    by (auto simp: consults_def severity_string)
  then have "strictest rs \<noteq> None" by auto
  then obtain w where w: "strictest rs = Some w" by blast
  then have "is_string (rule_decision w)" "\<not> denies w" "1 \<le> severity (rule_decision w)"
    using assms strictest_mem strictest_max [OF w r(1)] r(2) by auto
  then have "severity (rule_decision w) = 1"
    using severity_plain(1,3) unfolding denies_def by (metis One_nat_def Suc_1 le_SucE le_antisym)
  then show "\<exists>r. strictest rs = Some r \<and> consults r"
    using w \<open>is_string (rule_decision w)\<close> severity_plain(2) unfolding consults_def by blast
qed (auto dest: strictest_mem)

section \<open>What a decision rests on\<close>

fun permits :: "decision \<Rightarrow> bool" where
  "permits Allow = True"
| "permits (Consult r i) = True"
| "permits _ = False"

fun rank :: "decision \<Rightarrow> nat" where
  "rank Allow = 0"
| "rank (Consult r i) = 1"
| "rank (Ask r) = 2"
| "rank (Deny r i j) = 3"

text \<open>The gates before the rules: class denied, immune entry, allowlist.\<close>

definition gate_passes ::
  "url_parser \<Rightarrow> policy \<Rightarrow> string \<Rightarrow> string option \<Rightarrow> string option \<Rightarrow> bool \<Rightarrow> bool" where
  "gate_passes U p a url m i \<longleftrightarrow>
     classify a \<notin> set (p_deny p) \<and> immune_match U a url m i = None
     \<and> (classify a = NavigateClass \<longrightarrow> origin_refusal U p url = None)"

lemma decide_gate_fails:
  assumes "\<not> gate_passes U p a url m i"
  shows "rank (decide U p a url m i) = 3"
proof (cases "classify a \<in> set (p_deny p)")
  case deny: False
  show ?thesis
  proof (cases "immune_match U a url m i")
    case None
    with assms deny obtain x where "classify a = NavigateClass" "origin_refusal U p url = Some x"
      by (auto simp: gate_passes_def)
    with None deny show ?thesis by (simp add: decide_def)
  qed (use deny in \<open>simp add: decide_def\<close>)
qed (simp add: decide_def)

lemma decide_gate_passes:
  "gate_passes U p a url m i \<Longrightarrow>
     rank (decide U p a url m i) =
       (case strictest (matched_rules U p a url m) of
          None \<Rightarrow> if classify a \<in> set (p_allow p) then 0 else if p_mode p = Autonomous then 3 else 2
        | Some r \<Rightarrow> if denies r then 3
            else if classify a \<notin> set (p_allow p) then (if p_mode p = Autonomous then 3 else 2)
            else if consults r then (if p_advisor p = None then 3 else 1) else 0)"
  by (cases "strictest (matched_rules U p a url m)"; cases "classify a = NavigateClass")
    (simp_all add: gate_passes_def decide_def Let_def denies_def consults_def)

lemma permits_rank: "permits d \<longleftrightarrow> rank d \<le> 1"
  by (cases d) auto

lemma allow_rank: "d = Allow \<longleftrightarrow> rank d = 0"
  by (cases d) auto

lemma decide_rank_plain:
  assumes "plain_rules p" and "gate_passes U p a url m i"
  shows "rank (decide U p a url m i) =
    (let ms = set (matched_rules U p a url m) in
       if (\<exists>r \<in> ms. denies r) then 3
       else if classify a \<notin> set (p_allow p) then (if p_mode p = Autonomous then 3 else 2)
       else if (\<exists>r \<in> ms. consults r) then (if p_advisor p = None then 3 else 1) else 0)"
proof -
  let ?ms = "matched_rules U p a url m"
  have plain: "\<forall>r \<in> set ?ms. is_string (rule_decision r)"
    using plain_matched [OF assms(1)] by blast
  show ?thesis
  proof (cases "strictest ?ms")
    case None
    then show ?thesis using assms(2) by (simp add: decide_gate_passes)
  next
    case (Some r)
    then show ?thesis
      using assms(2) strictest_denies [OF plain] strictest_consults [OF plain]
      by (auto simp: decide_gate_passes Let_def)
  qed
qed

section \<open>Percent-encoded spellings\<close>

definition ascii :: "string \<Rightarrow> bool" where
  "ascii s \<longleftrightarrow> list_all (\<lambda>c. code c < 128) s"

lemma ascii_simps [simp]: "ascii []" "ascii (c # s) \<longleftrightarrow> code c < 128 \<and> ascii s"
  by (simp_all add: ascii_def)

text \<open>A spelling of a word: each character in either case, plain or as an escape.\<close>

fun spells :: "string \<Rightarrow> string \<Rightarrow> bool" where
  "spells [] s \<longleftrightarrow> s = []"
| "spells (c # w) [] \<longleftrightarrow> False"
| "spells (c # w) (d # s) \<longleftrightarrow>
     (if d = CHR ''%'' then
        (case s of
           a # b # s' \<Rightarrow>
             (case (hex_digit a, hex_digit b) of
                (Some x, Some y) \<Rightarrow> 16 * x + y < 128 \<and> lower_char (byte (16 * x + y)) = c \<and> spells w s'
              | _ \<Rightarrow> False)
         | _ \<Rightarrow> False)
      else lower_char d = c \<and> spells w s)"

lemma code_char_of [simp]: "n < 256 \<Longrightarrow> code (char_of n) = n"
  by (simp add: code_def)

lemma code_less [simp]: "code c < 256"
  by (simp add: code_def)

lemma code_inject: "code c = code d \<longleftrightarrow> c = d"
  by (metis code_def char_of_char)

lemma code_lower_ascii: "code (lower_char c) < 128 \<longleftrightarrow> code c < 128"
  by (auto simp: lower_char_def between_def) (simp_all add: code_def)

lemma lower_text_ascii: "ascii s \<Longrightarrow> lower_text s = map lower_char s"
  by (induction s rule: lower_text.induct) auto

lemma hex_digit_ascii: "hex_digit c = Some x \<Longrightarrow> code c < 128"
  by (auto simp: hex_digit_def between_def split: if_splits) (simp_all add: code_def)

lemma hex_digit_lower: "hex_digit (lower_char c) = hex_digit c"
proof (cases "is_upper c")
  case True
  then have c: "65 \<le> code c" "code c \<le> 90" by (simp_all add: between_def) (simp_all add: code_def)
  then have "code (char_of (code c + 32)) = code c + 32" by simp
  with c True show ?thesis
    by (simp add: hex_digit_def lower_char_def between_def) (auto simp: code_def)
qed (simp add: lower_char_def)

lemma lower_percent: "lower_char c = CHR ''%'' \<longleftrightarrow> c = CHR ''%''"
proof (cases "is_upper c")
  case True
  then have c: "65 \<le> code c" "code c \<le> 90" by (simp_all add: between_def) (simp_all add: code_def)
  then have "code (lower_char c) \<ge> 97" "c \<noteq> CHR ''%''"
    using True by (auto simp: lower_char_def) (simp add: code_def)
  then show ?thesis by (auto simp: code_def)
qed (simp add: lower_char_def)

lemma lower_slash: "lower_char c = CHR ''/'' \<longleftrightarrow> c = CHR ''/''"
proof (cases "is_upper c")
  case True
  then have c: "65 \<le> code c" "code c \<le> 90" by (simp_all add: between_def) (simp_all add: code_def)
  then have "code (lower_char c) \<ge> 97" "c \<noteq> CHR ''/''"
    using True by (auto simp: lower_char_def) (simp add: code_def)
  then show ?thesis by (auto simp: code_def)
qed (simp add: lower_char_def)

lemma lower_lower [simp]: "lower_char (lower_char c) = lower_char c"
proof (cases "is_upper c")
  case True
  then have c: "65 \<le> code c" "code c \<le> 90" by (simp_all add: between_def) (simp_all add: code_def)
  then have "code (lower_char c) \<ge> 97"
    using True by (auto simp: lower_char_def)
  then have "\<not> is_upper (lower_char c)" by (simp add: between_def) (simp add: code_def)
  then show ?thesis by (simp add: lower_char_def)
qed (simp add: lower_char_def)

lemma spells_escape:
  "spells (c # w) (CHR ''%'' # s) \<Longrightarrow>
     \<exists>a b s' x y. s = a # b # s' \<and> hex_digit a = Some x \<and> hex_digit b = Some y
       \<and> 16 * x + y < 128 \<and> lower_char (byte (16 * x + y)) = c \<and> spells w s'"
  by (auto split: list.splits option.splits)

text \<open>Decoding the lower-cased spelling gives a string whose lower case is the word.\<close>

lemma spells_decode:
  "spells w s \<Longrightarrow> ascii w \<Longrightarrow>
     \<exists>os d. octets (map lower_char s) = Some os \<and> decode_octets os = Some d
       \<and> ascii d \<and> map lower_char d = w"
proof (induction w arbitrary: s)
  case (Cons c w)
  then obtain d t where st: "s = d # t" by (cases s) auto
  show ?case
  proof (cases "d = CHR ''%''")
    case True
    then obtain a b s' x y where s: "t = a # b # s'" "hex_digit a = Some x" "hex_digit b = Some y"
      "16 * x + y < 128" "lower_char (byte (16 * x + y)) = c" "spells w s'"
      using spells_escape Cons.prems(1) st by blast
    have "lower_char d = CHR ''%''" using True by (simp add: lower_percent)
    moreover obtain os e where "octets (map lower_char s') = Some os" "decode_octets os = Some e"
      "ascii e" "map lower_char e = w"
      using Cons.IH [OF s(6)] Cons.prems(2) by auto
    ultimately show ?thesis using s st by (simp add: hex_digit_lower)
  next
    case False
    then have d: "lower_char d = c" "spells w t" using Cons.prems(1) st by auto
    obtain os e where "octets (map lower_char t) = Some os" "decode_octets os = Some e"
      "ascii e" "map lower_char e = w"
      using Cons.IH [OF d(2)] Cons.prems(2) by auto
    moreover have "lower_char d \<noteq> CHR ''%''" using False by (simp add: lower_percent)
    moreover have "lower_char c = c" using d(1) lower_lower by metis
    ultimately show ?thesis using d st Cons.prems(2) by auto
  qed
qed simp

lemma spells_plain: "spells w s \<Longrightarrow> CHR ''%'' \<notin> set s \<Longrightarrow> map lower_char s = w"
  by (induction w s rule: spells.induct) auto

lemma spelled_segment:
  assumes "spells w s" and "ascii w" and "w \<noteq> []" and "CHR ''/'' \<notin> set w"
  shows "w \<in> set (segments_of_raw (map lower_char s))"
proof -
  have ne: "s \<noteq> []" using assms(1,3) by (cases w; cases s) auto
  show ?thesis
  proof (cases "CHR ''%'' \<in> set s")
    case False
    then show ?thesis using spells_plain [OF assms(1)] ne by (auto simp: segments_of_raw_def)
  next
    case True
    have "lower_char CHR ''%'' = CHR ''%''" by (simp add: lower_percent)
    with True have pct: "CHR ''%'' \<in> set (map lower_char s)"
      unfolding set_map by (metis image_eqI)
    obtain os d where d: "octets (map lower_char s) = Some os" "decode_octets os = Some d"
      "ascii d" "map lower_char d = w"
      using spells_decode [OF assms(1,2)] by blast
    have "lower_text d = w" using d by (simp add: lower_text_ascii)
    then have "split_on CHR ''/'' (lower_text d) = [w]" using assms(4) by (simp add: split_on_no_sep)
    then show ?thesis
      using d pct ne assms(3) by (simp add: segments_of_raw_def decode_uri_component_def)
  qed
qed

lemma split_map_lower:
  "split_on CHR ''/'' (map lower_char s) = map (map lower_char) (split_on CHR ''/'' s)"
  by (induction s) (auto simp: lower_slash split: list.splits)

lemma spelled_in_path:
  assumes "ascii path" and "s \<in> set (split_on CHR ''/'' path)"
    and "spells w s" and "ascii w" and "w \<noteq> []" and "CHR ''/'' \<notin> set w"
  shows "w \<in> set (segments_of path)"
  using assms(2) spelled_segment [OF assms(3-6)]
  by (auto simp: segments_of_def lower_text_ascii [OF assms(1)] split_map_lower)

lemma immune_words_check:
  "list_all (\<lambda>e. list_all (\<lambda>w. list_all (\<lambda>c. (of_char c :: nat) < 128) w \<and> w \<noteq> [] \<and> CHR ''/'' \<notin> set w)
     (imm_segments e)) immune_set"
  by code_simp

lemma immune_words:
  "e \<in> set immune_set \<Longrightarrow> w \<in> set (imm_segments e) \<Longrightarrow> ascii w \<and> w \<noteq> [] \<and> CHR ''/'' \<notin> set w"
  using immune_words_check by (auto simp: list_all_iff ascii_def code_def)

lemma immune_verbless: "e \<in> set immune_set \<Longrightarrow> imm_verb e = None"
  by (auto simp: immune_set_def)

section \<open>Parsed policies\<close>

definition wf_rule :: "rule \<Rightarrow> bool" where
  "wf_rule r \<longleftrightarrow> rule_id r \<noteq> [] \<and> rule_reason r \<noteq> []
     \<and> js_text (rule_decision r) \<in> {Some ''allow'', Some ''deny'', Some ''consult''}"

definition http_origin :: "url_parser \<Rightarrow> string \<Rightarrow> bool" where
  "http_origin U x \<longleftrightarrow>
     (\<exists>s u. U s = Some u \<and> u_origin u = x \<and> u_protocol u \<in> {''https:'', ''http:''})"

definition wf_policy :: "url_parser \<Rightarrow> (string \<Rightarrow> bool) \<Rightarrow> policy \<Rightarrow> bool" where
  "wf_policy U is_absolute p \<longleftrightarrow>
     (case p_origins p of AnyOrigin \<Rightarrow> True
      | Listed os \<Rightarrow> distinct os \<and> length os \<le> 64 \<and> (\<forall>x \<in> set os. http_origin U x)
          \<and> (NavigateClass \<in> set (p_allow p) \<longrightarrow> os \<noteq> []))
     \<and> set (p_allow p) \<union> set (p_deny p) \<subseteq> set action_classes
     \<and> length (rules_of p) \<le> 256 \<and> (\<forall>r \<in> set (rules_of p). wf_rule r)
     \<and> (case p_advisor p of None \<Rightarrow> True
        | Some a \<Rightarrow> adv_command a \<noteq> [] \<and> is_absolute (hd (adv_command a))
            \<and> 100 \<le> adv_timeout a \<and> adv_timeout a \<le> 30000)"

lemma js_trim_Nil [simp]: "js_trim [] = []"
  by (simp add: js_trim_def)

lemma normalise_origin_Ok: "normalise_origin U v = Inr x \<Longrightarrow> http_origin U x"
  by (auto simp: normalise_origin_def http_origin_def split: jsval.splits if_splits option.splits)

lemma parse_action_class_Ok: "parse_action_class l v = Inr c \<Longrightarrow> c \<in> set action_classes"
  by (auto simp: parse_action_class_def find_Some_iff in_set_conv_nth split: option.splits)

lemma parse_action_classes_Ok: "parse_action_classes f v = Inr cs \<Longrightarrow> set cs \<subseteq> set action_classes"
  by (auto simp: parse_action_classes_def Let_def dest!: map_result_set parse_action_class_Ok
      split: jsval.splits)

lemma parse_policy_origins_Ok:
  "parse_policy_origins U v = Inr (Listed os) \<Longrightarrow>
     distinct os \<and> length os \<le> 64 \<and> (\<forall>x \<in> set os. http_origin U x)"
  by (auto simp: parse_policy_origins_def and_then_Ok_iff split: if_splits jsval.splits
      dest: map_result_set normalise_origin_Ok)
    (metis le_trans length_js_dedup map_result_length not_less)

lemma parse_rule_Ok: "parse_rule U v = Inr r \<Longrightarrow> wf_rule r"
  by (auto simp: parse_rule_def and_then_Ok_iff wf_rule_def policy_text_def Let_def
      split: if_splits option.splits)

lemma parse_rules_Ok:
  "parse_rules U v = Inr (Some rs) \<Longrightarrow> length rs \<le> 256 \<and> (\<forall>r \<in> set rs. wf_rule r)"
  by (auto simp: parse_rules_def and_then_Ok_iff split: if_splits jsval.splits
      dest: map_result_set parse_rule_Ok map_result_length)

lemma checked_timeout_Ok: "checked_timeout t = Inr ms \<Longrightarrow> 100 \<le> ms \<and> ms \<le> 30000"
  by (auto simp: checked_timeout_def split: jnum.splits if_splits)

lemma parse_advisor_Ok:
  "parse_advisor number is_absolute v = Inr (Some a) \<Longrightarrow>
     adv_command a \<noteq> [] \<and> is_absolute (hd (adv_command a)) \<and> 100 \<le> adv_timeout a \<and> adv_timeout a \<le> 30000"
  by (auto simp: parse_advisor_def and_then_Ok_iff Let_def dest!: checked_timeout_Ok
      split: if_splits jsval.splits list.splits)


lemma parse_policy_wf:
  assumes "parse_policy U number is_absolute v = Inr p"
  shows "wf_policy U is_absolute p"
proof -
  from assms obtain input mode origins allow deny rules advisor where
    p: "p = \<lparr>p_mode = mode, p_origins = origins, p_allow = allow, p_deny = deny, p_rules = rules,
         p_advisor = advisor\<rparr>"
    and origins: "parse_policy_origins U (getp input ''origins'') = Inr origins"
    and allow: "(if getp input ''allow'' = Undef then Ok (p_allow read_only_policy)
               else parse_action_classes ''allow'' (getp input ''allow'')) = Inr allow"
    and deny: "(if getp input ''deny'' = Undef then Ok (p_deny read_only_policy)
               else parse_action_classes ''deny'' (getp input ''deny'')) = Inr deny"
    and nav: "\<not> (NavigateClass \<in> set allow \<and> origins = Listed [])"
    and rules: "parse_rules U (getp input ''rules'') = Inr rules"
    and advisor: "parse_advisor number is_absolute (getp input ''advisor'') = Inr advisor"
    by (auto simp: parse_policy_def and_then_Ok_iff split: if_splits)
  have classes: "set allow \<subseteq> set action_classes" "set deny \<subseteq> set action_classes"
    using allow deny
    by (auto split: if_splits dest!: parse_action_classes_Ok)
      (simp_all add: read_only_policy_def action_classes_def)
  have o: "case origins of AnyOrigin \<Rightarrow> True
      | Listed os \<Rightarrow> distinct os \<and> length os \<le> 64 \<and> (\<forall>x \<in> set os. http_origin U x)
          \<and> (NavigateClass \<in> set allow \<longrightarrow> os \<noteq> [])"
    using nav origins parse_policy_origins_Ok by (cases origins) auto
  have r: "length (rules_of p) \<le> 256 \<and> (\<forall>r \<in> set (rules_of p). wf_rule r)"
    using rules parse_rules_Ok by (cases rules) (auto simp: rules_of_def p)
  have d: "case advisor of None \<Rightarrow> True
        | Some a \<Rightarrow> adv_command a \<noteq> [] \<and> is_absolute (hd (adv_command a))
            \<and> 100 \<le> adv_timeout a \<and> adv_timeout a \<le> 30000"
    using advisor parse_advisor_Ok [of number is_absolute] by (cases advisor) auto
  have f: "p_origins p = origins" "p_allow p = allow" "p_deny p = deny" "p_advisor p = advisor"
    by (simp_all add: p)
  show ?thesis
    using o r d classes unfolding wf_policy_def f by blast
qed

section \<open>Properties\<close>

text \<open>
  C5. \<open>decide\<close> lets an action through (at once or after the advisor) exactly when its class is
  allowed and not denied, no immune entry matches the request, a navigation's destination lies in
  the allowlist, no matching rule denies it, and a matching consult rule has an advisor to ask; it
  goes through unconsulted exactly when moreover no matching rule consults. For policies whose rules
  carry their decision as a string.
\<close>

theorem decide_permits_iff:
  assumes "plain_rules p"
  shows "(permits (decide U p a url m i) \<longleftrightarrow>
      classify a \<in> set (p_allow p) - set (p_deny p)
      \<and> immune_match U a url m i = None
      \<and> (classify a = NavigateClass \<longrightarrow>
          (case (url, p_origins p) of
             (Some u, Listed os) \<Rightarrow> (case U u of None \<Rightarrow> False | Some x \<Rightarrow> u_origin x \<in> set os)
           | _ \<Rightarrow> True))
      \<and> (\<forall>r \<in> set (matched_rules U p a url m). \<not> denies r \<and> (consults r \<longrightarrow> p_advisor p \<noteq> None)))
    \<and> (decide U p a url m i = Allow \<longleftrightarrow>
        permits (decide U p a url m i) \<and> (\<forall>r \<in> set (matched_rules U p a url m). \<not> consults r))"
proof -
  have origin: "origin_refusal U p url = None \<longleftrightarrow>
      (case (url, p_origins p) of
         (Some u, Listed os) \<Rightarrow> (case U u of None \<Rightarrow> False | Some x \<Rightarrow> u_origin x \<in> set os)
       | _ \<Rightarrow> True)"
    by (auto simp: origin_refusal_def split: option.splits origins.splits)
  show ?thesis
  proof (cases "gate_passes U p a url m i")
    case True
    then show ?thesis
      unfolding allow_rank permits_rank decide_rank_plain [OF assms True]
      using origin by (auto simp: Let_def gate_passes_def)
  next
    case False
    then show ?thesis
      unfolding allow_rank permits_rank decide_gate_fails [OF False]
      using origin by (auto simp: gate_passes_def)
  qed
qed

lemma narrow_keeps_permits:
  assumes "permits (decide U (narrow p lo la) a url m i)"
  shows "decide U p a url m i = decide U (narrow p lo la) a url m i"
proof -
  let ?q = "narrow p lo la"
  have same [simp]: "p_deny ?q = p_deny p" "p_mode ?q = p_mode p" "p_rules ?q = p_rules p"
    "p_advisor ?q = p_advisor p" "matched_rules U ?q a url m = matched_rules U p a url m"
    by (simp_all add: narrow_def matched_rules_def rules_of_def)
  have gate: "gate_passes U ?q a url m i"
    using assms decide_gate_fails permits_rank by fastforce
  have allow: "classify a \<in> set (p_allow ?q)"
    using assms unfolding permits_rank decide_gate_passes [OF gate]
    by (auto split: option.splits if_splits)
  have allow': "classify a \<in> set (p_allow p)"
    using allow by (auto simp: narrow_def split: option.splits)
  have "origin_refusal U ?q url = None \<Longrightarrow> origin_refusal U p url = None"
    by (auto simp: origin_refusal_def narrow_def split: option.splits origins.splits if_splits)
  with gate have gate': "gate_passes U p a url m i"
    by (auto simp: gate_passes_def)
  show ?thesis
    using gate gate' allow allow'
    by (cases "classify a = NavigateClass"; cases "strictest (matched_rules U p a url m)")
      (simp_all add: decide_def gate_passes_def Let_def)
qed

text \<open>
  C7. Narrowing only removes permissions: whatever the narrowed policy lets through, the policy
  before it let through with the very same decision, and the narrowed policy asks nobody it did not
  have to ask before. Holds for every limits argument, \<open>"any"\<close> origins included.
\<close>

theorem narrow_never_widens:
  assumes "permits (decide U (narrow p lo la) a url m i)"
  shows "decide U p a url m i = decide U (narrow p lo la) a url m i"
  using assms by (rule narrow_keeps_permits)

text \<open>A small URL parser for the examples: four addresses.\<close>

definition example_urls :: url_parser where
  "example_urls = map_of
     [(''https://bank.test/%74rans%66er'', \<lparr>u_protocol = ''https:'', u_origin = ''https://bank.test'',
        u_pathname = ''/%74rans%66er'', u_keys = []\<rparr>),
      (''https://bank.test/statement'', \<lparr>u_protocol = ''https:'', u_origin = ''https://bank.test'',
        u_pathname = ''/statement'', u_keys = []\<rparr>),
      (''https://bank.test'', \<lparr>u_protocol = ''https:'', u_origin = ''https://bank.test'',
        u_pathname = ''/'', u_keys = []\<rparr>)]"

definition example_policy :: policy where
  "example_policy = \<lparr>p_mode = Autonomous, p_origins = Listed [''https://bank.test''],
     p_allow = [ReadClass, NavigateClass], p_deny = [IrreversibleClass], p_rules = Some [],
     p_advisor = None\<rparr>"

lemma decide_permits_iff_witness:
  "permits (decide example_urls example_policy ''navigate'' (Some ''https://bank.test/statement'') (Some ''GET'') True)"
proof -
  have "immune_match example_urls ''navigate'' (Some ''https://bank.test/statement'') (Some ''GET'') True = None"
    by code_simp
  moreover have "example_urls ''https://bank.test/statement'' = Some \<lparr>u_protocol = ''https:'',
      u_origin = ''https://bank.test'', u_pathname = ''/statement'', u_keys = []\<rparr>"
    by (simp add: example_urls_def)
  ultimately show ?thesis
    using decide_permits_iff [of example_policy example_urls "''navigate''"
        "Some ''https://bank.test/statement''" "Some ''GET''" True]
    by (simp add: plain_rules_def rules_of_def example_policy_def matched_rules_def classify_def
        class_of_action_def)
qed

lemma narrow_never_widens_witness:
  "decide example_urls example_policy ''navigate'' (Some ''https://bank.test/statement'') None False
     = decide example_urls (narrow example_policy (Some [''https://bank.test'']) (Some [NavigateClass]))
         ''navigate'' (Some ''https://bank.test/statement'') None False"
  by (rule narrow_never_widens) code_simp

definition add_rule :: "rule \<Rightarrow> policy \<Rightarrow> policy" where
  "add_rule r p = p\<lparr>p_rules := Some (r # rules_of p)\<rparr>"

text \<open>
  Adding a rule to a policy, anywhere in its list, never makes any decision milder: in the order
  allow, consult, ask, deny the outcome stays or gets stricter. For rules whose decision is a string.
\<close>

theorem added_rule_never_relaxes:
  assumes "plain_rules p" and "is_string (rule_decision r)"
  shows "rank (decide U p a url m i) \<le> rank (decide U (add_rule r p) a url m i)"
proof (cases "gate_passes U p a url m i")
  case True
  let ?q = "add_rule r p"
  have same [simp]: "p_deny ?q = p_deny p" "p_mode ?q = p_mode p" "p_allow ?q = p_allow p"
    "p_advisor ?q = p_advisor p" "p_origins ?q = p_origins p" "rules_of ?q = r # rules_of p"
    by (simp_all add: add_rule_def rules_of_def)
  have plain: "plain_rules ?q" using assms by (simp add: plain_rules_def)
  have gate: "gate_passes U ?q a url m i"
    using True by (simp add: gate_passes_def origin_refusal_def)
  have "set (matched_rules U p a url m) \<subseteq> set (matched_rules U ?q a url m)"
    by (auto simp: matched_rules_def)
  then show ?thesis
    unfolding decide_rank_plain [OF assms(1) True] decide_rank_plain [OF plain gate] Let_def
    by auto
next
  case False
  then have "\<not> gate_passes U (add_rule r p) a url m i"
    by (simp add: gate_passes_def origin_refusal_def add_rule_def)
  with False show ?thesis by (simp add: decide_gate_fails)
qed

definition example_rule :: "jsval \<Rightarrow> rule" where
  "example_rule d = \<lparr>rule_id = ''no-statements'', rule_backend = Undef, rule_verbs = [''navigate''],
     rule_origins = None, rule_prefix = Some ''/statement'', rule_method = None,
     rule_decision = d, rule_reason = ''Not today.''\<rparr>"

lemma added_rule_never_relaxes_witness:
  "rank (decide example_urls example_policy ''navigate'' (Some ''https://bank.test/statement'') None False)
     \<le> rank (decide example_urls (add_rule (example_rule (JStr ''deny'')) example_policy)
          ''navigate'' (Some ''https://bank.test/statement'') None False)"
  by (rule added_rule_never_relaxes) (simp_all add: plain_rules_def example_policy_def rules_of_def example_rule_def)

text \<open>
  C6. No spelling of an immune path segment gets past the table: if some segment of the request's
  path spells an immune word, with any of its characters written as percent escapes and in any
  case, the stated method (if any) is one the entry lists, and the entry's query keys are present,
  then the action is denied under every policy, whatever its rules, mode, advisor and allowlists.
\<close>

theorem immune_word_denied_in_any_spelling:
  assumes "e \<in> set immune_set" and "w \<in> set (imm_segments e)"
    and "U u = Some parsed" and "ascii (u_pathname parsed)"
    and "s \<in> set (split_on CHR ''/'' (u_pathname parsed))" and "spells w s"
    and "m = None \<or> i \<or> imm_method e = None \<or> (\<exists>ms x. imm_method e = Some ms \<and> m = Some x \<and> upper_text x \<in> set ms)"
    and "case imm_query e of None \<Rightarrow> True | Some ks \<Rightarrow> set ks \<subseteq> set (u_keys parsed)"
  shows "outcome_text (decide U p a (Some u) m i) = ''deny''"
proof -
  have w: "ascii w" "w \<noteq> []" "CHR ''/'' \<notin> set w" using immune_words [OF assms(1,2)] by auto
  have "w \<in> set (segments_of (u_pathname parsed))"
    by (rule spelled_in_path [OF assms(4,5,6) w])
  then have "immune_trips a parsed m i e"
    using assms(2,7,8) immune_verbless [OF assms(1)]
    by (auto simp: immune_trips_def list_ex_iff list_all_iff split: option.splits)
  then have "immune_match U a (Some u) m i \<noteq> None"
    using assms(1,3) by (auto simp: immune_match_def find_None_iff)
  then have "\<not> gate_passes U p a (Some u) m i"
    by (simp add: gate_passes_def)
  then have "rank (decide U p a (Some u) m i) = 3" by (rule decide_gate_fails)
  then show ?thesis by (cases "decide U p a (Some u) m i") auto
qed

lemma immune_word_denied_in_any_spelling_witness:
  "outcome_text (decide example_urls native_application_policy ''navigate''
     (Some ''https://bank.test/%74rans%66er'') (Some ''GET'') True) = ''deny''"
  by (rule immune_word_denied_in_any_spelling [where e = "hd immune_set" and w = "''transfer''"
      and parsed = "the (example_urls ''https://bank.test/%74rans%66er'')" and s = "''%74rans%66er''"])
    (code_simp, code_simp, code_simp, simp add: example_urls_def code_def, code_simp, code_simp, simp, code_simp)

text \<open>
  A policy the parser accepts is well formed: its origins are at most 64 distinct origins of
  http or https addresses (or \<open>"any"\<close>), navigation is never allowed with an empty list, its classes
  are the four known ones, it has at most 256 rules, each with an id, a reason and a decision whose
  text is one of the three words, and an advisor has an absolute command and a timeout within 100 to
  30000 ms. An autonomous one never makes anybody wait.
\<close>

theorem parsed_policy_wf:
  assumes "parse_policy U number is_absolute v = Inr p"
  shows "wf_policy U is_absolute p
    \<and> (p_mode p = Autonomous \<longrightarrow> outcome_text (decide U p a url m i) \<noteq> ''ask'')"
proof -
  have "rank (decide U p a url m i) \<noteq> 2" if auto: "p_mode p = Autonomous"
  proof (cases "gate_passes U p a url m i")
    case True
    then show ?thesis by (simp add: decide_gate_passes auto split: option.splits)
  qed (simp add: decide_gate_fails)
  moreover have "outcome_text (decide U p a url m i) = ''ask'' \<Longrightarrow> rank (decide U p a url m i) = 2"
    by (cases "decide U p a url m i") auto
  ultimately show ?thesis using parse_policy_wf [OF assms] by blast
qed

lemma parsed_policy_wf_witness:
  "\<exists>p. parse_policy example_urls (\<lambda>s. NaN) (\<lambda>s. True)
      (JObj [(''mode'', JStr ''autonomous''), (''origins'', JArr [JStr ''bank.test'', JStr ''https://bank.test'']),
             (''allow'', JArr [JStr ''navigate''])]) = Inr p
     \<and> wf_policy example_urls (\<lambda>s. True) p \<and> p_origins p = Listed [''https://bank.test'']"
proof -
  let ?v = "JObj [(''mode'', JStr ''autonomous''), (''origins'', JArr [JStr ''bank.test'', JStr ''https://bank.test'']),
             (''allow'', JArr [JStr ''navigate''])]"
  let ?p = "\<lparr>p_mode = Autonomous, p_origins = Listed [''https://bank.test''], p_allow = [NavigateClass],
      p_deny = [IrreversibleClass], p_rules = None, p_advisor = None\<rparr>"
  have "parse_policy example_urls (\<lambda>s. NaN) (\<lambda>s. True) ?v = Inr ?p" by code_simp
  with parsed_policy_wf [OF this] show ?thesis by auto
qed

definition list_decision_policy :: "jsval \<Rightarrow> jsval" where
  "list_decision_policy d = JObj
     [(''mode'', JStr ''autonomous''), (''allow'', JArr [JStr ''write'']),
      (''rules'', JArr [JObj [(''id'', JStr ''no-click''), (''verb'', JStr ''click''), (''decision'', d)]])]"

definition decided_click :: "jsval \<Rightarrow> (orbit_error, string) result" where
  "decided_click d =
     and_then (parse_policy (\<lambda>s. None) (\<lambda>s. NaN) (\<lambda>s. True) (list_decision_policy d))
       (\<lambda>p. Ok (outcome_text (decide (\<lambda>s. None) p ''click'' None None False)))"

text \<open>
  A rule's decision is checked by its text and stored as given, so a rule whose decision is the
  one-element list \<open>["deny"]\<close> is accepted by the parser and then enforced by no branch of \<open>decide\<close>: the
  action it names is allowed, while the same policy with the string refuses it.
\<close>

theorem list_valued_deny_is_not_enforced:
  "decided_click (JStr ''deny'') = Inr ''deny'' \<and> decided_click (JArr [JStr ''deny'']) = Inr ''allow''"
  by code_simp

text \<open>
  The journal line of a decision carries nothing of the destination beyond its origin, and of
  the policy in force afterwards only the origins and the classes: two inputs that differ in the
  address they name (with the same origin) or in the rest of the policy give the same line, and the
  line's outcome, reason and rule are those of the decision.
\<close>

theorem journal_reveals_origin_only:
  assumes "map_option u_origin (U u) = map_option u_origin (U u')"
    and "p_origins q = p_origins q'" and "p_allow q = p_allow q'"
  shows "journal_entry U (i\<lparr>ji_url := Some u, ji_after := Some q\<rparr>)
      = journal_entry U (i\<lparr>ji_url := Some u', ji_after := Some q'\<rparr>)
    \<and> je_outcome (journal_entry U i) = outcome_text (ji_decision i)
    \<and> (je_reason (journal_entry U i) = None \<longleftrightarrow> ji_decision i = Allow)"
  using assms by (cases "ji_decision i") (simp_all add: journal_entry_def)

definition example_journal_input :: "url_parser \<Rightarrow> journal_input" where
  "example_journal_input U = \<lparr>ji_sequence = 1, ji_session = ''s'', ji_actor = Agent, ji_type = ''navigate'',
     ji_decision = decide U example_policy ''navigate'' None None False, ji_url = None,
     ji_input_length = None, ji_decided_by = None, ji_at = None, ji_request = None, ji_after = None\<rparr>"

lemma journal_reveals_origin_only_witness:
  "journal_entry example_urls ((example_journal_input example_urls)
      \<lparr>ji_url := Some ''https://bank.test/statement'', ji_after := Some example_policy\<rparr>)
   = journal_entry example_urls ((example_journal_input example_urls)
      \<lparr>ji_url := Some ''https://bank.test'', ji_after := Some (example_policy\<lparr>p_deny := []\<rparr>)\<rparr>)"
  using journal_reveals_origin_only [of example_urls "''https://bank.test/statement''" "''https://bank.test''"
      example_policy "example_policy\<lparr>p_deny := []\<rparr>" "example_journal_input example_urls"]
  by (simp add: example_urls_def)

end
