(* ===== verification/Callers.thy ===== *)
theory Callers
  imports OrbitErrors
begin

text \<open>
  \<open>src/caller.ts\<close> and \<open>src/caller-registry.ts\<close>: who is calling the broker, as far as it can check,
  and which adapters are still there.

  Reading \<open>/proc\<close>, sending signal 0, hashing and decoding the header are parameters. Conversation
  ids are sequences of UTF-16 code units (naturals below 65536); the text of a decoded header is a
  string of the model, whose characters are its code units.
\<close>

section \<open>Conversation ids\<close>

definition is_space_unit :: "nat \<Rightarrow> bool" where
  "is_space_unit u \<longleftrightarrow> (9 \<le> u \<and> u \<le> 13) \<or> (8192 \<le> u \<and> u \<le> 8202)
     \<or> u \<in> {32, 160, 5760, 8232, 8233, 8239, 8287, 12288, 65279}"

definition trim_units :: "nat list \<Rightarrow> nat list" where
  "trim_units us = rev (dropWhile is_space_unit (rev (dropWhile is_space_unit us)))"

definition is_control_unit :: "nat \<Rightarrow> bool" where
  "is_control_unit u \<longleftrightarrow> u \<le> 31 \<or> u = 127"

definition is_high :: "nat \<Rightarrow> bool" where
  "is_high u \<longleftrightarrow> 55296 \<le> u \<and> u \<le> 56319"

definition is_low :: "nat \<Rightarrow> bool" where
  "is_low u \<longleftrightarrow> 56320 \<le> u \<and> u \<le> 57343"

text \<open>The loop over the code units: a high surrogate needs a low one right after it.\<close>

fun well_paired :: "nat list \<Rightarrow> bool" where
  "well_paired [] \<longleftrightarrow> True"
| "well_paired (u # us) \<longleftrightarrow>
     (if is_high u then (case us of [] \<Rightarrow> False | l # us' \<Rightarrow> is_low l \<and> well_paired us')
      else \<not> is_low u \<and> well_paired us)"

definition canonical_units :: "nat list \<Rightarrow> bool" where
  "canonical_units us \<longleftrightarrow>
     1 \<le> length us \<and> length us \<le> 256 \<and> trim_units us = us
     \<and> \<not> list_ex is_control_unit us \<and> well_paired us"

definition is_canonical_conversation_id :: "jsval \<Rightarrow> bool" where
  "is_canonical_conversation_id v = (case v of JStr s \<Rightarrow> canonical_units (map code s) | _ \<Rightarrow> False)"

section \<open>Claims and callers\<close>

datatype role = OwnerRole | AgentRole

record caller =
  c_id :: string
  c_label :: string
  c_role :: role
  c_kind :: jsval
  c_verified :: bool
  c_pid :: "int option"
  c_start :: "string option"

definition internal_caller :: caller where
  "internal_caller = \<lparr>c_id = ''internal'', c_label = ''the broker'', c_role = OwnerRole,
     c_kind = JStr ''internal'', c_verified = True, c_pid = None, c_start = None\<rparr>"

definition unidentified_caller :: caller where
  "unidentified_caller = \<lparr>c_id = ''unidentified'', c_label = ''unidentified client'', c_role = AgentRole,
     c_kind = JStr ''unidentified'', c_verified = False, c_pid = None, c_start = None\<rparr>"

text \<open>\<open>processStart\<close>: the start time of a process from the text of its stat file, if readable.\<close>

definition after_last :: "char \<Rightarrow> string \<Rightarrow> string" where
  "after_last c s = rev (takeWhile (\<lambda>x. x \<noteq> c) (rev s))"

definition process_start :: "string option \<Rightarrow> string option" where
  "process_start stat =
     (case stat of
        None \<Rightarrow> None
      | Some raw \<Rightarrow>
          (let tail = (if CHR '')'' \<in> set raw then drop 1 (after_last CHR '')'' raw) else drop 1 raw);
               parts = split_on CHR '' '' tail
           in if 19 < length parts then Some (parts ! 19) else None))"

datatype signal_result = Delivered0 | NotPermitted | SignalFailed

definition process_alive ::
  "(int \<Rightarrow> signal_result) \<Rightarrow> (int \<Rightarrow> string option) \<Rightarrow> int \<Rightarrow> string option \<Rightarrow> bool" where
  "process_alive kill start_of pid start =
     (if kill pid = SignalFailed then False
      else case start of
        None \<Rightarrow> True
      | Some st \<Rightarrow> (case start_of pid of None \<Rightarrow> True | Some current \<Rightarrow> current = st))"

type_synonym environment = "string \<Rightarrow> string option"

definition env_set :: "environment \<Rightarrow> string \<Rightarrow> bool" where
  "env_set env k = (case env k of None \<Rightarrow> False | Some v \<Rightarrow> v \<noteq> [])"

definition host_name :: "environment \<Rightarrow> string" where
  "host_name env =
     (let label = (case env ''ORBIT_CALLER_LABEL'' of None \<Rightarrow> [] | Some v \<Rightarrow> js_trim v)
      in if label \<noteq> [] then take 40 label
         else if env_set env ''CLAUDECODE'' \<or> env_set env ''CLAUDE_CODE_ENTRYPOINT'' then ''Claude''
         else if env_set env ''CODEX_THREAD_ID'' \<or> env_set env ''CODEX_HOME'' \<or> env_set env ''CODEX_SANDBOX''
         then ''Codex''
         else if env_set env ''HERMES_SESSION_ID'' \<or> env_set env ''HERMES_HOME'' then ''Hermes''
         else ''Agent'')"

text \<open>The claim as the data object that is sent; absent fields are left out of the list.\<close>

definition local_claim :: "(int \<Rightarrow> string option) \<Rightarrow> string \<Rightarrow> environment \<Rightarrow> int \<Rightarrow> jsobj" where
  "local_claim start_of kind env pid =
     [(''v'', jint 1), (''kind'', JStr kind), (''pid'', jint pid)]
     @ (case start_of pid of None \<Rightarrow> [] | Some st \<Rightarrow> [(''start'', JStr st)])
     @ (case env ''ORBIT_CONVERSATION_ID'' of
          Some c \<Rightarrow> if is_canonical_conversation_id (JStr c) then [(''conversationId'', JStr c)] else []
        | None \<Rightarrow> [])
     @ [(''host'', JStr (host_name env))]"

record process_probe =
  probe_start :: "int \<Rightarrow> string option"
  probe_owner :: "int \<Rightarrow> int option"
  probe_alive :: "int \<Rightarrow> string option \<Rightarrow> bool"

definition kinds :: "string list" where
  "kinds = [''adapter'', ''cli'', ''client'']"

definition start_ok :: "jsval \<Rightarrow> bool" where
  "start_ok v \<longleftrightarrow> v = Undef \<or> (is_string v \<and> class_string is_digit 1 20 (str_of v))"

definition claim_ok :: "jsobj \<Rightarrow> bool" where
  "claim_ok fs \<longleftrightarrow>
     getp fs ''v'' = jint 1
     \<and> (case js_text (getp fs ''kind'') of None \<Rightarrow> False | Some k \<Rightarrow> k \<in> set kinds)
     \<and> is_integer (getp fs ''pid'') \<and> int_of_val (getp fs ''pid'') \<ge> 2
     \<and> start_ok (getp fs ''start'')
     \<and> (getp fs ''conversationId'' = Undef \<or> is_canonical_conversation_id (getp fs ''conversationId''))"

definition claim_start :: "jsobj \<Rightarrow> string option" where
  "claim_start fs = (case getp fs ''start'' of JStr s \<Rightarrow> Some s | _ \<Rightarrow> None)"

definition claim_id :: "jsobj \<Rightarrow> string" where
  "claim_id fs =
     (let c = str_of (getp fs ''conversationId'')
      in if c \<noteq> [] then ''conv:'' @ c
         else ''proc:'' @ show_int (int_of_val (getp fs ''pid'')) @ '':''
           @ (case claim_start fs of None \<Rightarrow> ''0'' | Some st \<Rightarrow> st))"

definition claim_host :: "jsobj \<Rightarrow> string" where
  "claim_host fs =
     (let h = str_of (getp fs ''host'')
      in if js_trim h \<noteq> [] \<and> \<not> list_ex is_control h then take 40 (js_trim h) else ''Agent'')"

text \<open>The three process checks, and the caller a claim that passes them becomes.\<close>

definition process_checks :: "process_probe \<Rightarrow> int option \<Rightarrow> int \<Rightarrow> string option \<Rightarrow> bool" where
  "process_checks probe broker_uid pid start \<longleftrightarrow>
     probe_alive probe pid start
     \<and> (case (probe_owner probe pid, broker_uid) of (Some o', Some b) \<Rightarrow> o' = b | _ \<Rightarrow> True)
     \<and> (case (start, probe_start probe pid) of (Some st, Some a) \<Rightarrow> a = st | _ \<Rightarrow> True)"

definition caller_of_claim :: "(string \<Rightarrow> string) \<Rightarrow> jsobj \<Rightarrow> caller" where
  "caller_of_claim suffix fs =
     \<lparr>c_id = claim_id fs, c_label = claim_host fs @ '' ('' @ suffix (claim_id fs) @ '')'',
      c_role = AgentRole, c_kind = getp fs ''kind'', c_verified = True,
      c_pid = Some (int_of_val (getp fs ''pid'')), c_start = claim_start fs\<rparr>"

text \<open>
  \<open>resolveCaller\<close>: \<open>decode\<close> is the base64url and JSON reading of the header (\<open>None\<close> when it throws),
  \<open>suffix\<close> four hexadecimal digits of a hash.
\<close>

definition resolve_caller ::
  "(string \<Rightarrow> jsval option) \<Rightarrow> (string \<Rightarrow> string) \<Rightarrow> string option \<Rightarrow> process_probe \<Rightarrow> int option \<Rightarrow> caller" where
  "resolve_caller decode suffix header probe broker_uid =
     (case header of
        None \<Rightarrow> unidentified_caller
      | Some text \<Rightarrow>
          if text = [] \<or> length text > 2048 then unidentified_caller
          else (case decode text of
              Some (JObj fs) \<Rightarrow>
                if claim_ok fs \<and> process_checks probe broker_uid (int_of_val (getp fs ''pid'')) (claim_start fs)
                then caller_of_claim suffix fs else unidentified_caller
            | _ \<Rightarrow> unidentified_caller))"

lemma resolve_cases:
  "resolve_caller decode suffix header probe uid = unidentified_caller
   \<or> (\<exists>text fs. header = Some text \<and> decode text = Some (JObj fs) \<and> claim_ok fs
       \<and> process_checks probe uid (int_of_val (getp fs ''pid'')) (claim_start fs)
       \<and> resolve_caller decode suffix header probe uid = caller_of_claim suffix fs)"
  by (simp add: resolve_caller_def split: option.split jsval.split)

section \<open>The owner credential\<close>

text \<open>\<open>readOwnerCredential\<close>: the mode and owner of the file and its text, \<open>None\<close> where reading throws.\<close>

definition read_owner_credential :: "int option \<Rightarrow> (nat \<times> int \<times> string) option \<Rightarrow> string option" where
  "read_owner_credential uid file =
     (case file of
        None \<Rightarrow> None
      | Some (mode, owner, contents) \<Rightarrow>
          if mode mod 64 \<noteq> 0 \<or> (case uid of None \<Rightarrow> False | Some u \<Rightarrow> owner \<noteq> u) then None
          else (let token = js_trim contents
                in if class_string is_lower_hex 64 64 token then Some token else None))"

text \<open>
  \<open>ownerTokenMatches\<close>: the lengths compared are in code units, \<open>timingSafeEqual\<close> compares UTF-8 bytes
  and throws (\<open>None\<close>) when their numbers differ.
\<close>

definition owner_token_matches :: "string option \<Rightarrow> string option \<Rightarrow> bool option" where
  "owner_token_matches presented expected =
     (case (presented, expected) of
        (Some p, Some e) \<Rightarrow>
          if p = [] \<or> e = [] \<or> length p \<noteq> length e then Some False
          else if utf8_bytes p \<noteq> utf8_bytes e then None
          else Some (p = e)
      | _ \<Rightarrow> Some False)"

record presented_identity =
  ci_claim :: jsobj
  ci_owner :: "string option"

record configured =
  cfg_kind :: string
  cfg_owner :: bool

definition initial_configuration :: configured where
  "initial_configuration = \<lparr>cfg_kind = ''client'', cfg_owner = False\<rparr>"

definition configure_caller :: "string \<Rightarrow> bool option \<Rightarrow> configured" where
  "configure_caller kind owner = \<lparr>cfg_kind = kind, cfg_owner = (owner = Some True)\<rparr>"

definition client_identity ::
  "(string \<Rightarrow> jsobj) \<Rightarrow> string option \<Rightarrow> configured \<Rightarrow> presented_identity option \<Rightarrow> presented_identity" where
  "client_identity claim credential cfg override =
     (case override of
        Some i \<Rightarrow> i
      | None \<Rightarrow> \<lparr>ci_claim = claim (cfg_kind cfg),
          ci_owner = (if cfg_owner cfg \<and> cfg_kind cfg \<noteq> ''adapter'' then credential else None)\<rparr>)"

definition identity_headers :: "(jsobj \<Rightarrow> string) \<Rightarrow> presented_identity \<Rightarrow> (string \<times> string) list" where
  "identity_headers encode i =
     (''x-orbit-caller'', encode (ci_claim i))
     # (case ci_owner i of Some t \<Rightarrow> if t \<noteq> [] then [(''x-orbit-owner'', t)] else [] | None \<Rightarrow> [])"

section \<open>The registry of adapters\<close>

text \<open>
  \<open>procs\<close> is keyed by the text of process id and start time. The callbacks \<open>onGone\<close> and \<open>onBack\<close>
  are returned as events, in the order in which they are called.
\<close>

record rentry =
  r_label :: string
  r_procs :: "(string \<times> (int \<times> string option)) list"
  r_gone :: bool
  r_seen :: int

type_synonym registry = "(string \<times> rentry) list"

datatype event = Gone string string | Back string string

definition proc_key :: "int \<Rightarrow> string option \<Rightarrow> string" where
  "proc_key pid start = show_int pid @ '':'' @ (case start of None \<Rightarrow> [] | Some st \<Rightarrow> st)"

definition touch :: "int \<Rightarrow> caller \<Rightarrow> registry \<Rightarrow> event list \<times> registry" where
  "touch now c reg =
     (case c_pid c of
        None \<Rightarrow> ([], reg)
      | Some pid \<Rightarrow>
          if c_kind c \<noteq> JStr ''adapter'' then ([], reg)
          else
            (let e = (case map_of reg (c_id c) of
                 None \<Rightarrow> \<lparr>r_label = c_label c, r_procs = [], r_gone = False, r_seen = now\<rparr>
               | Some e \<Rightarrow> e);
                 e' = e\<lparr>r_procs := put (proc_key pid (c_start c)) (pid, c_start c) (r_procs e),
                        r_seen := now, r_label := c_label c, r_gone := False\<rparr>
             in (if r_gone e then [Back (c_id c) (c_label c)] else [], put (c_id c) e' reg)))"

definition settle :: "string \<Rightarrow> rentry \<Rightarrow> event list \<times> rentry" where
  "settle cid e =
     (if r_procs e = [] \<and> \<not> r_gone e then ([Gone cid (r_label e)], e\<lparr>r_gone := True\<rparr>) else ([], e))"

definition detach :: "caller \<Rightarrow> registry \<Rightarrow> event list \<times> registry" where
  "detach c reg =
     (case (map_of reg (c_id c), c_pid c) of
        (Some e, Some pid) \<Rightarrow>
          (let (evs, e') = settle (c_id c) (e\<lparr>r_procs := del (proc_key pid (c_start c)) (r_procs e)\<rparr>)
           in (evs, put (c_id c) e' reg))
      | _ \<Rightarrow> ([], reg))"

definition is_alive :: "string \<Rightarrow> registry \<Rightarrow> bool option" where
  "is_alive cid reg = map_option (\<lambda>e. \<not> r_gone e) (map_of reg cid)"

definition sweep_entry :: "(int \<Rightarrow> string option \<Rightarrow> bool) \<Rightarrow> string \<Rightarrow> rentry \<Rightarrow> event list \<times> rentry" where
  "sweep_entry alive cid e =
     settle cid (e\<lparr>r_procs := filter (\<lambda>(k, (pid, st)). alive pid st) (r_procs e)\<rparr>)"

definition forgotten :: "int \<Rightarrow> rentry \<Rightarrow> bool" where
  "forgotten now e \<longleftrightarrow> r_gone e \<and> now - r_seen e > 86400000"

definition sweep :: "(int \<Rightarrow> string option \<Rightarrow> bool) \<Rightarrow> int \<Rightarrow> registry \<Rightarrow> event list \<times> registry" where
  "sweep alive now reg =
     (concat (map (\<lambda>(cid, e). fst (sweep_entry alive cid e)) reg),
      filter (\<lambda>(cid, e). \<not> forgotten now e) (map (\<lambda>(cid, e). (cid, snd (sweep_entry alive cid e))) reg))"

text \<open>An entry is gone exactly when no process is registered for it.\<close>

definition registry_inv :: "registry \<Rightarrow> bool" where
  "registry_inv reg \<longleftrightarrow> wf_map reg \<and> (\<forall>cid e. map_of reg cid = Some e \<longrightarrow> (r_gone e \<longleftrightarrow> r_procs e = []))"

lemma put_not_Nil [simp]: "put k v kvs \<noteq> []"
  by (cases kvs) (auto split: if_splits)

lemma settle_gone: "r_gone e \<longrightarrow> r_procs e = [] \<Longrightarrow> r_gone (snd (settle c e)) \<longleftrightarrow> r_procs (snd (settle c e)) = []"
  by (auto simp: settle_def)

lemma settle_procs [simp]: "r_procs (snd (settle c e)) = r_procs e" "r_seen (snd (settle c e)) = r_seen e"
  by (auto simp: settle_def)

lemma inv_touch: "registry_inv reg \<Longrightarrow> registry_inv (snd (touch now c reg))"
  by (auto simp: registry_inv_def touch_def Let_def split: option.splits)

lemma inv_detach: 
  assumes "registry_inv reg" shows "registry_inv (snd (detach c reg))"
proof (cases "map_of reg (c_id c)")
  case (Some e)
  have "r_gone e \<longrightarrow> r_procs e = []" using assms Some by (auto simp: registry_inv_def)
  then have "r_gone (snd (settle (c_id c) (e\<lparr>r_procs := del k (r_procs e)\<rparr>)))
      \<longleftrightarrow> del k (r_procs e) = []" for k
    using settle_gone [of "e\<lparr>r_procs := del k (r_procs e)\<rparr>" "c_id c"] by auto
  then show ?thesis
    using assms Some by (auto simp: detach_def registry_inv_def case_prod_beta split: option.splits)
qed (use assms in \<open>auto simp: detach_def split: option.splits\<close>)

text \<open>The map after a sweep, entry by entry.\<close>

lemma map_of_map_pair: "map_of (map (\<lambda>(k, v). (k, f k v)) kvs) x = map_option (f x) (map_of kvs x)"
  by (induction kvs) auto

lemma map_of_filter_val:
  "wf_map kvs \<Longrightarrow> map_of (filter (\<lambda>(k, v). P v) kvs) x =
     (case map_of kvs x of None \<Rightarrow> None | Some v \<Rightarrow> if P v then Some v else None)"
proof (induction kvs)
  case (Cons kv kvs)
  then show ?case
    by (cases kv) (auto simp: map_of_None_iff [symmetric] split: option.splits)
qed simp

lemma wf_map_pair: "wf_map kvs \<Longrightarrow> wf_map (map (\<lambda>(k, v). (k, f k v)) kvs)"
  by (simp add: wf_map_def case_prod_beta comp_def)

lemma map_of_sweep:
  assumes "wf_map reg"
  shows "map_of (snd (sweep alive now reg)) cid =
    (case map_of reg cid of None \<Rightarrow> None
     | Some e \<Rightarrow> (let e' = snd (sweep_entry alive cid e) in if forgotten now e' then None else Some e'))"
  unfolding sweep_def snd_conv
  by (subst map_of_filter_val [OF wf_map_pair [OF assms]])
    (simp add: map_of_map_pair [of "\<lambda>cid e. snd (sweep_entry alive cid e)"] Let_def split: option.splits)

lemma inv_sweep:
  assumes "registry_inv reg" shows "registry_inv (snd (sweep alive now reg))"
proof -
  have wf: "wf_map reg" using assms by (simp add: registry_inv_def)
  have "r_gone e' \<longleftrightarrow> r_procs e' = []"
    if e': "map_of (snd (sweep alive now reg)) cid = Some e'" for cid e'
  proof -
    obtain e where e: "map_of reg cid = Some e" "e' = snd (sweep_entry alive cid e)"
      using e' by (auto simp: map_of_sweep [OF wf] Let_def split: option.splits if_splits)
    then have "r_gone e \<longrightarrow> r_procs e = []" using assms by (auto simp: registry_inv_def)
    then show ?thesis
      unfolding e(2) sweep_entry_def by (intro settle_gone) auto
  qed
  then show ?thesis
    using wf by (auto simp: registry_inv_def sweep_def intro: wf_map_filter wf_map_pair)
qed

section \<open>Ids and events\<close>

lemma show_nat_digits: "c \<in> set (show_nat n) \<Longrightarrow> is_digit c"
proof (induction n rule: show_nat.induct)
  case (1 n)
  have d: "is_digit (char_of (48 + k))" if "k < 10" for k :: nat
    using that by (simp add: between_def code_def)
  show ?case
  proof (cases "n < 10")
    case True
    then show ?thesis using 1(2) d by (simp add: show_nat.simps [of n])
  next
    case False
    then have "c \<in> set (show_nat (n div 10)) \<or> c = char_of (48 + n mod 10)"
      using 1(2) by (subst (asm) show_nat.simps) auto
    then show ?thesis using 1(1) [OF False] d [of "n mod 10"] by auto
  qed
qed

definition digit_value :: "string \<Rightarrow> nat" where
  "digit_value s = foldl (\<lambda>n c. 10 * n + (code c - 48)) 0 s"

lemma digit_value_show [simp]: "digit_value (show_nat n) = n"
proof (induction n rule: show_nat.induct)
  case (1 n)
  then show ?case
    by (subst show_nat.simps) (auto simp: digit_value_def code_def)
qed

lemma show_nat_inject: "show_nat m = show_nat n \<longleftrightarrow> m = n"
  by (metis digit_value_show)

lemma colon_not_digit [simp]: "\<not> is_digit CHR '':''"
  by (simp add: between_def code_def)

lemma proc_text_inject:
  assumes "show_nat m @ '':'' @ s = show_nat n @ '':'' @ t"
  shows "m = n \<and> s = t"
proof -
  have no: "CHR '':'' \<notin> set (show_nat k)" for k
    using show_nat_digits [of "CHR '':''" k] by auto
  have "split_on CHR '':'' (show_nat k @ CHR '':'' # u) = show_nat k # split_on CHR '':'' u" for k u
    using no [of k] by (simp add: split_on_append_sep split_on_no_sep)
  with assms have "show_nat m = show_nat n" "split_on CHR '':'' s = split_on CHR '':'' t"
    by (metis append_Cons append_Nil list.inject)+
  then show ?thesis by (metis join_split show_nat_inject)
qed

text \<open>UTF-16: what a well-paired sequence of units encodes.\<close>

definition scalar :: "nat \<Rightarrow> bool" where
  "scalar c \<longleftrightarrow> c < 55296 \<or> (57344 \<le> c \<and> c < 1114112)"

definition utf16 :: "nat \<Rightarrow> nat list" where
  "utf16 c = (if c < 65536 then [c] else [55296 + (c - 65536) div 1024, 56320 + (c - 65536) mod 1024])"

lemma utf16_simps:
  "c < 65536 \<Longrightarrow> utf16 c = [c]"
  "\<not> c < 65536 \<Longrightarrow> utf16 c = [55296 + (c - 65536) div 1024, 56320 + (c - 65536) mod 1024]"
  by (simp_all add: utf16_def)

fun utf16_decode :: "nat list \<Rightarrow> nat list" where
  "utf16_decode [] = []"
| "utf16_decode (u # us) =
     (if is_high u then (case us of [] \<Rightarrow> [u] | l # us' \<Rightarrow> (65536 + (u - 55296) * 1024 + (l - 56320)) # utf16_decode us')
      else u # utf16_decode us)"

lemma decode_encode: "\<forall>c \<in> set cs. scalar c \<Longrightarrow> utf16_decode (concat (map utf16 cs)) = cs"
proof (induction cs)
  case (Cons c cs)
  then have IH: "utf16_decode (concat (map utf16 cs)) = cs" and c: "scalar c" by auto
  show ?case
  proof (cases "c < 65536")
    case True
    then have "\<not> is_high c" using c by (auto simp: is_high_def scalar_def)
    then show ?thesis using IH True by (simp add: utf16_simps(1))
  next
    case False
    then have "is_high (55296 + (c - 65536) div 1024)"
      using c by (auto simp: is_high_def scalar_def)
    moreover have "65536 + (c - 65536) div 1024 * 1024 + (c - 65536) mod 1024 = c"
      using False by simp
    ultimately show ?thesis using IH False by (simp add: utf16_simps(2))
  qed
qed simp

lemma encode_paired: "\<forall>c \<in> set cs. scalar c \<Longrightarrow> well_paired (concat (map utf16 cs))"
proof (induction cs)
  case (Cons c cs)
  then have IH: "well_paired (concat (map utf16 cs))" and c: "scalar c" by auto
  show ?case
  proof (cases "c < 65536")
    case True
    then have "\<not> is_high c \<and> \<not> is_low c" using c by (auto simp: is_high_def is_low_def scalar_def)
    then show ?thesis using IH True by (simp add: utf16_simps(1))
  next
    case False
    then have "is_high (55296 + (c - 65536) div 1024)"
      using c by (auto simp: is_high_def scalar_def)
    moreover have "is_low (56320 + (c - 65536) mod 1024)"
      using mod_less_divisor [of 1024 "c - 65536"] unfolding is_low_def by linarith
    ultimately show ?thesis using IH False by (simp add: utf16_simps(2))
  qed
qed simp

lemma paired_decode:
  "well_paired us \<Longrightarrow> \<forall>u \<in> set us. u < 65536 \<Longrightarrow>
     (\<forall>c \<in> set (utf16_decode us). scalar c) \<and> concat (map utf16 (utf16_decode us)) = us"
proof (induction us rule: well_paired.induct)
  case (2 u us)
  show ?case
  proof (cases "is_high u")
    case True
    then obtain l us' where us: "us = l # us'" "is_low l" "well_paired us'"
      using "2.prems"(1) by (auto split: list.splits)
    have IH: "(\<forall>c \<in> set (utf16_decode us'). scalar c) \<and> concat (map utf16 (utf16_decode us')) = us'"
      using "2.IH"(1) [OF True us(1)] us "2.prems"(2) by simp
    let ?c = "65536 + (u - 55296) * 1024 + (l - 56320)"
    have b: "u - 55296 < 1024" "l - 56320 < 1024" "55296 \<le> u" "56320 \<le> l"
      using True us(2) by (auto simp: is_high_def is_low_def)
    then have "scalar ?c" by (simp add: scalar_def)
    moreover have "utf16 ?c = [u, l]"
    proof -
      obtain a d where "u = 55296 + a" "l = 56320 + d" using b(3,4) le_Suc_ex by blast
      then show ?thesis using b(1,2) by (simp add: utf16_simps(2))
    qed
    ultimately show ?thesis using IH us True by simp
  next
    case False
    then have "\<not> is_low u" "well_paired us" using "2.prems"(1) by auto
    moreover from this False have "scalar u" using "2.prems"(2) by (auto simp: scalar_def is_high_def is_low_def)
    moreover have "utf16 u = [u]" using "2.prems"(2) by (simp add: utf16_def)
    ultimately show ?thesis using "2.IH"(2) [OF False] "2.prems"(2) False by simp
  qed
qed simp

section \<open>Properties\<close>

lemma well_paired_iff_unicode:
  assumes "\<forall>u \<in> set us. u < 65536"
  shows "well_paired us \<longleftrightarrow> (\<exists>!cs. (\<forall>c \<in> set cs. scalar c) \<and> concat (map utf16 cs) = us)"
proof
  assume "well_paired us"
  then have "(\<forall>c \<in> set (utf16_decode us). scalar c) \<and> concat (map utf16 (utf16_decode us)) = us"
    by (rule paired_decode [OF _ assms])
  then show "\<exists>!cs. (\<forall>c \<in> set cs. scalar c) \<and> concat (map utf16 cs) = us"
  proof (rule ex1I)
    fix cs assume "(\<forall>c \<in> set cs. scalar c) \<and> concat (map utf16 cs) = us"
    then show "cs = utf16_decode us" using decode_encode [of cs] by simp
  qed
next
  assume "\<exists>!cs. (\<forall>c \<in> set cs. scalar c) \<and> concat (map utf16 cs) = us"
  from ex1_implies_ex [OF this] obtain cs where cs: "\<forall>c \<in> set cs. scalar c" "concat (map utf16 cs) = us"
    by blast
  show "well_paired us" using encode_paired [OF cs(1)] unfolding cs(2) .
qed

lemma conj_swap_last:
  "w = e \<Longrightarrow> (a \<and> b \<and> c \<and> \<not> (\<exists>x \<in> S. P x) \<and> w) = (a \<and> b \<and> c \<and> (\<forall>x \<in> S. \<not> P x) \<and> e)"
  by blast

text \<open>
  A sequence of UTF-16 code units is accepted as a conversation id exactly when it has 1 to 256
  units, no white space at either end, no control character, and is the UTF-16 form of exactly one
  sequence of Unicode scalar values; so two different accepted ids stay different when they are
  written as UTF-8 and hashed into a file name.
\<close>

theorem canonical_id_is_unicode_text:
  assumes "\<forall>u \<in> set us. u < 65536"
  shows "canonical_units us \<longleftrightarrow>
    1 \<le> length us \<and> length us \<le> 256 \<and> trim_units us = us \<and> (\<forall>u \<in> set us. \<not> is_control_unit u)
    \<and> (\<exists>!cs. (\<forall>c \<in> set cs. scalar c) \<and> concat (map utf16 cs) = us)"
  unfolding canonical_units_def list_ex_iff
  by (rule conj_swap_last [OF well_paired_iff_unicode [OF assms]])

lemma canonical_id_is_unicode_text_witness:
  "canonical_units [99, 55357, 56832] \<and> (\<exists>!cs. (\<forall>c \<in> set cs. scalar c) \<and> concat (map utf16 cs) = [99, 55357, 56832])"
proof -
  have "canonical_units [99, 55357, 56832]"
    by (simp add: canonical_units_def trim_units_def is_space_unit_def is_control_unit_def is_high_def is_low_def)
  moreover have "\<forall>u \<in> set [99, 55357, 56832::nat]. u < 65536" by simp
  ultimately show ?thesis using canonical_id_is_unicode_text [of "[99, 55357, 56832]"] by blast
qed

text \<open>
  Whatever a request's header decodes to, the caller it resolves to is never the owner; a verified
  one names a process that is alive, belongs to the broker's user and started when the claim says (as
  far as each could be read), and its id is that of its claim.
\<close>

theorem resolved_caller_is_checked:
  assumes "c = resolve_caller decode suffix header probe uid"
  shows "c_role c = AgentRole
    \<and> (c_verified c \<longrightarrow>
        (\<exists>text fs pid. header = Some text \<and> decode text = Some (JObj fs) \<and> claim_ok fs
           \<and> c_pid c = Some pid \<and> 2 \<le> pid \<and> c_id c = claim_id fs \<and> c_start c = claim_start fs
           \<and> probe_alive probe pid (c_start c)
           \<and> (case (probe_owner probe pid, uid) of (Some o', Some b) \<Rightarrow> o' = b | _ \<Rightarrow> True)
           \<and> (case (c_start c, probe_start probe pid) of (Some st, Some a) \<Rightarrow> a = st | _ \<Rightarrow> True)))
    \<and> (\<not> c_verified c \<longrightarrow> c = unidentified_caller)"
  using resolve_cases [of decode suffix header probe uid]
proof
  assume "resolve_caller decode suffix header probe uid = unidentified_caller"
  then show ?thesis by (simp add: assms unidentified_caller_def)
next
  assume "\<exists>text fs. header = Some text \<and> decode text = Some (JObj fs) \<and> claim_ok fs
       \<and> process_checks probe uid (int_of_val (getp fs ''pid'')) (claim_start fs)
       \<and> resolve_caller decode suffix header probe uid = caller_of_claim suffix fs"
  then obtain t fs where h: "header = Some t" "decode t = Some (JObj fs)" "claim_ok fs"
    "process_checks probe uid (int_of_val (getp fs ''pid'')) (claim_start fs)" "c = caller_of_claim suffix fs"
    using assms by blast
  have "2 \<le> int_of_val (getp fs ''pid'')" using h(3) by (simp add: claim_ok_def)
  with h show ?thesis by (simp add: caller_of_claim_def process_checks_def)
qed

definition example_claim :: "jsobj" where
  "example_claim = [(''v'', jint 1), (''kind'', JStr ''adapter''), (''pid'', jint 42), (''start'', JStr ''7'')]"

lemma example_claim_ok: "claim_ok example_claim"
  by (simp add: claim_ok_def example_claim_def getp_def start_ok_def kinds_def class_string_def
      between_def code_def)

lemma example_claim_id: "claim_id example_claim = ''proc:'' @ show_nat 42 @ '':7''"
  by (simp add: claim_id_def example_claim_def getp_def str_of_def claim_start_def show_int_def Let_def)

lemma resolved_caller_is_checked_witness:
  "let c = resolve_caller (\<lambda>t. Some (JObj example_claim)) (\<lambda>i. ''beef'') (Some ''hdr'')
     \<lparr>probe_start = \<lambda>p. Some ''7'', probe_owner = \<lambda>p. Some 1000, probe_alive = \<lambda>p st. True\<rparr> (Some 1000)
   in c_verified c \<and> c_id c = ''proc:'' @ show_nat 42 @ '':7'' \<and> c_role c = AgentRole"
proof -
  define probe where "probe = \<lparr>probe_start = \<lambda>p. Some ''7'', probe_owner = \<lambda>p. Some 1000, probe_alive = \<lambda>p st. True\<rparr>"
  define c where "c = resolve_caller (\<lambda>t. Some (JObj example_claim)) (\<lambda>i. ''beef'') (Some ''hdr'') probe (Some 1000)"
  have "claim_start example_claim = Some ''7''" by (simp add: example_claim_def claim_start_def getp_def)
  then have "c = caller_of_claim (\<lambda>i. ''beef'') example_claim"
    using example_claim_ok by (simp add: c_def resolve_caller_def probe_def process_checks_def)
  then have "c_verified c \<and> c_id c = ''proc:'' @ show_nat 42 @ '':7''"
    by (simp add: caller_of_claim_def example_claim_id)
  then show ?thesis
    using resolved_caller_is_checked [OF c_def] by (simp add: c_def probe_def Let_def)
qed

lemma claim_id_cases:
  assumes "claim_ok fs"
  shows "(\<exists>x. x \<noteq> [] \<and> getp fs ''conversationId'' = JStr x \<and> claim_id fs = ''conv:'' @ x)
    \<or> (getp fs ''conversationId'' = Undef \<and> 0 \<le> int_of_val (getp fs ''pid'')
       \<and> claim_id fs = ''proc:'' @ show_nat (nat (int_of_val (getp fs ''pid''))) @ '':''
           @ (case claim_start fs of None \<Rightarrow> ''0'' | Some st \<Rightarrow> st))"
proof -
  have "getp fs ''conversationId'' = Undef \<or> (\<exists>x. getp fs ''conversationId'' = JStr x \<and> x \<noteq> [])"
    using assms by (auto simp: claim_ok_def is_canonical_conversation_id_def canonical_units_def
        split: jsval.splits)
  moreover have "0 \<le> int_of_val (getp fs ''pid'')" using assms by (simp add: claim_ok_def)
  ultimately show ?thesis
    by (auto simp: claim_id_def Let_def str_of_def show_int_def)
qed

text \<open>
  Caller ids do not collide: two accepted claims get the same id only if they name the same
  conversation, or neither names one and they name the same process with the same start time (an
  absent one reads \<open>"0"\<close>); and no claim gets the id of the broker itself or of unidentified clients.
\<close>

theorem caller_ids_do_not_collide:
  assumes "claim_ok fs" and "claim_ok gs"
  shows "(claim_id fs = claim_id gs \<longrightarrow>
      getp fs ''conversationId'' = getp gs ''conversationId''
       \<and> (getp fs ''conversationId'' = Undef \<longrightarrow>
            int_of_val (getp fs ''pid'') = int_of_val (getp gs ''pid'')
            \<and> (case claim_start fs of None \<Rightarrow> ''0'' | Some x \<Rightarrow> x) = (case claim_start gs of None \<Rightarrow> ''0'' | Some x \<Rightarrow> x)))
    \<and> claim_id fs \<noteq> c_id internal_caller \<and> claim_id fs \<noteq> c_id unidentified_caller"
proof -
  have "claim_id fs \<noteq> c_id internal_caller \<and> claim_id fs \<noteq> c_id unidentified_caller"
    using claim_id_cases [OF assms(1)] by (auto simp: internal_caller_def unidentified_caller_def)
  moreover have "getp fs ''conversationId'' = getp gs ''conversationId''
       \<and> (getp fs ''conversationId'' = Undef \<longrightarrow>
            int_of_val (getp fs ''pid'') = int_of_val (getp gs ''pid'')
            \<and> (case claim_start fs of None \<Rightarrow> ''0'' | Some x \<Rightarrow> x) = (case claim_start gs of None \<Rightarrow> ''0'' | Some x \<Rightarrow> x))"
    if "claim_id fs = claim_id gs"
    using claim_id_cases [OF assms(1)]
  proof
    assume "\<exists>x. x \<noteq> [] \<and> getp fs ''conversationId'' = JStr x \<and> claim_id fs = ''conv:'' @ x"
    then show ?thesis using claim_id_cases [OF assms(2)] that by auto
  next
    assume f: "getp fs ''conversationId'' = Undef \<and> 0 \<le> int_of_val (getp fs ''pid'')
       \<and> claim_id fs = ''proc:'' @ show_nat (nat (int_of_val (getp fs ''pid''))) @ '':''
           @ (case claim_start fs of None \<Rightarrow> ''0'' | Some st \<Rightarrow> st)"
    then have g: "getp gs ''conversationId'' = Undef \<and> 0 \<le> int_of_val (getp gs ''pid'')
       \<and> claim_id gs = ''proc:'' @ show_nat (nat (int_of_val (getp gs ''pid''))) @ '':''
           @ (case claim_start gs of None \<Rightarrow> ''0'' | Some st \<Rightarrow> st)"
      using claim_id_cases [OF assms(2)] that by auto
    have "show_nat (nat (int_of_val (getp fs ''pid''))) @ '':'' @ (case claim_start fs of None \<Rightarrow> ''0'' | Some st \<Rightarrow> st)
        = show_nat (nat (int_of_val (getp gs ''pid''))) @ '':'' @ (case claim_start gs of None \<Rightarrow> ''0'' | Some st \<Rightarrow> st)"
      using f g that by simp
    from proc_text_inject [OF this] f g show ?thesis by (simp add: eq_nat_nat_iff)
  qed
  ultimately show ?thesis by blast
qed

lemma caller_ids_do_not_collide_witness: "claim_id example_claim \<noteq> c_id internal_caller"
  using caller_ids_do_not_collide [OF example_claim_ok example_claim_ok] by blast

definition no_proc_alive :: "(int \<Rightarrow> string option \<Rightarrow> bool) \<Rightarrow> rentry \<Rightarrow> bool" where
  "no_proc_alive alive e \<longleftrightarrow> (\<forall>(k, p, st) \<in> set (r_procs e). \<not> alive p st)"

lemma sweep_entry_simps:
  "fst (sweep_entry alive cid e) =
     (if no_proc_alive alive e \<and> \<not> r_gone e then [Gone cid (r_label e)] else [])"
  "r_gone (snd (sweep_entry alive cid e)) \<longleftrightarrow> r_gone e \<or> no_proc_alive alive e"
  by (force simp: sweep_entry_def settle_def no_proc_alive_def filter_empty_conv)+

lemma sweep_gone:
  assumes "wf_map reg"
  shows "(\<exists>l. Gone cid l \<in> set (fst (sweep alive now reg))) \<longleftrightarrow>
    (\<exists>e. map_of reg cid = Some e \<and> \<not> r_gone e \<and> no_proc_alive alive e)"
  unfolding map_of_mem_iff [OF assms, symmetric]
  by (auto simp: sweep_def sweep_entry_simps split: if_splits)

lemma sweep_no_back: "Back cid l \<notin> set (fst (sweep alive now reg))"
  by (auto simp: sweep_def sweep_entry_simps split: if_splits)

lemma sweep_alive:
  assumes "wf_map reg"
  shows "is_alive cid (snd (sweep alive now reg)) = Some True \<longleftrightarrow>
    (\<exists>e. map_of reg cid = Some e \<and> \<not> r_gone e \<and> \<not> no_proc_alive alive e)"
  by (cases "map_of reg cid")
    (auto simp: is_alive_def map_of_sweep [OF assms] Let_def forgotten_def sweep_entry_simps)

lemma touch_back:
  "(\<exists>l. Back cid l \<in> set (fst (touch now c reg))) \<longleftrightarrow>
     is_alive cid reg = Some False \<and> is_alive cid (snd (touch now c reg)) = Some True"
  by (cases "c_pid c"; cases "map_of reg (c_id c)"; cases "map_of reg cid"; cases "cid = c_id c")
    (simp_all add: touch_def is_alive_def Let_def)

lemma detach_gone:
  "(\<exists>l. Gone cid l \<in> set (fst (detach c reg))) \<longleftrightarrow>
     is_alive cid reg = Some True \<and> is_alive cid (snd (detach c reg)) = Some False"
  by (cases "c_pid c"; cases "map_of reg (c_id c)"; cases "map_of reg cid"; cases "cid = c_id c")
    (simp_all add: detach_def is_alive_def settle_def Let_def)

text \<open>
  The registry's answers and its announcements agree: a sweep announces a caller gone exactly when
  it was held to be there and none of its registered processes is alive, never announces one back, and
  afterwards holds exactly those callers to be there that were and have a live process; \<open>touch\<close>
  announces a caller back exactly when it was held gone and is now there; \<open>detach\<close> announces it gone
  exactly when it was there and now is not; and an entry is held gone exactly when it has no process.
\<close>

theorem registry_announcements_exact:
  assumes "registry_inv reg"
  shows "((\<exists>l. Gone cid l \<in> set (fst (sweep alive now reg))) \<longleftrightarrow>
        is_alive cid reg = Some True \<and> no_proc_alive alive (the (map_of reg cid)))
    \<and> (is_alive cid (snd (sweep alive now reg)) = Some True \<longleftrightarrow>
        is_alive cid reg = Some True \<and> \<not> no_proc_alive alive (the (map_of reg cid)))
    \<and> Back cid l \<notin> set (fst (sweep alive now reg))
    \<and> ((\<exists>l. Back cid l \<in> set (fst (touch now c reg))) \<longleftrightarrow>
        is_alive cid reg = Some False \<and> is_alive cid (snd (touch now c reg)) = Some True)
    \<and> ((\<exists>l. Gone cid l \<in> set (fst (detach c reg))) \<longleftrightarrow>
        is_alive cid reg = Some True \<and> is_alive cid (snd (detach c reg)) = Some False)
    \<and> registry_inv (snd (sweep alive now reg)) \<and> registry_inv (snd (touch now c reg))
    \<and> registry_inv (snd (detach c reg))"
proof -
  have wf: "wf_map reg" using assms by (simp add: registry_inv_def)
  have "is_alive cid reg = Some True \<longleftrightarrow> (\<exists>e. map_of reg cid = Some e \<and> \<not> r_gone e)"
    by (auto simp: is_alive_def)
  then show ?thesis
    using sweep_gone [OF wf] sweep_alive [OF wf] sweep_no_back touch_back detach_gone
      inv_sweep [OF assms] inv_touch [OF assms] inv_detach [OF assms] by auto
qed

lemma registry_announcements_exact_witness:
  "let c = internal_caller\<lparr>c_kind := JStr ''adapter'', c_pid := Some 9\<rparr>; reg = snd (touch 0 c []) in
   is_alive ''internal'' reg = Some True \<and> (\<exists>l. Gone ''internal'' l \<in> set (fst (detach c reg)))"
proof -
  define c where "c = internal_caller\<lparr>c_kind := JStr ''adapter'', c_pid := Some 9\<rparr>"
  define reg where "reg = snd (touch 0 c [])"
  have "registry_inv []" by (simp add: registry_inv_def)
  then have "registry_inv reg" unfolding reg_def by (rule inv_touch)
  moreover have "is_alive ''internal'' reg = Some True" "is_alive ''internal'' (snd (detach c reg)) = Some False"
    by (simp_all add: reg_def c_def touch_def internal_caller_def Let_def is_alive_def detach_def settle_def)
  ultimately show ?thesis
    using registry_announcements_exact [of reg "''internal''" "\<lambda>p st. True" 0 "[]" c]
    by (simp add: c_def reg_def Let_def)
qed

text \<open>
  The owner token check answers true exactly for the expected token, and instead of answering
  false it throws exactly when the two have the same number of code units but different numbers of
  UTF-8 bytes, which a presented token outside ASCII does to the 64 hexadecimal digits of a
  credential.
\<close>

theorem owner_token_exact:
  assumes "read_owner_credential uid file = Some token"
  shows "(owner_token_matches (Some p) (Some token) = Some True \<longleftrightarrow> p = token)
    \<and> (owner_token_matches (Some p) (Some token) = None \<longleftrightarrow> length p = 64 \<and> (\<exists>c \<in> set p. 128 \<le> code c))
    \<and> owner_token_matches None (Some token) = Some False"
proof -
  have tok: "length token = 64" "list_all is_lower_hex token"
    using assms by (auto simp: read_owner_credential_def class_string_def Let_def split: option.splits if_splits)
  have "code c < 128" if "is_lower_hex c" for c
    using that by (auto simp: is_lower_hex_def between_def) (simp_all add: code_def)
  then have ascii: "\<forall>c \<in> set token. code c < 128" using tok(2) by (auto simp: list_all_iff)
  have eq: "utf8_bytes q = length q \<longleftrightarrow> (\<forall>c \<in> set q. code c < 128)" for q
  proof (induction q)
    case (Cons c q)
    then show ?case using utf8_bytes_ge_length [of q] by (auto simp: utf8_bytes_def)
  qed simp
  have ut: "utf8_bytes token = 64" using eq [of token] ascii tok(1) by simp
  show ?thesis
    using tok(1) ut eq [of p] ascii by (auto simp: owner_token_matches_def not_less)
qed

lemma owner_token_exact_witness:
  "owner_token_matches (Some (replicate 64 (char_of (233::nat)))) (Some (replicate 64 CHR ''a'')) = None"
proof -
  have "read_owner_credential None (Some (256, 0, replicate 64 CHR ''a'')) = Some (replicate 64 CHR ''a'')"
    by code_simp
  then show ?thesis
    using owner_token_exact [of None "Some (256, 0, replicate 64 CHR ''a'')" _ "replicate 64 (char_of (233::nat))"]
    by (simp add: code_def)
qed

end
