(* ===== verification/ReadBudget.thy ===== *)
theory ReadBudget
  imports OrbitPrelude
begin

text \<open>
  \<open>src/multi-view-read-budget.ts\<close>: the reservation accounting of the dormant reader, a state
  machine over views, reservations (entries), the single capture slot, and delivery storage.

  Handles are objects used by identity: natural numbers here, drawn from a counter, so that no
  handle is ever reused. An entry refers to its view by the view's handle; the methods of a started
  reservation (\<open>confirmStopped\<close>, \<open>unknownDrain\<close>) take its handle. Every operation returns its answer
  or its error with the state it leaves, because one error path changes the state.
\<close>

section \<open>State\<close>

datatype budget_code = INVALID | LIMIT | BUSY | HANDLE | STATE | REVOKED

type_synonym budget_error = "budget_code \<times> string"

record budget_limits =
  device_bytes :: nat
  view_bytes :: nat
  max_views :: nat
  max_conversations :: nat
  max_views_per_conversation :: nat
  max_entries_per_view :: nat
  max_references :: nat

definition read_budget_limits :: budget_limits where
  "read_budget_limits = \<lparr>device_bytes = 33554432, view_bytes = 16777216, max_views = 8,
     max_conversations = 4, max_views_per_conversation = 2, max_entries_per_view = 2,
     max_references = 32\<rparr>"

definition read_delivery_scratch_limit :: nat where
  "read_delivery_scratch_limit = 65536"

datatype phase = Reserved | Running | CancelPending | Quarantined | Retained

record view_state =
  v_conv :: nat
  v_bytes :: nat
  v_entries :: nat
  v_revoked :: bool

record entry =
  e_view :: nat
  e_scratch :: nat
  e_retained :: nat
  e_phase :: phase
  e_bytes :: nat
  e_refs :: nat
  e_invalid :: bool
  e_delivery :: "nat option"

record budget =
  limits :: budget_limits
  views :: "(nat \<times> view_state) list"
  convs :: "(nat \<times> nat) list"
  entries :: "(nat \<times> entry) list"
  capture :: "nat option"
  deliveries :: "(nat \<times> (nat \<times> nat)) list"
  released :: "nat list"
  bytes_used :: nat
  next_handle :: nat

type_synonym 'a budget_step = "(budget_error, 'a) result \<times> budget"

section \<open>Validation of the arguments\<close>

text \<open>A plain data object with allowed keys only; accessors and proxies are not represented.\<close>

definition data_fields :: "jsval \<Rightarrow> string list \<Rightarrow> (budget_error, jsobj) result" where
  "data_fields v allowed =
     (case as_object v of
        Some fs \<Rightarrow> if list_all (\<lambda>(k, x). k \<in> set allowed) fs then Ok fs
          else Err (INVALID, ''Invalid read budget data'')
      | None \<Rightarrow> Err (INVALID, ''Invalid read budget data''))"

definition natural :: "jsval \<Rightarrow> bool" where
  "natural v \<longleftrightarrow> is_safe_integer v \<and> int_of_val v \<ge> 0"

definition nat_of_val :: "jsval \<Rightarrow> nat" where
  "nat_of_val v = nat (int_of_val v)"

definition limit_keys :: "string list" where
  "limit_keys = [''deviceBytes'', ''viewBytes'', ''maxViews'', ''maxConversations'',
     ''maxViewsPerConversation'', ''maxEntriesPerView'', ''maxReferences'']"

definition limit_values :: "budget_limits \<Rightarrow> nat list" where
  "limit_values l = [device_bytes l, view_bytes l, max_views l, max_conversations l,
     max_views_per_conversation l, max_entries_per_view l, max_references l]"

text \<open>One field of the constructor's options against the most of that field.\<close>

definition narrowed :: "jsobj \<Rightarrow> string \<Rightarrow> nat \<Rightarrow> (budget_error, nat) result" where
  "narrowed snapshot key most =
     (let v = (case map_of snapshot key of Some x \<Rightarrow> x | None \<Rightarrow> jint (int most))
      in if \<not> natural v \<or> nat_of_val v = 0 \<or> nat_of_val v > most
         then Err (INVALID, ''Read budget limits may only be narrowed'') else Ok (nat_of_val v))"

definition new_budget :: "jsval \<Rightarrow> (budget_error, budget) result" where
  "new_budget options =
     and_then (data_fields options limit_keys) (\<lambda>snapshot.
     and_then (map_result (\<lambda>(key, most). narrowed snapshot key most)
                 (zip limit_keys (limit_values read_budget_limits))) (\<lambda>ns.
     let l = \<lparr>device_bytes = ns ! 0, view_bytes = ns ! 1, max_views = ns ! 2, max_conversations = ns ! 3,
              max_views_per_conversation = ns ! 4, max_entries_per_view = ns ! 5, max_references = ns ! 6\<rparr>
     in if view_bytes l > device_bytes l
        then Err (INVALID, ''View byte limit exceeds device byte limit'')
        else Ok \<lparr>limits = l, views = [], convs = [], entries = [], capture = None, deliveries = [],
                 released = [], bytes_used = 0, next_handle = 0\<rparr>))"

section \<open>Views\<close>

text \<open>\<open>bindView\<close>: the conversation is the identity of an object, \<open>None\<close> for any other value.\<close>

definition conv_count :: "budget \<Rightarrow> nat \<Rightarrow> nat" where
  "conv_count s c = (case map_of (convs s) c of None \<Rightarrow> 0 | Some n \<Rightarrow> n)"

definition bind_view :: "nat option \<Rightarrow> budget \<Rightarrow> nat budget_step" where
  "bind_view conversation s =
     (case conversation of
        None \<Rightarrow> (Err (INVALID, ''Invalid internal conversation key''), s)
      | Some c \<Rightarrow>
          (let count = conv_count s c; handle = next_handle s in
           if length (views s) \<ge> max_views (limits s) \<or> count \<ge> max_views_per_conversation (limits s)
              \<or> (count = 0 \<and> length (convs s) \<ge> max_conversations (limits s))
           then (Err (LIMIT, ''Read view enrollment capacity reached''), s)
           else (Ok handle,
             s\<lparr>views := put handle \<lparr>v_conv = c, v_bytes = 0, v_entries = 0, v_revoked = False\<rparr> (views s),
               convs := put c (count + 1) (convs s), next_handle := handle + 1\<rparr>)))"

definition get_view :: "budget \<Rightarrow> nat \<Rightarrow> (budget_error, view_state) result" where
  "get_view s h = (case map_of (views s) h of None \<Rightarrow> Err (HANDLE, ''Unknown read view handle'') | Some v \<Rightarrow> Ok v)"

definition get_entry :: "budget \<Rightarrow> nat \<Rightarrow> (budget_error, entry) result" where
  "get_entry s h = (case map_of (entries s) h of None \<Rightarrow> Err (HANDLE, ''Unknown read reservation handle'') | Some e \<Rightarrow> Ok e)"

definition upd_view :: "nat \<Rightarrow> (view_state \<Rightarrow> view_state) \<Rightarrow> budget \<Rightarrow> budget" where
  "upd_view h f s = (case map_of (views s) h of None \<Rightarrow> s | Some v \<Rightarrow> s\<lparr>views := put h (f v) (views s)\<rparr>)"

definition upd_entry :: "nat \<Rightarrow> (entry \<Rightarrow> entry) \<Rightarrow> budget \<Rightarrow> budget" where
  "upd_entry h f s = (case map_of (entries s) h of None \<Rightarrow> s | Some e \<Rightarrow> s\<lparr>entries := put h (f e) (entries s)\<rparr>)"

text \<open>Whether the view object an entry refers to is revoked.\<close>

definition view_revoked :: "budget \<Rightarrow> nat \<Rightarrow> bool" where
  "view_revoked s h = (case map_of (views s) h of None \<Rightarrow> True | Some v \<Rightarrow> v_revoked v)"

definition view_used :: "budget \<Rightarrow> nat \<Rightarrow> nat" where
  "view_used s h = (case map_of (views s) h of None \<Rightarrow> 0 | Some v \<Rightarrow> v_bytes v)"

definition subtract :: "nat \<Rightarrow> nat \<Rightarrow> budget \<Rightarrow> budget" where
  "subtract h n s =
     (case map_of (entries s) h of
        None \<Rightarrow> s
      | Some e \<Rightarrow>
          (upd_view (e_view e) (\<lambda>v. v\<lparr>v_bytes := v_bytes v - n\<rparr>)
            (upd_entry h (\<lambda>e. e\<lparr>e_bytes := e_bytes e - n\<rparr>) s))\<lparr>bytes_used := bytes_used s - n\<rparr>)"

definition remove_entry :: "nat \<Rightarrow> budget \<Rightarrow> unit budget_step" where
  "remove_entry h s =
     (case map_of (entries s) h of
        None \<Rightarrow> (Ok (), s)
      | Some e \<Rightarrow>
          if e_delivery e \<noteq> None then (Err (STATE, ''Outstanding delivery storage cannot be released''), s)
          else
            (let s1 = subtract h (e_bytes e) s;
                 s2 = upd_view (e_view e) (\<lambda>v. v\<lparr>v_entries := v_entries v - 1\<rparr>) s1
             in (Ok (), s2\<lparr>entries := del h (entries s2),
                   capture := (if capture s2 = Some h then None else capture s2)\<rparr>)))"

section \<open>Reservations\<close>

definition reserve :: "nat \<Rightarrow> jsval \<Rightarrow> budget \<Rightarrow> nat budget_step" where
  "reserve view cost s =
     (case data_fields cost [''scratchBytes'', ''retainedBytes''] of
        Inl e \<Rightarrow> (Err e, s)
      | Inr snapshot \<Rightarrow>
          if \<not> natural (getp snapshot ''scratchBytes'') \<or> \<not> natural (getp snapshot ''retainedBytes'')
          then (Err (INVALID, ''Invalid read allocation bounds''), s)
          else
            (let scratch = nat_of_val (getp snapshot ''scratchBytes'');
                 kept = nat_of_val (getp snapshot ''retainedBytes'');
                 bytes = scratch + kept
             in case map_of (views s) view of
                  None \<Rightarrow> (Err (HANDLE, ''Unknown read view handle''), s)
                | Some state \<Rightarrow>
                    if v_revoked state then (Err (REVOKED, ''Read view is revoked''), s)
                    else if int bytes > max_safe \<or> bytes = 0
                    then (Err (INVALID, ''Read reservation must have a finite positive peak''), s)
                    else if capture s \<noteq> None then (Err (BUSY, ''Read capture capacity remains occupied''), s)
                    else if v_entries state \<ge> max_entries_per_view (limits s)
                       \<or> v_bytes state + bytes > view_bytes (limits s)
                       \<or> bytes_used s + bytes > device_bytes (limits s)
                    then (Err (LIMIT, ''Read allocation capacity reached''), s)
                    else
                      (let handle = next_handle s
                       in (Ok handle,
                         s\<lparr>entries := put handle \<lparr>e_view = view, e_scratch = scratch, e_retained = kept,
                               e_phase = Reserved, e_bytes = bytes, e_refs = 0, e_invalid = False,
                               e_delivery = None\<rparr> (entries s),
                           views := put view (state\<lparr>v_bytes := v_bytes state + bytes,
                               v_entries := v_entries state + 1\<rparr>) (views s),
                           bytes_used := bytes_used s + bytes, capture := Some handle,
                           next_handle := handle + 1\<rparr>))))"

definition start_read :: "nat \<Rightarrow> budget \<Rightarrow> unit budget_step" where
  "start_read h s =
     (case map_of (entries s) h of
        None \<Rightarrow> (Err (HANDLE, ''Unknown read reservation handle''), s)
      | Some e \<Rightarrow>
          if e_phase e \<noteq> Reserved \<or> capture s \<noteq> Some h
          then (Err (STATE, ''Read reservation is not startable''), s)
          else (Ok (), upd_entry h (\<lambda>e. e\<lparr>e_phase := Running\<rparr>) s))"

definition confirm_stopped :: "nat \<Rightarrow> jsval \<Rightarrow> budget \<Rightarrow> bool budget_step" where
  "confirm_stopped h retain_result s =
     (case map_of (entries s) h of
        None \<Rightarrow> (Ok False, s)
      | Some e \<Rightarrow>
          if e_phase e = Retained then (Ok False, s)
          else if \<not> is_bool retain_result
          then (Err (INVALID, ''Expected an explicit result-retention decision''), s)
          else
            (let publish = (retain_result = JBool True \<and> e_phase e = Running \<and> \<not> e_invalid e
                   \<and> \<not> view_revoked s (e_view e))
             in if publish \<and> e_retained e = 0
                then (Err (STATE, ''Result storage was not reserved; discard and confirm owned work stopped''),
                  upd_entry h (\<lambda>e. e\<lparr>e_phase := Quarantined, e_invalid := True\<rparr>) s)
                else if publish
                then (Ok True,
                  (upd_entry h (\<lambda>e. e\<lparr>e_phase := Retained, e_refs := 1\<rparr>)
                    (subtract h (e_scratch e) s))\<lparr>capture := None\<rparr>)
                else (case remove_entry h s of
                    (Inl x, s') \<Rightarrow> (Err x, s') | (Inr u, s') \<Rightarrow> (Ok True, s'))))"

definition unknown_drain :: "nat \<Rightarrow> budget \<Rightarrow> bool budget_step" where
  "unknown_drain h s =
     (case map_of (entries s) h of
        None \<Rightarrow> (Ok False, s)
      | Some e \<Rightarrow>
          if e_phase e = Retained \<or> e_phase e = Quarantined then (Ok False, s)
          else (Ok True, upd_entry h (\<lambda>e. e\<lparr>e_phase := Quarantined, e_invalid := True\<rparr>) s))"

definition cancel :: "nat \<Rightarrow> budget \<Rightarrow> bool budget_step" where
  "cancel h s =
     (case map_of (entries s) h of
        None \<Rightarrow> (Err (HANDLE, ''Unknown read reservation handle''), s)
      | Some e \<Rightarrow>
          (let s1 = upd_entry h (\<lambda>e. e\<lparr>e_invalid := True\<rparr>) s
           in if e_phase e = Reserved
              then (case remove_entry h s1 of
                  (Inl x, s') \<Rightarrow> (Err x, s') | (Inr u, s') \<Rightarrow> (Ok (\<not> e_invalid e), s'))
              else if e_phase e = Running
              then (Ok (\<not> e_invalid e), upd_entry h (\<lambda>e. e\<lparr>e_phase := CancelPending\<rparr>) s1)
              else (Ok (\<not> e_invalid e), s1)))"

fun cancel_all :: "nat list \<Rightarrow> budget \<Rightarrow> unit budget_step" where
  "cancel_all [] s = (Ok (), s)"
| "cancel_all (h # hs) s =
     (case cancel h s of (Inl x, s') \<Rightarrow> (Err x, s') | (Inr c, s') \<Rightarrow> cancel_all hs s')"

definition handles_of_view :: "nat \<Rightarrow> budget \<Rightarrow> nat list" where
  "handles_of_view view s = map fst (filter (\<lambda>(h, e). e_view e = view) (entries s))"

definition revoke_view :: "nat \<Rightarrow> budget \<Rightarrow> unit budget_step" where
  "revoke_view view s =
     (case map_of (views s) view of
        None \<Rightarrow> (Err (HANDLE, ''Unknown read view handle''), s)
      | Some state \<Rightarrow>
          (let s1 = s\<lparr>views := put view (state\<lparr>v_revoked := True\<rparr>) (views s)\<rparr>
           in cancel_all (handles_of_view view s1) s1))"

definition dispose_view :: "nat \<Rightarrow> budget \<Rightarrow> unit budget_step" where
  "dispose_view view s =
     (case map_of (views s) view of
        None \<Rightarrow> (Err (HANDLE, ''Unknown read view handle''), s)
      | Some state \<Rightarrow>
          if \<not> v_revoked state \<or> v_entries state \<noteq> 0
          then (Err (STATE, ''Revoke and drain the read view before disposing it''), s)
          else
            (let count = conv_count s (v_conv state) - 1
             in (Ok (), s\<lparr>views := del view (views s),
                  convs := (if count = 0 then del (v_conv state) (convs s)
                            else put (v_conv state) count (convs s))\<rparr>)))"

section \<open>Results and delivery storage\<close>

definition is_deliverable :: "nat \<Rightarrow> budget \<Rightarrow> bool" where
  "is_deliverable h s =
     (case map_of (entries s) h of
        None \<Rightarrow> False
      | Some e \<Rightarrow> e_phase e = Retained \<and> e_refs e > 0 \<and> \<not> e_invalid e \<and> \<not> view_revoked s (e_view e))"

definition retain :: "nat \<Rightarrow> budget \<Rightarrow> unit budget_step" where
  "retain h s =
     (case map_of (entries s) h of
        None \<Rightarrow> (Err (HANDLE, ''Unknown read reservation handle''), s)
      | Some e \<Rightarrow>
          if \<not> is_deliverable h s then (Err (STATE, ''Read result cannot acquire another reference''), s)
          else if e_refs e \<ge> max_references (limits s) then (Err (LIMIT, ''Read reference capacity reached''), s)
          else (Ok (), upd_entry h (\<lambda>e. e\<lparr>e_refs := e_refs e + 1\<rparr>) s))"

definition release :: "nat \<Rightarrow> budget \<Rightarrow> unit budget_step" where
  "release h s =
     (case map_of (entries s) h of
        None \<Rightarrow> (Err (HANDLE, ''Unknown read reservation handle''), s)
      | Some e \<Rightarrow>
          if e_phase e \<noteq> Retained \<or> e_refs e < 1
          then (Err (STATE, ''Only a retained read reference can be released''), s)
          else
            (let s1 = upd_entry h (\<lambda>e. e\<lparr>e_refs := e_refs e - 1\<rparr>) s
             in if e_refs e - 1 = 0 \<and> e_delivery e = None then remove_entry h s1 else (Ok (), s1)))"

definition reserve_delivery :: "nat \<Rightarrow> jsval \<Rightarrow> budget \<Rightarrow> nat budget_step" where
  "reserve_delivery h amount s =
     (if \<not> natural amount \<or> nat_of_val amount = 0
      then (Err (INVALID, ''Delivery storage must have a positive safe byte count''), s)
      else if nat_of_val amount > read_delivery_scratch_limit
      then (Err (LIMIT, ''Delivery storage exceeds its chunk bound''), s)
      else (case map_of (entries s) h of
          None \<Rightarrow> (Err (HANDLE, ''Unknown read reservation handle''), s)
        | Some e \<Rightarrow>
            (let bytes = nat_of_val amount; d = next_handle s in
             if \<not> is_deliverable h s then (Err (STATE, ''Read result cannot reserve delivery storage''), s)
             else if e_delivery e \<noteq> None
             then (Err (LIMIT, ''Read result already has outstanding delivery storage''), s)
             else if view_used s (e_view e) + bytes > view_bytes (limits s)
                \<or> bytes_used s + bytes > device_bytes (limits s)
             then (Err (LIMIT, ''Delivery storage exceeds read allocation capacity''), s)
             else (Ok d,
               (upd_view (e_view e) (\<lambda>v. v\<lparr>v_bytes := v_bytes v + bytes\<rparr>)
                 (upd_entry h (\<lambda>e. e\<lparr>e_delivery := Some d, e_bytes := e_bytes e + bytes\<rparr>) s))
               \<lparr>deliveries := put d (h, bytes) (deliveries s), bytes_used := bytes_used s + bytes,
                next_handle := d + 1\<rparr>))))"

definition release_delivery :: "nat \<Rightarrow> budget \<Rightarrow> bool budget_step" where
  "release_delivery d s =
     (case map_of (deliveries s) d of
        None \<Rightarrow>
          if d \<in> set (released s) then (Ok False, s)
          else (Err (HANDLE, ''Unknown read delivery reservation handle''), s)
      | Some (h, bytes) \<Rightarrow>
          (case map_of (entries s) h of
             None \<Rightarrow> (Err (STATE, ''Read delivery storage ownership is inconsistent''), s)
           | Some e \<Rightarrow>
               if e_phase e \<noteq> Retained \<or> e_delivery e \<noteq> Some d
               then (Err (STATE, ''Read delivery storage ownership is inconsistent''), s)
               else
                 (let s1 = s\<lparr>deliveries := del d (deliveries s), released := d # released s\<rparr>;
                      s2 = subtract h bytes (upd_entry h (\<lambda>e. e\<lparr>e_delivery := None\<rparr>) s1)
                  in if e_refs e = 0
                     then (case remove_entry h s2 of
                         (Inl x, s') \<Rightarrow> (Err x, s') | (Inr u, s') \<Rightarrow> (Ok True, s'))
                     else (Ok True, s2))))"

record inspection =
  i_phase :: phase
  i_references :: nat
  i_bytes :: nat
  i_deliverable :: bool

definition inspect :: "nat \<Rightarrow> budget \<Rightarrow> (budget_error, inspection) result" where
  "inspect h s =
     (case get_entry s h of
        Inl e \<Rightarrow> Err e
      | Inr e \<Rightarrow> Ok \<lparr>i_phase = e_phase e, i_references = e_refs e, i_bytes = e_bytes e,
                   i_deliverable = is_deliverable h s\<rparr>)"

record budget_status =
  bs_views :: nat
  bs_conversations :: nat
  bs_entries :: nat
  bs_capture :: bool
  bs_bytes :: nat
  bs_quarantined :: nat
  bs_references :: nat

definition budget_status_of :: "budget \<Rightarrow> budget_status" where
  "budget_status_of s =
     \<lparr>bs_views = length (views s), bs_conversations = length (convs s), bs_entries = length (entries s),
      bs_capture = (capture s \<noteq> None), bs_bytes = bytes_used s,
      bs_quarantined = sum_vals (\<lambda>e. if e_phase e = Quarantined then 1 else 0) (entries s),
      bs_references = sum_vals e_refs (entries s)\<rparr>"

section \<open>The accounting invariant\<close>

definition share :: "nat \<Rightarrow> entry \<Rightarrow> nat" where
  "share view e = (if e_view e = view then e_bytes e else 0)"

definition member :: "nat \<Rightarrow> entry \<Rightarrow> nat" where
  "member view e = (if e_view e = view then 1 else 0)"

definition of_conv :: "nat \<Rightarrow> view_state \<Rightarrow> nat" where
  "of_conv c v = (if v_conv v = c then 1 else 0)"

text \<open>Every total is the sum of its parts, and every entry's view is enrolled.\<close>

definition accounted :: "budget \<Rightarrow> bool" where
  "accounted s \<longleftrightarrow>
     wf_map (views s) \<and> wf_map (entries s)
     \<and> bytes_used s = sum_vals e_bytes (entries s)
     \<and> (\<forall>h v. map_of (views s) h = Some v \<longrightarrow>
          v_bytes v = sum_vals (share h) (entries s) \<and> v_entries v = sum_vals (member h) (entries s))
     \<and> (\<forall>h e. map_of (entries s) h = Some e \<longrightarrow> e_view e \<in> keys (views s))"

definition within_limits :: "budget \<Rightarrow> bool" where
  "within_limits s \<longleftrightarrow>
     bytes_used s \<le> device_bytes (limits s)
     \<and> (\<forall>h v. map_of (views s) h = Some v \<longrightarrow>
          v_bytes v \<le> view_bytes (limits s) \<and> v_entries v \<le> max_entries_per_view (limits s))
     \<and> (\<forall>h e. map_of (entries s) h = Some e \<longrightarrow> e_refs e \<le> max_references (limits s))"

definition conversations_ok :: "budget \<Rightarrow> bool" where
  "conversations_ok s \<longleftrightarrow>
     wf_map (convs s) \<and> length (views s) \<le> max_views (limits s)
     \<and> length (convs s) \<le> max_conversations (limits s)
     \<and> (\<forall>c. conv_count s c = sum_vals (of_conv c) (views s))
     \<and> (\<forall>c n. map_of (convs s) c = Some n \<longrightarrow> 0 < n \<and> n \<le> max_views_per_conversation (limits s))"

text \<open>What each phase means, and who holds the capture slot.\<close>

definition entry_ok :: "entry \<Rightarrow> bool" where
  "entry_ok e \<longleftrightarrow>
     (e_phase e = Retained \<longrightarrow> 0 < e_retained e \<and> (e_refs e = 0 \<longrightarrow> e_delivery e \<noteq> None)
        \<and> e_bytes e \<ge> e_retained e)
     \<and> (e_phase e \<noteq> Retained \<longrightarrow> e_refs e = 0 \<and> e_delivery e = None
        \<and> e_bytes e = e_scratch e + e_retained e)
     \<and> (e_phase e \<in> {CancelPending, Quarantined} \<longrightarrow> e_invalid e)
     \<and> (e_phase e \<in> {Reserved, Running} \<longrightarrow> \<not> e_invalid e)"

definition phases_ok :: "budget \<Rightarrow> bool" where
  "phases_ok s \<longleftrightarrow>
     (\<forall>h e. map_of (entries s) h = Some e \<longrightarrow> entry_ok e \<and> (e_phase e \<noteq> Retained \<longleftrightarrow> capture s = Some h))
     \<and> (\<forall>h. capture s = Some h \<longrightarrow> h \<in> keys (entries s))"

definition deliveries_ok :: "budget \<Rightarrow> bool" where
  "deliveries_ok s \<longleftrightarrow>
     wf_map (deliveries s)
     \<and> (\<forall>d h n. map_of (deliveries s) d = Some (h, n) \<longrightarrow> 0 < n \<and> n \<le> read_delivery_scratch_limit
          \<and> (\<exists>e. map_of (entries s) h = Some e \<and> e_delivery e = Some d
               \<and> e_bytes e = e_retained e + n))
     \<and> (\<forall>h e d. map_of (entries s) h = Some e \<longrightarrow> e_delivery e = Some d \<longrightarrow>
          (\<exists>n. map_of (deliveries s) d = Some (h, n)))
     \<and> set (released s) \<inter> keys (deliveries s) = {}
     \<and> (\<forall>h e. map_of (entries s) h = Some e \<longrightarrow> e_phase e = Retained \<longrightarrow> e_delivery e = None \<longrightarrow>
          e_bytes e = e_retained e)"

definition handles_ok :: "budget \<Rightarrow> bool" where
  "handles_ok s \<longleftrightarrow>
     (\<forall>h \<in> keys (views s) \<union> keys (entries s) \<union> keys (deliveries s) \<union> set (released s). h < next_handle s)"

definition limits_narrowed :: "budget_limits \<Rightarrow> bool" where
  "limits_narrowed l \<longleftrightarrow>
     list_all2 (\<lambda>n top. 0 < n \<and> n \<le> top) (limit_values l) (limit_values read_budget_limits)
     \<and> view_bytes l \<le> device_bytes l"

definition budget_inv :: "budget \<Rightarrow> bool" where
  "budget_inv s \<longleftrightarrow> limits_narrowed (limits s) \<and> accounted s \<and> within_limits s \<and> conversations_ok s \<and> phases_ok s
     \<and> deliveries_ok s \<and> handles_ok s"

section \<open>Two changes every operation is made of\<close>

text \<open>
  An existing entry changes (its view and the total following its bytes), or an entry leaves. The
  operations' results are of these forms, up to the capture slot and the delivery maps.
\<close>

definition change :: "nat \<Rightarrow> entry \<Rightarrow> budget \<Rightarrow> budget" where
  "change h e' s =
     (let e = the (map_of (entries s) h); v = the (map_of (views s) (e_view e))
      in s\<lparr>entries := put h e' (entries s),
           views := put (e_view e) (v\<lparr>v_bytes := v_bytes v - e_bytes e + e_bytes e'\<rparr>) (views s),
           bytes_used := bytes_used s - e_bytes e + e_bytes e'\<rparr>)"

definition drop_entry :: "nat \<Rightarrow> budget \<Rightarrow> budget" where
  "drop_entry h s =
     (let e = the (map_of (entries s) h); v = the (map_of (views s) (e_view e))
      in s\<lparr>entries := del h (entries s),
           views := put (e_view e) (v\<lparr>v_bytes := v_bytes v - e_bytes e, v_entries := v_entries v - 1\<rparr>) (views s),
           bytes_used := bytes_used s - e_bytes e\<rparr>)"

lemma entry_view: "accounted s \<Longrightarrow> map_of (entries s) h = Some e \<Longrightarrow> \<exists>v. map_of (views s) (e_view e) = Some v"
  by (auto simp: accounted_def keys_dom)

lemma entry_view_key: "accounted s \<Longrightarrow> map_of (entries s) h = Some e \<Longrightarrow> e_view e \<in> keys (views s)"
  unfolding accounted_def by blast

lemma conv_count_le: "conversations_ok s \<Longrightarrow> conv_count s c \<le> max_views_per_conversation (limits s)"
  unfolding conversations_ok_def conv_count_def by (cases "map_of (convs s) c") auto

lemma entry_share:
  assumes "accounted s" and "map_of (entries s) h = Some e" and "map_of (views s) (e_view e) = Some v"
  shows "e_bytes e \<le> v_bytes v" and "1 \<le> v_entries v" and "e_bytes e \<le> bytes_used s"
  using assms sum_vals_member_le [OF assms(2), of "share (e_view e)"]
    sum_vals_member_le [OF assms(2), of "member (e_view e)"] sum_vals_member_le [OF assms(2), of e_bytes]
  by (auto simp: accounted_def share_def member_def)

lemma accounted_change:
  assumes "accounted s" and "map_of (entries s) h = Some e" and "e_view e' = e_view e"
  shows "accounted (change h e' s)"
proof -
  obtain v where v: "map_of (views s) (e_view e) = Some v" using entry_view assms by blast
  have wf: "wf_map (entries s)" using assms(1) by (simp add: accounted_def)
  note le = entry_share [OF assms(1,2) v]
  have sums: "sum_vals f (put h e' (entries s)) = sum_vals f (entries s) - f e + f e'" for f
    by (rule sum_vals_put_upd [OF wf assms(2)])
  have others: "sum_vals (share k) (put h e' (entries s)) = sum_vals (share k) (entries s)"
    if "k \<noteq> e_view e" for k
    using that sums [of "share k"] assms(3) by (simp add: share_def)
  have counts: "sum_vals (member k) (put h e' (entries s)) = sum_vals (member k) (entries s)" for k
    using sums [of "member k"] assms(3) sum_vals_member_le [OF assms(2), of "member k"]
    by (simp add: member_def)
  show ?thesis
    using assms v le others counts sums [of "share (e_view e)"] sums [of e_bytes]
    by (auto simp: accounted_def change_def Let_def share_def split: if_splits)
qed

lemma accounted_drop:
  assumes "accounted s" and "map_of (entries s) h = Some e"
  shows "accounted (drop_entry h s)"
proof -
  obtain v where v: "map_of (views s) (e_view e) = Some v" using entry_view assms by blast
  have wf: "wf_map (entries s)" using assms(1) by (simp add: accounted_def)
  note le = entry_share [OF assms(1,2) v]
  have sums: "sum_vals f (del h (entries s)) = sum_vals f (entries s) - f e" for f
    by (rule sum_vals_del_upd [OF wf assms(2)])
  show ?thesis
    using assms v le sums [of "share (e_view e)"] sums [of "member (e_view e)"] sums [of e_bytes]
    by (auto simp: accounted_def drop_entry_def Let_def share_def member_def sums split: if_splits)
qed

lemma accounted_cong [simp]:
  "accounted (s\<lparr>capture := c\<rparr>) = accounted s" "accounted (s\<lparr>deliveries := d\<rparr>) = accounted s"
  "accounted (s\<lparr>released := r\<rparr>) = accounted s" "accounted (s\<lparr>next_handle := n\<rparr>) = accounted s"
  by (simp_all add: accounted_def)

lemma change_simps [simp]:
  "limits (change h e' s) = limits s" "convs (change h e' s) = convs s"
  "capture (change h e' s) = capture s" "deliveries (change h e' s) = deliveries s"
  "released (change h e' s) = released s" "next_handle (change h e' s) = next_handle s"
  "entries (change h e' s) = put h e' (entries s)"
  by (simp_all add: change_def Let_def)

lemma drop_simps [simp]:
  "limits (drop_entry h s) = limits s" "convs (drop_entry h s) = convs s"
  "capture (drop_entry h s) = capture s" "deliveries (drop_entry h s) = deliveries s"
  "released (drop_entry h s) = released s" "next_handle (drop_entry h s) = next_handle s"
  "entries (drop_entry h s) = del h (entries s)"
  by (simp_all add: drop_entry_def Let_def)

lemma conversations_change:
  assumes "accounted s" and "map_of (entries s) h = Some e" and "conversations_ok s"
  shows "conversations_ok (change h e' s)" and "conversations_ok (drop_entry h s)"
proof -
  obtain v where v: "map_of (views s) (e_view e) = Some v" using entry_view assms by blast
  have wf: "wf_map (views s)" using assms(1) by (simp add: accounted_def)
  have k: "e_view e \<in> keys (views s)" using v by (rule map_of_Some_key)
  have sums: "sum_vals (of_conv c) (put (e_view e) v' (views s)) = sum_vals (of_conv c) (views s)"
    if "v_conv v' = v_conv v" for v' c
    using sum_vals_put_upd [OF wf v, of "of_conv c" v'] sum_vals_member_le [OF v, of "of_conv c"] that
    by (simp add: of_conv_def)
  show "conversations_ok (change h e' s)" "conversations_ok (drop_entry h s)"
    using assms(2,3) v k sums
    by (auto simp: conversations_ok_def change_def drop_entry_def Let_def length_put conv_count_def)
qed

lemma within_change:
  assumes "accounted s" and "within_limits s" and "map_of (entries s) h = Some e"
    and "e_view e' = e_view e" and "e_refs e' \<le> max_references (limits s)"
    and "e_bytes e' \<le> e_bytes e
      \<or> (view_used s (e_view e) - e_bytes e + e_bytes e' \<le> view_bytes (limits s)
         \<and> bytes_used s - e_bytes e + e_bytes e' \<le> device_bytes (limits s))"
  shows "within_limits (change h e' s)"
proof -
  obtain v where v: "map_of (views s) (e_view e) = Some v" using entry_view assms by blast
  note le = entry_share [OF assms(1,3) v]
  have "v_bytes v \<le> view_bytes (limits s)" "bytes_used s \<le> device_bytes (limits s)"
    using assms(2) v by (auto simp: within_limits_def)
  with assms(6) le have
    "v_bytes v - e_bytes e + e_bytes e' \<le> view_bytes (limits s)"
    "bytes_used s - e_bytes e + e_bytes e' \<le> device_bytes (limits s)"
    by (auto simp: view_used_def v)
  with assms v show ?thesis
    by (auto simp: within_limits_def change_def Let_def)
qed

lemma within_drop:
  assumes "accounted s" and "within_limits s" and "map_of (entries s) h = Some e"
  shows "within_limits (drop_entry h s)"
proof -
  obtain v where v: "map_of (views s) (e_view e) = Some v" using entry_view assms by blast
  then have b: "v_bytes v \<le> view_bytes (limits s)" "v_entries v \<le> max_entries_per_view (limits s)"
    "bytes_used s \<le> device_bytes (limits s)"
    using assms(2) by (auto simp: within_limits_def)
  then have "v_bytes v - e_bytes e \<le> view_bytes (limits s)"
    "v_entries v - 1 \<le> max_entries_per_view (limits s)" by simp_all
  then show ?thesis
    using assms v b by (auto simp: within_limits_def drop_entry_def Let_def)
qed

lemma handles_change:
  assumes "accounted s" and "map_of (entries s) h = Some e" and "handles_ok s"
  shows "handles_ok (change h e' s)" and "handles_ok (drop_entry h s)"
proof -
  obtain v where v: "map_of (views s) (e_view e) = Some v" using entry_view assms by blast
  have k: "e_view e \<in> keys (views s)" "h \<in> keys (entries s)"
    using v assms(2) by (auto intro: map_of_Some_key)
  show "handles_ok (change h e' s)" "handles_ok (drop_entry h s)"
    using assms(2,3) v k by (auto simp: handles_ok_def change_def drop_entry_def Let_def)
qed

lemma phases_change:
  assumes "phases_ok s" and "map_of (entries s) h = Some e" and "entry_ok e'"
    and "e_phase e' \<noteq> Retained \<longleftrightarrow> cap = Some h"
    and "cap = capture s \<or> (capture s = Some h \<and> cap = None)"
  shows "phases_ok ((change h e' s)\<lparr>capture := cap\<rparr>)"
  using assms by (auto simp: phases_ok_def)

lemma phases_drop:
  "phases_ok s \<Longrightarrow> phases_ok ((drop_entry h s)\<lparr>capture := (if capture s = Some h then None else capture s)\<rparr>)"
  by (auto simp: phases_ok_def) metis

text \<open>The delivery maps, one law at a time.\<close>

definition delivery_backed :: "(nat \<times> entry) list \<Rightarrow> nat \<Rightarrow> nat \<Rightarrow> nat \<Rightarrow> bool" where
  "delivery_backed es d h n \<longleftrightarrow>
     (\<exists>e. map_of es h = Some e \<and> e_delivery e = Some d \<and> e_bytes e = e_retained e + n)"

lemma deliveries_okI:
  assumes "wf_map (deliveries s)"
    and "\<And>d h n. map_of (deliveries s) d = Some (h, n) \<Longrightarrow>
      0 < n \<and> n \<le> read_delivery_scratch_limit \<and> delivery_backed (entries s) d h n"
    and "\<And>h e d. map_of (entries s) h = Some e \<Longrightarrow> e_delivery e = Some d \<Longrightarrow>
      \<exists>n. map_of (deliveries s) d = Some (h, n)"
    and "set (released s) \<inter> keys (deliveries s) = {}"
    and "\<And>h e. map_of (entries s) h = Some e \<Longrightarrow> e_phase e = Retained \<Longrightarrow> e_delivery e = None \<Longrightarrow>
      e_bytes e = e_retained e"
  shows "deliveries_ok s"
  using assms by (simp add: deliveries_ok_def delivery_backed_def)

lemma deliveries_okD:
  assumes "deliveries_ok s"
  shows "wf_map (deliveries s)"
    and "map_of (deliveries s) d = Some (h, n) \<Longrightarrow>
      0 < n \<and> n \<le> read_delivery_scratch_limit \<and> delivery_backed (entries s) d h n"
    and "map_of (entries s) h = Some e \<Longrightarrow> e_delivery e = Some d \<Longrightarrow>
      \<exists>n. map_of (deliveries s) d = Some (h, n)"
    and "set (released s) \<inter> keys (deliveries s) = {}"
    and "map_of (entries s) h = Some e \<Longrightarrow> e_phase e = Retained \<Longrightarrow> e_delivery e = None \<Longrightarrow>
      e_bytes e = e_retained e"
  using assms unfolding deliveries_ok_def delivery_backed_def by blast+

lemma delivery_backed_put:
  assumes "delivery_backed es d k n" and "map_of es h = Some e"
    and "e_delivery e \<noteq> None \<longrightarrow> e_delivery e' = e_delivery e \<and> e_bytes e' = e_bytes e \<and> e_retained e' = e_retained e"
  shows "delivery_backed (put h e' es) d k n"
  using assms by (cases "k = h") (auto simp: delivery_backed_def)

lemma delivery_backed_del:
  "delivery_backed es d k n \<Longrightarrow> map_of es h = Some e \<Longrightarrow> e_delivery e = None \<Longrightarrow> delivery_backed (del h es) d k n"
  by (cases "k = h") (auto simp: delivery_backed_def)

lemma deliveries_change:
  assumes "deliveries_ok s" and "map_of (entries s) h = Some e" and "e_delivery e' = e_delivery e"
    and "e_delivery e \<noteq> None \<longrightarrow> e_bytes e' = e_bytes e \<and> e_retained e' = e_retained e"
    and "e_phase e' = Retained \<longrightarrow> e_delivery e = None \<longrightarrow> e_bytes e' = e_retained e'"
  shows "deliveries_ok (change h e' s)"
proof (rule deliveries_okI, goal_cases)
  case (2 d k n)
  then show ?case
    using deliveries_okD(2) [OF assms(1)] delivery_backed_put [OF _ assms(2)] assms(3,4) by simp
next
  case (3 k x d)
  then show ?case
    using deliveries_okD(3) [OF assms(1)] assms(2,3) by (cases "k = h") auto
next
  case (5 k x)
  then show ?case
    using deliveries_okD(5) [OF assms(1)] assms(3,5) by (cases "k = h") auto
qed (use deliveries_okD(1,4) [OF assms(1)] in simp_all)

lemma deliveries_drop:
  assumes "deliveries_ok s" and "map_of (entries s) h = Some e" and "e_delivery e = None"
  shows "deliveries_ok (drop_entry h s)"
proof (rule deliveries_okI, goal_cases)
  case (2 d k n)
  then show ?case
    using deliveries_okD(2) [OF assms(1)] delivery_backed_del [OF _ assms(2,3)] by simp
next
  case (3 k x d)
  then show ?case
    using deliveries_okD(3) [OF assms(1)] by (auto split: if_splits)
next
  case (5 k x)
  then show ?case
    using deliveries_okD(5) [OF assms(1)] by (auto split: if_splits)
qed (use deliveries_okD(1,4) [OF assms(1)] in simp_all)

lemma component_cong [simp]:
  "within_limits (s\<lparr>capture := c\<rparr>) = within_limits s" "within_limits (s\<lparr>deliveries := d\<rparr>) = within_limits s"
  "within_limits (s\<lparr>released := r\<rparr>) = within_limits s" "within_limits (s\<lparr>next_handle := n\<rparr>) = within_limits s"
  "conversations_ok (s\<lparr>capture := c\<rparr>) = conversations_ok s"
  "conversations_ok (s\<lparr>deliveries := d\<rparr>) = conversations_ok s"
  "conversations_ok (s\<lparr>released := r\<rparr>) = conversations_ok s"
  "conversations_ok (s\<lparr>next_handle := n\<rparr>) = conversations_ok s"
  "phases_ok (s\<lparr>deliveries := d\<rparr>) = phases_ok s" "phases_ok (s\<lparr>released := r\<rparr>) = phases_ok s"
  "phases_ok (s\<lparr>next_handle := n\<rparr>) = phases_ok s"
  "deliveries_ok (s\<lparr>capture := c\<rparr>) = deliveries_ok s" "deliveries_ok (s\<lparr>next_handle := n\<rparr>) = deliveries_ok s"
  "handles_ok (s\<lparr>capture := c\<rparr>) = handles_ok s"
  by (simp_all add: within_limits_def conversations_ok_def conv_count_def phases_ok_def deliveries_ok_def
      handles_ok_def)

lemma inv_change:
  assumes "budget_inv s" and "map_of (entries s) h = Some e" and "e_view e' = e_view e"
    and "entry_ok e'" and "e_refs e' \<le> max_references (limits s)" and "e_bytes e' \<le> e_bytes e"
    and "e_delivery e' = e_delivery e"
    and "e_delivery e \<noteq> None \<longrightarrow> e_bytes e' = e_bytes e \<and> e_retained e' = e_retained e"
    and "e_phase e' = Retained \<longrightarrow> e_delivery e = None \<longrightarrow> e_bytes e' = e_retained e'"
    and "e_phase e' \<noteq> Retained \<longleftrightarrow> cap = Some h"
    and "cap = capture s \<or> (capture s = Some h \<and> cap = None)"
  shows "budget_inv ((change h e' s)\<lparr>capture := cap\<rparr>)"
  using assms unfolding budget_inv_def
  by (simp add: accounted_change within_change conversations_change handles_change deliveries_change
      phases_change)

lemma inv_change_same:
  assumes "budget_inv s" and "map_of (entries s) h = Some e" and "e_view e' = e_view e"
    and "entry_ok e'" and "e_refs e' \<le> max_references (limits s)" and "e_bytes e' = e_bytes e"
    and "e_delivery e' = e_delivery e" and "e_retained e' = e_retained e"
    and "e_phase e' = Retained \<longleftrightarrow> e_phase e = Retained"
  shows "budget_inv (change h e' s)"
proof -
  have "e_phase e' \<noteq> Retained \<longleftrightarrow> capture s = Some h"
    using assms by (auto simp: budget_inv_def phases_ok_def)
  moreover have "e_phase e' = Retained \<longrightarrow> e_delivery e = None \<longrightarrow> e_bytes e' = e_retained e'"
    using assms by (auto simp: budget_inv_def deliveries_ok_def)
  ultimately have "budget_inv ((change h e' s)\<lparr>capture := capture s\<rparr>)"
    using assms inv_change [OF assms(1-5), of "capture s"] by simp
  moreover have "(change h e' s)\<lparr>capture := capture s\<rparr> = change h e' s"
    by (simp add: change_def Let_def)
  ultimately show ?thesis by simp
qed

lemma inv_drop:
  assumes "budget_inv s" and "map_of (entries s) h = Some e" and "e_delivery e = None"
  shows "budget_inv ((drop_entry h s)\<lparr>capture := (if capture s = Some h then None else capture s)\<rparr>)"
  using assms unfolding budget_inv_def
  by (simp add: accounted_drop within_drop conversations_change handles_change deliveries_drop phases_drop
      del: if_split)

text \<open>The operations' helpers in these forms.\<close>

lemma upd_entry_change:
  assumes "accounted s" and "map_of (entries s) h = Some e" and "e_bytes (f e) = e_bytes e"
    and "e_view (f e) = e_view e"
  shows "upd_entry h f s = change h (f e) s"
proof -
  obtain v where v: "map_of (views s) (e_view e) = Some v" using entry_view assms by blast
  note le = entry_share [OF assms(1,2) v]
  have "v\<lparr>v_bytes := v_bytes v - e_bytes e + e_bytes e\<rparr> = v" using le by simp
  then show ?thesis
    using assms v le by (simp add: upd_entry_def change_def put_same)
qed

lemma subtract_change:
  assumes "accounted s" and "map_of (entries s) h = Some e" and "n \<le> e_bytes e"
  shows "subtract h n s = change h (e\<lparr>e_bytes := e_bytes e - n\<rparr>) s"
proof -
  obtain v where v: "map_of (views s) (e_view e) = Some v" using entry_view assms by blast
  note le = entry_share [OF assms(1,2) v]
  show ?thesis
    using assms v le by (simp add: subtract_def upd_entry_def upd_view_def change_def)
qed

lemma change_change:
  assumes "accounted s" and "map_of (entries s) h = Some e" and "e_view e1 = e_view e"
  shows "change h e2 (change h e1 s) = change h e2 s"
proof -
  obtain v where v: "map_of (views s) (e_view e) = Some v" using entry_view assms by blast
  note le = entry_share [OF assms(1,2) v]
  show ?thesis using assms v le by (simp add: change_def)
qed

lemma drop_change:
  assumes "accounted s" and "map_of (entries s) h = Some e" and "e_view e1 = e_view e"
  shows "drop_entry h (change h e1 s) = drop_entry h s"
proof -
  obtain v where v: "map_of (views s) (e_view e) = Some v" using entry_view assms by blast
  note le = entry_share [OF assms(1,2) v]
  show ?thesis using assms v le by (simp add: change_def drop_entry_def)
qed

lemma remove_drop:
  assumes "accounted s" and "map_of (entries s) h = Some e" and "e_delivery e = None"
  shows "remove_entry h s =
    (Ok (), (drop_entry h s)\<lparr>capture := (if capture s = Some h then None else capture s)\<rparr>)"
proof -
  obtain v where v: "map_of (views s) (e_view e) = Some v" using entry_view assms by blast
  show ?thesis
    using assms v
    by (simp add: remove_entry_def subtract_def upd_entry_def upd_view_def drop_entry_def)
qed

section \<open>Every operation preserves the invariant\<close>

lemma inv_parts:
  assumes "budget_inv s"
  shows "accounted s" "within_limits s" "conversations_ok s" "phases_ok s" "deliveries_ok s" "handles_ok s"
  using assms by (simp_all add: budget_inv_def)

lemma inv_entry:
  assumes "budget_inv s" and "map_of (entries s) h = Some e"
  shows "entry_ok e" "e_refs e \<le> max_references (limits s)" "e_phase e \<noteq> Retained \<longleftrightarrow> capture s = Some h"
    "e_phase e \<noteq> Retained \<Longrightarrow> e_delivery e = None"
  using assms by (auto simp: budget_inv_def phases_ok_def within_limits_def entry_ok_def)

lemma inv_remove:
  assumes "budget_inv s" and "map_of (entries s) h = Some e" and "e_delivery e = None"
  shows "fst (remove_entry h s) = Inr ()" and "budget_inv (snd (remove_entry h s))"
  using remove_drop [OF inv_parts(1) [OF assms(1)] assms(2,3)] inv_drop [OF assms] by simp_all

lemma remove_change:
  assumes "budget_inv s" and "map_of (entries s) h = Some e" and "e_view e' = e_view e"
    and "e_delivery e' = None" and "e_delivery e = None"
  shows "fst (remove_entry h (change h e' s)) = Inr ()" and "budget_inv (snd (remove_entry h (change h e' s)))"
proof -
  have a: "accounted s" by (rule inv_parts [OF assms(1)])
  have eq: "remove_entry h (change h e' s) =
      (Ok (), (drop_entry h s)\<lparr>capture := (if capture s = Some h then None else capture s)\<rparr>)"
    using remove_drop [OF accounted_change [OF a assms(2,3)], of h e'] assms(4) drop_change [OF a assms(2,3)]
    by simp
  show "fst (remove_entry h (change h e' s)) = Inr ()" "budget_inv (snd (remove_entry h (change h e' s)))"
    unfolding eq using inv_drop [OF assms(1,2,5)] by simp_all
qed

lemma inv_upd_same:
  assumes "budget_inv s" and "map_of (entries s) h = Some e"
    and "entry_ok (f e)" and "e_refs (f e) \<le> max_references (limits s)"
    and "e_view (f e) = e_view e" and "e_bytes (f e) = e_bytes e"
    and "e_delivery (f e) = e_delivery e" and "e_retained (f e) = e_retained e"
    and "e_phase (f e) = Retained \<longleftrightarrow> e_phase e = Retained"
  shows "budget_inv (upd_entry h f s)"
  using inv_change_same [of s h e "f e", OF assms(1,2,5,3,4,6-9)] upd_entry_change [of s h e f, OF inv_parts(1) [OF assms(1)] assms(2,6,5)]
  by simp

lemma inv_start: "budget_inv s \<Longrightarrow> budget_inv (snd (start_read h s))"
  by (auto simp: start_read_def entry_ok_def split: option.splits dest: inv_entry
      intro!: inv_upd_same)

lemma inv_unknown_drain: "budget_inv s \<Longrightarrow> budget_inv (snd (unknown_drain h s))"
  by (auto simp: unknown_drain_def entry_ok_def split: option.splits dest: inv_entry
      intro!: inv_upd_same)

lemma inv_retain: "budget_inv s \<Longrightarrow> budget_inv (snd (retain h s))"
  by (auto simp: retain_def is_deliverable_def entry_ok_def split: option.splits dest: inv_entry
      intro!: inv_upd_same)

lemma inv_confirm: 
  assumes "budget_inv s" shows "budget_inv (snd (confirm_stopped h r s))"
proof (cases "map_of (entries s) h")
  case (Some e)
  note facts = inv_entry [OF assms Some]
  let ?publish = "r = JBool True \<and> e_phase e = Running \<and> \<not> e_invalid e \<and> \<not> view_revoked s (e_view e)"
  show ?thesis
  proof (cases "e_phase e = Retained \<or> \<not> is_bool r")
    case False
    then have nd: "e_delivery e = None" and bytes: "e_bytes e = e_scratch e + e_retained e"
      using facts by (auto simp: entry_ok_def)
    consider "?publish" "e_retained e = 0" | "?publish" "e_retained e > 0" | "\<not> ?publish" by blast
    then show ?thesis
    proof cases
      case 1
      then show ?thesis using False facts Some assms
        by (auto simp: confirm_stopped_def entry_ok_def intro!: inv_upd_same)
    next
      case 2
      let ?e1 = "e\<lparr>e_bytes := e_bytes e - e_scratch e\<rparr>" and ?e2 = "e\<lparr>e_bytes := e_retained e, e_phase := Retained, e_refs := 1\<rparr>"
      have a: "accounted s" by (rule inv_parts [OF assms])
      have sub: "subtract (h) (e_scratch e) s = change h ?e1 s"
        using subtract_change [OF a Some] bytes by simp
      have a1: "accounted (change h ?e1 s)" using accounted_change [OF a Some] by simp
      have "upd_entry h (\<lambda>e. e\<lparr>e_phase := Retained, e_refs := 1\<rparr>) (change h ?e1 s)
          = change h (?e1\<lparr>e_phase := Retained, e_refs := 1\<rparr>) (change h ?e1 s)"
        using upd_entry_change [OF a1, of h ?e1 "\<lambda>e. e\<lparr>e_phase := Retained, e_refs := 1\<rparr>"] by simp
      also have "\<dots> = change h (?e1\<lparr>e_phase := Retained, e_refs := 1\<rparr>) s"
        by (rule change_change [OF a Some]) simp
      also have "?e1\<lparr>e_phase := Retained, e_refs := 1\<rparr> = ?e2" using bytes by simp
      finally have eq: "snd (confirm_stopped h r s) = (change h ?e2 s)\<lparr>capture := None\<rparr>"
        using 2 False Some sub by (simp add: confirm_stopped_def)
      have "1 \<le> max_references (limits s)"
        using assms by (simp add: budget_inv_def limits_narrowed_def limit_values_def)
      then show ?thesis
        unfolding eq using 2 False facts nd bytes
        by (intro inv_change [OF assms Some]) (auto simp: entry_ok_def)
    next
      case 3
      then have "confirm_stopped h r s =
          (case remove_entry h s of (Inl x, s') \<Rightarrow> (Err x, s') | (Inr u, s') \<Rightarrow> (Ok True, s'))"
        using False Some by (auto simp: confirm_stopped_def)
      then show ?thesis using inv_remove [OF assms Some nd]
        by (auto split: prod.splits sum.splits)
    qed
  qed (use Some assms in \<open>auto simp: confirm_stopped_def\<close>)
qed (use assms in \<open>simp add: confirm_stopped_def\<close>)

lemma inv_cancel:
  assumes "budget_inv s" shows "budget_inv (snd (cancel h s))"
proof (cases "map_of (entries s) h")
  case (Some e)
  note facts = inv_entry [OF assms Some]
  have a: "accounted s" by (rule inv_parts [OF assms])
  let ?e1 = "e\<lparr>e_invalid := True\<rparr>"
  have s1: "upd_entry h (\<lambda>e. e\<lparr>e_invalid := True\<rparr>) s = change h ?e1 s"
    by (rule upd_entry_change [OF a Some]) simp_all
  show ?thesis
  proof (cases "e_phase e = Reserved")
    case True
    then have "e_delivery e = None" using facts(4) by simp
    then show ?thesis using remove_change [OF assms Some, of ?e1] Some True s1
      by (auto simp: cancel_def Let_def split: prod.splits sum.splits)
  next
    case reserved: False
    show ?thesis
    proof (cases "e_phase e = Running")
      case True
      have a1: "accounted (change h ?e1 s)" using accounted_change [OF a Some] by simp
      have "upd_entry h (\<lambda>e. e\<lparr>e_phase := CancelPending\<rparr>) (change h ?e1 s)
          = change h (?e1\<lparr>e_phase := CancelPending\<rparr>) (change h ?e1 s)"
        using upd_entry_change [OF a1, of h ?e1 "\<lambda>e. e\<lparr>e_phase := CancelPending\<rparr>"] by simp
      also have "\<dots> = change h (?e1\<lparr>e_phase := CancelPending\<rparr>) s"
        by (rule change_change [OF a Some]) simp
      finally show ?thesis using Some True s1 facts inv_change_same [OF assms Some, of "?e1\<lparr>e_phase := CancelPending\<rparr>"]
        by (auto simp: cancel_def Let_def entry_ok_def)
    next
      case False
      then show ?thesis using Some reserved s1 facts inv_change_same [OF assms Some, of ?e1]
        by (cases "e_phase e") (auto simp: cancel_def Let_def entry_ok_def)
    qed
  qed
qed (use assms in \<open>simp add: cancel_def\<close>)

lemma inv_cancel_all: "budget_inv s \<Longrightarrow> budget_inv (snd (cancel_all hs s))"
proof (induction hs arbitrary: s)
  case (Cons h hs)
  then show ?case using inv_cancel [OF Cons.prems, of h]
    by (auto split: prod.splits sum.splits)
qed simp

text \<open>Marking a view revoked touches no total.\<close>

lemma inv_mark_revoked:
  assumes "budget_inv s" and v: "map_of (views s) h = Some v"
  shows "budget_inv (s\<lparr>views := put h (v\<lparr>v_revoked := True\<rparr>) (views s)\<rparr>)"
proof -
  have wf: "wf_map (views s)" and k: "h \<in> keys (views s)"
    using assms by (auto simp: budget_inv_def accounted_def intro: map_of_Some_key)
  have "sum_vals (of_conv c) (put h (v\<lparr>v_revoked := True\<rparr>) (views s)) = sum_vals (of_conv c) (views s)" for c
    using sum_vals_put_upd [OF wf v, of "of_conv c"] sum_vals_member_le [OF v, of "of_conv c"]
    by (simp add: of_conv_def)
  then show ?thesis
    using assms k unfolding budget_inv_def
    by (auto simp: accounted_def within_limits_def conversations_ok_def conv_count_def phases_ok_def
        deliveries_ok_def handles_ok_def length_put)
qed

lemma inv_revoke: "budget_inv s \<Longrightarrow> budget_inv (snd (revoke_view h s))"
  by (auto simp: revoke_view_def Let_def split: option.splits intro!: inv_cancel_all inv_mark_revoked)

lemma inv_dispose:
  assumes "budget_inv s" shows "budget_inv (snd (dispose_view h s))"
proof (cases "map_of (views s) h")
  case (Some v)
  show ?thesis
  proof (cases "v_revoked v \<and> v_entries v = 0")
    case True
    note parts = inv_parts [OF assms]
    have wf: "wf_map (views s)" and k: "h \<in> keys (views s)"
      using parts(1) Some by (auto simp: accounted_def intro: map_of_Some_key)
    have "sum_vals (member h) (entries s) = 0"
      using parts(1) Some True by (auto simp: accounted_def)
    then have no: "e_view e \<noteq> h" if "map_of (entries s) x = Some e" for x e
      using sum_vals_member_le [OF that, of "member h"] by (auto simp: member_def)
    have sums: "sum_vals (of_conv c) (del h (views s)) = sum_vals (of_conv c) (views s) - of_conv c v" for c
      by (rule sum_vals_del_upd [OF wf Some])
    have one: "1 \<le> sum_vals (of_conv (v_conv v)) (views s)"
      using sum_vals_member_le [OF Some, of "of_conv (v_conv v)"] by (simp add: of_conv_def)
    let ?c = "v_conv v" and ?n = "conv_count s (v_conv v) - 1"
    let ?s = "s\<lparr>views := del h (views s), convs := (if ?n = 0 then del ?c (convs s) else put ?c ?n (convs s))\<rparr>"
    have cc: "conv_count s c = sum_vals (of_conv c) (views s)" for c
      using parts(3) by (simp add: conversations_ok_def)
    have ck: "?c \<in> keys (convs s)"
      using one cc [of ?c] by (auto simp: conv_count_def keys_dom split: option.splits)
    have "accounted ?s" using parts(1) wf no by (auto simp: accounted_def)
    moreover have "within_limits ?s" using parts(2) by (auto simp: within_limits_def)
    moreover have "phases_ok ?s" "deliveries_ok ?s" "handles_ok ?s"
      using parts(4-6) by (auto simp: phases_ok_def deliveries_ok_def handles_ok_def)
    moreover have "conv_count ?s c = sum_vals (of_conv c) (del h (views s))" for c
      using cc [of c] one unfolding sums by (auto simp: conv_count_def of_conv_def)
    moreover have "length (del h (views s)) \<le> length (views s)"
      "length (del ?c (convs s)) \<le> length (convs s)" by (simp_all add: length_del_le)
    moreover have "?n \<le> max_views_per_conversation (limits s)"
      using conv_count_le [OF parts(3), of ?c] by simp
    ultimately have "budget_inv ?s"
      using assms parts(3) ck unfolding budget_inv_def
      by (auto simp: conversations_ok_def length_put split: if_splits)
    moreover have "snd (dispose_view h s) = ?s"
      using Some True unfolding dispose_view_def Let_def by simp
    ultimately show ?thesis by (simp only:)
  qed (use Some assms in \<open>auto simp: dispose_view_def\<close>)
qed (use assms in \<open>simp add: dispose_view_def\<close>)

lemma inv_bind:
  assumes "budget_inv s" shows "budget_inv (snd (bind_view c s))"
proof (cases c)
  case (Some c)
  note parts = inv_parts [OF assms]
  let ?n = "conv_count s c" and ?h = "next_handle s"
  let ?v = "\<lparr>v_conv = c, v_bytes = 0, v_entries = 0, v_revoked = False\<rparr>"
  show ?thesis
  proof (cases "length (views s) \<ge> max_views (limits s) \<or> ?n \<ge> max_views_per_conversation (limits s)
              \<or> (?n = 0 \<and> length (convs s) \<ge> max_conversations (limits s))")
    case False
    have new: "?h \<notin> keys (views s)" using parts(6) by (auto simp: handles_ok_def)
    have none: "e_view e \<noteq> ?h" if "map_of (entries s) x = Some e" for x e
      using entry_view_key [OF parts(1) that] new by auto
    then have zero: "sum_vals (share ?h) (entries s) = 0" "sum_vals (member ?h) (entries s) = 0"
      using parts(1) map_of_mem_iff [of "entries s"]
      by (auto simp: sum_vals_def accounted_def share_def member_def)
    let ?s = "s\<lparr>views := put ?h ?v (views s), convs := put c (?n + 1) (convs s), next_handle := ?h + 1\<rparr>"
    have cc: "conv_count s x = sum_vals (of_conv x) (views s)" for x
      using parts(3) by (simp add: conversations_ok_def)
    have "accounted ?s" using parts(1) zero by (auto simp: accounted_def)
    moreover have "within_limits ?s" using parts(2) by (auto simp: within_limits_def)
    moreover have "phases_ok ?s" using parts(4) by (simp add: phases_ok_def)
    moreover have "deliveries_ok ?s" using parts(5) by (simp add: deliveries_ok_def)
    moreover have "handles_ok ?s" using parts(6) by (auto simp: handles_ok_def less_Suc_eq)
    moreover have "conv_count ?s x = sum_vals (of_conv x) (put ?h ?v (views s))" for x
      using cc [of x] by (auto simp: sum_vals_put_new [OF new] of_conv_def conv_count_def)
    moreover have "c \<in> keys (convs s) \<longleftrightarrow> ?n \<noteq> 0"
      using parts(3) by (auto simp: conv_count_def keys_dom conversations_ok_def split: option.splits)
    ultimately have "budget_inv ?s"
      using assms False parts(3) new unfolding budget_inv_def
      by (auto simp: conversations_ok_def length_put)
    then show ?thesis using Some False by (auto simp: bind_view_def Let_def)
  qed (use Some assms in \<open>auto simp: bind_view_def Let_def\<close>)
qed (use assms in \<open>simp add: bind_view_def\<close>)

lemma inv_reserve:
  assumes "budget_inv s" shows "budget_inv (snd (reserve h cost s))"
proof -
  note parts = inv_parts [OF assms]
  have "budget_inv (snd (reserve h cost s))" if ok: "reserve h cost s = (Inr n, s')" for n s'
  proof -
    from ok obtain snapshot v where
      v: "map_of (views s) h = Some v" and free: "capture s = None" and live: "\<not> v_revoked v"
      and f: "data_fields cost [''scratchBytes'', ''retainedBytes''] = Inr snapshot"
      by (auto simp: reserve_def Let_def split: sum.splits option.splits if_splits)
    define a where "a = nat_of_val (getp snapshot ''scratchBytes'')"
    define b where "b = nat_of_val (getp snapshot ''retainedBytes'')"
    let ?e = "\<lparr>e_view = h, e_scratch = a, e_retained = b, e_phase = Reserved, e_bytes = a + b,
        e_refs = 0, e_invalid = False, e_delivery = None\<rparr>"
    let ?v = "v\<lparr>v_bytes := v_bytes v + (a + b), v_entries := v_entries v + 1\<rparr>"
    let ?x = "next_handle s"
    have fits: "v_entries v < max_entries_per_view (limits s)" "v_bytes v + (a + b) \<le> view_bytes (limits s)"
      "bytes_used s + (a + b) \<le> device_bytes (limits s)"
      and s': "s' = s\<lparr>entries := put ?x ?e (entries s), views := put h ?v (views s),
         bytes_used := bytes_used s + (a + b), capture := Some ?x, next_handle := ?x + 1\<rparr>"
      using ok v free live f by (auto simp: reserve_def Let_def a_def b_def split: if_splits)
    have new: "?x \<notin> keys (entries s)" and k: "h \<in> keys (views s)" and wfv: "wf_map (views s)"
      and wfe: "wf_map (entries s)"
      using parts(1,6) v by (auto simp: handles_ok_def accounted_def intro: map_of_Some_key)
    note sums = sum_vals_put_new [OF new]
    have convs: "sum_vals (of_conv c) (put h ?v (views s)) = sum_vals (of_conv c) (views s)" for c
      using sum_vals_put_upd [OF wfv v, of "of_conv c" ?v] sum_vals_member_le [OF v, of "of_conv c"]
      by (simp add: of_conv_def)
    have "accounted s'"
      using parts(1) k v wfv wfe by (auto simp: s' accounted_def sums share_def member_def)
    moreover have "within_limits s'"
      using parts(2) fits by (auto simp: s' within_limits_def)
    moreover have "conversations_ok s'"
      using parts(3) k convs by (auto simp: s' conversations_ok_def conv_count_def length_put)
    moreover have "phases_ok s'"
      using parts(4) free new by (auto simp: s' phases_ok_def entry_ok_def)
    moreover have "deliveries_ok s'"
    proof (rule deliveries_okI, goal_cases)
      case (2 d k n)
      then have "delivery_backed (entries s) d k n" and "k \<noteq> ?x"
        using deliveries_okD(2) [OF parts(5), of d k n] new
        by (auto simp: s' delivery_backed_def dest: map_of_Some_key)
      then show ?case using deliveries_okD(2) [OF parts(5), of d k n] 2
        by (auto simp: s' delivery_backed_def)
    next
      case (3 k x d)
      then show ?case using deliveries_okD(3) [OF parts(5)] by (auto simp: s' split: if_splits)
    next
      case (5 k x)
      then show ?case using deliveries_okD(5) [OF parts(5)] by (auto simp: s' split: if_splits)
    qed (use deliveries_okD(1,4) [OF parts(5)] in \<open>simp_all add: s'\<close>)
    moreover have "handles_ok s'"
      using parts(6) k by (auto simp: s' handles_ok_def less_Suc_eq)
    ultimately show ?thesis
      using assms ok by (simp add: budget_inv_def s')
  qed
  moreover have "snd (reserve h cost s) = s" if "reserve h cost s = (Inl x, s')" for x s'
    using that by (auto simp: reserve_def Let_def split: sum.splits option.splits if_splits)
  ultimately show ?thesis
    using assms by (cases "reserve h cost s"; cases "fst (reserve h cost s)") auto
qed

lemma inv_release:
  assumes "budget_inv s" shows "budget_inv (snd (release h s))"
proof (cases "map_of (entries s) h")
  case (Some e)
  note facts = inv_entry [OF assms Some]
  have a: "accounted s" by (rule inv_parts [OF assms])
  let ?e1 = "e\<lparr>e_refs := e_refs e - 1\<rparr>"
  have s1: "upd_entry h (\<lambda>e. e\<lparr>e_refs := e_refs e - 1\<rparr>) s = change h ?e1 s"
    by (rule upd_entry_change [OF a Some]) simp_all
  show ?thesis
  proof (cases "e_refs e - 1 = 0 \<and> e_delivery e = None")
    case True
    then show ?thesis
      using Some s1 assms remove_change [OF assms Some, of ?e1] by (auto simp: release_def Let_def)
  next
    case False
    show ?thesis
    proof (cases "e_phase e \<noteq> Retained \<or> e_refs e < 1")
      case ok: False
      have "budget_inv (change h ?e1 s)"
        by (rule inv_change_same [OF assms Some]) (use False ok facts in \<open>auto simp: entry_ok_def\<close>)
      then show ?thesis using Some False s1 ok by (auto simp: release_def Let_def)
    qed (use Some assms in \<open>auto simp: release_def\<close>)
  qed
qed (use assms in \<open>simp add: release_def\<close>)

text \<open>Reserving and releasing delivery storage: the entry, its view and the delivery map together.\<close>

lemma inv_reserve_delivery:
  assumes "budget_inv s" shows "budget_inv (snd (reserve_delivery h amount s))"
proof -
  note parts = inv_parts [OF assms]
  have "budget_inv s'" if ok: "reserve_delivery h amount s = (Inr d, s')" for d s'
  proof -
    from ok obtain e where Some: "map_of (entries s) h = Some e" and del: "is_deliverable h s"
      and none: "e_delivery e = None"
      by (auto simp: reserve_delivery_def Let_def split: option.splits if_splits)
    define n where "n = nat_of_val amount"
    obtain v where v: "map_of (views s) (e_view e) = Some v" using entry_view [OF parts(1) Some] by blast
    note le = entry_share [OF parts(1) Some v] and facts = inv_entry [OF assms Some]
    let ?d = "next_handle s"
    let ?e1 = "e\<lparr>e_delivery := Some ?d, e_bytes := e_bytes e + n\<rparr>"
    have n: "0 < n" "n \<le> read_delivery_scratch_limit" "view_used s (e_view e) + n \<le> view_bytes (limits s)"
      "bytes_used s + n \<le> device_bytes (limits s)" and d: "d = ?d"
      using ok Some del none by (auto simp: reserve_delivery_def Let_def n_def split: if_splits)
    have phase: "e_phase e = Retained" "e_refs e > 0" "\<not> e_invalid e"
      using del Some by (auto simp: is_deliverable_def)
    have s': "s' = (change h ?e1 s)\<lparr>deliveries := put ?d (h, n) (deliveries s), next_handle := ?d + 1\<rparr>"
      using ok Some del none v le
      by (auto simp: reserve_delivery_def Let_def n_def upd_entry_def upd_view_def change_def
          split: if_splits)
    have fresh: "?d \<notin> keys (deliveries s)" "?d \<notin> set (released s)"
      using parts(6) by (auto simp: handles_ok_def)
    have "deliveries_ok s'"
    proof (rule deliveries_okI, goal_cases)
      case (2 x k m)
      have bytes: "e_bytes e = e_retained e"
        by (rule deliveries_okD(5) [OF parts(5) Some phase(1) none])
      show ?case
      proof (cases "x = ?d")
        case True
        then show ?thesis using 2 n bytes by (auto simp: s' delivery_backed_def)
      next
        case False
        then have "map_of (deliveries s) x = Some (k, m)" using 2 by (simp add: s')
        then show ?thesis
          using deliveries_okD(2) [OF parts(5)] delivery_backed_put [OF _ Some] none by (simp add: s')
      qed
    next
      case (3 k x y)
      then show ?case using deliveries_okD(3) [OF parts(5)] none fresh
        by (cases "k = h") (auto simp: s' dest: map_of_Some_key)
    next
      case (5 k x)
      then show ?case using deliveries_okD(5) [OF parts(5)] by (auto simp: s' split: if_splits)
    qed (use deliveries_okD(1,4) [OF parts(5)] fresh in \<open>simp_all add: s'\<close>)
    moreover have "phases_ok s'"
    proof -
      have "phases_ok ((change h ?e1 s)\<lparr>capture := capture s\<rparr>)"
        using phase facts by (intro phases_change [OF parts(4) Some]) (auto simp: entry_ok_def)
      moreover have "(change h ?e1 s)\<lparr>capture := capture s\<rparr> = change h ?e1 s"
        by (simp add: change_def Let_def)
      ultimately show ?thesis by (simp add: s')
    qed
    moreover have "within_limits (change h ?e1 s)"
      using n le facts v by (intro within_change [OF parts(1,2) Some]) (auto simp: view_used_def)
    moreover have "handles_ok s'"
      using handles_change(1) [OF parts(1) Some parts(6), of ?e1]
      by (auto simp: s' handles_ok_def less_Suc_eq)
    ultimately show ?thesis
      using assms accounted_change [OF parts(1) Some, of ?e1] conversations_change(1) [OF parts(1) Some parts(3)]
      by (simp add: budget_inv_def s')
  qed
  moreover have "snd (reserve_delivery h amount s) = s" if "reserve_delivery h amount s = (Inl x, s')" for x s'
    using that by (auto simp: reserve_delivery_def Let_def split: option.splits if_splits)
  ultimately show ?thesis
    using assms by (cases "reserve_delivery h amount s"; cases "fst (reserve_delivery h amount s)") auto
qed

text \<open>The state in which the delivery has been struck off and its bytes returned.\<close>

lemma inv_struck_off:
  assumes "budget_inv s" and d: "map_of (deliveries s) d = Some (h, n)"
    and Some: "map_of (entries s) h = Some e" and ed: "e_delivery e = Some d" and ph: "e_phase e = Retained"
    and refs: "0 < e_refs e"
  shows "budget_inv (change h (e\<lparr>e_delivery := None, e_bytes := e_bytes e - n\<rparr>)
    (s\<lparr>deliveries := del d (deliveries s), released := d # released s\<rparr>))"
proof -
  note parts = inv_parts [OF assms(1)] and facts = inv_entry [OF assms(1) Some]
  let ?e = "e\<lparr>e_delivery := None, e_bytes := e_bytes e - n\<rparr>"
  let ?s = "s\<lparr>deliveries := del d (deliveries s), released := d # released s\<rparr>"
  have bytes: "e_bytes e = e_retained e + n"
    using deliveries_okD(2) [OF parts(5) d] Some by (auto simp: delivery_backed_def)
  have key: "d < next_handle s" using parts(6) map_of_Some_key [OF d] by (auto simp: handles_ok_def)
  have "deliveries_ok (change h ?e ?s)"
  proof (rule deliveries_okI, goal_cases)
    case (2 x k m)
    then have x: "x \<noteq> d" "map_of (deliveries s) x = Some (k, m)" by (auto split: if_splits)
    then have "k \<noteq> h"
      using deliveries_okD(2) [OF parts(5) x(2)] Some ed by (auto simp: delivery_backed_def)
    then show ?case using deliveries_okD(2) [OF parts(5) x(2)] by (simp add: delivery_backed_def)
  next
    case (3 k x y)
    then have "k \<noteq> h" "map_of (entries s) k = Some x" "e_delivery x = Some y" by (auto split: if_splits)
    with deliveries_okD(3) [OF parts(5), of k x y] d show ?case by auto
  next
    case (5 k x)
    then show ?case using deliveries_okD(5) [OF parts(5)] bytes by (auto split: if_splits)
  qed (use deliveries_okD(1,4) [OF parts(5)] in auto)
  moreover have "phases_ok (change h ?e ?s)"
  proof -
    have "phases_ok ((change h ?e ?s)\<lparr>capture := capture ?s\<rparr>)"
      using ph facts parts(4) bytes refs Some
      by (intro phases_change [of ?s h e]) (auto simp: entry_ok_def)
    moreover have "(change h ?e ?s)\<lparr>capture := capture ?s\<rparr> = change h ?e ?s"
      by (simp add: change_def Let_def)
    ultimately show ?thesis by (simp only:)
  qed
  moreover have acc: "accounted ?s" using parts(1) by (simp add: accounted_def)
  moreover have "handles_ok ?s" using parts(6) key by (auto simp: handles_ok_def)
  ultimately show ?thesis
    using assms(1) parts(2,3) Some facts
    by (simp add: budget_inv_def accounted_change [of ?s h e] within_change [of ?s h e]
        conversations_change(1) [of ?s h e] handles_change(1) [of ?s h e])
qed

lemma inv_struck_off_gone:
  assumes "budget_inv s" and d: "map_of (deliveries s) d = Some (h, n)"
    and Some: "map_of (entries s) h = Some e" and ed: "e_delivery e = Some d" and ph: "e_phase e = Retained"
  shows "budget_inv (drop_entry h (s\<lparr>deliveries := del d (deliveries s), released := d # released s\<rparr>))"
proof -
  note parts = inv_parts [OF assms(1)] and facts = inv_entry [OF assms(1) Some]
  let ?s = "s\<lparr>deliveries := del d (deliveries s), released := d # released s\<rparr>"
  have key: "d < next_handle s" using parts(6) map_of_Some_key [OF d] by (auto simp: handles_ok_def)
  have "deliveries_ok (drop_entry h ?s)"
  proof (rule deliveries_okI, goal_cases)
    case (2 x k m)
    then have x: "x \<noteq> d" "map_of (deliveries s) x = Some (k, m)" by (auto split: if_splits)
    then have "k \<noteq> h"
      using deliveries_okD(2) [OF parts(5) x(2)] Some ed by (auto simp: delivery_backed_def)
    then show ?case using deliveries_okD(2) [OF parts(5) x(2)] by (simp add: delivery_backed_def)
  next
    case (3 k x y)
    then have "k \<noteq> h" "map_of (entries s) k = Some x" "e_delivery x = Some y" by (auto split: if_splits)
    with deliveries_okD(3) [OF parts(5), of k x y] d show ?case by auto
  next
    case (5 k x)
    then show ?case using deliveries_okD(5) [OF parts(5)] by (auto split: if_splits)
  qed (use deliveries_okD(1,4) [OF parts(5)] in auto)
  moreover have "phases_ok (drop_entry h ?s)"
  proof -
    have "capture ?s \<noteq> Some h" using facts(3) ph by simp
    then have "(drop_entry h ?s)\<lparr>capture := (if capture ?s = Some h then None else capture ?s)\<rparr> = drop_entry h ?s"
      by (simp add: drop_entry_def Let_def)
    moreover have "phases_ok ?s" using parts(4) by simp
    ultimately show ?thesis using phases_drop [of ?s h] by (simp only:)
  qed
  moreover have acc: "accounted ?s" using parts(1) by (simp add: accounted_def)
  moreover have han: "handles_ok ?s" using parts(6) key by (auto simp: handles_ok_def)
  moreover have Some': "map_of (entries ?s) h = Some e" using Some by simp
  moreover have "within_limits ?s" "conversations_ok ?s" using parts(2,3) by simp_all
  ultimately have "accounted (drop_entry h ?s)" "within_limits (drop_entry h ?s)"
    "conversations_ok (drop_entry h ?s)" "handles_ok (drop_entry h ?s)"
    "phases_ok (drop_entry h ?s)" "deliveries_ok (drop_entry h ?s)"
    using accounted_drop [OF acc Some'] within_drop [OF acc _ Some'] conversations_change(2) [OF acc Some']
      handles_change(2) [OF acc Some' han] by blast+
  moreover have "limits_narrowed (limits (drop_entry h ?s))"
    using assms(1) by (simp add: budget_inv_def)
  ultimately show ?thesis unfolding budget_inv_def by blast
qed

lemma inv_release_delivery:
  assumes "budget_inv s" shows "budget_inv (snd (release_delivery d s))"
proof (cases "map_of (deliveries s) d")
  case d: (Some hn)
  obtain h n where hn: "hn = (h, n)" by (cases hn)
  with d have d: "map_of (deliveries s) d = Some (h, n)" by simp
  note parts = inv_parts [OF assms]
  show ?thesis
  proof (cases "map_of (entries s) h")
    case (Some e)
    show ?thesis
    proof (cases "e_phase e = Retained \<and> e_delivery e = Some d")
      case True
      let ?s = "s\<lparr>deliveries := del d (deliveries s), released := d # released s\<rparr>"
      let ?e1 = "e\<lparr>e_delivery := None\<rparr>" and ?e2 = "e\<lparr>e_delivery := None, e_bytes := e_bytes e - n\<rparr>"
      have le: "n \<le> e_bytes e"
        using deliveries_okD(2) [OF parts(5) d] Some by (auto simp: delivery_backed_def)
      have acc: "accounted ?s" using parts(1) by (simp add: accounted_def)
      have Some': "map_of (entries ?s) h = Some e" using Some by simp
      have "upd_entry h (\<lambda>e. e\<lparr>e_delivery := None\<rparr>) ?s = change h ?e1 ?s"
        by (rule upd_entry_change [OF acc Some']) simp_all
      moreover have "subtract h n (change h ?e1 ?s) = change h (?e1\<lparr>e_bytes := e_bytes ?e1 - n\<rparr>) (change h ?e1 ?s)"
        by (rule subtract_change [OF accounted_change [OF acc Some']]) (use le in simp_all)
      moreover have "change h (?e1\<lparr>e_bytes := e_bytes ?e1 - n\<rparr>) (change h ?e1 ?s) = change h ?e2 ?s"
        using change_change [OF acc Some', of ?e1] by simp
      ultimately have s2: "subtract h n (upd_entry h (\<lambda>e. e\<lparr>e_delivery := None\<rparr>) ?s) = change h ?e2 ?s"
        by (simp only:)
      show ?thesis
      proof (cases "e_refs e = 0")
        case zero: True
        have "remove_entry h (change h ?e2 ?s) = (Ok (), (drop_entry h (change h ?e2 ?s))\<lparr>capture :=
            (if capture (change h ?e2 ?s) = Some h then None else capture (change h ?e2 ?s))\<rparr>)"
        proof (rule remove_drop [OF accounted_change [OF acc Some']])
          show "e_view ?e2 = e_view e" by simp
          show "map_of (entries (change h ?e2 ?s)) h = Some ?e2" by simp
          show "e_delivery ?e2 = None" by simp
        qed
        moreover have "drop_entry h (change h ?e2 ?s) = drop_entry h ?s"
          by (rule drop_change [OF acc Some']) simp
        moreover have "capture s \<noteq> Some h" using inv_entry(3) [OF assms Some] True by simp
        moreover have "(drop_entry h ?s)\<lparr>capture := capture s\<rparr> = drop_entry h ?s"
          by (simp add: drop_entry_def Let_def)
        ultimately have "remove_entry h (change h ?e2 ?s) = (Ok (), drop_entry h ?s)" by simp
        then have "snd (release_delivery d s) = drop_entry h ?s"
          using d Some True zero s2 by (simp add: release_delivery_def Let_def)
        then show ?thesis using inv_struck_off_gone [OF assms d Some] True by simp
      next
        case False
        then have "snd (release_delivery d s) = change h ?e2 ?s"
          using d Some True s2 by (simp add: release_delivery_def Let_def)
        then show ?thesis using inv_struck_off [OF assms d Some] True False by simp
      qed
    qed (use assms d Some in \<open>auto simp: release_delivery_def\<close>)
  qed (use assms d in \<open>simp add: release_delivery_def\<close>)
qed (use assms in \<open>simp add: release_delivery_def\<close>)

lemma narrowed_Ok: "narrowed snap k m = Inr n \<Longrightarrow> 0 < n \<and> n \<le> m"
  by (auto simp: narrowed_def Let_def split: if_splits)

lemma inv_new: "new_budget options = Inr s \<Longrightarrow> budget_inv s"
  by (auto simp: new_budget_def and_then_Ok_iff limit_keys_def limit_values_def read_budget_limits_def
      budget_inv_def limits_narrowed_def Let_def accounted_def within_limits_def conversations_ok_def
      conv_count_def phases_ok_def deliveries_ok_def handles_ok_def split: if_splits dest!: narrowed_Ok)

section \<open>Operations as data\<close>

datatype budget_op =
    Bind "nat option" | Reserve nat jsval | Start nat | Confirm nat jsval | UnknownDrain nat
  | Cancel nat | Revoke nat | Dispose nat | RetainRef nat | ReleaseRef nat
  | ReserveDelivery nat jsval | ReleaseDelivery nat

fun apply_op :: "budget_op \<Rightarrow> budget \<Rightarrow> budget" where
  "apply_op (Bind c) s = snd (bind_view c s)"
| "apply_op (Reserve v c) s = snd (reserve v c s)"
| "apply_op (Start h) s = snd (start_read h s)"
| "apply_op (Confirm h r) s = snd (confirm_stopped h r s)"
| "apply_op (UnknownDrain h) s = snd (unknown_drain h s)"
| "apply_op (Cancel h) s = snd (cancel h s)"
| "apply_op (Revoke v) s = snd (revoke_view v s)"
| "apply_op (Dispose v) s = snd (dispose_view v s)"
| "apply_op (RetainRef h) s = snd (retain h s)"
| "apply_op (ReleaseRef h) s = snd (release h s)"
| "apply_op (ReserveDelivery h n) s = snd (reserve_delivery h n s)"
| "apply_op (ReleaseDelivery d) s = snd (release_delivery d s)"

section \<open>What never comes back\<close>

text \<open>
  \<open>ages s s'\<close>: handles are not reused, entries keep their view, invalidation and revocation are
  final. Every operation ages the state.
\<close>

definition ages :: "budget \<Rightarrow> budget \<Rightarrow> bool" where
  "ages s s' \<longleftrightarrow> next_handle s \<le> next_handle s'
     \<and> (\<forall>h < next_handle s. \<forall>e'. map_of (entries s') h = Some e' \<longrightarrow>
          (\<exists>e. map_of (entries s) h = Some e \<and> e_view e' = e_view e \<and> (e_invalid e \<longrightarrow> e_invalid e')))
     \<and> (\<forall>v < next_handle s. view_revoked s v \<longrightarrow> view_revoked s' v)"

lemma snd_passed [simp]:
  "snd (case r of (Inl x, s') \<Rightarrow> (f x, s') | (Inr u, s') \<Rightarrow> (g u, s')) = snd r"
  by (auto split: prod.splits sum.splits)

lemma ages_refl [simp]: "ages s s"
  by (simp add: ages_def)

lemma ages_entry:
  "ages s s' \<Longrightarrow> h < next_handle s \<Longrightarrow> map_of (entries s') h = Some e' \<Longrightarrow>
     \<exists>e. map_of (entries s) h = Some e \<and> e_view e' = e_view e \<and> (e_invalid e \<longrightarrow> e_invalid e')"
  unfolding ages_def by blast

lemma ages_trans:
  assumes "ages s t" and "ages t u" shows "ages s u"
proof -
  have le: "next_handle s \<le> next_handle t" "next_handle t \<le> next_handle u"
    using assms by (simp_all add: ages_def)
  have "\<exists>e. map_of (entries s) h = Some e \<and> e_view e' = e_view e \<and> (e_invalid e \<longrightarrow> e_invalid e')"
    if h: "h < next_handle s" and e': "map_of (entries u) h = Some e'" for h e'
  proof -
    obtain e1 where "map_of (entries t) h = Some e1" "e_view e' = e_view e1" "e_invalid e1 \<longrightarrow> e_invalid e'"
      using ages_entry [OF assms(2) _ e'] h le by auto
    then show ?thesis using ages_entry [OF assms(1) h, of e1] by auto
  qed
  moreover have "view_revoked u v" if "v < next_handle s" "view_revoked s v" for v
    using assms that le unfolding ages_def by (meson less_le_trans)
  ultimately show ?thesis using le unfolding ages_def by auto
qed

lemma ages_views:
  "entries s' = entries s \<Longrightarrow> next_handle s' = next_handle s \<Longrightarrow>
     (\<And>v. view_revoked s v \<Longrightarrow> view_revoked s' v) \<Longrightarrow> ages s s'"
  by (simp add: ages_def)

lemma ages_same:
  "entries s' = entries s \<Longrightarrow> views s' = views s \<Longrightarrow> next_handle s \<le> next_handle s' \<Longrightarrow> ages s s'"
  by (auto simp: ages_def view_revoked_def)

lemma ages_upd_entry:
  "(\<And>e. e_view (f e) = e_view e \<and> (e_invalid e \<longrightarrow> e_invalid (f e))) \<Longrightarrow> ages s (upd_entry h f s)"
  by (auto simp: ages_def upd_entry_def view_revoked_def split: option.splits if_splits)

lemma ages_upd_view: "(\<And>v. v_revoked v \<Longrightarrow> v_revoked (f v)) \<Longrightarrow> ages s (upd_view h f s)"
  by (auto simp: ages_def upd_view_def view_revoked_def split: option.splits if_splits)

lemma ages_subtract: "ages s (subtract h n s)"
proof (cases "map_of (entries s) h")
  case (Some e)
  have "ages s (upd_view (e_view e) (\<lambda>v. v\<lparr>v_bytes := v_bytes v - n\<rparr>)
      (upd_entry h (\<lambda>e. e\<lparr>e_bytes := e_bytes e - n\<rparr>) s))"
    by (rule ages_trans [OF ages_upd_entry ages_upd_view]) simp_all
  then show ?thesis
    using Some by (auto simp: subtract_def intro: ages_trans [OF _ ages_same])
qed (simp add: subtract_def)

lemma ages_del: "entries s' = del h (entries s) \<Longrightarrow> views s' = views s \<Longrightarrow> next_handle s' = next_handle s \<Longrightarrow> ages s s'"
  by (auto simp: ages_def view_revoked_def split: if_splits)

lemma ages_remove: "ages s (snd (remove_entry h s))"
proof (cases "map_of (entries s) h")
  case (Some e)
  let ?s2 = "upd_view (e_view e) (\<lambda>v. v\<lparr>v_entries := v_entries v - 1\<rparr>) (subtract h (e_bytes e) s)"
  have "ages s ?s2"
    by (rule ages_trans [OF ages_subtract ages_upd_view]) simp
  from ages_trans [OF this ages_del, of _ h] show ?thesis
    using Some by (auto simp: remove_entry_def Let_def)
qed (simp add: remove_entry_def)

lemma ages_cancel: "ages s (snd (cancel h s))"
proof (cases "map_of (entries s) h")
  case (Some e)
  let ?s1 = "upd_entry h (\<lambda>e. e\<lparr>e_invalid := True\<rparr>) s"
  have a: "ages s ?s1" by (rule ages_upd_entry) simp
  then have "ages s (snd (remove_entry h ?s1))" by (rule ages_trans [OF _ ages_remove])
  moreover have "ages s (upd_entry h (\<lambda>e. e\<lparr>e_phase := CancelPending\<rparr>) ?s1)"
    by (rule ages_trans [OF a ages_upd_entry]) simp
  ultimately show ?thesis
    using Some a by (auto simp: cancel_def Let_def split: prod.splits sum.splits)
qed (simp add: cancel_def)

lemma ages_cancel_all: "ages s (snd (cancel_all hs s))"
proof (induction hs arbitrary: s)
  case (Cons h hs)
  show ?case
    using ages_cancel [of s h] ages_trans [OF _ Cons.IH, of s]
    by (auto split: prod.splits sum.splits)
qed simp

lemma ages_confirm: "ages s (snd (confirm_stopped h r s))"
proof (cases "map_of (entries s) h")
  case (Some e)
  have "ages s (upd_entry h (\<lambda>e. e\<lparr>e_phase := Quarantined, e_invalid := True\<rparr>) s)"
    by (rule ages_upd_entry) simp
  moreover have "ages s (upd_entry h (\<lambda>e. e\<lparr>e_phase := Retained, e_refs := 1\<rparr>) (subtract h (e_scratch e) s))"
    by (rule ages_trans [OF ages_subtract ages_upd_entry]) simp
  then have "ages s ((upd_entry h (\<lambda>e. e\<lparr>e_phase := Retained, e_refs := 1\<rparr>) (subtract h (e_scratch e) s))\<lparr>capture := None\<rparr>)"
    by (rule ages_trans [OF _ ages_same]) simp_all
  ultimately show ?thesis
    using Some ages_remove [of s h]
    by (auto simp: confirm_stopped_def Let_def split: prod.splits sum.splits)
qed (simp add: confirm_stopped_def)

lemma ages_release: "ages s (snd (release h s))"
proof (cases "map_of (entries s) h")
  case (Some e)
  have a: "ages s (upd_entry h (\<lambda>e. e\<lparr>e_refs := e_refs e - 1\<rparr>) s)" by (rule ages_upd_entry) simp
  then show ?thesis
    using Some ages_trans [OF a ages_remove] by (auto simp: release_def Let_def)
qed (simp add: release_def)

lemma ages_reserve_delivery: "ages s (snd (reserve_delivery h n s))"
proof (cases "map_of (entries s) h")
  case (Some e)
  let ?m = "nat_of_val n" and ?d = "next_handle s"
  let ?s2 = "upd_view (e_view e) (\<lambda>v. v\<lparr>v_bytes := v_bytes v + ?m\<rparr>)
      (upd_entry h (\<lambda>e. e\<lparr>e_delivery := Some ?d, e_bytes := e_bytes e + ?m\<rparr>) s)"
  have "ages s ?s2"
    by (rule ages_trans [OF ages_upd_entry ages_upd_view]) simp_all
  moreover have "ages ?s2 (?s2\<lparr>deliveries := x, bytes_used := y, next_handle := Suc ?d\<rparr>)" for x y
    by (rule ages_same) (simp_all add: upd_view_def upd_entry_def split: option.splits)
  ultimately have "ages s (?s2\<lparr>deliveries := x, bytes_used := y, next_handle := Suc ?d\<rparr>)" for x y
    by (rule ages_trans)
  then show ?thesis
    using Some by (simp add: reserve_delivery_def Let_def)
qed (simp add: reserve_delivery_def)

lemma ages_release_delivery: "ages s (snd (release_delivery d s))"
proof (cases "map_of (deliveries s) d")
  case (Some hn)
  let ?s1 = "s\<lparr>deliveries := del d (deliveries s), released := d # released s\<rparr>"
  have "ages s ?s1" by (rule ages_same) simp_all
  then have "ages s (upd_entry h (\<lambda>e. e\<lparr>e_delivery := None\<rparr>) ?s1)" for h
    by (rule ages_trans [OF _ ages_upd_entry]) simp
  then have a: "ages s (subtract h n (upd_entry h (\<lambda>e. e\<lparr>e_delivery := None\<rparr>) ?s1))" for h n
    by (rule ages_trans [OF _ ages_subtract])
  show ?thesis
    using Some a ages_trans [OF a ages_remove]
    by (cases hn) (simp add: release_delivery_def Let_def split: option.splits)
qed (simp add: release_delivery_def)

lemma ages_bind: "ages s (snd (bind_view c s))"
proof (cases c)
  case (Some x)
  have "ages s (s\<lparr>views := put (next_handle s) v (views s), convs := y, next_handle := Suc (next_handle s)\<rparr>)" for v y
    by (auto simp: ages_def view_revoked_def)
  then show ?thesis using Some by (simp add: bind_view_def Let_def)
qed (simp add: bind_view_def)

lemma ages_reserve: "ages s (snd (reserve v c s))"
proof -
  have "ages s (s\<lparr>entries := put (next_handle s) e (entries s),
      views := put v (w\<lparr>v_bytes := a, v_entries := b\<rparr>) (views s), bytes_used := x, capture := y,
      next_handle := Suc (next_handle s)\<rparr>)" if "map_of (views s) v = Some w" for e w a b x y
    using that by (auto simp: ages_def view_revoked_def)
  then show ?thesis
    by (simp add: reserve_def Let_def split: sum.splits option.splits)
qed

lemma ages_revoke: "ages s (snd (revoke_view v s))"
proof (cases "map_of (views s) v")
  case (Some w)
  let ?s1 = "s\<lparr>views := put v (w\<lparr>v_revoked := True\<rparr>) (views s)\<rparr>"
  have "ages s ?s1"
    by (rule ages_views) (auto simp: view_revoked_def)
  from ages_trans [OF this ages_cancel_all, of "handles_of_view v ?s1"] show ?thesis
    using Some by (simp add: revoke_view_def Let_def)
qed (simp add: revoke_view_def)

lemma ages_dispose: "ages s (snd (dispose_view v s))"
  by (auto simp: dispose_view_def Let_def view_revoked_def split: option.splits intro!: ages_views)

lemma apply_op_ages: "ages s (apply_op op s)"
proof (cases op)
  case (Start h)
  have "ages s (upd_entry h (\<lambda>e. e\<lparr>e_phase := Running\<rparr>) s)" by (rule ages_upd_entry) simp
  then show ?thesis by (auto simp: Start start_read_def split: option.splits)
next
  case (UnknownDrain h)
  have "ages s (upd_entry h (\<lambda>e. e\<lparr>e_phase := Quarantined, e_invalid := True\<rparr>) s)"
    by (rule ages_upd_entry) simp
  then show ?thesis by (auto simp: UnknownDrain unknown_drain_def split: option.splits)
next
  case (RetainRef h)
  have "ages s (upd_entry h (\<lambda>e. e\<lparr>e_refs := e_refs e + 1\<rparr>) s)" by (rule ages_upd_entry) simp
  then show ?thesis by (auto simp: RetainRef retain_def split: option.splits)
qed (simp_all add: ages_confirm ages_cancel ages_revoke ages_dispose ages_release
    ages_reserve_delivery ages_release_delivery ages_bind ages_reserve)

text \<open>A reservation is dead once it is gone, invalidated, or its view revoked.\<close>

definition dead :: "nat \<Rightarrow> budget \<Rightarrow> bool" where
  "dead h s \<longleftrightarrow> h < next_handle s
     \<and> (\<forall>e. map_of (entries s) h = Some e \<longrightarrow> e_invalid e \<or> view_revoked s (e_view e))"

lemma dead_not_deliverable: "dead h s \<Longrightarrow> \<not> is_deliverable h s"
  by (auto simp: dead_def is_deliverable_def split: option.splits)

lemma dead_ages:
  assumes "dead h s" and "budget_inv s" and "ages s s'"
  shows "dead h s'"
proof -
  have "e_view e < next_handle s" if "map_of (entries s) h = Some e" for e
    using entry_view_key [OF inv_parts(1) [OF assms(2)] that] inv_parts(6) [OF assms(2)]
    by (auto simp: handles_ok_def)
  with assms(1,3) show ?thesis
    unfolding dead_def ages_def by (metis less_le_trans)
qed

interpretation budget_machine: aging_machine apply_op budget_inv ages dead
proof unfold_locales
  fix s op
  show "budget_inv s \<Longrightarrow> budget_inv (apply_op op s)"
    by (cases op) (simp_all add: inv_bind inv_reserve inv_start inv_confirm inv_unknown_drain inv_cancel
        inv_revoke inv_dispose inv_retain inv_release inv_reserve_delivery inv_release_delivery)
qed (auto intro: apply_op_ages ages_trans dead_ages)

section \<open>Properties\<close>

text \<open>The limits a budget was built with stay, and each is what its options ask for.\<close>

lemma limits_subtract [simp]: "limits (subtract h n s) = limits s"
  by (simp add: subtract_def upd_view_def upd_entry_def split: option.split)

lemma limits_upd [simp]: "limits (upd_entry h f s) = limits s" "limits (upd_view h g s) = limits s"
  by (simp_all add: upd_view_def upd_entry_def split: option.split)

lemma limits_remove [simp]: "limits (snd (remove_entry h s)) = limits s"
  by (simp add: remove_entry_def Let_def split: option.split)

lemma limits_cancel [simp]: "limits (snd (cancel h s)) = limits s"
  by (simp add: cancel_def Let_def split: option.split)

lemma limits_cancel_all [simp]: "limits (snd (cancel_all hs s)) = limits s"
proof (induction hs arbitrary: s)
  case (Cons h hs)
  have "limits (snd (cancel h s)) = limits s" by simp
  with Cons.IH show ?case by (cases "cancel h s") (auto split: sum.split)
qed simp

lemma limits_apply [simp]: "limits (apply_op p s) = limits s"
  by (cases p) (simp_all add: bind_view_def reserve_def start_read_def confirm_stopped_def unknown_drain_def
      revoke_view_def dispose_view_def retain_def release_def reserve_delivery_def release_delivery_def Let_def
      split: option.split sum.split prod.split)

lemma limits_run [simp]: "limits (run apply_op ops s) = limits s"
  by (induction ops arbitrary: s) simp_all

definition asked_limit :: "jsobj \<Rightarrow> string \<times> nat \<Rightarrow> nat \<Rightarrow> bool" where
  "asked_limit fs = (\<lambda>(key, most) n. 0 < n \<and> n \<le> most
     \<and> (case map_of fs key of None \<Rightarrow> n = most | Some v \<Rightarrow> v = jint (int n)))"

lemma narrowed_asked: "narrowed fs key most = Inr n \<Longrightarrow> asked_limit fs (key, most) n"
  using safe_integer_is_jint
  by (auto simp: narrowed_def natural_def nat_of_val_def asked_limit_def Let_def split: option.splits if_splits)

lemma new_budget_limits:
  assumes "new_budget options = Inr s"
  shows "\<exists>fs. as_object options = Some fs
    \<and> list_all2 (asked_limit fs) (zip limit_keys (limit_values read_budget_limits)) (limit_values (limits s))"
  using assms
  by (auto simp: new_budget_def and_then_Ok_iff data_fields_def limit_keys_def limit_values_def read_budget_limits_def
      Let_def split: option.splits if_splits dest!: narrowed_asked)

text \<open>
  C17. Whatever sequence of operations the reader runs on a budget the constructor built: each limit is the
  one its options ask for, a positive number no greater than the device's, or the device's own when they are
  silent; the byte total is the sum over the live reservations and stays within the device limit; every
  view's total and entry count are those of its own reservations and stay within its limits; at most one
  reservation is not yet a retained result, and exactly that one holds the capture slot; a result has no more
  references than its limit; and the views, the conversations and the views of each conversation, counted
  exactly, stay within their limits.
\<close>

theorem budget_conserved_and_bounded:
  assumes "new_budget options = Inr s0" and "s = run apply_op ops s0"
  shows "(\<exists>fs. as_object options = Some fs
      \<and> list_all2 (asked_limit fs) (zip limit_keys [33554432, 16777216, 8, 4, 2, 2, 32]) (limit_values (limits s)))
    \<and> bytes_used s = sum_vals e_bytes (entries s)
    \<and> bytes_used s \<le> device_bytes (limits s) \<and> device_bytes (limits s) \<le> 33554432
    \<and> view_bytes (limits s) \<le> device_bytes (limits s)
    \<and> (\<forall>h v. map_of (views s) h = Some v \<longrightarrow>
         v_bytes v = sum_vals (share h) (entries s) \<and> v_bytes v \<le> view_bytes (limits s)
         \<and> v_entries v = sum_vals (member h) (entries s) \<and> v_entries v \<le> max_entries_per_view (limits s))
    \<and> (\<forall>h e. map_of (entries s) h = Some e \<longrightarrow> (e_phase e \<noteq> Retained \<longleftrightarrow> capture s = Some h))
    \<and> (\<forall>h e. map_of (entries s) h = Some e \<longrightarrow> e_refs e \<le> max_references (limits s))
    \<and> length (views s) \<le> max_views (limits s) \<and> length (convs s) \<le> max_conversations (limits s)
    \<and> length (views s) \<le> 8 \<and> length (convs s) \<le> 4
    \<and> (\<forall>c. conv_count s c = sum_vals (of_conv c) (views s))
    \<and> (\<forall>c. sum_vals (of_conv c) (views s) \<le> max_views_per_conversation (limits s))"
proof -
  have inv: "budget_inv s"
    unfolding assms(2) by (rule budget_machine.run_inv [OF inv_new [OF assms(1)]])
  note parts = inv_parts [OF inv]
  have "limits_narrowed (limits s)" using inv by (simp add: budget_inv_def)
  then have tops: "device_bytes (limits s) \<le> 33554432" "view_bytes (limits s) \<le> device_bytes (limits s)" "max_views (limits s) \<le> 8" "max_conversations (limits s) \<le> 4"
    by (simp_all add: limits_narrowed_def limit_values_def read_budget_limits_def)
  have asked: "\<exists>fs. as_object options = Some fs
      \<and> list_all2 (asked_limit fs) (zip limit_keys [33554432, 16777216, 8, 4, 2, 2, 32]) (limit_values (limits s))"
    using new_budget_limits [OF assms(1)] unfolding assms(2) limits_run
    by (simp add: read_budget_limits_def limit_values_def)
  have counts: "conv_count s c = sum_vals (of_conv c) (views s)" for c
    using parts(3) by (simp add: conversations_ok_def)
  have "sum_vals (of_conv c) (views s) \<le> max_views_per_conversation (limits s)" for c
    using conv_count_le [OF parts(3), of c] by (simp add: counts)
  with asked tops counts parts(1-4) show ?thesis
    unfolding accounted_def within_limits_def conversations_ok_def phases_ok_def
    by (intro conjI) (blast | linarith)+
qed

definition example_cost :: jsval where
  "example_cost = JObj [(''scratchBytes'', jint 100), (''retainedBytes'', jint 50)]"

definition example_budget :: budget where
  "example_budget = \<lparr>limits = read_budget_limits, views = [], convs = [], entries = [], capture = None,
     deliveries = [], released = [], bytes_used = 0, next_handle = 0\<rparr>"

definition example_ops :: "budget_op list" where
  "example_ops = [Bind (Some 7), Reserve 0 example_cost, Start 1, Confirm 1 (JBool True)]"

lemma example_budget_new: "new_budget (JObj []) = Inr example_budget"
  by (simp add: new_budget_def data_fields_def as_object_def limit_keys_def limit_values_def
      read_budget_limits_def narrowed_def natural_def nat_of_val_def max_safe_def example_budget_def)

lemmas budget_op_defs = bind_view_def conv_count_def reserve_def data_fields_def as_object_def
  natural_def nat_of_val_def max_safe_def getp_def start_read_def upd_entry_def upd_view_def
  confirm_stopped_def subtract_def view_revoked_def is_bool_def read_budget_limits_def

lemma example_budget_run:
  "run apply_op example_ops example_budget =
     \<lparr>limits = read_budget_limits, views = [(0, \<lparr>v_conv = 7, v_bytes = 50, v_entries = 1, v_revoked = False\<rparr>)],
      convs = [(7, 1)],
      entries = [(1, \<lparr>e_view = 0, e_scratch = 100, e_retained = 50, e_phase = Retained, e_bytes = 50,
        e_refs = 1, e_invalid = False, e_delivery = None\<rparr>)],
      capture = None, deliveries = [], released = [], bytes_used = 50, next_handle = 2\<rparr>"
  by (simp add: example_ops_def example_budget_def example_cost_def budget_op_defs Let_def)

lemma budget_conserved_and_bounded_witness:
  "bytes_used (run apply_op example_ops example_budget) = 50
   \<and> bytes_used (run apply_op example_ops example_budget)
       = sum_vals e_bytes (entries (run apply_op example_ops example_budget))"
  using budget_conserved_and_bounded [OF example_budget_new refl, of example_ops]
  by (simp add: example_budget_run)

text \<open>
  Invalidation is final: once a reservation is cancelled, its view revoked, or it is gone, no
  sequence of operations whatever (new reservations included) makes its handle deliverable again, so
  no late confirmation can publish a cancelled read.
\<close>

theorem cancelled_read_never_delivered:
  assumes "budget_inv s"
  shows "(fst (cancel h s) = Inr changed \<longrightarrow> \<not> is_deliverable h (run apply_op ops (snd (cancel h s))))
    \<and> (fst (revoke_view v s) = Inr () \<longrightarrow> h \<in> set (handles_of_view v s) \<longrightarrow>
         \<not> is_deliverable h (run apply_op ops (snd (revoke_view v s))))"
proof -
  have key: "h < next_handle s" if "h \<in> keys (entries s)"
    using that inv_parts(6) [OF assms(1)] by (auto simp: handles_ok_def)
  have "dead h (snd (cancel h s))" if "fst (cancel h s) = Inr changed"
  proof -
    from that obtain e where e: "map_of (entries s) h = Some e"
      by (auto simp: cancel_def split: option.splits)
    let ?s1 = "upd_entry h (\<lambda>e. e\<lparr>e_invalid := True\<rparr>) s"
    have "dead h ?s1"
      using e key [OF map_of_Some_key [OF e]] by (auto simp: dead_def upd_entry_def)
    moreover have "budget_inv s" by (rule assms(1))
    moreover have "next_handle ?s1 = next_handle s" "entries ?s1 = put h (e\<lparr>e_invalid := True\<rparr>) (entries s)"
      "views ?s1 = views s" using e by (simp_all add: upd_entry_def)
    moreover have "ages ?s1 (snd (cancel h s))"
    proof -
      have "ages ?s1 (upd_entry h (\<lambda>e. e\<lparr>e_phase := CancelPending\<rparr>) ?s1)"
        by (rule ages_upd_entry) simp
      then show ?thesis using e ages_remove [of ?s1 h] by (simp add: cancel_def Let_def)
    qed
    ultimately show ?thesis
      using ages_entry [of ?s1 "snd (cancel h s)" h] unfolding dead_def
      by (fastforce simp: ages_def)
  qed
  moreover have "dead h (snd (revoke_view v s))"
    if rv: "fst (revoke_view v s) = Inr ()" and hv: "h \<in> set (handles_of_view v s)"
  proof -
    obtain w where w: "map_of (views s) v = Some w"
      using rv by (cases "map_of (views s) v") (simp_all add: revoke_view_def)
    let ?s1 = "s\<lparr>views := put v (w\<lparr>v_revoked := True\<rparr>) (views s)\<rparr>"
    have inv1: "budget_inv ?s1" by (rule inv_mark_revoked [OF assms(1) w])
    obtain e where e: "map_of (entries s) h = Some e" "e_view e = v"
      using hv inv_parts(1) [OF assms(1)] map_of_mem_iff [of "entries s"]
      by (auto simp: handles_of_view_def accounted_def)
    then have "dead h ?s1"
      using key [OF map_of_Some_key [OF e(1)]] by (auto simp: dead_def view_revoked_def)
    then have "dead h (snd (cancel_all (handles_of_view v ?s1) ?s1))"
      by (rule dead_ages [OF _ inv1 ages_cancel_all])
    then show ?thesis using w by (simp add: revoke_view_def Let_def)
  qed
  ultimately show ?thesis
    using dead_not_deliverable budget_machine.run_over inv_cancel [OF assms(1)] inv_revoke [OF assms(1)]
    by blast
qed

lemma cancelled_read_never_delivered_witness:
  "\<not> is_deliverable 1 (run apply_op example_ops (snd (cancel 1 (run apply_op example_ops example_budget))))"
proof -
  have "budget_inv (run apply_op example_ops example_budget)"
    by (rule budget_machine.run_inv [OF inv_new [OF example_budget_new]])
  moreover have "fst (cancel 1 (run apply_op example_ops example_budget)) = Inr True"
    by (simp add: example_budget_run cancel_def Let_def)
  ultimately show ?thesis using cancelled_read_never_delivered by blast
qed

text \<open>
  Delivery storage is charged before it is allocated and given back exactly once: after a
  successful reservation, releasing the handle succeeds, restores the byte total, and releasing it
  again changes nothing and answers \<open>false\<close>.
\<close>

theorem delivery_storage_roundtrip:
  assumes "budget_inv s" and "reserve_delivery h amount s = (Inr d, s1)"
  shows "bytes_used s1 = bytes_used s + nat_of_val amount
    \<and> (\<exists>s2. release_delivery d s1 = (Inr True, s2) \<and> bytes_used s2 = bytes_used s
         \<and> entries s2 = entries s \<and> release_delivery d s2 = (Inr False, s2))"
proof -
  note parts = inv_parts [OF assms(1)]
  obtain e where Some: "map_of (entries s) h = Some e" and del: "is_deliverable h s"
    and none: "e_delivery e = None"
    using assms(2) by (auto simp: reserve_delivery_def Let_def split: option.splits if_splits)
  obtain v where v: "map_of (views s) (e_view e) = Some v" using entry_view [OF parts(1) Some] by blast
  define n where "n = nat_of_val amount"
  have phase: "e_phase e = Retained" "e_refs e > 0" using del Some by (auto simp: is_deliverable_def)
  have fresh: "d \<notin> keys (deliveries s)" "d = next_handle s"
    using assms(2) parts(6) Some del none
    by (auto simp: reserve_delivery_def Let_def handles_ok_def split: if_splits)
  have s1: "s1 = s\<lparr>entries := put h (e\<lparr>e_delivery := Some d, e_bytes := e_bytes e + n\<rparr>) (entries s),
      views := put (e_view e) (v\<lparr>v_bytes := v_bytes v + n\<rparr>) (views s),
      deliveries := put d (h, n) (deliveries s), bytes_used := bytes_used s + n, next_handle := d + 1\<rparr>"
    using assms(2) Some del none v fresh
    by (auto simp: reserve_delivery_def Let_def n_def upd_entry_def upd_view_def split: if_splits)
  let ?s2 = "s1\<lparr>entries := entries s, views := views s, deliveries := deliveries s,
      released := d # released s, bytes_used := bytes_used s\<rparr>"
  have "release_delivery d s1 = (Inr True, ?s2)"
    using Some v none phase fresh
    by (simp add: release_delivery_def s1 Let_def subtract_def upd_entry_def upd_view_def del_absent put_same)
  moreover have "release_delivery d ?s2 = (Inr False, ?s2)"
  proof -
    have "map_of (deliveries s) d = None" using fresh(1) by (simp add: map_of_None_iff)
    then show ?thesis by (simp add: release_delivery_def)
  qed
  ultimately show ?thesis by (auto simp: s1 n_def)
qed

lemma delivery_storage_roundtrip_witness:
  "\<exists>d s1. reserve_delivery 1 (jint 10) (run apply_op example_ops example_budget) = (Inr d, s1)
     \<and> bytes_used s1 = 60 \<and> fst (release_delivery d s1) = Inr True"
proof -
  have inv: "budget_inv (run apply_op example_ops example_budget)"
    by (rule budget_machine.run_inv [OF inv_new [OF example_budget_new]])
  have "fst (reserve_delivery 1 (jint 10) (run apply_op example_ops example_budget)) = Inr 2"
    by (simp add: example_budget_run reserve_delivery_def Let_def is_deliverable_def budget_op_defs
        view_used_def read_delivery_scratch_limit_def)
  then obtain s1 where s1: "reserve_delivery 1 (jint 10) (run apply_op example_ops example_budget) = (Inr 2, s1)"
    by (cases "reserve_delivery 1 (jint 10) (run apply_op example_ops example_budget)") auto
  with delivery_storage_roundtrip [OF inv s1] show ?thesis
    by (auto simp: example_budget_run nat_of_val_def)
qed

end
