(* ===== verification/CodexFilter.thy ===== *)
theory CodexFilter
  imports OrbitPrelude
begin

text \<open>
  \<open>src/codex-authority-gate.ts\<close>, the pure part: which requests of the desktop client may reach the
  owner process and in which form, and which parts of the owner's answers and notifications may
  reach the client.

  JSON data are values of the language; \<open>sz\<close> is the number of bytes of \<open>JSON.stringify\<close> of a value,
  a parameter of the definitions that bound it. Regular expressions with the \<open>u\<close> flag are stated over
  code units below 256.
\<close>

section \<open>Constants and small validators\<close>

definition max_message :: nat where "max_message = 8388608"
definition max_page_response :: nat where "max_page_response = 4194304"
definition max_thread_metadata_response :: nat where "max_thread_metadata_response = 65536"
definition max_thread_section_response :: nat where "max_thread_section_response = 65536"
definition max_fixture_turn_text_bytes :: nat where "max_fixture_turn_text_bytes = 8192"
definition max_fixture_notification_bytes :: nat where "max_fixture_notification_bytes = 65536"

definition sidebar_keys :: "string list" where
  "sidebar_keys = [''local-projects'', ''project-order'', ''project-appearances'', ''pinned-thread-ids'',
     ''pinned-project-ids'', ''sidebar-project-thread-orders'', ''sidebar-thread-metadata'',
     ''thread-project-assignments'', ''projectless-thread-ids'']"

definition read_methods :: "string list" where
  "read_methods = [''initialize'', ''account/read'', ''getAuthStatus'', ''configRequirements/read'', ''thread/list'']"

definition thread_list_fields :: "string list" where
  "thread_list_fields = [''limit'', ''cursor'', ''sortKey'', ''sortDirection'', ''modelProviders'',
     ''sourceKinds'', ''archived'', ''originators'', ''parentThreadId'', ''ancestorThreadId'', ''sectionId'',
     ''useStateDbOnly'']"

definition page_turn_keys :: "string list" where
  "page_turn_keys = [''threadId'', ''readOnly'', ''cursor'', ''limit'', ''sortDirection'', ''itemsView'']"

definition page_item_keys :: "string list" where
  "page_item_keys = [''threadId'', ''readOnly'', ''turnId'', ''cursor'', ''limit'', ''sortDirection'']"

text \<open>What \<open>JSON.parse(JSON.stringify(v))\<close> makes of a value; \<open>None\<close> for one without a JSON text.\<close>

fun json_data :: "jsval \<Rightarrow> jsval option" where
  "json_data (JNum n) = (case n of Fin r \<Rightarrow> Some (JNum n) | _ \<Rightarrow> Some Null)"
| "json_data (JArr vs) = Some (JArr (map (\<lambda>v. case json_data v of None \<Rightarrow> Null | Some w \<Rightarrow> w) vs))"
| "json_data (JObj fs) = 
     Some (JObj (concat (map (\<lambda>(k, v). case json_data v of None \<Rightarrow> [] | Some w \<Rightarrow> [(k, w)]) fs)))"
| "json_data (JRef i) = Some (JObj [])"
| "json_data (JBool b) = Some (JBool b)"
| "json_data (JStr s) = Some (JStr s)"
| "json_data Null = Some Null"
| "json_data Undef = None"
| "json_data (JFun i) = None"

definition is_uuid :: "string \<Rightarrow> bool" where
  "is_uuid s \<longleftrightarrow>
     map length (split_on CHR ''-'' s) = [8, 4, 4, 4, 12]
     \<and> list_all (list_all is_hex) (split_on CHR ''-'' s)"

definition uuid_value :: "jsval \<Rightarrow> bool" where
  "uuid_value v \<longleftrightarrow> is_string v \<and> is_uuid (str_of v)"

definition printable :: "nat \<Rightarrow> string \<Rightarrow> bool" where
  "printable lo s \<longleftrightarrow> class_string is_printable_ascii lo 4096 s"

definition request_id :: "jsval \<Rightarrow> string option" where
  "request_id v =
     (case v of
        JStr s \<Rightarrow> if length s \<le> 128 then Some (''s:'' @ s) else None
      | _ \<Rightarrow> if is_safe_integer v then Some (''n:'' @ show_int (int_of_val v)) else None)"

definition bounded_metadata_text :: "jsval \<Rightarrow> nat \<Rightarrow> bool" where
  "bounded_metadata_text v n \<longleftrightarrow>
     is_string v \<and> utf8_bytes (str_of v) \<le> n \<and> char_of (0::nat) \<notin> set (str_of v)"

definition nullable_metadata_text :: "jsval \<Rightarrow> nat \<Rightarrow> bool" where
  "nullable_metadata_text v n \<longleftrightarrow> v = Null \<or> bounded_metadata_text v n"

definition metadata_timestamp :: "jsval \<Rightarrow> bool" where
  "metadata_timestamp v \<longleftrightarrow> is_safe_integer v \<and> int_of_val v \<ge> 0"

definition limit_within :: "jsval \<Rightarrow> int \<Rightarrow> bool" where
  "limit_within v top_limit \<longleftrightarrow> is_safe_integer v \<and> 1 \<le> int_of_val v \<and> int_of_val v \<le> top_limit"

section \<open>Credential fields\<close>

text \<open>
  The regular expression of the names that may carry a secret, as words with an optional \<open>_\<close> or \<open>-\<close>
  between their two halves; case does not matter.
\<close>

definition secret_words :: "string list" where
  "secret_words = [''token'', ''authorization'', ''password'', ''secret'', ''cookie'', ''credential'', ''credentials'']"

definition secret_pairs :: "(string \<times> string) list" where
  "secret_pairs = [(''auth'', ''token''), (''access'', ''token''), (''refresh'', ''token''), (''id'', ''token''),
     (''bearer'', ''token''), (''api'', ''key''), (''client'', ''secret''), (''private'', ''key''),
     (''session'', ''key''), (''session'', ''token'')]"

definition credential_name :: "string \<Rightarrow> bool" where
  "credential_name k \<longleftrightarrow>
     (let l = map lower_char k in
      l \<in> set secret_words
      \<or> list_ex (\<lambda>(a, b). l = a @ b \<or> l = a @ ''_'' @ b \<or> l = a @ ''-'' @ b) secret_pairs)"

function contains_credential :: "jsval \<Rightarrow> nat \<Rightarrow> bool" where
  "contains_credential v depth =
     (if depth > 32 then True
      else case v of
        JArr vs \<Rightarrow> list_ex (\<lambda>w. contains_credential w (depth + 1)) vs
      | JObj fs \<Rightarrow> list_ex (\<lambda>(k, w). credential_name k \<or> contains_credential w (depth + 1)) fs
      | _ \<Rightarrow> False)"
  by pat_completeness auto
termination by (relation "measure (\<lambda>(v, depth). 33 - depth)") auto

declare contains_credential.simps [simp del]

section \<open>Requests of the client\<close>

definition optional_field :: "jsobj \<Rightarrow> string \<Rightarrow> jsobj" where
  "optional_field fs k = (if has_own fs k then [(k, getp fs k)] else [])"

definition absent_or :: "jsobj \<Rightarrow> string \<Rightarrow> (jsval \<Rightarrow> bool) \<Rightarrow> bool" where
  "absent_or fs k P \<longleftrightarrow> \<not> has_own fs k \<or> P (getp fs k)"

definition rpc_shape :: "jsobj \<Rightarrow> bool" where
  "rpc_shape message \<longleftrightarrow> request_id (getp message ''id'') \<noteq> None \<and> only_keys [''id'', ''method'', ''params''] message"

definition safe_paginated_page_request :: "jsobj \<Rightarrow> (string \<times> jsobj) option" where
  "safe_paginated_page_request message =
     (let meth = getp message ''method'' in
      if meth \<noteq> JStr ''thread/turns/list'' \<and> meth \<noteq> JStr ''thread/items/list'' then None
      else if \<not> rpc_shape message then None
      else case as_object (getp message ''params'') of
        None \<Rightarrow> None
      | Some input \<Rightarrow>
          if \<not> only_keys (if meth = JStr ''thread/turns/list'' then page_turn_keys else page_item_keys) input
             \<or> \<not> uuid_value (getp input ''threadId'') \<or> getp input ''readOnly'' \<noteq> JBool True
             \<or> \<not> limit_within (getp input ''limit'') 50 then None
          else if \<not> absent_or input ''cursor'' (\<lambda>c. c = Null \<or> (is_string c \<and> printable 1 (str_of c))) then None
          else if \<not> absent_or input ''sortDirection'' (\<lambda>d. d = JStr ''asc'' \<or> d = JStr ''desc'') then None
          else if \<not> absent_or input ''itemsView'' (\<lambda>d. d = JStr ''summary'' \<or> d = JStr ''full'') then None
          else if \<not> absent_or input ''turnId'' (\<lambda>d. d = Null \<or> uuid_value d) then None
          else Some (str_of meth,
            [(''threadId'', getp input ''threadId''), (''readOnly'', JBool True), (''limit'', getp input ''limit'')]
            @ optional_field input ''cursor'' @ optional_field input ''sortDirection''
            @ optional_field input ''itemsView'' @ optional_field input ''turnId''))"

text \<open>A missing or null field reads as a default.\<close>

definition nullish_or :: "jsval \<Rightarrow> jsval \<Rightarrow> jsval" where
  "nullish_or v d = (if v = Undef \<or> v = Null then d else v)"

definition safe_thread_section_list_request :: "jsobj \<Rightarrow> (jsval \<times> int) option" where
  "safe_thread_section_list_request message =
     (if getp message ''method'' \<noteq> JStr ''threadSection/list'' \<or> \<not> rpc_shape message then None
      else case (if getp message ''params'' = Undef then Some [] else as_object (getp message ''params'')) of
        None \<Rightarrow> None
      | Some input \<Rightarrow>
          if \<not> only_keys [''cursor'', ''limit''] input then None
          else
            (let cursor = nullish_or (getp input ''cursor'') Null;
                 limit = nullish_or (getp input ''limit'') (jint 50)
             in if cursor \<noteq> Null \<and> \<not> (is_string cursor \<and> printable 1 (str_of cursor)) then None
                else if \<not> limit_within limit 100 then None
                else Some (cursor, int_of_val limit)))"

definition safe_fixture_turn_start_request :: "jsobj \<Rightarrow> string option \<Rightarrow> bool \<Rightarrow> jsobj option" where
  "safe_fixture_turn_start_request message thread_id allow_orbit_tool =
     (case thread_id of
        None \<Rightarrow> None
      | Some tid \<Rightarrow>
          if tid = [] \<or> \<not> is_uuid tid \<or> getp message ''method'' \<noteq> JStr ''turn/start'' \<or> \<not> rpc_shape message then None
          else (case as_object (getp message ''params'') of
              None \<Rightarrow> None
            | Some params \<Rightarrow>
                if length params \<noteq> 2 \<or> \<not> has_own params ''threadId'' \<or> \<not> has_own params ''input''
                   \<or> getp params ''threadId'' \<noteq> JStr tid then None
                else (case getp params ''input'' of
                    JArr [item] \<Rightarrow>
                      (case as_object item of
                         None \<Rightarrow> None
                       | Some it \<Rightarrow>
                           if length it \<noteq> 2 \<or> getp it ''type'' \<noteq> JStr ''text'' \<or> \<not> is_string (getp it ''text'')
                              \<or> str_of (getp it ''text'') = []
                              \<or> utf8_bytes (str_of (getp it ''text'')) > max_fixture_turn_text_bytes
                              \<or> char_of (0::nat) \<in> set (str_of (getp it ''text'')) then None
                           else Some
                             [(''id'', getp message ''id''), (''method'', JStr ''turn/start''),
                              (''params'', JObj
                                [(''threadId'', JStr tid),
                                 (''input'', JArr [JObj [(''type'', JStr ''text''), (''text'', getp it ''text'')]]),
                                 (''allowedTools'', JArr (if allow_orbit_tool
                                   then [JObj [(''namespace'', JStr ''mcp__orbit_private''), (''name'', JStr ''orbit_act'')]]
                                   else []))])])
                  | _ \<Rightarrow> None)))"

definition string_list_ok :: "jsval \<Rightarrow> bool" where
  "string_list_ok v =
     (case v of
        JArr vs \<Rightarrow> length vs \<le> 32
          \<and> list_all (\<lambda>w. is_string w \<and> class_string (\<lambda>c. is_word_dash c \<or> c = CHR ''.'') 1 128 (str_of w)) vs
      | _ \<Rightarrow> False)"

definition thread_list_field_ok :: "string \<Rightarrow> jsval \<Rightarrow> bool" where
  "thread_list_field_ok key v \<longleftrightarrow>
     (if key = ''useStateDbOnly'' \<or> key = ''archived'' then is_bool v
      else if key = ''limit'' then limit_within v 200
      else if key = ''cursor'' then v = Null \<or> (is_string v \<and> printable 0 (str_of v))
      else if key = ''sortKey'' \<or> key = ''sortDirection''
      then is_string v \<and> class_string is_word_dash 1 64 (str_of v)
      else if key = ''parentThreadId'' \<or> key = ''ancestorThreadId''
      then v = Null \<or> (is_string v \<and> class_string is_word_dash 1 128 (str_of v))
      else if key = ''sectionId'' then uuid_value v
      else if key = ''modelProviders'' \<or> key = ''sourceKinds'' \<or> key = ''originators''
      then v = Null \<or> string_list_ok v
      else True)"

definition rpc :: "jsval \<Rightarrow> jsval \<Rightarrow> jsobj \<Rightarrow> jsobj" where
  "rpc rid meth params = [(''id'', rid), (''method'', meth), (''params'', JObj params)]"

definition safe_thread_read :: "jsobj \<Rightarrow> bool \<Rightarrow> jsobj option" where
  "safe_thread_read message allow_legacy =
     (case as_object (getp message ''params'') of
        None \<Rightarrow> None
      | Some params \<Rightarrow>
          if length params \<noteq> 3 \<or> \<not> uuid_value (getp params ''threadId'')
             \<or> \<not> is_bool (getp params ''includeTurns'') \<or> getp params ''readOnly'' \<noteq> JBool True
             \<or> (\<not> allow_legacy \<and> getp params ''includeTurns'' \<noteq> JBool False) then None
          else Some (rpc (getp message ''id'') (getp message ''method'')
            [(''threadId'', getp params ''threadId''), (''includeTurns'', getp params ''includeTurns''),
             (''readOnly'', JBool True)]))"

text \<open>An absent \<open>params\<close> reads as an empty object; anything else has to be an object.\<close>

definition params_or_empty :: "jsobj \<Rightarrow> jsobj option" where
  "params_or_empty message =
     (if getp message ''params'' = Undef then Some [] else as_object (getp message ''params''))"

definition safe_thread_list :: "jsobj \<Rightarrow> jsobj option" where
  "safe_thread_list message =
     (case params_or_empty message of
        None \<Rightarrow> None
      | Some input \<Rightarrow>
          if \<not> only_keys thread_list_fields input \<or> \<not> list_all (\<lambda>(k, v). thread_list_field_ok k v) input then None
          else Some (rpc (getp message ''id'') (getp message ''method'')
            ((''useStateDbOnly'', JBool True) # filter (\<lambda>(k, v). k \<noteq> ''useStateDbOnly'') input)))"

definition safe_app_request :: "jsobj \<Rightarrow> bool \<Rightarrow> bool \<Rightarrow> jsobj option" where
  "safe_app_request message allow_legacy allow_metadata =
     (let meth = getp message ''method''; rid = getp message ''id'' in
      if request_id rid = None \<or> \<not> is_string meth
         \<or> (str_of meth \<notin> set read_methods \<and> \<not> ((allow_legacy \<or> allow_metadata) \<and> meth = JStr ''thread/read'')) then None
      else if meth = JStr ''thread/read'' then safe_thread_read message allow_legacy
      else if meth = JStr ''initialize'' then
        (case as_object (getp message ''params'') of
           None \<Rightarrow> None
         | Some params \<Rightarrow>
             if as_object (getp params ''clientInfo'') = None \<or> as_object (getp params ''capabilities'') = None then None
             else Some (rpc rid meth
               [(''clientInfo'', JObj [(''name'', JStr ''orbit_private_readonly''), (''title'', JStr ''Orbit private Codex''), (''version'', JStr ''1'')]),
                (''capabilities'', JObj [(''experimentalApi'', JBool True)])]))
      else if meth = JStr ''getAuthStatus'' then
        Some (rpc rid meth [(''includeToken'', JBool False), (''refreshToken'', JBool False)])
      else if meth = JStr ''account/read'' then Some (rpc rid meth [(''refreshToken'', JBool False)])
      else if meth = JStr ''configRequirements/read'' then
        (case params_or_empty message of Some [] \<Rightarrow> Some (rpc rid meth []) | _ \<Rightarrow> None)
      else safe_thread_list message)"

section \<open>Answers of the owner\<close>

definition fail_reply :: "jsval \<Rightarrow> string \<Rightarrow> jsobj" where
  "fail_reply rid message =
     [(''id'', rid), (''error'', JObj [(''code'', jint (- 32000)), (''message'', JStr message)])]"

definition field_of :: "jsval \<Rightarrow> string \<Rightarrow> jsval" where
  "field_of v k = (case as_object v of None \<Rightarrow> Undef | Some fs \<Rightarrow> getp fs k)"

text \<open>A cursor of an answer: absent, null or printable text.\<close>

definition cursor_ok :: "jsval \<Rightarrow> bool" where
  "cursor_ok c \<longleftrightarrow> c = Undef \<or> c = Null \<or> (is_string c \<and> printable 1 (str_of c))"

definition safe_section :: "jsval \<Rightarrow> jsval option" where
  "safe_section item =
     (case as_object item of
        None \<Rightarrow> None
      | Some section \<Rightarrow>
          if \<not> uuid_value (getp section ''id'') \<or> \<not> bounded_metadata_text (getp section ''name'') 512
             \<or> js_trim (str_of (getp section ''name'')) = [] then None
          else
            (let a = getp section ''appearance'';
                 appearance = (if a = Undef \<or> a = Null then None else as_object a);
                 icon = (case appearance of None \<Rightarrow> Null | Some o' \<Rightarrow> (if getp o' ''icon'' = Undef then Null else getp o' ''icon''));
                 color = (case appearance of None \<Rightarrow> Null | Some o' \<Rightarrow> (if getp o' ''color'' = Undef then Null else getp o' ''color''))
             in if a \<noteq> Undef \<and> a \<noteq> Null \<and> appearance = None then None
                else if \<not> nullable_metadata_text icon 64 \<or> \<not> nullable_metadata_text color 64 then None
                else Some (JObj [(''id'', getp section ''id''), (''name'', getp section ''name''),
                  (''appearance'', if appearance \<noteq> None then JObj [(''icon'', icon), (''color'', color)] else Null)])))"

text \<open>All items, or nothing when one of them is refused.\<close>

fun all_or_none :: "('a \<Rightarrow> 'b option) \<Rightarrow> 'a list \<Rightarrow> 'b list option" where
  "all_or_none f [] = Some []"
| "all_or_none f (x # xs) =
     (case f x of None \<Rightarrow> None | Some y \<Rightarrow> map_option (\<lambda>ys. y # ys) (all_or_none f xs))"

definition safe_thread_section_list_response ::
  "(jsval \<Rightarrow> nat) \<Rightarrow> jsval \<Rightarrow> jsval \<Rightarrow> int \<Rightarrow> nat \<Rightarrow> jsobj option" where
  "safe_thread_section_list_response sz rid result limit max_bytes =
     (case json_data result of
        None \<Rightarrow> None
      | Some parsed \<Rightarrow>
          if sz parsed > min max_bytes max_thread_section_response then None
          else (case as_object parsed of
              None \<Rightarrow> None
            | Some value \<Rightarrow>
                (case getp value ''data'' of
                   JArr items \<Rightarrow>
                     if int (length items) > limit \<or> contains_credential (JObj value) 0
                        \<or> \<not> cursor_ok (getp value ''nextCursor'') then None
                     else (case all_or_none safe_section items of
                         None \<Rightarrow> None
                       | Some data \<Rightarrow>
                           (let response = [(''id'', rid), (''result'', JObj
                              [(''data'', JArr data), (''nextCursor'', nullish_or (getp value ''nextCursor'') Null)])]
                            in if sz (JObj response) \<le> min max_bytes max_thread_section_response
                               then Some response else None))
                 | _ \<Rightarrow> None)))"

definition turn_states :: "string list" where
  "turn_states = [''inProgress'', ''completed'', ''interrupted'', ''failed'']"

definition safe_fixture_turn_start_response :: "jsobj \<Rightarrow> jsobj" where
  "safe_fixture_turn_start_response message =
     (let rid = getp message ''id''; turn = field_of (getp message ''result'') ''turn'' in
      if getp message ''error'' \<noteq> Undef then fail_reply rid ''Codex fixture turn failed''
      else if \<not> uuid_value (field_of turn ''id'')
        \<or> field_of turn ''status'' \<notin> JStr ` set turn_states
      then fail_reply rid ''Codex fixture turn unavailable''
      else [(''id'', rid), (''result'', JObj [(''turn'', JObj
        [(''id'', field_of turn ''id''), (''status'', field_of turn ''status''), (''items'', JArr []), (''error'', Null)])])])"

definition fixture_agent_message :: "jsval \<Rightarrow> jsval option" where
  "fixture_agent_message value =
     (case as_object value of
        None \<Rightarrow> None
      | Some item \<Rightarrow>
          if getp item ''type'' \<noteq> JStr ''agentMessage'' \<or> \<not> is_string (getp item ''id'')
             \<or> length (str_of (getp item ''id'')) < 1 \<or> length (str_of (getp item ''id'')) > 128
             \<or> \<not> is_string (getp item ''text'') \<or> utf8_bytes (str_of (getp item ''text'')) > 32768 then None
          else Some (JObj [(''type'', JStr ''agentMessage''), (''id'', getp item ''id''), (''text'', getp item ''text'')]))"

text \<open>
  \<open>String(turn.status)\<close> is one of the four words, and the stored status is the value itself; the
  conversion throws (\<open>Err ()\<close>) for an object with a property \<open>toString\<close>.
\<close>

definition fixture_turn :: "jsval \<Rightarrow> string \<Rightarrow> (unit, jsobj option) result" where
  "fixture_turn value expected =
     (case as_object value of
        None \<Rightarrow> Ok None
      | Some turn \<Rightarrow>
          if getp turn ''id'' \<noteq> JStr expected then Ok None
          else (case js_text (getp turn ''status'') of
              None \<Rightarrow> Err ()
            | Some st \<Rightarrow>
                (case getp turn ''items'' of
                   JArr items \<Rightarrow>
                     if st \<notin> set turn_states \<or> length items > 16 then Ok None
                     else Ok (Some [(''id'', JStr expected), (''status'', getp turn ''status''),
                       (''items'', JArr (List.map_filter fixture_agent_message items)), (''error'', Null)])
                 | _ \<Rightarrow> Ok None)))"

definition timestamp_field :: "jsobj \<Rightarrow> string \<Rightarrow> jsobj" where
  "timestamp_field params k = (if is_safe_integer (getp params k) then [(k, getp params k)] else [])"

definition fixture_params :: "jsobj \<Rightarrow> string \<Rightarrow> string \<Rightarrow> jsobj \<Rightarrow> (unit, jsobj option) result" where
  "fixture_params message thread_id turn_id params =
     (let meth = getp message ''method''; tid = (''threadId'', JStr thread_id); uid = (''turnId'', JStr turn_id) in
      if meth = JStr ''turn/started'' \<or> meth = JStr ''turn/completed'' then
        and_then (fixture_turn (getp params ''turn'') turn_id)
          (\<lambda>t. Ok (map_option (\<lambda>t. [tid, (''turn'', JObj t)]) t))
      else if meth = JStr ''item/started'' \<or> meth = JStr ''item/completed'' then
        Ok (if getp params ''turnId'' \<noteq> JStr turn_id then None
         else map_option (\<lambda>item. [tid, uid, (''item'', item)]
           @ (if meth = JStr ''item/started'' then timestamp_field params ''startedAtMs'' else [])
           @ (if meth = JStr ''item/completed'' then timestamp_field params ''completedAtMs'' else []))
           (fixture_agent_message (getp params ''item'')))
      else if meth = JStr ''item/agentMessage/delta'' then
        Ok (if getp params ''turnId'' \<noteq> JStr turn_id \<or> \<not> is_string (getp params ''itemId'')
            \<or> length (str_of (getp params ''itemId'')) < 1 \<or> length (str_of (getp params ''itemId'')) > 128
            \<or> \<not> is_string (getp params ''delta'') \<or> utf8_bytes (str_of (getp params ''delta'')) > 8192 then None
         else Some [tid, uid, (''itemId'', getp params ''itemId''), (''delta'', getp params ''delta'')])
      else Ok None)"

definition fixture_notification ::
  "(jsval \<Rightarrow> nat) \<Rightarrow> jsobj \<Rightarrow> string \<Rightarrow> string \<Rightarrow> (unit, jsobj option) result" where
  "fixture_notification sz message thread_id turn_id =
     (if getp message ''id'' \<noteq> Undef \<or> \<not> is_string (getp message ''method'')
         \<or> contains_credential (getp message ''params'') 0 then Ok None
      else case as_object (getp message ''params'') of
        None \<Rightarrow> Ok None
      | Some params \<Rightarrow>
          if getp params ''threadId'' \<noteq> JStr thread_id then Ok None
          else and_then (fixture_params message thread_id turn_id params) (\<lambda>p.
            (case p of
               None \<Rightarrow> Ok None
             | Some projected \<Rightarrow>
                (let output = [(''method'', getp message ''method''), (''params'', JObj projected)]
                 in Ok (if sz (JObj output) \<le> max_fixture_notification_bytes then Some output else None)))))"

definition safe_paginated_page_response ::
  "(jsval \<Rightarrow> nat) \<Rightarrow> jsval \<Rightarrow> jsval \<Rightarrow> int \<Rightarrow> nat \<Rightarrow> jsobj option" where
  "safe_paginated_page_response sz rid result limit max_bytes =
     (case json_data result of
        None \<Rightarrow> None
      | Some parsed \<Rightarrow>
          if sz parsed > min max_bytes max_page_response then None
          else (case as_object parsed of
              None \<Rightarrow> None
            | Some value \<Rightarrow>
                (case getp value ''data'' of
                   JArr items \<Rightarrow>
                     if \<not> only_keys [''data'', ''nextCursor'', ''backwardsCursor''] value
                        \<or> int (length items) > limit \<or> \<not> list_all is_object items
                        \<or> \<not> cursor_ok (getp value ''nextCursor'') \<or> \<not> cursor_ok (getp value ''backwardsCursor'') then None
                     else
                       (let response = [(''id'', rid), (''result'', JObj value)]
                        in if sz (JObj response) > min max_bytes max_page_response
                              \<or> contains_credential (JObj value) 0 then None else Some response)
                 | _ \<Rightarrow> None)))"

definition sanitized_auth_status :: "jsval \<Rightarrow> jsobj" where
  "sanitized_auth_status result =
     (let m = field_of result ''authMethod''
      in [(''authMethod'', if is_string m \<and> length (str_of m) \<le> 64 then m else Null)])"

definition short_string_or_null :: "jsval \<Rightarrow> nat \<Rightarrow> jsval" where
  "short_string_or_null v n = (if is_string v \<and> length (str_of v) \<le> n then v else Null)"

definition sanitized_account :: "jsval \<Rightarrow> jsobj" where
  "sanitized_account result =
     (let account = field_of result ''account''; type' = field_of account ''type'';
          routing = (if type' = JStr ''chatgpt'' then field_of result ''workspaceRouting'' else Null);
          account_id = field_of routing ''chatgptAccountId''
      in [(''account'',
            if type' = JStr ''chatgpt'' then JObj [(''type'', type'),
              (''email'', short_string_or_null (field_of account ''email'') 320),
              (''planType'', short_string_or_null (field_of account ''planType'') 64)]
            else if type' = JStr ''apiKey'' \<or> type' = JStr ''amazonBedrock'' then JObj [(''type'', type')] else Null),
          (''requiresOpenaiAuth'', JBool (field_of result ''requiresOpenaiAuth'' \<noteq> JBool False)),
          (''workspaceRouting'',
            if is_string account_id \<and> class_string is_word_dash 1 128 (str_of account_id)
            then JObj [(''chatgptAccountId'', account_id)] else Null)])"

definition requirements_reply :: "jsval list \<Rightarrow> jsobj" where
  "requirements_reply methods =
     [(''requirements'', JObj [(''allowedLoginMethods'', JArr methods), (''application'', Null)])]"

definition sanitized_config_requirements :: "jsval \<Rightarrow> jsobj option" where
  "sanitized_config_requirements result =
     (case as_object result of
        None \<Rightarrow> None
      | Some value \<Rightarrow>
          if length value \<noteq> 1 \<or> \<not> has_own value ''requirements'' then None
          else if getp value ''requirements'' = Null
          then Some (requirements_reply [JStr ''api'', JStr ''chatgpt''])
          else (case as_object (getp value ''requirements'') of
              None \<Rightarrow> None
            | Some req \<Rightarrow>
                (case getp req ''allowedLoginMethods'' of
                   JArr ms \<Rightarrow>
                     if getp req ''application'' \<noteq> Null \<or> length ms > 2
                        \<or> \<not> list_all (\<lambda>(k, v). k = ''allowedLoginMethods'' \<or> k = ''application'' \<or> v = Null) req
                        \<or> \<not> list_all (\<lambda>m. m = JStr ''api'' \<or> m = JStr ''chatgpt'') ms \<or> \<not> distinct ms then None
                     else Some (requirements_reply ms)
                 | _ \<Rightarrow> None)))"

text \<open>The metadata of one thread: every field checked, the path and the origin URL never passed on.\<close>

definition safe_status :: "jsval \<Rightarrow> jsval option" where
  "safe_status v =
     (case as_object v of
        None \<Rightarrow> None
      | Some status \<Rightarrow>
          (let t = getp status ''type'' in
           if t = JStr ''active'' then
             (case getp status ''activeFlags'' of
                JArr flags \<Rightarrow>
                  if length flags > 2
                     \<or> \<not> list_all (\<lambda>f. f = JStr ''waitingOnApproval'' \<or> f = JStr ''waitingOnUserInput'') flags then None
                  else Some (JObj [(''type'', t), (''activeFlags'', JArr (js_dedup flags))])
              | _ \<Rightarrow> None)
           else if t \<in> JStr ` {''notLoaded'', ''idle'', ''systemError''} then Some (JObj [(''type'', t)]) else None))"

definition safe_metadata_section :: "jsval \<Rightarrow> jsval option" where
  "safe_metadata_section v =
     (if v = Null then Some Null
      else case as_object v of
        None \<Rightarrow> None
      | Some section \<Rightarrow>
          if \<not> uuid_value (getp section ''id'') \<or> \<not> bounded_metadata_text (getp section ''name'') 512 then None
          else if getp section ''appearance'' = Null
          then Some (JObj [(''id'', getp section ''id''), (''name'', getp section ''name''), (''appearance'', Null)])
          else (case as_object (getp section ''appearance'') of
              None \<Rightarrow> None
            | Some d \<Rightarrow>
                if \<not> nullable_metadata_text (getp d ''icon'') 128 \<or> \<not> nullable_metadata_text (getp d ''color'') 128 then None
                else Some (JObj [(''id'', getp section ''id''), (''name'', getp section ''name''),
                  (''appearance'', JObj [(''icon'', getp d ''icon''), (''color'', getp d ''color'')])])))"

definition safe_git_info :: "jsval \<Rightarrow> jsval option" where
  "safe_git_info v =
     (if v = Null then Some Null
      else case as_object v of
        None \<Rightarrow> None
      | Some git \<Rightarrow>
          if \<not> nullable_metadata_text (getp git ''sha'') 128 \<or> \<not> nullable_metadata_text (getp git ''branch'') 512 then None
          else Some (JObj [(''sha'', getp git ''sha''), (''branch'', getp git ''branch''), (''originUrl'', Null)]))"

definition nullable_uuid :: "jsval \<Rightarrow> bool" where
  "nullable_uuid v \<longleftrightarrow> nullable_metadata_text v 128 \<and> (v = Null \<or> is_uuid (str_of v))"

definition thread_fields_ok :: "jsobj \<Rightarrow> string \<Rightarrow> bool" where
  "thread_fields_ok th requested \<longleftrightarrow>
     is_uuid requested \<and> getp th ''id'' = JStr requested \<and> getp th ''turns'' = JArr []
     \<and> uuid_value (getp th ''sessionId'')
     \<and> nullable_uuid (getp th ''forkedFromId'') \<and> nullable_uuid (getp th ''parentThreadId'')
     \<and> bounded_metadata_text (getp th ''preview'') 8192 \<and> is_bool (getp th ''ephemeral'')
     \<and> nullable_metadata_text (getp th ''projectId'') 128
     \<and> getp th ''historyMode'' \<in> JStr ` {''legacy'', ''paginated''}
     \<and> bounded_metadata_text (getp th ''modelProvider'') 128
     \<and> metadata_timestamp (getp th ''createdAt'') \<and> metadata_timestamp (getp th ''updatedAt'')
     \<and> (getp th ''recencyAt'' = Null \<or> metadata_timestamp (getp th ''recencyAt''))
     \<and> bounded_metadata_text (getp th ''cwd'') 4096 \<and> starts_with (str_of (getp th ''cwd'')) ''/''
     \<and> nullable_metadata_text (getp th ''name'') 1024 \<and> nullable_metadata_text (getp th ''threadSource'') 128"

definition safe_source :: "jsval \<Rightarrow> jsval" where
  "safe_source v =
     (if v \<in> JStr ` {''cli'', ''vscode'', ''exec'', ''appServer'', ''unknown''} then v else JStr ''unknown'')"

definition sanitized_thread_metadata :: "(jsval \<Rightarrow> nat) \<Rightarrow> jsval \<Rightarrow> string \<Rightarrow> jsobj option" where
  "sanitized_thread_metadata sz result requested =
     (case as_object (field_of result ''thread'') of
        None \<Rightarrow> None
      | Some th \<Rightarrow>
          if \<not> thread_fields_ok th requested then None
          else (case (safe_status (getp th ''status''), safe_metadata_section (getp th ''section''),
                      safe_git_info (getp th ''gitInfo'')) of
              (Some status, Some section, Some git) \<Rightarrow>
                if (getp th ''sectionEnteredAt'' \<noteq> Null \<and> \<not> metadata_timestamp (getp th ''sectionEnteredAt''))
                   \<or> (\<not> is_string (getp th ''source'') \<and> as_object (getp th ''source'') = None) then None
                else
                  (let same = (\<lambda>k. (k, getp th k));
                       projected = [(''thread'', JObj
                         [same ''id'', same ''sessionId'', same ''forkedFromId'', same ''parentThreadId'',
                          same ''preview'', same ''ephemeral'', (''section'', section), same ''sectionEnteredAt'',
                          same ''projectId'', same ''historyMode'', same ''modelProvider'', same ''createdAt'',
                          same ''updatedAt'', same ''recencyAt'', (''status'', status), (''path'', Null), same ''cwd'',
                          (''source'', safe_source (getp th ''source'')), same ''threadSource'', (''gitInfo'', git),
                          same ''name'', (''turns'', JArr [])])]
                   in if sz (JObj projected) > max_thread_metadata_response then None else Some projected)
            | _ \<Rightarrow> None))"

definition reply :: "jsval \<Rightarrow> jsval \<Rightarrow> jsobj" where
  "reply rid result = [(''id'', rid), (''result'', result)]"

definition app_response :: "(jsval \<Rightarrow> nat) \<Rightarrow> jsobj \<Rightarrow> string \<Rightarrow> string option \<Rightarrow> jsobj" where
  "app_response sz message meth metadata_thread =
     (let rid = getp message ''id''; result = getp message ''result'' in
      if meth = ''turn/start'' then safe_fixture_turn_start_response message
      else if getp message ''error'' \<noteq> Undef then fail_reply rid ''Codex owner request failed''
      else if meth = ''getAuthStatus'' then reply rid (JObj (sanitized_auth_status result))
      else if meth = ''account/read'' then reply rid (JObj (sanitized_account result))
      else if meth = ''configRequirements/read'' then
        (case sanitized_config_requirements result of
           Some r \<Rightarrow> reply rid (JObj r)
         | None \<Rightarrow> fail_reply rid ''Codex owner requirements unavailable'')
      else (case metadata_thread of
          Some tid \<Rightarrow>
            if meth = ''thread/read'' \<and> tid \<noteq> [] then
              (case sanitized_thread_metadata sz result tid of
                 Some r \<Rightarrow> reply rid (JObj r)
               | None \<Rightarrow> fail_reply rid ''Codex thread metadata unavailable'')
            else reply rid result
        | None \<Rightarrow> reply rid result))"

section \<open>Lemmas on credential fields\<close>

definition no_secret :: "nat \<Rightarrow> jsval \<Rightarrow> bool" where
  "no_secret depth v \<longleftrightarrow> \<not> contains_credential v depth"

text \<open>A value without parts: nothing to look into.\<close>

definition plain :: "jsval \<Rightarrow> bool" where
  "plain v = (case v of JArr vs \<Rightarrow> False | JObj fs \<Rightarrow> False | _ \<Rightarrow> True)"

lemma plain_simps [simp]:
  "plain (JStr s)" "plain Null" "plain (JBool b)" "plain (JNum n)" "plain Undef" "plain (JRef i)" "plain (jint z)" "plain (JFun f)"
  by (simp_all add: plain_def jint_def)

lemma no_secret_plain [simp]: "plain v \<Longrightarrow> d \<le> 32 \<Longrightarrow> no_secret d v"
  by (cases v) (simp_all add: no_secret_def plain_def contains_credential.simps)

lemma no_secret_JObj [simp]:
  "d \<le> 32 \<Longrightarrow> no_secret d (JObj fs) \<longleftrightarrow>
     list_all (\<lambda>(k, v). \<not> credential_name k \<and> no_secret (Suc d) v) fs"
  by (subst no_secret_def, subst contains_credential.simps)
    (auto simp: list_ex_iff list_all_iff no_secret_def)

lemma no_secret_JArr [simp]:
  "d \<le> 32 \<Longrightarrow> no_secret d (JArr vs) \<longleftrightarrow> list_all (no_secret (Suc d)) vs"
  by (subst no_secret_def, subst contains_credential.simps)
    (auto simp: list_ex_iff list_all_iff no_secret_def)

lemma string_plain [simp]: "is_string v \<Longrightarrow> plain v"
  by (cases v) (simp_all add: is_string_def plain_def)

lemma bounded_plain: "bounded_metadata_text v n \<Longrightarrow> plain v"
  by (simp add: bounded_metadata_text_def)

lemma nullable_plain: "nullable_metadata_text v n \<Longrightarrow> plain v"
  by (auto simp: nullable_metadata_text_def dest: bounded_plain)

lemma integer_plain: "is_safe_integer v \<Longrightarrow> plain v"
  by (cases v) (simp_all add: is_safe_integer_def plain_def)

lemma timestamp_plain: "metadata_timestamp v \<Longrightarrow> plain v"
  by (simp add: metadata_timestamp_def integer_plain)

lemma uuid_plain: "uuid_value v \<Longrightarrow> plain v"
  by (simp add: uuid_value_def)

lemma bool_plain: "is_bool v \<Longrightarrow> plain v"
  by (cases v) (simp_all add: is_bool_def)

lemmas plain_intros = bounded_plain nullable_plain integer_plain timestamp_plain uuid_plain bool_plain

text \<open>None of the field names the gate itself writes is the name of a credential.\<close>

definition written_names :: "string list" where
  "written_names = [''id'', ''method'', ''params'', ''result'', ''error'', ''code'', ''message'', ''turn'', ''status'', ''items'',
     ''type'', ''text'', ''threadId'', ''turnId'', ''item'', ''itemId'', ''delta'', ''startedAtMs'', ''completedAtMs'',
     ''authMethod'', ''account'', ''email'', ''planType'', ''requiresOpenaiAuth'', ''workspaceRouting'',
     ''chatgptAccountId'', ''requirements'', ''allowedLoginMethods'', ''application'', ''thread'', ''sessionId'',
     ''forkedFromId'', ''parentThreadId'', ''preview'', ''ephemeral'', ''section'', ''sectionEnteredAt'', ''projectId'',
     ''historyMode'', ''modelProvider'', ''createdAt'', ''updatedAt'', ''recencyAt'', ''path'', ''cwd'', ''source'',
     ''threadSource'', ''gitInfo'', ''name'', ''turns'', ''sha'', ''branch'', ''originUrl'', ''icon'', ''color'', ''appearance'',
     ''activeFlags'', ''data'', ''nextCursor'', ''backwardsCursor'']"

lemma written_names_check: "list_all (\<lambda>k. \<not> credential_name k) written_names"
  by (simp add: written_names_def credential_name_def secret_words_def secret_pairs_def lower_char_def between_def code_def)

lemma written_names_plain:
  "k \<in> set written_names \<Longrightarrow> \<not> credential_name k"
  using written_names_check by (simp add: list_all_iff)

lemma getp_no_secret:
  "no_secret d (JObj fs) \<Longrightarrow> d < 32 \<Longrightarrow> no_secret (Suc d) (getp fs k)"
  by (auto simp: getp_def list_all_iff split: option.splits dest!: map_of_SomeD)

lemma no_secret_object: "no_secret d v \<Longrightarrow> as_object v = Some fs \<Longrightarrow> d \<le> 32 \<Longrightarrow> no_secret d (JObj fs)"
  by (cases v) (auto simp: as_object_def)

lemma no_secret_earlier: "no_secret d v \<Longrightarrow> d' \<le> d \<Longrightarrow> no_secret d' v"
proof (induction v d arbitrary: d' rule: contains_credential.induct)
  case (1 v depth)
  have dl: "depth \<le> 32" using 1(3) by (simp add: no_secret_def contains_credential.simps [of v depth] split: if_splits)
  show ?case
  proof (cases v)
    case (JArr vs)
    have "no_secret (Suc d') w" if "w \<in> set vs" for w
      using 1(1) [OF _ JArr that, of "Suc d'"] 1(3,4) dl JArr that by (auto simp: list_all_iff)
    then show ?thesis using JArr dl 1(4) by (simp add: list_all_iff)
  next
    case (JObj fs)
    have "\<not> credential_name k \<and> no_secret (Suc d') w" if "(k, w) \<in> set fs" for k w
      using 1(2) [OF _ JObj that refl, of "Suc d'"] 1(3,4) dl JObj that by (auto simp: list_all_iff)
    then show ?thesis using JObj dl 1(4) by (auto simp: list_all_iff)
  qed (use dl 1(4) in simp_all)
qed

section \<open>What leaves the gate towards the client\<close>

lemma no_secret_written:
  assumes "\<forall>(k, v) \<in> set fs. k \<in> set written_names \<and> no_secret (Suc d) v" and "d \<le> 32"
  shows "no_secret d (JObj fs)"
  using assms written_names_plain by (auto simp: list_all_iff)

lemma field_of_simps [simp]: "field_of (JObj fs) k = getp fs k" "field_of Null k = Undef"
  by (simp_all add: field_of_def as_object_def)

lemma getp_simps [simp]:
  "getp [] k = Undef" "getp ((k', v) # fs) k = (if k' = k then v else getp fs k)"
  by (auto simp: getp_def)

lemma short_string_plain [simp]: "plain (short_string_or_null v n)"
  by (simp add: short_string_or_null_def)

lemma auth_status_no_secret: "no_secret 0 (JObj (sanitized_auth_status r))"
  by (rule no_secret_written) (auto simp: sanitized_auth_status_def Let_def written_names_def)

lemma account_no_secret: "no_secret 0 (JObj (sanitized_account r))"
proof -
  have *: "no_secret (Suc 0) (JObj [(''type'', JStr x), (''email'', short_string_or_null e n), (''planType'', short_string_or_null q m)])"
    "no_secret (Suc 0) (JObj [(''type'', JStr x)])" "is_string y \<Longrightarrow> no_secret (Suc 0) (JObj [(''chatgptAccountId'', y)])" for x e n q m y
    by (rule no_secret_written; simp add: written_names_def)+
  show ?thesis
    by (rule no_secret_written) (auto simp: sanitized_account_def Let_def written_names_def * simp del: no_secret_JObj)
qed

lemma requirements_no_secret:
  "sanitized_config_requirements r = Some fs \<Longrightarrow> no_secret 0 (JObj fs)"
proof -
  have *: "no_secret 0 (JObj (requirements_reply ms))" if "\<forall>m \<in> set ms. plain m" for ms
  proof -
    have "no_secret (Suc 0) (JObj [(''allowedLoginMethods'', JArr ms), (''application'', Null)])"
      by (rule no_secret_written) (use that in \<open>auto simp: written_names_def list_all_iff\<close>)
    then show ?thesis
      unfolding requirements_reply_def
      by (intro no_secret_written) (auto simp: written_names_def simp del: no_secret_JObj)
  qed
  show "sanitized_config_requirements r = Some fs \<Longrightarrow> no_secret 0 (JObj fs)"
    by (auto simp: sanitized_config_requirements_def list_all_iff split: option.splits if_splits jsval.splits
        intro!: * simp del: no_secret_JObj)
qed

lemma two_words_no_secret:
  "list_all (\<lambda>f. f = JStr a \<or> f = JStr b) fl \<Longrightarrow> d \<le> 31 \<Longrightarrow> no_secret d (JArr (js_dedup fl))"
  by (auto simp: list_all_iff)

lemma safe_status_no_secret: "safe_status v = Some w \<Longrightarrow> d \<le> 30 \<Longrightarrow> no_secret d w"
  by (auto simp: safe_status_def Let_def written_names_def two_words_no_secret
      split: option.splits if_splits jsval.splits intro!: no_secret_written simp del: no_secret_JObj no_secret_JArr)

lemma safe_section_no_secret: "safe_metadata_section v = Some w \<Longrightarrow> d \<le> 30 \<Longrightarrow> no_secret d w"
proof -
  have *: "no_secret (Suc d) (JObj [(''icon'', a), (''color'', b)])" if "plain a" "plain b" "d \<le> 30" for a b d
    by (rule no_secret_written) (use that in \<open>auto simp: written_names_def\<close>)
  show "safe_metadata_section v = Some w \<Longrightarrow> d \<le> 30 \<Longrightarrow> no_secret d w"
    by (auto simp: safe_metadata_section_def written_names_def * plain_intros
        split: option.splits if_splits intro!: no_secret_written simp del: no_secret_JObj)
qed

lemma safe_git_no_secret: "safe_git_info v = Some w \<Longrightarrow> d \<le> 30 \<Longrightarrow> no_secret d w"
  by (auto simp: safe_git_info_def written_names_def plain_intros
      split: option.splits if_splits intro!: no_secret_written simp del: no_secret_JObj)

lemma nullable_uuid_plain: "nullable_uuid v \<Longrightarrow> plain v"
  unfolding nullable_uuid_def using nullable_plain by blast

lemma metadata_no_secret:
  assumes "sanitized_thread_metadata sz r t = Some fs"
  shows "no_secret 0 (JObj fs)"
proof -
  obtain th status sec git where th: "thread_fields_ok th t"
    and s: "safe_status (getp th ''status'') = Some status" "safe_metadata_section (getp th ''section'') = Some sec"
      "safe_git_info (getp th ''gitInfo'') = Some git"
    and e: "getp th ''sectionEnteredAt'' = Null \<or> metadata_timestamp (getp th ''sectionEnteredAt'')"
    and fs: "fs = [(''thread'', JObj
         [(''id'', getp th ''id''), (''sessionId'', getp th ''sessionId''), (''forkedFromId'', getp th ''forkedFromId''),
          (''parentThreadId'', getp th ''parentThreadId''), (''preview'', getp th ''preview''),
          (''ephemeral'', getp th ''ephemeral''), (''section'', sec), (''sectionEnteredAt'', getp th ''sectionEnteredAt''),
          (''projectId'', getp th ''projectId''), (''historyMode'', getp th ''historyMode''),
          (''modelProvider'', getp th ''modelProvider''), (''createdAt'', getp th ''createdAt''),
          (''updatedAt'', getp th ''updatedAt''), (''recencyAt'', getp th ''recencyAt''), (''status'', status),
          (''path'', Null), (''cwd'', getp th ''cwd''), (''source'', safe_source (getp th ''source'')),
          (''threadSource'', getp th ''threadSource''), (''gitInfo'', git), (''name'', getp th ''name''),
          (''turns'', JArr [])])]"
    using assms by (auto simp: sanitized_thread_metadata_def Let_def split: option.splits if_splits)
  have p: "plain (getp th k)" if "k \<in> set [''id'', ''sessionId'', ''forkedFromId'', ''parentThreadId'', ''preview'',
      ''ephemeral'', ''sectionEnteredAt'', ''projectId'', ''historyMode'', ''modelProvider'', ''createdAt'',
      ''updatedAt'', ''recencyAt'', ''cwd'', ''threadSource'', ''name'']" for k
    using that th e unfolding thread_fields_ok_def
    by (auto dest: nullable_uuid_plain plain_intros)
  have src: "plain (safe_source v)" for v by (auto simp: safe_source_def)
  show ?thesis
    unfolding fs
    by (intro no_secret_written)
      (auto simp: written_names_def p src safe_status_no_secret [OF s(1)] safe_section_no_secret [OF s(2)]
        safe_git_no_secret [OF s(3)] intro!: no_secret_written simp del: no_secret_JObj)
qed

lemma turn_response_no_secret: "no_secret 0 (getp (safe_fixture_turn_start_response m) ''result'')"
proof -
  have *: "no_secret (Suc 0) (JObj [(''id'', a), (''status'', JStr st), (''items'', JArr []), (''error'', Null)])"
    if "plain a" for a st
    by (rule no_secret_written) (use that in \<open>auto simp: written_names_def\<close>)
  show ?thesis
    by (auto simp: safe_fixture_turn_start_response_def Let_def fail_reply_def written_names_def * plain_intros
        intro!: no_secret_written simp del: no_secret_JObj)
qed

text \<open>Whatever the owner answered, the result passed on holds no credential field.\<close>

lemma app_response_no_secret:
  assumes "meth \<in> {''account/read'', ''getAuthStatus''} \<or> no_secret 0 (getp message ''result'')"
  shows "no_secret 0 (getp (app_response sz message meth md) ''result'')"
  using assms turn_response_no_secret [of message] auth_status_no_secret account_no_secret
    requirements_no_secret metadata_no_secret
  by (auto simp: app_response_def Let_def reply_def fail_reply_def simp del: no_secret_JObj split: option.splits)

lemma agent_message_no_secret: "fixture_agent_message v = Some w \<Longrightarrow> d \<le> 30 \<Longrightarrow> no_secret d w"
  by (auto simp: fixture_agent_message_def written_names_def split: option.splits if_splits
      intro!: no_secret_written simp del: no_secret_JObj)

lemma fixture_turn_no_secret:
  assumes "fixture_turn v t = Inr (Some fs)" and "no_secret 1 v"
  shows "no_secret 1 (JObj fs)"
proof -
  obtain turn where v: "as_object v = Some turn" and fs: "\<exists>items. fs = [(''id'', JStr t), (''status'', getp turn ''status''),
      (''items'', JArr (List.map_filter fixture_agent_message items)), (''error'', Null)]"
    using assms(1) by (auto simp: fixture_turn_def split: option.splits if_splits jsval.splits)
  have "no_secret 2 (getp turn ''status'')"
    using getp_no_secret [OF no_secret_object [OF assms(2) v]] by (simp add: numeral_2_eq_2)
  moreover have "no_secret 2 (JArr (List.map_filter fixture_agent_message items))" for items
    by (auto simp: list_all_iff map_filter_def agent_message_no_secret)
  ultimately show ?thesis
    using fs by (auto simp: written_names_def numeral_2_eq_2 intro!: no_secret_written simp del: no_secret_JObj no_secret_JArr)
qed

lemma notification_no_secret:
  assumes "fixture_notification sz message th tu = Inr (Some out)"
  shows "no_secret 0 (getp out ''params'') \<and> field_of (getp out ''params'') ''threadId'' = JStr th
    \<and> sz (JObj out) \<le> max_fixture_notification_bytes \<and> getp out ''method'' = getp message ''method''"
proof -
  obtain params p where ns: "no_secret 0 (getp message ''params'')" and o: "as_object (getp message ''params'') = Some params"
    and p: "fixture_params message th tu params = Inr (Some p)"
    and out: "out = [(''method'', getp message ''method''), (''params'', JObj p)]"
    and size: "sz (JObj out) \<le> max_fixture_notification_bytes"
    using assms
    by (auto simp: fixture_notification_def no_secret_def and_then_Ok_iff Let_def split: option.splits if_splits)
  have turn: "no_secret 1 (getp params ''turn'')"
    using getp_no_secret [OF no_secret_object [OF ns o]] by simp
  have "no_secret 0 (JObj p) \<and> getp p ''threadId'' = JStr th"
  proof -
    let ?m = "getp message ''method''"
    show ?thesis
    proof (cases "?m = JStr ''turn/started'' \<or> ?m = JStr ''turn/completed''")
      case True
      then obtain t where t: "fixture_turn (getp params ''turn'') tu = Inr (Some t)"
        "p = [(''threadId'', JStr th), (''turn'', JObj t)]"
        using p by (auto simp: fixture_params_def and_then_Ok_iff)
      have "no_secret (Suc 0) (JObj t)" using fixture_turn_no_secret [OF t(1) turn] by simp
      then show ?thesis unfolding t(2)
        by (auto simp: written_names_def intro!: no_secret_written simp del: no_secret_JObj)
    next
      case not_turn: False
      show ?thesis
      proof (cases "?m = JStr ''item/started'' \<or> ?m = JStr ''item/completed''")
        case True
        then obtain item ts where t: "fixture_agent_message (getp params ''item'') = Some item"
          "p = [(''threadId'', JStr th), (''turnId'', JStr tu), (''item'', item)] @ ts"
          "ts = timestamp_field params ''startedAtMs'' \<or> ts = timestamp_field params ''completedAtMs''"
          using p not_turn by (auto simp: fixture_params_def Let_def split: if_splits)
        have i: "no_secret (Suc 0) item" using agent_message_no_secret [OF t(1)] by simp
        have tsp: "\<forall>(k, v) \<in> set ts. k \<in> set written_names \<and> no_secret (Suc 0) v"
          using t(3) by (auto simp: timestamp_field_def integer_plain written_names_def split: if_splits)
        have "no_secret 0 (JObj p)"
          unfolding t(2) by (rule no_secret_written) (use i tsp in \<open>simp_all add: written_names_def ball_Un\<close>)
        moreover have "getp p ''threadId'' = JStr th" unfolding t(2) by simp
        ultimately show ?thesis by simp
      next
        case False
        then have t: "p = [(''threadId'', JStr th), (''turnId'', JStr tu), (''itemId'', getp params ''itemId''), (''delta'', getp params ''delta'')]"
          "is_string (getp params ''itemId'')" "is_string (getp params ''delta'')"
          using p not_turn by (auto simp: fixture_params_def Let_def split: if_splits)
        show ?thesis unfolding t(1)
          using t(2,3) by (auto simp: written_names_def intro!: no_secret_written simp del: no_secret_JObj)
      qed
    qed
  qed
  then show ?thesis using out size by simp
qed

end
