(* ===== verification/CodexRequests.thy ===== *)
theory CodexRequests
  imports CodexFilter
begin

text \<open>
  The requests \<open>src/codex-authority-gate.ts\<close> passes on to the owner process: what holds of every one of
  them, and that a passed request passes unchanged a second time.
\<close>

section \<open>What leaves the gate towards the owner\<close>

lemma rpc_getp [simp]:
  "getp (rpc i m ps) ''id'' = i" "getp (rpc i m ps) ''method'' = m" "getp (rpc i m ps) ''params'' = JObj ps"
  by (simp_all add: rpc_def)

lemma as_object_JObj [simp]: "as_object (JObj fs) = Some fs"
  by (simp add: as_object_def)

lemma read_method_cases:
  "m \<in> set read_methods \<Longrightarrow> m = ''initialize'' \<or> m = ''account/read'' \<or> m = ''getAuthStatus''
     \<or> m = ''configRequirements/read'' \<or> m = ''thread/list''"
  unfolding read_methods_def list.set insert_iff empty_iff by argo

definition private_client :: jsobj where
  "private_client =
     [(''clientInfo'', JObj [(''name'', JStr ''orbit_private_readonly''), (''title'', JStr ''Orbit private Codex''), (''version'', JStr ''1'')]),
      (''capabilities'', JObj [(''experimentalApi'', JBool True)])]"

lemma safe_app_request_cases:
  assumes "safe_app_request message legacy metadata = Some r"
  obtains ps where "r = rpc (getp message ''id'') (getp message ''method'') ps"
    and "request_id (getp message ''id'') \<noteq> None" and "is_string (getp message ''method'')"
    and "(getp message ''method'' = JStr ''thread/read'' \<and> (legacy \<or> metadata)
          \<and> safe_thread_read message legacy = Some r)
      \<or> (getp message ''method'' = JStr ''initialize'' \<and> ps = private_client)
      \<or> (getp message ''method'' = JStr ''getAuthStatus'' \<and> ps = [(''includeToken'', JBool False), (''refreshToken'', JBool False)])
      \<or> (getp message ''method'' = JStr ''account/read'' \<and> ps = [(''refreshToken'', JBool False)])
      \<or> (getp message ''method'' = JStr ''configRequirements/read'' \<and> ps = [])
      \<or> (getp message ''method'' = JStr ''thread/list'' \<and> safe_thread_list message = Some r)"
proof -
  let ?m = "getp message ''method''"
  let ?ok = "str_of ?m \<in> set read_methods \<or> ((legacy \<or> metadata) \<and> ?m = JStr ''thread/read'')"
  have g: "request_id (getp message ''id'') \<noteq> None \<and> is_string ?m \<and> ?ok"
  proof (rule ccontr)
    assume "\<not> (request_id (getp message ''id'') \<noteq> None \<and> is_string ?m \<and> ?ok)"
    then have "request_id (getp message ''id'') = None \<or> \<not> is_string ?m
       \<or> (str_of ?m \<notin> set read_methods \<and> \<not> ((legacy \<or> metadata) \<and> ?m = JStr ''thread/read''))" by blast
    then have "safe_app_request message legacy metadata = None"
      unfolding safe_app_request_def Let_def by (rule if_P)
    then show False using assms by simp
  qed
  then have i: "request_id (getp message ''id'') \<noteq> None" by blast
  obtain m where m: "?m = JStr m" and mem: "m \<in> set read_methods \<or> ((legacy \<or> metadata) \<and> m = ''thread/read'')"
    using g is_string_str_of [of ?m] by (metis is_string_simps(2) jsval.inject(3))
  have strm: "is_string (getp message ''method'')" using m by simp
  consider "m = ''thread/read''" "legacy \<or> metadata" | "m = ''initialize''" | "m = ''getAuthStatus''" | "m = ''account/read''"
    | "m = ''configRequirements/read''" | "m = ''thread/list''"
    using mem read_method_cases [of m] by argo
  then show ?thesis
  proof cases
    case 1
    then have r: "safe_thread_read message legacy = Some r"
      using assms m i by (simp add: safe_app_request_def)
    then obtain ps where "r = rpc (getp message ''id'') (getp message ''method'') ps"
      by (auto simp: safe_thread_read_def split: option.splits if_splits)
    then show ?thesis using that m i strm r 1 by blast
  next
    case 6
    then have r: "safe_thread_list message = Some r"
      using assms m i by (simp add: safe_app_request_def read_methods_def)
    then obtain ps where "r = rpc (getp message ''id'') (getp message ''method'') ps"
      by (auto simp: safe_thread_list_def split: option.splits if_splits)
    then show ?thesis using that m i strm r 6 by blast
  next
    case 2
    show ?thesis
      by (rule that [of "private_client", OF _ i strm]) (use assms m i 2 in \<open>simp_all add: safe_app_request_def read_methods_def private_client_def split: option.splits if_splits\<close>)
  next
    case 3
    show ?thesis
      by (rule that [of "[(''includeToken'', JBool False), (''refreshToken'', JBool False)]", OF _ i strm]) (use assms m i 3 in \<open>auto simp: safe_app_request_def read_methods_def\<close>)
  next
    case 4
    show ?thesis
      by (rule that [of "[(''refreshToken'', JBool False)]", OF _ i strm]) (use assms m i 4 in \<open>auto simp: safe_app_request_def read_methods_def\<close>)
  next
    case 5
    show ?thesis
      by (rule that [of "[]", OF _ i strm])
        (use assms m i 5 in \<open>auto simp: safe_app_request_def read_methods_def split: option.splits list.splits\<close>)
  qed
qed

lemma safe_thread_read_form:
  assumes "safe_thread_read message legacy = Some r"
  obtains tid turns where "r = rpc (getp message ''id'') (getp message ''method'')
      [(''threadId'', tid), (''includeTurns'', JBool turns), (''readOnly'', JBool True)]"
    and "uuid_value tid" and "turns \<longrightarrow> legacy"
  using assms
  by (cases "field_of (getp message ''params'') ''includeTurns''")
    (auto simp: safe_thread_read_def field_of_def is_bool_def split: option.splits if_splits)

lemma safe_thread_list_form:
  assumes "safe_thread_list message = Some r"
  obtains fs where "r = rpc (getp message ''id'') (getp message ''method'') ((''useStateDbOnly'', JBool True) # fs)"
    and "\<forall>(k, v) \<in> set fs. k \<in> set thread_list_fields - {''useStateDbOnly''} \<and> thread_list_field_ok k v"
proof -
  obtain input where i: "only_keys thread_list_fields input" "list_all (\<lambda>(k, v). thread_list_field_ok k v) input"
    and r: "r = rpc (getp message ''id'') (getp message ''method'')
      ((''useStateDbOnly'', JBool True) # filter (\<lambda>(k, v). k \<noteq> ''useStateDbOnly'') input)"
    using assms by (auto simp: safe_thread_list_def split: option.splits if_splits)
  show ?thesis
    by (rule that [OF r]) (use i in \<open>auto simp: only_keys_def list_all_iff\<close>)
qed

text \<open>Whatever the desktop client asks, a request that is passed on keeps its id and its method, is one of
the read methods (a thread read only where the gate was opened for it, always read-only and without
turns unless the old form is allowed), never asks the owner for a token or a token refresh, and
lists threads from the state database only, with checked fields.\<close>

theorem forwarded_request_is_a_read:
  assumes "safe_app_request message legacy metadata = Some r"
  shows "getp r ''id'' = getp message ''id'' \<and> getp r ''method'' = getp message ''method''
    \<and> request_id (getp r ''id'') \<noteq> None
    \<and> (str_of (getp r ''method'') \<in> set read_methods
       \<or> getp r ''method'' = JStr ''thread/read'' \<and> (legacy \<or> metadata)
         \<and> field_of (getp r ''params'') ''readOnly'' = JBool True
         \<and> (legacy \<or> field_of (getp r ''params'') ''includeTurns'' = JBool False))
    \<and> field_of (getp r ''params'') ''includeToken'' \<in> {Undef, JBool False}
    \<and> field_of (getp r ''params'') ''refreshToken'' \<in> {Undef, JBool False}
    \<and> (getp r ''method'' \<noteq> JStr ''thread/list''
       \<or> field_of (getp r ''params'') ''useStateDbOnly'' = JBool True
         \<and> list_all (\<lambda>(k, v). k \<in> set thread_list_fields \<and> thread_list_field_ok k v)
             (case as_object (getp r ''params'') of Some ps \<Rightarrow> ps | None \<Rightarrow> []))"
proof (rule safe_app_request_cases [OF assms])
  fix ps
  assume r: "r = rpc (getp message ''id'') (getp message ''method'') ps"
    and i: "request_id (getp message ''id'') \<noteq> None" "is_string (getp message ''method'')"
    and *: "(getp message ''method'' = JStr ''thread/read'' \<and> (legacy \<or> metadata) \<and> safe_thread_read message legacy = Some r)
      \<or> (getp message ''method'' = JStr ''initialize'' \<and> ps = private_client)
      \<or> (getp message ''method'' = JStr ''getAuthStatus'' \<and> ps = [(''includeToken'', JBool False), (''refreshToken'', JBool False)])
      \<or> (getp message ''method'' = JStr ''account/read'' \<and> ps = [(''refreshToken'', JBool False)])
      \<or> (getp message ''method'' = JStr ''configRequirements/read'' \<and> ps = [])
      \<or> (getp message ''method'' = JStr ''thread/list'' \<and> safe_thread_list message = Some r)"
  show ?thesis
  proof (cases "getp message ''method'' = JStr ''thread/list''")
    case True
    then have "safe_thread_list message = Some r" using * by auto
    then obtain fs where fs: "r = rpc (getp message ''id'') (getp message ''method'') ((''useStateDbOnly'', JBool True) # fs)"
      "\<forall>(k, v) \<in> set fs. k \<in> set thread_list_fields - {''useStateDbOnly''} \<and> thread_list_field_ok k v"
      by (rule safe_thread_list_form)
    have "getp fs k = Undef" if "k \<notin> set thread_list_fields" for k
      using fs(2) that by (auto simp: getp_def split: option.splits dest!: map_of_SomeD)
    then have "getp fs ''includeToken'' = Undef" "getp fs ''refreshToken'' = Undef"
      by (simp_all add: thread_list_fields_def)
    moreover have "list_all (\<lambda>(k, v). k \<in> set thread_list_fields \<and> thread_list_field_ok k v) fs"
      using fs(2) by (auto simp: list_all_iff)
    moreover have "''useStateDbOnly'' \<in> set thread_list_fields" "thread_list_field_ok ''useStateDbOnly'' (JBool True)"
      by (simp_all add: thread_list_fields_def thread_list_field_ok_def is_bool_def)
    moreover have "str_of (getp message ''method'') \<in> set read_methods"
      using True by (simp add: read_methods_def)
    ultimately show ?thesis
      using fs(1) True i by simp
  next
    case not_list: False
    show ?thesis
    proof (cases "getp message ''method'' = JStr ''thread/read''")
      case True
      then have "safe_thread_read message legacy = Some r" "legacy \<or> metadata" using * by auto
      then show ?thesis
        using True i by (auto elim!: safe_thread_read_form)
    next
      case False
      then show ?thesis using not_list * i unfolding r by (auto simp: read_methods_def private_client_def)
    qed
  qed
qed

lemma forwarded_request_is_a_read_witness:
  "getp [(''id'', jint 1), (''method'', JStr ''account/read''), (''params'', JObj [(''refreshToken'', JBool False)])] ''id'' = jint 1"
proof -
  have a: "safe_app_request [(''id'', jint 1), (''method'', JStr ''account/read''), (''params'', JObj [(''refreshToken'', JBool True)])] False False
    = Some [(''id'', jint 1), (''method'', JStr ''account/read''), (''params'', JObj [(''refreshToken'', JBool False)])]"
    by (simp add: safe_app_request_def read_methods_def request_id_def rpc_def is_safe_integer_def jint_def max_safe_def)
  show ?thesis using forwarded_request_is_a_read [OF a] by simp
qed

section \<open>A passed request passes unchanged\<close>

lemma thread_read_again:
  assumes "safe_thread_read message legacy = Some r"
  shows "safe_thread_read r legacy = Some r"
proof (rule safe_thread_read_form [OF assms])
  fix tid turns
  assume r: "r = rpc (getp message ''id'') (getp message ''method'')
      [(''threadId'', tid), (''includeTurns'', JBool turns), (''readOnly'', JBool True)]"
    and t: "uuid_value tid" "turns \<longrightarrow> legacy"
  show ?thesis
    using t unfolding r by (auto simp: safe_thread_read_def is_bool_def)
qed

lemma thread_list_again:
  assumes "safe_thread_list message = Some r"
  shows "safe_thread_list r = Some r"
proof -
  obtain fs where r: "r = rpc (getp message ''id'') (getp message ''method'') ((''useStateDbOnly'', JBool True) # fs)"
    and fs: "\<forall>(k, v) \<in> set fs. k \<in> set thread_list_fields - {''useStateDbOnly''} \<and> thread_list_field_ok k v"
    using assms by (rule safe_thread_list_form)
  have "filter (\<lambda>(k, v). k \<noteq> ''useStateDbOnly'') fs = fs"
    using fs by (auto simp: filter_id_conv)
  moreover have "only_keys thread_list_fields fs" "list_all (\<lambda>(k, v). thread_list_field_ok k v) fs"
    using fs by (auto simp: only_keys_def list_all_iff)
  moreover have "''useStateDbOnly'' \<in> set thread_list_fields" "thread_list_field_ok ''useStateDbOnly'' (JBool True)"
    by (simp_all add: thread_list_fields_def thread_list_field_ok_def is_bool_def)
  moreover have "params_or_empty r = Some ((''useStateDbOnly'', JBool True) # fs)"
    unfolding r params_or_empty_def by simp
  ultimately show ?thesis
    unfolding safe_thread_list_def by (simp add: only_keys_def) (simp add: r)
qed

lemma forwarded_request_id:
  "safe_app_request message legacy metadata = Some r \<Longrightarrow>
     getp r ''id'' = getp message ''id'' \<and> getp r ''method'' = getp message ''method''"
  by (erule safe_app_request_cases) simp

lemma forwarded_request_again:
  assumes "safe_app_request message legacy metadata = Some r"
  shows "safe_app_request r legacy metadata = Some r"
proof (rule safe_app_request_cases [OF assms])
  fix ps
  assume r: "r = rpc (getp message ''id'') (getp message ''method'') ps"
    and i: "request_id (getp message ''id'') \<noteq> None" "is_string (getp message ''method'')"
    and c: "(getp message ''method'' = JStr ''thread/read'' \<and> (legacy \<or> metadata) \<and> safe_thread_read message legacy = Some r)
      \<or> (getp message ''method'' = JStr ''initialize'' \<and> ps = private_client)
      \<or> (getp message ''method'' = JStr ''getAuthStatus'' \<and> ps = [(''includeToken'', JBool False), (''refreshToken'', JBool False)])
      \<or> (getp message ''method'' = JStr ''account/read'' \<and> ps = [(''refreshToken'', JBool False)])
      \<or> (getp message ''method'' = JStr ''configRequirements/read'' \<and> ps = [])
      \<or> (getp message ''method'' = JStr ''thread/list'' \<and> safe_thread_list message = Some r)"
  have m: "getp r ''method'' = getp message ''method''" "getp r ''id'' = getp message ''id''" by (simp_all add: r)
  consider (read) "getp message ''method'' = JStr ''thread/read''" "legacy \<or> metadata" "safe_thread_read message legacy = Some r"
    | (list) "getp message ''method'' = JStr ''thread/list''" "safe_thread_list message = Some r"
    | (rest) "getp message ''method'' = JStr ''initialize'' \<and> ps = private_client
      \<or> (getp message ''method'' = JStr ''getAuthStatus'' \<and> ps = [(''includeToken'', JBool False), (''refreshToken'', JBool False)])
      \<or> (getp message ''method'' = JStr ''account/read'' \<and> ps = [(''refreshToken'', JBool False)])
      \<or> (getp message ''method'' = JStr ''configRequirements/read'' \<and> ps = [])"
    using c by argo
  then show ?thesis
  proof cases
    case read
    then show ?thesis using m i thread_read_again [OF read(3)] by (simp add: safe_app_request_def Let_def)
  next
    case list
    then show ?thesis using m i thread_list_again [OF list(2)] by (simp add: safe_app_request_def Let_def read_methods_def)
  next
    case rest
    then show ?thesis using i unfolding r
      by (elim disjE) (simp_all add: safe_app_request_def Let_def read_methods_def private_client_def params_or_empty_def)
  qed
qed

text \<open>The gate's reading of a request is a fixed point: a request it passes on is passed on unchanged when it
is presented again, so a second gate in front of the owner refuses and changes nothing.\<close>

theorem forwarded_request_fixed:
  assumes "safe_app_request message legacy metadata = Some r"
  shows "safe_app_request r legacy metadata = Some r \<and> getp r ''id'' = getp message ''id''"
  using forwarded_request_again [OF assms] forwarded_request_id [OF assms] by simp

lemma forwarded_request_fixed_witness:
  "safe_app_request [(''id'', jint 1), (''method'', JStr ''configRequirements/read''), (''params'', JObj [])] False False
    = Some [(''id'', jint 1), (''method'', JStr ''configRequirements/read''), (''params'', JObj [])]"
proof -
  have a: "safe_app_request [(''id'', jint 1), (''method'', JStr ''configRequirements/read'')] False False
    = Some [(''id'', jint 1), (''method'', JStr ''configRequirements/read''), (''params'', JObj [])]"
    by (simp add: safe_app_request_def read_methods_def request_id_def rpc_def is_safe_integer_def jint_def max_safe_def params_or_empty_def)
  show ?thesis using forwarded_request_fixed [OF a] by simp
qed

section \<open>The metadata of a thread\<close>

text \<open>What the client learns of one thread: an error without details, or a record of bounded size for exactly
the thread it asked for, without turns, without the path of its file and without the origin URL of its
repository, made of the fixed list of fields only.\<close>

theorem thread_metadata_is_projected:
  assumes "tid \<noteq> []"
  shows "(\<exists>text'. app_response sz message ''thread/read'' (Some tid) = fail_reply (getp message ''id'') text')
    \<or> (\<exists>fs. app_response sz message ''thread/read'' (Some tid) = reply (getp message ''id'') (JObj [(''thread'', JObj fs)])
        \<and> sz (JObj [(''thread'', JObj fs)]) \<le> max_thread_metadata_response
        \<and> getp fs ''id'' = JStr tid \<and> is_uuid tid \<and> getp fs ''path'' = Null \<and> getp fs ''turns'' = JArr []
        \<and> field_of (getp fs ''gitInfo'') ''originUrl'' \<in> {Undef, Null}
        \<and> map fst fs = [''id'', ''sessionId'', ''forkedFromId'', ''parentThreadId'', ''preview'', ''ephemeral'', ''section'',
            ''sectionEnteredAt'', ''projectId'', ''historyMode'', ''modelProvider'', ''createdAt'', ''updatedAt'', ''recencyAt'',
            ''status'', ''path'', ''cwd'', ''source'', ''threadSource'', ''gitInfo'', ''name'', ''turns''])"
proof (cases "getp message ''error'' \<noteq> Undef")
  case True
  then show ?thesis by (auto simp: app_response_def)
next
  case noerr: False
  show ?thesis
  proof (cases "sanitized_thread_metadata sz (getp message ''result'') tid")
    case None
    then show ?thesis using assms noerr by (auto simp: app_response_def)
  next
    case (Some fs)
    obtain th status sec git where th: "thread_fields_ok th tid" and g: "safe_git_info (getp th ''gitInfo'') = Some git"
      and size: "sz (JObj fs) \<le> max_thread_metadata_response"
      and fs: "fs = [(''thread'', JObj
         [(''id'', getp th ''id''), (''sessionId'', getp th ''sessionId''), (''forkedFromId'', getp th ''forkedFromId''),
          (''parentThreadId'', getp th ''parentThreadId''), (''preview'', getp th ''preview''),
          (''ephemeral'', getp th ''ephemeral''), (''section'', sec), (''sectionEnteredAt'', getp th ''sectionEnteredAt''),
          (''projectId'', getp th ''projectId''), (''historyMode'', getp th ''historyMode''),
          (''modelProvider'', getp th ''modelProvider''), (''createdAt'', getp th ''createdAt''),
          (''updatedAt'', getp th ''updatedAt''), (''recencyAt'', getp th ''recencyAt''), (''status'', status),
          (''path'', Null), (''cwd'', getp th ''cwd''), (''source'', safe_source (getp th ''source'')),
          (''threadSource'', getp th ''threadSource''), (''gitInfo'', git), (''name'', getp th ''name''),
          (''turns'', JArr [])])]"
      using Some by (auto simp: sanitized_thread_metadata_def Let_def split: option.splits if_splits)
    have "field_of git ''originUrl'' \<in> {Undef, Null}"
      using g by (auto simp: safe_git_info_def split: option.splits if_splits)
    moreover have "getp th ''id'' = JStr tid" "is_uuid tid"
      using th by (simp_all add: thread_fields_ok_def)
    moreover have r: "app_response sz message ''thread/read'' (Some tid) = reply (getp message ''id'') (JObj fs)"
      using Some assms noerr by (simp add: app_response_def)
    ultimately show ?thesis
      using size unfolding r unfolding fs by (intro disjI2 exI conjI) (rule HOL.refl | simp)+
  qed
qed

lemma thread_metadata_is_projected_witness:
  "(\<exists>text'. app_response (\<lambda>v. 0) [(''id'', jint 4), (''result'', Null)] ''thread/read'' (Some ''t'') = fail_reply (jint 4) text')
    \<or> (\<exists>fs. app_response (\<lambda>v. 0) [(''id'', jint 4), (''result'', Null)] ''thread/read'' (Some ''t'')
          = reply (jint 4) (JObj [(''thread'', JObj fs)]) \<and> getp fs ''path'' = Null)"
  using thread_metadata_is_projected [of "''t''" "\<lambda>v. 0" "[(''id'', jint 4), (''result'', Null)]"] by auto

end
