(* ===== verification/CodexGate.thy ===== *)
theory CodexGate
  imports CodexRequests
begin

text \<open>
  \<open>src/codex-authority-gate.ts\<close>, the gate process itself: its options, the state it keeps for every
  desktop client, and what each event does. An event is one callback of the source run to its end; where
  the source awaits, the continuation is an event of its own. What the gate hands to a socket or to a
  callback is an output.

  A message arrives as the object \<open>parseMessage\<close> made of it, or as \<open>None\<close> where that throws (too
  large, not JSON, not an object, or binary). An object holds every key once. Whether a send to the
  owner works is decided by the event: it throws before the owner is connected and after its socket
  changed. The scopes of fixture turns are objects compared by identity, which a number stands for.
\<close>

section \<open>Options\<close>

record gate_options =
  max_message_bytes :: jsval
  legacy_read :: bool
  metadata_read :: bool
  pages_allowed :: bool
  has_page_reader :: bool
  sections_allowed :: bool
  has_section_reader :: bool
  fixture_thread :: "string option"
  orbit_tool :: bool
  poll_saved :: bool

datatype gate_refusal = BadMessageLimit | BadFixtureThread | ToolNeedsReader | PollNeedsReader

definition message_limit :: "gate_options \<Rightarrow> nat option" where
  "message_limit o' =
     (let v = max_message_bytes o' in
      if v = Undef then Some max_message
      else if is_safe_integer v \<and> 1024 \<le> int_of_val v \<and> int_of_val v \<le> int max_message
      then Some (nat (int_of_val v)) else None)"

definition fixture_pinned :: "gate_options \<Rightarrow> bool" where
  "fixture_pinned o' \<longleftrightarrow> (case fixture_thread o' of None \<Rightarrow> False | Some t \<Rightarrow> t \<noteq> [])"

definition checked_options :: "gate_options \<Rightarrow> (gate_refusal, nat) result" where
  "checked_options o' =
     (case message_limit o' of
        None \<Rightarrow> Err BadMessageLimit
      | Some limit \<Rightarrow>
          if (case fixture_thread o' of None \<Rightarrow> False | Some t \<Rightarrow> \<not> is_uuid t) then Err BadFixtureThread
          else if orbit_tool o' \<and> (\<not> fixture_pinned o' \<or> \<not> has_page_reader o' \<or> \<not> pages_allowed o') then Err ToolNeedsReader
          else if poll_saved o' \<and> (\<not> fixture_pinned o' \<or> \<not> has_page_reader o' \<or> \<not> pages_allowed o') then Err PollNeedsReader
          else Ok limit)"

section \<open>State\<close>

record scope =
  sc_uid :: nat
  sc_thread :: string
  sc_pending :: "string option"
  sc_turn :: "string option"
  sc_buffered :: "jsobj list"
  sc_count :: nat

record pending_request =
  pr_method :: string
  pr_metadata :: "string option"
  pr_fixture :: "string option"

record client_data =
  owner_set :: bool
  queue :: "jsobj list"
  pending :: "(string \<times> pending_request) list"
  pages :: "string list"
  fixture :: "scope option"

datatype read_kind = PageRead | SectionRead

record job =
  j_client :: nat
  j_kind :: read_kind
  j_key :: string
  j_rid :: jsval
  j_limit :: int
  j_settled :: bool
  j_answered :: bool

text \<open>One run of \<open>pollSavedFixtureTurn\<close>: its client, the attempt it is at, its deadline, and whether it awaits the reader.\<close>

record poll =
  pl_client :: nat
  pl_attempt :: nat
  pl_deadline :: int
  pl_reading :: bool

record gate =
  active_pages :: nat
  active_sections :: nat
  next_scope :: nat
  jobs :: "job list"
  clients :: "(nat \<times> client_data) list"
  polls :: "(nat \<times> poll) list"

datatype emission =
    ToClient nat jsobj
  | ToOwner nat jsobj
  | AskPage string jsobj
  | AskSection jsval int
  | AuditMethod string bool
  | AuditShape string "string list" bool
  | AuditFields "(string \<times> string \<times> nat option) list"
  | StartPoll nat nat
  | PollPage nat jsobj
  | Terminate nat

definition max_active_readers :: nat where "max_active_readers = 4"
definition max_outstanding :: nat where "max_outstanding = 64"
definition max_queue :: nat where "max_queue = 8"
definition max_buffered :: nat where "max_buffered = 32"
definition max_notifications :: nat where "max_notifications = 256"
definition max_poll_attempts :: nat where "max_poll_attempts = 40"
definition poll_window :: int where "poll_window = 12000"

definition fresh_client :: client_data where
  "fresh_client = \<lparr>owner_set = False, queue = [], pending = [], pages = [], fixture = None\<rparr>"

definition empty_gate :: gate where
  "empty_gate = \<lparr>active_pages = 0, active_sections = 0, next_scope = 0, jobs = [], clients = [], polls = []\<rparr>"

section \<open>What audits may see\<close>

definition is_method_char :: "char \<Rightarrow> bool" where
  "is_method_char c \<longleftrightarrow> is_word_dash c \<or> c = CHR ''/''"

definition audit_name :: "jsval \<Rightarrow> string" where
  "audit_name v = (if is_string v \<and> class_string is_method_char 1 80 (str_of v) then str_of v else ''invalid'')"

definition audit_key :: "string \<Rightarrow> string" where
  "audit_key k = (if class_string is_word_char 1 64 k then k else ''invalid'')"

definition own_fields :: "jsval \<Rightarrow> jsobj" where
  "own_fields v = (case as_object v of None \<Rightarrow> [] | Some fs \<Rightarrow> fs)"

definition audit_keys :: "jsobj \<Rightarrow> string list" where
  "audit_keys message = map (\<lambda>(k, v). audit_key k) (take 16 (own_fields (getp message ''params'')))"

definition type_name :: "jsval \<Rightarrow> string" where
  "type_name v = (case v of Null \<Rightarrow> ''null'' | JArr vs \<Rightarrow> ''array'' | JStr s \<Rightarrow> ''string'' | JNum n \<Rightarrow> ''number''
     | JBool b \<Rightarrow> ''boolean'' | Undef \<Rightarrow> ''undefined'' | JFun i \<Rightarrow> ''function'' | _ \<Rightarrow> ''object'')"

definition shown_length :: "jsval \<Rightarrow> nat option" where
  "shown_length v = (case v of JStr s \<Rightarrow> Some (length s) | JArr vs \<Rightarrow> Some (length vs) | _ \<Rightarrow> None)"

definition field_shapes :: "jsobj \<Rightarrow> (string \<times> string \<times> nat option) list" where
  "field_shapes message =
     map (\<lambda>(k, v). (audit_key k, type_name v, shown_length v)) (take 32 (own_fields (getp message ''params'')))"

section \<open>Messages of the client\<close>

definition denied :: "jsval \<Rightarrow> jsobj" where
  "denied rid = [(''id'', rid), (''error'', JObj [(''code'', jint (- 32601)), (''message'', JStr ''Codex private client is read only'')])]"

definition set_client :: "nat \<Rightarrow> client_data \<Rightarrow> gate \<Rightarrow> gate" where
  "set_client c d g = g\<lparr>clients := put c d (clients g)\<rparr>"

text \<open>\<open>None\<close> is the exception of a full queue.\<close>

definition send_or_queue :: "nat \<Rightarrow> bool \<Rightarrow> jsobj \<Rightarrow> client_data \<Rightarrow> (client_data \<times> emission list) option" where
  "send_or_queue c works message d =
     (if owner_set d \<and> queue d = [] then
        (if works then Some (d, [ToOwner c message]) else Some (d\<lparr>queue := queue d @ [message]\<rparr>, []))
      else if length (queue d) \<ge> max_queue then None
      else Some (d\<lparr>queue := queue d @ [message]\<rparr>, []))"

definition initialized_message :: jsobj where
  "initialized_message = [(''method'', JStr ''initialized''), (''params'', JObj [])]"

definition is_initialized :: "jsobj \<Rightarrow> bool" where
  "is_initialized request \<longleftrightarrow>
     getp request ''id'' = Undef \<and> getp request ''method'' = JStr ''initialized'' \<and> own_fields (getp request ''params'') = []"

datatype verdict =
    PageVerdict string jsobj
  | SectionVerdict jsval int
  | ReadVerdict jsobj
  | TurnVerdict jsobj
  | DeniedVerdict

definition judge :: "gate_options \<Rightarrow> jsobj \<Rightarrow> verdict" where
  "judge o' request =
     (case (if pages_allowed o' \<and> has_page_reader o' then safe_paginated_page_request request else None) of
        Some (meth, ps) \<Rightarrow> PageVerdict meth ps
      | None \<Rightarrow>
       (case (if sections_allowed o' \<and> has_section_reader o' then safe_thread_section_list_request request else None) of
          Some (cursor, limit) \<Rightarrow> SectionVerdict cursor limit
        | None \<Rightarrow>
         (case safe_app_request request (legacy_read o') (metadata_read o') of
            Some r \<Rightarrow> ReadVerdict r
          | None \<Rightarrow>
           (case safe_fixture_turn_start_request request (fixture_thread o') (orbit_tool o') of
              Some r \<Rightarrow> TurnVerdict r
            | None \<Rightarrow> DeniedVerdict))))"

definition page_error :: "jsval \<Rightarrow> jsobj" where
  "page_error rid = fail_reply rid ''Codex page unavailable''"

definition section_error :: "jsval \<Rightarrow> jsobj" where
  "section_error rid = fail_reply rid ''Codex sections unavailable''"

definition new_job :: "nat \<Rightarrow> read_kind \<Rightarrow> string \<Rightarrow> jsval \<Rightarrow> int \<Rightarrow> job" where
  "new_job c kind key rid limit =
     \<lparr>j_client = c, j_kind = kind, j_key = key, j_rid = rid, j_limit = limit, j_settled = False, j_answered = False\<rparr>"

definition start_page_read ::
  "nat \<Rightarrow> string \<Rightarrow> jsval \<Rightarrow> string \<Rightarrow> jsobj \<Rightarrow> client_data \<Rightarrow> gate \<Rightarrow> gate \<times> emission list" where
  "start_page_read c key rid meth ps d g =
     (if active_pages g \<ge> max_active_readers then (g, [ToClient c (page_error rid)])
      else (set_client c (d\<lparr>pages := pages d @ [key]\<rparr>)
              (g\<lparr>active_pages := active_pages g + 1,
                 jobs := jobs g @ [new_job c PageRead key rid (int_of_val (getp ps ''limit''))]\<rparr>),
            [AskPage meth ps]))"

definition start_section_read ::
  "nat \<Rightarrow> string \<Rightarrow> jsval \<Rightarrow> jsval \<Rightarrow> int \<Rightarrow> client_data \<Rightarrow> gate \<Rightarrow> gate \<times> emission list" where
  "start_section_read c key rid cursor limit d g =
     (if active_sections g \<ge> max_active_readers then (g, [ToClient c (section_error rid)])
      else (set_client c (d\<lparr>pages := pages d @ [key]\<rparr>)
              (g\<lparr>active_sections := active_sections g + 1,
                 jobs := jobs g @ [new_job c SectionRead key rid limit]\<rparr>),
            [AskSection cursor limit]))"

definition thread_of_request :: "jsobj \<Rightarrow> string option" where
  "thread_of_request r =
     (case field_of (getp r ''params'') ''threadId'' of JStr t \<Rightarrow> Some t | _ \<Rightarrow> None)"

definition pending_of :: "bool \<Rightarrow> jsobj \<Rightarrow> pending_request" where
  "pending_of is_turn r =
     \<lparr>pr_method = str_of (getp r ''method''),
      pr_metadata = (if getp r ''method'' = JStr ''thread/read'' \<and> field_of (getp r ''params'') ''includeTurns'' = JBool False
        then thread_of_request r else None),
      pr_fixture = (if is_turn then thread_of_request r else None)\<rparr>"

definition new_scope :: "nat \<Rightarrow> string \<Rightarrow> string \<Rightarrow> scope" where
  "new_scope uid thread key =
     \<lparr>sc_uid = uid, sc_thread = thread, sc_pending = Some key, sc_turn = None, sc_buffered = [], sc_count = 0\<rparr>"

definition forward_request ::
  "nat \<Rightarrow> bool \<Rightarrow> bool \<Rightarrow> string \<Rightarrow> jsobj \<Rightarrow> client_data \<Rightarrow> gate \<Rightarrow> gate \<times> emission list" where
  "forward_request c works is_turn key r d g =
     (let d1 = (case (if is_turn then thread_of_request r else None) of
                  Some t \<Rightarrow> d\<lparr>fixture := Some (new_scope (next_scope g) t key)\<rparr> | None \<Rightarrow> d);
          d2 = d1\<lparr>pending := put key (pending_of is_turn r) (pending d1)\<rparr>;
          g1 = (if is_turn then g\<lparr>next_scope := next_scope g + 1\<rparr> else g)
      in (case send_or_queue c works r d2 of
            None \<Rightarrow> (set_client c d2 g1, [Terminate c])
          | Some (d3, outs) \<Rightarrow> (set_client c d3 g1, outs)))"

definition judged_request ::
  "gate_options \<Rightarrow> nat \<Rightarrow> bool \<Rightarrow> jsobj \<Rightarrow> string \<Rightarrow> client_data \<Rightarrow> gate \<Rightarrow> gate \<times> emission list" where
  "judged_request o' c works request key d g =
     (let rid = getp request ''id''; v = judge o' request in
      if v = DeniedVerdict \<or> ((case v of TurnVerdict r \<Rightarrow> True | _ \<Rightarrow> False) \<and> fixture d \<noteq> None)
      then (g, [ToClient c (denied rid)])
      else if length (pending d) + length (pages d) \<ge> max_outstanding then (g, [Terminate c])
      else if key \<in> keys (pending d) \<or> key \<in> set (pages d) then (g, [Terminate c])
      else (case v of
          PageVerdict meth ps \<Rightarrow> start_page_read c key rid meth ps d g
        | SectionVerdict cursor limit \<Rightarrow> start_section_read c key rid cursor limit d g
        | ReadVerdict r \<Rightarrow> forward_request c works False key r d g
        | TurnVerdict r \<Rightarrow> forward_request c works True key r d g
        | DeniedVerdict \<Rightarrow> (g, [])))"

definition request_audits :: "gate_options \<Rightarrow> jsobj \<Rightarrow> emission list" where
  "request_audits o' request =
     AuditMethod (audit_name (getp request ''method'')) (judge o' request \<noteq> DeniedVerdict)
     # (if audit_name (getp request ''method'') = ''thread/list'' then [AuditFields (field_shapes request)] else [])"

definition client_message ::
  "gate_options \<Rightarrow> nat \<Rightarrow> bool \<Rightarrow> jsobj option \<Rightarrow> gate \<Rightarrow> gate \<times> emission list" where
  "client_message o' c works parsed g =
     (case map_of (clients g) c of
        None \<Rightarrow> (g, [])
      | Some d \<Rightarrow>
       (case parsed of
          None \<Rightarrow> (g, [Terminate c])
        | Some request \<Rightarrow>
           (case request_id (getp request ''id'') of
              None \<Rightarrow>
                if is_initialized request then
                  (case send_or_queue c works initialized_message d of
                     None \<Rightarrow> (g, [AuditMethod ''initialized'' True, Terminate c])
                   | Some (d', outs) \<Rightarrow> (set_client c d' g, AuditMethod ''initialized'' True # outs))
                else (g, [Terminate c])
            | Some key \<Rightarrow>
                (let (g', outs) = judged_request o' c works request key d g
                 in (g', request_audits o' request @ outs)))))"

section \<open>Answers of the readers\<close>

definition reader_answer :: "(jsval \<Rightarrow> nat) \<Rightarrow> nat \<Rightarrow> job \<Rightarrow> jsval option \<Rightarrow> jsobj" where
  "reader_answer sz max_bytes j outcome =
     (case j_kind j of
        PageRead \<Rightarrow>
          (case outcome of
             None \<Rightarrow> page_error (j_rid j)
           | Some v \<Rightarrow> (case safe_paginated_page_response sz (j_rid j) v (j_limit j) max_bytes of
               None \<Rightarrow> page_error (j_rid j) | Some r \<Rightarrow> r))
      | SectionRead \<Rightarrow>
          (case outcome of
             None \<Rightarrow> section_error (j_rid j)
           | Some v \<Rightarrow> (case safe_thread_section_list_response sz (j_rid j) v (j_limit j) max_bytes of
               None \<Rightarrow> section_error (j_rid j) | Some r \<Rightarrow> r)))"

definition answer_job :: "(jsval \<Rightarrow> nat) \<Rightarrow> nat \<Rightarrow> nat \<Rightarrow> jsval option \<Rightarrow> gate \<Rightarrow> gate \<times> emission list" where
  "answer_job sz max_bytes k outcome g =
     (let j = jobs g ! k; c = j_client j;
          g1 = g\<lparr>jobs := (jobs g)[k := j\<lparr>j_answered := True\<rparr>]\<rparr>;
          g2 = (case map_of (clients g) c of
                  None \<Rightarrow> g1
                | Some d \<Rightarrow> set_client c (d\<lparr>pages := removeAll (j_key j) (pages d)\<rparr>) g1)
      in (g2, [ToClient c (reader_answer sz max_bytes j outcome)]))"

definition reader_done :: "read_kind \<Rightarrow> gate \<Rightarrow> gate" where
  "reader_done kind g =
     (case kind of PageRead \<Rightarrow> g\<lparr>active_pages := active_pages g - 1\<rparr>
      | SectionRead \<Rightarrow> g\<lparr>active_sections := active_sections g - 1\<rparr>)"

text \<open>The reader's promise settles, once.\<close>

definition settle_read :: "(jsval \<Rightarrow> nat) \<Rightarrow> nat \<Rightarrow> nat \<Rightarrow> jsval option \<Rightarrow> gate \<Rightarrow> gate \<times> emission list" where
  "settle_read sz max_bytes k outcome g =
     (if k < length (jobs g) \<and> \<not> j_settled (jobs g ! k) then
        (let j = jobs g ! k;
             g1 = reader_done (j_kind j) (g\<lparr>jobs := (jobs g)[k := j\<lparr>j_settled := True\<rparr>]\<rparr>)
         in if j_answered j then (g1, []) else answer_job sz max_bytes k outcome g1)
      else (g, []))"

text \<open>The five seconds are over before the reader settled.\<close>

definition time_out_read :: "(jsval \<Rightarrow> nat) \<Rightarrow> nat \<Rightarrow> nat \<Rightarrow> gate \<Rightarrow> gate \<times> emission list" where
  "time_out_read sz max_bytes k g =
     (if k < length (jobs g) \<and> \<not> j_answered (jobs g ! k) then answer_job sz max_bytes k None g else (g, []))"

section \<open>Messages of the owner\<close>

definition shape_audit :: "jsobj \<Rightarrow> bool \<Rightarrow> emission" where
  "shape_audit message ok = AuditShape (audit_name (getp message ''method'')) (audit_keys message) ok"

definition scope_audit :: "gate_options \<Rightarrow> jsobj \<Rightarrow> bool \<Rightarrow> emission list" where
  "scope_audit o' message ok = (if fixture_pinned o' then [shape_audit message ok] else [])"

text \<open>A notification of the owner: without an id, with a method.\<close>

definition owner_notification ::
  "gate_options \<Rightarrow> (jsval \<Rightarrow> nat) \<Rightarrow> nat \<Rightarrow> nat \<Rightarrow> jsobj \<Rightarrow> client_data \<Rightarrow> client_data \<times> emission list" where
  "owner_notification o' sz c bytes message d =
     (let deny = (d, scope_audit o' message False) in
      case fixture d of
        None \<Rightarrow> deny
      | Some sc \<Rightarrow>
          if bytes > max_fixture_notification_bytes then deny
          else if field_of (getp message ''params'') ''threadId'' \<noteq> JStr (sc_thread sc)
            \<or> contains_credential (getp message ''params'') 0 then deny
          else (case sc_turn sc of
              None \<Rightarrow>
                if sc_pending sc = None \<or> length (sc_buffered sc) \<ge> max_buffered then deny
                else (d\<lparr>fixture := Some (sc\<lparr>sc_buffered := sc_buffered sc @ [message]\<rparr>)\<rparr>, [])
            | Some turn \<Rightarrow>
               (case fixture_notification sz message (sc_thread sc) turn of
                  Inl u \<Rightarrow> (d, [Terminate c])
                | Inr None \<Rightarrow> deny
                | Inr (Some notification) \<Rightarrow>
                    (let sc' = sc\<lparr>sc_count := sc_count sc + 1\<rparr> in
                     if sc_count sc' > max_notifications then (d\<lparr>fixture := Some sc'\<rparr>, [Terminate c])
                     else (d\<lparr>fixture := (if getp message ''method'' = JStr ''turn/completed'' then None else Some sc')\<rparr>,
                           ToClient c notification # scope_audit o' message True)))))"

text \<open>
  The notifications that came before the answer to the turn, in their order. The result is the scope,
  whether it is still the client's, whether the loop threw, and the emissions.
\<close>

fun deliver_buffered ::
  "(jsval \<Rightarrow> nat) \<Rightarrow> nat \<Rightarrow> string \<Rightarrow> jsobj list \<Rightarrow> scope \<Rightarrow> bool \<Rightarrow> scope \<times> bool \<times> bool \<times> emission list" where
  "deliver_buffered sz c turn [] sc current = (sc, current, False, [])"
| "deliver_buffered sz c turn (message # rest) sc current =
     (case fixture_notification sz message (sc_thread sc) turn of
        Inl u \<Rightarrow> (sc, current, True, [])
      | Inr None \<Rightarrow>
          (case deliver_buffered sz c turn rest sc current of
             (sc', current', threw, outs) \<Rightarrow> (sc', current', threw, shape_audit message False # outs))
      | Inr (Some notification) \<Rightarrow>
          (let sc1 = sc\<lparr>sc_count := sc_count sc + 1\<rparr> in
           if sc_count sc1 > max_notifications then (sc1, current, True, [])
           else (case deliver_buffered sz c turn rest sc1 (current \<and> getp message ''method'' \<noteq> JStr ''turn/completed'') of
               (sc', current', threw, outs) \<Rightarrow>
                 (sc', current', threw, ToClient c notification # shape_audit message True # outs))))"

definition started_notification :: "string \<Rightarrow> string \<Rightarrow> jsobj" where
  "started_notification thread turn =
     [(''method'', JStr ''turn/started''), (''params'', JObj [(''threadId'', JStr thread),
        (''turn'', JObj [(''id'', JStr turn), (''status'', JStr ''inProgress''), (''items'', JArr []), (''error'', Null)])])]"

text \<open>The answer to the start of a fixture turn opens its scope.\<close>

definition open_turn ::
  "gate_options \<Rightarrow> (jsval \<Rightarrow> nat) \<Rightarrow> nat \<Rightarrow> string \<Rightarrow> string \<Rightarrow> jsobj \<Rightarrow> client_data \<Rightarrow> client_data \<times> emission list" where
  "open_turn o' sz c key thread response d =
     (let turn_id = field_of (field_of (getp response ''result'') ''turn'') ''id'' in
      case fixture d of
        None \<Rightarrow> (d, [])
      | Some sc \<Rightarrow>
          if sc_pending sc \<noteq> Some key \<or> sc_thread sc \<noteq> thread \<or> \<not> uuid_value turn_id
          then (d\<lparr>fixture := None\<rparr>, [])
          else
            (let turn = str_of turn_id; sc1 = sc\<lparr>sc_pending := None, sc_turn := Some turn\<rparr> in
             case deliver_buffered sz c turn (sc_buffered sc1) sc1 True of
               (sc2, current, threw, outs) \<Rightarrow>
                 if threw then (d\<lparr>fixture := (if current then Some sc2 else None)\<rparr>, outs @ [Terminate c])
                 else
                   (let sc3 = sc2\<lparr>sc_buffered := []\<rparr> in
                    (d\<lparr>fixture := (if current then Some sc3 else None)\<rparr>,
                     outs @ (if poll_saved o' \<and> current
                       then (if sc_count sc3 = 0 then [ToClient c (started_notification thread turn)] else [])
                         @ [StartPoll c (sc_uid sc3)]
                       else [])))))"

definition owner_response ::
  "gate_options \<Rightarrow> (jsval \<Rightarrow> nat) \<Rightarrow> nat \<Rightarrow> string \<Rightarrow> jsobj \<Rightarrow> client_data \<Rightarrow> client_data \<times> emission list" where
  "owner_response o' sz c key message d =
     (case map_of (pending d) key of
        None \<Rightarrow> (d, [])
      | Some p \<Rightarrow>
          (let d1 = d\<lparr>pending := del key (pending d)\<rparr> in
           if pr_method p \<noteq> ''account/read'' \<and> pr_method p \<noteq> ''getAuthStatus''
              \<and> contains_credential (getp message ''result'') 0 then (d1, [Terminate c])
           else
             (let response = app_response sz message (pr_method p) (pr_metadata p) in
              case pr_fixture p of
                None \<Rightarrow> (d1, [ToClient c response])
              | Some thread \<Rightarrow>
                  if thread = [] then (d1, [ToClient c response])
                  else (case open_turn o' sz c key thread response d1 of (d2, outs) \<Rightarrow> (d2, ToClient c response # outs)))))"

definition owner_message ::
  "gate_options \<Rightarrow> (jsval \<Rightarrow> nat) \<Rightarrow> nat \<Rightarrow> nat \<Rightarrow> jsobj option \<Rightarrow> gate \<Rightarrow> gate \<times> emission list" where
  "owner_message o' sz c bytes parsed g =
     (case (map_of (clients g) c, parsed) of
        (None, _) \<Rightarrow> (g, [])
      | (Some d, None) \<Rightarrow> (g, [Terminate c])
      | (Some d, Some message) \<Rightarrow>
          (let rid = getp message ''id''; has_method = getp message ''method'' \<noteq> Undef in
           case request_id rid of
             None \<Rightarrow>
               if rid = Undef \<and> has_method
               then (case owner_notification o' sz c bytes message d of (d', outs) \<Rightarrow> (set_client c d' g, outs))
               else (g, [])
           | Some key \<Rightarrow>
               if has_method then (g, [])
               else (case owner_response o' sz c key message d of (d', outs) \<Rightarrow> (set_client c d' g, outs))))"

section \<open>Polling the saved turn\<close>

text \<open>
  One attempt, from the moment the page reader answered. \<open>Some\<close> the saved turn when the page is
  usable and holds it in a final state; a throw counts as an attempt without effect.
\<close>

definition saved_turn :: "(jsval \<Rightarrow> nat) \<Rightarrow> nat \<Rightarrow> scope \<Rightarrow> jsval \<Rightarrow> (unit, jsobj option) result" where
  "saved_turn sz max_bytes sc raw =
     (case sc_turn sc of
        None \<Rightarrow> Ok None
      | Some turn \<Rightarrow>
         (case safe_paginated_page_response sz (JStr ''fixture-poll'') raw 50 max_bytes of
            None \<Rightarrow> Ok None
          | Some response \<Rightarrow>
             (case field_of (getp response ''result'') ''data'' of
                JArr items \<Rightarrow>
                  (case List.find (\<lambda>item. field_of item ''id'' = JStr turn) items of
                     None \<Rightarrow> Ok None
                   | Some saved \<Rightarrow> fixture_turn saved turn)
              | _ \<Rightarrow> Ok None)))"

definition item_event :: "scope \<Rightarrow> string \<Rightarrow> jsval \<Rightarrow> jsobj" where
  "item_event sc turn item = [(''method'', JStr ''item/completed''),
     (''params'', JObj [(''threadId'', JStr (sc_thread sc)), (''turnId'', JStr turn), (''item'', item)])]"

definition completion_event :: "scope \<Rightarrow> jsobj \<Rightarrow> jsobj" where
  "completion_event sc fs = [(''method'', JStr ''turn/completed''),
     (''params'', JObj [(''threadId'', JStr (sc_thread sc)), (''turn'', JObj fs)])]"

definition agent_items :: "jsobj \<Rightarrow> jsval list" where
  "agent_items fs = (case getp fs ''items'' of
     JArr items \<Rightarrow> filter (\<lambda>item. field_of item ''type'' = JStr ''agentMessage'') items | _ \<Rightarrow> [])"

definition poll_attempt ::
  "(jsval \<Rightarrow> nat) \<Rightarrow> nat \<Rightarrow> nat \<Rightarrow> nat \<Rightarrow> jsval \<Rightarrow> client_data \<Rightarrow> client_data \<times> emission list" where
  "poll_attempt sz max_bytes c uid raw d =
     (case fixture d of
        None \<Rightarrow> (d, [])
      | Some sc \<Rightarrow>
          if sc_uid sc \<noteq> uid then (d, [])
          else (case saved_turn sz max_bytes sc raw of
              Inl u \<Rightarrow> (d, [])
            | Inr None \<Rightarrow> (d, [])
            | Inr (Some fs) \<Rightarrow>
                if getp fs ''status'' = JStr ''inProgress'' then (d, [])
                else
                  (let turn = (case sc_turn sc of Some t \<Rightarrow> t | None \<Rightarrow> []);
                       event = (case agent_items fs of
                         [] \<Rightarrow> []
                       | item # _ \<Rightarrow>
                           if sz (JObj (item_event sc turn item)) \<le> max_fixture_notification_bytes
                           then [ToClient c (item_event sc turn item)] else [])
                   in if sz (JObj (completion_event sc fs)) > max_fixture_notification_bytes then (d, event)
                      else (d\<lparr>fixture := None\<rparr>,
                            event @ [ToClient c (completion_event sc fs),
                              AuditShape ''fixture/savedTurn/completed'' [''threadId'', ''turn''] True]))))"

section \<open>Connections and the step\<close>

text \<open>\<open>sent\<close> is the number of queued messages the owner's socket takes before a send throws.\<close>

definition owner_ready :: "nat \<Rightarrow> nat \<Rightarrow> gate \<Rightarrow> gate \<times> emission list" where
  "owner_ready c sent g =
     (case map_of (clients g) c of
        None \<Rightarrow> (g, [])
      | Some d \<Rightarrow>
          if sent < length (queue d) then (g, map (ToOwner c) (take sent (queue d)) @ [Terminate c])
          else (set_client c (d\<lparr>queue := []\<rparr>) g, map (ToOwner c) (queue d)))"

definition open_client :: "nat \<Rightarrow> bool \<Rightarrow> gate \<Rightarrow> gate \<times> emission list" where
  "open_client c works g =
     (if c \<in> keys (clients g) then (g, [])
      else if works then (set_client c (fresh_client\<lparr>owner_set := True\<rparr>) g, [])
      else (set_client c fresh_client g, [Terminate c]))"

definition close_client :: "nat \<Rightarrow> gate \<Rightarrow> gate \<times> emission list" where
  "close_client c g =
     (case map_of (clients g) c of
        None \<Rightarrow> (g, [])
      | Some d \<Rightarrow> (set_client c (d\<lparr>fixture := None\<rparr>) g, []))"

text \<open>
  The loop around an attempt: at its head it ends after 40 attempts, after 12 seconds, or when the scope is not
  the client's any more; otherwise it asks the page reader. After the answer, whatever it was, comes the pause
  of 250 ms and the head again, unless the turn was completed. A loop is known by its scope.
\<close>

definition poll_request :: "scope \<Rightarrow> jsobj" where
  "poll_request sc = [(''method'', JStr ''thread/turns/list''),
     (''params'', JObj [(''threadId'', JStr (sc_thread sc)), (''readOnly'', JBool True), (''limit'', jint 50),
        (''sortDirection'', JStr ''asc''), (''itemsView'', JStr ''full'')])]"

definition polled_scope :: "nat \<Rightarrow> nat \<Rightarrow> gate \<Rightarrow> scope option" where
  "polled_scope c uid g =
     (case map_of (clients g) c of
        None \<Rightarrow> None
      | Some d \<Rightarrow> (case fixture d of None \<Rightarrow> None | Some sc \<Rightarrow> if sc_uid sc = uid then Some sc else None))"

definition poll_head :: "int \<Rightarrow> nat \<Rightarrow> poll \<Rightarrow> gate \<Rightarrow> gate \<times> emission list" where
  "poll_head now uid p g =
     (case polled_scope (pl_client p) uid g of
        Some sc \<Rightarrow>
          if pl_attempt p < max_poll_attempts \<and> now < pl_deadline p
          then (g\<lparr>polls := put uid (p\<lparr>pl_reading := True\<rparr>) (polls g)\<rparr>, [PollPage uid (poll_request sc)])
          else (g\<lparr>polls := del uid (polls g)\<rparr>, [])
      | None \<Rightarrow> (g\<lparr>polls := del uid (polls g)\<rparr>, []))"

fun start_polls :: "int \<Rightarrow> emission list \<Rightarrow> gate \<Rightarrow> gate \<times> emission list" where
  "start_polls now [] g = (g, [])"
| "start_polls now (StartPoll c uid # outs) g =
     (case poll_head now uid \<lparr>pl_client = c, pl_attempt = 0, pl_deadline = now + poll_window, pl_reading = False\<rparr> g of
        (g', asked) \<Rightarrow> (case start_polls now outs g' of (g'', rest) \<Rightarrow> (g'', asked @ rest)))"
| "start_polls now (_ # outs) g = start_polls now outs g"

definition poll_turn :: "nat \<Rightarrow> int \<Rightarrow> gate \<Rightarrow> gate \<times> emission list" where
  "poll_turn uid now g =
     (case map_of (polls g) uid of
        Some p \<Rightarrow> if pl_reading p then (g, []) else poll_head now uid p g
      | None \<Rightarrow> (g, []))"

definition poll_answered :: "(jsval \<Rightarrow> nat) \<Rightarrow> nat \<Rightarrow> nat \<Rightarrow> jsval option \<Rightarrow> gate \<Rightarrow> gate \<times> emission list" where
  "poll_answered sz max_bytes uid raw g =
     (case map_of (polls g) uid of
        None \<Rightarrow> (g, [])
      | Some p \<Rightarrow>
          if \<not> pl_reading p then (g, [])
          else
            (let g1 = g\<lparr>polls := put uid (p\<lparr>pl_attempt := pl_attempt p + 1, pl_reading := False\<rparr>) (polls g)\<rparr>;
                 c = pl_client p
             in case (map_of (clients g) c, raw) of
                  (Some d, Some v) \<Rightarrow>
                    (case poll_attempt sz max_bytes c uid v d of
                       (d', outs) \<Rightarrow>
                         (if fixture d \<noteq> None \<and> fixture d' = None
                          then (set_client c d' g)\<lparr>polls := del uid (polls g)\<rparr> else set_client c d' g1, outs))
                | _ \<Rightarrow> (g1, [])))"

text \<open>
  \<open>FromOwner\<close> carries the time, which a poll it starts takes its deadline from; the loop's first head follows at
  once, in the same callback.
\<close>

datatype gate_event =
    Opened nat bool
  | OwnerReady nat nat
  | FromClient nat bool "jsobj option"
  | FromOwner int nat nat "jsobj option"
  | ReaderSettled nat "jsval option"
  | ReaderTimedOut nat
  | PollTurn nat int
  | PollAnswered nat "jsval option"
  | Closed nat

definition owner_event ::
  "gate_options \<Rightarrow> (jsval \<Rightarrow> nat) \<Rightarrow> int \<Rightarrow> nat \<Rightarrow> nat \<Rightarrow> jsobj option \<Rightarrow> gate \<Rightarrow> gate \<times> emission list" where
  "owner_event o' sz now c bytes parsed g =
     (case owner_message o' sz c bytes parsed g of
        (g', outs) \<Rightarrow> (case start_polls now outs g' of (g'', asked) \<Rightarrow> (g'', outs @ asked)))"

fun gate_step :: "gate_options \<Rightarrow> (jsval \<Rightarrow> nat) \<Rightarrow> nat \<Rightarrow> gate_event \<Rightarrow> gate \<Rightarrow> gate \<times> emission list" where
  "gate_step o' sz mb (Opened c works) g = open_client c works g"
| "gate_step o' sz mb (OwnerReady c sent) g = owner_ready c sent g"
| "gate_step o' sz mb (FromClient c works parsed) g = client_message o' c works parsed g"
| "gate_step o' sz mb (FromOwner now c bytes parsed) g = owner_event o' sz now c bytes parsed g"
| "gate_step o' sz mb (ReaderSettled k outcome) g = settle_read sz mb k outcome g"
| "gate_step o' sz mb (ReaderTimedOut k) g = time_out_read sz mb k g"
| "gate_step o' sz mb (PollTurn uid now) g = poll_turn uid now g"
| "gate_step o' sz mb (PollAnswered uid raw) g = poll_answered sz mb uid raw g"
| "gate_step o' sz mb (Closed c) g = close_client c g"

text \<open>All emissions of a sequence of events, from the gate as it starts.\<close>

fun gate_run :: "gate_options \<Rightarrow> (jsval \<Rightarrow> nat) \<Rightarrow> nat \<Rightarrow> gate_event list \<Rightarrow> gate \<Rightarrow> gate \<times> emission list" where
  "gate_run o' sz mb [] g = (g, [])"
| "gate_run o' sz mb (e # es) g =
     (let (g1, outs) = gate_step o' sz mb e g; (g2, outs') = gate_run o' sz mb es g1 in (g2, outs @ outs'))"

end
