(* ===== verification/CodexGateFacts.thy ===== *)
theory CodexGateFacts
  imports CodexGate
begin

text \<open>
  What holds of the gate process over every sequence of events: its bounds and bookkeeping, what can
  leave it towards the client, and what can leave it towards the owner.
\<close>

section \<open>What may pass in each direction\<close>

text \<open>A message for the client: of the known fields only, no part of it with the name of a credential.\<close>

definition clean_message :: "jsobj \<Rightarrow> bool" where
  "clean_message m \<longleftrightarrow> only_keys [''id'', ''method'', ''params'', ''result'', ''error''] m
     \<and> no_secret 0 (getp m ''id'') \<and> no_secret 0 (getp m ''params'')
     \<and> no_secret 0 (getp m ''result'') \<and> no_secret 0 (getp m ''error'')"

definition pinned_turn :: "gate_options \<Rightarrow> jsobj \<Rightarrow> bool" where
  "pinned_turn o' m \<longleftrightarrow> (\<exists>t s. fixture_thread o' = Some t \<and> is_uuid t
     \<and> s \<noteq> [] \<and> utf8_bytes s \<le> max_fixture_turn_text_bytes \<and> char_of (0::nat) \<notin> set s
     \<and> getp m ''method'' = JStr ''turn/start''
     \<and> getp m ''params'' = JObj
         [(''threadId'', JStr t), (''input'', JArr [JObj [(''type'', JStr ''text''), (''text'', JStr s)]]),
          (''allowedTools'', JArr (if orbit_tool o'
             then [JObj [(''namespace'', JStr ''mcp__orbit_private''), (''name'', JStr ''orbit_act'')]] else []))])"

definition owner_bound :: "gate_options \<Rightarrow> jsobj \<Rightarrow> bool" where
  "owner_bound o' m \<longleftrightarrow> m = initialized_message
     \<or> safe_app_request m (legacy_read o') (metadata_read o') = Some m \<or> pinned_turn o' m"

definition emission_ok :: "gate_options \<Rightarrow> emission \<Rightarrow> bool" where
  "emission_ok o' e = (case e of ToClient c m \<Rightarrow> clean_message m | ToOwner c m \<Rightarrow> owner_bound o' m | _ \<Rightarrow> True)"

lemma emission_ok_simps [simp]:
  "emission_ok o' (ToClient c m) \<longleftrightarrow> clean_message m" "emission_ok o' (ToOwner c m) \<longleftrightarrow> owner_bound o' m"
  "emission_ok o' (AskPage a b)" "emission_ok o' (AskSection v n)" "emission_ok o' (AuditMethod a t)"
  "emission_ok o' (AuditShape a l t)" "emission_ok o' (AuditFields q)" "emission_ok o' (StartPoll c k)"
  "emission_ok o' (PollPage k m)"
  "emission_ok o' (Terminate c)"
  by (simp_all add: emission_ok_def)

lemma getp_absent: "k \<notin> fst ` set fs \<Longrightarrow> getp fs k = Undef"
  by (auto simp: getp_def map_of_eq_None_iff split: option.splits dest!: map_of_SomeD intro: rev_image_eqI)

lemma request_id_plain: "request_id v = Some key \<Longrightarrow> plain v"
  by (cases v) (auto simp: request_id_def is_safe_integer_def split: if_splits)

lemma error_no_secret [simp]: "no_secret 0 (JObj [(''code'', jint n), (''message'', JStr t)])"
  by (rule no_secret_written) (simp_all add: written_names_def)

lemma clean_error [simp]:
  "plain rid \<Longrightarrow> clean_message (fail_reply rid t)"
  "plain rid \<Longrightarrow> clean_message (denied rid)"
  "plain rid \<Longrightarrow> clean_message (page_error rid)"
  "plain rid \<Longrightarrow> clean_message (section_error rid)"
  by (simp_all add: clean_message_def fail_reply_def denied_def page_error_def section_error_def only_keys_def del: no_secret_JObj)

lemma clean_reply: "plain rid \<Longrightarrow> no_secret 0 r \<Longrightarrow> clean_message [(''id'', rid), (''result'', r)]"
  by (simp add: clean_message_def only_keys_def)

lemma page_response_clean:
  assumes "safe_paginated_page_response sz rid v limit mb = Some r" and "plain rid"
  shows "clean_message r"
  using assms by (auto simp: safe_paginated_page_response_def Let_def no_secret_def
      split: option.splits jsval.splits if_splits intro!: clean_reply)

lemma all_or_none_set: "all_or_none f xs = Some ys \<Longrightarrow> y \<in> set ys \<Longrightarrow> \<exists>x \<in> set xs. f x = Some y"
  by (induction xs arbitrary: ys) (auto split: option.splits)

lemma listed_section_no_secret: "safe_section v = Some w \<Longrightarrow> d \<le> 30 \<Longrightarrow> no_secret d w"
proof -
  have *: "no_secret (Suc d) (JObj [(''icon'', a), (''color'', b)])" if "plain a" "plain b" "d \<le> 30" for a b d
    by (rule no_secret_written) (use that in \<open>auto simp: written_names_def\<close>)
  assume "safe_section v = Some w" and d: "d \<le> 30"
  then obtain sec icon color a where w: "w = JObj [(''id'', getp sec ''id''), (''name'', getp sec ''name''), (''appearance'', a)]" and q: "uuid_value (getp sec ''id'')" "bounded_metadata_text (getp sec ''name'') 512"
    and a: "a = Null \<or> a = JObj [(''icon'', icon), (''color'', color)]"
    and ic: "nullable_metadata_text icon 64" "nullable_metadata_text color 64"
    unfolding safe_section_def Let_def by (auto split: option.splits if_splits)
  note p = uuid_plain [OF q(1)] bounded_plain [OF q(2)] nullable_plain [OF ic(1)] nullable_plain [OF ic(2)]
  have "no_secret (Suc d) a" using a * [OF p(3,4) d] d by auto
  then show ?thesis
    unfolding w using p(1,2) d by (intro no_secret_written) (simp_all add: written_names_def del: no_secret_JObj)
qed

lemma section_response_clean:
  assumes "safe_thread_section_list_response sz rid v limit mb = Some r" and "plain rid"
  shows "clean_message r"
proof -
  obtain val items data where d: "all_or_none safe_section items = Some data" and c: "cursor_ok (getp val ''nextCursor'')"
    and r: "r = [(''id'', rid), (''result'', JObj
                              [(''data'', JArr data), (''nextCursor'', nullish_or (getp val ''nextCursor'') Null)])]"
    using assms(1) unfolding safe_thread_section_list_response_def Let_def
    by (auto split: option.splits jsval.splits if_splits)
  have 1: "plain (nullish_or (getp val ''nextCursor'') Null)"
    using c by (auto simp: cursor_ok_def nullish_or_def)
  have 2: "no_secret (Suc 0) (JArr data)"
  proof -
    have "no_secret (Suc (Suc 0)) y" if "y \<in> set data" for y
      using all_or_none_set [OF d that] listed_section_no_secret [where d = "Suc (Suc 0)"] by auto
    then show ?thesis by (simp add: list_all_iff)
  qed
  have "no_secret 0 (JObj [(''data'', JArr data), (''nextCursor'', nullish_or (getp val ''nextCursor'') Null)])"
    using 1 2 by (intro no_secret_written) (simp_all add: written_names_def del: no_secret_JArr no_secret_JObj)
  then show ?thesis unfolding r by (rule clean_reply [OF assms(2)])
qed

lemma fixture_status_not_object:
  assumes "fixture_turn v t = Inr (Some fs)"
  shows "\<exists>ys. getp fs ''items'' = JArr ys \<and> list_all (no_secret 2) ys"
  using assms
  by (auto simp: fixture_turn_def map_filter_def list_all_iff agent_message_no_secret split: option.splits if_splits jsval.splits)

lemma notification_clean:
  assumes "fixture_notification sz m th tu = Inr (Some out)"
  shows "clean_message out"
proof -
  have ns: "no_secret 0 (getp out ''params'')" using notification_no_secret [OF assms] by simp
  obtain p where o: "out = [(''method'', getp m ''method''), (''params'', JObj p)]"
    using assms by (auto simp: fixture_notification_def Let_def and_then_Ok_iff split: option.splits if_splits)
  show ?thesis using ns unfolding o by (simp add: clean_message_def only_keys_def)
qed

lemma if_both: "P x \<Longrightarrow> P y \<Longrightarrow> P (if b then x else y)"
  by simp

lemma option_both: "P x \<Longrightarrow> (\<And>a. P (f a)) \<Longrightarrow> P (case v of None \<Rightarrow> x | Some a \<Rightarrow> f a)"
  by (cases v) simp_all

lemma app_response_form:
  "\<exists>v t. app_response sz message meth md \<in> {fail_reply (getp message ''id'') t, reply (getp message ''id'') v}"
proof -
  have f: "\<exists>v t. fail_reply rid s \<in> {fail_reply rid t, reply rid v}" for rid s by blast
  have r: "\<exists>v t. [(''id'', rid), (''result'', x)] \<in> {fail_reply rid t, reply rid v}" for rid x
    by (auto simp: reply_def)
  have r': "\<exists>v t. reply rid x \<in> {fail_reply rid t, reply rid v}" for rid x by blast
  have turn: "\<exists>v t. safe_fixture_turn_start_response message \<in> {fail_reply (getp message ''id'') t, reply (getp message ''id'') v}"
    unfolding safe_fixture_turn_start_response_def Let_def
    by (rule if_both [where P = "\<lambda>m. \<exists>v t. m \<in> {fail_reply (getp message ''id'') t, reply (getp message ''id'') v}"], rule f)
      (rule if_both [where P = "\<lambda>m. \<exists>v t. m \<in> {fail_reply (getp message ''id'') t, reply (getp message ''id'') v}"], rule f, rule r)
  define P where "P m \<longleftrightarrow> (\<exists>v t. m \<in> {fail_reply (getp message ''id'') t, reply (getp message ''id'') v})" for m
  have "P (app_response sz message meth md)"
    unfolding app_response_def Let_def
    by (intro if_both [where P = P] option_both [where P = P]) (simp_all only: P_def turn f r')
  then show ?thesis by (simp only: P_def)
qed

lemma app_response_clean:
  assumes "plain (getp message ''id'')"
    and "meth \<in> {''account/read'', ''getAuthStatus''} \<or> no_secret 0 (getp message ''result'')"
  shows "clean_message (app_response sz message meth md)"
proof -
  let ?r = "app_response sz message meth md"
  have "no_secret 0 (getp ?r ''result'')" using app_response_no_secret [OF assms(2)] .
  moreover have "(\<exists>t. ?r = fail_reply (getp message ''id'') t) \<or> (\<exists>v. ?r = reply (getp message ''id'') v)"
    using app_response_form [of sz message meth md] by blast
  ultimately show ?thesis using assms(1) by (auto simp: reply_def intro!: clean_reply)
qed

section \<open>The invariant\<close>

definition client_ok :: "gate_options \<Rightarrow> client_data \<Rightarrow> bool" where
  "client_ok o' d \<longleftrightarrow>
     length (pending d) + length (pages d) \<le> max_outstanding
     \<and> wf_map (pending d) \<and> distinct (pages d) \<and> keys (pending d) \<inter> set (pages d) = {}
     \<and> length (queue d) \<le> max_queue \<and> list_all (owner_bound o') (queue d)
     \<and> (case fixture d of None \<Rightarrow> True | Some sc \<Rightarrow> length (sc_buffered sc) \<le> max_buffered)"

definition unsettled :: "read_kind \<Rightarrow> job list \<Rightarrow> nat" where
  "unsettled kind js = length (filter (\<lambda>j. \<not> j_settled j \<and> j_kind j = kind) js)"

definition waiting_keys :: "nat \<Rightarrow> job list \<Rightarrow> string list" where
  "waiting_keys c js = map j_key (filter (\<lambda>j. \<not> j_answered j \<and> j_client j = c) js)"

definition jobs_ok :: "gate \<Rightarrow> bool" where
  "jobs_ok g \<longleftrightarrow>
     list_all (\<lambda>j. request_id (j_rid j) = Some (j_key j) \<and> j_client j \<in> keys (clients g) \<and> (j_settled j \<longrightarrow> j_answered j)) (jobs g)"

definition gate_ok :: "gate_options \<Rightarrow> gate \<Rightarrow> bool" where
  "gate_ok o' g \<longleftrightarrow>
     wf_map (clients g) \<and> jobs_ok g
     \<and> active_pages g = unsettled PageRead (jobs g) \<and> active_sections g = unsettled SectionRead (jobs g)
     \<and> active_pages g \<le> max_active_readers \<and> active_sections g \<le> max_active_readers
     \<and> (\<forall>c d. map_of (clients g) c = Some d \<longrightarrow> client_ok o' d \<and> pages d = waiting_keys c (jobs g))"

lemma gate_ok_client:
  "gate_ok o' g \<Longrightarrow> map_of (clients g) c = Some d \<Longrightarrow> client_ok o' d \<and> pages d = waiting_keys c (jobs g)"
  by (simp add: gate_ok_def)

lemma gate_ok_empty: "gate_ok o' empty_gate"
  by (simp add: gate_ok_def empty_gate_def jobs_ok_def unsettled_def)

text \<open>Replacing the data of one client, its outstanding reads unchanged.\<close>

lemma gate_ok_set_client:
  assumes "gate_ok o' g" and "client_ok o' d" and "pages d = waiting_keys c (jobs g)"
  shows "gate_ok o' (set_client c d g)"
  using assms by (auto simp: gate_ok_def set_client_def jobs_ok_def list_all_iff)

lemma gate_ok_next_scope [simp]: "gate_ok o' (g\<lparr>next_scope := n\<rparr>) = gate_ok o' g"
  by (simp add: gate_ok_def jobs_ok_def)

lemma gate_ok_polls [simp]: "gate_ok o' (g\<lparr>polls := ps\<rparr>) = gate_ok o' g"
  by (simp add: gate_ok_def jobs_ok_def)

lemma set_client_next_scope: "set_client c d (g\<lparr>next_scope := n\<rparr>) = (set_client c d g)\<lparr>next_scope := n\<rparr>"
  by (simp add: set_client_def)

lemma unsettled_append [simp]: "unsettled kind (js @ js') = unsettled kind js + unsettled kind js'"
  by (simp add: unsettled_def)

lemma new_job_simps [simp]:
  "j_client (new_job c kind key rid limit) = c" "j_kind (new_job c kind key rid limit) = kind"
  "j_key (new_job c kind key rid limit) = key" "j_rid (new_job c kind key rid limit) = rid"
  "\<not> j_settled (new_job c kind key rid limit)" "\<not> j_answered (new_job c kind key rid limit)"
  by (simp_all add: new_job_def)

lemma unsettled_new_job [simp]:
  "unsettled kind [new_job c kind' key rid limit] = (if kind = kind' then 1 else 0)"
  by (auto simp: unsettled_def)

lemma waiting_keys_append [simp]: "waiting_keys c (js @ js') = waiting_keys c js @ waiting_keys c js'"
  by (simp add: waiting_keys_def)

lemma waiting_keys_new_job [simp]:
  "waiting_keys c [new_job c' kind key rid limit] = (if c' = c then [key] else [])"
  by (simp add: waiting_keys_def)

lemma list_split_at: "k < length xs \<Longrightarrow> xs = take k xs @ xs ! k # drop (Suc k) xs"
  by (simp add: id_take_nth_drop)

lemma unsettled_update:
  assumes "k < length js"
  shows "unsettled kind (js[k := j]) + (if \<not> j_settled (js ! k) \<and> j_kind (js ! k) = kind then 1 else 0)
    = unsettled kind js + (if \<not> j_settled j \<and> j_kind j = kind then 1 else 0)"
proof -
  have "unsettled kind (js[k := j]) = unsettled kind (take k js @ j # drop (Suc k) js)"
    by (simp add: upd_conv_take_nth_drop assms)
  moreover have "unsettled kind js = unsettled kind (take k js @ js ! k # drop (Suc k) js)"
    using list_split_at [OF assms] by simp
  ultimately show ?thesis by (simp add: unsettled_def)
qed

lemma waiting_keys_answered:
  assumes "k < length js" and "\<not> j_answered (js ! k)" and "distinct (waiting_keys (j_client (js ! k)) js)"
    and "j_answered j" and "j_client j = j_client (js ! k)"
  shows "waiting_keys c (js[k := j]) =
    (if c = j_client (js ! k) then removeAll (j_key (js ! k)) (waiting_keys c js) else waiting_keys c js)"
proof -
  let ?a = "take k js" and ?b = "drop (Suc k) js" and ?j = "js ! k"
  have js: "waiting_keys c' js = waiting_keys c' (?a @ ?j # ?b)" for c' using list_split_at [OF assms(1)] by simp
  have u: "waiting_keys c (js[k := j]) = waiting_keys c ?a @ waiting_keys c ?b"
    using assms(1,4) by (simp add: upd_conv_take_nth_drop) (simp add: waiting_keys_def)
  show ?thesis
  proof (cases "c = j_client ?j")
    case True
    have w: "waiting_keys c js = waiting_keys c ?a @ j_key ?j # waiting_keys c ?b"
      using True assms(2) unfolding js by (simp add: waiting_keys_def)
    then have "j_key ?j \<notin> set (waiting_keys c ?a)" "j_key ?j \<notin> set (waiting_keys c ?b)"
      using assms(3) True by auto
    then show ?thesis using True u w by simp
  next
    case False
    then have "waiting_keys c js = waiting_keys c ?a @ waiting_keys c ?b"
      unfolding js by (simp add: waiting_keys_def)
    then show ?thesis using False u by simp
  qed
qed

section \<open>Every step keeps it\<close>

lemma send_or_queue_ok:
  assumes "client_ok o' d" and "owner_bound o' m" and "send_or_queue c works m d = Some (d', outs)"
  shows "client_ok o' d' \<and> list_all (emission_ok o') outs \<and> pages d' = pages d \<and> pending d' = pending d \<and> fixture d' = fixture d"
  using assms by (auto simp: send_or_queue_def client_ok_def max_queue_def split: if_splits)

lemma turn_request_bound:
  assumes "safe_fixture_turn_start_request request (fixture_thread o') (orbit_tool o') = Some r"
  shows "pinned_turn o' r"
proof -
  obtain t it where t: "fixture_thread o' = Some t" "is_uuid t"
    and it: "is_string (getp it ''text'')" "str_of (getp it ''text'') \<noteq> []"
      "utf8_bytes (str_of (getp it ''text'')) \<le> max_fixture_turn_text_bytes" "char_of (0::nat) \<notin> set (str_of (getp it ''text''))"
    and r: "r = [(''id'', getp request ''id''), (''method'', JStr ''turn/start''),
              (''params'', JObj
                                [(''threadId'', JStr t),
                                 (''input'', JArr [JObj [(''type'', JStr ''text''), (''text'', getp it ''text'')]]),
                                 (''allowedTools'', JArr (if orbit_tool o'
                                   then [JObj [(''namespace'', JStr ''mcp__orbit_private''), (''name'', JStr ''orbit_act'')]]
                                   else []))])]"
    using assms unfolding safe_fixture_turn_start_request_def
    by (auto split: option.splits if_splits jsval.splits list.splits)
  have "getp it ''text'' = JStr (str_of (getp it ''text''))" using is_string_str_of [OF it(1)] .
  then show ?thesis unfolding pinned_turn_def r using t it(2-4) by auto
qed

lemma read_request_bound:
  "safe_app_request request (legacy_read o') (metadata_read o') = Some r \<Longrightarrow> owner_bound o' r"
  unfolding owner_bound_def by (blast intro: forwarded_request_again)

text \<open>What a step keeps: the invariant, and only permitted emissions.\<close>

definition step_ok :: "gate_options \<Rightarrow> gate \<times> emission list \<Rightarrow> bool" where
  "step_ok o' r \<longleftrightarrow> gate_ok o' (fst r) \<and> list_all (emission_ok o') (snd r)"

lemma step_ok_pair [simp]: "step_ok o' (g, outs) \<longleftrightarrow> gate_ok o' g \<and> list_all (emission_ok o') outs"
  by (simp add: step_ok_def)

lemma new_read_ok:
  assumes g: "gate_ok o' g" and d: "map_of (clients g) c = Some d"
    and room: "length (pending d) + length (pages d) < max_outstanding"
    and new: "key \<notin> keys (pending d)" "key \<notin> set (pages d)" and rid: "request_id rid = Some key"
    and n: "ap = active_pages g + (if kind = PageRead then 1 else 0)" "as = active_sections g + (if kind = SectionRead then 1 else 0)"
      "ap \<le> max_active_readers" "as \<le> max_active_readers"
  shows "gate_ok o' (set_client c (d\<lparr>pages := pages d @ [key]\<rparr>)
     (g\<lparr>active_pages := ap, active_sections := as, jobs := jobs g @ [new_job c kind key rid limit]\<rparr>))"
proof -
  have c: "client_ok o' d" "pages d = waiting_keys c (jobs g)" using gate_ok_client [OF g d] by auto
  have "client_ok o' (d\<lparr>pages := pages d @ [key]\<rparr>)"
    using c(1) room new by (auto simp: client_ok_def)
  then show ?thesis
    using g c(2) n rid map_of_Some_key [OF d]
    by (auto simp: gate_ok_def set_client_def jobs_ok_def list_all_iff split: if_splits)
qed

lemma gate_ok_active: "gate_ok o' g \<Longrightarrow> active_pages g \<le> max_active_readers \<and> active_sections g \<le> max_active_readers"
  by (simp add: gate_ok_def)

lemma start_page_read_ok:
  assumes "gate_ok o' g" and "map_of (clients g) c = Some d"
    and "length (pending d) + length (pages d) < max_outstanding"
    and "key \<notin> keys (pending d)" "key \<notin> set (pages d)" and "request_id rid = Some key"
  shows "step_ok o' (start_page_read c key rid meth ps d g)"
  using new_read_ok [OF assms, of "active_pages g + 1" PageRead "active_sections g" "int_of_val (getp ps ''limit'')"]
    gate_ok_active [OF assms(1)] assms(1) request_id_plain [OF assms(6)]
  by (simp add: start_page_read_def)

lemma start_section_read_ok:
  assumes "gate_ok o' g" and "map_of (clients g) c = Some d"
    and "length (pending d) + length (pages d) < max_outstanding"
    and "key \<notin> keys (pending d)" "key \<notin> set (pages d)" and "request_id rid = Some key"
  shows "step_ok o' (start_section_read c key rid cursor limit d g)"
  using new_read_ok [OF assms, of "active_pages g" SectionRead "active_sections g + 1" limit]
    gate_ok_active [OF assms(1)] assms(1) request_id_plain [OF assms(6)]
  by (simp add: start_section_read_def)

lemma forward_request_ok:
  assumes g: "gate_ok o' g" and d: "map_of (clients g) c = Some d"
    and room: "length (pending d) + length (pages d) < max_outstanding"
    and new: "key \<notin> keys (pending d)" "key \<notin> set (pages d)" and r: "owner_bound o' r"
  shows "step_ok o' (forward_request c works is_turn key r d g)"
proof -
  have c: "client_ok o' d" "pages d = waiting_keys c (jobs g)" using gate_ok_client [OF g d] by auto
  define d1 where "d1 = (case (if is_turn then thread_of_request r else None) of
                  Some t \<Rightarrow> d\<lparr>fixture := Some (new_scope (next_scope g) t key)\<rparr> | None \<Rightarrow> d)"
  define d2 where "d2 = d1\<lparr>pending := put key (pending_of is_turn r) (pending d1)\<rparr>"
  have "client_ok o' d2" "pages d2 = pages d"
    using c(1) room new by (auto simp: d1_def d2_def client_ok_def length_put new_scope_def split: option.splits)
  moreover have "gate_ok o' (set_client c d' (if is_turn then g\<lparr>next_scope := next_scope g + 1\<rparr> else g))"
    if "client_ok o' d'" "pages d' = pages d" for d'
    using gate_ok_set_client [OF g that(1)] that(2) c(2) by (simp add: set_client_next_scope)
  ultimately show ?thesis
    using send_or_queue_ok [OF _ r, of d2 c works] 
    unfolding forward_request_def Let_def d1_def [symmetric] d2_def [symmetric]
    by (cases "send_or_queue c works r d2") auto
qed

lemma judged_request_ok:
  assumes g: "gate_ok o' g" and d: "map_of (clients g) c = Some d" and id: "request_id (getp request ''id'') = Some key"
  shows "step_ok o' (judged_request o' c works request key d g)"
proof -
  let ?v = "judge o' request"
  have rid: "plain (getp request ''id'')" using request_id_plain [OF id] .
  have read: "owner_bound o' r" if "?v = ReadVerdict r" for r
    using that by (auto simp: judge_def intro: read_request_bound split: option.splits if_splits)
  have turn: "owner_bound o' r" if "?v = TurnVerdict r" for r
    using that by (auto simp: judge_def owner_bound_def intro: turn_request_bound split: option.splits if_splits)
  consider (no) "judged_request o' c works request key d g = (g, [ToClient c (denied (getp request ''id''))])"
    | (stop) "judged_request o' c works request key d g = (g, [Terminate c])"
    | (go) "length (pending d) + length (pages d) < max_outstanding" "key \<notin> keys (pending d)" "key \<notin> set (pages d)"
      "judged_request o' c works request key d g = (case ?v of
          PageVerdict meth ps \<Rightarrow> start_page_read c key (getp request ''id'') meth ps d g
        | SectionVerdict cursor limit \<Rightarrow> start_section_read c key (getp request ''id'') cursor limit d g
        | ReadVerdict r \<Rightarrow> forward_request c works False key r d g
        | TurnVerdict r \<Rightarrow> forward_request c works True key r d g
        | DeniedVerdict \<Rightarrow> (g, []))"
    unfolding judged_request_def Let_def by (metis not_le)
  then show ?thesis
  proof cases
    case go
    show ?thesis
      using start_page_read_ok [OF g d go(1-3) id] start_section_read_ok [OF g d go(1-3) id]
        forward_request_ok [OF g d go(1-3)] read turn g
      unfolding go(4) by (cases ?v) simp_all
  qed (simp_all add: g rid)
qed

lemma request_audits_ok [simp]: "list_all (emission_ok o') (request_audits o' request)"
  by (simp add: request_audits_def)

lemma client_message_ok:
  assumes g: "gate_ok o' g"
  shows "step_ok o' (client_message o' c works parsed g)"
proof (cases "map_of (clients g) c")
  case d: (Some d)
  have init: "owner_bound o' initialized_message" by (simp add: owner_bound_def)
  have c: "client_ok o' d" "pages d = waiting_keys c (jobs g)" using gate_ok_client [OF g d] by auto
  have *: "step_ok o' (set_client c d' g, outs)" if "send_or_queue c works initialized_message d = Some (d', outs)" for d' outs
    using send_or_queue_ok [OF c(1) init that] gate_ok_set_client [OF g, of d' c] c(2) by auto
  have **: "gate_ok o' g' \<and> list_all (emission_ok o') outs"
    if "request_id (getp request ''id'') = Some key" "judged_request o' c works request key d g = (g', outs)" for request key g' outs
    using judged_request_ok [OF g d that(1), of works] that(2) by simp
  show ?thesis
    using d g * ** by (auto simp: client_message_def split: option.splits prod.splits)
qed (simp add: client_message_def g)

text \<open>The readers' answers.\<close>

lemma reader_answer_clean:
  "request_id (j_rid j) = Some key \<Longrightarrow> clean_message (reader_answer sz mb j outcome)"
  using request_id_plain [of "j_rid j"] page_response_clean section_response_clean
  by (auto simp: reader_answer_def split: read_kind.splits option.splits)

lemma answered_ok:
  assumes g: "gate_ok o' g" and k: "k < length (jobs g)" "\<not> j_answered (jobs g ! k)" and j: "j = jobs g ! k"
    and a: "a = j\<lparr>j_settled := st, j_answered := True\<rparr>" and d: "map_of (clients g) (j_client j) = Some d"
    and n: "ap = unsettled PageRead ((jobs g)[k := a])" "as = unsettled SectionRead ((jobs g)[k := a])"
  shows "gate_ok o' (set_client (j_client j) (d\<lparr>pages := removeAll (j_key j) (pages d)\<rparr>)
     (g\<lparr>active_pages := ap, active_sections := as, jobs := (jobs g)[k := a]\<rparr>))"
proof -
  let ?c = "j_client j"
  have ns: "\<not> j_settled j" using g k j nth_mem [OF k(1)] by (auto simp: gate_ok_def jobs_ok_def list_all_iff)
  have c: "client_ok o' d" "pages d = waiting_keys ?c (jobs g)" using gate_ok_client [OF g d] by auto
  have dist: "distinct (waiting_keys ?c (jobs g))" using c by (simp add: client_ok_def)
  have keys': "waiting_keys c ((jobs g)[k := a]) =
      (if c = ?c then removeAll (j_key j) (waiting_keys c (jobs g)) else waiting_keys c (jobs g))" for c
    using waiting_keys_answered [OF k(1,2), of a c] dist a unfolding j by simp
  have "client_ok o' (d\<lparr>pages := removeAll (j_key j) (pages d)\<rparr>)"
    using c(1) by (auto simp: client_ok_def distinct_removeAll intro: order_trans [OF add_left_mono [OF length_removeAll_less_eq]])
  moreover have "ap \<le> active_pages g" "as \<le> active_sections g"
    using g n unsettled_update [OF k(1), of PageRead a] unsettled_update [OF k(1), of SectionRead a] ns a unfolding j
    by (auto simp: gate_ok_def split: if_splits)
  moreover have "jobs_ok (set_client ?c (d\<lparr>pages := removeAll (j_key j) (pages d)\<rparr>)
     (g\<lparr>active_pages := ap, active_sections := as, jobs := (jobs g)[k := a]\<rparr>))"
    using g nth_mem [OF k(1)] a unfolding j
    by (auto simp: gate_ok_def jobs_ok_def list_all_iff set_client_def dest!: set_update_subset_insert [THEN subsetD])
  ultimately show ?thesis
    using g n keys' c(2) by (auto simp: gate_ok_def set_client_def)
qed

lemma job_at:
  assumes "gate_ok o' g" and "k < length (jobs g)"
  shows "request_id (j_rid (jobs g ! k)) = Some (j_key (jobs g ! k))" and "j_client (jobs g ! k) \<in> keys (clients g)"
    and "j_settled (jobs g ! k) \<Longrightarrow> j_answered (jobs g ! k)"
  using assms nth_mem [OF assms(2)] by (auto simp: gate_ok_def jobs_ok_def list_all_iff)

lemma time_out_read_ok:
  assumes g: "gate_ok o' g"
  shows "step_ok o' (time_out_read sz mb k g)"
proof (cases "k < length (jobs g) \<and> \<not> j_answered (jobs g ! k)")
  case True
  let ?j = "jobs g ! k"
  let ?a = "?j\<lparr>j_answered := True\<rparr>"
  have j: "request_id (j_rid ?j) = Some (j_key ?j)" "j_client ?j \<in> keys (clients g)" "\<not> j_settled ?j"
    using job_at [OF g] True by auto
  obtain d where d: "map_of (clients g) (j_client ?j) = Some d" using j(2) by (auto simp: keys_dom)
  have n: "active_pages g = unsettled PageRead ((jobs g)[k := ?a])" "active_sections g = unsettled SectionRead ((jobs g)[k := ?a])"
    using g True unsettled_update [of k "jobs g" PageRead ?a] unsettled_update [of k "jobs g" SectionRead ?a]
    by (auto simp: gate_ok_def)
  have a: "?a = ?j\<lparr>j_settled := False, j_answered := True\<rparr>" using j(3) by (cases ?j) simp
  have "gate_ok o' (set_client (j_client ?j) (d\<lparr>pages := removeAll (j_key ?j) (pages d)\<rparr>)
     (g\<lparr>active_pages := active_pages g, active_sections := active_sections g, jobs := (jobs g)[k := ?a]\<rparr>))"
    by (rule answered_ok [OF g _ _ HOL.refl a d n]) (use True in auto)
  then show ?thesis
    using True d reader_answer_clean [OF j(1)] by (simp add: time_out_read_def answer_job_def Let_def)
qed (auto simp: time_out_read_def g)

lemma settle_answered_ok:
  assumes g: "gate_ok o' g" and k: "k < length (jobs g)" and st: "\<not> j_settled (jobs g ! k)" "j_answered (jobs g ! k)"
  shows "gate_ok o' (reader_done (j_kind (jobs g ! k)) (g\<lparr>jobs := (jobs g)[k := (jobs g ! k)\<lparr>j_settled := True\<rparr>]\<rparr>))"
proof -
  let ?j = "jobs g ! k"
  let ?a = "?j\<lparr>j_settled := True\<rparr>"
  let ?js = "(jobs g)[k := ?a]"
  have w: "waiting_keys c ?js = waiting_keys c (jobs g)" for c
  proof -
    have "waiting_keys c ?js = waiting_keys c (take k (jobs g) @ ?a # drop (Suc k) (jobs g))"
      by (simp add: upd_conv_take_nth_drop k)
    also have "\<dots> = waiting_keys c (take k (jobs g) @ ?j # drop (Suc k) (jobs g))"
      using st by (simp add: waiting_keys_def)
    also have "\<dots> = waiting_keys c (jobs g)" using list_split_at [OF k] by simp
    finally show ?thesis .
  qed
  have "set ?js \<subseteq> insert ?a (set (jobs g))" by (rule set_update_subset_insert)
  then have "jobs_ok (g\<lparr>jobs := ?js\<rparr>)"
    using g nth_mem [OF k] st by (fastforce simp: gate_ok_def jobs_ok_def list_all_iff)
  then show ?thesis
    using g w unsettled_update [OF k, of PageRead ?a] unsettled_update [OF k, of SectionRead ?a] st
    by (cases "j_kind ?j") (auto simp: gate_ok_def reader_done_def jobs_ok_def)
qed

lemma settle_read_ok:
  assumes g: "gate_ok o' g"
  shows "step_ok o' (settle_read sz mb k outcome g)"
proof (cases "k < length (jobs g) \<and> \<not> j_settled (jobs g ! k)")
  case k: True
  let ?j = "jobs g ! k"
  show ?thesis
  proof (cases "j_answered ?j")
    case True
    then show ?thesis using settle_answered_ok [OF g] k by (simp add: settle_read_def Let_def)
  next
    case na: False
    let ?a = "?j\<lparr>j_settled := True, j_answered := True\<rparr>"
    have j: "request_id (j_rid ?j) = Some (j_key ?j)" "j_client ?j \<in> keys (clients g)" using job_at [OF g] k by auto
    obtain d where d: "map_of (clients g) (j_client ?j) = Some d" using j(2) by (auto simp: keys_dom)
    define ap where "ap = unsettled PageRead ((jobs g)[k := ?a])"
    define as where "as = unsettled SectionRead ((jobs g)[k := ?a])"
    have n: "active_pages (reader_done (j_kind ?j) g) = ap" "active_sections (reader_done (j_kind ?j) g) = as"
      using g k unsettled_update [of k "jobs g" PageRead ?a] unsettled_update [of k "jobs g" SectionRead ?a]
      by (cases "j_kind ?j"; auto simp: gate_ok_def reader_done_def ap_def as_def)+
    have ok: "gate_ok o' (set_client (j_client ?j) (d\<lparr>pages := removeAll (j_key ?j) (pages d)\<rparr>)
       (g\<lparr>active_pages := ap, active_sections := as, jobs := (jobs g)[k := ?a]\<rparr>))"
      by (rule answered_ok [OF g _ _ HOL.refl HOL.refl d ap_def as_def]) (use k na in auto)
    have "settle_read sz mb k outcome g =
       (set_client (j_client ?j) (d\<lparr>pages := removeAll (j_key ?j) (pages d)\<rparr>)
         (g\<lparr>active_pages := ap, active_sections := as, jobs := (jobs g)[k := ?a]\<rparr>),
        [ToClient (j_client ?j) (reader_answer sz mb (?j\<lparr>j_settled := True\<rparr>) outcome)])"
      using k na d n [unfolded reader_done_def]
      by (cases "j_kind ?j") (auto simp: settle_read_def Let_def answer_job_def reader_done_def)
    moreover have "clean_message (reader_answer sz mb (?j\<lparr>j_settled := True\<rparr>) outcome)"
      by (rule reader_answer_clean) (simp add: j(1))
    ultimately show ?thesis using ok by simp
  qed
qed (auto simp: settle_read_def g)

section \<open>Steps of the owner\<close>

lemma shape_audit_ok [simp]: "emission_ok o' (shape_audit m b)"
  by (simp add: shape_audit_def)

lemma scope_audit_ok [simp]: "list_all (emission_ok o') (scope_audit o'' m b)"
  by (simp add: scope_audit_def)

text \<open>A client whose requests are unchanged stays in order when its scope does.\<close>

lemma client_ok_fixture:
  "client_ok o' d \<Longrightarrow> (\<And>sc. f = Some sc \<Longrightarrow> length (sc_buffered sc) \<le> max_buffered) \<Longrightarrow> client_ok o' (d\<lparr>fixture := f\<rparr>)"
  by (auto simp: client_ok_def split: option.splits)

definition part_ok :: "gate_options \<Rightarrow> client_data \<Rightarrow> client_data \<times> emission list \<Rightarrow> bool" where
  "part_ok o' d r \<longleftrightarrow> client_ok o' (fst r) \<and> pages (fst r) = pages d \<and> list_all (emission_ok o') (snd r)"

lemma part_ok_pair [simp]:
  "part_ok o' d (d', outs) \<longleftrightarrow> client_ok o' d' \<and> pages d' = pages d \<and> list_all (emission_ok o') outs"
  by (simp add: part_ok_def)

lemma owner_notification_ok:
  assumes c: "client_ok o' d"
  shows "part_ok o' d (owner_notification o' sz c bytes message d)"
proof (cases "fixture d")
  case None
  then show ?thesis using c by (simp add: owner_notification_def)
next
  case (Some sc)
  then have b: "length (sc_buffered sc) \<le> max_buffered" using c by (simp add: client_ok_def)
  show ?thesis
    using Some c b
    by (auto simp: owner_notification_def Let_def notification_clean
        intro!: client_ok_fixture [OF c] split: option.splits sum.splits)
qed

lemma deliver_buffered_ok:
  "deliver_buffered sz c turn ms sc current = (sc', current', threw, outs) \<Longrightarrow>
     list_all (emission_ok o') outs \<and> sc_buffered sc' = sc_buffered sc \<and> sc_uid sc' = sc_uid sc"
proof (induction ms arbitrary: sc current sc' current' threw outs)
  case (Cons m ms)
  show ?case
  proof (cases "fixture_notification sz m (sc_thread sc) turn")
    case (Inl u)
    then show ?thesis using Cons.prems by auto
  next
    case (Inr r)
    show ?thesis
    proof (cases r)
      case None
      then show ?thesis using Inr Cons.prems Cons.IH by (auto split: prod.splits)
    next
      case (Some n)
      then have "clean_message n" using notification_clean [of sz m "sc_thread sc" turn n] Inr by simp
      then show ?thesis
        using Inr Some Cons.prems
        by (auto simp: Let_def split: prod.splits if_splits dest: Cons.IH)
    qed
  qed
qed auto

lemma started_clean [simp]: "clean_message (started_notification th tu)"
proof -
  have "no_secret (Suc 0) (JObj [(''id'', JStr tu), (''status'', JStr ''inProgress''), (''items'', JArr []), (''error'', Null)])"
    by (rule no_secret_written) (simp_all add: written_names_def)
  then have "no_secret 0 (JObj [(''threadId'', JStr th),
        (''turn'', JObj [(''id'', JStr tu), (''status'', JStr ''inProgress''), (''items'', JArr []), (''error'', Null)])])"
    by (intro no_secret_written) (simp_all add: written_names_def del: no_secret_JObj)
  then show ?thesis by (simp add: clean_message_def started_notification_def only_keys_def del: no_secret_JObj)
qed

lemma open_turn_ok:
  assumes c: "client_ok o' d"
  shows "part_ok o' d (open_turn o' sz c key thread response d)"
proof (cases "fixture d")
  case None
  then show ?thesis using c by (simp add: open_turn_def Let_def)
next
  case (Some sc)
  then have b: "length (sc_buffered sc) \<le> max_buffered" using c by (simp add: client_ok_def)
  let ?turn = "str_of (field_of (field_of (getp response ''result'') ''turn'') ''id'')"
  let ?sc = "sc\<lparr>sc_pending := None, sc_turn := Some ?turn\<rparr>"
  obtain sc2 current threw outs where
    r: "deliver_buffered sz c ?turn (sc_buffered sc) ?sc True = (sc2, current, threw, outs)"
    by (metis prod_cases4)
  have e: "list_all (emission_ok o') outs" "sc_buffered sc2 = sc_buffered sc"
    using deliver_buffered_ok [OF r, of o'] by auto
  show ?thesis
    using Some c b r e by (auto simp: open_turn_def Let_def intro!: client_ok_fixture [OF c])
qed

lemma owner_response_ok:
  assumes c: "client_ok o' d" and id: "request_id (getp message ''id'') = Some key"
  shows "part_ok o' d (owner_response o' sz c key message d)"
proof (cases "map_of (pending d) key")
  case None
  then show ?thesis using c by (simp add: owner_response_def)
next
  case (Some p)
  define d1 where "d1 = d\<lparr>pending := del key (pending d)\<rparr>"
  have c1: "client_ok o' d1" "pages d1 = pages d"
    using c length_del_le [of key "pending d"] by (auto simp: d1_def client_ok_def)
  have rid: "plain (getp message ''id'')" using request_id_plain [OF id] .
  have clean: "clean_message (app_response sz message (pr_method p) (pr_metadata p))"
    if "\<not> (pr_method p \<noteq> ''account/read'' \<and> pr_method p \<noteq> ''getAuthStatus'' \<and> contains_credential (getp message ''result'') 0)"
    by (rule app_response_clean [OF rid]) (use that in \<open>auto simp: no_secret_def\<close>)
  have o: "client_ok o' d2 \<and> pages d2 = pages d \<and> list_all (emission_ok o') outs"
    if "open_turn o' sz c key thread response d1 = (d2, outs)" for thread response d2 outs
    using open_turn_ok [OF c1(1), of sz c key thread response] c1(2) that by simp
  show ?thesis
    using Some c1 clean
    unfolding owner_response_def Let_def d1_def [symmetric]
    by (auto split: option.splits prod.splits dest!: o)
qed

lemma part_step_ok:
  assumes g: "gate_ok o' g" and d: "map_of (clients g) c = Some d" and p: "part_ok o' d (d', outs)"
  shows "step_ok o' (set_client c d' g, outs)"
  using p gate_ok_set_client [OF g, of d' c] gate_ok_client [OF g d] by simp

lemma owner_message_ok:
  assumes g: "gate_ok o' g"
  shows "step_ok o' (owner_message o' sz c bytes parsed g)"
proof (cases "map_of (clients g) c")
  case d: (Some d)
  have c: "client_ok o' d" using gate_ok_client [OF g d] by simp
  have 1: "step_ok o' (set_client c d' g, outs)" if "owner_notification o' sz c bytes message d = (d', outs)" for message d' outs
    using part_step_ok [OF g d] owner_notification_ok [OF c, of sz c bytes message] that by simp
  have 2: "step_ok o' (set_client c d' g, outs)"
    if "request_id (getp message ''id'') = Some key" "owner_response o' sz c key message d = (d', outs)" for key message d' outs
    using part_step_ok [OF g d] owner_response_ok [OF c that(1), of sz c] that(2) by simp
  show ?thesis
  proof (cases parsed)
    case (Some message)
    then show ?thesis
      using d g 1 [of message] 2 [of message]
      by (cases "owner_notification o' sz c bytes message d"; cases "request_id (getp message ''id'')")
        (auto simp: owner_message_def Let_def split: prod.splits)
  qed (simp add: owner_message_def d g)
qed (simp add: owner_message_def g)

section \<open>Polling\<close>

lemma saved_turn_no_secret:
  assumes "saved_turn sz mb sc raw = Inr (Some fs)"
  shows "no_secret 1 (JObj fs) \<and> list_all (no_secret 1) (agent_items fs)"
proof -
  obtain turn response items saved where
    r: "safe_paginated_page_response sz (JStr ''fixture-poll'') raw 50 mb = Some response"
    and i: "field_of (getp response ''result'') ''data'' = JArr items"
    and f: "List.find (\<lambda>item. field_of item ''id'' = JStr turn) items = Some saved" and fs: "fixture_turn saved turn = Inr (Some fs)"
    using assms by (auto simp: saved_turn_def split: option.splits jsval.splits)
  have "clean_message response" using page_response_clean [OF r] by simp
  then have ns: "no_secret 0 (getp response ''result'')" by (simp add: clean_message_def)
  obtain rs where rs: "as_object (getp response ''result'') = Some rs" "getp rs ''data'' = JArr items"
    using i by (auto simp: field_of_def split: option.splits)
  have "no_secret (Suc 0) (JArr items)"
    using getp_no_secret [OF no_secret_object [OF ns rs(1)], of "''data''"] rs(2) by simp
  moreover have "saved \<in> set items" using f by (auto simp: find_Some_iff in_set_conv_nth)
  ultimately have "no_secret 1 saved"
    using no_secret_earlier [of "Suc (Suc 0)" saved 1] by (auto simp: list_all_iff)
  moreover have "list_all (no_secret 1) (agent_items fs)"
    using fixture_status_not_object [OF fs] by (auto simp: agent_items_def list_all_iff intro: no_secret_earlier [where d = 2])
  ultimately show ?thesis using fixture_turn_no_secret [OF fs] by simp
qed

lemma item_event_clean:
  assumes "no_secret 1 item"
  shows "clean_message (item_event sc turn item)"
proof -
  have "no_secret 0 (JObj [(''threadId'', JStr (sc_thread sc)), (''turnId'', JStr turn), (''item'', item)])"
    using assms by (intro no_secret_written) (simp_all add: written_names_def)
  then show ?thesis by (simp add: clean_message_def item_event_def only_keys_def del: no_secret_JObj)
qed

lemma completion_event_clean:
  assumes "no_secret 1 (JObj fs)"
  shows "clean_message (completion_event sc fs)"
proof -
  have "no_secret 0 (JObj [(''threadId'', JStr (sc_thread sc)), (''turn'', JObj fs)])"
    using assms by (intro no_secret_written) (simp_all add: written_names_def del: no_secret_JObj)
  then show ?thesis by (simp add: clean_message_def completion_event_def only_keys_def del: no_secret_JObj)
qed

lemma poll_attempt_ok:
  assumes c: "client_ok o' d"
  shows "part_ok o' d (poll_attempt sz mb c uid raw d)"
proof (cases "fixture d")
  case None
  then show ?thesis using c by (simp add: poll_attempt_def)
next
  case sc: (Some sc)
  show ?thesis
  proof (cases "saved_turn sz mb sc raw")
    case (Inl u)
    then show ?thesis using c sc by (simp add: poll_attempt_def)
  next
    case (Inr r)
    show ?thesis
    proof (cases r)
      case None
      then show ?thesis using Inr c sc by (simp add: poll_attempt_def)
    next
      case (Some fs)
      then have n: "no_secret 1 (JObj fs)" "list_all (no_secret 1) (agent_items fs)"
        using saved_turn_no_secret [of sz mb sc raw fs] Inr by auto
      show ?thesis
        using Inr Some c sc n completion_event_clean [OF n(1)]
        by (auto simp: poll_attempt_def Let_def item_event_clean intro!: client_ok_fixture [OF c] split: list.splits)
    qed
  qed
qed

lemma poll_answered_ok:
  assumes g: "gate_ok o' g"
  shows "step_ok o' (poll_answered sz mb uid raw g)"
proof (cases "map_of (polls g) uid")
  case (Some p)
  let ?c = "pl_client p"
  let ?g1 = "g\<lparr>polls := put uid (p\<lparr>pl_attempt := pl_attempt p + 1, pl_reading := False\<rparr>) (polls g)\<rparr>"
  show ?thesis
  proof (cases "map_of (clients g) ?c")
    case d: (Some d)
    have c: "client_ok o' d" using gate_ok_client [OF g d] by simp
    show ?thesis
    proof (cases raw)
      case raw: (Some v)
      obtain d' outs where r: "poll_attempt sz mb ?c uid v d = (d', outs)" by (rule prod.exhaust)
      have "step_ok o' (set_client ?c d' g, outs)"
        using part_step_ok [OF g d, of d' outs] poll_attempt_ok [OF c, of sz mb ?c uid v] r by simp
      moreover have "gate_ok o' ?g1" "map_of (clients ?g1) ?c = Some d" using g d by simp_all
      then have "step_ok o' (set_client ?c d' ?g1, outs)"
        using part_step_ok [of o' ?g1 ?c d d' outs] poll_attempt_ok [OF c, of sz mb ?c uid v] r by simp
      ultimately show ?thesis using g by (simp add: poll_answered_def Some d raw r step_ok_def Let_def)
    qed (simp add: poll_answered_def Some d g step_ok_def Let_def)
  qed (simp add: poll_answered_def Some g step_ok_def Let_def)
qed (simp add: poll_answered_def g)

lemma poll_head_ok: "gate_ok o' g \<Longrightarrow> step_ok o' (poll_head now uid p g)"
  by (simp add: poll_head_def step_ok_def split: option.split)

lemma poll_turn_ok: "gate_ok o' g \<Longrightarrow> step_ok o' (poll_turn uid now g)"
  by (simp add: poll_turn_def poll_head_ok split: option.split)

lemma start_polls_ok: "gate_ok o' g \<Longrightarrow> step_ok o' (start_polls now outs g)"
proof (induction now outs g rule: start_polls.induct)
  case (2 now c uid outs g)
  then show ?case
    using poll_head_ok [OF 2(2), of now uid "\<lparr>pl_client = c, pl_attempt = 0, pl_deadline = now + poll_window, pl_reading = False\<rparr>"]
    by (auto simp: step_ok_def split: prod.splits)
qed simp_all

lemma owner_event_ok:
  assumes "gate_ok o' g"
  shows "step_ok o' (owner_event o' sz now c bytes parsed g)"
proof -
  obtain g' outs where r: "owner_message o' sz c bytes parsed g = (g', outs)" by (rule prod.exhaust)
  then have "gate_ok o' g'" "list_all (emission_ok o') outs"
    using owner_message_ok [OF assms, of sz c bytes parsed] by (simp_all add: step_ok_def)
  then show ?thesis using start_polls_ok [of o' g' now outs] r by (auto simp: owner_event_def step_ok_def split: prod.splits)
qed

section \<open>Connections\<close>

lemma owner_ready_ok:
  assumes g: "gate_ok o' g"
  shows "step_ok o' (owner_ready c sent g)"
proof (cases "map_of (clients g) c")
  case d: (Some d)
  have c: "client_ok o' d" "pages d = waiting_keys c (jobs g)" using gate_ok_client [OF g d] by auto
  have "client_ok o' (d\<lparr>queue := []\<rparr>)" "list_all (owner_bound o') (queue d)" using c(1) by (auto simp: client_ok_def)
  moreover have "list_all (owner_bound o') (take sent (queue d))"
    using calculation(2) by (auto simp: list_all_iff dest: in_set_takeD)
  ultimately show ?thesis
    using g gate_ok_set_client [OF g, of "d\<lparr>queue := []\<rparr>" c] c(2) by (auto simp: owner_ready_def d list_all_iff)
qed (simp add: owner_ready_def g)

lemma close_client_ok:
  assumes g: "gate_ok o' g"
  shows "step_ok o' (close_client c g)"
proof (cases "map_of (clients g) c")
  case d: (Some d)
  have c: "client_ok o' d" "pages d = waiting_keys c (jobs g)" using gate_ok_client [OF g d] by auto
  show ?thesis
    using gate_ok_set_client [OF g, of "d\<lparr>fixture := None\<rparr>" c] client_ok_fixture [OF c(1), of None] c(2) by (simp add: close_client_def d)
qed (simp add: close_client_def g)

lemma open_client_ok:
  assumes g: "gate_ok o' g"
  shows "step_ok o' (open_client c works g)"
proof (cases "c \<in> keys (clients g)")
  case False
  have "waiting_keys c (jobs g) = []"
    using g False by (auto simp: gate_ok_def jobs_ok_def waiting_keys_def list_all_iff filter_empty_conv)
  moreover have "client_ok o' fresh_client" "client_ok o' (fresh_client\<lparr>owner_set := True\<rparr>)" "pages fresh_client = []"
    by (simp_all add: client_ok_def fresh_client_def)
  ultimately show ?thesis
    using gate_ok_set_client [OF g] False by (auto simp: open_client_def)
qed (simp add: open_client_def g)

lemma gate_step_ok:
  "gate_ok o' g \<Longrightarrow> step_ok o' (gate_step o' sz mb e g)"
  by (cases e) (simp_all add: open_client_ok owner_ready_ok client_message_ok owner_event_ok settle_read_ok
      time_out_read_ok poll_turn_ok poll_answered_ok close_client_ok)

lemma gate_run_ok:
  "gate_ok o' g \<Longrightarrow> step_ok o' (gate_run o' sz mb es g)"
proof (induction es arbitrary: g)
  case (Cons e es)
  obtain g1 outs where s: "gate_step o' sz mb e g = (g1, outs)" by (rule prod.exhaust)
  then have "gate_ok o' g1" "list_all (emission_ok o') outs"
    using gate_step_ok [OF Cons.prems, of sz mb e] by simp_all
  then show ?case using Cons.IH [of g1] by (auto simp: s step_ok_def split: prod.splits)
qed simp

section \<open>Properties\<close>

definition closed_gate :: gate_options where
  "closed_gate = \<lparr>max_message_bytes = Undef, legacy_read = False, metadata_read = False, pages_allowed = False,
     has_page_reader = False, sections_allowed = False, has_section_reader = False, fixture_thread = None,
     orbit_tool = False, poll_saved = False\<rparr>"

text \<open>C18. Over every sequence of events, whatever the owner process, the page readers and the client send, no message
for the client holds a field named like a credential, at any depth, or a field the protocol does not know.\<close>

theorem client_sees_no_credentials:
  assumes "ToClient c m \<in> set (snd (gate_run o' sz mb es empty_gate))"
  shows "only_keys [''id'', ''method'', ''params'', ''result'', ''error''] m
    \<and> \<not> contains_credential (getp m ''result'') 0 \<and> \<not> contains_credential (getp m ''params'') 0
    \<and> \<not> contains_credential (getp m ''error'') 0 \<and> \<not> contains_credential (getp m ''id'') 0"
  using assms gate_run_ok [OF gate_ok_empty, of o' sz mb es]
  by (auto simp: step_ok_def list_all_iff clean_message_def no_secret_def)

lemma client_sees_no_credentials_witness:
  "ToClient 0 (denied (JStr ''a''))
    \<in> set (snd (gate_run closed_gate (\<lambda>v. 0) 0
        [Opened 0 True, FromClient 0 True (Some [(''id'', JStr ''a''), (''method'', JStr ''thread/archive'')])] empty_gate))
   \<and> \<not> contains_credential (getp (denied (JStr ''a'')) ''error'') 0"
proof -
  let ?o = closed_gate
  let ?m = "[(''id'', JStr ''a''), (''method'', JStr ''thread/archive'')]"
  have j: "judge ?o ?m = DeniedVerdict"
    by (simp add: closed_gate_def judge_def safe_app_request_def read_methods_def safe_fixture_turn_start_request_def)
  have r: "judged_request ?o 0 True ?m key d g = (g, [ToClient 0 (denied (JStr ''a''))])" for key d g
    by (simp add: judged_request_def j)
  have t: "ToClient 0 (denied (JStr ''a''))
    \<in> set (snd (gate_run ?o (\<lambda>v. 0) 0 [Opened 0 True, FromClient 0 True (Some ?m)] empty_gate))"
    by (simp add: open_client_def empty_gate_def set_client_def client_message_def request_id_def r)
  from client_sees_no_credentials [OF t] t show ?thesis by blast
qed

text \<open>C19. Over every sequence of events, what reaches the owner process is the fixed \<open>initialized\<close> notification, a
read request in exactly the form the filter gives it, or the start of a turn in the one pinned
thread, with one plain text of bounded size and no tool beyond the private one the options allow.\<close>

theorem owner_receives_permitted_requests:
  assumes "ToOwner c m \<in> set (snd (gate_run o' sz mb es empty_gate))"
  shows "m = initialized_message \<or> safe_app_request m (legacy_read o') (metadata_read o') = Some m
    \<or> (\<exists>t s tools. fixture_thread o' = Some t \<and> is_uuid t \<and> s \<noteq> [] \<and> utf8_bytes s \<le> max_fixture_turn_text_bytes
        \<and> getp m ''method'' = JStr ''turn/start''
        \<and> getp m ''params'' = JObj [(''threadId'', JStr t),
            (''input'', JArr [JObj [(''type'', JStr ''text''), (''text'', JStr s)]]), (''allowedTools'', JArr tools)]
        \<and> tools = (if orbit_tool o' then [JObj [(''namespace'', JStr ''mcp__orbit_private''), (''name'', JStr ''orbit_act'')]] else []))"
proof -
  have "owner_bound o' m"
    using assms gate_run_ok [OF gate_ok_empty, of o' sz mb es] by (auto simp: step_ok_def list_all_iff)
  then show ?thesis unfolding owner_bound_def pinned_turn_def by blast
qed

lemma owner_receives_permitted_requests_witness:
  "ToOwner 0 initialized_message
    \<in> set (snd (gate_run closed_gate (\<lambda>v. 0) 0
        [Opened 0 True, FromClient 0 True (Some [(''method'', JStr ''initialized'')])] empty_gate))
   \<and> (initialized_message = initialized_message
    \<or> safe_app_request initialized_message False False = Some initialized_message)"
proof -
  let ?o = closed_gate
  have t: "ToOwner 0 initialized_message
    \<in> set (snd (gate_run ?o (\<lambda>v. 0) 0 [Opened 0 True, FromClient 0 True (Some [(''method'', JStr ''initialized'')])] empty_gate))"
    by (simp add: open_client_def empty_gate_def set_client_def client_message_def is_initialized_def own_fields_def
        as_object_def request_id_def is_safe_integer_def send_or_queue_def fresh_client_def)
  from owner_receives_permitted_requests [OF t] t show ?thesis by (auto simp: closed_gate_def)
qed

text \<open>Over every sequence of events the gate stays within its bounds: at most four page reads and four section
reads run, and for every client at most 64 requests are outstanding, all under different ids, at most
eight messages wait for the owner and at most 32 notifications for the answer to a turn; the counters
of running reads are exactly the reads that have not settled.\<close>

theorem gate_is_bounded:
  "let g = fst (gate_run o' sz mb es empty_gate) in
    active_pages g = length (filter (\<lambda>j. \<not> j_settled j \<and> j_kind j = PageRead) (jobs g))
    \<and> active_sections g = length (filter (\<lambda>j. \<not> j_settled j \<and> j_kind j = SectionRead) (jobs g))
    \<and> active_pages g \<le> 4 \<and> active_sections g \<le> 4
    \<and> list_all (\<lambda>(c, d). length (pending d) + length (pages d) \<le> 64
        \<and> distinct (map fst (pending d) @ pages d)
        \<and> pages d = map j_key (filter (\<lambda>j. \<not> j_answered j \<and> j_client j = c) (jobs g))
        \<and> length (queue d) \<le> 8
        \<and> (case fixture d of None \<Rightarrow> True | Some sc \<Rightarrow> length (sc_buffered sc) \<le> 32)) (clients g)"
proof -
  let ?g = "fst (gate_run o' sz mb es empty_gate)"
  obtain g where g: "?g = g" by simp
  have ok: "gate_ok o' g" using gate_run_ok [OF gate_ok_empty, of o' sz mb es] g by (simp add: step_ok_def)
  have "length (pending d) + length (pages d) \<le> 64 \<and> distinct (map fst (pending d) @ pages d)
        \<and> pages d = map j_key (filter (\<lambda>j. \<not> j_answered j \<and> j_client j = c) (jobs g)) \<and> length (queue d) \<le> 8
        \<and> (case fixture d of None \<Rightarrow> True | Some sc \<Rightarrow> length (sc_buffered sc) \<le> 32)" if "(c, d) \<in> set (clients g)" for c d
  proof -
    have "map_of (clients g) c = Some d" using ok that map_of_mem_iff [of "clients g"] by (auto simp: gate_ok_def)
    then have "client_ok o' d" "pages d = waiting_keys c (jobs g)" using gate_ok_client [OF ok] by auto
    then show ?thesis
      by (auto simp: client_ok_def max_outstanding_def max_queue_def max_buffered_def wf_map_def keys_def waiting_keys_def
          split: option.splits)
  qed
  moreover have "active_pages g = length (filter (\<lambda>j. \<not> j_settled j \<and> j_kind j = PageRead) (jobs g))
    \<and> active_sections g = length (filter (\<lambda>j. \<not> j_settled j \<and> j_kind j = SectionRead) (jobs g))
    \<and> active_pages g \<le> 4 \<and> active_sections g \<le> 4"
    using ok by (simp add: gate_ok_def unsettled_def max_active_readers_def)
  ultimately show ?thesis unfolding g Let_def by (auto simp: list_all_iff)
qed

text \<open>The polling of a turn whose completion is too large, one round after the other.\<close>

definition oversized :: "(jsval \<Rightarrow> nat) \<Rightarrow> nat \<Rightarrow> jsval \<Rightarrow> scope \<Rightarrow> string \<Rightarrow> jsval \<Rightarrow> bool" where
  "oversized sz mb raw sc turn item \<longleftrightarrow>
     sc_turn sc = Some turn
     \<and> (\<exists>fs items. saved_turn sz mb sc raw = Ok (Some fs) \<and> getp fs ''status'' \<noteq> JStr ''inProgress''
          \<and> agent_items fs = item # items \<and> sz (JObj (completion_event sc fs)) > max_fixture_notification_bytes)
     \<and> sz (JObj (item_event sc turn item)) \<le> max_fixture_notification_bytes"

definition poll_round :: "nat \<Rightarrow> jsval \<Rightarrow> int \<Rightarrow> gate_event list" where
  "poll_round uid raw t = [PollTurn uid t, PollAnswered uid (Some raw)]"

lemma poll_attempt_oversized:
  "oversized sz mb raw sc turn item \<Longrightarrow> fixture d = Some sc \<Longrightarrow>
     poll_attempt sz mb c (sc_uid sc) raw d = (d, [ToClient c (item_event sc turn item)])"
  by (auto simp: oversized_def poll_attempt_def)

lemma poll_answered_oversized:
  assumes "oversized sz mb raw sc turn item" and "map_of (polls g) (sc_uid sc) = Some p" and "pl_reading p"
    and d: "map_of (clients g) (pl_client p) = Some d" "fixture d = Some sc"
  shows "poll_answered sz mb (sc_uid sc) (Some raw) g =
    (g\<lparr>polls := put (sc_uid sc) (p\<lparr>pl_attempt := pl_attempt p + 1, pl_reading := False\<rparr>) (polls g)\<rparr>,
     [ToClient (pl_client p) (item_event sc turn item)])"
  using assms poll_attempt_oversized [OF assms(1) d(2), of "pl_client p"] put_same [OF d(1)]
  by (simp add: poll_answered_def set_client_def)

lemma poll_rounds_ended:
  "map_of (polls g) uid = None \<Longrightarrow> gate_run o' sz mb (concat (map (poll_round uid raw) ts)) g = (g, [])"
  by (induction ts) (simp_all add: poll_round_def poll_turn_def poll_answered_def)

lemma poll_rounds:
  fixes ts :: "int list" and o' :: gate_options
  assumes "oversized sz mb raw sc turn item" and "map_of (polls g) (sc_uid sc) = Some p" and "\<not> pl_reading p"
    and d: "map_of (clients g) (pl_client p) = Some d" "fixture d = Some sc"
  defines "again \<equiv> takeWhile (\<lambda>t. t < pl_deadline p) (take (max_poll_attempts - pl_attempt p) ts)"
    and "r \<equiv> gate_run o' sz mb (concat (map (poll_round (sc_uid sc) raw) ts)) g"
  shows "snd r = concat (map (\<lambda>t. [PollPage (sc_uid sc) (poll_request sc), ToClient (pl_client p) (item_event sc turn item)]) again)
    \<and> clients (fst r) = clients g \<and> (length again < length ts \<longrightarrow> map_of (polls (fst r)) (sc_uid sc) = None)"
  unfolding again_def r_def using assms(2-3) d(1)
proof (induction ts arbitrary: g p)
  case (Cons t ts)
  let ?u = "sc_uid sc"
  have scope: "polled_scope (pl_client p) ?u g = Some sc" using Cons.prems d(2) by (simp add: polled_scope_def)
  show ?case
  proof (cases "pl_attempt p < max_poll_attempts \<and> t < pl_deadline p")
    case True
    let ?g1 = "g\<lparr>polls := put ?u (p\<lparr>pl_reading := True\<rparr>) (polls g)\<rparr>"
    let ?p2 = "p\<lparr>pl_attempt := pl_attempt p + 1, pl_reading := False\<rparr>"
    let ?g2 = "g\<lparr>polls := put ?u ?p2 (put ?u (p\<lparr>pl_reading := True\<rparr>) (polls g))\<rparr>"
    have head: "poll_turn ?u t g = (?g1, [PollPage ?u (poll_request sc)])"
      using True Cons.prems scope by (simp add: poll_turn_def poll_head_def)
    have answer: "poll_answered sz mb ?u (Some raw) ?g1 = (?g2, [ToClient (pl_client p) (item_event sc turn item)])"
      using poll_answered_oversized [OF assms(1), of ?g1 "p\<lparr>pl_reading := True\<rparr>" d] Cons.prems d(2) by simp
    have rest: "gate_run o' sz mb (concat (map (poll_round ?u raw) (t # ts))) g =
      (let (g', outs) = gate_run o' sz mb (concat (map (poll_round ?u raw) ts)) ?g2
       in (g', PollPage ?u (poll_request sc) # ToClient (pl_client p) (item_event sc turn item) # outs))"
      by (simp add: poll_round_def head answer case_prod_beta)
    have steps: "max_poll_attempts - pl_attempt p = Suc (max_poll_attempts - (pl_attempt p + 1))" using True by (simp add: Suc_diff_Suc)
    show ?thesis
      using Cons.IH [of ?g2 ?p2] Cons.prems True unfolding rest steps by (auto simp: case_prod_beta)
  next
    case False
    have "poll_turn ?u t g = (g\<lparr>polls := del ?u (polls g)\<rparr>, [])"
      using False Cons.prems scope by (auto simp: poll_turn_def poll_head_def)
    moreover have "poll_answered sz mb ?u (Some raw) (g\<lparr>polls := del ?u (polls g)\<rparr>) = (g\<lparr>polls := del ?u (polls g)\<rparr>, [])"
      by (simp add: poll_answered_def)
    moreover have "takeWhile (\<lambda>t. t < pl_deadline p) (take (max_poll_attempts - pl_attempt p) (t # ts)) = []"
      using False by (cases "max_poll_attempts - pl_attempt p") auto
    ultimately show ?thesis
      using poll_rounds_ended [of "g\<lparr>polls := del ?u (polls g)\<rparr>" ?u o' sz mb raw ts] by (simp add: poll_round_def [of ?u raw t])
  qed
qed simp

text \<open>
  C20. A saved turn that ended and whose completion is larger than the limit of a notification is never completed:
  each answered page read sends the same item notification again, and the loop goes on exactly while it has
  attempts left of its 40 and its 12 seconds are not over; then it stops for good without having sent a
  completion, and the client's scope is as it was, so the turn stays open.
\<close>

theorem oversized_completion_resends:
  fixes ts :: "int list" and o' :: gate_options
  assumes "map_of (polls g) (sc_uid sc) = Some p" and "pl_reading p" and "map_of (clients g) (pl_client p) = Some d"
    and "fixture d = Some sc" and "oversized sz mb raw sc turn item"
  defines "again \<equiv> takeWhile (\<lambda>t. t < pl_deadline p) (take (39 - pl_attempt p) ts)"
    and "r \<equiv> gate_run o' sz mb (PollAnswered (sc_uid sc) (Some raw)
                # concat (map (\<lambda>t. [PollTurn (sc_uid sc) t, PollAnswered (sc_uid sc) (Some raw)]) ts)) g"
  shows "snd r = ToClient (pl_client p) (item_event sc turn item)
        # concat (map (\<lambda>t. [PollPage (sc_uid sc) (poll_request sc), ToClient (pl_client p) (item_event sc turn item)]) again)
    \<and> clients (fst r) = clients g \<and> (length again < length ts \<longrightarrow> map_of (polls (fst r)) (sc_uid sc) = None)"
proof -
  let ?p = "p\<lparr>pl_attempt := pl_attempt p + 1, pl_reading := False\<rparr>"
  let ?g = "g\<lparr>polls := put (sc_uid sc) ?p (polls g)\<rparr>"
  have first: "poll_answered sz mb (sc_uid sc) (Some raw) g = (?g, [ToClient (pl_client p) (item_event sc turn item)])"
    by (rule poll_answered_oversized [OF assms(5,1,2,3,4)])
  have "max_poll_attempts - (pl_attempt p + 1) = 39 - pl_attempt p" by (simp add: max_poll_attempts_def)
  then show ?thesis
    using poll_rounds [OF assms(5), of ?g ?p d o' ts] assms(3,4)
    by (simp add: r_def again_def first case_prod_beta poll_round_def [abs_def])
qed

definition big_turn :: jsobj where
  "big_turn = [(''id'', JStr ''t''), (''status'', JStr ''completed''),
     (''items'', JArr [JObj [(''type'', JStr ''agentMessage''), (''id'', JStr ''i''), (''text'', JStr ''x'')]])]"

definition big_scope :: scope where
  "big_scope = \<lparr>sc_uid = 0, sc_thread = ''th'', sc_pending = None, sc_turn = Some ''t'', sc_buffered = [], sc_count = 1\<rparr>"

definition big_gate :: gate where
  "big_gate = empty_gate\<lparr>clients := [(0, fresh_client\<lparr>fixture := Some big_scope\<rparr>)],
     polls := [(0, \<lparr>pl_client = 0, pl_attempt = 0, pl_deadline = 12000, pl_reading = True\<rparr>)]\<rparr>"

definition big_size :: "jsval \<Rightarrow> nat" where
  "big_size v = (if field_of v ''method'' = JStr ''turn/completed'' then 70000 else 10)"

definition big_item :: jsval where
  "big_item = JObj [(''type'', JStr ''agentMessage''), (''id'', JStr ''i''), (''text'', JStr ''x'')]"

lemma big_oversized: "oversized big_size 1000 (JObj [(''data'', JArr [JObj big_turn])]) big_scope ''t'' big_item"
proof -
  let ?raw = "JObj [(''data'', JArr [JObj big_turn])]"
  let ?fs = "[(''id'', JStr ''t''), (''status'', JStr ''completed''), (''items'', JArr [big_item]), (''error'', Null)]"
  have j: "json_data ?raw = Some ?raw" by (simp add: big_turn_def)
  have it: "fixture_agent_message big_item = Some big_item"
    by (simp add: fixture_agent_message_def as_object_def utf8_bytes_def big_item_def)
  have ft: "fixture_turn (JObj big_turn) ''t'' = Ok (Some ?fs)"
    using it by (simp add: fixture_turn_def big_turn_def turn_states_def map_filter_def big_item_def)
  have nc: "no_secret 0 ?raw"
    by (simp add: big_turn_def credential_name_def secret_words_def secret_pairs_def lower_char_def between_def code_def)
  have p: "safe_paginated_page_response big_size (JStr ''fixture-poll'') ?raw 50 1000
      = Some [(''id'', JStr ''fixture-poll''), (''result'', ?raw)]"
    using nc by (simp add: safe_paginated_page_response_def j only_keys_def is_object_def cursor_ok_def no_secret_def max_page_response_def
      big_size_def del: json_data.simps)
  have s: "saved_turn big_size 1000 big_scope ?raw = Ok (Some ?fs)"
    using ft by (simp add: saved_turn_def p big_scope_def) (simp add: big_turn_def)
  show ?thesis
    unfolding oversized_def
    by (intro conjI exI, simp add: big_scope_def, rule s)
      (simp_all add: agent_items_def item_event_def completion_event_def max_fixture_notification_bytes_def big_size_def big_item_def)
qed

lemma oversized_completion_resends_witness:
  "let raw = JObj [(''data'', JArr [JObj big_turn])];
       r = gate_run closed_gate big_size 1000 [PollAnswered 0 (Some raw), PollTurn 0 250, PollAnswered 0 (Some raw), PollTurn 0 12500,
         PollAnswered 0 (Some raw)] big_gate
   in snd r = [ToClient 0 (item_event big_scope ''t'' big_item), PollPage 0 (poll_request big_scope),
        ToClient 0 (item_event big_scope ''t'' big_item)]
      \<and> clients (fst r) = clients big_gate \<and> map_of (polls (fst r)) 0 = None"
proof -
  let ?p = "\<lparr>pl_client = 0, pl_attempt = 0, pl_deadline = 12000, pl_reading = True\<rparr>"
  have u: "sc_uid big_scope = 0" by (simp add: big_scope_def)
  have p: "map_of (polls big_gate) (sc_uid big_scope) = Some ?p" "map_of (clients big_gate) (pl_client ?p) = Some (fresh_client\<lparr>fixture := Some big_scope\<rparr>)"
    by (simp_all add: big_gate_def u)
  show ?thesis
    using oversized_completion_resends [OF p(1) _ p(2) _ big_oversized, of closed_gate "[250, 12500]"] by (simp add: u)
qed

end
