(* ===== verification/Framing.thy ===== *)
theory Framing
  imports OrbitPrelude
begin

text \<open>
  Readers of a byte or character stream. Several parts of the program take messages out of a stream
  that arrives in arbitrary chunks: they append each chunk to a buffer and take complete messages from
  its front until none is left. The contract such a reader needs: what it decides on a buffer, it still
  decides when more has arrived. Then the chunks do not matter.
\<close>

datatype ('s, 'o, 'e) taken =
    NeedMore
  | Stop "'o list" 'e
  | Item nat 's "'o list"

text \<open>Take items until more data is needed or the reader stops.\<close>

function drain :: "('s \<Rightarrow> 'b list \<Rightarrow> ('s, 'o, 'e) taken) \<Rightarrow> 's \<Rightarrow> 'b list \<Rightarrow> 's \<times> 'b list \<times> 'o list \<times> 'e option" where
  "drain take1 s buf =
     (case take1 s buf of
        NeedMore \<Rightarrow> (s, buf, [], None)
      | Stop os e \<Rightarrow> (s, buf, os, Some e)
      | Item n s' os \<Rightarrow>
          if n = 0 \<or> length buf < n then (s, buf, [], None)
          else (case drain take1 s' (drop n buf) of (s2, buf2, os2, e) \<Rightarrow> (s2, buf2, os @ os2, e)))"
  by pat_completeness auto
termination
  by (relation "measure (\<lambda>(t, s, buf). length buf)") auto

declare drain.simps [simp del]

text \<open>The chunks as they arrive; after a stop nothing is read.\<close>

fun feed :: "('s \<Rightarrow> 'b list \<Rightarrow> ('s, 'o, 'e) taken) \<Rightarrow> 's \<Rightarrow> 'b list \<Rightarrow> 'b list list \<Rightarrow> 's \<times> 'b list \<times> 'o list \<times> 'e option" where
  "feed take1 s buf [] = (s, buf, [], None)"
| "feed take1 s buf (c # cs) =
     (case drain take1 s (buf @ c) of
        (s1, buf1, os, Some e) \<Rightarrow> (s1, buf1, os, Some e)
      | (s1, buf1, os, None) \<Rightarrow>
          (case feed take1 s1 buf1 cs of (s2, buf2, os2, e) \<Rightarrow> (s2, buf2, os @ os2, e)))"

text \<open>What an observer of a reader sees: the outputs and how it ended.\<close>

definition seen :: "'s \<times> 'b list \<times> 'o list \<times> 'e option \<Rightarrow> 'o list \<times> 'e option" where
  "seen r = (case r of (s, buf, os, e) \<Rightarrow> (os, e))"

locale stream_reader =
  fixes take1 :: "'s \<Rightarrow> 'b list \<Rightarrow> ('s, 'o, 'e) taken"
  assumes empty: "take1 s [] = NeedMore"
    and item_kept: "take1 s buf = Item n s' os \<Longrightarrow> 0 < n \<and> n \<le> length buf \<and> take1 s (buf @ more) = Item n s' os"
    and stop_kept: "take1 s buf = Stop os e \<Longrightarrow> take1 s (buf @ more) = Stop os e"
begin

lemma drain_stuck: "drain take1 s buf = (s1, buf1, os, None) \<Longrightarrow> take1 s1 buf1 = NeedMore"
proof (induction "length buf" arbitrary: s buf s1 buf1 os rule: less_induct)
  case less
  show ?case
  proof (cases "take1 s buf")
    case (Item n s' os')
    have n: "0 < n" "n \<le> length buf" using item_kept [OF Item] by auto
    then obtain os2 where "drain take1 s' (drop n buf) = (s1, buf1, os2, None)"
      using less.prems Item by (auto simp: drain.simps [of take1 s buf] split: prod.splits)
    then show ?thesis using less.hyps [of "drop n buf" s'] n by simp
  qed (use less.prems in \<open>auto simp: drain.simps [of take1 s buf]\<close>)
qed

lemma drain_more:
  "drain take1 s buf = (s1, buf1, os, e) \<Longrightarrow>
     (case e of
        None \<Rightarrow> drain take1 s (buf @ more) =
          (case drain take1 s1 (buf1 @ more) of (s2, buf2, os2, e2) \<Rightarrow> (s2, buf2, os @ os2, e2))
      | Some e' \<Rightarrow> seen (drain take1 s (buf @ more)) = (os, Some e'))"
proof (induction "length buf" arbitrary: s buf s1 buf1 os e rule: less_induct)
  case less
  show ?case
  proof (cases "take1 s buf")
    case NeedMore
    then have "s1 = s" "buf1 = buf" "os = []" "e = None"
      using less.prems by (simp_all add: drain.simps [of take1 s buf])
    then show ?thesis by (simp split: prod.splits)
  next
    case (Stop os' e')
    then show ?thesis
      using less.prems stop_kept [OF Stop, of more] drain.simps [of take1 s "buf @ more"]
      by (auto simp: drain.simps [of take1 s buf] seen_def)
  next
    case (Item n s' os')
    have n: "0 < n" "n \<le> length buf" "take1 s (buf @ more) = Item n s' os'"
      using item_kept [OF Item, of more] by auto
    obtain s2 buf2 os2 e2 where d: "drain take1 s' (drop n buf) = (s2, buf2, os2, e2)"
      by (metis prod_cases4)
    have r: "s1 = s2" "buf1 = buf2" "os = os' @ os2" "e = e2"
      using less.prems Item n d by (simp_all add: drain.simps [of take1 s buf])
    have "length (drop n buf) < length buf" using n by simp
    from less.hyps [OF this d]
    have ih: "case e2 of
        None \<Rightarrow> drain take1 s' (drop n buf @ more) =
          (case drain take1 s2 (buf2 @ more) of (s3, buf3, os3, e3) \<Rightarrow> (s3, buf3, os2 @ os3, e3))
      | Some e' \<Rightarrow> seen (drain take1 s' (drop n buf @ more)) = (os2, Some e')" .
    have "drain take1 s (buf @ more) =
       (case drain take1 s' (drop n buf @ more) of (s3, buf3, os3, e3) \<Rightarrow> (s3, buf3, os' @ os3, e3))"
      using n by (simp add: drain.simps [of take1 s "buf @ more"])
    then show ?thesis using ih r by (auto simp: seen_def split: option.splits prod.splits)
  qed
qed

theorem feed_concat:
  "drain take1 s (concat cs) = (s1, buf1, os, e) \<Longrightarrow>
     (case e of None \<Rightarrow> feed take1 s [] cs = (s1, buf1, os, None)
      | Some e' \<Rightarrow> seen (feed take1 s [] cs) = (os, Some e'))"
proof -
  have *: "drain take1 s (buf @ concat cs) = (s1, buf1, os, e) \<Longrightarrow> take1 s buf = NeedMore \<Longrightarrow>
     (case e of None \<Rightarrow> feed take1 s buf cs = (s1, buf1, os, None)
      | Some e' \<Rightarrow> seen (feed take1 s buf cs) = (os, Some e'))" for s buf s1 buf1 os e cs
  proof (induction cs arbitrary: s buf s1 buf1 os e)
    case Nil
    then show ?case by (auto simp: drain.simps [of take1 s buf] split: option.splits)
  next
    case (Cons c cs)
    obtain s2 buf2 os2 e2 where d: "drain take1 s (buf @ c) = (s2, buf2, os2, e2)"
      by (metis prod_cases4)
    note m = drain_more [OF d, of "concat cs"]
    show ?case
    proof (cases e2)
      case (Some e')
      then show ?thesis using m d Cons.prems(1) by (auto simp: seen_def)
    next
      case None
      obtain s3 buf3 os3 e3 where d2: "drain take1 s2 (buf2 @ concat cs) = (s3, buf3, os3, e3)"
        by (metis prod_cases4)
      have r: "s1 = s3" "buf1 = buf3" "os = os2 @ os3" "e = e3"
        using m None d2 Cons.prems(1) by auto
      have "take1 s2 buf2 = NeedMore" using drain_stuck [OF d [unfolded None]] .
      from Cons.IH [OF d2 this] show ?thesis
        using r d None by (auto simp: seen_def split: option.splits prod.splits)
    qed
  qed
  show "drain take1 s (concat cs) = (s1, buf1, os, e) \<Longrightarrow>
     (case e of None \<Rightarrow> feed take1 s [] cs = (s1, buf1, os, None)
      | Some e' \<Rightarrow> seen (feed take1 s [] cs) = (os, Some e'))"
    using *[of s "[]" cs] empty by simp
qed

text \<open>Two ways to cut the same stream show the same.\<close>

corollary chunks_do_not_matter:
  assumes "concat cs = concat cs'"
  shows "seen (feed take1 s [] cs) = seen (feed take1 s [] cs')"
proof -
  obtain s1 buf1 os e where d: "drain take1 s (concat cs) = (s1, buf1, os, e)" by (metis prod_cases4)
  show ?thesis
    using feed_concat [OF d] feed_concat [of s cs' s1 buf1 os e] d assms
    by (auto simp: seen_def split: option.splits)
qed

end

end
