(* ===== verification/CodexSocket.thy ===== *)
theory CodexSocket
  imports Framing CodexFilter "HOL-Library.Word"
begin

unbundle bit_operations_syntax

text \<open>
  The WebSocket of \<open>src/codex-authority-gate.ts\<close> (class \<open>OwnerWebSocket\<close>): the frames the owner sends,
  read from a stream of bytes, and the masked frames the gate sends. Decoding UTF-8 (\<open>TextDecoder\<close>,
  fatal) is the parameter \<open>utf8\<close>; whether the socket file is still the same one is the parameter \<open>same\<close>.
\<close>

type_synonym byte = "8 word"

section \<open>Frames from the owner\<close>

datatype socket_stop = InvalidFrame | TooLarge | PeerClosed | BadPing | BadPong | Unsupported | Overlap | Unexpected
  | NotText | IdentityChanged

datatype socket_event = TextMessage string | SendPong "byte list"

record reassembly =
  fragments :: "byte list list"
  fragment_bytes :: nat

definition no_fragments :: reassembly where
  "no_fragments = \<lparr>fragments = [], fragment_bytes = 0\<rparr>"

text \<open>An unsigned integer, most significant byte first.\<close>

definition big_endian :: "byte list \<Rightarrow> nat" where
  "big_endian bs = foldl (\<lambda>n b. n * 256 + unat b) 0 bs"

text \<open>Header and length of the next frame; \<open>None\<close> while they are incomplete.\<close>

definition frame_length :: "byte list \<Rightarrow> (nat \<times> nat) option" where
  "frame_length buf =
     (let len = unat (buf ! 1 AND 127) in
      if len = 126 then (if length buf < 4 then None else Some (4, big_endian (take 2 (drop 2 buf))))
      else if len = 127 then (if length buf < 10 then None else Some (10, big_endian (take 8 (drop 2 buf))))
      else Some (2, len))"

definition take_frame ::
  "(byte list \<Rightarrow> string option) \<Rightarrow> bool \<Rightarrow> reassembly \<Rightarrow> byte list \<Rightarrow> (reassembly, socket_event, socket_stop) taken" where
  "take_frame utf8 same st buf =
     (if length buf < 2 then NeedMore
      else
       (let first = buf ! 0; second = buf ! 1; opcode = unat (first AND 15); fin = (first AND 0x80 \<noteq> 0) in
        if first AND 0x70 \<noteq> 0 \<or> second AND 0x80 \<noteq> 0 then Stop [] InvalidFrame
        else case frame_length buf of
          None \<Rightarrow> NeedMore
        | Some (header, len) \<Rightarrow>
            if len > max_message \<or> fragment_bytes st + len > max_message then Stop [] TooLarge
            else if length buf < header + len then NeedMore
            else
              (let payload = take len (drop header buf); n = header + len in
               if opcode = 8 then Stop [] PeerClosed
               else if opcode = 9 then
                 (if \<not> fin \<or> len > 125 then Stop [] BadPing else Item n st [SendPong payload])
               else if opcode = 10 then (if \<not> fin \<or> len > 125 then Stop [] BadPong else Item n st [])
               else if opcode \<noteq> 0 \<and> opcode \<noteq> 1 then Stop [] Unsupported
               else if opcode = 1 \<and> fragments st \<noteq> [] then Stop [] Overlap
               else if opcode = 0 \<and> fragments st = [] then Stop [] Unexpected
               else if \<not> fin then
                 Item n \<lparr>fragments = fragments st @ [payload], fragment_bytes = fragment_bytes st + len\<rparr> []
               else case utf8 (concat (fragments st @ [payload])) of
                   None \<Rightarrow> Stop [] NotText
                 | Some text' \<Rightarrow> if \<not> same then Stop [] IdentityChanged else Item n no_fragments [TextMessage text'])))"

text \<open>One data event of the open socket: the buffer is bounded before it grows.\<close>

definition max_header :: nat where "max_header = 8192"

definition socket_data ::
  "(byte list \<Rightarrow> string option) \<Rightarrow> bool \<Rightarrow> reassembly \<Rightarrow> byte list \<Rightarrow> byte list
    \<Rightarrow> reassembly \<times> byte list \<times> socket_event list \<times> socket_stop option" where
  "socket_data utf8 same st buf chunk =
     (if length buf + length chunk > max_message + max_header then (st, buf, [], Some TooLarge)
      else drain (take_frame utf8 same) st (buf @ chunk))"

fun socket_stream ::
  "(byte list \<Rightarrow> string option) \<Rightarrow> bool \<Rightarrow> reassembly \<Rightarrow> byte list \<Rightarrow> byte list list
    \<Rightarrow> reassembly \<times> byte list \<times> socket_event list \<times> socket_stop option" where
  "socket_stream utf8 same st buf [] = (st, buf, [], None)"
| "socket_stream utf8 same st buf (c # cs) =
     (case socket_data utf8 same st buf c of
        (st1, buf1, os, Some e) \<Rightarrow> (st1, buf1, os, Some e)
      | (st1, buf1, os, None) \<Rightarrow>
          (case socket_stream utf8 same st1 buf1 cs of (st2, buf2, os2, e) \<Rightarrow> (st2, buf2, os @ os2, e)))"

section \<open>Frames to the owner\<close>

definition mask_bytes :: "byte list \<Rightarrow> byte list \<Rightarrow> byte list" where
  "mask_bytes mk payload = map (\<lambda>i. payload ! i XOR mk ! (i mod 4)) [0..<length payload]"

definition frame_header :: "nat \<Rightarrow> nat \<Rightarrow> byte list" where
  "frame_header opcode len =
     (if len < 126 then [0x80 OR of_nat opcode, 0x80 OR of_nat len]
      else if len \<le> 65535 then [0x80 OR of_nat opcode, 0x80 OR 126, of_nat (len div 256), of_nat len]
      else [0x80 OR of_nat opcode, 0x80 OR 127, 0, 0, 0, 0,
            of_nat (len div 0x1000000), of_nat (len div 65536), of_nat (len div 256), of_nat len])"

definition socket_frame :: "nat \<Rightarrow> byte list \<Rightarrow> byte list \<Rightarrow> byte list option" where
  "socket_frame opcode payload mk =
     (if length payload > max_message then None
      else Some (frame_header opcode (length payload) @ mk @ mask_bytes mk payload))"

text \<open>What the other end reads, by the WebSocket protocol: a final, masked frame.\<close>

definition unframe :: "byte list \<Rightarrow> (nat \<times> byte list \<times> byte list) option" where
  "unframe buf =
     (if length buf < 2 \<or> buf ! 0 AND 0x80 = 0 \<or> buf ! 1 AND 0x80 = 0 then None
      else case frame_length buf of
        None \<Rightarrow> None
      | Some (header, len) \<Rightarrow>
          if length buf < header + 4 + len then None
          else Some (unat (buf ! 0 AND 15),
            mask_bytes (take 4 (drop header buf)) (take len (drop (header + 4) buf)),
            drop (header + 4 + len) buf))"

section \<open>Chunks of the stream do not matter\<close>

lemma frame_length_more:
  assumes "length buf \<ge> 2" and "frame_length buf = Some (h, n)"
  shows "frame_length (buf @ rest) = Some (h, n) \<and> 2 \<le> h \<and> h \<le> length buf"
proof -
  have "(buf @ rest) ! 1 = buf ! 1" using assms(1) by (simp add: nth_append)
  moreover have "take k (drop 2 (buf @ rest)) = take k (drop 2 buf)" if "k + 2 \<le> length buf" for k
    using that by simp
  ultimately show ?thesis
    using assms by (auto simp: frame_length_def Let_def split: if_splits)
qed

interpretation ws: stream_reader "take_frame utf8 same"
proof
  show "take_frame utf8 same s [] = NeedMore" for s by (simp add: take_frame_def)
next
  fix s buf n s' os rest
  assume i: "take_frame utf8 same s buf = Item n s' os"
  then have l: "\<not> length buf < 2" by (auto simp: take_frame_def split: if_splits)
  then obtain h len where f: "frame_length buf = Some (h, len)" "\<not> length buf < h + len" "n = h + len"
    using i by (auto simp: take_frame_def Let_def split: if_splits option.splits)
  have m: "frame_length (buf @ rest) = Some (h, len)" "2 \<le> h"
    using frame_length_more [OF _ f(1), of rest] l by auto
  have b: "(buf @ rest) ! 0 = buf ! 0" "(buf @ rest) ! 1 = buf ! 1" "take len (drop h (buf @ rest)) = take len (drop h buf)"
    using l f(2) by (auto simp: nth_append not_less)
  have "take_frame utf8 same s (buf @ rest) = take_frame utf8 same s buf"
    using l f m(1) unfolding take_frame_def by (simp only: b Let_def length_append option.case prod.case) simp
  then show "0 < n \<and> n \<le> length buf \<and> take_frame utf8 same s (buf @ rest) = Item n s' os"
    using i f m(2) by simp
next
  fix s buf os e rest
  assume st: "take_frame utf8 same s buf = Stop os e"
  then have l: "\<not> length buf < 2" by (auto simp: take_frame_def split: if_splits)
  have b0: "(buf @ rest) ! 0 = buf ! 0" "(buf @ rest) ! 1 = buf ! 1" using l by (auto simp: nth_append)
  show "take_frame utf8 same s (buf @ rest) = Stop os e"
  proof (cases "buf ! 0 AND 0x70 \<noteq> 0 \<or> buf ! 1 AND 0x80 \<noteq> 0")
    case True
    then show ?thesis using st l by (auto simp: take_frame_def Let_def nth_append)
  next
    case False
    then obtain h len where f: "frame_length buf = Some (h, len)"
      using st l by (auto simp: take_frame_def Let_def split: if_splits option.splits)
    then have m: "frame_length (buf @ rest) = Some (h, len)" using frame_length_more [OF _ f, of rest] l by auto
    show ?thesis
    proof (cases "len > max_message \<or> fragment_bytes s + len > max_message")
      case True
      then show ?thesis using st l f m False by (auto simp: take_frame_def Let_def nth_append)
    next
      case small: False
      then have len: "\<not> length buf < h + len" using st l f False by (auto simp: take_frame_def Let_def split: if_splits)
      then have "take len (drop h (buf @ rest)) = take len (drop h buf)" by simp
      then have "take_frame utf8 same s (buf @ rest) = take_frame utf8 same s buf"
        using l f m len unfolding take_frame_def by (simp only: b0 Let_def length_append option.case prod.case) simp
      then show ?thesis using st by simp
    qed
  qed
qed

lemma drain_length: "drain take1 s buf = (s1, buf1, os, e) \<Longrightarrow> length buf1 \<le> length buf"
proof (induction "length buf" arbitrary: s buf s1 buf1 os e rule: less_induct)
  case less
  show ?case
  proof (cases "take1 s buf")
    case (Item n s' os')
    show ?thesis
    proof (cases "n = 0 \<or> length buf < n")
      case True
      then show ?thesis using less.prems Item by (auto simp: drain.simps [of take1 s buf])
    next
      case False
      then obtain os2 e2 where "drain take1 s' (drop n buf) = (s1, buf1, os2, e2)"
        using less.prems Item by (auto simp: drain.simps [of take1 s buf] split: prod.splits)
      then show ?thesis using less.hyps [of "drop n buf" s'] False by fastforce
    qed
  qed (use less.prems in \<open>auto simp: drain.simps [of take1 s buf]\<close>)
qed

lemma socket_stream_feed:
  "length buf + length (concat cs) \<le> max_message + max_header \<Longrightarrow>
     socket_stream utf8 same st buf cs = feed (take_frame utf8 same) st buf cs"
proof (induction cs arbitrary: st buf)
  case (Cons c cs)
  obtain st1 buf1 os e where d: "drain (take_frame utf8 same) st (buf @ c) = (st1, buf1, os, e)" by (metis prod_cases4)
  have "length buf1 \<le> length buf + length c" using drain_length [OF d] by simp
  then have "length buf1 + length (concat cs) \<le> max_message + max_header" using Cons.prems by simp
  from Cons.IH [OF this, of st1] show ?case
    using Cons.prems d by (simp add: socket_data_def split: option.splits)
qed simp

text \<open>However the owner's bytes are cut into chunks, the gate reads the same messages and answers the same
pings, and refuses the stream for the same reason, as long as they fit its buffer.\<close>

theorem socket_chunks_do_not_matter:
  assumes "concat cs = concat cs'" and "length (concat cs) \<le> max_message + max_header"
  shows "seen (socket_stream utf8 same no_fragments [] cs) = seen (socket_stream utf8 same no_fragments [] cs')"
  using ws.chunks_do_not_matter [OF assms(1)] assms socket_stream_feed [of "[]" cs] socket_stream_feed [of "[]" cs'] by simp

definition latin :: "byte list \<Rightarrow> string option" where
  "latin bs = Some (map (\<lambda>b. char_of (unat b)) bs)"

lemma socket_chunks_do_not_matter_witness:
  "seen (socket_stream latin True no_fragments [] [[0x01, 0x01], [0x68, 0x80], [0x01, 0x69]])
    = seen (socket_stream latin True no_fragments [] [[0x01], [0x01, 0x68, 0x80, 0x01, 0x69]])"
  by (rule socket_chunks_do_not_matter) (simp_all add: max_message_def max_header_def)

section \<open>The masked frames read back\<close>

lemma opcode_bits: "op < 16 \<Longrightarrow> unat ((0x80 OR (of_nat op :: byte)) AND 15) = op \<and> (0x80 OR (of_nat op :: byte)) AND 0x80 \<noteq> 0"
proof -
  have "list_all (\<lambda>op. unat ((0x80 OR (of_nat op :: byte)) AND 15) = op \<and> (0x80 OR (of_nat op :: byte)) AND 0x80 \<noteq> 0) [0..<16]"
    by code_simp
  then show "op < 16 \<Longrightarrow> ?thesis" by (simp add: list_all_iff)
qed

lemma length_bits: "n < 128 \<Longrightarrow> unat ((0x80 OR (of_nat n :: byte)) AND 127) = n \<and> (0x80 OR (of_nat n :: byte)) AND 0x80 \<noteq> 0"
proof -
  have "list_all (\<lambda>n. unat ((0x80 OR (of_nat n :: byte)) AND 127) = n \<and> (0x80 OR (of_nat n :: byte)) AND 0x80 \<noteq> 0) [0..<128]"
    by code_simp
  then show "n < 128 \<Longrightarrow> ?thesis" by (simp add: list_all_iff)
qed

lemma byte_of_nat: "unat (of_nat n :: byte) = n mod 256"
  by (simp add: unat_of_nat)

lemma frame_header_read:
  assumes "op < 16" and "len \<le> max_message"
  shows "unat (frame_header op len ! 0 AND 15) = op \<and> frame_header op len ! 0 AND 0x80 \<noteq> 0
    \<and> frame_header op len ! 1 AND 0x80 \<noteq> 0 \<and> 2 \<le> length (frame_header op len)
    \<and> frame_length (frame_header op len @ rest) = Some (length (frame_header op len), len)"
proof -
  consider "len < 126" | "126 \<le> len" "len \<le> 65535" | "65535 < len" by linarith
  then show ?thesis
  proof cases
    case 1
    then show ?thesis
      using opcode_bits [OF assms(1)] length_bits [of len] by (simp add: frame_header_def frame_length_def)
  next
    case 2
    have "(len div 256) mod 256 * 256 + len mod 256 = len" using 2 by (simp add: div_mult_mod_eq)
    then show ?thesis
      using 2 opcode_bits [OF assms(1)] length_bits [of 126]
      by (simp add: frame_header_def frame_length_def big_endian_def byte_of_nat numeral_2_eq_2)
  next
    case 3
    have l: "len < 16777216" using assms(2) by (simp add: max_message_def)
    have "len div 65536 = len div 256 div 256" "len div 256 div 256 < 256"
      using l by (simp_all add: div_mult2_eq [symmetric] less_mult_imp_div_less)
    then have "(len div 65536) mod 256 * 256 + (len div 256) mod 256 = len div 256"
      by (simp only: mod_less div_mult_mod_eq)
    then have "((len div 16777216 mod 256 * 256 + (len div 65536) mod 256) * 256 + (len div 256) mod 256) * 256 + len mod 256 = len"
      using l by (simp add: div_mult_mod_eq)
    moreover have "len div 16777216 = 0" using l by simp
    ultimately have v: "big_endian [0, 0, 0, 0, of_nat (len div 0x1000000), of_nat (len div 65536), of_nat (len div 256), of_nat len] = len"
      by (simp add: big_endian_def byte_of_nat)
    have h: "frame_header op len = [0x80 OR of_nat op, 0x80 OR 127, 0, 0, 0, 0,
            of_nat (len div 0x1000000), of_nat (len div 65536), of_nat (len div 256), of_nat len]"
      using 3 by (simp add: frame_header_def)
    have t: "take 8 (drop 2 (frame_header op len @ rest)) =
       [0, 0, 0, 0, of_nat (len div 0x1000000), of_nat (len div 65536), of_nat (len div 256), of_nat len]"
      unfolding h by simp
    have "unat ((0x80 OR 127 :: byte) AND 127) = 127" "(0x80 OR 127 :: byte) AND 0x80 \<noteq> 0" by simp_all
    then have "frame_length (frame_header op len @ rest) = Some (10, len)"
      unfolding frame_length_def t v by (simp add: h)
    then show ?thesis
      using opcode_bits [OF assms(1)] by (simp add: h)
  qed
qed

lemma mask_bytes_twice: "mask_bytes mk (mask_bytes mk p) = p"
  by (rule nth_equalityI) (auto simp: mask_bytes_def xor.assoc)

lemma length_mask_bytes [simp]: "length (mask_bytes mk p) = length p"
  by (simp add: mask_bytes_def)

text \<open>Whatever the payload and the random mask, the owner reads back the opcode and the payload of every frame
the gate sends, and stops exactly at its end; the three forms of the length meet without a gap.\<close>

theorem masked_frame_roundtrip:
  assumes "socket_frame op payload mk = Some bytes" and "length mk = 4" and "op < 16"
  shows "unframe (bytes @ rest) = Some (op, payload, rest)"
proof -
  have b: "bytes = frame_header op (length payload) @ mk @ mask_bytes mk payload" and l: "length payload \<le> max_message"
    using assms(1) by (auto simp: socket_frame_def split: if_splits)
  let ?h = "frame_header op (length payload)"
  have h: "unat (?h ! 0 AND 15) = op" "?h ! 0 AND 0x80 \<noteq> 0" "?h ! 1 AND 0x80 \<noteq> 0" "2 \<le> length ?h"
    "frame_length (bytes @ rest) = Some (length ?h, length payload)"
    using frame_header_read [OF assms(3) l, of "mk @ mask_bytes mk payload @ rest"] b by simp_all
  have n: "(bytes @ rest) ! 0 = ?h ! 0" "(bytes @ rest) ! 1 = ?h ! 1"
    using h(4) unfolding b by (auto simp: nth_append)
  have t: "take 4 (drop (length ?h) (bytes @ rest)) = mk"
    "take (length payload) (drop (length ?h + 4) (bytes @ rest)) = mask_bytes mk payload"
    "drop (length ?h + 4 + length payload) (bytes @ rest) = rest"
    using assms(2) unfolding b by simp_all
  have "length ?h + 4 + length payload \<le> length (bytes @ rest)" using assms(2) unfolding b by simp
  then show ?thesis
    unfolding unframe_def n h(5) using h(1-4) t mask_bytes_twice [of mk payload] by simp
qed

lemma masked_frame_roundtrip_witness:
  "unframe ([0x81, 0x82, 1, 2, 3, 4, 0x69, 0x6b] @ [7]) = Some (1, [0x68, 0x69], [7])"
  by (rule masked_frame_roundtrip [where mk = "[1, 2, 3, 4]"])
    (simp_all add: socket_frame_def max_message_def frame_header_def mask_bytes_def upt_rec)

end
