(* ===== verification/CodexIpc.thy ===== *)
theory CodexIpc
  imports CodexSocket
begin

text \<open>
  \<open>src/codex-ipc-gate.ts\<close>: the gate between one desktop client and the private Codex owner on the
  length-prefixed IPC socket. First the frames, then the gate: its counters, the state of every accepted
  connection (its client side, its owner side, what the two have said about themselves), and what each
  event does. An event is one callback run to its end.

  Parameters: \<open>parse\<close> is \<open>JSON.parse\<close> of the decoded bytes, \<open>sz\<close> the length in bytes of the text
  \<open>JSON.stringify\<close> makes of a message. The checks of the socket files and directories are predicates over
  what the file system reports; the event that reports a connection to the owner carries their outcome
  (\<open>owner_is_same\<close>). The pausing of a source whose destination is slow only delays its data events and is not
  represented.
\<close>

section \<open>Frames\<close>

definition ipc_max_frame :: nat where "ipc_max_frame = 16777216"
definition ipc_max_buffer :: nat where "ipc_max_buffer = 33554432"
definition max_fixture_text :: nat where "max_fixture_text = 8192"

definition little_endian :: "byte list \<Rightarrow> nat" where
  "little_endian bs = foldr (\<lambda>b n. unat b + 256 * n) bs 0"

datatype ipc_stop = BadLength | NotAnObject | Overflow

definition take_ipc_frame ::
  "(byte list \<Rightarrow> jsval option) \<Rightarrow> unit \<Rightarrow> byte list \<Rightarrow> (unit, jsobj \<times> byte list, ipc_stop) taken" where
  "take_ipc_frame parse u pending =
     (if length pending < 4 then NeedMore
      else
       (let len = little_endian (take 4 pending) in
        if len < 1 \<or> ipc_max_frame < len then Stop [] BadLength
        else if length pending < len + 4 then NeedMore
        else
         (let content = take (len + 4) pending in
          case Option.bind (parse (drop 4 content)) as_object of
            None \<Rightarrow> Stop [] NotAnObject
          | Some message \<Rightarrow> Item (len + 4) () [(message, content)])))"

text \<open>One data event of a socket, and the data events of a whole stream.\<close>

definition ipc_data ::
  "(byte list \<Rightarrow> jsval option) \<Rightarrow> byte list \<Rightarrow> byte list \<Rightarrow> byte list \<times> (jsobj \<times> byte list) list \<times> ipc_stop option" where
  "ipc_data parse pending chunk =
     (if ipc_max_buffer < length pending + length chunk then (pending, [], Some Overflow)
      else snd (drain (take_ipc_frame parse) () (pending @ chunk)))"

fun ipc_stream ::
  "(byte list \<Rightarrow> jsval option) \<Rightarrow> byte list \<Rightarrow> byte list list \<Rightarrow> byte list \<times> (jsobj \<times> byte list) list \<times> ipc_stop option" where
  "ipc_stream parse pending [] = (pending, [], None)"
| "ipc_stream parse pending (c # cs) =
     (case ipc_data parse pending c of
        (p1, os, Some e) \<Rightarrow> (p1, os, Some e)
      | (p1, os, None) \<Rightarrow> (case ipc_stream parse p1 cs of (p2, os2, e) \<Rightarrow> (p2, os @ os2, e)))"

definition uint32_le :: "nat \<Rightarrow> byte list" where
  "uint32_le n = [of_nat n, of_nat (n div 256), of_nat (n div 65536), of_nat (n div 16777216)]"

text \<open>\<open>None\<close> is the exception of an empty or too large frame.\<close>

definition ipc_frame :: "byte list \<Rightarrow> byte list option" where
  "ipc_frame body =
     (if body = [] \<or> ipc_max_frame < length body then None else Some (uint32_le (length body) @ body))"

section \<open>The one text turn a client may start\<close>

definition empty_array :: "jsval \<Rightarrow> bool" where
  "empty_array v \<longleftrightarrow> v = JArr []"

definition attachment_fields :: "string list" where
  "attachment_fields = [''attachments'', ''commentAttachments'', ''mcpAppModelContextAttachments'', ''responseItems'']"

definition single_item :: "jsval \<Rightarrow> jsobj option" where
  "single_item v = (case v of JArr [item] \<Rightarrow> as_object item | _ \<Rightarrow> None)"

definition fixture_text_turn :: "jsobj \<Rightarrow> string \<Rightarrow> string \<Rightarrow> string option \<Rightarrow> string option" where
  "fixture_text_turn message thread client owner_client =
     (let params = getp message ''params'';
          request = field_of (field_of params ''turnStart'') ''request'';
          context = field_of (field_of params ''turnStart'') ''context'';
          rid = getp message ''requestId'' in
      case (owner_client, as_object context, single_item (field_of request ''input'')) of
        (Some owner_id, Some cs, Some item) \<Rightarrow>
          if getp message ''type'' = JStr ''request'' \<and> getp message ''method'' = JStr ''thread-follower-start-turn''
             \<and> getp message ''version'' = jint 2 \<and> is_string rid \<and> str_of rid \<noteq> [] \<and> length (str_of rid) \<le> 128
             \<and> getp message ''sourceClientId'' = JStr client \<and> owner_id \<noteq> [] \<and> getp message ''targetClientId'' = JStr owner_id
             \<and> field_of params ''conversationId'' = JStr thread \<and> field_of request ''threadId'' = JStr thread
             \<and> getp item ''type'' = JStr ''text'' \<and> is_string (getp item ''text'') \<and> str_of (getp item ''text'') \<noteq> []
             \<and> utf8_bytes (str_of (getp item ''text'')) \<le> max_fixture_text \<and> CHR 0x00 \<notin> set (str_of (getp item ''text''))
             \<and> list_all (\<lambda>k. empty_array (getp cs k)) attachment_fields
             \<and> (case as_object (getp cs ''localTurnMetadata'') of None \<Rightarrow> True
                | Some metadata \<Rightarrow> getp metadata ''fileAttachmentCount'' = jint 0)
          then Some (str_of (getp item ''text'')) else None
      | _ \<Rightarrow> None)"

section \<open>State\<close>

datatype ipc_phase = Connecting "jsobj list" nat | Linked | Abandoned

text \<open>
  \<open>il_down\<close> and \<open>il_up\<close>: the client's and the owner's socket exist and are not destroyed;
  \<open>il_to_client\<close> and \<open>il_to_owner\<close> their \<open>writableLength\<close>.
\<close>

record ipc_link =
  il_phase :: ipc_phase
  il_down :: bool
  il_up :: bool
  il_client :: "string option"
  il_owner :: "string option"
  il_turn :: "string option"
  il_initializing :: bool
  il_to_client :: nat
  il_to_owner :: nat

record ipc_counts =
  ic_connections :: nat
  ic_following :: nat
  ic_snapshots :: nat
  ic_turns :: nat
  ic_denied :: nat

record ipc_gate =
  ig_counts :: ipc_counts
  ig_turn_used :: bool
  ig_links :: "(nat \<times> ipc_link) list"

definition ipc_new_gate :: "string \<Rightarrow> ipc_gate option" where
  "ipc_new_gate thread =
     (if is_uuid thread then Some \<lparr>ig_counts = \<lparr>ic_connections = 0, ic_following = 0, ic_snapshots = 0, ic_turns = 0, ic_denied = 0\<rparr>,
        ig_turn_used = False, ig_links = []\<rparr>
      else None)"

definition ipc_new_link :: ipc_link where
  "ipc_new_link = \<lparr>il_phase = Connecting [] 0, il_down = True, il_up = False, il_client = None, il_owner = None,
     il_turn = None, il_initializing = False, il_to_client = 0, il_to_owner = 0\<rparr>"

datatype ipc_output = IpcToOwner nat jsobj | IpcToClient nat jsobj | IpcSubmit nat string string | IpcAudit jsobj

definition close_both :: "ipc_link \<Rightarrow> ipc_link" where
  "close_both L = L\<lparr>il_down := False, il_up := False\<rparr>"

text \<open>\<open>forward\<close> towards the owner and towards the client, of a content of \<open>n\<close> bytes.\<close>

definition forward_owner :: "nat \<Rightarrow> jsobj \<Rightarrow> nat \<Rightarrow> ipc_link \<Rightarrow> ipc_output list \<times> ipc_link" where
  "forward_owner k m n L =
     (if \<not> il_up L \<or> ipc_max_buffer < il_to_owner L + n then ([], close_both L)
      else ([IpcToOwner k m], L\<lparr>il_to_owner := il_to_owner L + n\<rparr>))"

definition forward_client :: "nat \<Rightarrow> jsobj \<Rightarrow> nat \<Rightarrow> ipc_link \<Rightarrow> ipc_output list \<times> ipc_link" where
  "forward_client k m n L =
     (if \<not> il_down L \<or> ipc_max_buffer < il_to_client L + n then ([], close_both L)
      else ([IpcToClient k m], L\<lparr>il_to_client := il_to_client L + n\<rparr>))"

section \<open>Messages of the client\<close>

text \<open>The length of a frame, or \<open>None\<close> where \<open>frame\<close> throws. A message always has a text.\<close>

definition framed :: "(jsobj \<Rightarrow> nat) \<Rightarrow> jsobj \<Rightarrow> nat option" where
  "framed sz m = (if sz m < 1 \<or> ipc_max_frame < sz m then None else Some (sz m + 4))"

definition ipc_initialize :: "string \<Rightarrow> string \<Rightarrow> jsobj" where
  "ipc_initialize rid client_type =
     [(''type'', JStr ''request''), (''requestId'', JStr rid), (''method'', JStr ''initialize''), (''version'', jint 1),
      (''params'', JObj [(''clientType'', JStr client_type)])]"

definition ipc_following :: "string \<Rightarrow> string \<Rightarrow> bool \<Rightarrow> jsobj" where
  "ipc_following client thread following =
     [(''type'', JStr ''broadcast''), (''sourceClientId'', JStr client), (''method'', JStr ''thread-stream-following-changed''),
      (''version'', jint 1),
      (''params'', JObj [(''conversationId'', JStr thread), (''hostId'', JStr ''local''), (''following'', JBool following)])]"

definition ipc_denied :: "string \<Rightarrow> jsval \<Rightarrow> jsobj" where
  "ipc_denied rid meth =
     [(''type'', JStr ''response''), (''requestId'', JStr rid), (''method'', meth), (''resultType'', JStr ''error''),
      (''error'', JStr ''denied'')]"

definition turn_reply :: "string \<Rightarrow> jsval option \<Rightarrow> jsobj" where
  "turn_reply rid outcome =
     [(''type'', JStr ''response''), (''requestId'', JStr rid), (''method'', JStr ''thread-follower-start-turn'')]
     @ (case outcome of
          Some v \<Rightarrow> [(''resultType'', JStr ''success''), (''result'', JObj [(''result'', v)])]
        | None \<Rightarrow> [(''resultType'', JStr ''error''), (''error'', JStr ''fixture-turn-failed'')])"

definition wants_initialize :: "jsobj \<Rightarrow> ipc_link \<Rightarrow> bool" where
  "wants_initialize m L \<longleftrightarrow>
     getp m ''type'' = JStr ''request'' \<and> getp m ''method'' = JStr ''initialize'' \<and> il_client L = None
     \<and> \<not> il_initializing L \<and> is_string (getp m ''requestId'') \<and> length (str_of (getp m ''requestId'')) \<le> 128
     \<and> is_string (field_of (getp m ''params'') ''clientType'')
     \<and> length (str_of (field_of (getp m ''params'') ''clientType'')) \<le> 128"

definition wants_following :: "string \<Rightarrow> jsobj \<Rightarrow> ipc_link \<Rightarrow> bool" where
  "wants_following thread m L \<longleftrightarrow>
     getp m ''type'' = JStr ''broadcast'' \<and> getp m ''method'' = JStr ''thread-stream-following-changed''
     \<and> (case il_client L of None \<Rightarrow> False | Some c \<Rightarrow> getp m ''sourceClientId'' = JStr c)
     \<and> (getp m ''targetClientIds'' = Undef \<or> getp m ''targetClientIds'' = Null)
     \<and> field_of (getp m ''params'') ''conversationId'' = JStr thread
     \<and> field_of (getp m ''params'') ''hostId'' = JStr ''local''
     \<and> is_bool (field_of (getp m ''params'') ''following'')"

text \<open>The text of a turn the client may start, where it may.\<close>

definition wanted_turn :: "string \<Rightarrow> bool \<Rightarrow> jsobj \<Rightarrow> ipc_gate \<Rightarrow> ipc_link \<Rightarrow> string option" where
  "wanted_turn thread can_submit m g L =
     (case il_client L of
        Some c \<Rightarrow>
          if can_submit \<and> \<not> ig_turn_used g \<and> il_turn L = None \<and> getp m ''method'' = JStr ''thread-follower-start-turn''
          then fixture_text_turn m thread c (il_owner L) else None
      | None \<Rightarrow> None)"

definition set_link :: "nat \<Rightarrow> ipc_link \<Rightarrow> ipc_gate \<Rightarrow> ipc_gate" where
  "set_link k L g = g\<lparr>ig_links := put k L (ig_links g)\<rparr>"

definition counted :: "(ipc_counts \<Rightarrow> ipc_counts) \<Rightarrow> ipc_gate \<Rightarrow> ipc_gate" where
  "counted f g = g\<lparr>ig_counts := f (ig_counts g)\<rparr>"

text \<open>\<open>handleClientMessage\<close>; the third part says that it threw.\<close>

definition handle_client ::
  "(jsobj \<Rightarrow> nat) \<Rightarrow> string \<Rightarrow> bool \<Rightarrow> nat \<Rightarrow> jsobj \<Rightarrow> ipc_gate \<Rightarrow> ipc_link \<Rightarrow> ipc_output list \<times> ipc_gate \<times> ipc_link \<times> bool" where
  "handle_client sz thread can_submit k m g L =
     (if wants_initialize m L then
        (let L1 = L\<lparr>il_initializing := True\<rparr>;
             r = ipc_initialize (str_of (getp m ''requestId'')) (str_of (field_of (getp m ''params'') ''clientType'')) in
         case framed sz r of
           None \<Rightarrow> ([], g, L1, True)
         | Some n \<Rightarrow> (case forward_owner k r n L1 of (os, L2) \<Rightarrow> (os, g, L2, False)))
      else if wants_following thread m L then
        (let g1 = counted (\<lambda>c. c\<lparr>ic_following := ic_following c + 1\<rparr>) g;
             r = ipc_following (the (il_client L)) thread (field_of (getp m ''params'') ''following'' = JBool True) in
         case framed sz r of
           None \<Rightarrow> ([], g1, L, True)
         | Some n \<Rightarrow> (case forward_owner k r n L of (os, L2) \<Rightarrow> (os, g1, L2, False)))
      else case wanted_turn thread can_submit m g L of
        Some t \<Rightarrow>
          (let rid = str_of (getp m ''requestId'') in
           ([IpcSubmit k rid t], counted (\<lambda>c. c\<lparr>ic_turns := ic_turns c + 1\<rparr>) (g\<lparr>ig_turn_used := True\<rparr>),
            L\<lparr>il_turn := Some rid\<rparr>, False))
      | None \<Rightarrow>
          if getp m ''type'' = JStr ''request'' \<and> is_string (getp m ''requestId'') then
            (let g1 = counted (\<lambda>c. c\<lparr>ic_denied := ic_denied c + 1\<rparr>) g;
                 r = ipc_denied (str_of (getp m ''requestId'')) (getp m ''method'') in
             case framed sz r of
               None \<Rightarrow> ([IpcAudit m], g1, L, True)
             | Some n \<Rightarrow> (case forward_client k r n L of (os, L2) \<Rightarrow> (IpcAudit m # os, g1, L2, False)))
          else ([], g, L, False))"

text \<open>
  A message read from the client, with the length of its frame: kept while the owner is being connected,
  handled afterwards. An exception of the handler destroys the socket it was read from.
\<close>

definition client_frame ::
  "(jsobj \<Rightarrow> nat) \<Rightarrow> string \<Rightarrow> bool \<Rightarrow> nat \<Rightarrow> jsobj \<Rightarrow> nat \<Rightarrow> ipc_gate \<Rightarrow> ipc_output list \<times> ipc_gate" where
  "client_frame sz thread can_submit k m n g =
     (case map_of (ig_links g) k of
        None \<Rightarrow> ([], g)
      | Some L \<Rightarrow>
          if \<not> il_down L then ([], g)
          else (case il_phase L of
              Connecting early bytes \<Rightarrow>
                if ipc_max_buffer < bytes + n then ([], set_link k (L\<lparr>il_phase := Connecting early (bytes + n), il_down := False\<rparr>) g)
                else ([], set_link k (L\<lparr>il_phase := Connecting (early @ [m]) (bytes + n)\<rparr>) g)
            | Linked \<Rightarrow>
                (case handle_client sz thread can_submit k m g L of
                   (os, g1, L1, threw) \<Rightarrow> (os, set_link k (if threw then L1\<lparr>il_down := False\<rparr> else L1) g1))
            | Abandoned \<Rightarrow> ([], g)))"

section \<open>The owner\<close>

text \<open>The messages kept while connecting; the first exception abandons the connection.\<close>

fun replay_early ::
  "(jsobj \<Rightarrow> nat) \<Rightarrow> string \<Rightarrow> bool \<Rightarrow> nat \<Rightarrow> jsobj list \<Rightarrow> ipc_gate \<Rightarrow> ipc_link \<Rightarrow> ipc_output list \<times> ipc_gate \<times> ipc_link \<times> bool" where
  "replay_early sz thread can_submit k [] g L = ([], g, L, False)"
| "replay_early sz thread can_submit k (m # ms) g L =
     (case handle_client sz thread can_submit k m g L of
        (os, g1, L1, True) \<Rightarrow> (os, g1, L1, True)
      | (os, g1, L1, False) \<Rightarrow>
          (case replay_early sz thread can_submit k ms g1 L1 of (os2, g2, L2, t) \<Rightarrow> (os @ os2, g2, L2, t)))"

definition owner_connected ::
  "(jsobj \<Rightarrow> nat) \<Rightarrow> string \<Rightarrow> bool \<Rightarrow> nat \<Rightarrow> bool \<Rightarrow> ipc_gate \<Rightarrow> ipc_output list \<times> ipc_gate" where
  "owner_connected sz thread can_submit k works g =
     (case map_of (ig_links g) k of
        Some L \<Rightarrow>
          (case il_phase L of
             Connecting early bytes \<Rightarrow>
               if \<not> works then ([], set_link k (close_both (L\<lparr>il_phase := Abandoned\<rparr>)) g)
               else (case replay_early sz thread can_submit k early g (L\<lparr>il_phase := Linked, il_up := True\<rparr>) of
                   (os, g1, L1, threw) \<Rightarrow> (os, set_link k (if threw then close_both L1 else L1) g1))
           | _ \<Rightarrow> ([], g))
      | None \<Rightarrow> ([], g))"

definition discovery_reply :: "string \<Rightarrow> jsobj" where
  "discovery_reply rid =
     [(''type'', JStr ''client-discovery-response''), (''requestId'', JStr rid),
      (''response'', JObj [(''canHandle'', JBool False)])]"

definition thread_broadcast :: "string \<Rightarrow> jsobj \<Rightarrow> bool" where
  "thread_broadcast thread m \<longleftrightarrow>
     getp m ''type'' = JStr ''broadcast''
     \<and> (getp m ''method'' = JStr ''thread-stream-state-changed'' \<or> getp m ''method'' = JStr ''thread-stream-following-changed'')
     \<and> field_of (getp m ''params'') ''conversationId'' = JStr thread \<and> field_of (getp m ''params'') ''hostId'' = JStr ''local''"

definition is_snapshot :: "jsobj \<Rightarrow> bool" where
  "is_snapshot m \<longleftrightarrow>
     getp m ''method'' = JStr ''thread-stream-state-changed''
     \<and> field_of (field_of (getp m ''params'') ''change'') ''type'' = JStr ''snapshot''"

definition snapshot_source :: "jsobj \<Rightarrow> string option" where
  "snapshot_source m =
     (case getp m ''sourceClientId'' of JStr s \<Rightarrow> if s \<noteq> [] \<and> length s \<le> 128 then Some s else None | _ \<Rightarrow> None)"

definition handle_owner ::
  "(jsobj \<Rightarrow> nat) \<Rightarrow> string \<Rightarrow> nat \<Rightarrow> jsobj \<Rightarrow> nat \<Rightarrow> ipc_gate \<Rightarrow> ipc_link \<Rightarrow> ipc_output list \<times> ipc_gate \<times> ipc_link \<times> bool" where
  "handle_owner sz thread k m n g L =
     (if getp m ''type'' = JStr ''client-discovery-request'' \<and> is_string (getp m ''requestId'') then
        (case framed sz (discovery_reply (str_of (getp m ''requestId''))) of
           None \<Rightarrow> ([], g, L, True)
         | Some n' \<Rightarrow> (case forward_owner k (discovery_reply (str_of (getp m ''requestId''))) n' L of (os, L2) \<Rightarrow> (os, g, L2, False)))
      else if getp m ''type'' = JStr ''response'' \<and> getp m ''method'' = JStr ''initialize'' \<and> il_initializing L then
        (case field_of (getp m ''result'') ''clientId'' of
           JStr c \<Rightarrow>
             if getp m ''resultType'' = JStr ''success'' then
               (case forward_client k m n (L\<lparr>il_client := Some c, il_initializing := False\<rparr>) of (os, L2) \<Rightarrow> (os, g, L2, False))
             else ([], g, close_both L, False)
         | _ \<Rightarrow> ([], g, close_both L, False))
      else if thread_broadcast thread m then
        (let g1 = (if is_snapshot m then counted (\<lambda>c. c\<lparr>ic_snapshots := ic_snapshots c + 1\<rparr>) g else g);
             L1 = (if is_snapshot m \<and> snapshot_source m \<noteq> None then L\<lparr>il_owner := snapshot_source m\<rparr> else L) in
         case forward_client k m n L1 of (os, L2) \<Rightarrow> (os, g1, L2, False))
      else ([], g, L, False))"

definition owner_frame ::
  "(jsobj \<Rightarrow> nat) \<Rightarrow> string \<Rightarrow> nat \<Rightarrow> jsobj \<Rightarrow> nat \<Rightarrow> ipc_gate \<Rightarrow> ipc_output list \<times> ipc_gate" where
  "owner_frame sz thread k m n g =
     (case map_of (ig_links g) k of
        None \<Rightarrow> ([], g)
      | Some L \<Rightarrow>
          if \<not> il_up L then ([], g)
          else (case handle_owner sz thread k m n g L of
              (os, g1, L1, threw) \<Rightarrow> (os, set_link k (if threw then L1\<lparr>il_up := False\<rparr> else L1) g1)))"

text \<open>The submitted turn settles: \<open>None\<close> is its failure. An answer too large to frame is dropped.\<close>

definition turn_settled ::
  "(jsobj \<Rightarrow> nat) \<Rightarrow> nat \<Rightarrow> string \<Rightarrow> jsval option \<Rightarrow> ipc_gate \<Rightarrow> ipc_output list \<times> ipc_gate" where
  "turn_settled sz k rid outcome g =
     (case map_of (ig_links g) k of
        None \<Rightarrow> ([], g)
      | Some L \<Rightarrow>
          if il_turn L \<noteq> Some rid then ([], g)
          else (let L1 = L\<lparr>il_turn := None\<rparr> in
              case framed sz (turn_reply rid outcome) of
                None \<Rightarrow> ([], set_link k L1 g)
              | Some n \<Rightarrow> (case forward_client k (turn_reply rid outcome) n L1 of (os, L2) \<Rightarrow> (os, set_link k L2 g))))"

section \<open>The files\<close>

text \<open>What \<open>lstat\<close> says of a path, and whether \<open>realpath\<close> gives the path itself.\<close>

record file_info =
  fi_directory :: bool
  fi_symlink :: bool
  fi_socket :: bool
  fi_uid :: nat
  fi_mode :: nat
  fi_links :: nat
  fi_device :: nat
  fi_inode :: nat
  fi_real :: bool

definition private_mode :: "nat \<Rightarrow> bool" where
  "private_mode mode \<longleftrightarrow> mode AND 0x3F = 0"

definition private_directory :: "nat \<Rightarrow> file_info \<Rightarrow> bool" where
  "private_directory uid f \<longleftrightarrow> fi_directory f \<and> \<not> fi_symlink f \<and> fi_uid f = uid \<and> private_mode (fi_mode f) \<and> fi_real f"

text \<open>\<open>socketIdentity\<close> of a socket in its directory; \<open>None\<close> is its exception.\<close>

definition socket_identity :: "nat \<Rightarrow> file_info \<Rightarrow> file_info \<Rightarrow> (nat \<times> nat) option" where
  "socket_identity uid parent entry =
     (if private_directory uid parent \<and> fi_socket entry \<and> \<not> fi_symlink entry \<and> fi_uid entry = uid
         \<and> private_mode (fi_mode entry) \<and> fi_links entry = 1 \<and> fi_real entry
      then Some (fi_device entry, fi_inode entry) else None)"

text \<open>A connection is used when the socket is the one of the start, before and after connecting.\<close>

definition owner_is_same :: "nat \<times> nat \<Rightarrow> (nat \<times> nat) option \<Rightarrow> bool \<Rightarrow> (nat \<times> nat) option \<Rightarrow> bool" where
  "owner_is_same owner current answers after \<longleftrightarrow> current = Some owner \<and> answers \<and> after = Some owner"

section \<open>Connections\<close>

definition max_connections :: nat where "max_connections = 16"

definition accept_client :: "ipc_gate \<Rightarrow> ipc_gate" where
  "accept_client g =
     (if length (filter (\<lambda>(k, L). il_down L) (ig_links g)) < max_connections
      then set_link (length (ig_links g)) ipc_new_link (counted (\<lambda>c. c\<lparr>ic_connections := ic_connections c + 1\<rparr>) g)
      else g)"

text \<open>A side closes or fails; the handlers that close the other side exist once both are connected.\<close>

definition side_closed :: "nat \<Rightarrow> bool \<Rightarrow> ipc_gate \<Rightarrow> ipc_gate" where
  "side_closed k client g =
     (case map_of (ig_links g) k of
        None \<Rightarrow> g
      | Some L \<Rightarrow>
          (case il_phase L of
             Linked \<Rightarrow> set_link k (close_both L) g
           | _ \<Rightarrow> if client then set_link k (L\<lparr>il_down := False\<rparr>) g else g))"

definition side_flushed :: "nat \<Rightarrow> bool \<Rightarrow> nat \<Rightarrow> ipc_gate \<Rightarrow> ipc_gate" where
  "side_flushed k client n g =
     (case map_of (ig_links g) k of
        None \<Rightarrow> g
      | Some L \<Rightarrow> set_link k (if client then L\<lparr>il_to_client := il_to_client L - n\<rparr> else L\<lparr>il_to_owner := il_to_owner L - n\<rparr>) g)"

definition close_gate :: "ipc_gate \<Rightarrow> ipc_gate" where
  "close_gate g = g\<lparr>ig_links := map (\<lambda>(k, L). (k, close_both L)) (ig_links g)\<rparr>"

datatype ipc_event =
    Accepted
  | ClientFrame nat jsobj nat
  | OwnerConnected nat bool
  | OwnerFrame nat jsobj nat
  | TurnSettled nat string "jsval option"
  | SideClosed nat bool
  | SideFlushed nat bool nat
  | GateClosed

fun ipc_step :: "(jsobj \<Rightarrow> nat) \<Rightarrow> string \<Rightarrow> bool \<Rightarrow> ipc_event \<Rightarrow> ipc_gate \<Rightarrow> ipc_output list \<times> ipc_gate" where
  "ipc_step sz thread sub Accepted g = ([], accept_client g)"
| "ipc_step sz thread sub (ClientFrame k m n) g = client_frame sz thread sub k m n g"
| "ipc_step sz thread sub (OwnerConnected k works) g = owner_connected sz thread sub k works g"
| "ipc_step sz thread sub (OwnerFrame k m n) g = owner_frame sz thread k m n g"
| "ipc_step sz thread sub (TurnSettled k rid outcome) g = turn_settled sz k rid outcome g"
| "ipc_step sz thread sub (SideClosed k client) g = ([], side_closed k client g)"
| "ipc_step sz thread sub (SideFlushed k client n) g = ([], side_flushed k client n g)"
| "ipc_step sz thread sub GateClosed g = ([], close_gate g)"

fun ipc_run :: "(jsobj \<Rightarrow> nat) \<Rightarrow> string \<Rightarrow> bool \<Rightarrow> ipc_event list \<Rightarrow> ipc_gate \<Rightarrow> ipc_output list \<times> ipc_gate" where
  "ipc_run sz thread sub [] g = ([], g)"
| "ipc_run sz thread sub (e # es) g =
     (case ipc_step sz thread sub e g of (os, g1) \<Rightarrow>
        (case ipc_run sz thread sub es g1 of (os2, g2) \<Rightarrow> (os @ os2, g2)))"

end
