(* ===== verification/CodexIpcFacts.thy ===== *)
theory CodexIpcFacts
  imports CodexIpc
begin

text \<open>
  What the IPC gate promises: the frames do not depend on how the stream is cut and read back what was
  written; towards the owner only three kinds of messages leave, each tied to what the owner itself has
  said before; one text turn at most is started; and the buffers stay within their bound.
\<close>

section \<open>Frames\<close>

interpretation ipc: stream_reader "take_ipc_frame parse"
proof
  show "take_ipc_frame parse s [] = NeedMore" for s by (simp add: take_ipc_frame_def)
next
  fix s buf n s' os rest
  assume i: "take_ipc_frame parse s buf = Item n s' os"
  then have l: "\<not> length buf < 4" and len: "little_endian (take 4 buf) + 4 \<le> length buf"
    and n: "n = little_endian (take 4 buf) + 4"
    by (auto simp: take_ipc_frame_def Let_def split: if_splits option.splits)
  have "take 4 (buf @ rest) = take 4 buf" "take (little_endian (take 4 buf) + 4) (buf @ rest) = take (little_endian (take 4 buf) + 4) buf"
    using l len by simp_all
  then have "take_ipc_frame parse s (buf @ rest) = take_ipc_frame parse s buf"
    using l len unfolding take_ipc_frame_def by (simp only: Let_def length_append) simp
  then show "0 < n \<and> n \<le> length buf \<and> take_ipc_frame parse s (buf @ rest) = Item n s' os"
    using i n len by simp
next
  fix s buf os e rest
  assume st: "take_ipc_frame parse s buf = Stop os e"
  then have l: "\<not> length buf < 4" by (auto simp: take_ipc_frame_def split: if_splits)
  have t: "take 4 (buf @ rest) = take 4 buf" using l by simp
  show "take_ipc_frame parse s (buf @ rest) = Stop os e"
  proof (cases "little_endian (take 4 buf) < 1 \<or> ipc_max_frame < little_endian (take 4 buf)")
    case True
    then show ?thesis using st l t by (auto simp: take_ipc_frame_def Let_def)
  next
    case False
    then have len: "\<not> length buf < little_endian (take 4 buf) + 4" using st l by (auto simp: take_ipc_frame_def Let_def split: if_splits)
    then have "take (little_endian (take 4 buf) + 4) (buf @ rest) = take (little_endian (take 4 buf) + 4) buf" by simp
    then have "take_ipc_frame parse s (buf @ rest) = take_ipc_frame parse s buf"
      using l len t unfolding take_ipc_frame_def by (simp only: Let_def length_append) simp
    then show ?thesis using st by simp
  qed
qed

lemma need_more_short: "take_ipc_frame parse s buf = NeedMore \<Longrightarrow> length buf < ipc_max_frame + 4"
  by (auto simp: take_ipc_frame_def Let_def ipc_max_frame_def split: if_splits option.splits)

lemma ipc_stream_feed:
  assumes "length pending < ipc_max_frame + 4" and "\<forall>c \<in> set cs. length c \<le> ipc_max_frame - 4"
  shows "ipc_stream parse pending cs = snd (feed (take_ipc_frame parse) () pending cs)"
  using assms
proof (induction cs arbitrary: pending)
  case (Cons c cs)
  obtain s1 buf1 os e where d: "drain (take_ipc_frame parse) () (pending @ c) = (s1, buf1, os, e)" by (metis prod_cases4)
  have fits: "\<not> ipc_max_buffer < length pending + length c"
    using Cons.prems by (simp add: ipc_max_buffer_def ipc_max_frame_def)
  show ?case
  proof (cases e)
    case None
    then have "length buf1 < ipc_max_frame + 4" using need_more_short ipc.drain_stuck d by blast
    then have "ipc_stream parse buf1 cs = snd (feed (take_ipc_frame parse) () buf1 cs)" using Cons by simp
    then show ?thesis using d fits None
      by (cases "feed (take_ipc_frame parse) () buf1 cs") (simp add: ipc_data_def)
  next
    case (Some e')
    then show ?thesis using d fits by (simp add: ipc_data_def)
  qed
qed simp

text \<open>
  However the bytes are cut into chunks of less than 16 MiB, the gate reads the same messages and refuses
  the stream for the same reason: the bound of its buffer is never what ends a connection.
\<close>

theorem ipc_chunks_do_not_matter:
  assumes "concat cs = concat cs'" and "list_all (\<lambda>c. length c \<le> ipc_max_frame - 4) (cs @ cs')"
  shows "snd (ipc_stream parse [] cs) = snd (ipc_stream parse [] cs')"
proof -
  have "ipc_stream parse [] xs = snd (feed (take_ipc_frame parse) () [] xs)" if "xs = cs \<or> xs = cs'" for xs
    by (rule ipc_stream_feed) (use assms(2) that in \<open>auto simp: list_all_iff ipc_max_frame_def\<close>)
  moreover have "seen (feed (take_ipc_frame parse) () [] cs) = seen (feed (take_ipc_frame parse) () [] cs')"
    by (rule ipc.chunks_do_not_matter [OF assms(1)])
  ultimately show ?thesis by (auto simp: seen_def split: prod.splits)
qed

lemma uint32_read: "n < 4294967296 \<Longrightarrow> little_endian (uint32_le n) = n"
proof -
  assume n: "n < 4294967296"
  have u: "unat (of_nat m :: byte) = m mod 256" for m by (simp add: unat_of_nat)
  have q: "n div 65536 = n div 256 div 256" "n div 16777216 = n div 256 div 256 div 256"
    by (simp_all add: div_mult2_eq [symmetric])
  have "n div 256 div 256 div 256 < 256" using n by (simp add: less_mult_imp_div_less)
  then show ?thesis by (simp add: little_endian_def uint32_le_def u q)
qed

text \<open>
  C23. What the gate writes it reads back: a frame of a message's text is taken as one item with this message
  and this content, whatever follows it.
\<close>

theorem ipc_frame_roundtrip:
  assumes "ipc_frame body = Some bytes" and "parse body = Some (JObj m)"
  shows "take_ipc_frame parse u (bytes @ rest) = Item (length bytes) () [(m, bytes)]"
proof -
  have b: "bytes = uint32_le (length body) @ body" "1 \<le> length body" "length body \<le> ipc_max_frame"
    using assms(1) by (auto simp: ipc_frame_def Suc_le_eq split: if_splits)
  have "length (uint32_le (length body)) = 4" by (simp add: uint32_le_def)
  moreover from this have "little_endian (take 4 (bytes @ rest)) = length body"
    using uint32_read [of "length body"] b by (simp add: ipc_max_frame_def)
  ultimately show ?thesis
    using b assms(2) by (auto simp: take_ipc_frame_def as_object_def Let_def add.commute)
qed

section \<open>Where every message comes from\<close>

text \<open>The owner gave this client id in its answer to \<open>initialize\<close>; it announced this owner of the thread.\<close>

definition assigned :: "ipc_event set \<Rightarrow> nat \<Rightarrow> string \<Rightarrow> bool" where
  "assigned H k c \<longleftrightarrow> (\<exists>m n. OwnerFrame k m n \<in> H \<and> getp m ''type'' = JStr ''response'' \<and> getp m ''method'' = JStr ''initialize''
     \<and> getp m ''resultType'' = JStr ''success'' \<and> field_of (getp m ''result'') ''clientId'' = JStr c)"

definition announced :: "string \<Rightarrow> ipc_event set \<Rightarrow> nat \<Rightarrow> string \<Rightarrow> bool" where
  "announced thread H k c \<longleftrightarrow> (\<exists>m n. OwnerFrame k m n \<in> H \<and> thread_broadcast thread m \<and> is_snapshot m
     \<and> getp m ''sourceClientId'' = JStr c)"

definition link_fits :: "string \<Rightarrow> ipc_event set \<Rightarrow> nat \<Rightarrow> ipc_link \<Rightarrow> bool" where
  "link_fits thread H k L \<longleftrightarrow> (\<forall>c. il_client L = Some c \<longrightarrow> assigned H k c) \<and> (\<forall>c. il_owner L = Some c \<longrightarrow> announced thread H k c)"

text \<open>
  What a client has to have sent: a note that it follows the thread, and a request for one plain text turn in
  the thread, sent under the id \<open>c\<close> to the owner \<open>w\<close> and without attachments.
\<close>

definition said :: "ipc_event set \<Rightarrow> nat \<Rightarrow> jsobj \<Rightarrow> bool" where
  "said H k m \<longleftrightarrow> (\<exists>n. ClientFrame k m n \<in> H)"

definition asked_following :: "string \<Rightarrow> jsobj \<Rightarrow> string \<Rightarrow> bool \<Rightarrow> bool" where
  "asked_following thread m c b \<longleftrightarrow> getp m ''type'' = JStr ''broadcast'' \<and> getp m ''method'' = JStr ''thread-stream-following-changed''
     \<and> getp m ''sourceClientId'' = JStr c \<and> field_of (getp m ''params'') ''conversationId'' = JStr thread
     \<and> field_of (getp m ''params'') ''hostId'' = JStr ''local'' \<and> field_of (getp m ''params'') ''following'' = JBool b"

definition asked_turn :: "string \<Rightarrow> jsobj \<Rightarrow> string \<Rightarrow> string \<Rightarrow> string \<Rightarrow> string \<Rightarrow> bool" where
  "asked_turn thread m rid c w t \<longleftrightarrow>
     getp m ''type'' = JStr ''request'' \<and> getp m ''method'' = JStr ''thread-follower-start-turn'' \<and> getp m ''version'' = jint 2
     \<and> getp m ''requestId'' = JStr rid \<and> rid \<noteq> [] \<and> length rid \<le> 128
     \<and> getp m ''sourceClientId'' = JStr c \<and> getp m ''targetClientId'' = JStr w
     \<and> (let params = getp m ''params''; turn = field_of params ''turnStart'';
            request = field_of turn ''request''; context = field_of turn ''context'' in
          field_of params ''conversationId'' = JStr thread \<and> field_of request ''threadId'' = JStr thread
          \<and> (\<exists>item. field_of request ''input'' = JArr [item] \<and> field_of item ''type'' = JStr ''text'' \<and> field_of item ''text'' = JStr t)
          \<and> list_all (\<lambda>k. field_of context k = JArr []) attachment_fields)"

definition early_fits :: "ipc_event set \<Rightarrow> nat \<Rightarrow> ipc_link \<Rightarrow> bool" where
  "early_fits H k L \<longleftrightarrow> (case il_phase L of Connecting ms n \<Rightarrow> list_all (said H k) ms | _ \<Rightarrow> True)"

definition gate_fits :: "string \<Rightarrow> ipc_event set \<Rightarrow> ipc_gate \<Rightarrow> bool" where
  "gate_fits thread H g \<longleftrightarrow> (\<forall>k L. map_of (ig_links g) k = Some L \<longrightarrow> link_fits thread H k L \<and> early_fits H k L)"

fun output_fits :: "string \<Rightarrow> ipc_event set \<Rightarrow> ipc_output \<Rightarrow> bool" where
  "output_fits thread H (IpcToOwner k r) =
     ((\<exists>m rid ct. said H k m \<and> getp m ''type'' = JStr ''request'' \<and> getp m ''method'' = JStr ''initialize''
          \<and> getp m ''requestId'' = JStr rid \<and> field_of (getp m ''params'') ''clientType'' = JStr ct
          \<and> r = ipc_initialize rid ct \<and> length rid \<le> 128 \<and> length ct \<le> 128)
      \<or> (\<exists>m c b. said H k m \<and> asked_following thread m c b \<and> r = ipc_following c thread b \<and> assigned H k c)
      \<or> (\<exists>m n rid. OwnerFrame k m n \<in> H \<and> getp m ''type'' = JStr ''client-discovery-request'' \<and> getp m ''requestId'' = JStr rid
          \<and> r = discovery_reply rid))"
| "output_fits thread H (IpcToClient k r) =
     ((\<exists>m rid. said H k m \<and> getp m ''type'' = JStr ''request'' \<and> getp m ''requestId'' = JStr rid
          \<and> r = ipc_denied rid (getp m ''method''))
      \<or> (\<exists>rid outcome. r = turn_reply rid outcome \<and> TurnSettled k rid outcome \<in> H)
      \<or> (\<exists>n. OwnerFrame k r n \<in> H \<and> (thread_broadcast thread r \<or> getp r ''method'' = JStr ''initialize'')))"
| "output_fits thread H (IpcSubmit k rid t) =
     (t \<noteq> [] \<and> utf8_bytes t \<le> max_fixture_text \<and> CHR 0x00 \<notin> set t
      \<and> (\<exists>m c w. said H k m \<and> asked_turn thread m rid c w t \<and> assigned H k c \<and> announced thread H k w))"
| "output_fits thread H (IpcAudit m) = (\<exists>k. said H k m)"

lemma forward_parts:
  "forward_owner k m n L = (os, L') \<Longrightarrow> (os = [] \<or> os = [IpcToOwner k m]) \<and> il_client L' = il_client L \<and> il_owner L' = il_owner L
     \<and> il_initializing L' = il_initializing L \<and> il_turn L' = il_turn L"
  "forward_client k m n L = (os, L') \<Longrightarrow> (os = [] \<or> os = [IpcToClient k m]) \<and> il_client L' = il_client L \<and> il_owner L' = il_owner L
     \<and> il_initializing L' = il_initializing L \<and> il_turn L' = il_turn L"
  by (auto simp: forward_owner_def forward_client_def close_both_def split: if_splits)

lemma is_string_JStr: "is_string v \<Longrightarrow> v = JStr (str_of v)"
  by (cases v) (simp_all add: is_string_def)

lemma single_item_Some: "single_item v = Some fs \<Longrightarrow> \<exists>item. v = JArr [item] \<and> as_object item = Some fs"
  by (auto simp: single_item_def split: jsval.splits list.splits)

lemma getp_of_object: "as_object v = Some fs \<Longrightarrow> field_of v k = getp fs k"
  by (simp add: field_of_def)

lemma fixture_text_sound:
  assumes "fixture_text_turn m thread c owner = Some t"
  shows "t \<noteq> [] \<and> utf8_bytes t \<le> max_fixture_text \<and> CHR 0x00 \<notin> set t"
    and "\<exists>w. owner = Some w \<and> asked_turn thread m (str_of (getp m ''requestId'')) c w t"
proof -
  let ?params = "getp m ''params''"
  let ?ctx = "field_of (field_of ?params ''turnStart'') ''context''"
  let ?input = "field_of (field_of (field_of ?params ''turnStart'') ''request'') ''input''"
  obtain w cs fs where parts: "owner = Some w" "as_object ?ctx = Some cs" "single_item ?input = Some fs"
    using assms by (auto simp: fixture_text_turn_def Let_def split: option.splits)
  note body = assms [unfolded fixture_text_turn_def Let_def parts prod.case option.case]
  obtain item where item: "?input = JArr [item]" "as_object item = Some fs" using single_item_Some [OF parts(3)] by blast
  have t: "getp fs ''text'' = JStr t" "getp fs ''type'' = JStr ''text''" and attached: "list_all (\<lambda>k. empty_array (getp cs k)) attachment_fields"
    using body is_string_JStr by (auto split: if_splits)
  show "t \<noteq> [] \<and> utf8_bytes t \<le> max_fixture_text \<and> CHR 0x00 \<notin> set t" using body by (auto split: if_splits)
  have "getp m ''requestId'' = JStr (str_of (getp m ''requestId''))" using body is_string_JStr by (auto split: if_splits)
  then have "asked_turn thread m (str_of (getp m ''requestId'')) c w t"
    using body item t attached unfolding asked_turn_def Let_def
    by (auto simp: getp_of_object [OF item(2)] getp_of_object [OF parts(2)] empty_array_def split: if_splits)
  then show "\<exists>w. owner = Some w \<and> asked_turn thread m (str_of (getp m ''requestId'')) c w t" using parts(1) by blast
qed

text \<open>The four ways a client's message is handled.\<close>

lemma handle_client_cases:
  assumes "handle_client sz thread sub k m g L = (os, g', L', threw)"
  obtains (initialize) rid ct where "wants_initialize m L" "os = [] \<or> os = [IpcToOwner k (ipc_initialize rid ct)]" "length rid \<le> 128" "length ct \<le> 128"
      "getp m ''type'' = JStr ''request''" "getp m ''method'' = JStr ''initialize''" "getp m ''requestId'' = JStr rid"
      "field_of (getp m ''params'') ''clientType'' = JStr ct"
      "g' = g" "il_client L' = il_client L" "il_owner L' = il_owner L" "il_initializing L'"
  | (following) c b where "il_client L = Some c" "os = [] \<or> os = [IpcToOwner k (ipc_following c thread b)]" "asked_following thread m c b"
      "ig_links g' = ig_links g"
      "ig_turn_used g' = ig_turn_used g" "il_client L' = il_client L" "il_owner L' = il_owner L" "il_initializing L' = il_initializing L"
  | (submit) c t where "il_client L = Some c" "\<not> ig_turn_used g" "fixture_text_turn m thread c (il_owner L) = Some t"
      "os = [IpcSubmit k (str_of (getp m ''requestId'')) t]" "ig_links g' = ig_links g" "ig_turn_used g'"
      "il_client L' = il_client L" "il_owner L' = il_owner L" "il_initializing L' = il_initializing L"
  | (denial) rid os' where "os = IpcAudit m # os'" "os' = [] \<or> os' = [IpcToClient k (ipc_denied rid (getp m ''method''))]"
      "getp m ''type'' = JStr ''request''" "getp m ''requestId'' = JStr rid" "ig_links g' = ig_links g"
      "ig_turn_used g' = ig_turn_used g" "il_client L' = il_client L" "il_owner L' = il_owner L" "il_initializing L' = il_initializing L"
  | (ignored) "os = []" "g' = g" "L' = L"
proof -
  note h = assms [unfolded handle_client_def]
  show thesis
  proof (cases "wants_initialize m L")
    case True
    have len: "length (str_of (getp m ''requestId'')) \<le> 128" "length (str_of (field_of (getp m ''params'') ''clientType'')) \<le> 128"
      and texts: "getp m ''type'' = JStr ''request''" "getp m ''method'' = JStr ''initialize''"
        "getp m ''requestId'' = JStr (str_of (getp m ''requestId''))"
        "field_of (getp m ''params'') ''clientType'' = JStr (str_of (field_of (getp m ''params'') ''clientType''))"
      using True is_string_JStr by (simp_all add: wants_initialize_def)
    show thesis
      by (rule initialize [OF True _ len texts])
        (use h True in \<open>auto simp: Let_def split: option.splits prod.splits dest!: forward_parts\<close>)
  next
    case no_init: False
    show thesis
    proof (cases "wants_following thread m L")
      case True
      then obtain c where c: "il_client L = Some c" by (auto simp: wants_following_def split: option.splits)
      have asked: "asked_following thread m c (field_of (getp m ''params'') ''following'' = JBool True)"
        using True c by (cases "field_of (getp m ''params'') ''following''") (auto simp: wants_following_def asked_following_def is_bool_def)
      show thesis
        by (rule following [OF c _ asked])
          (use h True no_init c in \<open>auto simp: Let_def counted_def split: option.splits prod.splits dest!: forward_parts\<close>)
    next
      case no_follow: False
      show thesis
      proof (cases "wanted_turn thread sub m g L")
        case (Some t)
        then obtain c where c: "il_client L = Some c" "\<not> ig_turn_used g" "fixture_text_turn m thread c (il_owner L) = Some t"
          by (auto simp: wanted_turn_def split: option.splits if_splits)
        show thesis
          by (rule submit [OF c]) (use h no_init no_follow Some in \<open>auto simp: Let_def counted_def\<close>)
      next
        case None
        show thesis
        proof (cases "getp m ''type'' = JStr ''request'' \<and> is_string (getp m ''requestId'')")
          case True
          then have texts: "getp m ''type'' = JStr ''request''" "getp m ''requestId'' = JStr (str_of (getp m ''requestId''))"
            using is_string_JStr by simp_all
          show thesis
            by (rule denial [where os' = "tl os", OF _ _ texts])
              (use h True no_init no_follow None in
                \<open>auto simp: Let_def counted_def split: option.splits prod.splits dest!: forward_parts\<close>)
        next
          case False
          show thesis by (rule ignored) (use h False no_init no_follow None in auto)
        qed
      qed
    qed
  qed
qed

lemma output_fits_intros:
  "said H k m \<Longrightarrow> getp m ''type'' = JStr ''request'' \<Longrightarrow> getp m ''method'' = JStr ''initialize'' \<Longrightarrow> getp m ''requestId'' = JStr rid \<Longrightarrow>
     field_of (getp m ''params'') ''clientType'' = JStr ct \<Longrightarrow> length rid \<le> 128 \<Longrightarrow> length ct \<le> 128 \<Longrightarrow>
     output_fits thread H (IpcToOwner k (ipc_initialize rid ct))"
  "said H k m \<Longrightarrow> asked_following thread m c b \<Longrightarrow> assigned H k c \<Longrightarrow> output_fits thread H (IpcToOwner k (ipc_following c thread b))"
  "OwnerFrame k m n \<in> H \<Longrightarrow> getp m ''type'' = JStr ''client-discovery-request'' \<Longrightarrow> getp m ''requestId'' = JStr rid \<Longrightarrow>
     output_fits thread H (IpcToOwner k (discovery_reply rid))"
  "said H k m \<Longrightarrow> getp m ''type'' = JStr ''request'' \<Longrightarrow> getp m ''requestId'' = JStr rid \<Longrightarrow>
     output_fits thread H (IpcToClient k (ipc_denied rid (getp m ''method'')))"
  "TurnSettled k rid outcome \<in> H \<Longrightarrow> output_fits thread H (IpcToClient k (turn_reply rid outcome))"
  "OwnerFrame k m n \<in> H \<Longrightarrow> thread_broadcast thread m \<or> getp m ''method'' = JStr ''initialize'' \<Longrightarrow> output_fits thread H (IpcToClient k m)"
  unfolding output_fits.simps by blast+

declare output_fits.simps [simp del]

lemma link_fits_ident:
  "link_fits thread H k L \<Longrightarrow> il_client L' = il_client L \<Longrightarrow> il_owner L' = il_owner L \<Longrightarrow> link_fits thread H k L'"
  by (simp add: link_fits_def)

lemma handle_client_fits:
  assumes "handle_client sz thread sub k m g L = (os, g', L', threw)" and fits: "link_fits thread H k L" and said: "said H k m"
  shows "list_all (output_fits thread H) os \<and> link_fits thread H k L' \<and> ig_links g' = ig_links g"
  using assms(1)
proof (cases rule: handle_client_cases)
  case (initialize rid ct)
  then show ?thesis using output_fits_intros(1) [OF said initialize(5-8,3-4)] link_fits_ident [OF fits] by auto
next
  case (following c b)
  then have "assigned H k c" using fits by (simp add: link_fits_def)
  then show ?thesis using output_fits_intros(2) [OF said following(3)] following link_fits_ident [OF fits] by auto
next
  case (submit c t)
  obtain w where w: "il_owner L = Some w" "asked_turn thread m (str_of (getp m ''requestId'')) c w t"
    using fixture_text_sound(2) [OF submit(3)] by blast
  have "assigned H k c" "announced thread H k w" using fits submit(1) w(1) by (simp_all add: link_fits_def)
  then have "output_fits thread H (IpcSubmit k (str_of (getp m ''requestId'')) t)"
    using said w(2) fixture_text_sound(1) [OF submit(3)] unfolding output_fits.simps by blast
  then show ?thesis using submit link_fits_ident [OF fits] by auto
next
  case (denial rid os')
  have "output_fits thread H (IpcAudit m)" using said unfolding output_fits.simps by blast
  then show ?thesis using output_fits_intros(4) [OF said denial(3,4)] denial link_fits_ident [OF fits] by auto
qed (use fits in simp)

lemma replay_early_fits:
  "replay_early sz thread sub k ms g L = (os, g', L', threw) \<Longrightarrow> link_fits thread H k L \<Longrightarrow> list_all (said H k) ms \<Longrightarrow>
     list_all (output_fits thread H) os \<and> link_fits thread H k L' \<and> ig_links g' = ig_links g"
proof (induction ms arbitrary: os g L)
  case (Cons m ms)
  obtain os1 g1 L1 t1 where h: "handle_client sz thread sub k m g L = (os1, g1, L1, t1)" by (metis prod_cases4)
  have "said H k m" using Cons.prems(3) by simp
  note f = handle_client_fits [OF h Cons.prems(2) this]
  show ?case
  proof (cases t1)
    case True
    then show ?thesis using Cons.prems(1) h f by simp
  next
    case False
    obtain os2 where r: "replay_early sz thread sub k ms g1 L1 = (os2, g', L', threw)" "os = os1 @ os2"
      using Cons.prems(1) h False by (auto split: prod.splits)
    show ?thesis using Cons.IH [OF r(1)] Cons.prems(3) f r(2) by simp
  qed
qed simp

lemma handle_owner_fits:
  assumes "handle_owner sz thread k m n g L = (os, g', L', threw)" and "link_fits thread H k L" and "OwnerFrame k m n \<in> H"
  shows "list_all (output_fits thread H) os \<and> link_fits thread H k L' \<and> ig_links g' = ig_links g"
proof -
  consider (discovery) "getp m ''type'' = JStr ''client-discovery-request'' \<and> is_string (getp m ''requestId'')"
    | (initialized) "getp m ''type'' = JStr ''response'' \<and> getp m ''method'' = JStr ''initialize'' \<and> il_initializing L"
        "\<not> (getp m ''type'' = JStr ''client-discovery-request'' \<and> is_string (getp m ''requestId''))"
    | (broadcast) "thread_broadcast thread m" "\<not> (getp m ''type'' = JStr ''response'' \<and> getp m ''method'' = JStr ''initialize'' \<and> il_initializing L)"
        "\<not> (getp m ''type'' = JStr ''client-discovery-request'' \<and> is_string (getp m ''requestId''))"
    | (ignored) "\<not> thread_broadcast thread m" "\<not> (getp m ''type'' = JStr ''response'' \<and> getp m ''method'' = JStr ''initialize'' \<and> il_initializing L)"
        "\<not> (getp m ''type'' = JStr ''client-discovery-request'' \<and> is_string (getp m ''requestId''))"
    by blast
  then show ?thesis
  proof cases
    case discovery
    then have rid: "getp m ''type'' = JStr ''client-discovery-request''" "getp m ''requestId'' = JStr (str_of (getp m ''requestId''))"
      using is_string_JStr by simp_all
    show ?thesis
      using assms(1,2) discovery output_fits_intros(3) [OF assms(3) rid]
      by (auto simp: handle_owner_def link_fits_def split: option.splits prod.splits dest!: forward_parts)
  next
    case initialized
    show ?thesis
    proof (cases "\<exists>c. field_of (getp m ''result'') ''clientId'' = JStr c \<and> getp m ''resultType'' = JStr ''success''")
      case True
      then obtain c where c: "field_of (getp m ''result'') ''clientId'' = JStr c" "getp m ''resultType'' = JStr ''success''" by blast
      have "assigned H k c" using c initialized assms(3) unfolding assigned_def by blast
      moreover have "handle_owner sz thread k m n g L =
          (case forward_client k m n (L\<lparr>il_client := Some c, il_initializing := False\<rparr>) of (os, L2) \<Rightarrow> (os, g, L2, False))"
        using initialized c by (auto simp: handle_owner_def)
      ultimately show ?thesis
        using assms initialized output_fits_intros(6) [OF assms(3)] by (auto simp: link_fits_def split: prod.splits dest!: forward_parts)
    next
      case False
      then have "handle_owner sz thread k m n g L = ([], g, close_both L, False)"
        using initialized by (auto simp: handle_owner_def split: jsval.splits)
      then show ?thesis using assms(1,2) by (auto simp: link_fits_def close_both_def)
    qed
  next
    case broadcast
    have src: "announced thread H k c" if "is_snapshot m" "snapshot_source m = Some c" for c
      using that broadcast(1) assms(3) unfolding announced_def snapshot_source_def
      by (auto split: jsval.splits if_splits)
    have "handle_owner sz thread k m n g L =
       (case forward_client k m n (if is_snapshot m \<and> snapshot_source m \<noteq> None then L\<lparr>il_owner := snapshot_source m\<rparr> else L) of
          (os, L2) \<Rightarrow> (os, if is_snapshot m then counted (\<lambda>c. c\<lparr>ic_snapshots := ic_snapshots c + 1\<rparr>) g else g, L2, False))"
      unfolding handle_owner_def by (simp only: broadcast Let_def if_True if_False)
    then show ?thesis
      using assms broadcast(1) src output_fits_intros(6) [OF assms(3)]
      by (auto simp: link_fits_def counted_def split: prod.splits if_splits dest!: forward_parts)
  next
    case ignored
    then show ?thesis using assms(1,2) by (auto simp: handle_owner_def)
  qed
qed

lemma set_link_fits: "gate_fits thread H g \<Longrightarrow> link_fits thread H k L \<Longrightarrow> early_fits H k L \<Longrightarrow> ig_links g' = ig_links g \<Longrightarrow> gate_fits thread H (set_link k L g')"
  by (simp add: gate_fits_def set_link_def)

lemma link_fits_sides [simp]:
  "link_fits thread H k (close_both L) = link_fits thread H k L"
  "link_fits thread H k (L\<lparr>il_down := b\<rparr>) = link_fits thread H k L"
  "link_fits thread H k (L\<lparr>il_up := b\<rparr>) = link_fits thread H k L"
  "link_fits thread H k (L\<lparr>il_phase := p\<rparr>) = link_fits thread H k L"
  "link_fits thread H k (L\<lparr>il_turn := t\<rparr>) = link_fits thread H k L"
  "link_fits thread H k (L\<lparr>il_to_client := n\<rparr>) = link_fits thread H k L"
  "link_fits thread H k (L\<lparr>il_to_owner := n\<rparr>) = link_fits thread H k L"
  "link_fits thread H k ipc_new_link"
  by (auto simp: link_fits_def close_both_def ipc_new_link_def)

text \<open>The messages kept while the owner is being connected, and who keeps the phase.\<close>

lemma early_fits_sides [simp]:
  "early_fits H k (close_both L) = early_fits H k L" "early_fits H k (L\<lparr>il_down := b\<rparr>) = early_fits H k L"
  "early_fits H k (L\<lparr>il_up := b\<rparr>) = early_fits H k L" "early_fits H k (L\<lparr>il_turn := t\<rparr>) = early_fits H k L"
  "early_fits H k (L\<lparr>il_to_client := n\<rparr>) = early_fits H k L" "early_fits H k (L\<lparr>il_to_owner := n\<rparr>) = early_fits H k L"
  "early_fits H k ipc_new_link"
  by (simp_all add: early_fits_def close_both_def ipc_new_link_def)

lemma early_fits_linked: "il_phase L = Linked \<Longrightarrow> early_fits H k L"
  by (simp add: early_fits_def)

lemma forward_phase:
  "forward_owner k m n L = (os, L') \<Longrightarrow> il_phase L' = il_phase L" "forward_client k m n L = (os, L') \<Longrightarrow> il_phase L' = il_phase L"
  by (auto simp: forward_owner_def forward_client_def close_both_def split: if_splits)

lemma early_fits_forward: "forward_client k m n L = (os, L') \<Longrightarrow> early_fits H k L' = early_fits H k L"
  using forward_phase(2) [of k m n L os L'] by (simp add: early_fits_def)

lemma handle_client_phase: "handle_client sz thread sub k m g L = (os, g', L', threw) \<Longrightarrow> il_phase L' = il_phase L"
  unfolding handle_client_def by (auto simp: Let_def split: if_splits option.splits prod.splits dest!: forward_phase)

lemma replay_early_phase: "replay_early sz thread sub k ms g L = (os, g', L', threw) \<Longrightarrow> il_phase L' = il_phase L"
  by (induction ms arbitrary: os g L) (auto split: prod.splits bool.splits dest!: handle_client_phase)

lemma handle_owner_phase: "handle_owner sz thread k m n g L = (os, g', L', threw) \<Longrightarrow> il_phase L' = il_phase L"
  unfolding handle_owner_def
  by (auto simp: Let_def close_both_def split: if_splits option.splits prod.splits jsval.splits dest!: forward_phase)

lemma ipc_step_fits:
  assumes "ipc_step sz thread sub e g = (os, g')" and "gate_fits thread H g" and "e \<in> H"
  shows "list_all (output_fits thread H) os \<and> gate_fits thread H g'"
proof -
  have link: "link_fits thread H k L" "early_fits H k L" if "map_of (ig_links g) k = Some L" for k L
    using assms(2) that by (simp_all add: gate_fits_def)
  show ?thesis
  proof (cases e)
    case Accepted
    have "gate_fits thread H (counted f g)" for f using assms(2) by (simp add: gate_fits_def counted_def)
    then show ?thesis using assms(1,2) Accepted set_link_fits [OF assms(2)]
      by (auto simp: accept_client_def counted_def)
  next
    case (ClientFrame k m n)
    have said: "said H k m" using ClientFrame assms(3) unfolding said_def by blast
    show ?thesis
    proof (cases "map_of (ig_links g) k")
      case (Some L)
      obtain os1 g1 L1 t1 where h: "handle_client sz thread sub k m g L = (os1, g1, L1, t1)" by (metis prod_cases4)
      note f = handle_client_fits [OF h link(1) [OF Some] said] and ph = handle_client_phase [OF h]
      have early: "early_fits H k (L\<lparr>il_phase := Connecting (ms @ ms') b\<rparr>)" if "il_phase L = Connecting ms b'" "list_all (said H k) ms'" for ms ms' b b'
        using link(2) [OF Some] that by (simp add: early_fits_def)
      have kept: "gate_fits thread H (set_link k L' g)" if "link_fits thread H k L'" "early_fits H k L'" for L'
        using set_link_fits [OF assms(2) that refl] .
      show ?thesis
      proof (cases "il_phase L")
        case (Connecting ms b')
        then show ?thesis using assms(1,2) ClientFrame Some link [OF Some] early [OF Connecting, of "[m]"] early [OF Connecting, of "[]"] said
          by (auto simp: client_frame_def split: if_splits intro!: kept)
      next
        case Linked
        then have "early_fits H k L1" using ph by (simp add: early_fits_linked)
        then show ?thesis using assms(1,2) ClientFrame Some h f Linked set_link_fits [OF assms(2), of k _ g1]
          by (auto simp: client_frame_def split: if_splits)
      qed (use assms(1,2) ClientFrame Some in \<open>simp add: client_frame_def split: if_splits\<close>)
    qed (use assms ClientFrame in \<open>simp add: client_frame_def\<close>)
  next
    case (OwnerConnected k works)
    show ?thesis
    proof (cases "map_of (ig_links g) k")
      case (Some L)
      show ?thesis
      proof (cases "il_phase L")
        case (Connecting early bytes)
        obtain os1 g1 L1 t1 where h: "replay_early sz thread sub k early g (L\<lparr>il_phase := Linked, il_up := True\<rparr>) = (os1, g1, L1, t1)"
          by (metis prod_cases4)
        have "link_fits thread H k (L\<lparr>il_phase := Linked, il_up := True\<rparr>)" using link(1) [OF Some] by simp
        moreover have "list_all (said H k) early" using link(2) [OF Some] Connecting by (simp add: early_fits_def)
        ultimately have f: "list_all (output_fits thread H) os1 \<and> link_fits thread H k L1 \<and> ig_links g1 = ig_links g"
          by (rule replay_early_fits [OF h])
        have "early_fits H k L1" using replay_early_phase [OF h] by (simp add: early_fits_def)
        moreover have "early_fits H k (L\<lparr>il_phase := Abandoned\<rparr>)" by (simp add: early_fits_def)
        ultimately show ?thesis
          using assms(1,2) OwnerConnected Some Connecting h f link [OF Some] set_link_fits [OF assms(2), of k]
          by (auto simp: owner_connected_def split: if_splits)
      qed (use assms OwnerConnected Some in \<open>simp_all add: owner_connected_def\<close>)
    qed (use assms OwnerConnected in \<open>simp add: owner_connected_def\<close>)
  next
    case (OwnerFrame k m n)
    show ?thesis
    proof (cases "map_of (ig_links g) k")
      case (Some L)
      obtain os1 g1 L1 t1 where h: "handle_owner sz thread k m n g L = (os1, g1, L1, t1)" by (metis prod_cases4)
      note f = handle_owner_fits [OF h link(1) [OF Some], unfolded OwnerFrame [symmetric], OF assms(3)]
      have "early_fits H k L1" using handle_owner_phase [OF h] link(2) [OF Some] by (simp add: early_fits_def)
      then show ?thesis
        using assms(1,2) OwnerFrame Some h f
        by (auto simp: owner_frame_def split: if_splits intro!: set_link_fits)
    qed (use assms OwnerFrame in \<open>simp add: owner_frame_def\<close>)
  next
    case (TurnSettled k rid outcome)
    have "list_all (output_fits thread H) os2 \<and> gate_fits thread H (set_link k L2 g)"
      if L: "map_of (ig_links g) k = Some L" and fw: "forward_client k (turn_reply rid outcome) n' (L\<lparr>il_turn := None\<rparr>) = (os2, L2)" for L n' os2 L2
    proof -
      have "link_fits thread H k L2" using forward_parts(2) [OF fw] link(1) [OF L] by (simp add: link_fits_def)
      moreover have "early_fits H k L2" using early_fits_forward [OF fw] link(2) [OF L] by simp
      moreover have "list_all (output_fits thread H) os2"
        using forward_parts(2) [OF fw] output_fits_intros(5) [of k rid outcome H] assms(3) TurnSettled by auto
      ultimately show ?thesis using set_link_fits [OF assms(2)] by simp
    qed
    then show ?thesis
      using assms(1,2) TurnSettled link set_link_fits [OF assms(2), of k _ g]
      by (auto simp: turn_settled_def Let_def split: option.splits if_splits prod.splits)
  next
    case (SideClosed k client)
    then show ?thesis
      using assms(1,2) link by (auto simp: side_closed_def split: option.splits ipc_phase.splits intro!: set_link_fits)
  next
    case (SideFlushed k client n)
    then show ?thesis
      using assms(1,2) link by (auto simp: side_flushed_def split: option.splits intro!: set_link_fits)
  next
    case GateClosed
    have "map_of (map (\<lambda>(k, L). (k, close_both L)) kvs) k = map_option close_both (map_of kvs k)" for kvs and k :: nat
      by (induction kvs) auto
    then show ?thesis
      using assms(1,2) GateClosed by (auto simp: close_gate_def gate_fits_def)
  qed
qed

lemma ipc_run_fits:
  "ipc_run sz thread sub es g = (os, g') \<Longrightarrow> gate_fits thread H g \<Longrightarrow> set es \<subseteq> H \<Longrightarrow>
     list_all (output_fits thread H) os \<and> gate_fits thread H g'"
proof (induction es arbitrary: os g)
  case (Cons e es)
  obtain os1 g1 where s: "ipc_step sz thread sub e g = (os1, g1)" by force
  obtain os2 where r: "ipc_run sz thread sub es g1 = (os2, g')" "os = os1 @ os2"
    using Cons.prems(1) s by (auto split: prod.splits)
  have f: "list_all (output_fits thread H) os1 \<and> gate_fits thread H g1"
    by (rule ipc_step_fits [OF s Cons.prems(2)]) (use Cons.prems(3) in simp)
  show ?case using Cons.IH [OF r(1)] f Cons.prems(3) r(2) by simp
qed simp

text \<open>
  C22. What crosses the gate, over every sequence of events: to the owner go only the \<open>initialize\<close> a client
  sent, reduced to two short strings, a following note a client sent about the one thread under the client id
  the owner itself gave it, and the refusal of a discovery the owner asked for; a client gets only refusals of
  its own requests, the outcome of its own turn, and what the owner sent it about this thread or about its
  initialization; and a text is submitted only when the client sent a request for one plain text turn in this
  thread, naming it twice, under the id the owner gave it and addressed to the owner that announced the
  thread's state to it.
\<close>

theorem ipc_gate_is_scoped:
  assumes "ipc_new_gate thread = Some g"
  shows "list_all (output_fits thread (set es)) (fst (ipc_run sz thread sub es g))"
proof -
  have "gate_fits thread (set es) g"
    using assms by (auto simp: ipc_new_gate_def gate_fits_def split: if_splits)
  then show ?thesis using ipc_run_fits [OF surjective_pairing, of thread "set es"] by blast
qed

section \<open>How often and how much\<close>

definition is_initialize :: "nat \<Rightarrow> ipc_output \<Rightarrow> bool" where
  "is_initialize k r \<longleftrightarrow> (\<exists>rid ct. r = IpcToOwner k (ipc_initialize rid ct))"

definition is_submission :: "ipc_output \<Rightarrow> bool" where
  "is_submission r \<longleftrightarrow> (case r of IpcSubmit k rid t \<Rightarrow> True | _ \<Rightarrow> False)"

definition number :: "('a \<Rightarrow> bool) \<Rightarrow> 'a list \<Rightarrow> nat" where
  "number P xs = length (filter P xs)"

lemma number_simps [simp]: "number P [] = 0" "number P (x # xs) = (if P x then Suc (number P xs) else number P xs)"
  "number P (xs @ ys) = number P xs + number P ys"
  by (simp_all add: number_def)

lemma output_kinds [simp]:
  "is_initialize k (IpcToOwner k' (ipc_initialize rid ct)) \<longleftrightarrow> k' = k"
  "\<not> is_initialize k (IpcToOwner k' (ipc_following c thread b))" "\<not> is_initialize k (IpcToOwner k' (discovery_reply rid))"
  "\<not> is_initialize k (IpcToClient k' m)" "\<not> is_initialize k (IpcSubmit k' rid t)" "\<not> is_initialize k (IpcAudit m)"
  "\<not> is_submission (IpcToOwner k' m)" "\<not> is_submission (IpcToClient k' m)" "is_submission (IpcSubmit k' rid t)" "\<not> is_submission (IpcAudit m)"
  by (auto simp: is_initialize_def is_submission_def ipc_initialize_def ipc_following_def discovery_reply_def)

text \<open>What is left: one \<open>initialize\<close> while the client has not begun one, one turn while none was started.\<close>

definition link_budget :: "ipc_link \<Rightarrow> nat" where
  "link_budget L = (if il_initializing L \<or> il_client L \<noteq> None then 0 else 1)"

definition init_budget :: "nat \<Rightarrow> ipc_gate \<Rightarrow> nat" where
  "init_budget k g = (case map_of (ig_links g) k of None \<Rightarrow> 1 | Some L \<Rightarrow> link_budget L)"

definition turn_budget :: "ipc_gate \<Rightarrow> nat" where
  "turn_budget g = (if ig_turn_used g then 0 else 1)"

definition link_bounded :: "ipc_link \<Rightarrow> bool" where
  "link_bounded L \<longleftrightarrow> il_to_client L \<le> ipc_max_buffer \<and> il_to_owner L \<le> ipc_max_buffer
     \<and> (case il_phase L of Connecting early bytes \<Rightarrow> il_down L \<longrightarrow> bytes \<le> ipc_max_buffer | _ \<Rightarrow> True)"

definition gate_bounded :: "ipc_gate \<Rightarrow> bool" where
  "gate_bounded g \<longleftrightarrow> (\<forall>k L. map_of (ig_links g) k = Some L \<longrightarrow> link_bounded L)"

text \<open>A handler spends at most what is left, of its own link only, and keeps the bounds.\<close>

definition spends :: "nat \<Rightarrow> ipc_output list \<Rightarrow> ipc_gate \<Rightarrow> ipc_link \<Rightarrow> ipc_gate \<Rightarrow> ipc_link \<Rightarrow> bool" where
  "spends k os g L g' L' \<longleftrightarrow>
     number (is_initialize k) os + link_budget L' \<le> link_budget L \<and> (\<forall>j. j \<noteq> k \<longrightarrow> number (is_initialize j) os = 0)
     \<and> number is_submission os + turn_budget g' \<le> turn_budget g
     \<and> (link_bounded L \<longrightarrow> link_bounded L') \<and> ig_links g' = ig_links g \<and> (il_down L' \<longrightarrow> il_down L)"

lemma forward_bounds:
  "forward_owner k m n L = (os, L') \<Longrightarrow> (link_bounded L \<longrightarrow> link_bounded L') \<and> (il_down L' \<longrightarrow> il_down L) \<and> il_phase L' = il_phase L"
  "forward_client k m n L = (os, L') \<Longrightarrow> (link_bounded L \<longrightarrow> link_bounded L') \<and> (il_down L' \<longrightarrow> il_down L) \<and> il_phase L' = il_phase L"
  by (auto simp: forward_owner_def forward_client_def close_both_def link_bounded_def split: if_splits ipc_phase.splits)

lemma link_bounded_ident [simp]:
  "link_bounded (L\<lparr>il_initializing := b\<rparr>) = link_bounded L" "link_bounded (L\<lparr>il_client := c\<rparr>) = link_bounded L"
  "link_bounded (L\<lparr>il_owner := c\<rparr>) = link_bounded L" "link_bounded (L\<lparr>il_turn := t\<rparr>) = link_bounded L"
  "link_bounded (L\<lparr>il_up := b\<rparr>) = link_bounded L"
  by (auto simp: link_bounded_def split: ipc_phase.split)

lemma handle_client_bounds:
  assumes "handle_client sz thread sub k m g L = (os, g', L', threw)"
  shows "(link_bounded L \<longrightarrow> link_bounded L') \<and> (il_down L' \<longrightarrow> il_down L) \<and> il_phase L' = il_phase L"
  using assms unfolding handle_client_def
  by (auto simp: Let_def split: if_splits option.splits prod.splits dest!: forward_bounds)

lemma handle_client_spends:
  assumes "handle_client sz thread sub k m g L = (os, g', L', threw)"
  shows "spends k os g L g' L'"
  using assms
proof (cases rule: handle_client_cases)
  case (initialize rid ct)
  then show ?thesis using handle_client_bounds [OF assms]
    by (auto simp: spends_def link_budget_def turn_budget_def wants_initialize_def)
next
  case (denial rid os')
  then show ?thesis using handle_client_bounds [OF assms] by (auto simp: spends_def link_budget_def turn_budget_def)
qed (use handle_client_bounds [OF assms] in \<open>auto simp: spends_def link_budget_def turn_budget_def\<close>)

lemma spends_trans: "spends k os g L g1 L1 \<Longrightarrow> spends k os' g1 L1 g' L' \<Longrightarrow> spends k (os @ os') g L g' L'"
  by (auto simp: spends_def)

lemma replay_early_spends: "replay_early sz thread sub k ms g L = (os, g', L', threw) \<Longrightarrow> spends k os g L g' L'"
proof (induction ms arbitrary: os g L)
  case Nil
  then show ?case by (auto simp: spends_def)
next
  case (Cons m ms)
  obtain os1 g1 L1 t1 where h: "handle_client sz thread sub k m g L = (os1, g1, L1, t1)" by (metis prod_cases4)
  note f = handle_client_spends [OF h]
  show ?case
  proof (cases t1)
    case True
    then show ?thesis using Cons.prems h f by simp
  next
    case False
    obtain os2 where r: "replay_early sz thread sub k ms g1 L1 = (os2, g', L', threw)" "os = os1 @ os2"
      using Cons.prems h False by (auto split: prod.splits)
    show ?thesis using spends_trans [OF f Cons.IH [OF r(1)]] r(2) by simp
  qed
qed

lemma forward_spends:
  assumes "forward_client k m n L = (os, L')" and "ig_links g' = ig_links g" and "ig_turn_used g' = ig_turn_used g"
  shows "spends k os g L g' L'"
  using forward_parts(2) [OF assms(1)] forward_bounds(2) [OF assms(1)] assms(2,3)
  by (auto simp: spends_def link_budget_def turn_budget_def)

lemma spends_from:
  "spends k os g L1 g' L' \<Longrightarrow> link_budget L1 \<le> link_budget L \<Longrightarrow> link_bounded L \<longrightarrow> link_bounded L1 \<Longrightarrow> il_down L1 = il_down L
     \<Longrightarrow> spends k os g L g' L'"
  by (auto simp: spends_def)

lemma close_both_bounded: "link_bounded L \<Longrightarrow> link_bounded (close_both L)"
  by (auto simp: link_bounded_def close_both_def split: ipc_phase.split)

lemma handle_owner_spends:
  assumes "handle_owner sz thread k m n g L = (os, g', L', threw)"
  shows "spends k os g L g' L'"
proof -
  let ?d = "getp m ''type'' = JStr ''client-discovery-request'' \<and> is_string (getp m ''requestId'')"
  let ?i = "getp m ''type'' = JStr ''response'' \<and> getp m ''method'' = JStr ''initialize'' \<and> il_initializing L"
  consider (discovery) ?d | (initialized) "\<not> ?d" ?i | (broadcast) "\<not> ?d" "\<not> ?i" "thread_broadcast thread m"
    | (ignored) "\<not> ?d" "\<not> ?i" "\<not> thread_broadcast thread m"
    by blast
  then show ?thesis
  proof cases
    case discovery
    have "spends k os2 g L g L2" if "forward_owner k (discovery_reply r) n' L = (os2, L2)" for r n' os2 L2
      using forward_parts(1) [OF that] forward_bounds(1) [OF that] by (auto simp: spends_def link_budget_def turn_budget_def)
    moreover have "spends k [] g L g L" by (simp add: spends_def)
    ultimately show ?thesis
      using assms discovery by (auto simp: handle_owner_def split: option.splits prod.splits)
  next
    case initialized
    have closed: "spends k [] g L g (close_both L)"
      using close_both_bounded [of L] by (auto simp: spends_def close_both_def link_budget_def)
    have sent: "spends k os2 g L g L2" if "forward_client k m n (L\<lparr>il_client := Some c, il_initializing := False\<rparr>) = (os2, L2)" for c os2 L2
      by (rule spends_from [OF forward_spends [OF that]]) (auto simp: link_budget_def)
    show ?thesis
      using assms closed sent unfolding handle_owner_def by (simp only: initialized if_True if_False) (auto split: jsval.splits if_splits prod.splits)
  next
    case broadcast
    let ?L = "if is_snapshot m \<and> snapshot_source m \<noteq> None then L\<lparr>il_owner := snapshot_source m\<rparr> else L"
    obtain os2 L2 where f: "forward_client k m n ?L = (os2, L2)" by force
    have "spends k os2 g L (if is_snapshot m then counted (\<lambda>c. c\<lparr>ic_snapshots := ic_snapshots c + 1\<rparr>) g else g) L2"
      by (rule spends_from [OF forward_spends [OF f]]) (auto simp: counted_def link_budget_def)
    then show ?thesis
      using assms f unfolding handle_owner_def by (simp only: broadcast Let_def if_True if_False prod.case) auto
  next
    case ignored
    then show ?thesis using assms by (auto simp: handle_owner_def spends_def)
  qed
qed

lemma spends_closing:
  assumes "spends k os g L g' L'"
  shows "spends k os g L g' (close_both L')" "spends k os g L g' (L'\<lparr>il_down := False\<rparr>)" "spends k os g L g' (L'\<lparr>il_up := False\<rparr>)"
  using assms close_both_bounded [of L']
  by (auto simp: spends_def link_budget_def close_both_def link_bounded_def split: ipc_phase.splits)

lemma spends_nothing:
  assumes "link_budget L' = link_budget L" and "link_bounded L \<longrightarrow> link_bounded L'" and "il_down L' \<longrightarrow> il_down L"
  shows "spends k [] g L g L'"
  using assms by (simp add: spends_def)

text \<open>The gate: its connections are numbered, and at most sixteen have an open client.\<close>

definition gate_shape :: "ipc_gate \<Rightarrow> bool" where
  "gate_shape g \<longleftrightarrow> map fst (ig_links g) = [0..<length (ig_links g)]
     \<and> number (\<lambda>(k, L). il_down L) (ig_links g) \<le> max_connections"

definition frugal :: "ipc_output list \<Rightarrow> ipc_gate \<Rightarrow> ipc_gate \<Rightarrow> bool" where
  "frugal os g g' \<longleftrightarrow>
     (\<forall>k. number (is_initialize k) os + init_budget k g' \<le> init_budget k g)
     \<and> number is_submission os + turn_budget g' \<le> turn_budget g
     \<and> (gate_bounded g \<longrightarrow> gate_bounded g') \<and> (gate_shape g \<longrightarrow> gate_shape g')"

lemma map_fst_put: "k \<in> keys kvs \<Longrightarrow> map fst (put k v kvs) = map fst kvs"
  by (induction kvs) auto

lemma number_put_le:
  "map_of kvs k = Some L \<Longrightarrow> il_down L' \<longrightarrow> il_down L \<Longrightarrow>
     number (\<lambda>(k, L). il_down L) (put k L' kvs) \<le> number (\<lambda>(k, L). il_down L) kvs"
  by (induction kvs) (auto split: if_splits)

lemma length_put_old: "k \<in> keys kvs \<Longrightarrow> length (put k v kvs) = length kvs"
  by (simp add: length_put)

lemma frugal_link:
  assumes "map_of (ig_links g) k = Some L" and "spends k os g L g1 L'"
  shows "frugal os g (set_link k L' g1)"
proof -
  have s: "number (is_initialize k) os + link_budget L' \<le> link_budget L" "\<And>j. j \<noteq> k \<Longrightarrow> number (is_initialize j) os = 0"
    "number is_submission os + turn_budget g1 \<le> turn_budget g" "link_bounded L \<longrightarrow> link_bounded L'" "ig_links g1 = ig_links g"
    "il_down L' \<longrightarrow> il_down L"
    using assms(2) by (auto simp: spends_def)
  have "number (is_initialize j) os + init_budget j (set_link k L' g1) \<le> init_budget j g" for j
    using s assms(1) by (cases "j = k") (simp_all add: init_budget_def set_link_def)
  moreover have "number is_submission os + turn_budget (set_link k L' g1) \<le> turn_budget g"
    using s(3) by (simp add: turn_budget_def set_link_def)
  moreover have "gate_bounded g \<longrightarrow> gate_bounded (set_link k L' g1)"
    using s assms(1) by (auto simp: gate_bounded_def set_link_def)
  moreover have "gate_shape g \<longrightarrow> gate_shape (set_link k L' g1)"
    using s(5) number_put_le [OF assms(1) s(6)] map_of_Some_key [OF assms(1)]
    by (auto simp: gate_shape_def set_link_def map_fst_put length_put_old)
  ultimately show ?thesis by (simp add: frugal_def)
qed

lemma frugal_same: "frugal [] g g"
  by (simp add: frugal_def)

lemma accept_frugal:
  assumes "gate_shape g" shows "frugal [] g (accept_client g)"
proof -
  let ?n = "length (ig_links g)"
  have "?n \<notin> keys (ig_links g)"
  proof -
    have "keys (ig_links g) = set (map fst (ig_links g))" by (simp add: keys_def)
    also have "\<dots> = {0..<?n}" using assms unfolding gate_shape_def by (simp only: atLeastLessThan_upt)
    finally show ?thesis by simp
  qed
  then have fresh: "put ?n v (ig_links g) = ig_links g @ [(?n, v)]" "map_of (ig_links g) ?n = None" for v
    by (simp_all add: put_fresh map_of_None_iff)
  show ?thesis
    using assms fresh
    by (auto simp: accept_client_def frugal_def set_link_def counted_def init_budget_def turn_budget_def gate_bounded_def
        gate_shape_def ipc_new_link_def link_budget_def link_bounded_def number_def map_add_Some_iff split: option.splits if_splits)
qed

lemma close_gate_frugal: "frugal [] g (close_gate g)"
proof -
  let ?c = "map (\<lambda>(k :: nat, L). (k, close_both L))"
  have m: "map_of (?c kvs) k = map_option close_both (map_of kvs k)" for kvs k by (induction kvs) auto
  have "number (\<lambda>(k, L). il_down L) (?c kvs) = 0" for kvs by (induction kvs) (auto simp: close_both_def)
  moreover have "fst \<circ> (\<lambda>(k :: nat, L). (k, close_both L)) = fst" by auto
  ultimately have "gate_shape g \<longrightarrow> gate_shape (close_gate g)" by (simp add: gate_shape_def close_gate_def)
  moreover have "link_budget (close_both L) = link_budget L" for L by (simp add: link_budget_def close_both_def)
  then have "init_budget k (close_gate g) = init_budget k g" for k
    by (simp add: init_budget_def close_gate_def m split: option.split)
  moreover have "gate_bounded g \<longrightarrow> gate_bounded (close_gate g)"
    using close_both_bounded by (auto simp: gate_bounded_def close_gate_def m)
  moreover have "turn_budget (close_gate g) = turn_budget g" by (simp add: turn_budget_def close_gate_def)
  ultimately show ?thesis by (simp add: frugal_def)
qed

lemma ipc_step_frugal:
  assumes "ipc_step sz thread sub e g = (os, g')" and "gate_shape g"
  shows "frugal os g g'"
proof (cases e)
  case Accepted
  then show ?thesis using assms accept_frugal by auto
next
  case (ClientFrame k m n)
  show ?thesis
  proof (cases "map_of (ig_links g) k")
    case (Some L)
    obtain os1 g1 L1 t1 where h: "handle_client sz thread sub k m g L = (os1, g1, L1, t1)" by (metis prod_cases4)
    note f = handle_client_spends [OF h]
    have early: "frugal [] g (set_link k (L\<lparr>il_phase := p, il_down := d\<rparr>) g)"
      if "d \<longrightarrow> il_down L" "case p of Connecting ms b \<Rightarrow> d \<longrightarrow> b \<le> ipc_max_buffer | _ \<Rightarrow> True" for p d
      by (rule frugal_link [OF Some spends_nothing]) (use that in \<open>auto simp: link_budget_def link_bounded_def split: ipc_phase.splits\<close>)
    have kept: "frugal [] g (set_link k (L\<lparr>il_phase := p\<rparr>) g)"
      if "case p of Connecting ms b \<Rightarrow> b \<le> ipc_max_buffer | _ \<Rightarrow> True" for p
      by (rule frugal_link [OF Some spends_nothing]) (use that in \<open>auto simp: link_budget_def link_bounded_def split: ipc_phase.splits\<close>)
    show ?thesis
      using assms(1) ClientFrame Some h f frugal_same early kept
        frugal_link [OF Some f] frugal_link [OF Some spends_closing(2) [OF f]]
      by (auto simp: client_frame_def split: if_splits ipc_phase.splits)
  qed (use assms ClientFrame frugal_same in \<open>simp add: client_frame_def\<close>)
next
  case (OwnerConnected k works)
  show ?thesis
  proof (cases "map_of (ig_links g) k")
    case (Some L)
    show ?thesis
    proof (cases "il_phase L")
      case (Connecting early bytes)
      obtain os1 g1 L1 t1 where h: "replay_early sz thread sub k early g (L\<lparr>il_phase := Linked, il_up := True\<rparr>) = (os1, g1, L1, t1)"
        by (metis prod_cases4)
      have f: "spends k os1 g L g1 L1"
        by (rule spends_from [OF replay_early_spends [OF h]]) (auto simp: link_budget_def link_bounded_def)
      have "frugal [] g (set_link k (close_both (L\<lparr>il_phase := Abandoned\<rparr>)) g)"
        by (rule frugal_link [OF Some spends_nothing]) (auto simp: link_budget_def link_bounded_def close_both_def)
      then show ?thesis
        using assms(1) OwnerConnected Some Connecting h frugal_link [OF Some f] frugal_link [OF Some spends_closing(1) [OF f]]
        by (auto simp: owner_connected_def split: if_splits)
    qed (use assms OwnerConnected Some frugal_same in \<open>simp_all add: owner_connected_def\<close>)
  qed (use assms OwnerConnected frugal_same in \<open>simp add: owner_connected_def\<close>)
next
  case (OwnerFrame k m n)
  show ?thesis
  proof (cases "map_of (ig_links g) k")
    case (Some L)
    obtain os1 g1 L1 t1 where h: "handle_owner sz thread k m n g L = (os1, g1, L1, t1)" by (metis prod_cases4)
    note f = handle_owner_spends [OF h]
    show ?thesis
      using assms(1) OwnerFrame Some h frugal_same frugal_link [OF Some f] frugal_link [OF Some spends_closing(3) [OF f]]
      by (auto simp: owner_frame_def split: if_splits)
  qed (use assms OwnerFrame frugal_same in \<open>simp add: owner_frame_def\<close>)
next
  case (TurnSettled k rid outcome)
  show ?thesis
  proof (cases "map_of (ig_links g) k")
    case (Some L)
    have a: "frugal [] g (set_link k (L\<lparr>il_turn := None\<rparr>) g)"
      by (rule frugal_link [OF Some spends_nothing]) (auto simp: link_budget_def)
    have b: "frugal os2 g (set_link k L2 g)" if "forward_client k m n (L\<lparr>il_turn := None\<rparr>) = (os2, L2)" for m n os2 L2
      by (rule frugal_link [OF Some spends_from [OF forward_spends [OF that refl refl]]]) (auto simp: link_budget_def)
    show ?thesis
      using assms(1) TurnSettled Some a b frugal_same
      by (auto simp: turn_settled_def Let_def split: option.splits if_splits prod.splits)
  qed (use assms TurnSettled frugal_same in \<open>simp add: turn_settled_def\<close>)
next
  case (SideClosed k client)
  show ?thesis
  proof (cases "map_of (ig_links g) k")
    case (Some L)
    have base: "spends k [] g L g L" by (rule spends_nothing) simp_all
    show ?thesis
      using assms(1) SideClosed Some frugal_same frugal_link [OF Some spends_closing(1) [OF base]] frugal_link [OF Some spends_closing(2) [OF base]]
      by (auto simp: side_closed_def split: ipc_phase.splits if_splits)
  qed (use assms SideClosed frugal_same in \<open>simp add: side_closed_def\<close>)
next
  case (SideFlushed k client n)
  show ?thesis
  proof (cases "map_of (ig_links g) k")
    case (Some L)
    have "frugal [] g (set_link k (if client then L\<lparr>il_to_client := il_to_client L - n\<rparr> else L\<lparr>il_to_owner := il_to_owner L - n\<rparr>) g)"
      by (rule frugal_link [OF Some spends_nothing]) (auto simp: link_budget_def link_bounded_def split: ipc_phase.splits)
    then show ?thesis using assms(1) SideFlushed Some by (auto simp: side_flushed_def)
  qed (use assms SideFlushed frugal_same in \<open>simp add: side_flushed_def\<close>)
next
  case GateClosed
  then show ?thesis using assms close_gate_frugal by auto
qed

lemma ipc_run_frugal:
  "ipc_run sz thread sub es g = (os, g') \<Longrightarrow> gate_shape g \<Longrightarrow> frugal os g g'"
proof (induction es arbitrary: os g)
  case (Cons e es)
  obtain os1 g1 where s: "ipc_step sz thread sub e g = (os1, g1)" by force
  obtain os2 where r: "ipc_run sz thread sub es g1 = (os2, g')" "os = os1 @ os2"
    using Cons.prems(1) s by (auto split: prod.splits)
  have f: "frugal os1 g g1" by (rule ipc_step_frugal [OF s Cons.prems(2)])
  then have f2: "frugal os2 g1 g'" using Cons.IH [OF r(1)] Cons.prems(2) by (simp add: frugal_def)
  have "number (is_initialize k) os + init_budget k g' \<le> init_budget k g" for k
  proof -
    have "number (is_initialize k) os1 + init_budget k g1 \<le> init_budget k g" "number (is_initialize k) os2 + init_budget k g' \<le> init_budget k g1"
      using f f2 by (simp_all add: frugal_def)
    then show ?thesis using r(2) by simp
  qed
  then show ?case using f f2 r(2) by (simp add: frugal_def)
qed (auto simp: frugal_same)

text \<open>
  The gate keeps its limits, over every sequence of events: each connection sends the owner at most one
  \<open>initialize\<close>, one text turn at most is submitted in the whole life of the gate, at most sixteen clients are
  open at once, and no message waits in a buffer of more than 32 MiB.
\<close>

theorem ipc_gate_is_bounded:
  assumes "ipc_new_gate thread = Some g"
  shows "number (is_initialize k) (fst (ipc_run sz thread sub es g)) \<le> 1
    \<and> number is_submission (fst (ipc_run sz thread sub es g)) \<le> 1
    \<and> gate_shape (snd (ipc_run sz thread sub es g)) \<and> gate_bounded (snd (ipc_run sz thread sub es g))"
proof -
  have g: "gate_shape g" "gate_bounded g" "init_budget k g = 1" "turn_budget g = 1"
    using assms by (auto simp: ipc_new_gate_def gate_shape_def gate_bounded_def init_budget_def turn_budget_def split: if_splits)
  have f: "frugal (fst (ipc_run sz thread sub es g)) g (snd (ipc_run sz thread sub es g))"
    by (rule ipc_run_frugal [OF surjective_pairing g(1)])
  then have "number (is_initialize k) (fst (ipc_run sz thread sub es g)) \<le> init_budget k g"
    "number is_submission (fst (ipc_run sz thread sub es g)) \<le> turn_budget g"
    by (auto simp: frugal_def intro: add_leD1)
  then show ?thesis using f g by (simp add: frugal_def)
qed

section \<open>A client that goes while the owner is being connected\<close>

text \<open>
  The handlers that end one side with the other are attached once the owner is connected. A client that closed
  before leaves the owner's connection open, with nothing left that would end it but the gate itself.
\<close>

lemma early_close_leaves_the_owner_connected:
  assumes "map_of (ig_links g) k = Some L" and "il_phase L = Connecting [] n"
  shows "\<exists>L'. map_of (ig_links (snd (ipc_run sz thread sub [SideClosed k True, OwnerConnected k True] g))) k = Some L'
    \<and> il_up L' \<and> \<not> il_down L'"
  using assms by (simp add: side_closed_def owner_connected_def set_link_def)

section \<open>A run\<close>

definition ipc_thread :: string where
  "ipc_thread = ''01234567-89ab-cdef-0123-456789abcdef''"

definition ipc_sample_gate :: ipc_gate where
  "ipc_sample_gate = the (ipc_new_gate ipc_thread)"

definition ipc_sample_run :: "ipc_event list" where
  "ipc_sample_run =
     [Accepted,
      ClientFrame 0 [(''type'', JStr ''request''), (''method'', JStr ''initialize''), (''requestId'', JStr ''a''),
        (''params'', JObj [(''clientType'', JStr ''desktop'')])] 90,
      OwnerConnected 0 True,
      OwnerFrame 0 [(''type'', JStr ''response''), (''method'', JStr ''initialize''), (''resultType'', JStr ''success''),
        (''result'', JObj [(''clientId'', JStr ''c1'')])] 90,
      ClientFrame 0 [(''type'', JStr ''broadcast''), (''method'', JStr ''thread-stream-following-changed''),
        (''sourceClientId'', JStr ''c1''),
        (''params'', JObj [(''conversationId'', JStr ipc_thread), (''hostId'', JStr ''local''), (''following'', JBool True)])] 90,
      ClientFrame 0 [(''type'', JStr ''request''), (''method'', JStr ''shutdown''), (''requestId'', JStr ''b'')] 40,
      GateClosed]"

lemma ipc_sample_there: "ipc_new_gate ipc_thread = Some ipc_sample_gate"
  by code_simp

lemma ipc_gate_is_scoped_witness:
  "list_all (output_fits ipc_thread (set ipc_sample_run)) (fst (ipc_run (\<lambda>m. 100) ipc_thread False ipc_sample_run ipc_sample_gate))"
  by (rule ipc_gate_is_scoped [OF ipc_sample_there])

lemma ipc_gate_is_bounded_witness:
  "number (is_initialize 0) (fst (ipc_run (\<lambda>m. 100) ipc_thread False ipc_sample_run ipc_sample_gate)) \<le> 1
    \<and> number is_submission (fst (ipc_run (\<lambda>m. 100) ipc_thread False ipc_sample_run ipc_sample_gate)) \<le> 1
    \<and> gate_shape (snd (ipc_run (\<lambda>m. 100) ipc_thread False ipc_sample_run ipc_sample_gate))
    \<and> gate_bounded (snd (ipc_run (\<lambda>m. 100) ipc_thread False ipc_sample_run ipc_sample_gate))"
  by (rule ipc_gate_is_bounded [OF ipc_sample_there])

lemma ipc_chunks_do_not_matter_witness:
  "snd (ipc_stream (\<lambda>b. Some (JObj [])) [] [[2, 0], [0, 0, 0x7b], [0x7d, 1]])
    = snd (ipc_stream (\<lambda>b. Some (JObj [])) [] [[2, 0, 0, 0, 0x7b, 0x7d], [1]])"
  by (rule ipc_chunks_do_not_matter) (simp_all add: ipc_max_frame_def)

lemma ipc_frame_roundtrip_witness:
  "take_ipc_frame (\<lambda>b. if b = [0x7b, 0x7d] then Some (JObj []) else None) () ([2, 0, 0, 0, 0x7b, 0x7d] @ [9])
    = Item (length [2, 0, 0, 0, 0x7b, 0x7d :: byte]) () [([], [2, 0, 0, 0, 0x7b, 0x7d])]"
  by (rule ipc_frame_roundtrip [where body = "[0x7b, 0x7d]"]) (simp_all add: ipc_frame_def ipc_max_frame_def uint32_le_def)

end
