(* ===== verification/ReadChannels.thy ===== *)
theory ReadChannels
  imports OrbitPrelude
begin

text \<open>
  \<open>src/read-channel-registry.ts\<close>: the registry that gives a connector a reading channel. The owner enrolls a
  connector and gets a ticket; the connector exchanges the ticket once for a transport secret; the secret
  resolves to the channel while the enrollment lasts, the process is the enrolled one and nobody revoked it.

  Objects used by identity (authorities, keys, instances, bindings, channels) are numbers, \<open>JRef\<close> values in
  the arguments. The registry calls out to a clock, to a verifier of processes, to a revocation
  callback and to the random generator: their answers are queues in the state, filled by whoever calls the
  registry. The clock and the verifier may call back the three operations that no flag keeps out
  (\<open>revoke\<close>, \<open>detach\<close>, \<open>close\<close>), and the clock also \<open>status\<close>, which faults it; these calls are
  part of the answer. A revocation callback that calls back, a verifier that asks for the status, proxies and
  accessors are not represented.
\<close>

section \<open>State\<close>

datatype channel_code = ChInvalid | ChDenied | ChBusy | ChLimit | ChConflict

datatype read_format = TextFormat | ImageFormat

record channel_view =
  cv_binding :: nat
  cv_epoch :: int
  cv_formats :: "read_format list"

record enrollment =
  en_key :: nat
  en_caller :: string
  en_pid :: int
  en_birth :: string
  en_installation :: nat
  en_instance :: nat
  en_conversation :: nat
  en_expires :: rat
  en_views :: "channel_view list"

record channel_entry =
  ce_data :: enrollment
  ce_ticket :: string
  ce_channel :: nat
  ce_transport :: "string option"
  ce_revoked :: bool

datatype owner_call = CallRevoke nat nat | CallDetach nat nat | CallClose nat | CallStatus

record channel_registry =
  cr_authority :: nat
  cr_notifies :: bool
  cr_max_channels :: nat
  cr_max_issues :: nat
  cr_issues :: nat
  cr_records :: "(nat \<times> channel_entry) list"
  cr_retired :: "nat list"
  cr_secrets :: "string list"
  cr_closed :: bool
  cr_fault :: bool
  cr_generation :: nat
  cr_last :: "rat option"
  cr_next :: nat
  cr_clock :: "(rat option \<times> owner_call list) list"
  cr_proofs :: "(bool \<times> owner_call list) list"
  cr_acks :: "bool list"
  cr_random :: "string option list"

type_synonym 'a channel_step = "(channel_code, 'a) result \<times> channel_registry"

section \<open>Reading an enrollment\<close>

definition ref_of :: "jsval \<Rightarrow> nat option" where
  "ref_of v = (case v of JRef i \<Rightarrow> Some i | _ \<Rightarrow> None)"

definition positive :: "jsval \<Rightarrow> bool" where
  "positive v \<longleftrightarrow> is_safe_integer v \<and> 0 < int_of_val v"

definition dense :: "jsval \<Rightarrow> nat \<Rightarrow> (channel_code, jsval list) result" where
  "dense v most = (case v of JArr vs \<Rightarrow> if 1 \<le> length vs \<and> length vs \<le> most then Ok vs else Err ChInvalid | _ \<Rightarrow> Err ChInvalid)"

definition exact_fields :: "jsval \<Rightarrow> string list \<Rightarrow> string list \<Rightarrow> (channel_code, jsobj) result" where
  "exact_fields v required optional =
     (case as_object v of
        None \<Rightarrow> Err ChInvalid
      | Some fs \<Rightarrow> if only_keys (required @ optional) fs \<and> list_all (\<lambda>k. has_own fs k) required then Ok fs else Err ChInvalid)"

definition is_token :: "string \<Rightarrow> bool" where
  "is_token s \<longleftrightarrow> class_string is_lower_hex 64 64 s"

definition conv_id_text :: "string \<Rightarrow> bool" where
  "conv_id_text s \<longleftrightarrow> starts_with s ''conv:'' \<and> class_string (\<lambda>c. \<not> is_control c) 1 256 (drop 5 s)"

definition birth_text :: "string \<Rightarrow> bool" where
  "birth_text s \<longleftrightarrow> class_string is_digit 1 20 s"

definition format_of :: "jsval \<Rightarrow> read_format option" where
  "format_of v = (if v = JStr ''text'' then Some TextFormat else if v = JStr ''image'' then Some ImageFormat else None)"

definition snapshot_view :: "jsval \<Rightarrow> (channel_code, channel_view) result" where
  "snapshot_view raw =
     and_then (exact_fields raw [''binding'', ''bindingEpoch'', ''formats''] []) (\<lambda>view.
     and_then (dense (getp view ''formats'') 2) (\<lambda>formats.
     case (ref_of (getp view ''binding''), those (List.map format_of formats)) of
       (Some b, Some fs) \<Rightarrow>
         if positive (getp view ''bindingEpoch'') \<and> distinct fs
         then Ok \<lparr>cv_binding = b, cv_epoch = int_of_val (getp view ''bindingEpoch''), cv_formats = fs\<rparr>
         else Err ChInvalid
     | _ \<Rightarrow> Err ChInvalid))"

definition enrollment_keys :: "string list" where
  "enrollment_keys = [''key'', ''callerId'', ''pid'', ''birth'', ''installation'', ''instance'', ''conversation'', ''expiresAt'', ''views'']"

definition channel_snapshot :: "jsval \<Rightarrow> (channel_code, enrollment) result" where
  "channel_snapshot input =
     and_then (exact_fields input enrollment_keys []) (\<lambda>item.
     case (ref_of (getp item ''key''), ref_of (getp item ''installation''), ref_of (getp item ''instance''),
           ref_of (getp item ''conversation''), getp item ''expiresAt'') of
       (Some key, Some installation, Some inst, Some conversation, JNum (Fin expires)) \<Rightarrow>
         if is_string (getp item ''callerId'') \<and> conv_id_text (str_of (getp item ''callerId''))
            \<and> positive (getp item ''pid'') \<and> 2 \<le> int_of_val (getp item ''pid'')
            \<and> is_string (getp item ''birth'') \<and> birth_text (str_of (getp item ''birth''))
         then and_then (dense (getp item ''views'') 2) (\<lambda>raws.
              and_then (map_result snapshot_view raws) (\<lambda>views.
              if distinct (List.map cv_binding views)
              then Ok \<lparr>en_key = key, en_caller = str_of (getp item ''callerId''), en_pid = int_of_val (getp item ''pid''),
                       en_birth = str_of (getp item ''birth''), en_installation = installation, en_instance = inst,
                       en_conversation = conversation, en_expires = expires, en_views = views\<rparr>
              else Err ChInvalid))
         else Err ChInvalid
     | _ \<Rightarrow> Err ChInvalid)"

definition capped :: "jsobj \<Rightarrow> string \<Rightarrow> nat \<Rightarrow> (channel_code, nat) result" where
  "capped options key most =
     (let v = getp options key in
      if v = Undef then Ok most
      else if positive v \<and> int_of_val v \<le> int most then Ok (nat (int_of_val v)) else Err ChInvalid)"

definition new_channel_registry :: "jsval \<Rightarrow> (channel_code, channel_registry) result" where
  "new_channel_registry options =
     and_then (exact_fields options [''ownerAuthority'', ''ownerIdentity'', ''processCurrent'']
                 [''onRevoke'', ''now'', ''maxChannels'', ''maxIssues'']) (\<lambda>fs.
     and_then (capped fs ''maxChannels'' 8) (\<lambda>capacity.
     and_then (capped fs ''maxIssues'' 1024) (\<lambda>issues.
     case (ref_of (getp fs ''ownerAuthority''), ref_of (getp fs ''ownerIdentity'')) of
       (Some authority, Some identity) \<Rightarrow>
         if is_function (getp fs ''processCurrent'')
            \<and> (getp fs ''onRevoke'' = Undef \<or> is_function (getp fs ''onRevoke''))
            \<and> (getp fs ''now'' = Undef \<or> is_function (getp fs ''now''))
         then Ok \<lparr>cr_authority = authority, cr_notifies = is_function (getp fs ''onRevoke''),
                  cr_max_channels = capacity, cr_max_issues = issues, cr_issues = 0, cr_records = [], cr_retired = [],
                  cr_secrets = [], cr_closed = False, cr_fault = False, cr_generation = 0, cr_last = None, cr_next = 0,
                  cr_clock = [], cr_proofs = [], cr_acks = [], cr_random = []\<rparr>
         else Err ChInvalid
     | _ \<Rightarrow> Err ChInvalid)))"

section \<open>Revocation\<close>

definition advance_generation :: "channel_registry \<Rightarrow> channel_registry" where
  "advance_generation r =
     (if max_safe \<le> int (cr_generation r) then r\<lparr>cr_closed := True\<rparr> else r\<lparr>cr_generation := cr_generation r + 1\<rparr>)"

text \<open>The entry of this key is the one with this channel, and not revoked.\<close>

definition still_there :: "nat \<Rightarrow> nat \<Rightarrow> channel_registry \<Rightarrow> bool" where
  "still_there key ch r =
     (case map_of (cr_records r) key of None \<Rightarrow> False | Some e \<Rightarrow> ce_channel e = ch \<and> \<not> ce_revoked e)"

text \<open>The next answer of the callback: whether it returned nothing, at once.\<close>

definition take_ack :: "channel_registry \<Rightarrow> bool \<times> channel_registry" where
  "take_ack r =
     (if \<not> cr_notifies r then (True, r)
      else case cr_acks r of [] \<Rightarrow> (False, r) | a # as \<Rightarrow> (a, r\<lparr>cr_acks := as\<rparr>))"

definition invalidate :: "nat \<Rightarrow> channel_registry \<Rightarrow> channel_registry" where
  "invalidate key r =
     (case map_of (cr_records r) key of
        None \<Rightarrow> r
      | Some e \<Rightarrow>
          if ce_revoked e then r
          else
           (let r1 = advance_generation (r\<lparr>cr_records := put key (e\<lparr>ce_revoked := True\<rparr>) (cr_records r), cr_retired := key # cr_retired r\<rparr>) in
            case take_ack r1 of (acknowledged, r2) \<Rightarrow>
              (if acknowledged then r2\<lparr>cr_records := del key (cr_records r2)\<rparr> else r2)))"

fun invalidate_all :: "nat list \<Rightarrow> channel_registry \<Rightarrow> channel_registry" where
  "invalidate_all [] r = r"
| "invalidate_all (k # ks) r = invalidate_all ks (invalidate k r)"

definition keys_where :: "(channel_entry \<Rightarrow> bool) \<Rightarrow> channel_registry \<Rightarrow> nat list" where
  "keys_where P r = List.map fst (filter (\<lambda>(k, e). P e) (cr_records r))"

definition fail_clock :: "channel_registry \<Rightarrow> channel_registry" where
  "fail_clock r =
     (if cr_fault r then r
      else let r1 = advance_generation (r\<lparr>cr_fault := True, cr_closed := True\<rparr>) in invalidate_all (keys_where (\<lambda>e. True) r1) r1)"

definition revoke_channel :: "nat \<Rightarrow> nat \<Rightarrow> channel_registry \<Rightarrow> bool channel_step" where
  "revoke_channel authority key r =
     (if authority \<noteq> cr_authority r then (Err ChDenied, r)
      else let r1 = advance_generation r in
        case map_of (cr_records r1) key of
          None \<Rightarrow> (Ok False, r1)
        | Some e \<Rightarrow> if ce_revoked e then (Ok False, r1) else (Ok True, invalidate key r1))"

definition detach_instance :: "nat \<Rightarrow> nat \<Rightarrow> channel_registry \<Rightarrow> unit channel_step" where
  "detach_instance authority inst r =
     (if authority \<noteq> cr_authority r then (Err ChDenied, r)
      else let r1 = advance_generation r in (Ok (), invalidate_all (keys_where (\<lambda>e. en_instance (ce_data e) = inst) r1) r1))"

definition close_registry :: "nat \<Rightarrow> channel_registry \<Rightarrow> unit channel_step" where
  "close_registry authority r =
     (if authority \<noteq> cr_authority r then (Err ChDenied, r)
      else let r1 = advance_generation (r\<lparr>cr_closed := True\<rparr>) in (Ok (), invalidate_all (keys_where (\<lambda>e. True) r1) r1))"

text \<open>What a callback does with the registry. The status asks for the time again, which faults the clock.\<close>

fun called_back :: "owner_call list \<Rightarrow> channel_registry \<Rightarrow> channel_registry" where
  "called_back [] r = r"
| "called_back (CallRevoke a k # cs) r = called_back cs (snd (revoke_channel a k r))"
| "called_back (CallDetach a i # cs) r = called_back cs (snd (detach_instance a i r))"
| "called_back (CallClose a # cs) r = called_back cs (snd (close_registry a r))"
| "called_back (CallStatus # cs) r = called_back cs (fail_clock r)"

section \<open>Time and proof\<close>

definition read_clock :: "channel_registry \<Rightarrow> rat channel_step" where
  "read_clock r =
     (if cr_fault r then (Err ChDenied, r)
      else case cr_clock r of
        [] \<Rightarrow> (Err ChDenied, fail_clock r)
      | (reading, calls) # rest \<Rightarrow>
         (let r1 = called_back calls (r\<lparr>cr_clock := rest\<rparr>) in
          case reading of
            None \<Rightarrow> (Err ChDenied, fail_clock r1)
          | Some now \<Rightarrow>
              if cr_fault r1 \<or> (case cr_last r1 of None \<Rightarrow> False | Some t \<Rightarrow> now < t) then (Err ChDenied, fail_clock r1)
              else (Ok now, r1\<lparr>cr_last := Some now\<rparr>)))"

definition sweep_channels :: "channel_registry \<Rightarrow> unit channel_step" where
  "sweep_channels r =
     (if cr_fault r then (Ok (), r)
      else case read_clock r of
        (Err e, r1) \<Rightarrow> (Err e, r1)
      | (Ok now, r1) \<Rightarrow> (Ok (), invalidate_all (keys_where (\<lambda>e. en_expires (ce_data e) \<le> now) r1) r1))"

definition no_status :: "owner_call list \<Rightarrow> owner_call list" where
  "no_status = filter (\<lambda>c. c \<noteq> CallStatus)"

definition ask_proof :: "channel_registry \<Rightarrow> bool \<times> channel_registry" where
  "ask_proof r =
     (case cr_proofs r of
        [] \<Rightarrow> (False, r)
      | (ok, calls) # rest \<Rightarrow> (ok, called_back (no_status calls) (r\<lparr>cr_proofs := rest\<rparr>)))"

definition caller_matches :: "channel_entry \<Rightarrow> jsval \<Rightarrow> bool" where
  "caller_matches e who =
     (case exact_fields who [''id'', ''role'', ''kind'', ''verified'', ''pid'', ''start''] [''label''] of
        Err c \<Rightarrow> False
      | Ok fs \<Rightarrow> getp fs ''verified'' = JBool True \<and> getp fs ''kind'' = JStr ''adapter'' \<and> getp fs ''role'' = JStr ''agent''
          \<and> getp fs ''id'' = JStr (en_caller (ce_data e)) \<and> getp fs ''pid'' = jint (en_pid (ce_data e))
          \<and> getp fs ''start'' = JStr (en_birth (ce_data e)))"

text \<open>\<open>#live\<close>: whether the check passed, and whether the entry itself is to be retired.\<close>

definition live_check :: "channel_entry \<Rightarrow> channel_registry \<Rightarrow> bool \<times> bool \<times> channel_registry" where
  "live_check e r =
     (let gen = cr_generation r; key = en_key (ce_data e);
          gone = (\<lambda>r'. cr_closed r' \<or> \<not> still_there key (ce_channel e) r') in
      case read_clock r of
        (Err c, r1) \<Rightarrow> (False, gone r1 \<or> gen = cr_generation r1, r1)
      | (Ok before', r1) \<Rightarrow>
         (let invalid = (en_expires (ce_data e) \<le> before' \<or> gone r1) in
          if invalid \<or> gen \<noteq> cr_generation r1 then (False, invalid, r1)
          else (case ask_proof r1 of
            (False, r2) \<Rightarrow> (False, gone r2 \<or> gen = cr_generation r2, r2)
          | (True, r2) \<Rightarrow>
             (case read_clock r2 of
                (Err c, r3) \<Rightarrow> (False, gone r3 \<or> gen = cr_generation r3, r3)
              | (Ok after, r3) \<Rightarrow>
                 (let invalid' = (en_expires (ce_data e) \<le> after \<or> gone r3) in
                  (\<not> invalid' \<and> gen = cr_generation r3, invalid', r3))))))"

definition is_live :: "channel_entry \<Rightarrow> channel_registry \<Rightarrow> bool \<times> channel_registry" where
  "is_live e r =
     (case live_check e r of (okay, invalid, r1) \<Rightarrow>
        (okay, if invalid \<and> still_there (en_key (ce_data e)) (ce_channel e) r1 then invalidate (en_key (ce_data e)) r1 else r1))"

definition fence :: "channel_entry \<Rightarrow> nat \<Rightarrow> channel_registry \<Rightarrow> bool \<times> channel_registry" where
  "fence e gen r =
     (case read_clock r of
        (Err c, r1) \<Rightarrow> (False, r1)
      | (Ok now, r1) \<Rightarrow>
         (now < en_expires (ce_data e) \<and> gen = cr_generation r1 \<and> \<not> cr_closed r1
            \<and> still_there (en_key (ce_data e)) (ce_channel e) r1, r1))"

section \<open>Issuing\<close>

definition new_secret :: "channel_registry \<Rightarrow> string channel_step" where
  "new_secret r =
     (if 2 * cr_max_issues r \<le> length (cr_secrets r) then (Err ChLimit, r)
      else case cr_random r of
        [] \<Rightarrow> (Err ChDenied, r)
      | None # rest \<Rightarrow> (Err ChDenied, r\<lparr>cr_random := rest\<rparr>)
      | Some v # rest \<Rightarrow>
          if \<not> is_token v \<or> v \<in> set (cr_secrets r) then (Err ChLimit, r\<lparr>cr_random := rest\<rparr>)
          else (Ok v, r\<lparr>cr_random := rest, cr_secrets := v # cr_secrets r\<rparr>))"

definition overlaps :: "enrollment \<Rightarrow> enrollment \<Rightarrow> bool" where
  "overlaps a b \<longleftrightarrow> en_instance a = en_instance b \<or> list_ex (\<lambda>v. list_ex (\<lambda>w. cv_binding v = cv_binding w) (en_views b)) (en_views a)"

definition add_channel :: "enrollment \<Rightarrow> string \<Rightarrow> channel_registry \<Rightarrow> channel_registry" where
  "add_channel data ticket r =
     r\<lparr>cr_records := put (en_key data) \<lparr>ce_data = data, ce_ticket = ticket, ce_channel = cr_next r, ce_transport = None, ce_revoked = False\<rparr> (cr_records r),
       cr_issues := cr_issues r + 1, cr_next := cr_next r + 1\<rparr>"

definition issue_new :: "enrollment \<Rightarrow> nat \<Rightarrow> channel_registry \<Rightarrow> (string \<times> rat) channel_step" where
  "issue_new data gen r =
     (if cr_max_channels r \<le> length (cr_records r) \<or> cr_max_issues r \<le> cr_issues r then (Err ChLimit, r)
      else if list_ex (\<lambda>(k, e). overlaps (ce_data e) data) (cr_records r) then (Err ChConflict, r)
      else case ask_proof r of
        (False, r1) \<Rightarrow> (Err ChDenied, r1)
      | (True, r1) \<Rightarrow>
         (case read_clock r1 of
            (Err c, r2) \<Rightarrow> (Err c, r2)
          | (Ok checked, r2) \<Rightarrow>
              if en_expires data \<le> checked \<or> gen \<noteq> cr_generation r2 \<or> cr_closed r2 then (Err ChDenied, r2)
              else (case new_secret r2 of
                (Err c, r3) \<Rightarrow> (Err c, r3)
              | (Ok ticket, r3) \<Rightarrow>
                  if gen \<noteq> cr_generation r3 \<or> cr_closed r3 \<or> en_key data \<in> set (cr_retired r3) then (Err ChDenied, r3)
                  else (Ok (ticket, en_expires data), add_channel data ticket r3))))"

definition issue_channel :: "nat \<Rightarrow> jsval \<Rightarrow> channel_registry \<Rightarrow> (string \<times> rat) channel_step" where
  "issue_channel authority input r =
     (if authority \<noteq> cr_authority r \<or> cr_closed r then (Err ChDenied, r)
      else case sweep_channels r of
        (Err c, r1) \<Rightarrow> (Err c, r1)
      | (Ok u, r1) \<Rightarrow>
         (case channel_snapshot input of
            Err c \<Rightarrow> (Err c, r1)
          | Ok data \<Rightarrow>
             (case read_clock r1 of
                (Err c, r2) \<Rightarrow> (Err c, r2)
              | (Ok now, r2) \<Rightarrow>
                  if en_expires data \<le> now \<or> 600000 < en_expires data - now then (Err ChInvalid, r2)
                  else if en_key data \<in> set (cr_retired r2) then (Err ChConflict, r2)
                  else (case map_of (cr_records r2) (en_key data) of
                    Some e \<Rightarrow>
                      if ce_data e \<noteq> data then (Err ChConflict, r2)
                      else (case is_live e r2 of (okay, r3) \<Rightarrow>
                          (if okay then Ok (ce_ticket e, en_expires data) else Err ChDenied, r3))
                  | None \<Rightarrow> issue_new data (cr_generation r1) r2))))"

section \<open>Using a channel\<close>

definition find_entry :: "(channel_entry \<Rightarrow> bool) \<Rightarrow> channel_registry \<Rightarrow> channel_entry option" where
  "find_entry P r = List.find P (List.map snd (cr_records r))"

text \<open>The four checks in a row; the caller's attributes do not change in between.\<close>

definition admitted :: "channel_entry \<Rightarrow> jsval \<Rightarrow> channel_registry \<Rightarrow> bool \<times> channel_registry" where
  "admitted e who r =
     (if \<not> caller_matches e who then (False, r)
      else case is_live e r of
        (False, r1) \<Rightarrow> (False, r1)
      | (True, r1) \<Rightarrow> fence e (cr_generation r) r1)"

definition set_transport :: "nat \<Rightarrow> string \<Rightarrow> channel_registry \<Rightarrow> channel_registry" where
  "set_transport key transport r =
     r\<lparr>cr_records := (case map_of (cr_records r) key of None \<Rightarrow> cr_records r
        | Some e \<Rightarrow> put key (e\<lparr>ce_transport := Some transport\<rparr>) (cr_records r))\<rparr>"

definition activate_channel :: "jsval \<Rightarrow> jsval \<Rightarrow> channel_registry \<Rightarrow> (string \<times> rat) channel_step" where
  "activate_channel ticket who r =
     (if \<not> (is_string ticket \<and> is_token (str_of ticket)) \<or> cr_closed r then (Err ChDenied, r)
      else case sweep_channels r of
        (Err c, r1) \<Rightarrow> (Err c, r1)
      | (Ok u, r1) \<Rightarrow>
         (case find_entry (\<lambda>e. ce_ticket e = str_of ticket \<and> ce_transport e = None) r1 of
            None \<Rightarrow> (Err ChDenied, r1)
          | Some e \<Rightarrow>
             (case admitted e who r1 of
                (False, r2) \<Rightarrow> (Err ChDenied, r2)
              | (True, r2) \<Rightarrow>
                 (case new_secret r2 of
                    (Err c, r3) \<Rightarrow> (Err c, r3)
                  | (Ok transport, r3) \<Rightarrow>
                      if cr_generation r1 \<noteq> cr_generation r3 \<or> cr_closed r3 \<or> \<not> still_there (en_key (ce_data e)) (ce_channel e) r3
                      then (Err ChDenied, r3)
                      else (Ok (transport, en_expires (ce_data e)), set_transport (en_key (ce_data e)) transport r3)))))"

definition resolve_channel :: "jsval \<Rightarrow> jsval \<Rightarrow> channel_registry \<Rightarrow> channel_entry option \<times> channel_registry" where
  "resolve_channel transport who r =
     (if \<not> (is_string transport \<and> is_token (str_of transport)) \<or> cr_closed r then (None, r)
      else case sweep_channels r of
        (Err c, r1) \<Rightarrow> (None, r1)
      | (Ok u, r1) \<Rightarrow>
         (case find_entry (\<lambda>e. ce_transport e = Some (str_of transport)) r1 of
            None \<Rightarrow> (None, r1)
          | Some e \<Rightarrow> (case admitted e who r1 of (okay, r2) \<Rightarrow> (if okay then Some e else None, r2))))"

definition is_current :: "nat \<Rightarrow> channel_registry \<Rightarrow> bool \<times> channel_registry" where
  "is_current channel r =
     (if cr_closed r then (False, r)
      else case find_entry (\<lambda>e. ce_channel e = channel \<and> ce_transport e \<noteq> None) r of
        None \<Rightarrow> (False, r)
      | Some e \<Rightarrow> is_live e r)"

record channel_status =
  cs_closed :: bool
  cs_pending :: nat
  cs_active :: nat
  cs_quarantined :: nat
  cs_capacity :: nat
  cs_issues_remaining :: nat

definition count_entries :: "(channel_entry \<Rightarrow> bool) \<Rightarrow> channel_registry \<Rightarrow> nat" where
  "count_entries P r = length (keys_where P r)"

definition registry_status :: "nat \<Rightarrow> channel_registry \<Rightarrow> channel_status channel_step" where
  "registry_status authority r =
     (if authority \<noteq> cr_authority r then (Err ChDenied, r)
      else let r1 = snd (sweep_channels r) in
        (Ok \<lparr>cs_closed = cr_closed r1, cs_pending = count_entries (\<lambda>e. \<not> ce_revoked e \<and> ce_transport e = None) r1,
             cs_active = count_entries (\<lambda>e. \<not> ce_revoked e \<and> ce_transport e \<noteq> None) r1,
             cs_quarantined = count_entries ce_revoked r1, cs_capacity = cr_max_channels r1,
             cs_issues_remaining = cr_max_issues r1 - cr_issues r1\<rparr>, r1))"

text \<open>A call with the answers the outside gives while it runs.\<close>

datatype channel_op =
    Issue nat jsval
  | Activate jsval jsval
  | Resolve jsval jsval
  | IsCurrent nat
  | RevokeKey nat nat
  | Detach nat nat
  | CloseAll nat
  | Status nat

record channel_answers =
  ca_clock :: "(rat option \<times> owner_call list) list"
  ca_proofs :: "(bool \<times> owner_call list) list"
  ca_acks :: "bool list"
  ca_random :: "string option list"

definition with_answers :: "channel_answers \<Rightarrow> channel_registry \<Rightarrow> channel_registry" where
  "with_answers a r = r\<lparr>cr_clock := ca_clock a, cr_proofs := ca_proofs a, cr_acks := ca_acks a, cr_random := ca_random a\<rparr>"

fun channel_op_step :: "channel_answers \<times> channel_op \<Rightarrow> channel_registry \<Rightarrow> channel_registry" where
  "channel_op_step (a, Issue auth input) r = snd (issue_channel auth input (with_answers a r))"
| "channel_op_step (a, Activate ticket who) r = snd (activate_channel ticket who (with_answers a r))"
| "channel_op_step (a, Resolve transport who) r = snd (resolve_channel transport who (with_answers a r))"
| "channel_op_step (a, IsCurrent ch) r = snd (is_current ch (with_answers a r))"
| "channel_op_step (a, RevokeKey auth key) r = snd (revoke_channel auth key (with_answers a r))"
| "channel_op_step (a, Detach auth inst) r = snd (detach_instance auth inst (with_answers a r))"
| "channel_op_step (a, CloseAll auth) r = snd (close_registry auth (with_answers a r))"
| "channel_op_step (a, Status auth) r = snd (registry_status auth (with_answers a r))"

end
