(* ===== verification/ReadChannelFacts.thy ===== *)
theory ReadChannelFacts
  imports ReadChannels
begin

text \<open>
  What the registry of reading channels promises: its bounds, that nothing revoked comes back, that a ticket
  is exchanged once and a transport secret means one channel for ever, and what a resolved channel has
  passed. The registry is a machine with a lasting order; the operations that only take channels away are
  handled together (\<open>fades\<close>).
\<close>

section \<open>The invariant and the order\<close>

definition tokens_of :: "channel_entry \<Rightarrow> string set" where
  "tokens_of e = insert (ce_ticket e) (set_option (ce_transport e))"

definition entry_fits :: "channel_registry \<Rightarrow> nat \<Rightarrow> channel_entry \<Rightarrow> bool" where
  "entry_fits r k e \<longleftrightarrow> en_key (ce_data e) = k \<and> ce_channel e < cr_next r \<and> tokens_of e \<subseteq> set (cr_secrets r)
     \<and> (ce_revoked e \<longleftrightarrow> k \<in> set (cr_retired r))"

definition entries_apart :: "channel_entry \<Rightarrow> channel_entry \<Rightarrow> bool" where
  "entries_apart e e' \<longleftrightarrow> \<not> overlaps (ce_data e) (ce_data e') \<and> ce_channel e \<noteq> ce_channel e' \<and> tokens_of e \<inter> tokens_of e' = {}"

definition channels_ok :: "channel_registry \<Rightarrow> bool" where
  "channels_ok r \<longleftrightarrow>
     wf_map (cr_records r) \<and> length (cr_records r) \<le> cr_max_channels r \<and> cr_max_channels r \<le> 8
     \<and> cr_issues r \<le> cr_max_issues r \<and> cr_max_issues r \<le> 1024
     \<and> distinct (cr_secrets r) \<and> length (cr_secrets r) \<le> 2 * cr_max_issues r
     \<and> (\<forall>k e. map_of (cr_records r) k = Some e \<longrightarrow> entry_fits r k e)
     \<and> (\<forall>k e k' e'. map_of (cr_records r) k = Some e \<longrightarrow> map_of (cr_records r) k' = Some e' \<longrightarrow> k \<noteq> k' \<longrightarrow> entries_apart e e')"

definition came_from :: "channel_registry \<Rightarrow> channel_entry \<Rightarrow> channel_entry \<Rightarrow> bool" where
  "came_from r e e' \<longleftrightarrow> \<not> ce_revoked e \<and> ce_data e' = ce_data e \<and> ce_ticket e' = ce_ticket e \<and> ce_channel e' = ce_channel e
     \<and> (ce_transport e' = ce_transport e \<or> ce_transport e = None \<and> set_option (ce_transport e') \<inter> set (cr_secrets r) = {})"

definition brand_new :: "channel_registry \<Rightarrow> channel_entry \<Rightarrow> bool" where
  "brand_new r e' \<longleftrightarrow> cr_next r \<le> ce_channel e' \<and> tokens_of e' \<inter> set (cr_secrets r) = {}"

definition channels_age :: "channel_registry \<Rightarrow> channel_registry \<Rightarrow> bool" where
  "channels_age r r' \<longleftrightarrow>
     cr_next r \<le> cr_next r' \<and> set (cr_secrets r) \<subseteq> set (cr_secrets r') \<and> set (cr_retired r) \<subseteq> set (cr_retired r')
     \<and> (cr_closed r \<longrightarrow> cr_closed r')
     \<and> (\<forall>k e'. map_of (cr_records r') k = Some e' \<longrightarrow> \<not> ce_revoked e' \<longrightarrow>
          (\<exists>e. map_of (cr_records r) k = Some e \<and> came_from r e e') \<or> brand_new r e')"

lemma channels_age_refl: "channels_age r r"
  by (auto simp: channels_age_def came_from_def)

lemma channels_age_trans:
  assumes "channels_age r s" and "channels_age s t"
  shows "channels_age r t"
proof -
  have "(\<exists>e. map_of (cr_records r) k = Some e \<and> came_from r e e') \<or> brand_new r e'"
    if e': "map_of (cr_records t) k = Some e'" "\<not> ce_revoked e'" for k e'
  proof (cases "brand_new s e'")
    case True
    then show ?thesis using assms by (auto simp: channels_age_def brand_new_def)
  next
    case False
    then obtain e1 where e1: "map_of (cr_records s) k = Some e1" "came_from s e1 e'"
      using assms(2) e' unfolding channels_age_def by blast
    have sub: "set (cr_secrets r) \<subseteq> set (cr_secrets s)" using assms(1) by (simp add: channels_age_def)
    have "(\<exists>e. map_of (cr_records r) k = Some e \<and> came_from r e e1) \<or> brand_new r e1"
      using assms(1) e1 unfolding channels_age_def came_from_def by blast
    then show ?thesis
    proof (elim disjE exE conjE)
      fix e assume "map_of (cr_records r) k = Some e" "came_from r e e1"
      moreover from this e1(2) sub have "came_from r e e'" by (auto simp: came_from_def)
      ultimately show ?thesis by blast
    next
      assume "brand_new r e1"
      then have "brand_new r e'" using e1(2) sub by (auto simp: came_from_def brand_new_def tokens_of_def)
      then show ?thesis ..
    qed
  qed
  then show ?thesis using assms by (auto simp: channels_age_def)
qed

section \<open>Taking channels away\<close>

definition same_frame :: "channel_registry \<Rightarrow> channel_registry \<Rightarrow> bool" where
  "same_frame r r' \<longleftrightarrow> cr_max_channels r' = cr_max_channels r \<and> cr_max_issues r' = cr_max_issues r \<and> cr_issues r' = cr_issues r
     \<and> cr_next r' = cr_next r \<and> cr_authority r' = cr_authority r \<and> cr_secrets r' = cr_secrets r"

definition retired_matches :: "channel_registry \<Rightarrow> bool" where
  "retired_matches r \<longleftrightarrow> (\<forall>k e. map_of (cr_records r) k = Some e \<longrightarrow> ce_revoked e = (k \<in> set (cr_retired r)))"

definition fades :: "channel_registry \<Rightarrow> channel_registry \<Rightarrow> bool" where
  "fades r r' \<longleftrightarrow>
     same_frame r r' \<and> length (cr_records r') \<le> length (cr_records r) \<and> (wf_map (cr_records r) \<longrightarrow> wf_map (cr_records r'))
     \<and> set (cr_retired r) \<subseteq> set (cr_retired r') \<and> (cr_closed r \<longrightarrow> cr_closed r')
     \<and> (\<forall>k e'. map_of (cr_records r') k = Some e' \<longrightarrow>
          (\<exists>e. map_of (cr_records r) k = Some e \<and> (e' = e \<or> e' = e\<lparr>ce_revoked := True\<rparr>)))
     \<and> (retired_matches r \<longrightarrow> retired_matches r')"

lemma fades_refl [simp]: "fades r r"
  by (simp add: fades_def same_frame_def)

lemma fades_trans: assumes "fades r s" and "fades s t" shows "fades r t"
proof -
  have "\<exists>e. map_of (cr_records r) k = Some e \<and> (e' = e \<or> e' = e\<lparr>ce_revoked := True\<rparr>)" if e': "map_of (cr_records t) k = Some e'" for k e'
  proof -
    obtain e1 where 1: "map_of (cr_records s) k = Some e1" "e' = e1 \<or> e' = e1\<lparr>ce_revoked := True\<rparr>"
      using assms(2) e' unfolding fades_def by blast
    obtain e where 2: "map_of (cr_records r) k = Some e" "e1 = e \<or> e1 = e\<lparr>ce_revoked := True\<rparr>"
      using assms(1) 1(1) unfolding fades_def by blast
    show ?thesis using 1(2) 2 by auto
  qed
  moreover have "set (cr_retired r) \<subseteq> set (cr_retired t)" using assms unfolding fades_def by (meson subset_trans)
  ultimately show ?thesis using assms unfolding fades_def same_frame_def by simp
qed

lemma fades_same:
  assumes "cr_records r' = cr_records r" and "cr_retired r' = cr_retired r" and "same_frame r r'" and "cr_closed r \<longrightarrow> cr_closed r'"
  shows "fades r r'"
  using assms by (auto simp: fades_def retired_matches_def)

lemma tokens_revoked [simp]: "tokens_of (e\<lparr>ce_revoked := b\<rparr>) = tokens_of e"
  by (simp add: tokens_of_def)

lemma fades_ok:
  assumes "channels_ok r" and "fades r r'"
  shows "channels_ok r' \<and> channels_age r r'"
proof -
  have m: "retired_matches r'" using assms by (auto simp: fades_def retired_matches_def channels_ok_def entry_fits_def)
  have from_old: "\<exists>e. map_of (cr_records r) k = Some e \<and> (e' = e \<or> e' = e\<lparr>ce_revoked := True\<rparr>)"
    if "map_of (cr_records r') k = Some e'" for k e'
    using assms(2) that unfolding fades_def by blast
  have frame: "same_frame r r'" using assms(2) by (simp add: fades_def)
  have "entry_fits r' k e'" if e': "map_of (cr_records r') k = Some e'" for k e'
  proof -
    obtain e where e: "map_of (cr_records r) k = Some e" "e' = e \<or> e' = e\<lparr>ce_revoked := True\<rparr>" using from_old [OF e'] by blast
    have "entry_fits r k e" using assms(1) e(1) by (simp add: channels_ok_def)
    moreover have "ce_revoked e' = (k \<in> set (cr_retired r'))" using m e' by (simp add: retired_matches_def)
    ultimately show ?thesis using e(2) frame by (auto simp: entry_fits_def same_frame_def)
  qed
  moreover have "entries_apart e' f'" if two: "map_of (cr_records r') k = Some e'" "map_of (cr_records r') j = Some f'" "k \<noteq> j" for k j e' f'
  proof -
    obtain e f where o: "map_of (cr_records r) k = Some e" "e' = e \<or> e' = e\<lparr>ce_revoked := True\<rparr>"
      "map_of (cr_records r) j = Some f" "f' = f \<or> f' = f\<lparr>ce_revoked := True\<rparr>"
      using from_old [OF two(1)] from_old [OF two(2)] by blast
    have "entries_apart e f" using assms(1) o(1,3) two(3) unfolding channels_ok_def by blast
    then show ?thesis using o(2,4) by (auto simp: entries_apart_def)
  qed
  ultimately have "channels_ok r'"
    using assms frame by (auto simp: channels_ok_def fades_def same_frame_def)
  moreover have "channels_age r r'"
    using assms(2) frame from_old by (fastforce simp: channels_age_def fades_def same_frame_def came_from_def)
  ultimately show ?thesis ..
qed

lemma fades_queues [simp]:
  "fades r (r\<lparr>cr_clock := c\<rparr>)" "fades r (r\<lparr>cr_proofs := p\<rparr>)" "fades r (r\<lparr>cr_acks := a\<rparr>)" "fades r (r\<lparr>cr_random := x\<rparr>)"
  "fades r (r\<lparr>cr_last := l\<rparr>)" "fades r (r\<lparr>cr_closed := True\<rparr>)" "fades r (r\<lparr>cr_generation := g\<rparr>)"
  "fades r (r\<lparr>cr_fault := f, cr_closed := True\<rparr>)" "fades r (with_answers w r)"
  by (auto intro!: fades_same simp: same_frame_def with_answers_def)

lemma fades_advance [simp]: "fades r (advance_generation r)"
  by (simp add: advance_generation_def)

lemma advance_parts [simp]:
  "cr_records (advance_generation r) = cr_records r" "cr_retired (advance_generation r) = cr_retired r"
  by (simp_all add: advance_generation_def)

lemma take_ack_fades: "fades r (snd (take_ack r))"
  by (auto simp: take_ack_def split: list.split)

lemma take_ack_parts [simp]:
  "cr_records (snd (take_ack r)) = cr_records r" "cr_retired (snd (take_ack r)) = cr_retired r"
  by (auto simp: take_ack_def split: list.split)

lemma fades_delete: "fades r (r\<lparr>cr_records := del k (cr_records r)\<rparr>)"
  by (auto simp: fades_def same_frame_def length_del_le retired_matches_def)

lemma fades_revoke:
  assumes "map_of (cr_records r) k = Some e"
  shows "fades r (r\<lparr>cr_records := put k (e\<lparr>ce_revoked := True\<rparr>) (cr_records r), cr_retired := k # cr_retired r\<rparr>)"
  using assms by (auto simp: fades_def same_frame_def length_put map_of_Some_key retired_matches_def)

lemma fades_invalidate: "fades r (invalidate k r)"
proof (cases "map_of (cr_records r) k")
  case (Some e)
  show ?thesis
  proof (cases "ce_revoked e")
    case False
    let ?r = "r\<lparr>cr_records := put k (e\<lparr>ce_revoked := True\<rparr>) (cr_records r), cr_retired := k # cr_retired r\<rparr>"
    have "fades r (advance_generation ?r)" by (rule fades_trans [OF fades_revoke [OF Some] fades_advance])
    then have f: "fades r (snd (take_ack (advance_generation ?r)))" by (rule fades_trans [OF _ take_ack_fades])
    show ?thesis
      using Some False f fades_trans [OF f fades_delete]
      by (cases "take_ack (advance_generation ?r)") (simp add: invalidate_def Let_def)
  qed (use Some in \<open>simp add: invalidate_def\<close>)
qed (simp add: invalidate_def)

lemma fades_invalidate_all: "fades r (invalidate_all ks r)"
  by (induction ks arbitrary: r) (auto intro: fades_trans [OF fades_invalidate])

lemma fades_fail_clock: "fades r (fail_clock r)"
  by (auto simp: fail_clock_def Let_def intro!: fades_trans [OF _ fades_invalidate_all] fades_trans [OF _ fades_advance])

lemma fades_owner_calls:
  "fades r (snd (revoke_channel a k r))" "fades r (snd (detach_instance a i r))" "fades r (snd (close_registry a r))"
  by (auto simp: revoke_channel_def detach_instance_def close_registry_def Let_def
      intro!: fades_trans [OF _ fades_invalidate_all] fades_trans [OF _ fades_invalidate] fades_trans [OF _ fades_advance]
      split: option.split)

lemma fades_called_back: "fades r (called_back cs r)"
  by (induction cs r rule: called_back.induct) (auto intro: fades_trans [OF fades_owner_calls(1)] fades_trans [OF fades_owner_calls(2)]
      fades_trans [OF fades_owner_calls(3)] fades_trans [OF fades_fail_clock])

lemma fades_read_clock: "fades r (snd (read_clock r))"
proof (cases "cr_clock r")
  case Nil
  then show ?thesis by (simp add: read_clock_def fades_fail_clock)
next
  case (Cons c rest)
  obtain reading calls where c: "c = (reading, calls)" by force
  have f: "fades r (called_back calls (r\<lparr>cr_clock := rest\<rparr>))" by (rule fades_trans [OF _ fades_called_back]) simp
  show ?thesis
    using Cons c f fades_trans [OF f fades_fail_clock] fades_trans [OF f fades_queues(5)]
    by (auto simp: read_clock_def Let_def split: option.split)
qed

lemma fades_sweep: "fades r (snd (sweep_channels r))"
  using fades_read_clock [of r]
  by (cases "read_clock r") (auto simp: sweep_channels_def split: sum.split intro!: fades_trans [OF _ fades_invalidate_all])

lemma fades_proof: "fades r (snd (ask_proof r))"
  by (auto simp: ask_proof_def split: list.split intro!: fades_trans [OF _ fades_called_back])

lemma fades_live_check: "fades r (snd (snd (live_check e r)))"
proof -
  obtain t1 r1 where c1: "read_clock r = (t1, r1)" by force
  obtain p r2 where p: "ask_proof r1 = (p, r2)" by force
  obtain t3 r3 where c3: "read_clock r2 = (t3, r3)" by force
  have f1: "fades r r1" using fades_read_clock [of r] c1 by simp
  have f2: "fades r r2" using fades_trans [OF f1, of r2] fades_proof [of r1] p by simp
  have f3: "fades r r3" using fades_trans [OF f2, of r3] fades_read_clock [of r2] c3 by simp
  show ?thesis using f1 f2 f3 c1 p c3 by (auto simp: live_check_def Let_def split: sum.split bool.split)
qed

lemma fades_live: "fades r (snd (is_live e r))"
proof -
  obtain o' i r1 where l: "live_check e r = (o', i, r1)" by (metis prod_cases3)
  have "fades r r1" using fades_live_check [of r e] l by simp
  then show ?thesis using l fades_trans [OF _ fades_invalidate] by (auto simp: is_live_def)
qed

lemma fades_fence: "fades r (snd (fence e g r))"
  using fades_read_clock [of r] by (cases "read_clock r") (auto simp: fence_def split: sum.split)

lemma fades_admitted: "fades r (snd (admitted e who r))"
proof -
  obtain o' r1 where l: "is_live e r = (o', r1)" by force
  have "fades r r1" using fades_live [of r e] l by simp
  then show ?thesis using l fades_trans [OF _ fades_fence] by (auto simp: admitted_def split: bool.split)
qed

section \<open>Giving out secrets and channels\<close>

definition moves :: "channel_registry \<Rightarrow> channel_registry \<Rightarrow> bool" where
  "moves r r' \<longleftrightarrow> (channels_ok r \<longrightarrow> channels_ok r' \<and> channels_age r r')"

lemma moves_refl: "moves r r"
  by (simp add: moves_def channels_age_refl)

lemma moves_trans: "moves r s \<Longrightarrow> moves s t \<Longrightarrow> moves r t"
  using channels_age_trans unfolding moves_def by blast

lemma fades_moves: "fades r r' \<Longrightarrow> moves r r'"
  using fades_ok by (simp add: moves_def)

lemma new_secret_Ok:
  assumes "new_secret r = (Ok t, r')"
  shows "t \<notin> set (cr_secrets r) \<and> length (cr_secrets r) < 2 * cr_max_issues r \<and> is_token t
    \<and> r' = r\<lparr>cr_random := tl (cr_random r), cr_secrets := t # cr_secrets r\<rparr>"
  using assms by (auto simp: new_secret_def split: if_splits list.splits option.splits)

lemma new_secret_Err: "new_secret r = (Err c, r') \<Longrightarrow> fades r r'"
  by (auto simp: new_secret_def split: if_splits list.splits option.splits)

lemma secret_moves: "moves r (snd (new_secret r))"
proof (cases "new_secret r")
  case (Pair a r')
  show ?thesis
  proof (cases a)
    case (Inl c)
    then show ?thesis using new_secret_Err Pair fades_moves by simp
  next
    case (Inr t)
    note n = new_secret_Ok [OF Pair [unfolded Inr]]
    have "channels_ok r' \<and> channels_age r r'" if ok: "channels_ok r"
      using ok n by (auto simp: channels_ok_def entry_fits_def channels_age_def came_from_def Suc_le_eq)
    then show ?thesis using Pair by (simp add: moves_def)
  qed
qed

lemma overlaps_sym: "overlaps a b \<longleftrightarrow> overlaps b a"
  unfolding overlaps_def list_ex_iff by metis

lemma add_channel_moves:
  assumes "new_secret r = (Ok t, r')"
    and "length (cr_records r) < cr_max_channels r" and "cr_issues r < cr_max_issues r"
    and "map_of (cr_records r) (en_key data) = None" and "en_key data \<notin> set (cr_retired r)"
    and apart: "\<And>k e. map_of (cr_records r) k = Some e \<Longrightarrow> \<not> overlaps (ce_data e) data"
  shows "moves r (add_channel data t r')"
proof -
  note n = new_secret_Ok [OF assms(1)]
  let ?e = "\<lparr>ce_data = data, ce_ticket = t, ce_channel = cr_next r, ce_transport = None, ce_revoked = False\<rparr>"
  let ?s = "add_channel data t r'"
  have rec: "cr_records ?s = put (en_key data) ?e (cr_records r)" and parts: "cr_next ?s = Suc (cr_next r)"
    "cr_secrets ?s = t # cr_secrets r" "cr_retired ?s = cr_retired r" "cr_issues ?s = Suc (cr_issues r)"
    "cr_max_issues ?s = cr_max_issues r" "cr_max_channels ?s = cr_max_channels r" "cr_closed ?s = cr_closed r"
    using n by (simp_all add: add_channel_def)
  have n1: "t \<notin> set (cr_secrets r)" "length (cr_secrets r) < 2 * cr_max_issues r" using n by simp_all
  have "channels_ok ?s \<and> channels_age r ?s" if ok: "channels_ok r"
  proof
    have fits: "entry_fits r k e" if "map_of (cr_records r) k = Some e" for k e using ok that by (simp add: channels_ok_def)
    have new: "entries_apart ?e e" "entries_apart e ?e" if "map_of (cr_records r) k = Some e" for k e
      using fits [OF that] apart [OF that] n overlaps_sym by (auto simp: entries_apart_def entry_fits_def tokens_of_def)
    have "entry_fits ?s k e" if "map_of (cr_records ?s) k = Some e" for k e
      using that fits [of k e] assms(5) unfolding rec by (auto simp: entry_fits_def parts tokens_of_def split: if_splits)
    moreover have "entries_apart e e'" if two: "map_of (cr_records ?s) k = Some e" "map_of (cr_records ?s) k' = Some e'" "k \<noteq> k'" for k k' e e'
    proof -
      have "entries_apart e e'" if "map_of (cr_records r) k = Some e" "map_of (cr_records r) k' = Some e'"
        using ok that two(3) unfolding channels_ok_def by blast
      then show ?thesis using two new unfolding rec by (auto split: if_splits)
    qed
    moreover have "wf_map (cr_records ?s)" "length (cr_records ?s) = Suc (length (cr_records r))"
      using ok assms(4) by (simp_all add: rec channels_ok_def length_put map_of_None_iff)
    ultimately show "channels_ok ?s"
      using ok n1 assms(2,3) unfolding channels_ok_def by (simp add: parts Suc_le_eq)
    show "channels_age r ?s"
      unfolding channels_age_def rec parts using n1 by (auto simp: came_from_def brand_new_def tokens_of_def split: if_splits)
  qed
  then show ?thesis by (simp add: moves_def)
qed

lemma set_transport_moves:
  assumes "new_secret r = (Ok t, r')" and "map_of (cr_records r) key = Some e" and "ce_transport e = None"
  shows "moves r (set_transport key t r')"
proof -
  note n = new_secret_Ok [OF assms(1)]
  let ?e = "e\<lparr>ce_transport := Some t\<rparr>"
  let ?s = "set_transport key t r'"
  have rec: "cr_records ?s = put key ?e (cr_records r)" and parts: "cr_next ?s = cr_next r"
    "cr_secrets ?s = t # cr_secrets r" "cr_retired ?s = cr_retired r" "cr_issues ?s = cr_issues r"
    "cr_max_issues ?s = cr_max_issues r" "cr_max_channels ?s = cr_max_channels r" "cr_closed ?s = cr_closed r"
    using n assms(2) by (simp_all add: set_transport_def)
  have n1: "t \<notin> set (cr_secrets r)" "length (cr_secrets r) < 2 * cr_max_issues r" using n by simp_all
  have tok: "tokens_of ?e = insert t (tokens_of e)" using assms(3) by (auto simp: tokens_of_def)
  have "channels_ok ?s \<and> channels_age r ?s" if ok: "channels_ok r"
  proof
    have fits: "entry_fits r k e'" if "map_of (cr_records r) k = Some e'" for k e' using ok that by (simp add: channels_ok_def)
    have "entry_fits ?s k e'" if "map_of (cr_records ?s) k = Some e'" for k e'
      using that fits [of k e'] fits [OF assms(2)] tok unfolding rec by (auto simp: entry_fits_def parts split: if_splits)
    moreover have "entries_apart f f'" if two: "map_of (cr_records ?s) k = Some f" "map_of (cr_records ?s) k' = Some f'" "k \<noteq> k'" for k k' f f'
    proof -
      have old: "entries_apart g g'" if "map_of (cr_records r) k = Some g" "map_of (cr_records r) k' = Some g'" for g g'
        using ok that two(3) unfolding channels_ok_def by blast
      have fresh: "t \<notin> tokens_of g" if "map_of (cr_records r) j = Some g" for j g
        using fits [OF that] n by (auto simp: entry_fits_def)
      show ?thesis
        using two old fresh assms(2) tok unfolding rec by (auto simp: entries_apart_def split: if_splits)
    qed
    moreover have "wf_map (cr_records ?s)" "length (cr_records ?s) = length (cr_records r)"
      using ok assms(2) by (simp_all add: rec channels_ok_def length_put map_of_Some_key)
    ultimately show "channels_ok ?s"
      using ok n1 unfolding channels_ok_def by (simp add: parts Suc_le_eq)
    show "channels_age r ?s"
      unfolding channels_age_def rec parts using n1 assms(2,3) by (auto simp: came_from_def split: if_splits)
  qed
  then show ?thesis by (simp add: moves_def)
qed

section \<open>The operations\<close>

lemma fades_lacks: "fades r s \<Longrightarrow> map_of (cr_records r) k = None \<Longrightarrow> map_of (cr_records s) k = None"
  unfolding fades_def by (metis not_None_eq)

lemma fades_entry:
  "fades r s \<Longrightarrow> map_of (cr_records s) k = Some e' \<Longrightarrow> \<exists>e. map_of (cr_records r) k = Some e \<and> (e' = e \<or> e' = e\<lparr>ce_revoked := True\<rparr>)"
  unfolding fades_def by blast

lemma issue_new_moves:
  assumes "map_of (cr_records r) (en_key data) = None"
  shows "moves r (snd (issue_new data g r))"
proof -
  obtain p r1 where p: "ask_proof r = (p, r1)" by force
  obtain c r2 where c: "read_clock r1 = (c, r2)" by force
  obtain t r3 where t: "new_secret r2 = (t, r3)" by force
  have f1: "fades r r1" using fades_proof [of r] p by simp
  have f2: "fades r r2" using fades_trans [OF f1] fades_read_clock [of r1] c by simp
  have m3: "moves r r3" using moves_trans [OF fades_moves [OF f2]] secret_moves [of r2] t by simp
  have grown: "moves r (add_channel data tk r3)"
    if tk: "t = Ok tk" and room: "length (cr_records r) < cr_max_channels r" "cr_issues r < cr_max_issues r"
      and apart: "\<not> list_ex (\<lambda>(k, e). overlaps (ce_data e) data) (cr_records r)" and fresh: "en_key data \<notin> set (cr_retired r3)" for tk
  proof (rule moves_trans [OF fades_moves [OF f2] add_channel_moves [OF t [unfolded tk]]])
    show "length (cr_records r2) < cr_max_channels r2" "cr_issues r2 < cr_max_issues r2"
      using f2 room by (auto simp: fades_def same_frame_def)
    show "map_of (cr_records r2) (en_key data) = None" by (rule fades_lacks [OF f2 assms])
    show "en_key data \<notin> set (cr_retired r2)" using fresh new_secret_Ok [OF t [unfolded tk]] by simp
    show "\<not> overlaps (ce_data e) data" if e: "map_of (cr_records r2) k = Some e" for k e
    proof -
      obtain e0 where "map_of (cr_records r) k = Some e0" "ce_data e = ce_data e0" using fades_entry [OF f2 e] by auto
      then show ?thesis using apart map_of_SomeD [of "cr_records r" k e0] by (auto simp: list_ex_iff)
    qed
  qed
  show ?thesis
  proof (cases "cr_max_channels r \<le> length (cr_records r) \<or> cr_max_issues r \<le> cr_issues r
      \<or> list_ex (\<lambda>(k, e). overlaps (ce_data e) data) (cr_records r)")
    case True
    then show ?thesis by (auto simp: issue_new_def moves_refl)
  next
    case False
    then show ?thesis
      using p c t fades_moves [OF f1] fades_moves [OF f2] m3 grown
      by (auto simp: issue_new_def split: bool.split sum.split)
  qed
qed

lemma issue_moves: "moves r (snd (issue_channel a input r))"
proof -
  obtain u r1 where s: "sweep_channels r = (u, r1)" by force
  obtain c r2 where c: "read_clock r1 = (c, r2)" by force
  have f1: "fades r r1" using fades_sweep [of r] s by simp
  have f2: "fades r r2" using fades_trans [OF f1] fades_read_clock [of r1] c by simp
  have known: "moves r (snd (is_live e r2))" for e by (rule fades_moves [OF fades_trans [OF f2 fades_live]])
  have fresh: "moves r (snd (issue_new data g r2))" if "map_of (cr_records r2) (en_key data) = None" for data g
    by (rule moves_trans [OF fades_moves [OF f2] issue_new_moves [OF that]])
  show ?thesis
    using s c fades_moves [OF f1] fades_moves [OF f2] known fresh moves_refl
    by (auto simp: issue_channel_def split: sum.split option.split prod.split_asm prod.split) (metis snd_conv)+
qed

lemma activate_moves: "moves r (snd (activate_channel ticket who r))"
proof -
  obtain u r1 where s: "sweep_channels r = (u, r1)" by force
  have f1: "fades r r1" using fades_sweep [of r] s by simp
  have inner: "moves r (snd (case admitted e who r1 of
       (False, r2) \<Rightarrow> (Err ChDenied, r2)
     | (True, r2) \<Rightarrow> (case new_secret r2 of
          (Err c, r3) \<Rightarrow> (Err c, r3)
        | (Ok transport, r3) \<Rightarrow>
            if cr_generation r1 \<noteq> cr_generation r3 \<or> cr_closed r3 \<or> \<not> still_there (en_key (ce_data e)) (ce_channel e) r3
            then (Err ChDenied, r3)
            else (Ok (transport, en_expires (ce_data e)), set_transport (en_key (ce_data e)) transport r3))))" (is ?goal)
    if e: "find_entry (\<lambda>e. ce_ticket e = str_of ticket \<and> ce_transport e = None) r1 = Some e" and ok: "channels_ok r" for e
  proof -
    obtain o' r2 where a: "admitted e who r1 = (o', r2)" by force
    obtain t r3 where t: "new_secret r2 = (t, r3)" by force
    have f12: "fades r1 r2" using fades_admitted [of r1 e who] a by simp
    have f2: "fades r r2" by (rule fades_trans [OF f1 f12])
    have m3: "moves r r3" using moves_trans [OF fades_moves [OF f2]] secret_moves [of r2] t by simp
    have e1: "e \<in> snd ` set (cr_records r1)" "ce_transport e = None"
      using e by (auto simp: find_entry_def find_Some_iff set_conv_nth)
    have ok1: "channels_ok r1" using fades_ok [OF ok f1] by simp
    then obtain k where k: "map_of (cr_records r1) k = Some e" using e1(1) by (auto simp: channels_ok_def map_of_mem_iff)
    then have ke: "en_key (ce_data e) = k" using ok1 by (simp add: channels_ok_def entry_fits_def)
    have grown: "moves r (set_transport k tk r3)"
      if tk: "t = Ok tk" and there: "still_there k (ce_channel e) r3" for tk
    proof -
      have "cr_records r3 = cr_records r2" using new_secret_Ok [OF t [unfolded tk]] by simp
      then obtain e2 where e2: "map_of (cr_records r2) k = Some e2" "\<not> ce_revoked e2"
        using there by (auto simp: still_there_def split: option.splits)
      then have "e2 = e" using fades_entry [OF f12 e2(1)] k by auto
      then show ?thesis using moves_trans [OF fades_moves [OF f2] set_transport_moves [OF t [unfolded tk] e2(1)]] e1(2) by simp
    qed
    show ?goal
      using a t fades_moves [OF f2] m3 grown ke by (auto split: bool.split sum.split)
  qed
  show ?thesis
  proof (cases "channels_ok r")
    case True
    then show ?thesis
      using s fades_moves [OF f1] inner moves_refl by (auto simp: activate_channel_def split: sum.split option.split)
  qed (simp add: moves_def)
qed

lemma resolve_moves: "moves r (snd (resolve_channel transport who r))"
proof -
  obtain u r1 where s: "sweep_channels r = (u, r1)" by force
  have f1: "fades r r1" using fades_sweep [of r] s by simp
  have "moves r (snd (case admitted e who r1 of (okay, r2) \<Rightarrow> (if okay then Some e else None, r2)))" for e
    using fades_moves [OF fades_trans [OF f1 fades_admitted]] by (auto split: prod.split) (metis snd_conv)
  then show ?thesis
    using s fades_moves [OF f1] moves_refl by (auto simp: resolve_channel_def split: sum.split option.split)
qed

lemma channel_op_moves: "moves r (channel_op_step op r)"
proof -
  obtain a o' where op: "op = (a, o')" by force
  have w: "moves r (with_answers a r)" by (rule fades_moves) simp
  have current: "moves s (snd (is_current ch s))" for ch s
    using fades_moves [OF fades_live] moves_refl by (auto simp: is_current_def split: option.split)
  have stat: "moves s (snd (registry_status au s))" for au s
    using fades_moves [OF fades_sweep] moves_refl by (auto simp: registry_status_def Let_def)
  show ?thesis
    unfolding op
    by (cases o')
      (simp_all add: moves_trans [OF w issue_moves] moves_trans [OF w activate_moves] moves_trans [OF w resolve_moves]
        moves_trans [OF w current] moves_trans [OF w stat] moves_trans [OF w fades_moves [OF fades_owner_calls(1)]]
        moves_trans [OF w fades_moves [OF fades_owner_calls(2)]] moves_trans [OF w fades_moves [OF fades_owner_calls(3)]])
qed

section \<open>What lasts\<close>

datatype channel_fact = ChannelOver nat | KeyRetired nat | TransportOf string string | TicketSpent string

fun fact_holds :: "channel_fact \<Rightarrow> channel_registry \<Rightarrow> bool" where
  "fact_holds (ChannelOver ch) r \<longleftrightarrow> ch < cr_next r \<and> (\<forall>k e. map_of (cr_records r) k = Some e \<longrightarrow> ce_channel e = ch \<longrightarrow> ce_revoked e)"
| "fact_holds (KeyRetired key) r \<longleftrightarrow> key \<in> set (cr_retired r)"
| "fact_holds (TransportOf t ticket) r \<longleftrightarrow> t \<in> set (cr_secrets r)
     \<and> (\<forall>k e. map_of (cr_records r) k = Some e \<longrightarrow> \<not> ce_revoked e \<longrightarrow> ce_transport e = Some t \<longrightarrow> ce_ticket e = ticket)"
| "fact_holds (TicketSpent ticket) r \<longleftrightarrow> ticket \<in> set (cr_secrets r)
     \<and> (\<forall>k e. map_of (cr_records r) k = Some e \<longrightarrow> \<not> ce_revoked e \<longrightarrow> ce_ticket e = ticket \<longrightarrow> ce_transport e \<noteq> None)"

lemma came_from_cases:
  assumes "channels_age r s" and "map_of (cr_records s) k = Some e'" and "\<not> ce_revoked e'"
  obtains (old) e where "map_of (cr_records r) k = Some e" "came_from r e e'" | (young) "brand_new r e'"
  using assms unfolding channels_age_def by blast

lemma fact_lasts:
  assumes "fact_holds h r" and "channels_age r s"
  shows "fact_holds h s"
proof (cases h)
  case (ChannelOver ch)
  have "ce_revoked e'" if e': "map_of (cr_records s) k = Some e'" "ce_channel e' = ch" for k e'
  proof (rule ccontr)
    assume "\<not> ce_revoked e'"
    from assms(2) e'(1) this show False
      by (cases rule: came_from_cases) (use assms(1) ChannelOver e'(2) in \<open>auto simp: came_from_def brand_new_def\<close>)
  qed
  then show ?thesis using assms ChannelOver by (auto simp: channels_age_def)
next
  case (KeyRetired key)
  then show ?thesis using assms by (auto simp: channels_age_def)
next
  case (TransportOf t ticket)
  have "ce_ticket e' = ticket" if e': "map_of (cr_records s) k = Some e'" "ce_transport e' = Some t" "\<not> ce_revoked e'" for k e'
    using assms(2) e'(1,3)
    by (cases rule: came_from_cases) (use assms(1) TransportOf e'(2) in \<open>auto simp: came_from_def brand_new_def tokens_of_def\<close>)
  then show ?thesis using assms TransportOf by (auto simp: channels_age_def)
next
  case (TicketSpent ticket)
  have "ce_transport e' \<noteq> None" if e': "map_of (cr_records s) k = Some e'" "ce_ticket e' = ticket" "\<not> ce_revoked e'" for k e'
    using assms(2) e'(1,3)
  proof (cases rule: came_from_cases)
    case (old e)
    have "ce_ticket e = ticket" "\<not> ce_revoked e" using old(2) e'(2) by (simp_all add: came_from_def)
    then have "ce_transport e \<noteq> None" using old(1) assms(1) TicketSpent by auto
    then show ?thesis using old(2) by (auto simp: came_from_def)
  qed (use assms(1) TicketSpent e'(2) in \<open>auto simp: brand_new_def tokens_of_def\<close>)
  then show ?thesis using assms TicketSpent by (auto simp: channels_age_def)
qed

interpretation channels: aging_machine channel_op_step channels_ok channels_age fact_holds
proof
  show "channels_ok r \<Longrightarrow> channels_ok (channel_op_step op r)" "channels_ok r \<Longrightarrow> channels_age r (channel_op_step op r)" for op r
    using channel_op_moves [of r op] by (simp_all add: moves_def)
  show "channels_age r r" for r by (rule channels_age_refl)
  show "channels_age r s \<Longrightarrow> channels_age s t \<Longrightarrow> channels_age r t" for r s t by (rule channels_age_trans)
  show "fact_holds h r \<Longrightarrow> channels_ok r \<Longrightarrow> channels_age r s \<Longrightarrow> fact_holds h s" for h r s by (rule fact_lasts)
qed

lemma capped_bound: "capped fs k most = Inr n \<Longrightarrow> n \<le> most"
  by (auto simp: capped_def Let_def split: if_splits)

lemma new_registry_ok: "new_channel_registry options = Inr r \<Longrightarrow> channels_ok r"
  by (auto simp: new_channel_registry_def and_then_Ok_iff channels_ok_def dest!: capped_bound split: option.splits if_splits)

lemma answers_ok [simp]: "channels_ok (with_answers a r) = channels_ok r" "fact_holds h (with_answers a r) = fact_holds h r"
proof -
  show "channels_ok (with_answers a r) = channels_ok r"
    by (auto simp: channels_ok_def with_answers_def entry_fits_def)
  show "fact_holds h (with_answers a r) = fact_holds h r" by (cases h) (simp_all add: with_answers_def)
qed

text \<open>
  The registry keeps its limits through every sequence of calls, whatever the clock, the verifier, the
  callbacks and the random generator answer and call back: at most eight channels, 1,024 enrollments and
  2,048 secrets in its life, and two channels never share an instance, a view, a channel object or a secret.
\<close>

theorem read_channels_are_bounded:
  assumes "new_channel_registry options = Inr r"
  shows "length (cr_records (run channel_op_step ops r)) \<le> 8 \<and> cr_issues (run channel_op_step ops r) \<le> 1024
    \<and> length (cr_secrets (run channel_op_step ops r)) \<le> 2048 \<and> distinct (cr_secrets (run channel_op_step ops r))
    \<and> (\<forall>k e k' e'. map_of (cr_records (run channel_op_step ops r)) k = Some e \<longrightarrow>
         map_of (cr_records (run channel_op_step ops r)) k' = Some e' \<longrightarrow> k \<noteq> k' \<longrightarrow> entries_apart e e')"
  using channels.run_inv [OF new_registry_ok [OF assms], of ops] unfolding channels_ok_def by auto

section \<open>A live channel has passed every check\<close>

lemma proofs_kept [simp]:
  "cr_proofs (advance_generation r) = cr_proofs r" "cr_proofs (snd (take_ack r)) = cr_proofs r" "cr_proofs (invalidate k r) = cr_proofs r"
proof -
  show a: "cr_proofs (advance_generation r) = cr_proofs r" for r by (simp add: advance_generation_def)
  show t: "cr_proofs (snd (take_ack r)) = cr_proofs r" for r by (auto simp: take_ack_def split: list.split)
  show "cr_proofs (invalidate k r) = cr_proofs r"
  proof (cases "map_of (cr_records r) k")
    case (Some e)
    let ?r = "advance_generation (r\<lparr>cr_records := put k (e\<lparr>ce_revoked := True\<rparr>) (cr_records r), cr_retired := k # cr_retired r\<rparr>)"
    obtain b r2 where "take_ack ?r = (b, r2)" by force
    then show ?thesis using Some t [of ?r] a by (auto simp: invalidate_def Let_def)
  qed (simp add: invalidate_def)
qed

lemma proofs_kept_all [simp]: "cr_proofs (invalidate_all ks r) = cr_proofs r"
  by (induction ks arbitrary: r) auto

lemma proofs_kept_calls [simp]:
  "cr_proofs (fail_clock r) = cr_proofs r" "cr_proofs (snd (revoke_channel a k r)) = cr_proofs r"
  "cr_proofs (snd (detach_instance a i r)) = cr_proofs r" "cr_proofs (snd (close_registry a r)) = cr_proofs r"
  by (auto simp: fail_clock_def revoke_channel_def detach_instance_def close_registry_def Let_def split: option.split)

lemma proofs_kept_back [simp]: "cr_proofs (called_back cs r) = cr_proofs r"
  by (induction cs r rule: called_back.induct) auto

lemma proofs_kept_clock [simp]: "cr_proofs (snd (read_clock r)) = cr_proofs r"
  by (auto simp: read_clock_def Let_def split: list.split option.split)

lemma proofs_kept_sweep [simp]: "cr_proofs (snd (sweep_channels r)) = cr_proofs r"
  using proofs_kept_clock [of r] by (cases "read_clock r") (auto simp: sweep_channels_def split: sum.split)

lemma read_clock_Ok: "read_clock r = (Ok now, r') \<Longrightarrow> cr_last r' = Some now"
  by (auto simp: read_clock_def Let_def split: if_splits list.splits option.splits)

lemma is_live_True:
  assumes "is_live e r = (True, r')"
  shows "still_there (en_key (ce_data e)) (ce_channel e) r' \<and> \<not> cr_closed r'
    \<and> (\<exists>now. cr_last r' = Some now \<and> now < en_expires (ce_data e)) \<and> (\<exists>calls rest. cr_proofs r = (True, calls) # rest)"
proof -
  obtain i r1 where l: "live_check e r = (True, i, r1)" "r' = (if i \<and> still_there (en_key (ce_data e)) (ce_channel e) r1 then invalidate (en_key (ce_data e)) r1 else r1)"
    using assms by (cases "live_check e r") (auto simp: is_live_def)
  obtain b s1 s2 a where c: "read_clock r = (Ok b, s1)" "ask_proof s1 = (True, s2)" "read_clock s2 = (Ok a, r1)"
    "\<not> en_expires (ce_data e) \<le> a" "\<not> cr_closed r1" "still_there (en_key (ce_data e)) (ce_channel e) r1" "\<not> i"
    using l(1) by (auto simp: live_check_def Let_def split: prod.splits sum.splits bool.splits if_splits)
  have "cr_proofs s1 = cr_proofs r" using proofs_kept_clock [of r] c(1) by simp
  then have "\<exists>calls rest. cr_proofs r = (True, calls) # rest"
    using c(2) by (auto simp: ask_proof_def split: list.splits)
  then show ?thesis using l(2) c read_clock_Ok [OF c(3)] by simp
qed

lemma admitted_True:
  assumes "admitted e who r = (True, r')"
  shows "caller_matches e who \<and> still_there (en_key (ce_data e)) (ce_channel e) r' \<and> \<not> cr_closed r'
    \<and> (\<exists>now. cr_last r' = Some now \<and> now < en_expires (ce_data e)) \<and> (\<exists>calls rest. cr_proofs r = (True, calls) # rest)"
proof -
  obtain r1 where a: "caller_matches e who" "is_live e r = (True, r1)" "fence e (cr_generation r) r1 = (True, r')"
    using assms by (auto simp: admitted_def split: if_splits prod.splits bool.splits)
  have "still_there (en_key (ce_data e)) (ce_channel e) r' \<and> \<not> cr_closed r' \<and> (\<exists>now. cr_last r' = Some now \<and> now < en_expires (ce_data e))"
    using a(3) read_clock_Ok by (auto simp: fence_def split: prod.splits sum.splits)
  then show ?thesis using a(1) is_live_True [OF a(2)] by blast
qed

lemma found_entry:
  assumes "channels_ok r" and "find_entry P r = Some e"
  shows "P e \<and> map_of (cr_records r) (en_key (ce_data e)) = Some e"
proof -
  have "P e" "e \<in> snd ` set (cr_records r)" using assms(2) by (auto simp: find_entry_def find_Some_iff set_conv_nth)
  then obtain k where "map_of (cr_records r) k = Some e" using assms(1) by (auto simp: channels_ok_def map_of_mem_iff)
  moreover from this have "en_key (ce_data e) = k" using assms(1) by (simp add: channels_ok_def entry_fits_def)
  ultimately show ?thesis using \<open>P e\<close> by simp
qed

lemma still_the_same:
  assumes "fades r s" and "map_of (cr_records r) k = Some e" and "still_there k ch s"
  shows "map_of (cr_records s) k = Some e \<and> \<not> ce_revoked e \<and> ce_channel e = ch"
proof -
  obtain e' where e': "map_of (cr_records s) k = Some e'" "ce_channel e' = ch" "\<not> ce_revoked e'"
    using assms(3) by (auto simp: still_there_def split: option.splits)
  then show ?thesis using fades_entry [OF assms(1) e'(1)] assms(2) by auto
qed

lemma resolve_Some:
  assumes "channels_ok r" and "resolve_channel transport who r = (Some e, r')"
  shows "caller_matches e who \<and> ce_transport e = Some (str_of transport)
    \<and> map_of (cr_records r') (en_key (ce_data e)) = Some e \<and> \<not> ce_revoked e \<and> \<not> cr_closed r'
    \<and> (\<exists>now. cr_last r' = Some now \<and> now < en_expires (ce_data e)) \<and> (\<exists>calls rest. cr_proofs r = (True, calls) # rest)"
proof -
  obtain u r1 where s: "sweep_channels r = (Ok u, r1)" "find_entry (\<lambda>e. ce_transport e = Some (str_of transport)) r1 = Some e"
    "admitted e who r1 = (True, r')"
    using assms(2) by (auto simp: resolve_channel_def split: if_splits prod.splits sum.splits option.splits)
  have f: "fades r r1" using fades_sweep [of r] s(1) by simp
  have ok: "channels_ok r1" using fades_ok [OF assms(1) f] by simp
  note e = found_entry [OF ok s(2)]
  have "fades r1 r'" using fades_admitted [of r1 e who] s(3) by simp
  moreover have "cr_proofs r1 = cr_proofs r" using proofs_kept_sweep [of r] s(1) by simp
  ultimately show ?thesis
    using admitted_True [OF s(3)] still_the_same [OF _ conjunct2 [OF e]] e by auto
qed

text \<open>
  A secret opens a channel only after every check: the channel resolved is the one of this very
  transport, its caller is the enrolled conversation on the enrolled process, the verifier confirmed the
  process in this call, and the entry is neither revoked nor expired at the last reading of the clock.
\<close>

theorem resolved_channel_is_checked:
  assumes "new_channel_registry options = Inr r0"
    and "resolve_channel transport who (with_answers a (run channel_op_step ops r0)) = (Some e, r')"
  shows "caller_matches e who \<and> ce_transport e = Some (str_of transport)
    \<and> map_of (cr_records r') (en_key (ce_data e)) = Some e \<and> \<not> ce_revoked e \<and> \<not> cr_closed r'
    \<and> (\<exists>now. cr_last r' = Some now \<and> now < en_expires (ce_data e)) \<and> (\<exists>calls rest. ca_proofs a = (True, calls) # rest)"
proof -
  have "channels_ok (with_answers a (run channel_op_step ops r0))"
    using channels.run_inv [OF new_registry_ok [OF assms(1)]] by simp
  from resolve_Some [OF this assms(2)] show ?thesis by (simp add: with_answers_def)
qed

section \<open>Revocation is final\<close>

lemma invalidate_gone: "map_of (cr_records (invalidate k r)) k = Some e \<Longrightarrow> ce_revoked e"
proof (cases "map_of (cr_records r) k")
  case (Some e0)
  assume e: "map_of (cr_records (invalidate k r)) k = Some e"
  show "ce_revoked e"
  proof (cases "ce_revoked e0")
    case True
    then show ?thesis using e Some by (simp add: invalidate_def)
  next
    case False
    let ?r = "advance_generation (r\<lparr>cr_records := put k (e0\<lparr>ce_revoked := True\<rparr>) (cr_records r), cr_retired := k # cr_retired r\<rparr>)"
    obtain b r2 where t: "take_ack ?r = (b, r2)" by force
    have "cr_records r2 = put k (e0\<lparr>ce_revoked := True\<rparr>) (cr_records r)" using take_ack_parts(1) [of ?r] t by simp
    then show ?thesis using e Some False t by (auto simp: invalidate_def Let_def split: if_splits)
  qed
qed (simp add: invalidate_def)

lemma fades_gone:
  assumes "fades r s" and "\<And>e. map_of (cr_records r) k = Some e \<Longrightarrow> ce_revoked e" and "map_of (cr_records s) k = Some e'"
  shows "ce_revoked e'"
  using fades_entry [OF assms(1,3)] assms(2) by auto

lemma invalidate_all_gone: "k \<in> set ks \<Longrightarrow> map_of (cr_records (invalidate_all ks r)) k = Some e \<Longrightarrow> ce_revoked e"
proof (induction ks arbitrary: r)
  case (Cons j ks)
  show ?case
  proof (cases "j = k")
    case True
    show ?thesis
      by (rule fades_gone [OF fades_invalidate_all [of "invalidate k r"] invalidate_gone]) (use Cons.prems(2) True in auto)
  next
    case False
    then show ?thesis using Cons by simp
  qed
qed simp

text \<open>The three ways the owner ends a channel.\<close>

definition ended_by_owner :: "nat \<Rightarrow> nat \<Rightarrow> channel_entry \<Rightarrow> channel_registry \<Rightarrow> channel_registry \<Rightarrow> bool" where
  "ended_by_owner authority key e r r' \<longleftrightarrow>
     r' = snd (revoke_channel authority key r) \<or> r' = snd (detach_instance authority (en_instance (ce_data e)) r)
     \<or> r' = snd (close_registry authority r)"

lemma ended_gone:
  assumes "map_of (cr_records r) key = Some e" and "ended_by_owner (cr_authority r) key e r r'"
  shows "fades r r'" and "map_of (cr_records r') key = Some e' \<Longrightarrow> ce_revoked e'"
proof -
  show "fades r r'" using assms(2) fades_owner_calls by (auto simp: ended_by_owner_def)
  have in_keys: "key \<in> set (keys_where P s)" if "P e" "cr_records s = cr_records r" for P s
    using that map_of_SomeD [OF assms(1)] by (force simp: keys_where_def)
  assume e': "map_of (cr_records r') key = Some e'"
  consider (revoke) "r' = snd (revoke_channel (cr_authority r) key r)"
    | (detach) "r' = snd (detach_instance (cr_authority r) (en_instance (ce_data e)) r)" | (close) "r' = snd (close_registry (cr_authority r) r)"
    using assms(2) by (auto simp: ended_by_owner_def)
  then show "ce_revoked e'"
  proof cases
    case revoke
    then show ?thesis using e' assms(1) invalidate_gone by (auto simp: revoke_channel_def Let_def split: if_splits)
  next
    case detach
    then show ?thesis
      using e' invalidate_all_gone [OF in_keys [where P = "\<lambda>x. en_instance (ce_data x) = en_instance (ce_data e)"], of "advance_generation r"]
      by (auto simp: detach_instance_def Let_def)
  next
    case close
    then show ?thesis
      using e' invalidate_all_gone [OF in_keys [where P = "\<lambda>x. True"], of "advance_generation (r\<lparr>cr_closed := True\<rparr>)"]
      by (auto simp: close_registry_def Let_def)
  qed
qed

lemma over_after_end:
  assumes "channels_ok r" and "map_of (cr_records r) key = Some e" and "ended_by_owner (cr_authority r) key e r r'"
  shows "channels_ok r' \<and> fact_holds (ChannelOver (ce_channel e)) r'"
proof -
  note f = ended_gone(1) [OF assms(2,3)]
  have "ce_revoked e'" if e': "map_of (cr_records r') k = Some e'" "ce_channel e' = ce_channel e" for k e'
  proof (cases "k = key")
    case True
    then show ?thesis using ended_gone(2) [OF assms(2,3)] e'(1) by simp
  next
    case False
    obtain e0 where e0: "map_of (cr_records r) k = Some e0" "ce_channel e0 = ce_channel e"
      using fades_entry [OF f e'(1)] e'(2) by auto
    have "entries_apart e0 e" using assms(1) e0(1) assms(2) False unfolding channels_ok_def by blast
    then show ?thesis using e0(2) by (simp add: entries_apart_def)
  qed
  moreover have "ce_channel e < cr_next r'"
    using assms(1,2) f by (auto simp: channels_ok_def entry_fits_def fades_def same_frame_def)
  ultimately show ?thesis using fades_ok [OF assms(1) f] by auto
qed

lemma fades_resolve:
  assumes "resolve_channel t who r = (x, r')"
  shows "fades r r'"
proof -
  obtain u r1 where w: "sweep_channels r = (u, r1)" by force
  have f1: "fades r r1" using fades_sweep [of r] w by simp
  have "fades r r2" if "admitted e who r1 = (b, r2)" for e b r2
    using fades_trans [OF f1] fades_admitted [of r1 e who] that by simp
  then show ?thesis using assms w f1 by (auto simp: resolve_channel_def split: if_splits sum.splits option.splits prod.splits)
qed

lemma over_not_current:
  assumes "channels_ok r" and "fact_holds (ChannelOver ch) r"
  shows "\<not> fst (is_current ch r)"
proof
  assume c: "fst (is_current ch r)"
  then obtain e where e: "find_entry (\<lambda>e. ce_channel e = ch \<and> ce_transport e \<noteq> None) r = Some e" "fst (is_live e r)"
    by (auto simp: is_current_def split: if_splits option.splits)
  obtain r' where l: "is_live e r = (True, r')" using e(2) by (cases "is_live e r") auto
  note f = found_entry [OF assms(1) e(1)]
  have "fades r r'" using fades_live [of r e] l by simp
  then have "\<not> ce_revoked e" using still_the_same conjunct2 [OF f] is_live_True [OF l] by blast
  then show False using f assms(2) by auto
qed

lemma over_not_resolved:
  assumes "channels_ok r" and "fact_holds (ChannelOver ch) r" and "fst (resolve_channel t who r) = Some e"
  shows "ce_channel e \<noteq> ch"
proof
  assume ch: "ce_channel e = ch"
  obtain r' where r: "resolve_channel t who r = (Some e, r')" using assms(3) by (cases "resolve_channel t who r") auto
  note s = resolve_Some [OF assms(1) r]
  obtain e0 where "map_of (cr_records r) (en_key (ce_data e)) = Some e0" "e = e0 \<or> e = e0\<lparr>ce_revoked := True\<rparr>"
    using fades_entry [OF fades_resolve [OF r]] s by blast
  then show False using s ch assms(2) by auto
qed

text \<open>
  C24. A channel the owner ended (by its key, by its instance, or by closing the registry) is never current
  again and never resolved again: no later sequence of calls, no answer from outside and no secret brings it
  back.
\<close>

theorem ended_channel_never_returns:
  assumes "new_channel_registry options = Inr r0" and "r = run channel_op_step ops r0"
    and "map_of (cr_records r) key = Some e" and "ended_by_owner (cr_authority r) key e (with_answers a r) r'"
  shows "\<not> fst (is_current (ce_channel e) (with_answers a' (run channel_op_step ops' r')))
    \<and> map_option ce_channel (fst (resolve_channel t who (with_answers a' (run channel_op_step ops' r')))) \<noteq> Some (ce_channel e)"
proof -
  have w: "channels_ok (with_answers a r)" "map_of (cr_records (with_answers a r)) key = Some e"
    using channels.run_inv [OF new_registry_ok [OF assms(1)], of ops] assms(2,3) by (simp, simp add: with_answers_def)
  have "cr_authority (with_answers a r) = cr_authority r" by (simp add: with_answers_def)
  note o = over_after_end [OF w, unfolded this, OF assms(4)]
  then have o': "channels_ok r'" "fact_holds (ChannelOver (ce_channel e)) r'" by simp_all
  let ?s = "with_answers a' (run channel_op_step ops' r')"
  have s: "channels_ok ?s" "fact_holds (ChannelOver (ce_channel e)) ?s"
    using channels.run_inv [OF o'(1)] channels.run_over [OF o'] unfolding answers_ok by simp_all
  then show ?thesis using over_not_current [OF s] over_not_resolved [OF s, of t who] by auto
qed

section \<open>One exchange, one channel\<close>

lemma activate_Ok:
  assumes "channels_ok r" and "activate_channel ticket who r = (Ok (t, x), r')"
  shows "channels_ok r' \<and> fact_holds (TicketSpent (str_of ticket)) r' \<and> fact_holds (TransportOf t (str_of ticket)) r' \<and> is_string ticket"
proof -
  obtain u r1 e r2 r3 where s: "is_string ticket" "sweep_channels r = (Ok u, r1)"
    "find_entry (\<lambda>e. ce_ticket e = str_of ticket \<and> ce_transport e = None) r1 = Some e"
    "admitted e who r1 = (True, r2)" "new_secret r2 = (Ok t, r3)" "still_there (en_key (ce_data e)) (ce_channel e) r3"
    "r' = set_transport (en_key (ce_data e)) t r3"
    using assms(2) by (auto simp: activate_channel_def split: if_splits prod.splits sum.splits option.splits bool.splits)
  let ?k = "en_key (ce_data e)"
  have f1: "fades r r1" using fades_sweep [of r] s(2) by simp
  note ok1 = conjunct1 [OF fades_ok [OF assms(1) f1]]
  note e = found_entry [OF ok1 s(3)]
  have f2: "fades r1 r2" using fades_admitted [of r1 e who] s(4) by simp
  note ok2 = conjunct1 [OF fades_ok [OF ok1 f2]]
  note n = new_secret_Ok [OF s(5)]
  have "still_there ?k (ce_channel e) r2" using s(6) n by (simp add: still_there_def)
  then have e2: "map_of (cr_records r2) ?k = Some e" "\<not> ce_revoked e" using still_the_same [OF f2 conjunct2 [OF e]] by auto
  have ok': "channels_ok r'"
    using set_transport_moves [OF s(5) e2(1)] e ok2 s(7) by (simp add: moves_def)
  have rec: "cr_records r' = put ?k (e\<lparr>ce_transport := Some t\<rparr>) (cr_records r2)" "cr_secrets r' = t # cr_secrets r2"
    using s(7) n e2(1) by (simp_all add: set_transport_def)
  then have there: "map_of (cr_records r') ?k = Some (e\<lparr>ce_transport := Some t\<rparr>)" by simp
  have only: "k = ?k" if "map_of (cr_records r') k = Some f" "v \<in> tokens_of f" "v \<in> tokens_of (e\<lparr>ce_transport := Some t\<rparr>)" for k f v
  proof (rule ccontr)
    assume "k \<noteq> ?k"
    then have "entries_apart f (e\<lparr>ce_transport := Some t\<rparr>)" using ok' that(1) there unfolding channels_ok_def by blast
    then show False using that(2,3) by (auto simp: entries_apart_def)
  qed
  have "fact_holds (TicketSpent (str_of ticket)) r'"
  proof -
    have "ce_transport f \<noteq> None" if "map_of (cr_records r') k = Some f" "ce_ticket f = str_of ticket" for k f
      using only [OF that(1), of "str_of ticket"] that there e by (auto simp: tokens_of_def)
    moreover have "str_of ticket \<in> set (cr_secrets r')"
    proof -
      have "entry_fits r' ?k (e\<lparr>ce_transport := Some t\<rparr>)" using ok' there by (simp add: channels_ok_def)
      then show ?thesis using e by (auto simp: entry_fits_def tokens_of_def)
    qed
    ultimately show ?thesis by simp
  qed
  moreover have "fact_holds (TransportOf t (str_of ticket)) r'"
  proof -
    have "ce_ticket f = str_of ticket" if "map_of (cr_records r') k = Some f" "ce_transport f = Some t" for k f
      using only [OF that(1), of t] that there e by (auto simp: tokens_of_def)
    then show ?thesis using rec(2) by simp
  qed
  ultimately show ?thesis using ok' s(1) by simp
qed

lemma spent_not_activated:
  assumes "channels_ok r" and "fact_holds (TicketSpent (str_of ticket)) r"
  shows "\<exists>c. fst (activate_channel ticket who r) = Err c"
proof (rule ccontr)
  assume "\<nexists>c. fst (activate_channel ticket who r) = Err c"
  then obtain t x r' where a: "activate_channel ticket who r = (Ok (t, x), r')"
    by (cases "activate_channel ticket who r"; cases "fst (activate_channel ticket who r)") auto
  then obtain u r1 e r2 where s: "sweep_channels r = (Ok u, r1)"
    "find_entry (\<lambda>e. ce_ticket e = str_of ticket \<and> ce_transport e = None) r1 = Some e" "admitted e who r1 = (True, r2)"
    by (auto simp: activate_channel_def split: if_splits prod.splits sum.splits option.splits bool.splits)
  have f1: "fades r r1" using fades_sweep [of r] s(1) by simp
  note ok1 = fades_ok [OF assms(1) f1]
  note e = found_entry [OF conjunct1 [OF ok1] s(2)]
  have "fades r1 r2" using fades_admitted [of r1 e who] s(3) by simp
  then have "\<not> ce_revoked e" using still_the_same conjunct2 [OF e] admitted_True [OF s(3)] by blast
  moreover have "fact_holds (TicketSpent (str_of ticket)) r1" using fact_lasts assms(2) ok1 by blast
  ultimately show False using e unfolding fact_holds.simps by blast
qed

text \<open>
  Secrets are single use: a ticket that was exchanged is refused ever after, and the transport secret it
  was exchanged for resolves, whoever presents it and whenever, to the channel of this ticket only.
\<close>

theorem channel_secrets_are_single_use:
  assumes "new_channel_registry options = Inr r0"
    and "activate_channel ticket who (with_answers a (run channel_op_step ops r0)) = (Ok (t, x), r)"
  shows "(\<exists>c. fst (activate_channel ticket who' (with_answers a' (run channel_op_step ops' r))) = Err c)
    \<and> (case fst (resolve_channel (JStr t) who' (with_answers a' (run channel_op_step ops' r))) of
         None \<Rightarrow> True | Some e \<Rightarrow> ce_ticket e = str_of ticket)"
proof -
  have "channels_ok (with_answers a (run channel_op_step ops r0))"
    using channels.run_inv [OF new_registry_ok [OF assms(1)]] by simp
  note act = activate_Ok [OF this assms(2)]
  let ?s = "with_answers a' (run channel_op_step ops' r)"
  have ok: "channels_ok ?s" using channels.run_inv act by simp
  have facts: "fact_holds (TicketSpent (str_of ticket)) ?s" "fact_holds (TransportOf t (str_of ticket)) ?s"
    using channels.run_over act unfolding answers_ok by blast+
  have "ce_ticket e = str_of ticket" if e: "fst (resolve_channel (JStr t) who' ?s) = Some e" for e
  proof -
    obtain s' where r: "resolve_channel (JStr t) who' ?s = (Some e, s')" using e by (cases "resolve_channel (JStr t) who' ?s") auto
    note p = resolve_Some [OF ok r]
    have "fades ?s s'" by (rule fades_resolve [OF r])
    then obtain e0 where "map_of (cr_records ?s) (en_key (ce_data e)) = Some e0" "e = e0 \<or> e = e0\<lparr>ce_revoked := True\<rparr>"
      using fades_entry p by blast
    then have "map_of (cr_records ?s) (en_key (ce_data e)) = Some e" using p by auto
    then show ?thesis using p facts(2) unfolding fact_holds.simps str_of_def by simp
  qed
  then show ?thesis using spent_not_activated [OF ok facts(1)] by (auto split: option.split)
qed

section \<open>A run\<close>

definition channel_options :: jsval where
  "channel_options = JObj [(''ownerAuthority'', JRef 1), (''ownerIdentity'', JRef 2), (''processCurrent'', JFun 0)]"

definition channel_request :: jsval where
  "channel_request = JObj [(''key'', JRef 10), (''callerId'', JStr ''conv:c1''), (''pid'', jint 42), (''birth'', JStr ''77''),
     (''installation'', JRef 3), (''instance'', JRef 4), (''conversation'', JRef 5), (''expiresAt'', jint 1000),
     (''views'', JArr [JObj [(''binding'', JRef 6), (''bindingEpoch'', jint 1), (''formats'', JArr [JStr ''text''])]])]"

definition channel_caller :: jsval where
  "channel_caller = JObj [(''id'', JStr ''conv:c1''), (''role'', JStr ''agent''), (''kind'', JStr ''adapter''), (''verified'', JBool True),
     (''pid'', jint 42), (''start'', JStr ''77'')]"

definition ticket_a :: string where "ticket_a = replicate 64 CHR ''a''"
definition transport_b :: string where "transport_b = replicate 64 CHR ''b''"

definition at_times :: "rat list \<Rightarrow> string \<Rightarrow> channel_answers" where
  "at_times ts v = \<lparr>ca_clock = map (\<lambda>t. (Some t, [])) ts, ca_proofs = [(True, [])], ca_acks = [], ca_random = [Some v]\<rparr>"

definition channel_start :: channel_registry where
  "channel_start = projr (new_channel_registry channel_options)"

definition issued_ops :: "(channel_answers \<times> channel_op) list" where
  "issued_ops = [(at_times [1, 2, 3] ticket_a, Issue 1 channel_request)]"

definition active_ops :: "(channel_answers \<times> channel_op) list" where
  "active_ops = issued_ops @ [(at_times [4, 5, 6, 7] transport_b, Activate (JStr ticket_a) channel_caller)]"

lemma channel_started: "new_channel_registry channel_options = Inr channel_start"
proof -
  have "isl (new_channel_registry channel_options) = False" by code_simp
  then show ?thesis unfolding channel_start_def by (cases "new_channel_registry channel_options") auto
qed

lemma read_channels_are_bounded_witness:
  "length (cr_records (run channel_op_step active_ops channel_start)) \<le> 8"
  using read_channels_are_bounded [OF channel_started] by blast

definition resolved_sample :: "channel_entry option \<times> channel_registry" where
  "resolved_sample = resolve_channel (JStr transport_b) channel_caller
     (with_answers (at_times [8, 9, 10, 11] []) (run channel_op_step active_ops channel_start))"

lemma resolved_there: "resolved_sample = (Some (the (fst resolved_sample)), snd resolved_sample)"
proof -
  have "Option.is_none (fst resolved_sample) = False" by code_simp
  then show ?thesis by (cases "fst resolved_sample") (auto simp: prod_eq_iff)
qed

lemma resolved_channel_is_checked_witness:
  "caller_matches (the (fst resolved_sample)) channel_caller \<and> \<not> ce_revoked (the (fst resolved_sample))"
  using resolved_channel_is_checked [OF channel_started resolved_there [unfolded resolved_sample_def]]
  unfolding resolved_sample_def by blast

definition activated_sample :: "(string \<times> rat) channel_step" where
  "activated_sample = activate_channel (JStr ticket_a) channel_caller
     (with_answers (at_times [4, 5, 6, 7] transport_b) (run channel_op_step issued_ops channel_start))"

lemma activated_there: "activated_sample = (Ok (transport_b, 1000), snd activated_sample)"
proof -
  have "fst activated_sample = Ok (transport_b, 1000)" by code_simp
  then show ?thesis by (simp add: prod_eq_iff)
qed

lemma channel_secrets_are_single_use_witness:
  "\<exists>c. fst (activate_channel (JStr ticket_a) channel_caller (with_answers (at_times [8] []) (snd activated_sample))) = Err c"
  using channel_secrets_are_single_use [OF channel_started activated_there [unfolded activated_sample_def], where ops' = "[]"]
  unfolding activated_sample_def run.simps by blast

lemma ended_channel_never_returns_witness:
  "\<not> fst (is_current 0 (with_answers (at_times [8] [])
     (run channel_op_step [] (snd (revoke_channel 1 10 (with_answers (at_times [] []) (run channel_op_step active_ops channel_start)))))))"
proof -
  let ?r = "run channel_op_step active_ops channel_start"
  have "map_option ce_channel (map_of (cr_records ?r) 10) = Some 0" "cr_authority ?r = 1" by code_simp+
  then obtain e where e: "map_of (cr_records ?r) 10 = Some e" "ce_channel e = 0" by auto
  have "ended_by_owner (cr_authority ?r) 10 e (with_answers (at_times [] []) ?r) (snd (revoke_channel 1 10 (with_answers (at_times [] []) ?r)))"
    using \<open>cr_authority ?r = 1\<close> by (simp add: ended_by_owner_def)
  from conjunct1 [OF ended_channel_never_returns [OF channel_started refl e(1) this]] show ?thesis unfolding e(2) .
qed

end
