(* ===== verification/ReadUsage.thy ===== *)
theory ReadUsage
  imports OrbitPrelude
begin

text \<open>
  \<open>src/read-usage-coordinator.ts\<close>: the broker's fence around the use of reads. For each protected conversation
  the owner turns the use on or off; every change takes effect for the worse at once, is written by an injected
  store one write after the other, and turns the use on only when the write was acknowledged in time and
  nothing newer was asked.

  A step is one callback of the source run to its end. A write in progress is a job of its conversation: the
  continuation \<open>run\<close>, the race with the deadline, and the final acknowledgement settle in steps of their own,
  and other calls may come between any two of them. What the clock, the timer, the store and the revocation
  callback answer is part of the step. The revocation callback does not call the coordinator back here; a
  call that comes back while a write is set up (\<open>#settingUp\<close>) is represented by what it does, the poisoning.
\<close>

section \<open>State\<close>

datatype usage_code = UsInvalid | UsDenied | UsLimit | UsBusy | UsUnconfirmed | UsStale

datatype run_stage = RunWaiting | RunCommitting | RunOk | RunErr usage_code

record usage_job =
  uj_epoch :: nat
  uj_on :: bool
  uj_expires :: rat
  uj_last :: rat
  uj_run :: run_stage
  uj_race :: "(usage_code, unit) result option"
  uj_timer :: bool
  uj_ack :: "(usage_code, unit) result option"

record usage_entry =
  ue_epoch :: nat
  ue_enabled :: bool
  ue_uncertain :: bool
  ue_jobs :: "usage_job list"

record usage =
  us_authority :: nat
  us_deadline :: rat
  us_counter :: nat
  us_exhausted :: bool
  us_poisoned :: bool
  us_entries :: "(nat \<times> usage_entry) list"

text \<open>
  What an observer sees: a write handed to the store, its acknowledgement by the store (conversation, epoch, use),
  and a revocation told to the callback.
\<close>

datatype usage_output = StoreCommit nat nat bool | CommitStored nat nat bool | Revoked nat

definition new_usage :: "jsval \<Rightarrow> nat option \<Rightarrow> jsval \<Rightarrow> (usage_code, usage) result" where
  "new_usage authority store deadline =
     (case (authority, store) of
        (JRef a, Some s) \<Rightarrow>
          if deadline = Undef \<or> is_safe_integer deadline \<and> 1 \<le> int_of_val deadline \<and> int_of_val deadline \<le> 3000
          then Ok \<lparr>us_authority = a, us_deadline = (if deadline = Undef then 3000 else of_int (int_of_val deadline)),
                   us_counter = 0, us_exhausted = False, us_poisoned = False, us_entries = []\<rparr>
          else Err UsInvalid
      | _ \<Rightarrow> Err UsInvalid)"

definition set_usage :: "nat \<Rightarrow> usage_entry \<Rightarrow> usage \<Rightarrow> usage" where
  "set_usage c e s = s\<lparr>us_entries := put c e (us_entries s)\<rparr>"

section \<open>Poison\<close>

definition fence_entry :: "nat \<Rightarrow> usage_entry \<Rightarrow> usage_entry" where
  "fence_entry n e = e\<lparr>ue_enabled := False, ue_uncertain := True, ue_epoch := n\<rparr>"

definition poison :: "usage \<Rightarrow> usage_output list \<times> usage" where
  "poison s =
     (if us_poisoned s then ([], s)
      else let n = (if int (us_counter s) < max_safe then us_counter s + 1 else us_counter s) in
        (map (\<lambda>(c, e). Revoked c) (us_entries s),
         s\<lparr>us_poisoned := True, us_counter := n, us_entries := map (\<lambda>(c, e). (c, fence_entry n e)) (us_entries s)\<rparr>))"

definition poison_all :: "nat \<Rightarrow> usage \<Rightarrow> (usage_code, unit) result \<times> usage_output list \<times> usage" where
  "poison_all authority s =
     (if authority \<noteq> us_authority s then (Err UsDenied, [], s)
      else case poison s of (os, s1) \<Rightarrow> (Ok (), os, s1))"

definition next_epoch :: "usage \<Rightarrow> (usage_code, nat) result \<times> usage_output list \<times> usage" where
  "next_epoch s =
     (if us_poisoned s then (Err UsUnconfirmed, [], s)
      else if us_exhausted s \<or> max_safe \<le> int (us_counter s)
      then (case poison (s\<lparr>us_exhausted := True\<rparr>) of (os, s1) \<Rightarrow> (Err UsLimit, os, s1))
      else (Ok (us_counter s + 1), [], s\<lparr>us_counter := us_counter s + 1\<rparr>))"

section \<open>Registration and queries\<close>

definition register_conversation :: "nat \<Rightarrow> jsval \<Rightarrow> usage \<Rightarrow> (usage_code, unit) result \<times> usage_output list \<times> usage" where
  "register_conversation authority conversation s =
     (if authority \<noteq> us_authority s then (Err UsDenied, [], s)
      else if us_poisoned s then (Err UsUnconfirmed, [], s)
      else case conversation of
        JRef c \<Rightarrow>
          if c \<in> keys (us_entries s) then (Err UsInvalid, [], s)
          else if 4 \<le> length (us_entries s) then (Err UsLimit, [], s)
          else (case next_epoch s of
              (Err x, os, s1) \<Rightarrow> (Err x, os, s1)
            | (Ok n, os, s1) \<Rightarrow>
                (Ok (), os, set_usage c \<lparr>ue_epoch = n, ue_enabled = False, ue_uncertain = False, ue_jobs = []\<rparr> s1))
      | _ \<Rightarrow> (Err UsInvalid, [], s))"

definition usage_current :: "nat \<Rightarrow> nat \<Rightarrow> usage \<Rightarrow> bool" where
  "usage_current c epoch s =
     (case map_of (us_entries s) c of
        None \<Rightarrow> False
      | Some e \<Rightarrow> \<not> us_poisoned s \<and> \<not> us_exhausted s \<and> \<not> ue_uncertain e \<and> ue_enabled e \<and> ue_epoch e = epoch)"

definition usage_version :: "nat \<Rightarrow> usage \<Rightarrow> (usage_code, nat \<times> bool) result" where
  "usage_version c s =
     (case map_of (us_entries s) c of
        None \<Rightarrow> Err UsDenied
      | Some e \<Rightarrow> Ok (ue_epoch e, ue_enabled e \<and> \<not> ue_uncertain e \<and> \<not> us_exhausted s \<and> \<not> us_poisoned s))"

section \<open>Asking for a change\<close>

text \<open>
  What the outside answers while a write is set up: the clock, whether a call came back during its reading, whether
  the timer was set, whether a call came back during that, and whether the revocation callback returned nothing.
\<close>

record usage_setup =
  st_clock :: "rat option"
  st_clock_back :: bool
  st_timer :: bool
  st_timer_back :: bool
  st_notified :: bool

definition poisoned_if :: "bool \<Rightarrow> usage \<Rightarrow> usage_output list \<times> usage" where
  "poisoned_if b s = (if b then poison s else ([], s))"

definition make_uncertain :: "nat \<Rightarrow> usage \<Rightarrow> usage" where
  "make_uncertain c s =
     (case map_of (us_entries s) c of None \<Rightarrow> s
      | Some e \<Rightarrow> set_usage c (e\<lparr>ue_enabled := False, ue_uncertain := True\<rparr>) s)"

definition new_usage_job :: "nat \<Rightarrow> bool \<Rightarrow> rat \<Rightarrow> rat \<Rightarrow> bool \<Rightarrow> usage_job" where
  "new_usage_job epoch on started deadline timer =
     \<lparr>uj_epoch = epoch, uj_on = on, uj_expires = started + deadline, uj_last = started, uj_run = RunWaiting,
      uj_race = (if timer then None else Some (Err UsUnconfirmed)), uj_timer = timer, uj_ack = None\<rparr>"

definition add_job :: "nat \<Rightarrow> usage_job \<Rightarrow> usage \<Rightarrow> usage" where
  "add_job c j s =
     (case map_of (us_entries s) c of None \<Rightarrow> s
      | Some e \<Rightarrow> set_usage c (e\<lparr>ue_jobs := ue_jobs e @ [j]\<rparr>) s)"

text \<open>\<open>#enqueue\<close>: the promise it returns is rejected at once, or the one of the job added.\<close>

definition enqueue_usage ::
  "nat \<Rightarrow> nat \<Rightarrow> bool \<Rightarrow> usage_setup \<Rightarrow> usage \<Rightarrow> (usage_code, unit) result \<times> usage_output list \<times> usage" where
  "enqueue_usage c epoch on t s =
     (case map_of (us_entries s) c of
        None \<Rightarrow> (Err UsDenied, [], s)
      | Some e \<Rightarrow>
          if 8 \<le> length (ue_jobs e) then (Err UsUnconfirmed, [], set_usage c (e\<lparr>ue_uncertain := True\<rparr>) s)
          else (case poisoned_if (st_clock_back t) s of
            (os1, s1) \<Rightarrow>
              (case st_clock t of
                 None \<Rightarrow> (Err UsUnconfirmed, os1, make_uncertain c s1)
               | Some started \<Rightarrow>
                   if us_poisoned s1 \<or> us_exhausted s1 \<or> ue_uncertain e
                   then (Err UsUnconfirmed, os1, make_uncertain c s1)
                   else (let s2 = (if st_timer t then s1 else make_uncertain c s1);
                             s3 = add_job c (new_usage_job epoch on started (us_deadline s) (st_timer t)) s2 in
                     case poisoned_if (st_timer_back t) s3 of (os2, s4) \<Rightarrow> (Ok (), os1 @ os2, s4)))))"

definition ask_usage ::
  "bool \<Rightarrow> nat \<Rightarrow> nat \<Rightarrow> usage_setup \<Rightarrow> usage \<Rightarrow> (usage_code, unit) result \<times> usage_output list \<times> usage" where
  "ask_usage on authority c t s =
     (if authority \<noteq> us_authority s then (Err UsDenied, [], s)
      else if us_poisoned s then (Err UsUnconfirmed, [], s)
      else case map_of (us_entries s) c of
        None \<Rightarrow> (Err UsDenied, [], s)
      | Some e \<Rightarrow>
          if on \<and> ue_uncertain e then (Err UsUnconfirmed, [], s)
          else if on \<and> 8 \<le> length (ue_jobs e) then (Err UsBusy, [], s)
          else (case next_epoch s of
              (Err x, os, s1) \<Rightarrow> (Err x, os, s1)
            | (Ok n, os, s1) \<Rightarrow>
               (case enqueue_usage c n on t (set_usage c (e\<lparr>ue_epoch := n, ue_enabled := False\<rparr>) s1) of
                  (res, os2, s2) \<Rightarrow>
                    (let s3 = (if st_notified t then s2
                               else case map_of (us_entries s2) c of None \<Rightarrow> s2
                                 | Some e2 \<Rightarrow> set_usage c (e2\<lparr>ue_uncertain := True\<rparr>) s2) in
                     (case map_of (us_entries s3) c of None \<Rightarrow> res
                        | Some e3 \<Rightarrow> if ue_uncertain e3 then Err UsUnconfirmed else res, os @ os2 @ [Revoked c], s3)))))"

definition usage_off :: "nat \<Rightarrow> nat \<Rightarrow> usage_setup \<Rightarrow> usage \<Rightarrow> (usage_code, unit) result \<times> usage_output list \<times> usage" where
  "usage_off = ask_usage False"

definition usage_on :: "nat \<Rightarrow> nat \<Rightarrow> usage_setup \<Rightarrow> usage \<Rightarrow> (usage_code, unit) result \<times> usage_output list \<times> usage" where
  "usage_on = ask_usage True"

section \<open>The write\<close>

text \<open>\<open>expired\<close> with one reading of the clock.\<close>

definition sample_expired :: "rat option \<Rightarrow> usage_job \<Rightarrow> bool \<times> usage_job" where
  "sample_expired now j =
     (case now of
        None \<Rightarrow> (True, j)
      | Some t \<Rightarrow> if t < uj_last j \<or> uj_expires j \<le> t then (True, j) else (False, j\<lparr>uj_last := t\<rparr>))"

definition worse :: "bool \<Rightarrow> usage_entry \<Rightarrow> usage_entry" where
  "worse b e = (if b then e\<lparr>ue_enabled := False, ue_uncertain := True\<rparr> else e)"

text \<open>\<open>run\<close> settles, and with it the race if the deadline has not.\<close>

definition run_settled :: "(usage_code, unit) result \<Rightarrow> usage_job \<Rightarrow> usage_job" where
  "run_settled res j =
     j\<lparr>uj_run := (case res of Inl x \<Rightarrow> RunErr x | Inr u \<Rightarrow> RunOk),
       uj_race := (case uj_race j of None \<Rightarrow> Some res | Some r \<Rightarrow> Some r)\<rparr>"

definition head_job :: "nat \<Rightarrow> usage \<Rightarrow> (usage_entry \<times> usage_job \<times> usage_job list) option" where
  "head_job c s =
     (case map_of (us_entries s) c of
        None \<Rightarrow> None
      | Some e \<Rightarrow> (case ue_jobs e of [] \<Rightarrow> None | j # js \<Rightarrow> Some (e, j, js)))"

text \<open>The turn of the first job: its write is handed to the store, unless too late or fenced.\<close>

definition run_begins :: "nat \<Rightarrow> rat option \<Rightarrow> bool \<Rightarrow> usage \<Rightarrow> usage_output list \<times> usage" where
  "run_begins c now accepted s =
     (case head_job c s of
        None \<Rightarrow> ([], s)
      | Some (e, j, js) \<Rightarrow>
          if uj_run j \<noteq> RunWaiting then ([], s)
          else (case sample_expired now j of
            (late, j1) \<Rightarrow>
              (let e1 = worse late e in
               if ue_uncertain e1 \<or> us_poisoned s
               then ([], set_usage c (e1\<lparr>ue_jobs := run_settled (Err UsUnconfirmed) j1 # js\<rparr>) s)
               else if accepted
               then ([StoreCommit c (uj_epoch j) (uj_on j)], set_usage c (e1\<lparr>ue_jobs := j1\<lparr>uj_run := RunCommitting\<rparr> # js\<rparr>) s)
               else ([StoreCommit c (uj_epoch j) (uj_on j)],
                     set_usage c ((worse True e1)\<lparr>ue_jobs := run_settled (Err UsUnconfirmed) j1 # js\<rparr>) s))))"

definition commit_settles :: "nat \<Rightarrow> bool \<Rightarrow> rat option \<Rightarrow> usage \<Rightarrow> usage_output list \<times> usage" where
  "commit_settles c stored now s =
     (case head_job c s of
        None \<Rightarrow> ([], s)
      | Some (e, j, js) \<Rightarrow>
          if uj_run j \<noteq> RunCommitting then ([], s)
          else if \<not> stored then ([], set_usage c ((worse True e)\<lparr>ue_jobs := run_settled (Err UsUnconfirmed) j # js\<rparr>) s)
          else (case sample_expired now j of
            (late, j1) \<Rightarrow>
              (let e1 = worse late e in
               ([CommitStored c (uj_epoch j) (uj_on j)],
                set_usage c (e1\<lparr>ue_jobs :=
                  (if ue_uncertain e1 \<or> us_exhausted s \<or> us_poisoned s then run_settled (Err UsUnconfirmed) j1
                   else if uj_on j \<and> ue_epoch e1 \<noteq> uj_epoch j then run_settled (Err UsStale) j1
                   else run_settled (Ok ()) j1) # js\<rparr>) s))))"

text \<open>The deadline of the job at this place of the queue.\<close>

definition timer_fires :: "nat \<Rightarrow> nat \<Rightarrow> usage \<Rightarrow> usage" where
  "timer_fires c i s =
     (case map_of (us_entries s) c of
        None \<Rightarrow> s
      | Some e \<Rightarrow>
          if length (ue_jobs e) \<le> i \<or> \<not> uj_timer (ue_jobs e ! i) then s
          else (let j = ue_jobs e ! i in
            set_usage c ((worse True e)\<lparr>ue_jobs := (ue_jobs e)[i := j\<lparr>uj_timer := False,
              uj_race := (case uj_race j of None \<Rightarrow> Some (Err UsUnconfirmed) | Some r \<Rightarrow> Some r)\<rparr>]\<rparr>) s))"

text \<open>
  The race is over: the timer is cleared, and an acknowledgement passes the last fence. Publishing the use is
  the last thing done here.
\<close>

definition ack_settles :: "nat \<Rightarrow> nat \<Rightarrow> bool \<Rightarrow> rat option \<Rightarrow> usage \<Rightarrow> usage" where
  "ack_settles c i cleared now s =
     (case map_of (us_entries s) c of
        None \<Rightarrow> s
      | Some e \<Rightarrow>
          if length (ue_jobs e) \<le> i \<or> uj_ack (ue_jobs e ! i) \<noteq> None then s
          else
           (let j = (ue_jobs e ! i)\<lparr>uj_timer := False\<rparr> in
            case uj_race j of
              None \<Rightarrow> s
            | Some res \<Rightarrow>
                if \<not> cleared
                then set_usage c ((worse True e)\<lparr>ue_jobs := (ue_jobs e)[i := j\<lparr>uj_ack := Some (Err UsUnconfirmed)\<rparr>]\<rparr>) s
                else (case res of
                    Inl x \<Rightarrow> set_usage c (e\<lparr>ue_jobs := (ue_jobs e)[i := j\<lparr>uj_ack := Some (Err x)\<rparr>]\<rparr>) s
                  | Inr u \<Rightarrow>
                     (case sample_expired now j of
                        (late, j1) \<Rightarrow>
                          (let e1 = worse late e in
                           if us_poisoned s \<or> us_exhausted s \<or> ue_uncertain e1
                           then set_usage c (e1\<lparr>ue_jobs := (ue_jobs e)[i := j1\<lparr>uj_ack := Some (Err UsUnconfirmed)\<rparr>]\<rparr>) s
                           else if uj_on j \<and> ue_epoch e1 \<noteq> uj_epoch j
                           then set_usage c (e1\<lparr>ue_jobs := (ue_jobs e)[i := j1\<lparr>uj_ack := Some (Err UsStale)\<rparr>]\<rparr>) s
                           else set_usage c (e1\<lparr>ue_enabled := (uj_on j \<or> ue_enabled e1),
                                  ue_jobs := (ue_jobs e)[i := j1\<lparr>uj_ack := Some (Ok ())\<rparr>]\<rparr>) s)))))"

text \<open>Both have settled: the next job has its turn.\<close>

definition is_settled :: "usage_job \<Rightarrow> bool" where
  "is_settled j \<longleftrightarrow> uj_ack j \<noteq> None \<and> (case uj_run j of RunOk \<Rightarrow> True | RunErr x \<Rightarrow> True | _ \<Rightarrow> False)"

definition job_leaves :: "nat \<Rightarrow> usage \<Rightarrow> usage" where
  "job_leaves c s =
     (case head_job c s of
        None \<Rightarrow> s
      | Some (e, j, js) \<Rightarrow> if is_settled j then set_usage c (e\<lparr>ue_jobs := js\<rparr>) s else s)"

section \<open>Steps\<close>

datatype usage_event =
    Register nat jsval
  | TurnOff nat nat usage_setup
  | TurnOn nat nat usage_setup
  | PoisonAll nat
  | RunBegins nat "rat option" bool
  | CommitSettles nat bool "rat option"
  | TimerFires nat nat
  | AckSettles nat nat bool "rat option"
  | JobLeaves nat

fun usage_step :: "usage_event \<Rightarrow> usage \<Rightarrow> usage_output list \<times> usage" where
  "usage_step (Register a v) s = snd (register_conversation a v s)"
| "usage_step (TurnOff a c t) s = snd (usage_off a c t s)"
| "usage_step (TurnOn a c t) s = snd (usage_on a c t s)"
| "usage_step (PoisonAll a) s = snd (poison_all a s)"
| "usage_step (RunBegins c now ok) s = run_begins c now ok s"
| "usage_step (CommitSettles c stored now) s = commit_settles c stored now s"
| "usage_step (TimerFires c i) s = ([], timer_fires c i s)"
| "usage_step (AckSettles c i cleared now) s = ([], ack_settles c i cleared now s)"
| "usage_step (JobLeaves c) s = ([], job_leaves c s)"

fun usage_run :: "usage_event list \<Rightarrow> usage \<Rightarrow> usage_output list \<times> usage" where
  "usage_run [] s = ([], s)"
| "usage_run (e # es) s =
     (case usage_step e s of (os, s1) \<Rightarrow> (case usage_run es s1 of (os2, s2) \<Rightarrow> (os @ os2, s2)))"

end
