(* ===== verification/ReadUsageFacts.thy ===== *)
theory ReadUsageFacts
  imports ReadUsage
begin

text \<open>
  What the fence around the use of reads promises: a use that is current is the last write the store took and
  acknowledged; turning off is immediate and an epoch once left is never current again; poison is for ever;
  the writes of a conversation happen in the order they were asked; and the queues are bounded.
\<close>

section \<open>What was observed\<close>

fun about :: "nat \<Rightarrow> usage_output \<Rightarrow> bool" where
  "about c (StoreCommit d n b) = (d = c)"
| "about c (CommitStored d n b) = (d = c)"
| "about c (Revoked d) = False"

definition last_seen :: "nat \<Rightarrow> usage_output list \<Rightarrow> usage_output option" where
  "last_seen c H = (if filter (about c) H = [] then None else Some (last (filter (about c) H)))"

fun epoch_written :: "nat \<Rightarrow> usage_output \<Rightarrow> nat list" where
  "epoch_written c (StoreCommit d n b) = (if d = c then [n] else [])"
| "epoch_written c r = []"

definition written :: "nat \<Rightarrow> usage_output list \<Rightarrow> nat list" where
  "written c H = concat (map (epoch_written c) H)"

lemma written_simps [simp]: "written c [] = []" "written c (H @ H') = written c H @ written c H'"
  "written c (x # H) = epoch_written c x @ written c H"
  by (simp_all add: written_def)

lemma last_seen_append: "last_seen c (H @ H') = (if filter (about c) H' = [] then last_seen c H else last_seen c H')"
  by (simp add: last_seen_def)

lemma last_seen_one [simp]: "last_seen c [x] = (if about c x then Some x else None)" "last_seen c [] = None"
  by (simp_all add: last_seen_def)

lemma not_about: "filter (about c) H = [] \<Longrightarrow> written c H = []"
proof (induction H)
  case (Cons x H)
  then show ?case by (cases x) (auto split: if_splits)
qed simp

section \<open>The invariant\<close>

definition jobs_fit :: "usage_entry \<Rightarrow> bool" where
  "jobs_fit e \<longleftrightarrow> sorted_wrt (<) (map uj_epoch (ue_jobs e)) \<and> list_all (\<lambda>j. uj_epoch j \<le> ue_epoch e) (ue_jobs e) \<and> length (ue_jobs e) \<le> 8
     \<and> list_all (\<lambda>j. uj_run j = RunWaiting) (tl (ue_jobs e)) \<and> list_all (\<lambda>j. uj_race j = Some (Ok ()) \<longrightarrow> uj_run j = RunOk) (ue_jobs e)"

definition head_fits :: "nat \<Rightarrow> usage_output list \<Rightarrow> usage_entry \<Rightarrow> bool" where
  "head_fits c H e \<longleftrightarrow>
     (case ue_jobs e of [] \<Rightarrow> True
      | j # js \<Rightarrow> (uj_run j = RunCommitting \<longrightarrow> last_seen c H = Some (StoreCommit c (uj_epoch j) (uj_on j)))
          \<and> (uj_run j = RunOk \<longrightarrow> last_seen c H = Some (CommitStored c (uj_epoch j) (uj_on j))))"

definition enabled_fits :: "nat \<Rightarrow> usage_output list \<Rightarrow> usage_entry \<Rightarrow> bool" where
  "enabled_fits c H e \<longleftrightarrow>
     (ue_enabled e \<longrightarrow> last_seen c H = Some (CommitStored c (ue_epoch e) True) \<and> list_all (\<lambda>j. uj_run j = RunOk) (ue_jobs e))"

definition written_fits :: "nat \<Rightarrow> usage_output list \<Rightarrow> usage_entry \<Rightarrow> bool" where
  "written_fits c H e \<longleftrightarrow> sorted_wrt (<) (written c H) \<and> list_all (\<lambda>n. n \<le> ue_epoch e) (written c H)
     \<and> list_all (\<lambda>j. uj_run j = RunWaiting \<longrightarrow> list_all (\<lambda>n. n < uj_epoch j) (written c H)) (ue_jobs e)"

definition entry_inv :: "nat \<Rightarrow> usage_output list \<Rightarrow> nat \<Rightarrow> usage_entry \<Rightarrow> bool" where
  "entry_inv c H k e \<longleftrightarrow> ue_epoch e \<le> k \<and> jobs_fit e \<and> head_fits c H e \<and> enabled_fits c H e \<and> written_fits c H e"

text \<open>The invariant at one conversation, registered or not.\<close>

definition fits_at :: "usage_output list \<Rightarrow> nat \<Rightarrow> usage_entry option \<Rightarrow> nat \<Rightarrow> bool" where
  "fits_at H k m c \<longleftrightarrow> (case m of None \<Rightarrow> filter (about c) H = [] | Some e \<Rightarrow> entry_inv c H k e)"

lemma fits_at_simps [simp]: "fits_at H k None c \<longleftrightarrow> filter (about c) H = []" "fits_at H k (Some e) c \<longleftrightarrow> entry_inv c H k e"
  by (simp_all add: fits_at_def)

definition usage_inv :: "usage_output list \<Rightarrow> usage \<Rightarrow> bool" where
  "usage_inv H s \<longleftrightarrow> wf_map (us_entries s) \<and> length (us_entries s) \<le> 4 \<and> (\<forall>c. fits_at H (us_counter s) (map_of (us_entries s) c) c)"

lemma entry_inv_quiet:
  assumes "entry_inv c H k e" and "filter (about c) H' = []" and "k \<le> k'"
  shows "entry_inv c (H @ H') k' e"
proof -
  have eq: "last_seen c (H @ H') = last_seen c H" "written c (H @ H') = written c H"
    using assms(2) not_about [OF assms(2)] by (simp_all add: last_seen_append)
  have "head_fits c (H @ H') e = head_fits c H e" "enabled_fits c (H @ H') e = enabled_fits c H e"
    "written_fits c (H @ H') e = written_fits c H e"
    by (simp_all only: head_fits_def enabled_fits_def written_fits_def eq)
  then show ?thesis using assms by (simp add: entry_inv_def)
qed

lemma fits_at_quiet: "fits_at H k m c \<Longrightarrow> filter (about c) H' = [] \<Longrightarrow> k \<le> k' \<Longrightarrow> fits_at (H @ H') k' m c"
  using entry_inv_quiet by (cases m) auto

lemma usage_inv_entry: "usage_inv H s \<Longrightarrow> map_of (us_entries s) c = Some e \<Longrightarrow> entry_inv c H (us_counter s) e"
  unfolding usage_inv_def by (metis fits_at_simps(2))

text \<open>A step of one conversation.\<close>

lemma usage_inv_put:
  assumes "usage_inv H s" and "us_entries s' = put c e (us_entries s)" and "us_counter s \<le> us_counter s'"
    and "c \<in> keys (us_entries s) \<or> length (us_entries s) < 4"
    and "entry_inv c (H @ os) (us_counter s') e" and "\<And>d. d \<noteq> c \<Longrightarrow> filter (about d) os = []"
  shows "usage_inv (H @ os) s'"
proof -
  have "fits_at (H @ os) (us_counter s') (map_of (us_entries s') d) d" for d
  proof (cases "d = c")
    case True
    then show ?thesis using assms(5) by (simp add: assms(2))
  next
    case False
    then have "fits_at H (us_counter s) (map_of (us_entries s') d) d" using assms(1) by (simp add: usage_inv_def assms(2))
    then show ?thesis using fits_at_quiet assms(3) assms(6) [OF False] by blast
  qed
  moreover have "wf_map (us_entries s') \<and> length (us_entries s') \<le> 4"
    using assms(1,4) unfolding usage_inv_def assms(2) by (auto simp: length_put)
  ultimately show ?thesis by (simp add: usage_inv_def)
qed

lemma usage_inv_set:
  assumes "usage_inv H s" and "map_of (us_entries s) c = Some e0" and "entry_inv c (H @ os) (us_counter s) e"
    and "\<And>d. d \<noteq> c \<Longrightarrow> filter (about d) os = []"
  shows "usage_inv (H @ os) (set_usage c e s)"
  by (rule usage_inv_put [OF assms(1) _ _ _ _ assms(4)]) (use assms(3) map_of_Some_key [OF assms(2)] in \<open>simp_all add: set_usage_def\<close>)

lemma usage_inv_set_quiet:
  assumes "usage_inv H s" and "map_of (us_entries s) c = Some e0" and "entry_inv c H (us_counter s) e"
  shows "usage_inv H (set_usage c e s)"
  using usage_inv_set [OF assms(1,2), of "[]"] assms(3) by simp

lemma usage_inv_quiet_outputs:
  assumes "usage_inv H s" and "\<And>d. filter (about d) os = []"
  shows "usage_inv (H @ os) s"
  using assms fits_at_quiet [of H "us_counter s" _ _ os] by (auto simp: usage_inv_def)

lemma inv_later: "usage_inv H s \<Longrightarrow> us_entries s' = us_entries s \<Longrightarrow> us_counter s \<le> us_counter s' \<Longrightarrow> usage_inv H s'"
  unfolding usage_inv_def using fits_at_quiet [of H "us_counter s" _ _ "[]" "us_counter s'"] by auto

section \<open>Every step keeps it\<close>

lemma worse_parts [simp]:
  "ue_jobs (worse b e) = ue_jobs e" "ue_epoch (worse b e) = ue_epoch e" "ue_enabled (worse b e) = (ue_enabled e \<and> \<not> b)"
  by (simp_all add: worse_def)

lemma entry_inv_worse:
  assumes "entry_inv c H k e" shows "entry_inv c H k (worse b e)"
  using assms by (auto simp: entry_inv_def jobs_fit_def head_fits_def enabled_fits_def written_fits_def)

lemma entry_inv_fenced:
  assumes "entry_inv c H k e" and "ue_epoch e \<le> n" and "n \<le> k'" and "e' = e\<lparr>ue_enabled := False, ue_uncertain := u, ue_epoch := n\<rparr>"
  shows "entry_inv c H k' e'"
  using assms unfolding entry_inv_def jobs_fit_def head_fits_def enabled_fits_def written_fits_def
  by (auto simp: list_all_iff split: list.splits)

lemma poison_inv:
  assumes "usage_inv H s" and "poison s = (os, s')"
  shows "usage_inv (H @ os) s'"
proof (cases "us_poisoned s")
  case True
  then show ?thesis using assms by (simp add: poison_def)
next
  case False
  let ?n = "if int (us_counter s) < max_safe then us_counter s + 1 else us_counter s"
  have p: "os = map (\<lambda>(c, e). Revoked c) (us_entries s)"
    "s' = s\<lparr>us_poisoned := True, us_counter := ?n, us_entries := map (\<lambda>(c, e). (c, fence_entry ?n e)) (us_entries s)\<rparr>"
    using assms(2) False by (simp_all add: poison_def Let_def)
  have m: "map_of (map (\<lambda>(c, e). (c, f e)) kvs) c = map_option f (map_of kvs c)" for f kvs and c :: nat by (induction kvs) auto
  have q: "filter (about d) os = []" for d unfolding p(1) by (auto simp: filter_empty_conv)
  have "fits_at H (us_counter s') (map_of (us_entries s') d) d" for d
  proof (cases "map_of (us_entries s) d")
    case None
    then have "fits_at H (us_counter s) None d" using assms(1) unfolding usage_inv_def by metis
    then show ?thesis using None by (simp add: p(2) m)
  next
    case (Some e)
    have i: "entry_inv d H (us_counter s) e" by (rule usage_inv_entry [OF assms(1) Some])
    have "entry_inv d H ?n (fence_entry ?n e)"
      by (rule entry_inv_fenced [OF i, where n = ?n and u = True]) (use i in \<open>auto simp: entry_inv_def fence_entry_def\<close>)
    then show ?thesis using Some by (simp add: p(2) m)
  qed
  moreover have "wf_map (us_entries s')" "length (us_entries s') \<le> 4"
    using assms(1) unfolding p(2) usage_inv_def wf_map_def by (simp_all add: comp_def case_prod_unfold)
  ultimately have "usage_inv H s'" by (simp add: usage_inv_def)
  then show ?thesis by (rule usage_inv_quiet_outputs) (rule q)
qed

lemma poisoned_if_inv: "usage_inv H s \<Longrightarrow> poisoned_if b s = (os, s') \<Longrightarrow> usage_inv (H @ os) s'"
  using poison_inv by (auto simp: poisoned_if_def split: if_splits)

lemma poison_poisons: "poison s = (os, s') \<Longrightarrow> us_poisoned s'"
  by (auto simp: poison_def Let_def split: if_splits)

lemma next_epoch_inv:
  assumes "usage_inv H s" and "next_epoch s = (res, os, s')"
  shows "usage_inv (H @ os) s'"
proof -
  have "usage_inv H (s\<lparr>us_exhausted := True\<rparr>)" "usage_inv H (s\<lparr>us_counter := us_counter s + 1\<rparr>)"
    by (rule inv_later [OF assms(1)]; simp)+
  then show ?thesis
    using assms poison_inv by (auto simp: next_epoch_def split: if_splits prod.splits)
qed

lemma next_epoch_Ok: "next_epoch s = (Ok n, os, s') \<Longrightarrow> n = us_counter s + 1 \<and> os = [] \<and> s' = s\<lparr>us_counter := n\<rparr>"
  by (auto simp: next_epoch_def split: if_splits prod.splits)

lemma register_inv:
  assumes "usage_inv H s" and "register_conversation a v s = (res, os, s')"
  shows "usage_inv (H @ os) s'"
proof (cases "\<exists>c. a = us_authority s \<and> \<not> us_poisoned s \<and> v = JRef c \<and> c \<notin> keys (us_entries s) \<and> \<not> 4 \<le> length (us_entries s)")
  case False
  then show ?thesis using assms by (auto simp: register_conversation_def split: if_splits jsval.splits)
next
  case True
  then obtain c where c: "a = us_authority s" "\<not> us_poisoned s" "v = JRef c" "c \<notin> keys (us_entries s)" "\<not> 4 \<le> length (us_entries s)" by blast
  obtain r os1 s1 where n: "next_epoch s = (r, os1, s1)" by (metis prod_cases3)
  show ?thesis
  proof (cases r)
    case (Inl x)
    then show ?thesis using assms c n next_epoch_inv [OF assms(1) n] by (simp add: register_conversation_def)
  next
    case (Inr k)
    note ok = next_epoch_Ok [OF n [unfolded Inr]]
    let ?e = "\<lparr>ue_epoch = k, ue_enabled = False, ue_uncertain = False, ue_jobs = []\<rparr>"
    have r: "os = []" "s' = set_usage c ?e s1" using assms(2) c n Inr ok by (simp_all add: register_conversation_def)
    have "map_of (us_entries s) c = None" using c(4) by (simp add: map_of_None_iff)
    then have silent: "filter (about c) H = []" using assms(1) unfolding usage_inv_def by (metis fits_at_simps(1))
    have "entry_inv c (H @ []) k ?e"
      using silent not_about [OF silent] by (simp add: entry_inv_def jobs_fit_def head_fits_def enabled_fits_def written_fits_def)
    moreover have "us_entries s' = put c ?e (us_entries s)" "us_counter s' = k" using r(2) ok by (simp_all add: set_usage_def)
    ultimately have "usage_inv (H @ []) s'"
      using usage_inv_put [OF assms(1), of s' c ?e "[]"] ok c(5) by simp
    then show ?thesis using r(1) by simp
  qed
qed

lemma make_uncertain_inv:
  assumes "usage_inv H s" shows "usage_inv H (make_uncertain c s)"
proof (cases "map_of (us_entries s) c")
  case (Some e)
  have "entry_inv c H (us_counter s) (worse True e)" by (rule entry_inv_worse [OF usage_inv_entry [OF assms Some]])
  then show ?thesis using usage_inv_set_quiet [OF assms Some] Some by (simp add: make_uncertain_def worse_def)
qed (use assms in \<open>simp add: make_uncertain_def\<close>)

lemma entry_inv_uncertain: "entry_inv c H k e \<Longrightarrow> entry_inv c H k (e\<lparr>ue_uncertain := u\<rparr>)"
  unfolding entry_inv_def jobs_fit_def head_fits_def enabled_fits_def written_fits_def by simp

text \<open>A conversation that is off can take a job newer than everything before.\<close>

definition room_for :: "nat \<Rightarrow> usage_output list \<Rightarrow> nat \<Rightarrow> usage_entry \<Rightarrow> bool" where
  "room_for c H n e \<longleftrightarrow> \<not> ue_enabled e \<and> ue_epoch e = n \<and> list_all (\<lambda>j. uj_epoch j < n) (ue_jobs e) \<and> list_all (\<lambda>m. m < n) (written c H)"

lemma entry_inv_add:
  assumes "entry_inv c H k e" and "room_for c H n e" and "length (ue_jobs e) < 8" and "uj_epoch j = n" and "uj_run j = RunWaiting"
    and "uj_race j \<noteq> Some (Ok ())"
  shows "entry_inv c H k (e\<lparr>ue_jobs := ue_jobs e @ [j]\<rparr>)"
  using assms unfolding entry_inv_def jobs_fit_def head_fits_def enabled_fits_def written_fits_def room_for_def
  by (cases "ue_jobs e") (auto simp: sorted_wrt_append list_all_iff)

lemma enqueue_inv:
  assumes "usage_inv H s" and "map_of (us_entries s) c = Some e" and "room_for c H n e"
    and "enqueue_usage c n on t s = (res, os, s')"
  shows "usage_inv (H @ os) s'"
proof (cases "8 \<le> length (ue_jobs e)")
  case True
  have "usage_inv H (set_usage c (e\<lparr>ue_uncertain := True\<rparr>) s)"
    by (rule usage_inv_set_quiet [OF assms(1,2) entry_inv_uncertain [OF usage_inv_entry [OF assms(1,2)]]])
  then show ?thesis using assms(2,4) True by (simp add: enqueue_usage_def)
next
  case False
  obtain os1 s1 where p: "poisoned_if (st_clock_back t) s = (os1, s1)" by force
  have i1: "usage_inv (H @ os1) s1" by (rule poisoned_if_inv [OF assms(1) p])
  have unc: "usage_inv (H @ os1) (make_uncertain c s1)" by (rule make_uncertain_inv [OF i1])
  show ?thesis
  proof (cases "st_clock t = None \<or> us_poisoned s1 \<or> us_exhausted s1 \<or> ue_uncertain e")
    case True
    then show ?thesis using assms(2,4) False p unc by (auto simp: enqueue_usage_def split: option.splits)
  next
    case go: False
    then obtain started where st: "st_clock t = Some started" by auto
    have "s1 = s" "os1 = []" using go p poison_poisons by (auto simp: poisoned_if_def split: if_splits)
    let ?j = "new_usage_job n on started (us_deadline s) (st_timer t)"
    let ?s2 = "if st_timer t then s else make_uncertain c s"
    have i2: "usage_inv H ?s2" using assms(1) make_uncertain_inv by simp
    obtain e2 where e2: "map_of (us_entries ?s2) c = Some e2" "ue_jobs e2 = ue_jobs e" "room_for c H n e2"
      using assms(2,3) by (cases "st_timer t") (auto simp: make_uncertain_def set_usage_def room_for_def)
    have "entry_inv c H (us_counter ?s2) (e2\<lparr>ue_jobs := ue_jobs e2 @ [?j]\<rparr>)"
      by (rule entry_inv_add [OF usage_inv_entry [OF i2 e2(1)] e2(3)]) (use False e2(2) in \<open>auto simp: new_usage_job_def\<close>)
    then have i3: "usage_inv H (add_job c ?j ?s2)"
      using usage_inv_set_quiet [OF i2 e2(1)] e2(1) by (simp add: add_job_def)
    obtain os4 s4 where q: "poisoned_if (st_timer_back t) (add_job c ?j ?s2) = (os4, s4)" by force
    have "os = os4" "s' = s4"
      using assms(2,4) False go p q st \<open>s1 = s\<close> \<open>os1 = []\<close> by (simp_all add: enqueue_usage_def Let_def)
    then show ?thesis using poisoned_if_inv [OF i3 q] by simp
  qed
qed

lemma ask_inv:
  assumes "usage_inv H s" and "ask_usage on a c t s = (res, os, s')"
  shows "usage_inv (H @ os) s'"
proof (cases "\<exists>e. a = us_authority s \<and> \<not> us_poisoned s \<and> map_of (us_entries s) c = Some e \<and> \<not> (on \<and> ue_uncertain e) \<and> \<not> (on \<and> 8 \<le> length (ue_jobs e))")
  case False
  then have "os = []" "s' = s" using assms(2) by (auto simp: ask_usage_def split: if_splits option.splits)
  then show ?thesis using assms(1) by simp
next
  case True
  then obtain e where e: "a = us_authority s" "\<not> us_poisoned s" "map_of (us_entries s) c = Some e"
    "\<not> (on \<and> ue_uncertain e)" "\<not> (on \<and> 8 \<le> length (ue_jobs e))" by blast
  obtain r os1 s1 where n: "next_epoch s = (r, os1, s1)" by (metis prod_cases3)
  show ?thesis
  proof (cases r)
    case (Inl x)
    then show ?thesis using assms e n next_epoch_inv [OF assms(1) n] by (simp add: ask_usage_def)
  next
    case (Inr k)
    note ok = next_epoch_Ok [OF n [unfolded Inr]]
    let ?e = "e\<lparr>ue_epoch := k, ue_enabled := False\<rparr>"
    note inv_e = usage_inv_entry [OF assms(1) e(3)]
    have low: "list_all (\<lambda>j. uj_epoch j < k) (ue_jobs e)" "list_all (\<lambda>m. m < k) (written c H)" "ue_epoch e \<le> k"
      using inv_e ok by (auto simp: entry_inv_def jobs_fit_def written_fits_def list_all_iff)
    have "entry_inv c H k ?e"
      by (rule entry_inv_fenced [OF inv_e low(3), where u = "ue_uncertain e"]) simp_all
    then have i1: "usage_inv (H @ []) (set_usage c ?e s1)"
      by (intro usage_inv_put [OF assms(1)]) (use ok map_of_Some_key [OF e(3)] in \<open>simp_all add: set_usage_def\<close>)
    obtain q os2 s2 where en: "enqueue_usage c k on t (set_usage c ?e s1) = (q, os2, s2)" by (metis prod_cases3)
    have "map_of (us_entries (set_usage c ?e s1)) c = Some ?e" by (simp add: set_usage_def)
    moreover have "room_for c H k ?e" using low by (simp add: room_for_def)
    ultimately have i2: "usage_inv (H @ os2) s2" using enqueue_inv [OF _ _ _ en] i1 by simp
    let ?s3 = "if st_notified t then s2
               else case map_of (us_entries s2) c of None \<Rightarrow> s2 | Some e2 \<Rightarrow> set_usage c (e2\<lparr>ue_uncertain := True\<rparr>) s2"
    have i3: "usage_inv (H @ os2) ?s3"
      using i2 usage_inv_set_quiet [OF i2] entry_inv_uncertain usage_inv_entry [OF i2] by (auto split: option.split)
    have "os = os2 @ [Revoked c]" "s' = ?s3"
      using assms(2) e n Inr en ok by (simp_all add: ask_usage_def Let_def)
    then show ?thesis using usage_inv_quiet_outputs [OF i3, of "[Revoked c]"] by simp
  qed
qed

text \<open>Changes of a job that leave its epoch and its run alone.\<close>

lemma entry_inv_alike:
  assumes "entry_inv c H k e" and "ue_epoch e' = ue_epoch e" and "ue_enabled e' \<longrightarrow> ue_enabled e"
    and "map uj_epoch (ue_jobs e') = map uj_epoch (ue_jobs e)" and "map uj_run (ue_jobs e') = map uj_run (ue_jobs e)"
    and "map uj_on (ue_jobs e') = map uj_on (ue_jobs e)"
    and "list_all (\<lambda>j. uj_race j = Some (Ok ()) \<longrightarrow> uj_run j = RunOk) (ue_jobs e')"
  shows "entry_inv c H k e'"
proof -
  have all: "list_all (\<lambda>j. P (uj_epoch j) (uj_run j)) (ue_jobs e') = list_all (\<lambda>j. P (uj_epoch j) (uj_run j)) (ue_jobs e)" for P
  proof -
    have z: "list_all (\<lambda>j. P (uj_epoch j) (uj_run j)) js = list_all (\<lambda>(n, r). P n r) (zip (map uj_epoch js) (map uj_run js))" for js
      by (induction js) auto
    show ?thesis by (simp only: z [of "ue_jobs e'"] z [of "ue_jobs e"] assms(4,5))
  qed
  have len: "length (ue_jobs e') = length (ue_jobs e)" using assms(4) by (metis length_map)
  have t: "list_all (\<lambda>j. uj_run j = RunWaiting) (tl js) = list_all (\<lambda>r. r = RunWaiting) (tl (map uj_run js))" for js
    by (cases js) (auto simp: list_all_iff)
  have "jobs_fit e'"
    using assms(1,2,4,5,7) len all [of "\<lambda>n r. n \<le> ue_epoch e"] by (auto simp: entry_inv_def jobs_fit_def t)
  moreover have "head_fits c H e'"
    using assms(1,4,5,6) by (cases "ue_jobs e"; cases "ue_jobs e'") (auto simp: entry_inv_def head_fits_def)
  moreover have "enabled_fits c H e'"
    using assms(1,2,3) all [of "\<lambda>n r. r = RunOk"] by (auto simp: entry_inv_def enabled_fits_def)
  moreover have "written_fits c H e'"
    using assms(1,2) all [of "\<lambda>n r. r = RunWaiting \<longrightarrow> list_all (\<lambda>m. m < n) (written c H)"] by (auto simp: entry_inv_def written_fits_def)
  ultimately show ?thesis using assms(1,2) by (simp add: entry_inv_def)
qed

lemma map_update_same: "f j = f (xs ! i) \<Longrightarrow> map f (xs[i := j]) = map f xs"
  by (metis list_update_id map_update)

lemma entry_inv_update:
  assumes "entry_inv c H k e" and "i < length (ue_jobs e)" and "uj_epoch j = uj_epoch (ue_jobs e ! i)" and "uj_run j = uj_run (ue_jobs e ! i)"
    and "uj_on j = uj_on (ue_jobs e ! i)" and "uj_race j = Some (Ok ()) \<longrightarrow> uj_race (ue_jobs e ! i) = Some (Ok ())"
    and "ue_epoch e' = ue_epoch e" and "ue_enabled e' \<longrightarrow> ue_enabled e" and "ue_jobs e' = (ue_jobs e)[i := j]"
  shows "entry_inv c H k e'"
proof (rule entry_inv_alike [OF assms(1) assms(7,8)])
  have old: "list_all (\<lambda>j. uj_race j = Some (Ok ()) \<longrightarrow> uj_run j = RunOk) (ue_jobs e)" using assms(1) by (simp add: entry_inv_def jobs_fit_def)
  then have "uj_race (ue_jobs e ! i) = Some (Ok ()) \<longrightarrow> uj_run (ue_jobs e ! i) = RunOk" using assms(2) by (simp add: list_all_length)
  then show "list_all (\<lambda>j. uj_race j = Some (Ok ()) \<longrightarrow> uj_run j = RunOk) (ue_jobs e')"
    using old assms(2,4,6,9) by (auto simp: list_all_length nth_list_update)
qed (simp_all add: assms map_update_same)

lemma timer_inv:
  assumes "usage_inv H s" shows "usage_inv H (timer_fires c i s)"
proof (cases "\<exists>e. map_of (us_entries s) c = Some e \<and> i < length (ue_jobs e) \<and> uj_timer (ue_jobs e ! i)")
  case False
  then show ?thesis using assms by (auto simp: timer_fires_def not_le split: option.split)
next
  case True
  then obtain e where e: "map_of (us_entries s) c = Some e" "i < length (ue_jobs e)" "uj_timer (ue_jobs e ! i)" by blast
  let ?j = "(ue_jobs e ! i)\<lparr>uj_timer := False, uj_race := (case uj_race (ue_jobs e ! i) of None \<Rightarrow> Some (Err UsUnconfirmed) | Some r \<Rightarrow> Some r)\<rparr>"
  have "entry_inv c H (us_counter s) ((worse True e)\<lparr>ue_jobs := (ue_jobs e)[i := ?j]\<rparr>)"
    by (rule entry_inv_update [OF usage_inv_entry [OF assms e(1)] e(2)]) (auto split: option.splits)
  then show ?thesis using usage_inv_set_quiet [OF assms e(1)] e by (simp add: timer_fires_def Let_def not_le)
qed

lemma sample_same: "sample_expired now j = (late, j1) \<Longrightarrow>
   uj_epoch j1 = uj_epoch j \<and> uj_run j1 = uj_run j \<and> uj_on j1 = uj_on j \<and> uj_race j1 = uj_race j \<and> uj_timer j1 = uj_timer j"
  by (auto simp: sample_expired_def split: option.splits if_splits)

text \<open>An acknowledgement that won the race is the first job's, and when it turns the use on it is the only one.\<close>

lemma published_alone:
  assumes "entry_inv c H k e" and "i < length (ue_jobs e)" and "uj_race (ue_jobs e ! i) = Some (Ok ())" and "uj_epoch (ue_jobs e ! i) = ue_epoch e"
  shows "i = 0 \<and> ue_jobs e = [ue_jobs e ! 0] \<and> uj_run (ue_jobs e ! 0) = RunOk"
proof -
  have fit: "jobs_fit e" using assms(1) by (simp add: entry_inv_def)
  have run: "uj_run (ue_jobs e ! i) = RunOk" using fit assms(2,3) by (simp add: jobs_fit_def list_all_length)
  obtain j js where jobs: "ue_jobs e = j # js" using assms(2) by (cases "ue_jobs e") auto
  have "i = 0"
  proof (rule ccontr)
    assume "i \<noteq> 0"
    then have "ue_jobs e ! i \<in> set js" using assms(2) jobs by (cases i) auto
    then show False using fit run jobs by (auto simp: jobs_fit_def list_all_iff)
  qed
  moreover have "js = []"
  proof (cases js)
    case (Cons j2 js2)
    then have "uj_epoch j < uj_epoch j2" "uj_epoch j2 \<le> ue_epoch e" using fit jobs by (auto simp: jobs_fit_def)
    then show ?thesis using assms(4) jobs \<open>i = 0\<close> by simp
  qed
  ultimately show ?thesis using jobs run by simp
qed

lemma ack_inv:
  assumes "usage_inv H s" shows "usage_inv H (ack_settles c i cleared now s)"
proof (cases "\<exists>e res. map_of (us_entries s) c = Some e \<and> i < length (ue_jobs e) \<and> uj_ack (ue_jobs e ! i) = None \<and> uj_race (ue_jobs e ! i) = Some res")
  case False
  then show ?thesis using assms by (auto simp: ack_settles_def Let_def not_le split: option.split)
next
  case True
  then obtain e res where e: "map_of (us_entries s) c = Some e" "i < length (ue_jobs e)" "uj_ack (ue_jobs e ! i) = None"
    "uj_race (ue_jobs e ! i) = Some res" by blast
  note inv = usage_inv_entry [OF assms e(1)]
  let ?j = "(ue_jobs e ! i)\<lparr>uj_timer := False\<rparr>"
  obtain late j1 where s: "sample_expired now ?j = (late, j1)" by force
  note same = sample_same [OF s]
  have quiet: "usage_inv H (set_usage c (e'\<lparr>ue_jobs := (ue_jobs e)[i := j'\<lparr>uj_ack := a\<rparr>]\<rparr>) s)"
    if "j' = ?j \<or> j' = j1" "ue_epoch e' = ue_epoch e" "ue_enabled e' \<longrightarrow> ue_enabled e" for e' j' a
    by (rule usage_inv_set_quiet [OF assms e(1) entry_inv_update [OF inv e(2)]]) (use that same in auto)
  have publish: "usage_inv H (set_usage c (e'\<lparr>ue_enabled := True, ue_jobs := (ue_jobs e)[i := j1\<lparr>uj_ack := Some (Ok ())\<rparr>]\<rparr>) s)"
    if "uj_on ?j" "ue_epoch e' = uj_epoch ?j" "ue_epoch e' = ue_epoch e" "res = Ok ()" for e'
  proof -
    have alone: "i = 0" "ue_jobs e = [ue_jobs e ! 0]" "uj_run (ue_jobs e ! 0) = RunOk"
      using published_alone [OF inv e(2)] e(4) that by auto
    obtain j where j: "ue_jobs e = [j]" "uj_run j = RunOk" using alone(2,3) by metis
    have "entry_inv c H (us_counter s) (e\<lparr>ue_enabled := True\<rparr>)"
      using inv j that alone(1) by (auto simp: entry_inv_def jobs_fit_def head_fits_def enabled_fits_def written_fits_def)
    then have "entry_inv c H (us_counter s) (e'\<lparr>ue_enabled := True, ue_jobs := (ue_jobs e)[i := j1\<lparr>uj_ack := Some (Ok ())\<rparr>]\<rparr>)"
      by (rule entry_inv_update) (use e(2) same that in auto)
    then show ?thesis by (rule usage_inv_set_quiet [OF assms e(1)])
  qed
  show ?thesis
  proof (cases "cleared \<and> res = Ok () \<and> \<not> (us_poisoned s \<or> us_exhausted s \<or> ue_uncertain (worse late e)) \<and> uj_on ?j \<and> ue_epoch e = uj_epoch ?j")
    case True
    then show ?thesis using e s publish [of "worse late e"] by (simp add: ack_settles_def Let_def not_le)
  next
    case False
    show ?thesis
      using e s False quiet [of ?j e] quiet [of ?j "worse True e"] quiet [of j1 "worse late e"]
        quiet [of j1 "(worse late e)\<lparr>ue_enabled := ue_enabled e \<and> \<not> late\<rparr>"]
      by (cases res) (auto simp: ack_settles_def Let_def not_le)
  qed
qed

lemma head_job_Some: "head_job c s = Some (e, j, js) \<longleftrightarrow> map_of (us_entries s) c = Some e \<and> ue_jobs e = j # js"
  by (auto simp: head_job_def split: option.split list.split)

text \<open>The first job fails, or its write is acknowledged.\<close>

lemma entry_inv_head:
  assumes "entry_inv c H k e" and "ue_jobs e = j # js" and "uj_run j = RunWaiting \<or> uj_run j = RunCommitting"
    and "uj_epoch j' = uj_epoch j" and "uj_on j' = uj_on j" and "ue_epoch e' = ue_epoch e" and "ue_enabled e' \<longrightarrow> ue_enabled e"
    and "ue_jobs e' = j' # js" and "uj_run j' \<noteq> RunWaiting" and "uj_race j' = Some (Ok ()) \<longrightarrow> uj_run j' = RunOk"
    and "os = [] \<and> (\<exists>x. uj_run j' = RunErr x)
       \<or> os = [StoreCommit c (uj_epoch j) (uj_on j)] \<and> uj_run j = RunWaiting \<and> uj_run j' \<noteq> RunOk
       \<or> os = [CommitStored c (uj_epoch j) (uj_on j)] \<and> uj_run j' \<noteq> RunCommitting"
  shows "entry_inv c (H @ os) k e'"
proof -
  have off: "\<not> ue_enabled e" using assms(1,2,3) by (auto simp: entry_inv_def enabled_fits_def)
  have fit: "jobs_fit e'" using assms(1,2,4,6,8,9,10) by (auto simp: entry_inv_def jobs_fit_def)
  have head: "head_fits c (H @ os) e'"
    using assms(1,2,4,5,8,11) by (auto simp: head_fits_def last_seen_append)
  have enabled: "enabled_fits c (H @ os) e'" using off assms(7) by (simp add: enabled_fits_def)
  have w: "written_fits c H e" "uj_epoch j \<le> ue_epoch e" "list_all (\<lambda>i. uj_epoch j < uj_epoch i) js"
    using assms(1,2) by (auto simp: entry_inv_def jobs_fit_def list_all_iff)
  have "written_fits c (H @ os) e'"
    using assms(11)
  proof (elim disjE conjE)
    assume "os = [StoreCommit c (uj_epoch j) (uj_on j)]" "uj_run j = RunWaiting"
    then show ?thesis
      using w assms(2,6,8,9) by (auto simp: written_fits_def sorted_wrt_append list_all_iff)
  qed (use w assms(2,6,8,9) in \<open>auto simp: written_fits_def\<close>)
  then show ?thesis using fit head enabled assms(1,6) by (simp add: entry_inv_def)
qed

lemma run_settled_parts [simp]:
  "uj_epoch (run_settled r j) = uj_epoch j" "uj_on (run_settled r j) = uj_on j"
  "uj_run (run_settled (Err x) j) = RunErr x" "uj_run (run_settled (Ok u) j) = RunOk"
  "uj_race (run_settled r j) = (case uj_race j of None \<Rightarrow> Some r | Some q \<Rightarrow> Some q)"
  by (simp_all add: run_settled_def)

lemma run_settled_over:
  "uj_run (run_settled r j) \<noteq> RunWaiting" "uj_run (run_settled r j) \<noteq> RunCommitting"
  "uj_race j \<noteq> Some (Ok ()) \<Longrightarrow> uj_race (run_settled r j) = Some (Ok ()) \<longrightarrow> uj_run (run_settled r j) = RunOk"
  "uj_race j \<noteq> Some (Ok ()) \<Longrightarrow> uj_race (run_settled (Err x) j) \<noteq> Some (Ok ())"
  by (cases r; auto simp: run_settled_def split: option.split)+

lemma race_open:
  assumes "entry_inv c H k e" and "ue_jobs e = j # js" and "uj_run j = RunWaiting \<or> uj_run j = RunCommitting"
  shows "uj_race j \<noteq> Some (Ok ())"
  using assms by (auto simp: entry_inv_def jobs_fit_def)

lemma begins_inv:
  assumes "usage_inv H s" and "run_begins c now accepted s = (os, s')"
  shows "usage_inv (H @ os) s'"
proof (cases "\<exists>e j js. head_job c s = Some (e, j, js) \<and> uj_run j = RunWaiting")
  case False
  then show ?thesis using assms by (auto simp: run_begins_def split: option.splits if_splits prod.splits)
next
  case True
  then obtain e j js where h: "head_job c s = Some (e, j, js)" "uj_run j = RunWaiting" by blast
  note e = h(1) [unfolded head_job_Some]
  note inv = usage_inv_entry [OF assms(1) conjunct1 [OF e]]
  note open_race = race_open [OF inv conjunct2 [OF e]]
  obtain late j1 where s: "sample_expired now j = (late, j1)" by force
  note same = sample_same [OF s]
  have step: "usage_inv (H @ os2) (set_usage c ((worse b e)\<lparr>ue_jobs := j2 # js\<rparr>) s)"
    if "os2 = [] \<and> (\<exists>x. uj_run j2 = RunErr x) \<or> os2 = [StoreCommit c (uj_epoch j) (uj_on j)] \<and> uj_run j2 \<noteq> RunOk"
      "uj_epoch j2 = uj_epoch j" "uj_on j2 = uj_on j" "uj_run j2 \<noteq> RunWaiting" "uj_race j2 \<noteq> Some (Ok ())" for os2 j2 b
    by (rule usage_inv_set [OF assms(1) conjunct1 [OF e]], rule entry_inv_head [OF inv conjunct2 [OF e]])
      (use that h(2) in auto)
  have nest: "worse True (worse late e) = worse True e" by (simp add: worse_def)
  show ?thesis
  proof (cases "ue_uncertain (worse late e) \<or> us_poisoned s")
    case True
    then have "os = []" "s' = set_usage c ((worse late e)\<lparr>ue_jobs := run_settled (Err UsUnconfirmed) j1 # js\<rparr>) s"
      using assms(2) h s by (auto simp: run_begins_def Let_def)
    then show ?thesis using step [of "[]" "run_settled (Err UsUnconfirmed) j1" late] run_settled_over(4) [of j1] same open_race h(2) by (simp del: run_settled_parts(5))
  next
    case ok: False
    show ?thesis
    proof (cases accepted)
      case True
      then have "os = [StoreCommit c (uj_epoch j) (uj_on j)]" "s' = set_usage c ((worse late e)\<lparr>ue_jobs := j1\<lparr>uj_run := RunCommitting\<rparr> # js\<rparr>) s"
        using assms(2) h s ok by (auto simp: run_begins_def Let_def)
      then show ?thesis using step [of os "j1\<lparr>uj_run := RunCommitting\<rparr>" late] same open_race h(2) by simp
    next
      case False
      then have "os = [StoreCommit c (uj_epoch j) (uj_on j)]" "s' = set_usage c ((worse True e)\<lparr>ue_jobs := run_settled (Err UsUnconfirmed) j1 # js\<rparr>) s"
        using assms(2) h s ok nest by (auto simp: run_begins_def Let_def)
      then show ?thesis using step [of os "run_settled (Err UsUnconfirmed) j1" True] run_settled_over(4) [of j1] same open_race h(2)
        by (simp del: run_settled_parts(5))
    qed
  qed
qed

lemma settles_inv:
  assumes "usage_inv H s" and "commit_settles c stored now s = (os, s')"
  shows "usage_inv (H @ os) s'"
proof (cases "\<exists>e j js. head_job c s = Some (e, j, js) \<and> uj_run j = RunCommitting")
  case False
  then show ?thesis using assms by (auto simp: commit_settles_def split: option.splits if_splits prod.splits)
next
  case True
  then obtain e j js where h: "head_job c s = Some (e, j, js)" "uj_run j = RunCommitting" by blast
  note e = h(1) [unfolded head_job_Some]
  note inv = usage_inv_entry [OF assms(1) conjunct1 [OF e]]
  note open_race = race_open [OF inv conjunct2 [OF e]]
  obtain late j1 where s: "sample_expired now j = (late, j1)" by force
  note same = sample_same [OF s]
  have failed: "usage_inv (H @ []) (set_usage c ((worse True e)\<lparr>ue_jobs := run_settled (Err UsUnconfirmed) j # js\<rparr>) s)"
    by (rule usage_inv_set [OF assms(1) conjunct1 [OF e]], rule entry_inv_head [OF inv conjunct2 [OF e]])
      (use h(2) run_settled_over(4) [OF open_race] run_settled_parts(1,2) [of "Err UsUnconfirmed" j] run_settled_parts(3) [of UsUnconfirmed j]
        in \<open>auto simp del: run_settled_parts\<close>)
  have acked: "usage_inv (H @ [CommitStored c (uj_epoch j) (uj_on j)]) (set_usage c ((worse late e)\<lparr>ue_jobs := run_settled r j1 # js\<rparr>) s)" for r
    by (rule usage_inv_set [OF assms(1) conjunct1 [OF e]], rule entry_inv_head [OF inv conjunct2 [OF e]])
      (use h(2) open_race same run_settled_over(1-3) [where r = r and j = j1] in \<open>simp_all del: run_settled_parts(5)\<close>)
  show ?thesis
    using assms(2) h s failed acked [of "Err UsUnconfirmed"] acked [of "Err UsStale"] acked [of "Ok ()"]
    by (cases stored) (auto simp: commit_settles_def Let_def split: if_splits)
qed

lemma leaves_inv:
  assumes "usage_inv H s" shows "usage_inv H (job_leaves c s)"
proof (cases "\<exists>e j js. head_job c s = Some (e, j, js) \<and> is_settled j")
  case False
  then show ?thesis using assms by (auto simp: job_leaves_def split: option.splits)
next
  case True
  then obtain e j js where h: "head_job c s = Some (e, j, js)" "is_settled j" by blast
  note e = h(1) [unfolded head_job_Some]
  have "entry_inv c H (us_counter s) (e\<lparr>ue_jobs := js\<rparr>)"
    using usage_inv_entry [OF assms conjunct1 [OF e]] conjunct2 [OF e]
    by (cases js) (auto simp: entry_inv_def jobs_fit_def head_fits_def enabled_fits_def written_fits_def)
  then show ?thesis using usage_inv_set_quiet [OF assms conjunct1 [OF e]] h by (simp add: job_leaves_def)
qed

lemma usage_step_inv:
  assumes "usage_inv H s" and "usage_step ev s = (os, s')"
  shows "usage_inv (H @ os) s'"
proof (cases ev)
  case (Register a v)
  then show ?thesis using assms register_inv by (metis prod.collapse usage_step.simps(1))
next
  case (TurnOff a c t)
  then show ?thesis using assms ask_inv unfolding usage_step.simps usage_off_def by (metis prod.collapse usage_off_def usage_step.simps(2))
next
  case (TurnOn a c t)
  then show ?thesis using assms ask_inv by (metis prod.collapse usage_on_def usage_step.simps(3))
next
  case (PoisonAll a)
  then show ?thesis using assms poison_inv by (auto simp: poison_all_def split: if_splits prod.splits)
next
  case (RunBegins c now ok)
  then show ?thesis using assms begins_inv by simp
next
  case (CommitSettles c stored now)
  then show ?thesis using assms settles_inv by simp
next
  case (TimerFires c i)
  then show ?thesis using assms timer_inv by auto
next
  case (AckSettles c i cleared now)
  then show ?thesis using assms ack_inv by auto
next
  case (JobLeaves c)
  then show ?thesis using assms leaves_inv by auto
qed

lemma usage_run_inv: "usage_run es s = (os, s') \<Longrightarrow> usage_inv H s \<Longrightarrow> usage_inv (H @ os) s'"
proof (induction es arbitrary: os s H)
  case (Cons ev es)
  obtain os1 s1 where s: "usage_step ev s = (os1, s1)" by force
  obtain os2 where r: "usage_run es s1 = (os2, s')" "os = os1 @ os2" using Cons.prems(1) s by (auto split: prod.splits)
  show ?case using Cons.IH [OF r(1) usage_step_inv [OF Cons.prems(2) s]] r(2) by simp
qed simp

lemma new_usage_inv: "new_usage a st d = Ok s \<Longrightarrow> usage_inv [] s"
  by (auto simp: new_usage_def usage_inv_def split: jsval.splits option.splits if_splits)

section \<open>Epochs only grow\<close>

definition usage_age :: "usage \<Rightarrow> usage \<Rightarrow> bool" where
  "usage_age s s' \<longleftrightarrow> (us_poisoned s \<longrightarrow> us_poisoned s') \<and> us_authority s' = us_authority s \<and> us_counter s \<le> us_counter s'
     \<and> (\<forall>c e. map_of (us_entries s) c = Some e \<longrightarrow> (\<exists>e'. map_of (us_entries s') c = Some e' \<and> ue_epoch e \<le> ue_epoch e'))"

lemma usage_age_refl [simp]: "usage_age s s"
  by (simp add: usage_age_def)

lemma usage_age_trans: "usage_age s t \<Longrightarrow> usage_age t u \<Longrightarrow> usage_age s u"
  unfolding usage_age_def by (metis order_trans)

lemma usage_age_set:
  assumes "map_of (us_entries s) c = Some e0" and "ue_epoch e0 \<le> ue_epoch e"
  shows "usage_age s (set_usage c e s)"
  using assms by (auto simp: usage_age_def set_usage_def)

lemma usage_age_new: "map_of (us_entries s) c = None \<Longrightarrow> usage_age s (set_usage c e s)"
  by (auto simp: usage_age_def set_usage_def)

lemma usage_age_flags [simp]: "usage_age s (s\<lparr>us_exhausted := b\<rparr>)" "us_counter s \<le> n \<Longrightarrow> usage_age s (s\<lparr>us_counter := n\<rparr>)"
  by (auto simp: usage_age_def)

text \<open>Epochs never exceed the counter; this is all the order needs of the invariant.\<close>

definition epochs_bounded :: "usage \<Rightarrow> bool" where
  "epochs_bounded s \<longleftrightarrow> (\<forall>c e. map_of (us_entries s) c = Some e \<longrightarrow> ue_epoch e \<le> us_counter s)"

lemma inv_epochs: "usage_inv H s \<Longrightarrow> epochs_bounded s"
  using usage_inv_entry unfolding epochs_bounded_def entry_inv_def by blast

lemma poison_age: "epochs_bounded s \<Longrightarrow> usage_age s (snd (poison s))"
proof -
  assume b: "epochs_bounded s"
  have m: "map_of (map (\<lambda>(c, e). (c, f e)) kvs) c = map_option f (map_of kvs c)" for f kvs and c :: nat by (induction kvs) auto
  show ?thesis
    using b by (auto simp: poison_def Let_def usage_age_def m fence_entry_def epochs_bounded_def intro: le_SucI)
qed

lemma epochs_flags [simp]: "epochs_bounded (s\<lparr>us_exhausted := b\<rparr>) = epochs_bounded s"
  by (simp add: epochs_bounded_def)

lemma next_epoch_age: "epochs_bounded s \<Longrightarrow> usage_age s (snd (snd (next_epoch s)))"
proof -
  assume b: "epochs_bounded s"
  have "usage_age s (snd (poison (s\<lparr>us_exhausted := True\<rparr>)))"
    by (rule usage_age_trans [OF usage_age_flags(1) poison_age]) (use b in simp)
  then show ?thesis by (auto simp: next_epoch_def split: prod.split)
qed

lemma make_uncertain_age: "usage_age s (make_uncertain c s)"
  by (auto simp: make_uncertain_def intro: usage_age_set split: option.split)

lemma add_job_age: "usage_age s (add_job c j s)"
  by (auto simp: add_job_def intro: usage_age_set split: option.split)

lemma poisoned_if_age: "epochs_bounded s \<Longrightarrow> usage_age s (snd (poisoned_if b s))"
  using poison_age by (simp add: poisoned_if_def)

lemma make_uncertain_epochs: "epochs_bounded s \<Longrightarrow> epochs_bounded (make_uncertain c s)"
  by (auto simp: make_uncertain_def epochs_bounded_def set_usage_def split: option.split)

lemma add_job_epochs: "epochs_bounded s \<Longrightarrow> epochs_bounded (add_job c j s)"
  by (auto simp: add_job_def epochs_bounded_def set_usage_def split: option.split)

lemma enqueue_age:
  assumes "epochs_bounded s" shows "usage_age s (snd (snd (enqueue_usage c n on t s)))"
proof (cases "map_of (us_entries s) c")
  case (Some e)
  obtain os1 s1 where p: "poisoned_if (st_clock_back t) s = (os1, s1)" by force
  have a1: "usage_age s s1" using poisoned_if_age [OF assms, of "st_clock_back t"] p by simp
  have unc: "usage_age s (make_uncertain c s1)" by (rule usage_age_trans [OF a1 make_uncertain_age])
  have late: "usage_age s (snd (poisoned_if b (add_job c j (if q then s1 else make_uncertain c s1))))" if "\<not> us_poisoned s1" for b j q
  proof -
    have "s1 = s" using that p poison_poisons by (auto simp: poisoned_if_def split: if_splits)
    then have e: "epochs_bounded (if q then s1 else make_uncertain c s1)" using assms make_uncertain_epochs by simp
    have "usage_age s (add_job c j (if q then s1 else make_uncertain c s1))"
      using usage_age_trans [OF a1 add_job_age] usage_age_trans [OF unc add_job_age] by simp
    then show ?thesis using usage_age_trans poisoned_if_age [OF add_job_epochs [OF e]] by blast
  qed
  show ?thesis
    using Some p unc late usage_age_set [OF Some, of "e\<lparr>ue_uncertain := True\<rparr>"]
    by (auto simp: enqueue_usage_def Let_def split: option.split prod.split) (metis snd_conv)+
qed (simp add: enqueue_usage_def)

lemma ask_age:
  assumes "epochs_bounded s" shows "usage_age s (snd (snd (ask_usage on a c t s)))"
proof (cases "\<exists>e. a = us_authority s \<and> \<not> us_poisoned s \<and> map_of (us_entries s) c = Some e \<and> \<not> (on \<and> ue_uncertain e) \<and> \<not> (on \<and> 8 \<le> length (ue_jobs e))")
  case False
  then have "snd (snd (ask_usage on a c t s)) = s" by (auto simp: ask_usage_def split: if_splits option.splits)
  then show ?thesis by simp
next
  case True
  then obtain e where e: "a = us_authority s" "\<not> us_poisoned s" "map_of (us_entries s) c = Some e"
    "\<not> (on \<and> ue_uncertain e)" "\<not> (on \<and> 8 \<le> length (ue_jobs e))" by blast
  obtain r os1 s1 where n: "next_epoch s = (r, os1, s1)" by (metis prod_cases3)
  show ?thesis
  proof (cases r)
    case (Inl x)
    then show ?thesis using e n next_epoch_age [OF assms] by (simp add: ask_usage_def)
  next
    case (Inr k)
    note ok = next_epoch_Ok [OF n [unfolded Inr]]
    let ?s = "set_usage c (e\<lparr>ue_epoch := k, ue_enabled := False\<rparr>) s1"
    have low: "ue_epoch e \<le> k" using assms e(3) ok by (auto simp: epochs_bounded_def le_SucI)
    have a1: "usage_age s s1" using ok by simp
    have "usage_age s1 ?s" by (rule usage_age_set) (use e(3) ok low in auto)
    then have a2: "usage_age s ?s" by (rule usage_age_trans [OF a1])
    have b: "epochs_bounded ?s" using assms ok by (auto simp: epochs_bounded_def set_usage_def le_SucI)
    obtain q os2 s2 where en: "enqueue_usage c k on t ?s = (q, os2, s2)" by (metis prod_cases3)
    have a3: "usage_age s s2" using usage_age_trans [OF a2 enqueue_age [OF b]] en by (metis snd_conv)
    have a4: "usage_age s2 (case map_of (us_entries s2) c of None \<Rightarrow> s2 | Some e2 \<Rightarrow> set_usage c (e2\<lparr>ue_uncertain := True\<rparr>) s2)"
      by (auto intro: usage_age_set split: option.split)
    show ?thesis
      using e n Inr en ok a3 usage_age_trans [OF a3 a4] by (auto simp: ask_usage_def Let_def)
  qed
qed

lemma usage_step_age:
  assumes "epochs_bounded s" shows "usage_age s (snd (usage_step ev s))"
proof (cases ev)
  case (Register a v)
  have "usage_age s (snd (snd (register_conversation a v s)))"
  proof -
    obtain r os1 s1 where n: "next_epoch s = (r, os1, s1)" by (metis prod_cases3)
    have a: "usage_age s s1" using next_epoch_age [OF assms] n by simp
    have "usage_age s (set_usage c e s1)" if "c \<notin> keys (us_entries s)" "r = Ok k" for c e k
    proof -
      have "map_of (us_entries s1) c = None" using that n next_epoch_Ok by (fastforce simp: map_of_None_iff)
      then show ?thesis by (rule usage_age_trans [OF a usage_age_new])
    qed
    then show ?thesis using n a by (auto simp: register_conversation_def split: jsval.split sum.split)
  qed
  then show ?thesis using Register by simp
next
  case (TurnOff a c t)
  then show ?thesis using ask_age [OF assms] by (simp add: usage_off_def)
next
  case (TurnOn a c t)
  then show ?thesis using ask_age [OF assms] by (simp add: usage_on_def)
next
  case (PoisonAll a)
  then show ?thesis using poison_age [OF assms] by (auto simp: poison_all_def split: prod.split)
next
  case (RunBegins c now ok)
  then show ?thesis
    by (auto simp: run_begins_def Let_def head_job_Some intro!: usage_age_set split: option.split prod.split)
next
  case (CommitSettles c stored now)
  then show ?thesis
    by (auto simp: commit_settles_def Let_def head_job_Some intro!: usage_age_set split: option.split prod.split)
next
  case (TimerFires c i)
  then show ?thesis by (auto simp: timer_fires_def Let_def intro!: usage_age_set split: option.split)
next
  case (AckSettles c i cleared now)
  then show ?thesis by (auto simp: ack_settles_def Let_def intro!: usage_age_set split: option.split prod.split sum.split)
next
  case (JobLeaves c)
  then show ?thesis by (auto simp: job_leaves_def head_job_Some intro!: usage_age_set split: option.split prod.split)
qed

section \<open>What the owner can rely on\<close>

text \<open>An epoch of a conversation that was left; and, with no conversation, the poison.\<close>

fun usage_over :: "(nat \<times> nat) option \<Rightarrow> usage \<Rightarrow> bool" where
  "usage_over (Some (c, n)) s \<longleftrightarrow> (\<exists>e. map_of (us_entries s) c = Some e \<and> n < ue_epoch e)"
| "usage_over None s \<longleftrightarrow> us_poisoned s"

interpretation usage_machine: aging_machine "\<lambda>e s. snd (usage_step e s)" "\<lambda>s. \<exists>H. usage_inv H s" usage_age usage_over
proof
  show "\<exists>H. usage_inv H s \<Longrightarrow> \<exists>H. usage_inv H (snd (usage_step e s))" for e s
    using usage_step_inv [of _ s e] by (metis prod.collapse)
  show "\<exists>H. usage_inv H s \<Longrightarrow> usage_age s (snd (usage_step e s))" for e s
    using usage_step_age inv_epochs by blast
  show "usage_age s s" for s by simp
  show "usage_age s t \<Longrightarrow> usage_age t u \<Longrightarrow> usage_age s u" for s t u by (rule usage_age_trans)
  show "usage_over h s \<Longrightarrow> \<exists>H. usage_inv H s \<Longrightarrow> usage_age s s' \<Longrightarrow> usage_over h s'" for h s s'
  proof (cases h)
    case None
    then show "usage_over h s \<Longrightarrow> \<exists>H. usage_inv H s \<Longrightarrow> usage_age s s' \<Longrightarrow> usage_over h s'" by (simp add: usage_age_def)
  next
    case (Some cn)
    obtain c n where cn: "cn = (c, n)" by (cases cn)
    assume "usage_over h s" "usage_age s s'"
    then obtain e where e: "map_of (us_entries s) c = Some e" "n < ue_epoch e" using Some cn by auto
    then obtain e' where "map_of (us_entries s') c = Some e'" "ue_epoch e \<le> ue_epoch e'"
      using \<open>usage_age s s'\<close> unfolding usage_age_def by blast
    then show "usage_over h s'" using e(2) Some cn by auto
  qed
qed

lemma usage_run_states: "snd (usage_run es s) = run (\<lambda>e s. snd (usage_step e s)) es s"
proof (induction es arbitrary: s)
  case (Cons ev es)
  obtain os1 s1 where a: "usage_step ev s = (os1, s1)" by (metis surj_pair)
  obtain os2 s2 where b: "usage_run es s1 = (os2, s2)" by (metis surj_pair)
  show ?case using Cons.IH [of s1] a b by simp
qed simp

lemma left_not_current:
  "usage_over (Some (c, n)) s \<Longrightarrow> \<not> usage_current c n s" "usage_over None s \<Longrightarrow> \<not> usage_current c n s"
  by (auto simp: usage_current_def split: option.split)

lemma reached_inv: "new_usage a st d = Ok s0 \<Longrightarrow> usage_inv (fst (usage_run es s0)) (snd (usage_run es s0))"
  using usage_run_inv [OF surjective_pairing new_usage_inv, of a st d s0 es] by simp

text \<open>
  C25. What is current is durable: whenever the use of a conversation is current under an epoch, the last thing
  that happened to the store for this conversation is that it acknowledged exactly this write, the use on under
  this epoch; no later write was handed to it, whatever calls, deadlines and failures came in between.
\<close>

theorem current_use_is_stored:
  assumes "new_usage a st d = Ok s0" and "usage_current c n (snd (usage_run es s0))"
  shows "last_seen c (fst (usage_run es s0)) = Some (CommitStored c n True)"
proof -
  obtain e where e: "map_of (us_entries (snd (usage_run es s0))) c = Some e" "ue_enabled e" "ue_epoch e = n"
    using assms(2) by (auto simp: usage_current_def split: option.splits)
  then show ?thesis
    using usage_inv_entry [OF reached_inv [OF assms(1)] e(1)] by (simp add: entry_inv_def enabled_fits_def)
qed

text \<open>
  The writes of a conversation are handed to the store in the order they were asked, each epoch at most
  once; four conversations at most are registered, and none ever has more than eight writes pending.
\<close>

theorem usage_writes_are_ordered:
  assumes "new_usage a st d = Ok s0"
  shows "sorted_wrt (<) (written c (fst (usage_run es s0))) \<and> length (us_entries (snd (usage_run es s0))) \<le> 4
    \<and> (case map_of (us_entries (snd (usage_run es s0))) c of None \<Rightarrow> written c (fst (usage_run es s0)) = []
       | Some e \<Rightarrow> length (ue_jobs e) \<le> 8)"
proof -
  note inv = reached_inv [OF assms, of es]
  show ?thesis
  proof (cases "map_of (us_entries (snd (usage_run es s0))) c")
    case None
    then have "filter (about c) (fst (usage_run es s0)) = []" using inv unfolding usage_inv_def by (metis fits_at_simps(1))
    then show ?thesis using None inv not_about by (simp add: usage_inv_def)
  next
    case (Some e)
    then show ?thesis
      using inv usage_inv_entry [OF inv Some] by (simp add: usage_inv_def entry_inv_def written_fits_def jobs_fit_def)
  qed
qed

lemma enqueue_stays_off:
  assumes "map_of (us_entries s) c = Some e" and "\<not> ue_enabled e" and "enqueue_usage c n on t s = (res, os, s')"
  shows "\<exists>e'. map_of (us_entries s') c = Some e' \<and> \<not> ue_enabled e'"
proof -
  have m: "map_of (map (\<lambda>(c, e). (c, f e)) kvs) c = map_option f (map_of kvs c)" for f kvs and c :: nat by (induction kvs) auto
  have off: "\<exists>e'. map_of (us_entries (snd (poisoned_if b s1))) c = Some e' \<and> \<not> ue_enabled e'"
    if "\<exists>e'. map_of (us_entries s1) c = Some e' \<and> \<not> ue_enabled e'" for b s1
    using that by (auto simp: poisoned_if_def poison_def Let_def m fence_entry_def)
  have unc: "\<exists>e'. map_of (us_entries (make_uncertain c s1)) c = Some e' \<and> \<not> ue_enabled e'"
    if "\<exists>e'. map_of (us_entries s1) c = Some e' \<and> \<not> ue_enabled e'" for s1
    using that by (auto simp: make_uncertain_def set_usage_def)
  have add: "\<exists>e'. map_of (us_entries (add_job c j s1)) c = Some e' \<and> \<not> ue_enabled e'"
    if "\<exists>e'. map_of (us_entries s1) c = Some e' \<and> \<not> ue_enabled e'" for j s1
    using that by (auto simp: add_job_def set_usage_def)
  obtain os1 s1 where p: "poisoned_if (st_clock_back t) s = (os1, s1)" by force
  have a: "\<exists>e'. map_of (us_entries s1) c = Some e' \<and> \<not> ue_enabled e'" using off [of s "st_clock_back t"] assms(1,2) p by auto
  have b: "\<exists>e'. map_of (us_entries (snd (poisoned_if (st_timer_back t) (add_job c j (if st_timer t then s1 else make_uncertain c s1))))) c = Some e'
      \<and> \<not> ue_enabled e'" for j
    by (rule off, rule add) (use a unc in simp)
  show ?thesis
    using assms p unc [OF a] b
    by (auto simp: enqueue_usage_def Let_def set_usage_def split: if_splits option.splits prod.splits) (metis snd_conv)+
qed

text \<open>Turning off by the owner: poisoned, or off under a newer epoch.\<close>

lemma off_turns_off:
  assumes "map_of (us_entries s) c = Some e" and "usage_inv H s"
  shows "us_poisoned (snd (snd (usage_off (us_authority s) c t s)))
    \<or> (\<exists>e'. map_of (us_entries (snd (snd (usage_off (us_authority s) c t s)))) c = Some e' \<and> \<not> ue_enabled e')"
proof (cases "us_poisoned s")
  case True
  then show ?thesis by (simp add: usage_off_def ask_usage_def)
next
  case False
  obtain r os1 s1 where n: "next_epoch s = (r, os1, s1)" by (metis prod_cases3)
  show ?thesis
  proof (cases r)
    case (Inl x)
    then have "us_poisoned s1"
      using n False poison_poisons by (auto simp: next_epoch_def split: if_splits prod.splits)
    then show ?thesis using assms(1) False n Inl by (simp add: usage_off_def ask_usage_def)
  next
    case (Inr k)
    let ?s = "set_usage c (e\<lparr>ue_epoch := k, ue_enabled := False\<rparr>) s1"
    obtain q os2 s2 where en: "enqueue_usage c k False t ?s = (q, os2, s2)" by (metis prod_cases3)
    have "\<exists>e'. map_of (us_entries s2) c = Some e' \<and> \<not> ue_enabled e'"
      by (rule enqueue_stays_off [where e = "e\<lparr>ue_epoch := k, ue_enabled := False\<rparr>", OF _ _ en]) (simp_all add: set_usage_def)
    then show ?thesis
      using assms(1) False n Inr en by (auto simp: usage_off_def ask_usage_def Let_def set_usage_def)
  qed
qed

lemma off_leaves_epoch:
  assumes "map_of (us_entries s) c = Some e" and "usage_inv H s" and "\<not> us_poisoned (snd (snd (usage_off (us_authority s) c t s)))"
  shows "usage_over (Some (c, ue_epoch e)) (snd (snd (usage_off (us_authority s) c t s)))"
proof -
  have np: "\<not> us_poisoned s" using assms(3) by (auto simp: usage_off_def ask_usage_def)
  obtain r os1 s1 where n: "next_epoch s = (r, os1, s1)" by (metis prod_cases3)
  obtain k where k: "r = Ok k"
    using n np assms(1,3) poison_poisons by (cases r) (auto simp: usage_off_def ask_usage_def next_epoch_def split: if_splits prod.splits)
  note ok = next_epoch_Ok [OF n [unfolded k]]
  let ?s = "set_usage c (e\<lparr>ue_epoch := k, ue_enabled := False\<rparr>) s1"
  have low: "ue_epoch e < k" using usage_inv_entry [OF assms(2,1)] ok by (simp add: entry_inv_def)
  have b: "epochs_bounded ?s" using inv_epochs [OF assms(2)] ok by (auto simp: epochs_bounded_def set_usage_def le_SucI)
  obtain q os2 s2 where en: "enqueue_usage c k False t ?s = (q, os2, s2)" by (metis prod_cases3)
  have a3: "usage_age ?s s2" using enqueue_age [OF b, of c k False t] en by simp
  have a4: "usage_age s2 (case map_of (us_entries s2) c of None \<Rightarrow> s2 | Some e2 \<Rightarrow> set_usage c (e2\<lparr>ue_uncertain := True\<rparr>) s2)"
    by (auto intro: usage_age_set split: option.split)
  let ?o = "snd (snd (usage_off (us_authority s) c t s))"
  have o: "?o = (if st_notified t then s2 else case map_of (us_entries s2) c of None \<Rightarrow> s2 | Some e2 \<Rightarrow> set_usage c (e2\<lparr>ue_uncertain := True\<rparr>) s2)"
    using assms(1) np n k en by (simp add: usage_off_def ask_usage_def Let_def)
  have age: "usage_age ?s ?o" unfolding o using a3 usage_age_trans [OF a3 a4] by (cases "st_notified t") simp_all
  have at: "map_of (us_entries ?s) c = Some (e\<lparr>ue_epoch := k, ue_enabled := False\<rparr>)" by (simp add: set_usage_def)
  obtain e' where e': "map_of (us_entries ?o) c = Some e'" "ue_epoch (e\<lparr>ue_epoch := k, ue_enabled := False\<rparr>) \<le> ue_epoch e'"
    using age at unfolding usage_age_def by blast
  then have "ue_epoch e < ue_epoch e'" using low by simp
  then show ?thesis using e'(1) by simp
qed

text \<open>
  Leaving is immediate and final: when the owner turns the use of a conversation off, or poisons the
  coordinator, the conversation is current under no epoch from this moment, and the epoch it had is never
  current again; after a poison nothing ever is.
\<close>

theorem left_use_never_returns:
  assumes "new_usage a st d = Ok s0" and "s = snd (usage_run es s0)" and "usage_current c n s"
  shows "\<not> usage_current c m (snd (snd (usage_off (us_authority s) c t s)))
    \<and> \<not> usage_current c n (snd (usage_run es' (snd (snd (usage_off (us_authority s) c t s)))))
    \<and> \<not> usage_current c' m (snd (usage_run es' (snd (snd (poison_all (us_authority s) s)))))"
proof -
  have inv: "usage_inv (fst (usage_run es s0)) s" using reached_inv [OF assms(1)] assms(2) by simp
  obtain e where e: "map_of (us_entries s) c = Some e" "ue_epoch e = n"
    using assms(3) by (auto simp: usage_current_def split: option.splits)
  let ?o = "snd (snd (usage_off (us_authority s) c t s))"
  have io: "\<exists>H. usage_inv H ?o"
    using ask_inv [OF inv, of False "us_authority s" c t] unfolding usage_off_def by (metis prod.collapse)
  have now: "\<not> usage_current c m ?o"
    using off_turns_off [OF e(1) inv, of t] by (auto simp: usage_current_def split: option.splits)
  have later: "\<not> usage_current c n (snd (usage_run es' ?o))"
  proof (cases "us_poisoned ?o")
    case True
    then show ?thesis
      using usage_machine.run_over [OF io, of None es'] left_not_current(2) unfolding usage_run_states by simp
  next
    case False
    then show ?thesis
      using usage_machine.run_over [OF io off_leaves_epoch [OF e(1) inv False]] left_not_current(1) e(2) unfolding usage_run_states by blast
  qed
  have pa: "snd (snd (poison_all (us_authority s) s)) = snd (poison s)" by (simp add: poison_all_def split: prod.split)
  have ip: "\<exists>H. usage_inv H (snd (snd (poison_all (us_authority s) s)))" "usage_over None (snd (snd (poison_all (us_authority s) s)))"
    unfolding pa using poison_inv [OF inv surjective_pairing] poison_poisons [OF surjective_pairing] by auto
  then have "\<not> usage_current c' m (snd (usage_run es' (snd (snd (poison_all (us_authority s) s)))))"
    using usage_machine.run_over [OF ip] left_not_current(2) unfolding usage_run_states by blast
  then show ?thesis using now later by blast
qed

section \<open>A run\<close>

definition calm :: usage_setup where
  "calm = \<lparr>st_clock = Some 10, st_clock_back = False, st_timer = True, st_timer_back = False, st_notified = True\<rparr>"

definition usage_start :: usage where
  "usage_start = projr (new_usage (JRef 1) (Some 0) Undef)"

definition usage_sample :: "usage_event list" where
  "usage_sample = [Register 1 (JRef 7), TurnOn 1 7 calm, RunBegins 7 (Some 20) True, CommitSettles 7 True (Some 30),
     AckSettles 7 0 True (Some 40), JobLeaves 7]"

lemma usage_started: "new_usage (JRef 1) (Some 0) Undef = Ok usage_start"
  by (simp add: usage_start_def new_usage_def)

lemma sample_current: "usage_current 7 2 (snd (usage_run usage_sample usage_start))"
  by code_simp

lemma current_use_is_stored_witness:
  "last_seen 7 (fst (usage_run usage_sample usage_start)) = Some (CommitStored 7 2 True)"
  by (rule current_use_is_stored [OF usage_started sample_current])

lemma usage_writes_are_ordered_witness:
  "sorted_wrt (<) (written 7 (fst (usage_run usage_sample usage_start)))"
  using usage_writes_are_ordered [OF usage_started] by blast

lemma left_use_never_returns_witness:
  "\<not> usage_current 7 2 (snd (usage_run [TurnOn 1 7 calm] (snd (snd (usage_off (us_authority (snd (usage_run usage_sample usage_start))) 7 calm
       (snd (usage_run usage_sample usage_start)))))))"
  using left_use_never_returns [OF usage_started refl sample_current] by blast

end
