(* ===== verification/ReadViews.thy ===== *)
theory ReadViews
  imports "HOL-Library.Word" ReadBudget ReadChannels
begin

text \<open>
  \<open>src/multi-view-views.ts\<close>: the registry of reading views. The owner enrolls a recipient for up to two views of
  clients; the recipient reads a view with the grant; every read is charged to the reader's budget before
  the capture starts, and its bytes are handed out by a lease that asks again, at each access, whether the
  recipient may still see them.

  The budget is the one of \<open>ReadBudget\<close>, used by this registry alone. Objects used by identity are numbers;
  the recipient's object may be changed from outside, so its content is looked up in a heap. A read, its
  capture and its lease go by the handle of their reservation. The clock, the questions to the backend and the
  preparation of a read are answered from outside, from queues in the state; with an answer come the calls made
  back before it is given: the owner's revocations and switches, a change of a recipient's object, and, by the
  clock, a status, which faults it. A question that starts a read, enrolls, or settles work when it is asked,
  proxies and accessors are not represented.
\<close>

section \<open>State\<close>

datatype view_code = VwInvalid | VwDenied | VwOff | VwLimit | VwBusy | VwUnconfirmed | VwBackend

datatype view_error = ViewError view_code | BudgetError budget_error

record recipient =
  rc_owner :: nat
  rc_connector :: nat
  rc_instance :: nat
  rc_conversation :: nat
  rc_channel :: nat
  rc_pid :: int
  rc_birth :: string

record asked_view =
  av_binding :: nat
  av_epoch :: int
  av_formats :: "read_format list"

record read_view =
  rv_id :: string
  rv_asked :: asked_view
  rv_budget :: nat
  rv_entries :: "nat list"
  rv_disposed :: bool

record enrolled =
  vn_token :: string
  vn_recipient :: nat
  vn_snapshot :: recipient
  vn_consent :: int
  vn_expires :: rat
  vn_views :: "read_view list"
  vn_revoked :: bool

datatype read_stage = Capturing | Refused | Leased "8 word list" | Returned

record reading =
  rd_enrolled :: nat
  rd_view :: nat
  rd_bound :: nat
  rd_stage :: read_stage

datatype view_call =
    CallSetEnabled nat jsval
  | CallRevokeGrant nat jsval
  | CallDetachRecipient nat nat
  | CallRevokeConversation nat nat
  | CallInvalidateBinding nat nat
  | CallMutate nat jsval
  | CallViewStatus

text \<open>
  \<open>vr_objects\<close> holds every enrollment made, by its number; \<open>vr_records\<close> and \<open>vr_grants\<close> are the set and the
  map of the source.
\<close>

record view_registry =
  vr_authority :: nat
  vr_budget :: budget
  vr_enabled :: bool
  vr_fault :: bool
  vr_last :: "rat option"
  vr_generation :: nat
  vr_objects :: "(nat \<times> enrolled) list"
  vr_next :: nat
  vr_records :: "nat list"
  vr_grants :: "(string \<times> nat) list"
  vr_reads :: "(nat \<times> reading) list"
  vr_loans :: "(nat \<times> (nat \<times> bool)) list"
  vr_heap :: "(nat \<times> jsval) list"
  vr_clock :: "(rat option \<times> view_call list) list"
  vr_answers :: "(bool option \<times> view_call list) list"
  vr_prepared :: "(jsval option \<times> view_call list) list"
  vr_token :: string
  vr_ids :: "nat \<Rightarrow> string"

type_synonym 'a view_step = "(view_error, 'a) result \<times> view_registry"

abbreviation refuse :: "view_code \<Rightarrow> view_registry \<Rightarrow> 'a view_step" where
  "refuse c r \<equiv> (Err (ViewError c), r)"

definition new_view_registry :: "nat \<Rightarrow> budget \<Rightarrow> view_registry" where
  "new_view_registry authority b =
     \<lparr>vr_authority = authority, vr_budget = b, vr_enabled = False, vr_fault = False, vr_last = None, vr_generation = 0,
      vr_objects = [], vr_next = 0, vr_records = [], vr_grants = [], vr_reads = [], vr_loans = [], vr_heap = [],
      vr_clock = [], vr_answers = [], vr_prepared = [], vr_token = [], vr_ids = (\<lambda>i. [])\<rparr>"

section \<open>Reading the arguments\<close>

definition view_dense :: "jsval \<Rightarrow> nat \<Rightarrow> (view_code, jsval list) result" where
  "view_dense v most = (case v of JArr vs \<Rightarrow> if 1 \<le> length vs \<and> length vs \<le> most then Ok vs else Err VwInvalid | _ \<Rightarrow> Err VwInvalid)"

definition view_fields :: "jsval \<Rightarrow> string list \<Rightarrow> (view_code, jsobj) result" where
  "view_fields v allowed =
     (case as_object v of
        None \<Rightarrow> Err VwInvalid
      | Some fs \<Rightarrow>
          if length fs = length allowed \<and> only_keys allowed fs \<and> list_all (has_own fs) allowed then Ok fs else Err VwInvalid)"

definition recipient_keys :: "string list" where
  "recipient_keys = [''owner'', ''connector'', ''instance'', ''conversation'', ''channel'', ''pid'', ''birth'']"

definition recipient_snapshot :: "jsval \<Rightarrow> (view_code, recipient) result" where
  "recipient_snapshot v =
     and_then (view_fields v recipient_keys) (\<lambda>item.
     case (ref_of (getp item ''owner''), ref_of (getp item ''connector''), ref_of (getp item ''instance''),
           ref_of (getp item ''conversation''), ref_of (getp item ''channel'')) of
       (Some owner, Some connector, Some inst, Some conversation, Some channel) \<Rightarrow>
         if positive (getp item ''pid'') \<and> 2 \<le> int_of_val (getp item ''pid'')
            \<and> is_string (getp item ''birth'') \<and> birth_text (str_of (getp item ''birth''))
         then Ok \<lparr>rc_owner = owner, rc_connector = connector, rc_instance = inst, rc_conversation = conversation,
                  rc_channel = channel, rc_pid = int_of_val (getp item ''pid''), rc_birth = str_of (getp item ''birth'')\<rparr>
         else Err VwInvalid
     | _ \<Rightarrow> Err VwInvalid)"

definition asked_view_of :: "jsval \<Rightarrow> (view_code, asked_view) result" where
  "asked_view_of raw =
     and_then (view_fields raw [''binding'', ''bindingEpoch'', ''formats'']) (\<lambda>view.
     and_then (view_dense (getp view ''formats'') 2) (\<lambda>formats.
     case (ref_of (getp view ''binding''), those (List.map format_of formats)) of
       (Some b, Some fs) \<Rightarrow>
         if positive (getp view ''bindingEpoch'') \<and> distinct fs
         then Ok \<lparr>av_binding = b, av_epoch = int_of_val (getp view ''bindingEpoch''), av_formats = fs\<rparr>
         else Err VwInvalid
     | _ \<Rightarrow> Err VwInvalid))"

definition enrollment_of :: "jsobj \<Rightarrow> rat \<Rightarrow> (view_code, int \<times> rat \<times> asked_view list) result" where
  "enrollment_of data now =
     (case getp data ''expiresAt'' of
        JNum (Fin expires) \<Rightarrow>
          if \<not> positive (getp data ''consentEpoch'') \<or> expires \<le> now \<or> 600000 < expires - now then Err VwInvalid
          else and_then (view_dense (getp data ''views'') 2) (\<lambda>raws.
               and_then (map_result asked_view_of raws) (\<lambda>asked.
               if distinct (List.map av_binding asked) then Ok (int_of_val (getp data ''consentEpoch''), expires, asked)
               else Err VwInvalid))
      | _ \<Rightarrow> Err VwInvalid)"

definition content :: "nat \<Rightarrow> view_registry \<Rightarrow> jsval" where
  "content o' r = (case map_of (vr_heap r) o' of None \<Rightarrow> Undef | Some v \<Rightarrow> v)"

section \<open>Revocation\<close>

definition advance_views :: "view_registry \<Rightarrow> view_registry" where
  "advance_views r =
     (if max_safe \<le> int (vr_generation r) then r\<lparr>vr_enabled := False\<rparr> else r\<lparr>vr_generation := vr_generation r + 1\<rparr>)"

fun dispose_views :: "read_view list \<Rightarrow> budget \<Rightarrow> read_view list \<times> budget" where
  "dispose_views [] b = ([], b)"
| "dispose_views (v # vs) b =
     (if rv_disposed v \<or> rv_entries v \<noteq> []
      then (case dispose_views vs b of (vs', b') \<Rightarrow> (v # vs', b'))
      else (case dispose_view (rv_budget v) b of
          (Inl e, b1) \<Rightarrow> (case dispose_views vs b1 of (vs', b') \<Rightarrow> (v # vs', b'))
        | (Inr u, b1) \<Rightarrow> (case dispose_views vs b1 of (vs', b') \<Rightarrow> (v\<lparr>rv_disposed := True\<rparr> # vs', b'))))"

definition collect_views :: "nat \<Rightarrow> view_registry \<Rightarrow> view_registry" where
  "collect_views i r =
     (case map_of (vr_objects r) i of
        None \<Rightarrow> r
      | Some e \<Rightarrow>
          if \<not> vn_revoked e then r
          else (case dispose_views (vn_views e) (vr_budget r) of
            (vs, b) \<Rightarrow>
              r\<lparr>vr_objects := put i (e\<lparr>vn_views := vs\<rparr>) (vr_objects r), vr_budget := b,
                vr_records := (if list_all rv_disposed vs then removeAll i (vr_records r) else vr_records r)\<rparr>))"

fun revoke_views :: "read_view list \<Rightarrow> budget \<Rightarrow> budget" where
  "revoke_views [] b = b"
| "revoke_views (v # vs) b = revoke_views vs (snd (revoke_view (rv_budget v) b))"

definition end_enrolled :: "nat \<Rightarrow> view_registry \<Rightarrow> view_registry" where
  "end_enrolled i r =
     (case map_of (vr_objects r) i of
        None \<Rightarrow> r
      | Some e \<Rightarrow>
          if vn_revoked e then r
          else collect_views i
            (r\<lparr>vr_objects := put i (e\<lparr>vn_revoked := True\<rparr>) (vr_objects r), vr_grants := del (vn_token e) (vr_grants r),
               vr_budget := revoke_views (vn_views e) (vr_budget r)\<rparr>))"

fun end_all :: "nat list \<Rightarrow> view_registry \<Rightarrow> view_registry" where
  "end_all [] r = r"
| "end_all (i # is) r = end_all is (end_enrolled i r)"

definition records_where :: "(enrolled \<Rightarrow> bool) \<Rightarrow> view_registry \<Rightarrow> nat list" where
  "records_where P r = filter (\<lambda>i. case map_of (vr_objects r) i of None \<Rightarrow> False | Some e \<Rightarrow> P e) (vr_records r)"

definition fail_view_clock :: "view_registry \<Rightarrow> view_registry" where
  "fail_view_clock r =
     (if vr_fault r then r
      else let r1 = advance_views (r\<lparr>vr_fault := True, vr_enabled := False\<rparr>) in end_all (vr_records r1) r1)"

definition set_enabled :: "nat \<Rightarrow> jsval \<Rightarrow> view_registry \<Rightarrow> unit view_step" where
  "set_enabled authority enabled r =
     (if authority \<noteq> vr_authority r then refuse VwDenied r
      else case enabled of
        JBool on \<Rightarrow>
          if on \<and> vr_fault r then refuse VwDenied r
          else let r1 = (advance_views r)\<lparr>vr_enabled := on\<rparr> in (Ok (), if on then r1 else end_all (vr_records r1) r1)
      | _ \<Rightarrow> refuse VwInvalid r)"

definition revoke_grant :: "nat \<Rightarrow> jsval \<Rightarrow> view_registry \<Rightarrow> bool view_step" where
  "revoke_grant authority grant r =
     (if authority \<noteq> vr_authority r then refuse VwDenied r
      else let r1 = advance_views r in
        case (if is_string grant then map_of (vr_grants r1) (str_of grant) else None) of
          None \<Rightarrow> (Ok False, r1)
        | Some i \<Rightarrow> (Ok True, end_enrolled i r1))"

definition end_where :: "(enrolled \<Rightarrow> bool) \<Rightarrow> nat \<Rightarrow> view_registry \<Rightarrow> unit view_step" where
  "end_where P authority r =
     (if authority \<noteq> vr_authority r then refuse VwDenied r
      else let r1 = advance_views r in (Ok (), end_all (records_where P r1) r1))"

definition detach_recipient :: "nat \<Rightarrow> nat \<Rightarrow> view_registry \<Rightarrow> unit view_step" where
  "detach_recipient authority who = end_where (\<lambda>e. vn_recipient e = who) authority"

definition revoke_conversation :: "nat \<Rightarrow> nat \<Rightarrow> view_registry \<Rightarrow> unit view_step" where
  "revoke_conversation authority c = end_where (\<lambda>e. rc_conversation (vn_snapshot e) = c) authority"

definition invalidate_binding :: "nat \<Rightarrow> nat \<Rightarrow> view_registry \<Rightarrow> unit view_step" where
  "invalidate_binding authority b = end_where (\<lambda>e. list_ex (\<lambda>v. av_binding (rv_asked v) = b) (vn_views e)) authority"

text \<open>What is called back while an answer is found. A status asked by the clock faults it.\<close>

fun calls_back :: "view_call list \<Rightarrow> view_registry \<Rightarrow> view_registry" where
  "calls_back [] r = r"
| "calls_back (CallSetEnabled a v # cs) r = calls_back cs (snd (set_enabled a v r))"
| "calls_back (CallRevokeGrant a g # cs) r = calls_back cs (snd (revoke_grant a g r))"
| "calls_back (CallDetachRecipient a w # cs) r = calls_back cs (snd (detach_recipient a w r))"
| "calls_back (CallRevokeConversation a c # cs) r = calls_back cs (snd (revoke_conversation a c r))"
| "calls_back (CallInvalidateBinding a b # cs) r = calls_back cs (snd (invalidate_binding a b r))"
| "calls_back (CallMutate o' v # cs) r = calls_back cs (r\<lparr>vr_heap := put o' v (vr_heap r)\<rparr>)"
| "calls_back (CallViewStatus # cs) r = calls_back cs (fail_view_clock r)"

section \<open>Time and questions\<close>

definition view_clock :: "view_registry \<Rightarrow> rat view_step" where
  "view_clock r =
     (if vr_fault r then refuse VwDenied r
      else case vr_clock r of
        [] \<Rightarrow> refuse VwDenied (fail_view_clock r)
      | (answer, calls) # rest \<Rightarrow>
         (let r1 = calls_back calls (r\<lparr>vr_clock := rest\<rparr>) in
          case answer of
            None \<Rightarrow> refuse VwDenied (fail_view_clock r1)
          | Some now \<Rightarrow>
              if vr_fault r1 \<or> (case vr_last r1 of None \<Rightarrow> False | Some t \<Rightarrow> now < t) then refuse VwDenied (fail_view_clock r1)
              else (Ok now, r1\<lparr>vr_last := Some now\<rparr>)))"

definition sweep_views :: "view_registry \<Rightarrow> unit view_step" where
  "sweep_views r =
     (if vr_fault r then (Ok (), r)
      else case view_clock r of
        (Err e, r1) \<Rightarrow> (Err e, r1)
      | (Ok now, r1) \<Rightarrow> (Ok (), end_all (records_where (\<lambda>e. vn_expires e \<le> now) r1) r1))"

definition not_status :: "view_call list \<Rightarrow> view_call list" where
  "not_status = filter (\<lambda>c. c \<noteq> CallViewStatus)"

text \<open>
  One question to the backend: whether it answered \<open>true\<close>, or \<open>None\<close> when it threw. Several in a row stop at the
  first that is not affirmed.
\<close>

definition ask_backend :: "view_registry \<Rightarrow> bool option \<times> view_registry" where
  "ask_backend r =
     (case vr_answers r of
        [] \<Rightarrow> (None, r)
      | (a, calls) # rest \<Rightarrow> (a, calls_back (not_status calls) (r\<lparr>vr_answers := rest\<rparr>)))"

fun ask_all :: "nat \<Rightarrow> view_registry \<Rightarrow> bool option \<times> view_registry" where
  "ask_all 0 r = (Some True, r)"
| "ask_all (Suc n) r = (case ask_backend r of (a, r1) \<Rightarrow> if a = Some True then ask_all n r1 else (a, r1))"

definition ask_ready :: "view_registry \<Rightarrow> bool \<times> view_registry" where
  "ask_ready r = (case ask_backend r of (a, r1) \<Rightarrow> (a = Some True, r1))"

text \<open>
  \<open>#current\<close>: the first half asks, in the order of its condition (\<open>None\<close> when something threw); the second
  reads the clock and the recipient again and looks at the state, after which nothing is called.
\<close>

definition still_enrolled :: "nat \<Rightarrow> view_registry \<Rightarrow> bool" where
  "still_enrolled i r =
     (case map_of (vr_objects r) i of
        None \<Rightarrow> False
      | Some e \<Rightarrow> \<not> vn_revoked e \<and> map_of (vr_grants r) (vn_token e) = Some i \<and> i \<in> set (vr_records r))"

definition not_revoked :: "nat \<Rightarrow> view_registry \<Rightarrow> bool" where
  "not_revoked i r = (case map_of (vr_objects r) i of None \<Rightarrow> False | Some e \<Rightarrow> \<not> vn_revoked e)"

definition ask_current :: "nat \<Rightarrow> enrolled \<Rightarrow> recipient \<Rightarrow> view_registry \<Rightarrow> bool option \<times> view_registry" where
  "ask_current i e snap r =
     (if \<not> vr_enabled r \<or> \<not> not_revoked i r then (Some False, r)
      else case view_clock r of
        (Err x, r1) \<Rightarrow> (None, r1)
      | (Ok now, r1) \<Rightarrow>
          if vn_expires e \<le> now \<or> snap \<noteq> vn_snapshot e then (Some False, r1)
          else (case ask_ready r1 of
            (False, r2) \<Rightarrow> (Some False, r2)
          | (True, r2) \<Rightarrow> ask_all 2 r2))"

definition current_check :: "nat \<Rightarrow> enrolled \<Rightarrow> view_registry \<Rightarrow> bool \<times> view_registry" where
  "current_check i e r =
     (case recipient_snapshot (content (vn_recipient e) r) of
        Inl c \<Rightarrow> (False, r)
      | Inr snap \<Rightarrow>
         (case ask_current i e snap r of
            (None, r1) \<Rightarrow> (False, r1)
          | (Some current, r1) \<Rightarrow>
             (case view_clock r1 of
                (Err x, r2) \<Rightarrow> (False, r2)
              | (Ok checked, r2) \<Rightarrow>
                  (current \<and> checked < vn_expires e \<and> recipient_snapshot (content (vn_recipient e) r2) = Inr (vn_snapshot e)
                     \<and> vr_generation r = vr_generation r2 \<and> vr_enabled r2 \<and> still_enrolled i r2, r2))))"

definition is_view_current :: "nat \<Rightarrow> view_registry \<Rightarrow> bool \<times> view_registry" where
  "is_view_current i r =
     (case map_of (vr_objects r) i of
        None \<Rightarrow> (False, r)
      | Some e \<Rightarrow> (case current_check i e r of (current, r1) \<Rightarrow> (current, if current then r1 else end_enrolled i r1)))"

section \<open>Enrolling\<close>

definition translated :: "budget_error \<Rightarrow> view_code" where
  "translated e = (case fst e of LIMIT \<Rightarrow> VwLimit | BUSY \<Rightarrow> VwBusy | _ \<Rightarrow> VwDenied)"

text \<open>Binds a view of the budget for each view asked for; when one fails, those bound are given back.\<close>

fun bind_views :: "nat \<Rightarrow> nat \<Rightarrow> budget \<Rightarrow> (budget_error, unit) result \<times> nat list \<times> budget" where
  "bind_views c 0 b = (Ok (), [], b)"
| "bind_views c (Suc n) b =
     (case bind_view (Some c) b of
        (Inl e, b1) \<Rightarrow> (Err e, [], b1)
      | (Inr h, b1) \<Rightarrow> (case bind_views c n b1 of (res, hs, b2) \<Rightarrow> (res, h # hs, b2)))"

fun give_back :: "nat list \<Rightarrow> budget \<Rightarrow> budget" where
  "give_back [] b = b"
| "give_back (h # hs) b = give_back hs (snd (dispose_view h (snd (revoke_view h b))))"

definition record_views :: "view_registry \<Rightarrow> read_view list" where
  "record_views r =
     concat (List.map (\<lambda>i. case map_of (vr_objects r) i of None \<Rightarrow> [] | Some e \<Rightarrow> vn_views e) (vr_records r))"

definition bound_elsewhere :: "asked_view list \<Rightarrow> view_registry \<Rightarrow> bool" where
  "bound_elsewhere asked r \<longleftrightarrow>
     list_ex (\<lambda>v. \<not> rv_disposed v \<and> av_binding (rv_asked v) \<in> set (List.map av_binding asked)) (record_views r)"

definition names_taken :: "string \<Rightarrow> string list \<Rightarrow> view_registry \<Rightarrow> bool" where
  "names_taken token ids r \<longleftrightarrow>
     records_where (\<lambda>e. vn_token e = token) r \<noteq> [] \<or> \<not> distinct ids \<or> list_ex (\<lambda>v. rv_id v \<in> set ids) (record_views r)"

definition new_read_view :: "asked_view \<times> string \<times> nat \<Rightarrow> read_view" where
  "new_read_view = (\<lambda>(asked, i, h). \<lparr>rv_id = i, rv_asked = asked, rv_budget = h, rv_entries = [], rv_disposed = False\<rparr>)"

definition add_enrolled :: "enrolled \<Rightarrow> view_registry \<Rightarrow> view_registry" where
  "add_enrolled e r =
     r\<lparr>vr_objects := put (vr_next r) e (vr_objects r), vr_records := vr_records r @ [vr_next r],
       vr_grants := put (vn_token e) (vr_next r) (vr_grants r), vr_next := vr_next r + 1\<rparr>"

definition publish_enrolled ::
  "nat \<Rightarrow> recipient \<Rightarrow> int \<Rightarrow> rat \<Rightarrow> asked_view list \<Rightarrow> view_registry \<Rightarrow> (string \<times> (string \<times> read_format list) list) view_step" where
  "publish_enrolled who snap consent expires asked r =
     (let ids = List.map (vr_ids r) [0 ..< length asked] in
      if names_taken (vr_token r) ids r then refuse VwLimit r
      else case bind_views (rc_conversation snap) (length asked) (vr_budget r) of
        (Inl e, hs, b) \<Rightarrow> refuse (translated e) (r\<lparr>vr_budget := give_back hs b\<rparr>)
      | (Inr u, hs, b) \<Rightarrow>
          (Ok (vr_token r, zip ids (List.map av_formats asked)),
           add_enrolled \<lparr>vn_token = vr_token r, vn_recipient = who, vn_snapshot = snap, vn_consent = consent, vn_expires = expires,
               vn_views = List.map new_read_view (zip asked (zip ids hs)), vn_revoked = False\<rparr> (r\<lparr>vr_budget := b\<rparr>)))"

definition enroll_asked ::
  "nat \<Rightarrow> nat \<Rightarrow> recipient \<Rightarrow> int \<Rightarrow> rat \<Rightarrow> asked_view list \<Rightarrow> view_registry \<Rightarrow> (string \<times> (string \<times> read_format list) list) view_step" where
  "enroll_asked gen who snap consent expires asked r =
     (if bound_elsewhere asked r then refuse VwLimit r
      else case ask_ready r of
        (False, r1) \<Rightarrow> refuse VwDenied r1
      | (True, r1) \<Rightarrow>
         (case ask_all (Suc (length asked)) r1 of
            (a, r2) \<Rightarrow>
              if a \<noteq> Some True then refuse VwDenied r2
              else (case view_clock r2 of
                (Err e, r3) \<Rightarrow> (Err e, r3)
              | (Ok checked, r3) \<Rightarrow>
                 (case recipient_snapshot (content who r3) of
                    Inl c \<Rightarrow> refuse c r3
                  | Inr after' \<Rightarrow>
                      if expires \<le> checked \<or> after' \<noteq> snap \<or> \<not> vr_enabled r3 \<or> gen \<noteq> vr_generation r3 then refuse VwDenied r3
                      else publish_enrolled who snap consent expires asked r3))))"

definition enroll_views ::
  "nat \<Rightarrow> jsval \<Rightarrow> view_registry \<Rightarrow> (string \<times> (string \<times> read_format list) list) view_step" where
  "enroll_views authority input r =
     (if authority \<noteq> vr_authority r then refuse VwDenied r
      else if \<not> vr_enabled r then refuse VwOff r
      else case sweep_views r of
        (Err e, r1) \<Rightarrow> (Err e, r1)
      | (Ok u, r1) \<Rightarrow>
         (case view_fields input [''recipient'', ''consentEpoch'', ''expiresAt'', ''views''] of
            Inl c \<Rightarrow> refuse c r1
          | Inr data \<Rightarrow>
             (case ref_of (getp data ''recipient'') of
                None \<Rightarrow> refuse VwInvalid r1
              | Some who \<Rightarrow>
                 (case recipient_snapshot (content who r1) of
                    Inl c \<Rightarrow> refuse c r1
                  | Inr snap \<Rightarrow>
                     (case view_clock r1 of
                        (Err e, r2) \<Rightarrow> (Err e, r2)
                      | (Ok now, r2) \<Rightarrow>
                         (case enrollment_of data now of
                            Inl c \<Rightarrow> refuse c r2
                          | Inr (consent, expires, asked) \<Rightarrow>
                              enroll_asked (vr_generation r) who snap consent expires asked r2))))))"

section \<open>Reading\<close>

definition cost_bounds :: "jsval \<Rightarrow> (view_code, jsval \<times> nat) result" where
  "cost_bounds answer =
     (case view_fields answer [''cost'', ''capture''] of
        Inl c \<Rightarrow> Err VwBackend
      | Inr data \<Rightarrow>
         (case view_fields (getp data ''cost'') [''scratchBytes'', ''retainedBytes''] of
            Inl c \<Rightarrow> Err VwBackend
          | Inr bound \<Rightarrow>
              if is_function (getp data ''capture'') \<and> positive (getp bound ''retainedBytes'')
                 \<and> int_of_val (getp bound ''retainedBytes'') \<le> 1048576 \<and> natural (getp bound ''scratchBytes'')
              then Ok (JObj [(''scratchBytes'', getp bound ''scratchBytes''), (''retainedBytes'', getp bound ''retainedBytes'')],
                       nat (int_of_val (getp bound ''retainedBytes'')))
              else Err VwBackend))"

definition prepare_read :: "view_registry \<Rightarrow> (view_code, jsval \<times> nat) result \<times> view_registry" where
  "prepare_read r =
     (case vr_prepared r of
        [] \<Rightarrow> (Err VwBackend, r)
      | (answer, calls) # rest \<Rightarrow>
          (case answer of None \<Rightarrow> Err VwBackend | Some v \<Rightarrow> cost_bounds v, calls_back (not_status calls) (r\<lparr>vr_prepared := rest\<rparr>)))"

definition upd_read_view :: "nat \<Rightarrow> nat \<Rightarrow> (read_view \<Rightarrow> read_view) \<Rightarrow> view_registry \<Rightarrow> view_registry" where
  "upd_read_view i k f r =
     (case map_of (vr_objects r) i of
        None \<Rightarrow> r
      | Some e \<Rightarrow>
          if k < length (vn_views e)
          then r\<lparr>vr_objects := put i (e\<lparr>vn_views := (vn_views e)[k := f (vn_views e ! k)]\<rparr>) (vr_objects r)\<rparr> else r)"

definition set_stage :: "nat \<Rightarrow> read_stage \<Rightarrow> view_registry \<Rightarrow> view_registry" where
  "set_stage h st r =
     (case map_of (vr_reads r) h of None \<Rightarrow> r | Some d \<Rightarrow> r\<lparr>vr_reads := put h (d\<lparr>rd_stage := st\<rparr>) (vr_reads r)\<rparr>)"

text \<open>The charge and the start, with nothing called in between; the answer is the reservation.\<close>

definition charge_read :: "nat \<Rightarrow> nat \<Rightarrow> nat \<Rightarrow> jsval \<Rightarrow> nat \<Rightarrow> view_registry \<Rightarrow> nat view_step" where
  "charge_read i k bview cost bound r =
     (case reserve bview cost (vr_budget r) of
        (Inl e, b) \<Rightarrow> refuse (translated e) (r\<lparr>vr_budget := b\<rparr>)
      | (Inr h, b) \<Rightarrow>
         (let r1 = upd_read_view i k (\<lambda>v. v\<lparr>rv_entries := rv_entries v @ [h]\<rparr>) (r\<lparr>vr_budget := b\<rparr>) in
          case start_read h b of
            (Inl e, b1) \<Rightarrow> (Err (BudgetError e), r1\<lparr>vr_budget := b1\<rparr>)
          | (Inr u, b1) \<Rightarrow>
              (Ok h, r1\<lparr>vr_budget := b1,
                 vr_reads := put h \<lparr>rd_enrolled = i, rd_view = k, rd_bound = bound, rd_stage = Capturing\<rparr> (vr_reads r1)\<rparr>)))"

definition view_id_text :: "string \<Rightarrow> bool" where
  "view_id_text s \<longleftrightarrow> class_string is_lower_hex 24 24 s"

definition begin_read :: "nat \<Rightarrow> jsval \<Rightarrow> jsval \<Rightarrow> jsval \<Rightarrow> view_registry \<Rightarrow> nat view_step" where
  "begin_read who grant vid fmt r =
     (if \<not> vr_enabled r then refuse VwOff r
      else if \<not> (is_string grant \<and> is_token (str_of grant) \<and> is_string vid \<and> view_id_text (str_of vid)) \<or> format_of fmt = None
      then refuse VwDenied r
      else case sweep_views r of
        (Err e, r1) \<Rightarrow> (Err e, r1)
      | (Ok u, r1) \<Rightarrow>
         (case map_of (vr_grants r1) (str_of grant) of
            None \<Rightarrow> refuse VwDenied r1
          | Some i \<Rightarrow>
             (case map_of (vr_objects r1) i of
                None \<Rightarrow> refuse VwDenied r1
              | Some e \<Rightarrow>
                 (case find_index (\<lambda>v. rv_id v = str_of vid) (vn_views e) of
                    None \<Rightarrow> refuse VwDenied r1
                  | Some k \<Rightarrow>
                     (let v = vn_views e ! k in
                      if vn_recipient e \<noteq> who \<or> the (format_of fmt) \<notin> set (av_formats (rv_asked v)) then refuse VwDenied r1
                      else case is_view_current i r1 of
                        (False, r2) \<Rightarrow> refuse VwDenied r2
                      | (True, r2) \<Rightarrow>
                         (case prepare_read r2 of
                            (Inl c, r3) \<Rightarrow> refuse c r3
                          | (Inr (cost, bound), r3) \<Rightarrow>
                             (case is_view_current i r3 of
                                (False, r4) \<Rightarrow> refuse VwDenied r4
                              | (True, r4) \<Rightarrow> charge_read i k (rv_budget v) cost bound r4)))))))"

text \<open>\<open>collect\<close>: a reservation the budget no longer knows leaves its view.\<close>

definition collect_read :: "nat \<Rightarrow> view_registry \<Rightarrow> view_registry" where
  "collect_read h r =
     (case map_of (vr_reads r) h of
        None \<Rightarrow> r
      | Some d \<Rightarrow>
          collect_views (rd_enrolled d)
            (case inspect h (vr_budget r) of
               Inl e \<Rightarrow> upd_read_view (rd_enrolled d) (rd_view d) (\<lambda>v. v\<lparr>rv_entries := removeAll h (rv_entries v)\<rparr>) r
             | Inr x \<Rightarrow> r))"

definition confirm_read :: "nat \<Rightarrow> jsval \<Rightarrow> view_registry \<Rightarrow> bool view_step" where
  "confirm_read h retain_result r =
     (if h \<notin> keys (vr_reads r) then (Ok False, r)
      else case confirm_stopped h (if retain_result = Undef then JBool False else retain_result) (vr_budget r) of
        (Inl e, b) \<Rightarrow> (Err (BudgetError e), r\<lparr>vr_budget := b\<rparr>)
      | (Inr x, b) \<Rightarrow> (Ok x, collect_read h (r\<lparr>vr_budget := b\<rparr>)))"

definition drain_read :: "nat \<Rightarrow> view_registry \<Rightarrow> bool view_step" where
  "drain_read h r =
     (if h \<notin> keys (vr_reads r) then (Ok False, r)
      else case unknown_drain h (vr_budget r) of
        (Inl e, b) \<Rightarrow> (Err (BudgetError e), r\<lparr>vr_budget := b\<rparr>)
      | (Inr x, b) \<Rightarrow> (Ok x, collect_read h (r\<lparr>vr_budget := b\<rparr>)))"

text \<open>What the capture delivered: a rejection, something that is no plain byte array, or bytes and whether they are the whole buffer.\<close>

datatype captured = CaptureRejected "view_code option" | CaptureForeign | CaptureBytes "8 word list" bool

definition judge_capture :: "nat \<Rightarrow> reading \<Rightarrow> captured \<Rightarrow> view_registry \<Rightarrow> (view_code, 8 word list) result \<times> view_registry" where
  "judge_capture h d c r =
     (case c of
        CaptureRejected known \<Rightarrow> (Err (case known of None \<Rightarrow> VwBackend | Some x \<Rightarrow> x), r)
      | _ \<Rightarrow>
         (case is_view_current (rd_enrolled d) r of
            (False, r1) \<Rightarrow> (Err VwDenied, r1)
          | (True, r1) \<Rightarrow>
              if \<not> is_deliverable h (vr_budget r1) then (Err VwUnconfirmed, r1)
              else (case c of
                  CaptureBytes bytes whole \<Rightarrow>
                    (if \<not> whole \<or> bytes = [] \<or> length bytes > rd_bound d then Err VwBackend else Ok bytes, r1)
                | _ \<Rightarrow> (Err VwBackend, r1))))"

text \<open>The read is given up: its own reference is dropped, or its work is left in quarantine.\<close>

definition drop_read :: "nat \<Rightarrow> view_registry \<Rightarrow> view_registry" where
  "drop_read h r =
     collect_read h
       (case inspect h (vr_budget r) of
          Inl e \<Rightarrow> r
        | Inr x \<Rightarrow>
            if i_phase x = Retained then r\<lparr>vr_budget := snd (release h (vr_budget r))\<rparr>
            else (case cancel h (vr_budget r) of
                (Inl e, b) \<Rightarrow> r\<lparr>vr_budget := b\<rparr>
              | (Inr u, b) \<Rightarrow> snd (drain_read h (r\<lparr>vr_budget := b\<rparr>))))"

definition settle_capture :: "nat \<Rightarrow> captured \<Rightarrow> view_registry \<Rightarrow> unit view_step" where
  "settle_capture h c r =
     (case map_of (vr_reads r) h of
        None \<Rightarrow> (Ok (), r)
      | Some d \<Rightarrow>
          if rd_stage d \<noteq> Capturing then (Ok (), r)
          else (case judge_capture h d c r of
            (Inr bytes, r1) \<Rightarrow> (Ok (), set_stage h (Leased bytes) r1)
          | (Inl x, r1) \<Rightarrow> refuse x (drop_read h (set_stage h Refused r1))))"

section \<open>Leases\<close>

definition lease_bytes :: "nat \<Rightarrow> view_registry \<Rightarrow> 8 word list view_step" where
  "lease_bytes h r =
     (case map_of (vr_reads r) h of
        None \<Rightarrow> refuse VwDenied r
      | Some d \<Rightarrow>
         (case rd_stage d of
            Leased bytes \<Rightarrow>
              (case is_view_current (rd_enrolled d) r of
                 (False, r1) \<Rightarrow> refuse VwDenied r1
               | (True, r1) \<Rightarrow> if is_deliverable h (vr_budget r1) then (Ok bytes, r1) else refuse VwDenied r1)
          | _ \<Rightarrow> refuse VwDenied r))"

definition lease_reserve :: "nat \<Rightarrow> jsval \<Rightarrow> view_registry \<Rightarrow> nat view_step" where
  "lease_reserve h amount r =
     (case lease_bytes h r of
        (Err e, r1) \<Rightarrow> (Err e, r1)
      | (Ok bytes, r1) \<Rightarrow>
         (case reserve_delivery h amount (vr_budget r1) of
            (Inl e, b) \<Rightarrow> refuse (translated e) (r1\<lparr>vr_budget := b\<rparr>)
          | (Inr x, b) \<Rightarrow> (Ok x, r1\<lparr>vr_budget := b, vr_loans := put x (h, False) (vr_loans r1)\<rparr>)))"

definition loan_release :: "nat \<Rightarrow> view_registry \<Rightarrow> bool view_step" where
  "loan_release x r =
     (case map_of (vr_loans r) x of
        None \<Rightarrow> (Ok False, r)
      | Some (h, returned) \<Rightarrow>
          if returned then (Ok False, r)
          else (case release_delivery x (vr_budget r) of
            (Inl e, b) \<Rightarrow> (Err (BudgetError e), r\<lparr>vr_budget := b\<rparr>)
          | (Inr res, b) \<Rightarrow> (Ok res, collect_read h (r\<lparr>vr_budget := b, vr_loans := put x (h, True) (vr_loans r)\<rparr>))))"

definition lease_release :: "nat \<Rightarrow> view_registry \<Rightarrow> unit view_step" where
  "lease_release h r =
     (case map_of (vr_reads r) h of
        None \<Rightarrow> (Ok (), r)
      | Some d \<Rightarrow>
         (case rd_stage d of
            Leased bytes \<Rightarrow>
             (let r1 = set_stage h Returned r in
              case release h (vr_budget r1) of
                (Inl e, b) \<Rightarrow> (Err (BudgetError e), r1\<lparr>vr_budget := b\<rparr>)
              | (Inr u, b) \<Rightarrow> (Ok (), collect_read h (r1\<lparr>vr_budget := b\<rparr>)))
          | _ \<Rightarrow> (Ok (), r)))"

section \<open>Status\<close>

text \<open>As many of the views as are current one after the other; all of them, or none is listed.\<close>

fun current_views :: "nat \<Rightarrow> nat \<Rightarrow> view_registry \<Rightarrow> nat \<times> view_registry" where
  "current_views i 0 r = (0, r)"
| "current_views i (Suc n) r =
     (case is_view_current i r of
        (False, r1) \<Rightarrow> (0, r1)
      | (True, r1) \<Rightarrow> (case current_views i n r1 of (m, r2) \<Rightarrow> (Suc m, r2)))"

fun status_groups :: "nat \<Rightarrow> nat list \<Rightarrow> view_registry \<Rightarrow> nat list \<times> view_registry" where
  "status_groups who [] r = ([], r)"
| "status_groups who (i # is) r =
     (case map_of (vr_objects r) i of
        None \<Rightarrow> status_groups who is r
      | Some e \<Rightarrow>
          if vn_recipient e \<noteq> who \<or> vn_revoked e then status_groups who is r
          else (case current_views i (length (vn_views e)) r of
            (m, r1) \<Rightarrow>
              (case status_groups who is r1 of
                 (is', r2) \<Rightarrow> (if not_revoked i r1 \<and> m = length (vn_views e) then i # is' else is', r2))))"

definition listed_views :: "nat list \<Rightarrow> view_registry \<Rightarrow> (string \<times> read_format list) list" where
  "listed_views is r =
     (if vr_enabled r
      then concat (List.map (\<lambda>i. case map_of (vr_objects r) i of None \<Rightarrow> []
             | Some e \<Rightarrow> if vn_revoked e then [] else List.map (\<lambda>v. (rv_id v, av_formats (rv_asked v))) (vn_views e)) is)
      else [])"

definition view_status :: "nat \<Rightarrow> view_registry \<Rightarrow> (bool \<times> (string \<times> read_format list) list) view_step" where
  "view_status who r =
     (case sweep_views r of
        (Err e, r1) \<Rightarrow> (Err e, r1)
      | (Ok u, r1) \<Rightarrow>
         (case (if vr_enabled r1 then status_groups who (vr_records r1) r1 else ([], r1)) of
            (is, r2) \<Rightarrow>
              (case sweep_views r2 of
                 (Err e, r3) \<Rightarrow> (Err e, r3)
               | (Ok u, r3) \<Rightarrow> (Ok (vr_enabled r3, listed_views is r3), r3))))"

section \<open>Steps\<close>

datatype view_op =
    SetEnabled nat jsval
  | Enroll nat jsval
  | RevokeGrant nat jsval
  | DetachRecipient nat nat
  | RevokeConversation nat nat
  | InvalidateBinding nat nat
  | ViewStatus nat
  | Read nat jsval jsval jsval
  | CheckCurrent nat
  | ConfirmStopped nat jsval
  | DrainUnknown nat
  | CaptureSettles nat captured
  | LeaseBytes nat
  | LeaseReserve nat jsval
  | LoanRelease nat
  | LeaseRelease nat

text \<open>What the outside brings to a step: the recipients' objects as they now are, and the answers it will give.\<close>

record view_answers =
  va_heap :: "(nat \<times> jsval) list"
  va_clock :: "(rat option \<times> view_call list) list"
  va_answers :: "(bool option \<times> view_call list) list"
  va_prepared :: "(jsval option \<times> view_call list) list"
  va_token :: string
  va_ids :: "nat \<Rightarrow> string"

definition view_answered :: "view_answers \<Rightarrow> view_registry \<Rightarrow> view_registry" where
  "view_answered a r =
     r\<lparr>vr_heap := va_heap a, vr_clock := va_clock a, vr_answers := va_answers a, vr_prepared := va_prepared a,
       vr_token := va_token a, vr_ids := va_ids a\<rparr>"

definition check_current :: "nat \<Rightarrow> view_registry \<Rightarrow> view_registry" where
  "check_current h r = (case map_of (vr_reads r) h of None \<Rightarrow> r | Some d \<Rightarrow> snd (is_view_current (rd_enrolled d) r))"

fun view_op_result :: "view_op \<Rightarrow> view_registry \<Rightarrow> view_registry" where
  "view_op_result (SetEnabled a v) r = snd (set_enabled a v r)"
| "view_op_result (Enroll a v) r = snd (enroll_views a v r)"
| "view_op_result (RevokeGrant a g) r = snd (revoke_grant a g r)"
| "view_op_result (DetachRecipient a w) r = snd (detach_recipient a w r)"
| "view_op_result (RevokeConversation a c) r = snd (revoke_conversation a c r)"
| "view_op_result (InvalidateBinding a b) r = snd (invalidate_binding a b r)"
| "view_op_result (ViewStatus w) r = snd (view_status w r)"
| "view_op_result (Read w g v f) r = snd (begin_read w g v f r)"
| "view_op_result (CheckCurrent h) r = check_current h r"
| "view_op_result (ConfirmStopped h v) r = snd (confirm_read h v r)"
| "view_op_result (DrainUnknown h) r = snd (drain_read h r)"
| "view_op_result (CaptureSettles h c) r = snd (settle_capture h c r)"
| "view_op_result (LeaseBytes h) r = snd (lease_bytes h r)"
| "view_op_result (LeaseReserve h n) r = snd (lease_reserve h n r)"
| "view_op_result (LoanRelease x) r = snd (loan_release x r)"
| "view_op_result (LeaseRelease h) r = snd (lease_release h r)"

fun view_step_of :: "view_answers \<times> view_op \<Rightarrow> view_registry \<Rightarrow> view_registry" where
  "view_step_of (a, op) r = view_op_result op (view_answered a r)"

end
