(* ===== verification/ReadViewFacts.thy ===== *)
theory ReadViewFacts
  imports ReadViews
begin

text \<open>
  What the registry of reading views promises: it changes the budget by the budget's own operations only, bytes
  are handed out only to a recipient that passed every check at that moment, and an enrollment that ended never
  delivers again. Every operation is \<open>steady\<close>: it keeps the invariant and the lasting order; most of them are
  made of a few small steps.
\<close>

section \<open>The invariant and the order\<close>

definition budget_goes :: "budget \<Rightarrow> budget \<Rightarrow> bool" where
  "budget_goes b b' \<longleftrightarrow> (\<exists>ops. b' = run apply_op ops b)"

definition budget_fades :: "budget \<Rightarrow> budget \<Rightarrow> bool" where
  "budget_fades b b' \<longleftrightarrow> budget_goes b b' \<and> keys (entries b') \<subseteq> keys (entries b)"

definition reading_fits :: "reading \<Rightarrow> bool" where
  "reading_fits d \<longleftrightarrow> rd_bound d \<le> 1048576
     \<and> (case rd_stage d of Leased bytes \<Rightarrow> bytes \<noteq> [] \<and> length bytes \<le> rd_bound d | _ \<Rightarrow> True)"

definition enrolled_fits :: "view_registry \<Rightarrow> nat \<Rightarrow> enrolled \<Rightarrow> bool" where
  "enrolled_fits r i e \<longleftrightarrow> i < vr_next r
     \<and> (vn_revoked e \<or> i \<in> set (vr_records r) \<and> map_of (vr_grants r) (vn_token e) = Some i
          \<and> list_all (\<lambda>v. \<not> rv_disposed v) (vn_views e))"

text \<open>A charge of the budget is tracked: its read is known, and its enrollment is recorded and lists it.\<close>

definition view_tracks :: "nat \<Rightarrow> entry \<Rightarrow> read_view \<Rightarrow> bool" where
  "view_tracks h x v \<longleftrightarrow> h \<in> set (rv_entries v) \<and> \<not> rv_disposed v \<and> rv_budget v = e_view x"

definition tracks :: "view_registry \<Rightarrow> nat \<Rightarrow> entry \<Rightarrow> bool" where
  "tracks r h x \<longleftrightarrow> (\<exists>d e. map_of (vr_reads r) h = Some d \<and> map_of (vr_objects r) (rd_enrolled d) = Some e
     \<and> rd_enrolled d \<in> set (vr_records r) \<and> rd_view d < length (vn_views e) \<and> view_tracks h x (vn_views e ! rd_view d))"

definition tracked :: "view_registry \<Rightarrow> bool" where
  "tracked r \<longleftrightarrow> (\<forall>h x. map_of (entries (vr_budget r)) h = Some x \<longrightarrow> tracks r h x)"

definition view_name :: "read_view \<Rightarrow> string \<times> asked_view \<times> nat" where
  "view_name v = (rv_id v, rv_asked v, rv_budget v)"

definition views_ok :: "view_registry \<Rightarrow> bool" where
  "views_ok r \<longleftrightarrow> budget_inv (vr_budget r) \<and> tracked r
     \<and> (\<forall>h d. map_of (vr_reads r) h = Some d \<longrightarrow> h < next_handle (vr_budget r) \<and> reading_fits d)
     \<and> (\<forall>i e. map_of (vr_objects r) i = Some e \<longrightarrow> enrolled_fits r i e)"

definition same_enrolled :: "enrolled \<Rightarrow> enrolled \<Rightarrow> bool" where
  "same_enrolled e e' \<longleftrightarrow> vn_token e' = vn_token e \<and> vn_recipient e' = vn_recipient e \<and> vn_snapshot e' = vn_snapshot e
     \<and> vn_expires e' = vn_expires e \<and> List.map view_name (vn_views e') = List.map view_name (vn_views e)
     \<and> (vn_revoked e \<longrightarrow> vn_revoked e')"

definition same_reading :: "reading \<Rightarrow> reading \<Rightarrow> bool" where
  "same_reading d d' \<longleftrightarrow> rd_enrolled d' = rd_enrolled d \<and> rd_view d' = rd_view d \<and> rd_bound d' = rd_bound d
     \<and> (rd_stage d = Capturing \<or> rd_stage d' = rd_stage d \<or> rd_stage d' = Returned)"

definition views_age :: "view_registry \<Rightarrow> view_registry \<Rightarrow> bool" where
  "views_age r r' \<longleftrightarrow> budget_goes (vr_budget r) (vr_budget r') \<and> vr_authority r' = vr_authority r
     \<and> (vr_fault r \<longrightarrow> vr_fault r')
     \<and> (\<forall>i e. map_of (vr_objects r) i = Some e \<longrightarrow> (\<exists>e'. map_of (vr_objects r') i = Some e' \<and> same_enrolled e e'))
     \<and> (\<forall>h d. map_of (vr_reads r) h = Some d \<longrightarrow> (\<exists>d'. map_of (vr_reads r') h = Some d' \<and> same_reading d d'))"

lemma budget_goes_refl [simp]: "budget_goes b b"
  unfolding budget_goes_def by (rule exI [of _ "[]"]) simp

lemma budget_goes_trans: "budget_goes a b \<Longrightarrow> budget_goes b c \<Longrightarrow> budget_goes a c"
  unfolding budget_goes_def by (metis run_append)

lemma budget_goes_op: "budget_goes b (apply_op op b)"
  unfolding budget_goes_def by (rule exI [of _ "[op]"]) simp

lemma budget_goes_ops [simp]:
  "budget_goes b (snd (revoke_view v b))" "budget_goes b (snd (dispose_view v b))" "budget_goes b (snd (bind_view c b))"
  "budget_goes b (snd (reserve v x b))" "budget_goes b (snd (start_read h b))" "budget_goes b (snd (confirm_stopped h x b))"
  "budget_goes b (snd (unknown_drain h b))" "budget_goes b (snd (cancel h b))" "budget_goes b (snd (release h b))"
  "budget_goes b (snd (reserve_delivery h x b))" "budget_goes b (snd (release_delivery h b))"
  using budget_goes_op [of b "Revoke v"] budget_goes_op [of b "Dispose v"] budget_goes_op [of b "Bind c"]
    budget_goes_op [of b "Reserve v x"] budget_goes_op [of b "Start h"] budget_goes_op [of b "Confirm h x"]
    budget_goes_op [of b "UnknownDrain h"] budget_goes_op [of b "Cancel h"] budget_goes_op [of b "ReleaseRef h"]
    budget_goes_op [of b "ReserveDelivery h x"] budget_goes_op [of b "ReleaseDelivery h"]
  by simp_all

lemma budget_goes_inv:
  assumes "budget_goes b b'" and "budget_inv b"
  shows "budget_inv b'" and "next_handle b \<le> next_handle b'"
proof -
  obtain ops where ops: "b' = run apply_op ops b" using assms(1) unfolding budget_goes_def ..
  show "budget_inv b'" unfolding ops by (rule budget_machine.run_inv [OF assms(2)])
  have "ages b b'" unfolding ops by (rule budget_machine.run_ages [OF assms(2)])
  then show "next_handle b \<le> next_handle b'" by (simp add: ages_def)
qed

lemma budget_fades_refl [simp]: "budget_fades b b"
  by (simp add: budget_fades_def)

lemma budget_fades_trans: "budget_fades a b \<Longrightarrow> budget_fades b c \<Longrightarrow> budget_fades a c"
  unfolding budget_fades_def using budget_goes_trans by blast

lemma entries_upd [simp]:
  "keys (entries (upd_entry h f b)) = keys (entries b)" "entries (upd_view v g b) = entries b"
  "keys (entries (subtract h n b)) = keys (entries b)"
  by (auto simp: upd_entry_def upd_view_def subtract_def map_of_None_iff [symmetric] map_of_Some_key split: option.split)

lemma entries_remove: "keys (entries (snd (remove_entry h b))) \<subseteq> keys (entries b)"
  by (auto simp: remove_entry_def Let_def split: option.splits)

lemma entries_cancel: "keys (entries (snd (cancel h b))) \<subseteq> keys (entries b)"
  using entries_remove [of h "upd_entry h (\<lambda>e. e\<lparr>e_invalid := True\<rparr>) b"] by (auto simp: cancel_def Let_def split: option.splits)

lemma entries_cancel_all: "keys (entries (snd (cancel_all hs b))) \<subseteq> keys (entries b)"
proof (induction hs arbitrary: b)
  case (Cons h hs)
  obtain res b1 where c: "cancel h b = (res, b1)" by force
  then show ?case using entries_cancel [of h b] Cons.IH [of b1] by (cases res) auto
qed simp

lemma entries_ops:
  "keys (entries (snd (revoke_view v b))) \<subseteq> keys (entries b)" "entries (snd (dispose_view v b)) = entries b"
  "entries (snd (bind_view c b)) = entries b" "keys (entries (snd (start_read h b))) \<subseteq> keys (entries b)"
  "keys (entries (snd (confirm_stopped h x b))) \<subseteq> keys (entries b)" "keys (entries (snd (unknown_drain h b))) \<subseteq> keys (entries b)"
  "keys (entries (snd (release h b))) \<subseteq> keys (entries b)" "keys (entries (snd (reserve_delivery h x b))) \<subseteq> keys (entries b)"
  using entries_cancel_all [of "handles_of_view v (b\<lparr>views := put v (s\<lparr>v_revoked := True\<rparr>) (views b)\<rparr>)"
      "b\<lparr>views := put v (s\<lparr>v_revoked := True\<rparr>) (views b)\<rparr>" for s] entries_remove [of h b]
    entries_remove [of h "upd_entry h (\<lambda>e. e\<lparr>e_refs := e_refs e - 1\<rparr>) b"]
  by (auto simp: revoke_view_def dispose_view_def bind_view_def start_read_def confirm_stopped_def unknown_drain_def release_def
      reserve_delivery_def Let_def split: option.splits prod.splits if_splits)

lemma entries_release_delivery: "keys (entries (snd (release_delivery x b))) \<subseteq> keys (entries b)"
proof -
  have "keys (entries (snd (remove_entry h (subtract h n (upd_entry h f (b\<lparr>deliveries := d, released := l\<rparr>)))))) \<subseteq> keys (entries b)" for h n f d l
    using entries_remove [of h "subtract h n (upd_entry h f (b\<lparr>deliveries := d, released := l\<rparr>))"] by simp
  then show ?thesis by (auto simp: release_delivery_def Let_def split: option.splits)
qed

lemma budget_fades_ops [simp]:
  "budget_fades b (snd (revoke_view v b))" "budget_fades b (snd (dispose_view v b))" "budget_fades b (snd (bind_view c b))"
  "budget_fades b (snd (start_read h b))" "budget_fades b (snd (confirm_stopped h x b))"
  "budget_fades b (snd (unknown_drain h b))" "budget_fades b (snd (cancel h b))" "budget_fades b (snd (release h b))"
  "budget_fades b (snd (reserve_delivery h x b))" "budget_fades b (snd (release_delivery h b))"
  by (simp_all add: budget_fades_def entries_ops entries_cancel entries_release_delivery)

lemma fades_view:
  assumes "budget_fades b b'" and "budget_inv b" and "map_of (entries b') h = Some x'"
  obtains x where "map_of (entries b) h = Some x" and "e_view x' = e_view x"
proof -
  obtain ops where ops: "b' = run apply_op ops b" using assms(1) unfolding budget_fades_def budget_goes_def by blast
  have "ages b b'" unfolding ops by (rule budget_machine.run_ages [OF assms(2)])
  moreover have "h \<in> keys (entries b)" using assms(1,3) map_of_Some_key unfolding budget_fades_def by fast
  then have "h < next_handle b" using inv_parts(6) [OF assms(2)] by (auto simp: handles_ok_def)
  ultimately show ?thesis using that assms(3) ages_entry by blast
qed

lemma same_enrolled_refl [simp]: "same_enrolled e e"
  by (simp add: same_enrolled_def)

lemma same_enrolled_trans: "same_enrolled a b \<Longrightarrow> same_enrolled b c \<Longrightarrow> same_enrolled a c"
  by (simp add: same_enrolled_def)

lemma same_reading_refl [simp]: "same_reading d d"
  by (simp add: same_reading_def)

lemma same_reading_trans: "same_reading a b \<Longrightarrow> same_reading b c \<Longrightarrow> same_reading a c"
  by (auto simp: same_reading_def)

lemma views_age_refl [simp]: "views_age r r"
  by (simp add: views_age_def)

lemma views_age_trans:
  assumes "views_age r s" and "views_age s t"
  shows "views_age r t"
proof -
  have "\<exists>e'. map_of (vr_objects t) i = Some e' \<and> same_enrolled e e'" if "map_of (vr_objects r) i = Some e" for i e
    using assms that unfolding views_age_def by (meson same_enrolled_trans)
  moreover have "\<exists>d'. map_of (vr_reads t) h = Some d' \<and> same_reading d d'" if "map_of (vr_reads r) h = Some d" for h d
    using assms that unfolding views_age_def by (meson same_reading_trans)
  moreover have "budget_goes (vr_budget r) (vr_budget t)"
    using assms budget_goes_trans unfolding views_age_def by blast
  ultimately show ?thesis using assms by (simp add: views_age_def)
qed

definition steady :: "view_registry \<Rightarrow> view_registry \<Rightarrow> bool" where
  "steady r r' \<longleftrightarrow> (views_ok r \<longrightarrow> views_ok r' \<and> views_age r r')"

lemma steady_refl [simp]: "steady r r"
  by (simp add: steady_def)

lemma steady_trans: "steady r s \<Longrightarrow> steady s t \<Longrightarrow> steady r t"
  unfolding steady_def using views_age_trans by blast

section \<open>Small steps\<close>

text \<open>What the invariant and the order look at.\<close>

lemma tracked_fades:
  assumes "tracked r" and "budget_inv (vr_budget r)" and "budget_fades (vr_budget r) (vr_budget r')"
    and "\<And>h x. tracks r h x \<Longrightarrow> h \<in> keys (entries (vr_budget r')) \<Longrightarrow> tracks r' h x"
  shows "tracked r'"
  unfolding tracked_def
proof (intro allI impI)
  fix h x' assume x': "map_of (entries (vr_budget r')) h = Some x'"
  obtain x where x: "map_of (entries (vr_budget r)) h = Some x" "e_view x' = e_view x" by (rule fades_view [OF assms(3,2) x'])
  have "tracks r' h x" using assms(1,4) x(1) map_of_Some_key [OF x'] unfolding tracked_def by blast
  then show "tracks r' h x'" using x(2) unfolding tracks_def view_tracks_def by simp
qed

lemma tracked_same:
  assumes "views_ok r" and "vr_budget s = vr_budget r"
    and "\<And>h x. tracks r h x \<Longrightarrow> h \<in> keys (entries (vr_budget r)) \<Longrightarrow> tracks s h x"
  shows "tracked s"
  by (rule tracked_fades [of r]) (use assms in \<open>simp_all add: views_ok_def\<close>)

lemma views_okI:
  assumes "views_ok r" and "tracked s" and "vr_budget s = vr_budget r" and "vr_reads s = vr_reads r"
    and "\<And>i e. map_of (vr_objects s) i = Some e \<Longrightarrow> enrolled_fits s i e"
  shows "views_ok s"
  using assms by (simp add: views_ok_def)

lemma steady_same:
  assumes "vr_objects r' = vr_objects r" and "vr_next r' = vr_next r" and "vr_records r' = vr_records r"
    and "vr_grants r' = vr_grants r" and "vr_reads r' = vr_reads r" and "vr_authority r' = vr_authority r"
    and "vr_fault r \<longrightarrow> vr_fault r'" and "budget_fades (vr_budget r) (vr_budget r')"
  shows "steady r r'"
proof (unfold steady_def, intro impI)
  assume ok: "views_ok r"
  have goes: "budget_goes (vr_budget r) (vr_budget r')" using assms(8) by (simp add: budget_fades_def)
  have inv: "budget_inv (vr_budget r)" "tracked r" using ok by (simp_all add: views_ok_def)
  have "tracked r'" by (rule tracked_fades [OF inv(2,1) assms(8)]) (use assms in \<open>simp add: tracks_def\<close>)
  then show "views_ok r' \<and> views_age r r'"
    using assms ok goes budget_goes_inv [OF goes inv(1)]
    by (auto simp: views_ok_def views_age_def enrolled_fits_def intro: order.strict_trans2)
qed

lemma steady_revoke:
  assumes "map_of (vr_objects r) i = Some e" and "\<not> vn_revoked e"
  shows "steady r (r\<lparr>vr_objects := put i (e\<lparr>vn_revoked := True\<rparr>) (vr_objects r), vr_grants := del (vn_token e) (vr_grants r)\<rparr>)"
    (is "steady r ?s")
proof (unfold steady_def, intro impI conjI)
  assume ok: "views_ok r"
  have "enrolled_fits ?s j f" if f: "map_of (vr_objects ?s) j = Some f" for j f
  proof (cases "j = i")
    case True
    then show ?thesis using ok assms f by (auto simp: views_ok_def enrolled_fits_def)
  next
    case False
    then have "map_of (vr_objects r) j = Some f" using f by simp
    then have "enrolled_fits r j f" "enrolled_fits r i e" using ok assms by (auto simp: views_ok_def)
    then show ?thesis using False assms(2) by (auto simp: enrolled_fits_def)
  qed
  moreover have "tracked ?s"
    by (rule tracked_fades [of r]) (use ok assms(1) in \<open>auto simp: views_ok_def tracks_def\<close>)
  ultimately show "views_ok ?s" using ok by (simp add: views_ok_def)
  show "views_age r ?s" using assms by (auto simp: views_age_def same_enrolled_def)
qed

definition view_kept :: "budget \<Rightarrow> read_view \<Rightarrow> read_view \<Rightarrow> bool" where
  "view_kept b v v' \<longleftrightarrow> view_name v' = view_name v \<and> set (rv_entries v) \<inter> keys (entries b) \<subseteq> set (rv_entries v')
     \<and> (rv_disposed v' \<longrightarrow> rv_disposed v \<or> rv_entries v = [])"

lemma view_kept_refl [simp]: "view_kept b v v"
  by (simp add: view_kept_def)

lemma views_kept_refl [simp]: "list_all2 (view_kept b) vs vs"
  by (simp add: list_all2_refl)

lemma view_kept_tracks: "view_kept b v v' \<Longrightarrow> h \<in> keys (entries b) \<Longrightarrow> view_tracks h x v \<Longrightarrow> view_tracks h x v'"
  by (auto simp: view_kept_def view_tracks_def view_name_def)

lemma views_kept_names: "list_all2 (view_kept b) vs vs' \<Longrightarrow> List.map view_name vs' = List.map view_name vs"
  by (induction rule: list_all2_induct) (simp_all add: view_kept_def)

lemma steady_views:
  assumes "map_of (vr_objects r) i = Some e" and "list_all2 (view_kept (vr_budget r)) (vn_views e) vs"
    and "\<not> vn_revoked e \<Longrightarrow> List.map rv_disposed vs = List.map rv_disposed (vn_views e)"
  shows "steady r (r\<lparr>vr_objects := put i (e\<lparr>vn_views := vs\<rparr>) (vr_objects r)\<rparr>)" (is "steady r ?s")
proof (unfold steady_def, intro impI conjI)
  assume ok: "views_ok r"
  have "tracks ?s h x" if t: "tracks r h x" and h: "h \<in> keys (entries (vr_budget ?s))" for h x
  proof -
    obtain d e' where d: "map_of (vr_reads r) h = Some d" "map_of (vr_objects r) (rd_enrolled d) = Some e'"
      "rd_enrolled d \<in> set (vr_records r)" "rd_view d < length (vn_views e')" "view_tracks h x (vn_views e' ! rd_view d)"
      using t unfolding tracks_def by blast
    show ?thesis
    proof (cases "rd_enrolled d = i")
      case True
      then have "e' = e" using d(2) assms(1) by simp
      moreover have "rd_view d < length vs" "view_kept (vr_budget r) (vn_views e ! rd_view d) (vs ! rd_view d)"
        using assms(2) d(4) \<open>e' = e\<close> by (auto simp: list_all2_conv_all_nth)
      ultimately show ?thesis using True d h view_kept_tracks unfolding tracks_def by fastforce
    next
      case False
      then show ?thesis using d unfolding tracks_def by auto
    qed
  qed
  then have "tracked ?s" using tracked_same [OF ok, of ?s] by simp
  moreover have "list_all (\<lambda>v. \<not> rv_disposed v) vs" if "\<not> vn_revoked e"
  proof -
    have "list_all (\<lambda>v. \<not> rv_disposed v) (vn_views e)" using ok assms(1) that unfolding views_ok_def enrolled_fits_def by blast
    then have "list_all Not (List.map rv_disposed (vn_views e))" by (simp add: list_all_iff)
    then have "list_all Not (List.map rv_disposed vs)" using assms(3) [OF that] by simp
    then show ?thesis by (simp add: list_all_iff)
  qed
  moreover have "enrolled_fits ?s j f" if f: "map_of (vr_objects ?s) j = Some f" for j f
  proof (cases "j = i")
    case True
    have "enrolled_fits r i e" using ok assms(1) by (simp add: views_ok_def)
    then show ?thesis using True f calculation(2) by (auto simp: enrolled_fits_def)
  next
    case False
    then have "enrolled_fits r j f" using ok f by (simp add: views_ok_def)
    then show ?thesis by (simp add: enrolled_fits_def)
  qed
  ultimately show "views_ok ?s" by (intro views_okI [OF ok]) simp_all
  have "same_enrolled e (e\<lparr>vn_views := vs\<rparr>)" using views_kept_names [OF assms(2)] by (simp add: same_enrolled_def)
  then show "views_age r ?s" using assms(1) by (simp add: views_age_def)
qed

lemma steady_forget:
  assumes "map_of (vr_objects r) i = Some e" and "vn_revoked e" and "list_all rv_disposed (vn_views e)"
  shows "steady r (r\<lparr>vr_records := removeAll i (vr_records r)\<rparr>)" (is "steady r ?s")
proof (unfold steady_def, intro impI conjI)
  assume ok: "views_ok r"
  have "tracks ?s h x" if t: "tracks r h x" for h x
  proof -
    obtain d e' where d: "map_of (vr_reads r) h = Some d" "map_of (vr_objects r) (rd_enrolled d) = Some e'"
      "rd_enrolled d \<in> set (vr_records r)" "rd_view d < length (vn_views e')" "view_tracks h x (vn_views e' ! rd_view d)"
      using t unfolding tracks_def by blast
    have "rd_enrolled d \<noteq> i"
    proof
      assume "rd_enrolled d = i"
      then have "e' = e" using d(2) assms(1) by simp
      then have "rv_disposed (vn_views e' ! rd_view d)" using assms(3) d(4) by (simp add: list_all_length)
      then show False using d(5) by (simp add: view_tracks_def)
    qed
    then show ?thesis using d unfolding tracks_def by simp
  qed
  then have "tracked ?s" using tracked_same [OF ok, of ?s] by simp
  moreover have "enrolled_fits ?s j f" if f: "map_of (vr_objects ?s) j = Some f" for j f
  proof -
    have "enrolled_fits r j f" using ok f by (simp add: views_ok_def)
    then show ?thesis using f assms(1,2) by (auto simp: enrolled_fits_def)
  qed
  ultimately show "views_ok ?s" by (intro views_okI [OF ok]) simp_all
  show "views_age r ?s" by (simp add: views_age_def)
qed

lemma steady_budget: "budget_fades (vr_budget r) b \<Longrightarrow> steady r (r\<lparr>vr_budget := b\<rparr>)"
  by (rule steady_same) simp_all

lemma steady_stage:
  assumes "map_of (vr_reads r) h = Some d" and "same_reading d (d\<lparr>rd_stage := st\<rparr>)"
    and "\<And>bytes. st = Leased bytes \<Longrightarrow> bytes \<noteq> [] \<and> length bytes \<le> rd_bound d"
  shows "steady r (set_stage h st r)"
proof (unfold steady_def, intro impI conjI)
  assume ok: "views_ok r"
  have "tracks (set_stage h st r) k x" if t: "tracks r k x" for k x
  proof -
    obtain d' where d': "map_of (vr_reads r) k = Some d'" using t unfolding tracks_def by blast
    obtain d2 where "map_of (vr_reads (set_stage h st r)) k = Some d2" "rd_enrolled d2 = rd_enrolled d'" "rd_view d2 = rd_view d'"
      using d' assms(1) by (cases "k = h") (simp_all add: set_stage_def)
    then show ?thesis using t d' assms(1) unfolding tracks_def by (simp add: set_stage_def)
  qed
  then have "tracked (set_stage h st r)"
    using tracked_same [OF ok, of "set_stage h st r"] assms(1) by (simp add: set_stage_def)
  moreover have "h < next_handle (vr_budget r) \<and> reading_fits d" using ok assms(1) by (simp add: views_ok_def)
  then have "reading_fits (d\<lparr>rd_stage := st\<rparr>)" using assms(3) by (auto simp: reading_fits_def split: read_stage.split)
  ultimately show "views_ok (set_stage h st r)"
    using ok assms(1) by (simp add: views_ok_def set_stage_def enrolled_fits_def)
  show "views_age r (set_stage h st r)" using assms(1,2) by (simp add: views_age_def set_stage_def)
qed

section \<open>Revocation and time\<close>

lemma dispose_views_goes: "budget_fades b (snd (dispose_views vs b))"
proof (induction vs arbitrary: b)
  case (Cons v vs)
  obtain res b1 where d: "dispose_view (rv_budget v) b = (res, b1)" by force
  have "budget_fades b b1" using budget_fades_ops(2) [of b "rv_budget v"] d by simp
  then show ?case
    using Cons.IH [of b] Cons.IH [of b1] d budget_fades_trans
    by (cases res) (auto split: prod.splits)
qed simp

lemma dispose_views_kept: "list_all2 (view_kept c) vs (fst (dispose_views vs b))"
proof (induction vs arbitrary: b)
  case (Cons v vs)
  obtain res b1 where d: "dispose_view (rv_budget v) b = (res, b1)" by force
  obtain vs0 b0 where v0: "dispose_views vs b = (vs0, b0)" by force
  obtain vs1 b2 where v1: "dispose_views vs b1 = (vs1, b2)" by force
  have IH: "list_all2 (view_kept c) vs vs0" "list_all2 (view_kept c) vs vs1" using Cons.IH [of b] Cons.IH [of b1] v0 v1 by simp_all
  show ?case
  proof (cases "rv_disposed v \<or> rv_entries v \<noteq> []")
    case True
    then show ?thesis using v0 IH by simp
  next
    case False
    then have "view_kept c v (v\<lparr>rv_disposed := True\<rparr>)" by (simp add: view_kept_def view_name_def)
    then show ?thesis using False d v1 IH by (cases res) simp_all
  qed
qed simp

lemma revoke_views_goes: "budget_fades b (revoke_views vs b)"
proof (induction vs arbitrary: b)
  case (Cons v vs)
  show ?case using budget_fades_trans [OF budget_fades_ops(1) Cons.IH] by simp
qed simp

lemma collect_steady: "steady r (collect_views i r)"
proof (cases "map_of (vr_objects r) i")
  case None
  then show ?thesis by (simp add: collect_views_def)
next
  case (Some e)
  show ?thesis
  proof (cases "vn_revoked e")
    case False
    then show ?thesis using Some by (simp add: collect_views_def)
  next
    case True
    obtain vs b where d: "dispose_views (vn_views e) (vr_budget r) = (vs, b)" by force
    let ?s = "r\<lparr>vr_budget := b\<rparr>"
    let ?t = "?s\<lparr>vr_objects := put i (e\<lparr>vn_views := vs\<rparr>) (vr_objects ?s)\<rparr>"
    have "steady r ?s" using dispose_views_goes [of "vr_budget r" "vn_views e"] d by (simp add: steady_budget)
    moreover have "steady ?s ?t" by (rule steady_views) (use Some True dispose_views_kept [of b "vn_views e" "vr_budget r"] d in simp_all)
    ultimately have t: "steady r ?t" using steady_trans by blast
    have u: "steady r (?t\<lparr>vr_records := removeAll i (vr_records ?t)\<rparr>)" if "list_all rv_disposed vs"
      by (rule steady_trans [OF t steady_forget [where e = "e\<lparr>vn_views := vs\<rparr>"]]) (simp_all add: True that)
    moreover have "collect_views i r = (if list_all rv_disposed vs then ?t\<lparr>vr_records := removeAll i (vr_records ?t)\<rparr> else ?t)"
      using Some True d by (simp add: collect_views_def)
    ultimately show ?thesis using t by simp
  qed
qed

lemma end_unchanged:
  "map_of (vr_objects r) i = None \<Longrightarrow> end_enrolled i r = r"
  "map_of (vr_objects r) i = Some e \<Longrightarrow> vn_revoked e \<Longrightarrow> end_enrolled i r = r"
  by (simp_all add: end_enrolled_def)

lemma end_steady: "steady r (end_enrolled i r)"
proof (cases "not_revoked i r")
  case False
  then show ?thesis using end_unchanged by (auto simp: not_revoked_def split: option.splits)
next
  case True
  then obtain e where Some: "map_of (vr_objects r) i = Some e" and alive: "\<not> vn_revoked e"
    by (auto simp: not_revoked_def split: option.splits)
  let ?s = "r\<lparr>vr_objects := put i (e\<lparr>vn_revoked := True\<rparr>) (vr_objects r), vr_grants := del (vn_token e) (vr_grants r)\<rparr>"
  let ?t = "?s\<lparr>vr_budget := revoke_views (vn_views e) (vr_budget r)\<rparr>"
  have "steady ?s ?t" by (rule steady_budget) (simp add: revoke_views_goes)
  then have "steady r (collect_views i ?t)"
    using steady_revoke [OF Some alive] collect_steady steady_trans by blast
  then show ?thesis using Some alive by (simp add: end_enrolled_def)
qed

lemma end_all_steady: "steady r (end_all is r)"
  by (induction "is" arbitrary: r) (auto intro: steady_trans [OF end_steady])

lemma advance_steady: "steady r (advance_views r)"
  by (rule steady_same) (simp_all add: advance_views_def)

lemma fail_clock_steady: "steady r (fail_view_clock r)"
proof (cases "vr_fault r")
  case False
  have "steady r (r\<lparr>vr_fault := True, vr_enabled := False\<rparr>)" by (rule steady_same) simp_all
  then show ?thesis
    using False steady_trans [OF _ steady_trans [OF advance_steady end_all_steady]] by (simp add: fail_view_clock_def Let_def)
qed (simp add: fail_view_clock_def)

lemma switched_steady: "steady r ((advance_views r)\<lparr>vr_enabled := on\<rparr>)"
  by (rule steady_same) (simp_all add: advance_views_def)

lemma owner_steady:
  "steady r (snd (set_enabled a v r))" "steady r (snd (revoke_grant a g r))" "steady r (snd (end_where P a r))"
  using switched_steady end_all_steady end_steady advance_steady steady_trans
  by (auto simp: set_enabled_def revoke_grant_def end_where_def Let_def split: jsval.split option.split) blast+

lemma owners_steady:
  "steady r (snd (detach_recipient a w r))" "steady r (snd (revoke_conversation a c r))" "steady r (snd (invalidate_binding a b r))"
  by (simp_all add: detach_recipient_def revoke_conversation_def invalidate_binding_def owner_steady)

lemma calls_one: "calls_back (c # cs) r = calls_back cs (calls_back [c] r)"
  by (cases c) simp_all

lemma one_steady: "steady r (calls_back [c] r)"
proof (cases c)
  case (CallMutate o' v)
  show ?thesis by (rule steady_same) (simp_all add: CallMutate)
qed (simp_all add: owner_steady owners_steady fail_clock_steady)

lemma calls_steady: "steady r (calls_back cs r)"
proof (induction cs arbitrary: r)
  case (Cons c cs)
  show ?case by (subst calls_one) (rule steady_trans [OF one_steady Cons.IH])
qed simp

lemma answers_steady:
  "steady r (r\<lparr>vr_clock := q\<rparr>)" "steady r (r\<lparr>vr_answers := q'\<rparr>)" "steady r (r\<lparr>vr_prepared := q''\<rparr>)" "steady r (r\<lparr>vr_last := t\<rparr>)"
  by (rule steady_same; simp)+

lemma clock_steady: "steady r (snd (view_clock r))"
proof (cases "vr_clock r")
  case Nil
  then show ?thesis using fail_clock_steady by (simp add: view_clock_def)
next
  case (Cons a rest)
  obtain answer calls where a: "a = (answer, calls)" by force
  let ?s = "calls_back calls (r\<lparr>vr_clock := rest\<rparr>)"
  have "steady r ?s" by (rule steady_trans [OF answers_steady(1) calls_steady])
  then have "steady r (fail_view_clock ?s)" "steady r (?s\<lparr>vr_last := t\<rparr>)" for t
    using fail_clock_steady answers_steady(4) steady_trans by blast+
  then show ?thesis using Cons a by (auto simp: view_clock_def Let_def split: option.split)
qed

lemma sweep_steady: "steady r (snd (sweep_views r))"
proof (cases "vr_fault r")
  case False
  obtain res s where c: "view_clock r = (res, s)" by force
  have "steady r s" using clock_steady [of r] c by simp
  then show ?thesis using False c steady_trans [OF _ end_all_steady] by (cases res) (simp_all add: sweep_views_def)
qed (simp add: sweep_views_def)

lemma ask_steady: "steady r (snd (ask_backend r))"
  using steady_trans [OF answers_steady(2) calls_steady] by (auto simp: ask_backend_def split: list.split)

lemma ask_all_steady: "steady r (snd (ask_all n r))"
proof (induction n arbitrary: r)
  case (Suc n)
  obtain a s where a: "ask_backend r = (a, s)" by force
  show ?case using ask_steady [of r] a Suc.IH [of s] steady_trans by auto
qed simp

lemma ready_steady: "steady r (snd (ask_ready r))"
  using ask_steady [of r] by (cases "ask_backend r") (simp add: ask_ready_def)

lemma ask_current_steady: "steady r (snd (ask_current i e snap r))"
proof -
  obtain res s where c: "view_clock r = (res, s)" by force
  obtain a t where a: "ask_ready s = (a, t)" by force
  have s: "steady r s" using clock_steady [of r] c by simp
  have t: "steady r t" using steady_trans [OF s] ready_steady [of s] a by simp
  have "steady r (snd (ask_all 2 t))" using steady_trans [OF t ask_all_steady] .
  then show ?thesis using s t c a by (cases res; cases a) (simp_all add: ask_current_def del: ask_all.simps)
qed

lemma current_check_steady: "steady r (snd (current_check i e r))"
proof (cases "recipient_snapshot (content (vn_recipient e) r)")
  case (Inr snap)
  obtain a s where a: "ask_current i e snap r = (a, s)" by force
  obtain res t where c: "view_clock s = (res, t)" by force
  have s: "steady r s" using ask_current_steady [of r i e snap] a by simp
  have "steady r t" using steady_trans [OF s] clock_steady [of s] c by simp
  then show ?thesis using s Inr a c by (cases a; cases res) (simp_all add: current_check_def)
qed (simp add: current_check_def)

lemma current_steady: "steady r (snd (is_view_current i r))"
proof (cases "map_of (vr_objects r) i")
  case (Some e)
  obtain b s where c: "current_check i e r = (b, s)" by force
  show ?thesis
    using current_check_steady [of r i e] c steady_trans [OF _ end_steady] Some by (simp add: is_view_current_def)
qed (simp add: is_view_current_def)

section \<open>Enrolling and reading\<close>

lemma bind_views_goes: "budget_fades b (snd (snd (bind_views c n b)))"
proof (induction n arbitrary: b)
  case (Suc n)
  obtain res b1 where bd: "bind_view (Some c) b = (res, b1)" by force
  have "budget_fades b b1" using budget_fades_ops(3) [of b "Some c"] bd by simp
  moreover obtain q hs b2 where q: "bind_views c n b1 = (q, hs, b2)" by (metis prod_cases3)
  moreover have "budget_fades b1 b2" using Suc.IH [of b1] q by simp
  ultimately show ?case using bd budget_fades_trans by (cases res) auto
qed simp

lemma give_back_goes: "budget_fades b (give_back hs b)"
proof (induction hs arbitrary: b)
  case (Cons h hs)
  show ?case using budget_fades_trans [OF budget_fades_trans [OF budget_fades_ops(1) budget_fades_ops(2)] Cons.IH] by simp
qed simp

lemma add_enrolled_steady:
  assumes "\<not> vn_revoked e" and "records_where (\<lambda>f. vn_token f = vn_token e) r = []" and "list_all (\<lambda>v. \<not> rv_disposed v) (vn_views e)"
  shows "steady r (add_enrolled e r)"
proof (unfold steady_def, intro impI conjI)
  assume ok: "views_ok r"
  have "enrolled_fits (add_enrolled e r) j f" if f: "map_of (vr_objects (add_enrolled e r)) j = Some f" for j f
  proof (cases "j = vr_next r")
    case True
    then show ?thesis using f assms(1,3) by (simp add: add_enrolled_def enrolled_fits_def)
  next
    case False
    then have old: "map_of (vr_objects r) j = Some f" using f by (simp add: add_enrolled_def)
    then have fits: "enrolled_fits r j f" using ok by (simp add: views_ok_def)
    then have "vn_revoked f \<or> vn_token f \<noteq> vn_token e"
      using old assms(2) by (auto simp: enrolled_fits_def records_where_def filter_empty_conv)
    then show ?thesis using fits by (auto simp: add_enrolled_def enrolled_fits_def)
  qed
  moreover have fresh: "i \<noteq> vr_next r" if "map_of (vr_objects r) i = Some f" for i f
    using ok that unfolding views_ok_def enrolled_fits_def by blast
  have "tracks (add_enrolled e r) h x" if "tracks r h x" for h x
    using that fresh unfolding tracks_def by (fastforce simp: add_enrolled_def)
  then have "tracked (add_enrolled e r)"
    using tracked_same [OF ok, of "add_enrolled e r"] by (simp add: add_enrolled_def)
  ultimately show "views_ok (add_enrolled e r)" using ok by (simp add: views_ok_def) (simp add: add_enrolled_def)
  show "views_age r (add_enrolled e r)" using fresh by (auto simp: views_age_def add_enrolled_def)
qed

lemma new_views_undisposed: "list_all (\<lambda>v. \<not> rv_disposed v) (List.map new_read_view zs)"
  by (simp add: list_all_iff new_read_view_def split_beta)

lemma publish_steady: "steady r (snd (publish_enrolled who snap consent expires asked r))"
proof -
  let ?ids = "List.map (vr_ids r) [0 ..< length asked]"
  obtain res hs b where bd: "bind_views (rc_conversation snap) (length asked) (vr_budget r) = (res, hs, b)" by (metis prod_cases3)
  have goes: "budget_fades (vr_budget r) b" using bind_views_goes [of "vr_budget r"] bd by (metis snd_conv)
  have s: "steady r (r\<lparr>vr_budget := b\<rparr>)" by (rule steady_budget [OF goes])
  have g: "steady r (r\<lparr>vr_budget := give_back hs b\<rparr>)" by (rule steady_budget [OF budget_fades_trans [OF goes give_back_goes]])
  show ?thesis
  proof (cases "names_taken (vr_token r) ?ids r")
    case True
    then show ?thesis by (simp add: publish_enrolled_def)
  next
    case False
    then have "records_where (\<lambda>f. vn_token f = vr_token r) (r\<lparr>vr_budget := b\<rparr>) = []" by (simp add: names_taken_def records_where_def)
    then show ?thesis
      using False bd g steady_trans [OF s add_enrolled_steady]
      by (cases res) (simp_all add: publish_enrolled_def Let_def new_views_undisposed)
  qed
qed

lemma enroll_asked_steady: "steady r (snd (enroll_asked gen who snap consent expires asked r))"
proof -
  obtain a r1 where a: "ask_ready r = (a, r1)" by force
  obtain q r2 where q: "ask_all (Suc (length asked)) r1 = (q, r2)" by force
  obtain t r3 where t: "view_clock r2 = (t, r3)" by force
  have s1: "steady r r1" using ready_steady [of r] a by simp
  have s2: "steady r r2" using steady_trans [OF s1] ask_all_steady [of r1 "Suc (length asked)"] q by simp
  have s3: "steady r r3" using steady_trans [OF s2] clock_steady [of r2] t by simp
  have s4: "steady r (snd (publish_enrolled who snap consent expires asked r3))" by (rule steady_trans [OF s3 publish_steady])
  show ?thesis
    using s1 s2 s3 s4 a q t
    by (cases a; cases t) (simp_all add: enroll_asked_def del: ask_all.simps split: sum.split)
qed

lemma enroll_steady: "steady r (snd (enroll_views authority input r))"
proof -
  obtain u r1 where u: "sweep_views r = (u, r1)" by force
  obtain t r2 where t: "view_clock r1 = (t, r2)" by force
  have s1: "steady r r1" using sweep_steady [of r] u by simp
  have s2: "steady r r2" using steady_trans [OF s1] clock_steady [of r1] t by simp
  have s3: "steady r (snd (enroll_asked g w s c x v r2))" for g w s c x v by (rule steady_trans [OF s2 enroll_asked_steady])
  show ?thesis
    using s1 s2 s3 u t by (cases u; cases t) (simp_all add: enroll_views_def split: sum.split option.split prod.split)
qed

lemma prepare_steady: "steady r (snd (prepare_read r))"
  using steady_trans [OF answers_steady(3) calls_steady] by (auto simp: prepare_read_def split: list.split)

lemma views_kept_update:
  assumes "k < length vs" and "view_kept b (vs ! k) v"
  shows "list_all2 (view_kept b) vs (vs[k := v])"
  using assms by (auto simp: list_all2_conv_all_nth nth_list_update)

lemma upd_read_view_steady:
  assumes "\<And>v. view_kept (vr_budget r) v (f v) \<and> rv_disposed (f v) = rv_disposed v"
  shows "steady r (upd_read_view i k f r)"
proof (cases "map_of (vr_objects r) i")
  case (Some e)
  show ?thesis
  proof (cases "k < length (vn_views e)")
    case True
    have "steady r (r\<lparr>vr_objects := put i (e\<lparr>vn_views := (vn_views e)[k := f (vn_views e ! k)]\<rparr>) (vr_objects r)\<rparr>)"
      by (rule steady_views [OF Some views_kept_update [OF True]])
        (use assms True in \<open>simp_all add: map_update list_update_same_conv\<close>)
    then show ?thesis using Some True by (simp add: upd_read_view_def)
  next
    case False
    then show ?thesis using Some by (simp add: upd_read_view_def)
  qed
qed (simp add: upd_read_view_def)

lemma reserve_Ok:
  assumes "reserve v x b = (Ok h, b')"
  shows "h = next_handle b" and "next_handle b' = h + 1" and "fst (start_read h b') = Ok ()"
    and "\<exists>y. entries b' = put h y (entries b) \<and> e_view y = v"
  using assms by (auto simp: reserve_def start_read_def Let_def split: sum.splits if_splits option.splits)

text \<open>The charge: listed by its view first, then known to the budget and the reads at once.\<close>

lemma charge_steady:
  assumes "bound \<le> 1048576" and e: "map_of (vr_objects r) i = Some e" "\<not> vn_revoked e" "k < length (vn_views e)" "rv_budget (vn_views e ! k) = v"
  shows "steady r (snd (charge_read i k v cost bound r))"
proof -
  obtain res b where rs: "reserve v cost (vr_budget r) = (res, b)" by force
  show ?thesis
  proof (cases res)
    case (Inl x)
    have "b = vr_budget r" using rs Inl by (auto simp: reserve_def Let_def split: sum.splits if_splits option.splits)
    then show ?thesis using rs Inl by (simp add: charge_read_def)
  next
    case (Inr h)
    note res = reserve_Ok [OF rs [unfolded Inr]]
    obtain b1 where st: "start_read h b = (Ok (), b1)" using res(3) by (metis prod.collapse)
    let ?v = "vn_views e ! k"
    let ?e = "e\<lparr>vn_views := (vn_views e)[k := ?v\<lparr>rv_entries := rv_entries ?v @ [h]\<rparr>]\<rparr>"
    let ?s = "r\<lparr>vr_objects := put i ?e (vr_objects r)\<rparr>"
    let ?d = "\<lparr>rd_enrolled = i, rd_view = k, rd_bound = bound, rd_stage = Capturing\<rparr>"
    let ?t = "?s\<lparr>vr_budget := b1, vr_reads := put h ?d (vr_reads r)\<rparr>"
    have kept: "view_kept (vr_budget r) ?v (?v\<lparr>rv_entries := rv_entries ?v @ [h]\<rparr>)" by (auto simp: view_kept_def view_name_def)
    have s: "steady r ?s"
      by (rule steady_views [OF e(1) views_kept_update [OF e(3) kept]]) (simp add: map_update list_update_same_conv e(3))
    have "steady r ?t"
    proof (unfold steady_def, intro impI)
      assume ok: "views_ok r"
      then have sok: "views_ok ?s" "views_age r ?s" using s by (simp_all add: steady_def)
      have inv: "budget_inv (vr_budget r)" using ok by (simp add: views_ok_def)
      have goes: "budget_goes (vr_budget r) b" using budget_goes_ops(4) [of "vr_budget r" v cost] rs by simp
      have fades: "budget_fades b b1" using budget_fades_ops(4) [of b h] st by simp
      then have goes1: "budget_goes b b1" by (simp add: budget_fades_def)
      have invs: "budget_inv b" "budget_inv b1" "next_handle b \<le> next_handle b1"
        using budget_goes_inv goes goes1 inv by blast+
      obtain y where y: "entries b = put h y (entries (vr_budget r))" "e_view y = v" using res(4) by blast
      have fits: "enrolled_fits r i e" using ok e(1) by (simp add: views_ok_def)
      have "tracks ?t k' x'" if x': "map_of (entries b1) k' = Some x'" for k' x'
      proof -
        obtain x where x: "map_of (entries b) k' = Some x" "e_view x' = e_view x" by (rule fades_view [OF fades invs(1) x'])
        show ?thesis
        proof (cases "k' = h")
          case True
          then have "e_view x' = v" using x y by simp
          moreover have "\<not> rv_disposed ?v" using fits e(2,3) by (auto simp: enrolled_fits_def list_all_length)
          ultimately show ?thesis
            using True fits e by (auto simp: tracks_def view_tracks_def enrolled_fits_def)
        next
          case False
          then have "map_of (entries (vr_budget r)) k' = Some x" using x(1) y(1) by simp
          then have "tracks ?s k' x" using sok(1) by (simp add: views_ok_def tracked_def)
          then show ?thesis using False x(2) unfolding tracks_def view_tracks_def by simp
        qed
      qed
      then have "tracked ?t" by (simp add: tracked_def)
      moreover have low: "k' < h" if "map_of (vr_reads r) k' = Some d" for k' d using ok that res(1) by (simp add: views_ok_def)
      have "k' < next_handle b1 \<and> reading_fits d" if "map_of (vr_reads ?t) k' = Some d" for k' d
        using that ok invs(3) res(2) low [of k'] assms(1) by (auto simp: views_ok_def reading_fits_def split: if_splits)
      moreover have "enrolled_fits ?t j f" if "map_of (vr_objects ?t) j = Some f" for j f
        using sok(1) that by (simp add: views_ok_def enrolled_fits_def)
      ultimately have "views_ok ?t" using invs(2) by (simp add: views_ok_def)
      moreover have "views_age ?s ?t" using low budget_goes_trans [OF goes goes1] by (fastforce simp: views_age_def)
      ultimately show "views_ok ?t \<and> views_age r ?t" using sok(2) views_age_trans by blast
    qed
    moreover have "snd (charge_read i k v cost bound r) = ?t"
      using rs Inr st e(1,3) by (simp add: charge_read_def Let_def upd_read_view_def)
    ultimately show ?thesis by simp
  qed
qed

lemma still_enrolled_parts:
  "still_enrolled i r \<Longrightarrow> \<exists>e. map_of (vr_objects r) i = Some e \<and> \<not> vn_revoked e \<and> map_of (vr_grants r) (vn_token e) = Some i \<and> i \<in> set (vr_records r)"
  by (auto simp: still_enrolled_def split: option.splits)

lemma current_still: "is_view_current i r = (True, r') \<Longrightarrow> still_enrolled i r'"
  by (auto simp: is_view_current_def current_check_def split: option.splits prod.splits sum.splits)

lemma cost_bounds_Ok: "cost_bounds v = Ok (cost, bound) \<Longrightarrow> bound \<le> 1048576"
  by (auto simp: cost_bounds_def split: sum.splits if_splits)

lemma prepare_Ok: "prepare_read r = (Ok (cost, bound), r') \<Longrightarrow> bound \<le> 1048576"
  using cost_bounds_Ok by (auto simp: prepare_read_def split: list.splits option.splits)

lemma begin_read_steady: "steady r (snd (begin_read who grant vid fmt r))"
proof -
  obtain u r1 where u: "sweep_views r = (u, r1)" by force
  have s1: "steady r r1" using sweep_steady [of r] u by simp
  have rest: "steady r (snd (case is_view_current i r1 of
      (False, r2) \<Rightarrow> refuse VwDenied r2
    | (True, r2) \<Rightarrow>
       (case prepare_read r2 of
          (Inl c, r3) \<Rightarrow> refuse c r3
        | (Inr (cost, bound), r3) \<Rightarrow>
           (case is_view_current i r3 of
              (False, r4) \<Rightarrow> refuse VwDenied r4
            | (True, r4) \<Rightarrow> charge_read i k v cost bound r4))))"
    if e: "map_of (vr_objects r1) i = Some e" and k: "k < length (vn_views e)" and v: "rv_budget (vn_views e ! k) = v" for i e k v
  proof -
    obtain c2 r2 where c2: "is_view_current i r1 = (c2, r2)" by force
    obtain p r3 where p: "prepare_read r2 = (p, r3)" by force
    obtain c4 r4 where c4: "is_view_current i r3 = (c4, r4)" by force
    have s2: "steady r r2" using steady_trans [OF s1] current_steady [of r1 i] c2 by simp
    have s3: "steady r r3" using steady_trans [OF s2] prepare_steady [of r2] p by simp
    have s4: "steady r r4" using steady_trans [OF s3] current_steady [of r3 i] c4 by simp
    have "steady r (snd (charge_read i k v cost bound r4))" if p': "p = Ok (cost, bound)" and t: "c4 = True" for cost bound
    proof (unfold steady_def, intro impI)
      assume ok: "views_ok r"
      then have ok1: "views_ok r1" "views_ok r4" using s1 s4 by (simp_all add: steady_def)
      have "steady r1 r4"
        using steady_trans [OF steady_trans [OF current_steady [of r1 i] ] current_steady [of r3 i]]
          prepare_steady [of r2] c2 p c4 by simp
      then have age: "views_age r1 r4" using ok1 by (simp add: steady_def)
      obtain e4 where e4: "map_of (vr_objects r4) i = Some e4" "\<not> vn_revoked e4"
        using current_still c4 t still_enrolled_parts by blast
      have "same_enrolled e e4" using age e e4(1) unfolding views_age_def by force
      then have names: "List.map view_name (vn_views e4) = List.map view_name (vn_views e)" by (simp add: same_enrolled_def)
      then have len: "length (vn_views e4) = length (vn_views e)" by (metis length_map)
      then have "view_name (vn_views e4 ! k) = view_name (vn_views e ! k)" using names k by (metis nth_map)
      then have "steady r4 (snd (charge_read i k v cost bound r4))"
        using charge_steady [OF prepare_Ok [OF p [unfolded p']] e4] k v len by (simp add: view_name_def)
      then show "views_ok (snd (charge_read i k v cost bound r4)) \<and> views_age r (snd (charge_read i k v cost bound r4))"
        using s4 ok ok1 views_age_trans unfolding steady_def by blast
    qed
    then show ?thesis using s2 s3 s4 c2 p c4 by (cases c2; cases p; cases c4) auto
  qed
  show ?thesis
  proof (cases u)
    case (Inl e)
    then show ?thesis using s1 u by (simp add: begin_read_def)
  next
    case (Inr x)
    show ?thesis
      using s1 u Inr
      by (simp add: begin_read_def Let_def split: option.split)
        (intro allI impI, rule rest [OF _ _ refl], assumption, erule find_index_less)
  qed
qed

section \<open>Settling and leases\<close>

lemma collect_read_steady: "steady r (collect_read h r)"
proof (cases "map_of (vr_reads r) h")
  case (Some d)
  have "steady r (upd_read_view (rd_enrolled d) (rd_view d) (\<lambda>v. v\<lparr>rv_entries := removeAll h (rv_entries v)\<rparr>) r)"
    if "inspect h (vr_budget r) = Err e" for e
  proof (rule upd_read_view_steady)
    have "h \<notin> keys (entries (vr_budget r))"
      using that by (auto simp: inspect_def get_entry_def map_of_None_iff split: option.splits)
    then show "view_kept (vr_budget r) v (v\<lparr>rv_entries := removeAll h (rv_entries v)\<rparr>)
        \<and> rv_disposed (v\<lparr>rv_entries := removeAll h (rv_entries v)\<rparr>) = rv_disposed v" for v
      by (auto simp: view_kept_def view_name_def)
  qed
  then show ?thesis
    using Some steady_trans [OF _ collect_steady] collect_steady by (simp add: collect_read_def split: sum.split)
qed (simp add: collect_read_def)

lemma confirm_steady: "steady r (snd (confirm_read h x r))"
proof -
  let ?x = "if x = Undef then JBool False else x"
  obtain res b where b: "confirm_stopped h ?x (vr_budget r) = (res, b)" by force
  have "steady r (r\<lparr>vr_budget := b\<rparr>)" using budget_fades_ops(5) [of "vr_budget r" h ?x] b by (simp add: steady_budget)
  then show ?thesis using b steady_trans [OF _ collect_read_steady] by (cases res) (simp_all add: confirm_read_def)
qed

lemma drain_steady: "steady r (snd (drain_read h r))"
proof -
  obtain res b where b: "unknown_drain h (vr_budget r) = (res, b)" by force
  have "steady r (r\<lparr>vr_budget := b\<rparr>)" using budget_fades_ops(6) [of "vr_budget r" h] b by (simp add: steady_budget)
  then show ?thesis using b steady_trans [OF _ collect_read_steady] by (cases res) (simp_all add: drain_read_def)
qed

lemma drop_steady: "steady r (drop_read h r)"
proof -
  have a: "steady r (r\<lparr>vr_budget := snd (release h (vr_budget r))\<rparr>)" by (rule steady_budget) simp
  obtain res b where b: "cancel h (vr_budget r) = (res, b)" by force
  have c: "steady r (r\<lparr>vr_budget := b\<rparr>)" using budget_fades_ops(7) [of "vr_budget r" h] b by (simp add: steady_budget)
  have d: "steady r (snd (drain_read h (r\<lparr>vr_budget := b\<rparr>)))" by (rule steady_trans [OF c drain_steady])
  show ?thesis
    unfolding drop_read_def using a b c d steady_trans [OF _ collect_read_steady] by (cases res) (auto split: sum.split)
qed

lemma judge_Ok:
  assumes "judge_capture h d c r = (Ok bytes, r')"
  shows "bytes \<noteq> [] \<and> length bytes \<le> rd_bound d \<and> is_view_current (rd_enrolled d) r = (True, r') \<and> is_deliverable h (vr_budget r')"
  using assms by (auto simp: judge_capture_def split: captured.splits prod.splits bool.splits if_splits)

lemma judge_steady: "steady r (snd (judge_capture h d c r))"
proof -
  obtain b s where b: "is_view_current (rd_enrolled d) r = (b, s)" by force
  have "steady r s" using current_steady [of r "rd_enrolled d"] b by simp
  then show ?thesis using b by (cases c; cases b) (simp_all add: judge_capture_def)
qed

text \<open>The reads, and the answers not yet given, stay while questions are asked.\<close>

definition same_work :: "view_registry \<Rightarrow> view_registry \<Rightarrow> bool" where
  "same_work r r' \<longleftrightarrow> vr_reads r' = vr_reads r \<and> vr_answers r' = vr_answers r"

lemma same_work_refl [simp]: "same_work r r"
  by (simp add: same_work_def)

lemma same_work_trans: "same_work r s \<Longrightarrow> same_work s t \<Longrightarrow> same_work r t"
  by (simp add: same_work_def)

lemma end_work: "same_work r (end_enrolled i r)"
  by (auto simp: same_work_def end_enrolled_def collect_views_def split: option.split prod.split)

lemma end_all_work: "same_work r (end_all is r)"
  by (induction "is" arbitrary: r) (auto intro: same_work_trans [OF end_work])

lemma advance_work: "same_work r ((advance_views r)\<lparr>vr_enabled := b\<rparr>)" "same_work r (advance_views r)"
  by (simp_all add: advance_views_def same_work_def)

lemma fail_work: "same_work r (fail_view_clock r)"
proof -
  have "same_work r (r\<lparr>vr_fault := True, vr_enabled := False\<rparr>)" by (simp add: same_work_def)
  then show ?thesis
    using same_work_trans [OF _ same_work_trans [OF advance_work(2) end_all_work]] by (simp add: fail_view_clock_def Let_def)
qed

lemma owner_work:
  "same_work r (snd (set_enabled a v r))" "same_work r (snd (revoke_grant a g r))" "same_work r (snd (end_where P a r))"
  using advance_work end_all_work end_work same_work_trans
  by (auto simp: set_enabled_def revoke_grant_def end_where_def Let_def split: jsval.split option.split) blast+

lemma one_work: "same_work r (calls_back [c] r)"
  by (cases c) (simp_all add: owner_work detach_recipient_def revoke_conversation_def invalidate_binding_def fail_work, simp add: same_work_def)

lemma calls_work: "same_work r (calls_back cs r)"
proof (induction cs arbitrary: r)
  case (Cons c cs)
  show ?case by (subst calls_one) (rule same_work_trans [OF one_work Cons.IH])
qed simp

lemma clock_work: "same_work r (snd (view_clock r))"
proof (cases "vr_clock r")
  case Nil
  then show ?thesis using fail_work by (simp add: view_clock_def)
next
  case (Cons a rest)
  obtain answer calls where a: "a = (answer, calls)" by force
  let ?s = "calls_back calls (r\<lparr>vr_clock := rest\<rparr>)"
  have s: "same_work r ?s" using calls_work [of "r\<lparr>vr_clock := rest\<rparr>"] by (simp add: same_work_def)
  then have "same_work r (fail_view_clock ?s)" by (rule same_work_trans [OF _ fail_work])
  moreover have "same_work r (?s\<lparr>vr_last := t\<rparr>)" for t using s by (simp add: same_work_def)
  ultimately show ?thesis using Cons a by (auto simp: view_clock_def Let_def split: option.split)
qed

lemma ask_reads [simp]: "vr_reads (snd (ask_backend r)) = vr_reads r"
  using calls_work by (auto simp: ask_backend_def same_work_def split: list.split)

lemma ask_all_reads [simp]: "vr_reads (snd (ask_all n r)) = vr_reads r"
proof (induction n arbitrary: r)
  case (Suc n)
  obtain a s where a: "ask_backend r = (a, s)" by force
  then have "vr_reads s = vr_reads r" using ask_reads [of r] by simp
  then show ?case using a Suc.IH [of s] by simp
qed simp

lemma current_reads [simp]: "vr_reads (snd (is_view_current i r)) = vr_reads r"
proof (cases "map_of (vr_objects r) i")
  case (Some e)
  have q: "vr_reads (snd (ask_current i e snap r)) = vr_reads r" for snap
  proof -
    obtain res s where c: "view_clock r = (res, s)" by force
    obtain a t where a: "ask_ready s = (a, t)" by force
    have "vr_reads s = vr_reads r" using clock_work [of r] c by (simp add: same_work_def)
    moreover have "vr_reads t = vr_reads s" using ask_reads [of s] a by (cases "ask_backend s") (simp add: ask_ready_def)
    ultimately show ?thesis using c a by (cases res; cases a) (simp_all add: ask_current_def del: ask_all.simps)
  qed
  have "vr_reads (snd (current_check i e r)) = vr_reads r"
  proof (cases "recipient_snapshot (content (vn_recipient e) r)")
    case (Inr snap)
    obtain a s where a: "ask_current i e snap r = (a, s)" by force
    obtain res t where c: "view_clock s = (res, t)" by force
    have "vr_reads s = vr_reads r" "vr_reads t = vr_reads s" using q [of snap] clock_work [of s] a c by (simp_all add: same_work_def)
    then show ?thesis using Inr a c by (cases a; cases res) (simp_all add: current_check_def)
  qed (simp add: current_check_def)
  then show ?thesis using Some end_work by (auto simp: is_view_current_def same_work_def split: prod.split)
qed (simp add: is_view_current_def)

lemma settle_steady: "steady r (snd (settle_capture h c r))"
proof (cases "map_of (vr_reads r) h")
  case (Some d)
  obtain res s where j: "judge_capture h d c r = (res, s)" by force
  have s: "steady r s" using judge_steady [of r h d c] j by simp
  have reads: "vr_reads s = vr_reads r"
    using j current_reads [of "rd_enrolled d" r]
    by (auto simp: judge_capture_def simp del: current_reads split: captured.splits prod.splits bool.splits if_splits)
  show ?thesis
  proof (cases "rd_stage d = Capturing")
    case True
    have leased: "steady r (set_stage h (Leased bytes) s)" if "res = Ok bytes" for bytes
      by (rule steady_trans [OF s steady_stage [where d = d]])
        (use judge_Ok [of h d c r bytes s] j that Some reads True in \<open>auto simp: same_reading_def\<close>)
    have "steady r (set_stage h Refused s)"
      by (rule steady_trans [OF s steady_stage [where d = d]]) (use Some reads True in \<open>auto simp: same_reading_def\<close>)
    then have "steady r (drop_read h (set_stage h Refused s))" by (rule steady_trans [OF _ drop_steady])
    then show ?thesis using leased Some True j by (cases res) (simp_all add: settle_capture_def)
  next
    case False
    then show ?thesis using Some by (simp add: settle_capture_def)
  qed
qed (simp add: settle_capture_def)

lemma lease_bytes_steady: "steady r (snd (lease_bytes h r))"
proof (cases "map_of (vr_reads r) h")
  case (Some d)
  obtain b s where "is_view_current (rd_enrolled d) r = (b, s)" by force
  moreover from this have "steady r s" using current_steady [of r "rd_enrolled d"] by simp
  ultimately show ?thesis using Some by (cases b) (simp_all add: lease_bytes_def split: read_stage.split)
qed (simp add: lease_bytes_def)

lemma lease_reserve_steady: "steady r (snd (lease_reserve h n r))"
proof -
  obtain res s where l: "lease_bytes h r = (res, s)" by force
  obtain q b where b: "reserve_delivery h n (vr_budget s) = (q, b)" by force
  have s: "steady r s" using lease_bytes_steady [of r h] l by simp
  have goes: "budget_fades (vr_budget s) b" using budget_fades_ops(9) [of "vr_budget s" h n] b by simp
  have t: "steady r (s\<lparr>vr_budget := b\<rparr>)" by (rule steady_trans [OF s steady_budget [OF goes]])
  have "steady r (s\<lparr>vr_budget := b, vr_loans := l\<rparr>)" for l by (rule steady_trans [OF s steady_same]) (simp_all add: goes)
  then show ?thesis using s t l b by (cases res; cases q) (simp_all add: lease_reserve_def)
qed

lemma loan_steady: "steady r (snd (loan_release x r))"
proof (cases "map_of (vr_loans r) x")
  case (Some l)
  obtain h returned where h: "l = (h, returned)" by force
  obtain q b where b: "release_delivery x (vr_budget r) = (q, b)" by force
  have goes: "budget_fades (vr_budget r) b" using budget_fades_ops(10) [of "vr_budget r" x] b by simp
  have "steady r (r\<lparr>vr_budget := b, vr_loans := ls\<rparr>)" for ls by (rule steady_same) (simp_all add: goes)
  then have "steady r (collect_read h (r\<lparr>vr_budget := b, vr_loans := ls\<rparr>))" for ls by (rule steady_trans [OF _ collect_read_steady])
  then show ?thesis using Some h b steady_budget [OF goes] by (cases q) (simp_all add: loan_release_def)
qed (simp add: loan_release_def)

lemma lease_release_steady: "steady r (snd (lease_release h r))"
proof (cases "map_of (vr_reads r) h")
  case (Some d)
  let ?s = "set_stage h Returned r"
  obtain q b where b: "release h (vr_budget ?s) = (q, b)" by force
  have s: "steady r ?s" by (rule steady_stage [OF Some]) (auto simp: same_reading_def)
  have goes: "budget_fades (vr_budget ?s) b" using budget_fades_ops(8) [of "vr_budget ?s" h] b by simp
  have t: "steady r (?s\<lparr>vr_budget := b\<rparr>)" by (rule steady_trans [OF s steady_budget [OF goes]])
  then have "steady r (collect_read h (?s\<lparr>vr_budget := b\<rparr>))" by (rule steady_trans [OF _ collect_read_steady])
  then show ?thesis using Some b t by (cases q) (simp_all add: lease_release_def Let_def split: read_stage.split)
qed (simp add: lease_release_def)

lemma current_views_steady: "steady r (snd (current_views i n r))"
proof (induction n arbitrary: r)
  case (Suc n)
  obtain b s where c: "is_view_current i r = (b, s)" by force
  obtain m t where t: "current_views i n s = (m, t)" by force
  have s: "steady r s" using current_steady [of r i] c by simp
  have "steady r t" using steady_trans [OF s] Suc.IH [of s] t by simp
  then show ?case using s c t by (cases b) simp_all
qed simp

lemma status_groups_steady: "steady r (snd (status_groups who is r))"
proof (induction "is" arbitrary: r)
  case (Cons i "is")
  show ?case
  proof (cases "map_of (vr_objects r) i")
    case None
    then show ?thesis using Cons.IH [of r] by simp
  next
    case (Some e)
    obtain m s where s: "current_views i (length (vn_views e)) r = (m, s)" by force
    obtain js t where t: "status_groups who is s = (js, t)" by force
    have "steady r s" using current_views_steady [of r] s by (metis snd_conv)
    then have "steady r t" using steady_trans Cons.IH [of s] t by (metis snd_conv)
    then show ?thesis using Some s t Cons.IH [of r] by simp
  qed
qed simp

lemma status_steady: "steady r (snd (view_status who r))"
proof -
  obtain u s where u: "sweep_views r = (u, s)" by force
  obtain js t where g: "(if vr_enabled s then status_groups who (vr_records s) s else ([], s)) = (js, t)" by force
  obtain v w where v: "sweep_views t = (v, w)" by force
  have s: "steady r s" using sweep_steady [of r] u by simp
  have "steady s t" using status_groups_steady [of s] g by (metis snd_conv steady_refl)
  then have t: "steady r t" by (rule steady_trans [OF s])
  have w: "steady r w" using steady_trans [OF t] sweep_steady [of t] v by simp
  show ?thesis using s w u g v by (cases u; cases v) (simp_all add: view_status_def split del: if_split)
qed

lemma view_op_steady: "steady r (view_op_result op r)"
  by (cases op) (simp_all add: owner_steady owners_steady enroll_steady begin_read_steady confirm_steady drain_steady settle_steady
      lease_bytes_steady lease_reserve_steady loan_steady lease_release_steady status_steady current_steady check_current_def split: option.split)

lemma answered_steady: "steady r (view_answered a r)"
  by (rule steady_same) (simp_all add: view_answered_def)

lemma view_step_steady: "steady r (view_step_of x r)"
  by (cases x) (simp add: steady_trans [OF answered_steady view_op_steady])

definition over_enrolled :: "nat \<Rightarrow> view_registry \<Rightarrow> bool" where
  "over_enrolled i r \<longleftrightarrow> (\<exists>e. map_of (vr_objects r) i = Some e \<and> vn_revoked e)"

lemma over_lasts: "over_enrolled i r \<Longrightarrow> views_age r r' \<Longrightarrow> over_enrolled i r'"
  unfolding over_enrolled_def views_age_def same_enrolled_def by metis

interpretation read_views: aging_machine view_step_of views_ok views_age over_enrolled
proof
  show "views_ok r \<Longrightarrow> views_ok (view_step_of x r)" "views_ok r \<Longrightarrow> views_age r (view_step_of x r)" for x r
    using view_step_steady [of r x] by (simp_all add: steady_def)
  show "views_age r s \<Longrightarrow> views_age s t \<Longrightarrow> views_age r t" for r s t by (rule views_age_trans)
  show "over_enrolled i r \<Longrightarrow> views_ok r \<Longrightarrow> views_age r s \<Longrightarrow> over_enrolled i s" for i r s by (rule over_lasts)
qed simp

lemma new_views_ok: "budget_inv b \<Longrightarrow> entries b = [] \<Longrightarrow> views_ok (new_view_registry a b)"
  by (simp add: views_ok_def new_view_registry_def tracked_def)

section \<open>What a recipient can rely on\<close>

lemma new_budget_empty: "new_budget options = Ok b \<Longrightarrow> entries b = []"
  by (auto simp: new_budget_def and_then_Ok_iff Let_def split: if_splits)

lemma run_views_ok:
  assumes "new_budget options = Ok b"
  shows "views_ok (run view_step_of ops (new_view_registry a b))"
  by (rule read_views.run_inv [OF new_views_ok [OF inv_new [OF assms] new_budget_empty [OF assms]]])

lemma run_views_age:
  assumes "new_budget options = Ok b"
  shows "views_age (new_view_registry a b) (run view_step_of ops (new_view_registry a b))"
  by (rule read_views.run_ages [OF new_views_ok [OF inv_new [OF assms] new_budget_empty [OF assms]]])

text \<open>
  C26. No charge is lost: whatever the owner, the recipients, the backend and the outside do, the registry's budget
  is one that the budget's own operations reach from the new one, so it stays within 32 MiB and eight views;
  and every reservation it holds belongs to a read the registry knows, whose enrollment is still recorded and
  whose view still lists it, even after the enrollment was revoked.
\<close>

theorem charged_reads_are_tracked:
  assumes "new_budget options = Ok b" and "r = run view_step_of ops (new_view_registry a b)"
  shows "(\<exists>ops'. vr_budget r = run apply_op ops' b)
    \<and> bytes_used (vr_budget r) \<le> 33554432 \<and> length (views (vr_budget r)) \<le> 8
    \<and> (\<forall>h x. map_of (entries (vr_budget r)) h = Some x \<longrightarrow>
         (\<exists>d e. map_of (vr_reads r) h = Some d \<and> map_of (vr_objects r) (rd_enrolled d) = Some e
           \<and> rd_enrolled d \<in> set (vr_records r) \<and> rd_view d < length (vn_views e)
           \<and> h \<in> set (rv_entries (vn_views e ! rd_view d)) \<and> rv_budget (vn_views e ! rd_view d) = e_view x))"
proof -
  have ok: "views_ok r" unfolding assms(2) by (rule run_views_ok [OF assms(1)])
  have "budget_goes b (vr_budget r)"
    using run_views_age [OF assms(1), of a ops] assms(2) by (simp add: views_age_def new_view_registry_def)
  moreover have inv: "budget_inv (vr_budget r)" using ok by (simp add: views_ok_def)
  have "bytes_used (vr_budget r) \<le> 33554432 \<and> length (views (vr_budget r)) \<le> 8"
    using inv inv_parts(2,3) [OF inv]
    by (auto simp: budget_inv_def within_limits_def conversations_ok_def limits_narrowed_def limit_values_def read_budget_limits_def)
  moreover have "tracked r" using ok by (simp add: views_ok_def)
  ultimately show ?thesis unfolding tracked_def tracks_def view_tracks_def budget_goes_def by blast
qed

lemma ask_True:
  assumes "ask_backend r = (Some True, r')"
  shows "\<exists>cs. vr_answers r = (Some True, cs) # vr_answers r'"
proof -
  obtain cs rest where r: "vr_answers r = (Some True, cs) # rest" "r' = calls_back (not_status cs) (r\<lparr>vr_answers := rest\<rparr>)"
    using assms by (auto simp: ask_backend_def split: list.splits)
  then show ?thesis using calls_work [of "r\<lparr>vr_answers := rest\<rparr>"] by (simp add: same_work_def)
qed

lemma ask_two:
  assumes "ask_all 2 r = (Some True, r')"
  shows "\<exists>c1 c2. vr_answers r = (Some True, c1) # (Some True, c2) # vr_answers r'"
proof -
  obtain a s where a: "ask_backend r = (a, s)" by force
  obtain a' t where t: "ask_backend s = (a', t)" by force
  have two: "ask_all (Suc (Suc 0)) r = (Some True, r')" using assms by (simp add: numeral_2_eq_2)
  have 1: "a = Some True" using two a by (cases "a = Some True") simp_all
  then have 2: "a' = Some True \<and> t = r'" using two a t by (cases "a' = Some True") simp_all
  obtain c1 where "vr_answers r = (Some True, c1) # vr_answers s" using ask_True [OF a [unfolded 1]] ..
  moreover obtain c2 where "vr_answers s = (Some True, c2) # vr_answers r'" using ask_True [of s t] t 2 by blast
  ultimately show ?thesis by simp
qed

lemma ask_current_True:
  assumes "ask_current i e snap r = (Some True, r')"
  shows "snap = vn_snapshot e \<and> (\<exists>c1 c2 c3. vr_answers r = (Some True, c1) # (Some True, c2) # (Some True, c3) # vr_answers r')"
proof -
  obtain res s where c: "view_clock r = (res, s)" by force
  obtain a t where t: "ask_ready s = (a, t)" by force
  obtain q u where u: "ask_backend s = (q, u)" by force
  have parts: "snap = vn_snapshot e" "a = True" "ask_all 2 t = (Some True, r')"
    using assms c t by (auto simp: ask_current_def simp del: ask_all.simps split: if_splits sum.splits bool.splits)
  then have "q = Some True" "u = t" using t u by (simp_all add: ask_ready_def)
  moreover have "vr_answers s = vr_answers r" using clock_work [of r] c by (simp add: same_work_def)
  ultimately show ?thesis using ask_True [of s t] u ask_two [OF parts(3)] parts(1) by force
qed

lemma view_clock_Ok: "view_clock r = (Ok t, r') \<Longrightarrow> vr_last r' = Some t"
  by (auto simp: view_clock_def Let_def split: if_splits list.splits option.splits)

lemma current_True:
  assumes "is_view_current i r = (True, r')"
  shows "\<exists>e t c1 c2 c3. map_of (vr_objects r) i = Some e \<and> t < vn_expires e \<and> vr_last r' = Some t
    \<and> recipient_snapshot (content (vn_recipient e) r') = Ok (vn_snapshot e) \<and> vr_enabled r' \<and> still_enrolled i r'
    \<and> vr_answers r = (Some True, c1) # (Some True, c2) # (Some True, c3) # vr_answers r'"
proof -
  obtain e where e: "map_of (vr_objects r) i = Some e" "current_check i e r = (True, r')"
    using assms by (auto simp: is_view_current_def split: option.splits prod.splits if_splits)
  obtain snap where snap: "recipient_snapshot (content (vn_recipient e) r) = Inr snap"
    using e(2) by (cases "recipient_snapshot (content (vn_recipient e) r)") (simp_all add: current_check_def)
  obtain a s where a: "ask_current i e snap r = (a, s)" by force
  obtain res u where c: "view_clock s = (res, u)" by force
  obtain t where t: "a = Some True" "res = Ok t" "u = r'" "t < vn_expires e"
      "recipient_snapshot (content (vn_recipient e) r') = Inr (vn_snapshot e)" "vr_enabled r'" "still_enrolled i r'"
    using e(2) snap a c by (cases a; cases res) (auto simp: current_check_def)
  have "vr_answers r' = vr_answers s" using clock_work [of s] c t(3) by (simp add: same_work_def)
  moreover obtain c1 c2 c3 where "vr_answers r = (Some True, c1) # (Some True, c2) # (Some True, c3) # vr_answers s"
    using ask_current_True a t(1) by blast
  ultimately show ?thesis using e(1) t view_clock_Ok c by metis
qed

lemma lease_bytes_Ok:
  assumes "lease_bytes h r = (Ok bytes, r')"
  obtains d where "map_of (vr_reads r) h = Some d" and "rd_stage d = Leased bytes" and "is_view_current (rd_enrolled d) r = (True, r')"
    and "is_deliverable h (vr_budget r')"
  using assms by (auto simp: lease_bytes_def split: option.splits read_stage.splits prod.splits bool.splits if_splits)

text \<open>
  Bytes leave a lease only at a moment when everything held: the lease was not given back and the bytes are
  those of its capture, at most 1 MiB; the backend was ready and affirmed the recipient and the binding, in this
  order, just now; then the clock was read before the enrollment's end, the recipient's object still was the one
  enrolled, the registry was switched on, the enrollment was neither revoked nor replaced, and the budget still
  let the result be delivered.
\<close>

theorem delivered_bytes_are_checked:
  assumes "new_budget options = Ok b" and "r = run view_step_of ops (new_view_registry a b)"
    and "lease_bytes h (view_answered ans r) = (Ok bytes, r')"
  shows "\<exists>d e t c1 c2 c3. map_of (vr_reads r) h = Some d \<and> rd_stage d = Leased bytes \<and> bytes \<noteq> [] \<and> length bytes \<le> 1048576
    \<and> map_of (vr_objects r) (rd_enrolled d) = Some e \<and> t < vn_expires e \<and> vr_last r' = Some t
    \<and> recipient_snapshot (content (vn_recipient e) r') = Ok (vn_snapshot e) \<and> vr_enabled r' \<and> still_enrolled (rd_enrolled d) r'
    \<and> va_answers ans = (Some True, c1) # (Some True, c2) # (Some True, c3) # vr_answers r'
    \<and> is_deliverable h (vr_budget r')"
proof -
  obtain d where d: "map_of (vr_reads (view_answered ans r)) h = Some d" "rd_stage d = Leased bytes"
      "is_view_current (rd_enrolled d) (view_answered ans r) = (True, r')" "is_deliverable h (vr_budget r')"
    by (rule lease_bytes_Ok [OF assms(3)])
  have "reading_fits d" using run_views_ok [OF assms(1), of ops a] d(1) assms(2) by (auto simp: views_ok_def view_answered_def)
  then have "bytes \<noteq> [] \<and> length bytes \<le> 1048576" using d(2) by (auto simp: reading_fits_def)
  moreover have "map_of (vr_reads r) h = Some d" using d(1) by (simp add: view_answered_def)
  moreover obtain e t c1 c2 c3 where "map_of (vr_objects r) (rd_enrolled d) = Some e \<and> t < vn_expires e \<and> vr_last r' = Some t
    \<and> recipient_snapshot (content (vn_recipient e) r') = Ok (vn_snapshot e) \<and> vr_enabled r' \<and> still_enrolled (rd_enrolled d) r'
    \<and> va_answers ans = (Some True, c1) # (Some True, c2) # (Some True, c3) # vr_answers r'"
    using current_True [OF d(3)] by (auto simp: view_answered_def)
  ultimately show ?thesis using d(2,4) by blast
qed

lemma over_view_not_current:
  assumes "views_ok r" and "over_enrolled i r"
  shows "\<not> fst (is_view_current i r)"
proof
  assume "fst (is_view_current i r)"
  then obtain r' where c: "is_view_current i r = (True, r')" by (metis prod.collapse)
  have "views_age r r'" using current_steady [of r i] assms(1) c by (simp add: steady_def)
  then have "over_enrolled i r'" using assms(2) over_lasts by blast
  then show False using current_still [OF c] by (auto simp: over_enrolled_def still_enrolled_def)
qed

lemma end_over: "map_of (vr_objects r) i = Some e \<Longrightarrow> over_enrolled i (end_enrolled i r)"
  by (auto simp: end_enrolled_def over_enrolled_def collect_views_def split: prod.split)

lemma end_all_over:
  assumes "views_ok r" and "i \<in> set is" and "map_of (vr_objects r) i = Some e"
  shows "over_enrolled i (end_all is r)"
  using assms
proof (induction "is" arbitrary: r e)
  case (Cons j js)
  have ok: "views_ok (end_enrolled j r)" "views_age r (end_enrolled j r)"
    using end_steady [of r j] Cons.prems(1) by (simp_all add: steady_def)
  show ?case
  proof (cases "j = i")
    case True
    have "over_enrolled i (end_enrolled j r)" using end_over Cons.prems(3) True by simp
    moreover have "views_age (end_enrolled j r) (end_all js (end_enrolled j r))" using end_all_steady ok(1) by (simp add: steady_def)
    ultimately show ?thesis using over_lasts by simp
  next
    case False
    obtain e' where "map_of (vr_objects (end_enrolled j r)) i = Some e'"
      using ok(2) Cons.prems(3) unfolding views_age_def by blast
    then show ?thesis using Cons.IH [OF ok(1)] Cons.prems(2) False by simp
  qed
qed simp

text \<open>The ways the owner ends an enrollment.\<close>

definition ended_for_good :: "enrolled \<Rightarrow> view_registry \<Rightarrow> view_registry \<Rightarrow> bool" where
  "ended_for_good e r r' \<longleftrightarrow>
     r' = snd (revoke_grant (vr_authority r) (JStr (vn_token e)) r)
   \<or> r' = snd (detach_recipient (vr_authority r) (vn_recipient e) r)
   \<or> r' = snd (revoke_conversation (vr_authority r) (rc_conversation (vn_snapshot e)) r)
   \<or> list_ex (\<lambda>v. r' = snd (invalidate_binding (vr_authority r) (av_binding (rv_asked v)) r)) (vn_views e)
   \<or> r' = snd (set_enabled (vr_authority r) (JBool False) r)"

lemma advance_views_parts [simp]:
  "vr_objects (advance_views r) = vr_objects r" "vr_records (advance_views r) = vr_records r" "vr_grants (advance_views r) = vr_grants r"
  by (simp_all add: advance_views_def)

lemma ended_steady: "ended_for_good e r r' \<Longrightarrow> steady r r'"
  by (auto simp: ended_for_good_def list_ex_iff owner_steady owners_steady)

lemma ended_over:
  assumes ok: "views_ok r" and e: "map_of (vr_objects r) i = Some e" and "ended_for_good e r r'"
  shows "over_enrolled i r'"
proof (cases "vn_revoked e")
  case True
  then have "over_enrolled i r" using e by (simp add: over_enrolled_def)
  then show ?thesis using ended_steady [OF assms(3)] ok over_lasts by (simp add: steady_def)
next
  case False
  then have fits: "i \<in> set (vr_records r)" "map_of (vr_grants r) (vn_token e) = Some i"
    using ok e by (auto simp: views_ok_def enrolled_fits_def)
  have aok: "views_ok (advance_views r)" "views_ok ((advance_views r)\<lparr>vr_enabled := False\<rparr>)"
    using advance_steady [of r] switched_steady [of r False] ok by (simp_all add: steady_def)
  have all: "over_enrolled i (snd (end_where P (vr_authority r) r))" if "P e" for P
    using end_all_over [OF aok(1), of i] that fits(1) e by (simp add: end_where_def Let_def records_where_def)
  have "over_enrolled i (snd (revoke_grant (vr_authority r) (JStr (vn_token e)) r))"
    using end_over [of "advance_views r"] fits(2) e by (simp add: revoke_grant_def Let_def)
  moreover have "over_enrolled i (snd (set_enabled (vr_authority r) (JBool False) r))"
    using end_all_over [OF aok(2), of i] fits(1) e by (simp add: set_enabled_def Let_def)
  moreover have "over_enrolled i (snd (invalidate_binding (vr_authority r) (av_binding (rv_asked v)) r))" if "v \<in> set (vn_views e)" for v
    unfolding invalidate_binding_def by (rule all) (use that in \<open>auto simp: list_ex_iff\<close>)
  moreover have "over_enrolled i (snd (detach_recipient (vr_authority r) (vn_recipient e) r))"
    "over_enrolled i (snd (revoke_conversation (vr_authority r) (rc_conversation (vn_snapshot e)) r))"
    unfolding detach_recipient_def revoke_conversation_def by (rule all, simp)+
  ultimately show ?thesis using assms(3) unfolding ended_for_good_def list_ex_iff by (elim disjE bexE) simp_all
qed

lemma over_denied:
  assumes "views_ok r" and "map_of (vr_reads r) h = Some d" and "over_enrolled (rd_enrolled d) r"
  shows "fst (lease_bytes h r) = Err (ViewError VwDenied)" and "fst (lease_reserve h n r) = Err (ViewError VwDenied)"
proof -
  obtain s where "is_view_current (rd_enrolled d) r = (False, s)" using over_view_not_current [OF assms(1,3)] by (metis prod.collapse)
  then show l: "fst (lease_bytes h r) = Err (ViewError VwDenied)" using assms(2) by (simp add: lease_bytes_def split: read_stage.split)
  then show "fst (lease_reserve h n r) = Err (ViewError VwDenied)" by (cases "lease_bytes h r") (simp add: lease_reserve_def)
qed

text \<open>
  C27. What the owner ended delivers nothing any more: after a revocation of the grant, of the recipient, of the
  conversation or of a binding of the enrollment, or after switching the registry off, no lease of a read of
  this enrollment, begun before or after, hands out bytes or reserves storage for a delivery, whatever
  happens in between; switching on again restores nothing.
\<close>

theorem ended_view_never_delivers:
  assumes "new_budget options = Ok b" and "r = run view_step_of ops (new_view_registry a b)"
    and "map_of (vr_objects r) i = Some e" and "ended_for_good e r r'" and "r2 = run view_step_of ops' r'"
    and "map_of (vr_reads r2) h = Some d" and "rd_enrolled d = i"
  shows "fst (lease_bytes h (view_answered ans r2)) = Err (ViewError VwDenied)
    \<and> fst (lease_reserve h n (view_answered ans r2)) = Err (ViewError VwDenied)"
proof -
  have ok: "views_ok r" unfolding assms(2) by (rule run_views_ok [OF assms(1)])
  have ok': "views_ok r'" using ended_steady [OF assms(4)] ok by (simp add: steady_def)
  have "over_enrolled i r2" unfolding assms(5) by (rule read_views.run_over [OF ok' ended_over [OF ok assms(3,4)]])
  moreover have "views_ok r2" unfolding assms(5) by (rule read_views.run_inv [OF ok'])
  ultimately have "views_ok (view_answered ans r2)" "over_enrolled i (view_answered ans r2)"
    using answered_steady [of r2 ans] over_lasts by (simp_all add: steady_def)
  moreover have "map_of (vr_reads (view_answered ans r2)) h = Some d" using assms(6) by (simp add: view_answered_def)
  ultimately show ?thesis using over_denied assms(7) by blast
qed

section \<open>A run\<close>

definition view_limits :: jsval where
  "view_limits = JObj [(''deviceBytes'', jint 40), (''viewBytes'', jint 20)]"

definition view_budget :: budget where
  "view_budget = \<lparr>limits = \<lparr>device_bytes = 40, view_bytes = 20, max_views = 8, max_conversations = 4,
       max_views_per_conversation = 2, max_entries_per_view = 2, max_references = 32\<rparr>,
     views = [], convs = [], entries = [], capture = None, deliveries = [], released = [], bytes_used = 0, next_handle = 0\<rparr>"

lemma view_budget_new: "new_budget view_limits = Ok view_budget"
  by (simp add: view_limits_def view_budget_def new_budget_def data_fields_def as_object_def limit_keys_def limit_values_def
      read_budget_limits_def narrowed_def natural_def nat_of_val_def max_safe_def)

definition view_reader :: jsval where
  "view_reader = JObj [(''owner'', JRef 2), (''connector'', JRef 3), (''instance'', JRef 4), (''conversation'', JRef 5),
     (''channel'', JRef 6), (''pid'', jint 42), (''birth'', JStr ''77'')]"

definition view_request :: jsval where
  "view_request = JObj [(''recipient'', JRef 9), (''consentEpoch'', jint 1), (''expiresAt'', jint 100),
     (''views'', JArr [JObj [(''binding'', JRef 7), (''bindingEpoch'', jint 1), (''formats'', JArr [JStr ''text''])]])]"

definition view_grant :: string where "view_grant = replicate 64 CHR ''a''"
definition view_handle :: string where "view_handle = replicate 24 CHR ''b''"

definition view_at :: "rat list \<Rightarrow> nat \<Rightarrow> view_answers" where
  "view_at ts n =
     \<lparr>va_heap = [(9, view_reader)], va_clock = List.map (\<lambda>t. (Some t, [])) ts, va_answers = replicate n (Some True, []),
      va_prepared = [(Some (JObj [(''cost'', JObj [(''scratchBytes'', jint 4), (''retainedBytes'', jint 3)]), (''capture'', JFun 0)]), [])],
      va_token = view_grant, va_ids = (\<lambda>i. view_handle)\<rparr>"

text \<open>An enrollment, a read with its capture, and a lease.\<close>

definition view_run :: "(view_answers \<times> view_op) list" where
  "view_run =
    [(view_at [] 0, SetEnabled 1 (JBool True)), (view_at [1, 2, 3] 3, Enroll 1 view_request),
     (view_at [4, 5, 6, 7, 8] 6, Read 9 (JStr view_grant) (JStr view_handle) (JStr ''text'')),
     (view_at [] 0, ConfirmStopped 1 (JBool True)), (view_at [9, 10] 3, CaptureSettles 1 (CaptureBytes [1, 2] True))]"

definition view_sample :: view_registry where
  "view_sample = run view_step_of view_run (new_view_registry 1 view_budget)"

lemma sample_leased: "map_option rd_stage (map_of (vr_reads view_sample) 1) = Some (Leased [1, 2])"
  by code_simp

lemma charged_reads_are_tracked_witness:
  "bytes_used (vr_budget view_sample) \<le> 33554432 \<and> length (views (vr_budget view_sample)) \<le> 8"
  using charged_reads_are_tracked [OF view_budget_new view_sample_def] by blast

definition lease_sample :: "8 word list view_step" where
  "lease_sample = lease_bytes 1 (view_answered (view_at [11, 12] 3) view_sample)"

lemma sample_delivered: "lease_sample = (Ok [1, 2], snd lease_sample)"
proof -
  have "fst lease_sample = Ok [1, 2]" by code_simp
  then show ?thesis by (simp add: prod_eq_iff)
qed

lemma delivered_bytes_are_checked_witness:
  "vr_enabled (snd lease_sample) \<and> is_deliverable 1 (vr_budget (snd lease_sample))"
  using delivered_bytes_are_checked [OF view_budget_new view_sample_def sample_delivered [unfolded lease_sample_def]]
  unfolding lease_sample_def by blast

lemma ended_view_never_delivers_witness:
  "fst (lease_bytes 1 (view_answered (view_at [11, 12] 3) (run view_step_of [(view_at [] 0, SetEnabled 1 (JBool True))]
     (snd (set_enabled 1 (JBool False) view_sample))))) = Err (ViewError VwDenied)"
proof -
  let ?r2 = "run view_step_of [(view_at [] 0, SetEnabled 1 (JBool True))] (snd (set_enabled 1 (JBool False) view_sample))"
  have facts: "vr_authority view_sample = 1" "map_option rd_enrolled (map_of (vr_reads ?r2) 1) = Some 0"
    "map_option vn_consent (map_of (vr_objects view_sample) 0) = Some 1" by code_simp+
  obtain e where e: "map_of (vr_objects view_sample) 0 = Some e" using facts(3) by auto
  obtain d where d: "map_of (vr_reads ?r2) 1 = Some d" "rd_enrolled d = 0" using facts(2) by auto
  have "ended_for_good e view_sample (snd (set_enabled 1 (JBool False) view_sample))"
    using facts(1) by (simp add: ended_for_good_def)
  from conjunct1 [OF ended_view_never_delivers [OF view_budget_new view_sample_def e this refl d]] show ?thesis .
qed

end
