(* ===== verification/NativeActions.thy ===== *)
theory NativeActions
  imports Policy
begin

text \<open>
  The pure part of \<open>src/hyprland.ts\<close>: what the broker accepts as an application handoff, an opening,
  a presentation, an action and an acknowledgement of a native helper. The operating system is an
  argument; strings are of code units below 256, so \<open>edit-ref\<close> text is always well formed here.
\<close>

datatype platform = Linux | Windows | MacOS | OtherPlatform

definition is_semantic :: "string \<Rightarrow> bool" where
  "is_semantic t \<longleftrightarrow> t \<in> set [''invoke-ref'', ''edit-ref'', ''value-ref'', ''ref-click'']"

definition is_name_char :: "char \<Rightarrow> bool" where
  "is_name_char c \<longleftrightarrow> is_word_dash c \<or> c = CHR ''.'' \<or> c = CHR '':''"

text \<open>A number of the language between two bounds, and an integral one.\<close>

definition int_between :: "int \<Rightarrow> int \<Rightarrow> jsval \<Rightarrow> bool" where
  "int_between lo hi v \<longleftrightarrow> is_integer v \<and> lo \<le> int_of_val v \<and> int_of_val v \<le> hi"

definition hex_string :: "nat \<Rightarrow> nat \<Rightarrow> jsval \<Rightarrow> bool" where
  "hex_string lo hi v \<longleftrightarrow> is_string v \<and> class_string is_lower_hex lo hi (str_of v)"

definition window_address :: "jsval \<Rightarrow> bool" where
  "window_address v \<longleftrightarrow> is_string v \<and> starts_with (str_of v) ''0x'' \<and> class_string is_lower_hex 1 16 (drop 2 (str_of v))"

section \<open>Handoffs, openings, presentations\<close>

record handoff_selection =
  hs_workspace :: int
  hs_address :: "string option"
  hs_stable :: "string option"

definition parse_handoff :: "platform \<Rightarrow> jsval \<Rightarrow> (orbit_error, handoff_selection) result" where
  "parse_handoff os v =
     and_then (js_record v) (\<lambda>input.
       if \<not> only_keys [''workspace'', ''address'', ''stableId''] input
          \<or> \<not> int_between 1 2147483647 (getp input ''workspace'')
          \<or> (getp input ''address'' = Undef) \<noteq> (getp input ''stableId'' = Undef)
       then Err (invalid_request ''Handoff requires a workspace and optionally an exact window address with stableId'')
       else if getp input ''address'' \<noteq> Undef
          \<and> \<not> (window_address (getp input ''address'')
               \<and> (if os = Linux then hex_string 1 16 (getp input ''stableId'') else hex_string 32 32 (getp input ''stableId'')))
       then Err (invalid_request ''Invalid existing window identity'')
       else Ok (if getp input ''address'' = Undef
         then \<lparr>hs_workspace = int_of_val (getp input ''workspace''), hs_address = None, hs_stable = None\<rparr>
         else \<lparr>hs_workspace = int_of_val (getp input ''workspace''), hs_address = Some (str_of (getp input ''address'')),
           hs_stable = Some (str_of (getp input ''stableId''))\<rparr>))"

record presentation =
  pr_workspace :: int
  pr_monitor :: string

definition parse_native_presentation :: "platform \<Rightarrow> jsval \<Rightarrow> (orbit_error, presentation) result" where
  "parse_native_presentation os v =
     and_then (js_record v) (\<lambda>input.
       if \<not> only_keys [''workspace'', ''monitor''] input
          \<or> \<not> (is_string (getp input ''monitor'') \<and> class_string is_name_char 1 128 (str_of (getp input ''monitor'')))
       then Err (invalid_request ''Presentation requires one explicit connected monitor name and numbered workspace'')
       else and_then (parse_handoff os (JObj [(''workspace'', getp input ''workspace'')])) (\<lambda>h.
         Ok \<lparr>pr_workspace = hs_workspace h, pr_monitor = str_of (getp input ''monitor'')\<rparr>))"

text \<open>The file name of an installed application, by operating system.\<close>

definition ends_with :: "'a list \<Rightarrow> 'a list \<Rightarrow> bool" where
  "ends_with s p \<longleftrightarrow> starts_with (rev s) (rev p)"

definition free_of :: "nat list \<Rightarrow> string \<Rightarrow> bool" where
  "free_of codes s \<longleftrightarrow> list_all (\<lambda>c. code c \<notin> set codes) s"

definition application_id_ok :: "platform \<Rightarrow> string \<Rightarrow> bool" where
  "application_id_ok os s =
     (case os of
        Linux \<Rightarrow> ends_with s ''.desktop'' \<and> length s > 8 \<and> free_of [47, 92, 0, 13, 10] s
      | Windows \<Rightarrow> ends_with (map lower_char s) ''.exe'' \<and> length s > 4
          \<and> free_of [47, 92, 58, 42, 63, 34, 60, 62, 124, 0, 13, 10] s
      | MacOS \<Rightarrow> s \<noteq> [] \<and> free_of [47, 92, 0, 13, 10] s
      | OtherPlatform \<Rightarrow> False)"

record native_open =
  no_workspace :: int
  no_application :: string
  no_window :: "(int \<times> int) option"

definition parse_native_open :: "platform \<Rightarrow> jsval \<Rightarrow> (orbit_error, native_open) result" where
  "parse_native_open os v =
     and_then (js_record v) (\<lambda>input.
     and_then (parse_handoff os (JObj [(''workspace'', getp input ''workspace'')])) (\<lambda>h.
       if \<not> only_keys [''workspace'', ''applicationId'', ''window''] input
          \<or> \<not> is_string (getp input ''applicationId'') \<or> length (str_of (getp input ''applicationId'')) > 1024
          \<or> \<not> application_id_ok os (str_of (getp input ''applicationId''))
       then Err (invalid_request ''Opening requires a registered applicationId and a numbered workspace; arbitrary commands are unavailable'')
       else
         (let opening = (\<lambda>size. \<lparr>no_workspace = hs_workspace h, no_application = str_of (getp input ''applicationId''), no_window = size\<rparr>) in
          if getp input ''window'' = Undef then Ok (opening None)
          else and_then (js_record (getp input ''window'')) (\<lambda>w.
            if \<not> only_keys [''width'', ''height''] w
               \<or> \<not> int_between 320 3840 (getp w ''width'') \<or> \<not> int_between 240 2160 (getp w ''height'')
            then Err (invalid_request ''Window size requires width 320 to 3840 and height 240 to 2160'')
            else Ok (opening (Some (int_of_val (getp w ''width''), int_of_val (getp w ''height'')))))))) "

definition generated_id :: "jsval \<Rightarrow> (orbit_error, string) result" where
  "generated_id v = (if hex_string 32 32 v then Ok (str_of v)
     else Err (invalid_request ''Native targets require generated application/window identifiers''))"

type_synonym target = "string \<times> string"

definition parse_target :: "jsobj \<Rightarrow> (orbit_error, target) result" where
  "parse_target fs =
     and_then (generated_id (getp fs ''appId'')) (\<lambda>a. and_then (generated_id (getp fs ''windowId'')) (\<lambda>w. Ok (a, w)))"

section \<open>Acknowledgements of the platform helper\<close>

definition platform_adapter :: "platform \<Rightarrow> bool \<Rightarrow> (orbit_error, bool) result" where
  "platform_adapter os wants_platform =
     (if os = Linux then
        (if wants_platform then Err (plain_error ''UNSUPPORTED'' ''Platform-native configuration requires Windows or macOS'') else Ok False)
      else if (os \<noteq> Windows \<and> os \<noteq> MacOS) \<or> \<not> wants_platform
      then Err (plain_error ''UNSUPPORTED'' ''This operating system requires explicit platform-native control configuration'')
      else Ok True)"

definition platform_read_capabilities :: "string list" where
  "platform_read_capabilities =
     [''windows'', ''state'', ''observe'', ''close-application'', ''pause'', ''resume'', ''stop'']"

text \<open>\<open>name\<close> is \<open>process.platform\<close>.\<close>

definition platform_acknowledgement :: "string \<Rightarrow> jsval \<Rightarrow> (orbit_error, string list) result" where
  "platform_acknowledgement name v =
     and_then (js_record v) (\<lambda>r.
       let bad = Err (plain_error ''BACKEND_ERROR''
             ''Platform-native helper did not acknowledge its selected-window scope and activity indication'') in
       if getp r ''ready'' \<noteq> JBool True \<or> getp r ''platform'' \<noteq> JStr name \<or> getp r ''scope'' \<noteq> JStr ''selected-platform-window''
          \<or> getp r ''workspaceKind'' \<noteq> JStr ''current-visible-desktop'' \<or> getp r ''clipboard'' \<noteq> JStr ''not-accessed''
          \<or> getp r ''indicator'' \<noteq> JStr ''not-qualified'' \<or> getp r ''nativeAcceptance'' \<noteq> JStr ''unmeasured''
          \<or> getp r ''pointerInput'' \<noteq> JBool False \<or> getp r ''keyInput'' \<noteq> JBool False then bad
       else (case getp r ''capabilities'' of
           JArr cs \<Rightarrow>
             if length cs > length platform_read_capabilities \<or> \<not> distinct cs
                \<or> \<not> list_all (\<lambda>c. is_string c \<and> str_of c \<in> set platform_read_capabilities) cs
                \<or> \<not> list_all (\<lambda>c. JStr c \<in> set cs) platform_read_capabilities then bad
             else Ok (map str_of cs)
         | _ \<Rightarrow> bad))"

definition platform_workspace :: "int \<Rightarrow> (orbit_error, unit) result" where
  "platform_workspace w = ensure (w = 1) (plain_error ''UNSUPPORTED''
     ''This platform adapter supports explicit selection of the current visible desktop only; numbered workspace placement is unavailable'')"

definition number_of :: "jsval \<Rightarrow> rat" where
  "number_of v = (case v of JNum (Fin r) \<Rightarrow> r | _ \<Rightarrow> 0)"

definition positive_finite :: "jsval \<Rightarrow> bool" where
  "positive_finite v \<longleftrightarrow> is_finite_num v \<and> number_of v > 0"

definition platform_candidate :: "platform \<Rightarrow> jsval \<Rightarrow> (orbit_error, jsobj) result" where
  "platform_candidate os v =
     and_then (js_record v) (\<lambda>row.
       if \<not> window_address (getp row ''address'') \<or> \<not> hex_string 32 32 (getp row ''stableId'')
          \<or> \<not> is_safe_integer (getp row ''pid'') \<or> int_of_val (getp row ''pid'') \<le> 0
          \<or> \<not> is_string (getp row ''title'') \<or> length (str_of (getp row ''title'')) > 512
          \<or> getp row ''workspace'' \<noteq> jint 1
          \<or> getp row ''windowProtocol'' \<noteq> JStr (if os = Windows then ''win32'' else ''cocoa'')
          \<or> \<not> positive_finite (getp row ''width'') \<or> \<not> positive_finite (getp row ''height'')
          \<or> number_of (getp row ''width'') > 8192 \<or> number_of (getp row ''height'') > 8192
       then Err (plain_error ''BACKEND_ERROR'' ''Platform-native helper returned invalid selected-window metadata'')
       else Ok [(''address'', getp row ''address''), (''stableId'', getp row ''stableId''), (''pid'', getp row ''pid''),
         (''title'', getp row ''title''), (''width'', getp row ''width''), (''height'', getp row ''height''),
         (''workspace'', jint 1), (''windowProtocol'', getp row ''windowProtocol'')])"

definition platform_candidates :: "platform \<Rightarrow> jsval \<Rightarrow> (orbit_error, jsobj list) result" where
  "platform_candidates os v =
     and_then (js_record v) (\<lambda>r.
       case getp r ''candidates'' of
         JArr cs \<Rightarrow>
           if getp r ''workspace'' \<noteq> jint 1 \<or> getp r ''workspaceKind'' \<noteq> JStr ''current-visible-desktop'' \<or> length cs > 256
           then Err (plain_error ''BACKEND_ERROR'' ''Platform-native helper returned invalid candidate scope'')
           else map_result (platform_candidate os) cs
       | _ \<Rightarrow> Err (plain_error ''BACKEND_ERROR'' ''Platform-native helper returned invalid candidate scope''))"

section \<open>Actions\<close>

definition action_fields :: "(string \<times> string list) list" where
  "action_fields =
     [(''windows'', [''appId'']), (''close-application'', [''appId'']),
      (''cursor'', [''appId'', ''windowId'', ''x'', ''y'']), (''move'', [''appId'', ''windowId'', ''x'', ''y'']),
      (''click'', [''appId'', ''windowId'', ''x'', ''y'', ''button'']), (''scroll'', [''appId'', ''windowId'', ''x'', ''y'', ''dy'']),
      (''ref-click'', [''appId'', ''windowId'', ''ref'', ''button'']),
      (''invoke-ref'', [''appId'', ''windowId'', ''ref'', ''index'']),
      (''edit-ref'', [''appId'', ''windowId'', ''ref'', ''text'']),
      (''value-ref'', [''appId'', ''windowId'', ''ref'', ''value'']),
      (''mouse-down'', [''appId'', ''windowId'', ''x'', ''y'', ''button'']),
      (''mouse-up'', [''appId'', ''windowId'', ''x'', ''y'', ''button'']),
      (''drag'', [''appId'', ''windowId'', ''x'', ''y'', ''toX'', ''toY'', ''button'']),
      (''text'', [''appId'', ''windowId'', ''text'']), (''key'', [''appId'', ''windowId'', ''key'']),
      (''close-window'', [''appId'', ''windowId'']), (''state'', [''appId'', ''windowId''])]"

text \<open>A complete snapshot reference \<open>@<32 hex digits>:e<1 to 3 digits>\<close>.\<close>

definition snapshot_ref :: "jsval \<Rightarrow> bool" where
  "snapshot_ref v \<longleftrightarrow> is_string v \<and>
     (let s = str_of v in take 1 s = ''@'' \<and> list_all is_lower_hex (take 32 (drop 1 s)) \<and> length s > 35
        \<and> take 2 (drop 33 s) = '':e'' \<and> class_string is_digit 1 3 (drop 35 s))"

definition with_index :: "string \<Rightarrow> jsobj \<Rightarrow> jsobj" where
  "with_index t input =
     (if t = ''invoke-ref'' \<and> getp input ''index'' \<in> {Undef, Null} then put ''index'' (jint 0) input else input)"

definition semantic_problem :: "string \<Rightarrow> jsobj \<Rightarrow> orbit_error option" where
  "semantic_problem t input =
     (if \<not> is_semantic t then None
      else if \<not> snapshot_ref (getp input ''ref'')
      then Some (plain_error ''INVALID_REF'' ''Use a complete snapshot ref from this exact window'')
      else if t = ''invoke-ref'' \<and> \<not> int_between 0 31 (getp (with_index t input) ''index'')
      then Some (invalid_request ''Semantic action index must be an integer from 0 to 31'')
      else if t = ''edit-ref'' \<and> (\<not> is_string (getp input ''text'') \<or> char_of (0::nat) \<in> set (str_of (getp input ''text''))
        \<or> utf8_bytes (str_of (getp input ''text'')) > 16000)
      then Some (invalid_request ''Semantic text requires 0 to 16000 UTF-8 bytes without NUL'')
      else if t = ''value-ref'' \<and> \<not> is_finite_num (getp input ''value'')
      then Some (invalid_request ''Semantic value must be finite'')
      else None)"

text \<open>
  \<open>caps\<close> are the capabilities a platform helper acknowledged, \<open>None\<close> for the compositor adapter. The
  table is a plain object, so a name every object inherits finds a value that is no list: with a
  further field that is a \<open>TypeError\<close> (\<open>OtherError\<close>), without one the missing application id is refused.
\<close>

definition parse_action :: "string list option \<Rightarrow> jsval \<Rightarrow> (thrown, jsobj) result" where
  "parse_action caps v =
     (case js_record v of
        Inl e \<Rightarrow> Err (Orbit e)
      | Inr input \<Rightarrow>
        (if \<not> is_string (getp input ''type'') then Err (Orbit (invalid_request ''Native action requires a type''))
         else
          (let t = str_of (getp input ''type''); others = filter (\<lambda>(k, w). k \<noteq> ''type'') input;
               unknown = Err (Orbit (invalid_request ''Unknown native action or unexpected fields'')) in
           case map_of action_fields t of
             None \<Rightarrow>
               if t \<in> set object_prototype_keys
               then (if others \<noteq> [] then Err OtherError
                     else Err (Orbit (invalid_request ''Native targets require generated application/window identifiers'')))
               else unknown
           | Some allowed \<Rightarrow>
               if \<not> only_keys allowed others then unknown
               else (case and_then (generated_id (getp input ''appId'')) (\<lambda>a.
                       if ''windowId'' \<in> set allowed then and_then (parse_target input) (\<lambda>p. Ok ()) else Ok ()) of
                   Inl e \<Rightarrow> Err (Orbit e)
                 | Inr u \<Rightarrow>
                     if (case caps of None \<Rightarrow> False | Some cs \<Rightarrow> t \<notin> set cs)
                     then Err (Orbit (plain_error ''UNSUPPORTED''
                       ''This platform-native adapter has not qualified the requested action; no input was dispatched''))
                     else (case semantic_problem t input of
                         Some e \<Rightarrow> Err (Orbit e)
                       | None \<Rightarrow> Ok (with_index t input))))))"

end
