(* ===== verification/Doubles.thy ===== *)
theory Doubles
  imports OrbitPrelude "HOL-Library.Log_Nat"
begin

text \<open>
  The language's numbers are doubles. A finite double is held as the rational it is; \<open>double_of r\<close> is the double
  an operation with the exact result \<open>r\<close> gives: rounded to 53 bits, to the nearest, ties to even, with a least
  exponent of -1074 and infinities from 2^1024 - 2^970 on. A negative zero is not told from zero. The operations
  of the other theories on small integers, or whose numbers are only compared, are exact as they stand; a theory
  whose numbers may lose digits uses this one.
\<close>

definition log2_floor :: "rat \<Rightarrow> int" where
  "log2_floor r = (if r \<ge> 1 then bitlen \<lfloor>r\<rfloor> - 1 else - bitlen (\<lceil>1 / r\<rceil> - 1))"

definition round_even :: "rat \<Rightarrow> int" where
  "round_even x =
     (let f = \<lfloor>x\<rfloor>; d = x - of_int f in if d < 1 / 2 \<or> (d = 1 / 2 \<and> even f) then f else f + 1)"

definition pow2 :: "int \<Rightarrow> rat" where
  "pow2 e = (if e \<ge> 0 then 2 ^ nat e else 1 / 2 ^ nat (- e))"

definition double_of :: "rat \<Rightarrow> jnum" where
  "double_of r =
     (if r = 0 then Fin 0
      else if \<bar>r\<bar> \<ge> 2 ^ 1024 - 2 ^ 970 then (if r > 0 then PosInf else NegInf)
      else (let e = max (- 1074) (log2_floor \<bar>r\<bar> - 52) in Fin (of_int (round_even (r / pow2 e)) * pow2 e)))"

definition js_minus :: "jnum \<Rightarrow> jnum \<Rightarrow> jnum" where
  "js_minus a b =
     (case (a, b) of
        (Fin x, Fin y) \<Rightarrow> double_of (x - y)
      | (NaN, _) \<Rightarrow> NaN
      | (_, NaN) \<Rightarrow> NaN
      | (PosInf, PosInf) \<Rightarrow> NaN
      | (NegInf, NegInf) \<Rightarrow> NaN
      | (PosInf, _) \<Rightarrow> PosInf
      | (NegInf, _) \<Rightarrow> NegInf
      | (_, PosInf) \<Rightarrow> NegInf
      | (_, NegInf) \<Rightarrow> PosInf)"

text \<open>\<open>Math.sign\<close>; a number that is none has the sign 0 here, which every use treats alike.\<close>

definition js_sign :: "jnum \<Rightarrow> int" where
  "js_sign n = (case n of Fin x \<Rightarrow> (if x > 0 then 1 else if x < 0 then -1 else 0) | PosInf \<Rightarrow> 1 | NegInf \<Rightarrow> -1 | NaN \<Rightarrow> 0)"

section \<open>The number of a text\<close>

text \<open>
  \<open>Number(text)\<close>: spaces around it do not count, nothing is 0, then an integer in base 16, 8 or 2, an infinity, or a
  decimal literal with an optional sign, fraction and exponent; the value is the double next to the exact one.
\<close>

definition digits :: "string \<Rightarrow> bool" where
  "digits s \<longleftrightarrow> s \<noteq> [] \<and> list_all is_digit s"

definition digits_value :: "string \<Rightarrow> int" where
  "digits_value s = foldl (\<lambda>v c. 10 * v + (int (code c) - 48)) 0 s"

definition figure :: "char \<Rightarrow> nat option" where
  "figure c = (if is_digit c then Some (code c - 48) else if between CHR ''a'' CHR ''z'' c then Some (code c - 87)
     else if between CHR ''A'' CHR ''Z'' c then Some (code c - 55) else None)"

fun figures_value :: "nat \<Rightarrow> int \<Rightarrow> string \<Rightarrow> int option" where
  "figures_value base v [] = Some v"
| "figures_value base v (c # s) =
     (case figure c of None \<Rightarrow> None | Some d \<Rightarrow> if d < base then figures_value base (int base * v + int d) s else None)"

definition based_number :: "nat \<Rightarrow> string \<Rightarrow> jnum" where
  "based_number base s =
     (case (if s = [] then None else figures_value base 0 s) of None \<Rightarrow> NaN | Some v \<Rightarrow> double_of (of_int v))"

definition signed_part :: "string \<Rightarrow> int \<times> string" where
  "signed_part s = (case s of [] \<Rightarrow> (1, [])
     | c # r \<Rightarrow> if c = CHR ''-'' then (-1, r) else if c = CHR ''+'' then (1, r) else (1, s))"

definition exponent_of :: "string \<Rightarrow> int option" where
  "exponent_of s =
     (case s of
        [] \<Rightarrow> Some 0
      | c # r \<Rightarrow>
          if c = CHR ''e'' \<or> c = CHR ''E''
          then (case signed_part r of (g, ds) \<Rightarrow> if digits ds then Some (g * digits_value ds) else None)
          else None)"

definition power_of_ten :: "int \<Rightarrow> rat" where
  "power_of_ten e = (if e \<ge> 0 then 10 ^ nat e else 1 / 10 ^ nat (- e))"

definition decimal_number :: "string \<Rightarrow> jnum" where
  "decimal_number s =
     (case signed_part s of (g, u) \<Rightarrow>
       if u = ''Infinity'' then (if g > 0 then PosInf else NegInf)
       else (let whole = takeWhile is_digit u; r = dropWhile is_digit u;
                 dotted = (r \<noteq> [] \<and> hd r = CHR ''.'');
                 fraction = (if dotted then takeWhile is_digit (tl r) else []);
                 left = (if dotted then dropWhile is_digit (tl r) else r) in
             if whole @ fraction = [] then NaN
             else (case exponent_of left of
                 None \<Rightarrow> NaN
               | Some e \<Rightarrow> double_of (of_int (g * digits_value (whole @ fraction)) * power_of_ten (e - int (length fraction))))))"

definition number_of_text :: "string \<Rightarrow> jnum" where
  "number_of_text text_of =
     (let s = js_trim text_of; kind = take 2 s in
      if s = [] then Fin 0
      else if kind = ''0x'' \<or> kind = ''0X'' then based_number 16 (drop 2 s)
      else if kind = ''0o'' \<or> kind = ''0O'' then based_number 8 (drop 2 s)
      else if kind = ''0b'' \<or> kind = ''0B'' then based_number 2 (drop 2 s)
      else decimal_number s)"

section \<open>Rounding\<close>

lemma pow2_pos [simp]: "pow2 e > 0" "pow2 e \<noteq> 0" "pow2 e \<ge> 0"
  by (simp_all add: pow2_def)

lemma round_even_nonneg: "x \<ge> 0 \<Longrightarrow> round_even x \<ge> 0"
  by (simp add: round_even_def Let_def)

lemma round_even_of_int [simp]: "round_even (of_int n) = n"
  by (simp add: round_even_def)

lemma round_even_half: "0 \<le> x \<Longrightarrow> x \<le> 1 / 2 \<Longrightarrow> round_even x = 0"
proof -
  assume "0 \<le> x" "x \<le> 1 / 2"
  then have "\<lfloor>x\<rfloor> = 0" by (simp add: floor_eq_iff)
  then show ?thesis using \<open>x \<le> 1 / 2\<close> by (simp add: round_even_def Let_def)
qed

lemma double_of_nonneg: "r \<ge> 0 \<Longrightarrow> double_of r = Fin x \<Longrightarrow> x \<ge> 0"
  by (auto simp: double_of_def Let_def round_even_nonneg split: if_splits)

lemma double_of_overflow:
  assumes "r \<ge> 2 ^ 1024"
  shows "double_of r = PosInf"
proof -
  have "(0::rat) < 2 ^ 1024" by simp
  then have "r > 0" using assms by (rule less_le_trans)
  moreover have "\<bar>r\<bar> \<ge> 2 ^ 1024 - 2 ^ 970" using assms \<open>r > 0\<close> by (simp add: order_trans [OF _ assms])
  ultimately show ?thesis by (simp add: double_of_def del: power_numeral)
qed

text \<open>The integers up to 2^53 are doubles.\<close>

lemma double_of_int:
  assumes "\<bar>n\<bar> \<le> 2 ^ 53"
  shows "double_of (of_int n) = Fin (of_int n)"
proof (cases "n = 0")
  case False
  let ?a = "\<bar>n\<bar>"
  let ?e = "max (- 1074) (log2_floor \<bar>of_int n\<bar> - 52)"
  have "(2::rat) ^ 53 < 2 ^ 1024 - 2 ^ 970" by simp
  moreover have "\<bar>of_int n :: rat\<bar> \<le> 2 ^ 53" using assms by (metis of_int_abs of_int_le_iff of_int_numeral of_int_power)
  ultimately have small: "\<not> \<bar>of_int n :: rat\<bar> \<ge> 2 ^ 1024 - 2 ^ 970" by linarith
  have one: "(1::rat) \<le> \<bar>of_int n\<bar>" using False by (metis of_int_1_le_iff of_int_abs zero_less_abs_iff int_one_le_iff_zero_less)
  then have l: "log2_floor \<bar>of_int n\<bar> = bitlen ?a - 1" by (simp add: log2_floor_def flip: of_int_abs)
  have "of_int (round_even (of_int n / pow2 ?e)) * pow2 ?e = of_int n"
  proof (cases "?a < 2 ^ 53")
    case True
    then have "bitlen ?a \<le> 53" using bitlen_le_iff_power [of ?a 53] by simp
    then have "?e \<le> 0" using l by simp
    then have p: "pow2 ?e = 1 / 2 ^ nat (- ?e)" by (cases "?e = 0") (simp_all add: pow2_def)
    have q: "of_int n / pow2 ?e = of_int (n * 2 ^ nat (- ?e))" unfolding p by simp
    show ?thesis unfolding q round_even_of_int unfolding p by simp
  next
    case False
    then have a: "?a = 2 ^ 53" using assms by simp
    have "bitlen (1 * 2 ^ 53) = bitlen 1 + 53" by (rule bitlen_pow2 [of 1 53, unfolded int_ops]) simp
    moreover have "bitlen 1 = 1" by (simp add: bitlen_alt_def)
    ultimately have "?e = 1" using l a by simp
    then have p: "pow2 ?e = 2" by (simp add: pow2_def)
    consider "n = 2 ^ 53" | "n = - (2 ^ 53)" using a by linarith
    then show ?thesis unfolding p using round_even_of_int [of "2 ^ 52"] round_even_of_int [of "- (2 ^ 52)"] by cases simp_all
  qed
  then show ?thesis using False small by (simp add: double_of_def Let_def del: power_numeral)
qed (simp add: double_of_def)

lemma double_of_half [simp]: "double_of (1 / 2) = Fin (1 / 2)"
proof -
  have l: "log2_floor (1 / 2) = - 1" by (simp add: log2_floor_def bitlen_alt_def)
  have p: "pow2 (- 53) = 1 / 9007199254740992" by (simp add: pow2_def)
  have q: "round_even 4503599627370496 = 4503599627370496" using round_even_of_int [of 4503599627370496] by simp
  have "\<not> (1 / 2 :: rat) \<ge> 2 ^ 1024 - 2 ^ 970" by simp
  then show ?thesis by (simp add: double_of_def Let_def l p q)
qed

lemma double_of_underflow:
  assumes "0 < r" and "r \<le> 1 / 2 ^ 1075"
  shows "double_of r = Fin 0"
proof -
  have "(1::rat) / 2 ^ 1075 < 1" by simp
  then have r1: "r < 1" using assms(2) by linarith
  have "2 ^ 1075 \<le> 1 / r" using assms by (simp add: field_simps)
  then have "of_int (2 ^ 1075) \<le> (of_int \<lceil>1 / r\<rceil> :: rat)" using le_of_int_ceiling [of "1 / r"] by simp
  then have "(2 ^ 1075 :: int) \<le> \<lceil>1 / r\<rceil>" by (simp only: of_int_le_iff)
  moreover have "(2 ^ 1074 :: int) \<le> 2 ^ 1075 - 1" by simp
  ultimately have "\<not> \<lceil>1 / r\<rceil> - 1 < (2 ^ 1074 :: int)" by linarith
  then have "\<not> bitlen (\<lceil>1 / r\<rceil> - 1) \<le> 1074" using bitlen_le_iff_power [of "\<lceil>1 / r\<rceil> - 1" 1074] by simp
  then have e: "max (- 1074) (log2_floor r - 52) = - 1074" using assms r1 by (simp add: log2_floor_def)
  have p: "pow2 (- 1074) = 1 / 2 ^ 1074" by (simp add: pow2_def)
  have "r / pow2 (- 1074) \<le> 1 / 2" unfolding p using assms(2) by (simp add: field_simps)
  then have "round_even (r / pow2 (- 1074)) = 0" using assms(1) by (intro round_even_half) simp_all
  moreover have "\<not> \<bar>r\<bar> \<ge> 2 ^ 1024 - 2 ^ 970"
  proof -
    have "(1::rat) < 2 ^ 1024 - 2 ^ 970" by simp
    then show ?thesis using r1 assms(1) by linarith
  qed
  ultimately show ?thesis using assms(1) by (simp add: double_of_def Let_def e del: power_numeral)
qed

text \<open>Small integers are evaluated as they are.\<close>

lemma double_of_code [code]:
  "double_of r =
     (if integral r \<and> \<bar>\<lfloor>r\<rfloor>\<bar> \<le> 9007199254740992 then Fin r
      else if \<bar>r\<bar> \<ge> 2 ^ 1024 - 2 ^ 970 then (if r > 0 then PosInf else NegInf)
      else (let e = max (- 1074) (log2_floor \<bar>r\<bar> - 52) in Fin (of_int (round_even (r / pow2 e)) * pow2 e)))"
proof (cases "integral r \<and> \<bar>\<lfloor>r\<rfloor>\<bar> \<le> 9007199254740992")
  case True
  then have "double_of (of_int \<lfloor>r\<rfloor>) = Fin (of_int \<lfloor>r\<rfloor>)" by (intro double_of_int) simp
  then show ?thesis using True by (simp add: integral_floor)
next
  case False
  then have "r \<noteq> 0" by auto
  then show ?thesis using False unfolding double_of_def by (simp only: if_False)
qed

section \<open>Decimal digits\<close>

lemma digit_space: "is_digit c \<Longrightarrow> \<not> is_js_space c"
  by (auto simp: between_def is_js_space_def code_def)

lemma js_trim_digits: "list_all is_digit s \<Longrightarrow> js_trim s = s"
proof -
  assume d: "list_all is_digit s"
  have id: "dropWhile is_js_space u = u" if "list_all is_digit u" for u
    using that digit_space by (cases u) auto
  have "list_all is_digit (rev s)" using d by (simp add: list_all_iff)
  then show ?thesis using id [OF d] id [of "rev s"] by (simp add: js_trim_def)
qed

lemma digits_not_based:
  assumes "list_all is_digit s"
  shows "take 2 s \<notin> {''0x'', ''0X'', ''0o'', ''0O'', ''0b'', ''0B''}"
proof
  assume "take 2 s \<in> {''0x'', ''0X'', ''0o'', ''0O'', ''0b'', ''0B''}"
  then have last: "last (take 2 s) \<in> {CHR ''x'', CHR ''X'', CHR ''o'', CHR ''O'', CHR ''b'', CHR ''B''}" and "take 2 s \<noteq> []" by auto
  moreover have "list_all is_digit (take 2 s)" using assms by (auto simp: list_all_iff dest: in_set_takeD)
  ultimately have "is_digit (last (take 2 s))" using last_in_set [of "take 2 s"] by (simp add: list_all_iff)
  with last show False by (auto simp: between_def code_def)
qed

lemma number_of_digits:
  assumes "digits s"
  shows "number_of_text s = double_of (of_int (digits_value s))"
proof -
  have d: "list_all is_digit s" "s \<noteq> []" using assms by (simp_all add: digits_def)
  then obtain c r where c: "s = c # r" "is_digit c" by (cases s) auto
  have g: "signed_part s = (1, s)" using c by (auto simp: signed_part_def between_def code_def)
  have i: "s \<noteq> ''Infinity''" using c by (auto simp: between_def code_def)
  have w: "takeWhile is_digit s = s" "dropWhile is_digit s = []" using d(1) by (simp_all add: list_all_iff)
  have "decimal_number s = double_of (of_int (digits_value s))"
    using d(2) i by (simp add: decimal_number_def g w exponent_of_def power_of_ten_def)
  then show ?thesis using d digits_not_based [OF d(1)] js_trim_digits [OF d(1)] by (simp add: number_of_text_def Let_def)
qed

end
