(* ===== verification/NativeBackend.thy ===== *)
theory NativeBackend
  imports NativeActions Doubles
begin

text \<open>
  The class \<open>NativeBackend\<close> of \<open>src/hyprland.ts\<close>: the broker's view of one borrowed application. The
  worker process is outside: each method is split at its \<open>await\<close> into what it asks of the worker and
  what it does with the reply. Objects used as keys (the action a preparation belongs to) are numbers, and
  a preparation carries the number of its creation, which stands for the identity of the stored object.
  Products and quotients are rounded to doubles; \<open>num\<close> is the conversion \<open>Number(value)\<close>. The optional second request of an
  observation (the window list of an old worker) is answered in the state the frame found.
\<close>

section \<open>State\<close>

record window =
  w_app :: string
  w_id :: string
  w_title :: string
  w_width :: rat
  w_height :: rat

record prepared =
  pp_serial :: nat
  pp_token :: string
  pp_action :: jsobj
  pp_epoch :: nat
  pp_sending :: bool

record backend =
  b_apps :: "string list"
  b_windows :: "(string \<times> window) list"
  b_selected :: "target option"
  b_size :: "rat \<times> rat"
  b_pointer :: "(jnum \<times> jnum) option"
  b_scales :: "(string \<times> rat \<times> rat) list"
  b_epoch :: nat
  b_prepared :: "(nat \<times> prepared) list"
  b_serial :: nat
  b_closing :: bool
  b_platform :: bool
  b_caps :: "string list"
  b_borrowed :: bool

datatype worker_request =
    SemanticPrepare jsobj
  | SemanticSend nat string jsobj
  | SemanticCancel string
  | CloseApplication string
  | ActRequest jsobj
  | PauseWorker
  | ResumeWorker
  | RevealWindow string string

definition backend_error :: "string \<Rightarrow> orbit_error" where
  "backend_error m = plain_error ''BACKEND_ERROR'' m"

text \<open>\<open>assertActionCapability\<close>: the capabilities an action is checked against, if any.\<close>

definition action_caps :: "backend \<Rightarrow> string list option" where
  "action_caps b = (if b_platform b then Some (b_caps b) else None)"

section \<open>Window metadata\<close>

definition bad_windows :: orbit_error where
  "bad_windows = backend_error ''Native worker returned invalid scoped window metadata''"

text \<open>One entry of the list, given the ids seen before it.\<close>

definition window_of :: "backend \<Rightarrow> string \<Rightarrow> string list \<Rightarrow> jsval \<Rightarrow> window option" where
  "window_of b app seen_ids v =
     (case as_object v of
        None \<Rightarrow> None
      | Some w \<Rightarrow>
          if getp w ''appId'' \<noteq> JStr app \<or> \<not> hex_string 32 32 (getp w ''windowId'') \<or> \<not> is_string (getp w ''title'')
             \<or> \<not> positive_finite (getp w ''width'') \<or> \<not> positive_finite (getp w ''height'')
             \<or> str_of (getp w ''windowId'') \<in> set seen_ids
             \<or> (case map_of (b_windows b) (str_of (getp w ''windowId'')) of None \<Rightarrow> False | Some old \<Rightarrow> w_app old \<noteq> app)
          then None
          else Some \<lparr>w_app = app, w_id = str_of (getp w ''windowId''), w_title = str_of (getp w ''title''),
            w_width = number_of (getp w ''width''), w_height = number_of (getp w ''height'')\<rparr>)"

fun window_rows :: "backend \<Rightarrow> string \<Rightarrow> string list \<Rightarrow> jsval list \<Rightarrow> window list option" where
  "window_rows b app seen_ids [] = Some []"
| "window_rows b app seen_ids (v # vs) =
     (case window_of b app seen_ids v of
        None \<Rightarrow> None
      | Some w \<Rightarrow> map_option (\<lambda>ws. w # ws) (window_rows b app (w_id w # seen_ids) vs))"

definition read_windows :: "backend \<Rightarrow> jsval \<Rightarrow> string \<Rightarrow> (orbit_error, window list) result" where
  "read_windows b v app =
     (case v of
        JArr vs \<Rightarrow>
          if length vs > 4096 then Err bad_windows
          else (case window_rows b app [] vs of
              None \<Rightarrow> Err bad_windows
            | Some ws \<Rightarrow>
                if b_platform b \<and> (length ws \<noteq> 1
                  \<or> (case b_selected b of None \<Rightarrow> False | Some (a, w) \<Rightarrow> w \<notin> set (map w_id (take 1 ws))))
                then Err bad_windows else Ok ws)
      | _ \<Rightarrow> Err bad_windows)"

definition acknowledge_windows :: "window list \<Rightarrow> string \<Rightarrow> backend \<Rightarrow> backend" where
  "acknowledge_windows owned app b =
     (let kept = set (map w_id owned);
          gone = {k. \<exists>w. map_of (b_windows b) k = Some w \<and> w_app w = app} - kept
      in b\<lparr>b_windows := fold (\<lambda>w. put (w_id w) w) owned (filter (\<lambda>(k, w). w_app w \<noteq> app) (b_windows b)),
           b_scales := filter (\<lambda>(k, s). k \<notin> gone) (b_scales b)\<rparr>)"

section \<open>Semantic preparation\<close>

definition prepare_begin :: "jsobj \<Rightarrow> backend \<Rightarrow> (orbit_error, worker_request option) result" where
  "prepare_begin action b =
     (if \<not> is_semantic (str_of (getp action ''type'')) then Ok None
      else if b_closing b \<or> str_of (getp action ''appId'') \<notin> set (b_apps b)
      then Err (plain_error ''SESSION_CLOSED'' ''Semantic application control is unavailable'')
      else Ok (Some (SemanticPrepare action)))"

text \<open>\<open>epoch\<close> is the semantic epoch when the preparation began.\<close>

definition prepare_reply ::
  "nat \<Rightarrow> nat \<Rightarrow> jsobj \<Rightarrow> jsval \<Rightarrow> backend \<Rightarrow> (orbit_error, unit) result \<times> worker_request list \<times> backend" where
  "prepare_reply oid epoch action reply b =
     (case js_record reply of
        Inl e \<Rightarrow> (Err e, [], b)
      | Inr r \<Rightarrow>
          if length r \<noteq> 1 \<or> \<not> hex_string 32 32 (getp r ''token'')
          then (Err (backend_error ''Native semantic preparation returned invalid metadata''), [], b)
          else
            (let token = str_of (getp r ''token'') in
             if b_closing b \<or> b_epoch b \<noteq> epoch \<or> length (b_prepared b) \<ge> 8
             then (Err (plain_error ''PAUSED'' ''Semantic preparation was revoked before dispatch''), [SemanticCancel token], b)
             else (Ok (), [], b\<lparr>b_serial := b_serial b + 1,
               b_prepared := put oid \<lparr>pp_serial = b_serial b, pp_token = token, pp_action = action, pp_epoch = epoch,
                 pp_sending = False\<rparr> (b_prepared b)\<rparr>)))"

definition cancel_prepared_action :: "nat \<Rightarrow> backend \<Rightarrow> worker_request list \<times> backend" where
  "cancel_prepared_action oid b =
     (case map_of (b_prepared b) oid of
        None \<Rightarrow> ([], b)
      | Some p \<Rightarrow> ([SemanticCancel (pp_token p)], if pp_sending p then b else b\<lparr>b_prepared := del oid (b_prepared b)\<rparr>))"

definition cancel_prepared_actions :: "backend \<Rightarrow> worker_request list \<times> backend" where
  "cancel_prepared_actions b =
     (map (\<lambda>(oid, p). SemanticCancel (pp_token p)) (b_prepared b),
      b\<lparr>b_epoch := b_epoch b + 1, b_prepared := filter (\<lambda>(oid, p). pp_sending p) (b_prepared b)\<rparr>)"

section \<open>Acting\<close>

definition not_prepared :: orbit_error where
  "not_prepared = plain_error ''SEMANTIC_PREPARATION_REQUIRED'' ''Observe the current target before choosing another semantic action''"

definition act_send :: "nat \<Rightarrow> jsobj \<Rightarrow> backend \<Rightarrow> (orbit_error, worker_request) result \<times> backend" where
  "act_send oid action b =
     (let t = str_of (getp action ''type''); app = str_of (getp action ''appId'') in
      if app \<notin> set (b_apps b)
      then (Err (invalid_request ''Native application belongs to another session or is closed''), b)
      else if is_semantic t then
        (case map_of (b_prepared b) oid of
           None \<Rightarrow> (Err not_prepared, b)
         | Some p \<Rightarrow>
             if pp_sending p \<or> pp_epoch p \<noteq> b_epoch b \<or> pp_action p \<noteq> action \<or> b_closing b then (Err not_prepared, b)
             else (Ok (SemanticSend (pp_serial p) (pp_token p) action),
                   b\<lparr>b_prepared := put oid (p\<lparr>pp_sending := True\<rparr>) (b_prepared b)\<rparr>))
      else if t = ''close-application'' then (Ok (CloseApplication app), b)
      else (Ok (ActRequest action), b))"

definition scale_num :: "jnum \<Rightarrow> rat \<Rightarrow> jnum" where
  "scale_num n s = (case n of Fin r \<Rightarrow> double_of (r * s) | _ \<Rightarrow> n)"

definition pointer_types :: "string list" where
  "pointer_types = [''cursor'', ''move'', ''click'', ''scroll'', ''mouse-down'', ''mouse-up'', ''drag'']"

definition move_pointer :: "(jsval \<Rightarrow> jnum) \<Rightarrow> jsobj \<Rightarrow> target \<Rightarrow> backend \<Rightarrow> backend" where
  "move_pointer num action sel b =
     (let t = str_of (getp action ''type''); b' = b\<lparr>b_selected := Some sel\<rparr> in
      if t \<notin> set pointer_types then b'
      else
        (let s = (case map_of (b_scales b) (snd sel) of None \<Rightarrow> (1, 1) | Some s \<Rightarrow> s);
             x = num (getp action (if t = ''drag'' then ''toX'' else ''x''));
             y = num (getp action (if t = ''drag'' then ''toY'' else ''y''))
         in b'\<lparr>b_pointer := Some (scale_num x (fst s), scale_num y (snd s))\<rparr>))"

definition forget_application :: "string \<Rightarrow> backend \<Rightarrow> backend" where
  "forget_application app b =
     (let gone = {k. \<exists>w. map_of (b_windows b) k = Some w \<and> w_app w = app};
          b' = b\<lparr>b_apps := removeAll app (b_apps b), b_windows := filter (\<lambda>(k, w). w_app w \<noteq> app) (b_windows b),
                 b_scales := filter (\<lambda>(k, s). k \<notin> gone) (b_scales b)\<rparr>
      in (case b_selected b of
            Some (a, w) \<Rightarrow> if a = app then b'\<lparr>b_selected := None, b_pointer := None\<rparr> else b'
          | None \<Rightarrow> b'))"

text \<open>The worker's reply or its error. \<open>serial\<close> is the preparation a semantic request was sent for.\<close>

definition act_reply ::
  "(jsval \<Rightarrow> jnum) \<Rightarrow> nat \<Rightarrow> nat \<Rightarrow> jsobj \<Rightarrow> (orbit_error, jsval) result \<Rightarrow> backend
     \<Rightarrow> (orbit_error, jsval) result \<times> backend" where
  "act_reply num oid serial action reply b =
     (let t = str_of (getp action ''type''); app = str_of (getp action ''appId'') in
      if is_semantic t
      then (reply, if map_option pp_serial (map_of (b_prepared b) oid) = Some serial
                   then b\<lparr>b_prepared := del oid (b_prepared b)\<rparr> else b)
      else (case reply of
          Inl e \<Rightarrow> (Err e, b)
        | Inr v \<Rightarrow>
            if t = ''close-application'' then (Ok v, forget_application app b)
            else if t = ''windows'' then
              (case and_then (js_record v) (\<lambda>r. read_windows b (getp r ''windows'') app) of
                 Inl e \<Rightarrow> (Err e, b)
               | Inr ws \<Rightarrow> (Ok v, acknowledge_windows ws app b))
            else (case parse_target action of
                Inl e \<Rightarrow> (Err e, b)
              | Inr sel \<Rightarrow> (Ok v, move_pointer num action sel b))))"

section \<open>Observing\<close>

datatype format = ImageFormat | TextFormat | BothFormat

record frame_facts =
  ff_scale :: "rat \<times> rat"
  ff_size :: "rat \<times> rat"
  ff_pointer :: "(rat \<times> rat) option"

definition observe_selectors :: "jsobj \<Rightarrow> jsobj" where
  "observe_selectors input = filter (\<lambda>(k, v). k \<in> set [''refs'', ''skeleton'', ''root'']) input"

text \<open>What may be observed: the target and its selectors. \<open>settle_fields\<close>: the pixel-settle options are given.\<close>

definition observe_target ::
  "jsval \<Rightarrow> format \<Rightarrow> bool \<Rightarrow> bool \<Rightarrow> backend \<Rightarrow> (orbit_error, target \<times> jsobj) result" where
  "observe_target v fmt settle_fields passive b =
     and_then (if v = Undef then Ok None else map_sum id Some (js_record v)) (\<lambda>input.
     and_then (case input of None \<Rightarrow> Ok (b_selected b) | Some i \<Rightarrow> map_sum id Some (parse_target i)) (\<lambda>selected.
       let sels = (case input of None \<Rightarrow> [] | Some i \<Rightarrow> observe_selectors i) in
       if passive \<and> sels \<noteq> [] then Err (invalid_request ''Passive observation cannot retain snapshot refs'')
       else if list_ex (\<lambda>(k, w). k \<noteq> ''root'' \<and> \<not> is_bool w) sels
       then Err (invalid_request ''Observation refs and skeleton must be boolean'')
       else if has_own sels ''root'' \<and> \<not> snapshot_ref (getp sels ''root'')
       then Err (invalid_request ''Root requires a snapshot-scoped ref'')
       else if fmt = ImageFormat \<and> list_ex (\<lambda>(k, w). \<not> falsy w) sels
       then Err (invalid_request ''Snapshot selectors require text or both'')
       else (case selected of
           None \<Rightarrow> Err (invalid_request ''Observe requires an explicit owned native target'')
         | Some t \<Rightarrow>
             if fst t \<notin> set (b_apps b) then Err (invalid_request ''Observe requires an explicit owned native target'')
             else if fmt = TextFormat \<and> settle_fields
             then Err (invalid_request ''Text capture does not accept pixel-settle options'')
             else Ok (t, sels))))"

definition passive_acknowledged :: "format \<Rightarrow> jsobj \<Rightarrow> (orbit_error, unit) result" where
  "passive_acknowledged fmt frame =
     (let o' = (case as_object (getp frame ''observation'') of None \<Rightarrow> [] | Some fs \<Rightarrow> fs) in
      if getp o' ''mode'' \<noteq> JStr ''passive-v1'' \<or> getp o' ''cursorRefresh'' \<noteq> JStr ''omitted'' \<or> \<not> has_own frame ''windows''
      then Err (plain_error ''UNSUPPORTED'' ''Native worker did not acknowledge passive observation; no legacy fallback is permitted'')
      else if fmt = TextFormat \<and> (getp frame ''mimeType'' \<noteq> JStr ''text/x-orbit-a11y'' \<or> getp frame ''image'' \<noteq> Undef)
      then Err (backend_error ''Passive text observation cannot fall back to image'')
      else Ok ())"

definition frame_pointer :: "jsobj \<Rightarrow> rat \<times> rat \<Rightarrow> (orbit_error, (rat \<times> rat) option) result" where
  "frame_pointer frame scale =
     (if getp frame ''pointer'' = Null then Ok None
      else (case as_object (getp frame ''pointer'') of
          None \<Rightarrow> Err (backend_error ''Native worker returned an invalid target pointer'')
        | Some p \<Rightarrow>
            let x = number_of (getp p ''x''); y = number_of (getp p ''y'') in
            if \<not> is_finite_num (getp p ''x'') \<or> \<not> is_finite_num (getp p ''y'') \<or> x < 0 \<or> y < 0
               \<or> x \<ge> number_of (getp frame ''surfaceWidth'') \<or> y \<ge> number_of (getp frame ''surfaceHeight'')
            then Err (backend_error ''Native worker returned an invalid target pointer'')
            else (case (double_of (x * fst scale), double_of (y * snd scale)) of
                (Fin px, Fin py) \<Rightarrow> Ok (Some (px, py))
              | _ \<Rightarrow> Err (backend_error ''Native worker returned an invalid scaled pointer''))))"

definition read_frame :: "target \<Rightarrow> format \<Rightarrow> jsobj \<Rightarrow> (orbit_error, frame_facts) result" where
  "read_frame t fmt frame =
     (let text_only = (getp frame ''mimeType'' = JStr ''text/x-orbit-a11y'' \<and> fmt = TextFormat \<and> getp frame ''image'' = Undef) in
      if getp frame ''appId'' \<noteq> JStr (fst t) \<or> getp frame ''windowId'' \<noteq> JStr (snd t)
         \<or> (\<not> text_only \<and> (getp frame ''mimeType'' \<noteq> JStr ''image/png'' \<or> \<not> is_string (getp frame ''image'')))
         \<or> \<not> positive_finite (getp frame ''width'') \<or> \<not> positive_finite (getp frame ''height'')
         \<or> \<not> positive_finite (getp frame ''surfaceWidth'') \<or> \<not> positive_finite (getp frame ''surfaceHeight'')
      then Err (backend_error ''Native worker returned an invalid target frame'')
      else
        (case (double_of (number_of (getp frame ''width'') / number_of (getp frame ''surfaceWidth'')),
               double_of (number_of (getp frame ''height'') / number_of (getp frame ''surfaceHeight''))) of
           (Fin sx, Fin sy) \<Rightarrow>
             if sx \<le> 0 \<or> sy \<le> 0 then Err (backend_error ''Native worker returned an invalid target scale'')
             else and_then (frame_pointer frame (sx, sy)) (\<lambda>p.
               Ok \<lparr>ff_scale = (sx, sy), ff_size = (number_of (getp frame ''width''), number_of (getp frame ''height'')), ff_pointer = p\<rparr>)
         | _ \<Rightarrow> Err (backend_error ''Native worker returned an invalid target scale'')))"

definition presence_of :: "backend \<Rightarrow> string \<times> (jnum \<times> jnum) option \<times> nat \<times> nat \<times> (string \<times> string \<times> bool) list" where
  "presence_of b =
     (let sel = (case b_selected b of None \<Rightarrow> None | Some (a, w) \<Rightarrow> map_of (b_windows b) w) in
      (case sel of None \<Rightarrow> ''Native target not selected'' | Some w \<Rightarrow> w_title w,
       b_pointer b, length (b_windows b),
       (case (sel, b_selected b) of
          (Some w, Some (a, i)) \<Rightarrow> (case find_index (\<lambda>(k, x). k = i) (b_windows b) of Some n \<Rightarrow> n + 1 | None \<Rightarrow> 0)
        | _ \<Rightarrow> 0),
       map (\<lambda>(k, w). (w_title w, w_id w, map_option snd (b_selected b) = Some (w_id w))) (b_windows b)))"

text \<open>\<open>legacy\<close> is the reply to the separate request for the windows, used when the frame carries none.\<close>

definition observe_frame ::
  "target \<Rightarrow> format \<Rightarrow> bool \<Rightarrow> jsval \<Rightarrow> jsval \<Rightarrow> backend \<Rightarrow> (orbit_error, frame_facts) result \<times> backend" where
  "observe_frame t fmt passive reply legacy b =
     (case and_then (js_record reply) (\<lambda>frame.
             and_then (if passive then passive_acknowledged fmt frame else Ok ()) (\<lambda>u.
             and_then (read_frame t fmt frame) (\<lambda>facts.
             and_then (if has_own frame ''windows'' then read_windows b (getp frame ''windows'') (fst t)
                       else if fst t \<notin> set (b_apps b) then Err (invalid_request ''Observed native application is closed'')
                       else and_then (js_record legacy) (\<lambda>r. read_windows b (getp r ''windows'') (fst t))) (\<lambda>owned.
             if fst t \<notin> set (b_apps b) then Err (invalid_request ''Observed native application is closed'')
             else if snd t \<notin> set (map w_id owned)
             then Err (backend_error ''Observed target was not acknowledged in native window metadata'')
             else Ok (facts, owned))))) of
        Inl e \<Rightarrow> (Err e, b)
      | Inr (facts, owned) \<Rightarrow>
          if passive then (Ok facts, b)
          else
            (let b1 = acknowledge_windows owned (fst t) b in
             (Ok facts, b1\<lparr>b_selected := Some t, b_size := ff_size facts,
                b_scales := put (snd t) (ff_scale facts) (b_scales b1),
                b_pointer := map_option (\<lambda>(x, y). (Fin x, Fin y)) (ff_pointer facts)\<rparr>)))"

text \<open>\<open>observePassive\<close> and \<open>baseline\<close>: what they check before and after the worker's reply.\<close>

definition observe_passive_target :: "jsval \<Rightarrow> jsval \<Rightarrow> (orbit_error, target) result" where
  "observe_passive_target v timeout =
     (if \<not> int_between 100 3000 timeout
      then Err (invalid_request ''Passive observation requires a known format and an integer budget from 100 to 3000'')
      else and_then (js_record v) parse_target)"

definition baseline_begin :: "target \<Rightarrow> backend \<Rightarrow> (orbit_error, worker_request) result" where
  "baseline_begin t b =
     (if fst t \<notin> set (b_apps b) then Err (invalid_request ''Baseline requires an owned native target'')
      else Ok (ActRequest [(''type'', JStr ''observe''), (''appId'', JStr (fst t)), (''windowId'', JStr (snd t)),
        (''digestOnly'', JBool True)]))"

definition baseline_reply :: "jsval \<Rightarrow> (orbit_error, string) result" where
  "baseline_reply v = and_then (js_record v) (\<lambda>r.
     if hex_string 64 64 (getp r ''sha256'') then Ok (str_of (getp r ''sha256''))
     else Err (backend_error ''Native worker returned an invalid baseline digest''))"

section \<open>Leases, reveal, close\<close>

definition pause_lease :: "backend \<Rightarrow> worker_request list \<times> backend" where
  "pause_lease b =
     (case cancel_prepared_actions b of (rs, b') \<Rightarrow> (rs @ (if b_borrowed b then [PauseWorker] else []), b'))"

definition resume_lease :: "backend \<Rightarrow> worker_request list" where
  "resume_lease b = (if b_borrowed b then [ResumeWorker] else [])"

definition reveal :: "backend \<Rightarrow> (orbit_error, worker_request) result" where
  "reveal b =
     (case b_selected b of
        Some (a, w) \<Rightarrow> if b_borrowed b then Ok (RevealWindow a w)
          else Err (plain_error ''SESSION_CLOSED'' ''No retained native session window is available'')
      | None \<Rightarrow> Err (plain_error ''SESSION_CLOSED'' ''No retained native session window is available''))"

definition close_backend :: "backend \<Rightarrow> worker_request list \<times> backend" where
  "close_backend b =
     (if b_closing b then ([], b)
      else (case cancel_prepared_actions b of (rs, b') \<Rightarrow> (rs, b'\<lparr>b_closing := True\<rparr>)))"

end
