(* ===== verification/NativeStart.thy ===== *)
theory NativeStart
  imports NativeBackend
begin

text \<open>
  How \<open>src/hyprland.ts\<close> starts a backend and talks to a short-lived worker: the handoff of one existing
  application, the candidates, the presentation requests and the opening of an application. What the
  worker, its directory and its closing did are arguments.
\<close>

text \<open>\<open>withCleanup\<close>: the cause attached to an error is not represented.\<close>

definition with_cleanup :: "thrown \<Rightarrow> thrown list \<Rightarrow> thrown" where
  "with_cleanup primary cleanup =
     (if cleanup = [] then primary else (case primary of Orbit e \<Rightarrow> Orbit e | _ \<Rightarrow> OtherError))"

definition failures :: "(thrown, 'a) result list \<Rightarrow> thrown list" where
  "failures rs = List.map_filter (\<lambda>r. case r of Inl e \<Rightarrow> Some e | Inr v \<Rightarrow> None) rs"

definition lift_orbit :: "(orbit_error, 'a) result \<Rightarrow> (thrown, 'a) result" where
  "lift_orbit r = map_sum Orbit id r"

section \<open>The handoff of one application\<close>

definition initial_backend :: "bool \<Rightarrow> bool \<Rightarrow> backend" where
  "initial_backend platform borrowed =
     \<lparr>b_apps = [], b_windows = [], b_selected = None, b_size = (1280, 800), b_pointer = None, b_scales = [], b_epoch = 0,
      b_prepared = [], b_serial = 0, b_closing = False, b_platform = platform, b_caps = [], b_borrowed = borrowed\<rparr>"

definition acknowledge_platform :: "string \<Rightarrow> jsval \<Rightarrow> backend \<Rightarrow> (orbit_error, backend) result" where
  "acknowledge_platform name v b = and_then (platform_acknowledgement name v) (\<lambda>cs. Ok (b\<lparr>b_caps := cs\<rparr>))"

datatype enrollment = ClientWindows | SelectedDialogFamily | SelectedWindow

datatype indicator = NotQualified | SelectedWindowOverlay

record handoff_view =
  hv_workspace :: int
  hv_app :: string
  hv_selected :: string
  hv_pointer :: "(rat \<times> rat) option"
  hv_windows :: "window list"
  hv_enrollment :: "enrollment option"
  hv_indicator :: "indicator option"

definition bad_enrollment :: orbit_error where
  "bad_enrollment = backend_error ''Invalid application window enrollment acknowledgement''"

definition enrollment_of :: "bool \<Rightarrow> jsval \<Rightarrow> (orbit_error, enrollment option) result" where
  "enrollment_of platform v =
     and_then
       (if v = Undef then Ok None
        else if v = JStr ''client-windows'' then Ok (Some ClientWindows)
        else if v = JStr ''selected-dialog-family'' then Ok (Some SelectedDialogFamily)
        else if v = JStr ''selected-window'' then Ok (Some SelectedWindow)
        else Err bad_enrollment)
       (\<lambda>e. if (if platform then e \<noteq> Some SelectedWindow else e = Some SelectedWindow) then Err bad_enrollment else Ok e)"

definition initial_pointer :: "bool \<Rightarrow> window \<Rightarrow> jsval \<Rightarrow> (orbit_error, (rat \<times> rat) option) result" where
  "initial_pointer platform w v =
     (let bad = Err (backend_error ''Invalid initial native pointer acknowledgement'') in
      if platform then (if v = Null then Ok None else bad)
      else and_then (js_record v) (\<lambda>p.
        let x = number_of (getp p ''x''); y = number_of (getp p ''y'') in
        if \<not> is_finite_num (getp p ''x'') \<or> \<not> is_finite_num (getp p ''y'') \<or> x < 0 \<or> y < 0 \<or> x \<ge> w_width w \<or> y \<ge> w_height w
        then bad else Ok (Some (x, y))))"

text \<open>The reply to \<open>claim\<close>; the state is thrown away with the backend when it is refused.\<close>

definition claim_reply :: "handoff_selection \<Rightarrow> jsval \<Rightarrow> backend \<Rightarrow> (orbit_error, backend \<times> handoff_view) result" where
  "claim_reply h v b =
     (let platform = b_platform b in
      and_then (js_record v) (\<lambda>claimed.
      and_then (generated_id (getp claimed ''appId'')) (\<lambda>app.
      and_then (ensure
        (getp claimed ''scope'' = JStr (if platform then ''selected-platform-window'' else ''entire-wayland-client'')
         \<and> getp claimed ''clipboard'' = JStr (if platform then ''not-accessed'' else ''shared'')
         \<and> (case getp claimed ''windows'' of JArr ws \<Rightarrow> True | _ \<Rightarrow> False))
        (backend_error ''Invalid application handoff acknowledgement'')) (\<lambda>u.
      and_then (enrollment_of platform (getp claimed ''windowEnrollment'')) (\<lambda>enrolled.
      let b1 = b\<lparr>b_apps := b_apps b @ [app]\<rparr> in
      and_then (read_windows b1 (getp claimed ''windows'') app) (\<lambda>ws.
      and_then (ensure (\<not> platform \<or> length ws = 1)
        (backend_error ''Platform-native handoff must acknowledge exactly the selected window'')) (\<lambda>u.
      let b2 = b1\<lparr>b_windows := fold (\<lambda>w. put (w_id w) w) ws (b_windows b1)\<rparr> in
      and_then (generated_id (getp claimed ''selectedWindowId'')) (\<lambda>sel.
        case map_of (b_windows b2) sel of
          None \<Rightarrow> Err (backend_error ''Selected handoff window was not acknowledged'')
        | Some w \<Rightarrow>
            and_then (initial_pointer platform w (getp claimed ''pointer'')) (\<lambda>p.
              Ok (b2\<lparr>b_selected := Some (app, sel), b_size := (w_width w, w_height w),
                    b_pointer := map_option (\<lambda>(x, y). (Fin x, Fin y)) p\<rparr>,
                  \<lparr>hv_workspace = hs_workspace h, hv_app = app, hv_selected = sel, hv_pointer = p, hv_windows = ws,
                   hv_enrollment = enrolled, hv_indicator = None\<rparr>))))))))))"

text \<open>
  \<open>create\<close> after the worker has started: the first status, the claim and, for the platform adapter,
  the second status. \<open>name\<close> is \<open>process.platform\<close>.
\<close>

definition create_backend ::
  "string \<Rightarrow> bool \<Rightarrow> handoff_selection \<Rightarrow> jsval \<Rightarrow> jsval \<Rightarrow> jsval \<Rightarrow> (orbit_error, backend \<times> handoff_view) result" where
  "create_backend name platform h first claimed second =
     and_then (js_record first) (\<lambda>status.
     and_then (ensure (getp status ''ready'' = JBool True) (backend_error ''Native worker did not become ready'')) (\<lambda>u.
     and_then (if platform then acknowledge_platform name first (initial_backend platform True)
               else Ok (initial_backend platform True)) (\<lambda>b.
     and_then (claim_reply h claimed b) (\<lambda>(b1, view).
       if \<not> platform then Ok (b1, view)
       else and_then (js_record second) (\<lambda>current.
         and_then (acknowledge_platform name second b1) (\<lambda>b2.
           Ok (b2, view\<lparr>hv_indicator := Some (if getp current ''indicator'' = JStr ''selected-window-overlay''
             then SelectedWindowOverlay else NotQualified)\<rparr>)))))))"

section \<open>Candidates\<close>

text \<open>
  \<open>start\<close>: the directory exists and the worker was created or not; then the status (platform adapter
  only), the candidates, the closing of the worker and the removal of the directory.
\<close>

definition candidates_result ::
  "platform \<Rightarrow> string \<Rightarrow> bool \<Rightarrow> (thrown, unit) result \<Rightarrow> (thrown, jsval) result \<Rightarrow> (thrown, jsval) result
     \<Rightarrow> (thrown, unit) result \<Rightarrow> (thrown, unit) result \<Rightarrow> (thrown, jsval) result" where
  "candidates_result os name platform start status reply ended removed =
     (let result = and_then start (\<lambda>u.
             and_then (if platform then and_then status (\<lambda>s. lift_orbit (map_sum id (\<lambda>cs. ()) (platform_acknowledgement name s)))
                       else Ok ()) (\<lambda>u.
             and_then reply (\<lambda>v.
               if platform then lift_orbit (map_sum id (\<lambda>rows. JObj [(''workspace'', jint 1),
                   (''workspaceKind'', JStr ''current-visible-desktop''), (''candidates'', JArr (map JObj rows))])
                 (platform_candidates os v))
               else Ok v)));
          cleanup = failures ((if start = Ok () then [ended] else []) @ [removed])
      in case result of
           Inl e \<Rightarrow> Err (with_cleanup e cleanup)
         | Inr v \<Rightarrow> if cleanup \<noteq> [] then Err OtherError else Ok v)"

section \<open>Presentation requests\<close>

datatype presentation_method = Monitors | WorkspaceInventory | Present

definition unconfirmed :: thrown where
  "unconfirmed = Orbit (plain_error ''PRESENTATION_UNCONFIRMED''
     ''Workspace presentation was not confirmed and display state may have changed. Inspect monitors and reuse the same requestId; do not replay the mutation blindly.'')"

definition not_started :: "thrown \<Rightarrow> thrown" where
  "not_started e = Orbit (plain_error ''PRESENTATION_NOT_READY''
     (''Presentation did not start. Inspect native readiness and retry the same requestId after resolving the startup failure.''
      @ (case e of Orbit o' \<Rightarrow> if err_code o' \<in> set [''NATIVE_STALE'', ''NATIVE_INCOMPATIBLE''] then '' '' @ err_message o' else []
         | _ \<Rightarrow> [])))"

text \<open>
  \<open>available\<close>: \<open>requireNativeAdapter\<close>; \<open>start\<close>: budget, readiness, directory, worker and the platform's
  acknowledgement; \<open>reply\<close>: the request itself; \<open>ended\<close>: closing the backend afterwards.
\<close>

definition presentation_request ::
  "bool \<Rightarrow> presentation_method \<Rightarrow> (thrown, unit) result \<Rightarrow> (thrown, unit) result \<Rightarrow> (thrown, 'v) result
     \<Rightarrow> (thrown, unit) result \<Rightarrow> (thrown, 'v) result" where
  "presentation_request platform m available start reply ended =
     (if platform \<and> m \<noteq> Monitors
      then Err (Orbit (plain_error ''UNSUPPORTED''
        ''This platform has no qualified numbered workspace presentation or occupancy adapter''))
      else and_then (if platform then Ok () else available) (\<lambda>u.
        case start of
          Inl e \<Rightarrow> Err (if m = Present then not_started e else e)
        | Inr u \<Rightarrow>
            (case reply of
               Inl e \<Rightarrow>
                 if m = Present
                    \<and> \<not> (case e of
                        Orbit o' \<Rightarrow> err_code o' \<in> set [''APPROVAL_REQUIRED'', ''NATIVE_INCOMPATIBLE'', ''PRESENTATION_NOT_READY'']
                      | _ \<Rightarrow> False)
                 then Err unconfirmed else Err e
             | Inr v \<Rightarrow>
                 (case ended of
                    Inl e \<Rightarrow> Err (if m = Present then unconfirmed else e)
                  | Inr u \<Rightarrow> Ok v))))"

definition workspace_numbers :: "jsval \<Rightarrow> int list option" where
  "workspace_numbers v =
     (case v of
        JArr vs \<Rightarrow> if length vs \<le> 16384 \<and> list_all (int_between 1 2147483647) vs then Some (map int_of_val vs) else None
      | _ \<Rightarrow> None)"

definition workspace_inventory :: "jsval \<Rightarrow> (orbit_error, int list \<times> int list) result" where
  "workspace_inventory v =
     and_then (js_record v) (\<lambda>r.
       case (workspace_numbers (getp r ''occupied''), workspace_numbers (getp r ''shown'')) of
         (Some occupied, Some shown) \<Rightarrow>
           if length shown < 1 \<or> length shown > 64
           then Err (backend_error ''Cannot determine empty numbered workspaces'') else Ok (occupied, shown)
       | _ \<Rightarrow> Err (backend_error ''Cannot determine empty numbered workspaces''))"

definition bad_monitors :: orbit_error where
  "bad_monitors = backend_error ''Native worker returned invalid monitor metadata''"

definition monitor_row :: "bool \<Rightarrow> jsval \<Rightarrow> (orbit_error, unit) result" where
  "monitor_row platform v =
     and_then (js_record v) (\<lambda>m.
       ensure (is_string (getp m ''name'')
          \<and> class_string (if platform then \<lambda>c. code c \<notin> {0, 10, 13} else is_name_char) 1 128 (str_of (getp m ''name''))
          \<and> is_bool (getp m ''focused'')
          \<and> (getp m ''workspace'' = Null \<or> int_between 1 2147483647 (getp m ''workspace''))) bad_monitors)"

definition monitors_reply :: "bool \<Rightarrow> jsval \<Rightarrow> (orbit_error, jsobj) result" where
  "monitors_reply platform v =
     and_then (js_record v) (\<lambda>r.
       case getp r ''monitors'' of
         JArr ms \<Rightarrow> if length ms > 64 then Err bad_monitors
           else and_then (map_result (monitor_row platform) ms) (\<lambda>us. Ok r)
       | _ \<Rightarrow> Err bad_monitors)"

definition present_reply :: "presentation \<Rightarrow> jsval \<Rightarrow> (orbit_error, jsobj) result" where
  "present_reply p v =
     and_then (js_record v) (\<lambda>r.
       if getp r ''workspace'' \<noteq> jint (pr_workspace p) \<or> getp r ''monitor'' \<noteq> JStr (pr_monitor p)
          \<or> getp r ''visible'' \<noteq> JBool True \<or> getp r ''ownerFocusPreserved'' \<noteq> JStr ''during-presentation''
          \<or> getp r ''sampled'' \<noteq> JStr ''compositor-acknowledgement''
       then Err (plain_error ''PRESENTATION_UNCONFIRMED''
         ''Presentation acknowledgement was invalid. Inspect monitors before further work; do not replay the mutation blindly.'')
       else Ok r)"

text \<open>\<open>present\<close>: a display change asked for by \<open>v\<close>.\<close>

definition present ::
  "platform \<Rightarrow> bool \<Rightarrow> jsval \<Rightarrow> (thrown, unit) result \<Rightarrow> (thrown, unit) result \<Rightarrow> (thrown, jsval) result
     \<Rightarrow> (thrown, unit) result \<Rightarrow> (thrown, jsobj) result" where
  "present os wants v available start reply ended =
     and_then (lift_orbit (platform_adapter os wants)) (\<lambda>platform.
       if platform
       then Err (Orbit (plain_error ''UNSUPPORTED''
         ''Native platform workspace presentation is not qualified; no display change was dispatched''))
       else and_then (lift_orbit (parse_native_presentation os v)) (\<lambda>p.
         and_then (presentation_request platform Present available start reply ended) (\<lambda>r.
           lift_orbit (present_reply p r))))"

section \<open>Opening an application\<close>

text \<open>The result and whether the private directory is removed; it is kept as evidence otherwise.\<close>

definition open_result ::
  "(thrown, unit) result \<Rightarrow> (thrown, 'v) result \<Rightarrow> (thrown, unit) result \<Rightarrow> (thrown, unit) result
     \<Rightarrow> (thrown, 'v) result \<times> bool" where
  "open_result start reply ended removed =
     (let result = and_then start (\<lambda>u. reply);
          remove = (case result of
              Inr v \<Rightarrow> True
            | Inl (Orbit e) \<Rightarrow> err_code e = ''APPROVAL_REQUIRED''
            | Inl e \<Rightarrow> False);
          worker = (start = Ok ());
          stopped = (\<not> worker \<or> ended = Ok ());
          cleanup = failures ((if worker then [ended] else []) @ (if remove \<and> stopped then [removed] else []))
      in (case result of
            Inl e \<Rightarrow> Err e
          | Inr v \<Rightarrow> if cleanup \<noteq> [] then Err OtherError else Ok v,
          remove \<and> stopped \<and> removed = Ok ()))"

end
