(* ===== verification/NativeFacts.thy ===== *)
theory NativeFacts
  imports NativeStart
begin

text \<open>
  What the native backend guarantees: a well-formedness invariant every method keeps, the fate of
  semantic preparations over arbitrary interleavings of the methods, the bounds of what an observation
  reports, and the results of starting and presenting.
\<close>

section \<open>Runs of the backend\<close>

text \<open>One synchronous part of a method, with an arbitrary reply of the worker.\<close>

datatype native_op =
    PrepareReplied nat nat jsobj jsval
  | CancelOne nat
  | CancelAll
  | ActSend nat jsobj
  | ActReplied "jsval \<Rightarrow> jnum" nat nat jsobj "(orbit_error, jsval) result"
  | Observed target format bool jsval jsval
  | CloseBackend

definition native_step :: "native_op \<Rightarrow> backend \<Rightarrow> worker_request list \<times> backend" where
  "native_step op b =
     (case op of
        PrepareReplied oid epoch action reply \<Rightarrow> (case prepare_reply oid epoch action reply b of (r, rs, b') \<Rightarrow> (rs, b'))
      | CancelOne oid \<Rightarrow> cancel_prepared_action oid b
      | CancelAll \<Rightarrow> cancel_prepared_actions b
      | ActSend oid action \<Rightarrow> (case act_send oid action b of (r, b') \<Rightarrow> (case r of Inl e \<Rightarrow> [] | Inr q \<Rightarrow> [q], b'))
      | ActReplied num oid serial action reply \<Rightarrow> ([], snd (act_reply num oid serial action reply b))
      | Observed t fmt passive reply legacy \<Rightarrow> ([], snd (observe_frame t fmt passive reply legacy b))
      | CloseBackend \<Rightarrow> close_backend b)"

fun native_run :: "native_op list \<Rightarrow> backend \<Rightarrow> worker_request list \<times> backend" where
  "native_run [] b = ([], b)"
| "native_run (op # ops) b =
     (case native_step op b of (rs, b1) \<Rightarrow> (case native_run ops b1 of (rs', b2) \<Rightarrow> (rs @ rs', b2)))"

text \<open>The preparations sent, by the number of their creation.\<close>

definition sent_serials :: "worker_request list \<Rightarrow> nat list" where
  "sent_serials rs = List.map_filter (\<lambda>r. case r of SemanticSend s t a \<Rightarrow> Some s | _ \<Rightarrow> None) rs"

lemma sent_serials_simps [simp]:
  "sent_serials [] = []"
  "sent_serials (r # rs) = (case r of SemanticSend s t a \<Rightarrow> s # sent_serials rs | _ \<Rightarrow> sent_serials rs)"
  "sent_serials (rs @ rs') = sent_serials rs @ sent_serials rs'"
  by (auto simp: sent_serials_def map_filter_def split: worker_request.splits)

lemma sent_serials_cancels [simp]: "sent_serials (map (\<lambda>(k, p). SemanticCancel (pp_token p)) kvs) = []"
  by (induction kvs) auto

section \<open>The invariant\<close>

definition windows_ok :: "(string \<times> window) list \<Rightarrow> bool" where
  "windows_ok ws \<longleftrightarrow> wf_map ws
     \<and> (\<forall>(k, w) \<in> set ws. w_id w = k \<and> class_string is_lower_hex 32 32 k \<and> w_width w > 0 \<and> w_height w > 0)"

definition scales_ok :: "(string \<times> rat \<times> rat) list \<Rightarrow> bool" where
  "scales_ok ss \<longleftrightarrow> (\<forall>(k, s) \<in> set ss. fst s > 0 \<and> snd s > 0)"

definition prepared_ok :: "backend \<Rightarrow> bool" where
  "prepared_ok b \<longleftrightarrow> wf_map (b_prepared b) \<and> length (b_prepared b) \<le> 8
     \<and> distinct (map (pp_serial \<circ> snd) (b_prepared b))
     \<and> (\<forall>(k, p) \<in> set (b_prepared b). pp_serial p < b_serial b \<and> pp_epoch p \<le> b_epoch b
          \<and> (pp_sending p \<or> pp_epoch p = b_epoch b))"

definition native_ok :: "backend \<Rightarrow> bool" where
  "native_ok b \<longleftrightarrow> windows_ok (b_windows b) \<and> scales_ok (b_scales b) \<and> keys (b_scales b) \<subseteq> keys (b_windows b)
     \<and> prepared_ok b"

lemma set_put_subset: "set (put k v kvs) \<subseteq> insert (k, v) (set kvs)"
  by (induction kvs) (auto split: if_splits)

lemma windows_ok_put:
  assumes "windows_ok ws" and "class_string is_lower_hex 32 32 (w_id w)" and "w_width w > 0" and "w_height w > 0"
  shows "windows_ok (put (w_id w) w ws)"
  using assms set_put_subset [of "w_id w" w ws] by (fastforce simp: windows_ok_def)

lemma windows_ok_filter: "windows_ok ws \<Longrightarrow> windows_ok (filter P ws)"
  by (auto simp: windows_ok_def wf_map_filter)

lemma scales_ok_filter: "scales_ok ss \<Longrightarrow> scales_ok (filter P ss)"
  by (auto simp: scales_ok_def)

lemma scales_ok_put: "scales_ok ss \<Longrightarrow> fst s > 0 \<Longrightarrow> snd s > 0 \<Longrightarrow> scales_ok (put k s ss)"
  using set_put_subset [of k s ss] by (fastforce simp: scales_ok_def)

definition proper_window :: "string \<Rightarrow> window \<Rightarrow> bool" where
  "proper_window app w \<longleftrightarrow> w_app w = app \<and> class_string is_lower_hex 32 32 (w_id w) \<and> w_width w > 0 \<and> w_height w > 0"

lemma window_of_proper: "window_of b app seen_ids v = Some w \<Longrightarrow> proper_window app w \<and> w_id w \<notin> set seen_ids"
  by (auto simp: window_of_def proper_window_def hex_string_def positive_finite_def split: option.splits if_splits)

lemma window_rows_proper:
  "window_rows b app seen_ids vs = Some ws \<Longrightarrow>
     (\<forall>w \<in> set ws. proper_window app w \<and> w_id w \<notin> set seen_ids) \<and> distinct (map w_id ws)"
proof (induction vs arbitrary: seen_ids ws)
  case (Cons v vs)
  then obtain w ws' where w: "window_of b app seen_ids v = Some w"
      and ws': "window_rows b app (w_id w # seen_ids) vs = Some ws'" and "ws = w # ws'"
    by (auto split: option.splits)
  then show ?case using Cons.IH [OF ws'] window_of_proper [OF w] by auto
qed simp

lemma read_windows_rows: "read_windows b v app = Inr ws \<Longrightarrow> \<exists>vs. window_rows b app [] vs = Some ws"
  by (auto simp: read_windows_def split: jsval.splits if_splits option.splits)

lemma read_windows_proper:
  assumes "read_windows b v app = Inr ws"
  shows "list_all (proper_window app) ws" and "distinct (map w_id ws)"
proof -
  obtain vs where "window_rows b app [] vs = Some ws" using read_windows_rows [OF assms] ..
  from window_rows_proper [OF this] show "list_all (proper_window app) ws" "distinct (map w_id ws)"
    by (auto simp: list_all_iff)
qed

lemma windows_ok_fold:
  "windows_ok kvs \<Longrightarrow> list_all (proper_window app) ws \<Longrightarrow> windows_ok (fold (\<lambda>w. put (w_id w) w) ws kvs)"
  by (induction ws arbitrary: kvs) (auto simp: proper_window_def intro: windows_ok_put)

lemma keys_fold_put: "keys (fold (\<lambda>w. put (w_id w) w) ws kvs) = keys kvs \<union> w_id ` set ws"
  by (induction ws arbitrary: kvs) auto

lemma keys_filter_iff:
  "wf_map kvs \<Longrightarrow> k \<in> keys (filter (\<lambda>(k, w). P w) kvs) \<longleftrightarrow> (\<exists>w. map_of kvs k = Some w \<and> P w)"
proof -
  assume wf: "wf_map kvs"
  have "k \<in> keys (filter (\<lambda>(k, w). P w) kvs) \<longleftrightarrow> (\<exists>w. (k, w) \<in> set kvs \<and> P w)" by (force simp: keys_def)
  then show ?thesis using map_of_mem_iff [OF wf] by simp
qed

lemma keys_filter_key: "keys (filter (\<lambda>(k, w). Q k) kvs) = {k \<in> keys kvs. Q k}"
  by (force simp: keys_def)

lemma acknowledge_windows_ok:
  assumes ok: "native_ok b" and owned: "list_all (proper_window app) owned"
  shows "native_ok (acknowledge_windows owned app b)"
    and "keys (b_windows (acknowledge_windows owned app b)) \<supseteq> w_id ` set owned"
proof -
  let ?b = "acknowledge_windows owned app b"
  have wf: "wf_map (b_windows b)" using ok by (simp add: native_ok_def windows_ok_def)
  have w: "windows_ok (b_windows ?b)" using ok owned
    by (auto simp: acknowledge_windows_def Let_def native_ok_def intro!: windows_ok_fold windows_ok_filter)
  have s: "scales_ok (b_scales ?b)" using ok
    by (simp add: acknowledge_windows_def Let_def native_ok_def scales_ok_filter)
  have k: "keys (b_scales ?b) \<subseteq> keys (b_windows ?b)"
  proof
    fix x assume "x \<in> keys (b_scales ?b)"
    then have x: "x \<in> keys (b_scales b)"
      and kept: "\<not> (\<exists>w. map_of (b_windows b) x = Some w \<and> w_app w = app) \<or> x \<in> w_id ` set owned"
      by (auto simp: acknowledge_windows_def Let_def keys_filter_key)
    from x obtain w where "map_of (b_windows b) x = Some w" using ok by (auto simp: native_ok_def keys_dom)
    then show "x \<in> keys (b_windows ?b)" using kept keys_filter_iff [OF wf, of x "\<lambda>w. w_app w \<noteq> app"]
      by (auto simp: acknowledge_windows_def Let_def keys_fold_put)
  qed
  have p: "prepared_ok ?b" using ok by (simp add: acknowledge_windows_def Let_def native_ok_def prepared_ok_def)
  show "native_ok ?b" using w s k p by (simp add: native_ok_def)
  show "w_id ` set owned \<subseteq> keys (b_windows ?b)" by (auto simp: acknowledge_windows_def Let_def keys_fold_put)
qed

lemma forget_application_ok:
  assumes ok: "native_ok b"
  shows "native_ok (forget_application app b)"
proof -
  let ?b = "forget_application app b"
  have wf: "wf_map (b_windows b)" using ok by (simp add: native_ok_def windows_ok_def)
  have parts: "b_windows ?b = filter (\<lambda>(k, w). w_app w \<noteq> app) (b_windows b)" "b_prepared ?b = b_prepared b"
    "b_scales ?b = filter (\<lambda>(k, s). k \<notin> {k. \<exists>w. map_of (b_windows b) k = Some w \<and> w_app w = app}) (b_scales b)"
    "b_serial ?b = b_serial b" "b_epoch ?b = b_epoch b"
    by (auto simp: forget_application_def Let_def split: option.splits)
  have k: "keys (b_scales ?b) \<subseteq> keys (b_windows ?b)"
  proof
    fix x assume "x \<in> keys (b_scales ?b)"
    then have x: "x \<in> keys (b_scales b)" and kept: "\<not> (\<exists>w. map_of (b_windows b) x = Some w \<and> w_app w = app)"
      by (auto simp: parts keys_filter_key)
    from x obtain w where "map_of (b_windows b) x = Some w" using ok by (auto simp: native_ok_def keys_dom)
    then show "x \<in> keys (b_windows ?b)" using kept keys_filter_iff [OF wf, of x "\<lambda>w. w_app w \<noteq> app"]
      by (auto simp: parts)
  qed
  moreover have "windows_ok (b_windows ?b)" "scales_ok (b_scales ?b)"
    using ok windows_ok_filter scales_ok_filter by (auto simp: native_ok_def parts)
  moreover have "prepared_ok ?b" using ok by (simp add: native_ok_def prepared_ok_def parts)
  ultimately show ?thesis by (simp add: native_ok_def)
qed

text \<open>Methods that change only the preparations, and the order they advance.\<close>

lemma prepared_ok_cong:
  "native_ok b \<Longrightarrow> b_windows b' = b_windows b \<Longrightarrow> b_scales b' = b_scales b \<Longrightarrow> prepared_ok b' \<Longrightarrow> native_ok b'"
  by (simp add: native_ok_def)

lemma prepared_ok_subset:
  assumes "prepared_ok b" and "b_prepared b' = filter P (b_prepared b)" and "b_serial b' = b_serial b"
    and "b_epoch b' = b_epoch b"
  shows "prepared_ok b'"
proof -
  have "length (filter P (b_prepared b)) \<le> 8" using assms(1) by (auto simp: prepared_ok_def intro: le_trans [OF length_filter_le])
  then show ?thesis using assms by (auto simp: prepared_ok_def wf_map_filter distinct_map inj_on_def)
qed

lemma serials_put_subset:
  "(pp_serial \<circ> snd) ` set (put oid p' kvs) \<subseteq> insert (pp_serial p') ((pp_serial \<circ> snd) ` set kvs)"
  using set_put_subset [of oid p' kvs] by auto

lemma put_serials:
  "distinct (map (pp_serial \<circ> snd) kvs) \<Longrightarrow> pp_serial p' \<notin> (pp_serial \<circ> snd) ` set kvs \<Longrightarrow>
     distinct (map (pp_serial \<circ> snd) (put oid p' kvs))"
proof (induction kvs)
  case (Cons kv kvs)
  then show ?case using serials_put_subset [of oid p' kvs] by (cases kv) auto
qed simp

text \<open>One preparation replaced or added, with a serial number of its own.\<close>

lemma prepared_ok_put:
  assumes p: "prepared_ok b" and n: "b_serial b \<le> n" "pp_serial p' < n" and ep: "pp_epoch p' = b_epoch b"
    and fresh: "distinct (map (pp_serial \<circ> snd) (put oid p' (b_prepared b)))"
    and len: "oid \<in> keys (b_prepared b) \<or> length (b_prepared b) < 8"
  shows "prepared_ok (b\<lparr>b_serial := n, b_prepared := put oid p' (b_prepared b)\<rparr>)"
  unfolding prepared_ok_def
proof (intro conjI)
  show "\<forall>(k, p) \<in> set (b_prepared (b\<lparr>b_serial := n, b_prepared := put oid p' (b_prepared b)\<rparr>)).
      pp_serial p < b_serial (b\<lparr>b_serial := n, b_prepared := put oid p' (b_prepared b)\<rparr>)
      \<and> pp_epoch p \<le> b_epoch (b\<lparr>b_serial := n, b_prepared := put oid p' (b_prepared b)\<rparr>)
      \<and> (pp_sending p \<or> pp_epoch p = b_epoch (b\<lparr>b_serial := n, b_prepared := put oid p' (b_prepared b)\<rparr>))"
  proof (clarsimp)
    fix k p assume "(k, p) \<in> set (put oid p' (b_prepared b))"
    then have "(k, p) = (oid, p') \<or> (k, p) \<in> set (b_prepared b)" using set_put_subset by fast
    then show "pp_serial p < n \<and> pp_epoch p \<le> b_epoch b \<and> (pp_sending p \<or> pp_epoch p = b_epoch b)"
      using p n ep by (auto simp: prepared_ok_def)
  qed
qed (use p fresh len in \<open>auto simp: prepared_ok_def length_put\<close>)

lemma prepare_reply_cases:
  assumes "prepare_reply oid epoch action reply b = (r, rs, b')"
  obtains (refused) "b' = b" "sent_serials rs = []"
  | (stored) p' where "length (b_prepared b) < 8" "b_epoch b = epoch" "pp_serial p' = b_serial b" "pp_epoch p' = epoch"
      "\<not> pp_sending p'" "rs = []" "b' = b\<lparr>b_serial := b_serial b + 1, b_prepared := put oid p' (b_prepared b)\<rparr>"
proof (cases "js_record reply")
  case (Inl e)
  then show ?thesis using assms by (intro refused) (auto simp: prepare_reply_def)
next
  case (Inr f)
  show ?thesis
  proof (cases "length f \<noteq> 1 \<or> \<not> hex_string 32 32 (getp f ''token'')")
    case True
    then show ?thesis using assms Inr by (intro refused) (auto simp: prepare_reply_def)
  next
    case shape: False
    show ?thesis
    proof (cases "b_closing b \<or> b_epoch b \<noteq> epoch \<or> length (b_prepared b) \<ge> 8")
      case True
      then show ?thesis using assms Inr shape by (intro refused) (auto simp: prepare_reply_def Let_def)
    next
      case False
      then show ?thesis using assms Inr shape
        by (intro stored [of "\<lparr>pp_serial = b_serial b, pp_token = str_of (getp f ''token''), pp_action = action,
            pp_epoch = epoch, pp_sending = False\<rparr>"]) (auto simp: prepare_reply_def Let_def)
    qed
  qed
qed

lemma prepare_reply_ok:
  assumes "native_ok b" and "prepare_reply oid epoch action reply b = (r, rs, b')"
  shows "native_ok b'"
proof -
  have p: "prepared_ok b" using assms(1) by (simp add: native_ok_def)
  show ?thesis using assms(2)
  proof (cases rule: prepare_reply_cases)
    case (stored p')
    have "distinct (map (pp_serial \<circ> snd) (put oid p' (b_prepared b)))"
      using p stored(3) by (intro put_serials) (auto simp: prepared_ok_def)
    then have "prepared_ok b'" unfolding stored(7) by (intro prepared_ok_put [OF p]) (use stored in auto)
    then show ?thesis using assms(1) stored(7) by (auto intro: prepared_ok_cong)
  qed (use assms in simp)
qed

lemma cancel_prepared_action_ok:
  "native_ok b \<Longrightarrow> native_ok (snd (cancel_prepared_action oid b))"
  by (auto simp: cancel_prepared_action_def native_ok_def del_def split: option.splits
    intro: prepared_ok_subset [where P = "\<lambda>(k, v). k \<noteq> oid"])

lemma cancel_prepared_actions_ok: "native_ok b \<Longrightarrow> native_ok (snd (cancel_prepared_actions b))"
proof -
  assume ok: "native_ok b"
  then have "prepared_ok b" by (simp add: native_ok_def)
  then have "prepared_ok (snd (cancel_prepared_actions b))"
    using le_trans [OF length_filter_le [of "\<lambda>(oid, p). pp_sending p" "b_prepared b"]]
    by (auto simp: cancel_prepared_actions_def prepared_ok_def wf_map_filter distinct_map inj_on_def)
  then show ?thesis using ok by (auto simp: cancel_prepared_actions_def intro: prepared_ok_cong)
qed

lemma act_send_cases:
  assumes "act_send oid action b = (r, b')"
  obtains (quiet) "b' = b" "\<forall>s t a. r \<noteq> Inr (SemanticSend s t a)"
  | (send) p where "map_of (b_prepared b) oid = Some p" "\<not> pp_sending p" "pp_epoch p = b_epoch b" "pp_action p = action"
      "\<not> b_closing b" "r = Inr (SemanticSend (pp_serial p) (pp_token p) action)"
      "b' = b\<lparr>b_prepared := put oid (p\<lparr>pp_sending := True\<rparr>) (b_prepared b)\<rparr>"
proof (cases "str_of (getp action ''appId'') \<in> set (b_apps b) \<and> is_semantic (str_of (getp action ''type''))")
  case True
  show ?thesis
  proof (cases "map_of (b_prepared b) oid")
    case None
    then show ?thesis using True assms by (intro quiet) (auto simp: act_send_def Let_def)
  next
    case (Some p)
    show ?thesis
    proof (cases "pp_sending p \<or> pp_epoch p \<noteq> b_epoch b \<or> pp_action p \<noteq> action \<or> b_closing b")
      case True
      then show ?thesis using assms \<open>_ \<and> _\<close> Some by (intro quiet) (auto simp: act_send_def Let_def)
    next
      case False
      then show ?thesis using assms \<open>_ \<and> _\<close> Some by (intro send [of p]) (auto simp: act_send_def Let_def)
    qed
  qed
next
  case False
  then show ?thesis using assms by (intro quiet) (auto simp: act_send_def Let_def split: if_splits)
qed

lemma put_sending_same:
  "map_of kvs oid = Some p \<Longrightarrow>
     map (pp_serial \<circ> snd) (put oid (p\<lparr>pp_sending := True\<rparr>) kvs) = map (pp_serial \<circ> snd) kvs"
  by (induction kvs) (auto split: if_splits)

lemma act_send_ok:
  assumes "native_ok b" and "act_send oid action b = (r, b')"
  shows "native_ok b'"
  using assms(2)
proof (cases rule: act_send_cases)
  case (send p)
  have p: "prepared_ok b" using assms(1) by (simp add: native_ok_def)
  have "(oid, p) \<in> set (b_prepared b)" by (rule map_of_SomeD [OF send(1)])
  moreover have "oid \<in> keys (b_prepared b)" by (rule map_of_Some_key [OF send(1)])
  ultimately have "prepared_ok (b\<lparr>b_serial := b_serial b, b_prepared := put oid (p\<lparr>pp_sending := True\<rparr>) (b_prepared b)\<rparr>)"
    using p put_sending_same [OF send(1)] send(3) by (intro prepared_ok_put [OF p]) (auto simp: prepared_ok_def)
  then have "prepared_ok b'" unfolding send(7) by simp
  then show ?thesis using assms(1) send(7) by (auto intro: prepared_ok_cong)
qed (use assms in simp)

lemma native_ok_cong:
  assumes "native_ok b" and "b_windows b' = b_windows b" "b_scales b' = b_scales b" "b_prepared b' = b_prepared b"
    "b_serial b' = b_serial b" "b_epoch b' = b_epoch b"
  shows "native_ok b'"
  using assms by (simp add: native_ok_def prepared_ok_def)

lemma move_pointer_fields:
  "b_windows (move_pointer num action sel b) = b_windows b" "b_scales (move_pointer num action sel b) = b_scales b"
  "b_prepared (move_pointer num action sel b) = b_prepared b" "b_serial (move_pointer num action sel b) = b_serial b"
  "b_epoch (move_pointer num action sel b) = b_epoch b"
  by (simp_all add: move_pointer_def Let_def)

lemma del_prepared_ok: "native_ok b \<Longrightarrow> native_ok (b\<lparr>b_prepared := del oid (b_prepared b)\<rparr>)"
  by (rule prepared_ok_cong) (auto simp: native_ok_def del_def intro: prepared_ok_subset [where P = "\<lambda>(k, v). k \<noteq> oid"])

lemma act_reply_ok:
  assumes ok: "native_ok b"
  shows "native_ok (snd (act_reply num oid serial action reply b))"
proof -
  have win: "native_ok (acknowledge_windows ws app b)"
    if "and_then (js_record v) (\<lambda>r. read_windows b (getp r ''windows'') app) = Inr ws" for v ws app
  proof -
    from that obtain r where "read_windows b (getp r ''windows'') app = Inr ws" by (cases "js_record v") auto
    from acknowledge_windows_ok(1) [OF ok read_windows_proper(1) [OF this]] show ?thesis .
  qed
  have mv: "native_ok (move_pointer num action sel b)" for sel
    by (rule native_ok_cong [OF ok]) (simp_all add: move_pointer_fields)
  show ?thesis using ok win mv
    by (auto simp: act_reply_def Let_def del_prepared_ok forget_application_ok split: sum.splits)
qed

text \<open>What a completed observation knows.\<close>

lemma frame_pointer_nonneg:
  assumes "frame_pointer frame scale = Inr (Some (px, py))" and "fst scale > 0" and "snd scale > 0"
  shows "0 \<le> px \<and> 0 \<le> py"
proof (cases "as_object (getp frame ''pointer'')")
  case None
  then show ?thesis using assms by (simp add: frame_pointer_def split: if_splits)
next
  case (Some q)
  define x y where "x = number_of (getp q ''x'')" and "y = number_of (getp q ''y'')"
  have "0 \<le> x" "0 \<le> y" and d: "double_of (x * fst scale) = Fin px" "double_of (y * snd scale) = Fin py"
    using assms(1) Some by (auto simp: frame_pointer_def Let_def x_def y_def split: if_splits jnum.splits)
  then show ?thesis
    using double_of_nonneg [OF _ d(1)] double_of_nonneg [OF _ d(2)] assms(2,3) by simp
qed

lemma read_frame_facts:
  assumes "read_frame t fmt frame = Inr facts"
  shows "fst (ff_scale facts) > 0" "snd (ff_scale facts) > 0" "fst (ff_size facts) > 0" "snd (ff_size facts) > 0"
    and "case ff_pointer facts of None \<Rightarrow> True | Some (x, y) \<Rightarrow> 0 \<le> x \<and> 0 \<le> y"
    and "getp frame ''appId'' = JStr (fst t)" "getp frame ''windowId'' = JStr (snd t)"
    and "double_of (fst (ff_size facts) / number_of (getp frame ''surfaceWidth'')) = Fin (fst (ff_scale facts))"
    and "double_of (snd (ff_size facts) / number_of (getp frame ''surfaceHeight'')) = Fin (snd (ff_scale facts))"
    and "ff_size facts = (number_of (getp frame ''width''), number_of (getp frame ''height''))"
proof -
  define w h sw sh where "w = number_of (getp frame ''width'')" and "h = number_of (getp frame ''height'')"
    and "sw = number_of (getp frame ''surfaceWidth'')" and "sh = number_of (getp frame ''surfaceHeight'')"
  from assms obtain p sx sy where d: "double_of (w / sw) = Fin sx" "double_of (h / sh) = Fin sy" "sx > 0" "sy > 0"
    and p: "frame_pointer frame (sx, sy) = Inr p"
    and f: "facts = \<lparr>ff_scale = (sx, sy), ff_size = (w, h), ff_pointer = p\<rparr>"
    and pos: "w > 0" "h > 0"
    and ids: "getp frame ''appId'' = JStr (fst t)" "getp frame ''windowId'' = JStr (snd t)"
    by (auto simp: read_frame_def Let_def positive_finite_def w_def h_def sw_def sh_def and_then_Ok_iff
      split: if_splits jnum.splits)
  show "fst (ff_scale facts) > 0" "snd (ff_scale facts) > 0" "fst (ff_size facts) > 0" "snd (ff_size facts) > 0"
    using pos d by (simp_all add: f)
  show "getp frame ''appId'' = JStr (fst t)" "getp frame ''windowId'' = JStr (snd t)" by (rule ids)+
  show "double_of (fst (ff_size facts) / number_of (getp frame ''surfaceWidth'')) = Fin (fst (ff_scale facts))"
    "double_of (snd (ff_size facts) / number_of (getp frame ''surfaceHeight'')) = Fin (snd (ff_scale facts))"
    using d by (simp_all add: f sw_def sh_def)
  show "ff_size facts = (number_of (getp frame ''width''), number_of (getp frame ''height''))"
    by (simp add: f w_def h_def)
  show "case ff_pointer facts of None \<Rightarrow> True | Some (x, y) \<Rightarrow> 0 \<le> x \<and> 0 \<le> y"
    using frame_pointer_nonneg [of frame "(sx, sy)"] p d by (auto simp: f split: option.split)
qed

text \<open>
  A frame whose scale overflows or underflows is refused: 1e308 over 1e-308, or the least double over 1e308.
\<close>

lemma unusable_scale_refused:
  assumes "r \<ge> 2 ^ 1024 \<or> 0 < r \<and> r \<le> 1 / 2 ^ 1075"
    and r: "r = number_of (getp frame ''width'') / number_of (getp frame ''surfaceWidth'')"
  shows "\<exists>e. observe_frame t fmt passive (JObj frame) legacy b = (Err e, b)"
proof -
  have bad: "double_of r = PosInf \<or> double_of r = Fin 0"
    using assms(1) double_of_overflow [of r] double_of_underflow [of r] by blast
  have "\<exists>e. read_frame t fmt frame = Err e"
  proof (cases "read_frame t fmt frame")
    case (Inr facts)
    have "double_of r = Fin (fst (ff_scale facts))" "fst (ff_scale facts) > 0"
      using read_frame_facts(1,8,10) [OF Inr] by (simp_all add: r)
    then show ?thesis using bad by simp
  qed simp
  then obtain e where "read_frame t fmt frame = Err e" by blast
  then show ?thesis
    by (cases "if passive then passive_acknowledged fmt frame else Ok ()")
      (simp_all add: observe_frame_def js_record_def as_object_def)
qed

lemma observe_frame_cases:
  assumes "observe_frame t fmt passive reply legacy b = (r, b')"
  obtains (failed) e where "r = Inl e" "b' = b"
  | (success) frame facts owned v where "js_record reply = Inr frame" "read_frame t fmt frame = Inr facts"
      "read_windows b v (fst t) = Inr owned" "snd t \<in> set (map w_id owned)" "fst t \<in> set (b_apps b)" "r = Inr facts"
      "passive \<Longrightarrow> passive_acknowledged fmt frame = Inr ()"
      "b' = (if passive then b else (acknowledge_windows owned (fst t) b)\<lparr>b_selected := Some t, b_size := ff_size facts,
          b_scales := put (snd t) (ff_scale facts) (b_scales (acknowledge_windows owned (fst t) b)),
          b_pointer := map_option (\<lambda>(x, y). (Fin x, Fin y)) (ff_pointer facts)\<rparr>)"
proof -
  define payload where "payload =
    and_then (js_record reply) (\<lambda>frame.
      and_then (if passive then passive_acknowledged fmt frame else Ok ()) (\<lambda>u.
      and_then (read_frame t fmt frame) (\<lambda>facts.
      and_then (if has_own frame ''windows'' then read_windows b (getp frame ''windows'') (fst t)
                else if fst t \<notin> set (b_apps b) then Err (invalid_request ''Observed native application is closed'')
                else and_then (js_record legacy) (\<lambda>r. read_windows b (getp r ''windows'') (fst t))) (\<lambda>owned.
      if fst t \<notin> set (b_apps b) then Err (invalid_request ''Observed native application is closed'')
      else if snd t \<notin> set (map w_id owned)
      then Err (backend_error ''Observed target was not acknowledged in native window metadata'')
      else Ok (facts, owned)))))"
  show ?thesis
  proof (cases payload)
    case (Inl e)
    then show ?thesis using assms by (intro failed) (auto simp: observe_frame_def payload_def)
  next
    case (Inr fo)
    then obtain frame facts owned u where 1: "js_record reply = Inr frame" "read_frame t fmt frame = Inr facts"
        "(if passive then passive_acknowledged fmt frame else Ok ()) = Inr u"
        "(if has_own frame ''windows'' then read_windows b (getp frame ''windows'') (fst t)
          else if fst t \<notin> set (b_apps b) then Err (invalid_request ''Observed native application is closed'')
          else and_then (js_record legacy) (\<lambda>r. read_windows b (getp r ''windows'') (fst t))) = Inr owned"
        "fst t \<in> set (b_apps b)" "snd t \<in> set (map w_id owned)" "fo = (facts, owned)"
      unfolding payload_def and_then_Ok_iff by (metis Inl_Inr_False Inr_inject)
    obtain v where "read_windows b v (fst t) = Inr owned"
      using 1(4) by (auto simp: and_then_Ok_iff split: if_splits)
    moreover have "observe_frame t fmt passive reply legacy b = (Ok facts, if passive then b
        else (acknowledge_windows owned (fst t) b)\<lparr>b_selected := Some t, b_size := ff_size facts,
          b_scales := put (snd t) (ff_scale facts) (b_scales (acknowledge_windows owned (fst t) b)),
          b_pointer := map_option (\<lambda>(x, y). (Fin x, Fin y)) (ff_pointer facts)\<rparr>)"
      using Inr 1(7) unfolding observe_frame_def payload_def by (simp add: Let_def)
    ultimately show ?thesis using 1 assms by (intro success) auto
  qed
qed

lemma observe_frame_ok:
  assumes ok: "native_ok b"
  shows "native_ok (snd (observe_frame t fmt passive reply legacy b))"
proof (cases "observe_frame t fmt passive reply legacy b")
  case (Pair r b')
  then show ?thesis
  proof (cases rule: observe_frame_cases)
    case (success frame facts owned v)
    let ?b = "acknowledge_windows owned (fst t) b"
    note a = acknowledge_windows_ok [OF ok read_windows_proper(1) [OF success(3)]]
    have "snd t \<in> keys (b_windows ?b)" using success(4) a(2) by auto
    then have "native_ok (?b\<lparr>b_selected := Some t, b_size := ff_size facts,
          b_scales := put (snd t) (ff_scale facts) (b_scales ?b),
          b_pointer := map_option (\<lambda>(x, y). (Fin x, Fin y)) (ff_pointer facts)\<rparr>)"
      using a(1) read_frame_facts(1,2) [OF success(2)]
      by (auto simp: native_ok_def prepared_ok_def intro: scales_ok_put)
    then show ?thesis using Pair success(8) ok by simp
  qed (use ok Pair in simp)
qed

lemma close_backend_ok: "native_ok b \<Longrightarrow> native_ok (snd (close_backend b))"
  using cancel_prepared_actions_ok [of b]
  by (auto simp: close_backend_def cancel_prepared_actions_def native_ok_def prepared_ok_def)

lemma native_step_ok: "native_ok b \<Longrightarrow> native_ok (snd (native_step op b))"
proof (cases op)
  case (PrepareReplied oid epoch action reply)
  then show "native_ok b \<Longrightarrow> native_ok (snd (native_step op b))"
    using prepare_reply_ok by (cases "prepare_reply oid epoch action reply b") (auto simp: native_step_def)
next
  case (ActSend oid action)
  then show "native_ok b \<Longrightarrow> native_ok (snd (native_step op b))"
    using act_send_ok by (cases "act_send oid action b") (auto simp: native_step_def)
qed (auto simp: native_step_def cancel_prepared_action_ok cancel_prepared_actions_ok act_reply_ok
    observe_frame_ok close_backend_ok)

lemma native_run_ok: "native_ok b \<Longrightarrow> native_ok (snd (native_run ops b))"
proof (induction ops arbitrary: b)
  case (Cons op ops)
  then show ?case using native_step_ok [of b op] by (auto split: prod.splits) (metis snd_conv)
qed simp

lemma claim_reply_shape:
  assumes "claim_reply h v b = Inr (b', view)"
  obtains app ws sel w p where "list_all (proper_window app) ws" "hv_app view = app" "hv_windows view = ws" "hv_selected view = sel"
    "b_windows b' = fold (\<lambda>w. put (w_id w) w) ws (b_windows b)" "map_of (b_windows b') sel = Some w"
    "b_scales b' = b_scales b" "b_prepared b' = b_prepared b" "b_serial b' = b_serial b" "b_epoch b' = b_epoch b"
    "b_selected b' = Some (app, sel)" "b_apps b' = b_apps b @ [app]" "b_size b' = (w_width w, w_height w)"
    "b_closing b' = b_closing b"
proof -
  from assms obtain claimed app x enrolled ws u sel w p where
    ws: "read_windows (b\<lparr>b_apps := b_apps b @ [app]\<rparr>) x app = Inr ws"
    and w: "map_of (fold (\<lambda>w. put (w_id w) w) ws (b_windows b)) sel = Some w"
    and b': "(b\<lparr>b_apps := b_apps b @ [app], b_windows := fold (\<lambda>w. put (w_id w) w) ws (b_windows b),
       b_selected := Some (app, sel), b_size := (w_width w, w_height w),
       b_pointer := map_option (\<lambda>(x, y). (Fin x, Fin y)) p\<rparr>,
       \<lparr>hv_workspace = hs_workspace h, hv_app = app, hv_selected = sel, hv_pointer = p, hv_windows = ws,
        hv_enrollment = enrolled, hv_indicator = None\<rparr>) = (b', view)"
    by (auto simp: claim_reply_def Let_def and_then_Ok_iff split: option.splits)
  show ?thesis using read_windows_proper(1) [OF ws] w b' by (intro that [of app ws sel w]) auto
qed

lemma initial_backend_ok [simp]: "native_ok (initial_backend platform borrowed)"
  by (simp add: initial_backend_def native_ok_def windows_ok_def scales_ok_def prepared_ok_def)

lemma claim_reply_ok: "native_ok b \<Longrightarrow> claim_reply h v b = Inr (b', view) \<Longrightarrow> native_ok b'"
proof (erule claim_reply_shape)
  fix app ws
  assume "native_ok b" "list_all (proper_window app) ws" "b_windows b' = fold (\<lambda>w. put (w_id w) w) ws (b_windows b)"
    "b_scales b' = b_scales b" "b_prepared b' = b_prepared b" "b_serial b' = b_serial b" "b_epoch b' = b_epoch b"
  then show "native_ok b'" using windows_ok_fold [of "b_windows b" app ws]
    by (auto simp: native_ok_def prepared_ok_def keys_fold_put)
qed

lemma native_ok_caps [simp]: "native_ok (b\<lparr>b_caps := cs\<rparr>) = native_ok b"
  by (simp add: native_ok_def prepared_ok_def)

lemma create_backend_claim:
  assumes "create_backend name platform h first claimed second = Inr (b, view)"
  obtains b0 b1 view' cs where "native_ok b0" "b_apps b0 = []" "b_prepared b0 = []" "claim_reply h claimed b0 = Inr (b1, view')"
    "b = b1 \<or> b = b1\<lparr>b_caps := cs\<rparr>" "hv_selected view = hv_selected view'" "hv_app view = hv_app view'"
    "\<not> platform \<Longrightarrow> hv_indicator view = None" "platform \<Longrightarrow> hv_indicator view = Some NotQualified"
proof -
  let ?i = "initial_backend platform True"
  define start where "start = (if platform then acknowledge_platform name first ?i else Ok ?i)"
  define finish where "finish = (\<lambda>(b1, view :: handoff_view). if \<not> platform then Ok (b1, view)
       else and_then (js_record second) (\<lambda>current.
         and_then (acknowledge_platform name second b1) (\<lambda>b2.
           Ok (b2, view\<lparr>hv_indicator := Some (if getp current ''indicator'' = JStr ''selected-window-overlay''
             then SelectedWindowOverlay else NotQualified)\<rparr>))))"
  from assms have "\<exists>b0 b1 view'. start = Inr b0 \<and> claim_reply h claimed b0 = Inr (b1, view') \<and> finish (b1, view') = Inr (b, view)"
    unfolding create_backend_def start_def [symmetric] finish_def [symmetric] and_then_Ok_iff by (metis surj_pair)
  then obtain b0 b1 view' where s: "start = Inr b0" and c: "claim_reply h claimed b0 = Inr (b1, view')"
    and f: "finish (b1, view') = Inr (b, view)" by blast
  from s have b0: "b0 = ?i \<or> (\<exists>cs. b0 = ?i\<lparr>b_caps := cs\<rparr>)"
    by (auto simp: start_def and_then_Ok_iff acknowledge_platform_def split: if_splits)
  have rest: "if \<not> platform then b = b1 \<and> view = view'
      else \<exists>current b2. js_record second = Inr current \<and> acknowledge_platform name second b1 = Inr b2 \<and> b = b2
        \<and> view = view'\<lparr>hv_indicator := Some (if getp current ''indicator'' = JStr ''selected-window-overlay''
             then SelectedWindowOverlay else NotQualified)\<rparr>"
    using f by (auto simp: finish_def and_then_Ok_iff split: if_splits)
  have i: "native_ok b0" "b_apps b0 = []" "b_prepared b0 = []"
    using b0 by auto (simp_all add: initial_backend_def)
  have none: "hv_indicator view' = None" using c by (auto simp: claim_reply_def Let_def and_then_Ok_iff split: option.splits)
  show ?thesis
  proof (cases platform)
    case False
    then show ?thesis using rest i c none by (intro that [of b0 b1 view']) auto
  next
    case True
    then obtain current cs where r: "js_record second = Inr current" "platform_acknowledgement name second = Inr cs"
      and b: "b = b1\<lparr>b_caps := cs\<rparr>"
      and v: "view = view'\<lparr>hv_indicator := Some (if getp current ''indicator'' = JStr ''selected-window-overlay''
             then SelectedWindowOverlay else NotQualified)\<rparr>"
      using rest by (auto simp: acknowledge_platform_def and_then_Ok_iff)
    have "getp current ''indicator'' = JStr ''not-qualified''"
      using r by (auto simp: platform_acknowledgement_def Let_def split: if_splits)
    then show ?thesis using True i c b v by (intro that [of b0 b1 view' cs]) auto
  qed
qed

text \<open>
  C21. The cached metadata stays well formed. After any accepted handoff and any sequence of methods with
  arbitrary replies, windows are stored under their own generated ids with positive sizes, every
  coordinate scale is a finite positive number (the quotient of two sizes rounded to a double, which may
  overflow or vanish, is refused then) and belongs to a known window, and at most eight preparations exist,
  each with a serial number of its own and, unless it is being sent, of the current epoch.
\<close>

theorem native_backend_invariant:
  assumes "create_backend name platform h first claimed second = Inr (b, view)"
  shows "native_ok (snd (native_run ops b))"
  using assms
proof (rule create_backend_claim)
  fix b0 b1 view' cs
  assume "native_ok b0" "claim_reply h claimed b0 = Inr (b1, view')" "b = b1 \<or> b = b1\<lparr>b_caps := cs\<rparr>"
  then have "native_ok b" using claim_reply_ok by auto
  then show ?thesis by (rule native_run_ok)
qed

definition sample_id :: "char \<Rightarrow> string" where
  "sample_id c = replicate 32 c"

lemma sample_id_simps [simp]:
  "class_string is_lower_hex 32 32 (sample_id c) = is_lower_hex c" "(sample_id c = sample_id d) = (c = d)"
  by (auto simp: sample_id_def class_string_def list_all_iff)

definition sample_claim :: jsval where
  "sample_claim = JObj [(''appId'', JStr (sample_id CHR ''a'')), (''scope'', JStr ''entire-wayland-client''),
     (''clipboard'', JStr ''shared''), (''selectedWindowId'', JStr (sample_id CHR ''1'')),
     (''windows'', JArr [JObj [(''appId'', JStr (sample_id CHR ''a'')), (''windowId'', JStr (sample_id CHR ''1'')),
        (''title'', JStr ''Editor''), (''width'', jint 800), (''height'', jint 600)]]),
     (''pointer'', JObj [(''x'', jint 10), (''y'', jint 20)])]"

definition sample_selection :: handoff_selection where
  "sample_selection = \<lparr>hs_workspace = 3, hs_address = None, hs_stable = None\<rparr>"

definition sample_backend :: backend where
  "sample_backend = (initial_backend False True)\<lparr>b_apps := [sample_id CHR ''a''],
     b_windows := [(sample_id CHR ''1'', \<lparr>w_app = sample_id CHR ''a'', w_id = sample_id CHR ''1'', w_title = ''Editor'',
       w_width = 800, w_height = 600\<rparr>)],
     b_selected := Some (sample_id CHR ''a'', sample_id CHR ''1''), b_size := (800, 600), b_pointer := Some (Fin 10, Fin 20)\<rparr>"

lemma sample_created:
  "\<exists>view. create_backend ''linux'' False sample_selection (JObj [(''ready'', JBool True)]) sample_claim Undef
     = Inr (sample_backend, view)"
  by (simp add: create_backend_def claim_reply_def sample_claim_def generated_id_def hex_string_def Let_def
    enrollment_of_def read_windows_def window_of_def initial_pointer_def sample_backend_def initial_backend_def
    sample_selection_def js_record_def as_object_def getp_def is_lower_hex_def
    positive_finite_def number_of_def jint_def ensure_def is_finite_num_def between_def code_def)

lemma native_backend_invariant_witness:
  "native_ok (snd (native_run [ActSend 0 [], CancelAll] sample_backend))"
  using sample_created native_backend_invariant by blast

section \<open>The fate of a preparation\<close>

lemma observe_keeps_prepared:
  "b_prepared (snd (observe_frame t fmt passive reply legacy b)) = b_prepared b
    \<and> b_serial (snd (observe_frame t fmt passive reply legacy b)) = b_serial b
    \<and> b_epoch (snd (observe_frame t fmt passive reply legacy b)) = b_epoch b"
proof (cases "observe_frame t fmt passive reply legacy b")
  case (Pair r b')
  then show ?thesis
    by (cases rule: observe_frame_cases) (simp_all add: Pair acknowledge_windows_def Let_def)
qed

text \<open>How one step changes the preparations, and what it sends.\<close>

lemma native_step_prepared:
  assumes "native_step op b = (rs, b')"
  shows "b_serial b \<le> b_serial b' \<and> b_epoch b \<le> b_epoch b'
    \<and> (\<forall>(k, p) \<in> set (b_prepared b'). (k, p) \<in> set (b_prepared b) \<or> pp_sending p
        \<or> (pp_serial p = b_serial b \<and> b_serial b < b_serial b' \<and> (\<exists>oid a r. op = PrepareReplied oid (b_epoch b) a r)))
    \<and> (sent_serials rs = [] \<or> (\<exists>oid p. (oid, p) \<in> set (b_prepared b) \<and> \<not> pp_sending p \<and> sent_serials rs = [pp_serial p]
        \<and> (oid, p\<lparr>pp_sending := True\<rparr>) \<in> set (b_prepared b')))"
proof (cases op)
  case (PrepareReplied oid epoch action reply)
  then obtain r where "prepare_reply oid epoch action reply b = (r, rs, b')"
    using assms by (auto simp: native_step_def split: prod.splits)
  then show ?thesis
  proof (cases rule: prepare_reply_cases)
    case (stored p')
    then show ?thesis using PrepareReplied set_put_subset [of oid p' "b_prepared b"] by auto
  qed auto
next
  case (ActSend oid action)
  then obtain r where r: "act_send oid action b = (r, b')" "rs = (case r of Inl e \<Rightarrow> [] | Inr q \<Rightarrow> [q])"
    using assms by (auto simp: native_step_def split: prod.splits)
  from r(1) show ?thesis
  proof (cases rule: act_send_cases)
    case quiet
    then have "sent_serials rs = []" using r(2) by (auto split: sum.splits worker_request.splits)
    then show ?thesis using quiet by auto
  next
    case (send p)
    have "(oid, p) \<in> set (b_prepared b)" by (rule map_of_SomeD [OF send(1)])
    moreover have "(oid, p\<lparr>pp_sending := True\<rparr>) \<in> set (b_prepared b')"
      using map_of_SomeD [of "b_prepared b'" oid] send(7) by simp
    ultimately show ?thesis using send r(2) set_put_subset [of oid "p\<lparr>pp_sending := True\<rparr>" "b_prepared b"] by auto
  qed
next
  case (ActReplied num oid serial action reply)
  then have "b' = snd (act_reply num oid serial action reply b)" "rs = []" using assms by (auto simp: native_step_def)
  moreover have "b_prepared (forget_application app b) = b_prepared b" "b_serial (forget_application app b) = b_serial b"
    "b_epoch (forget_application app b) = b_epoch b" for app
    by (auto simp: forget_application_def Let_def split: option.splits)
  ultimately show ?thesis
    by (auto simp: act_reply_def Let_def move_pointer_fields acknowledge_windows_def del_def split: sum.splits)
next
  case (Observed t fmt psv reply legacy)
  then have "rs = []" "b' = snd (observe_frame t fmt psv reply legacy b)" using assms by (auto simp: native_step_def)
  then show ?thesis using observe_keeps_prepared [of t fmt psv reply legacy b] by auto
next
  case CancelAll
  then show ?thesis using assms by (auto simp: native_step_def cancel_prepared_actions_def)
next
  case (CancelOne oid)
  then show ?thesis using assms
    by (auto simp: native_step_def cancel_prepared_action_def del_def split: option.splits if_splits)
next
  case CloseBackend
  then show ?thesis using assms by (auto simp: native_step_def close_backend_def cancel_prepared_actions_def split: if_splits)
qed

lemma native_step_grows:
  assumes "native_step op b = (rs, b')"
  shows "b_serial b \<le> b_serial b'" "b_epoch b \<le> b_epoch b'"
  using native_step_prepared [OF assms] by blast+

lemma native_step_sends:
  assumes "native_step op b = (rs, b')"
  obtains (none) "sent_serials rs = []"
  | (one) oid p where "(oid, p) \<in> set (b_prepared b)" "\<not> pp_sending p" "sent_serials rs = [pp_serial p]"
  using conjunct2 [OF conjunct2 [OF native_step_prepared [OF assms]]] by (elim disjE exE conjE) auto

lemma native_run_distinct:
  assumes "native_ok b" and "\<forall>s \<in> sent. s < b_serial b"
    and "\<forall>(k, p) \<in> set (b_prepared b). pp_sending p \<or> pp_serial p \<notin> sent"
  shows "distinct (sent_serials (fst (native_run ops b))) \<and> set (sent_serials (fst (native_run ops b))) \<inter> sent = {}"
  using assms
proof (induction ops arbitrary: b sent)
  case (Cons op ops)
  obtain rs b' where st: "native_step op b = (rs, b')" by (cases "native_step op b")
  obtain rs' b2 where run: "native_run ops b' = (rs', b2)" by (cases "native_run ops b'")
  note step = native_step_prepared [OF st]
  have ok': "native_ok b'" using native_step_ok [OF Cons.prems(1), of op] st by simp
  let ?sent = "sent \<union> set (sent_serials rs)"
  have new: "distinct (sent_serials rs)" "set (sent_serials rs) \<inter> sent = {}" "\<forall>s \<in> set (sent_serials rs). s < b_serial b"
    using step Cons.prems by (auto simp: native_ok_def prepared_ok_def)
  have below: "\<forall>s \<in> ?sent. s < b_serial b'" using new(3) Cons.prems(2) step by auto
  have "pp_sending p \<or> pp_serial p \<notin> ?sent" if kp: "(k, p) \<in> set (b_prepared b')" for k p
  proof (rule disjCI)
    assume "\<not> pp_serial p \<notin> ?sent"
    then consider (old) "pp_serial p \<in> sent" | (now) "pp_serial p \<in> set (sent_serials rs)" by auto
    then show "pp_sending p"
    proof cases
      case old
      then show ?thesis using step kp Cons.prems(2,3) by fastforce
    next
      case now
      then obtain oid p0 where "pp_serial p0 = pp_serial p" "(oid, p0\<lparr>pp_sending := True\<rparr>) \<in> set (b_prepared b')"
        using step by auto
      moreover have "inj_on (pp_serial \<circ> snd) (set (b_prepared b'))"
        using ok' by (simp add: native_ok_def prepared_ok_def distinct_map)
      ultimately show ?thesis using kp inj_onD [of "pp_serial \<circ> snd" "set (b_prepared b')" "(k, p)" "(oid, p0\<lparr>pp_sending := True\<rparr>)"]
        by auto
    qed
  qed
  then have "distinct (sent_serials rs') \<and> set (sent_serials rs') \<inter> ?sent = {}"
    using Cons.IH [OF ok' below] run by auto
  then show ?case using st run new(1,2) by auto
qed simp

text \<open>
  A prepared semantic action reaches the worker at most once: whatever methods run, in whatever
  order and with whatever replies, no preparation is sent twice.
\<close>

theorem semantic_preparation_sent_once:
  assumes "native_ok b"
  shows "distinct (sent_serials (fst (native_run ops b)))"
  using native_run_distinct [OF assms, of "{}"] by simp

definition sample_action :: jsobj where
  "sample_action = [(''type'', JStr ''invoke-ref''), (''appId'', JStr (sample_id CHR ''a'')), (''windowId'', JStr (sample_id CHR ''1'')),
     (''ref'', JStr (''@'' @ sample_id CHR ''0'' @ '':e7'')), (''index'', jint 0)]"

definition sample_token :: jsval where
  "sample_token = JObj [(''token'', JStr (sample_id CHR ''b''))]"

lemma sample_backend_ok: "native_ok sample_backend"
  using native_backend_invariant [of _ _ _ _ _ _ _ _ "[]"] sample_created by fastforce

lemma sample_sends:
  "sent_serials (fst (native_run [PrepareReplied 4 0 sample_action sample_token, ActSend 4 sample_action,
     ActSend 4 sample_action] sample_backend)) = [0]"
  by (simp add: native_step_def prepare_reply_def act_send_def sample_backend_def initial_backend_def sample_action_def
    sample_token_def js_record_def as_object_def getp_def hex_string_def is_lower_hex_def
    between_def code_def Let_def is_semantic_def)

lemma semantic_preparation_sent_once_witness:
  "native_ok sample_backend \<and> distinct (sent_serials (fst (native_run [PrepareReplied 4 0 sample_action sample_token,
     ActSend 4 sample_action, ActSend 4 sample_action] sample_backend)))"
  using sample_backend_ok semantic_preparation_sent_once [OF sample_backend_ok] by blast

lemma native_run_after:
  assumes "\<forall>(k, p) \<in> set (b_prepared b). pp_sending p \<or> n \<le> pp_serial p" and "n \<le> b_serial b"
  shows "\<forall>s \<in> set (sent_serials (fst (native_run ops b))). n \<le> s"
  using assms
proof (induction ops arbitrary: b)
  case (Cons op ops)
  obtain rs b' where st: "native_step op b = (rs, b')" by (cases "native_step op b")
  obtain rs' b2 where run: "native_run ops b' = (rs', b2)" by (cases "native_run ops b'")
  note step = native_step_prepared [OF st]
  have "pp_sending p \<or> n \<le> pp_serial p" if "(k, p) \<in> set (b_prepared b')" for k p
  proof -
    from step that consider "(k, p) \<in> set (b_prepared b)" | "pp_sending p" | "pp_serial p = b_serial b" by blast
    then show ?thesis using Cons.prems by cases auto
  qed
  then have "\<forall>(k, p) \<in> set (b_prepared b'). pp_sending p \<or> n \<le> pp_serial p" by auto
  moreover have "n \<le> b_serial b'" using native_step_grows(1) [OF st] Cons.prems(2) by simp
  ultimately have "\<forall>s \<in> set (sent_serials (fst (native_run ops b'))). n \<le> s" by (rule Cons.IH)
  moreover have "\<forall>s \<in> set (sent_serials rs). n \<le> s"
    using st by (rule native_step_sends) (use Cons.prems(1) in auto)
  ultimately show ?case using st run by auto
qed simp

text \<open>A preparation the broker began at an epoch up to \<open>n\<close>.\<close>

definition begun_before :: "nat \<Rightarrow> native_op \<Rightarrow> bool" where
  "begun_before n op \<longleftrightarrow> (case op of PrepareReplied oid epoch action reply \<Rightarrow> epoch \<le> n | _ \<Rightarrow> True)"

lemma native_run_revoked:
  assumes "\<forall>(k, p) \<in> set (b_prepared b). pp_sending p" and "n < b_epoch b" and "list_all (begun_before n) ops"
  shows "sent_serials (fst (native_run ops b)) = []"
  using assms
proof (induction ops arbitrary: b)
  case (Cons op ops)
  obtain rs b' where st: "native_step op b = (rs, b')" by (cases "native_step op b")
  obtain rs' b2 where run: "native_run ops b' = (rs', b2)" by (cases "native_run ops b'")
  note step = native_step_prepared [OF st]
  have "pp_sending p" if "(k, p) \<in> set (b_prepared b')" for k p
  proof -
    from step that consider "(k, p) \<in> set (b_prepared b)" | "pp_sending p"
      | oid a r where "op = PrepareReplied oid (b_epoch b) a r" by blast
    then show ?thesis using Cons.prems by cases (auto simp: begun_before_def)
  qed
  then have "\<forall>(k, p) \<in> set (b_prepared b'). pp_sending p" by auto
  moreover have "n < b_epoch b'" using native_step_grows(2) [OF st] Cons.prems(2) by simp
  moreover have "list_all (begun_before n) ops" using Cons.prems(3) by simp
  ultimately have "sent_serials (fst (native_run ops b')) = []" by (rule Cons.IH)
  moreover have "sent_serials rs = []" using st by (rule native_step_sends) (use Cons.prems(1) in auto)
  ultimately show ?case using st run by simp
qed simp

text \<open>
  Revocation is final. After the preparations are cancelled (control paused, policy narrowed,
  backend closing), whatever runs next, nothing prepared before is sent; and no semantic action at all is sent
  while the only preparations that complete were begun before the cancellation.
\<close>

theorem revoked_preparation_never_sent:
  "(\<forall>s \<in> set (sent_serials (fst (native_run ops (snd (cancel_prepared_actions b))))). b_serial b \<le> s)
   \<and> (list_all (begun_before (b_epoch b)) ops \<longrightarrow>
        sent_serials (fst (native_run ops (snd (cancel_prepared_actions b)))) = [])"
proof
  show "\<forall>s \<in> set (sent_serials (fst (native_run ops (snd (cancel_prepared_actions b))))). b_serial b \<le> s"
    by (rule native_run_after) (auto simp: cancel_prepared_actions_def)
  show "list_all (begun_before (b_epoch b)) ops \<longrightarrow>
        sent_serials (fst (native_run ops (snd (cancel_prepared_actions b)))) = []"
    using native_run_revoked [of "snd (cancel_prepared_actions b)" "b_epoch b" ops] by (auto simp: cancel_prepared_actions_def)
qed

lemma revoked_preparation_never_sent_witness:
  "sent_serials (fst (native_run [PrepareReplied 5 0 sample_action sample_token, ActSend 5 sample_action, ActSend 4 sample_action]
     (snd (cancel_prepared_actions (snd (native_run [PrepareReplied 4 0 sample_action sample_token] sample_backend)))))) = []"
proof -
  let ?b = "snd (native_run [PrepareReplied 4 0 sample_action sample_token] sample_backend)"
  have "b_epoch ?b = 0"
    by (auto simp: native_step_def prepare_reply_def sample_backend_def initial_backend_def Let_def split: sum.splits)
  then show ?thesis
    using revoked_preparation_never_sent [of "[PrepareReplied 5 0 sample_action sample_token, ActSend 5 sample_action,
      ActSend 4 sample_action]" ?b] by (simp add: begun_before_def)
qed

section \<open>Observations\<close>

text \<open>
  An observation reports its own target: a success means that the worker answered for exactly the asked
  application and window, that the application is owned, the sizes and scales are positive and the
  pointer's coordinates, rounded after scaling, are finite and not negative; a passive observation and a refused one
  leave the backend unchanged, and a committed one selects the observed target.
\<close>

theorem observation_is_scoped:
  assumes "observe_frame t fmt passive reply legacy b = (r, b')"
  shows "case r of
      Inl e \<Rightarrow> b' = b
    | Inr facts \<Rightarrow>
        (\<exists>frame. js_record reply = Inr frame \<and> getp frame ''appId'' = JStr (fst t) \<and> getp frame ''windowId'' = JStr (snd t))
        \<and> fst t \<in> set (b_apps b) \<and> 0 < fst (ff_size facts) \<and> 0 < snd (ff_size facts)
        \<and> 0 < fst (ff_scale facts) \<and> 0 < snd (ff_scale facts)
        \<and> (case ff_pointer facts of None \<Rightarrow> True | Some (x, y) \<Rightarrow> 0 \<le> x \<and> 0 \<le> y)
        \<and> (if passive then b' = b else b_selected b' = Some t \<and> b_size b' = ff_size facts \<and> snd t \<in> keys (b_windows b'))"
  using assms
proof (cases rule: observe_frame_cases)
  case (success frame facts owned v)
  have "snd t \<in> keys (b_windows (acknowledge_windows owned (fst t) b))"
    using success(4) by (auto simp: acknowledge_windows_def Let_def keys_fold_put)
  then show ?thesis using success(1,5,6,8) read_frame_facts [OF success(2)] by simp
qed simp

definition sample_frame :: jsval where
  "sample_frame = JObj [(''appId'', JStr (sample_id CHR ''a'')), (''windowId'', JStr (sample_id CHR ''1'')),
     (''mimeType'', JStr ''image/png''), (''image'', JStr ''iVBO''), (''width'', jint 400), (''height'', jint 300),
     (''surfaceWidth'', jint 800), (''surfaceHeight'', jint 600), (''pointer'', JObj [(''x'', jint 100), (''y'', jint 60)]),
     (''windows'', JArr [JObj [(''appId'', JStr (sample_id CHR ''a'')), (''windowId'', JStr (sample_id CHR ''1'')),
        (''title'', JStr ''Editor''), (''width'', jint 800), (''height'', jint 600)]])]"

definition sample_target :: target where
  "sample_target = (sample_id CHR ''a'', sample_id CHR ''1'')"

lemma sample_observed:
  "fst (observe_frame sample_target ImageFormat False sample_frame Undef sample_backend)
     = Inr \<lparr>ff_scale = (1 / 2, 1 / 2), ff_size = (400, 300), ff_pointer = Some (50, 30)\<rparr>"
  using double_of_int [of 50] double_of_int [of 30]
  by (simp add: observe_frame_def read_frame_def frame_pointer_def read_windows_def window_of_def sample_frame_def
    sample_target_def sample_backend_def initial_backend_def js_record_def as_object_def getp_def has_own_def
    hex_string_def is_lower_hex_def between_def code_def Let_def
    positive_finite_def number_of_def jint_def is_finite_num_def)

lemma observation_is_scoped_witness:
  "b_selected (snd (observe_frame sample_target ImageFormat False sample_frame Undef sample_backend)) = Some sample_target"
proof (cases "observe_frame sample_target ImageFormat False sample_frame Undef sample_backend")
  case (Pair r b')
  then show ?thesis using observation_is_scoped [OF Pair] sample_observed by simp
qed

section \<open>Starting and presenting\<close>

text \<open>
  Whatever a platform helper answers, an accepted handoff never reports the selected-window overlay:
  the second acknowledgement already demands the indicator \<open>not-qualified\<close>, so the branch that would
  report an overlay is unreachable.
\<close>

theorem overlay_never_reported:
  assumes "create_backend name platform h first claimed second = Inr (b, view)"
  shows "hv_indicator view = (if platform then Some NotQualified else None)"
  using assms by (rule create_backend_claim) auto

lemma overlay_never_reported_witness:
  "\<exists>view. create_backend ''linux'' False sample_selection (JObj [(''ready'', JBool True)]) sample_claim Undef
     = Inr (sample_backend, view) \<and> hv_indicator view = None"
  using sample_created overlay_never_reported [of "''linux''" False] by fastforce

text \<open>
  A failed display change is always classified. When nothing was dispatched the agent is told so
  (\<open>PRESENTATION_NOT_READY\<close>, unless the request itself or the platform is refused), and once the request
  has gone out every failure is \<open>PRESENTATION_UNCONFIRMED\<close> except the three refusals the worker makes
  before it changes the display; closing the worker badly makes a confirmed change unconfirmed.
\<close>

theorem present_failures_are_classified:
  assumes "present Linux False v (Ok ()) start reply ended = Inl e" and "parse_native_presentation Linux v = Inr p"
  shows "\<exists>o'. e = Orbit o' \<and>
    (if start \<noteq> Ok () then err_code o' = ''PRESENTATION_NOT_READY''
     else err_code o' = ''PRESENTATION_UNCONFIRMED'' \<or> err_code o' = ''INVALID_REQUEST'' \<and> isl reply = False
       \<or> reply = Inl e \<and> err_code o' \<in> set [''APPROVAL_REQUIRED'', ''NATIVE_INCOMPATIBLE'', ''PRESENTATION_NOT_READY''])"
proof -
  have body: "and_then (presentation_request False Present (Ok ()) start reply ended) (\<lambda>r. lift_orbit (present_reply p r)) = Inl e"
    using assms by (simp add: present_def platform_adapter_def lift_orbit_def)
  show ?thesis
  proof (cases start)
    case (Inl e')
    then show ?thesis using body by (auto simp: presentation_request_def not_started_def)
  next
    case start: (Inr u)
    show ?thesis
    proof (cases reply)
      case (Inl e')
      then show ?thesis using body start
        by (auto simp: presentation_request_def unconfirmed_def split: if_splits thrown.splits)
    next
      case (Inr r)
      show ?thesis
      proof (cases ended)
        case (Inl e')
        then show ?thesis using body start Inr by (auto simp: presentation_request_def unconfirmed_def)
      next
        case (Inr u')
        then have "lift_orbit (present_reply p r) = Inl e" using body start \<open>reply = Inr r\<close>
          by (simp add: presentation_request_def)
        then show ?thesis using start \<open>reply = Inr r\<close>
          by (cases "js_record r") (auto simp: lift_orbit_def present_reply_def js_record_def
            split: if_splits option.splits)
      qed
    qed
  qed
qed

definition sample_presentation :: jsval where
  "sample_presentation = JObj [(''workspace'', jint 4), (''monitor'', JStr ''DP-1'')]"

lemma present_failures_are_classified_witness:
  "\<exists>o'. present Linux False sample_presentation (Ok ()) (Ok ()) (Inl OtherError) (Ok ()) = Inl (Orbit o')
     \<and> err_code o' = ''PRESENTATION_UNCONFIRMED''"
proof -
  obtain p where p: "parse_native_presentation Linux sample_presentation = Inr p"
    by (simp add: parse_native_presentation_def sample_presentation_def js_record_def as_object_def only_keys_def getp_def
      class_string_def is_name_char_def is_word_dash_def is_word_char_def between_def code_def eval_nat_numeral
      parse_handoff_def int_between_def)
  have "\<exists>e. present Linux False sample_presentation (Ok ()) (Ok ()) (Inl OtherError) (Ok ()) = Inl e"
    using p by (simp add: present_def platform_adapter_def lift_orbit_def presentation_request_def)
  then show ?thesis using present_failures_are_classified [OF _ p, of "Ok ()" "Inl OtherError" "Ok ()"] by auto
qed

section \<open>Actions\<close>

lemma getp_with_index: "k \<noteq> ''index'' \<Longrightarrow> getp (with_index t fs) k = getp fs k"
  by (simp add: with_index_def getp_def)

lemma with_index_idem [simp]: "with_index t (with_index t fs) = with_index t fs"
  by (auto simp: with_index_def getp_def jint_def)

lemma semantic_problem_with_index [simp]: "semantic_problem t (with_index t fs) = semantic_problem t fs"
proof -
  have g: "getp (with_index t fs) ''ref'' = getp fs ''ref''" "getp (with_index t fs) ''text'' = getp fs ''text''"
    "getp (with_index t fs) ''value'' = getp fs ''value''" by (simp_all add: getp_with_index)
  show ?thesis unfolding semantic_problem_def with_index_idem g ..
qed

lemma only_keys_iff: "only_keys ks fs \<longleftrightarrow> keys fs \<subseteq> set ks"
  by (force simp: only_keys_def list_all_iff keys_def)

lemma keys_others: "keys (filter (\<lambda>(k, w). k \<noteq> x) fs) = keys fs - {x}"
  by (force simp: keys_def)

lemma keys_with_index: "keys (with_index t fs) \<subseteq> (if t = ''invoke-ref'' then insert ''index'' (keys fs) else keys fs)"
  by (auto simp: with_index_def)

lemma allowed_index: "map_of action_fields ''invoke-ref'' = Some allowed \<Longrightarrow> ''index'' \<in> set allowed"
  by (auto simp: action_fields_def)

lemma generated_id_Inr [simp]: "generated_id v = Inr s \<longleftrightarrow> hex_string 32 32 v \<and> s = str_of v"
  by (auto simp: generated_id_def)

lemma parse_target_Inr: "parse_target fs = Inr t \<longleftrightarrow> hex_string 32 32 (getp fs ''appId'') \<and> hex_string 32 32 (getp fs ''windowId'')
    \<and> t = (str_of (getp fs ''appId''), str_of (getp fs ''windowId''))"
  by (auto simp: parse_target_def and_then_Ok_iff)

text \<open>The acceptance conditions of the parser, collected.\<close>

definition action_accepted :: "string list option \<Rightarrow> string \<Rightarrow> string list \<Rightarrow> jsobj \<Rightarrow> bool" where
  "action_accepted caps t allowed fs \<longleftrightarrow> getp fs ''type'' = JStr t \<and> map_of action_fields t = Some allowed
     \<and> keys fs \<subseteq> insert ''type'' (set allowed) \<and> hex_string 32 32 (getp fs ''appId'')
     \<and> (''windowId'' \<in> set allowed \<longrightarrow> hex_string 32 32 (getp fs ''windowId''))
     \<and> (case caps of None \<Rightarrow> True | Some cs \<Rightarrow> t \<in> set cs) \<and> semantic_problem t fs = None"

lemma ids_accepted:
  "and_then (generated_id (getp fs ''appId'')) (\<lambda>a. if w then and_then (parse_target fs) (\<lambda>p. Ok ()) else Ok ()) = Inr u
     \<longleftrightarrow> hex_string 32 32 (getp fs ''appId'') \<and> (w \<longrightarrow> hex_string 32 32 (getp fs ''windowId''))"
  by (auto simp: and_then_Ok_iff parse_target_Inr)

lemma parse_action_cases:
  assumes "parse_action caps v = Inr a"
  obtains fs t allowed where "js_record v = Inr fs" "action_accepted caps t allowed fs" "a = with_index t fs"
proof (cases "js_record v")
  case (Inl e)
  then show ?thesis using assms by (simp add: parse_action_def)
next
  case (Inr fs)
  show ?thesis
  proof (cases "getp fs ''type''")
    case (JStr t)
    show ?thesis
    proof (cases "map_of action_fields t")
      case None
      then show ?thesis using assms Inr JStr by (simp add: parse_action_def Let_def split: if_splits)
    next
      case (Some allowed)
      let ?ids = "and_then (generated_id (getp fs ''appId'')) (\<lambda>a. if ''windowId'' \<in> set allowed
        then and_then (parse_target fs) (\<lambda>p. Ok ()) else Ok ())"
      have others: "only_keys allowed (filter (\<lambda>(k, w). k \<noteq> ''type'') fs)"
        using assms Inr JStr Some by (simp add: parse_action_def Let_def split: if_splits)
      obtain u where ids: "?ids = Inr u"
        using assms Inr JStr Some others by (cases ?ids) (simp_all add: parse_action_def Let_def)
      have caps: "\<not> (case caps of None \<Rightarrow> False | Some cs \<Rightarrow> t \<notin> set cs)"
        using assms Inr JStr Some others ids by (simp add: parse_action_def Let_def split: if_splits)
      have sem: "semantic_problem t fs = None" "a = with_index t fs"
        using assms Inr JStr Some others ids caps by (simp_all add: parse_action_def Let_def split: option.splits)
      have "action_accepted caps t allowed fs"
        using JStr Some others ids [unfolded ids_accepted] caps sem
        by (auto simp: action_accepted_def only_keys_iff keys_others split: option.splits)
      then show ?thesis using that Inr sem(2) by blast
    qed
  qed (use assms Inr in \<open>simp_all add: parse_action_def is_string_def\<close>)
qed

lemma parse_action_accepts:
  assumes "action_accepted caps t allowed fs"
  shows "parse_action caps (JObj fs) = Inr (with_index t fs)"
proof -
  have ids: "and_then (generated_id (getp fs ''appId'')) (\<lambda>a. if ''windowId'' \<in> set allowed
        then and_then (parse_target fs) (\<lambda>p. Ok ()) else Ok ()) = Inr ()"
    using assms unfolding ids_accepted action_accepted_def by blast
  have others: "only_keys allowed (filter (\<lambda>(k, w). k \<noteq> ''type'') fs)"
    using assms by (auto simp: action_accepted_def only_keys_iff keys_others)
  have caps: "\<not> (case caps of None \<Rightarrow> False | Some cs \<Rightarrow> t \<notin> set cs)"
    using assms by (auto simp: action_accepted_def split: option.splits)
  show ?thesis using assms ids others caps
    by (simp add: parse_action_def action_accepted_def js_record_def as_object_def Let_def)
qed

lemma accepted_with_index:
  assumes "action_accepted caps t allowed fs"
  shows "action_accepted caps t allowed (with_index t fs)"
  using assms keys_with_index [of t fs] allowed_index [of allowed]
  by (auto simp: action_accepted_def getp_with_index split: if_splits)

text \<open>
  An accepted action is of a known type with its own fields only, names its application (and, where
  the action has a window, its window) by generated ids, is among the acknowledged capabilities, and is a
  fixed point of the parser: preparing and sending an action see the same fingerprint.
\<close>

theorem accepted_action_is_canonical:
  assumes "parse_action caps v = Inr a"
  shows "\<exists>t allowed. getp a ''type'' = JStr t \<and> map_of action_fields t = Some allowed
    \<and> keys a \<subseteq> insert ''type'' (set allowed) \<and> hex_string 32 32 (getp a ''appId'')
    \<and> (''windowId'' \<in> set allowed \<longrightarrow> hex_string 32 32 (getp a ''windowId''))
    \<and> (case caps of None \<Rightarrow> True | Some cs \<Rightarrow> t \<in> set cs) \<and> parse_action caps (JObj a) = Inr a"
proof -
  from parse_action_cases [OF assms] obtain fs t allowed where acc: "action_accepted caps t allowed fs" and a: "a = with_index t fs" .
  from accepted_with_index [OF acc] have acc': "action_accepted caps t allowed a" by (simp add: a)
  from parse_action_accepts [OF acc'] have "parse_action caps (JObj a) = Inr a" by (simp add: a)
  then show ?thesis using acc' unfolding action_accepted_def by blast
qed

lemma getp_Cons: "getp ((k', v) # fs) k = (if k' = k then v else getp fs k)"
  by (simp add: getp_def)

lemma snapshot_ref_sample: "snapshot_ref (JStr (''@'' @ sample_id CHR ''0'' @ '':e7''))"
proof -
  have "length (sample_id CHR ''0'') = 32" "list_all is_lower_hex (sample_id CHR ''0'')"
    by (auto simp: sample_id_def list_all_iff is_lower_hex_def between_def code_def)
  then show ?thesis
    by (simp add: snapshot_ref_def Let_def is_string_def class_string_def between_def code_def)
qed

lemma sample_action_accepted: "action_accepted None ''invoke-ref'' [''appId'', ''windowId'', ''ref'', ''index''] sample_action"
proof -
  have "semantic_problem ''invoke-ref'' sample_action = None"
    using snapshot_ref_sample
    by (simp add: semantic_problem_def sample_action_def getp_Cons with_index_def is_semantic_def int_between_def)
  then show ?thesis
    by (simp add: action_accepted_def sample_action_def getp_Cons action_fields_def hex_string_def is_lower_hex_def
      between_def code_def)
qed

lemma sample_action_fixed: "with_index ''invoke-ref'' sample_action = sample_action"
  by (simp add: with_index_def sample_action_def getp_Cons jint_def)

lemma accepted_action_is_canonical_witness:
  "keys sample_action \<subseteq> {''type'', ''appId'', ''windowId'', ''ref'', ''index''}
     \<and> parse_action None (JObj sample_action) = Inr sample_action"
proof -
  have ok: "parse_action None (JObj sample_action) = Inr sample_action"
    using parse_action_accepts [OF sample_action_accepted] by (simp add: sample_action_fixed)
  have "getp sample_action ''type'' = JStr ''invoke-ref''" "map_of action_fields ''invoke-ref'' = Some [''appId'', ''windowId'', ''ref'', ''index'']"
    using sample_action_accepted by (simp_all add: action_accepted_def)
  then show ?thesis using accepted_action_is_canonical [OF ok] ok by auto
qed

end
