(* ===== verification/Advisor.thy ===== *)
theory Advisor
  imports Policy
begin

text \<open>
  The advisor of \<open>src/advisor.ts\<close>: a subprocess that answers an action the policy left open. What the
  process did is an argument; the decision made of it is the model. It always fails closed.
\<close>

text \<open>
  What happened to the process. \<open>AdvisorExited\<close> has the exit code, the parsed text (\<open>None\<close> when it is not
  JSON) and the JSON text of its \<open>decision\<close> field.
\<close>

datatype advisor_run =
    NoCommand
  | Unstartable string
  | NoAnswer
  | AdvisorExited int "jsval option" string
  | AdvisorBroke string

definition advisor_deadline :: "rat \<Rightarrow> rat" where
  "advisor_deadline timeout = min (max timeout 100) 30000"

definition advisor_deny :: "string \<Rightarrow> string \<Rightarrow> string \<Rightarrow> decision \<times> string" where
  "advisor_deny rid reason who = (Deny reason (Some rid) None, who)"

definition advisor_reason :: "jsobj \<Rightarrow> string" where
  "advisor_reason answer =
     (if is_string (getp answer ''reason'') \<and> js_trim (str_of (getp answer ''reason'')) \<noteq> []
      then take 300 (str_of (getp answer ''reason'')) else ''The advisor gave no reason.'')"

definition consult_answer :: "rat \<Rightarrow> string \<Rightarrow> advisor_run \<Rightarrow> decision \<times> string" where
  "consult_answer timeout rid process =
     (case process of
        NoCommand \<Rightarrow> advisor_deny rid ''The advisor has no command configured.'' ''advisor-misconfigured''
      | Unstartable e \<Rightarrow> advisor_deny rid (''The advisor could not be started: '' @ take 120 e) ''advisor-unstartable''
      | NoAnswer \<Rightarrow> advisor_deny rid
          (''The advisor did not answer within '' @ num_text (Fin (advisor_deadline timeout)) @ '' ms.'') ''advisor-timeout''
      | AdvisorExited co v shown \<Rightarrow>
          if co \<noteq> 0 then advisor_deny rid (''The advisor exited with code '' @ show_int co @ ''.'') ''advisor-failed''
          else (case v of
              None \<Rightarrow> advisor_deny rid (''The advisor'' @ [CHR 0x27] @ ''s answer was not JSON.'') ''advisor-unparsable''
            | Some w \<Rightarrow>
                (case as_object w of
                   None \<Rightarrow> advisor_deny rid (''The advisor'' @ [CHR 0x27] @ ''s answer was not an object.'') ''advisor-unparsable''
                 | Some answer \<Rightarrow>
                     if getp answer ''decision'' = JStr ''allow'' then (Allow, ''advisor-allowed'')
                     else if getp answer ''decision'' = JStr ''deny''
                     then advisor_deny rid (advisor_reason answer) ''advisor-denied''
                     else advisor_deny rid
                       (''The advisor answered '' @ take 40 shown @ '', which is neither allow nor deny.'') ''advisor-unparsable''))
      | AdvisorBroke e \<Rightarrow> advisor_deny rid (''The advisor failed: '' @ take 120 e) ''advisor-failed'')"

lemma advisor_deny_simps [simp]: "fst (advisor_deny rid r w) = Deny r (Some rid) None"
  by (simp add: advisor_deny_def)

lemma consult_no_immune: "immune_of (fst (consult_answer t rid process)) = None"
  by (auto simp: consult_answer_def split: advisor_run.split option.split)

text \<open>
  C15. The advisor fails closed: the only way to a permission is a process that exited with code 0 and
  printed a JSON object whose decision is exactly the string \<open>"allow"\<close>; everything else is a denial
  under the rule that asked, and never one of the immune set.
\<close>

theorem advisor_fails_closed:
  "(fst (consult_answer t rid process) = Allow \<longleftrightarrow>
      (\<exists>fs shown. process = AdvisorExited 0 (Some (JObj fs)) shown \<and> getp fs ''decision'' = JStr ''allow''))
   \<and> (fst (consult_answer t rid process) = Allow \<or> (\<exists>reason. fst (consult_answer t rid process) = Deny reason (Some rid) None))"
  by (cases process) (auto simp: consult_answer_def as_object_def getp_def split: option.splits jsval.splits)

end
