(* ===== verification/SessionModel.thy ===== *)
theory SessionModel
  imports Callers NativeActions Advisor
begin

text \<open>
  One session of the class \<open>Sessions\<close> of \<open>src/session.ts\<close>: its state and the synchronous parts of acting on
  it. A promise chain is a queue of numbered jobs; what the code awaits (the native backend, the advisor,
  the usage setting, a timer) is outside, asked by an effect and answered by an event. A policy object
  is identified by the number of times the session's policy was replaced. The journal file is not modelled,
  the journal in memory is.
\<close>

section \<open>State\<close>

datatype session_state = StRunning | StPausing | StPaused | StClosing | StClosed

record activity =
  ac_actor :: string
  ac_type :: string
  ac_state :: string
  ac_sequence :: nat

record batch_capture =
  bc_format :: "string option"
  bc_timeout :: int
  bc_quiet :: "int option"

datatype fingerprint = SinglePrint jsobj | BatchPrint "jsobj list" "batch_capture option"

text \<open>What one action of a job is waiting for.\<close>

datatype action_phase = InAdvisor nat decision | InUsage nat | InAct

text \<open>A receipt of a batch.\<close>

datatype receipt =
    Receipt_Ok nat string jsval
  | Receipt_Failed nat string string client_error
  | Receipt_Skipped nat string string

record batch_progress =
  bp_receipts :: "receipt list"
  bp_stopped :: "string option"
  bp_since :: "string option"

datatype capture_outcome = NoCapture | Captured jsval | CaptureExpired jsval | CaptureError client_error

record batch_result =
  br_ok :: bool
  br_completed :: nat
  br_receipts :: "receipt list"
  br_capture :: capture_outcome

datatype outcome = Done jsval | DoneBatch batch_result | Thrown thrown

datatype work =
    SingleWork jsobj "nat option"
  | BatchWork "jsobj list" "batch_capture option"
  | HumanWork jsval
  | RevealWork

datatype phase =
    Waiting
  | FirstUsage
  | Preparing nat
  | OnAction action_phase
  | Releasing outcome
  | Baselining
  | Settling batch_progress
  | BatchAction batch_progress action_phase
  | Capturing batch_progress
  | HumanActing
  | Revealing

record job =
  j_id :: nat
  j_request :: string
  j_work :: work
  j_phase :: phase

datatype pause_state = NotPaused | PauseQueued nat | PauseLeasing | Acknowledged

datatype close_state = NotClosing | ClosingBackend | ClosingTail nat | CloseSettled

record session =
  s_id :: string
  s_agent :: string
  s_task :: string
  s_conversation :: "string option"
  s_project :: "string option"
  s_owner :: string
  s_label :: string
  s_role :: role
  s_app :: string
  s_title :: string
  s_workspace :: int
  s_caps :: "string list option"
  s_lease :: string
  s_created :: int
  s_last :: int
  s_state :: session_state
  s_orphan :: "int option"
  s_grace :: bool
  s_forced :: bool
  s_pause :: pause_state
  s_close :: close_state
  s_timer :: bool
  s_resuming :: nat
  s_narrowing :: nat
  s_observing :: nat
  s_handback :: bool
  s_queue :: "job list"
  s_next :: nat
  s_requests :: "(string \<times> fingerprint \<times> nat) list"
  s_results :: "(nat \<times> outcome) list"
  s_policy :: policy
  s_version :: nat
  s_journal :: "journal_line list"
  s_tainted :: bool
  s_activity :: "activity option"

text \<open>What the broker asks of the world; an action carries its job and its place in the job.\<close>

datatype effect =
    BackendAct nat nat jsobj
  | BackendPrepare nat jsobj
  | BackendRelease nat jsobj
  | BackendRevoke
  | BackendControl jsval
  | BackendReveal
  | BackendBaseline string string
  | BackendObserve string string string "string option" int "int option"
  | BackendPause
  | BackendResume
  | BackendClose
  | CheckUsage string
  | AskAdvisor journal_line "journal_line list" string string
  | FocusWait
  | ReleaseLease string "string list"
  | Announce

text \<open>The clock: milliseconds, and their ISO text.\<close>

type_synonym clock = "int \<times> string"

section \<open>Journal, policy and activity\<close>

definition closed_error :: thrown where
  "closed_error = Orbit (plain_error ''SESSION_CLOSED'' ''Session is closed'')"

definition is_open :: "session \<Rightarrow> bool" where
  "is_open s \<longleftrightarrow> s_state s \<notin> {StClosing, StClosed}"

definition journal_limit :: nat where
  "journal_limit = 10000"

definition record_line :: "journal_line \<Rightarrow> session \<Rightarrow> session" where
  "record_line e s = (let j = s_journal s @ [e] in s\<lparr>s_journal := drop (length j - journal_limit) j\<rparr>)"

definition journal_of ::
  "clock \<Rightarrow> session \<Rightarrow> actor \<Rightarrow> string \<Rightarrow> decision \<Rightarrow> string option \<Rightarrow> nat option \<Rightarrow> string option \<Rightarrow> policy option \<Rightarrow> journal_line" where
  "journal_of c s who t d by len request after =
     journal_entry (\<lambda>u. None) \<lparr>ji_sequence = int (length (s_journal s)) + 1, ji_session = s_id s, ji_actor = who, ji_type = t,
       ji_decision = d, ji_url = None, ji_input_length = len, ji_decided_by = by, ji_at = Some (snd c), ji_request = request,
       ji_after = after\<rparr>"

text \<open>No native action has a destination or a method.\<close>

definition judge_native :: "policy \<Rightarrow> string \<Rightarrow> decision" where
  "judge_native p t = decide (\<lambda>u. None) p t None None False"

text \<open>Narrowing keeps the advisor, so the policy of now has the one that was asked.\<close>

definition advisor_timeout_of :: "policy \<Rightarrow> rat" where
  "advisor_timeout_of p = (case p_advisor p of None \<Rightarrow> 0 | Some a \<Rightarrow> adv_timeout a)"

definition action_type :: "jsobj \<Rightarrow> string" where
  "action_type a = str_of (getp a ''type'')"

definition set_policy :: "policy \<Rightarrow> session \<Rightarrow> session" where
  "set_policy p s = s\<lparr>s_policy := p, s_version := s_version s + 1\<rparr>"

definition track_begin :: "clock \<Rightarrow> string \<Rightarrow> string \<Rightarrow> session \<Rightarrow> session" where
  "track_begin c who t s = s\<lparr>s_activity := Some \<lparr>ac_actor = who, ac_type = t, ac_state = ''working'',
     ac_sequence = (case s_activity s of None \<Rightarrow> 0 | Some a \<Rightarrow> ac_sequence a) + 1\<rparr>, s_last := fst c\<rparr>"

definition track_end :: "clock \<Rightarrow> bool \<Rightarrow> session \<Rightarrow> session" where
  "track_end c ok s = s\<lparr>s_activity := map_option (\<lambda>a. a\<lparr>ac_state := if ok then ''done'' else ''failed''\<rparr>) (s_activity s),
     s_last := fst c\<rparr>"

definition tainted_by :: "string \<Rightarrow> session \<Rightarrow> session" where
  "tainted_by t s = (if t \<in> set [''observe'', ''windows'', ''state''] then s\<lparr>s_tainted := True\<rparr> else s)"

section \<open>Admission\<close>

definition refusal :: "string \<Rightarrow> string \<Rightarrow> thrown" where
  "refusal c m = Orbit (new_orbit_error c m None (Some (disposition_value refused_disposition)))"

definition read_only_classes :: "action_class list" where
  "read_only_classes = [ReadClass]"

text \<open>\<open>refuse\<close>: an immune denial also contains the session, before the line is written.\<close>

definition refuse ::
  "clock \<Rightarrow> string \<Rightarrow> nat option \<Rightarrow> string \<Rightarrow> decision \<Rightarrow> string option \<Rightarrow> session \<Rightarrow> thrown \<times> session" where
  "refuse c t len request d by s =
     (refusal ''POLICY_DENIED'' (case reason_of d of None \<Rightarrow> [] | Some r \<Rightarrow> r),
      case truthy_text (immune_of d) of
        None \<Rightarrow> record_line (journal_of c s Agent t d by len (Some request) None) s
      | Some i \<Rightarrow>
          (let s' = set_policy (narrow (s_policy s) None (Some read_only_classes)) s
           in record_line (journal_of c s' Agent t d by len (Some request) (Some (s_policy s'))) s'))"

datatype admission = Refused thrown | Later | RunNow | Consulting decision

definition admit ::
  "clock \<Rightarrow> jsobj \<Rightarrow> nat option \<Rightarrow> string \<Rightarrow> bool \<Rightarrow> session \<Rightarrow> admission \<times> session" where
  "admit c a len request at_dispatch s =
     (let t = action_type a; d = judge_native (s_policy s) t in
      case d of
        Deny r i m \<Rightarrow> (case refuse c t len request d None s of (e, s') \<Rightarrow> (Refused e, s'))
      | Ask r \<Rightarrow> (Refused (refusal ''POLICY_CONFIRMATION_REQUIRED'' r),
          record_line (journal_of c s Agent t d None len (Some request) None) s)
      | Allow \<Rightarrow>
          if at_dispatch then (RunNow, record_line (journal_of c s Agent t d None len (Some request) None) s)
          else (Later, s)
      | Consult r i \<Rightarrow> (if at_dispatch then Consulting d else Later, s))"

section \<open>One action at its turn\<close>

text \<open>An action is finished, or waits and has asked for something.\<close>

datatype progress = Finished "(thrown, jsval) result" | Pending action_phase

definition semantic_running :: "session \<Rightarrow> (thrown, unit) result" where
  "semantic_running s =
     (if \<not> is_open s then Err closed_error
      else if s_state s \<noteq> StRunning then Err (refusal ''PAUSED'' ''Session is paused or pausing'')
      else Ok ())"

text \<open>\<open>track\<close> around \<open>guarded\<close>, up to the first await.\<close>

definition start_guarded :: "clock \<Rightarrow> nat \<Rightarrow> nat \<Rightarrow> jsobj \<Rightarrow> session \<Rightarrow> progress \<times> effect list \<times> session" where
  "start_guarded c jid idx a s =
     (let s1 = track_begin c ''agent'' (action_type a) s in
      if \<not> is_open s1 then (Finished (Err closed_error), [], track_end c False s1)
      else if is_semantic (action_type a) then (Pending (InUsage (s_version s1)), [CheckUsage (s_owner s1)], s1)
      else (Pending InAct, [BackendAct jid idx a], s1))"

text \<open>\<open>admit(..., true)()\<close>: judged by the policy of this moment.\<close>

definition begin_action ::
  "clock \<Rightarrow> nat \<Rightarrow> nat \<Rightarrow> string \<Rightarrow> nat option \<Rightarrow> jsobj \<Rightarrow> session \<Rightarrow> progress \<times> effect list \<times> session" where
  "begin_action c jid idx request len a s =
     (case admit c a len request True s of
        (Refused e, s1) \<Rightarrow> (Finished (Err e), [], s1)
      | (Consulting d, s1) \<Rightarrow>
          (Pending (InAdvisor (s_version s1) d),
           [AskAdvisor ((journal_of c s1 Agent (action_type a) d None len None None)\<lparr>je_at := None\<rparr>) (drop (length (s_journal s1) - 20) (s_journal s1))
             (case reason_of d of None \<Rightarrow> [] | Some r \<Rightarrow> r) (case rule_of d of None \<Rightarrow> [] | Some i \<Rightarrow> i)], s1)
      | (nxt, s1) \<Rightarrow> start_guarded c jid idx a s1)"

text \<open>The advisor answered. \<open>v\<close> is the policy it judged.\<close>

definition advisor_answered ::
  "clock \<Rightarrow> nat \<Rightarrow> nat \<Rightarrow> string \<Rightarrow> nat option \<Rightarrow> jsobj \<Rightarrow> nat \<Rightarrow> decision \<Rightarrow> string \<Rightarrow> session
     \<Rightarrow> progress \<times> effect list \<times> session" where
  "advisor_answered c jid idx request len a v answer by s =
     (let t = action_type a; current = judge_native (s_policy s) t;
          deny = (\<lambda>d who. case refuse c t len request d who s of (e, s') \<Rightarrow> (Finished (Err e), [], s')) in
      if \<not> is_open s then (Finished (Err closed_error), [], s)
      else case current of
        Deny r i m \<Rightarrow> deny current None
      | Ask r \<Rightarrow> (Finished (Err (refusal ''POLICY_CONFIRMATION_REQUIRED'' r)), [],
          record_line (journal_of c s Agent t current None len (Some request) None) s)
      | _ \<Rightarrow>
          if s_version s \<noteq> v
          then deny (Deny ''Session policy changed while the advisor decision was pending'' None None) None
          else (case answer of
              Deny r i m \<Rightarrow> deny answer (Some by)
            | _ \<Rightarrow> start_guarded c jid idx a
                (record_line (journal_of c s Agent t answer (Some by) len (Some request) None) s)))"

text \<open>The usage setting answered; \<open>r\<close> is \<open>None\<close> when Orbit is enabled.\<close>

definition usage_answered ::
  "clock \<Rightarrow> nat \<Rightarrow> nat \<Rightarrow> jsobj \<Rightarrow> nat \<Rightarrow> thrown option \<Rightarrow> session \<Rightarrow> progress \<times> effect list \<times> session" where
  "usage_answered c jid idx a v r s =
     (let fail = (\<lambda>e. (Finished (Err e), [], track_end c False s)) in
      case r of
        Some e \<Rightarrow> fail e
      | None \<Rightarrow>
          (case semantic_running s of
             Inl e \<Rightarrow> fail e
           | Inr u \<Rightarrow>
               if s_version s \<noteq> v
               then fail (refusal ''POLICY_DENIED'' ''Session policy changed before semantic dispatch'')
               else (Pending InAct, [BackendAct jid idx a], s)))"

definition act_answered :: "clock \<Rightarrow> jsobj \<Rightarrow> (thrown, jsval) result \<Rightarrow> session \<Rightarrow> progress \<times> effect list \<times> session" where
  "act_answered c a r s =
     (case r of
        Inl e \<Rightarrow> (Finished (Err e), [], track_end c False s)
      | Inr v \<Rightarrow> (Finished (Ok v), [], track_end c True (tainted_by (action_type a) s)))"

end
