(* ===== verification/SessionActs.thy ===== *)
theory SessionActs
  imports SessionModel
begin

text \<open>
  The queue of a session (\<open>src/session.ts\<close>): what \<open>act\<close> and \<open>batch\<close> accept, and how the job at the head of
  the queue advances when what it awaits is answered. Only the head job runs; it leaves the queue with its
  outcome, and the next one starts by an event of its own.
\<close>

section \<open>Accepting a request\<close>

datatype ticket = NewJob nat | KnownJob nat

text \<open>\<open>"text" in action ? String(action.text ?? "").length : undefined\<close>; \<open>None\<close> when the conversion throws.\<close>

definition input_length :: "jsobj \<Rightarrow> nat option option" where
  "input_length a =
     (if \<not> has_own a ''text'' then Some None
      else (let v = getp a ''text'' in
        if v = Undef \<or> v = Null then Some (Some 0) else map_option (\<lambda>t. Some (length t)) (js_text v)))"

definition request_limit :: nat where
  "request_limit = 10000"

definition enqueue :: "string \<Rightarrow> fingerprint \<Rightarrow> work \<Rightarrow> session \<Rightarrow> ticket \<times> session" where
  "enqueue request fp w s =
     (NewJob (s_next s),
      s\<lparr>s_queue := s_queue s @ [\<lparr>j_id = s_next s, j_request = request, j_work = w, j_phase = Waiting\<rparr>],
        s_next := s_next s + 1, s_requests := s_requests s @ [(request, fp, s_next s)]\<rparr>)"

text \<open>The cached answer of a request id, or the refusal to start a new one.\<close>

definition known_request :: "string \<Rightarrow> fingerprint \<Rightarrow> session \<Rightarrow> (thrown, nat) result option" where
  "known_request request fp s =
     (case map_of (s_requests s) request of
        Some (fp', j) \<Rightarrow>
          Some (if fp' \<noteq> fp
            then Err (Orbit (plain_error ''REQUEST_CONFLICT'' ''Request ID already used with different arguments'')) else Ok j)
      | None \<Rightarrow>
          if s_state s \<noteq> StRunning then Some (Err (Orbit (plain_error ''PAUSED'' ''Session is paused or pausing'')))
          else if length (s_requests s) \<ge> request_limit
          then Some (Err (Orbit (plain_error ''LIMIT_REACHED'' ''Session action limit reached'')))
          else None)"

definition with_preflight :: "thrown \<Rightarrow> thrown" where
  "with_preflight e =
     (case e of
        Orbit x \<Rightarrow> Orbit (new_orbit_error (err_code x) (err_message x) (diagnostic_id x) (Some (disposition_value preflight_disposition)))
      | _ \<Rightarrow> e)"

definition act_single :: "clock \<Rightarrow> string \<Rightarrow> jsval \<Rightarrow> session \<Rightarrow> (thrown, ticket) result \<times> session" where
  "act_single c request v s =
     (case parse_action (s_caps s) v of
        Inl e \<Rightarrow> (Err (with_preflight e), s)
      | Inr a \<Rightarrow>
          (case known_request request (SinglePrint a) s of
             Some (Inl e) \<Rightarrow> (Err e, s)
           | Some (Inr j) \<Rightarrow> (Ok (KnownJob j), s)
           | None \<Rightarrow>
               (case input_length a of
                  None \<Rightarrow> (Err OtherError, s)
                | Some len \<Rightarrow>
                    (case admit c a len request False s of
                       (Refused e, s') \<Rightarrow> (Err e, s')
                     | (_, s') \<Rightarrow> (case enqueue request (SinglePrint a) (SingleWork a len) s' of (t, s'') \<Rightarrow> (Ok t, s''))))))"

section \<open>Accepting a batch\<close>

definition max_batch :: nat where
  "max_batch = 16"

definition batchable :: "string list" where
  "batchable = [''click'', ''text'', ''key'', ''move'', ''scroll'']"

definition optional_int :: "int \<Rightarrow> int \<Rightarrow> jsval \<Rightarrow> bool" where
  "optional_int lo hi v \<longleftrightarrow> v = Undef \<or> int_between lo hi v"

definition parse_capture :: "jsval \<Rightarrow> (orbit_error, batch_capture option) result" where
  "parse_capture v =
     (if v = Undef then Ok None
      else and_then (js_record v) (\<lambda>opts.
        let f = getp opts ''format'' in
        if \<not> only_keys [''format'', ''timeoutMs'', ''quietMs''] opts
           \<or> f \<notin> set [Undef, JStr ''image'', JStr ''text'', JStr ''both'']
           \<or> \<not> optional_int 100 3000 (getp opts ''timeoutMs'') \<or> \<not> optional_int 20 1000 (getp opts ''quietMs'')
        then Err (invalid_request ''capture accepts format image, text or both; timeoutMs from 100 to 3000; and quietMs from 20 to 1000'')
        else if f = JStr ''text'' \<and> has_own opts ''quietMs''
        then Err (invalid_request ''Text capture does not accept pixel-settle options'')
        else Ok (Some \<lparr>bc_format = (if f = JStr ''text'' \<or> f = JStr ''both'' then Some (str_of f) else None),
          bc_timeout = (if getp opts ''timeoutMs'' = Undef then 1500 else int_of_val (getp opts ''timeoutMs'')),
          bc_quiet = (if getp opts ''quietMs'' = Undef then None else Some (int_of_val (getp opts ''quietMs'')))\<rparr>)))"

definition same_window :: "jsobj \<Rightarrow> jsobj \<Rightarrow> bool" where
  "same_window a b \<longleftrightarrow> getp a ''appId'' = getp b ''appId'' \<and> getp a ''windowId'' = getp b ''windowId''"

fun check_batch :: "jsobj \<Rightarrow> jsobj list \<Rightarrow> (orbit_error, unit) result" where
  "check_batch first [] = Ok ()"
| "check_batch first (a # rest) =
     (if action_type a \<notin> set batchable
      then Err (invalid_request (take 40 (action_type a) @ '' cannot be batched or captured; send it alone''))
      else if \<not> same_window a first then Err (invalid_request ''A batch acts on one window'')
      else check_batch first rest)"

text \<open>Every action is judged once before any is delivered; the first that is not allowed refuses the batch.\<close>

fun admit_batch :: "clock \<Rightarrow> string \<Rightarrow> jsobj list \<Rightarrow> session \<Rightarrow> (thrown, unit) result \<times> session" where
  "admit_batch c request [] s = (Ok (), s)"
| "admit_batch c request (a # rest) s =
     (case judge_native (s_policy s) (action_type a) of
        Consult r i \<Rightarrow> (Err (Orbit (invalid_request ''This action needs an advisor decision; send it alone'')), s)
      | Allow \<Rightarrow> admit_batch c request rest s
      | _ \<Rightarrow> (case admit c a None request False s of
          (Refused e, s') \<Rightarrow> (Err e, s')
        | (_, s') \<Rightarrow> admit_batch c request rest s'))"

definition batch_actions :: "string list option \<Rightarrow> jsobj \<Rightarrow> (thrown, jsobj list) result" where
  "batch_actions caps input =
     (let one = getp input ''action''; many = getp input ''actions'' in
      if (one = Undef) = (many = Undef) then Err (Orbit (invalid_request ''Give exactly one of action or actions''))
      else (case (if many = Undef then JArr [one] else many) of
          JArr vs \<Rightarrow>
            if length vs < 1 \<or> length vs > max_batch
            then Err (Orbit (invalid_request ''actions must hold 1 to 16 native actions''))
            else and_then (map_result (parse_action caps) vs) (\<lambda>as.
              and_then (map_sum Orbit id (check_batch (hd as) as)) (\<lambda>u. Ok as))
        | _ \<Rightarrow> Err (Orbit (invalid_request ''actions must hold 1 to 16 native actions''))))"

definition act_batch :: "clock \<Rightarrow> string \<Rightarrow> jsobj \<Rightarrow> session \<Rightarrow> (thrown, ticket) result \<times> session" where
  "act_batch c request input s =
     (case and_then (batch_actions (s_caps s) input) (\<lambda>as.
             and_then (map_sum Orbit id (parse_capture (getp input ''capture''))) (\<lambda>cap. Ok (as, cap))) of
        Inl e \<Rightarrow> (Err e, s)
      | Inr (as, cap) \<Rightarrow>
          (case known_request request (BatchPrint as cap) s of
             Some (Inl e) \<Rightarrow> (Err e, s)
           | Some (Inr j) \<Rightarrow> (Ok (KnownJob j), s)
           | None \<Rightarrow>
               (case admit_batch c request as s of
                  (Inl e, s') \<Rightarrow> (Err e, s')
                | (Inr u, s') \<Rightarrow> (case enqueue request (BatchPrint as cap) (BatchWork as cap) s' of (t, s'') \<Rightarrow> (Ok t, s'')))))"

text \<open>\<open>act\<close>: the request as the adapter sent it.\<close>

definition act_request :: "clock \<Rightarrow> jsobj \<Rightarrow> session \<Rightarrow> (thrown, ticket) result \<times> session" where
  "act_request c input s =
     (if \<not> is_open s then (Err closed_error, s)
      else (case text_field (getp input ''requestId'') ''requestId'' of
          Inl e \<Rightarrow> (Err (Orbit e), s)
        | Inr request \<Rightarrow>
            if getp input ''actions'' \<noteq> Undef \<or> getp input ''capture'' \<noteq> Undef then act_batch c request input s
            else act_single c request (getp input ''action'') s))"

section \<open>Finishing a job\<close>

text \<open>The wrapper of \<open>enqueue\<close>: a closed session and a timeout replace the error.\<close>

definition settle_error :: "session \<Rightarrow> thrown \<Rightarrow> thrown" where
  "settle_error s e =
     (if \<not> is_open s then closed_error
      else if e = TimeoutError then Orbit (plain_error ''DEADLINE_EXCEEDED'' ''Native operation timed out'') else e)"

definition settled :: "session \<Rightarrow> outcome \<Rightarrow> outcome" where
  "settled s o' = (case o' of Thrown e \<Rightarrow> Thrown (settle_error s e) | _ \<Rightarrow> o')"

definition finish :: "job \<Rightarrow> outcome \<Rightarrow> session \<Rightarrow> session" where
  "finish j o' s = s\<lparr>s_queue := tl (s_queue s),
     s_results := s_results s @ [(j_id j, if j_work j = RevealWork then o' else settled s o')]\<rparr>"

definition outcome_of :: "(thrown, jsval) result \<Rightarrow> outcome" where
  "outcome_of r = (case r of Inl e \<Rightarrow> Thrown e | Inr v \<Rightarrow> Done v)"

definition wait_in :: "job \<Rightarrow> phase \<Rightarrow> session \<Rightarrow> session" where
  "wait_in j ph s = s\<lparr>s_queue := j\<lparr>j_phase := ph\<rparr> # tl (s_queue s)\<rparr>"

text \<open>What a replay of a batch sees: the receipts and the frame's metadata, never pixels or tree.\<close>

definition expire_capture :: "outcome \<Rightarrow> outcome" where
  "expire_capture o' =
     (case o' of
        DoneBatch r \<Rightarrow>
          (case br_capture r of
             Captured v \<Rightarrow>
               (case as_object v of
                  None \<Rightarrow> Thrown (Orbit (invalid_request ''Expected an object''))
                | Some fs \<Rightarrow> DoneBatch (r\<lparr>br_capture := CaptureExpired (JObj (put ''expired'' (JBool True)
                    (filter (\<lambda>(k, w). k \<notin> {''image'', ''tree''}) fs)))\<rparr>))
           | _ \<Rightarrow> o')
      | _ \<Rightarrow> o')"

definition replayed :: "nat \<Rightarrow> session \<Rightarrow> outcome option" where
  "replayed j s = map_option expire_capture (map_of (s_results s) j)"

end
