(* ===== verification/SessionJobs.thy ===== *)
theory SessionJobs
  imports SessionActs
begin

text \<open>
  How the head job of a session runs (\<open>src/session.ts\<close>: \<open>decided\<close>, \<open>runBatch\<close>, \<open>guarded\<close>, \<open>track\<close> and the
  human control): from its turn to its outcome, one answer at a time.
\<close>

section \<open>Answers\<close>

datatype answer =
    UsageIs "thrown option"
  | PreparedIs "thrown option"
  | AdvisorIs advisor_run
  | ActIs "(thrown, jsval) result"
  | ReleasedIs
  | BaselineIs "string option"
  | FocusSettled
  | ObservedIs "(thrown, jsval) result"

text \<open>The awaited part of one action, whatever job it belongs to; \<open>None\<close> when the answer is to another question.\<close>

definition action_answered ::
  "clock \<Rightarrow> nat \<Rightarrow> nat \<Rightarrow> string \<Rightarrow> nat option \<Rightarrow> jsobj \<Rightarrow> action_phase \<Rightarrow> answer \<Rightarrow> session
     \<Rightarrow> (progress \<times> effect list \<times> session) option" where
  "action_answered c jid idx request len a ph ans s =
     (case (ph, ans) of
        (InAdvisor v d, AdvisorIs process) \<Rightarrow>
          (case consult_answer (advisor_timeout_of (s_policy s)) (case rule_of d of None \<Rightarrow> [] | Some i \<Rightarrow> i) process of
             (answer, who) \<Rightarrow> Some (advisor_answered c jid idx request len a v answer who s))
      | (InUsage v, UsageIs r) \<Rightarrow> Some (usage_answered c jid idx a v r s)
      | (InAct, ActIs r) \<Rightarrow> Some (act_answered c a r s)
      | _ \<Rightarrow> None)"

section \<open>A single action\<close>

text \<open>A semantic action gives its preparation back before its outcome is known to anyone.\<close>

definition after_single ::
  "job \<Rightarrow> jsobj \<Rightarrow> progress \<times> effect list \<times> session \<Rightarrow> effect list \<times> session" where
  "after_single j a r =
     (case r of
        (Pending ph, es, s) \<Rightarrow> (es, wait_in j (OnAction ph) s)
      | (Finished v, es, s) \<Rightarrow>
          if is_semantic (action_type a)
          then (es @ [BackendRelease (j_id j) a], wait_in j (Releasing (outcome_of v)) s)
          else (es, finish j (outcome_of v) s))"

definition preparation_failed :: "thrown \<Rightarrow> thrown" where
  "preparation_failed e =
     (let metadata = Some (disposition_value
            \<lparr>delivery = NotDelivered, retry = RetryUnsafe, suggestion = ObserveBeforeRetry\<rparr>) in
      case e of
        Orbit x \<Rightarrow> Orbit (new_orbit_error (err_code x) (err_message x) (diagnostic_id x) metadata)
      | _ \<Rightarrow> Orbit (new_orbit_error ''BACKEND_ERROR'' ''Native semantic preparation failed before dispatch'' None metadata))"

definition start_single :: "clock \<Rightarrow> job \<Rightarrow> jsobj \<Rightarrow> nat option \<Rightarrow> session \<Rightarrow> effect list \<times> session" where
  "start_single c j a len s =
     (if is_semantic (action_type a)
      then (case semantic_running s of
          Inl e \<Rightarrow> ([], finish j (Thrown e) s)
        | Inr u \<Rightarrow> ([CheckUsage (s_owner s)], wait_in j FirstUsage s))
      else after_single j a (begin_action c (j_id j) 0 (j_request j) len a s))"

definition usage_checked :: "job \<Rightarrow> jsobj \<Rightarrow> thrown option \<Rightarrow> session \<Rightarrow> effect list \<times> session" where
  "usage_checked j a r s =
     (case r of
        Some e \<Rightarrow> ([], finish j (Thrown e) s)
      | None \<Rightarrow> ([BackendPrepare (j_id j) a], wait_in j (Preparing (s_version s)) s))"

text \<open>\<open>v\<close> is the policy the preparation was asked under.\<close>

definition prepared_answered ::
  "clock \<Rightarrow> job \<Rightarrow> jsobj \<Rightarrow> nat option \<Rightarrow> nat \<Rightarrow> thrown option \<Rightarrow> session \<Rightarrow> effect list \<times> session" where
  "prepared_answered c j a len v r s =
     (let release = (\<lambda>e. ([BackendRelease (j_id j) a], wait_in j (Releasing (Thrown e)) s)) in
      case r of
        Some e \<Rightarrow> release (preparation_failed e)
      | None \<Rightarrow>
          (case semantic_running s of
             Inl e \<Rightarrow> release e
           | Inr u \<Rightarrow>
               if s_version s \<noteq> v
               then release (refusal ''POLICY_DENIED'' ''Session policy changed during semantic preparation'')
               else after_single j a (begin_action c (j_id j) 0 (j_request j) len a s)))"

section \<open>A batch\<close>

definition uncertain_codes :: "string list" where
  "uncertain_codes = [''TIMEOUT'', ''DEADLINE_EXCEEDED'', ''BACKEND_ERROR'', ''NATIVE_FAILED'']"

definition failure_code :: "thrown \<Rightarrow> string" where
  "failure_code e = (case e of Orbit x \<Rightarrow> err_code x | TimeoutError \<Rightarrow> ''TIMEOUT'' | OtherError \<Rightarrow> ''BACKEND_ERROR'')"

definition failure_status :: "string \<Rightarrow> string" where
  "failure_status code' =
     (if starts_with code' ''POLICY_'' then ''refused'' else if code' \<in> set uncertain_codes then ''uncertain'' else ''failed'')"

definition push_receipt :: "receipt \<Rightarrow> batch_progress \<Rightarrow> batch_progress" where
  "push_receipt r bp = bp\<lparr>bp_receipts := bp_receipts bp @ [r]\<rparr>"

text \<open>How far one turn of the loop got: to the next action, to an await, or out of the loop with an error.\<close>

datatype loop_step = NextAction batch_progress | HaltIn phase | Abort thrown

text \<open>The turn of an action after the batch stopped.\<close>

definition skip_action :: "nat \<Rightarrow> string \<Rightarrow> string \<Rightarrow> batch_progress \<Rightarrow> batch_progress" where
  "skip_action idx t reason bp = push_receipt (Receipt_Skipped idx t reason) (bp\<lparr>bp_stopped := Some reason\<rparr>)"

text \<open>The receipt of an action that was delivered or failed.\<close>

definition settle_action :: "nat \<Rightarrow> string \<Rightarrow> (thrown, jsval) result \<Rightarrow> batch_progress \<Rightarrow> session \<Rightarrow> loop_step" where
  "settle_action idx t r bp s =
     (case r of
        Inr v \<Rightarrow> NextAction (push_receipt (Receipt_Ok idx t v) bp)
      | Inl e \<Rightarrow>
          if \<not> is_open s then Abort closed_error
          else (let co = failure_code e; status = failure_status co in
            NextAction (push_receipt (Receipt_Failed idx t status (error_payload (Some e) co ''Native action failed''))
              (bp\<lparr>bp_stopped := Some (if status = ''uncertain'' then ''PRIOR_UNCERTAIN'' else ''PRIOR_FAILED'')\<rparr>))))"

definition after_batch_action ::
  "nat \<Rightarrow> string \<Rightarrow> batch_progress \<Rightarrow> progress \<times> effect list \<times> session \<Rightarrow> effect list \<times> session \<times> loop_step" where
  "after_batch_action idx t bp r =
     (case r of
        (Pending ph, es, s) \<Rightarrow> (es, s, HaltIn (BatchAction bp ph))
      | (Finished v, es, s) \<Rightarrow> (es, s, settle_action idx t v bp s))"

text \<open>After the focus wait, if there was one.\<close>

definition try_action ::
  "clock \<Rightarrow> job \<Rightarrow> nat \<Rightarrow> jsobj \<Rightarrow> batch_progress \<Rightarrow> session \<Rightarrow> effect list \<times> session \<times> loop_step" where
  "try_action c j idx a bp s =
     (let t = action_type a in
      if \<not> is_open s then ([], s, Abort closed_error)
      else if s_state s \<noteq> StRunning then ([], s, NextAction (skip_action idx t ''PAUSED'' bp))
      else (case input_length a of
          None \<Rightarrow> ([], s, settle_action idx t (Err OtherError) bp s)
        | Some len \<Rightarrow> after_batch_action idx t bp (begin_action c (j_id j) idx (j_request j) len a s)))"

text \<open>One turn of the loop; \<open>prev\<close> is the action before.\<close>

definition batch_turn ::
  "clock \<Rightarrow> job \<Rightarrow> jsobj option \<Rightarrow> nat \<Rightarrow> jsobj \<Rightarrow> batch_progress \<Rightarrow> session \<Rightarrow> effect list \<times> session \<times> loop_step" where
  "batch_turn c j prev idx a bp s =
     (let stopped = (if bp_stopped bp = None \<and> s_state s \<noteq> StRunning then Some ''PAUSED'' else bp_stopped bp) in
      case stopped of
        Some reason \<Rightarrow> ([], s, NextAction (skip_action idx (action_type a) reason bp))
      | None \<Rightarrow>
          if map_option action_type prev = Some ''click'' \<and> action_type a \<in> set [''text'', ''key'']
          then ([FocusWait], s, HaltIn (Settling bp))
          else try_action c j idx a bp s)"

fun batch_loop ::
  "clock \<Rightarrow> job \<Rightarrow> jsobj option \<Rightarrow> nat \<Rightarrow> jsobj list \<Rightarrow> batch_progress \<Rightarrow> session \<Rightarrow> effect list \<times> session \<times> loop_step" where
  "batch_loop c j prev idx [] bp s = ([], s, NextAction bp)"
| "batch_loop c j prev idx (a # rest) bp s =
     (case batch_turn c j prev idx a bp s of
        (es, s', NextAction bp') \<Rightarrow>
          (case batch_loop c j (Some a) (Suc idx) rest bp' s' of (es', s'', st) \<Rightarrow> (es @ es', s'', st))
      | r \<Rightarrow> r)"

definition receipt_ok :: "receipt \<Rightarrow> bool" where
  "receipt_ok r = (case r of Receipt_Ok i t v \<Rightarrow> True | _ \<Rightarrow> False)"

definition receipt_skipped :: "receipt \<Rightarrow> bool" where
  "receipt_skipped r = (case r of Receipt_Skipped i t v \<Rightarrow> True | _ \<Rightarrow> False)"

definition batch_outcome :: "nat \<Rightarrow> batch_progress \<Rightarrow> capture_outcome \<Rightarrow> outcome" where
  "batch_outcome n bp cap =
     (let done_ok = length (filter receipt_ok (bp_receipts bp)) in
      DoneBatch \<lparr>br_ok = (done_ok = n), br_completed = done_ok, br_receipts = bp_receipts bp, br_capture = cap\<rparr>)"

text \<open>After the last action: the capture, decided by the policy of this moment.\<close>

definition end_batch ::
  "clock \<Rightarrow> job \<Rightarrow> jsobj list \<Rightarrow> batch_capture option \<Rightarrow> batch_progress \<Rightarrow> session \<Rightarrow> effect list \<times> session" where
  "end_batch c j as cap bp s =
     (let finished = (\<lambda>k. finish j (batch_outcome (length as) bp k)) in
      case cap of
        None \<Rightarrow> ([], finished NoCapture s)
      | Some k \<Rightarrow>
          if \<not> is_open s then ([], finish j (Thrown closed_error) s)
          else (let d = judge_native (s_policy s) ''observe'' in
            if d \<noteq> Allow
            then ([], finished (CaptureError (error_payload None ''POLICY_DENIED'' ''Observation is not allowed for this session''))
                   (record_line (journal_of c s Agent ''observe'' d None None (Some (j_request j)) (Some (s_policy s))) s))
            else if list_all receipt_skipped (bp_receipts bp)
            then ([], finished (CaptureError (error_payload None ''NOT_ATTEMPTED'' ''No action ran, so there is nothing new to capture'')) s)
            else ([BackendObserve (str_of (getp (hd as) ''appId'')) (str_of (getp (hd as) ''windowId''))
                     (case bc_format k of None \<Rightarrow> ''image'' | Some f \<Rightarrow> f) (bp_since bp) (bc_timeout k) (bc_quiet k)],
                  wait_in j (Capturing bp) s)))"

text \<open>What follows a run of the loop.\<close>

definition after_loop ::
  "clock \<Rightarrow> job \<Rightarrow> jsobj list \<Rightarrow> batch_capture option \<Rightarrow> effect list \<times> session \<times> loop_step \<Rightarrow> effect list \<times> session" where
  "after_loop c j as cap r =
     (case r of
        (es, s, HaltIn ph) \<Rightarrow> (es, wait_in j ph s)
      | (es, s, Abort e) \<Rightarrow> (es, finish j (Thrown e) s)
      | (es, s, NextAction bp) \<Rightarrow> (case end_batch c j as cap bp s of (es', s') \<Rightarrow> (es @ es', s')))"

text \<open>Going on after the action that has just been settled.\<close>

definition resume_loop ::
  "clock \<Rightarrow> job \<Rightarrow> jsobj list \<Rightarrow> batch_capture option \<Rightarrow> nat \<Rightarrow> effect list \<times> session \<times> loop_step \<Rightarrow> effect list \<times> session" where
  "resume_loop c j as cap idx r =
     after_loop c j as cap
       (case r of
          (es, s, NextAction bp) \<Rightarrow>
            (case batch_loop c j (Some (as ! idx)) (Suc idx) (drop (Suc idx) as) bp s of (es', s', st) \<Rightarrow> (es @ es', s', st))
        | other \<Rightarrow> other)"

definition run_actions ::
  "clock \<Rightarrow> job \<Rightarrow> jsobj list \<Rightarrow> batch_capture option \<Rightarrow> string option \<Rightarrow> session \<Rightarrow> effect list \<times> session" where
  "run_actions c j as cap since s =
     after_loop c j as cap (batch_loop c j None 0 as \<lparr>bp_receipts = [], bp_stopped = None, bp_since = since\<rparr> s)"

definition start_batch ::
  "clock \<Rightarrow> job \<Rightarrow> jsobj list \<Rightarrow> batch_capture option \<Rightarrow> session \<Rightarrow> effect list \<times> session" where
  "start_batch c j as cap s =
     (if (case cap of None \<Rightarrow> False | Some k \<Rightarrow> judge_native (s_policy s) ''observe'' = Allow \<and> bc_format k \<noteq> Some ''text'')
      then ([BackendBaseline (str_of (getp (hd as) ''appId'')) (str_of (getp (hd as) ''windowId''))], wait_in j Baselining s)
      else run_actions c j as cap None s)"

definition captured ::
  "clock \<Rightarrow> job \<Rightarrow> nat \<Rightarrow> batch_progress \<Rightarrow> (thrown, jsval) result \<Rightarrow> session \<Rightarrow> effect list \<times> session" where
  "captured c j n bp r s =
     (case r of
        Inr v \<Rightarrow>
          (let s1 = tainted_by ''observe'' s in
           ([], finish j (batch_outcome n bp (Captured v))
                  (record_line (journal_of c s1 Agent ''observe'' Allow None None None None) s1)))
      | Inl e \<Rightarrow>
          if \<not> is_open s then ([], finish j (Thrown closed_error) s)
          else ([], finish j (batch_outcome n bp
                  (CaptureError (error_payload (Some e) ''BACKEND_ERROR'' ''Capture failed; observe separately''))) s))"

section \<open>The turn of a job and its answers\<close>

text \<open>The type of a human input, \<open>String(record(params.input).type)\<close>.\<close>

definition human_type :: "jsval \<Rightarrow> (thrown, string) result" where
  "human_type v =
     (case js_record v of
        Inl e \<Rightarrow> Err (Orbit e)
      | Inr fs \<Rightarrow> (case js_text (getp fs ''type'') of None \<Rightarrow> Err OtherError | Some t \<Rightarrow> Ok t))"

definition begin_job :: "clock \<Rightarrow> session \<Rightarrow> effect list \<times> session" where
  "begin_job c s =
     (case s_queue s of
        [] \<Rightarrow> ([], s)
      | j # js \<Rightarrow>
          if j_phase j \<noteq> Waiting then ([], s)
          else if \<not> is_open s then ([], finish j (Thrown closed_error) s)
          else (case j_work j of
              SingleWork a len \<Rightarrow> start_single c j a len s
            | BatchWork as cap \<Rightarrow> start_batch c j as cap s
            | HumanWork v \<Rightarrow>
                (case human_type v of
                   Inl e \<Rightarrow> ([], finish j (Thrown e) s)
                 | Inr t \<Rightarrow> ([BackendControl v], wait_in j HumanActing (track_begin c ''human'' t s)))
            | RevealWork \<Rightarrow> ([BackendReveal], wait_in j Revealing s)))"

definition single_answered :: "clock \<Rightarrow> job \<Rightarrow> jsobj \<Rightarrow> nat option \<Rightarrow> answer \<Rightarrow> session \<Rightarrow> effect list \<times> session" where
  "single_answered c j a len ans s =
     (case (j_phase j, ans) of
        (FirstUsage, UsageIs r) \<Rightarrow> usage_checked j a r s
      | (Preparing v, PreparedIs r) \<Rightarrow> prepared_answered c j a len v r s
      | (OnAction ph, _) \<Rightarrow>
          (case action_answered c (j_id j) 0 (j_request j) len a ph ans s of None \<Rightarrow> ([], s) | Some r \<Rightarrow> after_single j a r)
      | (Releasing o', ReleasedIs) \<Rightarrow> ([], finish j o' s)
      | _ \<Rightarrow> ([], s))"

definition batch_answered ::
  "clock \<Rightarrow> job \<Rightarrow> jsobj list \<Rightarrow> batch_capture option \<Rightarrow> answer \<Rightarrow> session \<Rightarrow> effect list \<times> session" where
  "batch_answered c j as cap ans s =
     (case (j_phase j, ans) of
        (Baselining, BaselineIs d) \<Rightarrow> run_actions c j as cap d s
      | (Settling bp, FocusSettled) \<Rightarrow>
          (let idx = length (bp_receipts bp) in resume_loop c j as cap idx (try_action c j idx (as ! idx) bp s))
      | (BatchAction bp ph, _) \<Rightarrow>
          (let idx = length (bp_receipts bp); a = as ! idx in
           case action_answered c (j_id j) idx (j_request j) (case input_length a of None \<Rightarrow> None | Some l \<Rightarrow> l) a ph ans s of
             None \<Rightarrow> ([], s)
           | Some r \<Rightarrow> resume_loop c j as cap idx (after_batch_action idx (action_type a) bp r))
      | (Capturing bp, ObservedIs r) \<Rightarrow> captured c j (length as) bp r s
      | _ \<Rightarrow> ([], s))"

definition answer_job :: "clock \<Rightarrow> answer \<Rightarrow> session \<Rightarrow> effect list \<times> session" where
  "answer_job c ans s =
     (case s_queue s of
        [] \<Rightarrow> ([], s)
      | j # js \<Rightarrow>
          (case j_work j of
             SingleWork a len \<Rightarrow> single_answered c j a len ans s
           | BatchWork as cap \<Rightarrow> batch_answered c j as cap ans s
           | HumanWork v \<Rightarrow>
               (case (j_phase j, ans) of
                  (HumanActing, ActIs r) \<Rightarrow>
                    (case r of
                       Inl e \<Rightarrow> ([], finish j (Thrown e) (track_end c False s))
                     | Inr w \<Rightarrow> ([], finish j (Done w) (track_end c True s)))
                | _ \<Rightarrow> ([], s))
           | RevealWork \<Rightarrow>
               (case (j_phase j, ans) of (Revealing, ActIs r) \<Rightarrow> ([], finish j (outcome_of r) s) | _ \<Rightarrow> ([], s))))"

end
