(* ===== verification/SessionLife.thy ===== *)
theory SessionLife
  imports SessionJobs
begin

text \<open>
  The life of a session (\<open>src/session.ts\<close>): pausing, resuming, narrowing, observing, stopping with its
  deadline, and the disappearance of its owner's adapter; then all of it as one step function. Read
  views are absent, as in production. A counter says how many requests of a kind are unanswered.
\<close>

section \<open>Pausing and resuming\<close>

datatype pause_answer = PauseAwaited | PauseKnown

definition pause_session :: "session \<Rightarrow> pause_answer \<times> session" where
  "pause_session s =
     (case s_pause s of
        NotPaused \<Rightarrow> (PauseAwaited, s\<lparr>s_state := StPausing, s_pause := PauseQueued (s_next s)\<rparr>)
      | Acknowledged \<Rightarrow> (PauseKnown, s)
      | _ \<Rightarrow> (PauseAwaited, s))"

definition pause_call :: "session \<Rightarrow> (thrown, pause_answer) result \<times> session" where
  "pause_call s = (if \<not> is_open s then (Err closed_error, s) else (case pause_session s of (r, s') \<Rightarrow> (Ok r, s')))"

text \<open>All jobs queued before the pause have left.\<close>

definition drained :: "nat \<Rightarrow> session \<Rightarrow> bool" where
  "drained n s \<longleftrightarrow> list_all (\<lambda>j. n \<le> j_id j) (s_queue s)"

definition pause_turn :: "session \<Rightarrow> effect list \<times> session" where
  "pause_turn s =
     (case s_pause s of
        PauseQueued n \<Rightarrow>
          if \<not> drained n s then ([], s)
          else if \<not> is_open s then ([], s\<lparr>s_pause := NotPaused\<rparr>)
          else ([BackendPause], s\<lparr>s_pause := PauseLeasing\<rparr>)
      | _ \<Rightarrow> ([], s))"

definition pause_leased :: "thrown option \<Rightarrow> session \<Rightarrow> session" where
  "pause_leased r s =
     (if s_pause s \<noteq> PauseLeasing then s
      else if r \<noteq> None \<or> \<not> is_open s then s\<lparr>s_pause := NotPaused\<rparr>
      else s\<lparr>s_pause := Acknowledged, s_state := StPaused\<rparr>)"

definition resume_call :: "session \<Rightarrow> (thrown, unit) result \<times> effect list \<times> session" where
  "resume_call s =
     (if \<not> is_open s then (Err closed_error, [], s)
      else if s_state s = StPausing
      then (Err (Orbit (plain_error ''PAUSED'' ''Wait for pause acknowledgement before resuming'')), [], s)
      else (Ok (), [BackendResume], s\<lparr>s_resuming := s_resuming s + 1\<rparr>))"

definition resume_replied :: "thrown option \<Rightarrow> session \<Rightarrow> (thrown, unit) result \<times> session" where
  "resume_replied r s0 =
     (let s = s0\<lparr>s_resuming := s_resuming s0 - 1\<rparr> in
      if s_resuming s0 = 0 then (Ok (), s0)
      else (case r of
          Some e \<Rightarrow> (Err e, s)
        | None \<Rightarrow>
            if \<not> is_open s then (Err closed_error, s)
            else if s_state s = StPausing
            then (Err (Orbit (plain_error ''PAUSED'' ''A newer pause is awaiting acknowledgement'')), s)
            else (Ok (), s\<lparr>s_state := StRunning, s_pause := NotPaused\<rparr>)))"

section \<open>Narrowing, control, reveal, observation\<close>

definition narrow_call :: "jsobj \<Rightarrow> session \<Rightarrow> (thrown, unit) result \<times> effect list \<times> session" where
  "narrow_call params s =
     (if getp params ''origins'' \<noteq> Undef
      then (Err (Orbit (plain_error ''UNSUPPORTED''
        ''Native network origin enforcement is not implemented; narrow action classes instead'')), [], s)
      else if getp params ''allow'' = Undef
      then (Err (Orbit (invalid_request ''Narrowing needs origins, allow, or both'')), [], s)
      else (case parse_action_classes ''allow'' (getp params ''allow'') of
          Inl e \<Rightarrow> (Err (Orbit e), [], s)
        | Inr cs \<Rightarrow>
            (Ok (), [BackendRevoke], (set_policy (narrow (s_policy s) None (Some cs)) s)\<lparr>s_narrowing := s_narrowing s + 1\<rparr>)))"

definition narrow_done :: "clock \<Rightarrow> session \<Rightarrow> session" where
  "narrow_done c s =
     (if s_narrowing s = 0 then s
      else record_line (journal_of c s Person ''session.narrow'' Allow None None None (Some (s_policy s)))
             (s\<lparr>s_narrowing := s_narrowing s - 1\<rparr>))"

definition enqueue_plain :: "work \<Rightarrow> session \<Rightarrow> session" where
  "enqueue_plain w s = s\<lparr>s_queue := s_queue s @ [\<lparr>j_id = s_next s, j_request = [], j_work = w, j_phase = Waiting\<rparr>],
     s_next := s_next s + 1\<rparr>"

definition control_call :: "jsval \<Rightarrow> session \<Rightarrow> (thrown, nat) result \<times> session" where
  "control_call v s =
     (if \<not> is_open s then (Err closed_error, s)
      else if s_state s \<noteq> StPaused
      then (Err (Orbit (plain_error ''NOT_PAUSED'' ''Pause and wait for acknowledgement before manual input'')), s)
      else (Ok (s_next s), enqueue_plain (HumanWork v) s))"

text \<open>Only the verified owner may have a window shown on the desktop.\<close>

definition reveal_call :: "caller \<Rightarrow> jsobj \<Rightarrow> session \<Rightarrow> (thrown, nat) result \<times> session" where
  "reveal_call who params s =
     (if \<not> c_verified who \<or> c_role who \<noteq> OwnerRole
      then (Err (Orbit (plain_error ''APPROVAL_REQUIRED'' ''Only an explicit owner session selection may navigate the desktop'')), s)
      else if \<not> only_keys [''sessionId''] params
      then (Err (Orbit (invalid_request ''Owner navigation requires only a session identity'')), s)
      else if \<not> is_open s then (Err closed_error, s)
      else (Ok (s_next s), enqueue_plain RevealWork s))"

definition selector_keys :: "string list" where
  "selector_keys = [''refs'', ''skeleton'', ''root'']"

text \<open>What an observation asks of the backend: the explicit target with its selectors, and the format.\<close>

definition observe_call :: "clock \<Rightarrow> jsobj \<Rightarrow> session \<Rightarrow> (thrown, jsobj option \<times> jsval) result \<times> session" where
  "observe_call c params s =
     (let d = judge_native (s_policy s) ''observe''; f = getp params ''format'';
          app = getp params ''appId''; win = getp params ''windowId'' in
      if \<not> is_open s then (Err closed_error, s)
      else case d of
        Deny r i m \<Rightarrow> (Err (Orbit (plain_error ''POLICY_DENIED'' r)),
          record_line (journal_of c s Agent ''observe'' d None None None (Some (s_policy s))) s)
      | _ \<Rightarrow>
          if \<not> only_keys ([''sessionId'', ''appId'', ''windowId'', ''format''] @ selector_keys) params
          then (Err (Orbit (invalid_request ''Unknown native observation fields'')), s)
          else if f \<noteq> Undef \<and> js_text f = None then (Err OtherError, s)
          else if f \<noteq> Undef \<and> js_text f \<notin> Some ` set [''image'', ''text'', ''both'']
          then (Err (Orbit (invalid_request ''Observation format must be image, text or both'')), s)
          else if list_ex (has_own params) selector_keys \<and> (app = Undef \<or> win = Undef)
          then (Err (Orbit (invalid_request ''Snapshot selectors require an explicit native window'')), s)
          else (Ok (if app = Undef \<and> win = Undef then None
                    else Some ([(''appId'', app), (''windowId'', win)]
                      @ map (\<lambda>k. (k, getp params k)) (filter (has_own params) selector_keys)), f),
                s\<lparr>s_observing := s_observing s + 1\<rparr>))"

definition observe_replied :: "(thrown, jsval) result \<Rightarrow> session \<Rightarrow> session" where
  "observe_replied r s0 =
     (let s = s0\<lparr>s_observing := s_observing s0 - 1\<rparr> in
      if s_observing s0 = 0 then s0
      else (case r of Inl e \<Rightarrow> s | Inr v \<Rightarrow> tainted_by ''observe'' s))"

section \<open>Stopping\<close>

definition stop_call :: "session \<Rightarrow> effect list \<times> session" where
  "stop_call s =
     (if s_close s \<noteq> NotClosing \<or> s_state s = StClosed then ([], s)
      else ([BackendClose], s\<lparr>s_grace := False, s_state := StClosing, s_close := ClosingBackend, s_timer := True\<rparr>))"

text \<open>\<open>backend.close()\<close> ended; a failure forgets the attempt, and its deadline.\<close>

definition close_replied :: "thrown option \<Rightarrow> session \<Rightarrow> session" where
  "close_replied r s =
     (if s_close s \<noteq> ClosingBackend then s
      else if r \<noteq> None then s\<lparr>s_close := NotClosing, s_timer := False\<rparr>
      else s\<lparr>s_close := ClosingTail (s_next s)\<rparr>)"

definition tail_drained :: "clock \<Rightarrow> session \<Rightarrow> effect list \<times> session" where
  "tail_drained c s =
     (case s_close s of
        ClosingTail n \<Rightarrow>
          if \<not> drained n s then ([], s)
          else if s_forced s then ([], s\<lparr>s_close := CloseSettled, s_timer := False\<rparr>)
          else ([Announce], s\<lparr>s_close := CloseSettled, s_timer := False, s_state := StClosed, s_last := fst c\<rparr>)
      | _ \<Rightarrow> ([], s))"

text \<open>\<open>live\<close>: the plugin leases of the other open sessions.\<close>

definition close_deadline :: "clock \<Rightarrow> string list \<Rightarrow> session \<Rightarrow> effect list \<times> session" where
  "close_deadline c live s =
     (if \<not> s_timer s then ([], s)
      else if s_state s = StClosed then ([], s\<lparr>s_timer := False\<rparr>)
      else (if s_app s = [] then [] else [ReleaseLease (s_app s) live],
            s\<lparr>s_timer := False, s_forced := True, s_state := StClosed, s_last := fst c, s_handback := True\<rparr>))"

definition handback_done :: "clock \<Rightarrow> string \<Rightarrow> session \<Rightarrow> effect list \<times> session" where
  "handback_done c result s =
     (if \<not> s_handback s then ([], s)
      else ([Announce], record_line (journal_of c s Person ''session.forced-close'' Allow (Some result) None None None)
              (s\<lparr>s_handback := False\<rparr>)))"

section \<open>The owner's adapter\<close>

text \<open>\<open>g\<close> is the grace period in seconds.\<close>

definition owner_gone :: "clock \<Rightarrow> rat \<Rightarrow> session \<Rightarrow> session" where
  "owner_gone c g s =
     (if \<not> is_open s \<or> s_orphan s \<noteq> None then s
      else snd (pause_session (record_line
        (journal_of c s Person ''session.owner-gone'' Allow
          (Some (s_label s @ ''; stops in '' @ show_int \<lfloor>g + 1 / 2\<rfloor> @ '' s'')) None None None)
        (s\<lparr>s_orphan := Some (fst c), s_grace := True\<rparr>))))"

definition owner_back :: "session \<Rightarrow> session" where
  "owner_back s = (if s_orphan s = None then s else s\<lparr>s_orphan := None, s_grace := False\<rparr>)"

definition grace_over :: "session \<Rightarrow> effect list \<times> session" where
  "grace_over s = (if s_grace s then stop_call (s\<lparr>s_grace := False\<rparr>) else ([], s))"

section \<open>One step\<close>

datatype session_event =
    ActCall jsobj
  | BeginJob
  | Answer answer
  | PauseCall
  | PauseTurn
  | PauseLeased "thrown option"
  | ResumeCall
  | ResumeReplied "thrown option"
  | NarrowCall jsobj
  | NarrowDone
  | ControlCall jsval
  | RevealCall caller jsobj
  | ObserveCall jsobj
  | ObserveReplied "(thrown, jsval) result"
  | StopCall
  | CloseReplied "thrown option"
  | TailDrained
  | CloseDeadline "string list"
  | HandbackDone string
  | OwnerGone rat
  | OwnerBack
  | GraceOver

definition session_step :: "clock \<Rightarrow> session_event \<Rightarrow> session \<Rightarrow> effect list \<times> session" where
  "session_step c e s =
     (case e of
        ActCall input \<Rightarrow> ([], snd (act_request c input s))
      | BeginJob \<Rightarrow> begin_job c s
      | Answer ans \<Rightarrow> answer_job c ans s
      | PauseCall \<Rightarrow> ([], snd (pause_call s))
      | PauseTurn \<Rightarrow> pause_turn s
      | PauseLeased r \<Rightarrow> ([], pause_leased r s)
      | ResumeCall \<Rightarrow> snd (resume_call s)
      | ResumeReplied r \<Rightarrow> ([], snd (resume_replied r s))
      | NarrowCall params \<Rightarrow> snd (narrow_call params s)
      | NarrowDone \<Rightarrow> ([], narrow_done c s)
      | ControlCall v \<Rightarrow> ([], snd (control_call v s))
      | RevealCall who params \<Rightarrow> ([], snd (reveal_call who params s))
      | ObserveCall params \<Rightarrow> ([], snd (observe_call c params s))
      | ObserveReplied r \<Rightarrow> ([], observe_replied r s)
      | StopCall \<Rightarrow> stop_call s
      | CloseReplied r \<Rightarrow> ([], close_replied r s)
      | TailDrained \<Rightarrow> tail_drained c s
      | CloseDeadline live \<Rightarrow> close_deadline c live s
      | HandbackDone result \<Rightarrow> handback_done c result s
      | OwnerGone g \<Rightarrow> ([], owner_gone c g s)
      | OwnerBack \<Rightarrow> ([], owner_back s)
      | GraceOver \<Rightarrow> grace_over s)"

fun session_run :: "(clock \<times> session_event) list \<Rightarrow> session \<Rightarrow> effect list \<times> session" where
  "session_run [] s = ([], s)"
| "session_run ((c, e) # es) s =
     (case session_step c e s of (xs, s1) \<Rightarrow> (case session_run es s1 of (ys, s2) \<Rightarrow> (xs @ ys, s2)))"

end
