(* ===== verification/SessionStart.thy ===== *)
theory SessionStart
  imports SessionLife NativeStart
begin

text \<open>
  A session as \<open>claim\<close> of \<open>src/session.ts\<close> starts it, from the backend and the view of an accepted handoff.
\<close>

record session_names =
  sn_agent :: string
  sn_task :: string
  sn_conversation :: "string option"
  sn_project :: "string option"
  sn_policy :: policy

text \<open>The title of the selected window, \<open>application\<close>.\<close>

definition application_title :: "handoff_view \<Rightarrow> string" where
  "application_title h =
     (case find (\<lambda>w. w_id w = hv_selected h) (hv_windows h) of None \<Rightarrow> ''application'' | Some w \<Rightarrow> w_title w)"

definition new_session ::
  "clock \<Rightarrow> string \<Rightarrow> string \<Rightarrow> backend \<Rightarrow> handoff_view \<Rightarrow> session_names \<Rightarrow> caller \<Rightarrow> session" where
  "new_session c sid lease b h n who =
     (let s = \<lparr>s_id = sid, s_agent = sn_agent n, s_task = sn_task n, s_conversation = sn_conversation n,
        s_project = sn_project n, s_owner = c_id who, s_label = c_label who, s_role = c_role who,
        s_app = hv_app h, s_title = application_title h, s_workspace = hv_workspace h, s_caps = action_caps b,
        s_lease = lease, s_created = fst c, s_last = fst c, s_state = StRunning, s_orphan = None, s_grace = False,
        s_forced = False, s_pause = NotPaused, s_close = NotClosing, s_timer = False, s_resuming = 0,
        s_narrowing = 0, s_observing = 0, s_handback = False, s_queue = [], s_next = 0, s_requests = [],
        s_results = [], s_policy = sn_policy n, s_version = 0, s_journal = [], s_tainted = False,
        s_activity = None\<rparr>
      in record_line (journal_of c s Agent ''session.create'' Allow (Some (''owner:'' @ c_label who)) None None None) s)"

end
