(* ===== verification/Broker.thy ===== *)
theory Broker
  imports SessionStart Arbitration
begin

text \<open>
  The broker of \<open>src/session.ts\<close> above its sessions: the session table, who may touch which session,
  and the creation of sessions with its limit, its update lease and its waiting line. Each \<open>await\<close> splits an
  operation into steps that may interleave; an operation is known by a number, its place in \<open>creating\<close>.
\<close>

section \<open>State\<close>

text \<open>What the broker is given: the platform, the parsers of the policy, and the native options.\<close>

record broker_config =
  bc_os :: platform
  bc_urls :: url_parser
  bc_number :: "string \<Rightarrow> jnum"
  bc_absolute :: "string \<Rightarrow> bool"
  bc_native :: bool
  bc_pool :: "nat \<times> nat"

text \<open>A retry is the same when caller and request are; the pair stands for the JSON text of the tuple.\<close>

type_synonym operation_key = "string \<times> string"

record create_plan =
  cp_handoff :: handoff_selection
  cp_wait :: int
  cp_names :: session_names
  cp_key :: string
  cp_profile :: jsval

datatype create_stage = Entered jsobj | InLine create_plan int | Claiming create_plan int string

datatype operation =
    Creating caller create_stage
  | Opening operation_key caller bool native_open "nat option"
  | Presenting operation_key presentation bool
  | ListingMonitors bool

datatype op_result = Awaited | Settled "(thrown, jsval) result"

record opened_window =
  ow_caller :: string
  ow_label :: string
  ow_workspace :: nat
  ow_at :: int

record broker =
  br_sessions :: "(string \<times> session) list"
  br_leases :: "string list"
  br_creating :: "(nat \<times> operation) list"
  br_serial :: nat
  br_update :: "(string \<times> int) option"
  br_stopping :: bool
  br_line :: queues
  br_opens :: "(operation_key \<times> (bool \<times> native_open) \<times> op_result) list"
  br_presents :: "(operation_key \<times> presentation \<times> op_result option) list"
  br_opened :: "opened_window list"
  br_allocations :: "(operation_key \<times> nat) list"

definition new_broker :: broker where
  "new_broker = \<lparr>br_sessions = [], br_leases = [], br_creating = [], br_serial = 0, br_update = None, br_stopping = False,
     br_line = [], br_opens = [], br_presents = [], br_opened = [], br_allocations = []\<rparr>"

section \<open>The session table\<close>

definition get_session :: "jsval \<Rightarrow> broker \<Rightarrow> (orbit_error, session) result" where
  "get_session v b =
     and_then (text_field v ''sessionId'') (\<lambda>sid.
       case map_of (br_sessions b) sid of
         None \<Rightarrow> Err (plain_error ''SESSION_NOT_FOUND'' ''Unknown session'')
       | Some s \<Rightarrow> Ok s)"

definition state_text :: "session_state \<Rightarrow> string" where
  "state_text st = (case st of StRunning \<Rightarrow> ''running'' | StPausing \<Rightarrow> ''pausing'' | StPaused \<Rightarrow> ''paused''
     | StClosing \<Rightarrow> ''closing'' | StClosed \<Rightarrow> ''closed'')"

definition idle_seconds :: "int \<Rightarrow> session \<Rightarrow> rat" where
  "idle_seconds now s = max 0 (rat_of_int (now - s_last s) / 1000)"

definition owner_alive :: "registry \<Rightarrow> session \<Rightarrow> bool option" where
  "owner_alive reg s = (if s_role s = OwnerRole then Some True else is_alive (s_owner s) reg)"

definition holder_of :: "registry \<Rightarrow> int \<Rightarrow> session \<Rightarrow> holder" where
  "holder_of reg now s = \<lparr>hd_label = s_label s, hd_task = s_task s, hd_idle = idle_seconds now s,
     hd_alive = owner_alive reg s, hd_state = state_text (s_state s)\<rparr>"

definition unclosed :: "broker \<Rightarrow> session list" where
  "unclosed b = filter (\<lambda>s. s_state s \<noteq> StClosed) (map snd (br_sessions b))"

text \<open>The first suffix of a text that satisfies a test.\<close>

fun find_suffix :: "(string \<Rightarrow> bool) \<Rightarrow> string \<Rightarrow> string option" where
  "find_suffix P [] = (if P [] then Some [] else None)"
| "find_suffix P (x # xs) = (if P (x # xs) then Some (x # xs) else find_suffix P xs)"

definition lease_in :: "string \<Rightarrow> string option" where
  "lease_in detail =
     map_option (\<lambda>t. take 32 (drop 6 t))
       (find_suffix (\<lambda>t. starts_with t ''lease '' \<and> class_string is_lower_hex 32 32 (take 32 (drop 6 t))) detail)"

definition busy_detail :: "string \<Rightarrow> string option" where
  "busy_detail message =
     find_suffix (\<lambda>t. starts_with t ''Application client is already leased by lease '' \<and> list_all (\<lambda>c. code c \<noteq> 10 \<and> code c \<noteq> 13) t) message"

definition holder_for :: "registry \<Rightarrow> int \<Rightarrow> int \<Rightarrow> string option \<Rightarrow> broker \<Rightarrow> holder option" where
  "holder_for reg now workspace detail b =
     (let holder = map_option (holder_of reg now) in
      case (case detail of None \<Rightarrow> None | Some d \<Rightarrow> lease_in d) of
        Some lease \<Rightarrow> holder (find (\<lambda>s. s_app s = lease) (unclosed b))
      | None \<Rightarrow>
          (case filter (\<lambda>s. s_workspace s = workspace) (unclosed b) of
             [s] \<Rightarrow> holder (Some s)
           | _ \<Rightarrow> None))"

text \<open>What another agent may know about a session.\<close>

record summary =
  su_label :: string
  su_task :: string
  su_application :: string
  su_workspace :: int
  su_state :: string
  su_idle :: int
  su_gone :: bool

datatype listed = Full session | Redacted summary

definition summary_of :: "int \<Rightarrow> session \<Rightarrow> summary" where
  "summary_of now s = \<lparr>su_label = s_label s, su_task = s_task s, su_application = s_title s, su_workspace = s_workspace s,
     su_state = state_text (s_state s), su_idle = js_round (idle_seconds now s), su_gone = (s_orphan s \<noteq> None)\<rparr>"

definition owns :: "caller \<Rightarrow> session \<Rightarrow> bool" where
  "owns who s \<longleftrightarrow> c_role who = OwnerRole \<or> s_owner s = c_id who"

definition list_sessions :: "int \<Rightarrow> caller \<Rightarrow> broker \<Rightarrow> listed list" where
  "list_sessions now who b = map (\<lambda>(k, s). if owns who s then Full s else Redacted (summary_of now s)) (br_sessions b)"

definition authorize :: "registry \<Rightarrow> int \<Rightarrow> caller \<Rightarrow> string \<Rightarrow> session \<Rightarrow> (orbit_error, unit) result" where
  "authorize reg now who verb s =
     (if owns who s then Ok ()
      else Err (plain_error ''SESSION_NOT_OWNED''
        (''This session belongs to '' @ s_label s @ '' (task \"'' @ s_task s @ ''\", '' @ state_text (s_state s)
         @ (if s_orphan s \<noteq> None \<or> owner_alive reg s = Some False then '', its adapter is gone'' else [])
         @ '', idle '' @ duration (idle_seconds now s) @ ''), not to you, so it cannot be '' @ verb @ '' from here. ''
         @ ''Stop only your own sessions with orbit_stop and scope \"mine\"; the person can stop any session from the panel.'')))"

section \<open>Events of a session\<close>

text \<open>A session that closes gives its lease back, by \<open>stop\<close> or by \<open>forceClose\<close>.\<close>

definition on_session :: "clock \<Rightarrow> string \<Rightarrow> session_event \<Rightarrow> broker \<Rightarrow> effect list \<times> broker" where
  "on_session c sid e b =
     (case map_of (br_sessions b) sid of
        None \<Rightarrow> ([], b)
      | Some s \<Rightarrow>
          (case session_step c e s of
             (es, s') \<Rightarrow>
               (es, b\<lparr>br_sessions := put sid s' (br_sessions b),
                      br_leases := (if s_state s \<noteq> StClosed \<and> s_state s' = StClosed
                        then filter (\<lambda>l. l \<noteq> s_lease s) (br_leases b) else br_leases b)\<rparr>)))"

definition adapter_gone :: "clock \<Rightarrow> rat \<Rightarrow> string \<Rightarrow> broker \<Rightarrow> broker" where
  "adapter_gone c g cid b =
     b\<lparr>br_sessions := map (\<lambda>(k, s). (k, if s_owner s = cid then owner_gone c g s else s)) (br_sessions b)\<rparr>"

definition adapter_back :: "string \<Rightarrow> broker \<Rightarrow> broker" where
  "adapter_back cid b = b\<lparr>br_sessions := map (\<lambda>(k, s). (k, if s_owner s = cid then owner_back s else s)) (br_sessions b)\<rparr>"

definition verb_of :: "string \<Rightarrow> string option" where
  "verb_of m = map_of
     [(''session.pause'', ''paused''), (''session.resume'', ''resumed''), (''session.stop'', ''stopped''),
      (''session.observe'', ''observed''), (''session.presence'', ''observed''), (''session.control'', ''controlled''),
      (''session.journal'', ''read''), (''session.narrow'', ''narrowed'')] m"

text \<open>The event a request is to its session; the journal and the presence are read without one.\<close>

definition event_of :: "string \<Rightarrow> jsobj \<Rightarrow> session_event option" where
  "event_of m params =
     (if m = ''session.pause'' then Some PauseCall
      else if m = ''session.resume'' then Some ResumeCall
      else if m = ''session.stop'' then Some StopCall
      else if m = ''session.observe'' then Some (ObserveCall params)
      else if m = ''session.control'' then Some (ControlCall (getp params ''input''))
      else if m = ''session.narrow'' then Some (NarrowCall params)
      else None)"

definition route :: "registry \<Rightarrow> int \<Rightarrow> caller \<Rightarrow> string \<Rightarrow> jsobj \<Rightarrow> broker \<Rightarrow> (orbit_error, string \<times> session_event option) result" where
  "route reg now who m params b =
     (let sid = getp params ''sessionId'' in
      if m = ''session.reveal'' then
        (if \<not> c_verified who \<or> c_role who \<noteq> OwnerRole
         then Err (plain_error ''APPROVAL_REQUIRED'' ''Only an explicit owner session selection may navigate the desktop'')
         else if \<not> only_keys [''sessionId''] params
         then Err (invalid_request ''Owner navigation requires only a session identity'')
         else and_then (get_session sid b) (\<lambda>s. Ok (str_of sid, Some (RevealCall who params))))
      else if m = ''session.act'' then
        and_then (get_session sid b) (\<lambda>s.
        and_then (authorize reg now who ''acted on'' s) (\<lambda>u. Ok (str_of sid, Some (ActCall params))))
      else (case verb_of m of
          None \<Rightarrow> Err (plain_error ''UNSUPPORTED'' ''Unknown method'')
        | Some verb \<Rightarrow>
            and_then (get_session sid b) (\<lambda>s.
            and_then (authorize reg now who verb s) (\<lambda>u. Ok (str_of sid, event_of m params)))))"

text \<open>Stops exactly the caller's own sessions.\<close>

definition stop_mine :: "jsobj \<Rightarrow> caller \<Rightarrow> broker \<Rightarrow> (orbit_error, (string \<times> effect list) list) result \<times> broker" where
  "stop_mine params who b =
     (if getp params ''scope'' \<noteq> JStr ''mine'' \<or> getp params ''sessionId'' \<noteq> Undef
      then (Err (invalid_request ''orbit_stop takes either a sessionId or scope \"mine\"''), b)
      else (let mine = (\<lambda>s. s_owner s = c_id who \<and> s_state s \<noteq> StClosed) in
        (Ok (map (\<lambda>(k, s). (k, fst (stop_call s))) (filter (\<lambda>(k, s). mine s) (br_sessions b))),
         b\<lparr>br_sessions := map (\<lambda>(k, s). (k, if mine s then snd (stop_call s) else s)) (br_sessions b)\<rparr>)))"

definition session_request ::
  "registry \<Rightarrow> clock \<Rightarrow> caller \<Rightarrow> string \<Rightarrow> jsobj \<Rightarrow> broker \<Rightarrow> (orbit_error, effect list) result \<times> broker" where
  "session_request reg c who m params b =
     (if m = ''session.stop'' \<and> getp params ''scope'' \<noteq> Undef
      then (case stop_mine params who b of (r, b') \<Rightarrow> (map_sum id (\<lambda>xs. concat (map snd xs)) r, b'))
      else (case route reg (fst c) who m params b of
          Inl e \<Rightarrow> (Err e, b)
        | Inr (sid, None) \<Rightarrow> (Ok [], b)
        | Inr (sid, Some e) \<Rightarrow> (case on_session c sid e b of (es, b') \<Rightarrow> (Ok es, b'))))"

text \<open>What happens to a session without a request to it.\<close>

definition internal_event :: "session_event \<Rightarrow> bool" where
  "internal_event e = (case e of
       ActCall p \<Rightarrow> False | PauseCall \<Rightarrow> False | ResumeCall \<Rightarrow> False | NarrowCall p \<Rightarrow> False | ControlCall v \<Rightarrow> False
     | RevealCall w p \<Rightarrow> False | ObserveCall p \<Rightarrow> False | OwnerGone g \<Rightarrow> False | OwnerBack \<Rightarrow> False | _ \<Rightarrow> True)"

text \<open>\<open>session.forget\<close>: only a closed session leaves the table.\<close>

definition forget :: "registry \<Rightarrow> int \<Rightarrow> caller \<Rightarrow> jsobj \<Rightarrow> broker \<Rightarrow> (orbit_error, bool) result \<times> broker" where
  "forget reg now who params b =
     (case text_field (getp params ''sessionId'') ''sessionId'' of
        Inl e \<Rightarrow> (Err e, b)
      | Inr sid \<Rightarrow>
          (case map_of (br_sessions b) sid of
             None \<Rightarrow> (Ok False, b)
           | Some s \<Rightarrow>
               (case authorize reg now who ''removed from the list'' s of
                  Inl e \<Rightarrow> (Err e, b)
                | Inr u \<Rightarrow>
                    if s_state s \<noteq> StClosed
                    then (Err (plain_error ''SESSION_OPEN'' ''End the session before removing it from the list''), b)
                    else (Ok True, b\<lparr>br_sessions := del sid (br_sessions b)\<rparr>))))"

section \<open>Updates\<close>

definition update_held :: "int \<Rightarrow> broker \<Rightarrow> bool" where
  "update_held now b \<longleftrightarrow> (case br_update b of None \<Rightarrow> False | Some (t, expires) \<Rightarrow> now < expires)"

definition update_busy :: orbit_error where
  "update_busy = plain_error ''PROFILE_BUSY'' ''A broker update is in progress; retry shortly''"

definition broker_stopping :: orbit_error where
  "broker_stopping = plain_error ''SESSION_CLOSED'' ''Broker is stopping''"

text \<open>\<open>admission\<close>: what \<open>requireUpdateAdmission\<close> threw, if it did.\<close>

definition update_begin :: "int \<Rightarrow> string \<Rightarrow> thrown option \<Rightarrow> broker \<Rightarrow> (thrown, unit) result \<times> broker" where
  "update_begin now token admission b =
     (case admission of
        Some e \<Rightarrow> (Err e, b)
      | None \<Rightarrow>
          if update_held now b then (Err (Orbit (plain_error ''PROFILE_BUSY'' ''Another update is in progress'')), b)
          else if br_creating b \<noteq> [] \<or> unclosed b \<noteq> []
          then (Err (Orbit (plain_error ''PROFILE_BUSY'' ''A session is open or starting; update waits until it closes'')), b)
          else (Ok (), b\<lparr>br_update := Some (token, now + 120000)\<rparr>))"

definition update_end :: "jsobj \<Rightarrow> broker \<Rightarrow> bool \<times> broker" where
  "update_end params b =
     (let b' = (case br_update b of
          None \<Rightarrow> b
        | Some (token, e) \<Rightarrow> if getp params ''token'' = JStr token then b\<lparr>br_update := None\<rparr> else b)
      in (br_update b' = None, b'))"

end
