(* ===== verification/BrokerOps.thy ===== *)
theory BrokerOps
  imports Broker
begin

text \<open>
  The operations of the broker that end with the worker (\<open>src/session.ts\<close>): creating a session through the
  waiting line, opening an application on a workspace of its own, and presenting a workspace. The worker's
  replies, the update barrier and random identifiers are arguments; the order in which the chain
  \<open>creationTail\<close> runs them is not represented, so what is proved holds for every order.
\<close>

datatype broker_effect =
    StartClaim nat handoff_selection
  | Launch nat native_open
  | Present nat presentation
  | QueryMonitors nat
  | Wake

definition add_operation :: "operation \<Rightarrow> broker \<Rightarrow> nat \<times> broker" where
  "add_operation p b =
     (br_serial b, b\<lparr>br_creating := br_creating b @ [(br_serial b, p)], br_serial := br_serial b + 1\<rparr>)"

definition end_operation :: "nat \<Rightarrow> broker \<Rightarrow> broker" where
  "end_operation n b = b\<lparr>br_creating := del n (br_creating b)\<rparr>"

definition set_operation :: "nat \<Rightarrow> operation \<Rightarrow> broker \<Rightarrow> broker" where
  "set_operation n p b = b\<lparr>br_creating := put n p (br_creating b)\<rparr>"

section \<open>Creating a session\<close>

definition create_call :: "int \<Rightarrow> jsobj \<Rightarrow> caller \<Rightarrow> broker \<Rightarrow> (orbit_error, nat) result \<times> broker" where
  "create_call now input who b =
     (if update_held now b then (Err update_busy, b)
      else if br_stopping b then (Err broker_stopping, b)
      else (case add_operation (Creating who (Entered input)) b of (n, b') \<Rightarrow> (Ok n, b')))"

text \<open>Closed sessions are history: the newest 16 stay.\<close>

definition insert_by_age :: "string \<times> session \<Rightarrow> (string \<times> session) list \<Rightarrow> (string \<times> session) list" where
  "insert_by_age x xs = takeWhile (\<lambda>y. s_last (snd y) < s_last (snd x)) xs @ x # dropWhile (\<lambda>y. s_last (snd y) < s_last (snd x)) xs"

definition prune_closed :: "broker \<Rightarrow> broker" where
  "prune_closed b =
     (let closed_ones = foldr insert_by_age (filter (\<lambda>(k, s). s_state s = StClosed) (br_sessions b)) [];
          dropped = map fst (take (length closed_ones - 16) closed_ones)
      in b\<lparr>br_sessions := filter (\<lambda>(k, s). k \<notin> set dropped) (br_sessions b)\<rparr>)"

definition session_label :: "jsval \<Rightarrow> string \<Rightarrow> (orbit_error, string) result" where
  "session_label v fallback =
     (if v = Undef then Ok fallback
      else if \<not> is_string v \<or> js_trim (str_of v) = [] \<or> length (str_of v) > 80 \<or> list_ex is_control (str_of v)
      then Err (invalid_request ''Session labels require 1 to 80 printable characters'')
      else Ok (js_trim (str_of v)))"

definition optional_label :: "jsval \<Rightarrow> (orbit_error, string option) result" where
  "optional_label v = (if v = Undef then Ok None else and_then (session_label v []) (\<lambda>t. Ok (Some t)))"

definition native_policy_value :: jsobj where
  "native_policy_value = [(''mode'', JStr ''autonomous''), (''origins'', JStr ''any''),
     (''allow'', JArr (map (JStr \<circ> class_text) action_classes)), (''deny'', JArr [])]"

text \<open>The supplied fields over the native template; \<open>origins\<close> falls back to \<open>"any"\<close>.\<close>

definition merged_policy :: "jsobj \<Rightarrow> jsobj" where
  "merged_policy supplied =
     put ''origins'' (if getp supplied ''origins'' = Undef then JStr ''any'' else getp supplied ''origins'')
       (fold (\<lambda>(k, v) fs. put k v fs) supplied native_policy_value)"

definition session_policy :: "broker_config \<Rightarrow> jsval \<Rightarrow> (orbit_error, policy) result" where
  "session_policy cfg v =
     and_then (if v = Undef then Ok [] else js_record v) (\<lambda>supplied.
     and_then (parse_policy (bc_urls cfg) (bc_number cfg) (bc_absolute cfg) (JObj (merged_policy supplied))) (\<lambda>p.
       if p_origins p \<noteq> AnyOrigin
       then Err (plain_error ''UNSUPPORTED'' ''Native origin enforcement is unavailable'') else Ok p))"

definition create_keys :: "string list" where
  "create_keys = [''backend'', ''agentName'', ''taskName'', ''conversationName'', ''projectName'', ''policy'', ''profileKey'',
     ''handoff'', ''wait'']"

definition line_key :: "handoff_selection \<Rightarrow> string" where
  "line_key h = show_int (hs_workspace h) @ '':'' @ (case hs_address h of Some a \<Rightarrow> a | None \<Rightarrow>
     (case hs_stable h of Some i \<Rightarrow> i | None \<Rightarrow> ''*''))"

text \<open>What is checked before the limit, and what after it.\<close>

definition create_target :: "broker_config \<Rightarrow> jsobj \<Rightarrow> (orbit_error, handoff_selection \<times> int) result" where
  "create_target cfg input =
     (let bk = getp input ''backend'' in
      if (if bk = Undef \<or> bk = Null then JStr ''native'' else bk) \<noteq> JStr ''native'' \<or> getp input ''handoff'' = Undef
      then Err (plain_error ''UNSUPPORTED'' ''Private desktop sessions were removed. Use native.open for an original application or an explicit native application handoff.'')
      else if \<not> only_keys create_keys input
      then Err (plain_error ''UNSUPPORTED'' ''Private profiles, viewports and browser session options were removed'')
      else and_then (parse_handoff (bc_os cfg) (getp input ''handoff'')) (\<lambda>h.
        and_then (parse_wait (getp input ''wait'')) (\<lambda>w.
          if \<not> bc_native cfg
          then Err (plain_error ''UNSUPPORTED'' ''The owner has not configured native application control'')
          else Ok (h, w))))"

definition create_names :: "broker_config \<Rightarrow> jsobj \<Rightarrow> (orbit_error, session_names) result" where
  "create_names cfg input =
     and_then (session_policy cfg (getp input ''policy'')) (\<lambda>p.
     and_then (session_label (getp input ''agentName'') ''SbarOrbit'') (\<lambda>agent.
     and_then (session_label (getp input ''taskName'') ''Native application'') (\<lambda>task.
     and_then (optional_label (getp input ''conversationName'')) (\<lambda>conv.
     and_then (optional_label (getp input ''projectName'')) (\<lambda>project.
       Ok \<lparr>sn_agent = agent, sn_task = task, sn_conversation = conv, sn_project = project, sn_policy = p\<rparr>)))))"

text \<open>The table, the operation itself included, holds fewer than this many.\<close>

definition session_limit :: nat where
  "session_limit = 32"

definition create_checked :: "broker_config \<Rightarrow> int \<Rightarrow> jsobj \<Rightarrow> broker \<Rightarrow> (orbit_error, create_plan) result" where
  "create_checked cfg now input b =
     (if update_held now b then Err update_busy
      else and_then (create_target cfg input) (\<lambda>(h, w).
        if length (unclosed b) + length (br_creating b) \<ge> session_limit
        then Err (plain_error ''LIMIT_REACHED'' (''Native session limit reached: '' @ show_int (int (length (unclosed b)))
          @ '' sessions are open. Stop the ones you opened (orbit_stop with scope \"mine\") before opening more''))
        else and_then (create_names cfg input) (\<lambda>names.
          Ok \<lparr>cp_handoff = h, cp_wait = w, cp_names = names, cp_key = line_key h, cp_profile = getp input ''profileKey''\<rparr>)))"

text \<open>The first step after the update barrier: the plan, or the operation is over.\<close>

definition create_admitted ::
  "broker_config \<Rightarrow> int \<Rightarrow> nat \<Rightarrow> thrown option \<Rightarrow> broker \<Rightarrow> (thrown, unit) result \<times> broker" where
  "create_admitted cfg now n admission b =
     (case map_of (br_creating b) n of
        Some (Creating who (Entered input)) \<Rightarrow>
          (case admission of
             Some e \<Rightarrow> (Err e, end_operation n b)
           | None \<Rightarrow>
               (let b1 = (case create_target cfg input of Inl e \<Rightarrow> b | Inr t \<Rightarrow> if update_held now b then b else prune_closed b) in
                case create_checked cfg now input b1 of
                  Inl e \<Rightarrow> (Err (Orbit e), end_operation n b1)
                | Inr plan \<Rightarrow> (Ok (), set_operation n (Creating who (InLine plan (now + cp_wait plan * 1000))) b1)))
      | _ \<Rightarrow> (Ok (), b))"

definition stale_ms :: int where
  "stale_ms = 90000"

text \<open>The application is busy: a place in the line, or the end of the wait.\<close>

definition create_busy ::
  "registry \<Rightarrow> int \<Rightarrow> nat \<Rightarrow> caller \<Rightarrow> create_plan \<Rightarrow> int \<Rightarrow> nat \<Rightarrow> string option \<Rightarrow> broker \<Rightarrow> (thrown, unit) result \<times> broker" where
  "create_busy reg now n who plan deadline infront message b =
     (let joined = (if cp_wait plan \<noteq> 0 then Some (enter stale_ms now (cp_key plan) (c_id who) (br_line b)) else None);
          b1 = (case joined of None \<Rightarrow> b | Some (place, q) \<Rightarrow> b\<lparr>br_line := q\<rparr>);
          waiting = (case joined of Some (place, q) \<Rightarrow> Some place
            | None \<Rightarrow> if infront \<noteq> 0 then Some (infront + 1, infront + 1) else None);
          detail = busy_detail (case message of None \<Rightarrow> [] | Some m \<Rightarrow> m)
      in if now \<ge> deadline
         then (Err (Orbit (plain_error ''APPLICATION_BUSY''
                (busy_message (holder_for reg now (hs_workspace (cp_handoff plan)) detail b1) waiting detail))), end_operation n b1)
         else (Ok (), set_operation n (Creating who (InLine plan deadline)) b1))"

definition leave_line :: "int \<Rightarrow> caller \<Rightarrow> create_plan \<Rightarrow> broker \<Rightarrow> broker" where
  "leave_line now who plan b = b\<lparr>br_line := leave stale_ms now (cp_key plan) (c_id who) (br_line b)\<rparr>"

text \<open>One turn of the loop; \<open>fresh_id\<close> is a new random lease.\<close>

definition create_turn ::
  "registry \<Rightarrow> int \<Rightarrow> string \<Rightarrow> nat \<Rightarrow> broker \<Rightarrow> (thrown, unit) result \<times> broker_effect list \<times> broker" where
  "create_turn reg now fresh_id n b =
     (case map_of (br_creating b) n of
        Some (Creating who (InLine plan deadline)) \<Rightarrow>
          (case ahead stale_ms now (cp_key plan) (c_id who) (br_line b) of
             (infront, q) \<Rightarrow>
               (let b1 = b\<lparr>br_line := q\<rparr>; give_up = (\<lambda>e. (Err (Orbit e), [], end_operation n (leave_line now who plan b1))) in
                if infront \<noteq> 0
                then (case create_busy reg now n who plan deadline infront None b1 of (r, b2) \<Rightarrow> (r, [], b2))
                else (case (if cp_profile plan = Undef then Ok fresh_id else text_field (cp_profile plan) ''profileKey'') of
                    Inl e \<Rightarrow> give_up e
                  | Inr lease \<Rightarrow>
                      if lease \<in> set (br_leases b1)
                      then give_up (plain_error ''PROFILE_BUSY'' ''Application lease is already held'')
                      else (Ok (), [StartClaim n (cp_handoff plan)],
                            set_operation n (Creating who (Claiming plan deadline lease))
                              (b1\<lparr>br_leases := br_leases b1 @ [lease]\<rparr>)))))
      | _ \<Rightarrow> (Ok (), [], b))"

text \<open>\<open>NativeBackend.create\<close> answered; \<open>sid\<close> is the new session's random identity.\<close>

definition claim_answered ::
  "registry \<Rightarrow> clock \<Rightarrow> string \<Rightarrow> nat \<Rightarrow> (thrown, backend \<times> handoff_view) result \<Rightarrow> broker \<Rightarrow> (thrown, unit) result \<times> broker" where
  "claim_answered reg c sid n r b =
     (case map_of (br_creating b) n of
        Some (Creating who (Claiming plan deadline lease)) \<Rightarrow>
          (case r of
             Inr (bk, view) \<Rightarrow>
               (Ok (), end_operation n (leave_line (fst c) who plan
                  (b\<lparr>br_sessions := put sid (new_session c sid lease bk view (cp_names plan) who) (br_sessions b)\<rparr>)))
           | Inl e \<Rightarrow>
               (let b1 = b\<lparr>br_leases := filter (\<lambda>l. l \<noteq> lease) (br_leases b)\<rparr> in
                case e of
                  Orbit x \<Rightarrow>
                    if err_code x = ''APPLICATION_BUSY''
                    then create_busy reg (fst c) n who plan deadline 0 (Some (err_message x)) b1
                    else (Err e, end_operation n (leave_line (fst c) who plan b1))
                | _ \<Rightarrow> (Err e, end_operation n (leave_line (fst c) who plan b1))))
      | _ \<Rightarrow> (Ok (), b))"

end
