(* ===== verification/BrokerOpen.thy ===== *)
theory BrokerOpen
  imports BrokerOps
begin

text \<open>
  Opening an application and presenting a workspace (\<open>src/session.ts\<close>: \<open>native.open\<close>, \<open>native.present\<close>,
  \<open>native.monitors\<close>, \<open>allocateWorkspace\<close>), each remembered by caller and request, and the step function of
  the broker.
\<close>

section \<open>Workspaces\<close>

definition stable_scope :: "caller \<Rightarrow> (orbit_error, unit) result" where
  "stable_scope who =
     ensure (c_role who = OwnerRole \<or> (c_verified who \<and> starts_with (c_id who) ''conv:''))
       (plain_error ''CONVERSATION_REQUIRED'' ''Set ORBIT_CONVERSATION_ID to the actual host conversation before opening or presenting; retries and reconnects must keep the same caller and requestId'')"

definition note_opened :: "int \<Rightarrow> caller \<Rightarrow> nat \<Rightarrow> broker \<Rightarrow> broker" where
  "note_opened now who w b =
     (if list_ex (\<lambda>e. ow_caller e = c_id who \<and> ow_workspace e = w) (br_opened b) then b
      else b\<lparr>br_opened := br_opened b @ [\<lparr>ow_caller = c_id who, ow_label = c_label who, ow_workspace = w, ow_at = now\<rparr>]\<rparr>)"

definition allocation_limit :: nat where
  "allocation_limit = 1024"

text \<open>\<open>shown\<close> and \<open>occupied\<close> are the inventory of the worker.\<close>

definition allocate_for ::
  "broker_config \<Rightarrow> registry \<Rightarrow> int \<Rightarrow> operation_key \<Rightarrow> caller \<Rightarrow> (orbit_error, int list \<times> int list) result \<Rightarrow> broker
     \<Rightarrow> (orbit_error, nat) result \<times> broker" where
  "allocate_for cfg reg now key who inventory b =
     (case map_of (br_allocations b) key of
        Some w \<Rightarrow> (Ok w, b)
      | None \<Rightarrow>
          (case inventory of
             Inl e \<Rightarrow> (Err e, b)
           | Inr (occupied, shown) \<Rightarrow>
               (let kept = filter (\<lambda>e. now - ow_at e < 6 * 3600000 \<and> is_alive (ow_caller e) reg \<noteq> Some False) (br_opened b);
                    b1 = b\<lparr>br_opened := kept\<rparr>;
                    used = set (map nat occupied) \<union> set (map (nat \<circ> s_workspace) (unclosed b)) \<union> set (map ow_workspace kept)
                      \<union> set (map snd (br_allocations b))
                in case allocate_workspace (bc_pool cfg) [] used (set (map nat shown)) of
                     Inl e \<Rightarrow> (Err e, b1)
                   | Inr w \<Rightarrow>
                       if length (br_allocations b) \<ge> allocation_limit
                       then (Err (plain_error ''LIMIT_REACHED'' ''Opening workspace reservation limit reached''), b1)
                       else (Ok w, note_opened now who w (b1\<lparr>br_allocations := put key w (br_allocations b1)\<rparr>)))))"

section \<open>Opening\<close>

datatype 'a asked = AlreadyAsked 'a | AskedNow nat

definition open_keys :: "string list" where
  "open_keys = [''requestId'', ''workspace'', ''applicationId'', ''window'']"

definition open_limit :: nat where
  "open_limit = 256"

text \<open>The common barrier of the operations that reach the worker.\<close>

definition operation_barrier :: "string \<Rightarrow> broker_config \<Rightarrow> int \<Rightarrow> thrown option \<Rightarrow> broker \<Rightarrow> (thrown, unit) result" where
  "operation_barrier unsupported cfg now admission b =
     (case admission of
        Some e \<Rightarrow> Err e
      | None \<Rightarrow>
          if update_held now b then Err (Orbit update_busy)
          else if \<not> bc_native cfg then Err (Orbit (plain_error ''UNSUPPORTED'' unsupported))
          else if br_stopping b then Err (Orbit broker_stopping)
          else Ok ())"

text \<open>The request's opening; no workspace means that the broker picks one.\<close>

definition open_arguments :: "broker_config \<Rightarrow> jsobj \<Rightarrow> (orbit_error, string \<times> bool \<times> native_open) result" where
  "open_arguments cfg params =
     and_then (text_field (getp params ''requestId'') ''requestId'') (\<lambda>request.
       if length request > 128 then Err (invalid_request ''Opening request identity is too long'')
       else if \<not> only_keys open_keys params then Err (invalid_request ''Unknown native opening field'')
       else (let auto_pick = (getp params ''workspace'' = Undef) in
         and_then (parse_native_open (bc_os cfg)
            (JObj ([(''workspace'', if auto_pick then jint 1 else getp params ''workspace''), (''applicationId'', getp params ''applicationId'')]
              @ (if getp params ''window'' = Undef then [] else [(''window'', getp params ''window'')])))) (\<lambda>o'.
         Ok (request, auto_pick, o'))))"

definition open_call ::
  "broker_config \<Rightarrow> int \<Rightarrow> caller \<Rightarrow> jsobj \<Rightarrow> thrown option \<Rightarrow> broker \<Rightarrow> (thrown, op_result asked) result \<times> broker" where
  "open_call cfg now who params admission b =
     (case and_then (map_sum Orbit id (stable_scope who)) (\<lambda>u.
            and_then (operation_barrier ''Native opening is not configured'' cfg now admission b) (\<lambda>u.
            map_sum Orbit id (open_arguments cfg params))) of
        Inl e \<Rightarrow> (Err e, b)
      | Inr (request, auto_pick, o') \<Rightarrow>
          (let key = (c_id who, request) in
           case map_of (br_opens b) key of
             Some (fp, r) \<Rightarrow>
               if fp \<noteq> (auto_pick, o') then (Err (Orbit (plain_error ''REQUEST_CONFLICT'' ''Opening request identity conflicts'')), b)
               else (Ok (AlreadyAsked r), b)
           | None \<Rightarrow>
               if length (br_opens b) \<ge> open_limit
               then (Err (Orbit (plain_error ''LIMIT_REACHED'' ''Native opening request limit reached'')), b)
               else (case add_operation (Opening key who auto_pick o' None) b of
                   (n, b1) \<Rightarrow> (Ok (AskedNow n), b1\<lparr>br_opens := br_opens b1 @ [(key, (auto_pick, o'), Awaited)]\<rparr>))))"

text \<open>The operation ended: its result is remembered, unless the person has yet to approve it.\<close>

definition settle_open :: "nat \<Rightarrow> operation_key \<Rightarrow> (thrown, jsval) result \<Rightarrow> broker \<Rightarrow> broker" where
  "settle_open n key r b =
     end_operation n (case r of
         Inl (Orbit e) \<Rightarrow>
           if err_code e = ''APPROVAL_REQUIRED'' then b\<lparr>br_opens := del key (br_opens b)\<rparr>
           else b\<lparr>br_opens := map (\<lambda>(k, fp, x). (k, fp, if k = key then Settled r else x)) (br_opens b)\<rparr>
       | _ \<Rightarrow> b\<lparr>br_opens := map (\<lambda>(k, fp, x). (k, fp, if k = key then Settled r else x)) (br_opens b)\<rparr>)"

definition workspace_reserved :: "operation_key \<Rightarrow> nat \<Rightarrow> broker \<Rightarrow> bool" where
  "workspace_reserved key w b \<longleftrightarrow>
     list_ex (\<lambda>(k, v). k \<noteq> key \<and> v = w) (br_allocations b) \<or> list_ex (\<lambda>s. nat (s_workspace s) = w) (unclosed b)"

text \<open>The operation's turn in the chain: the workspace is chosen and reserved, then the launch is asked.\<close>

definition open_turn ::
  "broker_config \<Rightarrow> registry \<Rightarrow> int \<Rightarrow> nat \<Rightarrow> thrown option \<Rightarrow> (orbit_error, int list \<times> int list) result \<Rightarrow> broker
     \<Rightarrow> broker_effect list \<times> broker" where
  "open_turn cfg reg now n admission inventory b =
     (case map_of (br_creating b) n of
        Some (Opening key who auto_pick o' None) \<Rightarrow>
          (let fail = (\<lambda>e b'. ([], settle_open n key (Err e) b')) in
           case admission of
             Some e \<Rightarrow> fail e b
           | None \<Rightarrow>
               if update_held now b then fail (Orbit update_busy) b
               else if br_stopping b then fail (Orbit broker_stopping) b
               else (case (if auto_pick then allocate_for cfg reg now key who inventory b
                     else (case inventory of
                         Inl e \<Rightarrow> (Err e, b)
                       | Inr (occupied, shown) \<Rightarrow>
                           (let w = nat (no_workspace o') in
                            if workspace_reserved key w b \<or> int w \<in> set occupied \<or> int w \<in> set shown
                            then (Err (plain_error ''WORKSPACE_BUSY'' ''Opening requires an empty workspace that no monitor displays; omit workspace to choose one automatically''), b)
                            else (Ok w, b)))) of
                   (Inl e, b') \<Rightarrow> fail (Orbit e) b'
                 | (Inr w, b') \<Rightarrow>
                     ([Launch n (o'\<lparr>no_workspace := int w\<rparr>)],
                      set_operation n (Opening key who auto_pick o' (Some w))
                        (b'\<lparr>br_allocations := put key w (br_allocations b')\<rparr>))))
      | _ \<Rightarrow> ([], b))"

definition open_answered :: "int \<Rightarrow> nat \<Rightarrow> (thrown, jsval) result \<Rightarrow> broker \<Rightarrow> broker" where
  "open_answered now n r b =
     (case map_of (br_creating b) n of
        Some (Opening key who auto_pick o' (Some w)) \<Rightarrow>
          (case r of
             Inr v \<Rightarrow>
               settle_open n key
                 (Ok (if auto_pick then (case as_object v of
                        Some fs \<Rightarrow> JObj (put ''allocated'' (JBool True) (put ''workspace'' (jint (int w)) fs)) | None \<Rightarrow> v) else v))
                 (note_opened now who w b)
           | Inl e \<Rightarrow> settle_open n key r b)
      | _ \<Rightarrow> b)"

section \<open>Presenting\<close>

definition present_arguments :: "broker_config \<Rightarrow> jsobj \<Rightarrow> (orbit_error, string \<times> presentation) result" where
  "present_arguments cfg params =
     (if \<not> only_keys [''requestId'', ''workspace'', ''monitor''] params
      then Err (invalid_request ''Unknown native presentation field'')
      else and_then (text_field (getp params ''requestId'') ''requestId'') (\<lambda>request.
        if length request > 128 then Err (invalid_request ''Presentation request identity is too long'')
        else and_then (parse_native_presentation (bc_os cfg)
            (JObj [(''workspace'', getp params ''workspace''), (''monitor'', getp params ''monitor'')])) (\<lambda>p. Ok (request, p))))"

definition present_call ::
  "broker_config \<Rightarrow> int \<Rightarrow> caller \<Rightarrow> jsobj \<Rightarrow> thrown option \<Rightarrow> broker \<Rightarrow> (thrown, op_result asked) result \<times> broker" where
  "present_call cfg now who params admission b =
     (if \<not> c_verified who \<or> c_role who \<noteq> OwnerRole
      then (Err (Orbit (plain_error ''APPROVAL_REQUIRED''
        ''Desktop presentation requires an explicit owner selection; background actions and capture must not navigate'')), b)
      else (case and_then (map_sum Orbit id (and_then (stable_scope who) (\<lambda>u. present_arguments cfg params))) (\<lambda>a.
             and_then (operation_barrier ''Native monitor control is not configured'' cfg now admission b) (\<lambda>u. Ok a)) of
          Inl e \<Rightarrow> (Err e, b)
        | Inr (request, p) \<Rightarrow>
            (let key = (c_id who, request);
                 start = (\<lambda>u. case add_operation (Presenting key p False) b of
                   (n, b1) \<Rightarrow> (Ok (AskedNow n), b1\<lparr>br_presents := put key (p, Some Awaited) (br_presents b1)\<rparr>)) in
             case map_of (br_presents b) key of
               Some (fp, r) \<Rightarrow>
                 if fp \<noteq> p then (Err (Orbit (plain_error ''REQUEST_CONFLICT'' ''Presentation request identity conflicts'')), b)
                 else (case r of Some x \<Rightarrow> (Ok (AlreadyAsked x), b) | None \<Rightarrow> start ())
             | None \<Rightarrow>
                 if length (br_presents b) \<ge> open_limit
                 then (Err (Orbit (plain_error ''LIMIT_REACHED'' ''Native presentation request limit reached'')), b)
                 else start ())))"

definition monitors_call ::
  "broker_config \<Rightarrow> int \<Rightarrow> jsobj \<Rightarrow> thrown option \<Rightarrow> broker \<Rightarrow> (thrown, nat) result \<times> broker" where
  "monitors_call cfg now params admission b =
     (if params \<noteq> [] then (Err (Orbit (invalid_request ''Monitor discovery accepts no parameters'')), b)
      else (case operation_barrier ''Native monitor control is not configured'' cfg now admission b of
          Inl e \<Rightarrow> (Err e, b)
        | Inr u \<Rightarrow> (case add_operation (ListingMonitors False) b of (n, b1) \<Rightarrow> (Ok n, b1))))"

text \<open>A presentation that was not dispatched, or was not ready, may be asked again under the same request.\<close>

definition settle_present :: "nat \<Rightarrow> operation_key \<Rightarrow> presentation \<Rightarrow> bool \<Rightarrow> (thrown, jsval) result \<Rightarrow> broker \<Rightarrow> broker" where
  "settle_present n key p dispatched r b =
     end_operation n
       (if (case r of
              Inr v \<Rightarrow> False
            | Inl e \<Rightarrow> \<not> dispatched \<or> (case e of Orbit x \<Rightarrow> err_code x = ''PRESENTATION_NOT_READY'' | _ \<Rightarrow> False))
        then b\<lparr>br_presents := put key (p, None) (br_presents b)\<rparr>
        else if (case r of
              Inl (Orbit x) \<Rightarrow> err_code x \<in> set [''APPROVAL_REQUIRED'', ''NATIVE_INCOMPATIBLE'']
            | _ \<Rightarrow> False)
        then b\<lparr>br_presents := del key (br_presents b)\<rparr>
        else b\<lparr>br_presents := put key (p, Some (Settled r)) (br_presents b)\<rparr>)"

definition present_turn :: "int \<Rightarrow> nat \<Rightarrow> thrown option \<Rightarrow> broker \<Rightarrow> broker_effect list \<times> broker" where
  "present_turn now n admission b =
     (let fail = (case admission of
          Some e \<Rightarrow> Some e
        | None \<Rightarrow> if update_held now b then Some (Orbit update_busy)
            else if br_stopping b then Some (Orbit broker_stopping) else None) in
      case map_of (br_creating b) n of
        Some (Presenting key p False) \<Rightarrow>
          (case fail of
             Some e \<Rightarrow> ([], settle_present n key p False (Err e) b)
           | None \<Rightarrow> ([Present n p], set_operation n (Presenting key p True) b))
      | Some (ListingMonitors False) \<Rightarrow>
          (case fail of Some e \<Rightarrow> ([], end_operation n b) | None \<Rightarrow> ([QueryMonitors n], set_operation n (ListingMonitors True) b))
      | _ \<Rightarrow> ([], b))"

definition present_answered :: "nat \<Rightarrow> (thrown, jsval) result \<Rightarrow> broker \<Rightarrow> broker" where
  "present_answered n r b =
     (case map_of (br_creating b) n of
        Some (Presenting key p True) \<Rightarrow> settle_present n key p True r b
      | Some (ListingMonitors True) \<Rightarrow> end_operation n b
      | _ \<Rightarrow> b)"

section \<open>One step of the broker\<close>

datatype broker_event =
    CreateCall jsobj caller
  | CreateAdmitted nat "thrown option"
  | CreateTurn nat string
  | ClaimAnswered string nat "(thrown, backend \<times> handoff_view) result"
  | OpenCall caller jsobj "thrown option"
  | OpenTurn nat "thrown option" "(orbit_error, int list \<times> int list) result"
  | OpenAnswered nat "(thrown, jsval) result"
  | PresentCall caller jsobj "thrown option"
  | MonitorsCall jsobj "thrown option"
  | PresentTurn nat "thrown option"
  | PresentAnswered nat "(thrown, jsval) result"
  | SessionRequest caller string jsobj
  | SessionEvent string session_event
  | Forget caller jsobj
  | AdapterGone rat string
  | AdapterBack string
  | UpdateBegin string "thrown option"
  | UpdateEnd jsobj
  | Shutdown

definition broker_step ::
  "broker_config \<Rightarrow> registry \<Rightarrow> clock \<Rightarrow> broker_event \<Rightarrow> broker \<Rightarrow> broker_effect list \<times> broker" where
  "broker_step cfg reg c e b =
     (case e of
        CreateCall input who \<Rightarrow> ([], snd (create_call (fst c) input who b))
      | CreateAdmitted n admission \<Rightarrow> ([], snd (create_admitted cfg (fst c) n admission b))
      | CreateTurn n fresh_id \<Rightarrow> snd (create_turn reg (fst c) fresh_id n b)
      | ClaimAnswered sid n r \<Rightarrow> ([], snd (claim_answered reg c sid n r b))
      | OpenCall who params admission \<Rightarrow> ([], snd (open_call cfg (fst c) who params admission b))
      | OpenTurn n admission inventory \<Rightarrow> open_turn cfg reg (fst c) n admission inventory b
      | OpenAnswered n r \<Rightarrow> ([], open_answered (fst c) n r b)
      | PresentCall who params admission \<Rightarrow> ([], snd (present_call cfg (fst c) who params admission b))
      | MonitorsCall params admission \<Rightarrow> ([], snd (monitors_call cfg (fst c) params admission b))
      | PresentTurn n admission \<Rightarrow> present_turn (fst c) n admission b
      | PresentAnswered n r \<Rightarrow> ([], present_answered n r b)
      | SessionRequest who m params \<Rightarrow> ([], snd (session_request reg c who m params b))
      | SessionEvent sid ev \<Rightarrow> ([], if internal_event ev then snd (on_session c sid ev b) else b)
      | Forget who params \<Rightarrow> ([], snd (forget reg (fst c) who params b))
      | AdapterGone g cid \<Rightarrow> ([], adapter_gone c g cid b)
      | AdapterBack cid \<Rightarrow> ([], adapter_back cid b)
      | UpdateBegin token admission \<Rightarrow> ([], snd (update_begin (fst c) token admission b))
      | UpdateEnd params \<Rightarrow> ([], snd (update_end params b))
      | Shutdown \<Rightarrow> ([], b\<lparr>br_stopping := True\<rparr>))"

end
