(* ===== verification/SessionFacts.thy ===== *)
theory SessionFacts
  imports SessionLife
begin

text \<open>
  The lemmas on one session: what every part of a job may change, that an input reaches the backend only
  under the policy of that moment, the shape of the receipts, and the well-formedness invariant.
\<close>

section \<open>What the parts of a job leave alone\<close>

text \<open>Everything but the policy, the journal, the activity, the queue and the results.\<close>

definition skeleton :: "session \<Rightarrow> session" where
  "skeleton s = s\<lparr>s_policy := read_only_policy, s_version := 0, s_journal := [], s_tainted := False, s_activity := None,
     s_last := 0, s_queue := [], s_results := []\<rparr>"

lemma skeleton_simps [simp]:
  "skeleton (record_line e s) = skeleton s" "skeleton (set_policy p s) = skeleton s"
  "skeleton (track_begin c who t s) = skeleton s" "skeleton (track_end c ok s) = skeleton s"
  "skeleton (tainted_by t s) = skeleton s" "skeleton (finish j o' s) = skeleton s" "skeleton (wait_in j ph s) = skeleton s"
  by (simp_all add: skeleton_def record_line_def set_policy_def track_begin_def track_end_def tainted_by_def finish_def
    wait_in_def Let_def)

lemma skeleton_fields:
  assumes "skeleton s' = skeleton s"
  shows "s_state s' = s_state s" "s_pause s' = s_pause s" "s_close s' = s_close s" "s_next s' = s_next s"
    "s_requests s' = s_requests s" "s_timer s' = s_timer s" "s_forced s' = s_forced s" "s_orphan s' = s_orphan s"
    "s_id s' = s_id s" "s_owner s' = s_owner s" "s_caps s' = s_caps s" "s_app s' = s_app s" "s_resuming s' = s_resuming s"
    "s_grace s' = s_grace s" "s_lease s' = s_lease s" "s_workspace s' = s_workspace s" "s_role s' = s_role s"
  using arg_cong [OF assms, of s_state] arg_cong [OF assms, of s_pause] arg_cong [OF assms, of s_close]
    arg_cong [OF assms, of s_next] arg_cong [OF assms, of s_requests] arg_cong [OF assms, of s_timer]
    arg_cong [OF assms, of s_forced] arg_cong [OF assms, of s_orphan] arg_cong [OF assms, of s_id]
    arg_cong [OF assms, of s_owner] arg_cong [OF assms, of s_caps] arg_cong [OF assms, of s_app]
    arg_cong [OF assms, of s_resuming] arg_cong [OF assms, of s_grace] arg_cong [OF assms, of s_lease]
    arg_cong [OF assms, of s_workspace] arg_cong [OF assms, of s_role]
  by (simp_all add: skeleton_def)

lemma skeleton_open: "skeleton s' = skeleton s \<Longrightarrow> is_open s' = is_open s"
  by (drule skeleton_fields(1)) (simp add: is_open_def)

lemma record_line_fields [simp]:
  "s_queue (record_line e s) = s_queue s"
  "s_results (record_line e s) = s_results s"
  "s_policy (record_line e s) = s_policy s"
  "s_version (record_line e s) = s_version s"
  "s_tainted (record_line e s) = s_tainted s"
  "s_state (record_line e s) = s_state s"
  by (simp_all add: record_line_def Let_def)

lemma track_begin_fields [simp]:
  "s_queue (track_begin c w t s) = s_queue s"
  "s_results (track_begin c w t s) = s_results s"
  "s_policy (track_begin c w t s) = s_policy s"
  "s_version (track_begin c w t s) = s_version s"
  "s_tainted (track_begin c w t s) = s_tainted s"
  "s_state (track_begin c w t s) = s_state s"
  "s_journal (track_begin c w t s) = s_journal s"
  by (simp_all add: track_begin_def)

lemma track_end_fields [simp]:
  "s_queue (track_end c ok s) = s_queue s"
  "s_results (track_end c ok s) = s_results s"
  "s_policy (track_end c ok s) = s_policy s"
  "s_version (track_end c ok s) = s_version s"
  "s_tainted (track_end c ok s) = s_tainted s"
  "s_state (track_end c ok s) = s_state s"
  "s_journal (track_end c ok s) = s_journal s"
  by (simp_all add: track_end_def)

lemma set_policy_fields [simp]:
  "s_queue (set_policy p s) = s_queue s" "s_results (set_policy p s) = s_results s" "s_policy (set_policy p s) = p"
  "s_version (set_policy p s) = Suc (s_version s)" "s_tainted (set_policy p s) = s_tainted s"
  "s_state (set_policy p s) = s_state s" "s_journal (set_policy p s) = s_journal s"
  by (simp_all add: set_policy_def)

lemma tainted_by_fields [simp]:
  "s_queue (tainted_by t s) = s_queue s" "s_results (tainted_by t s) = s_results s" "s_policy (tainted_by t s) = s_policy s"
  "s_version (tainted_by t s) = s_version s" "s_state (tainted_by t s) = s_state s" "s_journal (tainted_by t s) = s_journal s"
  by (simp_all add: tainted_by_def)

lemma is_open_simps [simp]:
  "is_open (record_line e s) = is_open s" "is_open (set_policy p s) = is_open s" "is_open (track_begin c w t s) = is_open s"
  "is_open (track_end c ok s) = is_open s" "is_open (tainted_by t s) = is_open s"
  by (simp_all add: is_open_def)

lemma tainted_keeps: "s_tainted s \<Longrightarrow> s_tainted (tainted_by t s)"
  by (simp add: tainted_by_def)

lemma journal_record: "length (s_journal (record_line e s)) \<le> journal_limit"
  by (simp add: record_line_def Let_def)

section \<open>Policies only narrow\<close>

definition policy_le :: "policy \<Rightarrow> policy \<Rightarrow> bool" where
  "policy_le p' p \<longleftrightarrow> (\<forall>t. permits (judge_native p' t) \<longrightarrow> judge_native p t = judge_native p' t)"

lemma policy_le_refl [simp]: "policy_le p p"
  by (simp add: policy_le_def)

lemma policy_le_trans: "policy_le p'' p' \<Longrightarrow> policy_le p' p \<Longrightarrow> policy_le p'' p"
  by (simp add: policy_le_def)

lemma policy_le_narrow [simp]: "policy_le (narrow p lo la) p"
  unfolding policy_le_def judge_native_def using narrow_keeps_permits by blast

text \<open>The policy object is the same one, or a later and narrower one.\<close>

definition narrowed :: "session \<Rightarrow> session \<Rightarrow> bool" where
  "narrowed s s' \<longleftrightarrow> (s_version s' = s_version s \<and> s_policy s' = s_policy s)
     \<or> (s_version s < s_version s' \<and> policy_le (s_policy s') (s_policy s))"

lemma narrowed_refl [simp]: "narrowed s s"
  by (simp add: narrowed_def)

lemma narrowed_trans: "narrowed s s' \<Longrightarrow> narrowed s' s'' \<Longrightarrow> narrowed s s''"
  unfolding narrowed_def by (elim disjE) (auto intro: policy_le_trans)

lemma narrowed_same: "s_version s' = s_version s \<Longrightarrow> s_policy s' = s_policy s \<Longrightarrow> narrowed s s'"
  by (simp add: narrowed_def)

lemma narrowed_simps [simp]:
  "narrowed s (record_line e s') = narrowed s s'" "narrowed s (track_begin c w t s') = narrowed s s'"
  "narrowed s (track_end c ok s') = narrowed s s'" "narrowed s (tainted_by t s') = narrowed s s'"
  by (simp_all add: narrowed_def)

lemma narrowed_policy_le: "narrowed s s' \<Longrightarrow> policy_le (s_policy s') (s_policy s)"
  by (auto simp: narrowed_def)

section \<open>Inputs to the backend\<close>

definition is_act :: "effect \<Rightarrow> bool" where
  "is_act e = (case e of BackendAct j i a \<Rightarrow> True | _ \<Rightarrow> False)"

definition permitted :: "session \<Rightarrow> jsobj \<Rightarrow> bool" where
  "permitted s a \<longleftrightarrow> permits (judge_native (s_policy s) (action_type a))"

text \<open>A wait for the usage setting is only as good as the policy it was asked under.\<close>

definition wait_ok :: "session \<Rightarrow> jsobj \<Rightarrow> action_phase \<Rightarrow> bool" where
  "wait_ok s a ph \<longleftrightarrow> (case ph of InUsage v \<Rightarrow> v \<le> s_version s \<and> (v = s_version s \<longrightarrow> permitted s a) | _ \<Rightarrow> True)"

lemma wait_ok_narrowed: "narrowed s s' \<Longrightarrow> wait_ok s a ph \<Longrightarrow> wait_ok s' a ph"
  by (cases ph) (auto simp: narrowed_def wait_ok_def permitted_def)

text \<open>What any part of an action may do.\<close>

definition part_ok :: "nat \<Rightarrow> nat \<Rightarrow> jsobj \<Rightarrow> session \<Rightarrow> progress \<times> effect list \<times> session \<Rightarrow> bool" where
  "part_ok jid idx a s r = (case r of (p, es, s') \<Rightarrow>
     skeleton s' = skeleton s \<and> s_queue s' = s_queue s \<and> s_results s' = s_results s \<and> narrowed s s'
     \<and> s_version s' = s_version s \<and> (s_tainted s \<longrightarrow> s_tainted s') \<and> (length (s_journal s) \<le> journal_limit \<longrightarrow> length (s_journal s') \<le> journal_limit)
     \<and> (case p of
          Pending InAct \<Rightarrow> es = [BackendAct jid idx a] \<and> permitted s' a \<and> is_open s'
        | Pending ph \<Rightarrow> \<not> list_ex is_act es \<and> wait_ok s' a ph
        | Finished v \<Rightarrow> es = []))"

lemma part_ok_same:
  assumes "part_ok jid idx a s1 r" and "skeleton s1 = skeleton s" "s_queue s1 = s_queue s" "s_results s1 = s_results s"
    "narrowed s s1" "s_version s1 = s_version s" "s_tainted s \<longrightarrow> s_tainted s1" "length (s_journal s) \<le> journal_limit \<longrightarrow> length (s_journal s1) \<le> journal_limit"
  shows "part_ok jid idx a s r"
  using assms by (auto simp: part_ok_def intro: narrowed_trans)

lemma start_guarded_ok:
  assumes "permitted s a"
  shows "part_ok jid idx a s (start_guarded c jid idx a s)"
proof -
  have "permitted (track_begin c w t s) a" for w t using assms by (simp add: permitted_def)
  then show ?thesis by (simp add: start_guarded_def part_ok_def Let_def is_act_def wait_ok_def)
qed

lemma immune_needs_address: "immune_match U t None m i = None"
  by (simp add: immune_match_def)

text \<open>The immune set matches addresses, and a native action has none.\<close>

lemma judge_native_not_immune: "immune_of (judge_native p t) = None"
  by (auto simp: judge_native_def decide_def immune_needs_address Let_def split: option.splits)

lemma refuse_ok:
  assumes "immune_of d = None"
  shows "part_ok jid idx a s (Finished (Err (fst (refuse c t len request d by s))), [], snd (refuse c t len request d by s))"
  using assms by (auto simp: part_ok_def refuse_def truthy_text_def journal_record)

lemma admit_cases:
  assumes "admit c a len request True s = (r, s')"
  obtains (refused) e d where "r = Refused e" "judge_native (s_policy s) (action_type a) = d" "\<not> permits d"
      "part_ok jid idx a s (Finished (Err e), [], s')"
  | (now) e where "r = RunNow" "judge_native (s_policy s) (action_type a) = Allow" "s' = record_line e s"
  | (consult) d rs i where "r = Consulting d" "judge_native (s_policy s) (action_type a) = d" "d = Consult rs i" "s' = s"
proof (cases "judge_native (s_policy s) (action_type a)")
  case Allow
  then show ?thesis using assms now by (auto simp: admit_def Let_def)
next
  case (Deny r' i m)
  moreover have "immune_of (Deny r' i m) = None" using judge_native_not_immune [of "s_policy s" "action_type a"] Deny by simp
  ultimately show ?thesis using assms refuse_ok [of "Deny r' i m" jid idx a s c "action_type a" len request None]
    by (intro refused [of "fst (refuse c (action_type a) len request (Deny r' i m) None s)"])
      (auto simp: admit_def Let_def split: prod.splits)
next
  case (Ask x)
  then show ?thesis using assms by (intro refused) (auto simp: admit_def Let_def part_ok_def journal_record)
next
  case (Consult x i)
  then show ?thesis using assms by (intro consult) (auto simp: admit_def Let_def)
qed

lemma begin_action_ok: "part_ok jid idx a s (begin_action c jid idx request len a s)"
proof (cases "admit c a len request True s")
  case (Pair r s')
  from Pair show ?thesis
  proof (cases rule: admit_cases [where jid = jid and idx = idx])
    case (refused e d)
    then show ?thesis using Pair by (simp add: begin_action_def)
  next
    case (now e)
    have "part_ok jid idx a s' (start_guarded c jid idx a s')"
      using now by (intro start_guarded_ok) (simp add: permitted_def)
    then have "part_ok jid idx a s (start_guarded c jid idx a s')"
      by (rule part_ok_same) (use now in \<open>auto simp: journal_record\<close>)
    then show ?thesis using Pair now by (simp add: begin_action_def)
  next
    case (consult d rs i)
    then show ?thesis using Pair by (simp add: begin_action_def part_ok_def is_act_def wait_ok_def)
  qed
qed

lemma advisor_answered_ok:
  assumes im: "immune_of answer = None"
  shows "part_ok jid idx a s (advisor_answered c jid idx request len a v answer by s)"
proof (cases "is_open s")
  case op: True
  have deny: "part_ok jid idx a s (case refuse c t len request d who s of (e, s') \<Rightarrow> (Finished (Err e), [], s'))"
    if "immune_of d = None" for t d who
    using refuse_ok [OF that, of jid idx a s c t len request who] by (cases "refuse c t len request d who s") simp
  have deny': "part_ok jid idx a s (case refuse c t len request (Deny x i m) who s of (e, s') \<Rightarrow> (Finished (Err e), [], s'))"
    if "m = None" for t x i m who
    using deny [of "Deny x i m"] that by simp
  have none: "m = None" if "judge_native (s_policy s) t = Deny x i m" for x i m t
    using judge_native_not_immune [of "s_policy s" t] that by simp
  show ?thesis
  proof (cases "permits (judge_native (s_policy s) (action_type a))")
    case True
    have start: "part_ok jid idx a s (start_guarded c jid idx a (record_line e s))" for e
      by (rule part_ok_same [OF start_guarded_ok]) (use True in \<open>auto simp: permitted_def journal_record\<close>)
    show ?thesis
      using True op deny' start im
      by (cases "judge_native (s_policy s) (action_type a)"; cases answer)
        (auto simp: advisor_answered_def Let_def)
  next
    case False
    show ?thesis
    proof (cases "judge_native (s_policy s) (action_type a)")
      case (Deny x i m)
      then show ?thesis using op deny' [OF none [OF Deny]] by (simp add: advisor_answered_def Let_def)
    next
      case (Ask x)
      then show ?thesis using op by (simp add: advisor_answered_def Let_def part_ok_def journal_record)
    qed (use False in simp_all)
  qed
qed (simp add: advisor_answered_def part_ok_def)

lemma usage_answered_ok:
  assumes "wait_ok s a (InUsage v)"
  shows "part_ok jid idx a s (usage_answered c jid idx a v r s)"
  using assms
  by (auto simp: usage_answered_def Let_def part_ok_def wait_ok_def semantic_running_def permitted_def
    split: option.splits sum.splits if_splits)

lemma act_answered_ok: "part_ok jid idx a s (act_answered c a r s)"
  by (cases r) (auto simp: act_answered_def part_ok_def tainted_keeps)

lemma action_answered_ok:
  assumes "action_answered c jid idx request len a ph ans s = Some r" and "wait_ok s a ph"
  shows "part_ok jid idx a s r"
proof -
  consider (adv) v d process where "ph = InAdvisor v d" "ans = AdvisorIs process"
    | (usage) v x where "ph = InUsage v" "ans = UsageIs x" | (act) x where "ph = InAct" "ans = ActIs x"
    using assms(1) by (cases ph; cases ans) (simp_all add: action_answered_def)
  then show ?thesis
  proof cases
    case adv
    obtain answer who where cs: "consult_answer (advisor_timeout_of (s_policy s)) (case rule_of d of None \<Rightarrow> [] | Some i \<Rightarrow> i) process
        = (answer, who)" by fastforce
    then have "immune_of answer = None" using consult_no_immune by (metis fst_conv)
    then have "part_ok jid idx a s (advisor_answered c jid idx request len a v answer who s)" by (rule advisor_answered_ok)
    then show ?thesis using assms(1) adv cs by (simp add: action_answered_def)
  next
    case usage
    then show ?thesis using assms usage_answered_ok by (simp add: action_answered_def) metis
  next
    case act
    then show ?thesis using assms(1) act_answered_ok by (simp add: action_answered_def) metis
  qed
qed

section \<open>Receipts\<close>

definition receipt_index :: "receipt \<Rightarrow> nat" where
  "receipt_index r = (case r of Receipt_Ok i t v \<Rightarrow> i | Receipt_Failed i t x e \<Rightarrow> i | Receipt_Skipped i t x \<Rightarrow> i)"

text \<open>Successes, at most one failure, then nothing was attempted; the receipts are numbered in order.\<close>

definition receipts_shape :: "receipt list \<Rightarrow> bool" where
  "receipts_shape rs \<longleftrightarrow> map receipt_index rs = [0 ..< length rs]
     \<and> (\<exists>oks mid rest. rs = oks @ mid @ rest \<and> list_all receipt_ok oks \<and> length mid \<le> 1
          \<and> list_all (\<lambda>r. \<not> receipt_ok r \<and> \<not> receipt_skipped r) mid \<and> list_all receipt_skipped rest)"

text \<open>The loop has settled the first \<open>n\<close> actions.\<close>

definition progress_ok :: "nat \<Rightarrow> batch_progress \<Rightarrow> bool" where
  "progress_ok n bp \<longleftrightarrow> length (bp_receipts bp) = n \<and> receipts_shape (bp_receipts bp)
     \<and> (bp_stopped bp = None \<longrightarrow> list_all receipt_ok (bp_receipts bp))"

lemma progress_ok_start [simp]: "progress_ok 0 \<lparr>bp_receipts = [], bp_stopped = None, bp_since = d\<rparr>"
  by (simp add: progress_ok_def receipts_shape_def)

lemma shape_snoc_ok:
  assumes "list_all receipt_ok rs" and "map receipt_index rs = [0 ..< length rs]" and "receipt_index r = length rs"
  shows "receipts_shape (rs @ [r])"
proof -
  have idx: "map receipt_index (rs @ [r]) = [0 ..< length (rs @ [r])]" using assms by simp
  consider "receipt_ok r" | "\<not> receipt_ok r" "\<not> receipt_skipped r" | "receipt_skipped r" by blast
  then have "\<exists>oks mid rest. rs @ [r] = oks @ mid @ rest \<and> list_all receipt_ok oks \<and> length mid \<le> 1
          \<and> list_all (\<lambda>r. \<not> receipt_ok r \<and> \<not> receipt_skipped r) mid \<and> list_all receipt_skipped rest"
  proof cases
    case 1
    then show ?thesis using assms(1) by (intro exI [of _ "rs @ [r]"] exI [of _ "[]"]) simp
  next
    case 2
    then show ?thesis using assms(1) by (intro exI [of _ rs] exI [of _ "[r]"] exI [of _ "[]"]) simp
  next
    case 3
    then show ?thesis using assms(1) by (intro exI [of _ rs] exI [of _ "[]"] exI [of _ "[r]"]) simp
  qed
  then show ?thesis using idx by (simp add: receipts_shape_def)
qed

lemma shape_snoc_skipped:
  assumes "receipts_shape rs" and "receipt_index r = length rs" and "receipt_skipped r"
  shows "receipts_shape (rs @ [r])"
proof -
  from assms(1) obtain oks mid rest where "rs = oks @ mid @ rest" "list_all receipt_ok oks" "length mid \<le> 1"
    "list_all (\<lambda>r. \<not> receipt_ok r \<and> \<not> receipt_skipped r) mid" "list_all receipt_skipped rest"
    unfolding receipts_shape_def by blast
  then have "\<exists>oks mid rest. rs @ [r] = oks @ mid @ rest \<and> list_all receipt_ok oks \<and> length mid \<le> 1
          \<and> list_all (\<lambda>r. \<not> receipt_ok r \<and> \<not> receipt_skipped r) mid \<and> list_all receipt_skipped rest"
    using assms(3) by (intro exI [of _ oks] exI [of _ mid] exI [of _ "rest @ [r]"]) simp
  then show ?thesis using assms(1,2) by (simp add: receipts_shape_def)
qed

lemma skip_action_ok: "progress_ok n bp \<Longrightarrow> progress_ok (Suc n) (skip_action n t reason bp)"
  unfolding progress_ok_def skip_action_def push_receipt_def
  by (auto intro!: shape_snoc_skipped simp: receipt_index_def receipt_skipped_def)

lemma settle_action_ok:
  assumes "settle_action n t r bp s = NextAction bp'" and "progress_ok n bp" and "bp_stopped bp = None"
  shows "progress_ok (Suc n) bp'"
proof -
  have rs: "list_all receipt_ok (bp_receipts bp)" "map receipt_index (bp_receipts bp) = [0 ..< length (bp_receipts bp)]"
    "length (bp_receipts bp) = n"
    using assms(2,3) by (auto simp: progress_ok_def receipts_shape_def)
  show ?thesis
  proof (cases r)
    case (Inr v)
    then show ?thesis using assms(1) rs
      by (auto simp: settle_action_def progress_ok_def push_receipt_def receipt_index_def receipt_ok_def intro!: shape_snoc_ok)
  next
    case (Inl e)
    then show ?thesis using assms(1) rs
      by (auto simp: settle_action_def progress_ok_def push_receipt_def receipt_index_def Let_def intro!: shape_snoc_ok split: if_splits)
  qed
qed

section \<open>The loop of a batch\<close>

text \<open>What a turn may leave behind when it stops for an answer.\<close>

definition halt_ok :: "jsobj list \<Rightarrow> session \<Rightarrow> phase \<Rightarrow> bool" where
  "halt_ok as s ph \<longleftrightarrow> (case ph of
       Settling bp \<Rightarrow> progress_ok (length (bp_receipts bp)) bp \<and> bp_stopped bp = None \<and> length (bp_receipts bp) < length as
     | BatchAction bp ap \<Rightarrow> progress_ok (length (bp_receipts bp)) bp \<and> bp_stopped bp = None
         \<and> length (bp_receipts bp) < length as \<and> wait_ok s (as ! length (bp_receipts bp)) ap
     | _ \<Rightarrow> False)"

text \<open>The actions an effect list delivers, by job and place.\<close>

definition acts :: "effect list \<Rightarrow> (nat \<times> nat) list" where
  "acts es = List.map_filter (\<lambda>e. case e of BackendAct j i a \<Rightarrow> Some (j, i) | _ \<Rightarrow> None) es"

lemma acts_simps [simp]:
  "acts [] = []" "acts (e # es) = (case e of BackendAct j i a \<Rightarrow> (j, i) # acts es | _ \<Rightarrow> acts es)"
  "acts (es @ es') = acts es @ acts es'"
  by (auto simp: acts_def map_filter_def split: effect.splits)

lemma acts_none: "\<not> list_ex is_act es \<Longrightarrow> acts es = []"
  by (induction es) (auto simp: is_act_def split: effect.splits)

text \<open>Every delivered action is permitted by the policy of the moment, in an open session.\<close>

definition acts_permitted :: "effect list \<Rightarrow> session \<Rightarrow> bool" where
  "acts_permitted es s \<longleftrightarrow> (\<forall>j i a. BackendAct j i a \<in> set es \<longrightarrow> permitted s a \<and> is_open s)"

lemma acts_permitted_none: "\<not> list_ex is_act es \<Longrightarrow> acts_permitted es s"
  by (auto simp: acts_permitted_def list_ex_iff is_act_def)

text \<open>A part of a job, seen from outside.\<close>

definition quiet_change :: "session \<Rightarrow> session \<Rightarrow> bool" where
  "quiet_change s s' \<longleftrightarrow> skeleton s' = skeleton s \<and> s_queue s' = s_queue s \<and> s_results s' = s_results s \<and> narrowed s s'
     \<and> s_version s' = s_version s
     \<and> (s_tainted s \<longrightarrow> s_tainted s') \<and> (length (s_journal s) \<le> journal_limit \<longrightarrow> length (s_journal s') \<le> journal_limit)"

lemma quiet_refl [simp]: "quiet_change s s"
  by (simp add: quiet_change_def)

lemma quiet_trans: "quiet_change s s' \<Longrightarrow> quiet_change s' s'' \<Longrightarrow> quiet_change s s''"
  by (auto simp: quiet_change_def intro: narrowed_trans)

lemma part_ok_iff:
  "part_ok jid idx a s (p, es, s') \<longleftrightarrow> quiet_change s s' \<and>
     (case p of
          Pending InAct \<Rightarrow> es = [BackendAct jid idx a] \<and> permitted s' a \<and> is_open s'
        | Pending ph \<Rightarrow> \<not> list_ex is_act es \<and> wait_ok s' a ph
        | Finished v \<Rightarrow> es = [])"
  by (auto simp: part_ok_def quiet_change_def)

text \<open>The loop, from action \<open>idx\<close> on.\<close>

definition loop_ok :: "nat \<Rightarrow> jsobj list \<Rightarrow> nat \<Rightarrow> session \<Rightarrow> effect list \<times> session \<times> loop_step \<Rightarrow> bool" where
  "loop_ok jid as idx s r = (case r of (es, s', st) \<Rightarrow>
     quiet_change s s' \<and> acts_permitted es s'
     \<and> (case st of
          NextAction bp \<Rightarrow> acts es = [] \<and> progress_ok (length as) bp
        | Abort e \<Rightarrow> acts es = []
        | HaltIn ph \<Rightarrow> halt_ok as s' ph \<and>
            (case ph of
               Settling bp \<Rightarrow> acts es = [] \<and> idx \<le> length (bp_receipts bp)
             | BatchAction bp InAct \<Rightarrow> acts es = [(jid, length (bp_receipts bp))] \<and> idx \<le> length (bp_receipts bp)
             | BatchAction bp ap \<Rightarrow> acts es = [] \<and> idx \<le> length (bp_receipts bp)
             | _ \<Rightarrow> False)))"

text \<open>One turn: as the loop, but the next action may still be to come.\<close>

definition turn_ok :: "nat \<Rightarrow> jsobj list \<Rightarrow> nat \<Rightarrow> session \<Rightarrow> effect list \<times> session \<times> loop_step \<Rightarrow> bool" where
  "turn_ok jid as idx s r = (case r of (es, s', st) \<Rightarrow>
     quiet_change s s' \<and> acts_permitted es s'
     \<and> (case st of
          NextAction bp \<Rightarrow> acts es = [] \<and> progress_ok (Suc idx) bp
        | Abort e \<Rightarrow> acts es = []
        | HaltIn ph \<Rightarrow> halt_ok as s' ph \<and>
            (case ph of
               Settling bp \<Rightarrow> acts es = [] \<and> idx = length (bp_receipts bp)
             | BatchAction bp InAct \<Rightarrow> acts es = [(jid, idx)] \<and> idx = length (bp_receipts bp)
             | BatchAction bp ap \<Rightarrow> acts es = [] \<and> idx = length (bp_receipts bp)
             | _ \<Rightarrow> False)))"

lemma after_batch_action_ok:
  assumes r: "part_ok jid idx (as ! idx) s r" and p: "progress_ok idx bp" "bp_stopped bp = None" "idx < length as"
  shows "turn_ok jid as idx s (after_batch_action idx t bp r)"
proof -
  obtain pr es s' where r': "r = (pr, es, s')" by (cases r)
  have len: "length (bp_receipts bp) = idx" using p(1) by (simp add: progress_ok_def)
  show ?thesis
  proof (cases pr)
    case (Finished v)
    then have q: "quiet_change s s'" "es = []" using r by (simp_all add: r' part_ok_iff)
    show ?thesis
    proof (cases "settle_action idx t v bp s'")
      case (NextAction bp')
      then show ?thesis using q settle_action_ok [OF NextAction p(1,2)] Finished r'
        by (simp add: after_batch_action_def turn_ok_def acts_permitted_def)
    next
      case (HaltIn ph)
      then show ?thesis by (auto simp: settle_action_def Let_def split: sum.splits if_splits)
    next
      case (Abort e)
      then show ?thesis using q Finished r' by (simp add: after_batch_action_def turn_ok_def acts_permitted_def)
    qed
  next
    case (Pending ph)
    show ?thesis
    proof (cases ph)
      case InAct
      then show ?thesis using r Pending p len r'
        by (simp add: part_ok_iff after_batch_action_def turn_ok_def halt_ok_def wait_ok_def acts_permitted_def)
    next
      case (InUsage v)
      then show ?thesis using r Pending p len r'
        by (simp add: part_ok_iff after_batch_action_def turn_ok_def halt_ok_def acts_none acts_permitted_none)
    next
      case (InAdvisor v d)
      then show ?thesis using r Pending p len r'
        by (simp add: part_ok_iff after_batch_action_def turn_ok_def halt_ok_def acts_none acts_permitted_none)
    qed
  qed
qed

lemma turn_ok_next:
  "quiet_change s s' \<Longrightarrow> progress_ok (Suc idx) bp \<Longrightarrow> turn_ok jid as idx s ([], s', NextAction bp)"
  by (simp add: turn_ok_def acts_permitted_def)

lemma try_action_ok:
  assumes "progress_ok idx bp" "bp_stopped bp = None" "idx < length as"
  shows "turn_ok (j_id j) as idx s (try_action c j idx (as ! idx) bp s)"
proof (cases "is_open s \<and> s_state s = StRunning")
  case False
  then show ?thesis using assms(1)
    by (auto simp: try_action_def Let_def turn_ok_def acts_permitted_def skip_action_ok)
next
  case True
  show ?thesis
  proof (cases "input_length (as ! idx)")
    case None
    obtain bp' where n: "settle_action idx (action_type (as ! idx)) (Err OtherError) bp s = NextAction bp'"
      using True by (simp add: settle_action_def Let_def)
    then have "progress_ok (Suc idx) bp'" using settle_action_ok assms(1,2) by blast
    then show ?thesis using None True n by (simp add: try_action_def Let_def turn_ok_next)
  next
    case (Some len)
    then show ?thesis using True after_batch_action_ok [OF begin_action_ok assms]
      by (simp add: try_action_def Let_def)
  qed
qed

lemma batch_turn_ok:
  assumes p: "progress_ok idx bp" and i: "idx < length as"
  shows "turn_ok (j_id j) as idx s (batch_turn c j prev idx (as ! idx) bp s)"
proof (cases "if bp_stopped bp = None \<and> s_state s \<noteq> StRunning then Some ''PAUSED'' else bp_stopped bp")
  case (Some reason)
  then show ?thesis using skip_action_ok [OF p] by (simp add: batch_turn_def Let_def turn_ok_next)
next
  case None
  then have st: "bp_stopped bp = None" by (simp split: if_splits)
  have len: "length (bp_receipts bp) = idx" using p by (simp add: progress_ok_def)
  show ?thesis
  proof (cases "map_option action_type prev = Some ''click'' \<and> action_type (as ! idx) \<in> set [''text'', ''key'']")
    case True
    then show ?thesis using None p st i len
      by (simp add: batch_turn_def Let_def turn_ok_def halt_ok_def acts_permitted_def)
  next
    case False
    then have "batch_turn c j prev idx (as ! idx) bp s = try_action c j idx (as ! idx) bp s"
      using None by (simp only: batch_turn_def Let_def option.case if_False)
    then show ?thesis using try_action_ok [OF p st i] by simp
  qed
qed

lemma loop_of_turn:
  assumes "turn_ok jid as idx s (es, s', st)" and "\<And>bp. st \<noteq> NextAction bp"
  shows "loop_ok jid as idx s (es, s', st)"
  using assms by (cases st) (auto simp: turn_ok_def loop_ok_def split: phase.splits action_phase.splits)

lemma loop_after_turn:
  assumes turn: "turn_ok jid as idx s (es, s1, NextAction bp)" and loop: "loop_ok jid as (Suc idx) s1 (es', s2, st)"
  shows "loop_ok jid as (Suc idx) s (es @ es', s2, st)"
proof -
  have t: "quiet_change s s1" "acts es = []" using turn by (simp_all add: turn_ok_def)
  have l: "quiet_change s1 s2" "acts_permitted es' s2" using loop by (simp_all add: loop_ok_def)
  have none: "BackendAct j i a \<notin> set es" for j i a
  proof
    assume "BackendAct j i a \<in> set es"
    then have "(j, i) \<in> set (acts es)" by (induction es) (auto split: effect.splits)
    then show False using t(2) by simp
  qed
  have "acts_permitted (es @ es') s2" using l(2) none by (auto simp: acts_permitted_def)
  moreover have "quiet_change s s2" using t(1) l(1) by (rule quiet_trans)
  ultimately show ?thesis using loop t(2)
    by (auto simp: loop_ok_def split: loop_step.splits phase.splits action_phase.splits)
qed

lemma loop_ok_weaken:
  assumes "loop_ok jid as (Suc idx) s r"
  shows "loop_ok jid as idx s r"
proof -
  obtain es s' st where r: "r = (es, s', st)" by (cases r)
  show ?thesis
  proof (cases st)
    case (HaltIn ph)
    show ?thesis
    proof (cases ph)
      case (BatchAction bp ap)
      then show ?thesis using assms r HaltIn by (cases ap) (simp_all add: loop_ok_def)
    qed (use assms r HaltIn in \<open>simp_all add: loop_ok_def\<close>)
  qed (use assms r in \<open>simp_all add: loop_ok_def\<close>)
qed

lemma batch_loop_ok:
  "rest = drop idx as \<Longrightarrow> progress_ok idx bp \<Longrightarrow> idx \<le> length as \<Longrightarrow>
     loop_ok (j_id j) as idx s (batch_loop c j prev idx rest bp s)"
proof (induction rest arbitrary: prev idx bp s)
  case Nil
  then have "idx = length as" by simp
  then show ?case using Nil.prems by (simp add: loop_ok_def acts_permitted_def)
next
  case (Cons a rest)
  have d: "drop idx as = a # rest" using Cons.prems(1) by simp
  have i: "idx < length as" using d by (metis drop_all list.distinct(1) not_le)
  have a: "a = as ! idx" and rest: "rest = drop (Suc idx) as"
    using d Cons_nth_drop_Suc [OF i] by simp_all
  obtain es s1 st where t: "batch_turn c j prev idx a bp s = (es, s1, st)" by (cases "batch_turn c j prev idx a bp s")
  have turn: "turn_ok (j_id j) as idx s (es, s1, st)" using batch_turn_ok [OF Cons.prems(2) i, of j s c prev] t a by simp
  show ?case
  proof (cases st)
    case (NextAction bp')
    then have "progress_ok (Suc idx) bp'" using turn by (simp add: turn_ok_def)
    then have "loop_ok (j_id j) as (Suc idx) s1 (batch_loop c j (Some a) (Suc idx) rest bp' s1)"
      using Cons.IH [OF rest, of bp' s1 "Some a"] i by simp
    then show ?thesis using t NextAction loop_ok_weaken [OF loop_after_turn] turn by (auto split: prod.splits)
  qed (use t turn loop_of_turn in auto)
qed

section \<open>A job from turn to outcome\<close>

definition outcome_ok :: "outcome \<Rightarrow> bool" where
  "outcome_ok o' \<longleftrightarrow> (case o' of
       DoneBatch r \<Rightarrow> receipts_shape (br_receipts r) \<and> br_completed r = length (filter receipt_ok (br_receipts r))
         \<and> (br_ok r \<longleftrightarrow> br_completed r = length (br_receipts r))
     | _ \<Rightarrow> True)"

definition phase_ok :: "session \<Rightarrow> work \<Rightarrow> phase \<Rightarrow> bool" where
  "phase_ok s w ph \<longleftrightarrow> (case w of
       SingleWork a len \<Rightarrow> (case ph of
           Waiting \<Rightarrow> True | FirstUsage \<Rightarrow> True | Preparing v \<Rightarrow> True | Releasing o' \<Rightarrow> outcome_ok o'
         | OnAction ap \<Rightarrow> wait_ok s a ap
         | _ \<Rightarrow> False)
     | BatchWork as cap \<Rightarrow> (case ph of
           Waiting \<Rightarrow> True | Baselining \<Rightarrow> True
         | Capturing bp \<Rightarrow> progress_ok (length as) bp
         | _ \<Rightarrow> halt_ok as s ph)
     | HumanWork v \<Rightarrow> ph = Waiting \<or> ph = HumanActing
     | RevealWork \<Rightarrow> ph = Waiting \<or> ph = Revealing)"

text \<open>Which places of the job may already have been delivered.\<close>

definition spent :: "phase \<Rightarrow> nat \<Rightarrow> bool" where
  "spent ph i \<longleftrightarrow> (case ph of
       OnAction InAct \<Rightarrow> i = 0
     | Releasing o' \<Rightarrow> i = 0
     | Settling bp \<Rightarrow> i < length (bp_receipts bp)
     | BatchAction bp InAct \<Rightarrow> i \<le> length (bp_receipts bp)
     | BatchAction bp ap \<Rightarrow> i < length (bp_receipts bp)
     | Capturing bp \<Rightarrow> True
     | _ \<Rightarrow> False)"

text \<open>How many answers a job may still need.\<close>

definition action_rank :: "action_phase \<Rightarrow> nat" where
  "action_rank ap = (case ap of InAdvisor v d \<Rightarrow> 2 | InUsage v \<Rightarrow> 1 | InAct \<Rightarrow> 0)"

definition work_size :: "work \<Rightarrow> nat" where
  "work_size w = (case w of BatchWork as cap \<Rightarrow> length as | _ \<Rightarrow> 1)"

definition phase_rank :: "work \<Rightarrow> phase \<Rightarrow> nat" where
  "phase_rank w ph = (let n = work_size w in case ph of
       Waiting \<Rightarrow> 5 * n + 7
     | Baselining \<Rightarrow> 5 * n + 6
     | FirstUsage \<Rightarrow> 11
     | Preparing v \<Rightarrow> 10
     | OnAction ap \<Rightarrow> 4 + action_rank ap
     | Releasing o' \<Rightarrow> 1
     | Settling bp \<Rightarrow> 5 * (n - length (bp_receipts bp)) + 4
     | BatchAction bp ap \<Rightarrow> 5 * (n - length (bp_receipts bp)) + 1 + action_rank ap
     | _ \<Rightarrow> 1)"

definition job_ok :: "session \<Rightarrow> job \<Rightarrow> job list \<Rightarrow> effect list \<times> session \<Rightarrow> bool" where
  "job_ok s j js r = (case r of (es, s') \<Rightarrow>
     skeleton s' = skeleton s \<and> narrowed s s' \<and> s_version s' = s_version s \<and> (s_tainted s \<longrightarrow> s_tainted s')
     \<and> (length (s_journal s) \<le> journal_limit \<longrightarrow> length (s_journal s') \<le> journal_limit)
     \<and> acts_permitted es s'
     \<and> ((\<exists>o'. s_queue s' = js \<and> s_results s' = s_results s @ [(j_id j, o')] \<and> outcome_ok o' \<and> acts es = [])
        \<or> (\<exists>ph. s_queue s' = j\<lparr>j_phase := ph\<rparr> # js \<and> s_results s' = s_results s \<and> phase_ok s' (j_work j) ph
             \<and> ph \<noteq> Waiting \<and> phase_rank (j_work j) ph < phase_rank (j_work j) (j_phase j)
             \<and> (\<forall>i. spent (j_phase j) i \<longrightarrow> spent ph i)
             \<and> (acts es = [] \<or> (\<exists>i. acts es = [(j_id j, i)] \<and> spent ph i \<and> \<not> spent (j_phase j) i)))))"

lemma finish_fields [simp]:
  "s_queue (finish j o' s) = tl (s_queue s)" "s_policy (finish j o' s) = s_policy s" "s_version (finish j o' s) = s_version s"
  "s_tainted (finish j o' s) = s_tainted s" "s_journal (finish j o' s) = s_journal s" "s_state (finish j o' s) = s_state s"
  by (simp_all add: finish_def)

lemma wait_in_fields [simp]:
  "s_queue (wait_in j ph s) = j\<lparr>j_phase := ph\<rparr> # tl (s_queue s)" "s_policy (wait_in j ph s) = s_policy s"
  "s_version (wait_in j ph s) = s_version s" "s_tainted (wait_in j ph s) = s_tainted s" "s_results (wait_in j ph s) = s_results s"
  "s_journal (wait_in j ph s) = s_journal s" "s_state (wait_in j ph s) = s_state s"
  by (simp_all add: wait_in_def)

lemma wait_in_open [simp]: "is_open (wait_in j ph s) = is_open s"
  by (simp add: is_open_def)

lemma wait_in_permitted [simp]: "permitted (wait_in j ph s) a = permitted s a"
  by (simp add: permitted_def)

lemma wait_in_wait_ok [simp]: "wait_ok (wait_in j ph s) a ap = wait_ok s a ap"
  by (simp add: wait_ok_def split: action_phase.split)

lemma wait_in_phase_ok [simp]: "phase_ok (wait_in j ph s) w ph' = phase_ok s w ph'"
  by (simp add: phase_ok_def halt_ok_def split: work.split phase.split)

lemma wait_in_acts_permitted [simp]: "acts_permitted es (wait_in j ph s) = acts_permitted es s"
  by (simp add: acts_permitted_def)

lemma settled_ok: "outcome_ok o' \<Longrightarrow> outcome_ok (settled s o')"
  by (cases o') (simp_all add: settled_def outcome_ok_def)

lemma acts_permitted_empty: "acts es = [] \<Longrightarrow> acts_permitted es s"
proof -
  assume none: "acts es = []"
  have "(j, i) \<in> set (acts es)" if "BackendAct j i a \<in> set es" for j i a
    using that by (induction es) (auto split: effect.splits)
  then show ?thesis using none by (auto simp: acts_permitted_def)
qed

lemma job_finish:
  assumes "s_queue s = j # js" and "quiet_change s s1" and "outcome_ok o'" and "acts es = []"
  shows "job_ok s j js (es, finish j o' s1)"
  using assms settled_ok [OF assms(3)] acts_permitted_empty [OF assms(4)]
  by (auto simp: job_ok_def quiet_change_def finish_def narrowed_def skeleton_def)

lemma job_wait:
  assumes "s_queue s = j # js" and "quiet_change s s1" and "phase_ok s1 (j_work j) ph" and "ph \<noteq> Waiting"
    and "phase_rank (j_work j) ph < phase_rank (j_work j) (j_phase j)"
    and "\<And>i. spent (j_phase j) i \<Longrightarrow> spent ph i" and "acts_permitted es s1"
    and "acts es = [] \<or> (\<exists>i. acts es = [(j_id j, i)] \<and> spent ph i \<and> \<not> spent (j_phase j) i)"
  shows "job_ok s j js (es, wait_in j ph s1)"
proof -
  have "skeleton (wait_in j ph s1) = skeleton s" "narrowed s (wait_in j ph s1)"
    "s_queue (wait_in j ph s1) = j\<lparr>j_phase := ph\<rparr> # js"
    using assms(1,2) by (auto simp: quiet_change_def narrowed_def)
  then show ?thesis using assms by (auto simp: job_ok_def quiet_change_def)
qed

lemma outcome_of_ok [simp]: "outcome_ok (outcome_of r)" "outcome_ok (Thrown e)" "outcome_ok (Done v)"
  by (auto simp: outcome_ok_def outcome_of_def split: sum.splits)

text \<open>The single action: where it comes from decides how far its answers may take it.\<close>

lemma part_pending:
  assumes "part_ok jid idx a s (Pending ap, es, s1)"
  shows "quiet_change s s1" "wait_ok s1 a ap" "acts_permitted es s1"
    "acts es = [] \<or> ap = InAct \<and> acts es = [(jid, idx)]"
proof -
  show "quiet_change s s1" using assms by (simp add: part_ok_iff)
  show "wait_ok s1 a ap" using assms by (cases ap) (simp_all add: part_ok_iff wait_ok_def)
  show "acts_permitted es s1"
    using assms by (cases ap) (simp_all add: part_ok_iff acts_permitted_none, simp add: acts_permitted_def)
  show "acts es = [] \<or> ap = InAct \<and> acts es = [(jid, idx)]"
    using assms by (cases ap) (simp_all add: part_ok_iff acts_none)
qed

lemma after_single_ok:
  assumes q: "s_queue s = j # js" and w: "j_work j = SingleWork a len"
    and r: "part_ok (j_id j) 0 a s r"
    and from_ph: "1 < phase_rank (j_work j) (j_phase j)" "\<And>i. spent (j_phase j) i \<Longrightarrow> i = 0"
    and forward: "\<And>ap. fst r = Pending ap \<Longrightarrow> 4 + action_rank ap < phase_rank (j_work j) (j_phase j) \<and> (\<forall>i. \<not> spent (j_phase j) i)"
  shows "job_ok s j js (after_single j a r)"
proof -
  obtain p es s1 where r': "r = (p, es, s1)" by (cases r)
  show ?thesis
  proof (cases p)
    case (Finished v)
    then have qc: "quiet_change s s1" and es: "es = []" using r by (simp_all add: r' part_ok_iff)
    show ?thesis
    proof (cases "is_semantic (action_type a)")
      case True
      have "job_ok s j js (es @ [BackendRelease (j_id j) a], wait_in j (Releasing (outcome_of v)) s1)"
        by (rule job_wait [OF q qc])
          (use w from_ph es in \<open>simp_all add: phase_ok_def phase_rank_def Let_def spent_def acts_permitted_def\<close>)
      then show ?thesis using True Finished r' by (simp add: after_single_def)
    next
      case False
      have "job_ok s j js (es, finish j (outcome_of v) s1)"
        by (rule job_finish [OF q qc]) (use es in simp_all)
      then show ?thesis using False Finished r' by (simp add: after_single_def)
    qed
  next
    case (Pending ap)
    then have qc: "quiet_change s s1" and wk: "wait_ok s1 a ap" and ap: "acts_permitted es s1"
      and ac: "acts es = [] \<or> ap = InAct \<and> acts es = [(j_id j, 0)]"
      using part_pending [of "j_id j" 0 a s ap es s1] r Pending r' by simp_all
    have "job_ok s j js (es, wait_in j (OnAction ap) s1)"
      using q qc wk ap ac w forward [of ap] Pending r'
      by (intro job_wait) (auto simp: phase_ok_def phase_rank_def Let_def spent_def)
    then show ?thesis using Pending r' by (simp add: after_single_def)
  qed
qed

lemma begin_action_forward: "fst (begin_action c jid idx request len a s) = Pending ap \<Longrightarrow> action_rank ap \<le> 2"
  by (cases ap) (simp_all add: action_rank_def)

lemma start_guarded_rank: "fst (start_guarded c jid idx a s) = Pending ap \<Longrightarrow> action_rank ap \<le> 1"
  by (auto simp: start_guarded_def Let_def action_rank_def split: if_splits)

lemma action_answered_forward:
  assumes "action_answered c jid idx request len a ph ans s = Some r" and "fst r = Pending ap"
  shows "action_rank ap < action_rank ph"
proof (cases ph)
  case (InAdvisor v d)
  have "action_rank ap \<le> 1"
    using assms InAdvisor start_guarded_rank [of c jid idx a _ ap]
    by (auto simp: action_answered_def advisor_answered_def Let_def split: answer.splits decision.splits if_splits prod.splits)
  then show ?thesis using InAdvisor by (simp add: action_rank_def)
next
  case (InUsage v)
  then have "ap = InAct" using assms
    by (auto simp: action_answered_def usage_answered_def Let_def split: answer.splits option.splits sum.splits if_splits)
  then show ?thesis using InUsage by (simp add: action_rank_def)
next
  case InAct
  then show ?thesis using assms
    by (auto simp: action_answered_def act_answered_def split: answer.splits sum.splits)
qed

lemma job_idle_finish:
  assumes "s_queue s = j # js" and "outcome_ok o'"
  shows "job_ok s j js ([], finish j o' s)"
  by (rule job_finish [OF assms(1) quiet_refl assms(2)]) simp

lemma start_single_ok:
  assumes q: "s_queue s = j # js" and w: "j_work j = SingleWork a len" and ph: "j_phase j = Waiting"
  shows "job_ok s j js (start_single c j a len s)"
proof (cases "is_semantic (action_type a)")
  case True
  have "job_ok s j js ([CheckUsage (s_owner s)], wait_in j FirstUsage s)"
    by (rule job_wait [OF q quiet_refl]) (simp_all add: w ph phase_ok_def phase_rank_def work_size_def spent_def acts_permitted_def)
  then show ?thesis using True job_idle_finish [OF q]
    by (auto simp: start_single_def split: sum.splits)
next
  case False
  have "job_ok s j js (after_single j a (begin_action c (j_id j) 0 (j_request j) len a s))"
    using begin_action_forward [of c "j_id j" 0 "j_request j" len a s]
    by (intro after_single_ok [OF q w begin_action_ok]) (auto simp: w ph phase_rank_def work_size_def spent_def dest: begin_action_forward)
  then show ?thesis using False by (simp add: start_single_def)
qed

lemma prepared_answered_ok:
  assumes q: "s_queue s = j # js" and w: "j_work j = SingleWork a len" and ph: "j_phase j = Preparing v"
  shows "job_ok s j js (prepared_answered c j a len v r s)"
proof -
  have rel: "job_ok s j js ([BackendRelease (j_id j) a], wait_in j (Releasing (Thrown e)) s)" for e
    by (rule job_wait [OF q quiet_refl]) (simp_all add: w ph phase_ok_def phase_rank_def spent_def acts_permitted_def)
  have act: "job_ok s j js (after_single j a (begin_action c (j_id j) 0 (j_request j) len a s))"
    by (intro after_single_ok [OF q w begin_action_ok]) (auto simp: w ph phase_rank_def spent_def dest: begin_action_forward)
  show ?thesis using rel act by (simp add: prepared_answered_def Let_def split: option.splits sum.splits)
qed

lemma single_action_answered_ok:
  assumes q: "s_queue s = j # js" and w: "j_work j = SingleWork a len" and ok: "phase_ok s (j_work j) (j_phase j)"
    and ph: "j_phase j = OnAction ap" and r: "action_answered c (j_id j) 0 (j_request j) len a ap ans s = Some r"
  shows "job_ok s j js (after_single j a r)"
proof -
  have wk: "wait_ok s a ap" using ok w ph by (simp add: phase_ok_def)
  have none: "ap = InAct \<Longrightarrow> fst r \<noteq> Pending ap'" for ap'
    using action_answered_forward [OF r, of ap'] by (auto simp: action_rank_def)
  show ?thesis
    using action_answered_forward [OF r] none
    by (intro after_single_ok [OF q w action_answered_ok [OF r wk]])
      (auto simp: ph phase_rank_def spent_def split: action_phase.splits)
qed

lemma single_answered_ok:
  assumes q: "s_queue s = j # js" and w: "j_work j = SingleWork a len" and ok: "phase_ok s (j_work j) (j_phase j)"
  shows "single_answered c j a len ans s = ([], s) \<or> job_ok s j js (single_answered c j a len ans s)"
proof (cases "j_phase j")
  case FirstUsage
  have "job_ok s j js ([BackendPrepare (j_id j) a], wait_in j (Preparing (s_version s)) s)"
    by (rule job_wait [OF q quiet_refl]) (simp_all add: w FirstUsage phase_ok_def phase_rank_def spent_def acts_permitted_def)
  then show ?thesis using FirstUsage job_idle_finish [OF q]
    by (auto simp: single_answered_def usage_checked_def split: answer.splits option.splits)
next
  case (Preparing v)
  then show ?thesis using prepared_answered_ok [OF q w Preparing]
    by (auto simp: single_answered_def split: answer.splits)
next
  case (OnAction ap)
  then show ?thesis using single_action_answered_ok [OF q w ok OnAction]
    by (cases "action_answered c (j_id j) 0 (j_request j) len a ap ans s") (auto simp: single_answered_def)
next
  case (Releasing o')
  have "outcome_ok o'" using ok w Releasing by (simp add: phase_ok_def)
  then show ?thesis using Releasing job_idle_finish [OF q, of o']
    by (auto simp: single_answered_def split: answer.splits)
qed (use ok w in \<open>simp_all add: phase_ok_def single_answered_def\<close>)

lemma batch_outcome_ok:
  assumes "progress_ok n bp"
  shows "outcome_ok (batch_outcome n bp k)"
  using assms by (auto simp: outcome_ok_def batch_outcome_def Let_def progress_ok_def)

lemma end_batch_ok:
  assumes q: "s_queue s = j # js" and qc: "quiet_change s s1" and w: "j_work j = BatchWork as cap"
    and p: "progress_ok (length as) bp" and pre: "acts es = []" and rk: "1 < phase_rank (j_work j) (j_phase j)"
  shows "job_ok s j js (es @ fst (end_batch c j as cap bp s1), snd (end_batch c j as cap bp s1))"
proof -
  have fin: "job_ok s j js (es, finish j (batch_outcome (length as) bp k) s1)" for k
    by (rule job_finish [OF q qc batch_outcome_ok [OF p] pre])
  have abort: "job_ok s j js (es, finish j (Thrown e) s1)" for e
    by (rule job_finish [OF q qc _ pre]) simp
  have rec: "job_ok s j js (es, finish j (batch_outcome (length as) bp k) (record_line l s1))" for k l
    by (rule job_finish [OF q _ batch_outcome_ok [OF p] pre]) (use qc in \<open>auto simp: quiet_change_def journal_record\<close>)
  have obs: "job_ok s j js (es @ [BackendObserve x y z d m u], wait_in j (Capturing bp) s1)" for x y z d m u
    by (rule job_wait [OF q qc])
      (use w p rk pre in \<open>auto simp: phase_ok_def phase_rank_def spent_def intro!: acts_permitted_empty\<close>)
  show ?thesis using fin abort rec obs by (auto simp: end_batch_def Let_def split: option.splits)
qed

text \<open>The receipts a halted loop has.\<close>

definition halted_at :: "phase \<Rightarrow> nat" where
  "halted_at ph = (case ph of Settling bp \<Rightarrow> length (bp_receipts bp) | BatchAction bp ap \<Rightarrow> length (bp_receipts bp) | _ \<Rightarrow> 0)"

lemma halt_job:
  assumes q: "s_queue s = j # js" and w: "j_work j = BatchWork as cap" and qc: "quiet_change s s1" "acts_permitted es s1"
    and h: "halt_ok as s1 ph" and sp: "\<And>i. spent (j_phase j) i \<Longrightarrow> i < halted_at ph"
    and rk: "phase_rank (j_work j) ph < phase_rank (j_work j) (j_phase j)"
    and ac: "acts es = [] \<or> (\<exists>bp. ph = BatchAction bp InAct \<and> acts es = [(j_id j, length (bp_receipts bp))])"
  shows "job_ok s j js (es, wait_in j ph s1)"
proof (rule job_wait [OF q qc(1) _ _ rk _ qc(2)])
  show "phase_ok s1 (j_work j) ph" using h by (cases ph) (simp_all add: w phase_ok_def halt_ok_def)
  show "ph \<noteq> Waiting" using h by (auto simp: halt_ok_def)
  show "spent ph i" if "spent (j_phase j) i" for i
    using sp [OF that] by (cases ph) (auto simp: halted_at_def spent_def split: action_phase.splits)
  show "acts es = [] \<or> (\<exists>i. acts es = [(j_id j, i)] \<and> spent ph i \<and> \<not> spent (j_phase j) i)"
    using ac sp by (fastforce simp: spent_def halted_at_def)
qed

lemma loop_result_ok:
  assumes q: "s_queue s = j # js" and w: "j_work j = BatchWork as cap" and r: "loop_ok (j_id j) as idx s r"
    and sp: "\<And>i. spent (j_phase j) i \<Longrightarrow> i < idx"
    and rk: "\<And>k. idx \<le> k \<Longrightarrow> k < length as \<Longrightarrow> 5 * (length as - k) + 4 < phase_rank (j_work j) (j_phase j)"
      "1 < phase_rank (j_work j) (j_phase j)"
  shows "job_ok s j js (after_loop c j as cap r)"
proof -
  obtain es s1 st where r': "r = (es, s1, st)" by (cases r)
  show ?thesis
  proof (cases st)
    case (NextAction bp)
    then show ?thesis using r r' end_batch_ok [OF q _ w, of s1 bp es c] rk(2)
      by (auto simp: after_loop_def loop_ok_def split: prod.splits)
  next
    case (Abort e)
    then show ?thesis using r r' job_finish [OF q, of s1 "Thrown e" es] by (simp add: after_loop_def loop_ok_def)
  next
    case (HaltIn ph)
    have qc: "quiet_change s s1" "acts_permitted es s1" "halt_ok as s1 ph" using r by (simp_all add: r' HaltIn loop_ok_def)
    have l: "idx \<le> halted_at ph" "halted_at ph < length as"
      using r qc(3) by (auto simp: r' HaltIn loop_ok_def halt_ok_def halted_at_def split: phase.splits action_phase.splits)
    have ac: "acts es = [] \<or> (\<exists>bp. ph = BatchAction bp InAct \<and> acts es = [(j_id j, length (bp_receipts bp))])"
      using r by (simp add: r' HaltIn loop_ok_def split: phase.splits action_phase.splits)
    have "phase_rank (j_work j) ph \<le> 5 * (length as - halted_at ph) + 4"
      using qc(3) by (auto simp: w halt_ok_def halted_at_def phase_rank_def work_size_def Let_def action_rank_def
        split: phase.splits action_phase.splits)
    then have "phase_rank (j_work j) ph < phase_rank (j_work j) (j_phase j)" using rk(1) [OF l] by simp
    then have "job_ok s j js (es, wait_in j ph s1)"
      using halt_job [OF q w qc(1,2,3) _ _ ac] sp l(1) by fastforce
    then show ?thesis using r' HaltIn by (simp add: after_loop_def)
  qed
qed

text \<open>Going on with the batch after the turn of the action at \<open>idx\<close>.\<close>

lemma resume_loop_ok:
  assumes q: "s_queue s = j # js" and w: "j_work j = BatchWork as cap" and r: "turn_ok (j_id j) as idx s r"
    and i: "idx < length as" and sp: "\<And>i. spent (j_phase j) i \<Longrightarrow> i \<le> idx"
    and rk: "5 * (length as - idx) < phase_rank (j_work j) (j_phase j)"
    and halt: "\<And>es s1 ph. r = (es, s1, HaltIn ph) \<Longrightarrow>
        phase_rank (j_work j) ph < phase_rank (j_work j) (j_phase j) \<and> (\<forall>i. spent (j_phase j) i \<longrightarrow> i < idx)"
  shows "job_ok s j js (resume_loop c j as cap idx r)"
proof -
  obtain es s1 st where r': "r = (es, s1, st)" by (cases r)
  show ?thesis
  proof (cases st)
    case (NextAction bp)
    have t: "turn_ok (j_id j) as idx s (es, s1, NextAction bp)" using r r' NextAction by simp
    have "loop_ok (j_id j) as (Suc idx) s1 (batch_loop c j (Some (as ! idx)) (Suc idx) (drop (Suc idx) as) bp s1)"
      using t i by (intro batch_loop_ok) (simp_all add: turn_ok_def)
    then obtain es' s2 st' where b: "batch_loop c j (Some (as ! idx)) (Suc idx) (drop (Suc idx) as) bp s1 = (es', s2, st')"
      and l: "loop_ok (j_id j) as (Suc idx) s1 (es', s2, st')" by (metis prod_cases3)
    have k: "5 * (length as - k) + 4 < phase_rank (j_work j) (j_phase j)" if "Suc idx \<le> k" "k < length as" for k
      using rk that by linarith
    have "job_ok s j js (after_loop c j as cap (es @ es', s2, st'))"
      by (rule loop_result_ok [OF q w loop_after_turn [OF t l]]) (use sp k rk i in \<open>auto simp: less_Suc_eq_le\<close>)
    then show ?thesis using r' NextAction b by (simp add: resume_loop_def)
  next
    case (Abort e)
    then show ?thesis using r r' job_finish [OF q, of s1 "Thrown e" es]
      by (simp add: resume_loop_def after_loop_def turn_ok_def)
  next
    case (HaltIn ph)
    have qc: "quiet_change s s1" "acts_permitted es s1" "halt_ok as s1 ph" using r by (simp_all add: r' HaltIn turn_ok_def)
    have l: "halted_at ph = idx"
      using r qc(3) by (auto simp: r' HaltIn turn_ok_def halt_ok_def halted_at_def split: phase.splits action_phase.splits)
    have ac: "acts es = [] \<or> (\<exists>bp. ph = BatchAction bp InAct \<and> acts es = [(j_id j, length (bp_receipts bp))])"
      using r by (auto simp: r' HaltIn turn_ok_def split: phase.splits action_phase.splits)
    have "job_ok s j js (es, wait_in j ph s1)"
      using halt_job [OF q w qc(1,2,3) _ _ ac] halt [of es s1 ph] r' HaltIn l by fastforce
    then show ?thesis using r' HaltIn by (simp add: resume_loop_def after_loop_def)
  qed
qed

lemma run_actions_ok:
  assumes q: "s_queue s = j # js" and w: "j_work j = BatchWork as cap" and ph: "j_phase j = Waiting \<or> j_phase j = Baselining"
  shows "job_ok s j js (run_actions c j as cap d s)"
  unfolding run_actions_def
  by (rule loop_result_ok [OF q w batch_loop_ok [where idx = 0]])
    (use ph in \<open>auto simp: w spent_def phase_rank_def work_size_def Let_def\<close>)

lemma start_batch_ok:
  assumes q: "s_queue s = j # js" and w: "j_work j = BatchWork as cap" and ph: "j_phase j = Waiting"
  shows "job_ok s j js (start_batch c j as cap s)"
proof -
  have "job_ok s j js ([BackendBaseline x y], wait_in j Baselining s)" for x y
    by (rule job_wait [OF q quiet_refl]) (simp_all add: w ph phase_ok_def phase_rank_def work_size_def Let_def spent_def acts_permitted_def)
  then show ?thesis using run_actions_ok [OF q w] ph by (simp add: start_batch_def)
qed

lemma captured_ok:
  assumes q: "s_queue s = j # js" and p: "progress_ok n bp"
  shows "job_ok s j js (captured c j n bp r s)"
proof -
  have rec: "job_ok s j js ([], finish j (batch_outcome n bp k) (record_line l (tainted_by t s)))" for k l t
    by (rule job_finish [OF q _ batch_outcome_ok [OF p]]) (auto simp: quiet_change_def journal_record tainted_keeps)
  show ?thesis using rec job_idle_finish [OF q] batch_outcome_ok [OF p]
    by (auto simp: captured_def Let_def split: sum.splits)
qed

lemma batch_action_answered_ok:
  assumes q: "s_queue s = j # js" and w: "j_work j = BatchWork as cap" and ph: "j_phase j = BatchAction bp ap"
    and ok: "phase_ok s (j_work j) (j_phase j)" and a: "action_answered c (j_id j) (length (bp_receipts bp)) (j_request j) len
      (as ! length (bp_receipts bp)) ap ans s = Some r"
  shows "job_ok s j js (resume_loop c j as cap (length (bp_receipts bp))
    (after_batch_action (length (bp_receipts bp)) (action_type (as ! length (bp_receipts bp))) bp r))"
proof -
  let ?idx = "length (bp_receipts bp)"
  have h: "progress_ok ?idx bp" "bp_stopped bp = None" "?idx < length as" "wait_ok s (as ! ?idx) ap"
    using ok by (simp_all add: w ph phase_ok_def halt_ok_def)
  note part = action_answered_ok [OF a h(4)]
  have turn: "turn_ok (j_id j) as ?idx s (after_batch_action ?idx (action_type (as ! ?idx)) bp r)"
    by (rule after_batch_action_ok [OF part h(1,2,3)])
  obtain pr es0 s0 where r': "r = (pr, es0, s0)" by (cases r)
  have halt: "phase_rank (j_work j) ph' < phase_rank (j_work j) (j_phase j) \<and> (\<forall>i. spent (j_phase j) i \<longrightarrow> i < ?idx)"
    if halted: "after_batch_action ?idx (action_type (as ! ?idx)) bp r = (es, s1, HaltIn ph')" for es s1 ph'
  proof (cases pr)
    case (Finished v)
    then show ?thesis using halted r' by (auto simp: after_batch_action_def settle_action_def Let_def split: sum.splits if_splits)
  next
    case (Pending ap')
    then have ph': "ph' = BatchAction bp ap'" using halted r' by (simp add: after_batch_action_def)
    have less: "action_rank ap' < action_rank ap" using action_answered_forward [OF a] r' Pending by simp
    then have "ap \<noteq> InAct" by (auto simp: action_rank_def)
    then show ?thesis using less ph' by (auto simp: w ph phase_rank_def Let_def spent_def split: action_phase.splits)
  qed
  show ?thesis
    by (rule resume_loop_ok [OF q w turn h(3) _ _ halt])
      (auto simp: w ph spent_def phase_rank_def work_size_def Let_def split: action_phase.splits)
qed

lemma settling_answered_ok:
  assumes q: "s_queue s = j # js" and w: "j_work j = BatchWork as cap" and ph: "j_phase j = Settling bp"
    and ok: "phase_ok s (j_work j) (j_phase j)"
  shows "job_ok s j js (resume_loop c j as cap (length (bp_receipts bp))
    (try_action c j (length (bp_receipts bp)) (as ! length (bp_receipts bp)) bp s))"
proof -
  let ?idx = "length (bp_receipts bp)"
  have h: "progress_ok ?idx bp" "bp_stopped bp = None" "?idx < length as"
    using ok by (simp_all add: w ph phase_ok_def halt_ok_def)
  have turn: "turn_ok (j_id j) as ?idx s (try_action c j ?idx (as ! ?idx) bp s)" by (rule try_action_ok [OF h])
  have halt: "phase_rank (j_work j) ph' < phase_rank (j_work j) (j_phase j) \<and> (\<forall>i. spent (j_phase j) i \<longrightarrow> i < ?idx)"
    if halted: "try_action c j ?idx (as ! ?idx) bp s = (es, s1, HaltIn ph')" for es s1 ph'
  proof -
    have "\<exists>ap. ph' = BatchAction bp ap"
      using halted by (auto simp: try_action_def Let_def after_batch_action_def settle_action_def
        split: if_splits option.splits prod.splits progress.splits sum.splits)
    then show ?thesis by (auto simp: w ph phase_rank_def Let_def spent_def work_size_def action_rank_def split: action_phase.splits)
  qed
  show ?thesis
    by (rule resume_loop_ok [OF q w turn h(3) _ _ halt]) (auto simp: w ph spent_def phase_rank_def work_size_def Let_def)
qed

lemma batch_answered_ok:
  assumes q: "s_queue s = j # js" and w: "j_work j = BatchWork as cap" and ok: "phase_ok s (j_work j) (j_phase j)"
  shows "batch_answered c j as cap ans s = ([], s) \<or> job_ok s j js (batch_answered c j as cap ans s)"
proof (cases "j_phase j")
  case Baselining
  then show ?thesis using run_actions_ok [OF q w] by (auto simp: batch_answered_def split: answer.splits)
next
  case (Settling bp)
  then show ?thesis using settling_answered_ok [OF q w Settling ok, of c] by (auto simp: batch_answered_def Let_def split: answer.splits)
next
  case (BatchAction bp ap)
  let ?len = "case input_length (as ! length (bp_receipts bp)) of None \<Rightarrow> None | Some l \<Rightarrow> l"
  show ?thesis
  proof (cases "action_answered c (j_id j) (length (bp_receipts bp)) (j_request j) ?len (as ! length (bp_receipts bp)) ap ans s")
    case None
    then show ?thesis using BatchAction by (simp add: batch_answered_def Let_def)
  next
    case (Some r)
    then show ?thesis using batch_action_answered_ok [OF q w BatchAction ok Some] BatchAction
      by (simp add: batch_answered_def Let_def)
  qed
next
  case (Capturing bp)
  then have "progress_ok (length as) bp" using ok by (simp add: w phase_ok_def)
  then show ?thesis using captured_ok [OF q] Capturing by (auto simp: batch_answered_def split: answer.splits)
qed (use ok w in \<open>simp_all add: phase_ok_def halt_ok_def batch_answered_def\<close>)

lemma quiet_track [simp]: "quiet_change s (track_begin c w t s)" "quiet_change s (track_end c ok s)"
  by (simp_all add: quiet_change_def)

text \<open>Nothing happens, or the head job advances.\<close>

lemma begin_job_ok:
  assumes q: "s_queue s = j # js"
  shows "begin_job c s = ([], s) \<or> job_ok s j js (begin_job c s)"
proof (cases "j_phase j = Waiting \<and> is_open s")
  case False
  then show ?thesis using job_idle_finish [OF q, of "Thrown closed_error"] q by (auto simp: begin_job_def)
next
  case True
  show ?thesis
  proof (cases "j_work j")
    case (SingleWork a len)
    then show ?thesis using start_single_ok [OF q SingleWork] True q by (simp add: begin_job_def)
  next
    case (BatchWork as cap)
    then show ?thesis using start_batch_ok [OF q BatchWork] True q by (simp add: begin_job_def)
  next
    case (HumanWork v)
    have "job_ok s j js ([BackendControl v], wait_in j HumanActing (track_begin c ''human'' t s))" for t
      by (rule job_wait [OF q]) (simp_all add: HumanWork True phase_ok_def phase_rank_def work_size_def Let_def spent_def acts_permitted_def)
    then show ?thesis using HumanWork True q job_idle_finish [OF q]
      by (auto simp: begin_job_def split: sum.splits)
  next
    case RevealWork
    have "job_ok s j js ([BackendReveal], wait_in j Revealing s)"
      by (rule job_wait [OF q]) (simp_all add: RevealWork True phase_ok_def phase_rank_def work_size_def Let_def spent_def acts_permitted_def)
    then show ?thesis using RevealWork True q by (simp add: begin_job_def)
  qed
qed

lemma answer_job_ok:
  assumes q: "s_queue s = j # js" and ok: "phase_ok s (j_work j) (j_phase j)"
  shows "answer_job c ans s = ([], s) \<or> job_ok s j js (answer_job c ans s)"
proof (cases "j_work j")
  case (SingleWork a len)
  then show ?thesis using single_answered_ok [OF q SingleWork ok] q by (simp add: answer_job_def)
next
  case (BatchWork as cap)
  then show ?thesis using batch_answered_ok [OF q BatchWork ok] q by (simp add: answer_job_def)
next
  case (HumanWork v)
  have "job_ok s j js ([], finish j o' (track_end c b s))" if "outcome_ok o'" for o' b
    by (rule job_finish [OF q _ that]) simp_all
  then show ?thesis using HumanWork q
    by (auto simp: answer_job_def split: phase.splits answer.splits sum.splits)
next
  case RevealWork
  then show ?thesis using job_idle_finish [OF q] q
    by (auto simp: answer_job_def split: phase.splits answer.splits)
qed

end
