(* ===== verification/SessionSafety.thy ===== *)
theory SessionSafety
  imports SessionFacts
begin

text \<open>
  The invariant of a session over all its events, and the lemmas the theorems of \<open>SessionClaims\<close> rest on: a request
  is delivered at most once, every delivery is permitted at its moment, authority only shrinks, an acknowledged
  pause leaves no agent work, the shape of a batch's receipts, the session's life as transitions of a small automaton,
  and the end of every job.
\<close>

section \<open>The invariant\<close>

definition agent_job :: "job \<Rightarrow> bool" where
  "agent_job j \<longleftrightarrow> (case j_work j of SingleWork a l \<Rightarrow> True | BatchWork as k \<Rightarrow> True | _ \<Rightarrow> False)"

definition queue_ok :: "session \<Rightarrow> bool" where
  "queue_ok s \<longleftrightarrow> sorted_wrt (<) (map j_id (s_queue s)) \<and> (\<forall>j \<in> set (s_queue s). j_id j < s_next s \<and> phase_ok s (j_work j) (j_phase j))
     \<and> (\<forall>j \<in> set (tl (s_queue s)). j_phase j = Waiting)"

definition requests_ok :: "session \<Rightarrow> bool" where
  "requests_ok s \<longleftrightarrow> wf_map (s_requests s) \<and> length (s_requests s) \<le> request_limit
     \<and> distinct (map (snd \<circ> snd) (s_requests s)) \<and> (\<forall>(r, fp, n) \<in> set (s_requests s). n < s_next s)"

definition pause_ok :: "session \<Rightarrow> bool" where
  "pause_ok s \<longleftrightarrow> (s_state s = StRunning \<longrightarrow> s_pause s = NotPaused)
     \<and> (s_state s = StPaused \<longrightarrow> s_pause s = Acknowledged \<and> (\<forall>j \<in> set (s_queue s). \<not> agent_job j))
     \<and> (s_state s = StPausing \<longrightarrow> (case s_pause s of
          PauseQueued n \<Rightarrow> n \<le> s_next s \<and> (\<forall>j \<in> set (s_queue s). agent_job j \<longrightarrow> j_id j < n)
        | Acknowledged \<Rightarrow> False
        | _ \<Rightarrow> (\<forall>j \<in> set (s_queue s). \<not> agent_job j)))"

definition close_ok :: "session \<Rightarrow> bool" where
  "close_ok s \<longleftrightarrow> (s_close s \<noteq> NotClosing \<or> s_timer s \<longrightarrow> \<not> is_open s)"

definition session_ok :: "session \<Rightarrow> bool" where
  "session_ok s \<longleftrightarrow> queue_ok s \<and> requests_ok s \<and> pause_ok s \<and> close_ok s \<and> length (s_journal s) \<le> journal_limit
     \<and> (\<forall>(k, o') \<in> set (s_results s). outcome_ok o')"

text \<open>Where nothing of the queue, the requests and the life changes.\<close>

lemma phase_ok_narrowed: "narrowed s s' \<Longrightarrow> phase_ok s w ph \<Longrightarrow> phase_ok s' w ph"
  using wait_ok_narrowed by (auto simp: phase_ok_def halt_ok_def split: work.splits phase.splits)

lemma queue_ok_narrowed:
  "queue_ok s \<Longrightarrow> narrowed s s' \<Longrightarrow> s_queue s' = s_queue s \<Longrightarrow> s_next s' = s_next s \<Longrightarrow> queue_ok s'"
  by (auto simp: queue_ok_def phase_ok_narrowed)

lemma session_ok_same:
  assumes "session_ok s" and "s_queue s' = s_queue s" "s_next s' = s_next s" "s_requests s' = s_requests s"
    "s_results s' = s_results s" "narrowed s s'" "length (s_journal s') \<le> journal_limit" "pause_ok s'" "close_ok s'"
  shows "session_ok s'"
  using assms queue_ok_narrowed [of s s'] by (simp add: session_ok_def requests_ok_def)

lemma pause_ok_same:
  "pause_ok s \<Longrightarrow> s_queue s' = s_queue s \<Longrightarrow> s_next s' = s_next s \<Longrightarrow> s_state s' = s_state s \<Longrightarrow> s_pause s' = s_pause s
     \<Longrightarrow> pause_ok s'"
  by (cases "s_pause s") (auto simp: pause_ok_def)

lemma close_ok_same:
  "close_ok s \<Longrightarrow> s_state s' = s_state s \<Longrightarrow> s_close s' = s_close s \<Longrightarrow> s_timer s' = s_timer s \<Longrightarrow> close_ok s'"
  by (simp add: close_ok_def is_open_def)

lemma session_ok_quiet:
  assumes ok: "session_ok s" and q: "quiet_change s s'"
  shows "session_ok s'"
proof (rule session_ok_same [OF ok])
  have sk: "skeleton s' = skeleton s" and qu: "s_queue s' = s_queue s" using q by (simp_all add: quiet_change_def)
  show "pause_ok s'" using ok skeleton_fields(1,2,4) [OF sk] qu by (auto simp: session_ok_def intro: pause_ok_same)
  show "close_ok s'" using ok skeleton_fields(1,3,6) [OF sk] by (auto simp: session_ok_def intro: close_ok_same)
  show "s_next s' = s_next s" "s_requests s' = s_requests s" using skeleton_fields(4,5) [OF sk] by auto
qed (use q ok in \<open>auto simp: quiet_change_def session_ok_def\<close>)

section \<open>The steps of the head job\<close>

lemma job_ok_parts:
  assumes "job_ok s j js (es, s')"
  shows "skeleton s' = skeleton s" "narrowed s s'" "s_tainted s \<Longrightarrow> s_tainted s'"
    "length (s_journal s) \<le> journal_limit \<Longrightarrow> length (s_journal s') \<le> journal_limit" "acts_permitted es s'"
  using assms by (simp_all add: job_ok_def)

lemma job_ok_cases:
  assumes "job_ok s j js (es, s')"
  obtains (left) o' where "s_queue s' = js" "s_results s' = s_results s @ [(j_id j, o')]" "outcome_ok o'" "acts es = []"
  | (moved) ph where "s_queue s' = j\<lparr>j_phase := ph\<rparr> # js" "s_results s' = s_results s" "phase_ok s' (j_work j) ph" "ph \<noteq> Waiting"
      "phase_rank (j_work j) ph < phase_rank (j_work j) (j_phase j)" "\<forall>i. spent (j_phase j) i \<longrightarrow> spent ph i"
      "acts es = [] \<or> (\<exists>i. acts es = [(j_id j, i)] \<and> spent ph i \<and> \<not> spent (j_phase j) i)"
  using assms unfolding job_ok_def by (simp only: prod.case) blast

lemma agent_job_phase [simp]: "agent_job (j\<lparr>j_phase := ph\<rparr>) = agent_job j"
  by (simp add: agent_job_def)

lemma session_ok_job:
  assumes ok: "session_ok s" and q: "s_queue s = j # js" and r: "job_ok s j js (es, s')"
  shows "session_ok s'"
proof -
  note parts = job_ok_parts [OF r]
  note fields = skeleton_fields [OF parts(1)]
  have qo: "queue_ok s" and po: "pause_ok s" and co: "close_ok s" using ok by (simp_all add: session_ok_def)
  have req: "requests_ok s'" using ok fields(4,5) by (simp add: session_ok_def requests_ok_def)
  have close: "close_ok s'" using co fields(1,3,6) by (auto intro: close_ok_same)
  have journal: "length (s_journal s') \<le> journal_limit" using ok parts(4) by (simp add: session_ok_def)
  have old: "phase_ok s' (j_work x) (j_phase x)" if "x \<in> set js" for x
    using that qo q parts(2) phase_ok_narrowed by (auto simp: queue_ok_def)
  have sub: "\<forall>x \<in> set (s_queue s'). \<exists>y \<in> set (s_queue s). j_id y = j_id x \<and> agent_job y = agent_job x"
    using r q by (auto elim!: job_ok_cases)
  have pause: "pause_ok s'"
    using po sub fields(1,2,4) by (auto simp: pause_ok_def split: pause_state.splits) metis+
  have queue: "queue_ok s'"
    using r
  proof (cases rule: job_ok_cases)
    case (left o')
    then show ?thesis using qo q old fields(4) by (cases js) (auto simp: queue_ok_def)
  next
    case (moved ph)
    then show ?thesis using qo q old fields(4) by (auto simp: queue_ok_def)
  qed
  have results: "\<forall>(k, o') \<in> set (s_results s'). outcome_ok o'"
    using r ok by (auto simp: session_ok_def elim!: job_ok_cases)
  show ?thesis using queue req pause close journal results by (simp add: session_ok_def)
qed

lemma head_phase_ok: "session_ok s \<Longrightarrow> s_queue s = j # js \<Longrightarrow> phase_ok s (j_work j) (j_phase j)"
  by (simp add: session_ok_def queue_ok_def)

text \<open>Both job events in one statement.\<close>

definition job_event :: "session_event \<Rightarrow> bool" where
  "job_event e \<longleftrightarrow> (case e of BeginJob \<Rightarrow> True | Answer ans \<Rightarrow> True | _ \<Rightarrow> False)"

lemma job_event_step:
  assumes "job_event e" and "session_ok s" and "session_step c e s = (es, s')"
  obtains (idle) "es = []" "s' = s" | (step) j js where "s_queue s = j # js" "job_ok s j js (es, s')"
proof (cases "s_queue s")
  case Nil
  then show ?thesis using assms idle
    by (cases e) (simp_all add: job_event_def session_step_def begin_job_def answer_job_def)
next
  case (Cons j js)
  have "session_step c e s = ([], s) \<or> job_ok s j js (session_step c e s)"
    using assms(1) begin_job_ok [OF Cons, of c] answer_job_ok [OF Cons head_phase_ok [OF assms(2) Cons], of c]
    by (cases e) (simp_all add: job_event_def session_step_def)
  then show ?thesis using idle step [OF Cons] assms(3) by auto
qed

section \<open>Accepting\<close>

lemma admit_quiet: "admit c a len request False s = (r, s') \<Longrightarrow> quiet_change s s'"
proof (cases "judge_native (s_policy s) (action_type a)")
  case (Deny x i m)
  have "quiet_change s (snd (refuse c (action_type a) len request (Deny x i m) None s))"
    using refuse_ok [of "Deny x i m" 0 0 a s c "action_type a" len request None]
      judge_native_not_immune [of "s_policy s" "action_type a"] Deny by (simp add: part_ok_iff)
  moreover assume "admit c a len request False s = (r, s')"
  ultimately show "quiet_change s s'"
    using Deny by (cases "refuse c (action_type a) len request (Deny x i m) None s") (simp add: admit_def Let_def)
qed (auto simp: admit_def Let_def quiet_change_def journal_record)

lemma admit_batch_quiet: "admit_batch c request as s = (r, s') \<Longrightarrow> quiet_change s s'"
proof (induction as arbitrary: s)
  case (Cons a as)
  then show ?case
    by (auto split: decision.splits prod.splits admission.splits dest!: admit_quiet intro: quiet_trans)
qed simp

text \<open>A call is refused or known, leaving nothing new, or it puts one waiting agent job at the end.\<close>

lemma known_request_None:
  assumes "known_request request fp s = None"
  shows "map_of (s_requests s) request = None" "s_state s = StRunning" "length (s_requests s) < request_limit"
  using assms by (auto simp: known_request_def split: option.splits if_splits)

lemma act_request_cases:
  assumes "act_request c input s = (r, s')"
  obtains (same) "quiet_change s s'" "\<forall>j. r \<noteq> Inr (NewJob j)"
  | (new) request fp w s1 where "quiet_change s s1" "s_state s = StRunning" "map_of (s_requests s) request = None"
      "length (s_requests s) < request_limit" "r = Inr (NewJob (s_next s1))" "s' = snd (enqueue request fp w s1)"
      "(\<exists>a len. w = SingleWork a len \<and> fp = SinglePrint a) \<or> (\<exists>as k. w = BatchWork as k \<and> fp = BatchPrint as k)"
proof (cases "text_field (getp input ''requestId'') ''requestId''")
  case (Inl e)
  then show ?thesis using assms by (intro same) (auto simp: act_request_def split: if_splits)
next
  case (Inr request)
  have single: ?thesis if r: "act_single c request v s = (r, s')" for v
  proof (cases "parse_action (s_caps s) v")
    case (Inl e)
    then show ?thesis using r by (intro same) (auto simp: act_single_def)
  next
    case (Inr a)
    show ?thesis
    proof (cases "known_request request (SinglePrint a) s")
      case (Some k)
      then show ?thesis using r Inr by (intro same) (cases k; auto simp: act_single_def)+
    next
      case None
      show ?thesis
      proof (cases "input_length a")
        case None
        then show ?thesis using r Inr \<open>known_request _ _ _ = None\<close> by (intro same) (auto simp: act_single_def)
      next
        case (Some len)
        obtain ad s1 where ad: "admit c a len request False s = (ad, s1)" by (cases "admit c a len request False s")
        note qc = admit_quiet [OF ad]
        show ?thesis
        proof (cases "\<exists>e. ad = Refused e")
          case True
          then show ?thesis using r Inr None Some ad qc by (intro same) (auto simp: act_single_def)
        next
          case False
          then have "(r, s') = (Inr (NewJob (s_next s1)), snd (enqueue request (SinglePrint a) (SingleWork a len) s1))"
            using r Inr None Some ad by (cases ad) (auto simp: act_single_def enqueue_def)
          then show ?thesis using new [OF qc known_request_None(2,1,3) [OF None]] by auto
        qed
      qed
    qed
  qed
  have batch: ?thesis if r: "act_batch c request input s = (r, s')"
  proof (cases "and_then (batch_actions (s_caps s) input) (\<lambda>as.
             and_then (map_sum Orbit id (parse_capture (getp input ''capture''))) (\<lambda>cap. Ok (as, cap)))")
    case (Inl e)
    then show ?thesis using r by (intro same) (auto simp: act_batch_def)
  next
    case (Inr ac)
    obtain as cap where ac: "ac = (as, cap)" by (cases ac)
    show ?thesis
    proof (cases "known_request request (BatchPrint as cap) s")
      case (Some k)
      then show ?thesis using r Inr ac by (intro same) (cases k; auto simp: act_batch_def)+
    next
      case None
      obtain ad s1 where ad: "admit_batch c request as s = (ad, s1)" by (cases "admit_batch c request as s")
      note qc = admit_batch_quiet [OF ad]
      show ?thesis
      proof (cases ad)
        case (Inl e)
        then show ?thesis using r \<open>and_then _ _ = Inr ac\<close> None ac ad qc by (intro same) (auto simp: act_batch_def)
      next
        case (Inr u)
        then have "(r, s') = (Inr (NewJob (s_next s1)), snd (enqueue request (BatchPrint as cap) (BatchWork as cap) s1))"
          using r \<open>and_then _ _ = Inr ac\<close> None ac ad by (simp add: act_batch_def enqueue_def)
        then show ?thesis using new [OF qc known_request_None(2,1,3) [OF None]] by auto
      qed
    qed
  qed
  show ?thesis
  proof (cases "is_open s")
    case True
    then show ?thesis using assms Inr single batch by (auto simp: act_request_def split: if_splits)
  next
    case False
    then show ?thesis using assms by (intro same) (auto simp: act_request_def)
  qed
qed

section \<open>Every event keeps the invariant\<close>

lemma session_ok_enqueue:
  assumes ok: "session_ok s" and st: "s_state s = StRunning" and r: "map_of (s_requests s) request = None"
    "length (s_requests s) < request_limit" and w: "\<And>ph. phase_ok s w Waiting"
  shows "session_ok (snd (enqueue request fp w s))"
proof -
  let ?s = "snd (enqueue request fp w s)"
  have f: "s_queue ?s = s_queue s @ [\<lparr>j_id = s_next s, j_request = request, j_work = w, j_phase = Waiting\<rparr>]"
    "s_next ?s = Suc (s_next s)" "s_requests ?s = s_requests s @ [(request, fp, s_next s)]" "s_state ?s = s_state s"
    "s_pause ?s = s_pause s" "s_close ?s = s_close s" "s_timer ?s = s_timer s" "s_journal ?s = s_journal s"
    "s_results ?s = s_results s" "narrowed s ?s"
    by (simp_all add: enqueue_def narrowed_def)
  have q: "queue_ok s" and rq: "requests_ok s" using ok by (simp_all add: session_ok_def)
  have "queue_ok ?s"
    using q w phase_ok_narrowed [OF f(10)]
    by (cases "s_queue s") (auto simp: queue_ok_def f sorted_wrt_append less_SucI)
  moreover have "requests_ok ?s"
  proof -
    have "request \<notin> keys (s_requests s)" using r(1) by (simp add: map_of_None_iff)
    moreover have "s_next s \<notin> set (map (snd \<circ> snd) (s_requests s))" using rq by (auto simp: requests_ok_def)
    ultimately show ?thesis using rq r(2)
      by (auto simp: requests_ok_def f wf_map_def keys_def less_SucI)
  qed
  moreover have "pause_ok ?s" using ok st by (simp add: session_ok_def pause_ok_def f)
  moreover have "close_ok ?s" using ok by (auto simp: session_ok_def f intro: close_ok_same)
  ultimately show ?thesis using ok by (simp add: session_ok_def f)
qed

lemma phase_ok_waiting [simp]: "phase_ok s w Waiting"
  by (simp add: phase_ok_def split: work.split)

lemma act_request_ok:
  assumes "session_ok s"
  shows "session_ok (snd (act_request c input s))"
proof (cases "act_request c input s")
  case (Pair r s')
  then show ?thesis
  proof (cases rule: act_request_cases)
    case same
    then show ?thesis using session_ok_quiet [OF assms] Pair by simp
  next
    case (new request fp w s1)
    have sk: "skeleton s1 = skeleton s" using new(1) by (simp add: quiet_change_def)
    have "session_ok (snd (enqueue request fp w s1))"
      using session_ok_quiet [OF assms new(1)] skeleton_fields(1,5) [OF sk] new(2,3,4)
      by (intro session_ok_enqueue) simp_all
    then show ?thesis using new(6) Pair by simp
  qed
qed

lemma enqueue_plain_ok:
  assumes ok: "session_ok s" and w: "w = RevealWork \<or> (\<exists>v. w = HumanWork v)"
  shows "session_ok (enqueue_plain w s)"
proof -
  let ?j = "\<lparr>j_id = s_next s, j_request = [], j_work = w, j_phase = Waiting\<rparr>"
  have f: "s_queue (enqueue_plain w s) = s_queue s @ [?j]" "s_next (enqueue_plain w s) = Suc (s_next s)"
    "s_requests (enqueue_plain w s) = s_requests s" "s_state (enqueue_plain w s) = s_state s"
    "s_pause (enqueue_plain w s) = s_pause s" "s_close (enqueue_plain w s) = s_close s" "s_timer (enqueue_plain w s) = s_timer s"
    "s_journal (enqueue_plain w s) = s_journal s" "s_results (enqueue_plain w s) = s_results s" "narrowed s (enqueue_plain w s)"
    by (simp_all add: enqueue_plain_def narrowed_def)
  have na: "\<not> agent_job ?j" using w by (auto simp: agent_job_def)
  have q: "queue_ok s" and po: "pause_ok s" using ok by (simp_all add: session_ok_def)
  have "queue_ok (enqueue_plain w s)"
    using q phase_ok_narrowed [OF f(10)]
    by (cases "s_queue s") (auto simp: queue_ok_def f sorted_wrt_append less_SucI)
  moreover have "requests_ok (enqueue_plain w s)" using ok by (auto simp: session_ok_def requests_ok_def f less_SucI)
  moreover have "pause_ok (enqueue_plain w s)"
    using po na by (cases "s_pause s") (auto simp: pause_ok_def f)
  moreover have "close_ok (enqueue_plain w s)" using ok by (auto simp: session_ok_def f intro: close_ok_same)
  ultimately show ?thesis using ok by (simp add: session_ok_def f)
qed

text \<open>Events that touch neither the queue nor the requests: the life and the policy decide.\<close>

definition light_change :: "session \<Rightarrow> session \<Rightarrow> bool" where
  "light_change s s' \<longleftrightarrow> s_queue s' = s_queue s \<and> s_next s' = s_next s \<and> s_requests s' = s_requests s \<and> s_results s' = s_results s
     \<and> narrowed s s' \<and> (length (s_journal s) \<le> journal_limit \<longrightarrow> length (s_journal s') \<le> journal_limit)"

lemma session_ok_light:
  "session_ok s \<Longrightarrow> light_change s s' \<Longrightarrow> pause_ok s' \<Longrightarrow> close_ok s' \<Longrightarrow> session_ok s'"
  by (rule session_ok_same) (auto simp: light_change_def session_ok_def)

lemma record_line_life [simp]:
  "s_pause (record_line e s) = s_pause s" "s_close (record_line e s) = s_close s" "s_timer (record_line e s) = s_timer s"
  "s_next (record_line e s) = s_next s" "s_requests (record_line e s) = s_requests s"
  by (simp_all add: record_line_def Let_def)

lemma life_kept:
  assumes "session_ok s" and "light_change s s'" and "s_state s' = s_state s" "s_pause s' = s_pause s" "s_close s' = s_close s"
    "s_timer s' = s_timer s"
  shows "session_ok s'"
proof (rule session_ok_light [OF assms(1,2)])
  show "pause_ok s'" using assms by (auto simp: session_ok_def light_change_def intro: pause_ok_same)
  show "close_ok s'" using assms by (auto simp: session_ok_def intro: close_ok_same)
qed

lemma pause_session_ok:
  assumes "session_ok s" and "is_open s"
  shows "session_ok (snd (pause_session s))"
proof (cases "s_pause s")
  case NotPaused
  have "queue_ok s" using assms(1) by (simp add: session_ok_def)
  then have "pause_ok (s\<lparr>s_state := StPausing, s_pause := PauseQueued (s_next s)\<rparr>)"
    by (auto simp: pause_ok_def queue_ok_def)
  moreover have "close_ok (s\<lparr>s_state := StPausing, s_pause := PauseQueued (s_next s)\<rparr>)"
    using assms by (auto simp: session_ok_def close_ok_def is_open_def)
  ultimately have "session_ok (s\<lparr>s_state := StPausing, s_pause := PauseQueued (s_next s)\<rparr>)"
    using assms(1) by (intro session_ok_light [OF assms(1)]) (simp_all add: light_change_def narrowed_def)
  then show ?thesis using NotPaused by (simp add: pause_session_def)
qed (use assms in \<open>simp_all add: pause_session_def\<close>)

lemma pause_turn_ok: "session_ok s \<Longrightarrow> session_ok (snd (pause_turn s))"
proof (cases "s_pause s")
  case (PauseQueued n)
  assume ok: "session_ok s"
  have na: "s_state s = StPausing \<Longrightarrow> drained n s \<Longrightarrow> \<forall>j \<in> set (s_queue s). \<not> agent_job j"
    using ok PauseQueued by (auto simp: session_ok_def pause_ok_def drained_def list_all_iff) (meson not_le)
  have st: "s_state s \<noteq> StRunning" "s_state s \<noteq> StPaused" using ok PauseQueued by (auto simp: session_ok_def pause_ok_def)
  have "session_ok (s\<lparr>s_pause := p\<rparr>)" if "drained n s" "p = NotPaused \<or> p = PauseLeasing" for p
    using ok na that st by (intro session_ok_light [OF ok])
      (auto simp: light_change_def narrowed_def pause_ok_def session_ok_def close_ok_def is_open_def)
  then show ?thesis using ok PauseQueued by (simp add: pause_turn_def)
qed (simp_all add: pause_turn_def)

lemma pause_leased_ok:
  assumes ok: "session_ok s"
  shows "session_ok (pause_leased r s)"
proof (cases "s_pause s = PauseLeasing")
  case True
  have st: "s_state s \<noteq> StRunning" "s_state s \<noteq> StPaused" using ok True by (auto simp: session_ok_def pause_ok_def)
  have na: "s_state s = StPausing \<Longrightarrow> \<forall>j \<in> set (s_queue s). \<not> agent_job j" using ok True by (auto simp: session_ok_def pause_ok_def)
  have "session_ok (s\<lparr>s_pause := NotPaused\<rparr>)"
    using ok na st by (intro session_ok_light [OF ok])
      (auto simp: light_change_def narrowed_def pause_ok_def session_ok_def close_ok_def is_open_def)
  moreover have "session_ok (s\<lparr>s_pause := Acknowledged, s_state := StPaused\<rparr>)" if "is_open s"
    using ok na st that by (intro session_ok_light [OF ok])
      (cases "s_state s"; auto simp: light_change_def narrowed_def pause_ok_def session_ok_def close_ok_def is_open_def)+
  ultimately show ?thesis using True by (simp add: pause_leased_def)
qed (use ok in \<open>simp add: pause_leased_def\<close>)

lemma resume_replied_ok:
  assumes ok: "session_ok s"
  shows "session_ok (snd (resume_replied r s))"
proof -
  have c: "session_ok (s\<lparr>s_resuming := n\<rparr>)" for n
    by (rule life_kept [OF ok]) (simp_all add: light_change_def narrowed_def)
  have "session_ok (s\<lparr>s_resuming := n, s_state := StRunning, s_pause := NotPaused\<rparr>)" if "is_open s" for n
    by (rule session_ok_light [OF ok])
      (use ok that in \<open>auto simp: light_change_def narrowed_def session_ok_def pause_ok_def close_ok_def is_open_def\<close>)
  then show ?thesis using ok c by (auto simp: resume_replied_def Let_def is_open_def split: option.splits)
qed

text \<open>A session that is no longer open.\<close>

lemma closing_ok:
  assumes "session_ok s" and "light_change s s'" and "\<not> is_open s'"
  shows "session_ok s'"
  using assms by (intro session_ok_light [OF assms(1,2)]) (auto simp: pause_ok_def close_ok_def is_open_def)

lemma stop_call_ok: "session_ok s \<Longrightarrow> session_ok (snd (stop_call s))"
proof -
  assume ok: "session_ok s"
  have "session_ok (s\<lparr>s_grace := False, s_state := StClosing, s_close := ClosingBackend, s_timer := True\<rparr>)"
    by (rule closing_ok [OF ok]) (simp_all add: light_change_def narrowed_def is_open_def)
  then show ?thesis using ok by (simp add: stop_call_def)
qed

lemma session_step_ok:
  assumes ok: "session_ok s"
  shows "session_ok (snd (session_step c e s))"
proof (cases "job_event e")
  case True
  obtain es s' where st: "session_step c e s = (es, s')" by (cases "session_step c e s")
  from True ok st show ?thesis
  proof (cases rule: job_event_step)
    case (step j js)
    then show ?thesis using session_ok_job [OF ok] st by simp
  qed (use ok st in simp)
next
  case False
  show ?thesis
  proof (cases e)
    case (ActCall input)
    then show ?thesis using act_request_ok [OF ok] by (simp add: session_step_def)
  next
    case PauseCall
    then show ?thesis using ok pause_session_ok [OF ok]
      by (auto simp: session_step_def pause_call_def split: prod.splits)
  next
    case PauseTurn
    then show ?thesis using pause_turn_ok [OF ok] by (simp add: session_step_def)
  next
    case (PauseLeased r)
    then show ?thesis using pause_leased_ok [OF ok] by (simp add: session_step_def)
  next
    case ResumeCall
    have "session_ok (s\<lparr>s_resuming := n\<rparr>)" for n
      by (rule life_kept [OF ok]) (simp_all add: light_change_def narrowed_def)
    then show ?thesis using ok ResumeCall by (simp add: session_step_def resume_call_def)
  next
    case (ResumeReplied r)
    then show ?thesis using resume_replied_ok [OF ok] by (simp add: session_step_def)
  next
    case (NarrowCall params)
    have "session_ok ((set_policy (narrow (s_policy s) None (Some cs)) s)\<lparr>s_narrowing := n\<rparr>)" for cs n
      by (rule life_kept [OF ok]) (simp_all add: light_change_def narrowed_def set_policy_def)
    then show ?thesis using ok NarrowCall by (auto simp: session_step_def narrow_call_def split: sum.splits)
  next
    case NarrowDone
    have "session_ok (record_line l (s\<lparr>s_narrowing := n\<rparr>))" for l n
      by (rule life_kept [OF ok]) (simp_all add: light_change_def narrowed_def journal_record)
    then show ?thesis using ok NarrowDone by (simp add: session_step_def narrow_done_def)
  next
    case (ControlCall v)
    then show ?thesis using ok enqueue_plain_ok [OF ok, of "HumanWork v"]
      by (simp add: session_step_def control_call_def)
  next
    case (RevealCall who params)
    then show ?thesis using ok enqueue_plain_ok [OF ok, of RevealWork]
      by (simp add: session_step_def reveal_call_def)
  next
    case (ObserveCall params)
    have "session_ok (record_line l s)" for l
      by (rule life_kept [OF ok]) (simp_all add: light_change_def narrowed_def journal_record)
    moreover have "session_ok (s\<lparr>s_observing := n\<rparr>)" for n
      by (rule life_kept [OF ok]) (simp_all add: light_change_def narrowed_def)
    ultimately show ?thesis using ok ObserveCall
      by (simp add: session_step_def observe_call_def Let_def split: decision.split)
  next
    case (ObserveReplied r)
    have "session_ok (s\<lparr>s_observing := n\<rparr>)" "session_ok (tainted_by t (s\<lparr>s_observing := n\<rparr>))" for n t
      by (rule life_kept [OF ok]; simp add: light_change_def narrowed_def tainted_by_def)+
    then show ?thesis using ok ObserveReplied by (simp add: session_step_def observe_replied_def Let_def split: sum.split)
  next
    case StopCall
    then show ?thesis using stop_call_ok [OF ok] by (simp add: session_step_def)
  next
    case (CloseReplied r)
    have no: "\<not> is_open s" if "s_close s = ClosingBackend" using ok that by (auto simp: session_ok_def close_ok_def)
    have "session_ok (s\<lparr>s_close := x, s_timer := y\<rparr>)" "session_ok (s\<lparr>s_close := x\<rparr>)" if "s_close s = ClosingBackend" for x y
      by (rule closing_ok [OF ok]; use no [OF that] in \<open>simp add: light_change_def narrowed_def is_open_def\<close>)+
    then show ?thesis using ok CloseReplied by (simp add: session_step_def close_replied_def)
  next
    case TailDrained
    have no: "\<not> is_open s" if "s_close s = ClosingTail n" for n using ok that by (auto simp: session_ok_def close_ok_def)
    have "session_ok (s\<lparr>s_close := CloseSettled, s_timer := False\<rparr>)"
      "session_ok (s\<lparr>s_close := CloseSettled, s_timer := False, s_state := StClosed, s_last := l\<rparr>)" if "s_close s = ClosingTail n" for n l
      by (rule closing_ok [OF ok]; use no [OF that] in \<open>simp add: light_change_def narrowed_def is_open_def\<close>)+
    then show ?thesis using ok TailDrained by (auto simp: session_step_def tail_drained_def split: close_state.splits)
  next
    case (CloseDeadline live)
    have no: "\<not> is_open s" if "s_timer s" using ok that by (auto simp: session_ok_def close_ok_def)
    have "session_ok (s\<lparr>s_timer := False\<rparr>)"
      "session_ok (s\<lparr>s_timer := False, s_forced := True, s_state := StClosed, s_last := l, s_handback := True\<rparr>)" if "s_timer s" for l
      by (rule closing_ok [OF ok]; use no [OF that] in \<open>simp add: light_change_def narrowed_def is_open_def\<close>)+
    then show ?thesis using ok CloseDeadline by (simp add: session_step_def close_deadline_def)
  next
    case (HandbackDone result)
    have "session_ok (record_line l (s\<lparr>s_handback := False\<rparr>))" for l
      by (rule life_kept [OF ok]) (simp_all add: light_change_def narrowed_def journal_record)
    then show ?thesis using ok HandbackDone by (simp add: session_step_def handback_done_def)
  next
    case (OwnerGone g)
    have r: "session_ok (record_line l (s\<lparr>s_orphan := o', s_grace := True\<rparr>))" for l o'
      by (rule life_kept [OF ok]) (simp_all add: light_change_def narrowed_def journal_record)
    have "is_open s \<Longrightarrow> is_open (record_line l (s\<lparr>s_orphan := o', s_grace := True\<rparr>))" for l o'
      by (simp add: is_open_def)
    then show ?thesis using ok OwnerGone pause_session_ok [OF r] by (simp add: session_step_def owner_gone_def)
  next
    case OwnerBack
    have "session_ok (s\<lparr>s_orphan := None, s_grace := False\<rparr>)"
      by (rule life_kept [OF ok]) (simp_all add: light_change_def narrowed_def)
    then show ?thesis using ok OwnerBack by (simp add: session_step_def owner_back_def)
  next
    case GraceOver
    have "session_ok (s\<lparr>s_grace := False\<rparr>)"
      by (rule life_kept [OF ok]) (simp_all add: light_change_def narrowed_def)
    then show ?thesis using ok GraceOver stop_call_ok by (simp add: session_step_def grace_over_def)
  qed (use False in \<open>simp_all add: job_event_def\<close>)
qed

end
