(* ===== verification/SessionRuns.thy ===== *)
theory SessionRuns
  imports SessionSafety SessionStart
begin

text \<open>
  A session of \<open>src/session.ts\<close> over arbitrary sequences of its events: what never goes back, what has
  been delivered, and that a queue can always be worked off.
\<close>

section \<open>How a session ages\<close>

definition session_ages :: "session \<Rightarrow> session \<Rightarrow> bool" where
  "session_ages s s' \<longleftrightarrow> narrowed s s' \<and> (is_open s' \<longrightarrow> is_open s) \<and> (s_state s = StClosed \<longrightarrow> s_state s' = StClosed)
     \<and> s_next s \<le> s_next s' \<and> (\<forall>r x. map_of (s_requests s) r = Some x \<longrightarrow> map_of (s_requests s') r = Some x)
     \<and> (s_tainted s \<longrightarrow> s_tainted s') \<and> (\<exists>zs. s_results s' = s_results s @ zs)
     \<and> s_id s' = s_id s \<and> s_owner s' = s_owner s \<and> s_caps s' = s_caps s \<and> s_app s' = s_app s \<and> s_lease s' = s_lease s"

lemma session_ages_refl: "session_ages s s"
  by (simp add: session_ages_def)

lemma session_ages_trans: "session_ages s s' \<Longrightarrow> session_ages s' s'' \<Longrightarrow> session_ages s s''"
  by (auto simp: session_ages_def intro: narrowed_trans)

lemma ages_skeleton:
  assumes "skeleton s' = skeleton s" "narrowed s s'" "s_tainted s \<Longrightarrow> s_tainted s'" "\<exists>zs. s_results s' = s_results s @ zs"
  shows "session_ages s s'"
  using assms(2,3,4) skeleton_fields [OF assms(1)] skeleton_open [OF assms(1)] by (simp add: session_ages_def)

lemma ages_quiet: "quiet_change s s' \<Longrightarrow> session_ages s s'"
  by (rule ages_skeleton) (auto simp: quiet_change_def)

lemma ages_job: "job_ok s j js (es, s') \<Longrightarrow> session_ages s s'"
  by (rule ages_skeleton) (auto simp: job_ok_parts elim: job_ok_cases)

lemma ages_enqueue: "map_of (s_requests s) request = None \<Longrightarrow> session_ages s (snd (enqueue request fp w s))"
  by (auto simp: session_ages_def enqueue_def narrowed_def is_open_def map_add_def)

lemma ages_act_request:
  assumes "act_request c input s = (r, s')"
  shows "session_ages s s'"
  using assms
proof (cases rule: act_request_cases)
  case (new request fp w s1)
  have "skeleton s1 = skeleton s" using new(1) by (simp add: quiet_change_def)
  then have "map_of (s_requests s1) request = None" using new(3) skeleton_fields(5) by metis
  then have "session_ages s1 s'" using new(6) ages_enqueue by simp
  then show ?thesis using ages_quiet [OF new(1)] session_ages_trans by blast
qed (rule ages_quiet)

text \<open>A step that keeps requests, results and identity, and does not reopen.\<close>

lemma ages_life:
  assumes "narrowed s s'" "is_open s' \<Longrightarrow> is_open s" "s_state s = StClosed \<Longrightarrow> s_state s' = StClosed" "s_next s \<le> s_next s'"
    "s_requests s' = s_requests s" "s_tainted s \<Longrightarrow> s_tainted s'" "s_results s' = s_results s" "s_id s' = s_id s"
    "s_owner s' = s_owner s" "s_caps s' = s_caps s" "s_app s' = s_app s" "s_lease s' = s_lease s"
  shows "session_ages s s'"
  using assms by (simp add: session_ages_def)

lemma record_line_identity [simp]:
  "s_id (record_line e s) = s_id s" "s_owner (record_line e s) = s_owner s" "s_caps (record_line e s) = s_caps s"
  "s_app (record_line e s) = s_app s" "s_lease (record_line e s) = s_lease s"
  by (simp_all add: record_line_def Let_def)

lemma ages_pause_session: "is_open s \<Longrightarrow> session_ages s (snd (pause_session s))"
  by (auto simp: pause_session_def narrowed_def is_open_def session_ages_refl split: pause_state.split intro!: ages_life)

lemma ages_stop_call: "session_ages s (snd (stop_call s))"
  by (auto simp: stop_call_def narrowed_def is_open_def session_ages_refl intro!: ages_life)

lemma session_step_ages:
  assumes ok: "session_ok s"
  shows "session_ages s (snd (session_step c e s))"
proof (cases "job_event e")
  case True
  obtain es s' where st: "session_step c e s = (es, s')" by (cases "session_step c e s")
  from True ok st show ?thesis
    by (cases rule: job_event_step) (use st ages_job session_ages_refl in auto)
next
  case False
  show ?thesis
  proof (cases e)
    case (ActCall input)
    then show ?thesis using ages_act_request [of c input s]
      by (cases "act_request c input s") (simp add: session_step_def)
  next
    case PauseCall
    then show ?thesis using ages_pause_session [of s] session_ages_refl
      by (auto simp: session_step_def pause_call_def split: prod.splits)
  next
    case PauseTurn
    then show ?thesis
      by (auto simp: session_step_def pause_turn_def session_ages_refl narrowed_def is_open_def split: pause_state.split intro!: ages_life)
  next
    case (PauseLeased r)
    then show ?thesis
      by (auto simp: session_step_def pause_leased_def session_ages_refl narrowed_def is_open_def intro!: ages_life)
  next
    case ResumeCall
    then show ?thesis
      by (auto simp: session_step_def resume_call_def session_ages_refl narrowed_def is_open_def intro!: ages_life)
  next
    case (ResumeReplied r)
    then show ?thesis
      by (auto simp: session_step_def resume_replied_def Let_def session_ages_refl narrowed_def is_open_def
        split: option.split intro!: ages_life)
  next
    case (NarrowCall params)
    have "session_ages s ((set_policy (narrow (s_policy s) None (Some cs)) s)\<lparr>s_narrowing := n\<rparr>)" for cs n
      by (rule ages_life) (simp_all add: set_policy_def narrowed_def is_open_def)
    then show ?thesis using NarrowCall by (simp add: session_step_def narrow_call_def session_ages_refl split: sum.split)
  next
    case NarrowDone
    then show ?thesis
      by (auto simp: session_step_def narrow_done_def session_ages_refl narrowed_def is_open_def intro!: ages_life)
  next
    case (ControlCall v)
    then show ?thesis
      by (auto simp: session_step_def control_call_def enqueue_plain_def session_ages_refl narrowed_def is_open_def intro!: ages_life)
  next
    case (RevealCall who params)
    then show ?thesis
      by (auto simp: session_step_def reveal_call_def enqueue_plain_def session_ages_refl narrowed_def is_open_def intro!: ages_life)
  next
    case (ObserveCall params)
    have "session_ages s (record_line l s)" "session_ages s (s\<lparr>s_observing := n\<rparr>)" for l n
      by (rule ages_life; simp add: narrowed_def is_open_def)+
    then show ?thesis using ObserveCall
      by (simp add: session_step_def observe_call_def Let_def session_ages_refl split: decision.split)
  next
    case (ObserveReplied r)
    have "session_ages s (tainted_by t (s\<lparr>s_observing := n\<rparr>))" "session_ages s (s\<lparr>s_observing := n\<rparr>)" for t n
      by (rule ages_life; simp add: narrowed_def is_open_def tainted_by_def split: if_split_asm)+
    then show ?thesis using ObserveReplied
      by (simp add: session_step_def observe_replied_def Let_def session_ages_refl split: sum.split)
  next
    case StopCall
    then show ?thesis using ages_stop_call by (simp add: session_step_def)
  next
    case (CloseReplied r)
    then show ?thesis
      by (auto simp: session_step_def close_replied_def session_ages_refl narrowed_def is_open_def intro!: ages_life)
  next
    case TailDrained
    then show ?thesis
      by (auto simp: session_step_def tail_drained_def session_ages_refl narrowed_def is_open_def split: close_state.split intro!: ages_life)
  next
    case (CloseDeadline live)
    then show ?thesis
      by (auto simp: session_step_def close_deadline_def session_ages_refl narrowed_def is_open_def intro!: ages_life)
  next
    case (HandbackDone result)
    then show ?thesis
      by (auto simp: session_step_def handback_done_def session_ages_refl narrowed_def is_open_def intro!: ages_life)
  next
    case (OwnerGone g)
    have r: "session_ages s (record_line l (s\<lparr>s_orphan := o', s_grace := True\<rparr>))" for l o'
      by (rule ages_life) (simp_all add: narrowed_def is_open_def)
    have "is_open s \<Longrightarrow> is_open (record_line l (s\<lparr>s_orphan := o', s_grace := True\<rparr>))" for l o'
      by (simp add: is_open_def)
    then have "is_open s \<Longrightarrow> session_ages s (snd (pause_session (record_line l (s\<lparr>s_orphan := o', s_grace := True\<rparr>))))" for l o'
      using session_ages_trans [OF r ages_pause_session] by blast
    then show ?thesis using OwnerGone by (simp add: session_step_def owner_gone_def session_ages_refl)
  next
    case OwnerBack
    then show ?thesis
      by (auto simp: session_step_def owner_back_def session_ages_refl narrowed_def is_open_def intro!: ages_life)
  next
    case GraceOver
    have "session_ages s (s\<lparr>s_grace := False\<rparr>)" by (rule ages_life) (simp_all add: narrowed_def is_open_def)
    then show ?thesis using GraceOver session_ages_trans [OF _ ages_stop_call]
      by (auto simp: session_step_def grace_over_def session_ages_refl)
  qed (use False in \<open>simp_all add: job_event_def\<close>)
qed

text \<open>An action type the policy does not permit stays forbidden.\<close>

lemma forbidden_lasts:
  "\<not> permits (judge_native (s_policy s) t) \<Longrightarrow> session_ages s s' \<Longrightarrow> \<not> permits (judge_native (s_policy s') t)"
  by (auto simp: session_ages_def policy_le_def dest!: narrowed_policy_le)

definition session_next :: "clock \<times> session_event \<Rightarrow> session \<Rightarrow> session" where
  "session_next ce s = snd (session_step (fst ce) (snd ce) s)"

interpretation session_machine: aging_machine session_next session_ok session_ages
  "\<lambda>t s. \<not> permits (judge_native (s_policy s) t)"
  by unfold_locales
    (auto simp: session_next_def session_step_ok session_step_ages session_ages_refl intro: session_ages_trans dest: forbidden_lasts)

lemma session_run_state: "snd (session_run es s) = run session_next es s"
proof (induction es arbitrary: s)
  case (Cons ce es)
  obtain c e where "ce = (c, e)" by (cases ce)
  moreover obtain xs s1 where "session_step c e s = (xs, s1)" by (cases "session_step c e s")
  moreover obtain ys s2 where "session_run es s1 = (ys, s2)" by (cases "session_run es s1")
  ultimately show ?case using Cons.IH [of s1] by (simp add: session_next_def)
qed simp

lemmas session_run_ok = session_machine.run_inv [folded session_run_state]
  and session_run_ages = session_machine.run_ages [folded session_run_state]

section \<open>What has been delivered\<close>

text \<open>Only a job event delivers, and only from the head of the queue.\<close>

lemma step_acts:
  assumes "session_ok s" and "session_step c e s = (es, s')"
  shows "acts es = [] \<or> (\<exists>j js ph i. s_queue s = j # js \<and> s_queue s' = j\<lparr>j_phase := ph\<rparr> # js \<and> acts es = [(j_id j, i)]
    \<and> spent ph i \<and> \<not> spent (j_phase j) i)"
proof (cases "job_event e")
  case True
  from True assms show ?thesis
  proof (cases rule: job_event_step)
    case (step j js)
    from step(2) show ?thesis by (cases rule: job_ok_cases) (use step(1) in auto)
  qed simp
next
  case False
  then show ?thesis using assms(2)
    by (cases e) (auto simp: job_event_def session_step_def pause_turn_def resume_call_def narrow_call_def stop_call_def
      tail_drained_def close_deadline_def handback_done_def grace_over_def split: pause_state.splits close_state.splits
      sum.splits if_splits)
qed

definition same_queue :: "session \<Rightarrow> session \<Rightarrow> bool" where
  "same_queue s s' \<longleftrightarrow> s_queue s' = s_queue s \<and> s_results s' = s_results s \<and> s_next s' = s_next s"

lemma light_queue:
  "same_queue s (snd (session_step c PauseCall s))" "same_queue s (snd (session_step c PauseTurn s))"
  "same_queue s (snd (session_step c (PauseLeased r) s))" "same_queue s (snd (session_step c ResumeCall s))"
  "same_queue s (snd (session_step c (ResumeReplied r) s))" "same_queue s (snd (session_step c (NarrowCall ps) s))"
  "same_queue s (snd (session_step c NarrowDone s))" "same_queue s (snd (session_step c (ObserveCall ps) s))"
  "same_queue s (snd (session_step c (ObserveReplied v) s))" "same_queue s (snd (session_step c StopCall s))"
  "same_queue s (snd (session_step c (CloseReplied r) s))" "same_queue s (snd (session_step c TailDrained s))"
  "same_queue s (snd (session_step c (CloseDeadline live) s))" "same_queue s (snd (session_step c (HandbackDone t) s))"
  "same_queue s (snd (session_step c (OwnerGone g) s))" "same_queue s (snd (session_step c OwnerBack s))"
  "same_queue s (snd (session_step c GraceOver s))"
  by (simp_all add: same_queue_def set_policy_def tainted_by_def session_step_def pause_call_def pause_session_def pause_turn_def pause_leased_def
    resume_call_def resume_replied_def narrow_call_def narrow_done_def observe_call_def
    observe_replied_def stop_call_def close_replied_def tail_drained_def close_deadline_def handback_done_def
    owner_gone_def owner_back_def grace_over_def Let_def
    split: pause_state.split close_state.split sum.split decision.split option.split)

text \<open>No event other than the two of the head job touches a job that is already in the queue.\<close>

lemma step_queue_cases:
  assumes "session_ok s" and "session_step c e s = (es, s')"
  obtains (same) "same_queue s s'"
  | (new) x where "s_queue s' = s_queue s @ [x]" "j_id x = s_next s" "s_results s' = s_results s" "s_next s' = Suc (s_next s)"
  | (job) j js where "s_queue s = j # js" "job_ok s j js (es, s')"
proof (cases "job_event e")
  case True
  from True assms show ?thesis
    by (cases rule: job_event_step) (use same job in \<open>auto simp: same_queue_def\<close>)
next
  case False
  show ?thesis
  proof (cases "\<exists>input. e = ActCall input")
    case True
    then obtain input r where r: "act_request c input s = (r, s')" using assms(2)
      by (cases "act_request c (case e of ActCall i \<Rightarrow> i) s") (auto simp: session_step_def)
    then show ?thesis
    proof (cases rule: act_request_cases)
      case 1: same
      then show ?thesis using skeleton_fields(4) [of s' s] by (intro same) (simp add: quiet_change_def same_queue_def)
    next
      case 2: (new request fp w s1)
      then show ?thesis using skeleton_fields(4) [of s1 s]
        by (intro new [of "\<lparr>j_id = s_next s1, j_request = request, j_work = w, j_phase = Waiting\<rparr>"])
          (simp_all add: enqueue_def quiet_change_def)
    qed
  next
    case no: False
    have st: "s' = snd (session_step c e s)" using assms(2) by simp
    have plain: "(\<exists>v. e = ControlCall v) \<or> (\<exists>who params. e = RevealCall who params) \<Longrightarrow> s' = s \<or> (\<exists>w. s' = enqueue_plain w s)"
      unfolding st session_step_def control_call_def reveal_call_def by (elim disjE exE) (simp; blast)+
    have light: "same_queue s s'"
      if "\<not> ((\<exists>v. e = ControlCall v) \<or> (\<exists>who params. e = RevealCall who params))"
      using False no that unfolding st by (cases e) (simp_all add: job_event_def light_queue)
    show ?thesis
    proof (cases "(\<exists>v. e = ControlCall v) \<or> (\<exists>who params. e = RevealCall who params)")
      case True
      from plain [OF True] show ?thesis
      proof
        assume "s' = s"
        then show ?thesis by (intro same) (simp add: same_queue_def)
      next
        assume "\<exists>w. s' = enqueue_plain w s"
        then obtain w where "s' = enqueue_plain w s" by blast
        then show ?thesis
          by (intro new [of "\<lparr>j_id = s_next s, j_request = [], j_work = w, j_phase = Waiting\<rparr>"]) (simp_all add: enqueue_plain_def)
      qed
    qed (use light same in simp)
  qed
qed

lemma step_queue:
  assumes "session_ok s" and "session_step c e s = (es, s')"
  shows "(\<exists>xs. s_queue s' = s_queue s @ xs \<and> (\<forall>x \<in> set xs. s_next s \<le> j_id x))
    \<or> (\<exists>j js. s_queue s = j # js \<and> (s_queue s' = js \<or> (\<exists>ph. s_queue s' = j\<lparr>j_phase := ph\<rparr> # js
        \<and> (\<forall>i. spent (j_phase j) i \<longrightarrow> spent ph i))))"
  using assms
proof (cases rule: step_queue_cases)
  case (job j js)
  from job(2) show ?thesis by (cases rule: job_ok_cases) (use job(1) in auto)
qed (auto simp: same_queue_def)

text \<open>Every job is in the queue or has its result, in the order of acceptance.\<close>

definition accounted :: "session \<Rightarrow> bool" where
  "accounted s \<longleftrightarrow> map fst (s_results s) @ map j_id (s_queue s) = [0 ..< s_next s]"

lemma accounted_step:
  assumes "session_ok s" and "session_step c e s = (es, s')" and "accounted s"
  shows "accounted s'"
  using assms(1,2)
proof (cases rule: step_queue_cases)
  case (job j js)
  have "s_next s' = s_next s" using skeleton_fields(4) [OF job_ok_parts(1) [OF job(2)]] .
  with job(2) show ?thesis
    by (cases rule: job_ok_cases) (use job(1) assms(3) in \<open>simp_all add: accounted_def\<close>)
qed (use assms(3) in \<open>auto simp: accounted_def same_queue_def\<close>)

lemma accounted_run: "session_ok s \<Longrightarrow> accounted s \<Longrightarrow> accounted (snd (session_run es s))"
proof (induction es arbitrary: s)
  case (Cons ce es)
  obtain c e where "ce = (c, e)" by (cases ce)
  moreover obtain xs s1 where st: "session_step c e s = (xs, s1)" by (cases "session_step c e s")
  moreover obtain ys s2 where "session_run es s1 = (ys, s2)" by (cases "session_run es s1")
  moreover have "session_ok s1" using session_step_ok [OF Cons.prems(1), of c e] st by simp
  ultimately show ?case using Cons.IH [of s1] accounted_step [OF Cons.prems(1) st Cons.prems(2)] by simp
qed simp

text \<open>\<open>ds\<close> has been delivered: each place once, each by a job that has left or knows.\<close>

definition delivered_ok :: "(nat \<times> nat) list \<Rightarrow> session \<Rightarrow> bool" where
  "delivered_ok ds s \<longleftrightarrow> distinct ds
     \<and> (\<forall>(k, i) \<in> set ds. k < s_next s \<and> (\<forall>j \<in> set (s_queue s). j_id j = k \<longrightarrow> spent (j_phase j) i))"

lemma delivered_step:
  assumes ok: "session_ok s" and st: "session_step c e s = (es, s')" and ds: "delivered_ok ds s"
  shows "delivered_ok (ds @ acts es) s'"
proof -
  have nx: "s_next s \<le> s_next s'" using session_step_ages [OF ok, of c e] st by (simp add: session_ages_def)
  have qo: "queue_ok s" using ok by (simp add: session_ok_def)
  have kept: "k < s_next s' \<and> (\<forall>j \<in> set (s_queue s'). j_id j = k \<longrightarrow> spent (j_phase j) i)" if "(k, i) \<in> set ds" for k i
  proof -
    have old: "k < s_next s" "\<And>j. j \<in> set (s_queue s) \<Longrightarrow> j_id j = k \<Longrightarrow> spent (j_phase j) i"
      using ds that by (auto simp: delivered_ok_def)
    from step_queue [OF ok st] show ?thesis
      using old nx by (elim disjE exE conjE) (auto dest: leD)
  qed
  from step_acts [OF ok st] show ?thesis
  proof (elim disjE exE conjE)
    assume "acts es = []"
    then show ?thesis using kept ds by (auto simp: delivered_ok_def)
  next
    fix j js ph i
    assume h: "s_queue s = j # js" "s_queue s' = j\<lparr>j_phase := ph\<rparr> # js" "acts es = [(j_id j, i)]" "spent ph i" "\<not> spent (j_phase j) i"
    have "(j_id j, i) \<notin> set ds" using ds h(1,5) by (auto simp: delivered_ok_def)
    moreover have "j_id x \<noteq> j_id j" if "x \<in> set js" for x using qo h(1) that by (auto simp: queue_ok_def)
    moreover have "j_id j < s_next s'" using qo h(1) nx by (auto simp: queue_ok_def)
    ultimately show ?thesis using kept ds h by (auto simp: delivered_ok_def)
  qed
qed

lemma delivered_run:
  "session_ok s \<Longrightarrow> delivered_ok ds s \<Longrightarrow> delivered_ok (ds @ acts (fst (session_run es s))) (snd (session_run es s))"
proof (induction es arbitrary: s ds)
  case (Cons ce es)
  obtain c e where "ce = (c, e)" by (cases ce)
  moreover obtain xs s1 where st: "session_step c e s = (xs, s1)" by (cases "session_step c e s")
  moreover obtain ys s2 where "session_run es s1 = (ys, s2)" by (cases "session_run es s1")
  moreover have "session_ok s1" using session_step_ok [OF Cons.prems(1), of c e] st by simp
  ultimately show ?case using Cons.IH [of s1 "ds @ acts xs"] delivered_step [OF Cons.prems(1) st Cons.prems(2)] by simp
qed simp

section \<open>Working off the queue\<close>

definition session_work :: "session \<Rightarrow> nat" where
  "session_work s = sum_list (map (\<lambda>j. phase_rank (j_work j) (j_phase j)) (s_queue s))"

lemma phase_rank_pos [simp]: "0 < phase_rank w ph"
  by (simp add: phase_rank_def Let_def split: phase.split)

lemma job_ok_work: "s_queue s = j # js \<Longrightarrow> job_ok s j js (es, s') \<Longrightarrow> session_work s' < session_work s"
  by (erule job_ok_cases) (simp_all add: session_work_def)

lemma action_can_be_answered: "\<exists>ans r. action_answered c jid idx request len a ap ans s = Some r"
proof (cases ap)
  case (InAdvisor v d)
  then have "action_answered c jid idx request len a ap (AdvisorIs NoCommand) s \<noteq> None"
    by (simp add: action_answered_def del: not_None_eq split: prod.split)
  then show ?thesis by blast
next
  case (InUsage v)
  then have "action_answered c jid idx request len a ap (UsageIs None) s \<noteq> None"
    by (simp add: action_answered_def del: not_None_eq)
  then show ?thesis by blast
next
  case InAct
  then have "action_answered c jid idx request len a ap (ActIs (Inl OtherError)) s \<noteq> None"
    by (simp add: action_answered_def del: not_None_eq)
  then show ?thesis by blast
qed

text \<open>What the head job waits for has an answer that advances it.\<close>

lemma job_can_advance:
  assumes q: "s_queue s = j # js" and ok: "phase_ok s (j_work j) (j_phase j)" and ph: "j_phase j \<noteq> Waiting"
  shows "\<exists>ans. job_ok s j js (answer_job c ans s)"
proof (cases "j_work j")
  case w: (SingleWork a len)
  show ?thesis
  proof (cases "j_phase j")
    case FirstUsage
    then show ?thesis using q w job_idle_finish [OF q]
      by (intro exI [of _ "UsageIs (Some OtherError)"]) (simp add: answer_job_def single_answered_def usage_checked_def)
  next
    case (Preparing v)
    then show ?thesis using q w prepared_answered_ok [OF q w Preparing]
      by (intro exI [of _ "PreparedIs None"]) (simp add: answer_job_def single_answered_def)
  next
    case (OnAction ap)
    obtain ans r where "action_answered c (j_id j) 0 (j_request j) len a ap ans s = Some r"
      using action_can_be_answered by blast
    then show ?thesis using single_action_answered_ok [OF q w ok OnAction] q w OnAction
      by (intro exI [of _ ans]) (simp add: answer_job_def single_answered_def)
  next
    case (Releasing o')
    then show ?thesis using q w ok job_idle_finish [OF q]
      by (intro exI [of _ ReleasedIs]) (simp add: answer_job_def single_answered_def phase_ok_def)
  qed (use ok w ph in \<open>simp_all add: phase_ok_def\<close>)
next
  case w: (BatchWork as cap)
  show ?thesis
  proof (cases "j_phase j")
    case Baselining
    then show ?thesis using q w run_actions_ok [OF q w]
      by (intro exI [of _ "BaselineIs None"]) (simp add: answer_job_def batch_answered_def)
  next
    case (Settling bp)
    then show ?thesis using q w settling_answered_ok [OF q w Settling ok]
      by (intro exI [of _ FocusSettled]) (simp add: answer_job_def batch_answered_def Let_def)
  next
    case (BatchAction bp ap)
    let ?i = "length (bp_receipts bp)"
    obtain ans r where "action_answered c (j_id j) ?i (j_request j)
        (case input_length (as ! ?i) of None \<Rightarrow> None | Some l \<Rightarrow> l) (as ! ?i) ap ans s = Some r"
      using action_can_be_answered by blast
    then show ?thesis using batch_action_answered_ok [OF q w BatchAction ok] q w BatchAction
      by (intro exI [of _ ans]) (simp add: answer_job_def batch_answered_def Let_def)
  next
    case (Capturing bp)
    then have "progress_ok (length as) bp" using ok by (simp add: w phase_ok_def)
    then show ?thesis using captured_ok [OF q] q w Capturing
      by (intro exI [of _ "ObservedIs (Inl OtherError)"]) (simp add: answer_job_def batch_answered_def)
  qed (use ok w ph in \<open>simp_all add: phase_ok_def halt_ok_def\<close>)
next
  case (HumanWork v)
  have "job_ok s j js ([], finish j (Thrown OtherError) (track_end c False s))"
    by (rule job_finish [OF q]) simp_all
  then show ?thesis using HumanWork q ok ph
    by (intro exI [of _ "ActIs (Inl OtherError)"]) (simp add: answer_job_def phase_ok_def)
next
  case RevealWork
  then show ?thesis using job_idle_finish [OF q] q ok ph
    by (intro exI [of _ "ActIs (Inl OtherError)"]) (simp add: answer_job_def phase_ok_def)
qed

lemma begin_job_moves:
  assumes q: "s_queue s = j # js" and ph: "j_phase j = Waiting"
  shows "begin_job c s \<noteq> ([], s)"
proof -
  have no: "\<not> job_ok s j js ([], s)" using job_ok_work [OF q] by blast
  have "job_ok s j js (begin_job c s)"
  proof (cases "is_open s")
    case False
    then show ?thesis using job_idle_finish [OF q] q ph by (simp add: begin_job_def)
  next
    case True
    show ?thesis
    proof (cases "j_work j")
      case (SingleWork a len)
      then show ?thesis using start_single_ok [OF q SingleWork ph] True q ph by (simp add: begin_job_def)
    next
      case (BatchWork as cap)
      then show ?thesis using start_batch_ok [OF q BatchWork ph] True q ph by (simp add: begin_job_def)
    next
      case (HumanWork v)
      have "job_ok s j js ([BackendControl v], wait_in j HumanActing (track_begin c ''human'' t s))" for t
        by (rule job_wait [OF q]) (simp_all add: HumanWork ph phase_ok_def phase_rank_def work_size_def Let_def spent_def acts_permitted_def)
      then show ?thesis using HumanWork True q ph job_idle_finish [OF q] by (auto simp: begin_job_def split: sum.split)
    next
      case RevealWork
      have "job_ok s j js ([BackendReveal], wait_in j Revealing s)"
        by (rule job_wait [OF q]) (simp_all add: RevealWork ph phase_ok_def phase_rank_def work_size_def Let_def spent_def acts_permitted_def)
      then show ?thesis using RevealWork True q ph by (simp add: begin_job_def)
    qed
  qed
  then show ?thesis using no by metis
qed

text \<open>Only a narrowing replaces the policy.\<close>

lemma light_version:
  "s_version (snd (session_step c PauseCall s)) = s_version s" "s_version (snd (session_step c PauseTurn s)) = s_version s"
  "s_version (snd (session_step c (PauseLeased r) s)) = s_version s" "s_version (snd (session_step c ResumeCall s)) = s_version s"
  "s_version (snd (session_step c (ResumeReplied r) s)) = s_version s" "s_version (snd (session_step c NarrowDone s)) = s_version s"
  "s_version (snd (session_step c (ControlCall v) s)) = s_version s"
  "s_version (snd (session_step c (RevealCall who ps) s)) = s_version s"
  "s_version (snd (session_step c (ObserveCall ps) s)) = s_version s"
  "s_version (snd (session_step c (ObserveReplied q) s)) = s_version s" "s_version (snd (session_step c StopCall s)) = s_version s"
  "s_version (snd (session_step c (CloseReplied r) s)) = s_version s" "s_version (snd (session_step c TailDrained s)) = s_version s"
  "s_version (snd (session_step c (CloseDeadline live) s)) = s_version s"
  "s_version (snd (session_step c (HandbackDone t) s)) = s_version s"
  "s_version (snd (session_step c (OwnerGone g) s)) = s_version s" "s_version (snd (session_step c OwnerBack s)) = s_version s"
  "s_version (snd (session_step c GraceOver s)) = s_version s"
  by (simp_all add: session_step_def pause_call_def pause_session_def pause_turn_def pause_leased_def
    resume_call_def resume_replied_def narrow_done_def observe_call_def control_call_def reveal_call_def enqueue_plain_def
    observe_replied_def stop_call_def close_replied_def tail_drained_def close_deadline_def handback_done_def
    owner_gone_def owner_back_def grace_over_def Let_def
    split: pause_state.split close_state.split sum.split decision.split option.split)

lemma step_policy:
  assumes ok: "session_ok s" and st: "session_step c e s = (es, s')" and e: "\<forall>params. e \<noteq> NarrowCall params"
  shows "s_policy s' = s_policy s"
proof -
  have "s_version s' = s_version s"
  proof (cases "job_event e")
    case True
    from True ok st show ?thesis by (cases rule: job_event_step) (auto simp: job_ok_def)
  next
    case False
    show ?thesis
    proof (cases "\<exists>input. e = ActCall input")
      case True
      then obtain input r where "act_request c input s = (r, s')" using st
        by (cases "act_request c (case e of ActCall i \<Rightarrow> i) s") (auto simp: session_step_def)
      then show ?thesis by (cases rule: act_request_cases) (auto simp: quiet_change_def enqueue_def)
    next
      case no: False
      have "s' = snd (session_step c e s)" using st by simp
      then show ?thesis using False no e by (cases e) (simp_all add: job_event_def light_version)
    qed
  qed
  moreover have "narrowed s s'" using session_step_ages [OF ok, of c e] st by (simp add: session_ages_def)
  ultimately show ?thesis by (auto simp: narrowed_def)
qed

section \<open>A new session\<close>

lemma new_session_ok [simp]: "session_ok (new_session c sid lease b h n who)"
  by (simp add: new_session_def Let_def session_ok_def queue_ok_def requests_ok_def pause_ok_def close_ok_def
    record_line_def wf_map_def keys_def journal_limit_def)

lemma new_session_fields [simp]:
  "s_policy (new_session c sid lease b h n who) = sn_policy n" "s_next (new_session c sid lease b h n who) = 0"
  "s_caps (new_session c sid lease b h n who) = action_caps b" "s_state (new_session c sid lease b h n who) = StRunning"
  by (simp_all add: new_session_def Let_def record_line_def)

lemma new_run_ok [simp]: "session_ok (snd (session_run es (new_session c sid lease b h n who)))"
  by (rule session_run_ok) simp

end
