(* ===== verification/BrokerFacts.thy ===== *)
theory BrokerFacts
  imports BrokerOpen SessionRuns "HOL-Library.Multiset"
begin

text \<open>
  The invariant of the broker over all its events: its tables are well formed, a lease is held exactly by
  an open session or a running claim, fewer than 32 sessions are open or on their way, an update excludes
  sessions and operations, and no two openings share a workspace.
\<close>

section \<open>Tables as multisets\<close>

definition vals :: "('k \<times> 'v) list \<Rightarrow> 'v multiset" where
  "vals kvs = mset (map snd kvs)"

lemma vals_simps [simp]: "vals [] = {#}" "vals ((k, v) # kvs) = add_mset v (vals kvs)" "vals (xs @ ys) = vals xs + vals ys"
  by (simp_all add: vals_def)

lemma put_member: "(k, x) \<in> set (put j v kvs) \<Longrightarrow> (k, x) \<in> set kvs \<or> x = v"
  by (induction kvs) (auto split: if_splits)

lemma vals_mem: "map_of kvs k = Some v \<Longrightarrow> v \<in># vals kvs"
  by (force simp: vals_def dest: map_of_SomeD)

lemma vals_put_old: "map_of kvs k = Some v \<Longrightarrow> vals (put k v' kvs) = add_mset v' (vals kvs - {#v#})"
proof (induction kvs)
  case (Cons kv kvs)
  then show ?case using vals_mem [of kvs k v] by (cases kv) (auto split: if_splits)
qed simp

lemma vals_put_new: "k \<notin> keys kvs \<Longrightarrow> vals (put k v kvs) = add_mset v (vals kvs)"
  by (simp add: put_fresh)

lemma vals_del: "wf_map kvs \<Longrightarrow> map_of kvs k = Some v \<Longrightarrow> vals (del k kvs) = vals kvs - {#v#}"
proof (induction kvs)
  case (Cons kv kvs)
  then show ?case using vals_mem [of kvs k v] del_absent [of k kvs] by (cases kv) (auto split: if_splits)
qed simp

lemma vals_filter: "vals (filter (\<lambda>(k, v). P v) kvs) = filter_mset P (vals kvs)"
  by (induction kvs) auto

lemma vals_map: "vals (map (\<lambda>(k, v). (k, f v)) kvs) = image_mset f (vals kvs)"
  by (induction kvs) auto

lemma mset_filter_neq: "distinct xs \<Longrightarrow> mset (filter (\<lambda>x. x \<noteq> l) xs) = mset xs - {#l#}"
  by (induction xs) (auto simp: filter_id_conv [THEN iffD2] diff_single_trivial)

section \<open>The invariant\<close>

definition alive_session :: "session \<Rightarrow> bool" where
  "alive_session s \<longleftrightarrow> s_state s \<noteq> StClosed"

definition past_check :: "operation \<Rightarrow> bool" where
  "past_check p \<longleftrightarrow> (case p of Creating w (Entered i) \<Rightarrow> False | Creating w st \<Rightarrow> True | _ \<Rightarrow> False)"

definition op_lease :: "operation \<Rightarrow> string multiset" where
  "op_lease p = (case p of Creating w (Claiming plan d l) \<Rightarrow> {#l#} | _ \<Rightarrow> {#})"

definition open_leases :: "broker \<Rightarrow> string multiset" where
  "open_leases b = image_mset s_lease (filter_mset alive_session (vals (br_sessions b)))"

definition op_leases :: "broker \<Rightarrow> string multiset" where
  "op_leases b = sum_mset (image_mset op_lease (vals (br_creating b)))"

definition tables_ok :: "broker \<Rightarrow> bool" where
  "tables_ok b \<longleftrightarrow> wf_map (br_sessions b) \<and> wf_map (br_creating b) \<and> (\<forall>n \<in> keys (br_creating b). n < br_serial b)
     \<and> (\<forall>(k, s) \<in> set (br_sessions b). session_ok s)"

definition leases_ok :: "broker \<Rightarrow> bool" where
  "leases_ok b \<longleftrightarrow> distinct (br_leases b) \<and> mset (br_leases b) = open_leases b + op_leases b"

definition limit_ok :: "broker \<Rightarrow> bool" where
  "limit_ok b \<longleftrightarrow> length (unclosed b) + size (filter_mset past_check (vals (br_creating b))) < session_limit"

definition update_ok :: "int \<Rightarrow> broker \<Rightarrow> bool" where
  "update_ok now b \<longleftrightarrow> (update_held now b \<longrightarrow> br_creating b = [] \<and> unclosed b = [])"

definition reservations_ok :: "broker \<Rightarrow> bool" where
  "reservations_ok b \<longleftrightarrow> wf_map (br_allocations b) \<and> distinct (map snd (br_allocations b))"

definition broker_ok :: "int \<Rightarrow> broker \<Rightarrow> bool" where
  "broker_ok now b \<longleftrightarrow> tables_ok b \<and> leases_ok b \<and> limit_ok b \<and> update_ok now b \<and> reservations_ok b"

lemma vals_size_filter: "length (filter P (map snd kvs)) = size (filter_mset P (vals kvs))"
  by (induction kvs) auto

lemma unclosed_size: "length (unclosed b) = size (filter_mset alive_session (vals (br_sessions b)))"
  using vals_size_filter [of alive_session "br_sessions b"] by (simp add: unclosed_def alive_session_def [abs_def])

lemmas broker_ok_defs = broker_ok_def tables_ok_def leases_ok_def limit_ok_def update_ok_def reservations_ok_def
  open_leases_def op_leases_def unclosed_size update_held_def

lemma new_broker_ok: "broker_ok t new_broker"
  by (simp add: broker_ok_defs new_broker_def unclosed_def session_limit_def)

lemma broker_ok_later: "broker_ok t b \<Longrightarrow> t \<le> t' \<Longrightarrow> broker_ok t' b"
  by (auto simp: broker_ok_def update_ok_def update_held_def split: option.splits)

text \<open>Fields the invariant does not look at.\<close>

lemma broker_ok_simps [simp]:
  "broker_ok t (b\<lparr>br_line := q\<rparr>) = broker_ok t b" "broker_ok t (b\<lparr>br_opens := os\<rparr>) = broker_ok t b"
  "broker_ok t (b\<lparr>br_presents := ps\<rparr>) = broker_ok t b" "broker_ok t (b\<lparr>br_opened := ws\<rparr>) = broker_ok t b"
  "broker_ok t (b\<lparr>br_stopping := f\<rparr>) = broker_ok t b"
  by (simp_all add: broker_ok_defs unclosed_def)

section \<open>Operations\<close>

lemma broker_ok_add:
  assumes "broker_ok t b" "\<not> update_held t b" "op_lease p = {#}" "\<not> past_check p"
  shows "broker_ok t (snd (add_operation p b))"
proof -
  have "br_serial b \<notin> keys (br_creating b)" using assms(1) by (auto simp: broker_ok_defs)
  then have "wf_map (br_creating b @ [(br_serial b, p)])"
    using assms(1) by (simp add: broker_ok_def tables_ok_def flip: put_fresh)
  then show ?thesis using assms by (auto simp: add_operation_def broker_ok_defs unclosed_def less_Suc_eq)
qed

lemma broker_ok_end:
  assumes "broker_ok t b" "map_of (br_creating b) n = Some p" "op_lease p = {#}"
  shows "broker_ok t (end_operation n b)"
proof -
  have w: "wf_map (br_creating b)" using assms(1) by (simp add: broker_ok_def tables_ok_def)
  have v: "vals (br_creating b) = add_mset p (vals (del n (br_creating b)))"
    using vals_del [OF w assms(2)] vals_mem [OF assms(2)] by simp
  then have "op_leases (end_operation n b) = op_leases b" using assms(3) by (simp add: op_leases_def end_operation_def)
  moreover have "br_creating b \<noteq> []" using assms(2) by auto
  ultimately show ?thesis using assms(1) v w
    by (auto simp: broker_ok_def tables_ok_def leases_ok_def limit_ok_def update_ok_def update_held_def reservations_ok_def
      open_leases_def end_operation_def unclosed_def split: if_splits option.splits)
qed

lemma broker_ok_set:
  assumes "broker_ok t b" "map_of (br_creating b) n = Some p" "op_lease p' = op_lease p" "past_check p' \<Longrightarrow> past_check p"
  shows "broker_ok t (set_operation n p' b)"
proof -
  have k: "n \<in> keys (br_creating b)" using assms(2) by (force simp: keys_def dest: map_of_SomeD)
  have v: "vals (br_creating b) = add_mset p (vals (br_creating b) - {#p#})" using vals_mem [OF assms(2)] by simp
  have v': "vals (put n p' (br_creating b)) = add_mset p' (vals (br_creating b) - {#p#})" by (rule vals_put_old [OF assms(2)])
  have "op_leases (set_operation n p' b) = op_leases b"
    using assms(3) by (simp add: op_leases_def set_operation_def v') (subst (2) v, simp)
  moreover have "size (filter_mset past_check (vals (put n p' (br_creating b)))) \<le> size (filter_mset past_check (vals (br_creating b)))"
    using assms(4) unfolding v' by (subst (2) v) simp
  moreover have "br_creating b \<noteq> []" using assms(2) by auto
  ultimately show ?thesis using assms(1) k
    by (auto simp: broker_ok_def tables_ok_def leases_ok_def limit_ok_def update_ok_def update_held_def reservations_ok_def
      open_leases_def set_operation_def unclosed_def insert_absorb split: option.splits)
qed

section \<open>Sessions\<close>

text \<open>A session steps: what it is to the broker is its lease and whether it is closed.\<close>

lemma vals_sessions_put:
  assumes "map_of (br_sessions b) sid = Some s"
  shows "filter_mset alive_session (vals (put sid s' (br_sessions b)))
    = filter_mset alive_session (vals (br_sessions b)) - (if alive_session s then {#s#} else {#})
      + (if alive_session s' then {#s'#} else {#})"
  unfolding vals_put_old [OF assms] using vals_mem [OF assms]
  by (auto simp: filter_diff_mset)

lemma broker_ok_on_session:
  assumes ok: "broker_ok t b"
  shows "broker_ok t (snd (on_session c sid e b))"
proof (cases "map_of (br_sessions b) sid")
  case (Some s)
  obtain es s' where st: "session_step c e s = (es, s')" by (cases "session_step c e s")
  have so: "session_ok s" using ok Some by (auto simp: broker_ok_def tables_ok_def dest: map_of_SomeD)
  have ages: "session_ages s s'" and so': "session_ok s'"
    using session_step_ages [OF so, of c e] session_step_ok [OF so, of c e] st by simp_all
  have l: "s_lease s' = s_lease s" and cl: "\<not> alive_session s \<Longrightarrow> \<not> alive_session s'"
    using ages by (auto simp: session_ages_def alive_session_def)
  let ?b = "snd (on_session c sid e b)"
  have f: "br_sessions ?b = put sid s' (br_sessions b)" "br_creating ?b = br_creating b" "br_serial ?b = br_serial b"
    "br_update ?b = br_update b" "br_allocations ?b = br_allocations b"
    "br_leases ?b = (if alive_session s \<and> \<not> alive_session s' then filter (\<lambda>l. l \<noteq> s_lease s) (br_leases b) else br_leases b)"
    using Some st by (simp_all add: on_session_def alive_session_def)
  note v = vals_sessions_put [OF Some, of s']
  have mem: "alive_session s \<Longrightarrow> s \<in># filter_mset alive_session (vals (br_sessions b))" using vals_mem [OF Some] by simp
  have ol: "open_leases ?b = (if alive_session s \<and> \<not> alive_session s' then open_leases b - {#s_lease s#} else open_leases b)"
    using cl l mem by (auto simp: open_leases_def f(1) v image_mset_Diff)
  have len: "length (unclosed ?b) \<le> length (unclosed b)"
  proof (cases "alive_session s")
    case True
    have "Suc (size (filter_mset alive_session (vals (br_sessions b)) - {#s#})) = size (filter_mset alive_session (vals (br_sessions b)))"
      by (rule size_Suc_Diff1 [OF mem [OF True]])
    then show ?thesis using True by (simp add: unclosed_size f(1) v)
  qed (use cl in \<open>simp add: unclosed_size f(1) v\<close>)
  have "tables_ok ?b" using ok so' by (auto simp: broker_ok_def tables_ok_def f dest!: put_member)
  moreover have "leases_ok ?b"
  proof -
    have d: "distinct (br_leases b)" and m: "mset (br_leases b) = open_leases b + op_leases b"
      using ok by (auto simp: broker_ok_def leases_ok_def)
    have "s_lease s \<in># open_leases b" if "alive_session s" using mem [OF that] by (force simp: open_leases_def)
    then show ?thesis using d m mset_filter_neq [OF d, of "s_lease s"] by (simp add: leases_ok_def f ol op_leases_def)
  qed
  moreover have "limit_ok ?b" "update_ok t ?b"
    using ok len by (auto simp: broker_ok_def limit_ok_def update_ok_def update_held_def f)
  ultimately show ?thesis using ok by (simp add: broker_ok_def reservations_ok_def f)
qed (simp add: on_session_def ok)

text \<open>All sessions at once, by a function that neither closes one nor changes its lease.\<close>

lemma broker_ok_map:
  assumes ok: "broker_ok t b" and f: "\<And>s. session_ok s \<Longrightarrow> session_ok (f s) \<and> s_lease (f s) = s_lease s
    \<and> alive_session (f s) = alive_session s"
  shows "broker_ok t (b\<lparr>br_sessions := map (\<lambda>(k, s). (k, f s)) (br_sessions b)\<rparr>)"
proof -
  let ?b = "b\<lparr>br_sessions := map (\<lambda>(k, s). (k, f s)) (br_sessions b)\<rparr>"
  have all: "\<forall>s \<in># vals (br_sessions b). session_ok s" using ok by (auto simp: broker_ok_def tables_ok_def vals_def)
  have filt: "filter_mset alive_session (image_mset f M) = image_mset f (filter_mset alive_session M)"
    "image_mset s_lease (image_mset f (filter_mset alive_session M)) = image_mset s_lease (filter_mset alive_session M)"
    if "\<forall>s \<in># M. session_ok s" for M
    using that f by (induction M) auto
  have keys: "map fst (map (\<lambda>(k, s). (k, f s)) xs) = map fst xs" for xs :: "(string \<times> session) list"
    by (induction xs) auto
  have wf: "wf_map (map (\<lambda>(k, s). (k, f s)) xs) = wf_map xs" for xs :: "(string \<times> session) list"
    by (simp only: wf_map_def keys)
  have ol: "open_leases ?b = open_leases b" using filt [OF all] by (simp add: open_leases_def vals_map)
  have un: "length (unclosed ?b) = length (unclosed b)" using filt(1) [OF all] by (simp add: unclosed_size vals_map)
  have "tables_ok ?b" using ok f by (auto simp: broker_ok_def tables_ok_def wf)
  moreover have "leases_ok ?b" using ok ol by (simp add: broker_ok_def leases_ok_def op_leases_def)
  moreover have "limit_ok ?b" using ok un by (simp add: broker_ok_def limit_ok_def)
  moreover have "update_ok t ?b" using ok un by (auto simp: broker_ok_def update_ok_def update_held_def)
  ultimately show ?thesis using ok by (simp add: broker_ok_def reservations_ok_def)
qed

lemma stop_call_same: "session_ok s \<Longrightarrow> session_ok (snd (stop_call s)) \<and> s_lease (snd (stop_call s)) = s_lease s
    \<and> alive_session (snd (stop_call s)) = alive_session s"
  using stop_call_ok [of s] by (simp add: stop_call_def alive_session_def)

lemma pause_session_same:
  "s_lease (snd (pause_session s)) = s_lease s" "is_open s \<Longrightarrow> alive_session (snd (pause_session s))"
  by (auto simp: pause_session_def alive_session_def is_open_def split: pause_state.split)

lemma owner_gone_same: "session_ok s \<Longrightarrow> session_ok (owner_gone c g s) \<and> s_lease (owner_gone c g s) = s_lease s
    \<and> alive_session (owner_gone c g s) = alive_session s"
  using session_step_ok [of s c "OwnerGone g"] pause_session_same
  by (auto simp: session_step_def owner_gone_def alive_session_def is_open_def record_line_def Let_def)

lemma owner_back_same: "session_ok s \<Longrightarrow> session_ok (owner_back s) \<and> s_lease (owner_back s) = s_lease s
    \<and> alive_session (owner_back s) = alive_session s"
  using session_step_ok [of s c OwnerBack] by (simp add: session_step_def owner_back_def alive_session_def)

text \<open>Closed sessions may leave the table.\<close>

lemma broker_ok_drop:
  assumes ok: "broker_ok t b" and d: "\<forall>(k, s) \<in> set (br_sessions b). \<not> P k \<longrightarrow> \<not> alive_session s"
  shows "broker_ok t (b\<lparr>br_sessions := filter (\<lambda>(k, s). P k) (br_sessions b)\<rparr>)"
proof -
  let ?b = "b\<lparr>br_sessions := filter (\<lambda>(k, s). P k) (br_sessions b)\<rparr>"
  have filt: "filter_mset alive_session (vals (filter (\<lambda>(k, s). P k) xs)) = filter_mset alive_session (vals xs)"
    if "\<forall>(k, s) \<in> set xs. \<not> P k \<longrightarrow> \<not> alive_session s" for xs
    using that by (induction xs) auto
  have ol: "open_leases ?b = open_leases b" using filt [OF d] by (simp add: open_leases_def)
  have un: "length (unclosed ?b) = length (unclosed b)" using filt [OF d] by (simp add: unclosed_size)
  have "wf_map (filter P' xs)" if "wf_map xs" for P' and xs :: "(string \<times> session) list"
    using that by (simp add: wf_map_def distinct_map_filter)
  then have "tables_ok ?b" using ok by (auto simp: broker_ok_def tables_ok_def)
  moreover have "leases_ok ?b" using ok ol by (simp add: broker_ok_def leases_ok_def op_leases_def)
  moreover have "limit_ok ?b" using ok un by (simp add: broker_ok_def limit_ok_def)
  moreover have "update_ok t ?b" using ok un by (auto simp: broker_ok_def update_ok_def update_held_def)
  ultimately show ?thesis using ok by (simp add: broker_ok_def reservations_ok_def)
qed

lemma insert_by_age_set: "set (insert_by_age x xs) = insert x (set xs)"
  unfolding insert_by_age_def by (metis set_append list.simps(15) Un_insert_right takeWhile_dropWhile_id)

lemma sorted_by_age_set: "set (foldr insert_by_age xs []) = set xs"
  by (induction xs) (simp_all add: insert_by_age_set)

lemma prune_closed_ok:
  assumes ok: "broker_ok t b"
  shows "broker_ok t (prune_closed b)"
proof -
  let ?dropped = "map fst (take (length (foldr insert_by_age (filter (\<lambda>(k, s). s_state s = StClosed) (br_sessions b)) []) - 16)
    (foldr insert_by_age (filter (\<lambda>(k, s). s_state s = StClosed) (br_sessions b)) []))"
  have w: "wf_map (br_sessions b)" using ok by (simp add: broker_ok_def tables_ok_def)
  have "\<not> alive_session s" if m: "(k, s) \<in> set (br_sessions b)" and dr: "k \<in> set ?dropped" for k s
  proof -
    obtain s' where s': "(k, s') \<in> set (br_sessions b)" "s_state s' = StClosed"
      using dr by (auto dest!: in_set_takeD simp: sorted_by_age_set)
    have "s' = s" using w m s'(1) by (simp add: wf_map_def eq_key_imp_eq_value)
    then show ?thesis using s'(2) by (simp add: alive_session_def)
  qed
  then have "broker_ok t (b\<lparr>br_sessions := filter (\<lambda>(k, s). k \<notin> set ?dropped) (br_sessions b)\<rparr>)"
    by (intro broker_ok_drop [OF ok]) auto
  then show ?thesis by (simp add: prune_closed_def Let_def)
qed

lemma forget_ok:
  assumes ok: "broker_ok t b"
  shows "broker_ok t (snd (forget reg now who params b))"
proof -
  have w: "wf_map (br_sessions b)" using ok by (simp add: broker_ok_def tables_ok_def)
  have "broker_ok t (b\<lparr>br_sessions := del sid (br_sessions b)\<rparr>)" if "map_of (br_sessions b) sid = Some s" "s_state s = StClosed" for sid s
  proof -
    have "x = s" if "(sid, x) \<in> set (br_sessions b)" for x
      using w that \<open>map_of (br_sessions b) sid = Some s\<close> by (simp add: wf_map_def)
    then have "broker_ok t (b\<lparr>br_sessions := filter (\<lambda>(k, x). k \<noteq> sid) (br_sessions b)\<rparr>)"
      using that by (intro broker_ok_drop [OF ok]) (auto simp: alive_session_def)
    then show ?thesis by (simp add: del_def)
  qed
  then show ?thesis using ok by (simp add: forget_def split: sum.split option.split)
qed

section \<open>Creating\<close>

lemma ops_split:
  assumes "wf_map kvs" "map_of kvs n = Some p"
  obtains W where "vals kvs = add_mset p W" "vals (del n kvs) = W" "\<And>p'. vals (put n p' kvs) = add_mset p' W"
  using vals_del [OF assms] vals_mem [OF assms(2)] vals_put_old [OF assms(2)] by (metis insert_DiffM)

lemma put_keys_old: "map_of kvs n = Some p \<Longrightarrow> keys (put n p' kvs) = keys kvs"
proof -
  assume "map_of kvs n = Some p"
  then have "n \<in> keys kvs" by (force simp: keys_def dest: map_of_SomeD)
  then show "keys (put n p' kvs) = keys kvs" by (simp add: insert_absorb)
qed

text \<open>The operation passes the check of the limit.\<close>

lemma broker_ok_pass:
  assumes ok: "broker_ok t b" and p: "map_of (br_creating b) n = Some p" "op_lease p' = op_lease p" "\<not> past_check p"
    and room: "length (unclosed b) + length (br_creating b) < session_limit"
  shows "broker_ok t (set_operation n p' b)"
proof -
  have w: "wf_map (br_creating b)" using ok by (simp add: broker_ok_def tables_ok_def)
  obtain W where W: "vals (br_creating b) = add_mset p W" "vals (put n p' (br_creating b)) = add_mset p' W"
    using ops_split [OF w p(1)] by metis
  have "size (vals (br_creating b)) = length (br_creating b)" by (simp add: vals_def)
  then have "size W < length (br_creating b)" by (simp add: W(1))
  then have "size (filter_mset past_check W) < length (br_creating b)"
    using size_filter_mset_lesseq le_less_trans by blast
  then have "size (filter_mset past_check (add_mset p' W)) \<le> length (br_creating b)" by simp
  moreover have "br_creating b \<noteq> []" using p(1) by auto
  ultimately show ?thesis using ok p(2) room W w put_keys_old [OF p(1)]
    by (auto simp: broker_ok_def tables_ok_def leases_ok_def limit_ok_def update_ok_def update_held_def reservations_ok_def
      open_leases_def op_leases_def set_operation_def unclosed_def split: option.splits)
qed

text \<open>The operation takes a lease, and gives it back.\<close>

lemma broker_ok_claim:
  assumes ok: "broker_ok t b" and p: "map_of (br_creating b) n = Some p" "op_lease p = {#}" "past_check p"
    and p': "op_lease p' = {#l#}" and l: "l \<notin> set (br_leases b)"
  shows "broker_ok t (set_operation n p' (b\<lparr>br_leases := br_leases b @ [l]\<rparr>))"
proof -
  have w: "wf_map (br_creating b)" using ok by (simp add: broker_ok_def tables_ok_def)
  obtain W where W: "vals (br_creating b) = add_mset p W" "vals (put n p' (br_creating b)) = add_mset p' W"
    using ops_split [OF w p(1)] by metis
  have "br_creating b \<noteq> []" using p(1) by auto
  then show ?thesis using ok p p' l W w put_keys_old [OF p(1)]
    by (auto simp: broker_ok_def tables_ok_def leases_ok_def limit_ok_def update_ok_def update_held_def reservations_ok_def
      open_leases_def op_leases_def set_operation_def unclosed_def split: option.splits)
qed

lemma released_leases:
  assumes "leases_ok b" "op_leases b = add_mset l M"
  shows "distinct (filter (\<lambda>x. x \<noteq> l) (br_leases b))" "mset (filter (\<lambda>x. x \<noteq> l) (br_leases b)) = open_leases b + M"
  using assms mset_filter_neq [of "br_leases b" l] by (auto simp: leases_ok_def)

lemma broker_ok_release:
  assumes ok: "broker_ok t b" and p: "map_of (br_creating b) n = Some p" "op_lease p = {#l#}" "past_check p"
  shows "broker_ok t (end_operation n (b\<lparr>br_leases := filter (\<lambda>x. x \<noteq> l) (br_leases b)\<rparr>))"
    and "op_lease p' = {#} \<Longrightarrow> broker_ok t (set_operation n p' (b\<lparr>br_leases := filter (\<lambda>x. x \<noteq> l) (br_leases b)\<rparr>))"
proof -
  have w: "wf_map (br_creating b)" using ok by (simp add: broker_ok_def tables_ok_def)
  obtain W where W: "vals (br_creating b) = add_mset p W" "vals (del n (br_creating b)) = W"
      "\<And>p'. vals (put n p' (br_creating b)) = add_mset p' W"
    using ops_split [OF w p(1)] by metis
  have o: "op_leases b = add_mset l (sum_mset (image_mset op_lease W))" by (simp add: op_leases_def W(1) p(2))
  have lo: "leases_ok b" using ok by (simp add: broker_ok_def)
  note r = released_leases [OF lo o]
  have ne: "br_creating b \<noteq> []" using p(1) by auto
  show "broker_ok t (end_operation n (b\<lparr>br_leases := filter (\<lambda>x. x \<noteq> l) (br_leases b)\<rparr>))"
    using ok r W w ne p(3)
    by (auto simp: broker_ok_def tables_ok_def leases_ok_def limit_ok_def update_ok_def update_held_def reservations_ok_def
      open_leases_def op_leases_def end_operation_def unclosed_def split: option.splits)
  show "op_lease p' = {#} \<Longrightarrow> broker_ok t (set_operation n p' (b\<lparr>br_leases := filter (\<lambda>x. x \<noteq> l) (br_leases b)\<rparr>))"
    using ok r W w ne p(3) put_keys_old [OF p(1)]
    by (auto simp: broker_ok_def tables_ok_def leases_ok_def limit_ok_def update_ok_def update_held_def reservations_ok_def
      open_leases_def op_leases_def set_operation_def unclosed_def split: option.splits)
qed

text \<open>The claim succeeds: its lease is now the session's.\<close>

lemma broker_ok_enroll:
  assumes ok: "broker_ok t b" and p: "map_of (br_creating b) n = Some p" "op_lease p = {#s_lease s#}" "past_check p"
    and s: "session_ok s" "alive_session s" "sid \<notin> keys (br_sessions b)"
  shows "broker_ok t (end_operation n (b\<lparr>br_sessions := put sid s (br_sessions b)\<rparr>))"
proof -
  have w: "wf_map (br_creating b)" "wf_map (br_sessions b)" using ok by (simp_all add: broker_ok_def tables_ok_def)
  obtain W where W: "vals (br_creating b) = add_mset p W" "vals (del n (br_creating b)) = W"
    using ops_split [OF w(1) p(1)] by metis
  have ne: "br_creating b \<noteq> []" using p(1) by auto
  note v = vals_put_new [OF s(3), of s]
  let ?b = "end_operation n (b\<lparr>br_sessions := put sid s (br_sessions b)\<rparr>)"
  have "tables_ok ?b" using ok w s(1)
    by (auto simp: broker_ok_def tables_ok_def end_operation_def dest!: put_member)
  moreover have "leases_ok ?b" using ok s(2) p(2)
    by (simp add: broker_ok_def leases_ok_def open_leases_def op_leases_def end_operation_def v W)
  moreover have "limit_ok ?b" using ok s(2) p(3)
    by (simp add: broker_ok_def limit_ok_def end_operation_def unclosed_size v W)
  moreover have "update_ok t ?b" using ok ne by (auto simp: broker_ok_def update_ok_def update_held_def end_operation_def)
  ultimately show ?thesis using ok by (simp add: broker_ok_def reservations_ok_def end_operation_def)
qed

lemma create_call_ok: "broker_ok t b \<Longrightarrow> broker_ok t (snd (create_call t input who b))"
  using broker_ok_add [of t b "Creating who (Entered input)"]
  by (cases "add_operation (Creating who (Entered input)) b") (auto simp: create_call_def op_lease_def past_check_def)

lemma create_checked_Ok: "create_checked cfg now input b = Ok plan \<Longrightarrow> length (unclosed b) + length (br_creating b) < session_limit"
  by (auto simp: create_checked_def split: if_splits sum.splits) (auto simp: and_then_def split: sum.splits if_splits)

lemma create_admitted_ok:
  assumes ok: "broker_ok t b"
  shows "broker_ok t (snd (create_admitted cfg t n admission b))"
proof (cases "\<exists>who input. map_of (br_creating b) n = Some (Creating who (Entered input))")
  case True
  then obtain who input where p: "map_of (br_creating b) n = Some (Creating who (Entered input))" by blast
  define b1 where "b1 = (case create_target cfg input of Inl e \<Rightarrow> b | Inr x \<Rightarrow> if update_held t b then b else prune_closed b)"
  have ok1: "broker_ok t b1" using ok prune_closed_ok by (simp add: b1_def split: sum.split)
  have "br_creating b1 = br_creating b" by (simp add: b1_def prune_closed_def Let_def split: sum.split)
  then have p1: "map_of (br_creating b1) n = Some (Creating who (Entered input))" using p by simp
  have "broker_ok t (end_operation n b)" "broker_ok t (end_operation n b1)"
    using broker_ok_end [OF ok p] broker_ok_end [OF ok1 p1] by (simp_all add: op_lease_def)
  moreover have "broker_ok t (set_operation n (Creating who (InLine plan d)) b1)" if "create_checked cfg t input b1 = Ok plan" for plan d
    using create_checked_Ok [OF that] by (intro broker_ok_pass [OF ok1 p1]) (simp_all add: op_lease_def past_check_def)
  moreover have "create_admitted cfg t n admission b = (case admission of
      Some e \<Rightarrow> (Err e, end_operation n b)
    | None \<Rightarrow> (case create_checked cfg t input b1 of
          Inl e \<Rightarrow> (Err (Orbit e), end_operation n b1)
        | Inr plan \<Rightarrow> (Ok (), set_operation n (Creating who (InLine plan (t + cp_wait plan * 1000))) b1)))"
    unfolding create_admitted_def p b1_def Let_def by simp
  ultimately show ?thesis by (simp split: option.split sum.split)
next
  case False
  then show ?thesis using ok by (simp add: create_admitted_def split: option.split operation.split create_stage.split)
qed

lemma create_busy_ok:
  assumes e: "broker_ok t (end_operation n b)" and s: "\<And>d. broker_ok t (set_operation n (Creating who (InLine plan d)) b)"
  shows "broker_ok t (snd (create_busy reg t n who plan deadline infront message b))"
proof -
  have "broker_ok t (end_operation n (b\<lparr>br_line := q\<rparr>))" "broker_ok t (set_operation n (Creating who (InLine plan d)) (b\<lparr>br_line := q\<rparr>))" for q d
  proof -
    have "end_operation n (b\<lparr>br_line := q\<rparr>) = (end_operation n b)\<lparr>br_line := q\<rparr>"
      "set_operation n (Creating who (InLine plan d)) (b\<lparr>br_line := q\<rparr>) = (set_operation n (Creating who (InLine plan d)) b)\<lparr>br_line := q\<rparr>"
      by (simp_all add: end_operation_def set_operation_def)
    then show "broker_ok t (end_operation n (b\<lparr>br_line := q\<rparr>))"
      "broker_ok t (set_operation n (Creating who (InLine plan d)) (b\<lparr>br_line := q\<rparr>))" using e s by simp_all
  qed
  then show ?thesis using e s by (simp add: create_busy_def Let_def split: option.split prod.split)
qed

lemma end_light:
  "end_operation n (b\<lparr>br_line := q\<rparr>) = (end_operation n b)\<lparr>br_line := q\<rparr>"
  "end_operation n (leave_line t who plan b) = leave_line t who plan (end_operation n b)"
  "broker_ok t' (leave_line t who plan b) = broker_ok t' b"
  by (simp_all add: end_operation_def leave_line_def)

lemma create_turn_ok: "broker_ok t b \<Longrightarrow> broker_ok t (snd (snd (create_turn reg t u n b)))"
proof -
  assume ok: "broker_ok t b"
  show ?thesis
  proof (cases "\<exists>who plan d. map_of (br_creating b) n = Some (Creating who (InLine plan d))")
    case True
    then obtain who plan d where p: "map_of (br_creating b) n = Some (Creating who (InLine plan d))" by blast
    obtain a q where q: "ahead stale_ms t (cp_key plan) (c_id who) (br_line b) = (a, q)"
      by (cases "ahead stale_ms t (cp_key plan) (c_id who) (br_line b)")
    let ?b = "b\<lparr>br_line := q\<rparr>"
    have ok': "broker_ok t ?b" using ok by simp
    have p': "map_of (br_creating ?b) n = Some (Creating who (InLine plan d))" using p by simp
    have e: "broker_ok t (end_operation n ?b)" using broker_ok_end [OF ok' p'] by (simp add: op_lease_def)
    have s: "broker_ok t (set_operation n (Creating who (InLine plan d')) ?b)" for d'
      using broker_ok_set [OF ok' p'] by (simp add: op_lease_def past_check_def)
    have c: "broker_ok t (set_operation n (Creating who (Claiming plan d l)) (?b\<lparr>br_leases := br_leases ?b @ [l]\<rparr>))"
      if "l \<notin> set (br_leases ?b)" for l
      using that by (intro broker_ok_claim [OF ok' p']) (simp_all add: op_lease_def past_check_def)
    have busy: "broker_ok t b2" if "create_busy reg t n who plan d a None ?b = (r, b2)" for r b2
      using create_busy_ok [OF e s, of reg d a None] that by simp
    show ?thesis using p q e c busy by (auto simp: create_turn_def Let_def end_light split: prod.split sum.split)
  next
    case False
    then show ?thesis using ok by (simp add: create_turn_def split: option.split operation.split create_stage.split)
  qed
qed

lemma claim_answered_ok:
  assumes ok: "broker_ok (fst c) b" and sid: "sid \<notin> keys (br_sessions b)"
  shows "broker_ok (fst c) (snd (claim_answered reg c sid n r b))"
proof (cases "\<exists>who plan d l. map_of (br_creating b) n = Some (Creating who (Claiming plan d l))")
  case True
  then obtain who plan d l where p: "map_of (br_creating b) n = Some (Creating who (Claiming plan d l))" by blast
  have pl: "op_lease (Creating who (Claiming plan d l)) = {#l#}" "past_check (Creating who (Claiming plan d l))"
    by (simp_all add: op_lease_def past_check_def)
  note rel = broker_ok_release [OF ok p pl]
  let ?b = "b\<lparr>br_leases := filter (\<lambda>x. x \<noteq> l) (br_leases b)\<rparr>"
  have busy: "broker_ok (fst c) (snd (create_busy reg (fst c) n who plan d a m ?b))" for a m
    by (rule create_busy_ok [OF rel(1)]) (rule rel(2), simp add: op_lease_def)
  have new: "broker_ok (fst c) (end_operation n (b\<lparr>br_sessions := put sid (new_session c sid l bk view nm who) (br_sessions b)\<rparr>))" for bk view nm
    by (rule broker_ok_enroll [OF ok p _ pl(2) _ _ sid])
      (simp_all add: pl op_lease_def new_session_ok alive_session_def, simp_all add: new_session_def Let_def record_line_def)
  show ?thesis using p rel(1) busy new
    by (auto simp: claim_answered_def Let_def end_light split: sum.split prod.split thrown.split)
next
  case False
  then show ?thesis using ok by (simp add: claim_answered_def split: option.split operation.split create_stage.split)
qed

section \<open>Opening and presenting\<close>

lemma add_operation_pair: "add_operation p b = (n, b') \<Longrightarrow> b' = snd (add_operation p b)"
  by simp

lemma open_call_ok:
  assumes ok: "broker_ok t b"
  shows "broker_ok t (snd (open_call cfg t who params admission b))"
proof -
  have "broker_ok t (snd (add_operation (Opening k who a o' None) b))" if "\<not> update_held t b" for k a o'
    using ok that by (rule broker_ok_add) (simp_all add: op_lease_def past_check_def)
  moreover have "\<not> update_held t b" if "operation_barrier u cfg t admission b = Inr x" for u x
    using that by (auto simp: operation_barrier_def split: option.splits if_splits)
  ultimately show ?thesis using ok
    by (auto simp: open_call_def Let_def and_then_def dest!: add_operation_pair split: sum.split option.split prod.split)
qed

lemma settle_open_ok:
  assumes "broker_ok t b" and "map_of (br_creating b) n = Some (Opening k who a o' w)"
  shows "broker_ok t (settle_open n key r b)"
proof -
  have "broker_ok t (end_operation n (b\<lparr>br_opens := x\<rparr>))" for x
    by (rule broker_ok_end [where p = "Opening k who a o' w"]) (use assms in \<open>simp_all add: op_lease_def\<close>)
  then show ?thesis by (simp add: settle_open_def split: sum.split thrown.split)
qed

lemma reservations_put:
  assumes "reservations_ok b" and "\<forall>(k, v) \<in> set (br_allocations b). k \<noteq> key \<longrightarrow> v \<noteq> w"
  shows "reservations_ok (b\<lparr>br_allocations := put key w (br_allocations b)\<rparr>)"
proof -
  have "distinct (map snd (put key w kvs))"
    if "wf_map kvs" "distinct (map snd kvs)" "\<forall>(k, v) \<in> set kvs. k \<noteq> key \<longrightarrow> v \<noteq> w" for kvs :: "(operation_key \<times> nat) list"
    using that
  proof (induction kvs)
    case (Cons kv kvs)
    obtain k v where kv: "kv = (k, v)" by (cases kv)
    have no: "key \<notin> keys kvs" if "k = key" using Cons.prems(1) kv that by simp
    have "v \<notin> set (map snd (put key w kvs))" if "k \<noteq> key"
      using Cons.prems(2,3) kv that by (force dest: put_member)
    moreover have "w \<notin> set (map snd kvs)" if "k = key" using no [OF that] Cons.prems(3) kv by (force simp: keys_def)
    ultimately show ?case using Cons kv by auto
  qed simp
  then show ?thesis using assms by (simp add: reservations_ok_def)
qed

lemma broker_ok_reserve:
  "broker_ok t b \<Longrightarrow> \<forall>(k, v) \<in> set (br_allocations b). k \<noteq> key \<longrightarrow> v \<noteq> w
    \<Longrightarrow> broker_ok t (b\<lparr>br_allocations := put key w (br_allocations b)\<rparr>)"
  using reservations_put [of b key w] by (auto simp: broker_ok_def tables_ok_def leases_ok_def limit_ok_def update_ok_def
    update_held_def open_leases_def op_leases_def unclosed_def)

lemma note_opened_ok [simp]: "broker_ok t (note_opened now who w b) = broker_ok t b"
  "br_allocations (note_opened now who w b) = br_allocations b" "br_creating (note_opened now who w b) = br_creating b"
  by (simp_all add: note_opened_def)

text \<open>An allocated workspace is reserved for nobody else.\<close>

lemma allocate_free: "allocate_workspace pool own used shown = Inr w \<Longrightarrow> w \<notin> used"
  by (auto simp: allocate_workspace_def find_Some_iff split: option.splits)

lemma map_of_unique: "wf_map kvs \<Longrightarrow> distinct (map snd kvs) \<Longrightarrow> map_of kvs k = Some w \<Longrightarrow> (k', w) \<in> set kvs \<Longrightarrow> k' = k"
  by (induction kvs) (force split: if_splits dest: map_of_SomeD)+

lemma allocate_for_ok:
  assumes ok: "broker_ok t b" and a: "allocate_for cfg reg now key who inventory b = (r, b')"
  shows "broker_ok t b'" "br_creating b' = br_creating b"
    "r = Inr w \<Longrightarrow> \<forall>(k, v) \<in> set (br_allocations b'). k \<noteq> key \<longrightarrow> v \<noteq> w"
proof -
  have res: "wf_map (br_allocations b)" "distinct (map snd (br_allocations b))"
    using ok by (simp_all add: broker_ok_def reservations_ok_def)
  have all: "broker_ok t b' \<and> br_creating b' = br_creating b \<and> (\<forall>w. r = Inr w \<longrightarrow> (\<forall>(k, v) \<in> set (br_allocations b'). k \<noteq> key \<longrightarrow> v \<noteq> w))"
  proof (cases "map_of (br_allocations b) key")
    case (Some v)
    then show ?thesis using a ok map_of_unique [OF res Some] by (auto simp: allocate_for_def)
  next
    case None
    let ?kept = "filter (\<lambda>e. now - ow_at e < 6 * 3600000 \<and> is_alive (ow_caller e) reg \<noteq> Some False) (br_opened b)"
    let ?b = "b\<lparr>br_opened := ?kept\<rparr>"
    have fresh: "\<forall>(k, v) \<in> set (br_allocations b). v \<noteq> w" if "allocate_workspace p own used shown = Inr w"
        "set (map snd (br_allocations b)) \<subseteq> used" for p own used shown w
      using allocate_free [OF that(1)] that(2) by force
    have new: "broker_ok t (?b\<lparr>br_allocations := put key w (br_allocations ?b)\<rparr>)
        \<and> (\<forall>(k, v) \<in> set (put key w (br_allocations b)). k \<noteq> key \<longrightarrow> v \<noteq> w)"
      if "\<forall>(k, v) \<in> set (br_allocations b). v \<noteq> w" for w
    proof
      show "broker_ok t (?b\<lparr>br_allocations := put key w (br_allocations ?b)\<rparr>)"
        by (rule broker_ok_reserve) (use ok that in auto)
      show "\<forall>(k, v) \<in> set (put key w (br_allocations b)). k \<noteq> key \<longrightarrow> v \<noteq> w"
        using that None by (auto simp: put_fresh map_of_eq_None_iff keys_def)
    qed
    show ?thesis
    proof (cases inventory)
      case (Inl e)
      then show ?thesis using a ok None by (auto simp: allocate_for_def)
    next
      case (Inr os)
      obtain occupied shown where os: "os = (occupied, shown)" by (cases os)
      let ?used = "set (map nat occupied) \<union> set (map (nat \<circ> s_workspace) (unclosed b)) \<union> set (map ow_workspace ?kept)
        \<union> set (map snd (br_allocations b))"
      show ?thesis
      proof (cases "allocate_workspace (bc_pool cfg) [] ?used (set (map nat shown))")
        case (Inl e)
        then show ?thesis using a ok None Inr os by (auto simp: allocate_for_def Let_def)
      next
        case w: (Inr w)
        note fr = fresh [OF w] new [of w]
        show ?thesis
        proof (cases "length (br_allocations b) \<ge> allocation_limit")
          case True
          then show ?thesis using a ok None Inr os w by (auto simp: allocate_for_def Let_def)
        next
          case False
          then have "r = Inr w" "b' = note_opened now who w (?b\<lparr>br_allocations := put key w (br_allocations ?b)\<rparr>)"
            using a None Inr os w by (auto simp: allocate_for_def Let_def)
          then show ?thesis using fr by auto
        qed
      qed
    qed
  qed
  then show "broker_ok t b'" "br_creating b' = br_creating b"
    "r = Inr w \<Longrightarrow> \<forall>(k, v) \<in> set (br_allocations b'). k \<noteq> key \<longrightarrow> v \<noteq> w" by auto
qed

lemma opening_turn_ok:
  assumes ok: "broker_ok t b"
  shows "broker_ok t (snd (open_turn cfg reg t n admission inventory b))"
proof (cases "\<exists>key who a o'. map_of (br_creating b) n = Some (Opening key who a o' None)")
  case True
  then obtain key who a o' where p: "map_of (br_creating b) n = Some (Opening key who a o' None)" by blast
  define choice where "choice = (if a then allocate_for cfg reg t key who inventory b
    else (case inventory of
        Inl e \<Rightarrow> (Err e, b)
      | Inr (occupied, shown) \<Rightarrow>
          (let w = nat (no_workspace o') in
           if workspace_reserved key w b \<or> int w \<in> set occupied \<or> int w \<in> set shown
           then (Err (plain_error ''WORKSPACE_BUSY'' ''Opening requires an empty workspace that no monitor displays; omit workspace to choose one automatically''), b)
           else (Ok w, b))))"
  obtain r b' where c: "choice = (r, b')" by (cases choice)
  have c': "broker_ok t b'" "br_creating b' = br_creating b"
    and free: "\<And>w. r = Inr w \<Longrightarrow> \<forall>(k, v) \<in> set (br_allocations b'). k \<noteq> key \<longrightarrow> v \<noteq> w"
  proof -
    have "broker_ok t b' \<and> br_creating b' = br_creating b \<and> (\<forall>w. r = Inr w \<longrightarrow> (\<forall>(k, v) \<in> set (br_allocations b'). k \<noteq> key \<longrightarrow> v \<noteq> w))"
    proof (cases a)
      case True
      then have "allocate_for cfg reg t key who inventory b = (r, b')" using c by (simp add: choice_def)
      from allocate_for_ok [OF ok this] show ?thesis by blast
    next
      case False
      then show ?thesis using c ok
        by (auto simp: choice_def Let_def workspace_reserved_def list_ex_iff split: sum.splits prod.splits if_splits)
    qed
    then show "broker_ok t b'" "br_creating b' = br_creating b"
      "\<And>w. r = Inr w \<Longrightarrow> \<forall>(k, v) \<in> set (br_allocations b'). k \<noteq> key \<longrightarrow> v \<noteq> w" by auto
  qed
  have p': "map_of (br_creating b') n = Some (Opening key who a o' None)" using p c'(2) by simp
  have fail: "broker_ok t (settle_open n key e b)" "broker_ok t (settle_open n key e b')" for e
    using settle_open_ok [OF ok p] settle_open_ok [OF c'(1) p'] by simp_all
  have go: "broker_ok t (set_operation n (Opening key who a o' (Some w)) (b'\<lparr>br_allocations := put key w (br_allocations b')\<rparr>))"
    if "r = Inr w" for w
    by (rule broker_ok_set [OF broker_ok_reserve [OF c'(1) free [OF that]], where p = "Opening key who a o' None"])
      (use p' in \<open>simp_all add: op_lease_def past_check_def\<close>)
  have "open_turn cfg reg t n admission inventory b = (let fail = (\<lambda>e b'. ([], settle_open n key (Err e) b')) in
      case admission of
        Some e \<Rightarrow> fail e b
      | None \<Rightarrow>
          if update_held t b then fail (Orbit update_busy) b
          else if br_stopping b then fail (Orbit broker_stopping) b
          else (case choice of
              (Inl e, b') \<Rightarrow> fail (Orbit e) b'
            | (Inr w, b') \<Rightarrow> ([Launch n (o'\<lparr>no_workspace := int w\<rparr>)],
                  set_operation n (Opening key who a o' (Some w)) (b'\<lparr>br_allocations := put key w (br_allocations b')\<rparr>))))"
    unfolding open_turn_def p choice_def by simp
  then show ?thesis using fail go by (simp add: c split: option.split sum.split)
next
  case False
  then show ?thesis using ok by (simp add: open_turn_def split: option.split operation.split)
qed

lemma open_answered_ok:
  assumes ok: "broker_ok t b"
  shows "broker_ok t (open_answered now n r b)"
proof (cases "\<exists>key who a o' w. map_of (br_creating b) n = Some (Opening key who a o' (Some w))")
  case True
  then obtain key who a o' w where p: "map_of (br_creating b) n = Some (Opening key who a o' (Some w))" by blast
  have "broker_ok t (settle_open n key x b)" "broker_ok t (settle_open n key x (note_opened now who w b))" for x
    using settle_open_ok [OF ok p] settle_open_ok [of t "note_opened now who w b" n key who a o' "Some w"] ok p by simp_all
  then show ?thesis by (simp add: open_answered_def p split: sum.split)
next
  case False
  then show ?thesis using ok by (simp add: open_answered_def split: option.split operation.split)
qed

lemma present_call_ok:
  assumes ok: "broker_ok t b"
  shows "broker_ok t (snd (present_call cfg t who params admission b))"
proof -
  have "broker_ok t (snd (add_operation (Presenting k p False) b))" if "\<not> update_held t b" for k p
    using ok that by (rule broker_ok_add) (simp_all add: op_lease_def past_check_def)
  moreover have "\<not> update_held t b" if "operation_barrier u cfg t admission b = Inr x" for u x
    using that by (auto simp: operation_barrier_def split: option.splits if_splits)
  ultimately show ?thesis using ok
    by (auto simp: present_call_def Let_def and_then_def dest!: add_operation_pair split: sum.split option.split prod.split)
qed

lemma monitors_call_ok:
  assumes ok: "broker_ok t b"
  shows "broker_ok t (snd (monitors_call cfg t params admission b))"
proof -
  have "broker_ok t (snd (add_operation (ListingMonitors False) b))" if "\<not> update_held t b"
    using ok that by (rule broker_ok_add) (simp_all add: op_lease_def past_check_def)
  moreover have "\<not> update_held t b" if "operation_barrier u cfg t admission b = Inr x" for u x
    using that by (auto simp: operation_barrier_def split: option.splits if_splits)
  ultimately show ?thesis using ok
    by (auto simp: monitors_call_def dest!: add_operation_pair split: sum.split prod.split)
qed

lemma settle_present_ok:
  assumes "broker_ok t b" and "map_of (br_creating b) n = Some (Presenting k p' d')"
  shows "broker_ok t (settle_present n key p d r b)"
proof -
  have "broker_ok t (end_operation n (b\<lparr>br_presents := x\<rparr>))" for x
    by (rule broker_ok_end [where p = "Presenting k p' d'"]) (use assms in \<open>simp_all add: op_lease_def\<close>)
  then show ?thesis by (simp add: settle_present_def)
qed

lemma present_turn_ok:
  assumes ok: "broker_ok t b"
  shows "broker_ok t (snd (present_turn t n admission b))"
proof (cases "map_of (br_creating b) n")
  case (Some p)
  have pres: "broker_ok t (settle_present n key q d r b)" "broker_ok t (set_operation n (Presenting key q True) b)"
    if "p = Presenting key q False" for key q d r
    using settle_present_ok [OF ok, of n key q False] broker_ok_set [OF ok Some, of "Presenting key q True"] Some that
    by (simp_all add: op_lease_def past_check_def)
  have mon: "broker_ok t (end_operation n b)" "broker_ok t (set_operation n (ListingMonitors True) b)" if "p = ListingMonitors False"
    using broker_ok_end [OF ok Some] broker_ok_set [OF ok Some, of "ListingMonitors True"] that
    by (simp_all add: op_lease_def past_check_def)
  show ?thesis
  proof (cases p)
    case (Presenting key q d)
    then show ?thesis using ok Some pres by (cases d) (simp_all add: present_turn_def Let_def split: option.split)
  next
    case (ListingMonitors d)
    then show ?thesis using ok Some mon by (cases d) (simp_all add: present_turn_def Let_def split: option.split)
  qed (use ok Some in \<open>simp_all add: present_turn_def Let_def\<close>)
qed (use ok in \<open>simp add: present_turn_def Let_def\<close>)

lemma present_answered_ok:
  assumes ok: "broker_ok t b"
  shows "broker_ok t (present_answered n r b)"
proof (cases "map_of (br_creating b) n")
  case (Some p)
  have mon: "broker_ok t (end_operation n b)" if "p = ListingMonitors True"
    using broker_ok_end [OF ok Some] that by (simp add: op_lease_def)
  show ?thesis
  proof (cases p)
    case (Presenting key q d)
    then show ?thesis using ok Some settle_present_ok [OF ok, of n key q d] by (cases d) (simp_all add: present_answered_def)
  next
    case (ListingMonitors d)
    then show ?thesis using ok Some mon by (cases d) (simp_all add: present_answered_def)
  qed (use ok Some in \<open>simp_all add: present_answered_def\<close>)
qed (use ok in \<open>simp add: present_answered_def\<close>)

section \<open>Every event\<close>

lemma update_begin_ok:
  assumes ok: "broker_ok t b"
  shows "broker_ok t (snd (update_begin t token admission b))"
  using ok by (auto simp: update_begin_def broker_ok_def tables_ok_def leases_ok_def limit_ok_def update_ok_def
    update_held_def reservations_ok_def open_leases_def op_leases_def unclosed_def split: option.split)

lemma update_end_ok:
  assumes ok: "broker_ok t b"
  shows "broker_ok t (snd (update_end params b))"
  using ok by (auto simp: update_end_def Let_def broker_ok_def tables_ok_def leases_ok_def limit_ok_def update_ok_def
    update_held_def reservations_ok_def open_leases_def op_leases_def unclosed_def split: option.split)

lemma stop_mine_ok:
  assumes ok: "broker_ok t b"
  shows "broker_ok t (snd (stop_mine params who b))"
proof -
  have "broker_ok t (b\<lparr>br_sessions := map (\<lambda>(k, s). (k, if P s then snd (stop_call s) else s)) (br_sessions b)\<rparr>)" for P
    using stop_call_same by (intro broker_ok_map [OF ok, of "\<lambda>s. if P s then snd (stop_call s) else s"]) auto
  then show ?thesis using ok by (simp add: stop_mine_def Let_def)
qed

lemma session_request_ok:
  assumes ok: "broker_ok t b"
  shows "broker_ok t (snd (session_request reg c who m params b))"
proof -
  have "broker_ok t b'" if "on_session c sid e b = (es, b')" for sid e es b'
    using broker_ok_on_session [OF ok, of c sid e] that by simp
  then show ?thesis using ok stop_mine_ok [OF ok, of params who]
    by (cases "stop_mine params who b") (auto simp: session_request_def split: sum.split option.split prod.split)
qed

text \<open>Identities are random: a new session never has the identity of another.\<close>

definition fresh_identity :: "broker_event \<Rightarrow> broker \<Rightarrow> bool" where
  "fresh_identity e b \<longleftrightarrow> (case e of ClaimAnswered sid n r \<Rightarrow> sid \<notin> keys (br_sessions b) | _ \<Rightarrow> True)"

lemma broker_step_ok:
  assumes ok: "broker_ok t b" and now: "t \<le> fst c" and f: "fresh_identity e b"
  shows "broker_ok (fst c) (snd (broker_step cfg reg c e b))"
proof -
  have ok': "broker_ok (fst c) b" by (rule broker_ok_later [OF ok now])
  show ?thesis
  proof (cases e)
    case (ClaimAnswered sid n r)
    then show ?thesis using claim_answered_ok [OF ok'] f by (simp add: broker_step_def fresh_identity_def)
  next
    case (AdapterGone g cid)
    then show ?thesis using broker_ok_map [OF ok', of "\<lambda>s. if s_owner s = cid then owner_gone c g s else s"] owner_gone_same
      by (simp add: broker_step_def adapter_gone_def)
  next
    case (AdapterBack cid)
    then show ?thesis using broker_ok_map [OF ok', of "\<lambda>s. if s_owner s = cid then owner_back s else s"] owner_back_same
      by (simp add: broker_step_def adapter_back_def)
  qed (use ok' in \<open>simp_all add: broker_step_def create_call_ok create_admitted_ok create_turn_ok open_call_ok opening_turn_ok
      open_answered_ok present_call_ok monitors_call_ok present_turn_ok present_answered_ok session_request_ok
      broker_ok_on_session forget_ok update_begin_ok update_end_ok\<close>)
qed

text \<open>The states a broker can reach, with the time of the last event.\<close>

inductive broker_reaches :: "broker_config \<Rightarrow> int \<Rightarrow> broker \<Rightarrow> bool" for cfg where
  started: "broker_reaches cfg t new_broker"
| happened: "broker_reaches cfg t b \<Longrightarrow> t \<le> fst c \<Longrightarrow> fresh_identity e b
    \<Longrightarrow> broker_reaches cfg (fst c) (snd (broker_step cfg reg c e b))"

lemma broker_reaches_ok: "broker_reaches cfg t b \<Longrightarrow> broker_ok t b"
  by (induction rule: broker_reaches.induct) (auto intro: new_broker_ok broker_step_ok)

end
