(* ===== verification/SessionClaims.thy ===== *)
theory SessionClaims
  imports SessionRuns NativeFacts
begin

text \<open>
  The theorems on one session of \<open>src/session.ts\<close>, from its start by \<open>new_session\<close> over arbitrary sequences
  of its events, and a concrete session for their witnesses.
\<close>

lemma session_run_append:
  "session_run (es @ fs) s = (fst (session_run es s) @ fst (session_run fs (snd (session_run es s))),
     snd (session_run fs (snd (session_run es s))))"
  by (induction es s rule: session_run.induct) (auto split: prod.splits)

section \<open>Delivery\<close>

text \<open>Asking again, with the same parsed arguments, finds the job of the first time.\<close>

lemma request_known_later:
  assumes "act_request c input s = (Ok (NewJob k), s1)" and "session_ages s1 s2" and "is_open s2"
  shows "act_request c' input s2 = (Ok (KnownJob k), s2)"
proof -
  obtain request where rq: "text_field (getp input ''requestId'') ''requestId'' = Inr request"
    using assms(1) by (cases "text_field (getp input ''requestId'') ''requestId''") (auto simp: act_request_def split: if_splits)
  have op: "is_open s" using assms(1) by (auto simp: act_request_def split: if_splits)
  have kn: "known_request request fp s2 = Some (Ok k)" if "map_of (s_requests s1) request = Some (fp, k)" for fp
    using that assms(2) by (simp add: known_request_def session_ages_def)
  have enq: "map_of (s_requests (snd (enqueue request fp w s'))) request = Some (fp, s_next s')"
    if "map_of (s_requests s') request = None" for fp w s'
    using that by (simp add: enqueue_def map_add_def)
  show ?thesis
  proof (cases "getp input ''actions'' \<noteq> Undef \<or> getp input ''capture'' \<noteq> Undef")
    case True
    then have b: "act_batch c request input s = (Ok (NewJob k), s1)" using assms(1) op rq by (simp add: act_request_def)
    then obtain as cap where ac: "and_then (batch_actions (s_caps s) input) (\<lambda>as.
             and_then (map_sum Orbit id (parse_capture (getp input ''capture''))) (\<lambda>cap. Ok (as, cap))) = Inr (as, cap)"
      by (auto simp: act_batch_def split: sum.splits)
    obtain r s' where ad: "admit_batch c request as s = (r, s')" by (cases "admit_batch c request as s")
    have none: "known_request request (BatchPrint as cap) s = None"
      using b ac by (auto simp: act_batch_def split: option.splits sum.splits)
    have q: "quiet_change s s'" by (rule admit_batch_quiet [OF ad])
    then have no: "map_of (s_requests s') request = None"
      using known_request_None(1) [OF none] skeleton_fields(5) by (metis quiet_change_def)
    have s1: "s1 = snd (enqueue request (BatchPrint as cap) (BatchWork as cap) s')" "k = s_next s'"
      using b ac none ad by (auto simp: act_batch_def enqueue_def split: sum.splits)
    have "s_caps s2 = s_caps s"
      using assms(2) q skeleton_fields(11) [of s' s] by (simp add: session_ages_def s1 enqueue_def quiet_change_def)
    then show ?thesis using True assms(3) rq ac kn enq [OF no] s1
      by (simp add: act_request_def act_batch_def)
  next
    case False
    let ?v = "getp input ''action''"
    have b: "act_single c request ?v s = (Ok (NewJob k), s1)" using False assms(1) op rq by (simp add: act_request_def)
    then obtain a where a: "parse_action (s_caps s) ?v = Inr a" by (auto simp: act_single_def split: sum.splits)
    have none: "known_request request (SinglePrint a) s = None"
      using b a by (auto simp: act_single_def split: option.splits sum.splits)
    obtain len where len: "input_length a = Some len" using b a none by (auto simp: act_single_def split: option.splits)
    obtain r s' where ad: "admit c a len request False s = (r, s')" by (cases "admit c a len request False s")
    have q: "quiet_change s s'" by (rule admit_quiet [OF ad])
    then have no: "map_of (s_requests s') request = None"
      using known_request_None(1) [OF none] skeleton_fields(5) by (metis quiet_change_def)
    have s1: "s1 = snd (enqueue request (SinglePrint a) (SingleWork a len) s')" "k = s_next s'"
      using b a none len ad by (auto simp: act_single_def enqueue_def split: admission.splits)
    have "s_caps s2 = s_caps s"
      using assms(2) q skeleton_fields(11) [of s' s] by (simp add: session_ages_def s1 enqueue_def quiet_change_def)
    then show ?thesis using False assms(3) rq a kn enq [OF no] s1
      by (simp add: act_request_def act_single_def)
  qed
qed

text \<open>
  C1. A request that was accepted once is never run again: whatever happens afterwards, the same
  request asked while the session is open is answered with the job of the first time and changes nothing,
  and over the whole life of the session no action of any job reaches the backend twice.
\<close>

theorem request_delivered_once:
  assumes "act_request c input (snd (session_run es (new_session c0 sid lease b h n who))) = (Ok (NewJob k), s)"
    and "is_open (snd (session_run fs s))"
  shows "act_request c' input (snd (session_run fs s)) = (Ok (KnownJob k), snd (session_run fs s))
    \<and> distinct (acts (fst (session_run (es @ (c, ActCall input) # fs) (new_session c0 sid lease b h n who))))"
proof
  let ?s = "snd (session_run es (new_session c0 sid lease b h n who))"
  have "session_ok s" using act_request_ok [of ?s c input] assms(1) by simp
  then show "act_request c' input (snd (session_run fs s)) = (Ok (KnownJob k), snd (session_run fs s))"
    using request_known_later [OF assms(1) session_run_ages assms(2)] by simp
  have "delivered_ok [] (new_session c0 sid lease b h n who)" by (simp add: delivered_ok_def)
  then have "delivered_ok ([] @ acts (fst (session_run fs (new_session c0 sid lease b h n who))))
      (snd (session_run fs (new_session c0 sid lease b h n who)))" for fs
    by (intro delivered_run) simp_all
  then show "distinct (acts (fst (session_run (es @ (c, ActCall input) # fs) (new_session c0 sid lease b h n who))))"
    by (simp add: delivered_ok_def)
qed

section \<open>Authority\<close>

lemma step_acts_permitted:
  assumes "session_ok s" and "session_step c e s = (es, s')" and "BackendAct j i a \<in> set es"
  shows "permitted s' a" "is_open s'"
proof -
  have mem: "(j, i) \<in> set (acts es)" using assms(3) by (induction es) (auto split: effect.splits)
  have "job_event e"
  proof (rule ccontr)
    assume "\<not> job_event e"
    then show False using assms(2,3)
      by (cases e) (auto simp: job_event_def session_step_def pause_turn_def resume_call_def narrow_call_def stop_call_def
        tail_drained_def close_deadline_def handback_done_def grace_over_def split: pause_state.splits close_state.splits
        sum.splits if_splits)
  qed
  from this assms(1,2) have "acts_permitted es s'"
    by (cases rule: job_event_step) (auto dest: job_ok_parts simp: acts_permitted_def)
  then show "permitted s' a" "is_open s'" using assms(3) by (auto simp: acts_permitted_def)
qed

text \<open>
  C2. Every action handed to the backend is permitted by the policy the session has at that moment, and
  was permitted with the same decision by the policy the session was opened with; the session is open. This
  holds at the delivery, however long the action waited in the queue, for the advisor or for the usage setting,
  and whatever narrowing came in between.
\<close>

theorem delivered_actions_permitted:
  assumes "session_step c e (snd (session_run es (new_session c0 sid lease b h n who))) = (xs, s')"
    and "BackendAct j i a \<in> set xs"
  shows "is_open s' \<and> permits (judge_native (s_policy s') (action_type a))
    \<and> judge_native (sn_policy n) (action_type a) = judge_native (s_policy s') (action_type a)"
proof -
  let ?s = "snd (session_run es (new_session c0 sid lease b h n who))"
  have ok: "session_ok ?s" by simp
  note now = step_acts_permitted [OF ok assms]
  have "session_ages (new_session c0 sid lease b h n who) ?s" by (rule session_run_ages) simp
  then have "session_ages (new_session c0 sid lease b h n who) s'"
    using session_step_ages [OF ok, of c e] assms(1) session_ages_trans by fastforce
  then have "policy_le (s_policy s') (sn_policy n)"
    using narrowed_policy_le [of "new_session c0 sid lease b h n who" s'] by (simp add: session_ages_def)
  then show ?thesis using now by (simp add: permitted_def policy_le_def)
qed

text \<open>
  Only \<open>session.narrow\<close> replaces the policy of a session, only by narrowing its action classes, and it
  revokes the preparations of the backend in the same step; so nothing else the broker, an agent, an advisor
  or an application does can change what the session may do. This holds for the containment of an immune
  denial too: it can never happen, since no action of a session has a destination.
\<close>

theorem authority_changes_only_by_narrowing:
  assumes "session_step c e (snd (session_run es (new_session c0 sid lease b h n who))) = (xs, s')"
    and "s_policy s' \<noteq> s_policy (snd (session_run es (new_session c0 sid lease b h n who)))"
  shows "\<exists>params cs. e = NarrowCall params \<and> parse_action_classes ''allow'' (getp params ''allow'') = Ok cs
    \<and> s_policy s' = narrow (s_policy (snd (session_run es (new_session c0 sid lease b h n who)))) None (Some cs)
    \<and> xs = [BackendRevoke]"
proof -
  have "\<exists>params. e = NarrowCall params" using step_policy [OF new_run_ok assms(1)] assms(2) by blast
  then obtain params where "e = NarrowCall params" ..
  then show ?thesis using assms by (auto simp: session_step_def narrow_call_def split: if_splits sum.splits)
qed

section \<open>Results\<close>

lemma filter_all_iff: "length (filter P xs) = length xs \<longleftrightarrow> list_all P xs"
  using length_filter_less [of _ xs P] filter_id_conv [of P xs] unfolding list_all_iff by (metis less_irrefl)

text \<open>
  The receipt of a batch is honest: its receipts are numbered in order, begin with the actions that
  succeeded, have at most one action that failed or is uncertain, and after it every action was skipped; the
  number of completed actions is the number of successes, and the batch is reported as successful exactly
  when every receipt is one.
\<close>

theorem batch_receipts_are_honest:
  assumes "(k, DoneBatch r) \<in> set (s_results (snd (session_run es (new_session c sid lease b h n who))))"
  shows "receipts_shape (br_receipts r) \<and> br_completed r = length (filter receipt_ok (br_receipts r))
    \<and> (br_ok r \<longleftrightarrow> list_all receipt_ok (br_receipts r))"
proof -
  have "outcome_ok (DoneBatch r)" using new_run_ok [of es c sid lease b h n who] assms by (auto simp: session_ok_def)
  then show ?thesis by (auto simp: outcome_ok_def filter_all_iff)
qed

text \<open>
  C11. No job is lost, repeated or overtaken: the jobs that have a result followed by the jobs still queued
  are exactly the jobs accepted so far, in the order of acceptance.
\<close>

theorem jobs_finish_in_order:
  "map fst (s_results (snd (session_run es (new_session c sid lease b h n who))))
     @ map j_id (s_queue (snd (session_run es (new_session c sid lease b h n who))))
   = [0 ..< s_next (snd (session_run es (new_session c sid lease b h n who)))]"
proof -
  have "accounted (new_session c sid lease b h n who)"
    by (simp add: accounted_def new_session_def Let_def record_line_def)
  then show ?thesis using accounted_run [OF new_session_ok] by (simp add: accounted_def)
qed

text \<open>
  C12. Every answer the head job waits for brings it closer to its result: an event of the queue leaves
  the session alone, or strictly decreases the work that is left, a natural number.
\<close>

theorem job_events_terminate:
  assumes "job_event e"
  shows "session_step c e (snd (session_run es (new_session c0 sid lease b h n who)))
      = ([], snd (session_run es (new_session c0 sid lease b h n who)))
    \<or> session_work (snd (session_step c e (snd (session_run es (new_session c0 sid lease b h n who)))))
      < session_work (snd (session_run es (new_session c0 sid lease b h n who)))"
proof -
  let ?s = "snd (session_run es (new_session c0 sid lease b h n who))"
  obtain xs s' where st: "session_step c e ?s = (xs, s')" by (cases "session_step c e ?s")
  from assms new_run_ok st show ?thesis
    by (cases rule: job_event_step) (use st job_ok_work in auto)
qed

lemma head_can_advance:
  assumes ok: "session_ok s" and q: "s_queue s \<noteq> []"
  shows "\<exists>e. job_event e \<and> session_work (snd (session_step c e s)) < session_work s"
proof -
  obtain j js where j: "s_queue s = j # js" using q by (cases "s_queue s") auto
  note ph = head_phase_ok [OF ok j]
  show ?thesis
  proof (cases "j_phase j = Waiting")
    case True
    have "begin_job c s \<noteq> ([], s) \<Longrightarrow> job_ok s j js (begin_job c s)" using begin_job_ok [OF j] by blast
    moreover have "begin_job c s \<noteq> ([], s)"
      using begin_job_moves [OF j True] .
    ultimately have "session_work (snd (begin_job c s)) < session_work s" using job_ok_work [OF j] by (cases "begin_job c s") auto
    then show ?thesis by (intro exI [of _ BeginJob]) (simp add: job_event_def session_step_def)
  next
    case False
    obtain ans where "job_ok s j js (answer_job c ans s)" using job_can_advance [OF j ph False] by blast
    then have "session_work (snd (answer_job c ans s)) < session_work s"
      using job_ok_work [OF j] by (cases "answer_job c ans s") auto
    then show ?thesis by (intro exI [of _ "Answer ans"]) (simp add: job_event_def session_step_def)
  qed
qed

lemma queue_drains:
  "session_ok s \<Longrightarrow> \<exists>es. list_all (\<lambda>e. job_event (snd e)) es \<and> length es \<le> session_work s \<and> s_queue (snd (session_run es s)) = []"
proof (induction "session_work s" arbitrary: s rule: less_induct)
  case less
  show ?case
  proof (cases "s_queue s = []")
    case False
    obtain e where e: "job_event e" "session_work (snd (session_step (0, []) e s)) < session_work s"
      using head_can_advance [OF less.prems False] by blast
    obtain xs s1 where st: "session_step (0, []) e s = (xs, s1)" by (cases "session_step (0, []) e s")
    have "session_ok s1" using session_step_ok [OF less.prems, of "(0, [])" e] st by simp
    then obtain es where es: "list_all (\<lambda>e. job_event (snd e)) es" "length es \<le> session_work s1" "s_queue (snd (session_run es s1)) = []"
      using less.hyps e(2) st by force
    then show ?thesis using e st
      by (intro exI [of _ "((0, []), e) # es"]) (auto split: prod.splits)
  qed (intro exI [of _ "[]"]; simp)
qed

text \<open>
  No queue is ever stuck: from every state a session can reach, some sequence of at most as many answers
  as there is work left empties its queue, so every accepted job gets its result.
\<close>

theorem queue_can_be_worked_off:
  "\<exists>fs. list_all (\<lambda>e. job_event (snd e)) fs
     \<and> length fs \<le> session_work (snd (session_run es (new_session c sid lease b h n who)))
     \<and> s_queue (snd (session_run fs (snd (session_run es (new_session c sid lease b h n who))))) = []"
  by (rule queue_drains) simp

section \<open>The life of a session\<close>

text \<open>What a session promises about its state, as an automaton over the events.\<close>

inductive life_step :: "session_event \<Rightarrow> session_state \<Rightarrow> session_state \<Rightarrow> bool" where
  unchanged: "life_step e st st"
| pause_asked: "life_step PauseCall StRunning StPausing"
| owner_lost: "life_step (OwnerGone g) StRunning StPausing"
| acknowledged: "life_step (PauseLeased None) StPausing StPaused"
| resumed: "life_step (ResumeReplied None) StPaused StRunning"
| stop_asked: "st \<noteq> StClosed \<Longrightarrow> life_step StopCall st StClosing"
| grace_passed: "st \<noteq> StClosed \<Longrightarrow> life_step GraceOver st StClosing"
| drained_away: "life_step TailDrained StClosing StClosed"
| deadline_passed: "life_step (CloseDeadline live) StClosing StClosed"

inductive_cases life_stepE: "life_step e st st'"

inductive_simps life_closed [simp]: "life_step e StClosed st"

lemma not_open_closing: "\<not> is_open s \<Longrightarrow> s_state s \<noteq> StClosed \<Longrightarrow> s_state s = StClosing"
  by (simp add: is_open_def)

lemma open_states: "is_open s \<Longrightarrow> s_state s \<noteq> StRunning \<Longrightarrow> s_state s \<noteq> StPausing \<Longrightarrow> s_state s = StPaused"
  by (cases "s_state s") (simp_all add: is_open_def)

lemma pause_state_step:
  assumes "session_ok s" and "is_open s" and "life_step e StRunning StPausing"
  shows "life_step e (s_state s) (s_state (snd (pause_session s)))"
proof (cases "s_pause s")
  case NotPaused
  then have "s_state s \<noteq> StPaused" using assms(1) by (auto simp: session_ok_def pause_ok_def)
  then show ?thesis using NotPaused assms(2,3) open_states [OF assms(2)]
    by (cases "s_state s") (auto simp: pause_session_def intro: life_step.unchanged)
qed (simp_all add: pause_session_def life_step.unchanged)

lemma stop_state_step:
  "\<lbrakk>\<And>st. st \<noteq> StClosed \<Longrightarrow> life_step e st StClosing\<rbrakk> \<Longrightarrow> life_step e (s_state s) (s_state (snd (stop_call s)))"
  by (auto simp: stop_call_def intro: life_step.unchanged)

lemma light_state:
  "s_state (snd (session_step c ResumeCall s)) = s_state s" "s_state (snd (session_step c NarrowDone s)) = s_state s"
  "s_state (snd (session_step c (NarrowCall ps) s)) = s_state s" "s_state (snd (session_step c (ControlCall v) s)) = s_state s"
  "s_state (snd (session_step c (RevealCall who ps) s)) = s_state s" "s_state (snd (session_step c (ObserveCall ps) s)) = s_state s"
  "s_state (snd (session_step c (ObserveReplied q) s)) = s_state s" "s_state (snd (session_step c (CloseReplied r) s)) = s_state s"
  "s_state (snd (session_step c (HandbackDone t) s)) = s_state s" "s_state (snd (session_step c OwnerBack s)) = s_state s"
  "s_state (snd (session_step c PauseTurn s)) = s_state s"
  by (simp_all add: session_step_def resume_call_def narrow_done_def narrow_call_def control_call_def reveal_call_def
    enqueue_plain_def observe_call_def observe_replied_def close_replied_def handback_done_def owner_back_def pause_turn_def
    Let_def set_policy_def tainted_by_def split: pause_state.split sum.split decision.split)

lemma session_life:
  assumes ok: "session_ok s" and st: "session_step c e s = (es, s')"
  shows "life_step e (s_state s) (s_state s')"
proof (cases "job_event e")
  case True
  from True ok st show ?thesis
  proof (cases rule: job_event_step)
    case (step j js)
    then show ?thesis using skeleton_fields(1) [OF job_ok_parts(1) [OF step(2)]] by (simp add: life_step.unchanged)
  qed (simp add: life_step.unchanged)
next
  case False
  note same = life_step.unchanged
  have po: "pause_ok s" and co: "close_ok s" using ok by (simp_all add: session_ok_def)
  have s': "s' = snd (session_step c e s)" using st by simp
  show ?thesis
  proof (cases e)
    case (ActCall input)
    then obtain r where "act_request c input s = (r, s')" using st by (cases "act_request c input s") (simp add: session_step_def)
    then show ?thesis
    proof (cases rule: act_request_cases)
      case 1: same
      then show ?thesis using skeleton_fields(1) [of s' s] by (simp add: quiet_change_def same)
    next
      case 2: (new request fp w s1)
      then show ?thesis using skeleton_fields(1) [of s1 s] by (simp add: quiet_change_def enqueue_def same)
    qed
  next
    case PauseCall
    then show ?thesis using pause_state_step [OF ok _ life_step.pause_asked]
      by (cases "is_open s"; cases "pause_session s") (simp_all add: s' session_step_def pause_call_def same)
  next
    case (PauseLeased r)
    have "s_state s \<noteq> StRunning" if "s_pause s = PauseLeasing" using po that by (simp add: pause_ok_def)
    then show ?thesis using PauseLeased open_states [of s]
      by (cases "s_state s") (auto simp: s' session_step_def pause_leased_def is_open_def intro: life_step.intros)
  next
    case (ResumeReplied r)
    then show ?thesis using open_states [of s]
      by (cases r; cases "s_state s") (auto simp: s' session_step_def resume_replied_def Let_def is_open_def intro: life_step.intros)
  next
    case (OwnerGone g)
    show ?thesis
    proof (cases "\<not> is_open s \<or> s_orphan s \<noteq> None")
      case False
      let ?r = "record_line (journal_of c s Person ''session.owner-gone'' Allow
          (Some (s_label s @ ''; stops in '' @ show_int \<lfloor>g + 1 / 2\<rfloor> @ '' s'')) None None None)
        (s\<lparr>s_orphan := Some (fst c), s_grace := True\<rparr>)"
      have r: "session_ok ?r" by (rule life_kept [OF ok]) (simp_all add: light_change_def narrowed_def journal_record)
      have "is_open ?r" using False by (simp add: is_open_def)
      from pause_state_step [OF r this life_step.owner_lost] show ?thesis using OwnerGone False
        by (simp add: s' session_step_def owner_gone_def)
    qed (use OwnerGone in \<open>simp add: s' session_step_def owner_gone_def same\<close>)
  next
    case StopCall
    then show ?thesis using stop_state_step [OF life_step.stop_asked] by (simp add: s' session_step_def)
  next
    case GraceOver
    then show ?thesis using stop_state_step [OF life_step.grace_passed, of "s\<lparr>s_grace := False\<rparr>"]
      by (simp add: s' session_step_def grace_over_def same)
  next
    case TailDrained
    have "s_state s = StClosing" if "s_close s = ClosingTail n" "s_state s \<noteq> StClosed" for n
      using co that not_open_closing by (auto simp: close_ok_def)
    then show ?thesis using TailDrained
      by (cases "s_state s = StClosed")
        (auto simp: s' session_step_def tail_drained_def intro: life_step.intros split: close_state.split)
  next
    case (CloseDeadline live)
    have "s_state s = StClosing" if "s_timer s" "s_state s \<noteq> StClosed"
      using co that not_open_closing by (auto simp: close_ok_def)
    then show ?thesis using CloseDeadline
      by (cases "s_state s = StClosed") (auto simp: s' session_step_def close_deadline_def intro: life_step.intros)
  qed (use False in \<open>simp_all add: s' job_event_def light_state same\<close>)
qed

text \<open>
  C10. The state of a session refines a small automaton: it leaves running only for pausing or closing, pausing
  only for paused by the acknowledgement of the lease or for closing, paused only for running by a successful
  resume or for closing, and closing only for closed; closed is final, and the other events change nothing.
\<close>

theorem session_refines_life:
  "life_step e (s_state (snd (session_run es (new_session c0 sid lease b h n who))))
     (s_state (snd (session_step c e (snd (session_run es (new_session c0 sid lease b h n who))))))"
  by (rule session_life [OF new_run_ok surjective_pairing])

section \<open>Pausing\<close>

lemma human_never_spent: "phase_ok s (j_work j) ph \<Longrightarrow> \<not> agent_job j \<Longrightarrow> \<not> spent ph i"
  by (cases "j_work j") (auto simp: phase_ok_def agent_job_def spent_def)

text \<open>
  C9. A session that says it is paused is still: its pause is acknowledged, no agent action is queued,
  and no event whatsoever makes it deliver one before it is running again.
\<close>

theorem paused_session_is_still:
  assumes "s_state (snd (session_run es (new_session c0 sid lease b h n who))) = StPaused"
    and "session_step c e (snd (session_run es (new_session c0 sid lease b h n who))) = (xs, s')"
  shows "s_pause (snd (session_run es (new_session c0 sid lease b h n who))) = Acknowledged
    \<and> (\<forall>j \<in> set (s_queue (snd (session_run es (new_session c0 sid lease b h n who)))). \<not> agent_job j)
    \<and> acts xs = []"
proof -
  let ?s = "snd (session_run es (new_session c0 sid lease b h n who))"
  have ok: "session_ok ?s" by simp
  then have p: "s_pause ?s = Acknowledged" "\<forall>j \<in> set (s_queue ?s). \<not> agent_job j"
    using assms(1) by (simp_all add: session_ok_def pause_ok_def)
  have ok': "session_ok s'" using session_step_ok [OF ok, of c e] assms(2) by simp
  from step_acts [OF ok assms(2)] have "acts xs = []"
  proof (elim disjE exE conjE)
    fix j js ph i
    assume h: "s_queue ?s = j # js" "s_queue s' = j\<lparr>j_phase := ph\<rparr> # js" "spent ph i"
    have "phase_ok s' (j_work j) ph" using head_phase_ok [OF ok' h(2)] by simp
    then show ?thesis using human_never_spent p(2) h(1,3) by auto
  qed
  then show ?thesis using p by simp
qed

text \<open>
  A pause asked while a resume is pending is lost: the session is still paused, so the call is answered
  with the acknowledgement of the old pause, and the resume then makes the session run. The same happens to
  the pause that an owner's disappearance asks for: the session runs although its owner is gone.
\<close>

theorem pause_lost_to_pending_resume:
  assumes "s_state (snd (session_run es (new_session c0 sid lease b h n who))) = StPaused"
    and "0 < s_resuming (snd (session_run es (new_session c0 sid lease b h n who)))"
  shows "fst (pause_call (snd (session_run es (new_session c0 sid lease b h n who)))) = Ok PauseKnown
    \<and> s_state (snd (session_run [(c, PauseCall), (c', ResumeReplied None)]
         (snd (session_run es (new_session c0 sid lease b h n who))))) = StRunning
    \<and> s_state (snd (session_run [(c, OwnerGone g), (c', ResumeReplied None)]
         (snd (session_run es (new_session c0 sid lease b h n who))))) = StRunning
    \<and> s_orphan (snd (session_run [(c, OwnerGone g), (c', ResumeReplied None)]
         (snd (session_run es (new_session c0 sid lease b h n who))))) \<noteq> None"
proof -
  let ?s = "snd (session_run es (new_session c0 sid lease b h n who))"
  have "session_ok ?s" by simp
  then have p: "s_pause ?s = Acknowledged" "is_open ?s"
    using assms(1) by (simp_all add: session_ok_def pause_ok_def is_open_def)
  then show ?thesis using assms
    by (simp add: session_step_def pause_call_def pause_session_def resume_replied_def owner_gone_def is_open_def
      record_line_def Let_def)
qed

section \<open>Observation\<close>

text \<open>
  Observing refuses only a denial: under a policy that wants a person's confirmation or an advisor's
  decision for it, \<open>session.observe\<close> asks the backend for a frame, without a line in the journal, while the
  capture of a batch refuses anything but an allowance.
\<close>

theorem observe_ignores_ask:
  assumes "is_open s" and "judge_native (s_policy s) ''observe'' = d" and "d = Ask r \<or> d = Consult r i"
  shows "fst (observe_call c [] s) = Ok (None, Undef) \<and> s_journal (snd (observe_call c [] s)) = s_journal s
    \<and> (\<exists>e. end_batch c j as (Some k) bp s = ([], finish j (batch_outcome (length as) bp (CaptureError e))
         (record_line (journal_of c s Agent ''observe'' d None None (Some (j_request j)) (Some (s_policy s))) s)))"
  using assms(3)
  by (rule disjE)
    (use assms(1,2) in \<open>auto simp: observe_call_def end_batch_def Let_def only_keys_def has_own_def getp_def selector_keys_def keys_def\<close>)

section \<open>A concrete session\<close>

definition sample_view :: handoff_view where
  "sample_view = \<lparr>hv_workspace = 3, hv_app = sample_id CHR ''a'', hv_selected = sample_id CHR ''1'', hv_pointer = Some (10, 20),
     hv_windows = map snd (b_windows sample_backend), hv_enrollment = None, hv_indicator = None\<rparr>"

definition sample_names :: session_names where
  "sample_names = \<lparr>sn_agent = ''Agent'', sn_task = ''Task'', sn_conversation = None, sn_project = None,
     sn_policy = native_application_policy\<rparr>"

abbreviation sample_session :: session where
  "sample_session \<equiv> new_session (0, ''t'') ''s'' ''l'' sample_backend sample_view sample_names internal_caller"

definition sample_click :: jsobj where
  "sample_click = [(''type'', JStr ''click''), (''appId'', JStr (sample_id CHR ''a'')), (''windowId'', JStr (sample_id CHR ''1''))]"

definition sample_request :: jsobj where
  "sample_request = [(''requestId'', JStr ''r''), (''action'', JObj sample_click)]"

definition sample_queued :: session where
  "sample_queued = snd (enqueue ''r'' (SinglePrint sample_click) (SingleWork sample_click None) sample_session)"

lemma sample_click_parsed: "parse_action (action_caps sample_backend) (JObj sample_click) = Inr sample_click"
  by (simp add: parse_action_def sample_click_def js_record_def as_object_def getp_def action_fields_def only_keys_def keys_def
    generated_id_def hex_string_def parse_target_def and_then_def action_caps_def sample_backend_def initial_backend_def
    semantic_problem_def is_semantic_def with_index_def Let_def is_lower_hex_def between_def code_def)

lemma sample_judged: "judge_native native_application_policy ''click'' = Allow"
  by code_simp

lemma sample_policy: "sn_policy sample_names = native_application_policy"
  by (simp add: sample_names_def)

lemma sample_accepted: "act_request c sample_request sample_session = (Ok (NewJob 0), sample_queued)"
proof -
  have f: "is_open sample_session" "s_requests sample_session = []" "s_next sample_session = 0"
    by (simp_all add: is_open_def new_session_def Let_def record_line_def)
  have i: "input_length sample_click = Some None" "action_type sample_click = ''click''"
    by (simp_all add: input_length_def sample_click_def has_own_def keys_def action_type_def getp_def)
  have g: "getp sample_request ''actions'' = Undef" "getp sample_request ''capture'' = Undef"
    "getp sample_request ''action'' = JObj sample_click" "text_field (getp sample_request ''requestId'') ''requestId'' = Inr ''r''"
    by (simp_all add: sample_request_def getp_def text_field_def)
  show ?thesis
    by (simp add: act_request_def act_single_def f g i sample_click_parsed known_request_def request_limit_def admit_def Let_def
      sample_policy sample_judged sample_queued_def enqueue_def)
qed

lemma sample_begun: "begin_job c sample_queued = ([BackendAct 0 0 sample_click], snd (begin_job c sample_queued))"
  "is_open (snd (begin_job c sample_queued))"
proof -
  have i: "action_type sample_click = ''click''" by (simp add: sample_click_def action_type_def getp_def)
  have o: "is_open sample_queued" "s_policy sample_queued = native_application_policy"
    "s_queue sample_queued = [\<lparr>j_id = 0, j_request = ''r'', j_work = SingleWork sample_click None, j_phase = Waiting\<rparr>]"
    by (simp_all add: sample_queued_def enqueue_def is_open_def new_session_def Let_def record_line_def sample_names_def)
  show "begin_job c sample_queued = ([BackendAct 0 0 sample_click], snd (begin_job c sample_queued))"
    "is_open (snd (begin_job c sample_queued))"
    by (simp_all add: begin_job_def o start_single_def i is_semantic_def after_single_def begin_action_def admit_def
      sample_judged start_guarded_def Let_def)
qed

lemma request_delivered_once_witness:
  "act_request (2, ''t'') sample_request (snd (session_run [((1, ''t''), BeginJob)] sample_queued))
      = (Ok (KnownJob 0), snd (session_run [((1, ''t''), BeginJob)] sample_queued))
    \<and> distinct (acts (fst (session_run ([] @ ((0, ''t''), ActCall sample_request) # [((1, ''t''), BeginJob)]) sample_session)))"
proof (rule request_delivered_once)
  show "act_request (0, ''t'') sample_request (snd (session_run [] sample_session)) = (Ok (NewJob 0), sample_queued)"
    by (simp add: sample_accepted)
  show "is_open (snd (session_run [((1, ''t''), BeginJob)] sample_queued))"
    using sample_begun(2) [of "(1, ''t'')"] by (simp add: session_step_def split: prod.split)
qed

lemma delivered_actions_permitted_witness:
  "is_open (snd (begin_job (1, ''t'') sample_queued))
    \<and> permits (judge_native (s_policy (snd (begin_job (1, ''t'') sample_queued))) (action_type sample_click))
    \<and> judge_native (sn_policy sample_names) (action_type sample_click)
        = judge_native (s_policy (snd (begin_job (1, ''t'') sample_queued))) (action_type sample_click)"
  by (rule delivered_actions_permitted [of "(1, ''t'')" BeginJob "[((0, ''t''), ActCall sample_request)]" "(0, ''t'')" "''s''" "''l''"
      sample_backend sample_view sample_names internal_caller "[BackendAct 0 0 sample_click]" _ 0 0])
    (simp_all add: session_step_def sample_accepted sample_begun(1) [symmetric])

lemma authority_changes_only_by_narrowing_witness:
  "\<exists>params cs. NarrowCall [(''allow'', JArr [JStr ''read''])] = NarrowCall params
    \<and> parse_action_classes ''allow'' (getp params ''allow'') = Ok cs
    \<and> s_policy (snd (session_step (1, ''t'') (NarrowCall [(''allow'', JArr [JStr ''read''])]) (snd (session_run [] sample_session))))
        = narrow (s_policy (snd (session_run [] sample_session))) None (Some cs)
    \<and> fst (session_step (1, ''t'') (NarrowCall [(''allow'', JArr [JStr ''read''])]) (snd (session_run [] sample_session))) = [BackendRevoke]"
proof (rule authority_changes_only_by_narrowing)
  have "p_allow (s_policy (snd (session_step (1, ''t'') (NarrowCall [(''allow'', JArr [JStr ''read''])]) (snd (session_run [] sample_session)))))
      \<noteq> p_allow (s_policy (snd (session_run [] sample_session)))"
    by code_simp
  then show "s_policy (snd (session_step (1, ''t'') (NarrowCall [(''allow'', JArr [JStr ''read''])]) (snd (session_run [] sample_session))))
      \<noteq> s_policy (snd (session_run [] sample_session))" by metis
qed simp

definition sample_batch_run :: "(clock \<times> session_event) list" where
  "sample_batch_run = [((1, ''t''), ActCall [(''requestId'', JStr ''b''), (''actions'', JArr [JObj sample_click, JObj sample_click])]),
     ((2, ''t''), BeginJob), ((3, ''t''), Answer (ActIs (Inr Null))), ((4, ''t''), Answer (ActIs (Inl TimeoutError)))]"

lemma sample_batch_outcome:
  "\<exists>r. (0, DoneBatch r) \<in> set (s_results (snd (session_run sample_batch_run sample_session)))"
proof -
  have "list_ex (\<lambda>(k, o'). k = 0 \<and> (case o' of DoneBatch r \<Rightarrow> True | _ \<Rightarrow> False)) (s_results (snd (session_run sample_batch_run sample_session)))"
    by code_simp
  then obtain o' where o: "(0, o') \<in> set (s_results (snd (session_run sample_batch_run sample_session)))"
    "case o' of DoneBatch r \<Rightarrow> True | _ \<Rightarrow> False"
    by (auto simp: list_ex_iff)
  then show ?thesis by (cases o') auto
qed

lemma batch_receipts_are_honest_witness:
  "\<exists>r. (0, DoneBatch r) \<in> set (s_results (snd (session_run sample_batch_run sample_session)))
     \<and> receipts_shape (br_receipts r) \<and> br_completed r = length (filter receipt_ok (br_receipts r))
     \<and> (br_ok r \<longleftrightarrow> list_all receipt_ok (br_receipts r))"
  using sample_batch_outcome batch_receipts_are_honest by blast

lemma job_events_terminate_witness:
  "session_step (1, ''t'') BeginJob (snd (session_run [((0, ''t''), ActCall sample_request)] sample_session))
      = ([], snd (session_run [((0, ''t''), ActCall sample_request)] sample_session))
    \<or> session_work (snd (session_step (1, ''t'') BeginJob (snd (session_run [((0, ''t''), ActCall sample_request)] sample_session))))
      < session_work (snd (session_run [((0, ''t''), ActCall sample_request)] sample_session))"
  by (rule job_events_terminate) (simp add: job_event_def)

definition sample_pause :: "(clock \<times> session_event) list" where
  "sample_pause = [((1, ''t''), PauseCall), ((2, ''t''), PauseTurn), ((3, ''t''), PauseLeased None), ((4, ''t''), ResumeCall)]"

lemma sample_paused:
  "s_state (snd (session_run sample_pause sample_session)) = StPaused" "0 < s_resuming (snd (session_run sample_pause sample_session))"
  by code_simp+

lemma paused_session_is_still_witness:
  "s_pause (snd (session_run sample_pause sample_session)) = Acknowledged
    \<and> list_all (\<lambda>j. \<not> agent_job j) (s_queue (snd (session_run sample_pause sample_session)))
    \<and> acts (fst (session_step (5, ''t'') BeginJob (snd (session_run sample_pause sample_session)))) = []"
  unfolding list_all_iff by (rule paused_session_is_still [OF sample_paused(1)]) (rule surjective_pairing)

lemma pause_lost_to_pending_resume_witness:
  "fst (pause_call (snd (session_run sample_pause sample_session))) = Ok PauseKnown
    \<and> s_state (snd (session_run [((5, ''t''), PauseCall), ((6, ''t''), ResumeReplied None)]
         (snd (session_run sample_pause sample_session)))) = StRunning
    \<and> s_state (snd (session_run [((5, ''t''), OwnerGone 60), ((6, ''t''), ResumeReplied None)]
         (snd (session_run sample_pause sample_session)))) = StRunning
    \<and> s_orphan (snd (session_run [((5, ''t''), OwnerGone 60), ((6, ''t''), ResumeReplied None)]
         (snd (session_run sample_pause sample_session)))) \<noteq> None"
  by (rule pause_lost_to_pending_resume [OF sample_paused])

definition asking_session :: session where
  "asking_session = set_policy (native_application_policy\<lparr>p_mode := Supervised, p_allow := []\<rparr>) sample_session"

lemma observe_ignores_ask_witness:
  "fst (observe_call (1, ''t'') [] asking_session) = Ok (None, Undef)
    \<and> s_journal (snd (observe_call (1, ''t'') [] asking_session)) = s_journal asking_session"
proof -
  have "judge_native (s_policy asking_session) ''observe'' = Ask ''The read class is not allowed for this session.''"
    by code_simp
  moreover have "is_open asking_session" by code_simp
  ultimately show ?thesis using observe_ignores_ask by metis
qed

end
