(* ===== verification/BrokerClaims.thy ===== *)
theory BrokerClaims
  imports BrokerFacts SessionClaims
begin

text \<open>
  The theorems on the broker of \<open>src/session.ts\<close>, in every state it can reach, and one run for their witnesses.
\<close>

section \<open>Leases, limits and updates\<close>

lemma distinct_sub_mset:
  assumes "mset xs \<subseteq># mset ys" and "distinct ys"
  shows "distinct xs"
proof -
  have once: "count (mset ys) a \<le> 1" for a using assms(2) by (simp add: distinct_count_atmost_1)
  have "count (mset xs) a \<le> 1" for a
    using mset_subset_eq_count [OF assms(1), of a] once [of a] by linarith
  then show ?thesis
  proof (induction xs)
    case (Cons x xs)
    have "count (mset xs) a \<le> count (mset (x # xs)) a" for a by simp
    then have "count (mset xs) a \<le> 1" for a using Cons.prems le_trans by blast
    moreover have "x \<notin> set xs" using Cons.prems [of x] by (simp add: count_eq_zero_iff flip: set_mset_mset)
    ultimately show ?case using Cons.IH by simp
  qed simp
qed

text \<open>
  C8. An application lease has one holder: the leases the broker keeps are exactly those of the sessions that are
  not closed and of the claims that are running, without repetition; so no two open sessions ever share a
  lease, none is lost when a claim fails, and none stays behind when a session closes or is forced closed.
\<close>

theorem leases_have_one_holder:
  assumes "broker_reaches cfg t b"
  shows "distinct (br_leases b) \<and> mset (br_leases b) = open_leases b + op_leases b
    \<and> distinct (map s_lease (unclosed b))"
proof -
  have l: "distinct (br_leases b)" "mset (br_leases b) = open_leases b + op_leases b"
    using broker_reaches_ok [OF assms] by (simp_all add: broker_ok_def leases_ok_def)
  have "mset (map s_lease (unclosed b)) = open_leases b"
  proof -
    have "mset (map s_lease (filter (\<lambda>s. s_state s \<noteq> StClosed) (map snd kvs)))
        = image_mset s_lease (filter_mset alive_session (vals kvs))" for kvs :: "(string \<times> session) list"
      by (induction kvs) (auto simp: alive_session_def)
    then show ?thesis by (simp add: unclosed_def open_leases_def)
  qed
  then have sub: "mset (map s_lease (unclosed b)) \<subseteq># mset (br_leases b)" using l(2) by simp
  have "distinct (map s_lease (unclosed b))" by (rule distinct_sub_mset [OF sub l(1)])
  then show ?thesis using l by simp
qed

text \<open>
  C14. Fewer than 32 sessions are open or on their way, however many are asked for at once: those that are not
  closed and the creations that have passed the check together; and while a broker update holds its lease, no
  session is open and no creation, opening or presentation is running.
\<close>

theorem sessions_are_bounded:
  assumes "broker_reaches cfg t b"
  shows "length (unclosed b) + length (filter past_check (map snd (br_creating b))) < 32
    \<and> (update_held t b \<longrightarrow> br_creating b = [] \<and> unclosed b = [])"
  using broker_reaches_ok [OF assms] vals_size_filter [of past_check "br_creating b"]
  by (auto simp: broker_ok_def limit_ok_def update_ok_def session_limit_def)

text \<open>
  C13. Two openings never get the same workspace, whether the broker picked it or the agent named it, and an
  opening that asks again gets the workspace of its first time.
\<close>

theorem openings_never_share_a_workspace:
  assumes "broker_reaches cfg t b" and "map_of (br_allocations b) key = Some w"
  shows "(\<forall>key'. map_of (br_allocations b) key' = Some w \<longrightarrow> key' = key)
    \<and> allocate_for cfg reg now key who inventory b = (Ok w, b)"
proof -
  have "wf_map (br_allocations b)" "distinct (map snd (br_allocations b))"
    using broker_reaches_ok [OF assms(1)] by (simp_all add: broker_ok_def reservations_ok_def)
  then show ?thesis using map_of_unique [OF _ _ assms(2)] assms(2) by (auto simp: allocate_for_def dest: map_of_SomeD)
qed

section \<open>Whose session\<close>

lemma map_of_map_snd: "map_of (map (\<lambda>(k, s). (k, f s)) kvs) sid = map_option f (map_of kvs sid)"
  by (induction kvs) auto

lemma on_session_other: "sid' \<noteq> sid \<Longrightarrow> map_of (br_sessions (snd (on_session c sid' e b))) sid = map_of (br_sessions b) sid"
  by (simp add: on_session_def split: option.split prod.split)

lemma get_session_Ok: "get_session v b = Inr s \<longleftrightarrow> (\<exists>sid. text_field v ''sessionId'' = Inr sid \<and> v = JStr sid \<and> map_of (br_sessions b) sid = Some s)"
proof (cases "text_field v ''sessionId''")
  case (Inr sid)
  then have "v = JStr sid" by (simp add: text_field_Ok)
  then show ?thesis using Inr by (auto simp: get_session_def split: option.splits)
qed (simp add: get_session_def)

text \<open>A request reaches only a session its caller owns.\<close>

lemma route_owned:
  assumes "route reg now who m params b = Inr (sid, ev)"
  shows "\<exists>s. getp params ''sessionId'' = JStr sid \<and> map_of (br_sessions b) sid = Some s \<and> owns who s"
proof -
  have auth: "owns who s" if "authorize reg now who verb s = Inr u" for verb s u
    using that by (simp add: authorize_def split: if_splits)
  have str: "str_of (JStr x) = x" for x by simp
  show ?thesis
    using assms
    by (auto simp: route_def Let_def and_then_def get_session_Ok owns_def dest!: auth split: if_splits sum.splits option.splits)
qed

text \<open>What each event may do to a session of the table.\<close>

lemma request_change:
  assumes s: "map_of (br_sessions b) sid = Some s"
    and changed: "map_of (br_sessions (snd (session_request reg c who m params b))) sid \<noteq> Some s"
  shows "(getp params ''sessionId'' = JStr sid \<and> owns who s)
    \<or> (m = ''session.stop'' \<and> getp params ''scope'' = JStr ''mine'' \<and> s_owner s = c_id who \<and> s_state s \<noteq> StClosed)"
proof (cases "m = ''session.stop'' \<and> getp params ''scope'' \<noteq> Undef")
  case True
  then have "map_of (br_sessions (snd (stop_mine params who b))) sid \<noteq> Some s"
    using changed by (cases "stop_mine params who b") (simp add: session_request_def)
  then show ?thesis using s True by (auto simp: stop_mine_def Let_def map_of_map_snd split: if_splits)
next
  case False
  obtain sid' e where r: "route reg (fst c) who m params b = Inr (sid', Some e)"
    and st: "map_of (br_sessions (snd (on_session c sid' e b))) sid \<noteq> Some s"
    using False changed s by (auto simp: session_request_def split: sum.splits option.splits prod.splits)
  have "sid' = sid" using on_session_other [of sid' sid c e b] st s by force
  then show ?thesis using route_owned [OF r] s by auto
qed

lemma forget_change:
  assumes s: "map_of (br_sessions b) sid = Some s" and changed: "map_of (br_sessions (snd (forget reg now who params b))) sid \<noteq> Some s"
  shows "getp params ''sessionId'' = JStr sid \<and> owns who s \<and> s_state s = StClosed"
  using s changed
  by (auto simp: forget_def authorize_def owns_def text_field_Ok split: sum.splits option.splits if_splits)

text \<open>Closed sessions leave by age.\<close>

lemma insert_by_age_insort: "map (\<lambda>x. s_last (snd x)) (insert_by_age x xs) = insort (s_last (snd x)) (map (\<lambda>x. s_last (snd x)) xs)"
  by (induction xs) (auto simp: insert_by_age_def)

lemma sorted_by_age: "sorted (map (\<lambda>x. s_last (snd x)) (foldr insert_by_age xs []))"
  by (induction xs) (simp_all add: insert_by_age_insort sorted_insort)

lemma mset_by_age: "mset (foldr insert_by_age xs []) = mset xs"
proof -
  have "mset (insert_by_age x ys) = add_mset x (mset ys)" for x ys
    by (metis insert_by_age_def mset.simps(2) mset_append takeWhile_dropWhile_id union_mset_add_mset_right)
  then show ?thesis by (induction xs) simp_all
qed

lemma filter_taken:
  assumes "distinct (map fst xs)"
  shows "filter (\<lambda>(k, v). k \<notin> set (map fst (take n xs))) xs = drop n xs"
proof -
  have d: "distinct (map fst (take n xs) @ map fst (drop n xs))" using assms by (simp flip: map_append)
  have "filter (\<lambda>(k, v). k \<notin> set (map fst (take n xs))) (take n xs) = []" by (force simp: filter_empty_conv)
  moreover have "filter (\<lambda>(k, v). k \<notin> set (map fst (take n xs))) (drop n xs) = drop n xs"
    using d by (intro filter_True) force
  ultimately show ?thesis by (metis append_Nil append_take_drop_id filter_append)
qed

text \<open>Of the closed sessions the newest 16 stay; what goes is closed and no younger than these.\<close>

lemma prune_change:
  assumes w: "wf_map (br_sessions b)" and s: "map_of (br_sessions b) sid = Some s"
    and changed: "map_of (br_sessions (prune_closed b)) sid \<noteq> Some s"
  defines "left \<equiv> filter (\<lambda>(k, x). s_state x = StClosed) (br_sessions (prune_closed b))"
  shows "s_state s = StClosed \<and> map_of (br_sessions (prune_closed b)) sid = None
    \<and> length left = 16 \<and> (\<forall>x \<in> set (map snd left). s_last s \<le> s_last x)"
proof -
  define cs where "cs = foldr insert_by_age (filter (\<lambda>(k, x). s_state x = StClosed) (br_sessions b)) []"
  let ?n = "length cs - 16"
  let ?gone = "set (map fst (take ?n cs))"
  have kept: "br_sessions (prune_closed b) = filter (\<lambda>(k, x). k \<notin> ?gone) (br_sessions b)"
    by (simp add: prune_closed_def Let_def cs_def)
  have cset: "set cs = {(k, x) \<in> set (br_sessions b). s_state x = StClosed}" by (auto simp: cs_def sorted_by_age_set)
  have m: "mset cs = filter_mset (\<lambda>(k, x). s_state x = StClosed) (mset (br_sessions b))" by (simp add: cs_def mset_by_age)
  have "image_mset fst (mset cs) \<subseteq># mset (map fst (br_sessions b))" unfolding m by (simp add: image_mset_subseteq_mono)
  then have d: "distinct (map fst cs)" using w distinct_sub_mset [of "map fst cs" "map fst (br_sessions b)"] by (simp add: wf_map_def)
  have "mset left = filter_mset (\<lambda>(k, x). k \<notin> ?gone) (mset cs)"
    unfolding left_def kept m by (auto simp: filter_filter_mset conj_commute case_prod_beta)
  also have "\<dots> = mset (drop ?n cs)" using filter_taken [OF d, of ?n] by (metis mset_filter)
  finally have left: "mset left = mset (drop ?n cs)" .
  have "sid \<in> ?gone"
  proof (rule ccontr)
    assume "sid \<notin> ?gone"
    then have "(sid, s) \<in> set (br_sessions (prune_closed b))" using map_of_SomeD [OF s] by (simp add: kept)
    moreover have "distinct (map fst (br_sessions (prune_closed b)))" using w by (simp add: kept wf_map_def distinct_map_filter)
    ultimately show False using changed by simp
  qed
  then obtain x where x: "(sid, x) \<in> set (take ?n cs)" by auto
  then have "(sid, x) \<in> set (br_sessions b)" "s_state x = StClosed" using cset by (auto dest: in_set_takeD)
  then have xs: "x = s" "s_state s = StClosed" using s w by (auto simp: wf_map_def)
  have long: "16 < length cs" using x by (cases "16 < length cs") auto
  have "sorted (map (\<lambda>x. s_last (snd x)) (take ?n cs) @ map (\<lambda>x. s_last (snd x)) (drop ?n cs))"
    using sorted_by_age by (simp add: cs_def flip: map_append)
  then have "s_last s \<le> s_last y" if "(k, y) \<in> set (drop ?n cs)" for k y
    using x that xs(1) by (force simp: sorted_append)
  then have "\<forall>y \<in> set (map snd left). s_last s \<le> s_last y" using mset_eq_setD [OF left] by auto
  moreover have "length left = 16" using arg_cong [OF left, of size] long by simp
  moreover have "map_of (br_sessions (prune_closed b)) sid = None"
    using \<open>sid \<in> ?gone\<close> by (force simp: kept map_of_eq_None_iff)
  ultimately show ?thesis using xs by simp
qed

lemma create_admitted_sessions:
  "br_sessions (snd (create_admitted cfg now n admission b)) \<in> {br_sessions b, br_sessions (prune_closed b)}"
  by (auto simp: create_admitted_def Let_def end_operation_def set_operation_def
    split: option.split operation.split create_stage.split sum.split)

section \<open>Whose authority\<close>

lemma on_session_policy:
  assumes ok: "broker_ok t b" and e: "\<forall>params. e \<noteq> NarrowCall params"
    and s: "map_of (br_sessions b) sid = Some s" "map_of (br_sessions (snd (on_session c sid' e b))) sid = Some s'"
  shows "s_policy s' = s_policy s"
proof (cases "sid' = sid")
  case True
  obtain es s1 where st: "session_step c e s = (es, s1)" by (cases "session_step c e s")
  have so: "session_ok s" using ok s(1) by (auto simp: broker_ok_def tables_ok_def dest: map_of_SomeD)
  have "s' = s1" using s st True by (simp add: on_session_def)
  then show ?thesis using step_policy [OF so st e] by simp
qed (use on_session_other [of sid' sid c e b] s in simp)

lemma request_policy:
  assumes ok: "broker_ok t b" and s: "map_of (br_sessions b) sid = Some s"
    and s': "map_of (br_sessions (snd (session_request reg c who m params b))) sid = Some s'" and p: "s_policy s' \<noteq> s_policy s"
  shows "m = ''session.narrow'' \<and> getp params ''sessionId'' = JStr sid \<and> owns who s"
proof (cases "m = ''session.stop'' \<and> getp params ''scope'' \<noteq> Undef")
  case True
  have "s_policy (snd (stop_call s)) = s_policy s" by (simp add: stop_call_def)
  then show ?thesis using s s' p True
    by (cases "stop_mine params who b") (auto simp: session_request_def stop_mine_def Let_def map_of_map_snd split: if_splits)
next
  case False
  obtain sid' ev where r: "route reg (fst c) who m params b = Inr (sid', Some ev)"
    and st: "map_of (br_sessions (snd (on_session c sid' ev b))) sid = Some s'"
    using False s s' p by (auto simp: session_request_def split: sum.splits option.splits prod.splits)
  obtain ps where ev: "ev = NarrowCall ps" using on_session_policy [OF ok _ s st] p by blast
  have sid: "sid' = sid" using on_session_other [of sid' sid c ev b] st s p by force
  have "m = ''session.narrow''"
    using r ev by (auto simp: route_def Let_def and_then_def event_of_def split: if_splits sum.splits option.splits)
  then show ?thesis using route_owned [OF r] sid s by auto
qed

lemma operation_sessions [simp]:
  "br_sessions (end_operation n b) = br_sessions b" "br_sessions (set_operation n p b) = br_sessions b"
  "br_sessions (snd (add_operation p b)) = br_sessions b" "br_sessions (leave_line t who plan b) = br_sessions b"
  "br_sessions (note_opened t who w b) = br_sessions b" "br_sessions (settle_open n key r b) = br_sessions b"
  "br_sessions (settle_present n key q d r b) = br_sessions b"
  by (simp_all add: end_operation_def set_operation_def add_operation_def leave_line_def note_opened_def settle_open_def
    settle_present_def split: sum.split thrown.split)

lemma create_busy_sessions [simp]: "br_sessions (snd (create_busy reg t n who plan d a m b)) = br_sessions b"
  by (simp add: create_busy_def Let_def split: option.split prod.split)

lemma allocate_for_sessions: "allocate_for cfg reg now key who inventory b = (r, b') \<Longrightarrow> br_sessions b' = br_sessions b"
  by (auto simp: allocate_for_def Let_def split: option.splits sum.splits prod.splits if_splits)

lemma create_busy_pair: "create_busy reg t n who plan d a m b = (r, b') \<Longrightarrow> br_sessions b' = br_sessions b"
  by (metis create_busy_sessions snd_conv)

lemma create_turn_sessions [simp]: "br_sessions (snd (snd (create_turn reg t u n b))) = br_sessions b"
  by (auto simp: create_turn_def Let_def dest!: create_busy_pair
    split: prod.split option.split operation.split create_stage.split sum.split)

lemma add_operation_sessions: "add_operation p b = (n, b') \<Longrightarrow> br_sessions b' = br_sessions b"
  by (auto simp: add_operation_def)

lemma quiet_events [simp]:
  "br_sessions (snd (create_call t input who b)) = br_sessions b"
  "br_sessions (snd (open_call cfg t who params admission b)) = br_sessions b"
  "br_sessions (open_answered t n r b) = br_sessions b"
  "br_sessions (snd (present_call cfg t who params admission b)) = br_sessions b"
  "br_sessions (snd (monitors_call cfg t params admission b)) = br_sessions b"
  "br_sessions (snd (present_turn t n admission b)) = br_sessions b"
  "br_sessions (present_answered n r b) = br_sessions b"
  "br_sessions (snd (update_begin t token admission b)) = br_sessions b"
  "br_sessions (snd (update_end params b)) = br_sessions b"
  by (auto simp: create_call_def Let_def open_call_def open_answered_def present_call_def monitors_call_def
    present_turn_def present_answered_def update_begin_def update_end_def dest!: add_operation_sessions
    split: prod.split option.split operation.split create_stage.split sum.split bool.split)

lemma open_turn_sessions [simp]: "br_sessions (snd (open_turn cfg reg t n admission inventory b)) = br_sessions b"
  by (auto simp: open_turn_def Let_def dest!: allocate_for_sessions
    split: prod.split prod.split_asm option.split operation.split sum.split sum.split_asm if_splits)

lemma claim_answered_other:
  assumes "fresh_identity (ClaimAnswered sid' n r) b" and "map_of (br_sessions b) sid = Some s"
  shows "map_of (br_sessions (snd (claim_answered reg c sid' n r b))) sid = Some s"
proof -
  have "sid' \<noteq> sid" using assms by (force simp: fresh_identity_def keys_def dest: map_of_SomeD)
  then show ?thesis using assms(2)
    by (auto simp: claim_answered_def Let_def split: option.split operation.split create_stage.split sum.split prod.split thrown.split)
qed

text \<open>
  C3. Nobody touches what is not theirs. Whatever happens in the broker, a session changes or leaves the table
  only by one of: a request of its owner or of the person that names it, or the owner stopping all of its own;
  the removal of this closed session asked for by one of them; an event of the session itself; its owner's
  adapter going or coming back; or, when it is closed, the admission of a new session, which keeps the newest 16
  closed ones. No other caller's request, creation, opening or presentation changes it in any way.
\<close>

theorem foreign_sessions_are_untouchable:
  assumes "broker_reaches cfg t b" and "fresh_identity e b" and "map_of (br_sessions b) sid = Some s"
    and "map_of (br_sessions (snd (broker_step cfg reg c e b))) sid \<noteq> Some s"
  defines "left \<equiv> filter (\<lambda>(k, x). s_state x = StClosed) (br_sessions (snd (broker_step cfg reg c e b)))"
  shows "(\<exists>who m params. e = SessionRequest who m params
        \<and> (getp params ''sessionId'' = JStr sid \<and> (c_role who = OwnerRole \<or> s_owner s = c_id who)
          \<or> m = ''session.stop'' \<and> getp params ''scope'' = JStr ''mine'' \<and> s_owner s = c_id who \<and> s_state s \<noteq> StClosed))
    \<or> (\<exists>who params. e = Forget who params \<and> getp params ''sessionId'' = JStr sid \<and> s_state s = StClosed
        \<and> (c_role who = OwnerRole \<or> s_owner s = c_id who))
    \<or> (\<exists>ev. e = SessionEvent sid ev \<and> internal_event ev)
    \<or> (\<exists>g. e = AdapterGone g (s_owner s)) \<or> e = AdapterBack (s_owner s)
    \<or> (\<exists>n admission. e = CreateAdmitted n admission \<and> s_state s = StClosed
        \<and> map_of (br_sessions (snd (broker_step cfg reg c e b))) sid = None
        \<and> length left = 16 \<and> (\<forall>x \<in> set (map snd left). s_last s \<le> s_last x))"
proof -
  have w: "wf_map (br_sessions b)" using broker_reaches_ok [OF assms(1)] by (simp add: broker_ok_def tables_ok_def)
  show ?thesis
  proof (cases e)
    case (SessionRequest who m params)
    then show ?thesis using request_change [OF assms(3)] assms(4) by (auto simp: broker_step_def owns_def)
  next
    case (Forget who params)
    then show ?thesis using forget_change [OF assms(3)] assms(4) by (auto simp: broker_step_def owns_def)
  next
    case (SessionEvent sid' ev)
    then show ?thesis using on_session_other [of sid' sid c ev b] assms(3,4)
      by (cases "sid' = sid") (auto simp: broker_step_def split: if_splits)
  next
    case (ClaimAnswered sid' n r)
    then show ?thesis using claim_answered_other [OF _ assms(3)] assms(2,4) by (simp add: broker_step_def)
  next
    case (CreateAdmitted n admission)
    then have "br_sessions (snd (broker_step cfg reg c e b)) = br_sessions (prune_closed b)"
      using create_admitted_sessions [of cfg "fst c" n admission b] assms(3,4) by (auto simp: broker_step_def)
    then show ?thesis using prune_change [OF w assms(3)] assms(4) CreateAdmitted by (auto simp: left_def)
  next
    case (AdapterGone g cid)
    then show ?thesis using assms(3,4)
      by (cases "s_owner s = cid") (simp_all add: broker_step_def adapter_gone_def map_of_map_snd)
  next
    case (AdapterBack cid)
    then show ?thesis using assms(3,4)
      by (cases "s_owner s = cid") (simp_all add: broker_step_def adapter_back_def map_of_map_snd)
  qed (use assms(3,4) in \<open>auto simp: broker_step_def\<close>)
qed

text \<open>
  C4. The policy of a session is changed by nothing in the whole broker but a \<open>session.narrow\<close> request for this
  session from a caller who owns it: no other agent, no creation, opening, update, pause or disappearance
  of an adapter touches what a session may do.
\<close>

theorem authority_is_its_owners:
  assumes "broker_reaches cfg t b" and "fresh_identity e b"
    and "map_of (br_sessions b) sid = Some s"
    and "map_of (br_sessions (snd (broker_step cfg reg c e b))) sid = Some s'" and "s_policy s' \<noteq> s_policy s"
  shows "\<exists>who params. e = SessionRequest who ''session.narrow'' params \<and> getp params ''sessionId'' = JStr sid \<and> owns who s"
proof -
  note ok = broker_reaches_ok [OF assms(1)]
  have adapters: "s_policy (owner_gone c' g s) = s_policy s" "s_policy (owner_back s) = s_policy s" "s_policy (snd (stop_call s)) = s_policy s"
    for c' g
    by (simp_all add: owner_gone_def pause_session_def owner_back_def stop_call_def split: pause_state.split)
  have w: "wf_map (br_sessions b)" using ok by (simp add: broker_ok_def tables_ok_def)
  have changed: "map_of (br_sessions (snd (broker_step cfg reg c e b))) sid \<noteq> Some s" using assms(4,5) by auto
  show ?thesis
  proof (cases e)
    case (SessionRequest who m params)
    then show ?thesis using request_policy [OF ok assms(3) _ assms(5)] assms(4) by (simp add: broker_step_def)
  next
    case (SessionEvent sid' ev)
    have no: "\<forall>ps. ev \<noteq> NarrowCall ps" if "internal_event ev" using that by (auto simp: internal_event_def)
    then show ?thesis using on_session_policy [OF ok no assms(3), of c sid'] assms(4,5) changed SessionEvent assms(3)
      by (auto simp: broker_step_def split: if_splits)
  next
    case (ClaimAnswered sid' n r)
    then show ?thesis using claim_answered_other [OF _ assms(3)] assms(2) changed by (simp add: broker_step_def)
  next
    case (CreateAdmitted n admission)
    then have "br_sessions (snd (broker_step cfg reg c e b)) = br_sessions (prune_closed b)"
      using create_admitted_sessions [of cfg "fst c" n admission b] assms(3) changed by (auto simp: broker_step_def)
    then show ?thesis using prune_change [OF w assms(3)] assms(4) changed by simp
  next
    case (Forget who params)
    then have "map_of (br_sessions b) sid = Some s'"
      using assms(4) by (auto simp: broker_step_def forget_def split: sum.splits option.splits if_splits)
    then show ?thesis using assms(3,5) by simp
  next
    case (AdapterGone g cid)
    then show ?thesis using assms(3,4,5) adapters(1) [of c g]
      by (cases "s_owner s = cid") (simp_all add: broker_step_def adapter_gone_def map_of_map_snd)
  next
    case (AdapterBack cid)
    then show ?thesis using assms(3,4,5) adapters by (auto simp: broker_step_def adapter_back_def map_of_map_snd split: if_splits)
  qed (use changed assms(3) in \<open>auto simp: broker_step_def\<close>)
qed

section \<open>A concrete run\<close>

fun broker_run :: "broker_config \<Rightarrow> registry \<Rightarrow> (clock \<times> broker_event) list \<Rightarrow> broker \<Rightarrow> broker" where
  "broker_run cfg reg [] b = b"
| "broker_run cfg reg ((c, e) # es) b = broker_run cfg reg es (snd (broker_step cfg reg c e b))"

text \<open>The clock does not run backwards and identities are fresh.\<close>

fun run_fits :: "broker_config \<Rightarrow> registry \<Rightarrow> int \<Rightarrow> (clock \<times> broker_event) list \<Rightarrow> broker \<Rightarrow> bool" where
  "run_fits cfg reg t [] b \<longleftrightarrow> True"
| "run_fits cfg reg t ((c, e) # es) b \<longleftrightarrow> t \<le> fst c \<and> fresh_identity e b
     \<and> run_fits cfg reg (fst c) es (snd (broker_step cfg reg c e b))"

lemma broker_run_reaches:
  "broker_reaches cfg t b \<Longrightarrow> run_fits cfg reg t es b \<Longrightarrow> \<exists>t'. broker_reaches cfg t' (broker_run cfg reg es b)"
proof (induction es arbitrary: t b)
  case (Cons ce es)
  obtain c e where ce: "ce = (c, e)" by (cases ce)
  have "broker_reaches cfg (fst c) (snd (broker_step cfg reg c e b))"
    using Cons.prems ce by (intro broker_reaches.happened) auto
  then show ?case using Cons.IH Cons.prems(2) ce by simp
qed auto

definition sample_config :: broker_config where
  "sample_config = \<lparr>bc_os = Linux, bc_urls = (\<lambda>u. None), bc_number = (\<lambda>t. NaN), bc_absolute = (\<lambda>t. True), bc_native = True,
     bc_pool = (1, 10)\<rparr>"

definition sample_run :: "(clock \<times> broker_event) list" where
  "sample_run = [((1, ''t''), CreateCall [(''handoff'', JObj [(''workspace'', jint 3)]), (''taskName'', JStr ''Edit'')] internal_caller),
     ((2, ''t''), CreateAdmitted 0 None), ((3, ''t''), CreateTurn 0 ''lease''),
     ((4, ''t''), ClaimAnswered ''s1'' 0 (Inr (sample_backend, sample_view))),
     ((5, ''t''), OpenCall internal_caller [(''requestId'', JStr ''r''), (''applicationId'', JStr ''editor.desktop'')] None),
     ((6, ''t''), OpenTurn 1 None (Inr ([1], [2])))]"

definition sample_broker :: broker where
  "sample_broker = broker_run sample_config [] sample_run new_broker"

lemma sample_reached: "\<exists>t. broker_reaches sample_config t sample_broker"
proof -
  have "run_fits sample_config [] 0 sample_run new_broker" by code_simp
  then show ?thesis using broker_run_reaches [OF broker_reaches.started] by (simp add: sample_broker_def)
qed

lemma sample_session_there: "map_of (br_sessions sample_broker) ''s1'' = Some (the (map_of (br_sessions sample_broker) ''s1''))"
proof -
  have "''s1'' \<in> set (map fst (br_sessions sample_broker))" by code_simp
  then have "map_of (br_sessions sample_broker) ''s1'' \<noteq> None" by (simp add: map_of_eq_None_iff)
  then show ?thesis by (rule option.collapse [symmetric])
qed

lemma leases_have_one_holder_witness:
  "distinct (br_leases sample_broker) \<and> mset (br_leases sample_broker) = open_leases sample_broker + op_leases sample_broker
    \<and> distinct (map s_lease (unclosed sample_broker))"
  using sample_reached leases_have_one_holder by blast

lemma sessions_are_bounded_witness:
  "length (unclosed sample_broker) + length (filter past_check (map snd (br_creating sample_broker))) < 32"
  using sample_reached sessions_are_bounded by blast

lemma openings_never_share_a_workspace_witness:
  "map_of (br_allocations sample_broker) (''internal'', ''s'') \<noteq> Some 4
    \<and> allocate_for sample_config [] 9 (''internal'', ''r'') internal_caller (Inr ([4], [])) sample_broker = (Ok 4, sample_broker)"
proof -
  have first: "map_of (br_allocations sample_broker) (''internal'', ''r'') = Some 4" by code_simp
  obtain t where "broker_reaches sample_config t sample_broker" using sample_reached by blast
  note claim = openings_never_share_a_workspace [OF this first]
  have "(''internal'', ''s'') \<noteq> (''internal'', ''r'')" by simp
  then have "map_of (br_allocations sample_broker) (''internal'', ''s'') \<noteq> Some 4" using conjunct1 [OF claim] by blast
  then show ?thesis by (rule conjI [OF _ conjunct2 [OF claim]])
qed

definition sample_narrow :: broker_event where
  "sample_narrow = SessionRequest internal_caller ''session.narrow'' [(''sessionId'', JStr ''s1''), (''allow'', JArr [JStr ''read''])]"

lemma sample_narrowed:
  "\<exists>s'. map_of (br_sessions (snd (broker_step sample_config [] (9, ''t'') sample_narrow sample_broker))) ''s1'' = Some s'
    \<and> s_policy s' \<noteq> s_policy (the (map_of (br_sessions sample_broker) ''s1''))"
proof -
  let ?after = "snd (broker_step sample_config [] (9, ''t'') sample_narrow sample_broker)"
  have "''s1'' \<in> set (map fst (br_sessions ?after))" by code_simp
  then have "map_of (br_sessions ?after) ''s1'' \<noteq> None" by (simp add: map_of_eq_None_iff)
  then have there: "map_of (br_sessions ?after) ''s1'' = Some (the (map_of (br_sessions ?after) ''s1''))" by (rule option.collapse [symmetric])
  have "p_allow (s_policy (the (map_of (br_sessions ?after) ''s1''))) \<noteq> p_allow (s_policy (the (map_of (br_sessions sample_broker) ''s1'')))"
    by code_simp
  then have "s_policy (the (map_of (br_sessions ?after) ''s1'')) \<noteq> s_policy (the (map_of (br_sessions sample_broker) ''s1''))" by metis
  then show ?thesis using there by blast
qed

lemma foreign_sessions_are_untouchable_witness:
  "\<exists>who m params. sample_narrow = SessionRequest who m params
     \<and> (c_role who = OwnerRole \<or> s_owner (the (map_of (br_sessions sample_broker) ''s1'')) = c_id who)"
proof -
  obtain s' where there: "map_of (br_sessions (snd (broker_step sample_config [] (9, ''t'') sample_narrow sample_broker))) ''s1'' = Some s'"
    and "s_policy s' \<noteq> s_policy (the (map_of (br_sessions sample_broker) ''s1''))"
    using sample_narrowed by blast
  then have changed: "map_of (br_sessions (snd (broker_step sample_config [] (9, ''t'') sample_narrow sample_broker))) ''s1''
      \<noteq> Some (the (map_of (br_sessions sample_broker) ''s1''))" by auto
  have f: "fresh_identity sample_narrow sample_broker" by (simp add: fresh_identity_def sample_narrow_def)
  obtain t where "broker_reaches sample_config t sample_broker" using sample_reached by blast
  from foreign_sessions_are_untouchable [OF this f sample_session_there changed]
  show ?thesis by (auto simp: sample_narrow_def)
qed

lemma authority_is_its_owners_witness:
  "\<exists>who params. sample_narrow = SessionRequest who ''session.narrow'' params \<and> getp params ''sessionId'' = JStr ''s1''
     \<and> owns who (the (map_of (br_sessions sample_broker) ''s1''))"
proof -
  obtain s' where there: "map_of (br_sessions (snd (broker_step sample_config [] (9, ''t'') sample_narrow sample_broker))) ''s1'' = Some s'"
    and p: "s_policy s' \<noteq> s_policy (the (map_of (br_sessions sample_broker) ''s1''))"
    using sample_narrowed by blast
  have f: "fresh_identity sample_narrow sample_broker" by (simp add: fresh_identity_def sample_narrow_def)
  obtain t where "broker_reaches sample_config t sample_broker" using sample_reached by blast
  from authority_is_its_owners [OF this f sample_session_there there p] show ?thesis .
qed

end
