(* ===== verification/WindowsZip.thy ===== *)
theory WindowsZip
  imports OrbitPrelude "HOL-Library.Word"
begin

text \<open>
  \<open>src/windows-zip.ts\<close>: the extraction of a downloaded archive. The whole archive is validated before the first
  file is written: the end record, the central directory with its names, the local headers, and that no two
  entries share bytes. Then each entry is written, and its length and checksum are compared.

  The archive is its bytes; numbers read from it are integers, positions in the directory natural numbers. Every
  refusal is the same error, so a step that may fail is an option. Inflating is a parameter, as is the caller's
  policy on paths. The checks of the archive's and the destination's place in the file system are not represented.
  The destination is new and empty, and its file system does not distinguish upper and lower case. An extraction that
  fails keeps what it had made, the failing entry's directories and its begun output included; one that is aborted, or
  whose writing fails, leaves a beginning of what is made here.
\<close>

unbundle bit_operations_syntax

section \<open>Reading numbers\<close>

definition read_le :: "nat \<Rightarrow> nat \<Rightarrow> 8 word list \<Rightarrow> int" where
  "read_le n pos bs = foldr (\<lambda>b acc. uint b + 256 * acc) (take n (drop pos bs)) 0"

definition read_at :: "int \<Rightarrow> int \<Rightarrow> 8 word list \<Rightarrow> 8 word list option" where
  "read_at offset len bs =
     (if len = 0 then Some []
      else if 0 \<le> offset \<and> 0 < len \<and> offset + len \<le> int (length bs) then Some (take (nat len) (drop (nat offset) bs))
      else None)"

definition only_if :: "bool \<Rightarrow> 'a option \<Rightarrow> 'a option" where
  "only_if b x = (if b then x else None)"

section \<open>Paths\<close>

definition alphanumeric :: "char \<Rightarrow> bool" where
  "alphanumeric c \<longleftrightarrow> is_digit c \<or> is_lower c \<or> is_upper c"

definition name_char :: "char \<Rightarrow> bool" where
  "name_char c \<longleftrightarrow> alphanumeric c \<or> c = CHR ''_'' \<or> c = CHR ''.'' \<or> c = CHR ''-''"

definition npm_scope :: "string option \<Rightarrow> string \<Rightarrow> bool" where
  "npm_scope prev part \<longleftrightarrow> prev = Some ''node_modules'' \<and>
     (case part of c # d # rest \<Rightarrow> c = CHR ''@'' \<and> alphanumeric d \<and> list_all name_char rest | _ \<Rightarrow> False)"

definition device_names :: "string list" where
  "device_names = [''con'', ''prn'', ''aux'', ''nul''] @ List.map (\<lambda>d. ''com'' @ [d]) ''123456789'' @ List.map (\<lambda>d. ''lpt'' @ [d]) ''123456789''"

definition device_name :: "string \<Rightarrow> bool" where
  "device_name part \<longleftrightarrow> takeWhile (\<lambda>c. c \<noteq> CHR ''.'') (List.map lower_char part) \<in> set device_names"

definition safe_part :: "string option \<Rightarrow> string \<Rightarrow> bool" where
  "safe_part prev part \<longleftrightarrow> part \<noteq> [] \<and> part \<noteq> ''.'' \<and> part \<noteq> ''..''
     \<and> (npm_scope prev part \<or> list_all (\<lambda>c. name_char c \<or> c = CHR '' '') part)
     \<and> last part \<noteq> CHR ''.'' \<and> last part \<noteq> CHR '' '' \<and> \<not> device_name part"

fun safe_parts :: "string option \<Rightarrow> string list \<Rightarrow> bool" where
  "safe_parts prev [] \<longleftrightarrow> True"
| "safe_parts prev (p # ps) \<longleftrightarrow> safe_part prev p \<and> safe_parts (Some p) ps"

definition path_parts :: "string \<Rightarrow> string list" where
  "path_parts path = split_on CHR ''/'' path"

definition safe_path :: "string \<Rightarrow> bool" where
  "safe_path path \<longleftrightarrow> path \<noteq> [] \<and> length path \<le> 240 \<and> length (path_parts path) \<le> 32
     \<and> CHR 0x5C \<notin> set path \<and> hd path \<noteq> CHR ''/'' \<and> CHR '':'' \<notin> set path \<and> safe_parts None (path_parts path)"

text \<open>
  A name with a byte above 127 is refused in any case: its decoding fails, or the decoded character is none of a
  safe path. A byte order mark in front is dropped by the decoder.
\<close>

definition decode_name :: "8 word list \<Rightarrow> string option" where
  "decode_name bs =
     (let rest = (if take 3 bs = [0xEF, 0xBB, 0xBF] then drop 3 bs else bs) in
      if list_all (\<lambda>b. b < 128) rest then Some (List.map (\<lambda>b. char_of (unat b)) rest) else None)"

section \<open>The checksum\<close>

definition crc_bit :: "32 word \<Rightarrow> 32 word" where
  "crc_bit c = drop_bit 1 c XOR (if c AND 1 = 1 then 0xEDB88320 else 0)"

definition crc_table :: "32 word list" where
  "crc_table = List.map (\<lambda>v. (crc_bit ^^ 8) (of_nat v)) [0 ..< 256]"

definition crc_byte :: "8 word \<Rightarrow> 32 word \<Rightarrow> 32 word" where
  "crc_byte b c = drop_bit 8 c XOR (crc_table ! unat ((c XOR ucast b) AND 255))"

definition crc32 :: "8 word list \<Rightarrow> 32 word" where
  "crc32 bs = fold crc_byte bs 0xFFFFFFFF XOR 0xFFFFFFFF"

section \<open>The end record\<close>

record zip_policy =
  zp_max_archive :: int
  zp_max_expanded :: int
  zp_max_file :: int
  zp_max_entries :: int
  zp_max_files :: int
  zp_max_depth :: int
  zp_allows :: "string \<Rightarrow> bool \<Rightarrow> bool"

definition policy_valid :: "zip_policy \<Rightarrow> bool" where
  "policy_valid p \<longleftrightarrow>
     list_all (\<lambda>v. 0 < v \<and> v \<le> max_safe)
       [zp_max_archive p, zp_max_expanded p, zp_max_file p, zp_max_entries p, zp_max_files p, zp_max_depth p]
     \<and> zp_max_archive p \<le> 268435456 \<and> zp_max_expanded p \<le> 805306368 \<and> zp_max_file p \<le> 268435456
     \<and> zp_max_entries p \<le> 20000 \<and> zp_max_files p \<le> 16384 \<and> zp_max_depth p \<le> 32"

definition find_end :: "8 word list \<Rightarrow> nat option" where
  "find_end tail =
     List.find (\<lambda>i. read_le 4 i tail = 0x06054B50 \<and> int i + 22 + read_le 2 (i + 20) tail = int (length tail))
       (rev [0 ..< length tail - 21])"

record zip_end =
  zn_count :: int
  zn_size :: int
  zn_offset :: int

definition read_end :: "zip_policy \<Rightarrow> 8 word list \<Rightarrow> zip_end option" where
  "read_end p archive =
     (let size = length archive; start = nat (int size - 65557); tail = drop start archive in
      if size < 22 \<or> int size > zp_max_archive p then None
      else case find_end tail of
        None \<Rightarrow> None
      | Some e \<Rightarrow>
         (let count = read_le 2 (e + 10) tail; dsize = read_le 4 (e + 12) tail; doffset = read_le 4 (e + 16) tail in
          only_if (read_le 2 (e + 4) tail = 0 \<and> read_le 2 (e + 6) tail = 0 \<and> count = read_le 2 (e + 8) tail \<and> count \<noteq> 0
              \<and> count \<le> zp_max_entries p \<and> dsize \<le> 8388608 \<and> doffset + dsize = int start + int e)
            (Some \<lparr>zn_count = count, zn_size = dsize, zn_offset = doffset\<rparr>)))"

section \<open>The central directory\<close>

record zip_entry =
  ze_path :: string
  ze_size :: int
  ze_compressed :: int
  ze_crc :: int
  ze_method :: int
  ze_flags :: int
  ze_offset :: int
  ze_directory :: bool

text \<open>The extra fields: none of a 64-bit size, and the last ends where they end.\<close>

function extra_ok :: "8 word list \<Rightarrow> bool" where
  "extra_ok bs \<longleftrightarrow>
     (if bs = [] then True
      else if length bs < 4 then False
      else let len = nat (read_le 2 2 bs) in
        read_le 2 0 bs \<noteq> 1 \<and> 4 + len \<le> length bs \<and> extra_ok (drop (4 + len) bs))"
  by pat_completeness auto
termination by (relation "measure length") (auto simp: Let_def)

declare extra_ok.simps [simp del]

text \<open>The header at this place, with its name; and where the next begins.\<close>

definition central_header :: "zip_policy \<Rightarrow> 8 word list \<Rightarrow> nat \<Rightarrow> (zip_entry \<times> nat) option" where
  "central_header p c pos =
     (if pos + 46 > length c \<or> read_le 4 pos c \<noteq> 0x02014B50 then None
      else let flags = read_le 2 (pos + 8) c; meth = read_le 2 (pos + 10) c; comp = read_le 4 (pos + 20) c; size = read_le 4 (pos + 24) c;
               nlen = nat (read_le 2 (pos + 28) c); xlen = nat (read_le 2 (pos + 30) c); clen = nat (read_le 2 (pos + 32) c);
               external = read_le 4 (pos + 38) c; offset = read_le 4 (pos + 42) c;
               nbytes = take nlen (drop (pos + 46) c) in
        if pos + 46 + nlen + xlen + clen > length c \<or> flags AND (NOT 0x808) \<noteq> 0 \<or> meth \<notin> {0, 8} \<or> size > zp_max_file p
           \<or> comp > zp_max_archive p \<or> comp = 0xFFFFFFFF \<or> offset = 0xFFFFFFFF \<or> read_le 2 (pos + 34) c \<noteq> 0
           \<or> flags AND 0x800 = 0 \<and> list_ex (\<lambda>b. b > 127) nbytes
        then None
        else case decode_name nbytes of
          None \<Rightarrow> None
        | Some raw \<Rightarrow>
           (let dir = (raw \<noteq> [] \<and> last raw = CHR ''/''); path = (if dir then butlast raw else raw);
                kind = drop_bit 16 external AND 0xF000 in
            only_if (safe_path path \<and> int (length (path_parts path)) \<le> zp_max_depth p \<and> zp_allows p path dir
                \<and> external AND 0x400 = 0 \<and> kind \<in> {0, 0x8000, 0x4000} \<and> \<not> (kind = 0x4000 \<and> \<not> dir) \<and> \<not> (kind = 0x8000 \<and> dir)
                \<and> \<not> (dir \<and> (size \<noteq> 0 \<or> comp \<noteq> 0))
                \<and> extra_ok (take xlen (drop (pos + 46 + nlen) c)))
              (Some (\<lparr>ze_path = path, ze_size = size, ze_compressed = comp, ze_crc = read_le 4 (pos + 16) c, ze_method = meth,
                      ze_flags = flags, ze_offset = offset, ze_directory = dir\<rparr>,
                     pos + 46 + nlen + xlen + clen))))"

definition lower_path :: "string \<Rightarrow> string" where
  "lower_path path = List.map lower_char path"

text \<open>
  The names met so far in lower case, the spelling of every prefix of them, and the bytes they expand to.
\<close>

record zip_seen =
  zs_paths :: "string list"
  zs_prefixes :: "(string \<times> string) list"
  zs_expanded :: int

definition prefixes_of :: "string \<Rightarrow> string list" where
  "prefixes_of path = List.map (\<lambda>n. join_with CHR ''/'' (take n (path_parts path))) [1 ..< Suc (length (path_parts path))]"

fun note_prefixes :: "zip_policy \<Rightarrow> string list \<Rightarrow> (string \<times> string) list \<Rightarrow> (string \<times> string) list option" where
  "note_prefixes p [] known = Some known"
| "note_prefixes p (q # qs) known =
     (case map_of known (lower_path q) of
        Some prior \<Rightarrow> if prior \<noteq> q then None else note_prefixes p qs known
      | None \<Rightarrow>
          (let known' = put (lower_path q) q known in
           if int (length known') > zp_max_entries p then None else note_prefixes p qs known'))"

definition note_entry :: "zip_policy \<Rightarrow> zip_entry \<Rightarrow> zip_seen \<Rightarrow> zip_seen option" where
  "note_entry p e s =
     (if lower_path (ze_path e) \<in> set (zs_paths s) then None
      else case note_prefixes p (prefixes_of (ze_path e)) (zs_prefixes s) of
        None \<Rightarrow> None
      | Some known \<Rightarrow>
          only_if (zs_expanded s + ze_size e \<le> zp_max_expanded p)
            (Some \<lparr>zs_paths = lower_path (ze_path e) # zs_paths s, zs_prefixes = known, zs_expanded = zs_expanded s + ze_size e\<rparr>))"

fun central_entries :: "zip_policy \<Rightarrow> nat \<Rightarrow> 8 word list \<Rightarrow> nat \<Rightarrow> zip_seen \<Rightarrow> zip_entry list option" where
  "central_entries p 0 c pos s = only_if (pos = length c) (Some [])"
| "central_entries p (Suc n) c pos s =
     (case central_header p c pos of
        None \<Rightarrow> None
      | Some (e, next') \<Rightarrow>
         (case note_entry p e s of
            None \<Rightarrow> None
          | Some s' \<Rightarrow> (case central_entries p n c next' s' of None \<Rightarrow> None | Some es \<Rightarrow> Some (e # es))))"

definition files_in :: "zip_entry list \<Rightarrow> zip_entry list" where
  "files_in es = filter (\<lambda>e. \<not> ze_directory e) es"

definition read_central :: "zip_policy \<Rightarrow> 8 word list \<Rightarrow> zip_end \<Rightarrow> zip_entry list option" where
  "read_central p archive n =
     (case read_at (zn_offset n) (zn_size n) archive of
        None \<Rightarrow> None
      | Some c \<Rightarrow>
         (case central_entries p (nat (zn_count n)) c 0 \<lparr>zs_paths = [], zs_prefixes = [], zs_expanded = 0\<rparr> of
            None \<Rightarrow> None
          | Some es \<Rightarrow> only_if (int (length (files_in es)) \<le> zp_max_files p) (Some es)))"

section \<open>The local headers\<close>

definition ascii_bytes :: "string \<Rightarrow> 8 word list" where
  "ascii_bytes s = List.map (\<lambda>c. of_nat (code c)) s"

text \<open>Where the data of an entry begins and ends.\<close>

definition local_header :: "8 word list \<Rightarrow> int \<Rightarrow> zip_entry \<Rightarrow> (zip_entry \<times> int \<times> int) option" where
  "local_header archive doffset e =
     (case read_at (ze_offset e) 30 archive of
        None \<Rightarrow> None
      | Some l \<Rightarrow>
          if read_le 4 0 l \<noteq> 0x04034B50 \<or> read_le 2 6 l \<noteq> ze_flags e \<or> read_le 2 8 l \<noteq> ze_method e then None
          else let nlen = read_le 2 26 l; xlen = read_le 2 28 l; start = ze_offset e + 30 + nlen + xlen; finish = start + ze_compressed e in
            (case (read_at (ze_offset e + 30) nlen archive, read_at (ze_offset e + 30 + nlen) xlen archive) of
               (Some name, Some extra) \<Rightarrow>
                 only_if (name = ascii_bytes (ze_path e @ (if ze_directory e then ''/'' else []))
                     \<and> (ze_flags e AND 8 \<noteq> 0 \<or> read_le 4 14 l = ze_crc e \<and> read_le 4 18 l = ze_compressed e \<and> read_le 4 22 l = ze_size e)
                     \<and> finish \<le> doffset \<and> extra_ok extra)
                   (Some (e, start, finish))
             | _ \<Rightarrow> None))"

fun all_some :: "('a \<Rightarrow> 'b option) \<Rightarrow> 'a list \<Rightarrow> 'b list option" where
  "all_some f [] = Some []"
| "all_some f (x # xs) = (case f x of None \<Rightarrow> None | Some y \<Rightarrow> (case all_some f xs of None \<Rightarrow> None | Some ys \<Rightarrow> Some (y # ys)))"

fun apart :: "(int \<times> int) list \<Rightarrow> bool" where
  "apart (a # b # rest) \<longleftrightarrow> snd a \<le> fst b \<and> apart (b # rest)"
| "apart _ \<longleftrightarrow> True"

definition no_overlaps :: "(zip_entry \<times> int \<times> int) list \<Rightarrow> bool" where
  "no_overlaps ready = apart (sort_key fst (List.map (\<lambda>(e, start, finish). (ze_offset e, finish)) ready))"

definition zip_ready :: "zip_policy \<Rightarrow> 8 word list \<Rightarrow> (zip_entry \<times> int \<times> int) list option" where
  "zip_ready p archive =
     (if \<not> policy_valid p then None
      else case read_end p archive of
        None \<Rightarrow> None
      | Some n \<Rightarrow>
         (case read_central p archive n of
            None \<Rightarrow> None
          | Some es \<Rightarrow>
             (case all_some (local_header archive (zn_offset n)) es of
                None \<Rightarrow> None
              | Some ready \<Rightarrow> only_if (no_overlaps ready) (Some ready))))"

section \<open>Writing\<close>

text \<open>What is in the destination, by the name in lower case: the name as written, and the content of a file.\<close>

type_synonym zip_files = "(string \<times> string \<times> 8 word list option) list"

text \<open>Each directory in turn; the first that is a file stops it, and what was made before stays.\<close>

fun make_directories :: "string list \<Rightarrow> zip_files \<Rightarrow> bool \<times> zip_files" where
  "make_directories [] fs = (True, fs)"
| "make_directories (q # qs) fs =
     (case map_of fs (lower_path q) of
        None \<Rightarrow> make_directories qs (fs @ [(lower_path q, q, None)])
      | Some (q', None) \<Rightarrow> make_directories qs fs
      | Some (q', Some bs) \<Rightarrow> (False, fs))"

text \<open>\<open>resolve(output).startsWith(resolve(destination) + sep)\<close>: what the path resolves to inside the destination.\<close>

fun resolve_parts :: "string list \<Rightarrow> string list \<Rightarrow> string list option" where
  "resolve_parts done' [] = Some done'"
| "resolve_parts done' (p # ps) =
     (if p = [] \<or> p = ''.'' then resolve_parts done' ps
      else if p = ''..'' then (case done' of [] \<Rightarrow> None | d # ds \<Rightarrow> resolve_parts ds ps)
      else resolve_parts (p # done') ps)"

definition stays_inside :: "string \<Rightarrow> bool" where
  "stays_inside path \<longleftrightarrow> (case resolve_parts [] (path_parts path) of None \<Rightarrow> False | Some ps \<Rightarrow> ps \<noteq> [])"

definition zip_content :: "(8 word list \<Rightarrow> 8 word list option) \<Rightarrow> zip_policy \<Rightarrow> 8 word list \<Rightarrow> zip_entry \<times> int \<times> int \<Rightarrow> 8 word list option" where
  "zip_content inflate p archive = (\<lambda>(e, start, finish).
     if ze_compressed e = 0 then only_if (ze_size e = 0 \<and> ze_crc e = 0) (Some [])
     else case read_at start (finish - start) archive of
       None \<Rightarrow> None
     | Some raw \<Rightarrow>
        (case (if ze_method e = 8 then inflate raw else Some raw) of
           None \<Rightarrow> None
         | Some out \<Rightarrow>
             only_if (int (length out) \<le> zp_max_file p \<and> int (length out) = ze_size e \<and> uint (crc32 out) = ze_crc e) (Some out)))"

text \<open>
  An entry written; or what is there when it fails: the directories made for it, and its output file, begun and not
  finished, when the failure comes after that was opened. Such a file holds some beginning of the output, at most the
  entry's size.
\<close>

datatype entry_result = EntryDone zip_files | EntryFailed zip_files "zip_entry option"

definition write_entry ::
  "(8 word list \<Rightarrow> 8 word list option) \<Rightarrow> zip_policy \<Rightarrow> 8 word list \<Rightarrow> zip_entry \<times> int \<times> int \<Rightarrow> zip_files \<Rightarrow> entry_result" where
  "write_entry inflate p archive r fs =
     (let e = fst r; path = ze_path e in
      if \<not> stays_inside path then EntryFailed fs None
      else case make_directories (butlast (prefixes_of path)) fs of
        (False, fs1) \<Rightarrow> EntryFailed fs1 None
      | (True, fs1) \<Rightarrow>
          if ze_directory e then
            (case make_directories [path] fs1 of (False, fs2) \<Rightarrow> EntryFailed fs2 None | (True, fs2) \<Rightarrow> EntryDone fs2)
          else if ze_compressed e = 0 \<and> (ze_size e \<noteq> 0 \<or> ze_crc e \<noteq> 0) then EntryFailed fs1 None
          else if lower_path path \<in> keys fs1 then EntryFailed fs1 None
          else (case zip_content inflate p archive r of
              None \<Rightarrow> EntryFailed fs1 (Some e)
            | Some out \<Rightarrow> EntryDone (fs1 @ [(lower_path path, path, Some out)])))"

text \<open>
  Refused before anything was written; broken off, with these directories and complete files and perhaps the begun
  output of one more entry; or all extracted.
\<close>

datatype zip_result = ZipRefused | ZipBroken zip_files "zip_entry option" | ZipExtracted zip_files

fun write_entries ::
  "(8 word list \<Rightarrow> 8 word list option) \<Rightarrow> zip_policy \<Rightarrow> 8 word list \<Rightarrow> (zip_entry \<times> int \<times> int) list \<Rightarrow> zip_files \<Rightarrow> zip_result" where
  "write_entries inflate p archive [] fs = ZipExtracted fs"
| "write_entries inflate p archive (r # rs) fs =
     (case write_entry inflate p archive r fs of
        EntryFailed fs' begun \<Rightarrow> ZipBroken fs' begun
      | EntryDone fs' \<Rightarrow> write_entries inflate p archive rs fs')"

definition extract_zip :: "(8 word list \<Rightarrow> 8 word list option) \<Rightarrow> zip_policy \<Rightarrow> 8 word list \<Rightarrow> zip_result" where
  "extract_zip inflate p archive =
     (case zip_ready p archive of
        None \<Rightarrow> ZipRefused
      | Some ready \<Rightarrow> write_entries inflate p archive ready [])"

end
