(* ===== verification/WindowsZipFacts.thy ===== *)
theory WindowsZipFacts
  imports WindowsZip "HOL-Library.Multiset"
begin

text \<open>
  Facts on the extraction of archives: the checksum by table is the bitwise one, what is written stays at safe
  names inside the destination, and an extraction that ends well has exactly the files of the directory.
\<close>

section \<open>The checksum\<close>

lemma crc_bit_alt: "crc_bit c = drop_bit 1 c XOR (if bit c 0 then 0xEDB88320 else 0)"
  by (simp add: crc_bit_def bit_0 and_one_eq odd_iff_mod_2_eq_one)

lemma crc_bit_xor: "crc_bit (x XOR y) = crc_bit x XOR crc_bit y"
  by (simp add: crc_bit_alt bit_xor_iff xor.assoc xor.left_commute xor.commute)

lemma crc_bits_xor: "(crc_bit ^^ n) (x XOR y) = (crc_bit ^^ n) x XOR (crc_bit ^^ n) y"
  by (induction n) (simp_all add: crc_bit_xor)

lemma crc_bits_high:
  assumes "take_bit n (x :: 32 word) = 0"
  shows "(crc_bit ^^ n) x = drop_bit n x"
  using assms
proof (induction n)
  case (Suc n)
  have low: "\<not> bit x i" if "i \<le> n" for i
    using Suc.prems that by (metis bit_0_eq bit_take_bit_iff bot_apply bot_bool_def less_Suc_eq_le)
  have "take_bit n x = 0"
    by (rule bit_eqI) (auto simp: bit_take_bit_iff low)
  then have "(crc_bit ^^ n) x = drop_bit n x"
    by (rule Suc.IH)
  moreover have "\<not> bit (drop_bit n x) 0"
    by (simp add: bit_drop_bit_eq low)
  ultimately show ?case
    by (simp add: crc_bit_alt[of "drop_bit n x"] drop_bit_drop_bit)
qed simp

lemma crc_low_byte:
  "unat (x AND 255 :: 32 word) < 256" "take_bit 8 (x AND NOT 255 :: 32 word) = 0"
  "(x AND NOT 255) XOR (x AND 255) = (x :: 32 word)" "drop_bit 8 (x AND NOT 255 :: 32 word) = drop_bit 8 x"
proof -
  have m: "(255 :: 32 word) = mask 8"
    by (simp add: mask_eq_exp_minus_1)
  have "unat (x AND 255) = take_bit 8 (unat x)"
    by (simp only: m take_bit_eq_mask[symmetric] unsigned_take_bit_eq)
  also have "\<dots> < 2 ^ 8"
    by (rule take_bit_nat_less_exp)
  finally show "unat (x AND 255) < 256"
    by simp
  show "take_bit 8 (x AND NOT 255) = 0"
    unfolding m by (rule bit_eqI) (simp add: bit_take_bit_iff bit_and_iff bit_not_iff bit_mask_iff)
  show "(x AND NOT 255) XOR (x AND 255) = x"
    unfolding m by (rule bit_eqI) (auto simp: bit_xor_iff bit_and_iff bit_not_iff bit_mask_iff)
  show "drop_bit 8 (x AND NOT 255) = drop_bit 8 x"
    unfolding m by (rule bit_eqI) (auto simp: bit_drop_bit_eq bit_and_iff bit_not_iff bit_mask_iff dest: bit_imp_le_length)
qed

lemma crc_byte_bitwise: "crc_byte b c = (crc_bit ^^ 8) (c XOR ucast b)"
proof -
  let ?x = "c XOR ucast b :: 32 word"
  have tab: "crc_table ! unat (?x AND 255) = (crc_bit ^^ 8) (?x AND 255)"
    using crc_low_byte(1)[of ?x] by (simp add: crc_table_def del: funpow.simps)
  have "drop_bit 8 ?x = drop_bit 8 c"
    by (rule bit_eqI) (auto simp: bit_drop_bit_eq bit_xor_iff bit_ucast_iff dest: bit_imp_le_length)
  then have "crc_byte b c = (crc_bit ^^ 8) (?x AND NOT 255) XOR (crc_bit ^^ 8) (?x AND 255)"
    by (simp only: crc_byte_def tab crc_bits_high[OF crc_low_byte(2)] crc_low_byte(4))
  then show ?thesis
    by (simp only: crc_bits_xor[symmetric] crc_low_byte(3))
qed

text \<open>The checksum one bit at a time, as the polynomial's definition has it.\<close>

definition crc32_bitwise :: "8 word list \<Rightarrow> 32 word" where
  "crc32_bitwise bs = fold (\<lambda>b c. (crc_bit ^^ 8) (c XOR ucast b)) bs 0xFFFFFFFF XOR 0xFFFFFFFF"

section \<open>What the validation establishes\<close>

lemma only_if_Some_iff [simp]: "only_if b x = Some y \<longleftrightarrow> b \<and> x = Some y"
  by (simp add: only_if_def)

definition entry_ok :: "zip_policy \<Rightarrow> zip_entry \<Rightarrow> bool" where
  "entry_ok p e \<longleftrightarrow> safe_path (ze_path e) \<and> zp_allows p (ze_path e) (ze_directory e) \<and> 0 \<le> ze_size e \<and> ze_size e \<le> zp_max_file p
     \<and> 0 \<le> ze_compressed e \<and> ze_compressed e \<le> zp_max_archive p \<and> 0 \<le> ze_offset e
     \<and> (ze_directory e \<longrightarrow> ze_size e = 0 \<and> ze_compressed e = 0)"

lemma read_le_nonneg [simp]: "0 \<le> read_le n i bs"
proof -
  have "0 \<le> foldr (\<lambda>b acc. uint b + 256 * acc) xs 0" for xs :: "8 word list"
    by (induction xs) simp_all
  then show ?thesis
    by (simp add: read_le_def)
qed

lemma central_header_ok:
  assumes "central_header p c i = Some (e, n)"
  shows "entry_ok p e"
proof -
  note h = assms[unfolded central_header_def Let_def]
  have "safe_path (ze_path e) \<and> zp_allows p (ze_path e) (ze_directory e) \<and> (ze_directory e \<longrightarrow> ze_size e = 0 \<and> ze_compressed e = 0)
      \<and> ze_size e = read_le 4 (i + 24) c \<and> ze_compressed e = read_le 4 (i + 20) c \<and> ze_offset e = read_le 4 (i + 42) c
      \<and> ze_size e \<le> zp_max_file p \<and> ze_compressed e \<le> zp_max_archive p"
    using h by (simp only: only_if_Some_iff prod.inject option.inject not_less de_Morgan_disj option.distinct if_False split: if_split_asm option.split_asm) force+
  then show ?thesis
    by (auto simp: entry_ok_def)
qed

text \<open>The fold of the bookkeeping over the entries.\<close>

fun note_all :: "zip_policy \<Rightarrow> zip_entry list \<Rightarrow> zip_seen \<Rightarrow> zip_seen option" where
  "note_all p [] s = Some s"
| "note_all p (e # es) s = (case note_entry p e s of None \<Rightarrow> None | Some s' \<Rightarrow> note_all p es s')"

lemma central_entries_noted:
  "central_entries p n c i s = Some es \<Longrightarrow> (\<exists>s'. note_all p es s = Some s') \<and> length es = n \<and> list_all (entry_ok p) es"
proof (induction n arbitrary: i s es)
  case (Suc n)
  then obtain e j s1 es1 where h: "central_header p c i = Some (e, j)" "note_entry p e s = Some s1"
      "central_entries p n c j s1 = Some es1" "es = e # es1"
    by (auto split: option.splits)
  show ?case
    using Suc.IH[OF h(3)] central_header_ok[OF h(1)] h by auto
qed auto

definition known_ok :: "(string \<times> string) list \<Rightarrow> bool" where
  "known_ok known \<longleftrightarrow> wf_map known \<and> (\<forall>(k, q) \<in> set known. k = lower_path q)"

lemma known_ok_lookup: "known_ok known \<Longrightarrow> map_of known k = Some q \<Longrightarrow> k = lower_path q"
  by (auto simp: known_ok_def dest: map_of_SomeD)

lemma known_ok_put: "known_ok known \<Longrightarrow> known_ok (put (lower_path q) q known)"
  unfolding known_ok_def by (auto simp: map_of_mem_iff split: if_splits)

lemma map_le_Some: "m \<subseteq>\<^sub>m m' \<Longrightarrow> m k = Some v \<Longrightarrow> m' k = Some v"
  by (metis domI map_le_def)

lemma note_prefixes_facts:
  "note_prefixes p qs known = Some known' \<Longrightarrow> known_ok known \<Longrightarrow>
     known_ok known' \<and> map_of known \<subseteq>\<^sub>m map_of known' \<and> (\<forall>q \<in> set qs. map_of known' (lower_path q) = Some q)
     \<and> (\<forall>k q. map_of known' k = Some q \<longrightarrow> map_of known k = Some q \<or> q \<in> set qs)
     \<and> (int (length known) \<le> zp_max_entries p \<longrightarrow> int (length known') \<le> zp_max_entries p)"
proof (induction p qs known rule: note_prefixes.induct)
  case (2 p q qs known)
  show ?case
  proof (cases "map_of known (lower_path q)")
    case None
    let ?k = "put (lower_path q) q known"
    have small: "\<not> zp_max_entries p < int (length ?k)" "note_prefixes p qs ?k = Some known'"
      using 2(3) None by (auto simp: Let_def split: if_splits)
    note IH = 2(1)[OF None refl, simplified, OF small known_ok_put[OF 2(4), of q]]
    have "map_of known' (lower_path q) = Some q"
      using IH by (auto elim: map_le_Some)
    moreover have "map_of known \<subseteq>\<^sub>m map_of known'"
      using IH None by (auto simp: map_le_def dom_def)
    moreover have "map_of known k = Some r \<or> r = q \<or> r \<in> set qs" if "map_of known' k = Some r" for k r
      using IH that by (auto split: if_splits)
    ultimately show ?thesis
      using IH by simp
  next
    case (Some prior)
    then have eq: "prior = q" "note_prefixes p qs known = Some known'"
      using 2(3) by (auto split: if_splits)
    note IH = 2(2)[OF Some, simplified, OF eq 2(4)]
    then have "map_of known' (lower_path q) = Some q"
      using Some eq(1) by (auto elim: map_le_Some)
    then show ?thesis
      using IH by auto
  qed
qed auto

lemma note_all_facts:
  "note_all p es s = Some s' \<Longrightarrow> known_ok (zs_prefixes s) \<Longrightarrow>
     known_ok (zs_prefixes s') \<and> map_of (zs_prefixes s) \<subseteq>\<^sub>m map_of (zs_prefixes s')
     \<and> (\<forall>e \<in> set es. \<forall>q \<in> set (prefixes_of (ze_path e)). map_of (zs_prefixes s') (lower_path q) = Some q)
     \<and> (\<forall>k q. map_of (zs_prefixes s') k = Some q \<longrightarrow>
           map_of (zs_prefixes s) k = Some q \<or> (\<exists>e \<in> set es. q \<in> set (prefixes_of (ze_path e))))
     \<and> (int (length (zs_prefixes s)) \<le> zp_max_entries p \<longrightarrow> int (length (zs_prefixes s')) \<le> zp_max_entries p)"
proof (induction es arbitrary: s)
  case (Cons e es)
  then obtain s1 where s1: "note_entry p e s = Some s1" "note_all p es s1 = Some s'"
    by (auto split: option.splits)
  then have n: "note_prefixes p (prefixes_of (ze_path e)) (zs_prefixes s) = Some (zs_prefixes s1)"
    by (auto simp: note_entry_def split: if_splits option.splits)
  note P = note_prefixes_facts[OF n Cons.prems(2)]
  note IH = Cons.IH[OF s1(2)] P
  have "map_of (zs_prefixes s) \<subseteq>\<^sub>m map_of (zs_prefixes s')"
    using IH by (auto intro: map_le_trans)
  moreover have "map_of (zs_prefixes s') (lower_path q) = Some q" if "q \<in> set (prefixes_of (ze_path e))" for q
    using IH that by (meson map_le_Some)
  moreover have "map_of (zs_prefixes s) k = Some q \<or> (\<exists>e \<in> set (e # es). q \<in> set (prefixes_of (ze_path e)))"
      if "map_of (zs_prefixes s') k = Some q" for k q
    using IH that by (metis list.set_intros)
  ultimately show ?case
    using IH by simp
qed auto

lemma note_all_sizes:
  "note_all p es s = Some s' \<Longrightarrow>
     zs_expanded s' = zs_expanded s + sum_list (List.map ze_size es)
     \<and> (zs_expanded s \<le> zp_max_expanded p \<longrightarrow> zs_expanded s' \<le> zp_max_expanded p)
     \<and> distinct (List.map (lower_path \<circ> ze_path) es) \<and> set (zs_paths s) \<inter> (lower_path \<circ> ze_path) ` set es = {}"
proof (induction es arbitrary: s)
  case (Cons e es)
  then obtain s1 where s1: "note_entry p e s = Some s1" "note_all p es s1 = Some s'"
    by (auto split: option.splits)
  then have "lower_path (ze_path e) \<notin> set (zs_paths s)" "zs_paths s1 = lower_path (ze_path e) # zs_paths s"
      "zs_expanded s1 = zs_expanded s + ze_size e" "zs_expanded s1 \<le> zp_max_expanded p"
    by (auto simp: note_entry_def split: if_splits option.splits)
  then show ?case
    using Cons.IH[OF s1(2)] by auto
qed auto

lemma all_some_map: "all_some f xs = Some ys \<Longrightarrow> List.map f xs = List.map Some ys"
  by (induction xs arbitrary: ys) (auto split: option.splits)

lemma local_header_facts:
  assumes "local_header archive doffset e = Some r"
  shows "fst r = e" "snd (snd r) = fst (snd r) + ze_compressed e" "ze_offset e + 30 \<le> fst (snd r)" "snd (snd r) \<le> doffset"
  using assms by (auto simp: local_header_def Let_def add_increasing2 split: if_splits option.splits)

text \<open>What is known of the entries once the archive is validated, with the spellings of all prefixes.\<close>

definition validated :: "zip_policy \<Rightarrow> int \<Rightarrow> (zip_entry \<times> int \<times> int) list \<Rightarrow> (string \<times> string) list \<Rightarrow> bool" where
  "validated p doffset ready known \<longleftrightarrow>
     list_all (entry_ok p) (List.map fst ready) \<and> known_ok known \<and> int (length known) \<le> zp_max_entries p
     \<and> (\<forall>e \<in> set (List.map fst ready). \<forall>q \<in> set (prefixes_of (ze_path e)). map_of known (lower_path q) = Some q)
     \<and> (\<forall>k q. map_of known k = Some q \<longrightarrow> (\<exists>e \<in> set (List.map fst ready). q \<in> set (prefixes_of (ze_path e))))
     \<and> distinct (List.map (lower_path \<circ> ze_path \<circ> fst) ready)
     \<and> sum_list (List.map (ze_size \<circ> fst) ready) \<le> zp_max_expanded p
     \<and> int (length (files_in (List.map fst ready))) \<le> zp_max_files p
     \<and> (\<forall>(e, start, finish) \<in> set ready. finish = start + ze_compressed e \<and> ze_offset e + 30 \<le> start \<and> finish \<le> doffset)
     \<and> no_overlaps ready"

lemma zip_ready_validated:
  assumes "zip_ready p archive = Some ready"
  shows "policy_valid p \<and> (\<exists>n known. read_end p archive = Some n \<and> validated p (zn_offset n) ready known)"
proof -
  obtain n es where p: "policy_valid p" and n: "read_end p archive = Some n" and c: "read_central p archive n = Some es"
      and l: "all_some (local_header archive (zn_offset n)) es = Some ready" and ov: "no_overlaps ready"
    using assms by (auto simp: zip_ready_def split: if_splits option.splits)
  define s0 where "s0 = \<lparr>zs_paths = [], zs_prefixes = [], zs_expanded = 0\<rparr>"
  obtain b where b: "central_entries p (nat (zn_count n)) b 0 s0 = Some es" and f: "int (length (files_in es)) \<le> zp_max_files p"
    using c by (auto simp: read_central_def s0_def split: option.splits)
  obtain s where s: "note_all p es s0 = Some s"
    using central_entries_noted[OF b] by auto
  have m: "List.map (local_header archive (zn_offset n)) es = List.map Some ready"
    using all_some_map[OF l] .
  have len: "length ready = length es"
    using arg_cong[OF m, of length] by simp
  have each: "local_header archive (zn_offset n) (es ! i) = Some (ready ! i)" if "i < length es" for i
    using arg_cong[OF m, of "\<lambda>xs. xs ! i"] that len by simp
  have es: "List.map fst ready = es"
    by (rule nth_equalityI) (use len local_header_facts(1)[OF each] in auto)
  have rng: "snd (snd r) = fst (snd r) + ze_compressed (fst r) \<and> ze_offset (fst r) + 30 \<le> fst (snd r) \<and> snd (snd r) \<le> zn_offset n"
      if "r \<in> set ready" for r
  proof -
    obtain i where "i < length es" "r = ready ! i"
      using \<open>r \<in> set ready\<close> len by (auto simp: in_set_conv_nth)
    then show ?thesis
      using local_header_facts[OF each] by auto
  qed
  have "known_ok (zs_prefixes s0)" "int (length (zs_prefixes s0)) \<le> zp_max_entries p" "zs_expanded s0 \<le> zp_max_expanded p"
    using p by (auto simp: s0_def known_ok_def policy_valid_def)
  note F = note_all_facts[OF s this(1)] note_all_sizes[OF s] this
  have maps: "List.map (f \<circ> fst) ready = List.map f es" for f :: "zip_entry \<Rightarrow> 'b"
    by (simp add: es[symmetric])
  have "validated p (zn_offset n) ready (zs_prefixes s)"
    unfolding validated_def using F central_entries_noted[OF b] f ov rng
    by (auto simp: s0_def es maps simp del: list.set_map)
  then show ?thesis
    using p n by blast
qed

section \<open>Names\<close>

lemma split_join: "ws \<noteq> [] \<Longrightarrow> (\<And>w. w \<in> set ws \<Longrightarrow> c \<notin> set w) \<Longrightarrow> split_on c (join_with c ws) = ws"
proof (induction ws)
  case (Cons w ws)
  then show ?case
    by (cases "ws = []") (simp_all add: join_with_Cons split_on_append_sep split_on_no_sep)
qed simp

lemma prefix_parts:
  assumes "q \<in> set (prefixes_of path)"
  shows "\<exists>n. path_parts q = take (Suc n) (path_parts path)"
proof -
  obtain n where n: "1 \<le> n" "n \<le> length (path_parts path)" "q = join_with CHR ''/'' (take n (path_parts path))"
    using assms by (auto simp: prefixes_of_def)
  have "CHR ''/'' \<notin> set w" if "w \<in> set (take n (path_parts path))" for w
    using that unfolding path_parts_def by (meson in_set_takeD split_on_no_sep_inside)
  moreover have "take n (path_parts path) \<noteq> []"
    using n by (cases "path_parts path") auto
  ultimately have "path_parts q = take n (path_parts path)"
    unfolding n(3) path_parts_def[of "join_with _ _"] by (intro split_join)
  then show ?thesis
    using n(1) by (cases n) auto
qed

lemma path_is_own_prefix: "path \<in> set (prefixes_of path)"
proof -
  have "path_parts path \<noteq> []"
    by (simp add: path_parts_def)
  then have "length (path_parts path) \<in> set [1 ..< Suc (length (path_parts path))]"
    by (cases "path_parts path") auto
  moreover have "join_with CHR ''/'' (path_parts path) = path"
    by (simp add: path_parts_def)
  ultimately show ?thesis
    unfolding prefixes_of_def set_map by (metis (no_types, lifting) image_eqI order_refl take_all)
qed

text \<open>A name that can be used under Windows as it is: it stands for itself, and for nothing elsewhere.\<close>

definition plain_name :: "string \<Rightarrow> bool" where
  "plain_name w \<longleftrightarrow> w \<noteq> [] \<and> w \<noteq> ''.'' \<and> w \<noteq> ''..'' \<and> CHR 0x5C \<notin> set w \<and> CHR '':'' \<notin> set w
     \<and> last w \<noteq> CHR ''.'' \<and> last w \<noteq> CHR '' '' \<and> \<not> device_name w"

lemma safe_parts_each: "safe_parts prev ws \<Longrightarrow> w \<in> set ws \<Longrightarrow> \<exists>prev. safe_part prev w"
  by (induction prev ws rule: safe_parts.induct) auto

lemma split_on_subset: "w \<in> set (split_on c xs) \<Longrightarrow> set w \<subseteq> set xs"
proof (induction xs arbitrary: w)
  case (Cons x xs)
  then show ?case
    by (cases "split_on c xs") (force split: if_splits)+
qed simp

lemma safe_path_parts_plain:
  assumes "safe_path path" "w \<in> set (path_parts path)"
  shows "plain_name w"
proof -
  obtain prev where "safe_part prev w"
    using assms by (auto simp: safe_path_def dest: safe_parts_each)
  moreover have "set w \<subseteq> set path"
    using assms(2) by (simp add: path_parts_def split_on_subset)
  ultimately show ?thesis
    using assms(1) by (auto simp: safe_part_def plain_name_def safe_path_def)
qed

lemma resolve_plain: "list_all plain_name ws \<Longrightarrow> resolve_parts acc ws = Some (rev ws @ acc)"
  by (induction ws arbitrary: acc) (auto simp: plain_name_def)

lemma safe_prefix_plain: "safe_path path \<Longrightarrow> q \<in> set (prefixes_of path) \<Longrightarrow> list_all plain_name (path_parts q)"
  using prefix_parts[of q path] safe_path_parts_plain[of path] by (auto simp: list_all_iff dest!: in_set_takeD)

lemma safe_path_stays_inside: "safe_path path \<Longrightarrow> stays_inside path"
  using safe_prefix_plain[OF _ path_is_own_prefix, of path]
  by (auto simp: stays_inside_def resolve_plain path_parts_def)

section \<open>Writing\<close>

text \<open>The directories and the complete files an extraction leaves.\<close>

definition zip_written :: "zip_result \<Rightarrow> zip_files" where
  "zip_written r = (case r of ZipRefused \<Rightarrow> [] | ZipBroken fs begun \<Rightarrow> fs | ZipExtracted fs \<Rightarrow> fs)"

definition zip_begun :: "zip_result \<Rightarrow> zip_entry list" where
  "zip_begun r = (case r of ZipBroken fs (Some e) \<Rightarrow> [e] | _ \<Rightarrow> [])"

text \<open>
  Everything that exists in the destination, in the order it was made: the name in lower case, the name as written,
  and whether it is a file. An extraction stopped from outside leaves a beginning of such a list.
\<close>

definition zip_made :: "zip_result \<Rightarrow> (string \<times> string \<times> bool) list" where
  "zip_made r = List.map (\<lambda>(k, q, c). (k, q, c \<noteq> None)) (zip_written r)
     @ List.map (\<lambda>e. (lower_path (ze_path e), ze_path e, True)) (zip_begun r)"

lemma zip_written_simps [simp]:
  "zip_written ZipRefused = []" "zip_written (ZipBroken fs begun) = fs" "zip_written (ZipExtracted fs) = fs"
  by (simp_all add: zip_written_def)

lemma zip_begun_simps [simp]:
  "zip_begun ZipRefused = []" "zip_begun (ZipBroken fs None) = []" "zip_begun (ZipBroken fs (Some e)) = [e]"
  "zip_begun (ZipExtracted fs) = []"
  by (simp_all add: zip_begun_def)

fun written_files :: "zip_files \<Rightarrow> (string \<times> 8 word list) list" where
  "written_files [] = []"
| "written_files ((k, q, None) # fs) = written_files fs"
| "written_files ((k, q, Some bs) # fs) = (q, bs) # written_files fs"

lemma written_files_append [simp]: "written_files (xs @ ys) = written_files xs @ written_files ys"
  by (induction xs rule: written_files.induct) simp_all

lemma written_files_mem: "(q, bs) \<in> set (written_files fs) \<longleftrightarrow> (\<exists>k. (k, q, Some bs) \<in> set fs)"
  by (induction fs rule: written_files.induct) auto

definition files_ok :: "(string \<times> string) list \<Rightarrow> zip_files \<Rightarrow> bool" where
  "files_ok known fs \<longleftrightarrow> wf_map fs \<and> (\<forall>(k, q, c) \<in> set fs. map_of known k = Some q)"

lemma files_ok_Nil [simp]: "files_ok known []"
  by (simp add: files_ok_def)

lemma files_ok_new:
  "files_ok known fs \<Longrightarrow> map_of known k = Some q \<Longrightarrow> k \<notin> keys fs \<Longrightarrow> files_ok known (fs @ [(k, q, c)])"
  using wf_map_put[of fs k "(q, c)"] by (auto simp: files_ok_def put_fresh)

lemma make_directories_facts:
  "files_ok known fs \<Longrightarrow> (\<forall>q \<in> set qs. map_of known (lower_path q) = Some q) \<Longrightarrow>
     files_ok known (snd (make_directories qs fs)) \<and> written_files (snd (make_directories qs fs)) = written_files fs"
proof (induction qs fs rule: make_directories.induct)
  case (2 q qs fs)
  show ?case
  proof (cases "map_of fs (lower_path q)")
    case None
    then show ?thesis
      using 2(1)[OF None] 2(3-) files_ok_new[of known fs "lower_path q" q None] by (simp add: map_of_None_iff[symmetric])
  next
    case (Some v)
    then show ?thesis
      using 2 by (cases v) (auto split: option.splits)
  qed
qed simp

text \<open>What one entry leaves, whether or not it succeeds.\<close>

definition entry_left :: "entry_result \<Rightarrow> zip_files" where
  "entry_left x = (case x of EntryDone fs \<Rightarrow> fs | EntryFailed fs begun \<Rightarrow> fs)"

lemma entry_left_simps [simp]: "entry_left (EntryDone fs) = fs" "entry_left (EntryFailed fs begun) = fs"
  by (simp_all add: entry_left_def)

lemma write_entry_facts:
  fixes inflate p archive r fs
  assumes ok: "files_ok known fs"
    and k: "\<forall>q \<in> set (prefixes_of (ze_path (fst r))). map_of known (lower_path q) = Some q"
  defines "x \<equiv> write_entry inflate p archive r fs"
  shows "files_ok known (entry_left x)
     \<and> (\<forall>fs' begun. x = EntryFailed fs' begun \<longrightarrow> written_files fs' = written_files fs
          \<and> (\<forall>e. begun = Some e \<longrightarrow> e = fst r \<and> \<not> ze_directory e \<and> lower_path (ze_path e) \<notin> keys fs'))
     \<and> (\<forall>fs'. x = EntryDone fs' \<longrightarrow> (if ze_directory (fst r) then written_files fs' = written_files fs
          else \<exists>out. zip_content inflate p archive r = Some out \<and> written_files fs' = written_files fs @ [(ze_path (fst r), out)]))"
proof -
  obtain b fs1 where m: "make_directories (butlast (prefixes_of (ze_path (fst r)))) fs = (b, fs1)"
    by fastforce
  have fs1: "files_ok known fs1" "written_files fs1 = written_files fs"
    using make_directories_facts[OF ok, of "butlast (prefixes_of (ze_path (fst r)))"] k m by (auto dest: in_set_butlastD)
  have own: "map_of known (lower_path (ze_path (fst r))) = Some (ze_path (fst r))"
    using k path_is_own_prefix by auto
  obtain c fs2 where d: "make_directories [ze_path (fst r)] fs1 = (c, fs2)"
    by fastforce
  have fs2: "files_ok known fs2" "written_files fs2 = written_files fs"
    using make_directories_facts[OF fs1(1), of "[ze_path (fst r)]"] own d fs1 by auto
  show ?thesis
    using ok fs1 fs2 files_ok_new[OF fs1(1) own]
    by (auto simp: x_def write_entry_def Let_def m d simp del: make_directories.simps split: if_splits option.splits bool.splits)
qed

lemma write_entries_facts:
  "files_ok known fs \<Longrightarrow> (\<forall>r \<in> set rs. \<forall>q \<in> set (prefixes_of (ze_path (fst r))). map_of known (lower_path q) = Some q) \<Longrightarrow>
     files_ok known (zip_written (write_entries inflate p archive rs fs))
     \<and> (\<exists>n. (\<forall>fs'. write_entries inflate p archive rs fs = ZipExtracted fs' \<longrightarrow> n = length rs)
         \<and> (\<forall>r \<in> set (take n rs). \<not> ze_directory (fst r) \<longrightarrow> zip_content inflate p archive r \<noteq> None)
         \<and> written_files (zip_written (write_entries inflate p archive rs fs))
             = written_files fs @ List.map (\<lambda>r. (ze_path (fst r), the (zip_content inflate p archive r)))
                 (filter (\<lambda>r. \<not> ze_directory (fst r)) (take n rs))
         \<and> (\<forall>e. zip_begun (write_entries inflate p archive rs fs) = [e] \<longrightarrow> n < length rs \<and> e = fst (rs ! n) \<and> \<not> ze_directory e
              \<and> lower_path (ze_path e) \<notin> keys (zip_written (write_entries inflate p archive rs fs))))"
proof (induction rs arbitrary: fs)
  case (Cons r rs)
  note W = write_entry_facts[OF Cons.prems(1), of r inflate p archive]
  show ?case
  proof (cases "write_entry inflate p archive r fs")
    case (EntryFailed fs1 begun)
    then show ?thesis
      using W Cons.prems(2) by (cases begun) (auto intro!: exI[of _ 0])
  next
    case (EntryDone fs1)
    then have ok: "files_ok known fs1"
      using W Cons.prems(2) by simp
    let ?x = "write_entries inflate p archive rs fs1"
    obtain n where n: "\<forall>fs'. ?x = ZipExtracted fs' \<longrightarrow> n = length rs"
        "\<forall>r \<in> set (take n rs). \<not> ze_directory (fst r) \<longrightarrow> zip_content inflate p archive r \<noteq> None"
        "written_files (zip_written ?x)
             = written_files fs1 @ List.map (\<lambda>r. (ze_path (fst r), the (zip_content inflate p archive r)))
                 (filter (\<lambda>r. \<not> ze_directory (fst r)) (take n rs))"
        "\<forall>e. zip_begun ?x = [e] \<longrightarrow> n < length rs \<and> e = fst (rs ! n) \<and> \<not> ze_directory e
              \<and> lower_path (ze_path e) \<notin> keys (zip_written ?x)"
        "files_ok known (zip_written ?x)"
      using Cons.IH[OF ok] Cons.prems(2) by auto
    then show ?thesis
      using W EntryDone Cons.prems(2) by (intro conjI exI[of _ "Suc n"]) (auto split: if_splits)
  qed
qed (auto intro!: exI[of _ 0])

text \<open>What an extraction leaves, whichever way it ends.\<close>

lemma extract_zip_facts:
  "extract_zip inflate p archive = ZipRefused \<or>
     (\<exists>doffset ready known n. zip_ready p archive = Some ready \<and> policy_valid p \<and> validated p doffset ready known
        \<and> files_ok known (zip_written (extract_zip inflate p archive))
        \<and> (\<forall>fs. extract_zip inflate p archive = ZipExtracted fs \<longrightarrow> n = length ready)
        \<and> (\<forall>r \<in> set (take n ready). \<not> ze_directory (fst r) \<longrightarrow> zip_content inflate p archive r \<noteq> None)
        \<and> written_files (zip_written (extract_zip inflate p archive))
            = List.map (\<lambda>r. (ze_path (fst r), the (zip_content inflate p archive r)))
                (filter (\<lambda>r. \<not> ze_directory (fst r)) (take n ready))
        \<and> (\<forall>e. zip_begun (extract_zip inflate p archive) = [e] \<longrightarrow> n < length ready \<and> e = fst (ready ! n) \<and> \<not> ze_directory e
              \<and> lower_path (ze_path e) \<notin> keys (zip_written (extract_zip inflate p archive))))"
proof (cases "zip_ready p archive")
  case None
  then show ?thesis
    by (simp add: extract_zip_def)
next
  case (Some ready)
  then obtain e :: zip_end and known where v: "policy_valid p" "validated p (zn_offset e) ready known"
    using zip_ready_validated[OF Some] by blast
  then have "\<forall>r \<in> set ready. \<forall>q \<in> set (prefixes_of (ze_path (fst r))). map_of known (lower_path q) = Some q"
    by (simp add: validated_def)
  note W = write_entries_facts[OF files_ok_Nil this, of inflate p archive]
  have "extract_zip inflate p archive = write_entries inflate p archive ready []"
    using Some by (simp add: extract_zip_def)
  then show ?thesis
    using W v Some by (intro disjI2 exI[of _ "zn_offset e"] exI[of _ ready] exI[of _ known]) auto
qed

text \<open>The names of everything made are among those the directory was checked with.\<close>

definition made_ok :: "(string \<times> string) list \<Rightarrow> (string \<times> string \<times> bool) list \<Rightarrow> bool" where
  "made_ok known ms \<longleftrightarrow> distinct (List.map fst ms) \<and> (\<forall>(k, q, f) \<in> set ms. map_of known k = Some q)"

lemma zip_made_ok:
  assumes v: "validated p doffset ready known" and f: "files_ok known (zip_written x)"
    and b: "\<And>e. zip_begun x = [e] \<Longrightarrow> e \<in> set (List.map fst ready) \<and> lower_path (ze_path e) \<notin> keys (zip_written x)"
  shows "made_ok known (zip_made x)"
proof -
  have w: "distinct (List.map fst (zip_written x))" "\<forall>(k, q, c) \<in> set (zip_written x). map_of known k = Some q"
    using f by (simp_all add: files_ok_def wf_map_def)
  have m: "List.map fst (List.map (\<lambda>(k, q, c). (k, q, c \<noteq> None)) (zip_written x)) = List.map fst (zip_written x)"
    by (simp add: comp_def case_prod_beta)
  show ?thesis
  proof (cases "zip_begun x")
    case Nil
    then show ?thesis
      using w by (auto simp: made_ok_def zip_made_def m simp del: List.map_map not_None_eq)
  next
    case (Cons e es)
    then have one: "zip_begun x = [e]"
      by (auto simp: zip_begun_def split: zip_result.splits option.splits)
    have "map_of known (lower_path (ze_path e)) = Some (ze_path e)"
      using b[OF one] v path_is_own_prefix[of "ze_path e"] by (auto simp: validated_def)
    then show ?thesis
      using w b[OF one] one by (auto simp: made_ok_def zip_made_def m keys_def simp del: List.map_map not_None_eq)
  qed
qed

lemma zip_content_facts:
  assumes "zip_content inflate p archive r = Some out"
  shows "int (length out) = ze_size (fst r)" "uint (crc32 out) = ze_crc (fst r)"
  using assms by (auto simp: zip_content_def crc32_def split: if_splits option.splits prod.splits)

section \<open>A sample\<close>

text \<open>An archive of a directory and a file of one byte in it.\<close>

definition sample_zip :: "8 word list" where
  "sample_zip =
    [80, 75, 3, 4, 20, 0, 0, 0, 0, 0, 0, 0, 0, 0, 0, 0, 0, 0, 0, 0, 0, 0, 0, 0, 0, 0, 2, 0, 0, 0, 100, 47, 80, 75,
     3, 4, 20, 0, 0, 0, 0, 0, 0, 0, 0, 0, 131, 22, 220, 140, 1, 0, 0, 0, 1, 0, 0, 0, 3, 0, 0, 0, 100, 47, 97, 120,
     80, 75, 1, 2, 20, 0, 20, 0, 0, 0, 0, 0, 0, 0, 0, 0, 0, 0, 0, 0, 0, 0, 0, 0, 0, 0, 0, 0, 2, 0, 0, 0, 0, 0, 0,
     0, 0, 0, 0, 0, 0, 0, 0, 0, 0, 0, 100, 47, 80, 75, 1, 2, 20, 0, 20, 0, 0, 0, 0, 0, 0, 0, 0, 0, 131, 22, 220,
     140, 1, 0, 0, 0, 1, 0, 0, 0, 3, 0, 0, 0, 0, 0, 0, 0, 0, 0, 0, 0, 0, 0, 32, 0, 0, 0, 100, 47, 97, 80, 75, 5, 6,
     0, 0, 0, 0, 2, 0, 2, 0, 97, 0, 0, 0, 66, 0, 0, 0, 0, 0]"

definition sample_zip_policy :: zip_policy where
  "sample_zip_policy = \<lparr>zp_max_archive = 1000, zp_max_expanded = 1000, zp_max_file = 10, zp_max_entries = 5, zp_max_files = 2,
     zp_max_depth = 2, zp_allows = (\<lambda>path dir. hd path = CHR ''d'')\<rparr>"

lemma sample_crc: "uint (crc32 [120]) = 2363233923"
proof -
  have "crc32 [120] = (crc_bit ^^ 8) (0xFFFFFFFF XOR ucast (120 :: 8 word)) XOR 0xFFFFFFFF"
    by (simp add: crc32_def crc_byte_bitwise)
  also have "\<dots> = 2363233923" by code_simp
  finally show ?thesis by simp
qed
definition sample_dir_entry :: zip_entry where
  "sample_dir_entry = \<lparr>ze_path = ''d'', ze_size = 0, ze_compressed = 0, ze_crc = 0, ze_method = 0, ze_flags = 0, ze_offset = 0,
     ze_directory = True\<rparr>"

definition sample_file_entry :: zip_entry where
  "sample_file_entry = \<lparr>ze_path = ''d/a'', ze_size = 1, ze_compressed = 1, ze_crc = 2363233923, ze_method = 0, ze_flags = 0,
     ze_offset = 32, ze_directory = False\<rparr>"

lemma sample_ready:
  "zip_ready sample_zip_policy sample_zip = Some [(sample_dir_entry, 32, 32), (sample_file_entry, 65, 66)]"
  by code_simp

lemma sample_content: "zip_content inflate sample_zip_policy sample_zip (sample_file_entry, 65, 66) = Some [120]"
proof -
  have "read_at 65 1 sample_zip = Some [120]" "zp_max_file sample_zip_policy = 10"
    by code_simp+
  then show ?thesis
    by (simp add: zip_content_def sample_crc sample_file_entry_def)
qed

lemma sample_extracted:
  "extract_zip inflate sample_zip_policy sample_zip = ZipExtracted [(''d'', ''d'', None), (''d/a'', ''d/a'', Some [120])]"
proof -
  have "stays_inside ''d''" "stays_inside ''d/a''" "prefixes_of ''d'' = [''d'']" "prefixes_of ''d/a'' = [''d'', ''d/a'']"
      "lower_path ''d'' = ''d''" "lower_path ''d/a'' = ''d/a''"
    by code_simp+
  moreover have "ze_path sample_dir_entry = ''d''" "ze_path sample_file_entry = ''d/a''" "ze_directory sample_dir_entry"
      "\<not> ze_directory sample_file_entry" "ze_compressed sample_file_entry = 1"
    by (simp_all add: sample_dir_entry_def sample_file_entry_def)
  ultimately show ?thesis
    by (simp add: extract_zip_def sample_ready write_entry_def sample_content Let_def)
qed

lemma made_ok_length: "made_ok known ms \<Longrightarrow> known_ok known \<Longrightarrow> length ms \<le> length known"
proof -
  assume f: "made_ok known ms" and k: "known_ok known"
  have "distinct (List.map fst ms)" "distinct (List.map fst known)"
    using f k by (simp_all add: made_ok_def known_ok_def wf_map_def)
  moreover have "fst ` set ms \<subseteq> fst ` set known"
    using f by (force simp: made_ok_def dest: map_of_SomeD)
  ultimately show ?thesis
    by (metis card_mono distinct_card finite_imageI length_map list.set_map List.finite_set)
qed

lemma sum_filter_take_le:
  "(\<And>x. x \<in> set xs \<Longrightarrow> 0 \<le> f x) \<Longrightarrow> sum_list (List.map f (filter P (take n xs))) \<le> (sum_list (List.map f xs) :: int)"
proof (induction xs arbitrary: n)
  case (Cons x xs)
  have "0 \<le> sum_list (List.map f xs)"
    using Cons.prems by (intro sum_list_nonneg) auto
  then show ?case
    using Cons.IH[of "n - 1"] Cons.prems[of x] Cons.prems by (cases n) (auto intro: add_increasing)
qed simp

lemma sum_filter_take_next:
  assumes "\<And>x. x \<in> set xs \<Longrightarrow> 0 \<le> f x" and "n < length xs"
  shows "sum_list (List.map f (filter P (take n xs))) + f (xs ! n) \<le> (sum_list (List.map f xs) :: int)"
proof -
  have "xs = take n xs @ xs ! n # drop (Suc n) xs"
    using assms(2) by (rule id_take_nth_drop)
  then have "sum_list (List.map f xs) = sum_list (List.map f (take n xs)) + f (xs ! n) + sum_list (List.map f (drop (Suc n) xs))"
    by (metis (no_types) list.simps(9) map_append sum_list.Cons sum_list_append add.assoc)
  moreover have "0 \<le> sum_list (List.map f (drop (Suc n) xs))"
    using assms(1) by (intro sum_list_nonneg) (auto dest: in_set_dropD)
  moreover have "sum_list (List.map f (filter P (take n xs))) \<le> sum_list (List.map f (take n xs))"
    using sum_filter_take_le[of "take n xs" f P n] assms(1) by (auto dest: in_set_takeD)
  ultimately show ?thesis
    by linarith
qed

lemma length_filter_take: "length (filter P (take n xs)) \<le> length (filter P xs)"
  by (metis append_take_drop_id filter_append length_append le_add1)

lemma apart_pairwise:
  "apart xs \<Longrightarrow> (\<And>a. a \<in> set xs \<Longrightarrow> fst a \<le> snd a) \<Longrightarrow> sorted_wrt (\<lambda>a b. snd a \<le> fst b \<or> snd b \<le> fst a) xs"
proof -
  assume a: "apart xs" and le: "\<And>a. a \<in> set xs \<Longrightarrow> fst a \<le> snd a"
  have "sorted_wrt (\<lambda>a b. snd a \<le> fst b) xs"
    using a le
  proof (induction xs rule: apart.induct)
    case (1 a b rest)
    then have "sorted_wrt (\<lambda>a b. snd a \<le> fst b) (b # rest)" "snd a \<le> fst b" "fst b \<le> snd b"
      by simp_all
    then show ?case
      by fastforce
  qed auto
  then show ?thesis
    by (rule sorted_wrt_mono_rel[rotated]) auto
qed

text \<open>A symmetric relation between any two of a list does not depend on its order.\<close>

lemma sorted_wrt_perm:
  "sorted_wrt R (sort_key f ys) \<Longrightarrow> (\<And>a b. R a b \<Longrightarrow> R b a) \<Longrightarrow> sorted_wrt R ys"
proof -
  assume s: "sorted_wrt R (sort_key f ys)" and sym: "\<And>a b. R a b \<Longrightarrow> R b a"
  have "sorted_wrt R xs \<Longrightarrow> mset xs = mset ys \<Longrightarrow> sorted_wrt R ys" for xs ys
  proof (induction xs arbitrary: ys)
    case (Cons x xs)
    then have "x \<in> set ys"
      by (metis list.set_intros(1) set_mset_mset)
    then obtain us vs where ys: "ys = us @ x # vs"
      by (auto dest: split_list)
    then have m: "mset xs = mset (us @ vs)"
      using Cons.prems(2) by simp
    then have "set xs = set (us @ vs)"
      by (metis set_mset_mset)
    then have "\<forall>y \<in> set (us @ vs). R x y \<and> R y x" "sorted_wrt R (us @ vs)"
      using Cons.IH[OF _ m] Cons.prems(1) by (simp_all add: sym)
    then show ?case
      unfolding ys sorted_wrt_append by simp
  qed simp
  then show ?thesis
    using s by (metis mset_sort)
qed

section \<open>The claims\<close>

text \<open>
  C33. whatever the archive holds and however the extraction ends, every directory and file it made - those of an
  entry that failed and a file that was begun and not finished among them - is a prefix of an entry whose path is
  safe and which the caller's policy allows; its parts are plain names, none of them a step up, a device or a drive;
  it resolves to itself inside the destination; a file's own path is one the policy allows for a file; and no two
  names made are the same where upper and lower case are.
\<close>

theorem extracted_paths_are_safe:
  assumes "(k, q, is_file) \<in> set (zip_made (extract_zip inflate p archive))"
  shows "k = lower_path q
     \<and> list_all (\<lambda>w. w \<noteq> [] \<and> w \<noteq> ''.'' \<and> w \<noteq> ''..'' \<and> CHR 0x5C \<notin> set w \<and> CHR '':'' \<notin> set w \<and> \<not> device_name w) (path_parts q)
     \<and> resolve_parts [] (path_parts q) = Some (rev (path_parts q))
     \<and> (\<exists>full dir. safe_path full \<and> zp_allows p full dir \<and> q \<in> set (prefixes_of full))
     \<and> (is_file \<longrightarrow> safe_path q \<and> zp_allows p q False)
     \<and> distinct (List.map fst (zip_made (extract_zip inflate p archive)))"
proof -
  let ?x = "extract_zip inflate p archive"
  have ne: "?x \<noteq> ZipRefused"
    using assms by (auto simp: zip_made_def)
  obtain doffset ready known n where v: "validated p doffset ready known"
      and fs: "files_ok known (zip_written ?x)"
      and w: "written_files (zip_written ?x)
            = List.map (\<lambda>r. (ze_path (fst r), the (zip_content inflate p archive r))) (filter (\<lambda>r. \<not> ze_directory (fst r)) (take n ready))"
      and b: "\<And>e. zip_begun ?x = [e] \<Longrightarrow> n < length ready \<and> e = fst (ready ! n) \<and> \<not> ze_directory e
              \<and> lower_path (ze_path e) \<notin> keys (zip_written ?x)"
    using extract_zip_facts[of inflate p archive] ne by auto
  have made: "made_ok known (zip_made ?x)"
    using b by (intro zip_made_ok[OF v fs]) fastforce
  have k: "map_of known k = Some q"
    using assms made by (auto simp: made_ok_def)
  obtain e where e: "entry_ok p e" "q \<in> set (prefixes_of (ze_path e))"
    using k v unfolding validated_def list_all_iff by metis
  then have plain: "list_all plain_name (path_parts q)"
    by (auto simp: entry_ok_def intro: safe_prefix_plain)
  have own: "safe_path q \<and> zp_allows p q False" if is_file
  proof -
    have "\<exists>r \<in> set ready. \<not> ze_directory (fst r) \<and> q = ze_path (fst r)"
    proof (cases "\<exists>bs. (k, q, Some bs) \<in> set (zip_written ?x)")
      case True
      then have "\<exists>bs. (q, bs) \<in> set (written_files (zip_written ?x))"
        by (auto simp: written_files_mem)
      then show ?thesis
        using w by (auto dest: in_set_takeD)
    next
      case False
      then have "\<exists>e \<in> set (zip_begun ?x). q = ze_path e"
        using assms that by (auto simp: zip_made_def)
      then show ?thesis
        using b by (force simp: zip_begun_def split: zip_result.splits option.splits)
    qed
    then show ?thesis
      using v by (auto simp: validated_def list_all_iff entry_ok_def)
  qed
  have "k = lower_path q"
    using v k by (auto simp: validated_def dest: known_ok_lookup)
  moreover have "list_all (\<lambda>w. w \<noteq> [] \<and> w \<noteq> ''.'' \<and> w \<noteq> ''..'' \<and> CHR 0x5C \<notin> set w \<and> CHR '':'' \<notin> set w \<and> \<not> device_name w) (path_parts q)"
    using plain by (auto simp: list_all_iff plain_name_def)
  moreover have "\<exists>full dir. safe_path full \<and> zp_allows p full dir \<and> q \<in> set (prefixes_of full)"
    using e by (auto simp: entry_ok_def)
  ultimately show ?thesis
    using resolve_plain[OF plain] own made by (auto simp: made_ok_def)
qed

theorem extracted_paths_are_safe_witness:
  "resolve_parts [] (path_parts ''d/a'') = Some (rev (path_parts ''d/a'')) \<and> safe_path ''d/a'' \<and> zp_allows sample_zip_policy ''d/a'' False"
  using extracted_paths_are_safe[of "''d/a''" "''d/a''" True "\<lambda>_. None" sample_zip_policy sample_zip]
  by (simp add: sample_extracted zip_made_def)

text \<open>
  C34. an extraction that ends well has written exactly the files of the central directory, in its order, each
  from its own bytes of the archive, and each has the size and the checksum the directory gives.
\<close>

theorem extracted_zip_is_verified:
  assumes "extract_zip inflate p archive = ZipExtracted fs"
  shows "\<exists>ready. zip_ready p archive = Some ready \<and> length (written_files fs) = length (files_in (List.map fst ready))
     \<and> list_all2 (\<lambda>r (q, out). q = ze_path (fst r) \<and> zip_content inflate p archive r = Some out
           \<and> int (length out) = ze_size (fst r) \<and> uint (crc32 out) = ze_crc (fst r))
         (filter (\<lambda>r. \<not> ze_directory (fst r)) ready) (written_files fs)"
proof -
  obtain ready where z: "zip_ready p archive = Some ready"
      and all: "\<forall>r \<in> set ready. \<not> ze_directory (fst r) \<longrightarrow> zip_content inflate p archive r \<noteq> None"
      and w: "written_files fs = List.map (\<lambda>r. (ze_path (fst r), the (zip_content inflate p archive r))) (filter (\<lambda>r. \<not> ze_directory (fst r)) ready)"
    using extract_zip_facts[of inflate p archive] assms by auto
  have "length (written_files fs) = length (files_in (List.map fst ready))"
    by (simp add: w files_in_def filter_map o_def)
  moreover have "list_all2 (\<lambda>r (q, out). q = ze_path (fst r) \<and> zip_content inflate p archive r = Some out
           \<and> int (length out) = ze_size (fst r) \<and> uint (crc32 out) = ze_crc (fst r))
         (filter (\<lambda>r. \<not> ze_directory (fst r)) ready) (written_files fs)"
    unfolding w list_all2_map2 using all by (auto simp: list_all2_same zip_content_facts)
  ultimately show ?thesis
    using z by blast
qed

theorem extracted_zip_is_verified_witness:
  "\<exists>ready. zip_ready sample_zip_policy sample_zip = Some ready
     \<and> length (written_files [(''d'', ''d'', None), (''d/a'', ''d/a'', Some [120])]) = length (files_in (List.map fst ready))"
  using extracted_zip_is_verified[OF sample_extracted] by blast

text \<open>
  the destination is bounded however the extraction ends: every file and directory has a name of its own, also
  where upper and lower case are the same, and there are no more of them, a begun file included, than the policy and
  the built-in limits allow; nor more complete files, a larger one, or more bytes in them, together with the size of
  the begun one.
\<close>

theorem extraction_is_bounded:
  fixes inflate p archive
  defines "x \<equiv> extract_zip inflate p archive"
  defines "fs \<equiv> zip_written x"
  shows "distinct (List.map fst (zip_made x)) \<and> length (zip_made x) \<le> 20000 \<and> length (written_files fs) \<le> 16384
     \<and> list_all (\<lambda>(q, out). int (length out) \<le> 268435456) (written_files fs)
     \<and> sum_list (List.map (int \<circ> length \<circ> snd) (written_files fs)) + sum_list (List.map ze_size (zip_begun x)) \<le> 805306368
     \<and> (x = ZipRefused \<or> int (length (zip_made x)) \<le> zp_max_entries p \<and> int (length (written_files fs)) \<le> zp_max_files p
         \<and> list_all (\<lambda>(q, out). int (length out) \<le> zp_max_file p) (written_files fs)
         \<and> sum_list (List.map (int \<circ> length \<circ> snd) (written_files fs)) + sum_list (List.map ze_size (zip_begun x)) \<le> zp_max_expanded p)"
proof (cases "x = ZipRefused")
  case True
  then show ?thesis
    by (simp add: fs_def zip_made_def)
next
  case False
  then obtain doffset ready known n where v: "validated p doffset ready known" and p: "policy_valid p"
      and f: "files_ok known fs"
      and c: "\<forall>r \<in> set (take n ready). \<not> ze_directory (fst r) \<longrightarrow> zip_content inflate p archive r \<noteq> None"
      and w: "written_files fs
            = List.map (\<lambda>r. (ze_path (fst r), the (zip_content inflate p archive r))) (filter (\<lambda>r. \<not> ze_directory (fst r)) (take n ready))"
      and b: "\<And>e. zip_begun x = [e] \<Longrightarrow> n < length ready \<and> e = fst (ready ! n) \<and> \<not> ze_directory e
              \<and> lower_path (ze_path e) \<notin> keys fs"
    using extract_zip_facts[of inflate p archive] unfolding fs_def x_def by auto
  let ?rs = "filter (\<lambda>r. \<not> ze_directory (fst r)) (take n ready)"
  have size: "int (length (the (zip_content inflate p archive r))) = ze_size (fst r)" if "r \<in> set ?rs" for r
    using c that zip_content_facts(1)[of inflate p archive r] by auto
  have ok: "0 \<le> ze_size (fst r) \<and> ze_size (fst r) \<le> zp_max_file p" if "r \<in> set ready" for r
    using v that by (auto simp: validated_def list_all_iff entry_ok_def)
  have made: "made_ok known (zip_made x)"
    using b f[unfolded fs_def] by (intro zip_made_ok[OF v]) (fastforce simp: fs_def)+
  have nodes: "int (length (zip_made x)) \<le> zp_max_entries p"
    using made_ok_length[OF made] v by (auto simp: validated_def)
  have "length (written_files fs) \<le> length (files_in (List.map fst ready))"
    using length_filter_take[of "\<lambda>r. \<not> ze_directory (fst r)" n ready] by (simp add: w files_in_def filter_map o_def)
  then have files: "int (length (written_files fs)) \<le> zp_max_files p"
    using v by (auto simp: validated_def)
  have each: "list_all (\<lambda>(q, out). int (length out) \<le> zp_max_file p) (written_files fs)"
    unfolding w using size ok by (auto simp: list_all_iff dest: in_set_takeD)
  have sizes: "List.map (int \<circ> length \<circ> snd) (written_files fs) = List.map (ze_size \<circ> fst) ?rs"
    unfolding w using size by simp
  have begun: "zip_begun x = [] \<or> n < length ready \<and> zip_begun x = [fst (ready ! n)]"
    using b by (force simp: zip_begun_def split: zip_result.splits option.splits)
  have "sum_list (List.map (int \<circ> length \<circ> snd) (written_files fs)) + sum_list (List.map ze_size (zip_begun x))
      \<le> sum_list (List.map (ze_size \<circ> fst) ready)"
    unfolding sizes using begun sum_filter_take_next[of ready "ze_size \<circ> fst"] sum_filter_take_le[of ready "ze_size \<circ> fst"] ok by auto
  then have total: "sum_list (List.map (int \<circ> length \<circ> snd) (written_files fs)) + sum_list (List.map ze_size (zip_begun x)) \<le> zp_max_expanded p"
    using v by (auto simp: validated_def)
  moreover have "zp_max_entries p \<le> 20000" "zp_max_files p \<le> 16384" "zp_max_file p \<le> 268435456" "zp_max_expanded p \<le> 805306368"
    using p by (simp_all add: policy_valid_def)
  moreover from this have "list_all (\<lambda>(q, out). int (length out) \<le> 268435456) (written_files fs)"
    using each by (auto simp: list_all_iff)
  moreover have "distinct (List.map fst (zip_made x))"
    using made by (simp add: made_ok_def)
  ultimately show ?thesis
    using nodes files each by (intro conjI disjI2) linarith+
qed

text \<open>
  in a validated archive no byte serves two entries: for any two of them, the local header and the data of one end
  before the header of the other begins, and all end before the central directory.
\<close>

theorem entries_share_no_bytes:
  assumes "zip_ready p archive = Some ready" "i < j" "j < length ready"
  shows "(snd (snd (ready ! i)) \<le> ze_offset (fst (ready ! j)) \<or> snd (snd (ready ! j)) \<le> ze_offset (fst (ready ! i)))
     \<and> ze_offset (fst (ready ! i)) + 30 \<le> fst (snd (ready ! i))
     \<and> snd (snd (ready ! i)) - fst (snd (ready ! i)) = ze_compressed (fst (ready ! i))"
proof -
  obtain e known where v: "validated p e ready known"
    using zip_ready_validated[OF assms(1)] by blast
  define R where "R = (\<lambda>a b :: int \<times> int. snd a \<le> fst b \<or> snd b \<le> fst a)"
  let ?f = "\<lambda>(e, start, finish). (ze_offset e, finish)"
  have span: "ze_offset (fst r) + 30 \<le> fst (snd r) \<and> snd (snd r) = fst (snd r) + ze_compressed (fst r) \<and> 0 \<le> ze_compressed (fst r)"
      if "r \<in> set ready" for r
    using v that by (cases r) (auto simp: validated_def list_all_iff entry_ok_def)
  have "apart (sort_key fst (List.map ?f ready))"
    using v by (simp add: validated_def no_overlaps_def)
  moreover have "fst a \<le> snd a" if "a \<in> set (sort_key fst (List.map ?f ready))" for a
    using that span by force
  ultimately have "sorted_wrt R (sort_key fst (List.map ?f ready))"
    unfolding R_def by (rule apart_pairwise)
  then have "sorted_wrt R (List.map ?f ready)"
    by (rule sorted_wrt_perm) (auto simp: R_def)
  then have "R (?f (ready ! i)) (?f (ready ! j))"
    using assms(2,3) by (simp add: sorted_wrt_iff_nth_less)
  moreover have "ready ! i \<in> set ready"
    using assms by simp
  ultimately show ?thesis
    using span[of "ready ! i"] by (auto simp: R_def split: prod.splits)
qed

theorem entries_share_no_bytes_witness:
  "snd (snd ((sample_dir_entry, 32, 32))) \<le> ze_offset sample_file_entry \<or> (66 :: int) \<le> ze_offset sample_dir_entry"
  using entries_share_no_bytes[OF sample_ready, of 0 1] by (simp add: sample_dir_entry_def sample_file_entry_def)

text \<open>
  the checksum computed with the table, a byte at a time, is the one the polynomial defines, a bit at a time.
\<close>

theorem crc_table_is_bitwise: "crc32 bs = crc32_bitwise bs"
proof -
  have "crc_byte = (\<lambda>b c. (crc_bit ^^ 8) (c XOR ucast b))"
    by (intro ext) (rule crc_byte_bitwise)
  then show ?thesis
    by (simp only: crc32_def crc32_bitwise_def)
qed

end
