(* ===== verification/Updates.thy ===== *)
theory Updates
  imports Doubles
begin

text \<open>
  \<open>src/update.ts\<close>, the half that chooses: the order of two versions, the release line, what the feed offers that
  this machine would take, and which prepared versions are removed.

  The numbers of a version are doubles, read and subtracted as the language does. The reading of a date is a parameter, times
  are milliseconds. Removing a directory succeeds.
\<close>

section \<open>Versions\<close>

definition alnum :: "char \<Rightarrow> bool" where
  "alnum c \<longleftrightarrow> is_digit c \<or> is_lower c \<or> is_upper c"

text \<open>
  \<open>/^\d+\.\d+\.\d+(?:-[a-zA-Z0-9]+(?:[.-][a-zA-Z0-9]+)*)?$/\<close>: three numbers with dots between them, and after the first
  hyphen pieces of letters and digits with a dot or a hyphen between them.
\<close>

fun pieces :: "string \<Rightarrow> string list" where
  "pieces [] = [[]]"
| "pieces (c # s) = (if c = CHR ''.'' \<or> c = CHR ''-'' then [] # pieces s
     else (case pieces s of [] \<Rightarrow> [[c]] | w # ws \<Rightarrow> (c # w) # ws))"

definition core_of :: "string \<Rightarrow> string" where
  "core_of version = takeWhile (\<lambda>c. c \<noteq> CHR ''-'') version"

definition rest_of :: "string \<Rightarrow> string option" where
  "rest_of version = (case dropWhile (\<lambda>c. c \<noteq> CHR ''-'') version of [] \<Rightarrow> None | _ # r \<Rightarrow> Some r)"

definition valid_version :: "string \<Rightarrow> bool" where
  "valid_version version \<longleftrightarrow>
     length (split_on CHR ''.'' (core_of version)) = 3 \<and> list_all digits (split_on CHR ''.'' (core_of version))
     \<and> (case rest_of version of None \<Rightarrow> True | Some r \<Rightarrow> list_all (\<lambda>w. w \<noteq> [] \<and> list_all alnum w) (pieces r))"

text \<open>\<open>version.split("-", 2)\<close> keeps the first two pieces only: what follows a second hyphen is dropped.\<close>

definition parse_numbers :: "string \<Rightarrow> jnum list" where
  "parse_numbers version = List.map number_of_text (split_on CHR ''.'' (core_of version))"

definition parse_pre :: "string \<Rightarrow> string list" where
  "parse_pre version =
     (case rest_of version of
        None \<Rightarrow> []
      | Some r \<Rightarrow> (let pre = core_of r in if pre = [] then [] else split_on CHR ''.'' pre))"

fun text_less :: "string \<Rightarrow> string \<Rightarrow> bool" where
  "text_less s [] = False"
| "text_less [] (d # t) = True"
| "text_less (c # s) (d # t) = (if code c = code d then text_less s t else code c < code d)"

text \<open>
  A missing number is 0; a difference that is 0 or not a number decides nothing. The sign of a difference of
  numbers of identifiers may be not a number too: the comparison is 0 then, which sorting and the test for a
  greater version, its only uses, treat alike.
\<close>

definition number_at :: "jnum list \<Rightarrow> nat \<Rightarrow> jnum" where
  "number_at ns i = (if i < length ns then ns ! i else Fin 0)"

fun compare_numbers :: "jnum list \<Rightarrow> jnum list \<Rightarrow> nat list \<Rightarrow> int" where
  "compare_numbers a b [] = 0"
| "compare_numbers a b (i # is) =
     (let difference = js_minus (number_at a i) (number_at b i) in
      if difference \<noteq> Fin 0 \<and> difference \<noteq> NaN then js_sign difference else compare_numbers a b is)"

fun compare_pre :: "string list \<Rightarrow> string list \<Rightarrow> int" where
  "compare_pre [] [] = 0"
| "compare_pre [] (two # bs) = -1"
| "compare_pre (one # as) [] = 1"
| "compare_pre (one # as) (two # bs) =
     (if one \<noteq> two
      then (if digits one \<and> digits two then js_sign (js_minus (number_of_text one) (number_of_text two))
            else if text_less one two then -1 else 1)
      else compare_pre as bs)"

definition compare_versions :: "string \<Rightarrow> string \<Rightarrow> int" where
  "compare_versions left right =
     (let n = compare_numbers (parse_numbers left) (parse_numbers right) [0, 1, 2];
          a = parse_pre left; b = parse_pre right in
      if n \<noteq> 0 then n
      else if (a = []) \<noteq> (b = []) then (if a \<noteq> [] then -1 else 1)
      else compare_pre a b)"

text \<open>\<open>split("-")[1]?.split(".")[0]\<close>; a release, and an empty name, has no channel.\<close>

definition channel :: "string \<Rightarrow> string option" where
  "channel version = (case rest_of version of None \<Rightarrow> None | Some r \<Rightarrow> Some (hd (split_on CHR ''.'' (core_of r))))"

definition core_piece :: "string \<Rightarrow> nat \<Rightarrow> string" where
  "core_piece version i =
     (let ws = split_on CHR ''.'' (core_of version) in if i < length ws then ws ! i else ''0'')"

definition same_line :: "string \<Rightarrow> string \<Rightarrow> bool" where
  "same_line left right \<longleftrightarrow>
     \<not> (channel right \<noteq> None \<and> channel right \<noteq> Some [] \<and> channel left \<noteq> channel right)
     \<and> core_piece left 0 = core_piece right 0
     \<and> (core_piece left 0 \<noteq> ''0'' \<or> core_piece left 1 = core_piece right 1)"

text \<open>
  \<open>sort(compareVersions)\<close>, stable. Where the comparison is not consistent the language leaves the order open; this is
  the order of an insertion sort then.
\<close>

fun insert_version :: "string \<Rightarrow> string list \<Rightarrow> string list" where
  "insert_version v [] = [v]"
| "insert_version v (w # ws) = (if compare_versions v w < 0 then v # w # ws else w # insert_version v ws)"

definition sort_versions :: "string list \<Rightarrow> string list" where
  "sort_versions vs = foldl (\<lambda>sorted v. insert_version v sorted) [] vs"

section \<open>What the feed offers\<close>

record distribution =
  di_tarball :: "string option"
  di_integrity :: "string option"

record feed_document =
  fd_versions :: "(string \<times> distribution option) list"
  fd_time :: "(string \<times> string) list"

record candidate =
  ca_version :: string
  ca_tarball :: string
  ca_integrity :: string
  ca_published :: string

text \<open>The answer's reason, with what its text names.\<close>

datatype check_reason =
    NewestAlready | OtherLine string | NoPublication string | TooYoung string "int option" | NoArchive string | Eligible string

record check_result =
  cr_latest :: "string option"
  cr_eligible :: "candidate option"
  cr_reason :: check_reason

definition maturation_hours :: rat where
  "maturation_hours = 72"

definition given :: "string option \<Rightarrow> string option" where
  "given t = (if t = Some [] then None else t)"

definition age_hours :: "(string \<Rightarrow> int option) \<Rightarrow> int \<Rightarrow> string \<Rightarrow> rat option" where
  "age_hours parse_date now published =
     (case parse_date published of None \<Rightarrow> None | Some t \<Rightarrow> Some (of_int (now - t) / 3600000))"

definition mature :: "rat \<Rightarrow> rat option \<Rightarrow> bool" where
  "mature hours age = (case age of None \<Rightarrow> False | Some h \<Rightarrow> h \<ge> hours)"

definition refuse_update :: "string option \<Rightarrow> check_reason \<Rightarrow> check_result" where
  "refuse_update latest reason = \<lparr>cr_latest = latest, cr_eligible = None, cr_reason = reason\<rparr>"

definition check_candidate ::
  "(string \<Rightarrow> int option) \<Rightarrow> int \<Rightarrow> rat \<Rightarrow> feed_document \<Rightarrow> string \<Rightarrow> string \<Rightarrow> check_result" where
  "check_candidate parse_date now hours doc latest v =
     (case given (map_of (fd_time doc) v) of
        None \<Rightarrow> refuse_update (Some latest) (NoPublication v)
      | Some published \<Rightarrow>
          (let age = age_hours parse_date now published in
           if \<not> mature hours age
           then refuse_update (Some latest) (TooYoung v (map_option (\<lambda>h. max 0 \<lfloor>h\<rfloor>) age))
           else (case map_of (fd_versions doc) v of
               Some (Some d) \<Rightarrow>
                 (case (given (di_tarball d), given (di_integrity d)) of
                    (Some tarball, Some integrity) \<Rightarrow>
                      \<lparr>cr_latest = Some latest,
                       cr_eligible = Some \<lparr>ca_version = v, ca_tarball = tarball, ca_integrity = integrity, ca_published = published\<rparr>,
                       cr_reason = Eligible v\<rparr>
                  | _ \<Rightarrow> refuse_update (Some latest) (NoArchive v))
             | _ \<Rightarrow> refuse_update (Some latest) (NoArchive v))))"

definition newer_versions :: "string \<Rightarrow> feed_document \<Rightarrow> string list" where
  "newer_versions current doc = sort_versions (filter (\<lambda>v. compare_versions v current > 0) (List.map fst (fd_versions doc)))"

definition check_for_update ::
  "(string \<Rightarrow> int option) \<Rightarrow> int \<Rightarrow> rat option \<Rightarrow> string \<Rightarrow> feed_document \<Rightarrow> check_result" where
  "check_for_update parse_date now waiting current doc =
     (let hours = (case waiting of None \<Rightarrow> maturation_hours | Some h \<Rightarrow> h); newer = newer_versions current doc in
      if newer = [] then refuse_update None NewestAlready
      else let latest = last newer; compatible = filter (\<lambda>v. same_line v current) newer in
        if compatible = [] then refuse_update (Some latest) (OtherLine latest)
        else check_candidate parse_date now hours doc latest (last compatible))"

section \<open>Removing prepared versions\<close>

text \<open>
  \<open>pruneVersions\<close> away from Windows: what is removed and what is kept, or None while recovery is pending. The
  directory's listing is \<open>prepared\<close>.
\<close>

definition prepared_versions :: "string list \<Rightarrow> string list" where
  "prepared_versions listing = sort_versions (filter valid_version listing)"

definition prune_versions ::
  "bool \<Rightarrow> string option \<Rightarrow> string option \<Rightarrow> int \<Rightarrow> string list \<Rightarrow> (string list \<times> string list) option" where
  "prune_versions recovery_pending current previous keep listing =
     (if recovery_pending then None
      else let protected = js_dedup (concat [case current of None \<Rightarrow> [] | Some v \<Rightarrow> [v], case previous of None \<Rightarrow> [] | Some v \<Rightarrow> [v]]);
               removable = sort_versions (filter (\<lambda>v. v \<notin> set protected) (prepared_versions listing));
               spare = drop (nat (max 0 (int (length removable) - max 0 keep))) removable;
               removed = filter (\<lambda>v. v \<notin> set spare) removable in
        Some (removed, protected @ spare))"

end
