(* ===== verification/UpdateActivation.thy ===== *)
theory UpdateActivation
  imports Updates
begin

text \<open>
  \<open>src/update.ts\<close>, the half that prepares and activates: unpacking a version into its own directory, pointing
  \<open>current\<close> at it, restarting the broker, and going back when the new broker does not answer. A recovery record is
  written before the first pointer moves and removed when the outcome is confirmed; while it exists no version is
  activated and no session opens.

  An operation runs under the update lock, one at a time. What it changes on the disk is a value; every change and
  every call to the outside is an event of a log, with the disk after it, so that a crash leaves the disk of some
  place of the log. What the outside answers is a function of that place. A write may be lost, with an error and no
  change, or late: done, and then an error, as when the directory cannot be synced. The texts of reasons are
  not represented, nor are temporary files and staging directories; reading a pointer or the recovery record's
  place fails only by what it names. The check of a release's bytes is a parameter (\<open>an_intact\<close>), constant during an
  operation.
\<close>

section \<open>The disk and the outside\<close>

datatype phase = Pending | RollbackPending | Unconfirmed | CompletionConfirmed | DiagnosticFailed | NoPhase

record recovery =
  rv_phase :: phase
  rv_version :: "string option"
  rv_previous :: "string option"

text \<open>A prepared version's directory, with the digest of its sealed identity; None where it has none.\<close>

record upd_disk =
  ud_versions :: "(string \<times> string option option) list"
  ud_current :: "string option"
  ud_previous :: "string option"
  ud_barrier :: "recovery option"
  ud_failure :: "recovery option"

datatype upd_event =
    PointedPrevious | PointedCurrent | BarrierWritten | BarrierRemoved | FailureWritten | WriteLost
  | DirectoryPlaced | DirectorySealed
  | Restarted bool bool | RestartThrew | Asked bool | AskThrew | LeaseTaken | LeaseReturned

record upd_world =
  uw_disk :: upd_disk
  uw_required :: bool
  uw_log :: "(upd_event \<times> upd_disk) list"

datatype io_answer = IoDone | IoLost | IoLate

text \<open>The answers: \<open>an_restart\<close> gives \<open>ok\<close> and \<open>stopUnconfirmed\<close>; None is a throw.\<close>

record upd_answers =
  an_io :: "nat \<Rightarrow> io_answer"
  an_restart :: "nat \<Rightarrow> (bool \<times> bool) option"
  an_healthy :: "nat \<Rightarrow> bool option"
  an_intact :: "string \<Rightarrow> bool"
  an_desktop_valid :: "string \<Rightarrow> bool"
  an_windows :: bool
  an_supported :: bool
  an_lock :: bool
  an_root :: bool
  an_sessions :: "int option"
  an_boundary_given :: bool
  an_admit :: "bool option option"
  an_managed :: bool
  an_lease :: bool

definition upd_note :: "upd_event \<Rightarrow> upd_world \<Rightarrow> upd_world" where
  "upd_note e w = w\<lparr>uw_log := uw_log w @ [(e, uw_disk w)]\<rparr>"

definition upd_change :: "upd_event \<Rightarrow> (upd_disk \<Rightarrow> upd_disk) \<Rightarrow> upd_world \<Rightarrow> upd_world" where
  "upd_change e f w = upd_note e (w\<lparr>uw_disk := f (uw_disk w)\<rparr>)"

text \<open>A write that replaces a name: it is done, or lost with an error. \<open>True\<close> is done.\<close>

definition upd_replace :: "upd_answers \<Rightarrow> upd_event \<Rightarrow> (upd_disk \<Rightarrow> upd_disk) \<Rightarrow> upd_world \<Rightarrow> bool \<times> upd_world" where
  "upd_replace env e f w =
     (if an_io env (length (uw_log w)) = IoDone then (True, upd_change e f w) else (False, upd_note WriteLost w))"

text \<open>A write that is synced after it was done: it may also be late.\<close>

definition upd_durable :: "upd_answers \<Rightarrow> upd_event \<Rightarrow> (upd_disk \<Rightarrow> upd_disk) \<Rightarrow> upd_world \<Rightarrow> bool \<times> upd_world" where
  "upd_durable env e f w =
     (case an_io env (length (uw_log w)) of
        IoDone \<Rightarrow> (True, upd_change e f w)
      | IoLate \<Rightarrow> (False, upd_change e f w)
      | IoLost \<Rightarrow> (False, upd_note WriteLost w))"

section \<open>The recovery record\<close>

definition persist_initial :: "upd_answers \<Rightarrow> recovery \<Rightarrow> upd_world \<Rightarrow> bool \<times> upd_world" where
  "persist_initial env r w =
     (if ud_barrier (uw_disk w) \<noteq> None then (False, upd_note WriteLost w)
      else upd_durable env BarrierWritten (\<lambda>d. d\<lparr>ud_barrier := Some r\<rparr>) w)"

definition persist_recovery :: "upd_answers \<Rightarrow> recovery \<Rightarrow> upd_world \<Rightarrow> bool \<times> upd_world" where
  "persist_recovery env r = upd_durable env BarrierWritten (\<lambda>d. d\<lparr>ud_barrier := Some r\<rparr>)"

definition persist_failure :: "upd_answers \<Rightarrow> recovery \<Rightarrow> upd_world \<Rightarrow> bool \<times> upd_world" where
  "persist_failure env r = upd_durable env FailureWritten (\<lambda>d. d\<lparr>ud_failure := Some r\<rparr>)"

definition clear_recovery :: "upd_answers \<Rightarrow> upd_world \<Rightarrow> bool \<times> upd_world" where
  "clear_recovery env w =
     (case ud_barrier (uw_disk w) of
        None \<Rightarrow> (False, w)
      | Some r \<Rightarrow>
          (case persist_recovery env (r\<lparr>rv_phase := CompletionConfirmed\<rparr>) w of
             (False, w1) \<Rightarrow> (False, w1)
           | (True, w1) \<Rightarrow>
               (case upd_replace env BarrierRemoved (\<lambda>d. d\<lparr>ud_barrier := None\<rparr>) w1 of
                  (False, w2) \<Rightarrow> (False, w2)
                | (True, w2) \<Rightarrow> (True, w2\<lparr>uw_required := False\<rparr>))))"

definition uncertain :: "upd_answers \<Rightarrow> recovery \<Rightarrow> upd_world \<Rightarrow> upd_world" where
  "uncertain env r w =
     (case persist_recovery env (r\<lparr>rv_phase := Unconfirmed\<rparr>) w of
        (True, w1) \<Rightarrow> w1
      | (False, w1) \<Rightarrow> snd (persist_failure env (r\<lparr>rv_phase := Unconfirmed\<rparr>) w1))"

section \<open>Activation\<close>

datatype refusal =
    Unsupported | EarlierUnconfirmed | SessionOpen int | NotPrepared | NotVerified | NoDesktopPayload | AlreadyCurrent
  | NoAdmission | NotAdmitted | NotManaged | BrokerNotIdle | NoBarrier | StopUnconfirmed | RollbackBarrierFailed | RecoveryNeeded

datatype rollback_note = RolledBackOnly | RollbackFailed | RollbackStopUnconfirmed | DiagnosticLost | CleanupFailed

datatype activation =
    Rejects | NotActivated refusal | Activated string "string option" | RolledBack string "string option" bool rollback_note

definition restart_broker :: "upd_answers \<Rightarrow> upd_world \<Rightarrow> (bool \<times> bool) option \<times> upd_world" where
  "restart_broker env w =
     (case an_restart env (length (uw_log w)) of
        None \<Rightarrow> (None, upd_note RestartThrew w)
      | Some (ok, unconfirmed) \<Rightarrow> (Some (ok, unconfirmed), upd_note (Restarted ok unconfirmed) w))"

definition ask_healthy :: "upd_answers \<Rightarrow> upd_world \<Rightarrow> bool option \<times> upd_world" where
  "ask_healthy env w =
     (case an_healthy env (length (uw_log w)) of
        None \<Rightarrow> (None, upd_note AskThrew w)
      | Some b \<Rightarrow> (Some b, upd_note (Asked b) w))"

text \<open>\<open>a && await healthy()\<close>.\<close>

definition ask_if :: "upd_answers \<Rightarrow> bool \<Rightarrow> upd_world \<Rightarrow> bool option \<times> upd_world" where
  "ask_if env a w = (if a then ask_healthy env w else (Some False, w))"

definition point_current :: "upd_answers \<Rightarrow> string option \<Rightarrow> upd_world \<Rightarrow> bool \<times> upd_world" where
  "point_current env v = upd_replace env PointedCurrent (\<lambda>d. d\<lparr>ud_current := v\<rparr>)"

definition point_previous :: "upd_answers \<Rightarrow> string option \<Rightarrow> upd_world \<Rightarrow> bool \<times> upd_world" where
  "point_previous env v w =
     (if v = None then (True, w) else upd_replace env PointedPrevious (\<lambda>d. d\<lparr>ud_previous := v\<rparr>) w)"

text \<open>\<open>currentVersion(paths.root).catch(() => null)\<close>.\<close>

definition verified :: "upd_answers \<Rightarrow> upd_disk \<Rightarrow> string \<Rightarrow> bool" where
  "verified env d v \<longleftrightarrow> (case map_of (ud_versions d) v of Some (Some i) \<Rightarrow> an_intact env v | _ \<Rightarrow> False)"

definition selected_version :: "upd_answers \<Rightarrow> upd_disk \<Rightarrow> string option" where
  "selected_version env d =
     (case ud_current d of None \<Rightarrow> None | Some v \<Rightarrow> if verified env d v then Some v else None)"

text \<open>The catch clause, when what was thrown comes from inside the body.\<close>

definition activation_caught :: "upd_answers \<Rightarrow> string option \<Rightarrow> upd_world \<Rightarrow> activation \<times> upd_world" where
  "activation_caught env previous w =
     (NotActivated RecoveryNeeded,
      if uw_required w
      then uncertain env \<lparr>rv_phase = Unconfirmed, rv_version = selected_version env (uw_disk w), rv_previous = previous\<rparr> w
      else w)"

definition finish_rollback :: "upd_answers \<Rightarrow> string \<Rightarrow> string option \<Rightarrow> bool \<Rightarrow> bool \<Rightarrow> upd_world \<Rightarrow> activation \<times> upd_world" where
  "finish_rollback env version previous restored healthy w =
     (let failed = (\<not> restored \<or> previous \<noteq> None \<and> \<not> healthy);
          (kept, w1) = (if failed
            then persist_failure env \<lparr>rv_phase = NoPhase, rv_version = Some version, rv_previous = previous\<rparr> w
            else (True, w)) in
      if \<not> kept
      then (RolledBack version previous healthy DiagnosticLost,
            snd (persist_recovery env \<lparr>rv_phase = DiagnosticFailed, rv_version = previous, rv_previous = Some version\<rparr> w1))
      else (case clear_recovery env w1 of
          (False, w2) \<Rightarrow> (RolledBack version previous healthy CleanupFailed, w2)
        | (True, w2) \<Rightarrow> (RolledBack version previous healthy (if failed then RollbackFailed else RolledBackOnly), w2)))"

definition roll_back :: "upd_answers \<Rightarrow> string \<Rightarrow> string option \<Rightarrow> upd_world \<Rightarrow> activation \<times> upd_world" where
  "roll_back env version previous w =
     (case persist_recovery env \<lparr>rv_phase = RollbackPending, rv_version = previous, rv_previous = Some version\<rparr> w of
        (False, w1) \<Rightarrow> (NotActivated RollbackBarrierFailed, w1)
      | (True, w1) \<Rightarrow>
          (case point_current env previous w1 of
             (False, w2) \<Rightarrow> activation_caught env previous w2
           | (True, w2) \<Rightarrow>
               (case restart_broker env w2 of
                  (None, w3) \<Rightarrow> activation_caught env previous w3
                | (Some (restored, unconfirmed), w3) \<Rightarrow>
                    if unconfirmed
                    then (RolledBack version previous False RollbackStopUnconfirmed,
                          uncertain env \<lparr>rv_phase = Unconfirmed, rv_version = previous, rv_previous = Some version\<rparr> w3)
                    else (case ask_if env (previous \<noteq> None \<and> restored) w3 of
                        (None, w4) \<Rightarrow> activation_caught env previous w4
                      | (Some healthy, w4) \<Rightarrow> finish_rollback env version previous restored healthy w4))))"

definition after_restart :: "upd_answers \<Rightarrow> string \<Rightarrow> string option \<Rightarrow> bool \<Rightarrow> upd_world \<Rightarrow> activation \<times> upd_world" where
  "after_restart env version previous restarted w =
     (case ask_if env restarted w of
        (None, w1) \<Rightarrow> activation_caught env previous w1
      | (Some True, w1) \<Rightarrow>
          (case clear_recovery env w1 of
             (False, w2) \<Rightarrow> activation_caught env previous w2
           | (True, w2) \<Rightarrow> (Activated version previous, w2))
      | (Some False, w1) \<Rightarrow> roll_back env version previous w1)"

definition swap_and_restart :: "upd_answers \<Rightarrow> string \<Rightarrow> string option \<Rightarrow> upd_world \<Rightarrow> activation \<times> upd_world" where
  "swap_and_restart env version previous w =
     (case point_previous env previous w of
        (False, w1) \<Rightarrow> activation_caught env previous w1
      | (True, w1) \<Rightarrow>
          (case point_current env (Some version) w1 of
             (False, w2) \<Rightarrow> activation_caught env previous w2
           | (True, w2) \<Rightarrow>
               (case restart_broker env w2 of
                  (None, w3) \<Rightarrow> activation_caught env previous w3
                | (Some (restarted, unconfirmed), w3) \<Rightarrow>
                    if unconfirmed
                    then (NotActivated StopUnconfirmed,
                          uncertain env \<lparr>rv_phase = Unconfirmed, rv_version = Some version, rv_previous = previous\<rparr> w3)
                    else after_restart env version previous restarted w3)))"

text \<open>The try block: its first step makes the root, the second the recovery record.\<close>

definition activation_body :: "upd_answers \<Rightarrow> string \<Rightarrow> string option \<Rightarrow> upd_world \<Rightarrow> activation \<times> upd_world" where
  "activation_body env version previous w =
     (if \<not> an_root env then (NotActivated RecoveryNeeded, upd_note WriteLost w)
      else case persist_initial env \<lparr>rv_phase = Pending, rv_version = Some version, rv_previous = previous\<rparr> w of
          (False, w1) \<Rightarrow> (NotActivated NoBarrier, w1)
        | (True, w1) \<Rightarrow> swap_and_restart env version previous (w1\<lparr>uw_required := True\<rparr>))"

definition with_lease :: "upd_answers \<Rightarrow> string \<Rightarrow> string option \<Rightarrow> upd_world \<Rightarrow> activation \<times> upd_world" where
  "with_lease env version previous w =
     (if an_boundary_given env then activation_body env version previous w
      else if \<not> an_managed env then (NotActivated NotManaged, w)
      else if \<not> an_lease env then (NotActivated BrokerNotIdle, w)
      else (case activation_body env version previous (upd_note LeaseTaken w) of
          (a, w1) \<Rightarrow> (a, if uw_required w1 then w1 else upd_note LeaseReturned w1)))"

definition activation_refusal :: "upd_answers \<Rightarrow> string \<Rightarrow> upd_disk \<Rightarrow> refusal option" where
  "activation_refusal env version d =
     (if \<not> an_supported env then Some Unsupported
      else if ud_barrier d \<noteq> None then Some EarlierUnconfirmed
      else case an_sessions env of
        Some n \<Rightarrow> if n > 0 then Some (SessionOpen n) else None
      | None \<Rightarrow> None)"

definition target_refusal :: "upd_answers \<Rightarrow> string \<Rightarrow> upd_disk \<Rightarrow> refusal option" where
  "target_refusal env version d =
     (if version \<notin> keys (ud_versions d) then Some NotPrepared
      else if \<not> verified env d version then Some NotVerified
      else if an_windows env \<and> \<not> an_desktop_valid env version then Some NoDesktopPayload
      else None)"

definition activate_version :: "upd_answers \<Rightarrow> string \<Rightarrow> upd_world \<Rightarrow> activation \<times> upd_world" where
  "activate_version env version w =
     (let d = uw_disk w in
      if \<not> an_lock env \<or> \<not> valid_version version then (Rejects, w)
      else case activation_refusal env version d of
        Some r \<Rightarrow> (NotActivated r, w)
      | None \<Rightarrow>
          (case target_refusal env version d of
             Some r \<Rightarrow> (NotActivated r, w)
           | None \<Rightarrow>
               if ud_current d \<noteq> None \<and> selected_version env d = None then (Rejects, w)
               else if ud_current d = Some version then (NotActivated AlreadyCurrent, w)
               else (case an_admit env of
                   Some None \<Rightarrow> (NotActivated NoAdmission, w)
                 | Some (Some False) \<Rightarrow> (NotActivated NotAdmitted, w)
                 | _ \<Rightarrow> with_lease env version (ud_current d) w)))"

end
