(* ===== verification/UpdateActivationFacts.thy ===== *)
theory UpdateActivationFacts
  imports UpdateActivation
begin

text \<open>
  Facts on activation. The log of an operation is judged place by place: the pointer is elsewhere than before only
  while the recovery record exists or the new broker has answered, nothing moves after a stop that is not
  confirmed, and the outcome tells where the pointer is.
\<close>

section \<open>Samples\<close>

definition sample_disk :: upd_disk where
  "sample_disk = \<lparr>ud_versions = [(''1.0.0'', Some None), (''1.0.1'', Some None)], ud_current = Some ''1.0.0'', ud_previous = None,
     ud_barrier = None, ud_failure = None\<rparr>"

definition sample_answers :: upd_answers where
  "sample_answers = \<lparr>an_io = (\<lambda>_. IoDone), an_restart = (\<lambda>_. Some (True, False)), an_healthy = (\<lambda>n. Some (n > 6)),
     an_intact = (\<lambda>_. True), an_desktop_valid = (\<lambda>_. True), an_windows = False, an_supported = True, an_lock = True, an_root = True,
     an_sessions = Some 0, an_boundary_given = False, an_admit = None, an_managed = True, an_lease = True\<rparr>"

definition sample_world :: upd_world where
  "sample_world = \<lparr>uw_disk = sample_disk, uw_required = False, uw_log = []\<rparr>"

section \<open>Judging a log\<close>

text \<open>Whether the broker that runs now is known to answer.\<close>

fun answers_after :: "bool \<Rightarrow> upd_event \<Rightarrow> bool" where
  "answers_after a (Asked b) = b"
| "answers_after a PointedCurrent = False"
| "answers_after a (Restarted ok unconfirmed) = False"
| "answers_after a RestartThrew = False"
| "answers_after a _ = a"

definition answering :: "bool \<Rightarrow> (upd_event \<times> upd_disk) list \<Rightarrow> bool" where
  "answering a es = foldl (\<lambda>a x. answers_after a (fst x)) a es"

fun covered :: "string \<Rightarrow> string option \<Rightarrow> bool \<Rightarrow> (upd_event \<times> upd_disk) list \<Rightarrow> bool" where
  "covered v old a [] \<longleftrightarrow> True"
| "covered v old a ((e, d) # es) \<longleftrightarrow>
     (ud_barrier d \<noteq> None \<or> ud_current d = old \<or> ud_current d = Some v \<and> answers_after a e) \<and> covered v old (answers_after a e) es"

fun moves :: "upd_event \<Rightarrow> bool" where
  "moves PointedPrevious = True"
| "moves PointedCurrent = True"
| "moves (Restarted ok unconfirmed) = True"
| "moves RestartThrew = True"
| "moves BarrierRemoved = True"
| "moves _ = False"

fun unconfirmed_stop :: "upd_event \<Rightarrow> bool" where
  "unconfirmed_stop (Restarted ok unconfirmed) = unconfirmed"
| "unconfirmed_stop _ = False"

fun frozen :: "bool \<Rightarrow> (upd_event \<times> upd_disk) list \<Rightarrow> bool" where
  "frozen stopped [] \<longleftrightarrow> True"
| "frozen stopped ((e, d) # es) \<longleftrightarrow> (stopped \<longrightarrow> \<not> moves e \<and> ud_barrier d \<noteq> None) \<and> frozen (stopped \<or> unconfirmed_stop e) es"

definition stopped_by :: "(upd_event \<times> upd_disk) list \<Rightarrow> bool" where
  "stopped_by es \<longleftrightarrow> list_ex (\<lambda>x. unconfirmed_stop (fst x)) es"

lemma answering_simps [simp]:
  "answering a [] = a" "answering a (xs @ ys) = answering (answering a xs) ys" "answering a (x # xs) = answering (answers_after a (fst x)) xs"
  by (simp_all add: answering_def)

lemma covered_append [simp]: "covered v old a (xs @ ys) \<longleftrightarrow> covered v old a xs \<and> covered v old (answering a xs) ys"
  by (induction v old a xs rule: covered.induct) auto

lemma stopped_by_simps [simp]:
  "\<not> stopped_by []" "stopped_by (xs @ ys) \<longleftrightarrow> stopped_by xs \<or> stopped_by ys" "stopped_by (x # xs) \<longleftrightarrow> unconfirmed_stop (fst x) \<or> stopped_by xs"
  by (simp_all add: stopped_by_def)

lemma frozen_append [simp]: "frozen s (xs @ ys) \<longleftrightarrow> frozen s xs \<and> frozen (s \<or> stopped_by xs) ys"
  by (induction s xs rule: frozen.induct) (auto simp: disj_assoc)

section \<open>Writes that only concern recovery\<close>

definition same_pointers :: "upd_disk \<Rightarrow> upd_disk \<Rightarrow> bool" where
  "same_pointers d d' \<longleftrightarrow> ud_current d' = ud_current d \<and> ud_previous d' = ud_previous d \<and> ud_versions d' = ud_versions d"

definition quiet_event :: "upd_event \<Rightarrow> bool" where
  "quiet_event e \<longleftrightarrow> e = BarrierWritten \<or> e = WriteLost \<or> e = FailureWritten"

definition quietly :: "upd_world \<Rightarrow> upd_world \<Rightarrow> bool" where
  "quietly w w' \<longleftrightarrow> same_pointers (uw_disk w) (uw_disk w') \<and> ud_barrier (uw_disk w') \<noteq> None \<and> uw_required w' = uw_required w
     \<and> (\<exists>es. uw_log w' = uw_log w @ es
          \<and> list_all (\<lambda>(e, d). quiet_event e \<and> same_pointers (uw_disk w) d \<and> ud_barrier d \<noteq> None) es)"

lemma same_pointers_refl [simp]: "same_pointers d d"
  by (simp add: same_pointers_def)

lemma quietly_refl: "ud_barrier (uw_disk w) \<noteq> None \<Longrightarrow> quietly w w"
  by (auto simp: quietly_def)

lemma quietly_trans: "quietly w w1 \<Longrightarrow> quietly w1 w2 \<Longrightarrow> quietly w w2"
  unfolding quietly_def same_pointers_def by (auto simp: list_all_iff)

lemma durable_quietly:
  assumes "upd_durable env e f w = (b, w')" "quiet_event e" "same_pointers (uw_disk w) (f (uw_disk w))"
    "ud_barrier (f (uw_disk w)) \<noteq> None" "ud_barrier (uw_disk w) \<noteq> None"
  shows "quietly w w'"
  using assms by (auto simp: upd_durable_def upd_change_def upd_note_def quietly_def quiet_event_def split: io_answer.splits)

lemma persist_recovery_quietly:
  "persist_recovery env r w = (b, w') \<Longrightarrow> ud_barrier (uw_disk w) \<noteq> None \<Longrightarrow> quietly w w'"
  unfolding persist_recovery_def by (erule durable_quietly) (simp_all add: quiet_event_def same_pointers_def)

lemma persist_failure_quietly:
  "persist_failure env r w = (b, w') \<Longrightarrow> ud_barrier (uw_disk w) \<noteq> None \<Longrightarrow> quietly w w'"
  unfolding persist_failure_def by (erule durable_quietly) (simp_all add: quiet_event_def same_pointers_def)

lemma persist_failure_kept:
  "persist_failure env r w = (True, w') \<Longrightarrow> ud_failure (uw_disk w') = Some r"
  by (auto simp: persist_failure_def upd_durable_def upd_change_def upd_note_def split: io_answer.splits)

lemma uncertain_quietly:
  assumes "ud_barrier (uw_disk w) \<noteq> None"
  shows "quietly w (uncertain env r w)"
proof -
  obtain b w1 where p: "persist_recovery env (r\<lparr>rv_phase := Unconfirmed\<rparr>) w = (b, w1)"
    by (cases "persist_recovery env (r\<lparr>rv_phase := Unconfirmed\<rparr>) w")
  then have q: "quietly w w1"
    using assms by (rule persist_recovery_quietly)
  then have "ud_barrier (uw_disk w1) \<noteq> None"
    by (simp add: quietly_def)
  then have "quietly w1 (snd (persist_failure env (r\<lparr>rv_phase := Unconfirmed\<rparr>) w1))"
    by (intro persist_failure_quietly[of _ _ _ "fst (persist_failure env (r\<lparr>rv_phase := Unconfirmed\<rparr>) w1)"]) simp_all
  then show ?thesis
    using p q quietly_trans by (cases b) (auto simp: uncertain_def)
qed

lemma caught_quietly:
  assumes "ud_barrier (uw_disk w) \<noteq> None" "activation_caught env previous w = (a, w')"
  shows "quietly w w'" "a = NotActivated RecoveryNeeded"
  using assms uncertain_quietly[OF assms(1)] quietly_refl[OF assms(1)] by (auto simp: activation_caught_def split: if_splits)

lemma quietly_judged:
  assumes "quietly w w'"
  shows "covered v old a (uw_log w) \<Longrightarrow> covered v old a (uw_log w')" "frozen s (uw_log w) \<Longrightarrow> frozen s (uw_log w')"
    "answering a (uw_log w') = answering a (uw_log w)" "stopped_by (uw_log w') = stopped_by (uw_log w)"
proof -
  obtain es where es: "uw_log w' = uw_log w @ es" "list_all (\<lambda>(e, d). quiet_event e \<and> ud_barrier d \<noteq> None) es"
    using assms by (auto simp: quietly_def list_all_iff case_prod_beta)
  have "covered v old a es \<and> frozen s es \<and> answering a es = a \<and> \<not> stopped_by es" for a s
    using es(2) by (induction es arbitrary: a s) (auto simp: quiet_event_def)
  then show "covered v old a (uw_log w) \<Longrightarrow> covered v old a (uw_log w')" "frozen s (uw_log w) \<Longrightarrow> frozen s (uw_log w')"
    "answering a (uw_log w') = answering a (uw_log w)" "stopped_by (uw_log w') = stopped_by (uw_log w)"
    by (simp_all add: es(1))
qed

section \<open>The stages\<close>

definition sound_log :: "string \<Rightarrow> string option \<Rightarrow> upd_world \<Rightarrow> bool" where
  "sound_log v old w \<longleftrightarrow> covered v old False (uw_log w) \<and> frozen False (uw_log w)"

definition running :: "upd_world \<Rightarrow> bool" where
  "running w \<longleftrightarrow> answering False (uw_log w)"

definition may_move :: "string \<Rightarrow> string option \<Rightarrow> upd_world \<Rightarrow> bool" where
  "may_move v old w \<longleftrightarrow> sound_log v old w \<and> \<not> stopped_by (uw_log w) \<and> ud_barrier (uw_disk w) \<noteq> None \<and> uw_required w"

text \<open>Where an activation from \<open>old\<close> to \<open>v\<close> may leave the disk, by what it reports.\<close>

definition outcome :: "string \<Rightarrow> string option \<Rightarrow> activation \<Rightarrow> upd_world \<Rightarrow> bool" where
  "outcome v old a w \<longleftrightarrow> (uw_required w \<longleftrightarrow> ud_barrier (uw_disk w) \<noteq> None) \<and> (stopped_by (uw_log w) \<longrightarrow> uw_required w) \<and>
     (case a of
        Rejects \<Rightarrow> False
      | NotActivated r \<Rightarrow> ud_barrier (uw_disk w) \<noteq> None
      | Activated v' p \<Rightarrow> v' = v \<and> p = old \<and> ud_barrier (uw_disk w) = None \<and> ud_current (uw_disk w) = Some v \<and> running w
      | RolledBack v' p healthy note \<Rightarrow> v' = v \<and> p = old \<and> ud_current (uw_disk w) = old
          \<and> (ud_barrier (uw_disk w) = None \<longleftrightarrow> note = RolledBackOnly \<or> note = RollbackFailed)
          \<and> (healthy \<longrightarrow> old \<noteq> None \<and> running w) \<and> (note = RolledBackOnly \<longrightarrow> old = None \<or> healthy)
          \<and> (note = RollbackFailed \<longrightarrow> ud_failure (uw_disk w) \<noteq> None))"

lemma quietly_steady:
  assumes "quietly w w'"
  shows "sound_log v old w \<Longrightarrow> sound_log v old w'" "may_move v old w \<Longrightarrow> may_move v old w'" "running w' = running w"
    "ud_current (uw_disk w') = ud_current (uw_disk w)" "ud_barrier (uw_disk w') \<noteq> None" "uw_required w' = uw_required w"
  using assms quietly_judged[OF assms]
  by (auto simp: sound_log_def may_move_def running_def quietly_def same_pointers_def)

lemma clear_recovery_facts:
  assumes "clear_recovery env w = (b, w')" "may_move v old w"
    and "ud_current (uw_disk w) = old \<or> ud_current (uw_disk w) = Some v \<and> running w"
  shows "sound_log v old w' \<and> running w' = running w \<and> ud_current (uw_disk w') = ud_current (uw_disk w)
     \<and> (uw_required w' \<longleftrightarrow> \<not> b) \<and> (ud_barrier (uw_disk w') = None \<longleftrightarrow> b) \<and> (\<not> b \<longrightarrow> may_move v old w')
     \<and> ud_failure (uw_disk w') = ud_failure (uw_disk w) \<and> \<not> stopped_by (uw_log w')"
proof -
  obtain r where r: "ud_barrier (uw_disk w) = Some r"
    using assms(2) by (auto simp: may_move_def)
  obtain b1 w1 where p: "persist_recovery env (r\<lparr>rv_phase := CompletionConfirmed\<rparr>) w = (b1, w1)"
    by (cases "persist_recovery env (r\<lparr>rv_phase := CompletionConfirmed\<rparr>) w")
  have q: "quietly w w1"
    using persist_recovery_quietly[OF p] r by simp
  have f: "ud_failure (uw_disk w1) = ud_failure (uw_disk w)"
    using p by (auto simp: persist_recovery_def upd_durable_def upd_change_def upd_note_def split: io_answer.splits)
  note Q = quietly_steady[OF q]
  have m: "may_move v old w1"
    by (rule Q(2)[OF assms(2)])
  show ?thesis
  proof (cases b1)
    case False
    then have "w' = w1" "\<not> b"
      using assms(1) r p by (auto simp: clear_recovery_def)
    then show ?thesis
      using Q m f by (auto simp: may_move_def)
  next
    case True
    then have "(b, w') = (case upd_replace env BarrierRemoved (\<lambda>d. d\<lparr>ud_barrier := None\<rparr>) w1 of
        (False, w2) \<Rightarrow> (False, w2) | (True, w2) \<Rightarrow> (True, w2\<lparr>uw_required := False\<rparr>))"
      using assms(1) r p by (simp add: clear_recovery_def)
    then show ?thesis
      using m Q(3,4) f assms(3)
      by (cases "an_io env (length (uw_log w1)) = IoDone")
        (auto simp: upd_replace_def upd_change_def upd_note_def may_move_def sound_log_def running_def)
  qed
qed

lemma caught_facts:
  assumes "activation_caught env previous w = (a, w')" "may_move v old w"
  shows "sound_log v old w' \<and> outcome v old a w'"
proof -
  have b: "ud_barrier (uw_disk w) \<noteq> None"
    using assms(2) by (simp add: may_move_def)
  show ?thesis
    using caught_quietly[OF b assms(1)] quietly_steady[of w w'] assms(2) by (auto simp: outcome_def may_move_def)
qed

lemma restart_facts:
  assumes "restart_broker env w = (r, w')" "may_move v old w"
  shows "sound_log v old w'" "ud_barrier (uw_disk w') \<noteq> None" "uw_required w'" "uw_disk w' = uw_disk w" "\<not> running w'"
    "r = None \<or> r = Some (ok, False) \<Longrightarrow> may_move v old w'"
proof -
  obtain e where w': "w' = upd_note e w" and e: "e = RestartThrew \<and> r = None \<or> (\<exists>ok u. e = Restarted ok u \<and> r = Some (ok, u))"
    using assms(1) by (auto simp: restart_broker_def split: option.splits)
  have w: "may_move v old w"
    by (rule assms(2))
  show "sound_log v old w'" "ud_barrier (uw_disk w') \<noteq> None" "uw_required w'" "uw_disk w' = uw_disk w" "\<not> running w'"
    using w e unfolding w' by (auto simp: upd_note_def may_move_def sound_log_def running_def)
  show "may_move v old w'" if "r = None \<or> r = Some (ok, False)"
    using w e that unfolding w' by (auto simp: upd_note_def may_move_def sound_log_def)
qed

lemma ask_facts:
  assumes "ask_if env c w = (r, w')" "may_move v old w" "\<not> running w"
  shows "may_move v old w' \<and> uw_disk w' = uw_disk w \<and> (r \<noteq> None \<longrightarrow> running w' = (r = Some True)) \<and> (r = Some True \<longrightarrow> c)"
  using assms
  by (auto simp: ask_if_def ask_healthy_def upd_note_def may_move_def sound_log_def running_def split: option.splits if_splits)

lemma point_facts:
  assumes "may_move v old w"
  shows "point_current env c w = (b, w') \<Longrightarrow> may_move v old w' \<and> (b \<longrightarrow> ud_current (uw_disk w') = c)"
    "point_previous env c w = (b, w') \<Longrightarrow> may_move v old w'"
  using assms
  by (auto simp: point_current_def point_previous_def upd_replace_def upd_change_def upd_note_def may_move_def sound_log_def
      split: if_splits)

lemma finish_rollback_facts:
  assumes "finish_rollback env v old restored healthy w = (a, w')" "may_move v old w" "ud_current (uw_disk w) = old"
    and "healthy \<longrightarrow> old \<noteq> None \<and> running w"
  shows "sound_log v old w' \<and> outcome v old a w'"
proof -
  define failed where "failed = (\<not> restored \<or> old \<noteq> None \<and> \<not> healthy)"
  define r where "r = \<lparr>rv_phase = NoPhase, rv_version = Some v, rv_previous = old\<rparr>"
  obtain kept w1 where k: "(if failed then persist_failure env r w else (True, w)) = (kept, w1)"
    by (cases "if failed then persist_failure env r w else (True, w)")
  have b: "ud_barrier (uw_disk w) \<noteq> None"
    using assms(2) by (simp add: may_move_def)
  have q: "quietly w w1"
    using k persist_failure_quietly[of env r w kept w1] quietly_refl[OF b] b by (auto split: if_splits)
  note Q = quietly_steady[OF q]
  have m: "may_move v old w1"
    by (rule Q(2)[OF assms(2)])
  have f: "failed \<Longrightarrow> kept \<Longrightarrow> ud_failure (uw_disk w1) \<noteq> None"
    using k persist_failure_kept[of env r w w1] by simp
  have eq: "(a, w') = (if \<not> kept
      then (RolledBack v old healthy DiagnosticLost,
            snd (persist_recovery env \<lparr>rv_phase = DiagnosticFailed, rv_version = old, rv_previous = Some v\<rparr> w1))
      else (case clear_recovery env w1 of
          (False, w2) \<Rightarrow> (RolledBack v old healthy CleanupFailed, w2)
        | (True, w2) \<Rightarrow> (RolledBack v old healthy (if failed then RollbackFailed else RolledBackOnly), w2)))"
    using assms(1)[symmetric] unfolding finish_rollback_def Let_def failed_def[symmetric] r_def[symmetric] k by simp
  show ?thesis
  proof (cases kept)
    case False
    obtain b2 w2 where p: "persist_recovery env \<lparr>rv_phase = DiagnosticFailed, rv_version = old, rv_previous = Some v\<rparr> w1 = (b2, w2)"
      by fastforce
    have "quietly w1 w2"
      using persist_recovery_quietly[OF p] Q(5) by simp
    note P = quietly_steady[OF this]
    show ?thesis
      using eq False p P m Q(3,4) assms(3,4) by (auto simp: outcome_def may_move_def)
  next
    case True
    obtain b2 w2 where c: "clear_recovery env w1 = (b2, w2)"
      by fastforce
    have "ud_current (uw_disk w1) = old"
      using Q(4) assms(3) by simp
    then have C: "sound_log v old w2" "running w2 = running w1" "ud_current (uw_disk w2) = old" "uw_required w2 \<longleftrightarrow> \<not> b2"
        "ud_barrier (uw_disk w2) = None \<longleftrightarrow> b2" "ud_failure (uw_disk w2) = ud_failure (uw_disk w1)" "\<not> stopped_by (uw_log w2)"
      using clear_recovery_facts[OF c m] by simp_all
    have "w' = w2" "a = RolledBack v old healthy (if \<not> b2 then CleanupFailed else if failed then RollbackFailed else RolledBackOnly)"
      using eq True c by (cases b2; simp)+
    then show ?thesis
      using C f True Q(3) assms(4) by (auto simp: outcome_def failed_def)
  qed
qed

lemma uncertain_facts:
  assumes "sound_log v old w" "ud_barrier (uw_disk w) \<noteq> None" "uw_required w"
  shows "sound_log v old (uncertain env r w)" "uw_required (uncertain env r w)" "ud_barrier (uw_disk (uncertain env r w)) \<noteq> None"
    "ud_current (uw_disk (uncertain env r w)) = ud_current (uw_disk w)"
  using quietly_steady[OF uncertain_quietly[OF assms(2), of env r]] assms by auto

lemma roll_back_facts:
  assumes "roll_back env v old w = (a, w')" "may_move v old w"
  shows "sound_log v old w' \<and> outcome v old a w'"
proof -
  have b: "ud_barrier (uw_disk w) \<noteq> None"
    using assms(2) by (simp add: may_move_def)
  obtain b1 w1 where p: "persist_recovery env \<lparr>rv_phase = RollbackPending, rv_version = old, rv_previous = Some v\<rparr> w = (b1, w1)"
    by fastforce
  note Q = quietly_steady[OF persist_recovery_quietly[OF p b]]
  have m1: "may_move v old w1"
    by (rule Q(2)[OF assms(2)])
  show ?thesis
  proof (cases b1)
    case False
    then show ?thesis
      using assms(1) p m1 by (auto simp: roll_back_def outcome_def may_move_def)
  next
    case b1: True
    obtain b2 w2 where c: "point_current env old w1 = (b2, w2)"
      by fastforce
    note C = point_facts(1)[OF m1 c]
    show ?thesis
    proof (cases b2)
      case False
      then show ?thesis
        using assms(1) p c b1 caught_facts[of env old w2 a w' v old] C by (simp add: roll_back_def)
    next
      case b2: True
      obtain r w3 where s: "restart_broker env w2 = (r, w3)"
        by fastforce
      note R = restart_facts[OF s conjunct1[OF C]]
      have cur: "ud_current (uw_disk w3) = old"
        using C b2 R(4) by simp
      consider (thrown) "r = None" | (unconfirmed) ok where "r = Some (ok, True)" | (done_) ok where "r = Some (ok, False)"
        by (cases r) auto
      then show ?thesis
      proof cases
        case thrown
        then show ?thesis
          using assms(1) p c b1 b2 s caught_facts[of env old w3 a w' v old] R(6) by (simp add: roll_back_def)
      next
        case unconfirmed
        then have "a = RolledBack v old False RollbackStopUnconfirmed"
            "w' = uncertain env \<lparr>rv_phase = Unconfirmed, rv_version = old, rv_previous = Some v\<rparr> w3"
          using assms(1) p c b1 b2 s by (simp_all add: roll_back_def)
        then show ?thesis
          using uncertain_facts[OF R(1-3), of env "\<lparr>rv_phase = Unconfirmed, rv_version = old, rv_previous = Some v\<rparr>"] cur
          by (simp add: outcome_def)
      next
        case done_
        have m3: "may_move v old w3"
          using R(6)[of ok] done_ by simp
        obtain h w4 where k: "ask_if env (old \<noteq> None \<and> ok) w3 = (h, w4)"
          by fastforce
        note A = ask_facts[OF k m3 R(5)]
        show ?thesis
        proof (cases h)
          case None
          then show ?thesis
            using assms(1) p c b1 b2 s k done_ caught_facts[of env old w4 a w' v old] A by (simp add: roll_back_def)
        next
          case (Some healthy)
          then have "finish_rollback env v old ok healthy w4 = (a, w')"
            using assms(1) p c b1 b2 s k done_ by (simp add: roll_back_def)
          then show ?thesis
            by (rule finish_rollback_facts) (use A Some cur in auto)
        qed
      qed
    qed
  qed
qed

lemma after_restart_facts:
  assumes "after_restart env v old restarted w = (a, w')" "may_move v old w" "\<not> running w" "ud_current (uw_disk w) = Some v"
  shows "sound_log v old w' \<and> outcome v old a w'"
proof -
  obtain h w1 where k: "ask_if env restarted w = (h, w1)"
    by fastforce
  note A = ask_facts[OF k assms(2,3)]
  consider "h = None" | "h = Some False" | "h = Some True"
    by (cases h) auto
  then show ?thesis
  proof cases
    case 1
    then show ?thesis
      using assms(1) k A caught_facts[of env old w1 a w' v old] by (simp add: after_restart_def)
  next
    case 2
    then show ?thesis
      using assms(1) k A roll_back_facts[of env v old w1 a w'] by (simp add: after_restart_def)
  next
    case 3
    then have run: "running w1" and m: "may_move v old w1" and cur: "ud_current (uw_disk w1) = Some v"
      using A assms(4) by auto
    obtain b w2 where c: "clear_recovery env w1 = (b, w2)"
      by fastforce
    have C: "sound_log v old w2" "running w2 = running w1" "ud_current (uw_disk w2) = ud_current (uw_disk w1)"
        "uw_required w2 \<longleftrightarrow> \<not> b" "ud_barrier (uw_disk w2) = None \<longleftrightarrow> b" "\<not> b \<longrightarrow> may_move v old w2" "\<not> stopped_by (uw_log w2)"
      using clear_recovery_facts[OF c m] run cur by simp_all
    show ?thesis
    proof (cases b)
      case True
      then show ?thesis
        using assms(1) k 3 c C run cur by (auto simp: after_restart_def outcome_def)
    next
      case False
      then show ?thesis
        using assms(1) k 3 c C caught_facts[of env old w2 a w' v old] by (simp add: after_restart_def)
    qed
  qed
qed

lemma swap_facts:
  assumes "swap_and_restart env v old w = (a, w')" "may_move v old w"
  shows "sound_log v old w' \<and> outcome v old a w'"
proof -
  obtain b1 w1 where p: "point_previous env old w = (b1, w1)"
    by fastforce
  note m1 = point_facts(2)[OF assms(2) p]
  obtain b2 w2 where c: "point_current env (Some v) w1 = (b2, w2)"
    by fastforce
  note C = point_facts(1)[OF m1 c]
  obtain r w3 where s: "restart_broker env w2 = (r, w3)"
    by fastforce
  note R = restart_facts[OF s conjunct1[OF C]]
  consider (previous) "\<not> b1" | (current) "b1" "\<not> b2" | (thrown) "b1" "b2" "r = None" | (unconfirmed) ok where "b1" "b2" "r = Some (ok, True)"
    | (done_) ok where "b1" "b2" "r = Some (ok, False)"
    by (cases r) auto
  then show ?thesis
  proof cases
    case previous
    then show ?thesis
      using assms(1) p m1 caught_facts[of env old w1 a w' v old] by (simp add: swap_and_restart_def)
  next
    case current
    then show ?thesis
      using assms(1) p c C caught_facts[of env old w2 a w' v old] by (simp add: swap_and_restart_def)
  next
    case thrown
    then show ?thesis
      using assms(1) p c s R(6) caught_facts[of env old w3 a w' v old] by (simp add: swap_and_restart_def)
  next
    case unconfirmed
    then have "a = NotActivated StopUnconfirmed"
        "w' = uncertain env \<lparr>rv_phase = Unconfirmed, rv_version = Some v, rv_previous = old\<rparr> w3"
      using assms(1) p c s by (simp_all add: swap_and_restart_def)
    then show ?thesis
      using uncertain_facts[OF R(1-3), of env "\<lparr>rv_phase = Unconfirmed, rv_version = Some v, rv_previous = old\<rparr>"]
      by (simp add: outcome_def)
  next
    case done_
    have "after_restart env v old ok w3 = (a, w')"
      using done_ assms(1) p c s by (simp add: swap_and_restart_def)
    then show ?thesis
      by (rule after_restart_facts) (use R(6)[of ok] done_ R(4,5) C in simp_all)
  qed
qed

section \<open>The whole operation\<close>

text \<open>An operation that ends before the recovery record: no pointer was written, and no restart asked for.\<close>

definition untouched :: "upd_disk \<Rightarrow> upd_world \<Rightarrow> bool" where
  "untouched d w \<longleftrightarrow> same_pointers d (uw_disk w) \<and> \<not> uw_required w
     \<and> list_all (\<lambda>(e, d'). \<not> moves e \<and> same_pointers d d') (uw_log w)"

definition at_rest :: "upd_world \<Rightarrow> bool" where
  "at_rest w \<longleftrightarrow> untouched (uw_disk w) w \<and> \<not> stopped_by (uw_log w) \<and> ud_barrier (uw_disk w) = None"

lemma unconfirmed_stop_moves: "unconfirmed_stop e \<Longrightarrow> moves e"
  by (cases e) simp_all

lemma quiet_frozen: "list_all (\<lambda>(e, d'). \<not> moves e \<and> P d') es \<Longrightarrow> \<not> stopped_by es"
  by (induction es) (auto dest: unconfirmed_stop_moves)

lemma untouched_sound:
  assumes "untouched d w"
  shows "sound_log v (ud_current d) w"
proof -
  have "list_all (\<lambda>(e, d'). \<not> moves e \<and> same_pointers d d') es \<Longrightarrow> covered v (ud_current d) a es \<and> frozen False es" for a es
  proof (induction es arbitrary: a)
    case (Cons x es)
    have "\<not> unconfirmed_stop (fst x)"
      using Cons.prems unconfirmed_stop_moves[of "fst x"] by auto
    then show ?case
      using Cons by (cases x) (auto simp: same_pointers_def)
  qed simp
  then show ?thesis
    using assms by (simp add: untouched_def sound_log_def)
qed

lemma untouched_note:
  "untouched d w \<Longrightarrow> \<not> moves e \<Longrightarrow> untouched d (upd_note e w)"
  by (auto simp: untouched_def upd_note_def)

lemma activation_body_facts:
  assumes "activation_body env v old w = (a, w')" "at_rest w" "old = ud_current (uw_disk w)"
  shows "a = NotActivated RecoveryNeeded \<and> untouched (uw_disk w) w' \<and> ud_barrier (uw_disk w') = None
     \<or> a = NotActivated NoBarrier \<and> untouched (uw_disk w) w'
     \<or> sound_log v old w' \<and> outcome v old a w'"
proof -
  define r where "r = \<lparr>rv_phase = Pending, rv_version = Some v, rv_previous = old\<rparr>"
  have u: "untouched (uw_disk w) w" and b: "ud_barrier (uw_disk w) = None"
    using assms(2) by (simp_all add: at_rest_def)
  obtain k w1 where p: "persist_initial env r w = (k, w1)"
    by fastforce
  have p': "upd_durable env BarrierWritten (\<lambda>d. d\<lparr>ud_barrier := Some r\<rparr>) w = (k, w1)"
    using p b by (simp add: persist_initial_def)
  have u1: "untouched (uw_disk w) w1"
    using p' u by (auto simp: upd_durable_def upd_change_def upd_note_def untouched_def same_pointers_def split: io_answer.splits)
  show ?thesis
  proof (cases "an_root env")
    case False
    then have "a = NotActivated RecoveryNeeded" "w' = upd_note WriteLost w"
      using assms(1) by (simp_all add: activation_body_def)
    then show ?thesis
      using untouched_note[OF u, of WriteLost] b by (simp add: upd_note_def)
  next
    case io: True
    show ?thesis
    proof (cases k)
      case False
      then show ?thesis
        using assms(1) io p u1 by (simp add: activation_body_def r_def)
    next
      case True
      have "ud_barrier (uw_disk w1) \<noteq> None"
        using p' True by (auto simp: upd_durable_def upd_change_def upd_note_def split: io_answer.splits)
      moreover have "\<not> stopped_by (uw_log w1)"
        using u1 by (auto simp: untouched_def dest: quiet_frozen)
      ultimately have "may_move v old (w1\<lparr>uw_required := True\<rparr>)"
        using untouched_sound[OF u1, of v] assms(3) by (simp add: may_move_def sound_log_def)
      moreover have "swap_and_restart env v old (w1\<lparr>uw_required := True\<rparr>) = (a, w')"
        using assms(1) io p True by (simp add: activation_body_def r_def)
      ultimately show ?thesis
        using swap_facts by blast
    qed
  qed
qed

lemma with_lease_facts:
  assumes "with_lease env v old w = (a, w')" "at_rest w" "old = ud_current (uw_disk w)"
  shows "(\<exists>r. a = NotActivated r \<and> (r = NoBarrier \<or> ud_barrier (uw_disk w') = None)) \<and> untouched (uw_disk w) w'
     \<or> sound_log v old w' \<and> outcome v old a w' \<and> (an_boundary_given env \<or> an_managed env \<and> an_lease env)"
proof -
  consider "an_boundary_given env" | "\<not> an_boundary_given env" "\<not> (an_managed env \<and> an_lease env)" | "\<not> an_boundary_given env" "an_managed env" "an_lease env"
    by blast
  then show ?thesis
  proof cases
    case 1
    then show ?thesis
      using activation_body_facts[of env v old w a w'] assms by (auto simp: with_lease_def)
  next
    case 2
    then show ?thesis
      using assms by (auto simp: with_lease_def at_rest_def split: if_splits)
  next
    case 3
    let ?w = "upd_note LeaseTaken w"
    obtain w1 where body: "activation_body env v old ?w = (a, w1)" and w': "w' = (if uw_required w1 then w1 else upd_note LeaseReturned w1)"
      using assms(1) 3 by (auto simp: with_lease_def split: prod.splits)
    have "at_rest ?w"
      using assms(2) untouched_note[of "uw_disk w" w LeaseTaken] by (auto simp: at_rest_def upd_note_def)
    note B = activation_body_facts[OF body this, of]
    have d: "uw_disk ?w = uw_disk w"
      by (simp add: upd_note_def)
    have sound: "sound_log v old w' \<and> outcome v old a w'" if "sound_log v old w1" "outcome v old a w1"
      using that unfolding w' by (auto simp: sound_log_def outcome_def upd_note_def running_def split: activation.splits)
    have unt: "untouched (uw_disk w) w' \<and> uw_disk w' = uw_disk w1" if "untouched (uw_disk w) w1"
      using that untouched_note[of "uw_disk w" w1 LeaseReturned] by (simp add: w' upd_note_def)
    show ?thesis
      using B assms(3) sound unt 3 unfolding d by auto
  qed
qed

definition idle :: "upd_world \<Rightarrow> bool" where
  "idle w \<longleftrightarrow> uw_log w = [] \<and> \<not> uw_required w"

definition admissible :: "upd_answers \<Rightarrow> string \<Rightarrow> upd_disk \<Rightarrow> bool" where
  "admissible env v d \<longleftrightarrow> an_lock env \<and> valid_version v \<and> an_supported env \<and> ud_barrier d = None
     \<and> (case an_sessions env of None \<Rightarrow> True | Some n \<Rightarrow> n \<le> 0) \<and> verified env d v
     \<and> (an_windows env \<longrightarrow> an_desktop_valid env v) \<and> ud_current d \<noteq> Some v
     \<and> an_admit env \<noteq> Some None \<and> an_admit env \<noteq> Some (Some False)
     \<and> (an_boundary_given env \<or> an_managed env \<and> an_lease env)"

lemma activate_version_facts:
  assumes "activate_version env v w = (a, w')" "idle w"
  shows "(a = Rejects \<or> (\<exists>r. a = NotActivated r)) \<and> w' = w
     \<or> ud_barrier (uw_disk w) = None \<and> (\<exists>r. a = NotActivated r \<and> (r = NoBarrier \<or> ud_barrier (uw_disk w') = None))
         \<and> untouched (uw_disk w) w'
     \<or> admissible env v (uw_disk w) \<and> sound_log v (ud_current (uw_disk w)) w' \<and> outcome v (ud_current (uw_disk w)) a w'"
proof (cases "(a = Rejects \<or> (\<exists>r. a = NotActivated r)) \<and> w' = w")
  case False
  let ?d = "uw_disk w"
  have guard: "an_lock env" "valid_version v" "activation_refusal env v ?d = None" "target_refusal env v ?d = None"
    "ud_current ?d \<noteq> Some v" "an_admit env \<noteq> Some None" "an_admit env \<noteq> Some (Some False)"
    "with_lease env v (ud_current ?d) w = (a, w')"
    using assms(1) False by (auto simp: activate_version_def Let_def split: if_splits option.splits bool.splits)
  have b: "an_supported env" "ud_barrier ?d = None" "case an_sessions env of None \<Rightarrow> True | Some n \<Rightarrow> n \<le> 0"
    using guard(3) by (auto simp: activation_refusal_def split: if_splits option.splits)
  have t: "verified env ?d v" "an_windows env \<longrightarrow> an_desktop_valid env v"
    using guard(4) by (auto simp: target_refusal_def split: if_splits)
  have "at_rest w"
    using assms(2) b(2) by (simp add: at_rest_def idle_def untouched_def)
  then show ?thesis
    using with_lease_facts[OF guard(8) _ refl] guard b t by (auto simp: admissible_def)
qed simp

lemma covered_place:
  "covered v old a (pre @ (e, d) # post) \<Longrightarrow>
     ud_barrier d \<noteq> None \<or> ud_current d = old \<or> ud_current d = Some v \<and> answering a (pre @ [(e, d)])"
  by simp

text \<open>
  C28. At every moment of an activation, so wherever a crash stops it: without a recovery record on the disk the
  current version is the one before, or it is the new one and the broker that runs it has answered since its restart.
\<close>

theorem swap_is_covered_by_recovery:
  assumes "activate_version env v w = (a, w')" "idle w" "uw_log w' = pre @ (e, d) # post"
  shows "ud_barrier d \<noteq> None \<or> ud_current d = ud_current (uw_disk w)
     \<or> ud_current d = Some v \<and> answering False (pre @ [(e, d)])"
proof -
  consider "w' = w" | "untouched (uw_disk w) w'" | "sound_log v (ud_current (uw_disk w)) w'"
    using activate_version_facts[OF assms(1,2)] by blast
  then have "sound_log v (ud_current (uw_disk w)) w'"
    by cases (use assms(2) untouched_sound in \<open>auto simp: idle_def sound_log_def\<close>)
  then show ?thesis
    unfolding sound_log_def assms(3) by (intro covered_place[of v _ False pre e d post]) simp
qed

text \<open>
  Once a broker's stop could not be confirmed nothing moves any more in this activation: no pointer is written,
  nothing is restarted, and the recovery record stays at every later moment.
\<close>

theorem unconfirmed_stop_freezes:
  assumes "activate_version env v w = (a, w')" "idle w" "uw_log w' = pre @ (Restarted ok True, d) # post"
  shows "list_all (\<lambda>(e, d'). e \<noteq> PointedPrevious \<and> e \<noteq> PointedCurrent \<and> e \<noteq> BarrierRemoved \<and> e \<noteq> RestartThrew
      \<and> (\<forall>ok u. e \<noteq> Restarted ok u) \<and> ud_barrier d' \<noteq> None) post \<and> ud_barrier (uw_disk w') \<noteq> None"
proof -
  have stopped: "stopped_by (uw_log w')"
    by (simp add: assms(3))
  have "\<not> untouched (uw_disk w) w'"
    using quiet_frozen[of _ "uw_log w'"] stopped by (auto simp: untouched_def)
  then have s: "sound_log v (ud_current (uw_disk w)) w'" "outcome v (ud_current (uw_disk w)) a w'"
    using activate_version_facts[OF assms(1,2)] assms(2,3) by (auto simp: idle_def)
  have "frozen True es \<Longrightarrow> list_all (\<lambda>(e, d'). e \<noteq> PointedPrevious \<and> e \<noteq> PointedCurrent \<and> e \<noteq> BarrierRemoved \<and> e \<noteq> RestartThrew
      \<and> (\<forall>ok u. e \<noteq> Restarted ok u) \<and> ud_barrier d' \<noteq> None) es" for es
    by (induction es) auto
  moreover have "frozen True post"
    using s(1) by (simp add: sound_log_def assms(3))
  moreover have "ud_barrier (uw_disk w') \<noteq> None"
    using s(2) stopped by (auto simp: outcome_def)
  ultimately show ?thesis
    by blast
qed

text \<open>
  C29. The report tells where the machine is. Activated: the new version is current, its broker answered after its
  restart, the recovery record is gone. Rolled back: the old version is current; called healthy, its broker
  answered; and the record is gone exactly when nothing is left to recover. Not activated: a record is there, or no
  pointer was written and nothing was restarted.
\<close>

theorem activation_report_is_true:
  assumes "activate_version env v w = (a, w')" "idle w"
  shows "case a of
      Rejects \<Rightarrow> w' = w
    | NotActivated r \<Rightarrow> ud_barrier (uw_disk w') \<noteq> None
        \<or> same_pointers (uw_disk w) (uw_disk w') \<and> list_all (\<lambda>(e, d). \<not> moves e) (uw_log w')
    | Activated v' p \<Rightarrow> v' = v \<and> p = ud_current (uw_disk w) \<and> ud_current (uw_disk w') = Some v
        \<and> ud_barrier (uw_disk w') = None \<and> answering False (uw_log w')
    | RolledBack v' p healthy note \<Rightarrow> v' = v \<and> p = ud_current (uw_disk w) \<and> ud_current (uw_disk w') = ud_current (uw_disk w)
        \<and> (healthy \<longrightarrow> answering False (uw_log w'))
        \<and> (ud_barrier (uw_disk w') = None \<longleftrightarrow> note = RolledBackOnly \<or> note = RollbackFailed)
        \<and> (note = RolledBackOnly \<longrightarrow> ud_current (uw_disk w) = None \<or> healthy)
        \<and> (note = RollbackFailed \<longrightarrow> ud_failure (uw_disk w') \<noteq> None)"
proof -
  have unt: "list_all (\<lambda>(e, d). \<not> moves e) (uw_log w')" if "untouched d w'" for d
    using that by (auto simp: untouched_def list_all_iff case_prod_beta)
  consider (early) "a = Rejects \<or> (\<exists>r. a = NotActivated r)" "w' = w" | (before) r where "a = NotActivated r" "untouched (uw_disk w) w'"
    | (ran) "outcome v (ud_current (uw_disk w)) a w'"
    using activate_version_facts[OF assms] by blast
  then show ?thesis
  proof cases
    case early
    then show ?thesis
      using assms(2) by (auto simp: idle_def)
  next
    case before
    then show ?thesis
      using unt[OF before(2)] by (simp add: untouched_def)
  next
    case ran
    then show ?thesis
      by (cases a) (auto simp: outcome_def running_def)
  qed
qed

text \<open>The body never gives the lease back.\<close>

definition no_return :: "upd_world \<Rightarrow> bool" where
  "no_return w \<longleftrightarrow> LeaseReturned \<notin> fst ` set (uw_log w)"

lemma no_return_note [simp]: "e \<noteq> LeaseReturned \<Longrightarrow> no_return (upd_note e w) = no_return w"
  "no_return (w\<lparr>uw_disk := d\<rparr>) = no_return w" "no_return (w\<lparr>uw_required := b\<rparr>) = no_return w"
  by (auto simp: no_return_def upd_note_def)

lemma no_return_writes:
  "e \<noteq> LeaseReturned \<Longrightarrow> no_return w \<Longrightarrow> no_return (snd (upd_replace env e f w))"
  "e \<noteq> LeaseReturned \<Longrightarrow> no_return w \<Longrightarrow> no_return (snd (upd_durable env e f w))"
  by (auto simp: upd_replace_def upd_durable_def upd_change_def split: io_answer.splits)

lemma no_return_steps:
  "no_return w \<Longrightarrow> no_return (snd (persist_initial env r w))" "no_return w \<Longrightarrow> no_return (snd (persist_recovery env r w))"
  "no_return w \<Longrightarrow> no_return (snd (persist_failure env r w))" "no_return w \<Longrightarrow> no_return (snd (point_current env c w))"
  "no_return w \<Longrightarrow> no_return (snd (point_previous env c w))" "no_return w \<Longrightarrow> no_return (snd (restart_broker env w))"
  "no_return w \<Longrightarrow> no_return (snd (ask_if env b w))"
  by (auto simp: persist_initial_def persist_recovery_def persist_failure_def point_current_def point_previous_def restart_broker_def
      ask_if_def ask_healthy_def no_return_writes split: option.splits prod.splits)

lemma no_return_case:
  "no_return (snd m) \<Longrightarrow> (\<And>b w'. no_return w' \<Longrightarrow> no_return (snd (f b w'))) \<Longrightarrow> no_return (snd (case m of (b, w') \<Rightarrow> f b w'))"
  "no_return (snd m) \<Longrightarrow> (\<And>b w'. no_return w' \<Longrightarrow> no_return (g b w')) \<Longrightarrow> no_return (case m of (b, w') \<Rightarrow> g b w')"
  by (cases m; simp)+

lemma no_return_recovery:
  "no_return w \<Longrightarrow> no_return (snd (clear_recovery env w))" "no_return w \<Longrightarrow> no_return (uncertain env r w)"
  by (auto simp: clear_recovery_def uncertain_def intro!: no_return_case no_return_steps no_return_writes split: option.split bool.split)

lemma no_return_caught: "no_return w \<Longrightarrow> no_return (snd (activation_caught env c w))"
  by (simp add: activation_caught_def no_return_recovery)

lemmas no_return_rules = no_return_case(1) no_return_steps no_return_recovery no_return_caught

lemma no_return_finish: "no_return w \<Longrightarrow> no_return (snd (finish_rollback env v old restored healthy w))"
  unfolding finish_rollback_def Let_def
  by (rule no_return_case(1)) (auto intro!: no_return_rules split: bool.split)

lemma no_return_roll_back: "no_return w \<Longrightarrow> no_return (snd (roll_back env v old w))"
  unfolding roll_back_def by (auto intro!: no_return_rules no_return_finish split: bool.split option.split)

lemma no_return_after_restart: "no_return w \<Longrightarrow> no_return (snd (after_restart env v old restarted w))"
  unfolding after_restart_def by (auto intro!: no_return_rules no_return_roll_back split: bool.split option.split)

lemma no_return_swap: "no_return w \<Longrightarrow> no_return (snd (swap_and_restart env v old w))"
  unfolding swap_and_restart_def by (auto intro!: no_return_rules no_return_after_restart split: bool.split option.split)

lemma no_return_body: "no_return w \<Longrightarrow> no_return (snd (activation_body env v old w))"
  unfolding activation_body_def by (auto intro!: no_return_rules no_return_swap split: bool.split)

lemma lease_returned_settled:
  assumes "activate_version env v w = (a, w')" "idle w" "\<not> no_return w'"
  shows "\<not> uw_required w'"
proof -
  have "no_return w"
    using assms(2) by (simp add: idle_def no_return_def)
  have "with_lease env v (ud_current (uw_disk w)) w = (a, w')"
    using assms \<open>no_return w\<close> by (auto simp: activate_version_def Let_def split: if_splits option.splits bool.splits)
  then have "\<not> no_return (snd (activation_body env v (ud_current (uw_disk w)) w)) \<or> \<not> uw_required w'
      \<or> \<not> no_return (snd (activation_body env v (ud_current (uw_disk w)) (upd_note LeaseTaken w))) \<or> w' = w"
    using assms(3) by (auto simp: with_lease_def upd_note_def[of LeaseReturned] split: if_splits prod.splits)
  then show ?thesis
    using no_return_body \<open>no_return w\<close> assms(2,3) by (auto simp: idle_def)
qed

text \<open>
  C30. Nothing moves, no pointer and no broker, unless all of this held: no recovery record, no open session
  reported, the version prepared and verified, another one current, the lifecycle's admission; and, where no
  boundary was given, the broker's lease. And when the lease goes back, either no recovery record is on the disk, or
  establishing it failed: the failed write may have left it there, but then no pointer was written, nothing was
  restarted, and the activation reports that it did not happen.
\<close>

theorem activation_needs_a_boundary:
  assumes "activate_version env v w = (a, w')" "idle w"
  shows "(list_all (\<lambda>(e, d). \<not> moves e) (uw_log w') \<or> admissible env v (uw_disk w))
     \<and> (LeaseReturned \<notin> fst ` set (uw_log w') \<or> ud_barrier (uw_disk w') = None
        \<or> a = NotActivated NoBarrier \<and> same_pointers (uw_disk w) (uw_disk w') \<and> list_all (\<lambda>(e, d). \<not> moves e) (uw_log w'))"
proof
  have unt: "list_all (\<lambda>(e, d). \<not> moves e) (uw_log w')" if "untouched d w'" for d
    using that by (auto simp: untouched_def list_all_iff case_prod_beta)
  have same: "list_all (\<lambda>(e, d). \<not> moves e) (uw_log w')" if "w' = w"
    using that assms(2) by (simp add: idle_def)
  note F = activate_version_facts[OF assms]
  show "list_all (\<lambda>(e, d). \<not> moves e) (uw_log w') \<or> admissible env v (uw_disk w)"
    using F unt same by blast
  have settled: "\<not> uw_required w' \<or> LeaseReturned \<notin> fst ` set (uw_log w')"
    using lease_returned_settled[OF assms] by (auto simp: no_return_def)
  show "LeaseReturned \<notin> fst ` set (uw_log w') \<or> ud_barrier (uw_disk w') = None
      \<or> a = NotActivated NoBarrier \<and> same_pointers (uw_disk w) (uw_disk w') \<and> list_all (\<lambda>(e, d). \<not> moves e) (uw_log w')"
  proof -
    consider "w' = w" | (early) r where "a = NotActivated r" "r = NoBarrier \<or> ud_barrier (uw_disk w') = None" "untouched (uw_disk w) w'"
      | "outcome v (ud_current (uw_disk w)) a w'"
      using F by blast
    then show ?thesis
    proof cases
      case early
      then show ?thesis using unt[OF early(3)] by (auto simp: untouched_def)
    qed (use settled assms(2) in \<open>auto simp: outcome_def idle_def\<close>)
  qed
qed

lemma sample_idle: "idle sample_world"
  by (simp add: idle_def sample_world_def)

lemma sample_before_swap: "ud_current (uw_disk sample_world) = Some ''1.0.0''" "uw_disk sample_world = sample_disk"
  by (simp_all add: sample_world_def sample_disk_def)

text \<open>The new broker does not answer, the old one does.\<close>

lemma sample_rolled_back:
  "fst (activate_version sample_answers ''1.0.1'' sample_world) = RolledBack ''1.0.1'' (Some ''1.0.0'') True RolledBackOnly"
  by code_simp

lemma sample_rolled_back_log:
  "List.map fst (uw_log (snd (activate_version sample_answers ''1.0.1'' sample_world))) =
     [LeaseTaken, BarrierWritten, PointedPrevious, PointedCurrent, Restarted True False, Asked False, BarrierWritten, PointedCurrent,
      Restarted True False, Asked True, BarrierWritten, BarrierRemoved, LeaseReturned]"
  by code_simp

text \<open>The stop of the old broker is not confirmed.\<close>

definition stuck_answers :: upd_answers where
  "stuck_answers = sample_answers\<lparr>an_restart := (\<lambda>n. Some (True, True))\<rparr>"

lemma stuck_log:
  "uw_log (snd (activate_version stuck_answers ''1.0.1'' sample_world)) =
     (let r = Some \<lparr>rv_phase = Pending, rv_version = Some ''1.0.1'', rv_previous = Some ''1.0.0''\<rparr>;
          d = sample_disk\<lparr>ud_barrier := r, ud_previous := Some ''1.0.0'', ud_current := Some ''1.0.1''\<rparr> in
      [(LeaseTaken, sample_disk), (BarrierWritten, sample_disk\<lparr>ud_barrier := r\<rparr>),
       (PointedPrevious, sample_disk\<lparr>ud_barrier := r, ud_previous := Some ''1.0.0''\<rparr>), (PointedCurrent, d)]
      @ (Restarted True True, d) # [(BarrierWritten,
           d\<lparr>ud_barrier := Some \<lparr>rv_phase = Unconfirmed, rv_version = Some ''1.0.1'', rv_previous = Some ''1.0.0''\<rparr>\<rparr>)])"
  by code_simp

lemma sample_cleared:
  "ud_barrier (snd (uw_log (snd (activate_version sample_answers ''1.0.1'' sample_world)) ! 11)) = None"
  by code_simp

theorem swap_is_covered_by_recovery_witness:
  "ud_current (snd (uw_log (snd (activate_version sample_answers ''1.0.1'' sample_world)) ! 11)) \<in> {Some ''1.0.0'', Some ''1.0.1''}"
proof -
  let ?r = "activate_version sample_answers ''1.0.1'' sample_world"
  have len: "11 < length (uw_log (snd ?r))"
    using arg_cong[OF sample_rolled_back_log, of length] by simp
  have "uw_log (snd ?r) = take 11 (uw_log (snd ?r)) @ (fst (uw_log (snd ?r) ! 11), snd (uw_log (snd ?r) ! 11)) # drop (Suc 11) (uw_log (snd ?r))"
    using id_take_nth_drop[OF len] by simp
  from swap_is_covered_by_recovery[OF surjective_pairing sample_idle this] show ?thesis
    using sample_cleared by (auto simp: sample_before_swap sample_disk_def)
qed

theorem unconfirmed_stop_freezes_witness:
  "ud_barrier (uw_disk (snd (activate_version stuck_answers ''1.0.1'' sample_world))) \<noteq> None"
  using unconfirmed_stop_freezes[OF surjective_pairing sample_idle stuck_log[unfolded Let_def]] by blast

theorem activation_report_is_true_witness:
  "ud_current (uw_disk (snd (activate_version sample_answers ''1.0.1'' sample_world))) = Some ''1.0.0''
     \<and> ud_barrier (uw_disk (snd (activate_version sample_answers ''1.0.1'' sample_world))) = None
     \<and> answering False (uw_log (snd (activate_version sample_answers ''1.0.1'' sample_world)))"
  using activation_report_is_true[OF surjective_pairing sample_idle, of sample_answers "''1.0.1''"]
  by (simp add: sample_rolled_back sample_before_swap)

theorem activation_needs_a_boundary_witness:
  "admissible sample_answers ''1.0.1'' sample_disk
     \<and> ud_barrier (uw_disk (snd (activate_version sample_answers ''1.0.1'' sample_world))) = None"
proof -
  let ?r = "activate_version sample_answers ''1.0.1'' sample_world"
  have returned: "LeaseReturned \<in> fst ` set (uw_log (snd ?r))"
    using arg_cong[OF sample_rolled_back_log, of set] by (simp only: list.set_map) simp
  have moved: "\<not> list_all (\<lambda>(e, d). \<not> moves e) (uw_log (snd ?r))"
  proof
    assume "list_all (\<lambda>(e, d). \<not> moves e) (uw_log (snd ?r))"
    then have "list_all (\<lambda>e. \<not> moves e) (List.map fst (uw_log (snd ?r)))"
      by (auto simp: list_all_iff case_prod_beta)
    then show False
      unfolding sample_rolled_back_log by simp
  qed
  show ?thesis
    using activation_needs_a_boundary[OF surjective_pairing sample_idle, of sample_answers "''1.0.1''"] moved returned
    by (simp add: sample_rolled_back sample_before_swap)
qed

text \<open>
  When the recovery record is written but its directory cannot be synced, the activation reports that the record
  could not be established, gives the lease back and has moved nothing; but the record is on the disk, and the next
  activation is refused because of it, though nothing fails any more.
\<close>

definition late_answers :: upd_answers where
  "late_answers = sample_answers\<lparr>an_io := (\<lambda>n. if n = 1 then IoLate else IoDone)\<rparr>"

theorem late_record_blocks_later_activations:
  "fst (activate_version late_answers ''1.0.1'' sample_world) = NotActivated NoBarrier
     \<and> LeaseReturned \<in> fst ` set (uw_log (snd (activate_version late_answers ''1.0.1'' sample_world)))
     \<and> ud_current (uw_disk (snd (activate_version late_answers ''1.0.1'' sample_world))) = Some ''1.0.0''
     \<and> activate_version sample_answers ''1.0.1'' (sample_world\<lparr>uw_disk := uw_disk (snd (activate_version late_answers ''1.0.1'' sample_world))\<rparr>)
       = (NotActivated EarlierUnconfirmed,
          sample_world\<lparr>uw_disk := uw_disk (snd (activate_version late_answers ''1.0.1'' sample_world))\<rparr>)"
  by code_simp

end
