(* ===== verification/UpdatesFacts.thy ===== *)
theory UpdatesFacts
  imports Updates "HOL-Library.List_Lexorder" "HOL-Library.Product_Lexorder"
begin

text \<open>
  Facts on the choice of a version: where the order of the code is the order of semantic versioning, what is known
  of a version the feed offers, and what removing versions leaves.
\<close>

section \<open>The order of semantic versioning\<close>

text \<open>An identifier of a prerelease: numbers come before names, by value; names by their letters.\<close>

datatype identifier_key = NumberKey int | NameKey "nat list"

instantiation identifier_key :: linorder
begin

fun less_identifier_key :: "identifier_key \<Rightarrow> identifier_key \<Rightarrow> bool" where
  "less_identifier_key (NumberKey m) (NumberKey n) \<longleftrightarrow> m < n"
| "less_identifier_key (NumberKey m) (NameKey t) \<longleftrightarrow> True"
| "less_identifier_key (NameKey s) (NumberKey n) \<longleftrightarrow> False"
| "less_identifier_key (NameKey s) (NameKey t) \<longleftrightarrow> s < t"

definition less_eq_identifier_key :: "identifier_key \<Rightarrow> identifier_key \<Rightarrow> bool" where
  "less_eq_identifier_key a b \<longleftrightarrow> a < b \<or> a = b"

instance
proof
  fix a b c :: identifier_key
  show "a < b \<longleftrightarrow> a \<le> b \<and> \<not> b \<le> a"
    by (cases a; cases b) (auto simp: less_eq_identifier_key_def)
  show "a \<le> a"
    by (simp add: less_eq_identifier_key_def)
  show "a \<le> b \<Longrightarrow> b \<le> c \<Longrightarrow> a \<le> c"
    by (cases a; cases b; cases c) (auto simp: less_eq_identifier_key_def)
  show "a \<le> b \<Longrightarrow> b \<le> a \<Longrightarrow> a = b"
    by (cases a; cases b) (auto simp: less_eq_identifier_key_def)
  show "a \<le> b \<or> b \<le> a"
    by (cases a; cases b) (auto simp: less_eq_identifier_key_def)
qed

end

definition identifier_key :: "string \<Rightarrow> identifier_key" where
  "identifier_key w = (if digits w then NumberKey (digits_value w) else NameKey (List.map code w))"

text \<open>A version's place: its three numbers, a release after its prereleases, and those by their identifiers.\<close>

definition version_key :: "string \<Rightarrow> int list \<times> bool \<times> identifier_key list" where
  "version_key v = (List.map digits_value (split_on CHR ''.'' (core_of v)), parse_pre v = [], List.map identifier_key (parse_pre v))"

text \<open>
  The versions whose numbers are at most 9007199254740991 (the language's greatest safe integer), whose prerelease
  has no second hyphen, no number with a zero in front, and no name that begins with a digit.
\<close>

definition plain_identifier :: "string \<Rightarrow> bool" where
  "plain_identifier w \<longleftrightarrow> (if digits w then (hd w = CHR ''0'' \<longrightarrow> w = ''0'') \<and> digits_value w \<le> 9007199254740991
     else w \<noteq> [] \<and> \<not> is_digit (hd w) \<and> list_all alnum w)"

definition plain_version :: "string \<Rightarrow> bool" where
  "plain_version v \<longleftrightarrow> valid_version v \<and> list_all plain_identifier (parse_pre v)
     \<and> list_all (\<lambda>w. digits_value w \<le> 9007199254740991) (split_on CHR ''.'' (core_of v))
     \<and> (case rest_of v of None \<Rightarrow> True | Some r \<Rightarrow> CHR ''-'' \<notin> set r)"

lemma code_eq_iff [simp]: "code c = code d \<longleftrightarrow> c = d"
  by (simp add: code_def)

lemma text_less_iff: "text_less s t \<longleftrightarrow> List.map code s < List.map code t"
  by (induction s t rule: text_less.induct) auto

lemma digits_value_snoc: "digits_value (s @ [c]) = 10 * digits_value s + (int (code c) - 48)"
  by (simp add: digits_value_def)

lemma digit_range: "is_digit c \<Longrightarrow> 48 \<le> code c \<and> code c \<le> 57"
  by (simp add: between_def code_def)

lemma alnum_range: "alnum c \<Longrightarrow> \<not> is_digit c \<Longrightarrow> 65 \<le> code c"
  by (auto simp: alnum_def between_def code_def)

lemma digits_value_nonneg: "list_all is_digit s \<Longrightarrow> 0 \<le> digits_value s"
  by (induction s rule: rev_induct) (auto simp: digits_value_snoc digits_value_def[of "[]"] dest: digit_range)

lemma digits_value_pos: "digits s \<Longrightarrow> hd s \<noteq> CHR ''0'' \<Longrightarrow> 0 < digits_value s"
proof (induction s rule: rev_induct)
  case (snoc c s)
  then show ?case
  proof (cases "s = []")
    case True
    then have "48 \<le> code c" "c \<noteq> CHR ''0''"
      using snoc.prems by (auto simp: digits_def dest: digit_range)
    moreover have "code c \<noteq> code CHR ''0''"
      using \<open>c \<noteq> CHR ''0''\<close> by (simp only: code_eq_iff not_False_eq_True)
    moreover have "code CHR ''0'' = 48"
      by (simp add: code_def)
    ultimately show ?thesis
      using True by (simp add: digits_value_def)
  next
    case False
    then show ?thesis
      using snoc by (auto simp: digits_value_snoc digits_def dest!: digit_range)
  qed
qed (simp add: digits_def)

lemma show_nat_step: "d < 10 \<Longrightarrow> 0 < n \<Longrightarrow> show_nat (10 * n + d) = show_nat n @ [char_of (48 + d)]"
  by (subst show_nat.simps) simp

lemma show_digits:
  "digits s \<Longrightarrow> (hd s = CHR ''0'' \<longrightarrow> s = ''0'') \<Longrightarrow> show_nat (nat (digits_value s)) = s"
proof (induction s rule: rev_induct)
  case (snoc c s)
  have c: "48 \<le> code c" "code c \<le> 57"
    using snoc.prems(1) by (auto simp: digits_def dest: digit_range)
  have again: "char_of (48 + (code c - 48)) = c"
    using c by (simp add: code_def)
  show ?case
  proof (cases "s = []")
    case True
    have "nat (digits_value (s @ [c])) = code c - 48"
      using c True by (simp add: digits_value_def)
    then show ?thesis
      using c again True by (simp add: show_nat.simps)
  next
    case False
    then have s: "digits s" "hd s \<noteq> CHR ''0''"
      using snoc.prems by (auto simp: digits_def)
    then have pos: "0 < digits_value s"
      by (rule digits_value_pos)
    define n where "n = nat (digits_value s)"
    have n: "nat (digits_value (s @ [c])) = 10 * n + (code c - 48)" "0 < n"
      using pos c by (auto simp: digits_value_snoc n_def nat_add_distrib nat_mult_distrib nat_diff_distrib)
    have "show_nat (10 * n + (code c - 48)) = show_nat n @ [c]"
      using show_nat_step[of "code c - 48" n] n(2) c again by simp
    then show ?thesis
      using n(1) snoc.IH s by (simp add: n_def)
  qed
qed (simp add: digits_def)

lemma digits_value_inject:
  assumes "digits s" "digits t" "hd s = CHR ''0'' \<longrightarrow> s = ''0''" "hd t = CHR ''0'' \<longrightarrow> t = ''0''" "digits_value s = digits_value t"
  shows "s = t"
proof -
  have "s = show_nat (nat (digits_value s))"
    by (rule show_digits[OF assms(1,3), symmetric])
  also have "\<dots> = t"
    unfolding assms(5) by (rule show_digits[OF assms(2,4)])
  finally show ?thesis .
qed

text \<open>The sign that tells which of two keys is greater.\<close>

definition order_sign :: "'a :: linorder \<Rightarrow> 'a \<Rightarrow> int" where
  "order_sign a b = (if a < b then -1 else if a = b then 0 else 1)"

text \<open>Differences of safe integers are exact.\<close>

lemma safe_difference:
  assumes "0 \<le> m" "m \<le> 9007199254740991" "0 \<le> n" "n \<le> 9007199254740991"
  shows "js_minus (double_of (of_int m)) (double_of (of_int n)) = Fin (of_int (m - n))"
proof -
  have "double_of (of_int m) = Fin (of_int m)" "double_of (of_int n) = Fin (of_int n)"
    "double_of (of_int (m - n)) = Fin (of_int (m - n))"
    using assms double_of_int [of m] double_of_int [of n] double_of_int [of "m - n"] by simp_all
  then show ?thesis by (simp add: js_minus_def)
qed

lemma js_sign_int: "js_sign (Fin (of_int n)) = sgn n"
  by (simp add: js_sign_def sgn_if)

lemma safe_number:
  assumes "digits w" "digits_value w \<le> 9007199254740991" "digits u" "digits_value u \<le> 9007199254740991"
  shows "js_minus (number_of_text w) (number_of_text u) = Fin (of_int (digits_value w - digits_value u))"
  using assms digits_value_nonneg unfolding number_of_digits [OF assms(1)] number_of_digits [OF assms(3)]
  by (intro safe_difference) (simp_all add: digits_def)

lemma identifier_sign:
  assumes "plain_identifier one" "plain_identifier two" "one \<noteq> two"
  shows "(if digits one \<and> digits two then js_sign (js_minus (number_of_text one) (number_of_text two)) else if text_less one two then -1 else 1)
     = order_sign (identifier_key one) (identifier_key two) \<and> identifier_key one \<noteq> identifier_key two"
proof -
  have less: "text_less s t \<and> \<not> text_less t s" if "digits s" "plain_identifier t" "\<not> digits t" for s t
  proof -
    note h = that
    obtain c s' d t' where "s = c # s'" "t = d # t'" "is_digit c" "\<not> is_digit d" "alnum d"
      using h by (cases s; cases t) (auto simp: plain_identifier_def digits_def)
    moreover from this have "code c < code d"
      using digit_range[of c] alnum_range[of d] by simp
    ultimately show ?thesis
      by auto
  qed
  have inj: "List.map code one = List.map code two \<longleftrightarrow> one = two"
    using inj_map_eq_map[of code] by (auto simp: inj_def)
  consider "digits one" "digits two" | "digits one" "\<not> digits two" | "\<not> digits one" "digits two" | "\<not> digits one" "\<not> digits two"
    by blast
  then show ?thesis
  proof cases
    case 1
    then have "digits_value one \<noteq> digits_value two"
      using assms digits_value_inject by (auto simp: plain_identifier_def)
    moreover have "js_minus (number_of_text one) (number_of_text two) = Fin (of_int (digits_value one - digits_value two))"
      using 1 assms by (intro safe_number) (simp_all add: plain_identifier_def)
    ultimately show ?thesis
      using 1 by (simp only: js_sign_int) (auto simp: order_sign_def identifier_key_def sgn_if)
  next
    case 2
    then show ?thesis
      using less[of one two] assms by (simp add: order_sign_def identifier_key_def)
  next
    case 3
    then show ?thesis
      using less[of two one] assms by (simp add: order_sign_def identifier_key_def)
  next
    case 4
    then show ?thesis
      using inj assms(3) by (simp add: order_sign_def identifier_key_def text_less_iff)
  qed
qed

lemma compare_pre_sign:
  "list_all plain_identifier a \<Longrightarrow> list_all plain_identifier b \<Longrightarrow>
     compare_pre a b = order_sign (List.map identifier_key a) (List.map identifier_key b)"
proof (induction a b rule: compare_pre.induct)
  case (4 one as two bs)
  show ?case
  proof (cases "one = two")
    case True
    then show ?thesis
      using 4 by (simp add: order_sign_def)
  next
    case False
    then show ?thesis
      using identifier_sign[of one two] 4(2,3) by (auto simp: order_sign_def)
  qed
qed (simp_all add: order_sign_def)

lemma plain_numbers:
  assumes "plain_version v"
  obtains p q r where "split_on CHR ''.'' (core_of v) = [p, q, r]" "list_all digits [p, q, r]"
      "list_all (\<lambda>w. digits_value w \<le> 9007199254740991) [p, q, r]"
proof -
  obtain p q r where "split_on CHR ''.'' (core_of v) = [p, q, r]"
    using assms by (auto simp: plain_version_def valid_version_def length_Suc_conv eval_nat_numeral)
  then show ?thesis
    using assms that by (auto simp: plain_version_def valid_version_def)
qed

lemma compare_numbers_sign:
  assumes "list_all digits [p, q, r]" "list_all (\<lambda>w. digits_value w \<le> 9007199254740991) [p, q, r]"
    and "list_all digits [p', q', r']" "list_all (\<lambda>w. digits_value w \<le> 9007199254740991) [p', q', r']"
  shows "compare_numbers (List.map number_of_text [p, q, r]) (List.map number_of_text [p', q', r']) [0, 1, 2]
    = order_sign (List.map digits_value [p, q, r]) (List.map digits_value [p', q', r'])"
  using assms safe_number [of p p'] safe_number [of q q'] safe_number [of r r']
  by (simp add: number_at_def js_sign_int Let_def del: of_int_diff) (auto simp: order_sign_def sgn_if)

lemma compare_versions_sign:
  assumes "plain_version u" "plain_version v"
  shows "compare_versions u v = order_sign (version_key u) (version_key v)"
proof -
  obtain p q r where u: "split_on CHR ''.'' (core_of u) = [p, q, r]" "list_all digits [p, q, r]"
      "list_all (\<lambda>w. digits_value w \<le> 9007199254740991) [p, q, r]"
    using assms(1) by (rule plain_numbers)
  obtain p' q' r' where v: "split_on CHR ''.'' (core_of v) = [p', q', r']" "list_all digits [p', q', r']"
      "list_all (\<lambda>w. digits_value w \<le> 9007199254740991) [p', q', r']"
    using assms(2) by (rule plain_numbers)
  note numbers = compare_numbers_sign [OF u(2,3) v(2,3)]
  have pre: "compare_pre (parse_pre u) (parse_pre v) = order_sign (List.map identifier_key (parse_pre u)) (List.map identifier_key (parse_pre v))"
    using assms by (intro compare_pre_sign) (simp_all add: plain_version_def)
  show ?thesis
    unfolding compare_versions_def Let_def parse_numbers_def u(1) v(1) numbers pre version_key_def
    by (auto simp: order_sign_def less_prod_def')
qed

text \<open>
  C32. On versions whose numbers are safe integers and whose prereleases are plain the code's comparison, which
  subtracts doubles, is the order of semantic versioning: by the three numbers, a release after its prereleases, and those identifier by identifier, numbers before names, numbers by
  value, names by their letters, and a shorter list before its extensions.
\<close>

theorem version_order_is_semver:
  assumes "plain_version u" "plain_version v"
  shows "compare_versions u v = (if version_key u < version_key v then -1 else if version_key u = version_key v then 0 else 1)"
  using compare_versions_sign[OF assms] by (simp add: order_sign_def)

theorem version_order_is_semver_witness:
  "compare_versions ''1.0.0-alpha.9'' ''1.0.0-alpha.10'' = -1 \<and> version_key ''1.0.0-alpha.9'' < version_key ''1.0.0-alpha.10''"
proof -
  have p: "plain_version ''1.0.0-alpha.9''" "plain_version ''1.0.0-alpha.10''"
    by code_simp+
  have "compare_versions ''1.0.0-alpha.9'' ''1.0.0-alpha.10'' = -1"
    by code_simp
  then show ?thesis
    using version_order_is_semver[OF p] by (simp split: if_splits)
qed

text \<open>
  Outside of those versions the comparison is no order: a number is less than a greater number by value and less
  than a name by its letters, so three prereleases follow each other in a circle; and what follows a second hyphen
  is ignored, so different prereleases are equal. All of them are versions the code accepts.
\<close>

theorem version_order_is_not_transitive:
  "compare_versions ''1.0.0-2'' ''1.0.0-10'' = -1 \<and> compare_versions ''1.0.0-10'' ''1.0.0-1a'' = -1
     \<and> compare_versions ''1.0.0-1a'' ''1.0.0-2'' = -1 \<and> compare_versions ''1.0.0-rc-1'' ''1.0.0-rc-2'' = 0
     \<and> list_all valid_version [''1.0.0-2'', ''1.0.0-10'', ''1.0.0-1a'', ''1.0.0-rc-1'', ''1.0.0-rc-2'']"
  by code_simp

text \<open>
  Beyond the safe integers different versions are equal: the greater number is rounded down to the lesser one.
  Nothing in the code bounds the digits of a version.
\<close>

lemma rounded_down: "double_of 9007199254740993 = Fin 9007199254740992"
proof -
  have "(4503599627370496 :: int) * 2 = 9007199254740992" by simp
  have "\<not> bitlen 9007199254740993 \<le> 53" "bitlen 9007199254740993 \<le> 54"
    using bitlen_le_iff_power [of 9007199254740993 53] bitlen_le_iff_power [of 9007199254740993 54] by simp_all
  then have "log2_floor 9007199254740993 = 53" by (simp add: log2_floor_def)
  moreover have "round_even (9007199254740993 / 2) = 4503599627370496"
  proof -
    have "\<lfloor>9007199254740993 / 2 :: rat\<rfloor> = 4503599627370496" by (simp add: floor_eq_iff)
    then show ?thesis by (simp add: round_even_def)
  qed
  moreover have "\<not> (9007199254740993 :: rat) \<ge> 2 ^ 1024 - 2 ^ 970" by simp
  ultimately show ?thesis by (simp add: double_of_def Let_def pow2_def)
qed

lemma big_numbers_compare_equal:
  "compare_versions ''1.0.0-9007199254740992'' ''1.0.0-9007199254740993'' = 0
     \<and> list_all valid_version [''1.0.0-9007199254740992'', ''1.0.0-9007199254740993'']"
proof -
  have d: "digits ''9007199254740992''" "digits ''9007199254740993''"
    "digits_value ''9007199254740992'' = 9007199254740992" "digits_value ''9007199254740993'' = 9007199254740993"
    by code_simp+
  have "double_of 9007199254740992 = Fin 9007199254740992" using double_of_int [of 9007199254740992] by simp
  then have "js_sign (js_minus (number_of_text ''9007199254740992'') (number_of_text ''9007199254740993'')) = 0"
    using rounded_down by (simp add: number_of_digits [OF d(1)] number_of_digits [OF d(2)] d js_minus_def js_sign_def double_of_def)
  then have pre: "compare_pre [''9007199254740992''] [''9007199254740993''] = 0" using d by simp
  have parts: "parse_numbers ''1.0.0-9007199254740992'' = [Fin 1, Fin 0, Fin 0]" "parse_numbers ''1.0.0-9007199254740993'' = [Fin 1, Fin 0, Fin 0]"
    "parse_pre ''1.0.0-9007199254740992'' = [''9007199254740992'']" "parse_pre ''1.0.0-9007199254740993'' = [''9007199254740993'']"
    by code_simp+
  have "js_minus (Fin 1) (Fin 1) = Fin 0" "js_minus (Fin 0) (Fin 0) = Fin 0" by (simp_all add: js_minus_def double_of_def)
  then have "compare_versions ''1.0.0-9007199254740992'' ''1.0.0-9007199254740993'' = 0"
    unfolding compare_versions_def Let_def parts pre by (simp add: number_at_def)
  moreover have "list_all valid_version [''1.0.0-9007199254740992'', ''1.0.0-9007199254740993'']" by code_simp
  ultimately show ?thesis by (rule conjI)
qed

section \<open>Sorting\<close>

lemma set_insert_version [simp]: "set (insert_version v ws) = insert v (set ws)"
  by (induction ws) auto

lemma set_sort_aux: "set (foldl (\<lambda>sorted v. insert_version v sorted) ws vs) = set ws \<union> set vs"
  by (induction vs arbitrary: ws) auto

lemma set_sort_versions [simp]: "set (sort_versions vs) = set vs"
  by (simp add: sort_versions_def set_sort_aux)

lemma distinct_insert_version: "distinct (insert_version v ws) \<longleftrightarrow> v \<notin> set ws \<and> distinct ws"
  by (induction ws) auto

lemma distinct_sort_aux: "distinct (foldl (\<lambda>sorted v. insert_version v sorted) ws vs) \<longleftrightarrow> distinct (ws @ vs)"
  by (induction vs arbitrary: ws) (auto simp: distinct_insert_version)

lemma distinct_sort_versions [simp]: "distinct (sort_versions vs) = distinct vs"
  by (simp add: sort_versions_def distinct_sort_aux)

lemma sort_versions_empty [simp]: "sort_versions vs = [] \<longleftrightarrow> vs = []"
  by (metis set_empty set_sort_versions)

lemma sorted_insert_version:
  "list_all plain_version (v # ws) \<Longrightarrow> sorted (List.map version_key ws) \<Longrightarrow> sorted (List.map version_key (insert_version v ws))"
proof (induction ws)
  case (Cons w ws)
  then show ?case
    by (cases "compare_versions v w < 0") (auto simp: compare_versions_sign order_sign_def split: if_splits)
qed simp

lemma sorted_sort_versions: "list_all plain_version vs \<Longrightarrow> sorted (List.map version_key (sort_versions vs))"
proof -
  have "list_all plain_version (ws @ vs) \<Longrightarrow> sorted (List.map version_key ws) \<Longrightarrow>
      sorted (List.map version_key (foldl (\<lambda>sorted v. insert_version v sorted) ws vs))" for ws
  proof (induction vs arbitrary: ws)
    case (Cons v vs)
    have "list_all plain_version (insert_version v ws @ vs)"
      using Cons.prems(1) by (auto simp: list_all_iff)
    moreover have "sorted (List.map version_key (insert_version v ws))"
      using Cons.prems by (intro sorted_insert_version) auto
    ultimately show ?case
      using Cons.IH by simp
  qed simp
  then show "list_all plain_version vs \<Longrightarrow> ?thesis"
    by (simp add: sort_versions_def)
qed

lemma sorted_last: "sorted (List.map f xs) \<Longrightarrow> x \<in> set xs \<Longrightarrow> f x \<le> f (last xs)"
  by (induction xs) (auto split: if_splits)

section \<open>What the feed offers\<close>

lemma offered_facts:
  assumes "cr_eligible (check_for_update parse_date now waiting current doc) = Some c"
  shows "compare_versions (ca_version c) current > 0" "same_line (ca_version c) current"
    "given (map_of (fd_time doc) (ca_version c)) = Some (ca_published c)"
    "mature (case waiting of None \<Rightarrow> 72 | Some h \<Rightarrow> h) (age_hours parse_date now (ca_published c))"
    "\<exists>d. map_of (fd_versions doc) (ca_version c) = Some (Some d) \<and> given (di_tarball d) = Some (ca_tarball c)
        \<and> given (di_integrity d) = Some (ca_integrity c)"
    "cr_reason (check_for_update parse_date now waiting current doc) = Eligible (ca_version c)"
proof -
  let ?line = "filter (\<lambda>v. same_line v current) (newer_versions current doc)"
  define hours where "hours = (case waiting of None \<Rightarrow> maturation_hours | Some h \<Rightarrow> h)"
  define latest where "latest = last (newer_versions current doc)"
  have ne: "newer_versions current doc \<noteq> []" "?line \<noteq> []"
    using assms by (auto simp: check_for_update_def refuse_update_def Let_def split: if_splits)
  then have eq: "check_for_update parse_date now waiting current doc = check_candidate parse_date now hours doc latest (last ?line)"
    by (simp add: check_for_update_def Let_def hours_def latest_def)
  have "last ?line \<in> set ?line"
    using ne(2) by (rule last_in_set)
  then have line: "compare_versions (last ?line) current > 0" "same_line (last ?line) current"
    by (auto simp: newer_versions_def)
  obtain published where p: "given (map_of (fd_time doc) (last ?line)) = Some published"
      and m: "mature hours (age_hours parse_date now published)"
    using assms unfolding eq
    by (auto simp: check_candidate_def refuse_update_def Let_def split: option.splits if_splits)
  then obtain d where d: "map_of (fd_versions doc) (last ?line) = Some (Some d)"
    using assms unfolding eq
    by (auto simp: check_candidate_def refuse_update_def Let_def split: option.splits)
  then obtain tarball integrity where t: "given (di_tarball d) = Some tarball" "given (di_integrity d) = Some integrity"
    using assms p m unfolding eq by (auto simp: check_candidate_def refuse_update_def Let_def split: option.splits)
  have c: "check_candidate parse_date now hours doc latest (last ?line) =
      \<lparr>cr_latest = Some latest, cr_eligible = Some c, cr_reason = Eligible (last ?line)\<rparr>"
      "c = \<lparr>ca_version = last ?line, ca_tarball = tarball, ca_integrity = integrity, ca_published = published\<rparr>"
    using assms p m d t unfolding eq by (auto simp: check_candidate_def)
  have "hours = (case waiting of None \<Rightarrow> 72 | Some h \<Rightarrow> h)"
    by (simp add: hours_def maturation_hours_def split: option.split)
  moreover have "ca_published c = published" "ca_version c = last ?line" "ca_tarball c = tarball" "ca_integrity c = integrity"
    by (simp_all add: c(2))
  ultimately show "compare_versions (ca_version c) current > 0" "same_line (ca_version c) current"
    "given (map_of (fd_time doc) (ca_version c)) = Some (ca_published c)"
    "mature (case waiting of None \<Rightarrow> 72 | Some h \<Rightarrow> h) (age_hours parse_date now (ca_published c))"
    "\<exists>d. map_of (fd_versions doc) (ca_version c) = Some (Some d) \<and> given (di_tarball d) = Some (ca_tarball c)
        \<and> given (di_integrity d) = Some (ca_integrity c)"
    "cr_reason (check_for_update parse_date now waiting current doc) = Eligible (ca_version c)"
    using line p d t m unfolding eq c(1) by simp_all
qed

text \<open>
  A version is offered only when all of this holds: the feed has it, it is greater than the running one by the
  code's order and in its line, the feed says when it was published and that is at least the waiting time ago, and
  its archive and its digest are the ones the feed gives for it.
\<close>

theorem offered_version_is_admissible:
  assumes "cr_eligible (check_for_update parse_date now waiting current doc) = Some c"
  shows "compare_versions (ca_version c) current > 0 \<and> same_line (ca_version c) current
     \<and> map_of (fd_time doc) (ca_version c) = Some (ca_published c)
     \<and> (\<exists>t. parse_date (ca_published c) = Some t
           \<and> of_int (now - t) / 3600000 \<ge> (case waiting of None \<Rightarrow> 72 | Some h \<Rightarrow> h))
     \<and> (\<exists>d. map_of (fd_versions doc) (ca_version c) = Some (Some d) \<and> di_tarball d = Some (ca_tarball c)
           \<and> di_integrity d = Some (ca_integrity c) \<and> ca_tarball c \<noteq> [] \<and> ca_integrity c \<noteq> [])
     \<and> cr_reason (check_for_update parse_date now waiting current doc) = Eligible (ca_version c)"
  using offered_facts[OF assms] by (auto simp: given_def mature_def age_hours_def split: if_splits option.splits)

definition sample_feed :: feed_document where
  "sample_feed = \<lparr>fd_versions = [(''1.2.4'', Some \<lparr>di_tarball = Some ''t'', di_integrity = Some ''i''\<rparr>), (''1.2.3'', None), (''1.10.0'', None)],
     fd_time = [(''1.2.4'', ''then''), (''1.10.0'', ''now'')]\<rparr>"

theorem offered_version_is_admissible_witness:
  "cr_eligible (check_for_update (\<lambda>_. Some 0) 259200000 None ''1.2.3'' (sample_feed\<lparr>fd_versions := take 2 (fd_versions sample_feed)\<rparr>))
     = Some \<lparr>ca_version = ''1.2.4'', ca_tarball = ''t'', ca_integrity = ''i'', ca_published = ''then''\<rparr>
   \<and> compare_versions ''1.2.4'' ''1.2.3'' > 0 \<and> same_line ''1.2.4'' ''1.2.3''"
proof -
  have e: "cr_eligible (check_for_update (\<lambda>_. Some 0) 259200000 None ''1.2.3'' (sample_feed\<lparr>fd_versions := take 2 (fd_versions sample_feed)\<rparr>))
     = Some \<lparr>ca_version = ''1.2.4'', ca_tarball = ''t'', ca_integrity = ''i'', ca_published = ''then''\<rparr>"
    by code_simp
  then show ?thesis
    using offered_version_is_admissible[OF e] by simp
qed

text \<open>
  Of plain versions, the one offered is the greatest of its line: no version of the feed in the running one's
  line is greater.
\<close>

theorem offered_version_is_greatest:
  assumes "cr_eligible (check_for_update parse_date now waiting current doc) = Some c"
    and "list_all plain_version (current # List.map fst (fd_versions doc))"
    and "v \<in> set (List.map fst (fd_versions doc))" "same_line v current"
  shows "compare_versions v (ca_version c) \<le> 0"
proof -
  let ?line = "filter (\<lambda>v. same_line v current) (newer_versions current doc)"
  have ne: "newer_versions current doc \<noteq> []" "?line \<noteq> []"
    using assms(1) by (auto simp: check_for_update_def refuse_update_def Let_def split: if_splits)
  have c: "ca_version c = last ?line"
    using assms(1) ne by (auto simp: check_for_update_def check_candidate_def refuse_update_def Let_def split: option.splits if_splits)
  have plain: "list_all plain_version (filter (\<lambda>v. compare_versions v current > 0) (List.map fst (fd_versions doc)))"
    using assms(2) by (auto simp: list_all_iff)
  have all: "plain_version u" if "u \<in> set (newer_versions current doc)" for u
    using that plain by (auto simp: newer_versions_def list_all_iff)
  have last: "last ?line \<in> set ?line"
    using ne(2) by (rule last_in_set)
  have v: "plain_version v" "plain_version current"
    using assms(2,3) by (auto simp: list_all_iff)
  have sorted: "sorted (List.map version_key ?line)"
    using sorted_sort_versions[OF plain] by (simp add: newer_versions_def[symmetric] sorted_wrt_filter sorted_map)
  have "version_key v \<le> version_key (last ?line)"
  proof (cases "compare_versions v current > 0")
    case True
    then have "v \<in> set ?line"
      using assms(3,4) by (simp add: newer_versions_def)
    then show ?thesis
      by (rule sorted_last[OF sorted])
  next
    case False
    have "compare_versions (last ?line) current > 0" "plain_version (last ?line)"
      using last all by (auto simp: newer_versions_def)
    then show ?thesis
      using False v by (auto simp: compare_versions_sign order_sign_def split: if_splits)
  qed
  then show ?thesis
    using all last v by (auto simp: c compare_versions_sign order_sign_def)
qed

theorem offered_version_is_greatest_witness:
  "compare_versions ''1.2.3'' ''1.2.4'' \<le> 0"
proof -
  have "cr_eligible (check_for_update (\<lambda>_. Some 0) 259200000 None ''1.2.3'' (sample_feed\<lparr>fd_versions := take 2 (fd_versions sample_feed)\<rparr>))
     = Some \<lparr>ca_version = ''1.2.4'', ca_tarball = ''t'', ca_integrity = ''i'', ca_published = ''then''\<rparr>"
    "list_all plain_version (''1.2.3'' # List.map fst (fd_versions (sample_feed\<lparr>fd_versions := take 2 (fd_versions sample_feed)\<rparr>)))"
    "''1.2.3'' \<in> set (List.map fst (fd_versions (sample_feed\<lparr>fd_versions := take 2 (fd_versions sample_feed)\<rparr>)))" "same_line ''1.2.3'' ''1.2.3''"
    by code_simp+
  from offered_version_is_greatest[OF this] show ?thesis
    by simp
qed

section \<open>Removing prepared versions\<close>

text \<open>
  Removing versions never takes the running one, the one a rollback needs, or anything that is not a prepared
  version; what it keeps covers the rest; of plain versions it keeps the greatest ones, as many as asked for; and it
  removes nothing while recovery is pending.
\<close>

theorem prune_keeps_what_is_needed:
  assumes "prune_versions pending current previous keep listing = Some (removed, kept)"
  shows "\<not> pending \<and> set removed \<inter> (set_option current \<union> set_option previous) = {} \<and> set removed \<inter> set kept = {}
     \<and> set removed \<union> (set kept \<inter> {v. v \<in> set listing \<and> valid_version v}) = {v. v \<in> set listing \<and> valid_version v}
     \<and> set_option current \<union> set_option previous \<subseteq> set kept
     \<and> (distinct listing \<longrightarrow> int (length removed) = max 0 (int (card (set removed \<union> set kept - (set_option current \<union> set_option previous))) - max 0 keep))
     \<and> (list_all plain_version (filter valid_version listing) \<longrightarrow>
          (\<forall>u \<in> set removed. \<forall>v \<in> set kept - (set_option current \<union> set_option previous). compare_versions u v \<le> 0))"
proof -
  define keep' where "keep' = set_option current \<union> set_option previous"
  define protected where "protected = js_dedup (concat [case current of None \<Rightarrow> [] | Some v \<Rightarrow> [v], case previous of None \<Rightarrow> [] | Some v \<Rightarrow> [v]])"
  define removable where "removable = sort_versions (filter (\<lambda>v. v \<notin> set protected) (prepared_versions listing))"
  define n where "n = nat (max 0 (int (length removable) - max 0 keep))"
  have protected: "set protected = keep'"
    by (auto simp: protected_def keep'_def split: option.splits)
  have r: "\<not> pending" "removed = filter (\<lambda>v. v \<notin> set (drop n removable)) removable" "kept = protected @ drop n removable"
    using assms by (auto simp: prune_versions_def Let_def protected_def removable_def n_def split: if_splits)
  have able: "set removable = {v. v \<in> set listing \<and> valid_version v} - keep'"
    by (auto simp: removable_def prepared_versions_def protected)
  have sub: "set (drop n removable) \<subseteq> set removable"
    by (rule set_drop_subset)
  have sets: "set removed = set removable - set (drop n removable)"
    by (auto simp: r(2))
  have first: "set removed \<subseteq> set (take n removable)"
    unfolding sets by (metis Diff_subset_conv append_take_drop_id equalityD1 set_append sup_commute)
  have le: "n \<le> length removable"
    by (simp add: n_def)
  have count: "int (length removed) = max 0 (int (card (set removed \<union> set kept - keep')) - max 0 keep)" if d: "distinct listing"
  proof -
    have dis: "distinct removable"
      using d by (simp add: removable_def prepared_versions_def)
    have "removed = take n removable"
    proof -
      have "\<forall>v \<in> set (take n removable). v \<notin> set (drop n removable)"
        using dis by (metis append_take_drop_id disjoint_iff distinct_append)
      then have "filter (\<lambda>v. v \<notin> set (drop n removable)) (take n removable @ drop n removable) = take n removable"
        unfolding filter_append by (simp add: filter_True filter_False)
      then show ?thesis
        unfolding r(2) append_take_drop_id .
    qed
    then have "length removed = n"
      using le by simp
    moreover have "set removed \<union> set kept - keep' = set removable"
      using sub able by (auto simp: sets r(3) protected)
    ultimately show ?thesis
      using dis by (simp add: n_def distinct_card)
  qed
  have order: "compare_versions u v \<le> 0"
    if plain: "list_all plain_version (filter valid_version listing)" and u: "u \<in> set removed" and v: "v \<in> set kept - keep'" for u v
  proof -
    have v': "v \<in> set (drop n removable)"
      using v by (auto simp: r(3) protected)
    have all: "list_all plain_version (filter (\<lambda>v. v \<notin> set protected) (prepared_versions listing))"
      using plain by (auto simp: list_all_iff prepared_versions_def)
    have "sorted (List.map version_key (take n removable @ drop n removable))"
      using sorted_sort_versions[OF all] by (simp add: removable_def)
    then have "version_key u \<le> version_key v"
      using u v' first unfolding map_append sorted_append by (auto simp del: append_take_drop_id)
    moreover have "plain_version w" if "w \<in> set removable" for w
      using that all by (auto simp: list_all_iff removable_def)
    then have "plain_version u" "plain_version v"
      using u v' sub sets by auto
    ultimately show ?thesis
      by (auto simp: compare_versions_sign order_sign_def)
  qed
  show ?thesis
    unfolding keep'_def[symmetric] using r(1) sub able count order by (auto simp: sets r(3) protected)
qed

theorem prune_keeps_what_is_needed_witness:
  "prune_versions False (Some ''1.2.3'') (Some ''1.1.0'') 1 [''1.2.3'', ''1.1.0'', ''1.0.10'', ''1.0.9'', ''x'']
     = Some ([''1.0.9''], [''1.2.3'', ''1.1.0'', ''1.0.10''])
   \<and> compare_versions ''1.0.9'' ''1.0.10'' \<le> 0"
proof -
  have e: "prune_versions False (Some ''1.2.3'') (Some ''1.1.0'') 1 [''1.2.3'', ''1.1.0'', ''1.0.10'', ''1.0.9'', ''x'']
     = Some ([''1.0.9''], [''1.2.3'', ''1.1.0'', ''1.0.10''])"
    by code_simp
  have "list_all plain_version (filter valid_version [''1.2.3'', ''1.1.0'', ''1.0.10'', ''1.0.9'', ''x''])"
    by code_simp
  then show ?thesis
    using prune_keeps_what_is_needed[OF e] e by simp
qed

end
