(* ===== verification/UpdateRun.thy ===== *)
theory UpdateRun
  imports UpdateActivationFacts UpdatesFacts
begin

text \<open>
  \<open>src/update.ts\<close>: preparing a version from the feed's archive, the switch of the automatic updates, and the one pass
  the timer runs, with the facts on them.

  What unpacking, installing and the Windows overlay do is answered from outside, as is the digest of what was
  downloaded. Staging directories are not represented: a version's directory appears when its staging directory is
  renamed. Under Windows it is sealed after that, elsewhere before. Counting its files at the end does not fail.
\<close>

section \<open>Preparing a version\<close>

datatype overlay_answer = OverlayReady | OverlayAbsent | OverlayRevisionDiffers | OverlayThrew

record prepare_answers =
  pa_digest :: "string option"
  pa_staged :: bool
  pa_unpacked :: bool
  pa_launcher :: bool
  pa_manifest :: "(string \<times> string) option"
  pa_overlay :: overlay_answer
  pa_installed :: "bool option"
  pa_sealed :: bool
  pa_placed :: bool
  pa_recorded :: bool

datatype unprepared =
    IntegrityDiffers | IdentityInvalid | DigestDiffers | CannotUnpack | NoLauncher | ManifestDiffers
  | DesktopDeferred | RevisionDiffers | InstallFailed

datatype preparation = PrepareRejects | Unprepared unprepared | Prepared string

definition existing_version :: "upd_answers \<Rightarrow> candidate \<Rightarrow> string option option \<Rightarrow> upd_disk \<Rightarrow> preparation" where
  "existing_version env c identity d =
     (if \<not> verified env d (ca_version c) then Unprepared IdentityInvalid
      else if identity \<noteq> Some (Some (ca_integrity c)) then Unprepared IntegrityDiffers
      else if an_windows env \<and> \<not> an_desktop_valid env (ca_version c) then Unprepared IdentityInvalid
      else Prepared (ca_version c))"

text \<open>What keeps the staged files from being a version; \<open>Inl\<close> is a throw.\<close>

definition staged_problem :: "upd_answers \<Rightarrow> prepare_answers \<Rightarrow> candidate \<Rightarrow> unit + unprepared option" where
  "staged_problem env pa c =
     (if \<not> pa_staged pa then Inl ()
      else if \<not> pa_unpacked pa then Inr (Some CannotUnpack)
      else if \<not> pa_launcher pa then Inr (Some NoLauncher)
      else case pa_manifest pa of
        None \<Rightarrow> Inl ()
      | Some m \<Rightarrow>
          if m \<noteq> (''sbar-orbit'', ca_version c) then Inr (Some ManifestDiffers)
          else if an_windows env
          then (case pa_overlay pa of OverlayReady \<Rightarrow> Inr None | OverlayAbsent \<Rightarrow> Inr (Some DesktopDeferred)
                | OverlayRevisionDiffers \<Rightarrow> Inr (Some RevisionDiffers) | OverlayThrew \<Rightarrow> Inl ())
          else (case pa_installed pa of None \<Rightarrow> Inl () | Some ok \<Rightarrow> Inr (if ok then None else Some InstallFailed)))"

definition put_version :: "string \<Rightarrow> string option option \<Rightarrow> upd_disk \<Rightarrow> upd_disk" where
  "put_version v identity d = d\<lparr>ud_versions := put v identity (ud_versions d)\<rparr>"

definition place_version :: "upd_answers \<Rightarrow> prepare_answers \<Rightarrow> candidate \<Rightarrow> upd_world \<Rightarrow> preparation \<times> upd_world" where
  "place_version env pa c w =
     (if an_windows env
      then (if \<not> pa_placed pa then (PrepareRejects, w)
            else let w1 = upd_change DirectoryPlaced (put_version (ca_version c) None) w in
              if \<not> pa_sealed pa then (PrepareRejects, w1)
              else let w2 = upd_change DirectorySealed (put_version (ca_version c) (Some (Some (ca_integrity c)))) w1 in
                (if pa_recorded pa then Prepared (ca_version c) else PrepareRejects, w2))
      else (if \<not> pa_sealed pa \<or> \<not> pa_placed pa then (PrepareRejects, w)
            else (Prepared (ca_version c),
                  upd_change DirectoryPlaced (put_version (ca_version c) (Some (Some (ca_integrity c)))) w)))"

definition prepare_version :: "upd_answers \<Rightarrow> prepare_answers \<Rightarrow> candidate \<Rightarrow> upd_world \<Rightarrow> preparation \<times> upd_world" where
  "prepare_version env pa c w =
     (if \<not> an_lock env \<or> \<not> valid_version (ca_version c) then (PrepareRejects, w)
      else case map_of (ud_versions (uw_disk w)) (ca_version c) of
        Some identity \<Rightarrow> (existing_version env c identity (uw_disk w), w)
      | None \<Rightarrow>
          (case pa_digest pa of
             None \<Rightarrow> (PrepareRejects, w)
           | Some digest \<Rightarrow>
               if digest \<noteq> ca_integrity c then (Unprepared DigestDiffers, w)
               else (case staged_problem env pa c of
                   Inl u \<Rightarrow> (PrepareRejects, w)
                 | Inr (Some problem) \<Rightarrow> (Unprepared problem, w)
                 | Inr None \<Rightarrow> place_version env pa c w)))"

section \<open>The switch\<close>

definition automatic_updates :: "string option \<Rightarrow> bool" where
  "automatic_updates file = (js_trim (case file of None \<Rightarrow> ''off'' | Some t \<Rightarrow> t) = ''on'')"

text \<open>The file afterwards, and the answer: whether updates are automatic, and whether the timer took it.\<close>

definition set_automatic_updates :: "bool \<Rightarrow> bool \<Rightarrow> string option \<times> bool \<times> bool" where
  "set_automatic_updates on timer =
     (if on \<and> timer then Some (''on'' @ [CHR 0x0A]) else Some (''off'' @ [CHR 0x0A]), on \<and> timer, timer)"

section \<open>One pass\<close>

datatype update_run =
    NotRun | NothingEligible check_reason | NothingPrepared preparation | PreparedOnly string | Ran string activation

definition run_update ::
  "(string \<Rightarrow> int option) \<Rightarrow> int \<Rightarrow> rat option \<Rightarrow> string option \<Rightarrow> string option \<Rightarrow> bool \<Rightarrow> bool \<Rightarrow> string \<Rightarrow> feed_document \<Rightarrow>
   upd_answers \<Rightarrow> prepare_answers \<Rightarrow> upd_world \<Rightarrow> update_run \<times> upd_world" where
  "run_update parse_date now waiting switch_before switch_after updatable may_activate current doc env pa w =
     (if \<not> automatic_updates switch_before \<or> \<not> updatable then (NotRun, w)
      else let found = check_for_update parse_date now waiting current doc in
        case cr_eligible found of
          None \<Rightarrow> (NothingEligible (cr_reason found), w)
        | Some c \<Rightarrow>
            (let (p, w1) = prepare_version env pa c w in
             case p of
               Prepared v \<Rightarrow>
                 if \<not> automatic_updates switch_after \<or> \<not> may_activate then (PreparedOnly v, w1)
                 else (case activate_version env v (w1\<lparr>uw_log := []\<rparr>) of
                     (a, w2) \<Rightarrow> (Ran v a, w2\<lparr>uw_log := uw_log w1 @ uw_log w2\<rparr>))
             | _ \<Rightarrow> (NothingPrepared p, w1)))"

section \<open>What a prepared version is\<close>

definition complete_release :: "upd_answers \<Rightarrow> prepare_answers \<Rightarrow> candidate \<Rightarrow> bool" where
  "complete_release env pa c \<longleftrightarrow> pa_digest pa = Some (ca_integrity c) \<and> pa_unpacked pa \<and> pa_launcher pa
     \<and> pa_manifest pa = Some (''sbar-orbit'', ca_version c)
     \<and> (if an_windows env then pa_overlay pa = OverlayReady else pa_installed pa = Some True)"

lemma staged_complete: "staged_problem env pa c = Inr None \<Longrightarrow> pa_digest pa = Some (ca_integrity c) \<Longrightarrow> complete_release env pa c"
  by (auto simp: staged_problem_def complete_release_def split: if_splits option.splits overlay_answer.splits)

text \<open>
  At every moment of a preparation each verified version was there before with the same identity, or it is
  the candidate, its archive has the digest of the feed and every step of making it ready went well.
\<close>

definition prepared_soundly :: "upd_answers \<Rightarrow> prepare_answers \<Rightarrow> candidate \<Rightarrow> upd_disk \<Rightarrow> upd_disk \<Rightarrow> bool" where
  "prepared_soundly env pa c d0 d \<longleftrightarrow> ud_current d = ud_current d0 \<and> ud_previous d = ud_previous d0 \<and> ud_barrier d = ud_barrier d0
     \<and> (\<forall>u. u \<noteq> ca_version c \<longrightarrow> map_of (ud_versions d) u = map_of (ud_versions d0) u)
     \<and> (map_of (ud_versions d) (ca_version c) = map_of (ud_versions d0) (ca_version c)
         \<or> map_of (ud_versions d0) (ca_version c) = None
             \<and> (map_of (ud_versions d) (ca_version c) = Some None
               \<or> map_of (ud_versions d) (ca_version c) = Some (Some (Some (ca_integrity c))) \<and> complete_release env pa c))"

lemma prepare_version_facts:
  assumes "prepare_version env pa c w = (p, w')" "uw_log w = []"
  shows "prepared_soundly env pa c (uw_disk w) (uw_disk w')"
    "list_all (\<lambda>(e, d). \<not> moves e \<and> prepared_soundly env pa c (uw_disk w) d) (uw_log w')"
    "uw_required w' = uw_required w"
    "p = Prepared v \<Longrightarrow> v = ca_version c \<and> map_of (ud_versions (uw_disk w')) v = Some (Some (Some (ca_integrity c)))"
proof -
  have refl: "prepared_soundly env pa c (uw_disk w) (uw_disk w)"
    by (simp add: prepared_soundly_def)
  consider (same) "w' = w" "\<forall>v. p = Prepared v \<longrightarrow> v = ca_version c \<and> map_of (ud_versions (uw_disk w)) v = Some (Some (Some (ca_integrity c)))"
    | (placed) "map_of (ud_versions (uw_disk w)) (ca_version c) = None" "complete_release env pa c" "place_version env pa c w = (p, w')"
    using assms(1) staged_complete[of env pa c]
    by (auto simp: prepare_version_def existing_version_def verified_def split: if_splits option.splits sum.splits)
  then have all: "prepared_soundly env pa c (uw_disk w) (uw_disk w')
    \<and> list_all (\<lambda>(e, d). \<not> moves e \<and> prepared_soundly env pa c (uw_disk w) d) (uw_log w')
    \<and> uw_required w' = uw_required w
    \<and> (\<forall>v. p = Prepared v \<longrightarrow> v = ca_version c \<and> map_of (ud_versions (uw_disk w')) v = Some (Some (Some (ca_integrity c))))"
  proof cases
    case same
    then show ?thesis
      using refl assms(2) by simp
  next
    case placed
    then show ?thesis
      using assms(2)
      by (auto simp: place_version_def Let_def upd_change_def upd_note_def put_version_def prepared_soundly_def split: if_splits)
  qed
  then show "prepared_soundly env pa c (uw_disk w) (uw_disk w')"
    "list_all (\<lambda>(e, d). \<not> moves e \<and> prepared_soundly env pa c (uw_disk w) d) (uw_log w')"
    "uw_required w' = uw_required w"
    "p = Prepared v \<Longrightarrow> v = ca_version c \<and> map_of (ud_versions (uw_disk w')) v = Some (Some (Some (ca_integrity c)))"
    by blast+
qed

text \<open>
  At every moment of a preparation, so wherever a crash stops it, a version that passes verification was verified
  before, or it is the candidate: its archive has the digest of the feed, it unpacked, it has the launcher and the
  name and version asked for, and its dependencies or its desktop part are ready. No pointer and no recovery record
  changes.
\<close>

theorem prepared_version_is_complete:
  assumes "prepare_version env pa c w = (p, w')" "uw_log w = []" "uw_log w' = pre @ (e, d) # post"
  shows "ud_current d = ud_current (uw_disk w) \<and> ud_previous d = ud_previous (uw_disk w) \<and> ud_barrier d = ud_barrier (uw_disk w)
     \<and> (verified env d u \<longrightarrow> verified env (uw_disk w) u
         \<or> u = ca_version c \<and> pa_digest pa = Some (ca_integrity c) \<and> pa_unpacked pa \<and> pa_launcher pa
             \<and> pa_manifest pa = Some (''sbar-orbit'', u)
             \<and> (if an_windows env then pa_overlay pa = OverlayReady else pa_installed pa = Some True))"
proof -
  have s: "prepared_soundly env pa c (uw_disk w) d"
    using prepare_version_facts(2)[OF assms(1,2)] by (simp add: assms(3))
  have "verified env (uw_disk w) u \<or> u = ca_version c \<and> complete_release env pa c" if "verified env d u"
    using that s by (cases "u = ca_version c") (auto simp: prepared_soundly_def verified_def split: option.splits)
  then show ?thesis
    using s by (auto simp: prepared_soundly_def complete_release_def)
qed

definition sample_candidate :: candidate where
  "sample_candidate = \<lparr>ca_version = ''1.0.2'', ca_tarball = ''t'', ca_integrity = ''i'', ca_published = ''then''\<rparr>"

definition sample_prepare :: prepare_answers where
  "sample_prepare = \<lparr>pa_digest = Some ''i'', pa_staged = True, pa_unpacked = True, pa_launcher = True,
     pa_manifest = Some (''sbar-orbit'', ''1.0.2''), pa_overlay = OverlayReady, pa_installed = Some True, pa_sealed = True,
     pa_placed = True, pa_recorded = True\<rparr>"

lemma sample_prepared:
  "prepare_version sample_answers sample_prepare sample_candidate sample_world =
     (Prepared ''1.0.2'',
      (let d = sample_disk\<lparr>ud_versions := ud_versions sample_disk @ [(''1.0.2'', Some (Some ''i''))]\<rparr> in
       sample_world\<lparr>uw_disk := d, uw_log := [] @ (DirectoryPlaced, d) # []\<rparr>))"
  by code_simp

theorem prepared_version_is_complete_witness:
  "verified sample_answers (sample_disk\<lparr>ud_versions := ud_versions sample_disk @ [(''1.0.2'', Some (Some ''i''))]\<rparr>) ''1.0.2''
     \<and> \<not> verified sample_answers sample_disk ''1.0.2'' \<and> pa_digest sample_prepare = Some (ca_integrity sample_candidate)"
proof -
  let ?d = "sample_disk\<lparr>ud_versions := ud_versions sample_disk @ [(''1.0.2'', Some (Some ''i''))]\<rparr>"
  have v: "verified sample_answers ?d ''1.0.2''" "\<not> verified sample_answers (uw_disk sample_world) ''1.0.2''"
    by code_simp+
  have "uw_log sample_world = []"
    by (simp add: sample_world_def)
  from prepared_version_is_complete[OF sample_prepared[unfolded Let_def] this, of "[]" DirectoryPlaced ?d "[]" "''1.0.2''"]
  show ?thesis
    using v by (simp add: sample_before_swap)
qed

text \<open>
  C31. The pass the timer runs moves something, a pointer or the broker, only when the switch was on before it and still
  after the preparation, the installation is one it may update, activation was asked for, and the version is one
  the feed offers: greater than the running one, of its line, old enough, with the archive of the feed; and that
  version is prepared with the feed's digest and admissible when the activation begins.
\<close>

theorem automatic_run_is_cautious:
  assumes "run_update parse_date now waiting earlier later updatable may current doc env pa w = (r, w')" "idle w"
  shows "list_all (\<lambda>(e, d). \<not> moves e) (uw_log w')
     \<or> (automatic_updates earlier \<and> automatic_updates later \<and> updatable \<and> may
        \<and> (\<exists>c a d. r = Ran (ca_version c) a \<and> cr_eligible (check_for_update parse_date now waiting current doc) = Some c
             \<and> compare_versions (ca_version c) current > 0 \<and> same_line (ca_version c) current
             \<and> mature (case waiting of None \<Rightarrow> 72 | Some h \<Rightarrow> h) (age_hours parse_date now (ca_published c))
             \<and> admissible env (ca_version c) d \<and> map_of (ud_versions d) (ca_version c) = Some (Some (Some (ca_integrity c)))))"
proof (cases "list_all (\<lambda>(e, d). \<not> moves e) (uw_log w')")
  case False
  have log: "uw_log w = []" "\<not> uw_required w"
    using assms(2) by (simp_all add: idle_def)
  have "automatic_updates earlier" "updatable"
    using assms(1) False log by (auto simp: run_update_def split: if_splits)
  obtain c where c: "cr_eligible (check_for_update parse_date now waiting current doc) = Some c"
    using assms(1) False log by (auto simp: run_update_def Let_def split: if_splits option.splits)
  obtain p w1 where p: "prepare_version env pa c w = (p, w1)"
    by fastforce
  note P = prepare_version_facts[OF p log(1)]
  have still: "list_all (\<lambda>(e, d). \<not> moves e) (uw_log w1)"
    using P(2) by (auto simp: list_all_iff)
  have "w' \<noteq> w1"
    using still False by auto
  then obtain v where v: "p = Prepared v" "automatic_updates later" "may"
    using assms(1) p c \<open>automatic_updates earlier\<close> \<open>updatable\<close>
    by (auto simp: run_update_def Let_def split: if_splits preparation.splits)
  obtain a w2 where a: "activate_version env v (w1\<lparr>uw_log := []\<rparr>) = (a, w2)"
    by fastforce
  have r: "r = Ran v a" "w' = w2\<lparr>uw_log := uw_log w1 @ uw_log w2\<rparr>"
    using assms(1) p c v a \<open>automatic_updates earlier\<close> \<open>updatable\<close> by (simp_all add: run_update_def)
  have "idle (w1\<lparr>uw_log := []\<rparr>)"
    using P(3) log by (simp add: idle_def)
  note A = activate_version_facts[OF a this]
  have moved: "\<not> list_all (\<lambda>(e, d). \<not> moves e) (uw_log w2)"
    using False still by (simp add: r(2))
  then have "\<not> untouched d w2" for d
    by (auto simp: untouched_def list_all_iff)
  then have "admissible env v (uw_disk w1)"
    using A moved by auto
  then show ?thesis
    using P(4)[OF v(1)] c v r offered_facts(1,2,4)[OF c] \<open>automatic_updates earlier\<close> \<open>updatable\<close> by blast
qed simp

text \<open>The feed offers 1.0.2 to a machine that runs 1.0.0.\<close>

definition sample_offer :: feed_document where
  "sample_offer = \<lparr>fd_versions = [(''1.0.2'', Some \<lparr>di_tarball = Some ''t'', di_integrity = Some ''i''\<rparr>)], fd_time = [(''1.0.2'', ''then'')]\<rparr>"

definition sample_run :: "update_run \<times> upd_world" where
  "sample_run = run_update (\<lambda>_. Some 0) 259200000 None (Some ''on'') (Some ''on'') True True ''1.0.0'' sample_offer
     sample_answers sample_prepare sample_world"

theorem automatic_run_is_cautious_witness:
  "(\<exists>c. cr_eligible (check_for_update (\<lambda>_. Some 0) 259200000 None ''1.0.0'' sample_offer) = Some c
       \<and> compare_versions (ca_version c) ''1.0.0'' > 0) \<and> \<not> list_all (\<lambda>(e, d). \<not> moves e) (uw_log (snd sample_run))"
proof -
  have moved: "\<not> list_all (\<lambda>(e, d). \<not> moves e) (uw_log (snd sample_run))"
    by code_simp
  have "run_update (\<lambda>_. Some 0) 259200000 None (Some ''on'') (Some ''on'') True True ''1.0.0'' sample_offer
     sample_answers sample_prepare sample_world = (fst sample_run, snd sample_run)"
    by (simp add: sample_run_def)
  from automatic_run_is_cautious[OF this sample_idle] moved show ?thesis
    by blast
qed

end
