(* ===== verification/UsageTransport.thy ===== *)
theory UsageTransport
  imports OrbitPrelude "HOL-Library.Word"
begin

text \<open>
  \<open>src/read-usage-store-transport.ts\<close>: the store of the usage coordinator over a byte channel. Commits wait in a queue
  of at most four; one frame is written at a time, and its promise is kept only when the channel's write has ended
  well and exactly the acknowledgement of its number was read. Any doubt fails the transport for good.

  A step is one callback of the source run to its end. The clock is asked at every reading (\<open>te_clock\<close>, None for a
  time that is not one); arming and disarming a timer, and what the channel does during a write, are answers by the
  number of the frame. Bytes may arrive during a write; a commit during a write does not. The flag \<open>writing\<close> is true
  during a write only, when \<open>pumping\<close> already keeps \<open>finish\<close> from going on, and the \<open>finish\<close> at the end of \<open>pump\<close> does nothing,
  since a promise settles later; neither is represented. The owner's callback does not come back except to the
  failure that is already latched. The log is what an observer sees.
\<close>

section \<open>State\<close>

record store_record =
  sr_instance :: string
  sr_epoch :: int
  sr_enabled :: bool

record pending =
  pn_id :: nat
  pn_frame :: "8 word list"
  pn_expires :: "rat option"
  pn_ready :: bool
  pn_sent :: bool
  pn_written :: bool
  pn_acked :: bool
  pn_armed :: bool

datatype line_event =
    FrameSent nat "8 word list" | AckRead nat | WriteDone nat | CommitKept nat | LineFailed | CommitLost nat

record transport =
  tp_failed :: bool
  tp_counter :: nat
  tp_ticks :: nat
  tp_last :: "rat option"
  tp_current :: "pending option"
  tp_queue :: "pending list"
  tp_buffer :: "8 word list"
  tp_log :: "line_event list"

datatype arm_answer = Armed | ArmedExpired | NotArmed

datatype write_result = WritePromised | WriteRefused

record transport_env =
  te_slots :: "(nat \<times> nat) list"
  te_milliseconds :: rat
  te_clock :: "nat \<Rightarrow> rat option"
  te_arm :: "nat \<Rightarrow> arm_answer"
  te_disarm :: "nat \<Rightarrow> bool"
  te_early :: "nat \<Rightarrow> 8 word list list"
  te_write :: "nat \<Rightarrow> write_result"

definition new_transport :: transport where
  "new_transport = \<lparr>tp_failed = False, tp_counter = 0, tp_ticks = 0, tp_last = None, tp_current = None, tp_queue = [],
     tp_buffer = [], tp_log = []\<rparr>"

text \<open>Each conversation has one of the slots \<open>0 .. n - 1\<close>, of at most four.\<close>

definition slots_ok :: "(nat \<times> nat) list \<Rightarrow> bool" where
  "slots_ok ms \<longleftrightarrow> 1 \<le> length ms \<and> length ms \<le> 4 \<and> distinct (List.map fst ms) \<and> distinct (List.map snd ms)
     \<and> list_all (\<lambda>m. snd m < 4) ms \<and> list_all (\<lambda>k. k \<in> snd ` set ms) [0 ..< length ms]"

definition observe_line :: "line_event \<Rightarrow> transport \<Rightarrow> transport" where
  "observe_line e t = t\<lparr>tp_log := tp_log t @ [e]\<rparr>"

section \<open>Frames\<close>

definition be32 :: "nat \<Rightarrow> 8 word list" where
  "be32 n = [of_int (int n div 16777216), of_int (int n div 65536), of_int (int n div 256), of_int (int n)]"

definition text_bytes :: "string \<Rightarrow> 8 word list" where
  "text_bytes s = List.map (\<lambda>c. of_nat (code c)) s"

definition frame_of :: "string \<Rightarrow> 8 word list" where
  "frame_of body = be32 (length body) @ text_bytes body"

definition bool_text :: "bool \<Rightarrow> string" where
  "bool_text b = (if b then ''true'' else ''false'')"

definition commit_text :: "nat \<Rightarrow> nat \<Rightarrow> store_record \<Rightarrow> string" where
  "commit_text n slot r =
     ''{\"id\":'' @ show_nat n @ '',\"slot\":'' @ show_nat slot @ '',\"record\":{\"instance\":\"'' @ sr_instance r
       @ ''\",\"epoch\":'' @ show_int (sr_epoch r) @ '',\"enabled\":'' @ bool_text (sr_enabled r) @ ''}}''"

definition ack_text :: "nat \<Rightarrow> string" where
  "ack_text n = ''{\"id\":'' @ show_nat n @ '',\"ok\":true}''"

definition read_be32 :: "8 word list \<Rightarrow> int" where
  "read_be32 bs = foldl (\<lambda>v b. 256 * v + uint b) 0 (take 4 bs)"

section \<open>Failure and time\<close>

definition fail_line :: "transport \<Rightarrow> transport" where
  "fail_line t =
     (if tp_failed t then t
      else t\<lparr>tp_failed := True, tp_queue := [],
             tp_log := tp_log t @ LineFailed # List.map (\<lambda>p. CommitLost (pn_id p))
               ((case tp_current t of None \<Rightarrow> [] | Some p \<Rightarrow> [p]) @ tp_queue t)\<rparr>)"

definition sample_time :: "transport_env \<Rightarrow> rat option \<Rightarrow> transport \<Rightarrow> bool \<times> transport" where
  "sample_time env expires t =
     (if tp_failed t then (False, t)
      else let t1 = t\<lparr>tp_ticks := tp_ticks t + 1\<rparr> in
        case te_clock env (tp_ticks t) of
          None \<Rightarrow> (False, fail_line t1)
        | Some now \<Rightarrow>
            if (case tp_last t of None \<Rightarrow> False | Some l \<Rightarrow> now < l) then (False, fail_line t1)
            else let t2 = t1\<lparr>tp_last := Some now\<rparr> in
              if (case expires of None \<Rightarrow> False | Some x \<Rightarrow> x \<le> now) then (False, fail_line t2) else (True, t2))"

section \<open>Bytes from the channel\<close>

definition upd_current :: "(pending \<Rightarrow> pending) \<Rightarrow> transport \<Rightarrow> transport" where
  "upd_current f t = t\<lparr>tp_current := map_option f (tp_current t)\<rparr>"

text \<open>What a chunk makes of the buffer: a failure, more to come, or the acknowledgement.\<close>

datatype chunk_result = ChunkBad | ChunkMore "8 word list" | ChunkAck

definition judge_chunk :: "nat \<Rightarrow> 8 word list \<Rightarrow> 8 word list \<Rightarrow> chunk_result" where
  "judge_chunk n buffered chunk =
     (let all = buffered @ chunk; len = read_be32 all in
      if chunk = [] \<or> int (length chunk) > 1028 \<or> int (length all) > 1028 then ChunkBad
      else if length all < 4 then ChunkMore all
      else if len < 1 \<or> len > 1024 then ChunkBad
      else if int (length all) < len + 4 then ChunkMore all
      else if int (length all) = len + 4 \<and> drop 4 all = text_bytes (ack_text n) then ChunkAck
      else ChunkBad)"

definition take_chunk :: "8 word list \<Rightarrow> transport \<Rightarrow> transport" where
  "take_chunk chunk t =
     (if tp_failed t then t
      else case tp_current t of
        None \<Rightarrow> fail_line t
      | Some p \<Rightarrow>
          if \<not> pn_sent p \<or> pn_acked p then fail_line t
          else (case judge_chunk (pn_id p) (tp_buffer t) chunk of
              ChunkBad \<Rightarrow> fail_line t
            | ChunkMore bs \<Rightarrow> t\<lparr>tp_buffer := bs\<rparr>
            | ChunkAck \<Rightarrow> observe_line (AckRead (pn_id p)) (upd_current (\<lambda>p. p\<lparr>pn_acked := True\<rparr>) (t\<lparr>tp_buffer := []\<rparr>))))"

section \<open>Writing and finishing\<close>

definition pump :: "transport_env \<Rightarrow> transport \<Rightarrow> transport" where
  "pump env t =
     (if tp_failed t \<or> tp_current t \<noteq> None then t
      else case tp_queue t of
        [] \<Rightarrow> t
      | p # rest \<Rightarrow>
          if \<not> pn_ready p then t
          else (case sample_time env (pn_expires p) (t\<lparr>tp_queue := rest, tp_current := Some p\<rparr>) of
              (False, t1) \<Rightarrow> t1
            | (True, t1) \<Rightarrow>
                (let t2 = observe_line (FrameSent (pn_id p) (pn_frame p)) (upd_current (\<lambda>p. p\<lparr>pn_sent := True\<rparr>) t1);
                     t3 = fold take_chunk (te_early env (pn_id p)) t2 in
                 if te_write env (pn_id p) = WriteRefused then fail_line t3 else t3)))"

definition finish_commit :: "transport_env \<Rightarrow> transport \<Rightarrow> transport" where
  "finish_commit env t =
     (case tp_current t of
        None \<Rightarrow> t
      | Some p \<Rightarrow>
          if tp_failed t \<or> \<not> pn_acked p \<or> \<not> pn_written p then t
          else (case sample_time env (pn_expires p) t of
              (False, t1) \<Rightarrow> t1
            | (True, t1) \<Rightarrow>
                let t2 = upd_current (\<lambda>p. p\<lparr>pn_armed := False\<rparr>) t1 in
                if pn_armed p \<and> \<not> te_disarm env (pn_id p) then fail_line t2
                else (case sample_time env (pn_expires p) t2 of
                    (False, t3) \<Rightarrow> t3
                  | (True, t3) \<Rightarrow> pump env (observe_line (CommitKept (pn_id p)) (t3\<lparr>tp_current := None\<rparr>)))))"

section \<open>Steps\<close>

definition data_step :: "transport_env \<Rightarrow> 8 word list \<Rightarrow> transport \<Rightarrow> transport" where
  "data_step env chunk t =
     (let t1 = take_chunk chunk t in
      if \<not> tp_failed t1 \<and> (case tp_current t1 of None \<Rightarrow> False | Some p \<Rightarrow> pn_acked p) then finish_commit env t1 else t1)"

text \<open>The promise of the current write settles.\<close>

definition settle_write :: "transport_env \<Rightarrow> bool \<Rightarrow> transport \<Rightarrow> transport" where
  "settle_write env ok t =
     (case tp_current t of
        None \<Rightarrow> t
      | Some p \<Rightarrow>
          if tp_failed t \<or> \<not> pn_sent p \<or> pn_written p then t
          else if \<not> ok then fail_line t
          else finish_commit env (observe_line (WriteDone (pn_id p)) (upd_current (\<lambda>p. p\<lparr>pn_written := True\<rparr>) t)))"

definition expire_timer :: "nat \<Rightarrow> transport \<Rightarrow> transport" where
  "expire_timer n t =
     (if (case tp_current t of None \<Rightarrow> False | Some p \<Rightarrow> pn_id p = n) \<or> n \<in> pn_id ` set (tp_queue t) then fail_line t else t)"

datatype commit_answer = CommitDenied | CommitInvalid | CommitBusy | CommitUnconfirmed | CommitPending nat

definition parse_store_record :: "jsval \<Rightarrow> store_record option" where
  "parse_store_record raw =
     (case as_object raw of
        None \<Rightarrow> None
      | Some o' \<Rightarrow>
          if \<not> only_keys [''instance'', ''epoch'', ''enabled''] o' \<or> \<not> has_own o' ''instance'' \<or> \<not> has_own o' ''epoch''
             \<or> \<not> has_own o' ''enabled'' then None
          else (case (getp o' ''instance'', getp o' ''epoch'', getp o' ''enabled'') of
              (JStr i, e, JBool b) \<Rightarrow>
                if class_string is_lower_hex 64 64 i \<and> is_safe_integer e \<and> 1 \<le> int_of_val e
                then Some \<lparr>sr_instance = i, sr_epoch = int_of_val e, sr_enabled = b\<rparr> else None
            | _ \<Rightarrow> None))"

definition set_last :: "(pending \<Rightarrow> pending) \<Rightarrow> nat \<Rightarrow> transport \<Rightarrow> transport" where
  "set_last f n t = t\<lparr>tp_queue := List.map (\<lambda>p. if pn_id p = n then f p else p) (tp_queue t)\<rparr>"

definition start_commit :: "transport_env \<Rightarrow> nat \<Rightarrow> store_record \<Rightarrow> transport \<Rightarrow> transport" where
  "start_commit env slot r t =
     (let n = tp_counter t + 1;
          p = \<lparr>pn_id = n, pn_frame = frame_of (commit_text n slot r), pn_expires = None, pn_ready = False, pn_sent = False,
               pn_written = False, pn_acked = False, pn_armed = False\<rparr> in
      case sample_time env None (t\<lparr>tp_counter := n, tp_queue := tp_queue t @ [p]\<rparr>) of
        (False, t1) \<Rightarrow> t1
      | (True, t1) \<Rightarrow>
          (let expires = map_option (\<lambda>l. l + te_milliseconds env) (tp_last t1) in
           case te_arm env n of
             NotArmed \<Rightarrow> fail_line t1
           | ArmedExpired \<Rightarrow> fail_line t1
           | Armed \<Rightarrow>
               (case sample_time env expires (set_last (\<lambda>p. p\<lparr>pn_expires := expires, pn_armed := True\<rparr>) n t1) of
                  (False, t2) \<Rightarrow> t2
                | (True, t2) \<Rightarrow> pump env (set_last (\<lambda>p. p\<lparr>pn_ready := True\<rparr>) n t2))))"

definition commit_step :: "transport_env \<Rightarrow> nat \<Rightarrow> jsval \<Rightarrow> transport \<Rightarrow> commit_answer \<times> transport" where
  "commit_step env conversation raw t =
     (if tp_failed t then (CommitUnconfirmed, t)
      else case map_of (te_slots env) conversation of
        None \<Rightarrow> (CommitDenied, t)
      | Some slot \<Rightarrow>
          (case parse_store_record raw of
             None \<Rightarrow> (CommitInvalid, t)
           | Some r \<Rightarrow>
               if length (tp_queue t) + (if tp_current t = None then 0 else 1) \<ge> 4 then (CommitBusy, t)
               else if int (tp_counter t) \<ge> max_safe then (CommitUnconfirmed, fail_line t)
               else if int (length (commit_text (tp_counter t + 1) slot r)) > 1024
               then (CommitUnconfirmed, fail_line (t\<lparr>tp_counter := tp_counter t + 1\<rparr>))
               else (CommitPending (tp_counter t + 1), start_commit env slot r t)))"

datatype transport_event = TCommit nat jsval | TData "8 word list" | TClosed | TWriteSettled bool | TExpired nat

fun transport_step :: "transport_env \<Rightarrow> transport_event \<Rightarrow> transport \<Rightarrow> transport" where
  "transport_step env (TCommit c raw) t = snd (commit_step env c raw t)"
| "transport_step env (TData chunk) t = data_step env chunk t"
| "transport_step env TClosed t = fail_line t"
| "transport_step env (TWriteSettled ok) t = settle_write env ok t"
| "transport_step env (TExpired n) t = expire_timer n t"

end
