(* ===== verification/UsageTransportFacts.thy ===== *)
theory UsageTransportFacts
  imports UsageTransport
begin

text \<open>
  Facts on the store over a byte channel: whatever arrives, it refines a line that sends one numbered frame after the
  other, each waiting for its write and its acknowledgement, until it goes down.
\<close>

section \<open>The line\<close>

datatype line = LineIdle nat | LineBusy nat bool bool | LineDown

fun line_step :: "line \<Rightarrow> line_event \<Rightarrow> line option" where
  "line_step LineDown (CommitLost n) = Some LineDown"
| "line_step LineDown _ = None"
| "line_step s LineFailed = Some LineDown"
| "line_step (LineIdle n) (FrameSent m f) = (if m = Suc n then Some (LineBusy m False False) else None)"
| "line_step (LineBusy n w a) (AckRead m) = (if m = n \<and> \<not> a then Some (LineBusy n w True) else None)"
| "line_step (LineBusy n w a) (WriteDone m) = (if m = n \<and> \<not> w then Some (LineBusy n True a) else None)"
| "line_step (LineBusy n True True) (CommitKept m) = (if m = n then Some (LineIdle n) else None)"
| "line_step _ _ = None"

fun run_line :: "line \<Rightarrow> line_event list \<Rightarrow> line option" where
  "run_line s [] = Some s"
| "run_line s (e # es) = (case line_step s e of None \<Rightarrow> None | Some s' \<Rightarrow> run_line s' es)"

lemma run_line_append: "run_line s (xs @ ys) = (case run_line s xs of None \<Rightarrow> None | Some s' \<Rightarrow> run_line s' ys)"
  by (induction s xs rule: run_line.induct) (auto split: option.splits)

lemma run_line_lost: "run_line LineDown (List.map (\<lambda>p. CommitLost (pn_id p)) ps) = Some LineDown"
  by (induction ps) simp_all

definition line_of :: "transport \<Rightarrow> line" where
  "line_of t =
     (if tp_failed t then LineDown
      else case tp_current t of
        None \<Rightarrow> LineIdle (tp_counter t - length (tp_queue t))
      | Some p \<Rightarrow> LineBusy (pn_id p) (pn_written p) (pn_acked p))"

definition at_line :: "line \<Rightarrow> transport \<Rightarrow> bool" where
  "at_line s t \<longleftrightarrow> run_line (LineIdle 0) (tp_log t) = Some s \<and> (tp_failed t \<longleftrightarrow> s = LineDown)"

lemma at_line_observe:
  "at_line s t \<Longrightarrow> line_step s e = Some s' \<Longrightarrow> s' \<noteq> LineDown \<Longrightarrow> at_line s' (observe_line e t)"
  by (cases s; cases e) (auto simp: at_line_def observe_line_def run_line_append split: if_splits)

lemma fail_line_down: "at_line s t \<Longrightarrow> at_line LineDown (fail_line t)"
proof (cases "tp_failed t")
  case False
  assume a: "at_line s t"
  then have "line_step s LineFailed = Some LineDown"
    using False by (cases s) (auto simp: at_line_def)
  then show ?thesis
    using a False run_line_lost unfolding fail_line_def at_line_def by (simp add: run_line_append del: map_append)
qed (auto simp: fail_line_def at_line_def)

section \<open>The invariant\<close>

definition pending_count :: "transport \<Rightarrow> nat" where
  "pending_count t = length (tp_queue t) + (if tp_current t = None then 0 else 1)"

definition numbered :: "transport \<Rightarrow> bool" where
  "numbered t \<longleftrightarrow> pending_count t \<le> tp_counter t
     \<and> List.map pn_id (tp_queue t) = [Suc (tp_counter t - length (tp_queue t)) ..< Suc (tp_counter t)]
     \<and> (case tp_current t of None \<Rightarrow> True | Some p \<Rightarrow> pn_id p = tp_counter t - length (tp_queue t) \<and> pn_sent p)"

definition frame_known :: "transport_env \<Rightarrow> nat \<Rightarrow> 8 word list \<Rightarrow> bool" where
  "frame_known env n f \<longleftrightarrow> (\<exists>slot r. slot \<in> snd ` set (te_slots env) \<and> f = frame_of (commit_text n slot r)
     \<and> int (length (commit_text n slot r)) \<le> 1024)"

definition frames_known :: "transport_env \<Rightarrow> transport \<Rightarrow> bool" where
  "frames_known env t \<longleftrightarrow> (\<forall>p \<in> set (tp_queue t). frame_known env (pn_id p) (pn_frame p) \<and> \<not> pn_written p \<and> \<not> pn_acked p)
     \<and> (\<forall>n f. FrameSent n f \<in> set (tp_log t) \<longrightarrow> frame_known env n f)"

definition transport_ok :: "transport_env \<Rightarrow> transport \<Rightarrow> bool" where
  "transport_ok env t \<longleftrightarrow> at_line (line_of t) t \<and> pending_count t \<le> 4 \<and> (\<not> tp_failed t \<longrightarrow> numbered t) \<and> frames_known env t"

lemma new_transport_ok: "transport_ok env new_transport"
  by (simp add: transport_ok_def new_transport_def at_line_def line_of_def pending_count_def numbered_def frames_known_def)

lemma line_of_down [simp]: "line_of t = LineDown \<longleftrightarrow> tp_failed t"
  by (simp add: line_of_def split: option.splits)

text \<open>What a failure keeps: it may come anywhere in a step.\<close>

definition nearly_ok :: "transport_env \<Rightarrow> line \<Rightarrow> transport \<Rightarrow> bool" where
  "nearly_ok env s t \<longleftrightarrow> at_line s t \<and> pending_count t \<le> 4 \<and> frames_known env t"

lemma transport_ok_nearly: "transport_ok env t \<Longrightarrow> nearly_ok env (line_of t) t"
  by (simp add: transport_ok_def nearly_ok_def)

lemma fail_line_ok:
  assumes "nearly_ok env s t"
  shows "transport_ok env (fail_line t)" "tp_failed (fail_line t)"
proof -
  show f: "tp_failed (fail_line t)"
    by (simp add: fail_line_def)
  have "at_line LineDown (fail_line t)"
    using assms fail_line_down by (auto simp: nearly_ok_def)
  then show "transport_ok env (fail_line t)"
    using assms f
    by (auto simp: transport_ok_def nearly_ok_def line_of_def pending_count_def frames_known_def fail_line_def split: if_splits option.splits)
qed

lemma sample_time_facts:
  assumes "sample_time env x t = (b, t')" "nearly_ok env s t"
  shows "\<not> b \<Longrightarrow> transport_ok env t' \<and> tp_failed t'"
    "b \<Longrightarrow> nearly_ok env s t' \<and> \<not> tp_failed t' \<and> \<not> tp_failed t \<and> (\<exists>k l. t' = t\<lparr>tp_ticks := k, tp_last := Some l\<rparr>)"
proof -
  have n: "nearly_ok env s (t\<lparr>tp_ticks := k\<rparr>)" "nearly_ok env s (t\<lparr>tp_ticks := k, tp_last := l\<rparr>)" for k l
    using assms(2) by (simp_all add: nearly_ok_def at_line_def pending_count_def frames_known_def)
  show "transport_ok env t' \<and> tp_failed t'" if "\<not> b"
  proof -
    have "t' = t \<and> tp_failed t \<or> (\<exists>u. nearly_ok env s u \<and> t' = fail_line u)"
      using assms(1) n that by (auto simp: sample_time_def Let_def split: if_splits option.splits)
    moreover have "transport_ok env t" if "tp_failed t"
      using that assms(2) by (simp add: nearly_ok_def transport_ok_def at_line_def line_of_def)
    ultimately show ?thesis
      using fail_line_ok by blast
  qed
  show "b \<Longrightarrow> nearly_ok env s t' \<and> \<not> tp_failed t' \<and> \<not> tp_failed t \<and> (\<exists>k l. t' = t\<lparr>tp_ticks := k, tp_last := Some l\<rparr>)"
    using assms(1) n by (auto simp: sample_time_def Let_def split: if_splits option.splits)
qed

section \<open>Every step keeps it\<close>

lemma line_of_times [simp]: "line_of (t\<lparr>tp_ticks := k, tp_last := l\<rparr>) = line_of t" "line_of (t\<lparr>tp_buffer := b\<rparr>) = line_of t"
  by (simp_all add: line_of_def cong: option.case_cong)

lemma transport_ok_buffer [simp]: "transport_ok env (t\<lparr>tp_buffer := b\<rparr>) = transport_ok env t"
  by (simp add: transport_ok_def at_line_def pending_count_def numbered_def frames_known_def del: upt_Suc cong: option.case_cong)

lemma transport_ok_times [simp]: "transport_ok env (t\<lparr>tp_ticks := k, tp_last := l\<rparr>) = transport_ok env t"
  by (simp add: transport_ok_def at_line_def pending_count_def numbered_def frames_known_def del: upt_Suc cong: option.case_cong)

lemma take_chunk_ok:
  assumes "transport_ok env t"
  shows "transport_ok env (take_chunk chunk t)"
proof (cases "tp_failed t")
  case False
  note n = fail_line_ok(1)[OF transport_ok_nearly[OF assms]]
  show ?thesis
  proof (cases "tp_current t")
    case None
    then show ?thesis
      using n False by (simp add: take_chunk_def)
  next
    case (Some p)
    have line: "line_of t = LineBusy (pn_id p) (pn_written p) (pn_acked p)"
      using Some False by (simp add: line_of_def)
    show ?thesis
    proof (cases "\<not> pn_sent p \<or> pn_acked p")
      case True
      then show ?thesis
        using Some n False by (auto simp: take_chunk_def)
    next
      case sent: False
      show ?thesis
      proof (cases "judge_chunk (pn_id p) (tp_buffer t) chunk")
        case ChunkAck
        let ?t = "upd_current (\<lambda>p. p\<lparr>pn_acked := True\<rparr>) (t\<lparr>tp_buffer := []\<rparr>)"
        have "at_line (LineBusy (pn_id p) (pn_written p) True) (observe_line (AckRead (pn_id p)) ?t)"
          using assms sent line
          by (intro at_line_observe[of "LineBusy (pn_id p) (pn_written p) (pn_acked p)"])
            (auto simp: transport_ok_def at_line_def upd_current_def)
        then show ?thesis
          using assms Some False sent ChunkAck
          by (simp add: take_chunk_def transport_ok_def observe_line_def upd_current_def line_of_def pending_count_def numbered_def
              frames_known_def)
      qed (use Some n False sent assms in \<open>auto simp: take_chunk_def\<close>)
    qed
  qed
qed (use assms in \<open>simp add: take_chunk_def\<close>)

lemma fold_take_chunk_ok: "transport_ok env t \<Longrightarrow> transport_ok env (fold take_chunk chunks t)"
  by (induction chunks arbitrary: t) (simp_all add: take_chunk_ok)

lemma upt_Suc_Cons: "m < n \<Longrightarrow> [m ..< n] = x # xs \<Longrightarrow> x = m \<and> xs = [Suc m ..< n]"
  by (auto simp: upt_conv_Cons)

lemma pump_ok:
  assumes "transport_ok env t"
  shows "transport_ok env (pump env t)"
proof (cases "tp_failed t \<or> tp_current t \<noteq> None \<or> tp_queue t = [] \<or> \<not> pn_ready (hd (tp_queue t))")
  case True
  then show ?thesis
    using assms by (auto simp: pump_def split: list.splits)
next
  case False
  then obtain p rest where q: "tp_queue t = p # rest" "pn_ready p" and c: "tp_current t = None" "\<not> tp_failed t"
    by (cases "tp_queue t") auto
  define u where "u = t\<lparr>tp_queue := rest, tp_current := Some p\<rparr>"
  have num: "numbered t" "at_line (line_of t) t" "frames_known env t" "pending_count t \<le> 4"
    using assms c by (simp_all add: transport_ok_def)
  have ids: "pn_id p = tp_counter t - length rest" "List.map pn_id rest = [Suc (tp_counter t - length rest) ..< Suc (tp_counter t)]"
      "length rest < tp_counter t"
  proof -
    have le: "Suc (length rest) \<le> tp_counter t"
      using num(1) q c by (simp add: numbered_def pending_count_def)
    have "[Suc (tp_counter t - Suc (length rest)) ..< Suc (tp_counter t)] = pn_id p # List.map pn_id rest"
      using num(1) q by (simp add: numbered_def)
    then have "pn_id p = Suc (tp_counter t - Suc (length rest)) \<and> List.map pn_id rest = [Suc (Suc (tp_counter t - Suc (length rest))) ..< Suc (tp_counter t)]"
      by (rule upt_Suc_Cons[rotated]) (use le in simp)
    moreover have "Suc (tp_counter t - Suc (length rest)) = tp_counter t - length rest"
      using le by simp
    ultimately show "pn_id p = tp_counter t - length rest" "List.map pn_id rest = [Suc (tp_counter t - length rest) ..< Suc (tp_counter t)]"
        "length rest < tp_counter t"
      using le by simp_all
  qed
  have line: "line_of t = LineIdle (tp_counter t - Suc (length rest))"
    using q c by (simp add: line_of_def)
  have u: "nearly_ok env (line_of t) u"
    using num q c by (auto simp: u_def nearly_ok_def at_line_def pending_count_def frames_known_def)
  obtain b t1 where s: "sample_time env (pn_expires p) u = (b, t1)"
    by fastforce
  note S = sample_time_facts[OF s u]
  show ?thesis
  proof (cases b)
    case False
    then show ?thesis
      using S(1) q c s by (simp add: pump_def u_def)
  next
    case True
    then obtain k l where t1: "t1 = u\<lparr>tp_ticks := k, tp_last := Some l\<rparr>" and near: "nearly_ok env (line_of t) t1"
      using S(2) by auto
    define t2 where "t2 = observe_line (FrameSent (pn_id p) (pn_frame p)) (upd_current (\<lambda>p. p\<lparr>pn_sent := True\<rparr>) t1)"
    have fresh: "pn_id p = Suc (tp_counter t - Suc (length rest))"
      using ids(1,3) by simp
    have "at_line (LineBusy (pn_id p) False False) t2"
      unfolding t2_def
    proof (rule at_line_observe)
      show "at_line (line_of t) (upd_current (\<lambda>p. p\<lparr>pn_sent := True\<rparr>) t1)"
        using near by (simp add: nearly_ok_def at_line_def upd_current_def)
      show "line_step (line_of t) (FrameSent (pn_id p) (pn_frame p)) = Some (LineBusy (pn_id p) False False)"
        using fresh by (simp add: line)
    qed simp
    then show ?thesis
    proof -
      assume busy: "at_line (LineBusy (pn_id p) False False) t2"
      have known: "frame_known env (pn_id p) (pn_frame p)" "\<not> pn_written p" "\<not> pn_acked p"
        using num(3) q by (simp_all add: frames_known_def)
      have current: "tp_current t2 = Some (p\<lparr>pn_sent := True\<rparr>)" "\<not> tp_failed t2" "tp_queue t2 = rest" "tp_counter t2 = tp_counter t"
          "tp_log t2 = tp_log t @ [FrameSent (pn_id p) (pn_frame p)]"
        using c by (simp_all add: t2_def t1 u_def upd_current_def observe_line_def)
      have "transport_ok env t2"
        using busy current known ids num(3,4) q c
        by (auto simp: transport_ok_def line_of_def pending_count_def numbered_def frames_known_def simp del: upt_Suc)
      then have "transport_ok env (fold take_chunk (te_early env (pn_id p)) t2)"
        by (rule fold_take_chunk_ok)
      moreover from this have "transport_ok env (fail_line (fold take_chunk (te_early env (pn_id p)) t2))"
        using fail_line_ok(1) transport_ok_nearly by blast
      ultimately show ?thesis
        using True q c s by (simp add: pump_def u_def[symmetric] t2_def[symmetric] Let_def)
    qed
  qed
qed

lemma line_of_busy: "tp_current t = Some p \<Longrightarrow> \<not> tp_failed t \<Longrightarrow> line_of t = LineBusy (pn_id p) (pn_written p) (pn_acked p)"
  by (simp add: line_of_def)

lemma sample_ok:
  assumes "sample_time env x t = (b, t')" "transport_ok env t"
  shows "transport_ok env t'" "b \<Longrightarrow> \<not> tp_failed t' \<and> (\<exists>k l. t' = t\<lparr>tp_ticks := k, tp_last := Some l\<rparr>)"
proof -
  note S = sample_time_facts[OF assms(1) transport_ok_nearly[OF assms(2)]]
  show "transport_ok env t'"
    using S assms(2) by (cases b) auto
  show "b \<Longrightarrow> \<not> tp_failed t' \<and> (\<exists>k l. t' = t\<lparr>tp_ticks := k, tp_last := Some l\<rparr>)"
    using S(2) by blast
qed

lemma fail_line_keeps: "transport_ok env t \<Longrightarrow> transport_ok env (fail_line t)"
  using fail_line_ok(1) transport_ok_nearly by blast

lemma finish_commit_ok:
  assumes "transport_ok env t"
  shows "transport_ok env (finish_commit env t)"
proof (cases "tp_current t")
  case None
  then show ?thesis
    using assms by (simp add: finish_commit_def)
next
  case (Some p)
  show ?thesis
  proof (cases "tp_failed t \<or> \<not> pn_acked p \<or> \<not> pn_written p")
    case True
    then show ?thesis
      using assms Some by (auto simp: finish_commit_def)
  next
    case ready: False
    obtain b t1 where s1: "sample_time env (pn_expires p) t = (b, t1)"
      by fastforce
    note S1 = sample_ok[OF s1 assms]
    show ?thesis
    proof (cases b)
      case False
      then show ?thesis
        using Some ready s1 S1 by (simp add: finish_commit_def)
    next
      case True
      define t2 where "t2 = upd_current (\<lambda>p. p\<lparr>pn_armed := False\<rparr>) t1"
      have cur1: "tp_current t1 = Some p" "\<not> tp_failed t1"
        using S1(2) True Some by auto
      have ok2: "transport_ok env t2"
        using S1(1) cur1
        by (auto simp: t2_def upd_current_def transport_ok_def at_line_def line_of_def pending_count_def numbered_def frames_known_def
            simp del: upt_Suc)
      show ?thesis
      proof (cases "pn_armed p \<and> \<not> te_disarm env (pn_id p)")
        case True
        then show ?thesis
          using Some ready s1 \<open>b\<close> fail_line_keeps[OF ok2] by (simp add: finish_commit_def t2_def Let_def)
      next
        case disarmed: False
        obtain b2 t3 where s2: "sample_time env (pn_expires p) t2 = (b2, t3)"
          by fastforce
        note S2 = sample_ok[OF s2 ok2]
        have eq: "finish_commit env t = (if b2 then pump env (observe_line (CommitKept (pn_id p)) (t3\<lparr>tp_current := None\<rparr>)) else t3)"
          using Some ready s1 \<open>b\<close> disarmed s2 by (cases "pn_armed p") (simp_all add: finish_commit_def t2_def[symmetric] Let_def)
        show ?thesis
        proof (cases b2)
          case False
          then show ?thesis
            using eq S2 by simp
        next
          case True
          then have cur3: "tp_current t3 = Some (p\<lparr>pn_armed := False\<rparr>)" "\<not> tp_failed t3"
            using S2(2) cur1 by (auto simp: t2_def upd_current_def)
          let ?u = "observe_line (CommitKept (pn_id p)) (t3\<lparr>tp_current := None\<rparr>)"
          have num: "numbered t3" "pending_count t3 \<le> 4" "frames_known env t3" "at_line (LineBusy (pn_id p) True True) (t3\<lparr>tp_current := None\<rparr>)"
            using S2(1) cur3 ready by (auto simp: transport_ok_def line_of_def at_line_def)
          have "at_line (LineIdle (pn_id p)) ?u"
            by (rule at_line_observe[OF num(4)]) simp_all
          then have "transport_ok env ?u"
            using num cur3
            by (auto simp: transport_ok_def line_of_def pending_count_def numbered_def frames_known_def observe_line_def simp del: upt_Suc)
          then show ?thesis
            using True eq pump_ok by simp
        qed
      qed
    qed
  qed
qed

lemma settle_write_ok:
  assumes "transport_ok env t"
  shows "transport_ok env (settle_write env ok t)"
proof (cases "tp_current t")
  case None
  then show ?thesis
    using assms by (simp add: settle_write_def)
next
  case (Some p)
  show ?thesis
  proof (cases "tp_failed t \<or> \<not> pn_sent p \<or> pn_written p \<or> \<not> ok")
    case True
    then show ?thesis
      using assms Some fail_line_keeps by (auto simp: settle_write_def)
  next
    case False
    define u where "u = observe_line (WriteDone (pn_id p)) (upd_current (\<lambda>p. p\<lparr>pn_written := True\<rparr>) t)"
    have "at_line (LineBusy (pn_id p) True (pn_acked p)) u"
      unfolding u_def using assms Some False
      by (intro at_line_observe[of "LineBusy (pn_id p) False (pn_acked p)"]) (auto simp: transport_ok_def line_of_def at_line_def upd_current_def)
    then have "transport_ok env u"
      using assms Some False
      by (auto simp: u_def transport_ok_def line_of_def pending_count_def numbered_def frames_known_def observe_line_def upd_current_def
          simp del: upt_Suc)
    then show ?thesis
      using Some False finish_commit_ok by (simp add: settle_write_def u_def)
  qed
qed

lemma data_step_ok: "transport_ok env t \<Longrightarrow> transport_ok env (data_step env chunk t)"
  by (simp add: data_step_def Let_def take_chunk_ok finish_commit_ok)

lemma set_last_ok:
  assumes "transport_ok env t" "\<And>p. pn_id (f p) = pn_id p \<and> pn_frame (f p) = pn_frame p \<and> pn_written (f p) = pn_written p \<and> pn_acked (f p) = pn_acked p"
  shows "transport_ok env (set_last f n t)"
proof -
  have ids: "List.map pn_id (tp_queue (set_last f n t)) = List.map pn_id (tp_queue t)" "length (tp_queue (set_last f n t)) = length (tp_queue t)"
    using assms(2) by (auto simp: set_last_def)
  have same: "tp_counter (set_last f n t) = tp_counter t" "tp_current (set_last f n t) = tp_current t" "tp_failed (set_last f n t) = tp_failed t"
      "tp_log (set_last f n t) = tp_log t"
    by (simp_all add: set_last_def)
  have "frames_known env (set_last f n t)"
    using assms by (auto simp: transport_ok_def frames_known_def set_last_def)
  then show ?thesis
    using assms(1) unfolding transport_ok_def pending_count_def numbered_def line_of_def at_line_def ids same by simp
qed

lemma start_commit_ok:
  assumes "transport_ok env t" "\<not> tp_failed t" "pending_count t < 4" "slot \<in> snd ` set (te_slots env)"
    "int (length (commit_text (Suc (tp_counter t)) slot r)) \<le> 1024"
  shows "transport_ok env (start_commit env slot r t)"
proof -
  define n where "n = tp_counter t + 1"
  define p where "p = \<lparr>pn_id = n, pn_frame = frame_of (commit_text n slot r), pn_expires = None, pn_ready = False, pn_sent = False,
               pn_written = False, pn_acked = False, pn_armed = False\<rparr>"
  define u where "u = t\<lparr>tp_counter := n, tp_queue := tp_queue t @ [p]\<rparr>"
  have num: "numbered t" "at_line (line_of t) t" "frames_known env t"
    using assms(1,2) by (simp_all add: transport_ok_def)
  have "frame_known env n (pn_frame p)"
    using assms(4,5) unfolding frame_known_def p_def n_def by auto
  then have ok: "transport_ok env u"
    using num assms(2,3)
    by (auto simp: u_def p_def n_def transport_ok_def line_of_def at_line_def pending_count_def numbered_def frames_known_def
        Suc_diff_le split: option.splits)
  obtain b t1 where s: "sample_time env None u = (b, t1)"
    by fastforce
  note S = sample_ok[OF s ok]
  define x where "x = map_option (\<lambda>l. l + te_milliseconds env) (tp_last t1)"
  have ok2: "transport_ok env (set_last (\<lambda>p. p\<lparr>pn_expires := x, pn_armed := True\<rparr>) n t1)"
    by (rule set_last_ok[OF S(1)]) simp
  obtain b2 t2 where s2: "sample_time env x (set_last (\<lambda>p. p\<lparr>pn_expires := x, pn_armed := True\<rparr>) n t1) = (b2, t2)"
    by fastforce
  note S2 = sample_ok[OF s2 ok2]
  have ok3: "transport_ok env (pump env (set_last (\<lambda>p. p\<lparr>pn_ready := True\<rparr>) n t2))"
    by (intro pump_ok set_last_ok[OF S2(1)]) simp
  have eq: "start_commit env slot r t = (if \<not> b then t1 else case te_arm env n of
             NotArmed \<Rightarrow> fail_line t1 | ArmedExpired \<Rightarrow> fail_line t1
           | Armed \<Rightarrow> if b2 then pump env (set_last (\<lambda>p. p\<lparr>pn_ready := True\<rparr>) n t2) else t2)"
    unfolding start_commit_def Let_def n_def[symmetric] p_def[symmetric] u_def[symmetric] s x_def[symmetric]
    by (simp add: s2 x_def[symmetric] split: bool.split arm_answer.split)
  show ?thesis
    unfolding eq using S(1) S2(1) ok3 fail_line_keeps[OF S(1)] by (simp split: arm_answer.split)
qed

lemma transport_step_ok:
  assumes "transport_ok env t"
  shows "transport_ok env (transport_step env e t)"
proof (cases e)
  case (TCommit c raw)
  have bump: "transport_ok env (fail_line (t\<lparr>tp_counter := k\<rparr>))" for k
  proof (cases "tp_failed t")
    case True
    then show ?thesis
      using assms by (simp add: fail_line_def transport_ok_def line_of_def at_line_def pending_count_def frames_known_def)
  next
    case False
    then have "nearly_ok env (line_of t) (t\<lparr>tp_counter := k\<rparr>)"
      using assms by (simp add: transport_ok_def nearly_ok_def at_line_def pending_count_def frames_known_def)
    then show ?thesis
      by (rule fail_line_ok)
  qed
  have busy: "pending_count t < 4 \<longleftrightarrow> \<not> length (tp_queue t) + (if tp_current t = None then 0 else 1) \<ge> 4"
    by (auto simp: pending_count_def)
  have start: "transport_ok env (start_commit env slot r t)"
    if "map_of (te_slots env) c = Some slot" "\<not> tp_failed t" "pending_count t < 4" "\<not> 1024 < int (length (commit_text (Suc (tp_counter t)) slot r))"
    for slot r
    by (rule start_commit_ok) (use assms that in \<open>force dest: map_of_SomeD\<close>)+
  show ?thesis
    using assms bump fail_line_keeps[OF assms] start busy by (auto simp: TCommit commit_step_def split: option.splits)
qed (use assms fail_line_keeps data_step_ok settle_write_ok in \<open>auto simp: expire_timer_def\<close>)

section \<open>The claims\<close>

lemma run_transport_ok: "transport_ok env (run (transport_step env) es new_transport)"
proof -
  have "transport_ok env t \<Longrightarrow> transport_ok env (run (transport_step env) es t)" for t
    by (induction es arbitrary: t) (simp_all add: transport_step_ok)
  then show ?thesis
    by (simp add: new_transport_ok)
qed

text \<open>
  C35. Whatever is committed, arrives, settles or expires in whatever order, what an observer sees is a run of the line:
  one numbered frame at a time, the next only after the one before was kept, nothing after the line went down but
  the loss of what was pending; the state is the line's state, and at most four commits are pending.
\<close>

theorem transport_refines_line:
  "run_line (LineIdle 0) (tp_log (run (transport_step env) es new_transport)) = Some (line_of (run (transport_step env) es new_transport))
   \<and> (line_of (run (transport_step env) es new_transport) = LineDown \<longleftrightarrow> tp_failed (run (transport_step env) es new_transport))
   \<and> pending_count (run (transport_step env) es new_transport) \<le> 4"
  using run_transport_ok[of env es] by (simp add: transport_ok_def at_line_def)

fun kept :: "line_event list \<Rightarrow> nat list" where
  "kept [] = []"
| "kept (CommitKept n # es) = n # kept es"
| "kept (_ # es) = kept es"

lemma kept_append [simp]: "kept (xs @ ys) = kept xs @ kept ys"
  by (induction xs rule: kept.induct) simp_all

definition line_history :: "line \<Rightarrow> line_event list \<Rightarrow> bool" where
  "line_history s es \<longleftrightarrow>
     (case s of
        LineIdle n \<Rightarrow> kept es = [1 ..< Suc n] \<and> LineFailed \<notin> set es
      | LineBusy n w a \<Rightarrow> kept es = [1 ..< n] \<and> 0 < n \<and> LineFailed \<notin> set es \<and> (\<exists>f. FrameSent n f \<in> set es)
          \<and> (w \<longrightarrow> WriteDone n \<in> set es) \<and> (a \<longrightarrow> AckRead n \<in> set es)
      | LineDown \<Rightarrow> True)"

lemma run_line_history: "run_line (LineIdle 0) es = Some s \<Longrightarrow> line_history s es"
proof (induction es arbitrary: s rule: rev_induct)
  case Nil
  then show ?case
    by (auto simp: line_history_def)
next
  case (snoc e es)
  then obtain s1 where s1: "run_line (LineIdle 0) es = Some s1" "line_step s1 e = Some s"
    by (auto simp: run_line_append split: option.splits)
  have h: "line_history s1 es"
    by (rule snoc.IH[OF s1(1)])
  show ?case
  proof (cases s1)
    case (LineIdle n)
    then show ?thesis
      using h s1(2) by (cases e) (auto simp: line_history_def split: if_splits)
  next
    case (LineBusy n w a)
    then show ?thesis
      using h s1(2) by (cases e; cases w; cases a) (auto simp: line_history_def split: if_splits)
  next
    case LineDown
    then show ?thesis
      using s1(2) by (cases e) (auto simp: line_history_def)
  qed
qed

text \<open>
  A commit is kept only after its own frame was sent, that write ended well and its acknowledgement was read; the
  frame is the one of a slot of the table and of a valid length; all commits before it were kept, in order and
  once; and the line had not failed.
\<close>

theorem kept_commits_are_acknowledged:
  assumes "tp_log (run (transport_step env) es new_transport) = pre @ CommitKept n # post"
  shows "kept pre = [1 ..< n] \<and> (\<exists>f. FrameSent n f \<in> set pre \<and> frame_known env n f)
     \<and> WriteDone n \<in> set pre \<and> AckRead n \<in> set pre \<and> LineFailed \<notin> set pre"
proof -
  have ok: "transport_ok env (run (transport_step env) es new_transport)"
    by (rule run_transport_ok)
  then obtain s where s: "run_line (LineIdle 0) pre = Some s" "line_step s (CommitKept n) \<noteq> None"
    by (auto simp: transport_ok_def at_line_def assms run_line_append split: option.splits)
  have "s = LineBusy n True True"
    using s(2) by (cases s) (auto elim!: line_step.elims split: if_splits)
  then have "line_history (LineBusy n True True) pre"
    using run_line_history[OF s(1)] by simp
  moreover have "\<forall>m f. FrameSent m f \<in> set pre \<longrightarrow> frame_known env m f"
    using ok by (auto simp: transport_ok_def frames_known_def assms)
  ultimately show ?thesis
    by (auto simp: line_history_def)
qed

definition sample_line_env :: transport_env where
  "sample_line_env = \<lparr>te_slots = [(7, 0)], te_milliseconds = 3000, te_clock = (\<lambda>n. Some 0), te_arm = (\<lambda>_. Armed), te_disarm = (\<lambda>_. True),
     te_early = (\<lambda>_. []), te_write = (\<lambda>_. WritePromised)\<rparr>"

definition sample_line_record :: store_record where
  "sample_line_record = \<lparr>sr_instance = replicate 64 CHR ''a'', sr_epoch = 1, sr_enabled = True\<rparr>"

definition sample_line_value :: jsval where
  "sample_line_value = JObj [(''instance'', JStr (replicate 64 CHR ''a'')), (''epoch'', jint 1), (''enabled'', JBool True)]"

lemma sample_line_parsed: "parse_store_record sample_line_value = Some sample_line_record"
  by code_simp

lemma sample_line_length: "length (commit_text (Suc 0) 0 sample_line_record) = 131"
  by code_simp

lemma sample_line_ack: "judge_chunk (Suc 0) [] (frame_of (ack_text (Suc 0))) = ChunkAck"
  by code_simp

lemma sample_line_log:
  "tp_log (run (transport_step sample_line_env)
      [TCommit 7 sample_line_value, TWriteSettled True, TData (frame_of (ack_text 1))] new_transport)
   = [FrameSent 1 (frame_of (commit_text 1 0 sample_line_record)), WriteDone 1, AckRead 1] @ CommitKept 1 # []"
  by (simp add: sample_line_env_def new_transport_def commit_step_def start_commit_def sample_time_def set_last_def pump_def
      observe_line_def upd_current_def settle_write_def finish_commit_def data_step_def take_chunk_def Let_def
      sample_line_parsed sample_line_length sample_line_ack max_safe_def)

theorem kept_commits_are_acknowledged_witness:
  "WriteDone 1 \<in> set [FrameSent 1 (frame_of (commit_text 1 0 sample_line_record)), WriteDone 1, AckRead 1]
     \<and> (\<exists>f. frame_known sample_line_env 1 f)"
  using kept_commits_are_acknowledged[OF sample_line_log] by blast

end
