(* ===== verification/MachineReadings.thy ===== *)
theory MachineReadings
  imports Updates OrbitErrors
begin

text \<open>
  Small readings of the machine, with the facts on them: the processes below one, from a table of parents
  (\<open>src/process-tree.ts\<close>), the processor's use between two samples (\<open>src/cpu-sample.ts\<close>), and the size of a session's
  surface (\<open>src/viewport.ts\<close>).

  A number in a text is read as \<open>Number\<close> does (theory \<open>Doubles\<close>). Quotients are exact.
\<close>

section \<open>Words of a line\<close>

fun words_of :: "string \<Rightarrow> string list" where
  "words_of [] = [[]]"
| "words_of (c # s) =
     (if is_js_space c then (if s = [] \<or> \<not> is_js_space (hd s) then [] # words_of s else words_of s)
      else (case words_of s of [] \<Rightarrow> [[c]] | w # ws \<Rightarrow> (c # w) # ws))"

section \<open>The processes below one\<close>

text \<open>A line's child and parent: a child that is no number, or 0, and a parent that is no number, are skipped.\<close>

definition table_row :: "string \<Rightarrow> (jnum \<times> jnum) option" where
  "table_row line =
     (case List.map number_of_text (words_of (js_trim line)) of
        child # parent # _ \<Rightarrow> if child = Fin 0 \<or> child = NaN \<or> parent = NaN then None else Some (child, parent)
      | _ \<Rightarrow> None)"

definition table_rows :: "string list \<Rightarrow> (jnum \<times> jnum) list" where
  "table_rows lines = List.map_filter table_row lines"

definition children_of :: "(jnum \<times> jnum) list \<Rightarrow> jnum \<Rightarrow> jnum list" where
  "children_of rows pid = List.map fst (filter (\<lambda>r. snd r = pid) rows)"

text \<open>One child: what is on the stack (its top first), what was seen, what was found.\<close>

fun visit_children :: "jnum list \<Rightarrow> jnum list \<times> jnum list \<times> jnum list \<Rightarrow> jnum list \<times> jnum list \<times> jnum list" where
  "visit_children [] s = s"
| "visit_children (c # cs) (stack, seen, found) =
     (if c \<in> set seen then visit_children cs (stack, seen, found)
      else visit_children cs (c # stack, c # seen, found @ [c]))"

definition unseen :: "(jnum \<times> jnum) list \<Rightarrow> jnum list \<Rightarrow> nat" where
  "unseen rows seen = card (fst ` set rows - set seen)"

lemma visit_children_measure:
  assumes "visit_children cs (stack, seen, found) = (stack', seen', found')" "set cs \<subseteq> fst ` set rows"
  shows "2 * unseen rows seen' + length stack' \<le> 2 * unseen rows seen + length stack"
  using assms
proof (induction cs arbitrary: stack seen found)
  case (Cons c cs)
  show ?case
  proof (cases "c \<in> set seen")
    case True
    then show ?thesis
      using Cons by simp
  next
    case False
    have "c \<in> fst ` set rows - set seen"
      using False Cons.prems(2) by auto
    then have "unseen rows (c # seen) < unseen rows seen"
      unfolding unseen_def by (intro psubset_card_mono) auto
    moreover have "2 * unseen rows seen' + length stack' \<le> 2 * unseen rows (c # seen) + length (c # stack)"
      using Cons.IH[of "c # stack" "c # seen" "found @ [c]"] Cons.prems False by simp
    ultimately show ?thesis
      by simp
  qed
qed simp

lemma children_in_table: "set (children_of rows pid) \<subseteq> fst ` set rows"
  by (auto simp: children_of_def)

lemma visit_children_step:
  "(case visit_children (children_of rows pid) (stack, seen, found) of (stack', seen', found') \<Rightarrow> 2 * unseen rows seen' + length stack')
     \<le> 2 * unseen rows seen + length stack"
  using visit_children_measure[OF _ children_in_table] by (auto split: prod.split)

function walk :: "(jnum \<times> jnum) list \<Rightarrow> jnum list \<Rightarrow> jnum list \<Rightarrow> jnum list \<Rightarrow> jnum list" where
  "walk rows [] seen found = found"
| "walk rows (pid # stack) seen found =
     (case visit_children (children_of rows pid) (stack, seen, found) of
        (stack', seen', found') \<Rightarrow> walk rows stack' seen' found')"
  by pat_completeness auto
termination
  by (relation "measure (\<lambda>(rows, stack, seen, found). 2 * unseen rows seen + length stack)")
    (auto simp: less_Suc_eq_le visit_children_step)

definition descendants_from_table :: "string list \<Rightarrow> jnum \<Rightarrow> jnum list" where
  "descendants_from_table lines pid = walk (table_rows lines) [pid] [pid] []"

section \<open>The processor's use\<close>

record cpu_sample =
  cs_monotonic :: jsval
  cs_orbit :: jsval
  cs_ticks :: "jsval list"
  cs_cpus :: jsval

definition natural_number :: "jsval \<Rightarrow> bool" where
  "natural_number v \<longleftrightarrow> is_safe_integer v \<and> 0 \<le> int_of_val v"

text \<open>\<open>/^cpu\s/\<close> and \<open>/^cpu\d+\s/\<close>.\<close>

definition cpu_line :: "string \<Rightarrow> bool" where
  "cpu_line line \<longleftrightarrow> starts_with line ''cpu'' \<and> length line > 3 \<and> is_js_space (line ! 3)"

definition core_line :: "string \<Rightarrow> bool" where
  "core_line line \<longleftrightarrow> starts_with line ''cpu'' \<and>
     (let rest = drop 3 line; ds = takeWhile is_digit rest; more' = dropWhile is_digit rest in
      ds \<noteq> [] \<and> more' \<noteq> [] \<and> is_js_space (hd more'))"

definition parse_host_cpu :: "string \<Rightarrow> (int list \<times> nat) option" where
  "parse_host_cpu source =
     (let lines = split_on (CHR 0x0A) (js_trim source); cores = length (filter core_line lines) in
      case List.find cpu_line lines of
        None \<Rightarrow> None
      | Some line \<Rightarrow>
          (let values = List.map (\<lambda>w. JNum (number_of_text w)) (take 8 (drop 1 (words_of (js_trim line)))) in
           if length values = 8 \<and> cores \<noteq> 0 \<and> list_all natural_number values
           then Some (List.map int_of_val values, cores) else None))"

record cpu_use =
  cu_elapsed :: rat
  cu_cpus :: int
  cu_one_core :: rat
  cu_machine :: rat
  cu_busy :: rat
  cu_iowait :: rat

definition sample_valid :: "cpu_sample \<Rightarrow> bool" where
  "sample_valid s \<longleftrightarrow> is_finite_num (cs_monotonic s) \<and> natural_number (cs_orbit s)
     \<and> is_safe_integer (cs_cpus s) \<and> 0 < int_of_val (cs_cpus s)
     \<and> length (cs_ticks s) = 8 \<and> list_all natural_number (cs_ticks s)"

definition rat_of_val :: "jsval \<Rightarrow> rat" where
  "rat_of_val v = (case v of JNum (Fin r) \<Rightarrow> r | _ \<Rightarrow> 0)"

definition cpu_interval :: "cpu_sample \<Rightarrow> cpu_sample \<Rightarrow> cpu_use option" where
  "cpu_interval earlier later =
     (let elapsed = rat_of_val (cs_monotonic later) - rat_of_val (cs_monotonic earlier) in
      if \<not> sample_valid earlier \<or> \<not> sample_valid later \<or> elapsed \<le> 0
         \<or> int_of_val (cs_cpus earlier) \<noteq> int_of_val (cs_cpus later) \<or> int_of_val (cs_orbit later) < int_of_val (cs_orbit earlier)
      then None
      else let ticks = List.map (\<lambda>(n, m). int_of_val n - int_of_val m) (zip (cs_ticks later) (cs_ticks earlier));
               total = sum_list ticks in
        if list_ex (\<lambda>n. n < 0) ticks \<or> total \<le> 0 then None
        else let one = of_int (int_of_val (cs_orbit later) - int_of_val (cs_orbit earlier)) / (elapsed * 10) in
          Some \<lparr>cu_elapsed = elapsed, cu_cpus = int_of_val (cs_cpus later), cu_one_core = one,
                cu_machine = one / of_int (int_of_val (cs_cpus later)),
                cu_busy = of_int (total - ticks ! 3 - ticks ! 4) / of_int total * 100,
                cu_iowait = of_int (ticks ! 4) / of_int total * 100\<rparr>)"

section \<open>The surface of a session\<close>

definition viewport_side :: "jsval \<Rightarrow> bool" where
  "viewport_side v \<longleftrightarrow> is_integer v \<and> 320 \<le> int_of_val v \<and> int_of_val v \<le> 3840"

definition parse_viewport :: "jsval \<Rightarrow> (int \<times> int) option" where
  "parse_viewport v =
     (case js_record v of
        Inl e \<Rightarrow> None
      | Inr area \<Rightarrow>
          (let width = getp area ''width''; height = getp area ''height'' in
           if viewport_side width \<and> viewport_side height \<and> int_of_val width * int_of_val height \<le> 2304000
           then Some (int_of_val width, int_of_val height) else None))"

definition require_inside :: "int \<times> int \<Rightarrow> jsval \<Rightarrow> jsval \<Rightarrow> (rat \<times> rat) option" where
  "require_inside surface x y =
     (if is_finite_num x \<and> is_finite_num y \<and> 0 \<le> rat_of_val x \<and> 0 \<le> rat_of_val y
         \<and> rat_of_val x < of_int (fst surface) \<and> rat_of_val y < of_int (snd surface)
      then Some (rat_of_val x, rat_of_val y) else None)"

section \<open>Facts on the processes\<close>

definition child_of :: "(jnum \<times> jnum) list \<Rightarrow> jnum \<Rightarrow> jnum \<Rightarrow> bool" where
  "child_of rows pid c \<longleftrightarrow> (c, pid) \<in> set rows"

lemma children_of_iff: "c \<in> set (children_of rows pid) \<longleftrightarrow> child_of rows pid c"
  by (force simp: children_of_def child_of_def)

lemma visit_children_facts:
  "visit_children cs (stack, seen, found) = (stack', seen', found') \<Longrightarrow>
     set seen' = set seen \<union> set cs \<and> set stack' = set stack \<union> (set cs - set seen)
     \<and> set found' = set found \<union> (set cs - set seen) \<and> (set found \<subseteq> set seen \<longrightarrow> distinct found \<longrightarrow> distinct found')"
proof (induction cs arbitrary: stack seen found)
  case (Cons c cs)
  show ?case
  proof (cases "c \<in> set seen")
    case True
    then show ?thesis
      using Cons by auto
  next
    case False
    then have "visit_children cs (c # stack, c # seen, found @ [c]) = (stack', seen', found')"
      using Cons.prems by simp
    from Cons.IH[OF this] show ?thesis
      using False by auto
  qed
qed simp

text \<open>
  The walk's invariant: seen is the start with what was found, all of it is reachable, and the children of what was
  seen and is not on the stack any more were seen too.
\<close>

definition walk_inv :: "(jnum \<times> jnum) list \<Rightarrow> jnum \<Rightarrow> jnum list \<Rightarrow> jnum list \<Rightarrow> jnum list \<Rightarrow> bool" where
  "walk_inv rows start stack seen found \<longleftrightarrow> set seen = insert start (set found) \<and> start \<notin> set found \<and> distinct found
     \<and> set stack \<subseteq> set seen \<and> (\<forall>q \<in> set seen. (child_of rows)\<^sup>*\<^sup>* start q)
     \<and> (\<forall>q \<in> set seen - set stack. \<forall>c. child_of rows q c \<longrightarrow> c \<in> set seen)"

lemma walk_inv_result:
  "walk_inv rows start stack seen found \<Longrightarrow>
     distinct (walk rows stack seen found) \<and> set (walk rows stack seen found) = {q. (child_of rows)\<^sup>*\<^sup>* start q} - {start}"
proof (induction rows stack seen found rule: walk.induct)
  case (1 rows seen found)
  have "q \<in> set seen" if "(child_of rows)\<^sup>*\<^sup>* start q" for q
    using that by (induction rule: rtranclp_induct) (use 1 in \<open>auto simp: walk_inv_def\<close>)
  then show ?case
    using 1 by (auto simp: walk_inv_def)
next
  case (2 rows pid stack seen found)
  obtain stack' seen' found' where v: "visit_children (children_of rows pid) (stack, seen, found) = (stack', seen', found')"
    by (metis prod_cases3)
  note V = visit_children_facts[OF v]
  have inv: "set seen = insert start (set found)" "start \<notin> set found" "distinct found" "pid \<in> set seen" "set stack \<subseteq> set seen"
      "\<forall>q \<in> set seen. (child_of rows)\<^sup>*\<^sup>* start q" "\<forall>q \<in> set seen - set (pid # stack). \<forall>c. child_of rows q c \<longrightarrow> c \<in> set seen"
    using 2(2) unfolding walk_inv_def list.set(2) insert_subset by blast+
  have reach: "(child_of rows)\<^sup>*\<^sup>* start q" if "q \<in> set (children_of rows pid)" for q
    using rtranclp.rtrancl_into_rtrancl[of "child_of rows" start pid q] inv(4,6) that by (simp add: children_of_iff)
  define new where "new = set (children_of rows pid) - set seen"
  have sets: "set seen' = set seen \<union> new" "set stack' = set stack \<union> new" "set found' = set found \<union> new"
    using V by (auto simp: new_def)
  have "start \<in> set seen" "set found \<subseteq> set seen"
    using inv(1) by auto
  then have "distinct found'" "start \<notin> set found'"
    using V inv(2,3) by (auto simp: sets(3) new_def)
  moreover have "set seen' = insert start (set found')"
    unfolding sets inv(1) by blast
  moreover have "set stack' \<subseteq> set seen'"
    unfolding sets using inv(5) by blast
  moreover have "\<forall>q \<in> set seen'. (child_of rows)\<^sup>*\<^sup>* start q"
    unfolding sets using inv(6) reach by (simp add: new_def ball_Un)
  moreover have "c \<in> set seen'" if "q \<in> set seen' - set stack'" "child_of rows q c" for q c
  proof (cases "q = pid")
    case True
    then show ?thesis
      using V that(2) by (auto simp: children_of_iff)
  next
    case False
    then have "q \<in> set seen - set (pid # stack)"
      using that(1) unfolding sets by auto
    from bspec[OF inv(7) this] have "c \<in> set seen"
      using that(2) by simp
    then show ?thesis
      unfolding sets by simp
  qed
  ultimately have "walk_inv rows start stack' seen' found'"
    by (simp add: walk_inv_def)
  then show ?case
    using 2(1)[OF v[symmetric] refl] v by simp
qed

text \<open>
  C36. Whatever the table says, also when it names processes as their own ancestors: the walk ends, and it lists each
  process that is below the given one in the table exactly once, and nothing else.
\<close>

theorem descendants_are_the_reachable:
  "distinct (descendants_from_table lines pid)
   \<and> set (descendants_from_table lines pid) = {q. (child_of (table_rows lines))\<^sup>*\<^sup>* pid q} - {pid}"
  unfolding descendants_from_table_def
  by (rule walk_inv_result) (simp add: walk_inv_def)

section \<open>Facts on the processor's use\<close>

text \<open>
  An interval that is reported has percentages that are ones: the machine's busy and waiting shares are not
  negative and at most 100 together, the share of one core is not negative, and the machine's share is that of one
  core over the number of processors.
\<close>

theorem cpu_percentages_are_bounded:
  assumes "cpu_interval earlier later = Some u"
  shows "0 < cu_elapsed u \<and> 0 < cu_cpus u \<and> 0 \<le> cu_iowait u \<and> 0 \<le> cu_busy u \<and> cu_busy u + cu_iowait u \<le> 100
     \<and> 0 \<le> cu_one_core u \<and> 0 \<le> cu_machine u \<and> cu_machine u \<le> cu_one_core u \<and> cu_machine u * of_int (cu_cpus u) = cu_one_core u"
proof -
  define ticks where "ticks = List.map (\<lambda>(n, m). int_of_val n - int_of_val m) (zip (cs_ticks later) (cs_ticks earlier))"
  define elapsed where "elapsed = rat_of_val (cs_monotonic later) - rat_of_val (cs_monotonic earlier)"
  define one :: rat where "one = of_int (int_of_val (cs_orbit later) - int_of_val (cs_orbit earlier)) / (elapsed * 10)"
  have ok: "sample_valid earlier" "sample_valid later" "0 < elapsed" "int_of_val (cs_orbit earlier) \<le> int_of_val (cs_orbit later)"
      "\<not> list_ex (\<lambda>n. n < 0) ticks" "0 < sum_list ticks"
      and u: "u = \<lparr>cu_elapsed = elapsed, cu_cpus = int_of_val (cs_cpus later), cu_one_core = one,
                cu_machine = one / of_int (int_of_val (cs_cpus later)),
                cu_busy = of_int (sum_list ticks - ticks ! 3 - ticks ! 4) / of_int (sum_list ticks) * 100,
                cu_iowait = of_int (ticks ! 4) / of_int (sum_list ticks) * 100\<rparr>"
    using assms by (auto simp: cpu_interval_def Let_def ticks_def elapsed_def one_def split: if_splits)
  have len: "length ticks = 8"
    using ok(1,2) by (simp add: ticks_def sample_valid_def)
  have nonneg: "0 \<le> ticks ! i" if "i < 8" for i
    using ok(5) that len by (auto simp: list_ex_iff not_less dest: nth_mem)
  obtain a b c d e f g h where t: "ticks = [a, b, c, d, e, f, g, h]"
    using len by (auto simp: length_Suc_conv eval_nat_numeral)
  have "0 \<le> a" "0 \<le> b" "0 \<le> c" "0 \<le> d" "0 \<le> e" "0 \<le> f" "0 \<le> g" "0 \<le> h"
    using nonneg[of 0] nonneg[of 1] nonneg[of 2] nonneg[of 3] nonneg[of 4] nonneg[of 5] nonneg[of 6] nonneg[of 7] by (simp_all add: t)
  then have parts: "0 \<le> ticks ! 4" "0 \<le> sum_list ticks - ticks ! 3 - ticks ! 4" "sum_list ticks - ticks ! 3 \<le> sum_list ticks"
    by (simp_all add: t)
  have cpus: "1 \<le> int_of_val (cs_cpus later)"
    using ok(2) by (simp add: sample_valid_def)
  have one0: "0 \<le> one"
    using ok(3,4) by (simp add: one_def)
  have total: "(0 :: rat) < of_int (sum_list ticks)"
    using ok(6) by simp
  have "cu_busy u + cu_iowait u = of_int (sum_list ticks - ticks ! 3) / of_int (sum_list ticks) * 100"
    using total by (simp add: u field_simps)
  also have "\<dots> \<le> 100"
    using total parts(3) by (simp add: field_simps)
  finally have sum: "cu_busy u + cu_iowait u \<le> 100" .
  have "(of_int (ticks ! 4) :: rat) \<ge> 0" "(of_int (sum_list ticks - ticks ! 3 - ticks ! 4) :: rat) \<ge> 0"
    using parts by (simp_all only: of_int_0_le_iff)
  then have shares: "0 \<le> cu_iowait u" "0 \<le> cu_busy u"
    using total by (simp_all only: u cpu_use.simps zero_le_mult_iff zero_le_divide_iff) simp_all
  have "one / of_int (int_of_val (cs_cpus later)) \<le> one"
    using one0 cpus by (simp add: divide_le_eq mult_le_cancel_left1)
  then show ?thesis
    using ok(3) cpus one0 sum shares by (simp add: u)
qed

lemma sample_cpu:
  "cpu_interval
     \<lparr>cs_monotonic = jint 0, cs_orbit = jint 0, cs_ticks = replicate 8 (jint 0), cs_cpus = jint 2\<rparr>
     \<lparr>cs_monotonic = jint 10, cs_orbit = jint 50, cs_ticks = replicate 8 (jint 1), cs_cpus = jint 2\<rparr>
   = Some \<lparr>cu_elapsed = 10, cu_cpus = 2, cu_one_core = 1 / 2, cu_machine = 1 / 4, cu_busy = 75, cu_iowait = 25 / 2\<rparr>"
  by code_simp

theorem cpu_percentages_are_bounded_witness:
  "(75 :: rat) + 25 / 2 \<le> 100"
  using cpu_percentages_are_bounded[OF sample_cpu] by simp

end
