(* ===== verification/ReadDelivery.thy ===== *)
theory ReadDelivery
  imports OrbitPrelude
begin

text \<open>
  \<open>src/read-view-delivery.ts\<close>: one reading handed to a sink in copies of at most 64 KiB. Each copy is paid for before it
  is made, goes out only after the combined check of deadline, permission and abort, and its payment goes back
  only when the sink has said that the copy is gone; the reading itself is released last.

  A step is one piece of the source between two suspensions: \<open>execute\<close> up to its next \<open>await\<close>, what follows an
  \<open>await\<close>, the settlement of \<open>run\<close>, the queued finalization. Whatever the delivery calls (clock, permission, bytes,
  payment, sink, timer, release) is asked by the number of the question (\<open>dl_ticks\<close>); an answer first does things to the
  delivery, as a callback may (a receipt, an abort, the timer, \<open>close\<close>), and then throws or returns. A timer may fire
  also after it was disarmed. Claiming a lease once and the shape checks of the options are not represented, nor is
  removing the abort listener, which cannot fail here. Copies are represented by their place in the payload.
\<close>

section \<open>State\<close>

datatype delivery_code = DELIVERED | CANCELLED | DENIED | DEADLINE | INVALID | SINK | UNCONFIRMED | CLEANUP

datatype delivery_phase = Idle | Running | Released | Quarantined

text \<open>The payload of a lease as it is read: which object, whether it is a whole plain buffer, and its length now.\<close>

record payload =
  pl_object :: nat
  pl_plain :: bool
  pl_whole :: bool
  pl_length :: nat

record loan =
  ln_number :: nat
  ln_expected :: nat
  ln_sent :: bool
  ln_done :: bool
  ln_unknown :: bool
  ln_accepted :: nat
  ln_credit_unknown :: bool
  ln_release_attempted :: bool

datatype execution = NotRun | Awaiting | Executed | RunSettled

datatype delivery_event =
    Allowed rat | Taken nat | TicketUnusable | CopySent nat nat | CopyGone nat
  | StopAsked | StopProved | Returned bool | LeaseReturned bool

record delivery =
  dl_phase :: delivery_phase
  dl_code :: "delivery_code option"
  dl_accepted :: nat
  dl_payload :: "payload option"
  dl_loan :: "loan option"
  dl_loans :: nat
  dl_execution :: execution
  dl_offset :: nat
  dl_length :: nat
  dl_woken :: bool
  dl_busy :: bool
  dl_sink_busy :: bool
  dl_stopped :: bool
  dl_stop_asked :: bool
  dl_release_tried :: bool
  dl_last :: rat
  dl_armed :: bool
  dl_disarm :: bool
  dl_listening :: bool
  dl_finishing :: bool
  dl_aborted :: bool
  dl_ticks :: nat
  dl_log :: "delivery_event list"

text \<open>What the outside does to a delivery, also from within a question.\<close>

datatype happening =
    WriteComplete nat "int option" | WriteUnknown nat | SinkStopped | StopUnknown | Aborts | TimerFires | Closes

datatype 'a answer = Threw | Gave 'a

record delivery_env =
  de_deadline :: rat
  de_now :: "nat \<Rightarrow> happening list \<times> rat option answer"
  de_dispatch :: "nat \<Rightarrow> happening list \<times> bool answer"
  de_bytes :: "nat \<Rightarrow> happening list \<times> payload answer"
  de_reserve :: "nat \<Rightarrow> happening list \<times> bool answer"
  de_return :: "nat \<Rightarrow> happening list \<times> bool answer"
  de_release :: "nat \<Rightarrow> happening list \<times> unit answer"
  de_write :: "nat \<Rightarrow> happening list \<times> bool answer"
  de_stop :: "nat \<Rightarrow> happening list"
  de_arm :: "nat \<Rightarrow> happening list \<times> bool answer"
  de_disarm :: "nat \<Rightarrow> happening list \<times> unit answer"

definition new_delivery :: "rat \<Rightarrow> bool \<Rightarrow> delivery" where
  "new_delivery initial aborted =
     \<lparr>dl_phase = Idle, dl_code = None, dl_accepted = 0, dl_payload = None, dl_loan = None, dl_loans = 0, dl_execution = NotRun,
      dl_offset = 0, dl_length = 0, dl_woken = False, dl_busy = False, dl_sink_busy = False, dl_stopped = False, dl_stop_asked = False,
      dl_release_tried = False, dl_last = initial, dl_armed = False, dl_disarm = False, dl_listening = False, dl_finishing = False,
      dl_aborted = aborted, dl_ticks = 0, dl_log = []\<rparr>"

text \<open>The delivery is created when the clock gives a time and the deadline is at most three seconds away.\<close>

definition create_delivery :: "rat \<Rightarrow> rat option answer \<Rightarrow> bool \<Rightarrow> delivery option" where
  "create_delivery deadline initial aborted =
     (case initial of
        Gave (Some t) \<Rightarrow> if deadline - t > 3000 then None else Some (new_delivery t aborted)
      | _ \<Rightarrow> None)"

definition scratch_held :: "delivery \<Rightarrow> bool" where
  "scratch_held d = (case dl_loan d of None \<Rightarrow> False | Some l \<Rightarrow> ln_credit_unknown l \<or> \<not> ln_release_attempted l)"

definition log_delivery :: "delivery_event \<Rightarrow> delivery \<Rightarrow> delivery" where
  "log_delivery e d = d\<lparr>dl_log := dl_log d @ [e]\<rparr>"

definition upd_loan :: "(loan \<Rightarrow> loan) \<Rightarrow> delivery \<Rightarrow> delivery" where
  "upd_loan f d = d\<lparr>dl_loan := map_option f (dl_loan d)\<rparr>"

section \<open>What may happen at any time\<close>

text \<open>The first reason stays; the wait for the sink ends.\<close>

definition cancel_delivery :: "delivery_code \<Rightarrow> delivery \<Rightarrow> delivery" where
  "cancel_delivery reason d = d\<lparr>dl_code := (case dl_code d of None \<Rightarrow> Some reason | Some c \<Rightarrow> Some c), dl_woken := True\<rparr>"

definition later_finalize :: "delivery \<Rightarrow> delivery" where
  "later_finalize d = (if dl_finishing d \<or> dl_busy d \<or> dl_sink_busy d then d else d\<lparr>dl_finishing := True\<rparr>)"

definition receipt_open :: "nat \<Rightarrow> delivery \<Rightarrow> bool" where
  "receipt_open n d =
     (\<not> dl_stopped d \<and> dl_phase d \<noteq> Released
      \<and> (case dl_loan d of None \<Rightarrow> False | Some l \<Rightarrow> ln_number l = n \<and> ln_sent l \<and> \<not> ln_done l))"

fun happen :: "happening \<Rightarrow> delivery \<Rightarrow> delivery" where
  "happen (WriteComplete n count) d =
     (if \<not> receipt_open n d then d
      else case dl_loan d of
        None \<Rightarrow> d
      | Some l \<Rightarrow>
          (case count of
             None \<Rightarrow> cancel_delivery SINK d
           | Some m \<Rightarrow>
               if m < 0 \<or> m > int (ln_expected l) then cancel_delivery SINK d
               else later_finalize (log_delivery (CopyGone (nat m))
                      (upd_loan (\<lambda>l. l\<lparr>ln_accepted := nat m, ln_done := True\<rparr>)
                        (d\<lparr>dl_accepted := dl_accepted d + nat m, dl_woken := True\<rparr>)))))"
| "happen (WriteUnknown n) d =
     (if \<not> receipt_open n d \<or> (case dl_loan d of None \<Rightarrow> False | Some l \<Rightarrow> ln_unknown l) then d
      else cancel_delivery UNCONFIRMED (upd_loan (\<lambda>l. l\<lparr>ln_unknown := True\<rparr>) d))"
| "happen SinkStopped d =
     (if \<not> dl_stop_asked d \<or> dl_stopped d \<or> dl_phase d = Released then d
      else later_finalize (log_delivery StopProved
             (upd_loan (\<lambda>l. l\<lparr>ln_done := True\<rparr>) (d\<lparr>dl_stopped := True, dl_woken := True\<rparr>))))"
| "happen StopUnknown d =
     (if \<not> dl_stop_asked d \<or> dl_stopped d \<or> dl_phase d = Released then d else cancel_delivery UNCONFIRMED d)"
| "happen Aborts d =
     (let d' = d\<lparr>dl_aborted := True\<rparr> in if dl_listening d \<and> \<not> dl_aborted d then cancel_delivery CANCELLED d' else d')"
| "happen TimerFires d = (if dl_armed d then cancel_delivery DEADLINE d else d)"
| "happen Closes d = (if dl_phase d \<noteq> Released then cancel_delivery CANCELLED d else d)"

definition ask :: "(nat \<Rightarrow> happening list \<times> 'a) \<Rightarrow> delivery \<Rightarrow> 'a \<times> delivery" where
  "ask q d = (let (hs, a) = q (dl_ticks d) in (a, fold happen hs (d\<lparr>dl_ticks := dl_ticks d + 1\<rparr>)))"

section \<open>The boundary before anything is done\<close>

definition sample_clock :: "delivery_env \<Rightarrow> delivery \<Rightarrow> rat option \<times> delivery" where
  "sample_clock env d =
     (case ask (de_now env) d of
        (Threw, d1) \<Rightarrow> (None, d1)
      | (Gave t, d1) \<Rightarrow>
          (case t of
             None \<Rightarrow> (None, cancel_delivery DEADLINE d1)
           | Some s \<Rightarrow> if s < dl_last d1 \<or> s \<ge> de_deadline env then (None, cancel_delivery DEADLINE d1)
                        else (Some s, d1\<lparr>dl_last := s\<rparr>)))"

definition boundary :: "delivery_env \<Rightarrow> delivery \<Rightarrow> bool \<times> delivery" where
  "boundary env d =
     (if dl_code d \<noteq> None \<or> dl_aborted d then (False, cancel_delivery CANCELLED d)
      else case sample_clock env d of
        (None, d1) \<Rightarrow> (False, d1)
      | (Some s, d1) \<Rightarrow>
          if dl_code d1 \<noteq> None then (False, d1)
          else (case ask (de_dispatch env) d1 of
              (current, d2) \<Rightarrow>
                let d3 = (if current = Gave True then d2 else cancel_delivery DENIED d2);
                    d4 = (if dl_aborted d3 then cancel_delivery CANCELLED d3 else d3) in
                if dl_code d4 \<noteq> None then (False, d4) else (True, log_delivery (Allowed s) d4)))"

section \<open>Giving back\<close>

definition credit_free :: "loan \<Rightarrow> delivery \<Rightarrow> bool" where
  "credit_free l d =
     (\<not> ln_release_attempted l \<and> \<not> ln_credit_unknown l \<and> \<not> (dl_stop_asked d \<and> \<not> dl_stopped d)
      \<and> \<not> (ln_sent l \<and> \<not> ln_done l \<and> \<not> dl_stopped d))"

definition clear_credit :: "delivery_env \<Rightarrow> delivery \<Rightarrow> delivery" where
  "clear_credit env d =
     (case dl_loan d of
        None \<Rightarrow> d
      | Some l \<Rightarrow>
          if \<not> credit_free l d then d
          else (case ask (de_return env) (upd_loan (\<lambda>l. l\<lparr>ln_release_attempted := True\<rparr>) d) of
              (a, d1) \<Rightarrow>
                if a = Gave True then log_delivery (Returned True) (d1\<lparr>dl_loan := None\<rparr>)
                else log_delivery (Returned False)
                       (upd_loan (\<lambda>l. l\<lparr>ln_credit_unknown := True\<rparr>) (d1\<lparr>dl_code := Some CLEANUP, dl_woken := True\<rparr>))))"

definition finalize :: "delivery_env \<Rightarrow> delivery \<Rightarrow> delivery" where
  "finalize env d =
     (if dl_busy d \<or> dl_sink_busy d then d
      else let d1 = clear_credit env d in
        if dl_loan d1 \<noteq> None then d1\<lparr>dl_phase := Quarantined\<rparr>
        else if dl_release_tried d1 then d1
        else (case ask (de_release env) (d1\<lparr>dl_payload := None, dl_release_tried := True\<rparr>) of
            (a, d2) \<Rightarrow>
              let d3 = (if a = Gave () then log_delivery (LeaseReturned True) (d2\<lparr>dl_phase := Released\<rparr>)
                        else log_delivery (LeaseReturned False) (d2\<lparr>dl_code := Some CLEANUP, dl_phase := Quarantined\<rparr>));
                  d4 = (if dl_aborted d3 \<and> dl_code d3 = None then d3\<lparr>dl_code := Some CANCELLED\<rparr> else d3) in
              if dl_code d4 = None then d4\<lparr>dl_code := Some DELIVERED\<rparr> else d4))"

definition request_stop :: "delivery_env \<Rightarrow> delivery \<Rightarrow> delivery" where
  "request_stop env d =
     (case dl_loan d of
        None \<Rightarrow> d
      | Some l \<Rightarrow>
          if dl_stop_asked d \<or> \<not> ln_sent l \<or> ln_done l \<or> dl_stopped d then d
          else let d1 = log_delivery StopAsked (d\<lparr>dl_stop_asked := True, dl_sink_busy := True\<rparr>) in
            (snd (ask (\<lambda>k. (de_stop env k, ())) d1))\<lparr>dl_sink_busy := False\<rparr>)"

section \<open>Running\<close>

text \<open>The end of \<open>execute\<close>: what its \<open>catch\<close> (when it threw) and its \<open>finally\<close> do.\<close>

definition end_execution :: "delivery_env \<Rightarrow> bool \<Rightarrow> delivery \<Rightarrow> delivery" where
  "end_execution env threw d =
     (let d1 = (if threw \<and> dl_code d = None then cancel_delivery SINK d else d)\<lparr>dl_payload := None\<rparr>;
          d2 = (if dl_code d1 \<noteq> None then request_stop env d1 else d1)\<lparr>dl_listening := False\<rparr>;
          d3 = (if dl_disarm d2
                then (case ask (de_disarm env) d2 of (a, d') \<Rightarrow> (if a = Threw then cancel_delivery CLEANUP d' else d')\<lparr>dl_disarm := False\<rparr>)
                else d2);
          d4 = (if dl_aborted d3 \<and> dl_code d3 = None then cancel_delivery CANCELLED d3 else d3) in
      d4\<lparr>dl_phase := Quarantined, dl_execution := Executed\<rparr>)"

text \<open>One turn of the loop, up to the wait for the sink.\<close>

definition send_copy :: "delivery_env \<Rightarrow> nat \<Rightarrow> delivery \<Rightarrow> delivery" where
  "send_copy env expected d =
     (case boundary env d of
        (False, d1) \<Rightarrow> end_execution env True d1
      | (True, d1) \<Rightarrow>
          (case ask (de_write env) (log_delivery (CopySent (dl_offset d1) expected)
                  (upd_loan (\<lambda>l. l\<lparr>ln_sent := True\<rparr>) (d1\<lparr>dl_sink_busy := True, dl_woken := False\<rparr>))) of
             (a, d2) \<Rightarrow>
               let d3 = d2\<lparr>dl_sink_busy := False\<rparr> in
               if a = Gave True then d3\<lparr>dl_execution := Awaiting\<rparr>
               else end_execution env True (if a = Gave False then cancel_delivery SINK d3 else d3)))"

definition make_loan :: "delivery_env \<Rightarrow> delivery \<Rightarrow> delivery" where
  "make_loan env d =
     (let expected = min 65536 (dl_length d - dl_offset d) in
      case ask (de_reserve env) d of
        (Threw, d1) \<Rightarrow> end_execution env True d1
      | (Gave usable, d1) \<Rightarrow>
          let l = \<lparr>ln_number = dl_loans d1, ln_expected = expected, ln_sent = False, ln_done = False, ln_unknown = False,
                   ln_accepted = 0, ln_credit_unknown = \<not> usable, ln_release_attempted = False\<rparr>;
              d2 = d1\<lparr>dl_loan := Some l, dl_loans := dl_loans d1 + 1\<rparr> in
          if usable then send_copy env expected (log_delivery (Taken expected) d2)
          else end_execution env True (cancel_delivery CLEANUP (log_delivery TicketUnusable d2)))"

definition same_payload :: "payload option \<Rightarrow> nat \<Rightarrow> payload answer \<Rightarrow> bool" where
  "same_payload p len a =
     (case (p, a) of (Some p, Gave q) \<Rightarrow> pl_object q = pl_object p \<and> pl_length q = len | _ \<Rightarrow> False)"

definition deliver_turn :: "delivery_env \<Rightarrow> delivery \<Rightarrow> delivery" where
  "deliver_turn env d =
     (case boundary env d of
        (False, d1) \<Rightarrow> end_execution env True d1
      | (True, d1) \<Rightarrow>
          if dl_offset d1 \<ge> dl_length d1 then end_execution env False d1
          else (case ask (de_bytes env) d1 of
              (a, d2) \<Rightarrow>
                if a = Threw then end_execution env True d2
                else if \<not> same_payload (dl_payload d2) (dl_length d2) a then end_execution env True (cancel_delivery INVALID d2)
                else make_loan env d2))"

definition payload_ok :: "payload \<Rightarrow> bool" where
  "payload_ok p \<longleftrightarrow> pl_plain p \<and> pl_whole p \<and> 1 \<le> pl_length p \<and> int (pl_length p) \<le> 1048576"

definition arm_timer :: "delivery_env \<Rightarrow> delivery \<Rightarrow> delivery" where
  "arm_timer env d =
     (case sample_clock env d of
        (None, d1) \<Rightarrow> end_execution env True d1
      | (Some s, d1) \<Rightarrow>
          (case ask (de_arm env) (d1\<lparr>dl_armed := True\<rparr>) of
             (Threw, d2) \<Rightarrow> end_execution env True d2
           | (Gave callable, d2) \<Rightarrow>
               if callable then deliver_turn env (d2\<lparr>dl_disarm := True\<rparr>)
               else end_execution env True (cancel_delivery INVALID d2)))"

definition start_delivery :: "delivery_env \<Rightarrow> delivery \<Rightarrow> delivery" where
  "start_delivery env d =
     (case boundary env (d\<lparr>dl_busy := True, dl_phase := Running\<rparr>) of
        (False, d1) \<Rightarrow> end_execution env True d1
      | (True, d1) \<Rightarrow>
          (case ask (de_bytes env) d1 of
             (Threw, d2) \<Rightarrow> end_execution env True d2
           | (Gave p, d2) \<Rightarrow>
               let d3 = d2\<lparr>dl_payload := Some p\<rparr> in
               if payload_ok p then arm_timer env (d3\<lparr>dl_listening := True, dl_length := pl_length p\<rparr>)
               else end_execution env True (cancel_delivery INVALID d3)))"

text \<open>After the wait: the copy must be gone and taken whole.\<close>

definition after_wait :: "delivery_env \<Rightarrow> delivery \<Rightarrow> delivery" where
  "after_wait env d =
     (case boundary env d of
        (False, d1) \<Rightarrow> end_execution env True d1
      | (True, d1) \<Rightarrow>
          (case dl_loan d1 of
             None \<Rightarrow> end_execution env True d1
           | Some l \<Rightarrow>
               if \<not> ln_done l \<or> ln_unknown l then end_execution env True (cancel_delivery UNCONFIRMED d1)
               else if ln_accepted l \<noteq> ln_expected l then end_execution env True (cancel_delivery SINK d1)
               else let d2 = clear_credit env d1 in
                 if dl_loan d2 \<noteq> None then end_execution env True d2
                 else deliver_turn env (d2\<lparr>dl_offset := dl_offset d2 + ln_expected l\<rparr>)))"

section \<open>Steps\<close>

datatype delivery_step = DRun | DClose | DHappens happening | DResume | DSettle | DFinalize

definition run_delivery :: "delivery_env \<Rightarrow> delivery \<Rightarrow> delivery" where
  "run_delivery env d = (if dl_execution d = NotRun then start_delivery env d else d)"

fun deliver_step :: "delivery_env \<Rightarrow> delivery_step \<Rightarrow> delivery \<Rightarrow> delivery" where
  "deliver_step env DRun d = run_delivery env d"
| "deliver_step env DClose d = run_delivery env (happen Closes d)"
| "deliver_step env (DHappens h) d = happen h d"
| "deliver_step env DResume d = (if dl_execution d = Awaiting \<and> dl_woken d then after_wait env d else d)"
| "deliver_step env DSettle d =
     (if dl_execution d = Executed then finalize env (d\<lparr>dl_busy := False, dl_execution := RunSettled\<rparr>) else d)"
| "deliver_step env DFinalize d = (if dl_finishing d then finalize env (d\<lparr>dl_finishing := False\<rparr>) else d)"

end
