(* ===== verification/ReadDeliveryFacts.thy ===== *)
theory ReadDeliveryFacts
  imports ReadDelivery
begin

text \<open>
  Facts on the delivery of a reading in copies: whatever the sink, the clock and the owner do, the delivery refines a
  ledger in which one copy at a time is paid for, let out, and paid back when it is known to be gone, and in which
  the reading itself goes back last.
\<close>

section \<open>The ledger\<close>

text \<open>
  The bytes taken by the sink so far; a copy of so many bytes held, let through by the boundary, or out (whether it is
  gone, whether its stop was asked and proved); a payment that cannot be returned; the reading given back.
\<close>

datatype ledger = LFree nat | LHeld nat nat | LCleared nat nat | LOut nat nat bool bool bool | LStuck | LEnded nat

fun ledger_step :: "rat \<Rightarrow> ledger \<Rightarrow> delivery_event \<Rightarrow> ledger option" where
  "ledger_step deadline s (Allowed t) =
     (if t < deadline
      then (case s of LFree a \<Rightarrow> Some (LFree a) | LHeld a n \<Rightarrow> Some (LCleared a n)
              | LOut a n g q p \<Rightarrow> Some (LOut a n g q p) | _ \<Rightarrow> None)
      else None)"
| "ledger_step _ (LFree a) (Taken n) = (if 0 < n \<and> int n \<le> 65536 then Some (LHeld a n) else None)"
| "ledger_step _ (LFree a) TicketUnusable = Some LStuck"
| "ledger_step _ (LCleared a n) (CopySent off m) = (if off = a \<and> m = n then Some (LOut a n False False False) else None)"
| "ledger_step _ (LOut a n False q False) (CopyGone m) = (if m \<le> n then Some (LOut (a + m) n True q False) else None)"
| "ledger_step _ (LOut a n False False False) StopAsked = Some (LOut a n False True False)"
| "ledger_step _ (LOut a n g True False) StopProved = Some (LOut a n True True True)"
| "ledger_step _ (LHeld a n) (Returned b) = Some (if b then LFree a else LStuck)"
| "ledger_step _ (LOut a n True q p) (Returned b) = (if q \<longrightarrow> p then Some (if b then LFree a else LStuck) else None)"
| "ledger_step _ (LFree a) (LeaseReturned b) = Some (LEnded a)"
| "ledger_step _ _ _ = None"

fun run_ledger :: "rat \<Rightarrow> ledger \<Rightarrow> delivery_event list \<Rightarrow> ledger option" where
  "run_ledger _ s [] = Some s"
| "run_ledger dl s (e # es) = (case ledger_step dl s e of None \<Rightarrow> None | Some s' \<Rightarrow> run_ledger dl s' es)"

lemma run_ledger_append: "run_ledger dl s (xs @ ys) = (case run_ledger dl s xs of None \<Rightarrow> None | Some s' \<Rightarrow> run_ledger dl s' ys)"
  by (induction dl s xs rule: run_ledger.induct) (auto split: option.splits)

definition ledger_of :: "delivery \<Rightarrow> ledger" where
  "ledger_of d =
     (case dl_loan d of
        None \<Rightarrow> if dl_release_tried d then LEnded (dl_accepted d) else LFree (dl_accepted d)
      | Some l \<Rightarrow>
          if ln_credit_unknown l then LStuck
          else if \<not> ln_sent l then LHeld (dl_accepted d) (ln_expected l)
          else LOut (dl_accepted d) (ln_expected l) (ln_done l) (dl_stop_asked d) (dl_stopped d))"

definition at_ledger :: "rat \<Rightarrow> ledger \<Rightarrow> delivery \<Rightarrow> bool" where
  "at_ledger dl s d \<longleftrightarrow> run_ledger dl (LFree 0) (dl_log d) = Some s"

lemma at_ledger_log: "at_ledger dl s d \<Longrightarrow> ledger_step dl s e = Some s' \<Longrightarrow> at_ledger dl s' (log_delivery e d)"
  by (simp add: at_ledger_def log_delivery_def run_ledger_append)

definition loan_ok :: "delivery \<Rightarrow> loan \<Rightarrow> bool" where
  "loan_ok d l \<longleftrightarrow> (\<not> ln_sent l \<longrightarrow> \<not> ln_done l \<and> \<not> dl_stop_asked d) \<and> (dl_stopped d \<longrightarrow> ln_done l)
     \<and> ln_accepted l \<le> ln_expected l \<and> (\<not> ln_done l \<longrightarrow> ln_accepted l = 0)
     \<and> (ln_release_attempted l \<longrightarrow> ln_credit_unknown l) \<and> (ln_credit_unknown l \<and> ln_sent l \<longrightarrow> ln_done l \<and> (dl_stop_asked d \<longrightarrow> dl_stopped d))
     \<and> \<not> dl_release_tried d"

definition core :: "rat \<Rightarrow> delivery \<Rightarrow> bool" where
  "core dl d \<longleftrightarrow> at_ledger dl (ledger_of d) d \<and> (dl_stopped d \<longrightarrow> dl_stop_asked d)
     \<and> (case dl_loan d of None \<Rightarrow> dl_stop_asked d \<longrightarrow> dl_stopped d | Some l \<Rightarrow> loan_ok d l)"

section \<open>What happens from outside\<close>

text \<open>What a happening leaves as it is.\<close>

definition same_loan :: "loan \<Rightarrow> loan \<Rightarrow> bool" where
  "same_loan l l' \<longleftrightarrow> ln_number l' = ln_number l \<and> ln_expected l' = ln_expected l \<and> ln_sent l' = ln_sent l
     \<and> ln_credit_unknown l' = ln_credit_unknown l \<and> ln_release_attempted l' = ln_release_attempted l"

definition touched :: "delivery \<Rightarrow> delivery \<Rightarrow> bool" where
  "touched d d' \<longleftrightarrow> dl_offset d' = dl_offset d \<and> dl_length d' = dl_length d \<and> dl_execution d' = dl_execution d
     \<and> dl_release_tried d' = dl_release_tried d \<and> dl_stop_asked d' = dl_stop_asked d \<and> dl_phase d' = dl_phase d
     \<and> dl_busy d' = dl_busy d \<and> dl_sink_busy d' = dl_sink_busy d
     \<and> (dl_busy d \<longrightarrow> dl_finishing d' = dl_finishing d)
     \<and> (dl_code d' = None \<longrightarrow> dl_code d = None) \<and> (dl_code d' = Some DELIVERED \<longrightarrow> dl_code d = Some DELIVERED)
     \<and> (case dl_loan d of
          None \<Rightarrow> dl_loan d' = None \<and> dl_accepted d' = dl_accepted d
        | Some l \<Rightarrow> \<exists>l'. dl_loan d' = Some l' \<and> same_loan l l' \<and> dl_accepted d' + ln_accepted l = dl_accepted d + ln_accepted l')"

lemma touched_refl [simp]: "touched d d"
  by (simp add: touched_def same_loan_def split: option.splits)

lemma touched_trans:
  assumes "touched a b" "touched b c"
  shows "touched a c"
proof (cases "dl_loan a")
  case None
  then show ?thesis
    using assms by (simp add: touched_def)
next
  case (Some l)
  obtain l1 where l1: "dl_loan b = Some l1" "same_loan l l1" "dl_accepted b + ln_accepted l = dl_accepted a + ln_accepted l1"
    using assms(1) Some by (auto simp: touched_def)
  obtain l2 where l2: "dl_loan c = Some l2" "same_loan l1 l2" "dl_accepted c + ln_accepted l1 = dl_accepted b + ln_accepted l2"
    using assms(2) l1(1) by (auto simp: touched_def)
  have "dl_accepted c + ln_accepted l = dl_accepted a + ln_accepted l2"
    using l1(3) l2(3) by simp
  moreover have "same_loan l l2"
    using l1(2) l2(2) by (simp add: same_loan_def)
  ultimately show ?thesis
    using assms Some l1(1) l2(1) by (simp add: touched_def)
qed

lemma touched_fields [simp]:
  "touched d (d\<lparr>dl_code := c, dl_woken := w\<rparr>) \<longleftrightarrow> (c = None \<longrightarrow> dl_code d = None) \<and> (c = Some DELIVERED \<longrightarrow> dl_code d = Some DELIVERED)"
  "touched d (d\<lparr>dl_ticks := k\<rparr>)" "touched d (d\<lparr>dl_aborted := b\<rparr>)" "touched d (d\<lparr>dl_last := t\<rparr>)" "touched d (d\<lparr>dl_armed := b\<rparr>)"
  "touched d (d\<lparr>dl_disarm := b\<rparr>)" "touched d (d\<lparr>dl_listening := b\<rparr>)" "touched d (d\<lparr>dl_payload := p\<rparr>)" "touched d (d\<lparr>dl_woken := w\<rparr>)"
  "touched d (log_delivery e d)"
  by (simp_all add: touched_def same_loan_def log_delivery_def split: option.splits)

lemma core_fields [simp]:
  "core dl (d\<lparr>dl_code := c, dl_woken := w\<rparr>) = core dl d" "core dl (d\<lparr>dl_ticks := k\<rparr>) = core dl d"
  "core dl (d\<lparr>dl_aborted := b\<rparr>) = core dl d" "core dl (d\<lparr>dl_last := t\<rparr>) = core dl d" "core dl (d\<lparr>dl_armed := b\<rparr>) = core dl d"
  "core dl (d\<lparr>dl_disarm := b\<rparr>) = core dl d" "core dl (d\<lparr>dl_listening := b\<rparr>) = core dl d" "core dl (d\<lparr>dl_payload := p\<rparr>) = core dl d"
  "core dl (d\<lparr>dl_woken := w\<rparr>) = core dl d" "core dl (d\<lparr>dl_code := c\<rparr>) = core dl d" "core dl (d\<lparr>dl_phase := ph\<rparr>) = core dl d"
  "core dl (d\<lparr>dl_busy := b\<rparr>) = core dl d" "core dl (d\<lparr>dl_sink_busy := b\<rparr>) = core dl d" "core dl (d\<lparr>dl_finishing := b\<rparr>) = core dl d"
  "core dl (d\<lparr>dl_offset := n\<rparr>) = core dl d" "core dl (d\<lparr>dl_length := n\<rparr>) = core dl d" "core dl (d\<lparr>dl_execution := x\<rparr>) = core dl d"
  by (simp_all add: core_def at_ledger_def ledger_of_def loan_ok_def cong: option.case_cong if_cong)

lemma cancel_delivery_facts [simp]:
  "core dl (cancel_delivery c d) = core dl d" "dl_code (cancel_delivery c d) \<noteq> None"
  "c \<noteq> DELIVERED \<Longrightarrow> touched d (cancel_delivery c d)"
  by (auto simp: cancel_delivery_def split: option.splits)

lemma later_finalize_facts [simp]: "core dl (later_finalize d) = core dl d" "touched d (later_finalize d)"
  by (auto simp: later_finalize_def touched_def same_loan_def split: option.splits)


lemma touched_later: "touched d e \<Longrightarrow> touched d (later_finalize (log_delivery ev e))"
  using touched_trans[of d e "log_delivery ev e"] touched_trans[of d "log_delivery ev e" "later_finalize (log_delivery ev e)"] by simp

lemma touched_cancel: "touched d e \<Longrightarrow> c \<noteq> DELIVERED \<Longrightarrow> touched d (cancel_delivery c e)"
  using touched_trans[of d e "cancel_delivery c e"] by simp

lemma receipt_open_loan:
  assumes "receipt_open n d" "core dl d"
  obtains l where "dl_loan d = Some l" "ln_sent l" "\<not> ln_done l" "\<not> ln_credit_unknown l" "\<not> ln_release_attempted l" "ln_accepted l = 0"
    "\<not> dl_stopped d" "ledger_of d = LOut (dl_accepted d) (ln_expected l) False (dl_stop_asked d) False" "loan_ok d l"
  using assms by (cases "dl_loan d") (auto simp: receipt_open_def core_def loan_ok_def ledger_of_def)

lemma copy_gone_core:
  assumes "core dl d" "dl_loan d = Some l" "ln_sent l" "\<not> ln_done l" "\<not> dl_stopped d" "m \<le> ln_expected l"
  shows "core dl (log_delivery (CopyGone m) (upd_loan (\<lambda>l. l\<lparr>ln_accepted := m, ln_done := True\<rparr>)
           (d\<lparr>dl_accepted := dl_accepted d + m, dl_woken := True\<rparr>)))"
  using assms by (auto simp: core_def at_ledger_def ledger_of_def loan_ok_def log_delivery_def upd_loan_def run_ledger_append)

lemma stop_proved_core:
  assumes "core dl d" "dl_stop_asked d" "\<not> dl_stopped d"
  shows "core dl (log_delivery StopProved (upd_loan (\<lambda>l. l\<lparr>ln_done := True\<rparr>) (d\<lparr>dl_stopped := True, dl_woken := True\<rparr>)))"
  using assms by (auto simp: core_def at_ledger_def ledger_of_def loan_ok_def log_delivery_def upd_loan_def run_ledger_append
      split: option.splits if_splits)

lemma happen_core: "core dl d \<Longrightarrow> core dl (happen h d)"
proof (cases h)
  case (WriteComplete n count)
  assume c: "core dl d"
  show ?thesis
  proof (cases "receipt_open n d")
    case True
    then obtain l where "dl_loan d = Some l" "ln_sent l" "\<not> ln_done l" "\<not> dl_stopped d"
      using c by (rule receipt_open_loan)
    then show ?thesis
      using c copy_gone_core[OF c] by (simp add: WriteComplete nat_le_iff split: option.splits)
  qed (simp add: WriteComplete c)
next
  case (WriteUnknown n)
  assume c: "core dl d"
  have "core dl (upd_loan (\<lambda>l. l\<lparr>ln_unknown := True\<rparr>) d) = core dl d"
    by (simp add: core_def at_ledger_def ledger_of_def loan_ok_def upd_loan_def split: option.splits)
  then show ?thesis
    using c by (simp add: WriteUnknown)
next
  case SinkStopped
  assume "core dl d"
  then show ?thesis
    using stop_proved_core by (simp add: SinkStopped)
qed (simp_all add: Let_def)

lemma touched_loan:
  "dl_loan d = Some l \<Longrightarrow> same_loan l (f l) \<Longrightarrow> a + ln_accepted l = dl_accepted d + ln_accepted (f l)
   \<Longrightarrow> touched d (upd_loan f (d\<lparr>dl_accepted := a, dl_woken := w\<rparr>))"
  by (simp add: touched_def upd_loan_def)

lemma happen_touched: "core dl d \<Longrightarrow> touched d (happen h d)"
proof (cases h)
  case (WriteComplete n count)
  assume c: "core dl d"
  show ?thesis
  proof (cases "receipt_open n d")
    case True
    then obtain l where l: "dl_loan d = Some l" "ln_accepted l = 0"
      using c by (rule receipt_open_loan)
    then have "touched d (upd_loan (\<lambda>l. l\<lparr>ln_accepted := m, ln_done := True\<rparr>) (d\<lparr>dl_accepted := dl_accepted d + m, dl_woken := True\<rparr>))" for m
      by (intro touched_loan) (simp_all add: same_loan_def)
    then show ?thesis
      using l touched_later by (simp add: WriteComplete split: option.splits)
  qed (simp add: WriteComplete)
next
  case (WriteUnknown n)
  have "touched d (upd_loan (\<lambda>l. l\<lparr>ln_unknown := True\<rparr>) d)"
    by (simp add: touched_def same_loan_def upd_loan_def split: option.splits)
  then show ?thesis
    using touched_cancel by (simp add: WriteUnknown)
next
  case SinkStopped
  have "touched d (upd_loan (\<lambda>l. l\<lparr>ln_done := True\<rparr>) (d\<lparr>dl_stopped := True, dl_woken := True\<rparr>))"
    by (simp add: touched_def same_loan_def upd_loan_def split: option.splits)
  then show ?thesis
    using touched_later by (simp add: SinkStopped)
next
  case Aborts
  then show ?thesis
    using touched_cancel[of d "d\<lparr>dl_aborted := True\<rparr>" CANCELLED] by (simp add: Let_def)
qed simp_all

lemma happens_facts: "core dl d \<Longrightarrow> core dl (fold happen hs d) \<and> touched d (fold happen hs d)"
proof (induction hs arbitrary: d)
  case (Cons h hs)
  have c: "core dl (happen h d)"
    by (rule happen_core) (rule Cons.prems)
  have "touched d (happen h d)"
    by (rule happen_touched) (rule Cons.prems)
  then show ?case
    using Cons.IH[OF c] touched_trans[of d "happen h d" "fold happen hs (happen h d)"] by simp
qed simp

lemma ask_core:
  assumes "ask q d = (a, d')" "core dl d"
  shows "core dl d' \<and> touched d d'"
proof -
  have "d' = fold happen (fst (q (dl_ticks d))) (d\<lparr>dl_ticks := dl_ticks d + 1\<rparr>)"
    using assms(1) by (auto simp: ask_def split: prod.splits)
  then show ?thesis
    using happens_facts[of dl "d\<lparr>dl_ticks := dl_ticks d + 1\<rparr>"] assms(2)
      touched_trans[of d "d\<lparr>dl_ticks := dl_ticks d + 1\<rparr>" d'] by simp
qed

text \<open>When no copy is out and no stop is pending, only the reason, the wake-up and the abort can change.\<close>

definition quiet :: "delivery \<Rightarrow> bool" where
  "quiet d \<longleftrightarrow> (dl_stop_asked d \<longrightarrow> dl_stopped d) \<and> (case dl_loan d of None \<Rightarrow> True | Some l \<Rightarrow> \<not> ln_sent l \<or> ln_done l)"

definition unmoved :: "delivery \<Rightarrow> delivery \<Rightarrow> bool" where
  "unmoved d d' \<longleftrightarrow> dl_loan d' = dl_loan d \<and> dl_accepted d' = dl_accepted d \<and> dl_log d' = dl_log d \<and> dl_stopped d' = dl_stopped d
     \<and> dl_stop_asked d' = dl_stop_asked d \<and> dl_release_tried d' = dl_release_tried d \<and> dl_length d' = dl_length d
     \<and> dl_offset d' = dl_offset d \<and> dl_execution d' = dl_execution d \<and> dl_phase d' = dl_phase d \<and> dl_busy d' = dl_busy d
     \<and> dl_sink_busy d' = dl_sink_busy d \<and> dl_finishing d' = dl_finishing d
     \<and> (dl_code d' = None \<longrightarrow> dl_code d = None) \<and> (dl_code d' = Some DELIVERED \<longrightarrow> dl_code d = Some DELIVERED)"

lemma happen_quiet: "quiet d \<Longrightarrow> unmoved d (happen h d)"
  by (cases h) (auto simp: quiet_def unmoved_def cancel_delivery_def receipt_open_def Let_def split: option.splits)

lemma quiet_unmoved: "quiet d \<Longrightarrow> unmoved d d' \<Longrightarrow> quiet d'"
  by (simp add: quiet_def unmoved_def)

lemma unmoved_trans: "unmoved a b \<Longrightarrow> unmoved b c \<Longrightarrow> unmoved a c"
  by (simp add: unmoved_def)

lemma ask_quiet:
  assumes "ask q d = (a, d')" "quiet d"
  shows "unmoved d d'"
proof -
  have "unmoved d0 (fold happen hs d0)" if "quiet d0" for hs d0
    using that
  proof (induction hs arbitrary: d0)
    case (Cons h hs)
    have u: "unmoved d0 (happen h d0)"
      by (rule happen_quiet) (rule Cons.prems)
    have "unmoved (happen h d0) (fold happen hs (happen h d0))"
      by (rule Cons.IH) (rule quiet_unmoved[OF Cons.prems u])
    then show ?case
      using unmoved_trans[OF u] by simp
  qed (simp add: unmoved_def)
  moreover have "quiet (d\<lparr>dl_ticks := dl_ticks d + 1\<rparr>)"
    using assms(2) by (simp add: quiet_def)
  moreover have "d' = fold happen (fst (q (dl_ticks d))) (d\<lparr>dl_ticks := dl_ticks d + 1\<rparr>)"
    using assms(1) by (auto simp: ask_def split: prod.splits)
  ultimately have "unmoved (d\<lparr>dl_ticks := dl_ticks d + 1\<rparr>) d'"
    by simp
  then show ?thesis
    by (simp add: unmoved_def)
qed

section \<open>The boundary and giving back\<close>

lemma sample_clock_facts:
  assumes "sample_clock env d = (r, d')" "core dl d"
  shows "core dl d' \<and> touched d d' \<and> (\<forall>s. r = Some s \<longrightarrow> s < de_deadline env)"
proof -
  obtain a d1 where a: "ask (de_now env) d = (a, d1)"
    by (cases "ask (de_now env) d")
  have "core dl d1 \<and> touched d d1"
    by (rule ask_core[OF a assms(2)])
  moreover have "touched d1 (d1\<lparr>dl_last := s\<rparr>)" for s
    by simp
  ultimately show ?thesis
    using assms(1) touched_cancel touched_trans by (auto simp: sample_clock_def a split: answer.splits option.splits if_splits)
qed

lemma boundary_facts:
  assumes "boundary env d = (b, d')" "core dl d"
  shows "\<not> b \<Longrightarrow> core dl d' \<and> touched d d'"
    "b \<Longrightarrow> \<exists>d0 s. core dl d0 \<and> touched d d0 \<and> dl_code d0 = None \<and> s < de_deadline env \<and> d' = log_delivery (Allowed s) d0"
proof -
  obtain r d1 where r: "sample_clock env d = (r, d1)"
    by (cases "sample_clock env d")
  obtain a d2 where a: "ask (de_dispatch env) d1 = (a, d2)"
    by (cases "ask (de_dispatch env) d1")
  have d1: "core dl d1 \<and> touched d d1 \<and> (\<forall>s. r = Some s \<longrightarrow> s < de_deadline env)"
    by (rule sample_clock_facts[OF r assms(2)])
  then have d2: "core dl d2" "touched d d2"
    using ask_core[OF a] touched_trans by blast+
  define d3 where "d3 = (if a = Gave True then d2 else cancel_delivery DENIED d2)"
  define d4 where "d4 = (if dl_aborted d3 then cancel_delivery CANCELLED d3 else d3)"
  have "core dl d3" "touched d d3"
    using d2 touched_cancel[OF d2(2)] by (simp_all add: d3_def)
  then have d4: "core dl d4" "touched d d4"
    using touched_cancel[of d d3 CANCELLED] by (simp_all add: d4_def)
  have eq: "boundary env d =
     (if dl_code d \<noteq> None \<or> dl_aborted d then (False, cancel_delivery CANCELLED d)
      else case r of None \<Rightarrow> (False, d1)
      | Some s \<Rightarrow> if dl_code d1 \<noteq> None then (False, d1)
          else if dl_code d4 \<noteq> None then (False, d4) else (True, log_delivery (Allowed s) d4))"
    unfolding boundary_def r prod.case by (cases r) (simp_all add: a Let_def d3_def d4_def)
  show "\<not> b \<Longrightarrow> core dl d' \<and> touched d d'"
    using assms d1 d4 unfolding eq by (auto split: if_splits option.splits)
  show "b \<Longrightarrow> \<exists>d0 s. core dl d0 \<and> touched d d0 \<and> dl_code d0 = None \<and> s < de_deadline env \<and> d' = log_delivery (Allowed s) d0"
    using assms d1 d4 unfolding eq by (auto split: if_splits option.splits)
qed

lemma log_allowed_core:
  assumes "core dl d0" "s < dl" "case dl_loan d0 of None \<Rightarrow> \<not> dl_release_tried d0 | Some l \<Rightarrow> ln_sent l \<and> \<not> ln_credit_unknown l"
  shows "core dl (log_delivery (Allowed s) d0)"
proof -
  have "ledger_step dl (ledger_of d0) (Allowed s) = Some (ledger_of d0)"
    using assms(2,3) by (cases "dl_loan d0") (simp_all add: ledger_of_def)
  moreover have "ledger_of (log_delivery (Allowed s) d0) = ledger_of d0"
    by (simp add: ledger_of_def log_delivery_def cong: option.case_cong if_cong)
  ultimately show ?thesis
    using assms(1) at_ledger_log[of dl "ledger_of d0" d0 "Allowed s"] by (simp add: core_def log_delivery_def loan_ok_def cong: option.case_cong)
qed

text \<open>Where no copy is held, or the one that is held is out, the boundary is one of the touches.\<close>

definition moving :: "delivery \<Rightarrow> bool" where
  "moving d \<longleftrightarrow> (case dl_loan d of None \<Rightarrow> \<not> dl_release_tried d | Some l \<Rightarrow> ln_sent l \<and> \<not> ln_credit_unknown l)"

lemma moving_touched: "touched d d' \<Longrightarrow> moving d' = moving d"
proof (cases "dl_loan d")
  case None
  assume "touched d d'"
  then have "dl_loan d' = None" "dl_release_tried d' = dl_release_tried d"
    using None by (simp_all add: touched_def)
  then show ?thesis
    using None by (simp add: moving_def)
next
  case (Some l)
  assume "touched d d'"
  then obtain l' where "dl_loan d' = Some l'" "same_loan l l'"
    using Some by (auto simp: touched_def)
  then show ?thesis
    using Some by (simp add: moving_def same_loan_def)
qed

lemma boundary_moving:
  assumes "boundary env d = (b, d')" "core (de_deadline env) d" "moving d"
  shows "core (de_deadline env) d' \<and> touched d d' \<and> (b \<longrightarrow> dl_code d' = None)"
proof (cases b)
  case True
  then obtain d0 s where d0: "core (de_deadline env) d0" "touched d d0" "dl_code d0 = None" "s < de_deadline env" "d' = log_delivery (Allowed s) d0"
    using boundary_facts(2)[OF assms(1,2)] by blast
  have "core (de_deadline env) d'"
    using d0 moving_touched[OF d0(2)] assms(3) log_allowed_core unfolding moving_def by blast
  moreover have "touched d d'"
    using touched_trans[OF d0(2)] d0(5) by simp
  ultimately show ?thesis
    using d0 by (simp add: log_delivery_def)
next
  case False
  then show ?thesis
    using boundary_facts(1)[OF assms(1,2)] by simp
qed

lemma credit_free_quiet: "dl_loan d = Some l \<Longrightarrow> credit_free l d \<Longrightarrow> core dl d \<Longrightarrow> quiet d"
  by (auto simp: credit_free_def quiet_def core_def loan_ok_def)

text \<open>What a step keeps that may end the loan.\<close>

definition kept :: "delivery \<Rightarrow> delivery \<Rightarrow> bool" where
  "kept d d' \<longleftrightarrow> dl_length d' = dl_length d \<and> dl_offset d' = dl_offset d \<and> dl_execution d' = dl_execution d
     \<and> dl_release_tried d' = dl_release_tried d \<and> dl_phase d' = dl_phase d \<and> dl_busy d' = dl_busy d \<and> dl_sink_busy d' = dl_sink_busy d
     \<and> (dl_busy d \<longrightarrow> dl_finishing d' = dl_finishing d)
     \<and> (dl_code d' = None \<longrightarrow> dl_code d = None) \<and> (dl_code d' = Some DELIVERED \<longrightarrow> dl_code d = Some DELIVERED)
     \<and> (dl_loan d = None \<longrightarrow> dl_loan d' = None \<and> dl_accepted d' = dl_accepted d)"

lemma touched_kept: "touched d d' \<Longrightarrow> kept d d'"
  by (cases "dl_loan d") (simp_all add: touched_def kept_def)

lemma kept_trans: "kept a b \<Longrightarrow> kept b c \<Longrightarrow> kept a c"
  by (simp add: kept_def)

lemma kept_code: "kept d d' \<Longrightarrow> dl_code d \<noteq> None \<Longrightarrow> dl_code d' \<noteq> None"
  unfolding kept_def by blast

lemma kept_refl [simp]: "kept d d"
  by (simp add: kept_def)

lemma clear_credit_facts:
  assumes "core dl d"
  shows "core dl (clear_credit env d)" "kept d (clear_credit env d)" "dl_accepted (clear_credit env d) = dl_accepted d"
    "dl_stop_asked (clear_credit env d) = dl_stop_asked d"
    "dl_loan d = None \<Longrightarrow> clear_credit env d = d"
proof -
  show "dl_loan d = None \<Longrightarrow> clear_credit env d = d"
    by (simp add: clear_credit_def)
  have "core dl (clear_credit env d) \<and> kept d (clear_credit env d) \<and> dl_accepted (clear_credit env d) = dl_accepted d
      \<and> dl_stop_asked (clear_credit env d) = dl_stop_asked d"
  proof (cases "\<exists>l. dl_loan d = Some l \<and> credit_free l d")
    case False
    then show ?thesis
      using assms by (auto simp: clear_credit_def split: option.splits)
  next
    case True
    then obtain l where l: "dl_loan d = Some l" "credit_free l d"
      by blast
    define d0 where "d0 = upd_loan (\<lambda>l. l\<lparr>ln_release_attempted := True\<rparr>) d"
    obtain a d1 where a: "ask (de_return env) d0 = (a, d1)"
      by (cases "ask (de_return env) d0")
    have "quiet d0"
      using credit_free_quiet[OF l assms] l(1) by (simp add: d0_def quiet_def upd_loan_def)
    then have u: "unmoved d0 d1"
      by (rule ask_quiet[OF a])
    have fl: "ledger_of d \<noteq> LStuck" "\<And>b. ledger_step dl (ledger_of d) (Returned b) = Some (if b then LFree (dl_accepted d) else LStuck)"
      using l assms by (auto simp: ledger_of_def credit_free_def core_def loan_ok_def)
    have log: "at_ledger dl (ledger_of d) d1"
      using u assms by (simp add: core_def at_ledger_def unmoved_def d0_def upd_loan_def)
    have k: "kept d (d1\<lparr>dl_loan := m\<rparr>)" for m
      using u l(1) by (simp add: kept_def unmoved_def d0_def upd_loan_def)
    have shape: "dl_release_tried d = False" "dl_stopped d \<longrightarrow> dl_stop_asked d" "dl_stop_asked d \<longrightarrow> dl_stopped d" "ln_sent l \<longrightarrow> ln_done l"
        "loan_ok d l"
      using l assms by (auto simp: core_def loan_ok_def credit_free_def)
    show ?thesis
    proof (cases "a = Gave True")
      case True
      then have eq: "clear_credit env d = log_delivery (Returned True) (d1\<lparr>dl_loan := None\<rparr>)"
        using l by (simp add: clear_credit_def a flip: d0_def)
      have "at_ledger dl (LFree (dl_accepted d)) (clear_credit env d)"
        using at_ledger_log[OF log, of "Returned True"] fl(2)[of True] by (simp add: eq log_delivery_def at_ledger_def)
      then show ?thesis
        using u shape k[of None] by (simp add: eq core_def ledger_of_def log_delivery_def unmoved_def d0_def upd_loan_def kept_def)
    next
      case False
      then have eq: "clear_credit env d = log_delivery (Returned False)
          (upd_loan (\<lambda>l. l\<lparr>ln_credit_unknown := True\<rparr>) (d1\<lparr>dl_code := Some CLEANUP, dl_woken := True\<rparr>))"
        using l by (simp add: clear_credit_def a flip: d0_def)
      have d1: "dl_loan d1 = Some (l\<lparr>ln_release_attempted := True\<rparr>)"
        using u l(1) by (simp add: unmoved_def d0_def upd_loan_def)
      have "at_ledger dl LStuck (clear_credit env d)"
        using at_ledger_log[OF log, of "Returned False"] fl(2)[of False] by (simp add: eq log_delivery_def at_ledger_def upd_loan_def)
      then show ?thesis
        using u shape l(1) by (simp add: eq core_def ledger_of_def log_delivery_def unmoved_def d0_def upd_loan_def kept_def loan_ok_def)
    qed
  qed
  then show "core dl (clear_credit env d)" "kept d (clear_credit env d)" "dl_accepted (clear_credit env d) = dl_accepted d"
      "dl_stop_asked (clear_credit env d) = dl_stop_asked d"
    by blast+
qed

section \<open>The pieces of a run\<close>

definition executing :: "rat \<Rightarrow> delivery \<Rightarrow> bool" where
  "executing dl d \<longleftrightarrow> core dl d \<and> dl_busy d \<and> \<not> dl_release_tried d \<and> dl_code d \<noteq> Some DELIVERED \<and> \<not> dl_sink_busy d"

definition finished :: "rat \<Rightarrow> delivery \<Rightarrow> bool" where
  "finished dl d \<longleftrightarrow> executing dl d \<and> dl_execution d = Executed \<and> dl_phase d = Quarantined
     \<and> (dl_code d = None \<longrightarrow> dl_loan d = None \<and> dl_accepted d = dl_length d)"

definition awaiting :: "rat \<Rightarrow> delivery \<Rightarrow> bool" where
  "awaiting dl d \<longleftrightarrow> executing dl d \<and> \<not> dl_stop_asked d \<and> dl_execution d = Awaiting
     \<and> (\<exists>l. dl_loan d = Some l \<and> ln_sent l \<and> \<not> ln_credit_unknown l \<and> dl_accepted d = dl_offset d + ln_accepted l
          \<and> dl_offset d + ln_expected l \<le> dl_length d)"

definition working :: "rat \<Rightarrow> delivery \<Rightarrow> bool" where
  "working dl d \<longleftrightarrow> executing dl d \<and> \<not> dl_stop_asked d \<and> dl_loan d = None \<and> dl_accepted d = dl_offset d \<and> dl_offset d \<le> dl_length d"

lemma executing_touched: "executing dl d \<Longrightarrow> core dl d' \<Longrightarrow> kept d d' \<Longrightarrow> executing dl d'"
  by (auto simp: executing_def kept_def)

lemma working_touched:
  assumes "working dl d" "core dl d'" "touched d d'"
  shows "working dl d'"
proof -
  have "dl_stop_asked d' = dl_stop_asked d" "kept d d'"
    using assms(3) touched_kept by (simp_all add: touched_def)
  then show ?thesis
    using assms by (simp add: working_def executing_def kept_def)
qed

lemma working_moving: "working dl d \<Longrightarrow> moving d"
  by (simp add: working_def executing_def moving_def)

lemma request_stop_facts:
  assumes "core dl d" "\<not> dl_sink_busy d"
  shows "core dl (request_stop env d) \<and> kept d (request_stop env d)"
proof (cases "\<exists>l. dl_loan d = Some l \<and> \<not> dl_stop_asked d \<and> ln_sent l \<and> \<not> ln_done l \<and> \<not> dl_stopped d")
  case False
  then have "request_stop env d = d"
    by (auto simp: request_stop_def split: option.splits)
  then show ?thesis
    using assms by simp
next
  case True
  then obtain l where l: "dl_loan d = Some l" "\<not> dl_stop_asked d" "ln_sent l" "\<not> ln_done l" "\<not> dl_stopped d"
    by blast
  define d1 where "d1 = log_delivery StopAsked (d\<lparr>dl_stop_asked := True, dl_sink_busy := True\<rparr>)"
  obtain a d2 where a: "ask (\<lambda>k. (de_stop env k, ())) d1 = (a, d2)"
    by (cases "ask (\<lambda>k. (de_stop env k, ())) d1")
  have eq: "request_stop env d = d2\<lparr>dl_sink_busy := False\<rparr>"
    using l by (simp add: request_stop_def Let_def a flip: d1_def)
  have "core dl d1"
    using assms(1) l by (auto simp add: d1_def core_def at_ledger_def ledger_of_def loan_ok_def log_delivery_def run_ledger_append)
  then have "core dl d2 \<and> touched d1 d2"
    by (rule ask_core[OF a])
  moreover have "kept d (d2\<lparr>dl_sink_busy := False\<rparr>)" if "touched d1 d2"
    using that l assms(2) by (simp add: touched_def kept_def d1_def log_delivery_def)
  ultimately show ?thesis
    by (simp add: eq)
qed

lemma kept_fields [simp]:
  "kept d (d\<lparr>dl_payload := p\<rparr>)" "kept d (d\<lparr>dl_listening := b\<rparr>)" "kept d (d\<lparr>dl_disarm := b\<rparr>)" "kept d (d\<lparr>dl_armed := b\<rparr>)"
  by (simp_all add: kept_def)

lemma kept_cancel: "kept d e \<Longrightarrow> c \<noteq> DELIVERED \<Longrightarrow> kept d (cancel_delivery c e)"
  using kept_trans[of d e "cancel_delivery c e"] touched_kept by simp

lemma leave_finished:
  assumes "executing dl d" "threw \<or> dl_loan d = None \<and> dl_accepted d = dl_length d"
  shows "finished dl (end_execution env threw d)"
proof -
  define d1 where "d1 = (if threw \<and> dl_code d = None then cancel_delivery SINK d else d)\<lparr>dl_payload := None\<rparr>"
  define d2 where "d2 = (if dl_code d1 \<noteq> None then request_stop env d1 else d1)\<lparr>dl_listening := False\<rparr>"
  define d3 where "d3 = (if dl_disarm d2
     then (case ask (de_disarm env) d2 of (a, d') \<Rightarrow> (if a = Threw then cancel_delivery CLEANUP d' else d')\<lparr>dl_disarm := False\<rparr>) else d2)"
  define d4 where "d4 = (if dl_aborted d3 \<and> dl_code d3 = None then cancel_delivery CANCELLED d3 else d3)"
  have eq: "end_execution env threw d = d4\<lparr>dl_phase := Quarantined, dl_execution := Executed\<rparr>"
    by (simp only: end_execution_def Let_def d4_def d3_def d2_def d1_def)
  have c: "core dl d" and sb: "\<not> dl_sink_busy d"
    using assms(1) by (simp_all add: executing_def)
  have d1: "core dl d1 \<and> kept d d1"
    using c kept_trans[of d "cancel_delivery SINK d" "(cancel_delivery SINK d)\<lparr>dl_payload := None\<rparr>"]
    by (simp add: d1_def kept_cancel)
  then have "\<not> dl_sink_busy d1"
    using sb by (simp add: kept_def)
  then have "core dl (request_stop env d1) \<and> kept d1 (request_stop env d1)"
    using request_stop_facts d1 by blast
  then have d2: "core dl d2 \<and> kept d1 d2"
    using d1 kept_trans[of d1 "request_stop env d1" "(request_stop env d1)\<lparr>dl_listening := False\<rparr>"] by (simp add: d2_def)
  have d3: "core dl d3 \<and> kept d2 d3"
  proof (cases "dl_disarm d2")
    case True
    obtain a d' where a: "ask (de_disarm env) d2 = (a, d')"
      by (cases "ask (de_disarm env) d2")
    have d': "core dl d'" "kept d2 d'"
      using ask_core[OF a, of dl] d2 touched_kept by blast+
    define e where "e = (if a = Threw then cancel_delivery CLEANUP d' else d')"
    have e: "core dl e" "kept d2 e"
      using d' kept_cancel by (simp_all add: e_def)
    have "d3 = e\<lparr>dl_disarm := False\<rparr>"
      using True by (simp add: d3_def a e_def)
    then show ?thesis
      using e kept_trans[OF e(2), of "e\<lparr>dl_disarm := False\<rparr>"] by simp
  qed (use d2 in \<open>simp add: d3_def\<close>)
  have d4: "core dl d4 \<and> kept d3 d4"
    using d3 by (simp add: d4_def kept_cancel)
  have k: "core dl d4" "kept d d4"
    using d1 d2 d3 d4 kept_trans by blast+
  have nd: "dl_code d4 \<noteq> None" if "threw"
  proof -
    have "dl_code d1 \<noteq> None"
      using that by (simp add: d1_def cancel_delivery_def)
    moreover have "kept d1 d4"
      using d2 d3 d4 kept_trans by blast
    ultimately show ?thesis
      using kept_code by blast
  qed
  have "executing dl d4"
    by (rule executing_touched[OF assms(1) k])
  then show ?thesis
    using nd assms(2) k(2) by (auto simp: eq finished_def executing_def kept_def)
qed

lemma leave_threw: "executing dl d \<Longrightarrow> finished dl (end_execution env True d)"
  using leave_finished by blast

text \<open>The whole run of a turn, from where no copy is held.\<close>

lemma settled_boundary:
  assumes "boundary env d = (b, d')" "executing (de_deadline env) d" "moving d"
  shows "executing (de_deadline env) d' \<and> kept d d' \<and> touched d d' \<and> (b \<longrightarrow> dl_code d' = None)"
proof -
  have "core (de_deadline env) d"
    using assms(2) by (simp add: executing_def)
  then have "core (de_deadline env) d' \<and> touched d d' \<and> (b \<longrightarrow> dl_code d' = None)"
    using boundary_moving[OF assms(1)] assms(3) by blast
  then show ?thesis
    using executing_touched[OF assms(2)] touched_kept by blast
qed

lemma executing_ask:
  assumes "ask q d = (a, d')" "executing dl d"
  shows "executing dl d' \<and> kept d d' \<and> touched d d'"
proof -
  have "core dl d' \<and> touched d d'"
    using ask_core[OF assms(1), of dl] assms(2) by (simp add: executing_def)
  then show ?thesis
    using executing_touched[OF assms(2)] touched_kept by blast
qed

lemma executing_cancel: "executing dl d \<Longrightarrow> c \<noteq> DELIVERED \<Longrightarrow> executing dl (cancel_delivery c d)"
  using executing_touched[of dl d "cancel_delivery c d"] kept_cancel[of d d c] by (simp add: executing_def)

definition turn_ended :: "rat \<Rightarrow> delivery \<Rightarrow> bool" where
  "turn_ended dl d \<longleftrightarrow> finished dl d \<or> awaiting dl d"

lemma send_copy_ended:
  assumes "executing (de_deadline env) d" "dl_loan d = Some l" "\<not> ln_sent l" "\<not> ln_credit_unknown l" "expected = ln_expected l"
    "dl_accepted d = dl_offset d" "dl_offset d + ln_expected l \<le> dl_length d"
  shows "turn_ended (de_deadline env) (send_copy env expected d)"
proof -
  obtain b d1 where b: "boundary env d = (b, d1)"
    by (cases "boundary env d")
  have c: "core (de_deadline env) d"
    using assms(1) by (simp add: executing_def)
  show ?thesis
  proof (cases b)
    case False
    then have "core (de_deadline env) d1 \<and> touched d d1"
      using boundary_facts(1)[OF b c] by blast
    then have "executing (de_deadline env) d1"
      using executing_touched[OF assms(1)] touched_kept by blast
    then show ?thesis
      using b False leave_threw by (simp add: send_copy_def turn_ended_def)
  next
    case True
    then obtain d0 s where d0: "core (de_deadline env) d0" "touched d d0" "dl_code d0 = None" "s < de_deadline env" "d1 = log_delivery (Allowed s) d0"
      using boundary_facts(2)[OF b c] by blast
    obtain l0 where l0: "dl_loan d0 = Some l0" "same_loan l l0"
      using d0(2) assms(2) by (auto simp: touched_def)
    have acc: "ln_accepted l = 0" "ln_accepted l0 = 0" "\<not> ln_release_attempted l0" "\<not> ln_done l0" "\<not> dl_stop_asked d0" "\<not> dl_stopped d0"
        "\<not> dl_release_tried d0"
      using c d0(1) l0 assms(2,3,4) by (auto simp: core_def loan_ok_def same_loan_def)
    have same: "dl_accepted d0 = dl_accepted d" "dl_offset d0 = dl_offset d" "dl_length d0 = dl_length d" "dl_busy d0" "\<not> dl_sink_busy d0"
      using d0(2) l0 acc assms(1,2) by (auto simp: touched_def executing_def)
    define d2 where "d2 = log_delivery (CopySent (dl_offset d1) expected)
        (upd_loan (\<lambda>l. l\<lparr>ln_sent := True\<rparr>) (d1\<lparr>dl_sink_busy := True, dl_woken := False\<rparr>))"
    have off: "dl_offset d1 = dl_accepted d0"
      using same assms(6) d0(5) by (simp add: log_delivery_def)
    have "core (de_deadline env) d2"
      using d0(1,4) l0 acc assms(3,4,5) off
      by (auto simp: d2_def d0(5) core_def at_ledger_def ledger_of_def loan_ok_def log_delivery_def upd_loan_def run_ledger_append same_loan_def)
    then have d2: "core (de_deadline env) d2" .
    obtain a d3 where a: "ask (de_write env) d2 = (a, d3)"
      by (cases "ask (de_write env) d2")
    have d3: "core (de_deadline env) d3" "touched d2 d3"
      using ask_core[OF a d2] by blast+
    have d2l: "dl_loan d2 = Some (l0\<lparr>ln_sent := True\<rparr>)" "dl_accepted d2 = dl_accepted d0" "dl_offset d2 = dl_offset d0"
        "dl_length d2 = dl_length d0" "dl_busy d2" "\<not> dl_release_tried d2" "dl_code d2 = None" "\<not> dl_stop_asked d2"
      using l0 same acc d0(3) by (simp_all add: d2_def d0(5) log_delivery_def upd_loan_def)
    obtain l3 where l3: "dl_loan d3 = Some l3" "same_loan (l0\<lparr>ln_sent := True\<rparr>) l3" "dl_accepted d3 + ln_accepted l0 = dl_accepted d2 + ln_accepted l3"
      using d3(2) d2l(1) by (auto simp: touched_def)
    have ex: "executing (de_deadline env) (d3\<lparr>dl_sink_busy := False\<rparr>)"
      using d3 d2l by (simp add: executing_def touched_def)
    have eq: "send_copy env expected d = (if a = Gave True then d3\<lparr>dl_sink_busy := False, dl_execution := Awaiting\<rparr>
        else end_execution env True (if a = Gave False then cancel_delivery SINK (d3\<lparr>dl_sink_busy := False\<rparr>) else d3\<lparr>dl_sink_busy := False\<rparr>))"
      using True by (simp add: send_copy_def b a flip: d2_def)
    show ?thesis
    proof (cases "a = Gave True")
      case True
      have "dl_accepted d3 = dl_offset d3 + ln_accepted l3" "dl_offset d3 + ln_expected l3 \<le> dl_length d3" "\<not> dl_stop_asked d3"
          "ln_sent l3" "\<not> ln_credit_unknown l3"
        using l3(2,3) l0(2) d3(2) d2l(2-4,8) acc(2) same(1-3) assms(4,6,7) by (simp_all add: touched_def same_loan_def)
      then have "awaiting (de_deadline env) (send_copy env expected d)"
        using ex l3(1) True by (simp add: eq awaiting_def executing_def)
      then show ?thesis
        by (simp add: turn_ended_def)
    next
      case False
      then show ?thesis
        using ex executing_cancel leave_threw by (simp add: eq turn_ended_def)
    qed
  qed
qed

lemma leave_ended: "executing dl d \<Longrightarrow> turn_ended dl (end_execution env True d)"
  using leave_threw by (simp add: turn_ended_def)

lemma make_loan_ended:
  assumes "working (de_deadline env) d" "dl_offset d < dl_length d"
  shows "turn_ended (de_deadline env) (make_loan env d)"
proof -
  define expected where "expected = min 65536 (dl_length d - dl_offset d)"
  obtain a d1 where a: "ask (de_reserve env) d = (a, d1)"
    by (cases "ask (de_reserve env) d")
  have ex: "executing (de_deadline env) d"
    using assms(1) by (simp add: working_def)
  have d1: "executing (de_deadline env) d1" "kept d d1" "touched d d1"
    using executing_ask[OF a ex] by blast+
  then have same: "dl_loan d1 = None" "dl_accepted d1 = dl_offset d1" "dl_offset d1 = dl_offset d" "dl_length d1 = dl_length d"
    using assms(1) by (simp_all add: working_def kept_def)
  have exp: "0 < expected" "int expected \<le> 65536" "dl_offset d1 + expected \<le> dl_length d1"
    using assms(2) same by (auto simp: expected_def min_def)
  have stop: "\<not> dl_stop_asked d1" "\<not> dl_stopped d1" "core (de_deadline env) d1" "\<not> dl_release_tried d1"
    using d1 same(1) assms(1) by (auto simp: executing_def core_def working_def touched_def)
  show ?thesis
  proof (cases a)
    case Threw
    then show ?thesis
      using a leave_ended[OF d1(1)] by (simp add: make_loan_def Let_def)
  next
    case (Gave usable)
    define l where "l = \<lparr>ln_number = dl_loans d1, ln_expected = expected, ln_sent = False, ln_done = False, ln_unknown = False,
        ln_accepted = 0, ln_credit_unknown = \<not> usable, ln_release_attempted = False\<rparr>"
    define d2 where "d2 = log_delivery (if usable then Taken expected else TicketUnusable) (d1\<lparr>dl_loan := Some l, dl_loans := dl_loans d1 + 1\<rparr>)"
    have eq: "make_loan env d = (if usable then send_copy env expected d2 else end_execution env True (cancel_delivery CLEANUP d2))"
      by (simp add: make_loan_def Let_def Gave a d2_def l_def flip: expected_def)
    have "core (de_deadline env) d2"
      using stop same(1) exp
      by (auto simp: d2_def l_def core_def at_ledger_def ledger_of_def loan_ok_def log_delivery_def run_ledger_append)
    then have d2: "executing (de_deadline env) d2"
      using d1(1) by (simp add: executing_def d2_def log_delivery_def)
    show ?thesis
    proof (cases usable)
      case True
      have "turn_ended (de_deadline env) (send_copy env expected d2)"
        by (rule send_copy_ended[OF d2, of l]) (use True same exp in \<open>simp_all add: d2_def l_def log_delivery_def\<close>)
      then show ?thesis
        using True by (simp add: eq)
    next
      case False
      then show ?thesis
        using leave_ended[OF executing_cancel[OF d2]] by (simp add: eq)
    qed
  qed
qed

lemma deliver_turn_ended:
  assumes "working (de_deadline env) d"
  shows "turn_ended (de_deadline env) (deliver_turn env d)"
proof -
  obtain b d1 where b: "boundary env d = (b, d1)"
    by (cases "boundary env d")
  have ex: "executing (de_deadline env) d"
    using assms by (simp add: working_def)
  have d1: "executing (de_deadline env) d1" "touched d d1"
    using settled_boundary[OF b ex working_moving[OF assms]] by blast+
  have w1: "working (de_deadline env) d1"
    by (rule working_touched[OF assms _ d1(2)]) (use d1(1) in \<open>simp add: executing_def\<close>)
  obtain a d2 where a: "ask (de_bytes env) d1 = (a, d2)"
    by (cases "ask (de_bytes env) d1")
  have d2: "executing (de_deadline env) d2" "touched d1 d2"
    using executing_ask[OF a d1(1)] by blast+
  have w2: "working (de_deadline env) d2"
    by (rule working_touched[OF w1 _ d2(2)]) (use d2(1) in \<open>simp add: executing_def\<close>)
  show ?thesis
  proof (cases "b \<and> dl_length d1 \<le> dl_offset d1")
    case True
    then have "dl_accepted d1 = dl_length d1" "dl_loan d1 = None"
      using w1 by (simp_all add: working_def)
    then have "finished (de_deadline env) (end_execution env False d1)"
      using leave_finished[OF d1(1)] by blast
    then show ?thesis
      using True by (simp add: deliver_turn_def b turn_ended_def)
  next
    case False
    have "dl_offset d2 = dl_offset d1" "dl_length d2 = dl_length d1"
      using d2(2) by (simp_all add: touched_def)
    then have "b \<Longrightarrow> turn_ended (de_deadline env) (make_loan env d2)"
      using make_loan_ended[OF w2] False by simp
    then show ?thesis
      using False leave_ended[OF d1(1)] leave_ended[OF d2(1)] leave_ended[OF executing_cancel[OF d2(1)]]
      by (cases b) (simp_all add: deliver_turn_def b a)
  qed
qed

lemma arm_timer_ended:
  assumes "working (de_deadline env) d"
  shows "turn_ended (de_deadline env) (arm_timer env d)"
proof -
  obtain r d1 where r: "sample_clock env d = (r, d1)"
    by (cases "sample_clock env d")
  have ex: "executing (de_deadline env) d"
    using assms by (simp add: working_def)
  have d1: "core (de_deadline env) d1" "touched d d1"
    using sample_clock_facts[OF r, of "de_deadline env"] ex by (simp_all add: executing_def)
  then have w1: "working (de_deadline env) d1" "executing (de_deadline env) d1"
    using working_touched[OF assms] by (simp_all add: working_def)
  have armed: "working (de_deadline env) (d1\<lparr>dl_armed := True\<rparr>)"
    by (rule working_touched[OF w1(1)]) (simp_all add: d1(1))
  obtain a d2 where a: "ask (de_arm env) (d1\<lparr>dl_armed := True\<rparr>) = (a, d2)"
    by (cases "ask (de_arm env) (d1\<lparr>dl_armed := True\<rparr>)")
  have d2: "executing (de_deadline env) d2" "touched (d1\<lparr>dl_armed := True\<rparr>) d2"
    using executing_ask[OF a, of "de_deadline env"] armed by (simp_all add: working_def)
  then have w2: "working (de_deadline env) d2"
    using working_touched[OF armed] by (simp add: executing_def)
  have "working (de_deadline env) (d2\<lparr>dl_disarm := True\<rparr>)"
    by (rule working_touched[OF w2]) (use d2(1) in \<open>simp_all add: executing_def\<close>)
  from deliver_turn_ended[OF this] show ?thesis
    using leave_ended[OF w1(2)] leave_ended[OF d2(1)] leave_ended[OF executing_cancel[OF d2(1)]]
    by (simp add: arm_timer_def r a split: option.splits answer.splits)
qed

lemma start_delivery_ended:
  assumes "working (de_deadline env) (d\<lparr>dl_busy := True, dl_phase := Running\<rparr>)" "dl_offset d = 0"
  shows "turn_ended (de_deadline env) (start_delivery env d)"
proof -
  define d0 where "d0 = d\<lparr>dl_busy := True, dl_phase := Running\<rparr>"
  have w0: "working (de_deadline env) d0" "executing (de_deadline env) d0"
    using assms(1) by (simp_all add: d0_def working_def)
  obtain b d1 where b: "boundary env d0 = (b, d1)"
    by (cases "boundary env d0")
  have d1: "executing (de_deadline env) d1" "touched d0 d1"
    using settled_boundary[OF b w0(2) working_moving[OF w0(1)]] by blast+
  obtain a d2 where a: "ask (de_bytes env) d1 = (a, d2)"
    by (cases "ask (de_bytes env) d1")
  have d2: "executing (de_deadline env) d2" "touched d1 d2"
    using executing_ask[OF a d1(1)] by blast+
  have t: "touched d0 d2"
    using touched_trans d1(2) d2(2) by blast
  then have w2: "working (de_deadline env) d2" "dl_offset d2 = 0"
    using working_touched[OF w0(1) _ t] d2(1) assms(2) by (simp_all add: executing_def touched_def d0_def)
  have "working (de_deadline env) (d2\<lparr>dl_payload := Some p, dl_listening := True, dl_length := n\<rparr>)" for p n
    using w2 by (simp add: working_def executing_def)
  from arm_timer_ended[OF this] have arm: "turn_ended (de_deadline env) (arm_timer env (d2\<lparr>dl_payload := Some p, dl_listening := True, dl_length := n\<rparr>))" for p n .
  have "executing (de_deadline env) (d2\<lparr>dl_payload := Some p\<rparr>)" for p
    using d2(1) by (simp add: executing_def)
  then show ?thesis
    using arm leave_ended[OF d1(1)] leave_ended[OF d2(1)] leave_ended[OF executing_cancel]
    by (cases b; cases a) (simp_all add: start_delivery_def b a Let_def flip: d0_def)
qed

lemma after_wait_ended:
  assumes "awaiting (de_deadline env) d"
  shows "turn_ended (de_deadline env) (after_wait env d)"
proof -
  obtain l where l: "dl_loan d = Some l" "ln_sent l" "\<not> ln_credit_unknown l" "dl_accepted d = dl_offset d + ln_accepted l"
      "dl_offset d + ln_expected l \<le> dl_length d" and ex: "executing (de_deadline env) d" and ns: "\<not> dl_stop_asked d"
    using assms by (auto simp: awaiting_def)
  have m: "moving d"
    using l by (simp add: moving_def)
  obtain b d1 where b: "boundary env d = (b, d1)"
    by (cases "boundary env d")
  have d1: "executing (de_deadline env) d1" "touched d d1"
    using settled_boundary[OF b ex m] by blast+
  obtain l1 where l1: "dl_loan d1 = Some l1" "same_loan l l1" "dl_accepted d1 + ln_accepted l = dl_accepted d + ln_accepted l1"
    using d1(2) l(1) by (auto simp: touched_def)
  have same: "dl_offset d1 = dl_offset d" "dl_length d1 = dl_length d" "dl_stop_asked d1 = dl_stop_asked d"
    using d1(2) by (simp_all add: touched_def)
  define d2 where "d2 = clear_credit env d1"
  have d2: "core (de_deadline env) d2" "kept d1 d2" "dl_accepted d2 = dl_accepted d1" "dl_stop_asked d2 = dl_stop_asked d1"
    using clear_credit_facts[of "de_deadline env" d1 env] d1(1) by (simp_all add: executing_def d2_def)
  have e2: "executing (de_deadline env) d2"
    using executing_touched[OF d1(1) d2(1,2)] .
  have go: "turn_ended (de_deadline env) (deliver_turn env (d2\<lparr>dl_offset := dl_offset d2 + ln_expected l1\<rparr>))"
    if "ln_accepted l1 = ln_expected l1" "dl_loan d2 = None"
  proof (rule deliver_turn_ended)
    have "dl_offset d2 = dl_offset d" "dl_length d2 = dl_length d"
      using d2(2) same by (simp_all add: kept_def)
    then show "working (de_deadline env) (d2\<lparr>dl_offset := dl_offset d2 + ln_expected l1\<rparr>)"
      using e2 that d2(3,4) l1 l(4,5) same ns by (simp add: working_def executing_def same_loan_def)
  qed
  show ?thesis
    using go leave_ended[OF d1(1)] leave_ended[OF e2] leave_ended[OF executing_cancel[OF d1(1)]]
    by (cases b) (simp_all add: after_wait_def b l1(1) Let_def flip: d2_def)
qed

section \<open>The end of a run\<close>

definition settled :: "rat \<Rightarrow> delivery \<Rightarrow> bool" where
  "settled dl d \<longleftrightarrow> core dl d \<and> dl_execution d = RunSettled \<and> \<not> dl_busy d \<and> \<not> dl_sink_busy d \<and> dl_code d \<noteq> None
     \<and> (dl_code d = Some DELIVERED \<longrightarrow> dl_phase d = Released \<and> dl_loan d = None \<and> dl_accepted d = dl_length d \<and> dl_release_tried d)"

lemma release_core:
  assumes "core dl d" "dl_loan d = None" "\<not> dl_release_tried d" "unmoved (d\<lparr>dl_payload := None, dl_release_tried := True\<rparr>) d'"
  shows "core dl (log_delivery (LeaseReturned b) (d'\<lparr>dl_code := c, dl_phase := ph\<rparr>))"
  using assms
  by (simp add: core_def at_ledger_def ledger_of_def log_delivery_def run_ledger_append unmoved_def)

lemma finalize_settled:
  assumes "core dl d" "dl_execution d = RunSettled" "\<not> dl_busy d" "\<not> dl_sink_busy d"
    and new: "dl_code d = None \<Longrightarrow> dl_loan d = None \<and> dl_accepted d = dl_length d \<and> \<not> dl_release_tried d"
    and old: "dl_code d = Some DELIVERED \<Longrightarrow> dl_phase d = Released \<and> dl_loan d = None \<and> dl_accepted d = dl_length d \<and> dl_release_tried d"
  shows "settled dl (finalize env d)"
proof -
  define d1 where "d1 = clear_credit env d"
  have d1: "core dl d1" "kept d d1" "dl_loan d = None \<Longrightarrow> d1 = d" "dl_accepted d1 = dl_accepted d"
    using clear_credit_facts[OF assms(1), of env] by (simp_all add: d1_def)
  have st: "dl_execution d1 = RunSettled" "\<not> dl_busy d1" "\<not> dl_sink_busy d1" "dl_release_tried d1 = dl_release_tried d"
      "dl_length d1 = dl_length d" "dl_code d1 = None \<Longrightarrow> dl_code d = None" "dl_code d1 = Some DELIVERED \<Longrightarrow> dl_code d = Some DELIVERED"
    using d1(2) assms(2-4) by (simp_all add: kept_def)
  show ?thesis
  proof (cases "dl_loan d1 = None \<and> \<not> dl_release_tried d1")
    case False
    have code: "dl_code d1 \<noteq> None"
      using False new d1(3) st(4,6) by metis
    have del: "dl_code d1 = Some DELIVERED \<Longrightarrow> d1 = d \<and> dl_loan d1 = None"
      using st(7) old d1(3) by metis
    have eq: "finalize env d = (if dl_loan d1 \<noteq> None then d1\<lparr>dl_phase := Quarantined\<rparr> else d1)"
    proof (cases "dl_loan d1 = None")
      case True
      then have "dl_release_tried d1"
        using False by blast
      then show ?thesis
        using True assms(3,4) by (simp add: finalize_def Let_def flip: d1_def)
    qed (simp add: finalize_def assms(3,4) Let_def flip: d1_def)
    show ?thesis
    proof (cases "dl_loan d1 = None")
      case True
      have "dl_code d1 = Some DELIVERED \<longrightarrow> dl_phase d1 = Released \<and> dl_loan d1 = None \<and> dl_accepted d1 = dl_length d1 \<and> dl_release_tried d1"
        using del old by metis
      then show ?thesis
        using True code d1(1) st(1-3) by (simp add: eq settled_def)
    next
      case False
      then have "dl_code d1 \<noteq> Some DELIVERED"
        using del by metis
      then show ?thesis
        using False code d1(1) st(1-3) by (simp add: eq settled_def)
    qed
  next
    case True
    define d2 where "d2 = d1\<lparr>dl_payload := None, dl_release_tried := True\<rparr>"
    obtain a d3 where a: "ask (de_release env) d2 = (a, d3)"
      by (cases "ask (de_release env) d2")
    have "quiet d2"
      using True d1(1) by (simp add: quiet_def d2_def core_def)
    then have u: "unmoved d2 d3"
      by (rule ask_quiet[OF a])
    then have s3: "dl_execution d3 = RunSettled" "\<not> dl_busy d3" "\<not> dl_sink_busy d3" "dl_release_tried d3" "dl_length d3 = dl_length d"
        "dl_loan d3 = None" "dl_accepted d3 = dl_accepted d" "dl_code d3 = None \<Longrightarrow> dl_code d = None" "dl_code d3 \<noteq> Some DELIVERED"
      using st True d1(4) old by (auto simp: unmoved_def d2_def)
    define d4 where "d4 = (if a = Gave () then log_delivery (LeaseReturned True) (d3\<lparr>dl_phase := Released\<rparr>)
        else log_delivery (LeaseReturned False) (d3\<lparr>dl_code := Some CLEANUP, dl_phase := Quarantined\<rparr>))"
    have c4: "core dl d4"
      using release_core[OF d1(1), where d' = d3 and b = True and c = "dl_code d3" and ph = Released]
        release_core[OF d1(1), where d' = d3 and b = False and c = "Some CLEANUP" and ph = Quarantined] True u
      by (simp add: d4_def flip: d2_def)
    have s4: "dl_execution d4 = RunSettled" "\<not> dl_busy d4" "\<not> dl_sink_busy d4" "dl_release_tried d4" "dl_length d4 = dl_length d"
        "dl_loan d4 = None" "dl_accepted d4 = dl_accepted d" "dl_code d4 = None \<Longrightarrow> dl_code d = None \<and> dl_phase d4 = Released" "dl_code d4 \<noteq> Some DELIVERED"
      using s3 by (cases "a = Gave ()"; simp add: d4_def log_delivery_def)+
    define d5 where "d5 = (if dl_aborted d4 \<and> dl_code d4 = None then d4\<lparr>dl_code := Some CANCELLED\<rparr> else d4)"
    have eq: "finalize env d = (if dl_code d5 = None then d5\<lparr>dl_code := Some DELIVERED\<rparr> else d5)"
      using True assms(3,4) by (simp add: finalize_def a Let_def d4_def d5_def flip: d1_def d2_def)
    show ?thesis
      using c4 s4 new by (auto simp: eq d5_def settled_def)
  qed
qed

definition fresh_delivery :: "rat \<Rightarrow> delivery \<Rightarrow> bool" where
  "fresh_delivery dl d \<longleftrightarrow> core dl d \<and> dl_execution d = NotRun \<and> dl_loan d = None \<and> dl_accepted d = 0 \<and> dl_offset d = 0
     \<and> \<not> dl_release_tried d \<and> \<not> dl_stop_asked d \<and> \<not> dl_busy d \<and> \<not> dl_sink_busy d \<and> \<not> dl_finishing d \<and> dl_code d \<noteq> Some DELIVERED"

definition delivery_ok :: "rat \<Rightarrow> delivery \<Rightarrow> bool" where
  "delivery_ok dl d \<longleftrightarrow> fresh_delivery dl d \<or> awaiting dl d \<or> finished dl d \<or> settled dl d"

lemma turn_ended_ok: "turn_ended dl d \<Longrightarrow> delivery_ok dl d"
  by (auto simp: turn_ended_def delivery_ok_def)

lemma delivery_ok_core: "delivery_ok dl d \<Longrightarrow> core dl d"
  by (auto simp: delivery_ok_def fresh_delivery_def awaiting_def finished_def executing_def settled_def)

lemma new_delivery_ok: "delivery_ok dl (new_delivery initial aborted)"
  by (simp add: delivery_ok_def fresh_delivery_def new_delivery_def core_def at_ledger_def ledger_of_def)

lemma happen_ok:
  assumes "delivery_ok dl d"
  shows "delivery_ok dl (happen h d)"
proof -
  have c: "core dl (happen h d)" and t: "touched d (happen h d)"
    using happen_core happen_touched delivery_ok_core[OF assms] by blast+
  consider "fresh_delivery dl d" | "awaiting dl d" | "finished dl d" | "settled dl d"
    using assms by (auto simp: delivery_ok_def)
  then show ?thesis
  proof cases
    case 1
    have "quiet d"
      using 1 by (simp add: fresh_delivery_def quiet_def)
    then have "unmoved d (happen h d)"
      by (rule happen_quiet)
    then have "fresh_delivery dl (happen h d)"
      using 1 c by (auto simp: fresh_delivery_def unmoved_def)
    then show ?thesis
      by (simp add: delivery_ok_def)
  next
    case 2
    then obtain l where l: "dl_loan d = Some l" "ln_sent l" "\<not> ln_credit_unknown l" "dl_accepted d = dl_offset d + ln_accepted l"
        "dl_offset d + ln_expected l \<le> dl_length d"
      by (auto simp: awaiting_def)
    obtain l' where l': "dl_loan (happen h d) = Some l'" "same_loan l l'" "dl_accepted (happen h d) + ln_accepted l = dl_accepted d + ln_accepted l'"
      using t l(1) by (auto simp: touched_def)
    have "executing dl (happen h d)"
      using executing_touched[OF _ c touched_kept[OF t]] 2 by (simp add: awaiting_def)
    then have "awaiting dl (happen h d)"
      using 2 l l' t by (simp add: awaiting_def same_loan_def touched_def)
    then show ?thesis
      by (simp add: delivery_ok_def)
  next
    case 3
    have k: "kept d (happen h d)"
      by (rule touched_kept[OF t])
    have "executing dl (happen h d)"
      using executing_touched[OF _ c k] 3 by (simp add: finished_def)
    then have "finished dl (happen h d)"
      using 3 k by (simp add: finished_def kept_def)
    then show ?thesis
      by (simp add: delivery_ok_def)
  next
    case 4
    have k: "kept d (happen h d)"
      by (rule touched_kept[OF t])
    have "settled dl (happen h d)"
      using 4 k c kept_code[OF k] by (simp add: settled_def kept_def)
    then show ?thesis
      by (simp add: delivery_ok_def)
  qed
qed

lemma run_delivery_ok:
  assumes "delivery_ok (de_deadline env) d"
  shows "delivery_ok (de_deadline env) (run_delivery env d)"
proof (cases "dl_execution d = NotRun")
  case True
  then have "fresh_delivery (de_deadline env) d"
    using assms by (auto simp: delivery_ok_def awaiting_def finished_def settled_def)
  then have "working (de_deadline env) (d\<lparr>dl_busy := True, dl_phase := Running\<rparr>)" "dl_offset d = 0"
    by (simp_all add: fresh_delivery_def working_def executing_def)
  then show ?thesis
    using start_delivery_ended turn_ended_ok True by (simp add: run_delivery_def)
qed (simp add: run_delivery_def assms)

lemma deliver_step_ok:
  assumes "delivery_ok (de_deadline env) d"
  shows "delivery_ok (de_deadline env) (deliver_step env e d)"
proof (cases e)
  case DRun
  then show ?thesis
    using run_delivery_ok[OF assms] by simp
next
  case DClose
  then show ?thesis
    using run_delivery_ok[OF happen_ok[OF assms, of Closes]] by (simp only: deliver_step.simps)
next
  case (DHappens h)
  then show ?thesis
    using happen_ok[OF assms] by simp
next
  case DResume
  have "awaiting (de_deadline env) d" if "dl_execution d = Awaiting"
    using assms that by (auto simp: delivery_ok_def fresh_delivery_def finished_def settled_def)
  then show ?thesis
    using assms after_wait_ended turn_ended_ok by (simp add: DResume)
next
  case DSettle
  show ?thesis
  proof (cases "dl_execution d = Executed")
    case True
    then have f: "finished (de_deadline env) d"
      using assms by (auto simp: delivery_ok_def fresh_delivery_def awaiting_def settled_def)
    have "settled (de_deadline env) (finalize env (d\<lparr>dl_busy := False, dl_execution := RunSettled\<rparr>))"
      by (rule finalize_settled) (use f in \<open>simp_all add: finished_def executing_def\<close>)
    then show ?thesis
      using True by (simp add: DSettle delivery_ok_def)
  qed (simp add: DSettle assms)
next
  case DFinalize
  show ?thesis
  proof (cases "dl_finishing d")
    case True
    consider "dl_busy d" | "settled (de_deadline env) d"
      using assms True by (auto simp: delivery_ok_def fresh_delivery_def awaiting_def finished_def executing_def)
    then show ?thesis
    proof cases
      case 1
      then have "finalize env (d\<lparr>dl_finishing := False\<rparr>) = d\<lparr>dl_finishing := False\<rparr>"
        by (simp add: finalize_def)
      moreover have "awaiting (de_deadline env) d \<or> finished (de_deadline env) d"
        using assms 1 by (auto simp: delivery_ok_def fresh_delivery_def settled_def)
      then have "delivery_ok (de_deadline env) (d\<lparr>dl_finishing := False\<rparr>)"
        by (auto simp: delivery_ok_def awaiting_def finished_def executing_def)
      ultimately show ?thesis
        using True by (simp add: DFinalize)
    next
      case 2
      have "settled (de_deadline env) (finalize env (d\<lparr>dl_finishing := False\<rparr>))"
        by (rule finalize_settled) (use 2 in \<open>auto simp: settled_def\<close>)
      then show ?thesis
        using True by (simp add: DFinalize delivery_ok_def)
    qed
  qed (simp add: DFinalize assms)
qed

lemma run_deliveries_ok: "delivery_ok (de_deadline env) (run (deliver_step env) es (new_delivery initial aborted))"
proof -
  have "delivery_ok (de_deadline env) d \<Longrightarrow> delivery_ok (de_deadline env) (run (deliver_step env) es d)" for d
    by (induction es arbitrary: d) (simp_all add: deliver_step_ok)
  then show ?thesis
    by (simp add: new_delivery_ok)
qed

text \<open>
  C37. Whatever the sink, the clock, the timer and the owner do, and whenever, what a delivery does is a run of the
  ledger: one copy at a time, paid for before it is let out, let out only right after the boundary allowed it before
  the deadline, paid back only once it is known to be gone, and the reading itself given back last and once; the
  state is the ledger's state.
\<close>

theorem delivery_refines_ledger:
  "run_ledger (de_deadline env) (LFree 0) (dl_log (run (deliver_step env) es (new_delivery initial aborted)))
   = Some (ledger_of (run (deliver_step env) es (new_delivery initial aborted)))"
  using delivery_ok_core[OF run_deliveries_ok[of env es initial aborted]] by (simp add: core_def at_ledger_def)

text \<open>
  A delivery that says DELIVERED has given the whole reading to the sink, holds no copy and no payment any more,
  and has released the reading.
\<close>

theorem delivered_means_everything:
  assumes "dl_code (run (deliver_step env) es (new_delivery initial aborted)) = Some DELIVERED"
  shows "dl_accepted (run (deliver_step env) es (new_delivery initial aborted)) = dl_length (run (deliver_step env) es (new_delivery initial aborted))
     \<and> dl_phase (run (deliver_step env) es (new_delivery initial aborted)) = Released
     \<and> \<not> scratch_held (run (deliver_step env) es (new_delivery initial aborted))
     \<and> run_ledger (de_deadline env) (LFree 0) (dl_log (run (deliver_step env) es (new_delivery initial aborted)))
         = Some (LEnded (dl_length (run (deliver_step env) es (new_delivery initial aborted))))"
proof -
  define d where "d = run (deliver_step env) es (new_delivery initial aborted)"
  have ok: "delivery_ok (de_deadline env) d"
    by (simp add: d_def run_deliveries_ok)
  then have "settled (de_deadline env) d"
    using assms by (auto simp: delivery_ok_def fresh_delivery_def awaiting_def finished_def executing_def simp flip: d_def)
  then have s: "dl_phase d = Released" "dl_loan d = None" "dl_accepted d = dl_length d" "dl_release_tried d"
    using assms by (simp_all add: settled_def flip: d_def)
  moreover have "run_ledger (de_deadline env) (LFree 0) (dl_log d) = Some (ledger_of d)"
    using delivery_ok_core[OF ok] by (simp add: core_def at_ledger_def)
  ultimately show ?thesis
    by (simp add: scratch_held_def ledger_of_def flip: d_def)
qed

section \<open>What the ledger says of its history\<close>

fun gone_bytes :: "delivery_event list \<Rightarrow> nat" where
  "gone_bytes [] = 0"
| "gone_bytes (CopyGone m # es) = m + gone_bytes es"
| "gone_bytes (_ # es) = gone_bytes es"

lemma gone_bytes_append [simp]: "gone_bytes (xs @ ys) = gone_bytes xs + gone_bytes ys"
  by (induction xs rule: gone_bytes.induct) simp_all

definition copies_out :: "delivery_event list \<Rightarrow> nat" where
  "copies_out es = length (filter (\<lambda>e. case e of CopySent _ _ \<Rightarrow> True | _ \<Rightarrow> False) es)"

definition payments_taken :: "delivery_event list \<Rightarrow> nat" where
  "payments_taken es = length (filter (\<lambda>e. case e of Taken _ \<Rightarrow> True | _ \<Rightarrow> False) es)"

definition payments_returned :: "delivery_event list \<Rightarrow> nat" where
  "payments_returned es = length (filter (\<lambda>e. e = Returned True) es)"

definition last_allowed :: "rat \<Rightarrow> delivery_event list \<Rightarrow> bool" where
  "last_allowed dl es \<longleftrightarrow> es \<noteq> [] \<and> (\<exists>t. last es = Allowed t \<and> t < dl)"

fun ledger_history :: "rat \<Rightarrow> ledger \<Rightarrow> delivery_event list \<Rightarrow> bool" where
  "ledger_history dl (LFree a) es \<longleftrightarrow> gone_bytes es = a \<and> payments_taken es = payments_returned es"
| "ledger_history dl (LHeld a n) es \<longleftrightarrow> gone_bytes es = a \<and> int n \<le> 65536 \<and> payments_taken es = Suc (payments_returned es)"
| "ledger_history dl (LCleared a n) es \<longleftrightarrow> gone_bytes es = a \<and> int n \<le> 65536 \<and> payments_taken es = Suc (payments_returned es) \<and> last_allowed dl es"
| "ledger_history dl (LOut a n g q p) es \<longleftrightarrow> gone_bytes es = a \<and> payments_taken es = Suc (payments_returned es)"
| "ledger_history dl LStuck es \<longleftrightarrow> True"
| "ledger_history dl (LEnded a) es \<longleftrightarrow> gone_bytes es = a \<and> payments_taken es = payments_returned es"

lemma ledger_step_history:
  assumes "ledger_history dl s es" "ledger_step dl s e = Some s'"
  shows "ledger_history dl s' (es @ [e])"
  using assms
  by (induction dl s e rule: ledger_step.induct)
    (auto simp: payments_taken_def payments_returned_def last_allowed_def split: if_splits ledger.splits)

lemma run_ledger_history:
  assumes "run_ledger dl s es = Some s'" "ledger_history dl s pre"
  shows "ledger_history dl s' (pre @ es)"
  using assms
proof (induction es arbitrary: s pre)
  case (Cons e es)
  then obtain s1 where s1: "ledger_step dl s e = Some s1" "run_ledger dl s1 es = Some s'"
    by (auto split: option.splits)
  have "ledger_history dl s1 (pre @ [e])"
    by (rule ledger_step_history[OF Cons.prems(2) s1(1)])
  from Cons.IH[OF s1(2) this] show ?case
    by simp
qed simp

lemma copy_from_cleared: "ledger_step dl s (CopySent off n) \<noteq> None \<Longrightarrow> s = LCleared off n"
  by (cases s) (auto split: if_splits)

text \<open>
  A copy goes out only when the boundary has just allowed it before the deadline; it holds at most 64 KiB, begins
  where what the sink has taken ends, its payment is the only one outstanding, and the reading has not gone back.
\<close>

theorem copies_are_allowed_and_paid:
  assumes "dl_log (run (deliver_step env) es (new_delivery initial aborted)) = pre @ CopySent off n # post"
  shows "last_allowed (de_deadline env) pre \<and> int n \<le> 65536 \<and> off = gone_bytes pre
     \<and> payments_taken pre = Suc (payments_returned pre)"
proof -
  have "run_ledger (de_deadline env) (LFree 0) (pre @ CopySent off n # post) \<noteq> None"
    using delivery_ok_core[OF run_deliveries_ok[of env es initial aborted]] assms by (simp add: core_def at_ledger_def)
  then obtain s where s: "run_ledger (de_deadline env) (LFree 0) pre = Some s" "ledger_step (de_deadline env) s (CopySent off n) \<noteq> None"
    by (auto simp: run_ledger_append split: option.splits)
  have "ledger_history (de_deadline env) (LCleared off n) pre"
    using run_ledger_history[OF s(1), of "[]"] copy_from_cleared[OF s(2)] by (simp add: payments_taken_def payments_returned_def)
  then show ?thesis
    by simp
qed

section \<open>A delivery of three bytes\<close>

definition sample_sink :: delivery_env where
  "sample_sink = \<lparr>de_deadline = 10, de_now = (\<lambda>_. ([], Gave (Some 0))), de_dispatch = (\<lambda>_. ([], Gave True)),
     de_bytes = (\<lambda>_. ([], Gave \<lparr>pl_object = 1, pl_plain = True, pl_whole = True, pl_length = 3\<rparr>)),
     de_reserve = (\<lambda>_. ([], Gave True)), de_return = (\<lambda>_. ([], Gave True)), de_release = (\<lambda>_. ([], Gave ())),
     de_write = (\<lambda>_. ([WriteComplete 0 (Some 3)], Gave True)), de_stop = (\<lambda>_. []), de_arm = (\<lambda>_. ([], Gave True)),
     de_disarm = (\<lambda>_. ([], Gave ()))\<rparr>"

lemmas delivery_eval = sample_sink_def new_delivery_def run_delivery_def start_delivery_def boundary_def sample_clock_def ask_def
  arm_timer_def payload_ok_def deliver_turn_def make_loan_def send_copy_def same_payload_def after_wait_def clear_credit_def credit_free_def
  end_execution_def request_stop_def finalize_def receipt_open_def later_finalize_def upd_loan_def log_delivery_def cancel_delivery_def Let_def

lemma sample_delivery:
  "dl_code (run (deliver_step sample_sink) [DRun, DResume, DSettle] (new_delivery 0 False)) = Some DELIVERED"
  "dl_log (run (deliver_step sample_sink) [DRun, DResume, DSettle] (new_delivery 0 False)) =
     [Allowed 0, Allowed 0, Taken 3, Allowed 0] @ CopySent 0 3 # [CopyGone 3, Allowed 0, Returned True, Allowed 0, LeaseReturned True]"
  by (simp_all add: delivery_eval)

theorem delivered_means_everything_witness:
  "dl_phase (run (deliver_step sample_sink) [DRun, DResume, DSettle] (new_delivery 0 False)) = Released"
  using delivered_means_everything[OF sample_delivery(1)] by blast

theorem copies_are_allowed_and_paid_witness:
  "last_allowed (de_deadline sample_sink) [Allowed 0, Allowed 0, Taken 3, Allowed 0]"
  using copies_are_allowed_and_paid[OF sample_delivery(2)] by blast

end
