(* ===== verification/BrokerCall.thy ===== *)
theory BrokerCall
  imports Callers OrbitErrors "HOL-Library.Word"
begin

text \<open>
  \<open>src/ipc.ts\<close>: one request of a client to the broker and its reply, on both sides of the socket. On the client's side:
  the reply's bytes kept in slabs of 64 KiB, the envelope a reply must have, \<open>call\<close>, and the cancellable call as the
  machine its event handlers make. On the broker's side: the handler of a request, which takes who is asking from
  the headers. Parameters: \<open>parse\<close> is \<open>JSON.parse\<close> (None where it throws), \<open>utf8\<close> the decoding of bytes as text, which
  does not depend on how a stream was cut, \<open>decode\<close> and \<open>suffix\<close> as in \<open>Callers\<close>, and the broker's own \<open>dispatch\<close> and
  \<open>settings\<close>. Starting and closing the broker, its files and the transport's timeouts are not represented.
\<close>

section \<open>Slabs\<close>

definition slab_bytes :: nat where
  "slab_bytes = 65536"

definition reply_limit :: int where
  "reply_limit = 33554432"

type_synonym slabs = "8 word list list \<times> nat"

definition fill_slab :: "8 word list \<Rightarrow> nat \<Rightarrow> 8 word list \<Rightarrow> 8 word list" where
  "fill_slab slab used piece = take used slab @ piece @ drop (used + length piece) slab"

function store_bytes :: "8 word list \<Rightarrow> slabs \<Rightarrow> slabs" where
  "store_bytes chunk (slabs, bytes) =
     (if chunk = [] then (slabs, bytes)
      else let index = bytes div slab_bytes; used = bytes mod slab_bytes;
               grown = (if index < length slabs then slabs else slabs @ [replicate slab_bytes 0]);
               count = min (slab_bytes - used) (length chunk) in
        store_bytes (drop count chunk) (grown[index := fill_slab (grown ! index) used (take count chunk)], bytes + count))"
  by pat_completeness auto
termination
  by (relation "measure (\<lambda>(chunk, s). length chunk)") (auto simp: slab_bytes_def)

text \<open>What the decoder is given: the used part of each slab.\<close>

definition slab_pieces :: "slabs \<Rightarrow> 8 word list list" where
  "slab_pieces s = List.map (\<lambda>(index, slab). take (min slab_bytes (snd s - index * slab_bytes)) slab) (zip [0 ..< length (fst s)] (fst s))"

definition too_long :: "8 word list \<Rightarrow> slabs \<Rightarrow> bool" where
  "too_long chunk s \<longleftrightarrow> int (length chunk) > reply_limit - int (snd s)"

section \<open>The reply of an ordinary call\<close>

text \<open>A failure as the caller sees it; fields of an unchecked reply are the values that were sent.\<close>

record call_failure =
  cf_code :: jsval
  cf_message :: jsval
  cf_diagnostic :: jsval
  cf_disposition :: error_disposition

definition broker_error :: "string \<Rightarrow> call_failure" where
  "broker_error m = \<lparr>cf_code = JStr ''BROKER_ERROR'', cf_message = JStr m, cf_diagnostic = Undef, cf_disposition = normalize_disposition Undef\<rparr>"

text \<open>The stream of a body: what each read gives, up to its end.\<close>

datatype body_read = BodyChunk "8 word list" | BodyFails

fun read_body :: "body_read list \<Rightarrow> slabs \<Rightarrow> (call_failure, slabs) result" where
  "read_body [] s = Ok s"
| "read_body (BodyFails # rs) s = Err (broker_error ''Native broker reply could not be read'')"
| "read_body (BodyChunk chunk # rs) s =
     (if too_long chunk s then Err (broker_error ''Native broker reply exceeds its client bound'')
      else read_body rs (store_bytes chunk s))"

definition read_broker_json ::
  "(string \<Rightarrow> jsval option) \<Rightarrow> (8 word list \<Rightarrow> string) \<Rightarrow> body_read list option \<Rightarrow> (call_failure, jsval) result" where
  "read_broker_json parse utf8 body =
     and_then (case body of None \<Rightarrow> Ok [] | Some rs \<Rightarrow> and_then (read_body rs ([], 0)) (\<lambda>s. Ok (utf8 (concat (slab_pieces s)))))
       (\<lambda>text. case parse text of
          None \<Rightarrow> Err (broker_error ''Native broker reply is invalid JSON'')
        | Some v \<Rightarrow> Ok v)"

definition envelope :: "jsval \<Rightarrow> (bool \<times> jsobj) option" where
  "envelope v =
     (case as_object v of
        None \<Rightarrow> None
      | Some o' \<Rightarrow> (case (has_own o' ''ok'', getp o' ''ok'') of (True, JBool b) \<Rightarrow> Some (b, o') | _ \<Rightarrow> None))"

definition reply_field :: "jsval \<Rightarrow> string \<Rightarrow> jsval" where
  "reply_field v k = (case as_object v of None \<Rightarrow> Undef | Some o' \<Rightarrow> getp o' k)"

definition or_else :: "jsval \<Rightarrow> jsval \<Rightarrow> jsval" where
  "or_else v fallback = (if v = Undef \<or> v = Null then fallback else v)"

definition failure_of :: "jsval \<Rightarrow> call_failure" where
  "failure_of e =
     \<lparr>cf_code = or_else (reply_field e ''code'') (JStr ''BROKER_ERROR''),
      cf_message = or_else (reply_field e ''message'') (JStr ''Broker failed''),
      cf_diagnostic = reply_field e ''diagnosticId'',
      cf_disposition = normalize_disposition e\<rparr>"

definition call_reply :: "(call_failure, jsval) result \<Rightarrow> (call_failure, jsval) result" where
  "call_reply r =
     and_then r (\<lambda>v. case envelope v of
        None \<Rightarrow> Err (broker_error ''Native broker reply has an invalid response envelope'')
      | Some (b, o') \<Rightarrow> if b then Ok (getp o' ''result'') else Err (failure_of (getp o' ''error'')))"

section \<open>The cancellable call\<close>

datatype call_end = CallOk jsval | CallFailed call_failure

record call_state =
  cs_settled :: "call_end option"
  cs_listening :: bool
  cs_child :: bool
  cs_destroyed :: bool
  cs_pending_destroy :: bool
  cs_started :: bool
  cs_sent :: bool
  cs_slabs :: slabs

definition new_call :: call_state where
  "new_call = \<lparr>cs_settled = None, cs_listening = False, cs_child = False, cs_destroyed = False, cs_pending_destroy = False,
     cs_started = False, cs_sent = False, cs_slabs = ([], 0)\<rparr>"

definition end_call :: "call_end \<Rightarrow> call_state \<Rightarrow> call_state" where
  "end_call r c = (if cs_settled c \<noteq> None then c else c\<lparr>cs_settled := Some r, cs_listening := False, cs_slabs := ([], snd (cs_slabs c))\<rparr>)"

definition destroy_child :: "call_state \<Rightarrow> call_state" where
  "destroy_child c =
     (if cs_destroyed c then c else if \<not> cs_child c then c\<lparr>cs_pending_destroy := True\<rparr> else c\<lparr>cs_destroyed := True\<rparr>)"

definition fail_call :: "call_failure \<Rightarrow> call_state \<Rightarrow> call_state" where
  "fail_call f c = (if cs_settled c \<noteq> None then c else destroy_child (end_call (CallFailed f) c))"

definition read_failure :: "call_state \<Rightarrow> call_state" where
  "read_failure = fail_call (broker_error ''Native broker reply could not be read'')"

definition error_fields_ok :: "jsval \<Rightarrow> bool" where
  "error_fields_ok e \<longleftrightarrow> e = Undef \<or> (case as_object e of
      None \<Rightarrow> False
    | Some o' \<Rightarrow> (\<forall>k \<in> set [''code'', ''message'', ''diagnosticId'']. getp o' k = Undef \<or> is_string (getp o' k)))"

definition reply_end :: "(string \<Rightarrow> jsval option) \<Rightarrow> string \<Rightarrow> call_end" where
  "reply_end parse text =
     (case parse text of
        None \<Rightarrow> CallFailed (broker_error ''Native broker reply is invalid JSON'')
      | Some v \<Rightarrow>
          (case envelope v of
             None \<Rightarrow> CallFailed (broker_error ''Native broker reply has an invalid response envelope'')
           | Some (b, o') \<Rightarrow>
               if b then CallOk (getp o' ''result'')
               else if \<not> error_fields_ok (getp o' ''error'')
               then CallFailed (broker_error ''Native broker reply has an invalid response envelope'')
               else CallFailed (failure_of (getp o' ''error''))))"

text \<open>The events: the signal, the request, the response (\<open>RespBreaks\<close> is its error, abortion or close).\<close>

datatype call_event =
    SignalAborts call_failure | RequestFails call_failure | RequestCloses | ResponseStarts
  | RespData "8 word list option" | RespEnds | RespBreaks

fun call_step :: "(string \<Rightarrow> jsval option) \<Rightarrow> (8 word list \<Rightarrow> string) \<Rightarrow> call_event \<Rightarrow> call_state \<Rightarrow> call_state" where
  "call_step parse utf8 (SignalAborts f) c = (if cs_listening c then fail_call f c else c)"
| "call_step parse utf8 (RequestFails f) c = fail_call f c"
| "call_step parse utf8 RequestCloses c = (if cs_started c then c else read_failure c)"
| "call_step parse utf8 ResponseStarts c = c\<lparr>cs_started := True\<rparr>"
| "call_step parse utf8 (RespData chunk) c =
     (if \<not> cs_started c \<or> cs_settled c \<noteq> None then c
      else case chunk of
        None \<Rightarrow> read_failure c
      | Some bs \<Rightarrow>
          if too_long bs (cs_slabs c) then fail_call (broker_error ''Native broker reply exceeds its client bound'') c
          else c\<lparr>cs_slabs := store_bytes bs (cs_slabs c)\<rparr>)"
| "call_step parse utf8 RespEnds c =
     (if \<not> cs_started c \<or> cs_settled c \<noteq> None then c
      else end_call (reply_end parse (utf8 (concat (slab_pieces (cs_slabs c))))) c)"
| "call_step parse utf8 RespBreaks c = (if \<not> cs_started c then c else read_failure c)"

text \<open>
  How the call begins: the signal may be aborted already, making the request may throw, and the signal may abort
  while the request is being made.
\<close>

datatype request_made = RequestThrows | RequestMade "call_failure option"

definition start_call :: "call_failure option \<Rightarrow> request_made \<Rightarrow> call_state" where
  "start_call aborted made =
     (let c = new_call\<lparr>cs_listening := True\<rparr> in
      case aborted of
        Some f \<Rightarrow> fail_call f c
      | None \<Rightarrow>
          (case made of
             RequestThrows \<Rightarrow> read_failure c
           | RequestMade during \<Rightarrow>
               let c1 = (case during of None \<Rightarrow> c | Some f \<Rightarrow> fail_call f c)\<lparr>cs_child := True\<rparr>;
                   c2 = (if cs_pending_destroy c1 then destroy_child c1 else c1) in
               if cs_settled c2 \<noteq> None then c2 else c2\<lparr>cs_sent := True\<rparr>))"

text \<open>\<open>brokerNotListening\<close>: a hint from the code of an error that is none of the broker's own.\<close>

definition broker_not_listening :: "bool \<Rightarrow> string option \<Rightarrow> bool" where
  "broker_not_listening of_broker ecode \<longleftrightarrow> \<not> of_broker
     \<and> ecode \<in> {Some ''FailedToOpenSocket'', Some ''ENOENT'', Some ''ECONNREFUSED'', Some ''ConnectionRefused''}"

section \<open>The broker's side\<close>

datatype rpc_thrown = RpcOrbit orbit_error | RpcSyntax | RpcOther

datatype rpc_reply = RpcNotFound | RpcResult jsval | RpcError client_error

record rpc_request =
  rq_post :: bool
  rq_path :: string
  rq_body :: "(rpc_thrown, jsval) result"
  rq_owner :: "string option"
  rq_caller :: "string option"

record rpc_broker =
  rb_token :: "string option"
  rb_decode :: "string \<Rightarrow> jsval option"
  rb_suffix :: "string \<Rightarrow> string"
  rb_probe :: process_probe
  rb_uid :: "int option"
  rb_settings :: "jsval \<Rightarrow> (rpc_thrown, jsval) result"
  rb_dispatch :: "jsval \<Rightarrow> caller \<Rightarrow> (rpc_thrown, jsval) result"

definition owner_caller :: caller where
  "owner_caller = internal_caller\<lparr>c_id := ''owner'', c_label := ''the person'', c_kind := JStr ''cli''\<rparr>"

text \<open>Who is asking; comparing the credential throws (None) for a text of its length that is not ASCII.\<close>

definition rpc_caller :: "rpc_broker \<Rightarrow> rpc_request \<Rightarrow> caller option" where
  "rpc_caller b r =
     (case owner_token_matches (rq_owner r) (rb_token b) of
        None \<Rightarrow> None
      | Some True \<Rightarrow> Some owner_caller
      | Some False \<Rightarrow> Some (resolve_caller (rb_decode b) (rb_suffix b) (rq_caller r) (rb_probe b) (rb_uid b)))"

definition rpc_error :: "bool \<Rightarrow> rpc_thrown \<Rightarrow> client_error" where
  "rpc_error parsed e =
     (case e of
        RpcOrbit x \<Rightarrow> error_payload (Some (Orbit x)) (err_code x) (err_message x)
      | RpcSyntax \<Rightarrow>
          if parsed then error_payload (Some OtherError) ''INVALID_REQUEST'' ''Request failed''
          else error_payload (Some (Orbit (new_orbit_error ''INVALID_REQUEST'' ''Request failed'' None (Some (disposition_value preflight_disposition)))))
                 ''INVALID_REQUEST'' ''Request failed''
      | RpcOther \<Rightarrow> error_payload (Some OtherError) ''BACKEND_ERROR'' ''Request failed'')"

text \<open>The handler: its reply, and what it handed to \<open>dispatch\<close>.\<close>

definition handle_rpc :: "rpc_broker \<Rightarrow> rpc_request \<Rightarrow> rpc_reply \<times> (jsval \<times> caller) option" where
  "handle_rpc b r =
     (if \<not> rq_post r \<or> rq_path r \<noteq> ''/rpc'' then (RpcNotFound, None)
      else case rq_body r of
        Inl e \<Rightarrow> (RpcError (rpc_error False e), None)
      | Inr body \<Rightarrow>
          let answer = (\<lambda>a. case a of Inl e \<Rightarrow> RpcError (rpc_error True e) | Inr v \<Rightarrow> RpcResult v) in
          if reply_field body ''method'' = JStr ''settings.list'' \<or> reply_field body ''method'' = JStr ''settings.write''
          then (answer (rb_settings b body), None)
          else (case rpc_caller b r of
              None \<Rightarrow> (RpcError (rpc_error True RpcOther), None)
            | Some who \<Rightarrow> (answer (rb_dispatch b body who), Some (body, who))))"

end
