(* ===== verification/BrokerCallFacts.thy ===== *)
theory BrokerCallFacts
  imports BrokerCall
begin

text \<open>
  Facts on a request and its reply: however the reply is cut, the slabs give back its bytes; a cancellable call ends
  once and keeps nothing afterwards, and it succeeds exactly when its reply arrived whole and undisturbed; only the credential makes the owner.
\<close>

declare store_bytes.simps [simp del]

section \<open>Slabs\<close>

definition slabs_hold :: "slabs \<Rightarrow> 8 word list \<Rightarrow> bool" where
  "slabs_hold s bs \<longleftrightarrow> snd s = length bs \<and> (\<forall>slab \<in> set (fst s). length slab = slab_bytes)
     \<and> length (fst s) = (length bs + slab_bytes - 1) div slab_bytes \<and> take (length bs) (concat (fst s)) = bs"

lemma slabs_hold_Nil: "slabs_hold ([], 0) []"
  by (simp add: slabs_hold_def slab_bytes_def)

lemma length_concat_same: "\<forall>slab \<in> set xs. length slab = n \<Longrightarrow> length (concat xs) = length xs * n"
  by (induction xs) simp_all

lemma slab_bytes_pos [simp]: "0 < slab_bytes"
  by (simp add: slab_bytes_def)

lemma concat_pieces:
  assumes "\<forall>slab \<in> set slabs. length slab = slab_bytes"
  shows "concat (List.map (\<lambda>(index, slab). take (min slab_bytes (bytes - index * slab_bytes)) slab) (zip [m ..< m + length slabs] slabs))
     = take (bytes - m * slab_bytes) (concat slabs)"
  using assms
proof (induction slabs arbitrary: m)
  case (Cons slab slabs)
  have z: "zip [m ..< m + length (slab # slabs)] (slab # slabs) = (m, slab) # zip [Suc m ..< Suc m + length slabs] slabs"
    by (simp add: upt_conv_Cons del: upt_Suc)
  have len: "length slab = slab_bytes"
    using Cons.prems by simp
  have "take (min slab_bytes (bytes - m * slab_bytes)) slab = take (bytes - m * slab_bytes) slab"
    using len by (simp add: min_def)
  moreover have "bytes - Suc m * slab_bytes = bytes - m * slab_bytes - length slab"
    using len by simp
  ultimately show ?case
    using Cons.IH[of "Suc m"] Cons.prems unfolding z by simp
qed simp

lemma slabs_hold_pieces: "slabs_hold s bs \<Longrightarrow> concat (slab_pieces s) = bs"
  using concat_pieces[of "fst s" "length bs" 0] by (simp add: slabs_hold_def slab_pieces_def)

lemma ceiling_div: "used < n \<Longrightarrow> 0 < used \<Longrightarrow> (i * n + used + n - 1) div n = Suc i" for n :: nat
proof -
  assume a: "used < n" "0 < used"
  have "i * n + used + n - 1 = (used - 1) + Suc i * n"
    using a by simp
  also have "\<dots> div n = Suc i"
    using a by (subst div_mult_self1) simp_all
  finally show ?thesis .
qed

lemma store_piece:
  assumes "slabs_hold (slabs, bytes) bs" "piece \<noteq> []" "bytes mod slab_bytes + length piece \<le> slab_bytes"
  shows "slabs_hold ((if bytes div slab_bytes < length slabs then slabs else slabs @ [replicate slab_bytes 0])
      [bytes div slab_bytes := fill_slab ((if bytes div slab_bytes < length slabs then slabs else slabs @ [replicate slab_bytes 0]) ! (bytes div slab_bytes))
         (bytes mod slab_bytes) piece], bytes + length piece) (bs @ piece)"
proof -
  define i where "i = bytes div slab_bytes"
  define used where "used = bytes mod slab_bytes"
  have b: "bytes = i * slab_bytes + used" "used < slab_bytes" "bytes = length bs"
    using assms(1) by (simp_all add: i_def used_def slabs_hold_def)
  have len: "\<forall>slab \<in> set slabs. length slab = slab_bytes" "length slabs = (bytes + slab_bytes - 1) div slab_bytes"
      "take bytes (concat slabs) = bs"
    using assms(1) by (simp_all add: slabs_hold_def)
  have piece: "0 < length piece" "used + length piece \<le> slab_bytes"
    using assms(2,3) by (simp_all add: used_def)
  have number: "(bytes + length piece + slab_bytes - 1) div slab_bytes = Suc i"
  proof (cases "used + length piece = slab_bytes")
    case True
    then have "bytes + length piece + slab_bytes - 1 = (slab_bytes - 1) + Suc i * slab_bytes"
      using b(1) True slab_bytes_pos by (cases slab_bytes) simp_all
    also have "\<dots> div slab_bytes = Suc i"
      by (subst div_mult_self1) simp_all
    finally show ?thesis .
  next
    case False
    then show ?thesis
      using ceiling_div[of "used + length piece" slab_bytes i] piece b(1) by (simp add: add.assoc)
  qed
  obtain old last where old: "(if i < length slabs then slabs else slabs @ [replicate slab_bytes 0]) = old @ [last]"
      "length old = i" "length last = slab_bytes" "\<forall>slab \<in> set old. length slab = slab_bytes" "bs = concat old @ take used last"
  proof (cases "used = 0")
    case True
    then have "length slabs = i"
      using len(2) b(1) by (simp add: slab_bytes_def)
    moreover have "length (concat slabs) = bytes"
      using length_concat_same[OF len(1)] calculation b(1) True by simp
    ultimately show ?thesis
      using that[of slabs "replicate slab_bytes 0"] len True by simp
  next
    case False
    then have n: "length slabs = Suc i"
      using len(2) ceiling_div[of used slab_bytes i] b(1,2) by simp
    then obtain old last where s: "slabs = old @ [last]" "length old = i"
      by (metis append_butlast_last_id length_butlast diff_Suc_1 list.size(3) nat.distinct(1))
    have "length (concat old) = i * slab_bytes"
      using length_concat_same[of old slab_bytes] len(1) s by simp
    then have "bs = concat old @ take used last"
      using len(1,3) s(1) b(1,2) by simp
    then show ?thesis
      using that[of old last] s n len(1) by simp
  qed
  have clen: "length (concat old) = i * slab_bytes"
    using length_concat_same[OF old(4)] old(2) by simp
  have filled: "length (fill_slab last used piece) = slab_bytes" "take (used + length piece) (fill_slab last used piece) = take used last @ piece"
    using piece(2) old(3) by (simp_all add: fill_slab_def)
  have "bytes + length piece - length (concat old) = used + length piece"
    using clen b(1) by simp
  then have "take (bytes + length piece) (concat (old @ [fill_slab last used piece])) = bs @ piece"
    using clen b(1) old(5) filled(2) by simp
  then show ?thesis
    using number filled(1) old(2,4) b(3) unfolding slabs_hold_def i_def[symmetric] used_def[symmetric] old(1)
    by (simp add: nth_append list_update_append)
qed

lemma store_bytes_holds: "slabs_hold s bs \<Longrightarrow> slabs_hold (store_bytes chunk s) (bs @ chunk)"
proof (induction chunk s arbitrary: bs rule: store_bytes.induct)
  case (1 chunk slabs bytes)
  show ?case
  proof (cases "chunk = []")
    case False
    define count where "count = min (slab_bytes - bytes mod slab_bytes) (length chunk)"
    have m: "bytes mod slab_bytes < slab_bytes"
      by simp
    then have piece: "take count chunk \<noteq> []" "bytes mod slab_bytes + length (take count chunk) \<le> slab_bytes" "length (take count chunk) = count"
      using False by (auto simp: count_def min_def)
    define next_slabs where "next_slabs = (if bytes div slab_bytes < length slabs then slabs else slabs @ [replicate slab_bytes 0])
      [bytes div slab_bytes := fill_slab ((if bytes div slab_bytes < length slabs then slabs else slabs @ [replicate slab_bytes 0]) ! (bytes div slab_bytes))
         (bytes mod slab_bytes) (take count chunk)]"
    have "slabs_hold (next_slabs, bytes + count) (bs @ take count chunk)"
      using store_piece[OF 1(2) piece(1,2)] piece(3) by (simp add: next_slabs_def)
    then have "slabs_hold (store_bytes (drop count chunk) (next_slabs, bytes + count)) ((bs @ take count chunk) @ drop count chunk)"
      unfolding next_slabs_def count_def by (rule 1(1)[OF False refl refl refl refl])
    moreover have "store_bytes chunk (slabs, bytes) = store_bytes (drop count chunk) (next_slabs, bytes + count)"
      using False by (subst store_bytes.simps) (simp add: Let_def next_slabs_def count_def)
    ultimately show ?thesis
      by simp
  next
    case True
    then show ?thesis
      using 1(2) by (simp add: store_bytes.simps)
  qed
qed

section \<open>The reply of an ordinary call\<close>

fun chunks_of :: "body_read list \<Rightarrow> 8 word list" where
  "chunks_of [] = []"
| "chunks_of (BodyChunk bs # rs) = bs @ chunks_of rs"
| "chunks_of (BodyFails # rs) = chunks_of rs"

lemma read_body_Ok:
  assumes "read_body rs s = Inr s'" "slabs_hold s bs" "int (length bs) \<le> reply_limit"
  shows "slabs_hold s' (bs @ chunks_of rs) \<and> BodyFails \<notin> set rs \<and> int (length (bs @ chunks_of rs)) \<le> reply_limit"
  using assms
proof (induction rs s arbitrary: bs rule: read_body.induct)
  case (3 chunk rs s)
  have "\<not> too_long chunk s" and r: "read_body rs (store_bytes chunk s) = Inr s'"
    using 3(2) by (simp_all split: if_splits)
  then have "int (length (bs @ chunk)) \<le> reply_limit"
    using 3(3) by (simp add: too_long_def slabs_hold_def)
  then show ?case
    using 3(1)[OF \<open>\<not> too_long chunk s\<close> r store_bytes_holds[OF 3(3)]] by simp
qed simp_all

lemma read_body_complete:
  assumes "slabs_hold s bs" "BodyFails \<notin> set rs" "int (length (bs @ chunks_of rs)) \<le> reply_limit"
  shows "\<exists>s'. read_body rs s = Inr s'"
  using assms
proof (induction rs s arbitrary: bs rule: read_body.induct)
  case (3 chunk rs s)
  then have "\<not> too_long chunk s"
    by (simp add: too_long_def slabs_hold_def)
  then show ?case
    using 3(1)[OF _ store_bytes_holds[OF 3(2)]] 3(3,4) by simp
qed simp_all

lemma read_body_Err: "read_body rs s = Inl e \<Longrightarrow> e \<in> broker_error ` {''Native broker reply could not be read'', ''Native broker reply exceeds its client bound''}"
  by (induction rs s rule: read_body.induct) (auto split: if_splits)

text \<open>
  However the body of a reply arrives in pieces, what \<open>call\<close> reads is what one would read of all its bytes at
  once, when every read succeeded and they are at most 32 MiB; else it is one of two failures. What is kept
  meanwhile is at most 512 slabs of 64 KiB.
\<close>

theorem reply_is_reassembled:
  "(if BodyFails \<notin> set rs \<and> int (length (chunks_of rs)) \<le> reply_limit
    then read_broker_json parse utf8 (Some rs) =
           (case parse (utf8 (chunks_of rs)) of None \<Rightarrow> Err (broker_error ''Native broker reply is invalid JSON'') | Some v \<Rightarrow> Ok v)
    else read_broker_json parse utf8 (Some rs) \<in>
           (Inl \<circ> broker_error) ` {''Native broker reply could not be read'', ''Native broker reply exceeds its client bound''})
   \<and> (case read_body rs ([], 0) of Inl e \<Rightarrow> True
      | Inr s \<Rightarrow> length (fst s) \<le> 512 \<and> (\<forall>slab \<in> set (fst s). length slab = slab_bytes))"
proof (cases "read_body rs ([], 0)")
  case (Inl e)
  have "\<not> (BodyFails \<notin> set rs \<and> int (length (chunks_of rs)) \<le> reply_limit)"
    using read_body_complete[OF slabs_hold_Nil, of rs] Inl by auto
  then show ?thesis
    using read_body_Err[OF Inl] Inl by (auto simp: read_broker_json_def)
next
  case (Inr s)
  have h: "slabs_hold s (chunks_of rs)" "BodyFails \<notin> set rs" "int (length (chunks_of rs)) \<le> reply_limit"
    using read_body_Ok[OF Inr slabs_hold_Nil] by (simp_all add: reply_limit_def)
  have "length (fst s) = (length (chunks_of rs) + slab_bytes - 1) div slab_bytes"
    using h(1) by (simp add: slabs_hold_def)
  also have "\<dots> \<le> (33554432 + slab_bytes - 1) div slab_bytes"
    using h(3) by (intro div_le_mono) (simp add: reply_limit_def)
  also have "\<dots> = 512"
    by (simp add: slab_bytes_def)
  finally show ?thesis
    using h Inr slabs_hold_pieces[OF h(1)] by (simp add: read_broker_json_def slabs_hold_def)
qed

section \<open>The cancellable call\<close>

lemma settled_stays:
  "cs_settled c = Some r \<Longrightarrow> \<not> cs_listening c \<Longrightarrow> fst (cs_slabs c) = [] \<Longrightarrow>
   cs_settled (call_step parse utf8 e c) = Some r \<and> \<not> cs_listening (call_step parse utf8 e c) \<and> fst (cs_slabs (call_step parse utf8 e c)) = []"
  by (cases e) (simp_all add: fail_call_def read_failure_def)

definition call_ok :: "call_state \<Rightarrow> bool" where
  "call_ok c \<longleftrightarrow> (if cs_settled c = None then cs_listening c else \<not> cs_listening c \<and> fst (cs_slabs c) = [])"

lemma fail_call_ok: "call_ok c \<Longrightarrow> call_ok (fail_call f c) \<and> cs_settled (fail_call f c) \<noteq> None"
  by (auto simp: call_ok_def fail_call_def end_call_def destroy_child_def)

lemma call_step_ok: "call_ok c \<Longrightarrow> call_ok (call_step parse utf8 e c)"
  using fail_call_ok[of c]
  by (cases e; cases "cs_settled c = None") (simp_all add: read_failure_def end_call_def call_ok_def split: option.splits)

lemma start_call_ok: "call_ok (start_call aborted made)"
  by (auto simp: start_call_def call_ok_def new_call_def Let_def fail_call_def end_call_def destroy_child_def read_failure_def
      split: option.splits request_made.splits)

lemma run_call_ok: "call_ok c \<Longrightarrow> call_ok (run (call_step parse utf8) es c)"
  by (induction es arbitrary: c) (simp_all add: call_step_ok)

text \<open>
  A cancellable call ends at most once: what it ended with stays, whatever happens later, and from then on it listens
  to the signal no more and keeps no byte of the reply.
\<close>

theorem call_ends_once:
  assumes "cs_settled (run (call_step parse utf8) es (start_call aborted made)) = Some r"
  shows "cs_settled (run (call_step parse utf8) (es @ es') (start_call aborted made)) = Some r
     \<and> \<not> cs_listening (run (call_step parse utf8) (es @ es') (start_call aborted made))
     \<and> fst (cs_slabs (run (call_step parse utf8) (es @ es') (start_call aborted made))) = []"
proof -
  define c where "c = run (call_step parse utf8) es (start_call aborted made)"
  have c: "cs_settled c = Some r" "\<not> cs_listening c" "fst (cs_slabs c) = []"
    using assms run_call_ok[OF start_call_ok, of parse utf8 es aborted made] by (simp_all add: call_ok_def flip: c_def)
  then have "cs_settled (run (call_step parse utf8) es' c) = Some r \<and> \<not> cs_listening (run (call_step parse utf8) es' c)
      \<and> fst (cs_slabs (run (call_step parse utf8) es' c)) = []"
    by (induction es' arbitrary: c) (use settled_stays in \<open>simp_all\<close>)
  then show ?thesis
    by (simp add: run_append flip: c_def)
qed

text \<open>The bytes of the reply that arrived once it had started.\<close>

fun received :: "bool \<Rightarrow> call_event list \<Rightarrow> 8 word list" where
  "received started [] = []"
| "received started (ResponseStarts # es) = received True es"
| "received started (RespData (Some bs) # es) = (if started then bs else []) @ received started es"
| "received started (_ # es) = received started es"

text \<open>
  What may happen to a call without ending it, before and after the response has started: no cancellation and no
  failure of the request at any time; the request's close only afterwards; of the response's own events, which come
  after its start, none but bytes.
\<close>

definition quiet :: "bool \<Rightarrow> call_event \<Rightarrow> bool" where
  "quiet started e = (case e of
     SignalAborts f \<Rightarrow> False | RequestFails f \<Rightarrow> False | RequestCloses \<Rightarrow> started | ResponseStarts \<Rightarrow> True
   | RespData chunk \<Rightarrow> \<not> started \<or> chunk \<noteq> None | RespEnds \<Rightarrow> \<not> started | RespBreaks \<Rightarrow> \<not> started)"

fun undisturbed :: "bool \<Rightarrow> call_event list \<Rightarrow> bool" where
  "undisturbed started [] \<longleftrightarrow> True"
| "undisturbed started (e # es) \<longleftrightarrow> quiet started e \<and> undisturbed (started \<or> e = ResponseStarts) es"

definition reply_kept :: "8 word list \<Rightarrow> call_state \<Rightarrow> bool" where
  "reply_kept bs c \<longleftrightarrow> cs_settled c = None \<and> cs_listening c \<and> slabs_hold (cs_slabs c) bs \<and> int (length bs) \<le> reply_limit"

lemma fail_not_ok: "cs_settled c = None \<Longrightarrow> cs_settled (fail_call f c) = Some (CallFailed f)"
  by (simp add: fail_call_def end_call_def destroy_child_def)

text \<open>
  What an event does to a call that is not over: a quiet one that fits is kept, the end of the response settles it by
  the whole reply, and anything else fails it.
\<close>

lemma quiet_step:
  assumes k: "reply_kept bs c" and q: "quiet (cs_started c) e"
    and l: "int (length (bs @ received (cs_started c) [e])) \<le> reply_limit"
  shows "reply_kept (bs @ received (cs_started c) [e]) (call_step parse utf8 e c)
     \<and> cs_started (call_step parse utf8 e c) = (cs_started c \<or> e = ResponseStarts)"
proof (cases e)
  case (RespData chunk)
  show ?thesis
  proof (cases "cs_started c")
    case True
    then obtain piece where p: "chunk = Some piece"
      using q RespData by (auto simp: quiet_def)
    have h: "slabs_hold (cs_slabs c) bs"
      using k by (simp add: reply_kept_def)
    have "\<not> too_long piece (cs_slabs c)"
      using l h True by (simp add: too_long_def slabs_hold_def RespData p)
    then show ?thesis
      using k l True store_bytes_holds[OF h, of piece] by (simp add: reply_kept_def RespData p)
  qed (use k RespData in \<open>cases chunk; simp\<close>)
qed (use k q in \<open>simp_all add: quiet_def reply_kept_def\<close>)

lemma end_step:
  assumes "reply_kept bs c" "cs_started c"
  shows "cs_settled (call_step parse utf8 RespEnds c) = Some (reply_end parse (utf8 bs))"
  using assms slabs_hold_pieces[of "cs_slabs c" bs] by (simp add: reply_kept_def end_call_def)

lemma failing_step:
  assumes k: "reply_kept bs c" and e: "\<not> (e = RespEnds \<and> cs_started c)"
    and n: "\<not> quiet (cs_started c) e \<or> reply_limit < int (length (bs @ received (cs_started c) [e]))"
  shows "\<exists>f. cs_settled (call_step parse utf8 e c) = Some (CallFailed f)"
proof -
  have c: "cs_settled c = None" "cs_listening c" "slabs_hold (cs_slabs c) bs" "int (length bs) \<le> reply_limit"
    using k by (simp_all add: reply_kept_def)
  note fails = fail_not_ok[OF c(1)]
  show ?thesis
  proof (cases e)
    case (RespData chunk)
    show ?thesis
    proof (cases chunk)
      case None
      then show ?thesis
        using fails c n RespData by (auto simp: quiet_def read_failure_def)
    next
      case (Some piece)
      then have "cs_started c \<and> too_long piece (cs_slabs c)"
        using n c RespData by (auto simp: quiet_def too_long_def slabs_hold_def split: if_splits)
      then show ?thesis
        using fails c RespData Some by simp
    qed
  qed (use fails c e n in \<open>simp_all add: quiet_def read_failure_def\<close>)
qed

lemma received_append: "received started (xs @ ys) = received started xs @ received (started \<or> ResponseStarts \<in> set xs) ys"
  by (induction started xs rule: received.induct) auto

lemma received_Cons: "received started (e # es) = received started [e] @ received (started \<or> e = ResponseStarts) es"
  using received_append[of started "[e]" es] by (auto simp: eq_commute[of ResponseStarts])

lemma run_settled: "cs_settled c = Some r \<Longrightarrow> cs_settled (run (call_step parse utf8) es c) = Some r"
proof (induction es arbitrary: c)
  case (Cons e es)
  have "cs_settled (call_step parse utf8 e c) = Some r"
    using Cons.prems by (cases e) (simp_all add: fail_call_def read_failure_def)
  then show ?case
    using Cons.IH by simp
qed simp

text \<open>A course of events that ends well, from a response that has started or not and these bytes of it.\<close>

definition ends_well ::
  "(string \<Rightarrow> jsval option) \<Rightarrow> (8 word list \<Rightarrow> string) \<Rightarrow> bool \<Rightarrow> 8 word list \<Rightarrow> call_event list \<Rightarrow> jsval \<Rightarrow> bool" where
  "ends_well parse utf8 started bs es v \<longleftrightarrow>
     (\<exists>pre post. es = pre @ RespEnds # post \<and> (started \<or> ResponseStarts \<in> set pre) \<and> undisturbed started pre
        \<and> int (length (bs @ received started pre)) \<le> reply_limit \<and> reply_end parse (utf8 (bs @ received started pre)) = CallOk v)"

lemma ends_well_Cons:
  "ends_well parse utf8 started bs (e # es) v \<longleftrightarrow>
     e = RespEnds \<and> started \<and> int (length bs) \<le> reply_limit \<and> reply_end parse (utf8 bs) = CallOk v
   \<or> quiet started e \<and> ends_well parse utf8 (started \<or> e = ResponseStarts) (bs @ received started [e]) es v"
  (is "?l \<longleftrightarrow> ?r")
proof
  assume ?l
  then obtain pre post where p: "e # es = pre @ RespEnds # post" "started \<or> ResponseStarts \<in> set pre" "undisturbed started pre"
      "int (length (bs @ received started pre)) \<le> reply_limit" "reply_end parse (utf8 (bs @ received started pre)) = CallOk v"
    by (auto simp: ends_well_def)
  then show ?r
  proof (cases pre)
    case (Cons e' pre')
    then have "quiet started e \<and> ends_well parse utf8 (started \<or> e = ResponseStarts) (bs @ received started [e]) es v"
      unfolding ends_well_def using p received_Cons[of started e pre']
      by (intro conjI exI[of _ pre'] exI[of _ post]) (auto simp del: received.simps)
    then show ?thesis ..
  qed auto
next
  assume ?r
  then show ?l
  proof
    assume "quiet started e \<and> ends_well parse utf8 (started \<or> e = ResponseStarts) (bs @ received started [e]) es v"
    then obtain pre post where "es = pre @ RespEnds # post" "quiet started e" "started \<or> e = ResponseStarts \<or> ResponseStarts \<in> set pre"
        "undisturbed (started \<or> e = ResponseStarts) pre"
        "int (length ((bs @ received started [e]) @ received (started \<or> e = ResponseStarts) pre)) \<le> reply_limit"
        "reply_end parse (utf8 ((bs @ received started [e]) @ received (started \<or> e = ResponseStarts) pre)) = CallOk v"
      by (auto simp: ends_well_def)
    then show ?l
      unfolding ends_well_def using received_Cons[of started e pre]
      by (intro exI[of _ "e # pre"] exI[of _ post]) (auto simp del: received.simps)
  next
    assume "e = RespEnds \<and> started \<and> int (length bs) \<le> reply_limit \<and> reply_end parse (utf8 bs) = CallOk v"
    then show ?l
      unfolding ends_well_def by (intro exI[of _ "[]"] exI[of _ es]) simp
  qed
qed

lemma ends_well_bound: "ends_well parse utf8 started bs es v \<Longrightarrow> int (length bs) \<le> reply_limit"
  by (auto simp: ends_well_def)

lemma run_ends_well:
  "reply_kept bs c \<Longrightarrow> cs_settled (run (call_step parse utf8) es c) = Some (CallOk v) \<longleftrightarrow> ends_well parse utf8 (cs_started c) bs es v"
proof (induction es arbitrary: bs c)
  case Nil
  then show ?case
    by (simp add: reply_kept_def ends_well_def)
next
  case (Cons e es)
  let ?c = "call_step parse utf8 e c" and ?bs = "bs @ received (cs_started c) [e]"
  consider (whole) "e = RespEnds" "cs_started c"
    | (kept) "\<not> (e = RespEnds \<and> cs_started c)" "quiet (cs_started c) e" "int (length ?bs) \<le> reply_limit"
    | (fails) "\<not> (e = RespEnds \<and> cs_started c)" "\<not> quiet (cs_started c) e \<or> reply_limit < int (length ?bs)"
    by linarith
  then show ?case
  proof cases
    case whole
    then show ?thesis
      using end_step[OF Cons.prems whole(2), of parse utf8] run_settled[of ?c _ parse utf8 es] Cons.prems
      by (simp add: ends_well_Cons quiet_def reply_kept_def)
  next
    case kept
    note Q = quiet_step[OF Cons.prems kept(2,3), of parse utf8]
    then show ?thesis
      using Cons.IH[of ?bs ?c] kept by (auto simp: ends_well_Cons)
  next
    case fails
    then obtain f where "cs_settled ?c = Some (CallFailed f)"
      using failing_step[OF Cons.prems] by blast
    then have "cs_settled (run (call_step parse utf8) (e # es) c) = Some (CallFailed f)"
      using run_settled by simp
    moreover have "\<not> ends_well parse utf8 (cs_started c) bs (e # es) v"
      using fails ends_well_bound[of parse utf8 _ ?bs es v] by (auto simp: ends_well_Cons)
    ultimately show ?thesis
      by simp
  qed
qed

lemma start_unless_failed:
  "aborted = None \<and> made = RequestMade None \<and> reply_kept [] (start_call aborted made) \<and> \<not> cs_started (start_call aborted made)
   \<or> \<not> (aborted = None \<and> made = RequestMade None) \<and> (\<exists>f. cs_settled (start_call aborted made) = Some (CallFailed f))"
  by (auto simp: start_call_def new_call_def Let_def fail_call_def end_call_def destroy_child_def read_failure_def reply_kept_def
      slabs_hold_Nil reply_limit_def split: option.splits request_made.splits)

lemma reply_end_ok:
  "reply_end parse t = CallOk v \<longleftrightarrow> (\<exists>reply fs. parse t = Some reply \<and> envelope reply = Some (True, fs) \<and> v = getp fs ''result'')"
  by (auto simp: reply_end_def split: option.splits prod.splits if_splits)

text \<open>
  C38. A cancellable call succeeds exactly when its reply arrived whole: the signal was not aborted and the request was
  made; up to the end of the response there was no cancellation, no failure of the request, no close of it before the
  response started, and after that start nothing but bytes (no break, no chunk that is not bytes); and all bytes
  between the start and the end, at most 32 MiB of them, read as one JSON object that says it is ok, whose result is
  the value.
\<close>

theorem success_is_the_whole_reply:
  "cs_settled (run (call_step parse utf8) es (start_call aborted made)) = Some (CallOk v)
     \<longleftrightarrow> aborted = None \<and> made = RequestMade None
       \<and> (\<exists>pre post reply fs. es = pre @ RespEnds # post \<and> ResponseStarts \<in> set pre \<and> undisturbed False pre
            \<and> int (length (received False pre)) \<le> reply_limit
            \<and> parse (utf8 (received False pre)) = Some reply \<and> envelope reply = Some (True, fs) \<and> v = getp fs ''result'')"
  using start_unless_failed[of aborted made]
proof
  assume s: "aborted = None \<and> made = RequestMade None \<and> reply_kept [] (start_call aborted made) \<and> \<not> cs_started (start_call aborted made)"
  have "cs_settled (run (call_step parse utf8) es (start_call aborted made)) = Some (CallOk v)
      \<longleftrightarrow> ends_well parse utf8 False [] es v"
    using s run_ends_well[of "[]" "start_call aborted made" parse utf8 es v] by metis
  then show ?thesis
    using s by (simp add: ends_well_def reply_end_ok)
next
  assume "\<not> (aborted = None \<and> made = RequestMade None) \<and> (\<exists>f. cs_settled (start_call aborted made) = Some (CallFailed f))"
  then show ?thesis
    using run_settled[of "start_call aborted made" _ parse utf8 es] by auto
qed

definition sample_parse :: "string \<Rightarrow> jsval option" where
  "sample_parse t = Some (JObj [(''ok'', JBool True), (''result'', JStr t)])"

lemma sample_reply:
  "cs_settled (run (call_step sample_parse (\<lambda>bs. replicate (length bs) CHR ''x'')) [ResponseStarts, RespData (Some []), RespEnds]
     (start_call None (RequestMade None))) = Some (CallOk (JStr []))"
  by (simp add: start_call_def new_call_def Let_def too_long_def reply_limit_def store_bytes.simps end_call_def slab_pieces_def reply_end_def
      sample_parse_def envelope_def as_object_def has_own_def getp_def)

theorem call_ends_once_witness:
  "cs_settled (run (call_step sample_parse (\<lambda>bs. replicate (length bs) CHR ''x''))
     ([ResponseStarts, RespData (Some []), RespEnds] @ [RespBreaks]) (start_call None (RequestMade None))) = Some (CallOk (JStr []))"
  using call_ends_once[OF sample_reply] by blast

section \<open>The broker's side\<close>

lemma resolved_is_agent: "c_role (resolve_caller decode suffix header probe uid) = AgentRole"
  using resolve_cases[of decode suffix header probe uid] by (auto simp: unidentified_caller_def caller_of_claim_def)

lemma token_matches_iff: "owner_token_matches p e = Some True \<longleftrightarrow> (\<exists>t. p = Some t \<and> e = Some t \<and> t \<noteq> [])"
  by (auto simp: owner_token_matches_def split: option.splits)

text \<open>
  C39. A request is dispatched as the owner's exactly when its header carries the broker's credential; nothing in the
  request's body matters for it, and whoever is asking otherwise is an agent.
\<close>

theorem owner_role_needs_the_credential:
  assumes "handle_rpc b r = (reply, Some (body, who))"
  shows "(c_role who = OwnerRole \<longleftrightarrow> (\<exists>t. rq_owner r = Some t \<and> rb_token b = Some t \<and> t \<noteq> []))
     \<and> rq_body r = Inr body \<and> rpc_caller b r = Some who \<and> (\<forall>other. rpc_caller b (r\<lparr>rq_body := other\<rparr>) = Some who)"
proof -
  have r: "rq_body r = Inr body" "rpc_caller b r = Some who"
    using assms by (auto simp: handle_rpc_def Let_def split: if_splits sum.splits option.splits)
  have "c_role who = OwnerRole \<longleftrightarrow> owner_token_matches (rq_owner r) (rb_token b) = Some True"
    using r(2) resolved_is_agent by (auto simp: rpc_caller_def owner_caller_def internal_caller_def split: option.splits bool.splits)
  moreover have "rpc_caller b (r\<lparr>rq_body := other\<rparr>) = rpc_caller b r" for other
    by (simp add: rpc_caller_def cong: option.case_cong bool.case_cong)
  ultimately show ?thesis
    using r token_matches_iff by simp
qed

definition sample_rpc_broker :: rpc_broker where
  "sample_rpc_broker = \<lparr>rb_token = Some ''ab'', rb_decode = (\<lambda>_. None), rb_suffix = (\<lambda>_. []),
     rb_probe = \<lparr>probe_start = (\<lambda>_. None), probe_owner = (\<lambda>_. None), probe_alive = (\<lambda>_ _. False)\<rparr>, rb_uid = None,
     rb_settings = (\<lambda>_. Inl RpcOther), rb_dispatch = (\<lambda>body who. Inr body)\<rparr>"

definition sample_rpc_request :: rpc_request where
  "sample_rpc_request = \<lparr>rq_post = True, rq_path = ''/rpc'', rq_body = Inr (JObj [(''method'', JStr ''doctor'')]),
     rq_owner = Some ''ab'', rq_caller = None\<rparr>"

lemma sample_handled:
  "handle_rpc sample_rpc_broker sample_rpc_request
   = (RpcResult (JObj [(''method'', JStr ''doctor'')]), Some (JObj [(''method'', JStr ''doctor'')], owner_caller))"
  by code_simp

theorem owner_role_needs_the_credential_witness:
  "c_role owner_caller = OwnerRole \<and> (\<exists>t. rq_owner sample_rpc_request = Some t \<and> rb_token sample_rpc_broker = Some t)"
  using owner_role_needs_the_credential[OF sample_handled] by (auto simp: owner_caller_def internal_caller_def)

end
