(* ===== verification/WorkspaceSweep.thy ===== *)
theory WorkspaceSweep
  imports Updates OrbitErrors
begin

text \<open>
  \<open>src/workspace-storage.ts\<close>: private work directories on disk, the record of the broker that owns one, and the two
  sweeps that remove what no running broker owns. The file system, the process table and the sockets answer from
  outside: what a directory is, what its record holds, what a signal to a process gives, whether a socket answers
  (None where asking throws), whether a removal goes through. The places of the roots are not modelled, and how
  restore points inside a workspace are made writable is part of whether its removal goes through.
\<close>

section \<open>Creating a workspace\<close>

record root_info =
  ri_directory :: bool
  ri_link :: bool
  ri_uid :: int
  ri_mode :: nat
  ri_filesystem :: int

definition simple_prefix :: "string \<Rightarrow> bool" where
  "simple_prefix p = (case p of
      [] \<Rightarrow> False
    | c # cs \<Rightarrow> between CHR ''a'' CHR ''z'' c \<and> list_all (\<lambda>d. between CHR ''a'' CHR ''z'' d \<or> is_digit d \<or> d = CHR ''-'') cs)"

text \<open>The uid is the process's own where the platform has one; Windows stores no mode.\<close>

definition workspace_refusal :: "bool \<Rightarrow> int option \<Rightarrow> bool \<Rightarrow> string \<Rightarrow> root_info \<Rightarrow> orbit_error option" where
  "workspace_refusal windows uid absolute prefix i =
     (if \<not> absolute \<or> \<not> simple_prefix prefix
      then Some (invalid_request ''Workspace storage requires an absolute path and a simple prefix'')
      else if \<not> ri_directory i \<or> ri_link i \<or> \<not> windows \<and> (Some (ri_uid i) \<noteq> uid \<or> ri_mode i mod 64 \<noteq> 0)
      then Some (invalid_request ''Workspace storage must be a private directory owned by this user'')
      else if ri_filesystem i mod 4294967296 \<in> {16914836, 2240043254}
      then Some (plain_error ''UNSUPPORTED'' ''Workspace storage is on a RAM filesystem; set XDG_CACHE_HOME to a disk-backed directory'')
      else None)"

text \<open>The record a broker leaves in its workspace.\<close>

definition owner_record :: "int \<Rightarrow> string \<Rightarrow> jsval" where
  "owner_record pid socket = JObj [(''pid'', jint pid), (''socket'', JStr socket)]"

section \<open>Who owns a workspace\<close>

datatype signal_answer = ProcessThere | NoSuchProcess | SignalRefused

record sweep_world =
  sw_signal :: "int \<Rightarrow> signal_answer"
  sw_answers :: "string \<Rightarrow> bool option"
  sw_absolute :: "string \<Rightarrow> bool"

definition record_fields :: "jsval option \<Rightarrow> jsobj option" where
  "record_fields v = (case v of Some (JObj fs) \<Rightarrow> Some fs | Some (JArr vs) \<Rightarrow> Some [] | Some (JRef i) \<Rightarrow> Some [] | _ \<Rightarrow> None)"

definition socket_answers :: "sweep_world \<Rightarrow> jsobj \<Rightarrow> bool option" where
  "socket_answers w fs =
     (case getp fs ''socket'' of
        JStr s \<Rightarrow> if sw_absolute w s then Some (case sw_answers w s of None \<Rightarrow> True | Some b \<Rightarrow> b) else None
      | _ \<Rightarrow> None)"

definition usable_pid :: "jsval \<Rightarrow> bool" where
  "usable_pid v \<longleftrightarrow> is_safe_integer v \<and> 1 \<le> int_of_val v \<and> int_of_val v \<le> 2147483647"

text \<open>True and False as in the source, None for undefined; the record is None when it cannot be read.\<close>

definition owner_is_alive :: "sweep_world \<Rightarrow> jsval option \<Rightarrow> bool option" where
  "owner_is_alive w owner =
     (case record_fields owner of
        None \<Rightarrow> None
      | Some fs \<Rightarrow>
          let pid = getp fs ''pid'' in
          if pid = Undef then socket_answers w fs
          else if \<not> usable_pid pid then Some True
          else if sw_signal w (int_of_val pid) = NoSuchProcess then socket_answers w fs
          else Some True)"

section \<open>The sweeps\<close>

record sweep_entry =
  se_directory :: bool
  se_link :: bool
  se_modified :: rat
  se_now :: rat
  se_owner :: "jsval option"
  se_live :: bool
  se_refusal :: "string option"

datatype verdict = NotOurs | Keeps | Removes | Refuses string

record swept =
  sp_removed :: "string list"
  sp_kept :: "string list"
  sp_refused :: "(string \<times> string) list"

definition nothing_swept :: swept where
  "nothing_swept = \<lparr>sp_removed = [], sp_kept = [], sp_refused = []\<rparr>"

definition remove_directory :: "sweep_entry \<Rightarrow> verdict" where
  "remove_directory e = (case se_refusal e of None \<Rightarrow> Removes | Some reason \<Rightarrow> Refuses reason)"

text \<open>One entry of the workspace root: an hour's grace without a record, an entry that cannot be looked at is None.\<close>

definition judge_workspace :: "sweep_world \<Rightarrow> sweep_entry option \<Rightarrow> verdict" where
  "judge_workspace w entry =
     (case entry of
        None \<Rightarrow> NotOurs
      | Some e \<Rightarrow>
          if \<not> se_directory e \<or> se_link e then NotOurs
          else let alive = owner_is_alive w (se_owner e); recent = se_now e - se_modified e < 3600000 in
            if alive = Some True \<or> alive = None \<and> recent then Keeps else remove_directory e)"

text \<open>One entry of the egress root: a minute's grace without a listener.\<close>

definition judge_egress :: "sweep_entry option \<Rightarrow> verdict" where
  "judge_egress entry =
     (case entry of
        None \<Rightarrow> NotOurs
      | Some e \<Rightarrow>
          if \<not> se_directory e \<or> se_link e then NotOurs
          else if se_live e then Keeps
          else if se_now e - se_modified e < 60000 then Keeps
          else remove_directory e)"

fun insert_text :: "string \<Rightarrow> string list \<Rightarrow> string list" where
  "insert_text s [] = [s]"
| "insert_text s (t # ts) = (if text_less t s then t # insert_text s ts else s # t # ts)"

definition sorted_names :: "string list \<Rightarrow> string list" where
  "sorted_names names = foldr insert_text names []"

definition sweep_one :: "(string \<Rightarrow> verdict) \<Rightarrow> string \<Rightarrow> swept \<Rightarrow> swept" where
  "sweep_one judge name s =
     (case judge name of
        NotOurs \<Rightarrow> s
      | Keeps \<Rightarrow> s\<lparr>sp_kept := sp_kept s @ [name]\<rparr>
      | Removes \<Rightarrow> s\<lparr>sp_removed := sp_removed s @ [name]\<rparr>
      | Refuses reason \<Rightarrow> s\<lparr>sp_refused := sp_refused s @ [(name, reason)]\<rparr>)"

definition sweep_names :: "(string \<Rightarrow> verdict) \<Rightarrow> string list option \<Rightarrow> swept" where
  "sweep_names judge entries =
     (case entries of None \<Rightarrow> nothing_swept | Some names \<Rightarrow> fold (sweep_one judge) (sorted_names names) nothing_swept)"

definition clean_workspaces :: "sweep_world \<Rightarrow> (string \<Rightarrow> sweep_entry option) \<Rightarrow> string list option \<Rightarrow> swept" where
  "clean_workspaces w look = sweep_names (\<lambda>name. judge_workspace w (look name))"

definition clean_egress :: "(string \<Rightarrow> sweep_entry option) \<Rightarrow> string list option \<Rightarrow> swept" where
  "clean_egress look = sweep_names (\<lambda>name. judge_egress (look name))"

section \<open>Facts\<close>

lemma set_insert_text [simp]: "set (insert_text s ts) = insert s (set ts)"
  by (induction ts) auto

lemma set_sorted_names [simp]: "set (sorted_names names) = set names"
  by (induction names) (simp_all add: sorted_names_def)

lemma distinct_insert_text: "distinct ts \<Longrightarrow> s \<notin> set ts \<Longrightarrow> distinct (insert_text s ts)"
  by (induction ts) auto

lemma distinct_sorted_names: "distinct names \<Longrightarrow> distinct (sorted_names names)"
  unfolding sorted_names_def by (induction names) (simp_all add: distinct_insert_text set_sorted_names[unfolded sorted_names_def])

lemma fold_sweep_one:
  "sp_removed (fold (sweep_one judge) names s) = sp_removed s @ filter (\<lambda>n. judge n = Removes) names"
  "sp_kept (fold (sweep_one judge) names s) = sp_kept s @ filter (\<lambda>n. judge n = Keeps) names"
  "sp_refused (fold (sweep_one judge) names s) =
     sp_refused s @ List.map (\<lambda>n. (n, case judge n of Refuses r \<Rightarrow> r | _ \<Rightarrow> [])) (filter (\<lambda>n. \<exists>r. judge n = Refuses r) names)"
  by (induction names arbitrary: s) (auto simp: sweep_one_def split: verdict.splits)

lemma sweep_lists:
  "sp_removed (sweep_names judge (Some names)) = filter (\<lambda>n. judge n = Removes) (sorted_names names)"
  "sp_kept (sweep_names judge (Some names)) = filter (\<lambda>n. judge n = Keeps) (sorted_names names)"
  "List.map fst (sp_refused (sweep_names judge (Some names))) = filter (\<lambda>n. \<exists>r. judge n = Refuses r) (sorted_names names)"
  by (simp_all add: sweep_names_def nothing_swept_def fold_sweep_one comp_def)

lemma remove_directory_iff [simp]: "remove_directory e \<noteq> Keeps" "remove_directory e \<noteq> NotOurs"
  "remove_directory e = Removes \<longleftrightarrow> se_refusal e = None"
  by (simp_all add: remove_directory_def split: option.splits)

lemma sweep_partitions:
  assumes "distinct names"
  shows "distinct (sp_removed (sweep_names judge (Some names)) @ sp_kept (sweep_names judge (Some names)) @ List.map fst (sp_refused (sweep_names judge (Some names))))
    \<and> set (sp_removed (sweep_names judge (Some names)) @ sp_kept (sweep_names judge (Some names)) @ List.map fst (sp_refused (sweep_names judge (Some names))))
        = {n \<in> set names. judge n \<noteq> NotOurs}"
proof -
  have v: "judge n = NotOurs \<or> judge n = Keeps \<or> judge n = Removes \<or> (\<exists>r. judge n = Refuses r)" for n
    by (cases "judge n") simp_all
  show ?thesis
    unfolding sweep_lists using v distinct_sorted_names[OF assms] by auto
qed

text \<open>
  C40. The sweep of the workspaces puts every directory it looks at in exactly one of its three lists, one that will not
  go included; it removes only a real directory whose owner's process is gone or was never recorded, whose socket
  does not answer, and which, where there is no evidence at all, is older than an hour.
\<close>

theorem sweep_spares_the_living:
  assumes "distinct names"
  shows "distinct (sp_removed (clean_workspaces w look (Some names)) @ sp_kept (clean_workspaces w look (Some names))
             @ List.map fst (sp_refused (clean_workspaces w look (Some names))))
     \<and> set (sp_removed (clean_workspaces w look (Some names)) @ sp_kept (clean_workspaces w look (Some names))
             @ List.map fst (sp_refused (clean_workspaces w look (Some names))))
         = {n \<in> set names. \<exists>e. look n = Some e \<and> se_directory e \<and> \<not> se_link e}
     \<and> (\<forall>n \<in> set (sp_removed (clean_workspaces w look (Some names))) \<union> fst ` set (sp_refused (clean_workspaces w look (Some names))).
          \<exists>e. look n = Some e \<and> se_directory e \<and> \<not> se_link e
            \<and> (case record_fields (se_owner e) of
                 None \<Rightarrow> 3600000 \<le> se_now e - se_modified e
               | Some fs \<Rightarrow>
                   (getp fs ''pid'' = Undef \<or> usable_pid (getp fs ''pid'') \<and> sw_signal w (int_of_val (getp fs ''pid'')) = NoSuchProcess)
                   \<and> (socket_answers w fs = Some False \<or> socket_answers w fs = None \<and> 3600000 \<le> se_now e - se_modified e)))"
proof -
  define judge where "judge = (\<lambda>name. judge_workspace w (look name))"
  have c: "clean_workspaces w look = sweep_names judge"
    by (simp add: clean_workspaces_def judge_def)
  have ours: "judge n \<noteq> NotOurs \<longleftrightarrow> (\<exists>e. look n = Some e \<and> se_directory e \<and> \<not> se_link e)" for n
    by (auto simp: judge_def judge_workspace_def Let_def split: option.splits)
  have gone: "\<exists>e. look n = Some e \<and> se_directory e \<and> \<not> se_link e
      \<and> owner_is_alive w (se_owner e) \<noteq> Some True
      \<and> (owner_is_alive w (se_owner e) = None \<longrightarrow> 3600000 \<le> se_now e - se_modified e)"
    if "judge n = Removes \<or> (\<exists>r. judge n = Refuses r)" for n
    using that by (auto simp: judge_def judge_workspace_def Let_def split: option.splits if_splits)
  have dead: "case record_fields owner of
        None \<Rightarrow> old
      | Some fs \<Rightarrow>
          (getp fs ''pid'' = Undef \<or> usable_pid (getp fs ''pid'') \<and> sw_signal w (int_of_val (getp fs ''pid'')) = NoSuchProcess)
          \<and> (socket_answers w fs = Some False \<or> socket_answers w fs = None \<and> old)"
    if "owner_is_alive w owner \<noteq> Some True" "owner_is_alive w owner = None \<longrightarrow> old" for owner old
  proof (cases "record_fields owner")
    case (Some fs)
    show ?thesis
      using that Some
      by (cases "socket_answers w fs"; cases "socket_answers w fs = Some True") (simp_all add: owner_is_alive_def Let_def split: if_splits)
  qed (use that in \<open>simp add: owner_is_alive_def\<close>)
  have "set (sp_removed (sweep_names judge (Some names))) \<union> fst ` set (sp_refused (sweep_names judge (Some names)))
      \<subseteq> {n. judge n = Removes \<or> (\<exists>r. judge n = Refuses r)}"
    using sweep_lists(3)[of judge names] by (auto simp: sweep_lists(1) simp flip: set_map)
  then have each: "\<exists>e. look n = Some e \<and> se_directory e \<and> \<not> se_link e
      \<and> (case record_fields (se_owner e) of
           None \<Rightarrow> 3600000 \<le> se_now e - se_modified e
         | Some fs \<Rightarrow>
             (getp fs ''pid'' = Undef \<or> usable_pid (getp fs ''pid'') \<and> sw_signal w (int_of_val (getp fs ''pid'')) = NoSuchProcess)
             \<and> (socket_answers w fs = Some False \<or> socket_answers w fs = None \<and> 3600000 \<le> se_now e - se_modified e))"
    if "n \<in> set (sp_removed (sweep_names judge (Some names))) \<union> fst ` set (sp_refused (sweep_names judge (Some names)))" for n
  proof -
    have "judge n = Removes \<or> (\<exists>r. judge n = Refuses r)"
      using \<open>_ \<subseteq> _\<close> that by blast
    then obtain e where e: "look n = Some e" "se_directory e" "\<not> se_link e" "owner_is_alive w (se_owner e) \<noteq> Some True"
        "owner_is_alive w (se_owner e) = None \<longrightarrow> 3600000 \<le> se_now e - se_modified e"
      using gone by (metis (no_types, lifting))
    show ?thesis
      by (intro exI[of _ e] conjI e(1-3) dead[OF e(4,5)])
  qed
  have "{n \<in> set names. judge n \<noteq> NotOurs} = {n \<in> set names. \<exists>e. look n = Some e \<and> se_directory e \<and> \<not> se_link e}"
    using ours by simp
  note listed = sweep_partitions[OF assms, of judge, unfolded this]
  show ?thesis
    unfolding c
  proof (intro conjI ballI)
    show "distinct (sp_removed (sweep_names judge (Some names)) @ sp_kept (sweep_names judge (Some names)) @ List.map fst (sp_refused (sweep_names judge (Some names))))"
      by (rule listed[THEN conjunct1])
    show "set (sp_removed (sweep_names judge (Some names)) @ sp_kept (sweep_names judge (Some names)) @ List.map fst (sp_refused (sweep_names judge (Some names))))
        = {n \<in> set names. \<exists>e. look n = Some e \<and> se_directory e \<and> \<not> se_link e}"
      by (rule listed[THEN conjunct2])
  qed (rule each)
qed

text \<open>A workspace a running broker marked as its own is kept, whatever else is true of it.\<close>

theorem marked_workspace_is_kept:
  assumes "n \<in> set names" "look n = Some e" "se_directory e" "\<not> se_link e" "se_owner e = Some (owner_record pid socket)"
    "1 \<le> pid" "pid \<le> 2147483647" "sw_signal w pid \<noteq> NoSuchProcess"
  shows "n \<in> set (sp_kept (clean_workspaces w look (Some names)))"
proof -
  have "owner_is_alive w (se_owner e) = Some True"
    using assms(5-8) by (simp add: owner_is_alive_def record_fields_def owner_record_def getp_def usable_pid_def max_safe_def jint_def
        is_safe_integer_def int_of_val_def)
  then have "judge_workspace w (look n) = Keeps"
    using assms(2-4) by (simp add: judge_workspace_def Let_def)
  then show ?thesis
    using assms(1) by (simp add: clean_workspaces_def sweep_lists)
qed

definition sample_world :: sweep_world where
  "sample_world = \<lparr>sw_signal = (\<lambda>pid. if pid = 7 then ProcessThere else NoSuchProcess), sw_answers = (\<lambda>_. Some False), sw_absolute = (\<lambda>_. True)\<rparr>"

definition sample_look :: "string \<Rightarrow> sweep_entry option" where
  "sample_look name = Some \<lparr>se_directory = True, se_link = False, se_modified = 0, se_now = 1,
     se_owner = Some (owner_record (if name = ''a'' then 7 else 8) ''/s''), se_live = False, se_refusal = None\<rparr>"

lemma sample_swept: "sp_removed (clean_workspaces sample_world sample_look (Some [''b'', ''a''])) = [''b'']"
  "sp_kept (clean_workspaces sample_world sample_look (Some [''b'', ''a''])) = [''a'']"
  by code_simp+

theorem sweep_spares_the_living_witness:
  "distinct (sp_removed (clean_workspaces sample_world sample_look (Some [''b'', ''a'']))
     @ sp_kept (clean_workspaces sample_world sample_look (Some [''b'', ''a'']))
     @ List.map fst (sp_refused (clean_workspaces sample_world sample_look (Some [''b'', ''a'']))))
   \<and> sp_removed (clean_workspaces sample_world sample_look (Some [''b'', ''a''])) = [''b'']"
  using sweep_spares_the_living[of "[''b'', ''a'']" sample_world sample_look] by (simp only: sample_swept) simp

end
