(* ===== verification/Spec2Isabelle.thy ===== *)
theory Spec2Isabelle
  imports Arbitration Policy Callers ReadBudget CodexGateFacts CodexIpcFacts ReadChannelFacts ReadUsageFacts ReadViewFacts NativeFacts BrokerClaims Advisor WindowsZipFacts UpdateRun UsageTransportFacts MachineReadings ReadDeliveryFacts BrokerCallFacts WorkspaceSweep
begin

text \<open>
  A verification library for Orbit, a broker that lets agents act on applications of one desktop (\<open>src/\<close> of the
  repository, TypeScript).

  \<^bold>\<open>The program.\<close> One broker process runs for a person. Clients (a command line, connectors of agents) send it one
  request at a time over a local socket (\<open>ipc.ts\<close>); the broker finds out who is asking (\<open>caller.ts\<close>,
  \<open>caller-registry.ts\<close>) and hands the request to its sessions (\<open>session.ts\<close>). A session is one borrowed application:
  it has an owner, a policy (\<open>policy.ts\<close>, open questions going to an advisor process, \<open>advisor.ts\<close>), a queue of jobs
  and a native backend (\<open>hyprland.ts\<close>) that talks to a worker. Callers that want the same application wait in lines
  (\<open>arbitration.ts\<close>). Errors carry what is known of the effect of a request (\<open>errors.ts\<close>, \<open>error-disposition.ts\<close>).
  Beside the sessions stand: reading an application without acting on it (a budget of reservations, a registry of
  channels, a registry of views, the delivery of a reading in copies, and the fence around the use of reads with its
  store over a byte channel); two gates in front of a private Codex owner process; and the keeping of the program
  itself - updates and their archives, private work directories, small readings of the machine.

  \<^bold>\<open>Theories and code.\<close>
  \<^item> \<open>OrbitPrelude\<close>: the JavaScript values the code inspects, results, strings, association tables, runs of a step
    function, and a locale of machines that keep an invariant and only grow in a lasting order. \<open>Doubles\<close>: the language's
    numbers, their rounding, \<open>Number(text)\<close>. \<open>Framing\<close>: readers of a stream that arrives in pieces (a locale).
  \<^item> \<open>OrbitErrors\<close>: \<open>errors.ts\<close>, \<open>error-disposition.ts\<close>. \<open>Policy\<close>: \<open>policy.ts\<close>. \<open>Advisor\<close>: \<open>advisor.ts\<close>.
    \<open>Callers\<close>: \<open>caller.ts\<close>, \<open>caller-registry.ts\<close>. \<open>Arbitration\<close>: \<open>arbitration.ts\<close>.
  \<^item> \<open>BrokerCall\<close>, \<open>BrokerCallFacts\<close>: \<open>ipc.ts\<close>, both sides of a request.
  \<^item> \<open>NativeActions\<close>, \<open>NativeBackend\<close>, \<open>NativeStart\<close>, \<open>NativeFacts\<close>: \<open>hyprland.ts\<close>, its parsers, the class
    \<open>NativeBackend\<close> method by method, and how a backend is started.
  \<^item> \<open>SessionModel\<close> (the state of a session and the synchronous parts), \<open>SessionActs\<close> (\<open>act\<close>, \<open>batch\<close>, the head job),
    \<open>SessionJobs\<close> (\<open>decided\<close>, \<open>runBatch\<close>, \<open>guarded\<close>, \<open>track\<close>), \<open>SessionLife\<close> (pausing, narrowing, observing, stopping,
    the owner's absence), \<open>SessionStart\<close> (\<open>claim\<close>): one session of \<open>session.ts\<close>. \<open>SessionFacts\<close>, \<open>SessionSafety\<close>,
    \<open>SessionRuns\<close>: its lemmas. \<open>SessionClaims\<close>: its theorems.
  \<^item> \<open>Broker\<close> (the table, ownership, leases, routing), \<open>BrokerOps\<close> (creating, claiming), \<open>BrokerOpen\<close> (opening and
    presenting): the rest of \<open>session.ts\<close>. \<open>BrokerFacts\<close>, \<open>BrokerClaims\<close>: its invariant and theorems.
  \<^item> \<open>ReadBudget\<close>: \<open>multi-view-read-budget.ts\<close>. \<open>ReadChannels\<close>, \<open>ReadChannelFacts\<close>: \<open>read-channel-registry.ts\<close>.
    \<open>ReadViews\<close>, \<open>ReadViewFacts\<close>: \<open>multi-view-views.ts\<close>. \<open>ReadDelivery\<close>, \<open>ReadDeliveryFacts\<close>: \<open>read-view-delivery.ts\<close>.
    \<open>ReadUsage\<close>, \<open>ReadUsageFacts\<close>: \<open>read-usage-coordinator.ts\<close>. \<open>UsageTransport\<close>, \<open>UsageTransportFacts\<close>:
    \<open>read-usage-store-transport.ts\<close>.
  \<^item> \<open>CodexFilter\<close>, \<open>CodexRequests\<close>, \<open>CodexSocket\<close>, \<open>CodexGate\<close>, \<open>CodexGateFacts\<close>: \<open>codex-authority-gate.ts\<close>: the
    filters of requests and answers, what an admitted request looks like, the WebSocket, the gate over its events.
    \<open>CodexIpc\<close>, \<open>CodexIpcFacts\<close>: \<open>codex-ipc-gate.ts\<close>.
  \<^item> \<open>Updates\<close>, \<open>UpdatesFacts\<close> (choosing a version), \<open>UpdateActivation\<close>, \<open>UpdateActivationFacts\<close> (unpacking,
    pointing, recovering), \<open>UpdateRun\<close> (preparing, the switch, the timer's pass): \<open>update.ts\<close>. \<open>WindowsZip\<close>,
    \<open>WindowsZipFacts\<close>: \<open>windows-zip.ts\<close>.
  \<^item> \<open>WorkspaceSweep\<close>: \<open>workspace-storage.ts\<close>. \<open>MachineReadings\<close>: \<open>process-tree.ts\<close>, \<open>cpu-sample.ts\<close>, \<open>viewport.ts\<close>.

  Definitions keep the names of the code in another spelling (\<open>call_step\<close> is the handlers of \<open>call\<close>); a class is a
  record and its methods are functions on it; an enumeration or a tagged union is a datatype; an object from outside is a
  value of \<open>jsval\<close>; a thrown error is \<open>Err\<close> (\<open>Inl\<close>) with the error that is thrown.

  \<^bold>\<open>State machines.\<close> Asynchronous code is a state and a set of events. A step is one callback run to its end: what
  JavaScript runs without awaiting is one step, and every await splits a function into the step before it and the step
  of the answer. A run is any list of events, so every interleaving is one; events over-approximate, an answer that
  belongs to nothing pending being ignored as the code ignores it. Where a callback of the code is asked from within an
  operation and may call back (\<open>ReadViews\<close>, \<open>ReadChannels\<close>, \<open>ReadDelivery\<close>), its answers are a queue handed to the
  operation, together with the calls it makes meanwhile; which calls may not occur there is said in those theories.
  The broker's answers to a session, the clock, random identities and the disk are arguments of a step. In \<open>ReadDelivery\<close>
  a timer may also fire after it was disarmed. The updates run under their lock, one operation at a time; their log of the
  disk has a place for every crash. In \<open>WindowsZip\<close> an extraction stopped from outside leaves a beginning of what is made.

  \<^bold>\<open>What the lemmas show.\<close> C1, C2, C9 - C12: a session over all its events - a request is delivered once, and only when
  its policy of that moment and its first policy permit it; a pause leaves no agent work; its life refines a small
  automaton; jobs end in order and do end. C3, C4, C8, C13, C14: the broker over all its events - who may change a
  session, where authority changes come from, leases, workspaces, the bound of 32. C5 - C7, C15: the decision of a policy
  against an independent description, and the advisor. C16: the lines. C17, C24 - C27, C35, C37: reading - the budget
  conserves and bounds what is reserved, ended channels and views stay ended, a current use is stored, the store and the
  delivery refine a line and a ledger. C18 - C20, C22, C23: the gates in front of the owner. C21: the backend's
  invariant. C28 - C34: updates - crash recovery, true reports, boundaries, caution, the order of versions, archives.
  C36, C38 - C40: processes, replies, the owner's credential, the sweep of work directories.
  The locale of the prelude is interpreted on the session, the budget, both registries of reading and the usage fence; what
  is over there stays over by its lemmas. The locale of \<open>Framing\<close> (how a stream is cut does not matter) is interpreted on
  the readers of both gates, and that of \<open>Arbitration\<close> (a line) on its queue.

  \<^bold>\<open>Termination and bounds.\<close> Loops of the code are structural recursion or recursion with a measure; no definition needs
  fuel, and all are total. The walk over a table of processes, which may be a cycle, ends by the number of processes not
  yet met. The polling of a saved turn in
  \<open>CodexGate\<close> keeps the code's own bounds, 40 attempts and 12 seconds from its beginning; its counter is in the state, so a
  poll that is over is over for every run. The constants of the code (32 sessions, 32 MiB of a reply, 64 KiB pieces, 16
  closed sessions, 16 MiB of a frame) appear as they are.

  \<^bold>\<open>Numbers.\<close> Integers the code keeps in safe range are \<open>int\<close> or \<open>nat\<close>; checksums and lengths on the wire are words. Numbers
  of texts, of windows and pointers are doubles (\<open>Doubles\<close>): rounded where digits may be lost, with overflow to
  infinity and underflow to zero; a zero has no sign. The characters of a string are below 256 unless a theory says
  otherwise. The quotients of \<open>cpu-sample.ts\<close> are exact fractions.

  \<^bold>\<open>Parameters.\<close> What the code takes from elsewhere is an argument: \<open>JSON.parse\<close>, UTF-8 and base64, the size of a text, the
  URL parser, dates, hashes and random bytes, inflating, the file system, processes, sockets and the network.
  \<open>WindowsZip\<close>'s destination does not distinguish upper and lower case.

  \<^bold>\<open>Not modelled.\<close>
  \<^item> Of \<open>session.ts\<close>: read views and the wiring of the usage fence, resource status, the queries for installed
    applications and the desktop, closing the whole broker, the journal's file; and that creations are
    chained one after the other (here they may interleave, which has more runs).
  \<^item> Of \<open>codex-authority-gate.ts\<close>: the state-socket server (lines 1026 - 1121), which answers hello, snapshot and a fixed
    set of keys, narrows the first two answers itself and passes the owner's other messages on without the
    credential filter - C18 speaks of the WebSocket only; the checks of the socket files, the opening handshake, and
    starting and stopping the servers.
  \<^item> Of \<open>read-view-delivery.ts\<close>: claiming a lease once, the shape checks of the options, the failure of removing a listener.
    Of the registries: proxies and accessors as arguments.
  \<^item> Of \<open>caller.ts\<close>: reading \<open>/proc\<close> and writing the credential's file. Of \<open>ipc.ts\<close>: starting and closing the
    broker. Of \<open>hyprland.ts\<close>: starting and closing the worker, copying diagnostics. Of \<open>update.ts\<close>: the status, the adoption
    of a first installation, the network. Of \<open>workspace-storage.ts\<close>: the places of the roots and the restore points.
  \<^item> The worker itself (\<open>src/native/\<close>, C++), the adapters that only translate to and from the broker's requests, the
    installers and services of each platform, resource accounting, settings and diagnostics, the desktop panel, the website.
\<close>

end
